(* ===== verification/Wj_Btree.thy ===== *)
theory Wj_Btree
  imports Wj_Prelude
begin

text \<open>
  \<open>BTreeMap\<close> and \<open>BTreeSet\<close> of the Rust standard library as ordered association lists and
  ordered lists, so that iteration order is the key order. The locale \<open>ordered_map\<close> is the
  contract the components rely on (what a lookup returns after an insertion or a removal, and
  that the entries are listed in key order); its lemmas are proved once and interpreted on the
  list implementation.
\<close>

type_synonym ('k, 'v) btree = "('k \<times> 'v) list"

fun bt_insert :: "'k::linorder \<Rightarrow> 'v \<Rightarrow> ('k, 'v) btree \<Rightarrow> ('k, 'v) btree" where
  "bt_insert k v [] = [(k, v)]"
| "bt_insert k v ((a, b) # m) =
     (if k < a then (k, v) # (a, b) # m
      else if k = a then (k, v) # m
      else (a, b) # bt_insert k v m)"

fun bt_remove :: "'k::linorder \<Rightarrow> ('k, 'v) btree \<Rightarrow> ('k, 'v) btree" where
  "bt_remove k [] = []"
| "bt_remove k ((a, b) # m) = (if k = a then m else (a, b) # bt_remove k m)"

fun bt_get :: "('k, 'v) btree \<Rightarrow> 'k \<Rightarrow> 'v option" where
  "bt_get [] k = None"
| "bt_get ((a, b) # m) k = (if k = a then Some b else bt_get m k)"

definition bt_wf :: "('k::linorder, 'v) btree \<Rightarrow> bool" where
  "bt_wf m \<longleftrightarrow> strictly_ordered (map fst m)"

definition bt_keys :: "('k, 'v) btree \<Rightarrow> 'k list" where
  "bt_keys m = map fst m"

definition bt_values :: "('k, 'v) btree \<Rightarrow> 'v list" where
  "bt_values m = map snd m"

definition bt_of_list :: "('k::linorder \<times> 'v) list \<Rightarrow> ('k, 'v) btree" where
  "bt_of_list kvs = fold (\<lambda>(k, v). bt_insert k v) kvs []"

fun bs_insert :: "'a::linorder \<Rightarrow> 'a list \<Rightarrow> 'a list" where
  "bs_insert x [] = [x]"
| "bs_insert x (y # ys) =
     (if x < y then x # y # ys else if x = y then y # ys else y # bs_insert x ys)"

definition bs_of_list :: "'a::linorder list \<Rightarrow> 'a list" where
  "bs_of_list xs = fold bs_insert xs []"

lemma alist_unique:
  assumes "map fst xs = map fst ys" and "distinct (map fst xs)" and "map_of xs = map_of ys"
  shows "xs = ys"
proof -
  have "length xs = length ys"
    using assms(1) by (metis length_map)
  then show ?thesis
    using assms
  proof (induction xs ys rule: list_induct2)
    case (Cons x xs y ys)
    have snd: "snd x = snd y"
      using fun_cong[OF Cons.prems(3), of "fst x"] Cons.prems(1) by (cases x; cases y) simp
    have "map_of xs k = map_of ys k" for k
    proof (cases "k = fst x")
      case True
      then have "k \<notin> set (map fst xs)" "k \<notin> set (map fst ys)"
        using Cons.prems(1,2) by auto
      then have "map_of xs k = None" "map_of ys k = None"
        by (simp_all add: map_of_eq_None_iff)
      then show ?thesis by simp
    next
      case False
      then show ?thesis
        using fun_cong[OF Cons.prems(3), of k] Cons.prems(1) by (cases x; cases y) simp
    qed
    then have "xs = ys"
      using Cons by auto
    then show ?case
      using snd Cons.prems(1) by (simp add: prod_eq_iff)
  qed simp
qed

lemma map_of_rev_distinct: "distinct (map fst kvs) \<Longrightarrow> map_of (rev kvs) = map_of kvs"
  by (metis distinct_rev map_of_inject_set rev_map set_rev)

section \<open>The contract of an ordered map\<close>

locale ordered_map =
  fixes ins :: "'k::linorder \<Rightarrow> 'v \<Rightarrow> 'm \<Rightarrow> 'm"
    and rem :: "'k \<Rightarrow> 'm \<Rightarrow> 'm"
    and get :: "'m \<Rightarrow> 'k \<Rightarrow> 'v option"
    and entries :: "'m \<Rightarrow> ('k \<times> 'v) list"
    and none :: 'm
    and inv :: "'m \<Rightarrow> bool"
  assumes inv_none: "inv none"
    and inv_ins: "inv m \<Longrightarrow> inv (ins k v m)"
    and inv_rem: "inv m \<Longrightarrow> inv (rem k m)"
    and get_none: "get none = Map.empty"
    and get_ins: "inv m \<Longrightarrow> get (ins k v m) = (get m)(k \<mapsto> v)"
    and get_rem: "inv m \<Longrightarrow> get (rem k m) = (get m)(k := None)"
    and get_entries: "inv m \<Longrightarrow> map_of (entries m) = get m"
    and entries_ordered: "inv m \<Longrightarrow> sorted_wrt (<) (map fst (entries m))"
begin

lemma entries_unique:
  assumes "inv m" and "inv n" and "get m = get n"
  shows "entries m = entries n"
proof -
  have mof: "map_of (entries m) = map_of (entries n)"
    using assms by (simp add: get_entries)
  have "set (map fst (entries m)) = set (map fst (entries n))"
    using mof by (metis dom_map_of_conv_image_fst list.set_map)
  moreover have sm: "sorted_wrt (<) (map fst (entries m))" "sorted_wrt (<) (map fst (entries n))"
    using assms entries_ordered by blast+
  ultimately have "map fst (entries m) = map fst (entries n)"
    by (simp add: strictly_ordered_unique order_simps)
  then show ?thesis
    using sm mof by (intro alist_unique) (simp_all add: strict_sorted_iff)
qed

definition from_list :: "('k \<times> 'v) list \<Rightarrow> 'm" where
  "from_list kvs = fold (\<lambda>(k, v). ins k v) kvs none"

lemma inv_fold_ins: "inv m \<Longrightarrow> inv (fold (\<lambda>(k, v). ins k v) kvs m)"
  by (induction kvs arbitrary: m) (auto simp: inv_ins split: prod.splits)

lemma get_fold_ins:
  "inv m \<Longrightarrow> get (fold (\<lambda>(k, v). ins k v) kvs m) = get m ++ map_of (rev kvs)"
proof (induction kvs arbitrary: m)
  case (Cons kv kvs)
  then show ?case
    by (cases kv) (simp add: inv_ins get_ins map_add_upd_left map_of_append
        fun_eq_iff map_add_def split: option.splits)
qed simp

lemma get_from_list: "distinct (map fst kvs) \<Longrightarrow> get (from_list kvs) = map_of kvs"
  by (simp add: from_list_def get_fold_ins inv_none get_none map_of_rev_distinct)

lemma from_list_entries_perm:
  assumes "distinct (map fst kvs)" and "mset kvs = mset kvs'"
  shows "entries (from_list kvs) = entries (from_list kvs')"
proof -
  have d': "distinct (map fst kvs')"
    using assms by (metis distinct_map mset_map mset_eq_imp_distinct_iff)
  have "map_of kvs = map_of kvs'"
    using assms d' by (metis map_of_inject_set set_mset_mset)
  then show ?thesis
    using assms d' by (intro entries_unique)
      (simp_all add: from_list_def inv_fold_ins inv_none flip: get_from_list)
qed

end

section \<open>The list implementation\<close>

lemma bt_wf_simps [simp]:
  "bt_wf []" "bt_wf ((k, v) # m) \<longleftrightarrow> (\<forall>x \<in> fst ` set m. k < x) \<and> bt_wf m"
  by (auto simp: bt_wf_def order_simps)

lemma keys_bt_insert: "fst ` set (bt_insert k v m) = insert k (fst ` set m)"
  by (induction k v m rule: bt_insert.induct) (auto split: if_splits)

lemma set_bt_remove_subset: "set (bt_remove k m) \<subseteq> set m"
  by (induction k m rule: bt_remove.induct) (auto split: if_splits)

lemma bt_wf_insert: "bt_wf m \<Longrightarrow> bt_wf (bt_insert k v m)"
proof (induction m)
  case (Cons kv m)
  then show ?case
    by (cases kv) (auto simp: keys_bt_insert dest: less_trans bspec)
qed simp

lemma bt_wf_remove: "bt_wf m \<Longrightarrow> bt_wf (bt_remove k m)"
proof (induction m)
  case (Cons kv m)
  then show ?case
    by (cases kv) (use set_bt_remove_subset[of k m] in \<open>force\<close>)
qed simp

lemma bt_get_map_of: "bt_get m = map_of m"
  by (induction m) (auto simp: fun_eq_iff)

lemma bt_get_insert: "bt_get (bt_insert k v m) = (bt_get m)(k \<mapsto> v)"
  by (induction m) (auto simp: fun_eq_iff)

lemma bt_get_remove: "bt_wf m \<Longrightarrow> bt_get (bt_remove k m) = (bt_get m)(k := None)"
proof (induction m)
  case (Cons kv m)
  have "bt_get m (fst kv) = None"
    using Cons.prems by (cases kv) (auto simp: bt_get_map_of map_of_eq_None_iff)
  then show ?case
    using Cons by (cases kv) (auto simp: fun_eq_iff)
qed (simp add: fun_eq_iff)

lemma bt_get_remove_other: "k \<noteq> f \<Longrightarrow> bt_get (bt_remove f m) k = bt_get m k"
  by (induction f m rule: bt_remove.induct) auto

interpretation bt: ordered_map bt_insert bt_remove bt_get "\<lambda>m. m" "[]" bt_wf
proof unfold_locales
  show "bt_get [] = Map.empty"
    by (simp add: fun_eq_iff)
  show "sorted_wrt (<) (map fst m)" if "bt_wf m" for m :: "('a::linorder \<times> 'b) list"
    using that by (simp add: bt_wf_def order_simps)
  show "map_of m = bt_get m" for m :: "('a::linorder \<times> 'b) list"
    by (simp add: bt_get_map_of)
qed (simp_all add: bt_wf_insert bt_wf_remove bt_get_insert bt_get_remove)

lemma bt_of_list_eq: "bt_of_list kvs = bt.from_list kvs"
  by (simp add: bt_of_list_def bt.from_list_def)

lemma bt_wf_of_list: "bt_wf (bt_of_list kvs)"
  by (simp add: bt_of_list_eq bt.from_list_def bt.inv_fold_ins)

lemma bt_get_of_list: "distinct (map fst kvs) \<Longrightarrow> bt_get (bt_of_list kvs) = map_of kvs"
  by (simp add: bt_of_list_eq bt.get_from_list)

lemma bt_of_list_perm:
  "distinct (map fst kvs) \<Longrightarrow> mset kvs = mset kvs' \<Longrightarrow> bt_of_list kvs = bt_of_list kvs'"
  unfolding bt_of_list_eq by (rule bt.from_list_entries_perm)

lemma bt_wf_distinct: "bt_wf m \<Longrightarrow> distinct (bt_keys m)"
  by (simp add: bt_wf_def bt_keys_def strictly_ordered_distinct)

lemma bt_get_Some_iff: "bt_wf m \<Longrightarrow> bt_get m k = Some v \<longleftrightarrow> (k, v) \<in> set m"
  using bt_wf_distinct[of m] by (simp add: bt_get_map_of bt_keys_def)

lemma bt_get_None_iff: "bt_get m k = None \<longleftrightarrow> k \<notin> set (bt_keys m)"
  by (simp add: bt_get_map_of bt_keys_def map_of_eq_None_iff)

lemma bt_extensional: "bt_wf m \<Longrightarrow> bt_wf n \<Longrightarrow> bt_get m = bt_get n \<Longrightarrow> m = n"
  by (rule bt.entries_unique)

lemma set_bt_of_list: "distinct (map fst kvs) \<Longrightarrow> set (bt_of_list kvs) = set kvs"
  using bt_get_Some_iff[OF bt_wf_of_list, of kvs] bt_get_of_list[of kvs] by auto

lemma length_bt_of_list: "distinct (map fst kvs) \<Longrightarrow> length (bt_of_list kvs) = length kvs"
  by (metis bt_keys_def bt_wf_distinct bt_wf_of_list distinct_card distinct_map set_bt_of_list)

section \<open>Ordered sets\<close>

lemma set_bs_insert [simp]: "set (bs_insert x xs) = insert x (set xs)"
  by (induction xs) auto

lemma ordered_bs_insert: "sorted_wrt (<) xs \<Longrightarrow> sorted_wrt (<) (bs_insert x xs)"
  by (induction xs) (auto dest: less_trans)

lemma fold_bs_insert:
  "set (fold bs_insert xs ys) = set xs \<union> set ys \<and>
   (sorted_wrt (<) ys \<longrightarrow> sorted_wrt (<) (fold bs_insert xs ys))"
  by (induction xs arbitrary: ys) (auto simp: ordered_bs_insert)

lemma set_bs_of_list [simp]: "set (bs_of_list xs) = set xs"
  by (simp add: bs_of_list_def fold_bs_insert)

lemma ordered_bs_of_list: "sorted_wrt (<) (bs_of_list xs)"
  by (simp add: bs_of_list_def fold_bs_insert)

lemma length_bs_of_list: "length (bs_of_list xs) = length xs \<longleftrightarrow> distinct xs"
  by (metis card_distinct distinct_card ordered_bs_of_list set_bs_of_list strict_sorted_iff)

end
