(* ===== verification/Wj_External.thy ===== *)
theory Wj_External
  imports Wj_Btree
begin

text \<open>
  The third-party code the crate calls, as parameters of the model: a record \<open>ext\<close> of
  functions for \<open>uuid\<close>, \<open>jiff\<close>, \<open>blake3\<close>, \<open>serde_json\<close> and the visitors \<open>serde\<close> derives,
  passed to every definition that uses one of them, and the documented behaviour some
  theorems rely on as named predicates over that record. \<open>serde_json::Value\<close> is the datatype
  \<open>json\<close>; its object map is key-ordered (the \<open>preserve_order\<close> feature is off).
\<close>

section \<open>JSON values\<close>

datatype number = PosInt nat | NegInt int | FloatNum string

datatype json =
    JNull
  | JBool bool
  | JNumber number
  | JString string
  | JArray "json list"
  | JObject "(string \<times> json) list"

text \<open>
  What the \<open>serde_json\<close> deserializer feeds to a visitor, in document order: \<open>RFail\<close> is an
  error where a value should start; the option of an array or object is an error met when
  the next element or key is fetched.
\<close>

datatype raw_json =
    RNull
  | RBool bool
  | RI64 int
  | RU64 nat
  | RF64 string
  | RString string
  | RArray "raw_json list" "string option"
  | RObject "(string \<times> raw_json) list" "string option"
  | RFail string

text \<open>Object keys are strictly ordered and numbers are in normal form.\<close>

fun json_wf :: "json \<Rightarrow> bool" where
  "json_wf (JArray vs) = list_all json_wf vs"
| "json_wf (JObject kvs) = (bt_wf kvs \<and> list_all (\<lambda>kv. json_wf (snd kv)) kvs)"
| "json_wf (JNumber (NegInt i)) = (i < 0)"
| "json_wf _ = True"

fun float_free :: "json \<Rightarrow> bool" where
  "float_free (JNumber (FloatNum _)) = False"
| "float_free (JArray vs) = list_all float_free vs"
| "float_free (JObject kvs) = list_all (\<lambda>kv. float_free (snd kv)) kvs"
| "float_free _ = True"

fun json_depth :: "json \<Rightarrow> nat" where
  "json_depth (JArray vs) = Suc (fold max (map json_depth vs) 0)"
| "json_depth (JObject kvs) = Suc (fold max (map (\<lambda>kv. json_depth (snd kv)) kvs) 0)"
| "json_depth _ = 0"

text \<open>The events of the document that denotes a value.\<close>

fun raw_of :: "json \<Rightarrow> raw_json" where
  "raw_of JNull = RNull"
| "raw_of (JBool b) = RBool b"
| "raw_of (JNumber (PosInt n)) = RU64 n"
| "raw_of (JNumber (NegInt i)) = RI64 i"
| "raw_of (JNumber (FloatNum s)) = RF64 s"
| "raw_of (JString s) = RString s"
| "raw_of (JArray vs) = RArray (map raw_of vs) None"
| "raw_of (JObject kvs) = RObject (map (\<lambda>kv. (fst kv, raw_of (snd kv))) kvs) None"

section \<open>The external functions\<close>

type_synonym uuid = "128 word"
type_synonym timestamp = int
type_synonym digest = bytes

record ext =
  uuid_parse_str :: "string \<Rightarrow> uuid option"
  uuid_hyphenated :: "uuid \<Rightarrow> string"
  uuid_is_nil :: "uuid \<Rightarrow> bool"
  uuid_is_rfc4122 :: "uuid \<Rightarrow> bool"
  uuid_version_num :: "uuid \<Rightarrow> nat"
  timestamp_parse :: "string \<Rightarrow> timestamp option"
  timestamp_to_string :: "timestamp \<Rightarrow> string"
  blake3_hash :: "bytes \<Rightarrow> digest"
  blake3_from_hex :: "string \<Rightarrow> digest option"
  blake3_to_hex :: "digest \<Rightarrow> string"
  json_read :: "bytes \<Rightarrow> raw_json \<times> string option"
  json_pretty :: "json \<Rightarrow> bytes option"
  serde_fields :: "(string \<times> bool) list \<Rightarrow> json \<Rightarrow> json option list option"
  serde_tagged :: "string \<Rightarrow> json \<Rightarrow> (string \<times> json) option"

text \<open>
  \<open>json_read bs\<close> is the event tree of the first value of the input with the error of
  \<open>Deserializer::end\<close>, if any. \<open>serde_fields fs v\<close> is the derived visitor of a struct with
  \<open>deny_unknown_fields\<close> whose fields are \<open>fs\<close> in declaration order (the flag says
  \<open>serde(default)\<close>): \<open>None\<close> when the shape is rejected, otherwise one entry per field.
  \<open>serde_tagged t v\<close> splits an internally tagged enum value into its tag and the buffered rest.
\<close>

section \<open>Documented behaviour\<close>

definition uuid_roundtrip :: "ext \<Rightarrow> bool" where
  "uuid_roundtrip X \<longleftrightarrow>
     (\<forall>u. \<not> uuid_is_nil X u \<longrightarrow> uuid_is_rfc4122 X u \<longrightarrow>
        uuid_parse_str X (uuid_hyphenated X u) = Some u)"

definition is_lower_hex :: "char \<Rightarrow> bool" where
  "is_lower_hex c \<longleftrightarrow>
     (CHR ''0'' \<le> c \<and> c \<le> CHR ''9'') \<or> (CHR ''a'' \<le> c \<and> c \<le> CHR ''f'')"

text \<open>The hyphenated form never contains a path separator.\<close>

definition uuid_plain :: "ext \<Rightarrow> bool" where
  "uuid_plain X \<longleftrightarrow> (\<forall>u. CHR ''/'' \<notin> set (uuid_hyphenated X u) \<and> is_ascii (uuid_hyphenated X u))"

text \<open>It has 36 characters, lowercase hexadecimal digits and hyphens.\<close>

definition uuid_text_form :: "ext \<Rightarrow> bool" where
  "uuid_text_form X \<longleftrightarrow>
     (\<forall>u. length (uuid_hyphenated X u) = 36 \<and>
        list_all (\<lambda>c. is_lower_hex c \<or> c = CHR ''-'') (uuid_hyphenated X u))"

definition timestamp_roundtrip :: "ext \<Rightarrow> bool" where
  "timestamp_roundtrip X \<longleftrightarrow>
     (\<forall>t. timestamp_parse X (timestamp_to_string X t) = Some t \<and>
        ends_with (timestamp_to_string X t) ''Z'')"

definition hex_roundtrip :: "ext \<Rightarrow> bool" where
  "hex_roundtrip X \<longleftrightarrow>
     (\<forall>d. length d = 32 \<longrightarrow> blake3_from_hex X (blake3_to_hex X d) = Some d \<and>
        length (blake3_to_hex X d) = 64 \<and> list_all is_lower_hex (blake3_to_hex X d))"

text \<open>Decoding 64 lowercase digits and printing them again is the identity.\<close>

definition hex_canonical :: "ext \<Rightarrow> bool" where
  "hex_canonical X \<longleftrightarrow>
     (\<forall>s d. length s = 64 \<longrightarrow> list_all is_lower_hex s \<longrightarrow> blake3_from_hex X s = Some d \<longrightarrow>
        blake3_to_hex X d = s \<and> length d = 32)"

definition blake3_length :: "ext \<Rightarrow> bool" where
  "blake3_length X \<longleftrightarrow> (\<forall>bs. length (blake3_hash X bs) = 32)"

text \<open>
  Reading back what the pretty printer wrote, a final newline included, within the reader's
  recursion limit.
\<close>

definition json_limit :: nat where "json_limit = 127"

definition json_roundtrip :: "ext \<Rightarrow> bool" where
  "json_roundtrip X \<longleftrightarrow>
     (\<forall>v bs. json_wf v \<longrightarrow> float_free v \<longrightarrow> json_depth v \<le> json_limit \<longrightarrow>
        json_pretty X v = Some bs \<longrightarrow> json_read X (bs @ [CHR 0x0A]) = (raw_of v, None))"

text \<open>
  A derived struct visitor on an object: unknown keys and missing required fields are
  rejected, otherwise each field gets its value. On an array the fields are positional.
\<close>

definition struct_of_object :: "(string \<times> bool) list \<Rightarrow> (string \<times> json) list \<Rightarrow> json option list option" where
  "struct_of_object fs kvs =
     (if list_all (\<lambda>kv. fst kv \<in> set (map fst fs)) kvs \<and>
         list_all (\<lambda>(f, dflt). dflt \<or> map_of kvs f \<noteq> None) fs
      then Some (map (\<lambda>(f, _). map_of kvs f) fs) else None)"

definition struct_of_array :: "(string \<times> bool) list \<Rightarrow> json list \<Rightarrow> json option list option" where
  "struct_of_array fs vs =
     (if length vs \<le> length fs \<and> list_all snd (drop (length vs) fs)
      then Some (map Some vs @ replicate (length fs - length vs) None) else None)"

definition serde_object_law :: "ext \<Rightarrow> bool" where
  "serde_object_law X \<longleftrightarrow>
     (\<forall>fs kvs. json_wf (JObject kvs) \<longrightarrow> distinct (map fst fs) \<longrightarrow>
        serde_fields X fs (JObject kvs) = struct_of_object fs kvs)"

definition serde_array_law :: "ext \<Rightarrow> bool" where
  "serde_array_law X \<longleftrightarrow>
     (\<forall>fs vs. distinct (map fst fs) \<longrightarrow>
        serde_fields X fs (JArray vs) = struct_of_array fs vs)"

definition serde_tagged_law :: "ext \<Rightarrow> bool" where
  "serde_tagged_law X \<longleftrightarrow>
     (\<forall>t kvs s. json_wf (JObject kvs) \<longrightarrow> map_of kvs t = Some (JString s) \<longrightarrow>
        serde_tagged X t (JObject kvs) = Some (s, JObject (filter (\<lambda>kv. fst kv \<noteq> t) kvs)))"

lemmas ext_laws = uuid_roundtrip_def uuid_plain_def uuid_text_form_def timestamp_roundtrip_def hex_roundtrip_def
  hex_canonical_def blake3_length_def json_roundtrip_def serde_object_law_def
  serde_array_law_def serde_tagged_law_def

end
