(* ===== verification/Wj_Json.thy ===== *)
theory Wj_Json
  imports Wj_External
begin

text \<open>
  The strict JSON codec of \<open>json.rs\<close>: a visitor that rejects duplicate keys and floating-point
  numbers, the decoder around it, and the pretty encoder. The lemmas show that whatever the
  decoder accepts is a well-formed float-free value and that encoding followed by decoding is
  the identity.
\<close>

datatype strict_json_error =
    SJ_Invalid string
  | SJ_DuplicateKey string
  | SJ_FloatNotAllowed

text \<open>
  Errors a visitor run ends with, before \<open>map_error\<close> reads them back from the message: the
  duplicate-key marker with its key, the float message, or the reader's own message.
\<close>

datatype visit_error = VDuplicateKey string | VFloat | VSyntax string

definition map_error :: "visit_error \<Rightarrow> strict_json_error" where
  "map_error e = (case e of
      VDuplicateKey k \<Rightarrow> SJ_DuplicateKey k
    | VFloat \<Rightarrow> SJ_FloatNotAllowed
    | VSyntax m \<Rightarrow> SJ_Invalid m)"

definition visit_i64 :: "int \<Rightarrow> json" where
  "visit_i64 i = JNumber (if 0 \<le> i then PosInt (nat i) else NegInt i)"

lemma raw_size_in_list: "r \<in> set rs \<Longrightarrow> size (r :: raw_json) \<le> size_list size rs"
  by (rule size_list_estimation') auto

function (sequential) strict_visit :: "raw_json \<Rightarrow> visit_error + json"
  and visit_map :: "(string, json) btree \<Rightarrow> (string \<times> raw_json) list \<Rightarrow> string option \<Rightarrow> visit_error + json"
where
  "strict_visit RNull = Inr JNull"
| "strict_visit (RBool b) = Inr (JBool b)"
| "strict_visit (RI64 i) = Inr (visit_i64 i)"
| "strict_visit (RU64 n) = Inr (JNumber (PosInt n))"
| "strict_visit (RF64 s) = Inl VFloat"
| "strict_visit (RString s) = Inr (JString s)"
| "strict_visit (RArray rs fin) =
     rbind (try_map strict_visit rs)
       (\<lambda>vs. case fin of None \<Rightarrow> Inr (JArray vs) | Some m \<Rightarrow> Inl (VSyntax m))"
| "strict_visit (RObject krs fin) = visit_map [] krs fin"
| "strict_visit (RFail m) = Inl (VSyntax m)"
| "visit_map acc [] fin = (case fin of None \<Rightarrow> Inr (JObject acc) | Some m \<Rightarrow> Inl (VSyntax m))"
| "visit_map acc ((k, r) # krs) fin =
     (if bt_get acc k \<noteq> None then Inl (VDuplicateKey k)
      else rbind (strict_visit r) (\<lambda>v. visit_map (bt_insert k v acc) krs fin))"
  by pat_completeness auto
termination
  by (relation "measure (\<lambda>x. case x of Inl r \<Rightarrow> 2 * size r
      | Inr (acc, krs, fin) \<Rightarrow> Suc (2 * size_list (\<lambda>kr. Suc (size (snd kr))) krs))")
    (auto simp: size_prod_simp less_Suc_eq_le dest: raw_size_in_list)

definition decode_strict :: "ext \<Rightarrow> bytes \<Rightarrow> strict_json_error + json" where
  "decode_strict X bs =
     (let (raw, fin) = json_read X bs in
      rbind (map_err map_error (strict_visit raw))
        (\<lambda>v. case fin of None \<Rightarrow> Inr v | Some m \<Rightarrow> Inl (SJ_Invalid m)))"

fun reject_floats :: "json \<Rightarrow> strict_json_error + unit" where
  "reject_floats (JNumber (FloatNum _)) = Inl SJ_FloatNotAllowed"
| "reject_floats (JArray vs) = rbind (try_map reject_floats vs) (\<lambda>_. Inr ())"
| "reject_floats (JObject kvs) =
     rbind (try_map (\<lambda>kv. reject_floats (snd kv)) kvs) (\<lambda>_. Inr ())"
| "reject_floats _ = Inr ()"

definition encode_pretty :: "ext \<Rightarrow> json \<Rightarrow> strict_json_error + bytes" where
  "encode_pretty X v =
     rbind (reject_floats v) (\<lambda>_.
       case json_pretty X v of
         None \<Rightarrow> Inl (SJ_Invalid [])
       | Some bs \<Rightarrow> Inr (bs @ [CHR 0x0A]))"

section \<open>What the strict decoder accepts\<close>

definition good_json :: "json \<Rightarrow> bool" where
  "good_json v \<longleftrightarrow> json_wf v \<and> float_free v"

lemma good_json_simps [simp]:
  "good_json (JString s)" "good_json (JBool b)" "good_json JNull"
  "good_json (JArray vs) = list_all good_json vs"
  "good_json (JObject kvs) = (bt_wf kvs \<and> list_all (\<lambda>kv. good_json (snd kv)) kvs)"
  by (auto simp: good_json_def list_all_iff)

lemma good_visit_i64: "good_json (visit_i64 i)"
  by (simp add: visit_i64_def good_json_def)

lemma set_bt_insert_subset: "set (bt_insert k v m) \<subseteq> insert (k, v) (set m)"
  by (induction k v m rule: bt_insert.induct) auto

lemma strict_visit_good:
  "strict_visit r = Inr v \<Longrightarrow> good_json v"
  "good_json (JObject acc) \<Longrightarrow> visit_map acc krs fin = Inr v \<Longrightarrow> good_json v"
proof (induction r and acc krs fin arbitrary: v and v rule: strict_visit_visit_map.induct)
  case (4 n)
  then show ?case by (auto simp: good_json_def)
next
  case (7 rs fin)
  then obtain vs where vs: "try_map strict_visit rs = Inr vs" "v = JArray vs"
    by (auto simp: result_simps split: option.splits)
  have "list_all good_json vs"
    using vs(1) 7(1) by (rule try_map_list_all)
  then show ?case
    using vs(2) by simp
next
  case (11 acc k r krs fin)
  from "11.prems"(2) obtain w where w: "bt_get acc k = None" "strict_visit r = Inr w"
    "visit_map (bt_insert k w acc) krs fin = Inr v"
    by (auto simp: result_simps split: if_splits)
  have "good_json w"
    using 11(1)[of w] w(1,2) by simp
  then have "good_json (JObject (bt_insert k w acc))"
    using "11.prems"(1) set_bt_insert_subset[of k w acc]
    by (auto simp: bt_wf_insert list_all_iff)
  then show ?case
    using 11(2)[of w v] w by simp
qed (auto simp: good_visit_i64 split: option.splits)

lemma decode_strict_good: "decode_strict X bs = Inr v \<Longrightarrow> good_json v"
  by (auto simp: decode_strict_def result_simps strict_visit_good
      split: prod.splits option.splits)

lemma reject_floats_iff: "reject_floats v = Inr () \<longleftrightarrow> float_free v"
proof (induction v rule: reject_floats.induct)
  case (2 vs)
  then show ?case
    by (auto simp: result_simps try_map_Inr_iff list_all2_conv_all_nth list_all_length
        intro: exI[of _ "replicate (length vs) ()"])
next
  case (3 kvs)
  have "(\<exists>us. try_map (\<lambda>kv. reject_floats (snd kv)) kvs = Inr us) \<longleftrightarrow>
      list_all (\<lambda>kv. float_free (snd kv)) kvs"
    using 3 by (auto simp: try_map_Inr_iff list_all2_conv_all_nth list_all_length
        intro: exI[of _ "replicate (length kvs) ()"])
  then show ?case by (auto simp: result_simps)
qed auto

section \<open>Round trip\<close>

lemma bt_insert_snoc: "(\<forall>x \<in> fst ` set m. x < k) \<Longrightarrow> bt_insert k v m = m @ [(k, v)]"
  by (induction k v m rule: bt_insert.induct) auto

lemma visit_map_raw:
  assumes "\<And>kv. kv \<in> set kvs \<Longrightarrow> strict_visit (raw_of (snd kv)) = Inr (snd kv)"
    and "bt_wf (acc @ kvs)"
  shows "visit_map acc (map (\<lambda>kv. (fst kv, raw_of (snd kv))) kvs) None = Inr (JObject (acc @ kvs))"
  using assms
proof (induction kvs arbitrary: acc)
  case (Cons kv kvs)
  have lt: "\<forall>x \<in> fst ` set acc. x < fst kv"
    using Cons.prems(2) by (auto simp: bt_wf_def order_simps sorted_wrt_append)
  then have "bt_get acc (fst kv) = None"
    by (auto simp: bt_get_None_iff bt_keys_def)
  moreover have "visit_map (acc @ [kv]) (map (\<lambda>kv. (fst kv, raw_of (snd kv))) kvs) None
      = Inr (JObject (acc @ kv # kvs))"
    using Cons.IH[of "acc @ [kv]"] Cons.prems by simp
  ultimately show ?case
    using Cons.prems(1)[of kv] lt by (simp add: bt_insert_snoc)
qed simp

lemma strict_visit_raw_of: "good_json v \<Longrightarrow> strict_visit (raw_of v) = Inr v"
proof (induction v rule: raw_of.induct)
  case (7 vs)
  have "try_map strict_visit (map raw_of vs) = Inr vs"
    using 7 by (simp add: try_map_map list_all_iff try_map_total[where g = "\<lambda>v. v", simplified])
  then show ?case by simp
next
  case (8 kvs)
  then show ?case
    using visit_map_raw[of kvs "[]"] by (simp add: list_all_iff)
qed (auto simp: good_json_def visit_i64_def)

lemma decode_encode_pretty:
  assumes "json_roundtrip X" and "good_json v" and "json_depth v \<le> json_limit"
    and "encode_pretty X v = Inr bs"
  shows "decode_strict X bs = Inr v"
proof -
  obtain ps where "json_pretty X v = Some ps" "bs = ps @ [CHR 0x0A]"
    using assms(4) by (auto simp: encode_pretty_def result_simps split: option.splits)
  then have "json_read X bs = (raw_of v, None)"
    using assms(1-3) by (simp add: json_roundtrip_def good_json_def)
  then show ?thesis
    using assms(2) by (simp add: decode_strict_def strict_visit_raw_of)
qed

section \<open>Properties\<close>

text \<open>The event trees the strict visitor lets through.\<close>

fun raw_strict :: "raw_json \<Rightarrow> bool" where
  "raw_strict (RF64 s) = False"
| "raw_strict (RFail m) = False"
| "raw_strict (RArray rs fin) = (fin = None \<and> list_all raw_strict rs)"
| "raw_strict (RObject krs fin) =
     (fin = None \<and> distinct (map fst krs) \<and> list_all (\<lambda>kr. raw_strict (snd kr)) krs)"
| "raw_strict _ = True"

lemma is_ok_rbind: "is_ok (rbind m f) \<longleftrightarrow> (\<exists>x. m = Inr x \<and> is_ok (f x))"
  by (cases m) simp_all

lemma is_ok_try_map: "is_ok (try_map f xs) \<longleftrightarrow> list_all (\<lambda>x. is_ok (f x)) xs"
proof (induction xs)
  case (Cons x xs)
  then show ?case
    by (cases "f x"; cases "try_map f xs") auto
qed simp

lemma strict_visit_is_ok:
  "is_ok (strict_visit r) \<longleftrightarrow> raw_strict r"
  "bt_wf acc \<Longrightarrow> is_ok (visit_map acc krs fin) \<longleftrightarrow>
     fin = None \<and> distinct (map fst krs) \<and> list_all (\<lambda>kr. bt_get acc (fst kr) = None) krs \<and>
     list_all (\<lambda>kr. raw_strict (snd kr)) krs"
proof (induction r and acc krs fin rule: strict_visit_visit_map.induct)
  case (7 rs fin)
  have "list_all (\<lambda>r. is_ok (strict_visit r)) rs = list_all raw_strict rs"
    using 7 by (simp add: list_all_iff)
  then show ?case
    using is_ok_try_map[of strict_visit rs] by (cases "try_map strict_visit rs"; cases fin) auto
next
  case (11 acc k r krs fin)
  show ?case
  proof (cases "bt_get acc k")
    case None
    show ?thesis
    proof (cases "strict_visit r")
      case (Inl e)
      then show ?thesis using 11(1) None by simp
    next
      case (Inr v)
      then show ?thesis
        using 11 None by (auto simp: bt_wf_insert bt_get_insert list_all_iff)
    qed
  qed simp
qed (auto simp: list_all_iff split: option.splits)

text \<open>
  The strict decoder is exact. It accepts a document precisely when the reader finishes
  cleanly on a value that repeats no object key at any depth and holds no floating-point number,
  and what it returns is a well-formed float-free value.
\<close>

theorem decode_strict_exact:
  "case decode_strict X bs of
     Inl _ \<Rightarrow> \<not> (raw_strict (fst (json_read X bs)) \<and> snd (json_read X bs) = None)
   | Inr v \<Rightarrow> raw_strict (fst (json_read X bs)) \<and> snd (json_read X bs) = None \<and>
       json_wf v \<and> float_free v \<and> reject_floats v = Inr ()"
proof (cases "decode_strict X bs")
  case (Inl e)
  then show ?thesis
    using strict_visit_is_ok(1)[of "fst (json_read X bs)"]
    by (auto simp: decode_strict_def is_ok_iff rbind_Inl_iff split: prod.splits option.splits)
next
  case (Inr v)
  then show ?thesis
    using strict_visit_is_ok(1)[of "fst (json_read X bs)"] decode_strict_good[OF Inr]
    by (auto simp: decode_strict_def result_simps good_json_def reject_floats_iff
        split: prod.splits option.splits)
qed

text \<open>
  Encoding round-trips. Whatever the pretty encoder writes for a well-formed value nested
  within the reader's recursion limit, the strict decoder reads back as that value, and the
  encoder writes only values free of floating-point numbers.
\<close>

lemma json_encode_decode:
  assumes "json_roundtrip X" and "json_wf v" and "json_depth v \<le> json_limit"
    and "encode_pretty X v = Inr bs"
  shows "decode_strict X bs = Inr v \<and> float_free v"
proof -
  have "float_free v"
    using assms(4) by (auto simp: encode_pretty_def result_simps reject_floats_iff)
  then show ?thesis
    using assms decode_encode_pretty by (simp add: good_json_def)
qed

end
