(* ===== verification/Wj_Ids.thy ===== *)
theory Wj_Ids
  imports Wj_Json
begin

text \<open>
  The identifier types of \<open>ids.rs\<close> and the digest of \<open>hash.rs\<close>: canonical UUIDs restricted to
  accepted versions, namespaced tokens, record schema identifiers, actor labels, timestamps and
  BLAKE3 digests with the length-framed hashing the wire formats use. The lemmas give the exact
  language each parser accepts, that accepted text is canonical, and that frames are
  unambiguous.
\<close>

datatype identifier_error =
    InvalidUuid string string
  | InvalidToken string string
  | InvalidActor string
  | InvalidTimestamp string

section \<open>UUID identifiers\<close>

definition parse_uuid :: "ext \<Rightarrow> string \<Rightarrow> string \<Rightarrow> nat list \<Rightarrow> identifier_error + uuid" where
  "parse_uuid X input kind accepted_versions =
     (case uuid_parse_str X input of
        None \<Rightarrow> Inl (InvalidUuid kind input)
      | Some parsed \<Rightarrow>
          if input \<noteq> uuid_hyphenated X parsed \<or> uuid_is_nil X parsed \<or>
             \<not> uuid_is_rfc4122 X parsed \<or>
             uuid_version_num X parsed \<notin> set accepted_versions
          then Inl (InvalidUuid kind input) else Inr parsed)"

type_synonym record_id = uuid
type_synonym batch_id = uuid
type_synonym store_uuid = uuid
type_synonym entity_id = uuid

definition record_id_from_str :: "ext \<Rightarrow> string \<Rightarrow> identifier_error + record_id" where
  "record_id_from_str X input = parse_uuid X input ''record id'' [7]"

definition batch_id_from_str :: "ext \<Rightarrow> string \<Rightarrow> identifier_error + batch_id" where
  "batch_id_from_str X input = parse_uuid X input ''batch id'' [7]"

definition store_uuid_from_str :: "ext \<Rightarrow> string \<Rightarrow> identifier_error + store_uuid" where
  "store_uuid_from_str X input = parse_uuid X input ''store uuid'' [7]"

definition entity_id_from_str :: "ext \<Rightarrow> string \<Rightarrow> identifier_error + entity_id" where
  "entity_id_from_str X input = parse_uuid X input ''entity id'' [1, 3, 4, 5, 6, 7, 8]"

definition uuid_to_string :: "ext \<Rightarrow> uuid \<Rightarrow> string" where
  "uuid_to_string X u = uuid_hyphenated X u"

section \<open>Namespaced tokens\<close>

definition segment_byte :: "nat \<Rightarrow> char \<Rightarrow> bool" where
  "segment_byte index byte =
     (if CHR ''a'' \<le> byte \<and> byte \<le> CHR ''z'' then True
      else if (CHR ''0'' \<le> byte \<and> byte \<le> CHR ''9'') \<or> byte = CHR ''_'' \<or> byte = CHR ''-''
      then 0 < index else False)"

definition valid_segment :: "string \<Rightarrow> nat \<Rightarrow> bool" where
  "valid_segment input mx \<longleftrightarrow>
     input \<noteq> [] \<and> length input \<le> mx \<and>
     list_all (\<lambda>(index, byte). segment_byte index byte) (enumerate 0 input)"

definition parse_namespaced_token :: "string \<Rightarrow> char \<Rightarrow> string \<Rightarrow> identifier_error + string" where
  "parse_namespaced_token input separator kind =
     (if length input \<le> 128 \<and> 2 \<le> length (split_on separator input) \<and>
         list_all (\<lambda>segment. valid_segment segment 63) (split_on separator input)
      then Inr input else Inl (InvalidToken kind input))"

type_synonym domain_id = string
type_synonym kind_id = string
type_synonym record_schema_id = string
type_synonym actor_id = string

definition domain_id_from_str :: "string \<Rightarrow> identifier_error + domain_id" where
  "domain_id_from_str input = parse_namespaced_token input CHR ''.'' ''domain id''"

definition kind_id_from_str :: "string \<Rightarrow> identifier_error + kind_id" where
  "kind_id_from_str input = parse_namespaced_token input CHR ''.'' ''kind id''"

definition record_schema_id_from_str :: "string \<Rightarrow> identifier_error + record_schema_id" where
  "record_schema_id_from_str input =
     (if length input \<le> 128 \<and>
         (case split_once CHR ''/'' input of
            None \<Rightarrow> False
          | Some (domain, version) \<Rightarrow>
              CHR ''/'' \<notin> set version \<and> is_ok (domain_id_from_str domain) \<and>
              valid_segment version 63)
      then Inr input else Inl (InvalidToken ''record schema id'' input))"

definition actor_id_parse :: "string \<Rightarrow> identifier_error + actor_id" where
  "actor_id_parse input =
     (case split_once CHR '':'' input of
        None \<Rightarrow> Inl (InvalidActor input)
      | Some (namespace, v) \<Rightarrow>
          let valid_value = (v \<noteq> [] \<and> length (chars v) \<le> 96 \<and>
                list_all (\<lambda>c. \<not> is_control c \<and> \<not> is_whitespace c) (chars v))
          in if \<not> valid_segment namespace 32 \<or> \<not> valid_value \<or> 129 < length (chars input)
             then Inl (InvalidActor input) else Inr input)"

section \<open>Timestamps\<close>

definition record_timestamp_from_str :: "ext \<Rightarrow> string \<Rightarrow> identifier_error + timestamp" where
  "record_timestamp_from_str X input =
     (case timestamp_parse X input of
        None \<Rightarrow> Inl (InvalidTimestamp input)
      | Some t \<Rightarrow>
          if timestamp_to_string X t \<noteq> input \<or> \<not> ends_with input ''Z''
          then Inl (InvalidTimestamp input) else Inr t)"

section \<open>Digests and framed hashing\<close>

datatype digest_error = DigestNonCanonical string

definition digest_parse :: "ext \<Rightarrow> string \<Rightarrow> digest_error + digest" where
  "digest_parse X input =
     (if length input \<noteq> 64 \<or> \<not> list_all is_lower_hex input
      then Inl (DigestNonCanonical input)
      else (case blake3_from_hex X input of
              None \<Rightarrow> Inl (DigestNonCanonical input)
            | Some d \<Rightarrow> Inr d))"

definition digest_to_string :: "ext \<Rightarrow> digest \<Rightarrow> string" where
  "digest_to_string X d = blake3_to_hex X d"

text \<open>A hasher is the input it has absorbed.\<close>

definition hash_bytes :: "ext \<Rightarrow> bytes \<Rightarrow> bytes \<Rightarrow> digest" where
  "hash_bytes X domain bs = blake3_hash X (domain @ bs)"

definition update_frame :: "bytes \<Rightarrow> bytes \<Rightarrow> bytes" where
  "update_frame hasher bs = hasher @ to_be_bytes64 (length bs) @ bs"

fun frame_entries :: "bytes \<Rightarrow> (bytes \<times> bytes) list \<Rightarrow> bytes" where
  "frame_entries hasher [] = hasher"
| "frame_entries hasher ((left, right) # es) =
     frame_entries (update_frame (update_frame hasher left) right) es"

definition framed_hash :: "ext \<Rightarrow> bytes \<Rightarrow> (bytes \<times> bytes) list \<Rightarrow> digest" where
  "framed_hash X domain es = blake3_hash X (frame_entries domain es)"

section \<open>Serde of string-like types\<close>

text \<open>\<open>String::deserialize\<close> on a value, followed by the type's own parser.\<close>

definition de_string :: "json \<Rightarrow> string option" where
  "de_string v = (case v of JString s \<Rightarrow> Some s | _ \<Rightarrow> None)"

definition de_parse :: "(string \<Rightarrow> 'e + 'a) \<Rightarrow> json \<Rightarrow> 'a option" where
  "de_parse parse v =
     (case de_string v of
        None \<Rightarrow> None
      | Some s \<Rightarrow> (case parse s of Inl _ \<Rightarrow> None | Inr x \<Rightarrow> Some x))"

section \<open>UUID parsing is canonical\<close>

text \<open>The invariant of a parsed identifier: what every value of the Rust types satisfies.\<close>

definition uuid_ok :: "ext \<Rightarrow> nat list \<Rightarrow> uuid \<Rightarrow> bool" where
  "uuid_ok X versions u \<longleftrightarrow>
     \<not> uuid_is_nil X u \<and> uuid_is_rfc4122 X u \<and> uuid_version_num X u \<in> set versions"

abbreviation v7_ok :: "ext \<Rightarrow> uuid \<Rightarrow> bool" where "v7_ok X \<equiv> uuid_ok X [7]"
abbreviation entity_ok :: "ext \<Rightarrow> uuid \<Rightarrow> bool" where
  "entity_ok X \<equiv> uuid_ok X [1, 3, 4, 5, 6, 7, 8]"

lemma parse_uuid_Inr_iff:
  "parse_uuid X s k vs = Inr u \<longleftrightarrow>
     uuid_parse_str X s = Some u \<and> s = uuid_to_string X u \<and> uuid_ok X vs u"
  by (auto simp: parse_uuid_def uuid_ok_def uuid_to_string_def split: option.splits)

lemma parse_uuid_to_string:
  "uuid_roundtrip X \<Longrightarrow> uuid_ok X vs u \<Longrightarrow> parse_uuid X (uuid_to_string X u) k vs = Inr u"
  by (simp add: parse_uuid_Inr_iff uuid_ok_def uuid_roundtrip_def uuid_to_string_def)

lemmas id_from_str_defs =
  record_id_from_str_def batch_id_from_str_def store_uuid_from_str_def entity_id_from_str_def

lemma uuid_to_string_inj:
  assumes "uuid_roundtrip X" and "uuid_ok X vs u" and "uuid_ok X ws v"
    and "uuid_to_string X u = uuid_to_string X v"
  shows "u = v"
  using assms by (metis option.inject uuid_ok_def uuid_roundtrip_def uuid_to_string_def)

lemma v7_ok_entity_ok: "v7_ok X u \<Longrightarrow> entity_ok X u"
  by (simp add: uuid_ok_def)

section \<open>The language of tokens\<close>

definition lower_byte :: "char \<Rightarrow> bool" where
  "lower_byte c \<longleftrightarrow> CHR ''a'' \<le> c \<and> c \<le> CHR ''z''"

definition segment_tail_byte :: "char \<Rightarrow> bool" where
  "segment_tail_byte c \<longleftrightarrow>
     lower_byte c \<or> (CHR ''0'' \<le> c \<and> c \<le> CHR ''9'') \<or> c = CHR ''_'' \<or> c = CHR ''-''"

lemma segment_byte_simps:
  "segment_byte 0 c = lower_byte c" "segment_byte (Suc i) c = segment_tail_byte c"
  by (auto simp: segment_byte_def lower_byte_def segment_tail_byte_def)

lemma enumerate_tail:
  "list_all (\<lambda>(index, byte). segment_byte index byte) (enumerate (Suc n) s) =
     list_all segment_tail_byte s"
  by (induction s arbitrary: n) (simp_all add: segment_byte_simps)

lemma valid_segment_iff:
  "valid_segment s mx \<longleftrightarrow>
     length s \<le> mx \<and> (\<exists>c t. s = c # t \<and> lower_byte c \<and> list_all segment_tail_byte t)"
  by (cases s) (auto simp: valid_segment_def enumerate_tail segment_byte_simps)

lemma valid_segment_bytes: "valid_segment s mx \<Longrightarrow> list_all segment_tail_byte s"
  by (auto simp: valid_segment_iff segment_tail_byte_def)

lemma valid_segment_byte: "valid_segment s mx \<Longrightarrow> x \<in> set s \<Longrightarrow> segment_tail_byte x"
  using valid_segment_bytes by (auto simp: list_all_iff)

lemma segment_tail_byte_range: "segment_tail_byte c \<Longrightarrow> c \<noteq> CHR ''/'' \<and> c \<noteq> CHR ''.'' \<and> c \<noteq> CHR '':''"
  by (auto simp: segment_tail_byte_def lower_byte_def less_eq_char_def)

lemma segment_tail_byte_ascii: "segment_tail_byte c \<Longrightarrow> (of_char c :: nat) < 128"
  by (auto simp: segment_tail_byte_def lower_byte_def less_eq_char_def)

lemma valid_segment_ascii: "valid_segment s mx \<Longrightarrow> is_ascii s"
  using valid_segment_bytes[of s mx] by (auto simp: is_ascii_def list_all_iff segment_tail_byte_ascii)

lemma valid_segment_no_sep: "valid_segment s mx \<Longrightarrow> CHR ''/'' \<notin> set s \<and> CHR ''.'' \<notin> set s"
  using valid_segment_bytes[of s mx] segment_tail_byte_range by (auto simp: list_all_iff)

lemma token_Inr_iff:
  "parse_namespaced_token s c k = Inr t \<longleftrightarrow>
     t = s \<and> length s \<le> 128 \<and> 2 \<le> length (split_on c s) \<and>
     (\<forall>seg \<in> set (split_on c s). valid_segment seg 63)"
  by (auto simp: parse_namespaced_token_def list_all_iff)

lemma set_join_with: "set (join_with c ss) \<subseteq> insert c (\<Union> (set ` set ss))"
  by (induction c ss rule: join_with.induct) auto

lemma token_bytes:
  assumes "parse_namespaced_token s CHR ''.'' k = Inr t" and "x \<in> set s"
  shows "segment_tail_byte x \<or> x = CHR ''.''"
proof -
  have "x \<in> insert CHR ''.'' (\<Union> (set ` set (split_on CHR ''.'' s)))"
    using assms(2) set_join_with[of "CHR ''.''" "split_on CHR ''.'' s"] by auto
  then show ?thesis
    using assms(1) by (auto simp: token_Inr_iff intro: valid_segment_byte)
qed

lemma token_plain:
  assumes "parse_namespaced_token s CHR ''.'' k = Inr t"
  shows "CHR ''/'' \<notin> set s" and "is_ascii s" and "s \<noteq> []"
proof -
  show "CHR ''/'' \<notin> set s"
    using token_bytes[OF assms, of "CHR ''/''"] segment_tail_byte_range by auto
  show "is_ascii s"
    using token_bytes[OF assms] segment_tail_byte_ascii by (fastforce simp: is_ascii_def list_all_iff)
  show "s \<noteq> []"
    using assms by (auto simp: token_Inr_iff)
qed

lemmas domain_id_plain = token_plain[where k = "''domain id''", folded domain_id_from_str_def]

lemma domain_id_Inr: "domain_id_from_str s = Inr t \<Longrightarrow> t = s"
  by (simp add: domain_id_from_str_def token_Inr_iff)

lemma domain_id_is_ok: "is_ok (domain_id_from_str s) \<longleftrightarrow> domain_id_from_str s = Inr s"
  using domain_id_Inr by (auto simp: is_ok_iff)

lemma kind_id_Inr: "kind_id_from_str s = Inr t \<Longrightarrow> t = s"
  by (simp add: kind_id_from_str_def token_Inr_iff)

lemma record_schema_id_Inr:
  "record_schema_id_from_str s = Inr t \<longleftrightarrow>
     t = s \<and> length s \<le> 128 \<and>
     (\<exists>d v. s = d @ CHR ''/'' # v \<and> domain_id_from_str d = Inr d \<and> valid_segment v 63)"
proof
  assume "record_schema_id_from_str s = Inr t"
  then show "t = s \<and> length s \<le> 128 \<and>
     (\<exists>d v. s = d @ CHR ''/'' # v \<and> domain_id_from_str d = Inr d \<and> valid_segment v 63)"
    by (auto simp: record_schema_id_from_str_def domain_id_is_ok
        dest!: split_once_Some split: if_splits option.splits)
next
  assume r: "t = s \<and> length s \<le> 128 \<and>
     (\<exists>d v. s = d @ CHR ''/'' # v \<and> domain_id_from_str d = Inr d \<and> valid_segment v 63)"
  then show "record_schema_id_from_str s = Inr t"
    by (auto simp: record_schema_id_from_str_def split_once_append domain_id_plain(1)
        valid_segment_no_sep)
qed

lemma actor_id_Inr: "actor_id_parse s = Inr t \<Longrightarrow> t = s"
  by (auto simp: actor_id_parse_def Let_def split: option.splits if_splits)

lemma record_timestamp_Inr:
  "record_timestamp_from_str X s = Inr t \<Longrightarrow> timestamp_to_string X t = s"
  by (auto simp: record_timestamp_from_str_def split: option.splits if_splits)

lemma record_timestamp_to_string:
  "timestamp_roundtrip X \<Longrightarrow> record_timestamp_from_str X (timestamp_to_string X t) = Inr t"
  by (simp add: record_timestamp_from_str_def timestamp_roundtrip_def)

section \<open>Digests\<close>

lemma digest_parse_canonical:
  "hex_canonical X \<Longrightarrow> digest_parse X s = Inr d \<Longrightarrow> digest_to_string X d = s \<and> length d = 32"
  by (auto simp: digest_parse_def digest_to_string_def hex_canonical_def
      split: option.splits if_splits)

lemma digest_parse_to_string:
  "hex_roundtrip X \<Longrightarrow> length d = 32 \<Longrightarrow> digest_parse X (digest_to_string X d) = Inr d"
  by (simp add: digest_parse_def digest_to_string_def hex_roundtrip_def)

section \<open>Frames are unambiguous\<close>

definition frame :: "bytes \<Rightarrow> bytes" where
  "frame bs = to_be_bytes64 (length bs) @ bs"

lemma update_frame_eq: "update_frame h bs = h @ frame bs"
  by (simp add: update_frame_def frame_def)

lemma frame_entries_eq:
  "frame_entries h es = h @ concat (map (\<lambda>(l, r). frame l @ frame r) es)"
  by (induction h es rule: frame_entries.induct) (simp_all add: update_frame_eq)

lemma frame_prefix_free:
  assumes "frame a @ r = frame b @ t" and "length a < 2 ^ 64" and "length b < 2 ^ 64"
  shows "a = b \<and> r = t"
proof -
  have "to_be_bytes64 (length a) = to_be_bytes64 (length b)"
    using assms(1) by (auto simp: frame_def append_eq_append_conv)
  then have "length a = length b"
    using assms(2,3) by (metis from_be_bytes64)
  then show ?thesis
    using assms(1) by (simp add: frame_def)
qed

definition framable :: "bytes \<times> bytes \<Rightarrow> bool" where
  "framable e \<longleftrightarrow> length (fst e) < 2 ^ 64 \<and> length (snd e) < 2 ^ 64"

lemma frame_nonempty [simp]: "frame a \<noteq> []"
proof -
  have "8 \<le> length (frame a)" by (simp add: frame_def)
  then show ?thesis by auto
qed

lemma concat_frames_inj:
  assumes "concat (map (\<lambda>(l, r). frame l @ frame r) es) =
      concat (map (\<lambda>(l, r). frame l @ frame r) fs)"
    and "list_all framable es" and "list_all framable fs"
  shows "es = fs"
  using assms
proof (induction es arbitrary: fs)
  case Nil
  then show ?case
    by (cases fs) auto
next
  case (Cons e es)
  obtain g gs where fs: "fs = g # gs"
    using Cons.prems(1) by (cases fs) (auto split: prod.splits)
  have ok: "framable e" "framable g"
    using Cons.prems(2,3) fs by auto
  let ?F = "\<lambda>es. concat (map (\<lambda>(l, r). frame l @ frame r) es)"
  have "frame (fst e) @ frame (snd e) @ ?F es = frame (fst g) @ frame (snd g) @ ?F gs"
    using Cons.prems(1) fs by (cases e; cases g) simp
  then have "fst e = fst g" "frame (snd e) @ ?F es = frame (snd g) @ ?F gs"
    using frame_prefix_free ok unfolding framable_def by blast+
  then have "fst e = fst g" "snd e = snd g" "?F es = ?F gs"
    using frame_prefix_free ok unfolding framable_def by blast+
  then show ?case
    using Cons.IH[of gs] Cons.prems(2,3) fs by (simp add: prod_eq_iff)
qed

lemma frame_entries_inj:
  "frame_entries h es = frame_entries h fs \<Longrightarrow> list_all framable es \<Longrightarrow> list_all framable fs \<Longrightarrow>
   es = fs"
  using concat_frames_inj by (simp add: frame_entries_eq)

text \<open>A digest either identifies the framed entries or exhibits a BLAKE3 collision.\<close>

definition blake3_collision :: "ext \<Rightarrow> bytes \<Rightarrow> bytes \<Rightarrow> bool" where
  "blake3_collision X a b \<longleftrightarrow> a \<noteq> b \<and> blake3_hash X a = blake3_hash X b"

lemma framed_hash_eq_cases:
  assumes "framed_hash X d es = framed_hash X d fs"
    and "list_all framable es" and "list_all framable fs"
  shows "es = fs \<or> blake3_collision X (frame_entries d es) (frame_entries d fs)"
  using assms frame_entries_inj by (auto simp: framed_hash_def blake3_collision_def)

lemma de_parse_Some: "de_parse p v = Some x \<longleftrightarrow> (\<exists>s. v = JString s \<and> p s = Inr x)"
  by (cases v) (auto simp: de_parse_def de_string_def split: sum.splits)

lemma de_parse_JString [simp]: "p s = Inr x \<Longrightarrow> de_parse p (JString s) = Some x"
  by (simp add: de_parse_Some)

section \<open>Properties\<close>

text \<open>
  Identifier text is canonical. Each UUID parser accepts exactly the hyphenated form of the
  non-nil RFC 4122 values of its accepted versions, the timestamp parser accepts exactly what it
  prints, and the digest parser exactly the lowercase hexadecimal form of 32-byte digests.
\<close>

theorem identifier_text_exact:
  assumes "uuid_roundtrip X" and "timestamp_roundtrip X" and "hex_roundtrip X" and "hex_canonical X"
  shows "(record_id_from_str X s = Inr u \<longleftrightarrow> s = uuid_to_string X u \<and> uuid_ok X [7] u) \<and>
    (batch_id_from_str X s = Inr u \<longleftrightarrow> s = uuid_to_string X u \<and> uuid_ok X [7] u) \<and>
    (store_uuid_from_str X s = Inr u \<longleftrightarrow> s = uuid_to_string X u \<and> uuid_ok X [7] u) \<and>
    (entity_id_from_str X s = Inr u \<longleftrightarrow>
       s = uuid_to_string X u \<and> uuid_ok X [1, 3, 4, 5, 6, 7, 8] u) \<and>
    (record_timestamp_from_str X s = Inr t \<longleftrightarrow> s = timestamp_to_string X t) \<and>
    (digest_parse X s = Inr d \<longleftrightarrow> length d = 32 \<and> s = digest_to_string X d)"
proof (intro conjI)
  show "digest_parse X s = Inr d \<longleftrightarrow> length d = 32 \<and> s = digest_to_string X d"
    using digest_parse_canonical[OF assms(4)] digest_parse_to_string[OF assms(3)] by auto
  show "record_timestamp_from_str X s = Inr t \<longleftrightarrow> s = timestamp_to_string X t"
    using record_timestamp_Inr record_timestamp_to_string[OF assms(2)] by auto
qed (use assms(1) parse_uuid_to_string in \<open>auto simp: id_from_str_defs parse_uuid_Inr_iff\<close>)

definition segment_text :: "string \<Rightarrow> bool" where
  "segment_text s \<longleftrightarrow> length s \<le> 63 \<and>
     (case s of [] \<Rightarrow> False | c # t \<Rightarrow> lower_byte c \<and> list_all segment_tail_byte t)"

lemma valid_segment_text: "valid_segment s 63 \<longleftrightarrow> segment_text s"
  by (cases s) (auto simp: valid_segment_iff segment_text_def)

lemma segment_text_plain: "segment_text s \<Longrightarrow> CHR ''.'' \<notin> set s"
  using valid_segment_no_sep[of s 63] by (simp add: valid_segment_text)

lemma domain_id_language:
  "domain_id_from_str s = Inr t \<longleftrightarrow> t = s \<and> length s \<le> 128 \<and>
     (\<exists>segs. 2 \<le> length segs \<and> list_all segment_text segs \<and> s = join_with CHR ''.'' segs)"
    (is "?ok \<longleftrightarrow> ?lang")
proof
  assume ?ok
  then show ?lang
    by (intro conjI exI[of _ "split_on CHR ''.'' s"])
      (auto simp: domain_id_from_str_def token_Inr_iff list_all_iff valid_segment_text)
next
  assume ?lang
  then obtain segs where segs: "2 \<le> length segs" "list_all segment_text segs"
      "s = join_with CHR ''.'' segs"
    by blast
  then have "split_on CHR ''.'' s = segs"
    using segment_text_plain by (auto simp: list_all_iff intro!: split_join_with)
  then show ?ok
    using \<open>?lang\<close> segs by (simp add: domain_id_from_str_def token_Inr_iff list_all_iff valid_segment_text)
qed

text \<open>
  The language of domain and record-schema identifiers. A domain identifier is two or more
  dot-separated segments, each a lowercase letter followed by lowercase letters, digits,
  underscores or hyphens, at most 63 bytes long, with at most 128 bytes in total; a schema
  identifier is a domain identifier, a slash and one segment, within the same total.
\<close>

lemma token_language:
  "(domain_id_from_str s = Inr t \<longleftrightarrow> t = s \<and> length s \<le> 128 \<and>
     (\<exists>segs. 2 \<le> length segs \<and> list_all segment_text segs \<and> s = join_with CHR ''.'' segs)) \<and>
   (record_schema_id_from_str s = Inr t \<longleftrightarrow> t = s \<and> length s \<le> 128 \<and>
     (\<exists>d v. s = d @ ''/'' @ v \<and> domain_id_from_str d = Inr d \<and> segment_text v))"
  unfolding record_schema_id_Inr valid_segment_text by (simp add: domain_id_language[of s])

end
