(* ===== verification/Wj_Layout.thy ===== *)
theory Wj_Layout
  imports Wj_Ids
begin

text \<open>
  Path classification of \<open>layout.rs\<close>: which byte paths name a legacy event, a legacy batch, a
  journal record or a journal batch, which are malformed below a reserved root, and which are
  outside the journal. The lemmas characterise each class exactly.
\<close>

datatype path_class =
    LegacyEvent
  | LegacyBatch
  | JournalRecord
  | JournalBatch
  | NonCanonical
  | InvalidReserved

datatype path_error = PathError bytes

record canonical_path =
  cp_bytes :: bytes
  cp_class :: path_class

definition valid_legacy_uuid :: "ext \<Rightarrow> string \<Rightarrow> nat list \<Rightarrow> bool" where
  "valid_legacy_uuid X input versions =
     (case uuid_parse_str X input of
        None \<Rightarrow> False
      | Some u \<Rightarrow> input = uuid_hyphenated X u \<and> \<not> uuid_is_nil X u \<and> uuid_is_rfc4122 X u \<and>
          uuid_version_num X u \<in> set versions)"

definition strip_json :: "string \<Rightarrow> (string \<Rightarrow> bool) \<Rightarrow> bool" where
  "strip_json s ok = (case strip_suffix s ''.json'' of None \<Rightarrow> False | Some stem \<Rightarrow> ok stem)"

definition valid_legacy_event :: "ext \<Rightarrow> string \<Rightarrow> bool" where
  "valid_legacy_event X path =
     (let parts = split_on CHR ''/'' path in
      length parts = 3 \<and> parts ! 0 = ''events'' \<and> valid_legacy_uuid X (parts ! 1) [4, 5, 7] \<and>
      strip_json (parts ! 2) (\<lambda>i. is_ok (record_id_from_str X i)))"

definition valid_legacy_batch :: "ext \<Rightarrow> string \<Rightarrow> bool" where
  "valid_legacy_batch X path =
     (let parts = split_on CHR ''/'' path in
      length parts = 2 \<and> parts ! 0 = ''batches'' \<and>
      strip_json (parts ! 1) (\<lambda>i. is_ok (batch_id_from_str X i)))"

definition validate_journal_record_path :: "ext \<Rightarrow> string \<Rightarrow> bool" where
  "validate_journal_record_path X path =
     (let parts = split_on CHR ''/'' path in
      length parts = 5 \<and> parts ! 0 = ''journal'' \<and> parts ! 1 = ''records'' \<and>
      is_ok (domain_id_from_str (parts ! 2)) \<and> is_ok (entity_id_from_str X (parts ! 3)) \<and>
      strip_json (parts ! 4) (\<lambda>i. is_ok (record_id_from_str X i)))"

definition valid_journal_batch :: "ext \<Rightarrow> string \<Rightarrow> bool" where
  "valid_journal_batch X path =
     (let parts = split_on CHR ''/'' path in
      length parts = 3 \<and> parts ! 0 = ''journal'' \<and> parts ! 1 = ''batches'' \<and>
      strip_json (parts ! 2) (\<lambda>i. is_ok (batch_id_from_str X i)))"

definition reserved_prefix_bytes :: "bytes \<Rightarrow> bool" where
  "reserved_prefix_bytes path \<longleftrightarrow>
     path = ''events'' \<or> starts_with path ''events/'' \<or> path = ''batches'' \<or>
     starts_with path ''batches/'' \<or> path = ''journal'' \<or> starts_with path ''journal/''"

definition classify_path :: "ext \<Rightarrow> bytes \<Rightarrow> path_class" where
  "classify_path X path =
     (if \<not> is_str path then
        (if reserved_prefix_bytes path then InvalidReserved else NonCanonical)
      else if starts_with path ''events/'' then
        (if valid_legacy_event X path then LegacyEvent else InvalidReserved)
      else if path = ''events'' then InvalidReserved
      else if starts_with path ''batches/'' then
        (if valid_legacy_batch X path then LegacyBatch else InvalidReserved)
      else if path = ''batches'' then InvalidReserved
      else if starts_with path ''journal/records/'' then
        (if validate_journal_record_path X path then JournalRecord else InvalidReserved)
      else if starts_with path ''journal/batches/'' then
        (if valid_journal_batch X path then JournalBatch else InvalidReserved)
      else if path = ''journal'' \<or> starts_with path ''journal/'' then InvalidReserved
      else NonCanonical)"

definition canonical_path_parse :: "ext \<Rightarrow> bytes \<Rightarrow> path_error + canonical_path" where
  "canonical_path_parse X path =
     (let cls = classify_path X path in
      case cls of
        NonCanonical \<Rightarrow> Inl (PathError path)
      | InvalidReserved \<Rightarrow> Inl (PathError path)
      | _ \<Rightarrow> Inr \<lparr>cp_bytes = path, cp_class = cls\<rparr>)"

definition is_canonical :: "path_class \<Rightarrow> bool" where
  "is_canonical c \<longleftrightarrow> c = LegacyEvent \<or> c = LegacyBatch \<or> c = JournalRecord \<or> c = JournalBatch"

section \<open>Path shapes\<close>

definition record_path :: "ext \<Rightarrow> domain_id \<Rightarrow> entity_id \<Rightarrow> record_id \<Rightarrow> string" where
  "record_path X d e r =
     ''journal/records/'' @ d @ ''/'' @ uuid_to_string X e @ ''/'' @ uuid_to_string X r @ ''.json''"

definition batch_path :: "ext \<Rightarrow> batch_id \<Rightarrow> string" where
  "batch_path X b = ''journal/batches/'' @ uuid_to_string X b @ ''.json''"

lemma strip_json_iff: "strip_json s ok \<longleftrightarrow> (\<exists>stem. s = stem @ ''.json'' \<and> ok stem)"
  by (auto simp: strip_json_def strip_suffix_Some split: option.splits)

lemma record_id_is_ok: "is_ok (record_id_from_str X s) \<longleftrightarrow>
    (\<exists>u. s = uuid_to_string X u \<and> uuid_parse_str X s = Some u \<and> v7_ok X u)"
  by (auto simp: is_ok_iff record_id_from_str_def parse_uuid_Inr_iff)

lemma batch_id_is_ok: "is_ok (batch_id_from_str X s) \<longleftrightarrow>
    (\<exists>u. s = uuid_to_string X u \<and> uuid_parse_str X s = Some u \<and> v7_ok X u)"
  by (auto simp: is_ok_iff batch_id_from_str_def parse_uuid_Inr_iff)

lemma entity_id_is_ok: "is_ok (entity_id_from_str X s) \<longleftrightarrow>
    (\<exists>u. s = uuid_to_string X u \<and> uuid_parse_str X s = Some u \<and> entity_ok X u)"
  by (auto simp: is_ok_iff entity_id_from_str_def parse_uuid_Inr_iff)

lemma uuid_string_parse: "uuid_roundtrip X \<Longrightarrow> uuid_ok X vs u \<Longrightarrow>
    uuid_parse_str X (uuid_to_string X u) = Some u"
  by (simp add: uuid_roundtrip_def uuid_ok_def uuid_to_string_def)

lemma split_eq_join: "split_on c s = ps \<Longrightarrow> s = join_with c ps"
  using join_split_on by metis

lemma list_of_length:
  "length xs = 2 \<Longrightarrow> xs = [xs ! 0, xs ! 1]"
  "length xs = 3 \<Longrightarrow> xs = [xs ! 0, xs ! 1, xs ! 2]"
  "length xs = 5 \<Longrightarrow> xs = [xs ! 0, xs ! 1, xs ! 2, xs ! 3, xs ! 4]"
  by (auto simp: list_eq_iff_nth_eq less_Suc_eq nth_Cons' eval_nat_numeral)

lemma record_path_shape:
  "validate_journal_record_path X path \<Longrightarrow>
   \<exists>d e r. path = record_path X d e r \<and> domain_id_from_str d = Inr d \<and> entity_ok X e \<and> v7_ok X r"
  unfolding validate_journal_record_path_def Let_def
  using split_eq_join[OF list_of_length(3), of "CHR ''/''" path]
  by (fastforce simp: record_path_def domain_id_is_ok entity_id_is_ok record_id_is_ok strip_json_iff)

lemma batch_path_shape:
  "valid_journal_batch X path \<Longrightarrow> \<exists>b. path = batch_path X b \<and> v7_ok X b"
  unfolding valid_journal_batch_def Let_def
  using split_eq_join[OF list_of_length(2), of "CHR ''/''" path]
  by (fastforce simp: batch_path_def batch_id_is_ok strip_json_iff)

lemma uuid_no_slash: "uuid_plain X \<Longrightarrow> CHR ''/'' \<notin> set (uuid_to_string X u)"
  by (simp add: uuid_plain_def uuid_to_string_def)

lemma uuid_ascii: "uuid_plain X \<Longrightarrow> is_ascii (uuid_to_string X u)"
  by (simp add: uuid_plain_def uuid_to_string_def)

lemma split_record_path:
  assumes "uuid_plain X" and "CHR ''/'' \<notin> set d"
  shows "split_on CHR ''/'' (record_path X d e r) =
    [''journal'', ''records'', d, uuid_to_string X e, uuid_to_string X r @ ''.json'']"
  using assms uuid_no_slash[OF assms(1)]
  by (simp add: record_path_def split_on_append_sep split_on_plain)

lemma split_batch_path:
  assumes "uuid_plain X"
  shows "split_on CHR ''/'' (batch_path X b) =
    [''journal'', ''batches'', uuid_to_string X b @ ''.json'']"
  using uuid_no_slash[OF assms] by (simp add: batch_path_def split_on_plain)

lemma record_path_valid:
  assumes "uuid_roundtrip X" "uuid_plain X" "domain_id_from_str d = Inr d" "entity_ok X e" "v7_ok X r"
  shows "validate_journal_record_path X (record_path X d e r)"
  using assms split_record_path[OF assms(2) domain_id_plain(1)[OF assms(3)]]
  by (auto simp: validate_journal_record_path_def strip_json_def entity_id_is_ok record_id_is_ok
      uuid_string_parse)

lemma batch_path_valid:
  assumes "uuid_roundtrip X" "uuid_plain X" "v7_ok X b"
  shows "valid_journal_batch X (batch_path X b)"
  using assms split_batch_path[OF assms(2)]
  by (auto simp: valid_journal_batch_def strip_json_def batch_id_is_ok uuid_string_parse)

lemma record_path_is_str:
  assumes "uuid_plain X" "domain_id_from_str d = Inr d"
  shows "is_str (record_path X d e r)"
  using assms by (intro is_str_ascii)
    (simp add: record_path_def uuid_ascii domain_id_plain(2) is_ascii_Cons)

lemma batch_path_is_str: "uuid_plain X \<Longrightarrow> is_str (batch_path X b)"
  by (intro is_str_ascii) (simp add: batch_path_def uuid_ascii is_ascii_Cons)

lemma classify_record_path:
  assumes "uuid_roundtrip X" "uuid_plain X" "domain_id_from_str d = Inr d" "entity_ok X e" "v7_ok X r"
  shows "classify_path X (record_path X d e r) = JournalRecord"
  using record_path_valid[OF assms] record_path_is_str[OF assms(2,3)]
  by (simp add: classify_path_def starts_with_def) (simp add: record_path_def)

lemma classify_batch_path:
  assumes "uuid_roundtrip X" "uuid_plain X" "v7_ok X b"
  shows "classify_path X (batch_path X b) = JournalBatch"
  using batch_path_valid[OF assms] batch_path_is_str[OF assms(2)]
  by (simp add: classify_path_def starts_with_def) (simp add: batch_path_def)

lemma classify_JournalRecord_shape:
  assumes "classify_path X path = JournalRecord"
  shows "\<exists>d e r. path = record_path X d e r \<and> domain_id_from_str d = Inr d \<and> entity_ok X e \<and> v7_ok X r"
  using assms record_path_shape by (simp add: classify_path_def split: if_splits)

lemma classify_JournalBatch_shape:
  "classify_path X path = JournalBatch \<Longrightarrow> \<exists>b. path = batch_path X b \<and> v7_ok X b"
  using batch_path_shape by (simp add: classify_path_def split: if_splits)

section \<open>Legacy paths\<close>

definition legacy_event_path :: "ext \<Rightarrow> uuid \<Rightarrow> record_id \<Rightarrow> string" where
  "legacy_event_path X e r = ''events/'' @ uuid_to_string X e @ ''/'' @ uuid_to_string X r @ ''.json''"

definition legacy_batch_path :: "ext \<Rightarrow> batch_id \<Rightarrow> string" where
  "legacy_batch_path X b = ''batches/'' @ uuid_to_string X b @ ''.json''"

lemma legacy_uuid_iff: "valid_legacy_uuid X s vs \<longleftrightarrow>
    (\<exists>u. s = uuid_to_string X u \<and> uuid_parse_str X s = Some u \<and> uuid_ok X vs u)"
  by (auto simp: valid_legacy_uuid_def uuid_ok_def uuid_to_string_def split: option.splits)

lemma legacy_event_shape:
  "valid_legacy_event X path \<Longrightarrow>
   \<exists>e r. path = legacy_event_path X e r \<and> uuid_ok X [4, 5, 7] e \<and> v7_ok X r"
  unfolding valid_legacy_event_def Let_def
  using split_eq_join[OF list_of_length(2), of "CHR ''/''" path]
  by (fastforce simp: legacy_event_path_def legacy_uuid_iff record_id_is_ok strip_json_iff)

lemma legacy_batch_shape:
  "valid_legacy_batch X path \<Longrightarrow> \<exists>b. path = legacy_batch_path X b \<and> v7_ok X b"
  unfolding valid_legacy_batch_def Let_def
  using split_eq_join[OF list_of_length(1), of "CHR ''/''" path]
  by (fastforce simp: legacy_batch_path_def batch_id_is_ok strip_json_iff)

lemma legacy_event_valid:
  assumes "uuid_roundtrip X" "uuid_plain X" "uuid_ok X [4, 5, 7] e" "v7_ok X r"
  shows "valid_legacy_event X (legacy_event_path X e r)"
proof -
  have "split_on CHR ''/'' (legacy_event_path X e r) =
      [''events'', uuid_to_string X e, uuid_to_string X r @ ''.json'']"
    using uuid_no_slash[OF assms(2)]
    by (simp add: legacy_event_path_def split_on_append_sep split_on_plain)
  then show ?thesis
    using assms
    by (auto simp: valid_legacy_event_def strip_json_def legacy_uuid_iff record_id_is_ok
        uuid_string_parse)
qed

lemma legacy_batch_valid:
  assumes "uuid_roundtrip X" "uuid_plain X" "v7_ok X b"
  shows "valid_legacy_batch X (legacy_batch_path X b)"
proof -
  have "split_on CHR ''/'' (legacy_batch_path X b) = [''batches'', uuid_to_string X b @ ''.json'']"
    using uuid_no_slash[OF assms(2)] by (simp add: legacy_batch_path_def split_on_plain)
  then show ?thesis
    using assms
    by (auto simp: valid_legacy_batch_def strip_json_def batch_id_is_ok uuid_string_parse)
qed

lemma classify_legacy_event:
  assumes "uuid_roundtrip X" "uuid_plain X" "uuid_ok X [4, 5, 7] e" "v7_ok X r"
  shows "classify_path X (legacy_event_path X e r) = LegacyEvent"
proof -
  have "is_str (legacy_event_path X e r)"
    using assms(2) by (intro is_str_ascii) (simp add: legacy_event_path_def uuid_ascii is_ascii_Cons)
  then show ?thesis
    using legacy_event_valid[OF assms]
    by (simp add: classify_path_def starts_with_def) (simp add: legacy_event_path_def)
qed

lemma classify_legacy_batch:
  assumes "uuid_roundtrip X" "uuid_plain X" "v7_ok X b"
  shows "classify_path X (legacy_batch_path X b) = LegacyBatch"
proof -
  have "is_str (legacy_batch_path X b)"
    using assms(2) by (intro is_str_ascii) (simp add: legacy_batch_path_def uuid_ascii is_ascii_Cons)
  then show ?thesis
    using legacy_batch_valid[OF assms]
    by (simp add: classify_path_def starts_with_def) (simp add: legacy_batch_path_def)
qed

section \<open>Properties\<close>

text \<open>
  Classification is exact for every canonical class. A path is a journal record, journal
  batch, legacy event or legacy batch precisely when it is built from identifiers of the accepted
  versions, and for records a valid domain identifier, in the documented layout.
\<close>

theorem canonical_classes_exact:
  assumes "uuid_roundtrip X" and "uuid_plain X"
  shows "(classify_path X path = JournalRecord \<longleftrightarrow>
      (\<exists>d e r. path = record_path X d e r \<and> domain_id_from_str d = Inr d \<and>
         uuid_ok X [1, 3, 4, 5, 6, 7, 8] e \<and> uuid_ok X [7] r)) \<and>
    (classify_path X path = JournalBatch \<longleftrightarrow> (\<exists>b. path = batch_path X b \<and> uuid_ok X [7] b)) \<and>
    (classify_path X path = LegacyEvent \<longleftrightarrow>
      (\<exists>e r. path = legacy_event_path X e r \<and> uuid_ok X [4, 5, 7] e \<and> uuid_ok X [7] r)) \<and>
    (classify_path X path = LegacyBatch \<longleftrightarrow> (\<exists>b. path = legacy_batch_path X b \<and> uuid_ok X [7] b))"
proof (intro conjI)
  show "classify_path X path = JournalRecord \<longleftrightarrow>
      (\<exists>d e r. path = record_path X d e r \<and> domain_id_from_str d = Inr d \<and>
         uuid_ok X [1, 3, 4, 5, 6, 7, 8] e \<and> uuid_ok X [7] r)"
    using classify_JournalRecord_shape classify_record_path[OF assms] by blast
  show "classify_path X path = JournalBatch \<longleftrightarrow> (\<exists>b. path = batch_path X b \<and> uuid_ok X [7] b)"
    using classify_JournalBatch_shape classify_batch_path[OF assms] by blast
  have "classify_path X path = LegacyEvent \<Longrightarrow> valid_legacy_event X path"
    and "classify_path X path = LegacyBatch \<Longrightarrow> valid_legacy_batch X path"
    by (simp_all add: classify_path_def split: if_splits)
  then show "classify_path X path = LegacyEvent \<longleftrightarrow>
      (\<exists>e r. path = legacy_event_path X e r \<and> uuid_ok X [4, 5, 7] e \<and> uuid_ok X [7] r)"
    and "classify_path X path = LegacyBatch \<longleftrightarrow>
      (\<exists>b. path = legacy_batch_path X b \<and> uuid_ok X [7] b)"
    using legacy_event_shape legacy_batch_shape classify_legacy_event[OF assms]
      classify_legacy_batch[OF assms] by blast+
qed

text \<open>
  C40: reserved roots fail closed. Exactly the paths at or below \<open>events\<close>, \<open>batches\<close> and \<open>journal\<close>,
  valid UTF-8 or not, are kept from being classified as foreign content, and a canonical path is
  parsed exactly for the four canonical classes, keeping its bytes.
\<close>

theorem reserved_roots_fail_closed:
  "(classify_path X path = NonCanonical \<longleftrightarrow> \<not> reserved_prefix_bytes path) \<and>
   canonical_path_parse X path =
     (if is_canonical (classify_path X path)
      then Inr \<lparr>cp_bytes = path, cp_class = classify_path X path\<rparr> else Inl (PathError path))"
proof
  have "starts_with path (''journal/'' @ s) \<Longrightarrow> starts_with path ''journal/''" for s
    by (auto simp: starts_with_iff)
  from this[of "''records/''"] this[of "''batches/''"]
  show "classify_path X path = NonCanonical \<longleftrightarrow> \<not> reserved_prefix_bytes path"
    by (auto simp: classify_path_def reserved_prefix_bytes_def)
  show "canonical_path_parse X path =
     (if is_canonical (classify_path X path)
      then Inr \<lparr>cp_bytes = path, cp_class = classify_path X path\<rparr> else Inl (PathError path))"
    by (cases "classify_path X path") (simp_all add: canonical_path_parse_def is_canonical_def)
qed

end
