(* ===== verification/Wj_Codec.thy ===== *)
theory Wj_Codec
  imports Wj_Layout
begin

text \<open>
  The contract every wire codec of the crate promises: the decoder accepts only bytes that the
  encoder produces again from the decoded value, and nothing above the size limit. The
  consequences (one wire form per value, bounded inputs, and for codecs that also read back what
  they write an exact correspondence) are proved once here and interpreted by each codec.
\<close>

locale canonical_codec =
  fixes encode :: "'a \<Rightarrow> 'e + bytes"
    and decode :: "bytes \<Rightarrow> 'd + 'a"
    and limit :: nat
  assumes decode_canonical: "decode bs = Inr x \<Longrightarrow> encode x = Inr bs"
    and encode_bounded: "encode x = Inr bs \<Longrightarrow> length bs \<le> limit"
begin

lemma decode_unique: "decode bs = Inr x \<Longrightarrow> decode bs' = Inr x \<Longrightarrow> bs = bs'"
  by (metis decode_canonical sum.inject(2))

lemma decode_bounded: "decode bs = Inr x \<Longrightarrow> length bs \<le> limit"
  using decode_canonical encode_bounded by blast

lemma oversized_rejected: "limit < length bs \<Longrightarrow> \<exists>e. decode bs = Inl e"
  using decode_bounded by (cases "decode bs") fastforce+

end

locale exact_codec = canonical_codec encode decode limit
  for encode :: "'a \<Rightarrow> 'e + bytes" and decode :: "bytes \<Rightarrow> 'd + 'a" and limit :: nat +
  fixes ok :: "'a \<Rightarrow> bool"
  assumes encode_readable: "ok x \<Longrightarrow> encode x = Inr bs \<Longrightarrow> decode bs = Inr x"
begin

lemma decode_iff: "ok x \<Longrightarrow> decode bs = Inr x \<longleftrightarrow> encode x = Inr bs"
  using decode_canonical encode_readable by blast

lemma encode_inj: "ok x \<Longrightarrow> ok y \<Longrightarrow> encode x = Inr bs \<Longrightarrow> encode y = Inr bs \<Longrightarrow> x = y"
  using encode_readable by (metis sum.inject(2))

end

end
