(* ===== verification/Wj_Record.thy ===== *)
theory Wj_Record
  imports Wj_Codec
begin

text \<open>
  \<open>record.rs\<close>: the registry of domain schemas and the closed canonical record envelope. An error
  value carries the structured fields of the source's variant; the diagnostic text composed from
  them is not modelled.
\<close>

section \<open>The domain registry\<close>

type_synonym domain_validator = "kind_id \<Rightarrow> json \<Rightarrow> bool"

record domain_registration =
  reg_domain :: string
  reg_schema :: string
  reg_kinds :: "string list"
  reg_validator :: domain_validator

datatype registry_error =
    InvalidRegistration string
  | DuplicateRegistration string string
  | RegistryInvalidKind string

record domain_registry =
  registrations :: "domain_registration list"
  sealed_builtins :: bool

fun check_kinds :: "string list \<Rightarrow> string list \<Rightarrow> registry_error + unit" where
  "check_kinds seen [] = Inr ()"
| "check_kinds seen (kind # kinds) =
     (if \<not> is_ok (kind_id_from_str kind) \<or> kind \<in> set seen
      then Inl (RegistryInvalidKind kind)
      else check_kinds (bs_insert kind seen) kinds)"

definition check_registration ::
  "(string \<times> string) list \<Rightarrow> domain_registration \<Rightarrow> registry_error + (string \<times> string) list" where
  "check_registration pairs g =
     (if \<not> is_ok (domain_id_from_str (reg_domain g)) then Inl (InvalidRegistration (reg_domain g))
      else if \<not> is_ok (record_schema_id_from_str (reg_schema g))
      then Inl (InvalidRegistration (reg_schema g))
      else if map_option fst (split_once CHR ''/'' (reg_schema g)) \<noteq> Some (reg_domain g)
      then Inl (InvalidRegistration (reg_schema g))
      else if (reg_domain g, reg_schema g) \<in> set pairs
      then Inl (DuplicateRegistration (reg_domain g) (reg_schema g))
      else rbind (check_kinds [] (reg_kinds g))
        (\<lambda>_. Inr ((reg_domain g, reg_schema g) # pairs)))"

definition validate_and_collect :: "domain_registration list \<Rightarrow> registry_error + domain_registry" where
  "validate_and_collect gs =
     rbind (try_fold check_registration [] gs)
       (\<lambda>_. Inr \<lparr>registrations = gs, sealed_builtins = False\<rparr>)"

definition reserved_domain :: "string \<Rightarrow> bool" where
  "reserved_domain d \<longleftrightarrow>
     d = ''wayjournal.identity'' \<or> d = ''wayjournal.profile'' \<or> d = ''wayjournal.catalog''"

definition registry_new :: "domain_registration list \<Rightarrow> registry_error + domain_registry" where
  "registry_new gs = validate_and_collect gs"

definition with_builtins ::
  "domain_registration list \<Rightarrow> domain_registration list \<Rightarrow> registry_error + domain_registry" where
  "with_builtins builtins additional =
     (case find (\<lambda>g. reserved_domain (reg_domain g)) additional of
        Some g \<Rightarrow> Inl (InvalidRegistration (reg_domain g))
      | None \<Rightarrow>
          rbind (validate_and_collect (builtins @ additional))
            (\<lambda>registry. Inr (registry\<lparr>sealed_builtins := True\<rparr>)))"

definition supports :: "domain_registry \<Rightarrow> string \<Rightarrow> string \<Rightarrow> bool" where
  "supports R domain schema \<longleftrightarrow>
     (\<exists>g \<in> set (registrations R). reg_domain g = domain \<and> reg_schema g = schema)"

section \<open>The record envelope\<close>

record wj_record =
  r_schema :: record_schema_id
  r_domain :: domain_id
  r_kind :: kind_id
  r_id :: record_id
  r_entity :: entity_id
  r_batch :: batch_id
  r_actor :: actor_id
  r_occurred_at :: timestamp
  r_recorded_at :: timestamp
  r_parents :: "record_id list"
  r_payload :: json

definition RECORD_SCHEMA_V1 :: string where "RECORD_SCHEMA_V1 = ''wayjournal.record/v1''"
definition MAX_RECORD_BYTES :: nat where "MAX_RECORD_BYTES = 1024 * 1024"

definition ENVELOPE_FIELDS :: "string list" where
  "ENVELOPE_FIELDS = [''actor'', ''batch_id'', ''domain'', ''entity_id'', ''kind'', ''occurred_at'',
     ''parents'', ''payload'', ''record_id'', ''record_schema'', ''recorded_at'']"

datatype record_codec_error =
    RecordTooLarge
  | InvalidJson string
  | RecordDuplicateKey string
  | RecordFloatNotAllowed
  | EnvelopeNotObject
  | MissingField string
  | UnknownField string
  | InvalidField string
  | UnsupportedSchema string
  | UnknownDomainSchema string string
  | UnknownKind string string
  | InvalidPayload
  | InvalidParents
  | RecordNonCanonical

definition record_error_of_json :: "strict_json_error \<Rightarrow> record_codec_error" where
  "record_error_of_json e = (case e of
      SJ_Invalid m \<Rightarrow> InvalidJson m
    | SJ_DuplicateKey k \<Rightarrow> RecordDuplicateKey k
    | SJ_FloatNotAllowed \<Rightarrow> RecordFloatNotAllowed)"

definition record_canonical_path :: "ext \<Rightarrow> wj_record \<Rightarrow> string" where
  "record_canonical_path X r =
     ''journal/records/'' @ r_domain r @ ''/'' @ uuid_to_string X (r_entity r) @ ''/'' @
     uuid_to_string X (r_id r) @ ''.json''"

definition registry_validate ::
  "domain_registry \<Rightarrow> domain_id \<Rightarrow> record_schema_id \<Rightarrow> kind_id \<Rightarrow> json \<Rightarrow> record_codec_error + unit" where
  "registry_validate R domain schema kind payload =
     (case find (\<lambda>g. reg_domain g = domain \<and> reg_schema g = schema) (registrations R) of
        None \<Rightarrow> Inl (UnknownDomainSchema domain schema)
      | Some g \<Rightarrow>
          if kind \<notin> set (reg_kinds g) then Inl (UnknownKind schema kind)
          else if reg_validator g kind payload then Inr () else Inl InvalidPayload)"

definition validate_record :: "wj_record \<Rightarrow> domain_registry \<Rightarrow> record_codec_error + unit" where
  "validate_record r R =
     (if \<not> strictly_ordered (r_parents r) \<or> r_id r \<in> set (r_parents r) then Inl InvalidParents
      else registry_validate R (r_domain r) (r_schema r) (r_kind r) (r_payload r))"

definition record_to_value :: "ext \<Rightarrow> wj_record \<Rightarrow> json" where
  "record_to_value X r = JObject (bt_of_list
     [(''actor'', JString (r_actor r)),
      (''batch_id'', JString (uuid_to_string X (r_batch r))),
      (''domain'', JString (r_domain r)),
      (''entity_id'', JString (uuid_to_string X (r_entity r))),
      (''kind'', JString (r_kind r)),
      (''occurred_at'', JString (timestamp_to_string X (r_occurred_at r))),
      (''parents'', JArray (map (\<lambda>p. JString (uuid_to_string X p)) (r_parents r))),
      (''payload'', r_payload r),
      (''record_id'', JString (uuid_to_string X (r_id r))),
      (''record_schema'', JString (r_schema r)),
      (''recorded_at'', JString (timestamp_to_string X (r_recorded_at r))),
      (''schema'', JString RECORD_SCHEMA_V1)])"

definition encode_record :: "ext \<Rightarrow> wj_record \<Rightarrow> domain_registry \<Rightarrow> record_codec_error + bytes" where
  "encode_record X r R =
     rbind (validate_record r R) (\<lambda>_.
     rbind (map_err record_error_of_json (encode_pretty X (record_to_value X r))) (\<lambda>bs.
     if MAX_RECORD_BYTES < length bs then Inl RecordTooLarge else Inr bs))"

text \<open>Field access consumes the field, as \<open>Map::remove\<close> does.\<close>

definition take_field ::
  "(string, json) btree \<Rightarrow> string \<Rightarrow> record_codec_error + json \<times> (string, json) btree" where
  "take_field obj field =
     (case bt_get obj field of
        None \<Rightarrow> Inl (MissingField field)
      | Some v \<Rightarrow> Inr (v, bt_remove field obj))"

definition take_string ::
  "(string, json) btree \<Rightarrow> string \<Rightarrow> record_codec_error + string \<times> (string, json) btree" where
  "take_string obj field =
     rbind (take_field obj field) (\<lambda>(v, obj').
       case v of JString s \<Rightarrow> Inr (s, obj') | _ \<Rightarrow> Inl (InvalidField field))"

definition parse_string ::
  "(string \<Rightarrow> 'e + 'a) \<Rightarrow> (string, json) btree \<Rightarrow> string \<Rightarrow> record_codec_error + 'a \<times> (string, json) btree" where
  "parse_string parse obj field =
     rbind (take_string obj field) (\<lambda>(s, obj').
       case parse s of Inl _ \<Rightarrow> Inl (InvalidField field) | Inr x \<Rightarrow> Inr (x, obj'))"

definition take_string_array ::
  "(string, json) btree \<Rightarrow> string \<Rightarrow> record_codec_error + string list \<times> (string, json) btree" where
  "take_string_array obj field =
     rbind (take_field obj field) (\<lambda>(v, obj').
       case v of
         JArray vs \<Rightarrow>
           rbind (try_map (\<lambda>v. case v of JString s \<Rightarrow> Inr s | _ \<Rightarrow> Inl (InvalidField field)) vs)
             (\<lambda>ss. Inr (ss, obj'))
       | _ \<Rightarrow> Inl (InvalidField field))"

definition record_from_value :: "ext \<Rightarrow> json \<Rightarrow> record_codec_error + wj_record" where
  "record_from_value X v =
     (case v of JObject o0 \<Rightarrow>
        rbind (take_string o0 ''schema'') (\<lambda>(schema, o1).
        if schema \<noteq> RECORD_SCHEMA_V1 then Inl (UnsupportedSchema schema)
        else (case find (\<lambda>f. f \<notin> set ENVELOPE_FIELDS \<and> f \<noteq> ''schema'') (bt_keys o1) of
          Some f \<Rightarrow> Inl (UnknownField f)
        | None \<Rightarrow>
        rbind (parse_string record_schema_id_from_str o1 ''record_schema'') (\<lambda>(rs, o2).
        rbind (parse_string domain_id_from_str o2 ''domain'') (\<lambda>(dom, o3).
        rbind (parse_string kind_id_from_str o3 ''kind'') (\<lambda>(kd, o4).
        rbind (parse_string (record_id_from_str X) o4 ''record_id'') (\<lambda>(rid, o5).
        rbind (parse_string (entity_id_from_str X) o5 ''entity_id'') (\<lambda>(eid, o6).
        rbind (parse_string (batch_id_from_str X) o6 ''batch_id'') (\<lambda>(bid, o7).
        rbind (parse_string actor_id_parse o7 ''actor'') (\<lambda>(act, o8).
        rbind (parse_string (record_timestamp_from_str X) o8 ''occurred_at'') (\<lambda>(occ, o9).
        rbind (parse_string (record_timestamp_from_str X) o9 ''recorded_at'') (\<lambda>(rec, o10).
        rbind (take_string_array o10 ''parents'') (\<lambda>(ps, o11).
        rbind (try_map (\<lambda>p. map_err (\<lambda>_. InvalidField ''parents'') (record_id_from_str X p)) ps) (\<lambda>parents.
        rbind (take_field o11 ''payload'') (\<lambda>(payload, _).
        Inr \<lparr>r_schema = rs, r_domain = dom, r_kind = kd, r_id = rid, r_entity = eid,
              r_batch = bid, r_actor = act, r_occurred_at = occ, r_recorded_at = rec,
              r_parents = parents, r_payload = payload\<rparr>))))))))))))))
      | _ \<Rightarrow> Inl EnvelopeNotObject)"

definition decode_record :: "ext \<Rightarrow> bytes \<Rightarrow> domain_registry \<Rightarrow> record_codec_error + wj_record" where
  "decode_record X bs R =
     (if MAX_RECORD_BYTES < length bs then Inl RecordTooLarge
      else rbind (map_err record_error_of_json (decode_strict X bs)) (\<lambda>v.
           rbind (record_from_value X v) (\<lambda>r.
           rbind (validate_record r R) (\<lambda>_.
           rbind (encode_record X r R) (\<lambda>again.
           if again \<noteq> bs then Inl RecordNonCanonical else Inr r)))))"

section \<open>Registries\<close>

lemma check_registration_Inr:
  "check_registration ps g = Inr qs \<Longrightarrow>
     qs = (reg_domain g, reg_schema g) # ps \<and> (reg_domain g, reg_schema g) \<notin> set ps"
  by (auto simp: check_registration_def result_simps split: if_splits)

lemma try_fold_check_registration:
  "try_fold check_registration ps gs = Inr qs \<Longrightarrow> distinct ps \<Longrightarrow>
     distinct qs \<and> qs = rev (map (\<lambda>g. (reg_domain g, reg_schema g)) gs) @ ps"
proof (induction gs arbitrary: ps)
  case (Cons g gs)
  then show ?case
    by (auto simp: result_simps dest!: check_registration_Inr)
qed auto

lemma validate_and_collect_Inr:
  assumes "validate_and_collect gs = Inr R"
  shows "registrations R = gs" and "\<not> sealed_builtins R"
    and "distinct (map (\<lambda>g. (reg_domain g, reg_schema g)) gs)"
  using assms try_fold_check_registration[of "[]" gs]
  by (auto simp: validate_and_collect_def result_simps)

lemma with_builtins_Inr:
  assumes "with_builtins bs as = Inr R"
  shows "registrations R = bs @ as" and "sealed_builtins R"
    and "distinct (map (\<lambda>g. (reg_domain g, reg_schema g)) (bs @ as))"
    and "\<forall>g \<in> set as. \<not> reserved_domain (reg_domain g)"
proof -
  obtain R0 where R0: "validate_and_collect (bs @ as) = Inr R0" "R = R0\<lparr>sealed_builtins := True\<rparr>"
    and f: "find (\<lambda>g. reserved_domain (reg_domain g)) as = None"
    using assms by (auto simp: with_builtins_def result_simps split: option.splits)
  show "registrations R = bs @ as" "sealed_builtins R"
    "distinct (map (\<lambda>g. (reg_domain g, reg_schema g)) (bs @ as))"
    using validate_and_collect_Inr[OF R0(1)] R0(2) by simp_all
  show "\<forall>g \<in> set as. \<not> reserved_domain (reg_domain g)"
    using f by (auto simp: find_None_iff)
qed

section \<open>The envelope\<close>

text \<open>The invariant the Rust field types give every record value.\<close>

definition record_ok :: "ext \<Rightarrow> wj_record \<Rightarrow> bool" where
  "record_ok X r \<longleftrightarrow>
     record_schema_id_from_str (r_schema r) = Inr (r_schema r) \<and>
     domain_id_from_str (r_domain r) = Inr (r_domain r) \<and>
     kind_id_from_str (r_kind r) = Inr (r_kind r) \<and>
     v7_ok X (r_id r) \<and> entity_ok X (r_entity r) \<and> v7_ok X (r_batch r) \<and>
     actor_id_parse (r_actor r) = Inr (r_actor r) \<and>
     list_all (v7_ok X) (r_parents r) \<and> json_wf (r_payload r)"

lemma record_object_eq:
  "record_to_value X r = JObject
     [(''actor'', JString (r_actor r)),
      (''batch_id'', JString (uuid_to_string X (r_batch r))),
      (''domain'', JString (r_domain r)),
      (''entity_id'', JString (uuid_to_string X (r_entity r))),
      (''kind'', JString (r_kind r)),
      (''occurred_at'', JString (timestamp_to_string X (r_occurred_at r))),
      (''parents'', JArray (map (\<lambda>p. JString (uuid_to_string X p)) (r_parents r))),
      (''payload'', r_payload r),
      (''record_id'', JString (uuid_to_string X (r_id r))),
      (''record_schema'', JString (r_schema r)),
      (''recorded_at'', JString (timestamp_to_string X (r_recorded_at r))),
      (''schema'', JString RECORD_SCHEMA_V1)]"
  by (simp add: record_to_value_def bt_of_list_def less_char_def)

lemma try_map_parents:
  assumes "uuid_roundtrip X" and "list_all (v7_ok X) ps"
  shows "try_map (\<lambda>p. map_err f (record_id_from_str X p)) (map (uuid_to_string X) ps) = Inr ps"
  using assms
  by (induction ps) (simp_all add: record_id_from_str_def parse_uuid_to_string)

lemma try_map_strings:
  "try_map (\<lambda>v. case v of JString s \<Rightarrow> Inr s | _ \<Rightarrow> Inl e) (map (\<lambda>p. JString (f p)) ps) = Inr (map f ps)"
  by (induction ps) simp_all

lemma record_from_to_value:
  assumes "uuid_roundtrip X" and "timestamp_roundtrip X" and "record_ok X r"
  shows "record_from_value X (record_to_value X r) = Inr r"
  using assms
  by (simp add: record_from_value_def record_object_eq take_string_def take_field_def
      parse_string_def take_string_array_def try_map_strings try_map_parents ENVELOPE_FIELDS_def
      bt_keys_def record_ok_def parse_uuid_to_string record_timestamp_to_string
      id_from_str_defs try_map_parents[unfolded record_id_from_str_def])

lemma good_record_value:
  assumes "json_wf (r_payload r)" and "float_free (r_payload r)"
  shows "good_json (record_to_value X r)"
  using assms by (simp add: record_object_eq good_json_def less_char_def list_all_iff)

lemma float_free_record_value:
  "float_free (record_to_value X r) \<longleftrightarrow> float_free (r_payload r)"
  by (simp add: record_object_eq list_all_iff)

lemma fold_max_zero: "list_all (\<lambda>x. x = 0) xs \<Longrightarrow> fold max xs (n::nat) = n"
  by (induction xs arbitrary: n) auto

lemma record_value_depth:
  "json_depth (record_to_value X r) = Suc (max 1 (json_depth (r_payload r)))"
proof -
  have "fold max (map json_depth (map (\<lambda>p. JString (uuid_to_string X p)) (r_parents r))) 0 = 0"
    by (rule fold_max_zero) (simp add: list_all_iff)
  then show ?thesis
    by (simp add: record_object_eq comp_def max.commute)
qed

lemma encode_record_Inr:
  "encode_record X r R = Inr bs \<longleftrightarrow>
     validate_record r R = Inr () \<and> encode_pretty X (record_to_value X r) = Inr bs \<and>
     length bs \<le> MAX_RECORD_BYTES"
  by (auto simp: encode_record_def result_simps)

lemma decode_record_Inr:
  "decode_record X bs R = Inr r \<longleftrightarrow>
     (\<exists>v. decode_strict X bs = Inr v \<and> record_from_value X v = Inr r) \<and>
     encode_record X r R = Inr bs"
  by (auto simp: decode_record_def encode_record_def result_simps)

lemma take_field_Inr:
  "take_field obj f = Inr (v, obj') \<longleftrightarrow> bt_get obj f = Some v \<and> obj' = bt_remove f obj"
  by (auto simp: take_field_def split: option.splits)

lemma take_string_Inr:
  "take_string obj f = Inr (s, obj') \<longleftrightarrow> bt_get obj f = Some (JString s) \<and> obj' = bt_remove f obj"
proof (cases "bt_get obj f")
  case (Some v)
  then show ?thesis by (cases v) (auto simp: take_string_def take_field_def)
qed (simp add: take_string_def take_field_def)

lemma parse_string_Inr:
  "parse_string p obj f = Inr (x, obj') \<longleftrightarrow>
     (\<exists>s. bt_get obj f = Some (JString s) \<and> p s = Inr x) \<and> obj' = bt_remove f obj"
proof (cases "take_string obj f")
  case (Inl e)
  then have "bt_get obj f \<noteq> Some (JString s)" for s
    using take_string_Inr[of obj f s "bt_remove f obj"] by auto
  with Inl show ?thesis by (auto simp: parse_string_def)
next
  case (Inr so)
  then show ?thesis
    using take_string_Inr[of obj f "fst so" "snd so"]
    by (cases so; cases "p (fst so)") (auto simp: parse_string_def)
qed

lemma bt_get_mem: "bt_get m k = Some v \<Longrightarrow> (k, v) \<in> set m"
  by (simp add: bt_get_map_of map_of_SomeD)

lemma good_field: "good_json (JObject obj) \<Longrightarrow> bt_get obj f = Some v \<Longrightarrow> good_json v"
  using bt_get_mem[of obj f v] by (auto simp: list_all_iff)

lemma take_string_array_rest: "take_string_array obj f = Inr (ss, obj') \<Longrightarrow> obj' = bt_remove f obj"
proof (cases "bt_get obj f")
  case (Some v)
  moreover assume "take_string_array obj f = Inr (ss, obj')"
  ultimately show ?thesis
    by (cases v) (auto simp: take_string_array_def take_field_def result_simps)
qed (simp add: take_string_array_def take_field_def)

lemma record_from_value_fields:
  assumes "record_from_value X (JObject obj) = Inr r"
  shows "(\<exists>s. record_schema_id_from_str s = Inr (r_schema r)) \<and>
    (\<exists>s. domain_id_from_str s = Inr (r_domain r)) \<and>
    (\<exists>s. kind_id_from_str s = Inr (r_kind r)) \<and>
    (\<exists>s. record_id_from_str X s = Inr (r_id r)) \<and>
    (\<exists>s. entity_id_from_str X s = Inr (r_entity r)) \<and>
    (\<exists>s. batch_id_from_str X s = Inr (r_batch r)) \<and>
    (\<exists>s. actor_id_parse s = Inr (r_actor r)) \<and>
    (\<exists>ss. try_map (\<lambda>p. map_err (\<lambda>_. InvalidField ''parents'') (record_id_from_str X p)) ss =
       Inr (r_parents r)) \<and>
    bt_get obj ''payload'' = Some (r_payload r)"
  using assms unfolding record_from_value_def
  apply (simp only: json.case)
  apply (elim rbind_pairE)
  apply (simp only: sum.distinct split: if_split_asm option.split_asm)
  apply (elim rbind_pairE rbindE)
  apply (drule take_string_array_rest)
  apply (simp only: parse_string_Inr take_string_Inr take_field_Inr)
  apply (elim conjE exE)
  apply (simp only: sum.inject)
  apply hypsubst
  apply (simp only: wj_record.select_convs)
  apply (intro conjI)
          apply (rule exI, assumption)+
  subgoal premises prems using prems(4) by (simp add: bt_get_remove_other)
  done
lemma record_from_value_ok:
  assumes "record_from_value X v = Inr r" and "good_json v"
  shows "record_ok X r" and "good_json (r_payload r)"
proof -
  obtain obj where obj: "v = JObject obj"
    using assms by (cases v) (auto simp: record_from_value_def)
  note fields = record_from_value_fields[OF assms(1)[unfolded obj]]
  show payload: "good_json (r_payload r)"
    using fields assms(2) obj good_field by blast
  obtain ss where "try_map (\<lambda>p. map_err (\<lambda>_. InvalidField ''parents'') (record_id_from_str X p)) ss
      = Inr (r_parents r)"
    using fields by blast
  then have "list_all (v7_ok X) (r_parents r)"
    by (rule try_map_list_all) (simp add: result_simps record_id_from_str_def parse_uuid_Inr_iff)
  then show "record_ok X r"
    using fields payload
    by (auto simp: record_ok_def good_json_def id_from_str_defs parse_uuid_Inr_iff
        record_schema_id_Inr dest: domain_id_Inr kind_id_Inr actor_id_Inr)
qed

section \<open>The record codec keeps the canonical contract\<close>

interpretation record_codec: canonical_codec
  "\<lambda>r. encode_record X r R" "\<lambda>bs. decode_record X bs R" MAX_RECORD_BYTES
  for X R
  by unfold_locales (simp_all add: decode_record_Inr encode_record_Inr)

text \<open>Records that read back: type invariant, nesting within the reader's limit, library laws.\<close>

definition record_readable :: "ext \<Rightarrow> wj_record \<Rightarrow> bool" where
  "record_readable X r \<longleftrightarrow>
     uuid_roundtrip X \<and> timestamp_roundtrip X \<and> json_roundtrip X \<and>
     record_ok X r \<and> json_depth (r_payload r) < json_limit"

lemma encode_record_readable:
  assumes "record_readable X r" and "encode_record X r R = Inr bs"
  shows "decode_record X bs R = Inr r"
proof -
  note ok = assms(1)[unfolded record_readable_def]
  have enc: "encode_pretty X (record_to_value X r) = Inr bs"
    using assms(2) by (simp add: encode_record_Inr)
  then have "float_free (r_payload r)"
    by (auto simp: encode_pretty_def result_simps reject_floats_iff float_free_record_value)
  then have "decode_strict X bs = Inr (record_to_value X r)"
    using ok enc by (intro decode_encode_pretty good_record_value)
      (simp_all add: record_ok_def record_value_depth json_limit_def)
  then show ?thesis
    using assms(2) ok record_from_to_value by (auto simp: decode_record_Inr)
qed

interpretation record_exact: exact_codec
  "\<lambda>r. encode_record X r R" "\<lambda>bs. decode_record X bs R" MAX_RECORD_BYTES "record_readable X"
  for X R
  by unfold_locales (rule encode_record_readable)

lemma decode_record_ok:
  assumes "decode_record X bs R = Inr r"
  shows "record_ok X r" and "strictly_ordered (r_parents r)" and "r_id r \<notin> set (r_parents r)"
    and "registry_validate R (r_domain r) (r_schema r) (r_kind r) (r_payload r) = Inr ()"
proof -
  obtain v where "decode_strict X bs = Inr v" "record_from_value X v = Inr r"
    using assms by (auto simp: decode_record_Inr)
  then show "record_ok X r"
    using decode_strict_good record_from_value_ok by blast
  have "validate_record r R = Inr ()"
    using assms by (simp add: decode_record_Inr encode_record_Inr)
  then show "strictly_ordered (r_parents r)" "r_id r \<notin> set (r_parents r)"
    "registry_validate R (r_domain r) (r_schema r) (r_kind r) (r_payload r) = Inr ()"
    by (auto simp: validate_record_def split: if_splits)
qed

lemma record_canonical_path_eq:
  "record_canonical_path X r = record_path X (r_domain r) (r_entity r) (r_id r)"
  by (simp add: record_canonical_path_def record_path_def)

lemma classify_record_canonical_path:
  assumes "uuid_roundtrip X" and "uuid_plain X" and "record_ok X r"
  shows "classify_path X (record_canonical_path X r) = JournalRecord"
  using assms unfolding record_canonical_path_eq record_ok_def by (intro classify_record_path) auto

lemma record_path_inj:
  assumes "uuid_roundtrip X" and "uuid_plain X"
    and "CHR ''/'' \<notin> set d" "entity_ok X e" "v7_ok X r"
    and "CHR ''/'' \<notin> set d'" "entity_ok X e'" "v7_ok X r'"
    and "record_path X d e r = record_path X d' e' r'"
  shows "d = d' \<and> e = e' \<and> r = r'"
proof -
  have "[''journal'', ''records'', d, uuid_to_string X e, uuid_to_string X r @ ''.json''] =
      [''journal'', ''records'', d', uuid_to_string X e', uuid_to_string X r' @ ''.json'']"
    using assms split_record_path by metis
  then show ?thesis
    using assms uuid_to_string_inj by auto
qed

section \<open>Properties\<close>

text \<open>
  C35: what the record decoder accepts. The bytes are exactly the canonical encoding of the decoded
  record and within the size limit; every field satisfies its own language; the parents are
  strictly sorted and exclude the record itself; and the registry accepts domain, schema, kind and
  payload.
\<close>

theorem decode_record_canonical:
  assumes "decode_record X bs R = Inr r"
  shows "encode_record X r R = Inr bs \<and> length bs \<le> MAX_RECORD_BYTES \<and> record_ok X r \<and>
    strictly_ordered (r_parents r) \<and> r_id r \<notin> set (r_parents r) \<and>
    registry_validate R (r_domain r) (r_schema r) (r_kind r) (r_payload r) = Inr ()"
  using decode_record_ok[OF assms] record_codec.decode_canonical[OF assms]
    record_codec.decode_bounded[OF assms] by blast

text \<open>
  C34: the record codec is exact on readable records, those of the type invariant whose payload
  nests within the reader's recursion limit: decoding some bytes gives the record precisely when
  encoding the record gives the bytes.
\<close>

theorem record_codec_exact:
  assumes "record_readable X r"
  shows "decode_record X bs R = Inr r \<longleftrightarrow> encode_record X r R = Inr bs"
  using assms by (rule record_exact.decode_iff)

text \<open>
  The canonical path of a record is a journal record path and names domain, entity and record
  identifier uniquely.
\<close>

lemma record_paths_unique:
  assumes "uuid_roundtrip X" and "uuid_plain X" and "record_ok X r" and "record_ok X r'"
  shows "classify_path X (record_canonical_path X r) = JournalRecord \<and>
    (record_canonical_path X r = record_canonical_path X r' \<longleftrightarrow>
     r_domain r = r_domain r' \<and> r_entity r = r_entity r' \<and> r_id r = r_id r')"
proof -
  have "CHR ''/'' \<notin> set (r_domain r)" "CHR ''/'' \<notin> set (r_domain r')"
    using assms(3,4) domain_id_plain(1) unfolding record_ok_def by blast+
  then show ?thesis
    using classify_record_canonical_path[OF assms(1-3)] assms
      record_path_inj[OF assms(1,2), of "r_domain r" "r_entity r" "r_id r"
        "r_domain r'" "r_entity r'" "r_id r'"]
    unfolding record_canonical_path_eq record_ok_def by metis
qed

text \<open>What an accepted registration satisfies.\<close>

definition registration_ok :: "domain_registration \<Rightarrow> bool" where
  "registration_ok g \<longleftrightarrow>
     is_ok (domain_id_from_str (reg_domain g)) \<and> is_ok (record_schema_id_from_str (reg_schema g)) \<and>
     map_option fst (split_once CHR ''/'' (reg_schema g)) = Some (reg_domain g) \<and>
     list_all (\<lambda>k. is_ok (kind_id_from_str k)) (reg_kinds g) \<and> distinct (reg_kinds g)"

lemma check_kinds_iff:
  "check_kinds seen ks = Inr () \<longleftrightarrow>
     list_all (\<lambda>k. is_ok (kind_id_from_str k)) ks \<and> distinct ks \<and> set ks \<inter> set seen = {}"
  by (induction seen ks rule: check_kinds.induct) auto

lemma check_registration_iff:
  "check_registration ps g = Inr qs \<longleftrightarrow>
     registration_ok g \<and> (reg_domain g, reg_schema g) \<notin> set ps \<and>
     qs = (reg_domain g, reg_schema g) # ps"
  using check_kinds_iff[of "[]" "reg_kinds g"]
  by (auto simp: check_registration_def registration_ok_def result_simps)

lemma validate_and_collect_iff:
  "validate_and_collect gs = Inr R \<longleftrightarrow>
     list_all registration_ok gs \<and> distinct (map (\<lambda>g. (reg_domain g, reg_schema g)) gs) \<and>
     R = \<lparr>registrations = gs, sealed_builtins = False\<rparr>"
proof -
  have "(\<exists>qs. try_fold check_registration ps gs = Inr qs) \<longleftrightarrow>
      list_all registration_ok gs \<and> distinct (map (\<lambda>g. (reg_domain g, reg_schema g)) gs) \<and>
      (\<lambda>g. (reg_domain g, reg_schema g)) ` set gs \<inter> set ps = {}" for ps
    by (induction gs arbitrary: ps) (auto simp: result_simps check_registration_iff)
  from this[of "[]"] show ?thesis
    by (auto simp: validate_and_collect_def result_simps)
qed

lemma registry_lookup:
  assumes "distinct (map (\<lambda>g. (reg_domain g, reg_schema g)) (registrations R))"
  shows "(registry_validate R d s k v = Inr ()) =
        list_ex (\<lambda>g. reg_domain g = d \<and> reg_schema g = s \<and> k \<in> set (reg_kinds g) \<and>
          reg_validator g k v) (registrations R)"
proof -
  have "(find (\<lambda>g. reg_domain g = d \<and> reg_schema g = s) gs = Some g) =
      (g \<in> set gs \<and> reg_domain g = d \<and> reg_schema g = s)"
    if "distinct (map (\<lambda>g. (reg_domain g, reg_schema g)) gs)" for gs g
    using that by (induction gs) auto
  note found = this[OF assms]
  show ?thesis
  proof (cases "find (\<lambda>g. reg_domain g = d \<and> reg_schema g = s) (registrations R)")
    case None
    then have "\<not> (\<exists>g. g \<in> set (registrations R) \<and> reg_domain g = d \<and> reg_schema g = s)"
      by (simp add: find_None_iff)
    then show ?thesis
      using None unfolding registry_validate_def list_ex_iff by auto
  next
    case (Some g)
    then have eq: "(h \<in> set (registrations R) \<and> reg_domain h = d \<and> reg_schema h = s) = (h = g)" for h
      using found[of h] by auto
    have "list_ex (\<lambda>g. reg_domain g = d \<and> reg_schema g = s \<and> k \<in> set (reg_kinds g) \<and>
        reg_validator g k v) (registrations R) =
      (\<exists>h. (h \<in> set (registrations R) \<and> reg_domain h = d \<and> reg_schema h = s) \<and>
         k \<in> set (reg_kinds h) \<and> reg_validator h k v)"
      by (auto simp: list_ex_iff)
    also have "\<dots> = (k \<in> set (reg_kinds g) \<and> reg_validator g k v)"
      unfolding eq by simp
    finally show ?thesis
      using Some by (simp add: registry_validate_def)
  qed
qed

text \<open>
  Registries are exact. Construction accepts a list of registrations precisely when each names
  a valid domain and a schema of that very domain with valid unrepeated kinds and no domain and
  schema pair occurs twice; in an accepted registry a record header and payload are valid
  precisely when one of the registrations names the pair, lists the kind and accepts the payload.
\<close>

theorem registry_exact:
  "(\<exists>R. registry_new gs = Inr R) =
     (list_all registration_ok gs \<and> distinct (map (\<lambda>g. (reg_domain g, reg_schema g)) gs)) \<and>
   (case registry_new gs of Inl _ \<Rightarrow> True
    | Inr R \<Rightarrow> (registry_validate R d s k v = Inr ()) =
        list_ex (\<lambda>g. reg_domain g = d \<and> reg_schema g = s \<and> k \<in> set (reg_kinds g) \<and>
          reg_validator g k v) gs)"
proof
  show "(\<exists>R. registry_new gs = Inr R) =
     (list_all registration_ok gs \<and> distinct (map (\<lambda>g. (reg_domain g, reg_schema g)) gs))"
    by (simp add: registry_new_def validate_and_collect_iff)
  show "case registry_new gs of Inl _ \<Rightarrow> True
    | Inr R \<Rightarrow> (registry_validate R d s k v = Inr ()) =
        list_ex (\<lambda>g. reg_domain g = d \<and> reg_schema g = s \<and> k \<in> set (reg_kinds g) \<and>
          reg_validator g k v) gs"
    using registry_lookup by (auto simp: registry_new_def validate_and_collect_iff split: sum.split)
qed

end
