(* ===== verification/Wj_Batch.thy ===== *)
theory Wj_Batch
  imports Wj_Record
begin

text \<open>
  \<open>batch.rs\<close>: batch manifests, their canonical codec, the digests that bind a manifest to its
  member records, the validation of stored members and of exclusive ownership, and the
  classification of retried requests.
\<close>

section \<open>Data\<close>

record record_ref =
  ref_path :: string
  ref_id :: record_id
  ref_schema :: record_schema_id
  ref_digest :: digest

record batch_manifest =
  bm_batch :: batch_id
  bm_actor :: actor_id
  bm_members :: "record_ref list"
  bm_key_digest :: digest
  bm_request :: digest

record prepared_record =
  pr_record :: wj_record
  pr_path :: string
  pr_bytes :: bytes

record prepared_batch =
  pb_manifest :: batch_manifest
  pb_manifest_path :: string
  pb_manifest_bytes :: bytes
  pb_records :: "prepared_record list"

record stored_member =
  sm_path :: bytes
  sm_bytes :: bytes

datatype idempotency_decision = IdemNew | IdemReplay batch_manifest

datatype batch_error =
    EmptyBatch
  | MixedBatchId record_id batch_id batch_id
  | MixedActor record_id actor_id actor_id
  | BatchDuplicateRecordId record_id
  | InvalidRecord record_id record_codec_error
  | ManifestTooLarge
  | BatchInvalidJson strict_json_error
  | ManifestNotObject
  | InvalidManifest
  | UnsupportedBatchSchema string
  | UnsortedMembers
  | DuplicateStoredPath bytes
  | MissingMember string
  | ExtraMember bytes
  | InvalidStoredRecord bytes record_codec_error
  | MemberIdentityMismatch string
  | MemberBatchMismatch string
  | MemberActorMismatch string
  | MemberDigestMismatch string
  | RequestDigestMismatch
  | UnownedRecord bytes
  | MultiplyOwnedRecord bytes
  | OwnershipMissingMember string
  | IdempotencyRequestMismatch batch_id
  | DuplicateIdempotencyOwnership "batch_id list"
  | BatchNonCanonical
  | BatchInvalidDigest digest_error

definition BATCH_SCHEMA_V1 :: string where "BATCH_SCHEMA_V1 = ''wayjournal.batch/v1''"
definition MAX_BATCH_BYTES :: nat where "MAX_BATCH_BYTES = 1024 * 1024"
definition CONTENT_DIGEST_DOMAIN :: bytes where
  "CONTENT_DIGEST_DOMAIN = ''wayjournal-content-v1'' @ [CHR 0x00]"
definition REQUEST_DIGEST_DOMAIN :: bytes where
  "REQUEST_DIGEST_DOMAIN = ''wayjournal-batch-request-v1'' @ [CHR 0x00]"
definition IDEMPOTENCY_DIGEST_DOMAIN :: bytes where
  "IDEMPOTENCY_DIGEST_DOMAIN = ''wayjournal-idempotency-key-v1'' @ [CHR 0x00]"

section \<open>Digests\<close>

definition content_digest :: "ext \<Rightarrow> bytes \<Rightarrow> digest" where
  "content_digest X bs = hash_bytes X CONTENT_DIGEST_DOMAIN bs"

text \<open>The incremental request digest; its state is the input absorbed so far.\<close>

definition request_acc_new :: bytes where
  "request_acc_new = REQUEST_DIGEST_DOMAIN"

definition request_acc_push :: "bytes \<Rightarrow> bytes \<Rightarrow> bytes \<Rightarrow> bytes" where
  "request_acc_push h path bs = update_frame (update_frame h path) bs"

definition request_acc_finish :: "ext \<Rightarrow> bytes \<Rightarrow> digest" where
  "request_acc_finish X h = blake3_hash X h"

definition idempotency_digest :: "ext \<Rightarrow> actor_id \<Rightarrow> string \<Rightarrow> digest" where
  "idempotency_digest X actor key = framed_hash X IDEMPOTENCY_DIGEST_DOMAIN [(actor, key)]"

section \<open>Encoding\<close>

definition manifest_canonical_path :: "ext \<Rightarrow> batch_manifest \<Rightarrow> string" where
  "manifest_canonical_path X m = ''journal/batches/'' @ uuid_to_string X (bm_batch m) @ ''.json''"

definition ref_to_value :: "ext \<Rightarrow> record_ref \<Rightarrow> json" where
  "ref_to_value X m = JObject (bt_of_list
     [(''content_digest'', JString (digest_to_string X (ref_digest m))),
      (''path'', JString (ref_path m)),
      (''record_id'', JString (uuid_to_string X (ref_id m))),
      (''record_schema'', JString (ref_schema m))])"

definition manifest_to_value :: "ext \<Rightarrow> batch_manifest \<Rightarrow> json" where
  "manifest_to_value X m = JObject (bt_of_list
     [(''actor'', JString (bm_actor m)),
      (''batch_id'', JString (uuid_to_string X (bm_batch m))),
      (''idempotency_key_digest'', JString (digest_to_string X (bm_key_digest m))),
      (''members'', JArray (map (ref_to_value X) (bm_members m))),
      (''request_digest'', JString (digest_to_string X (bm_request m))),
      (''schema'', JString BATCH_SCHEMA_V1)])"

definition encode_manifest :: "ext \<Rightarrow> batch_manifest \<Rightarrow> batch_error + bytes" where
  "encode_manifest X m =
     rbind (map_err BatchInvalidJson (encode_pretty X (manifest_to_value X m))) (\<lambda>bs.
     if MAX_BATCH_BYTES < length bs then Inl ManifestTooLarge else Inr bs)"

section \<open>Preparation\<close>

definition prepare_step ::
  "ext \<Rightarrow> domain_registry \<Rightarrow> batch_id \<Rightarrow> actor_id \<Rightarrow>
   record_id list \<times> (string, prepared_record) btree \<Rightarrow> wj_record \<Rightarrow>
   batch_error + record_id list \<times> (string, prepared_record) btree" where
  "prepare_step X R batch actor st r = (case st of (ids, collected) \<Rightarrow>
     if r_batch r \<noteq> batch then Inl (MixedBatchId (r_id r) batch (r_batch r))
     else if r_actor r \<noteq> actor then Inl (MixedActor (r_id r) actor (r_actor r))
     else if r_id r \<in> set ids then Inl (BatchDuplicateRecordId (r_id r))
     else rbind (map_err (InvalidRecord (r_id r)) (encode_record X r R)) (\<lambda>bs.
          let path = record_canonical_path X r in
          Inr (bs_insert (r_id r) ids,
               bt_insert path \<lparr>pr_record = r, pr_path = path, pr_bytes = bs\<rparr> collected)))"

definition prepared_ref :: "ext \<Rightarrow> prepared_record \<Rightarrow> record_ref" where
  "prepared_ref X p =
     \<lparr>ref_path = pr_path p, ref_id = r_id (pr_record p), ref_schema = r_schema (pr_record p),
      ref_digest = content_digest X (pr_bytes p)\<rparr>"

definition prepare_batch ::
  "ext \<Rightarrow> wj_record list \<Rightarrow> string \<Rightarrow> domain_registry \<Rightarrow> batch_error + prepared_batch" where
  "prepare_batch X rs key R =
     (case rs of
        [] \<Rightarrow> Inl EmptyBatch
      | first # _ \<Rightarrow>
          rbind (try_fold (prepare_step X R (r_batch first) (r_actor first)) ([], []) rs) (\<lambda>(_, collected).
          let records = bt_values collected;
              manifest = \<lparr>bm_batch = r_batch first, bm_actor = r_actor first,
                bm_members = map (prepared_ref X) records,
                bm_key_digest = idempotency_digest X (r_actor first) key,
                bm_request = framed_hash X REQUEST_DIGEST_DOMAIN
                  (map (\<lambda>p. (pr_path p, pr_bytes p)) records)\<rparr>
          in rbind (encode_manifest X manifest) (\<lambda>bs.
             Inr \<lparr>pb_manifest = manifest, pb_manifest_path = manifest_canonical_path X manifest,
                   pb_manifest_bytes = bs, pb_records = records\<rparr>)))"

section \<open>Decoding\<close>

record raw_record_ref =
  raw_content_digest :: string
  raw_path :: string
  raw_record_id :: string
  raw_record_schema :: string

record raw_manifest =
  raw_actor :: string
  raw_batch_id :: string
  raw_key_digest :: string
  raw_members :: "raw_record_ref list"
  raw_request :: string
  raw_schema :: string

fun option_map :: "('a \<Rightarrow> 'b option) \<Rightarrow> 'a list \<Rightarrow> 'b list option" where
  "option_map f [] = Some []"
| "option_map f (x # xs) =
     (case f x of None \<Rightarrow> None | Some y \<Rightarrow>
       (case option_map f xs of None \<Rightarrow> None | Some ys \<Rightarrow> Some (y # ys)))"

definition raw_ref_from_value :: "ext \<Rightarrow> json \<Rightarrow> raw_record_ref option" where
  "raw_ref_from_value X v =
     (case serde_fields X [(''content_digest'', False), (''path'', False), (''record_id'', False),
        (''record_schema'', False)] v of
        Some [Some cd, Some p, Some rid, Some rs] \<Rightarrow>
          (case (de_string cd, de_string p, de_string rid, de_string rs) of
             (Some cd, Some p, Some rid, Some rs) \<Rightarrow>
               Some \<lparr>raw_content_digest = cd, raw_path = p, raw_record_id = rid, raw_record_schema = rs\<rparr>
           | _ \<Rightarrow> None)
      | _ \<Rightarrow> None)"

definition raw_manifest_from_value :: "ext \<Rightarrow> json \<Rightarrow> raw_manifest option" where
  "raw_manifest_from_value X v =
     (case serde_fields X [(''actor'', False), (''batch_id'', False),
        (''idempotency_key_digest'', False), (''members'', False), (''request_digest'', False),
        (''schema'', False)] v of
        Some [Some a, Some b, Some k, Some (JArray ms), Some q, Some s] \<Rightarrow>
          (case (de_string a, de_string b, de_string k, option_map (raw_ref_from_value X) ms,
                 de_string q, de_string s) of
             (Some a, Some b, Some k, Some ms, Some q, Some s) \<Rightarrow>
               Some \<lparr>raw_actor = a, raw_batch_id = b, raw_key_digest = k, raw_members = ms,
                      raw_request = q, raw_schema = s\<rparr>
           | _ \<Rightarrow> None)
      | _ \<Rightarrow> None)"

text \<open>\<open>split('/').nth(2)\<close>.\<close>

definition path_domain :: "string \<Rightarrow> string option" where
  "path_domain p = (case split_on CHR ''/'' p of _ # _ # d # _ \<Rightarrow> Some d | _ \<Rightarrow> None)"

definition decode_ref :: "ext \<Rightarrow> raw_record_ref \<Rightarrow> batch_error + record_ref" where
  "decode_ref X m =
     rbind (map_err (\<lambda>_. InvalidManifest) (record_id_from_str X (raw_record_id m))) (\<lambda>rid.
     rbind (map_err (\<lambda>_. InvalidManifest) (record_schema_id_from_str (raw_record_schema m))) (\<lambda>rs.
     if \<not> validate_journal_record_path X (raw_path m) \<or>
        \<not> ends_with (raw_path m) (''/'' @ uuid_to_string X rid @ ''.json'') \<or>
        path_domain (raw_path m) \<noteq> map_option fst (split_once CHR ''/'' rs)
     then Inl InvalidManifest
     else rbind (map_err BatchInvalidDigest (digest_parse X (raw_content_digest m))) (\<lambda>cd.
          Inr \<lparr>ref_path = raw_path m, ref_id = rid, ref_schema = rs, ref_digest = cd\<rparr>)))"

definition decode_batch_manifest :: "ext \<Rightarrow> bytes \<Rightarrow> batch_error + batch_manifest" where
  "decode_batch_manifest X bs =
     (if MAX_BATCH_BYTES < length bs then Inl ManifestTooLarge
      else rbind (map_err BatchInvalidJson (decode_strict X bs)) (\<lambda>v.
      case v of JObject obj \<Rightarrow>
        rbind (ok_or InvalidManifest (Option.bind (bt_get obj ''schema'') de_string)) (\<lambda>schema.
        if schema \<noteq> BATCH_SCHEMA_V1 then Inl (UnsupportedBatchSchema schema)
        else rbind (ok_or InvalidManifest (raw_manifest_from_value X v)) (\<lambda>raw.
        if raw_members raw = [] then Inl EmptyBatch
        else rbind (try_map (decode_ref X) (raw_members raw)) (\<lambda>members.
        if \<not> strictly_ordered (map ref_path members) \<or>
           length (bs_of_list (map ref_id members)) \<noteq> length members
        then Inl UnsortedMembers
        else rbind (map_err (\<lambda>_. InvalidManifest) (batch_id_from_str X (raw_batch_id raw))) (\<lambda>batch.
        rbind (map_err (\<lambda>_. InvalidManifest) (actor_id_parse (raw_actor raw))) (\<lambda>actor.
        rbind (map_err BatchInvalidDigest (digest_parse X (raw_key_digest raw))) (\<lambda>key.
        rbind (map_err BatchInvalidDigest (digest_parse X (raw_request raw))) (\<lambda>request.
        let manifest = \<lparr>bm_batch = batch, bm_actor = actor, bm_members = members,
              bm_key_digest = key, bm_request = request\<rparr>
        in rbind (encode_manifest X manifest) (\<lambda>again.
           if again \<noteq> bs then Inl BatchNonCanonical else Inr manifest))))))))
      | _ \<Rightarrow> Inl ManifestNotObject))"

section \<open>Validation of stored members\<close>

fun collect_stored ::
  "(bytes, bytes) btree \<Rightarrow> stored_member list \<Rightarrow> batch_error + (bytes, bytes) btree" where
  "collect_stored by_path [] = Inr by_path"
| "collect_stored by_path (m # ms) =
     (if bt_get by_path (sm_path m) \<noteq> None then Inl (DuplicateStoredPath (sm_path m))
      else collect_stored (bt_insert (sm_path m) (sm_bytes m) by_path) ms)"

definition check_member ::
  "ext \<Rightarrow> domain_registry \<Rightarrow> batch_manifest \<Rightarrow> record_ref \<Rightarrow> bytes \<Rightarrow> batch_error + wj_record" where
  "check_member X R m ref bs =
     (if content_digest X bs \<noteq> ref_digest ref then Inl (MemberDigestMismatch (ref_path ref))
      else rbind (map_err (InvalidStoredRecord (ref_path ref)) (decode_record X bs R)) (\<lambda>r.
      if record_canonical_path X r \<noteq> ref_path ref \<or> r_id r \<noteq> ref_id ref \<or> r_schema r \<noteq> ref_schema ref
      then Inl (MemberIdentityMismatch (ref_path ref))
      else if r_batch r \<noteq> bm_batch m then Inl (MemberBatchMismatch (ref_path ref))
      else if r_actor r \<noteq> bm_actor m then Inl (MemberActorMismatch (ref_path ref))
      else Inr r))"

text \<open>The loop state: the entries not yet claimed, the decoded records, the hashed entries.\<close>

fun check_members ::
  "ext \<Rightarrow> domain_registry \<Rightarrow> batch_manifest \<Rightarrow> (bytes, bytes) btree \<Rightarrow> record_ref list \<Rightarrow>
   batch_error + (bytes, bytes) btree \<times> wj_record list \<times> (string \<times> bytes) list" where
  "check_members X R m by_path [] = Inr (by_path, [], [])"
| "check_members X R m by_path (ref # refs) =
     (case bt_get by_path (ref_path ref) of
        None \<Rightarrow> Inl (MissingMember (ref_path ref))
      | Some bs \<Rightarrow>
          rbind (check_member X R m ref bs) (\<lambda>r.
          rbind (check_members X R m (bt_remove (ref_path ref) by_path) refs) (\<lambda>(rest, rs, hs).
          Inr (rest, r # rs, (ref_path ref, bs) # hs))))"

definition validate_batch_members ::
  "ext \<Rightarrow> batch_manifest \<Rightarrow> stored_member list \<Rightarrow> domain_registry \<Rightarrow> batch_error + wj_record list" where
  "validate_batch_members X m ms R =
     rbind (collect_stored [] ms) (\<lambda>by_path.
     rbind (check_members X R m by_path (bm_members m)) (\<lambda>(rest, decoded, hashed).
     case rest of
       (path, _) # _ \<Rightarrow> Inl (ExtraMember path)
     | [] \<Rightarrow>
         if framed_hash X REQUEST_DIGEST_DOMAIN hashed \<noteq> bm_request m then Inl RequestDigestMismatch
         else Inr decoded))"

section \<open>Ownership\<close>

fun check_stored_records ::
  "ext \<Rightarrow> domain_registry \<Rightarrow> bytes list \<Rightarrow> stored_member list \<Rightarrow> batch_error + bytes list" where
  "check_stored_records X R paths [] = Inr paths"
| "check_stored_records X R paths (m # ms) =
     (if sm_path m \<in> set paths then Inl (DuplicateStoredPath (sm_path m))
      else rbind (map_err (InvalidStoredRecord (sm_path m)) (decode_record X (sm_bytes m) R)) (\<lambda>_.
           check_stored_records X R (bs_insert (sm_path m) paths) ms))"

definition bump :: "bytes \<Rightarrow> (bytes, nat) btree \<Rightarrow> (bytes, nat) btree" where
  "bump path ownership =
     bt_insert path (Suc (case bt_get ownership path of None \<Rightarrow> 0 | Some n \<Rightarrow> n)) ownership"

definition claim_manifest ::
  "ext \<Rightarrow> domain_registry \<Rightarrow> (bytes, bytes) btree \<Rightarrow> (bytes, nat) btree \<Rightarrow> batch_manifest \<Rightarrow>
   batch_error + (bytes, nat) btree" where
  "claim_manifest X R by_path ownership m =
     rbind (try_map (\<lambda>ref. case bt_get by_path (ref_path ref) of
          None \<Rightarrow> Inl (OwnershipMissingMember (ref_path ref))
        | Some bs \<Rightarrow> Inr \<lparr>sm_path = ref_path ref, sm_bytes = bs\<rparr>) (bm_members m)) (\<lambda>members.
     rbind (validate_batch_members X m members R) (\<lambda>_.
     Inr (fold (\<lambda>ref. bump (ref_path ref)) (bm_members m) ownership)))"

definition check_owner :: "(bytes, nat) btree \<Rightarrow> bytes \<Rightarrow> batch_error + unit" where
  "check_owner ownership path =
     (case (case bt_get ownership path of None \<Rightarrow> 0 | Some n \<Rightarrow> n) of
        0 \<Rightarrow> Inl (UnownedRecord path)
      | Suc 0 \<Rightarrow> Inr ()
      | _ \<Rightarrow> Inl (MultiplyOwnedRecord path))"

definition validate_batch_ownership ::
  "ext \<Rightarrow> stored_member list \<Rightarrow> batch_manifest list \<Rightarrow> domain_registry \<Rightarrow> batch_error + unit" where
  "validate_batch_ownership X records manifests R =
     rbind (check_stored_records X R [] records) (\<lambda>record_paths.
     let by_path = bt_of_list (map (\<lambda>m. (sm_path m, sm_bytes m)) records) in
     rbind (try_fold (claim_manifest X R by_path) [] manifests) (\<lambda>ownership.
     rbind (try_map (check_owner ownership) record_paths) (\<lambda>_.
     case find (\<lambda>path. path \<notin> set record_paths) (bt_keys ownership) of
       Some path \<Rightarrow> Inl (OwnershipMissingMember path)
     | None \<Rightarrow> Inr ())))"

section \<open>Retries\<close>

definition classify_idempotency ::
  "ext \<Rightarrow> batch_manifest list \<Rightarrow> actor_id \<Rightarrow> string \<Rightarrow> digest \<Rightarrow> batch_error + idempotency_decision" where
  "classify_idempotency X manifests actor key request =
     (let digest = idempotency_digest X actor key;
          matches = sort_key bm_batch
            (filter (\<lambda>m. bm_actor m = actor \<and> bm_key_digest m = digest) manifests)
      in case matches of
           [] \<Rightarrow> Inr IdemNew
         | [m] \<Rightarrow>
             if bm_request m = request then Inr (IdemReplay m)
             else Inl (IdempotencyRequestMismatch (bm_batch m))
         | _ \<Rightarrow> Inl (DuplicateIdempotencyOwnership (map bm_batch matches)))"

section \<open>Request digests\<close>

text \<open>The incremental digest of the streaming replay agrees with the one-shot digest.\<close>

lemma request_acc_fold:
  "fold (\<lambda>(path, bs) h. request_acc_push h path bs) es h = frame_entries h es"
  by (induction es arbitrary: h) (auto simp: request_acc_push_def)

section \<open>The manifest codec\<close>

lemma encode_manifest_Inr:
  "encode_manifest X m = Inr bs \<longleftrightarrow>
   encode_pretty X (manifest_to_value X m) = Inr bs \<and> length bs \<le> MAX_BATCH_BYTES"
  by (auto simp: encode_manifest_def result_simps)

text \<open>What decoding establishes of a manifest.\<close>

definition ref_ok :: "ext \<Rightarrow> record_ref \<Rightarrow> bool" where
  "ref_ok X m \<longleftrightarrow>
     v7_ok X (ref_id m) \<and> record_schema_id_from_str (ref_schema m) = Inr (ref_schema m) \<and>
     validate_journal_record_path X (ref_path m) \<and>
     ends_with (ref_path m) (''/'' @ uuid_to_string X (ref_id m) @ ''.json'') \<and>
     path_domain (ref_path m) = map_option fst (split_once CHR ''/'' (ref_schema m))"

definition manifest_ok :: "ext \<Rightarrow> batch_manifest \<Rightarrow> bool" where
  "manifest_ok X m \<longleftrightarrow>
     v7_ok X (bm_batch m) \<and> actor_id_parse (bm_actor m) = Inr (bm_actor m) \<and>
     bm_members m \<noteq> [] \<and> list_all (ref_ok X) (bm_members m) \<and>
     strictly_ordered (map ref_path (bm_members m)) \<and> distinct (map ref_id (bm_members m))"

definition manifest_digests :: "batch_manifest \<Rightarrow> digest list" where
  "manifest_digests m = bm_key_digest m # bm_request m # map ref_digest (bm_members m)"

lemma record_schema_same: "record_schema_id_from_str s = Inr t \<Longrightarrow> t = s"
  by (simp add: record_schema_id_Inr)

lemma decode_ref_Inr:
  "decode_ref X raw = Inr m \<Longrightarrow> ref_ok X m"
  by (auto simp: decode_ref_def result_simps ref_ok_def record_id_from_str_def parse_uuid_Inr_iff)
    (metis record_schema_same)

lemma decode_batch_manifest_Inr:
  assumes "decode_batch_manifest X bs = Inr m"
  shows "encode_manifest X m = Inr bs" and "manifest_ok X m"
proof -
  obtain v where v: "decode_strict X bs = Inr v"
    using assms by (auto simp: decode_batch_manifest_def result_simps split: if_splits)
  then obtain obj where obj: "v = JObject obj"
    using assms by (cases v) (auto simp: decode_batch_manifest_def result_simps split: if_splits)
  obtain raw :: raw_manifest where raw: "raw_members raw \<noteq> []"
      "try_map (decode_ref X) (raw_members raw) = Inr (bm_members m)"
      "strictly_ordered (map ref_path (bm_members m))"
      "length (bs_of_list (map ref_id (bm_members m))) = length (bm_members m)"
      "batch_id_from_str X (raw_batch_id raw) = Inr (bm_batch m)"
      "actor_id_parse (raw_actor raw) = Inr (bm_actor m)" "encode_manifest X m = Inr bs"
    using assms v obj
    by (auto simp: decode_batch_manifest_def result_simps Let_def split: if_splits)
  show "encode_manifest X m = Inr bs" by fact
  have "list_all (ref_ok X) (bm_members m)"
    using raw(2) by (rule try_map_list_all) (rule decode_ref_Inr)
  moreover have "actor_id_parse (bm_actor m) = Inr (bm_actor m)"
    using raw(6) actor_id_Inr by metis
  moreover have "bm_members m \<noteq> []"
    using raw(1,2) try_map_length by fastforce
  ultimately show "manifest_ok X m"
    using raw length_bs_of_list[of "map ref_id (bm_members m)"]
    by (auto simp: manifest_ok_def id_from_str_defs parse_uuid_Inr_iff)
qed

interpretation manifest_codec: canonical_codec "encode_manifest X" "decode_batch_manifest X" MAX_BATCH_BYTES
  for X
  by unfold_locales (simp_all add: decode_batch_manifest_Inr encode_manifest_Inr)

text \<open>Manifests that read back: the type invariant, digests of BLAKE3 length, library laws.\<close>

definition manifest_readable :: "ext \<Rightarrow> batch_manifest \<Rightarrow> bool" where
  "manifest_readable X m \<longleftrightarrow>
     uuid_roundtrip X \<and> hex_roundtrip X \<and> json_roundtrip X \<and> serde_object_law X \<and>
     manifest_ok X m \<and> list_all (\<lambda>d. length d = 32) (manifest_digests m)"

lemma ref_to_value_eq:
  "ref_to_value X m = JObject
     [(''content_digest'', JString (digest_to_string X (ref_digest m))),
      (''path'', JString (ref_path m)),
      (''record_id'', JString (uuid_to_string X (ref_id m))),
      (''record_schema'', JString (ref_schema m))]"
  by (simp add: ref_to_value_def bt_of_list_def less_char_def)

lemma manifest_to_value_eq:
  "manifest_to_value X m = JObject
     [(''actor'', JString (bm_actor m)),
      (''batch_id'', JString (uuid_to_string X (bm_batch m))),
      (''idempotency_key_digest'', JString (digest_to_string X (bm_key_digest m))),
      (''members'', JArray (map (ref_to_value X) (bm_members m))),
      (''request_digest'', JString (digest_to_string X (bm_request m))),
      (''schema'', JString BATCH_SCHEMA_V1)]"
  by (simp add: manifest_to_value_def bt_of_list_def less_char_def)

lemma good_ref_value: "good_json (ref_to_value X m)"
  by (simp add: ref_to_value_eq less_char_def)

lemma good_manifest_value: "good_json (manifest_to_value X m)"
  by (simp add: manifest_to_value_eq less_char_def list_all_iff good_ref_value)

lemma fold_max_le: "list_all (\<lambda>x. x \<le> c) xs \<Longrightarrow> n \<le> c \<Longrightarrow> fold max xs (n::nat) \<le> c"
  by (induction xs arbitrary: n) auto

lemma manifest_value_depth: "json_depth (manifest_to_value X m) \<le> json_limit"
proof -
  have "json_depth (ref_to_value X r) = 1" for r
    by (simp add: ref_to_value_eq)
  then have "fold max (map json_depth (map (ref_to_value X) (bm_members m))) 0 \<le> 1"
    by (intro fold_max_le) (simp_all add: list_all_iff)
  then show ?thesis
    by (simp add: manifest_to_value_eq json_limit_def comp_def)
qed

definition raw_of_ref :: "ext \<Rightarrow> record_ref \<Rightarrow> raw_record_ref" where
  "raw_of_ref X m =
     \<lparr>raw_content_digest = digest_to_string X (ref_digest m), raw_path = ref_path m,
      raw_record_id = uuid_to_string X (ref_id m), raw_record_schema = ref_schema m\<rparr>"

lemma raw_ref_of_value:
  assumes "serde_object_law X"
  shows "raw_ref_from_value X (ref_to_value X m) = Some (raw_of_ref X m)"
proof -
  have "json_wf (ref_to_value X m)"
    using good_ref_value by (simp add: good_json_def)
  then show ?thesis
    using assms
    by (simp add: serde_object_law_def raw_ref_from_value_def ref_to_value_eq struct_of_object_def
        de_string_def raw_of_ref_def)
qed

lemma option_map_total: "(\<And>x. x \<in> set xs \<Longrightarrow> f x = Some (g x)) \<Longrightarrow> option_map f xs = Some (map g xs)"
  by (induction xs) simp_all

lemma option_map_map: "option_map f (map g xs) = option_map (\<lambda>x. f (g x)) xs"
  by (induction xs) (auto split: option.splits)

lemma raw_manifest_of_value:
  assumes "serde_object_law X"
  shows "raw_manifest_from_value X (manifest_to_value X m) = Some
    \<lparr>raw_actor = bm_actor m, raw_batch_id = uuid_to_string X (bm_batch m),
     raw_key_digest = digest_to_string X (bm_key_digest m),
     raw_members = map (raw_of_ref X) (bm_members m),
     raw_request = digest_to_string X (bm_request m), raw_schema = BATCH_SCHEMA_V1\<rparr>"
proof -
  have "option_map (raw_ref_from_value X) (map (ref_to_value X) (bm_members m)) =
      Some (map (raw_of_ref X) (bm_members m))"
    by (simp add: option_map_map raw_ref_of_value[OF assms] option_map_total)
  moreover have "json_wf (manifest_to_value X m)"
    using good_manifest_value by (simp add: good_json_def)
  ultimately show ?thesis
    using assms
    by (simp add: serde_object_law_def raw_manifest_from_value_def manifest_to_value_eq
        struct_of_object_def de_string_def)
qed

lemma decode_raw_ref:
  assumes "uuid_roundtrip X" "hex_roundtrip X" "ref_ok X m" "length (ref_digest m) = 32"
  shows "decode_ref X (raw_of_ref X m) = Inr m"
  using assms
  by (simp add: decode_ref_def raw_of_ref_def ref_ok_def record_id_from_str_def parse_uuid_to_string
      digest_parse_to_string)

lemma encode_manifest_readable:
  assumes "manifest_readable X m" and "encode_manifest X m = Inr bs"
  shows "decode_batch_manifest X bs = Inr m"
proof -
  note r = assms(1)[unfolded manifest_readable_def manifest_ok_def manifest_digests_def]
  have d: "decode_strict X bs = Inr (manifest_to_value X m)"
    using assms(2) r good_manifest_value manifest_value_depth
    by (auto simp: encode_manifest_Inr intro!: decode_encode_pretty)
  have "try_map (decode_ref X) (map (raw_of_ref X) (bm_members m)) = Inr (bm_members m)"
  proof -
    have "decode_ref X (raw_of_ref X x) = Inr x" if "x \<in> set (bm_members m)" for x
      using that r by (intro decode_raw_ref) (auto simp: list_all_iff)
    then show ?thesis
      by (simp add: try_map_map try_map_total[where g = "\<lambda>x. x", simplified])
  qed
  moreover have "length (bs_of_list (map ref_id (bm_members m))) = length (bm_members m)"
    using r length_bs_of_list[of "map ref_id (bm_members m)"] by simp
  moreover have "length bs \<le> MAX_BATCH_BYTES"
    using assms(2) by (simp add: encode_manifest_Inr)
  moreover obtain b a ms k q where "m = \<lparr>bm_batch = b, bm_actor = a, bm_members = ms,
      bm_key_digest = k, bm_request = q\<rparr>"
    by (cases m)
  ultimately show ?thesis
    using d r assms(2) raw_manifest_of_value[of X m]
    by (simp add: decode_batch_manifest_def manifest_to_value_eq de_string_def batch_id_from_str_def
        parse_uuid_to_string digest_parse_to_string Let_def)
qed

interpretation manifest_exact: exact_codec
  "encode_manifest X" "decode_batch_manifest X" MAX_BATCH_BYTES "manifest_readable X"
  for X
  by unfold_locales (rule encode_manifest_readable)

section \<open>Stored members\<close>

lemma collect_stored_Inr:
  "collect_stored m ms = Inr by_path \<Longrightarrow>
   distinct (map sm_path ms) \<and> (\<forall>s\<in>set ms. bt_get m (sm_path s) = None) \<and>
   by_path = fold (\<lambda>(k, v). bt_insert k v) (map (\<lambda>s. (sm_path s, sm_bytes s)) ms) m"
proof (induction ms arbitrary: m)
  case (Cons s ms)
  then have "collect_stored (bt_insert (sm_path s) (sm_bytes s) m) ms = Inr by_path"
      "bt_get m (sm_path s) = None"
    by (auto split: if_splits)
  with Cons.IH[OF this(1)] show ?case
    by (auto simp: bt_get_insert split: if_splits)
qed simp

lemma collect_stored_total:
  "distinct (map sm_path ms) \<Longrightarrow> (\<forall>s\<in>set ms. bt_get m (sm_path s) = None) \<Longrightarrow>
   collect_stored m ms = Inr (fold (\<lambda>(k, v). bt_insert k v) (map (\<lambda>s. (sm_path s, sm_bytes s)) ms) m)"
proof (induction ms arbitrary: m)
  case (Cons s ms)
  then have "\<forall>x\<in>set ms. bt_get (bt_insert (sm_path s) (sm_bytes s) m) (sm_path x) = None"
    by (auto simp: bt_get_insert image_iff)
  with Cons show ?case by simp
qed simp

lemma collect_stored_iff:
  "collect_stored [] ms = Inr by_path \<longleftrightarrow>
   distinct (map sm_path ms) \<and> by_path = bt_of_list (map (\<lambda>s. (sm_path s, sm_bytes s)) ms)"
  using collect_stored_Inr[of "[]" ms by_path] collect_stored_total[of ms "[]"]
  by (auto simp: bt_of_list_def)

text \<open>Each reference takes its entry out of the map; what is left was never referenced.\<close>

lemma check_members_Inr:
  assumes "bt_wf by_path" "check_members X R m by_path refs = Inr (rest, rs, hs)"
  shows "map fst hs = map ref_path refs \<and> list_all2 (\<lambda>ref r. \<exists>bs. bt_get by_path (ref_path ref) = Some bs \<and>
      (ref_path ref, bs) \<in> set hs \<and> check_member X R m ref bs = Inr r) refs rs \<and>
    distinct (map ref_path refs) \<and> set by_path = set hs \<union> set rest \<and> bt_wf rest"
  using assms
proof (induction refs arbitrary: by_path rs hs)
  case (Cons ref refs)
  then obtain bs r rs' hs' where b: "bt_get by_path (ref_path ref) = Some bs"
      "check_member X R m ref bs = Inr r"
      "check_members X R m (bt_remove (ref_path ref) by_path) refs = Inr (rest, rs', hs')"
      "rs = r # rs'" "hs = (ref_path ref, bs) # hs'"
    by (auto simp: result_simps split: option.splits)
  note wf = bt_wf_remove[OF Cons.prems(1), of "ref_path ref"]
  note IH = Cons.IH[OF wf b(3)]
  have rem: "bt_get (bt_remove (ref_path ref) by_path) k = Some v \<longleftrightarrow>
      k \<noteq> ref_path ref \<and> bt_get by_path k = Some v" for k v
    by (simp add: bt_get_remove[OF Cons.prems(1)])
  have "ref_path ref \<notin> ref_path ` set refs"
    using IH rem by (auto simp: list_all2_conv_all_nth in_set_conv_nth)
  moreover have "set by_path = insert (ref_path ref, bs) (set (bt_remove (ref_path ref) by_path))"
    using rem b(1)
    by (auto simp: bt_get_Some_iff[OF Cons.prems(1), symmetric] bt_get_Some_iff[OF wf, symmetric])
  moreover have "list_all2 (\<lambda>ref' r. \<exists>bs'. bt_get by_path (ref_path ref') = Some bs' \<and>
      (ref_path ref', bs') \<in> set hs \<and> check_member X R m ref' bs' = Inr r) refs rs'"
    using IH b(5) rem by (auto elim!: list_all2_mono)
  ultimately show ?case
    using IH b by auto
qed simp

lemma bt_of_list_fold: "fold (\<lambda>(k, v). bt_insert k v) kvs [] = bt_of_list kvs"
  by (simp add: bt_of_list_def)

text \<open>What acceptance of stored members means.\<close>

lemma validate_batch_members_Inr:
  assumes "validate_batch_members X m ms R = Inr rs"
  obtains hs where "distinct (map sm_path ms)"
    "set hs = (\<lambda>s. (sm_path s, sm_bytes s)) ` set ms"
    "map fst hs = map ref_path (bm_members m)" "distinct (map ref_path (bm_members m))"
    "list_all2 (\<lambda>ref r. \<exists>bs. (ref_path ref, bs) \<in> set hs \<and> check_member X R m ref bs = Inr r)
       (bm_members m) rs"
    "framed_hash X REQUEST_DIGEST_DOMAIN hs = bm_request m"
proof -
  let ?p = "bt_of_list (map (\<lambda>s. (sm_path s, sm_bytes s)) ms)"
  have d: "distinct (map sm_path ms)"
    using assms by (auto simp: validate_batch_members_def result_simps collect_stored_iff)
  obtain rest ds hs where cm: "check_members X R m ?p (bm_members m) = Inr (rest, ds, hs)"
    using assms by (auto simp: validate_batch_members_def result_simps collect_stored_iff)
  have h: "distinct (map sm_path ms)" "check_members X R m ?p (bm_members m) = Inr ([], rs, hs)"
      "framed_hash X REQUEST_DIGEST_DOMAIN hs = bm_request m"
    using assms d cm
    by (cases rest; auto simp: validate_batch_members_def result_simps collect_stored_iff)+
  note c = check_members_Inr[OF bt_wf_of_list h(2)]
  have "set ?p = (\<lambda>s. (sm_path s, sm_bytes s)) ` set ms"
    using h(1) by (subst set_bt_of_list) (auto simp: comp_def)
  moreover have "list_all2 (\<lambda>ref r. \<exists>bs. (ref_path ref, bs) \<in> set hs \<and>
      check_member X R m ref bs = Inr r) (bm_members m) rs"
    using c by (auto elim: list_all2_mono)
  ultimately show thesis
    using that[of hs] h c by simp
qed

lemma check_member_Inr:
  "check_member X R m ref bs = Inr r \<longleftrightarrow>
   content_digest X bs = ref_digest ref \<and> decode_record X bs R = Inr r \<and>
   record_canonical_path X r = ref_path ref \<and> r_id r = ref_id ref \<and> r_schema r = ref_schema ref \<and>
   r_batch r = bm_batch m \<and> r_actor r = bm_actor m"
  by (auto simp: check_member_def result_simps)

lemma check_members_total:
  assumes "bt_wf by_path" "distinct (map ref_path refs)"
    and "length rs = length refs" "length bss = length refs"
    and "\<And>i. i < length refs \<Longrightarrow> bt_get by_path (ref_path (refs ! i)) = Some (bss ! i) \<and>
      check_member X R m (refs ! i) (bss ! i) = Inr (rs ! i)"
  shows "\<exists>rest. check_members X R m by_path refs = Inr (rest, rs, zip (map ref_path refs) bss) \<and>
    set rest = {(k, v) \<in> set by_path. k \<notin> ref_path ` set refs}"
  using assms
proof (induction refs arbitrary: by_path rs bss)
  case Nil
  then show ?case by auto
next
  case (Cons ref refs)
  obtain r rs' b bss' where e: "rs = r # rs'" "bss = b # bss'"
    using Cons.prems(3,4) by (cases rs; cases bss) auto
  note h = Cons.prems(5)[of 0, simplified e, simplified]
  let ?m = "bt_remove (ref_path ref) by_path"
  note wf = bt_wf_remove[OF Cons.prems(1), of "ref_path ref"]
  have "\<exists>rest. check_members X R m ?m refs = Inr (rest, rs', zip (map ref_path refs) bss') \<and>
      set rest = {(k, v) \<in> set ?m. k \<notin> ref_path ` set refs}"
  proof (rule Cons.IH[OF wf])
    show "distinct (map ref_path refs)" "length rs' = length refs" "length bss' = length refs"
      using Cons.prems e by auto
    show "bt_get ?m (ref_path (refs ! i)) = Some (bss' ! i) \<and> check_member X R m (refs ! i) (bss' ! i) = Inr (rs' ! i)"
      if "i < length refs" for i
      using Cons.prems(2) Cons.prems(5)[of "Suc i"] that e
      by (simp add: bt_get_remove[OF Cons.prems(1)]) (metis nth_mem imageI)
  qed
  moreover have "(k, v) \<in> set ?m \<longleftrightarrow> k \<noteq> ref_path ref \<and> (k, v) \<in> set by_path" for k v
    by (simp add: bt_get_Some_iff[OF wf, symmetric] bt_get_Some_iff[OF Cons.prems(1), symmetric]
        bt_get_remove[OF Cons.prems(1)])
  ultimately show ?case
    using h e by auto
qed

section \<open>Preparation\<close>

definition prepared :: "ext \<Rightarrow> domain_registry \<Rightarrow> wj_record \<Rightarrow> prepared_record" where
  "prepared X R r = \<lparr>pr_record = r, pr_path = record_canonical_path X r,
     pr_bytes = (case encode_record X r R of Inr bs \<Rightarrow> bs | Inl _ \<Rightarrow> [])\<rparr>"

definition preparable :: "ext \<Rightarrow> domain_registry \<Rightarrow> batch_id \<Rightarrow> actor_id \<Rightarrow> wj_record list \<Rightarrow> bool" where
  "preparable X R b a rs \<longleftrightarrow>
     (\<forall>r\<in>set rs. r_batch r = b \<and> r_actor r = a \<and> is_ok (encode_record X r R)) \<and> distinct (map r_id rs)"

definition prepared_map :: "ext \<Rightarrow> domain_registry \<Rightarrow> wj_record list \<Rightarrow> (string, prepared_record) btree" where
  "prepared_map X R rs = bt_of_list (map (\<lambda>r. (record_canonical_path X r, prepared X R r)) rs)"

lemma prepare_fold_Inr:
  "try_fold (prepare_step X R b a) (ids, c) rs = Inr (ids', c') \<longleftrightarrow>
   preparable X R b a rs \<and> (\<forall>r\<in>set rs. r_id r \<notin> set ids) \<and>
   ids' = fold bs_insert (map r_id rs) ids \<and>
   c' = fold (\<lambda>(k, v). bt_insert k v) (map (\<lambda>r. (record_canonical_path X r, prepared X R r)) rs) c"
proof (induction rs arbitrary: ids c)
  case Nil
  then show ?case by (auto simp: preparable_def)
next
  case (Cons r rs)
  have "prepare_step X R b a (ids, c) r = Inr st \<longleftrightarrow>
      r_batch r = b \<and> r_actor r = a \<and> is_ok (encode_record X r R) \<and> r_id r \<notin> set ids \<and>
      st = (bs_insert (r_id r) ids, bt_insert (record_canonical_path X r) (prepared X R r) c)" for st
    by (auto simp: prepare_step_def result_simps prepared_def Let_def is_ok_iff)
  then have "try_fold (prepare_step X R b a) (ids, c) (r # rs) = Inr (ids', c') \<longleftrightarrow>
      r_batch r = b \<and> r_actor r = a \<and> is_ok (encode_record X r R) \<and> r_id r \<notin> set ids \<and>
      try_fold (prepare_step X R b a)
        (bs_insert (r_id r) ids, bt_insert (record_canonical_path X r) (prepared X R r) c) rs = Inr (ids', c')"
    by (auto simp: result_simps)
  moreover have "(\<forall>x\<in>set rs. r_id x \<notin> set (bs_insert (r_id r) ids)) \<longleftrightarrow>
      (\<forall>x\<in>set rs. r_id x \<notin> set ids) \<and> r_id r \<notin> r_id ` set rs"
    by (auto simp: image_iff)
  ultimately show ?case
    unfolding Cons.IH[of "bs_insert (r_id r) ids"] by (auto simp: preparable_def)
qed

text \<open>The schema of a registered record names its domain.\<close>

definition registry_wf :: "domain_registry \<Rightarrow> bool" where
  "registry_wf R \<longleftrightarrow> (\<forall>g\<in>set (registrations R).
     map_option fst (split_once CHR ''/'' (reg_schema g)) = Some (reg_domain g))"

lemma check_registration_wf:
  "try_fold check_registration ps gs = Inr qs \<Longrightarrow>
   \<forall>g\<in>set gs. map_option fst (split_once CHR ''/'' (reg_schema g)) = Some (reg_domain g)"
  by (induction gs arbitrary: ps)
    (auto simp: result_simps check_registration_def split: if_splits)

lemma registry_wf_collect: "validate_and_collect gs = Inr R \<Longrightarrow> registry_wf R"
  using check_registration_wf by (fastforce simp: validate_and_collect_def result_simps registry_wf_def)

lemma registry_wf_builtins: "with_builtins bs as = Inr R \<Longrightarrow> registry_wf R"
  using registry_wf_collect
  by (auto simp: with_builtins_def result_simps registry_wf_def split: option.splits)

lemma validated_schema_domain:
  assumes "registry_wf R" "validate_record r R = Inr ()"
  shows "map_option fst (split_once CHR ''/'' (r_schema r)) = Some (r_domain r)"
proof -
  obtain g where "find (\<lambda>g. reg_domain g = r_domain r \<and> reg_schema g = r_schema r) (registrations R) = Some g"
    using assms(2)
    by (auto simp: validate_record_def registry_validate_def split: if_splits option.splits)
  then have "g \<in> set (registrations R)" "reg_domain g = r_domain r" "reg_schema g = r_schema r"
    by (auto simp: find_Some_iff)
  then show ?thesis
    using assms(1) unfolding registry_wf_def by metis
qed

text \<open>The laws of the library that preparation relies on.\<close>

definition batch_laws :: "ext \<Rightarrow> bool" where
  "batch_laws X \<longleftrightarrow>
     uuid_roundtrip X \<and> uuid_plain X \<and> hex_roundtrip X \<and> blake3_length X \<and> json_roundtrip X \<and>
     serde_object_law X"

lemma prepared_ref_ok:
  assumes "batch_laws X" "registry_wf R" "record_ok X r" "encode_record X r R = Inr bs"
  shows "ref_ok X (prepared_ref X (prepared X R r))"
proof -
  have laws: "uuid_roundtrip X" "uuid_plain X"
    using assms(1) by (simp_all add: batch_laws_def)
  have ok: "domain_id_from_str (r_domain r) = Inr (r_domain r)" "v7_ok X (r_id r)" "entity_ok X (r_entity r)"
    using assms(3) by (simp_all add: record_ok_def)
  have "map_option fst (split_once CHR ''/'' (r_schema r)) = Some (r_domain r)"
    using assms(2,4) by (intro validated_schema_domain) (auto simp: encode_record_Inr)
  moreover have "path_domain (record_canonical_path X r) = Some (r_domain r)"
    using split_record_path[OF laws(2)] domain_id_plain(1)[OF ok(1)]
    by (simp add: path_domain_def record_canonical_path_eq)
  moreover have "validate_journal_record_path X (record_canonical_path X r)"
    unfolding record_canonical_path_eq using record_path_valid[OF laws] ok by blast
  moreover have "ends_with (record_canonical_path X r) (''/'' @ uuid_to_string X (r_id r) @ ''.json'')"
    unfolding ends_with_iff record_canonical_path_def by simp
  ultimately show ?thesis
    using assms(3) by (auto simp: ref_ok_def prepared_ref_def prepared_def record_ok_def)
qed

lemma paths_distinct:
  assumes "uuid_roundtrip X" "uuid_plain X" "\<forall>r\<in>set rs. record_ok X r" "distinct (map r_id rs)"
  shows "distinct (map (record_canonical_path X) rs)"
proof -
  have "inj_on (record_canonical_path X) (set rs)"
  proof (rule inj_onI)
    fix r s assume rs: "r \<in> set rs" "s \<in> set rs" "record_canonical_path X r = record_canonical_path X s"
    then have ok: "record_ok X r" "record_ok X s" using assms(3) by auto
    have "r_id r = r_id s"
      using record_path_inj[OF assms(1,2)] ok rs(3) domain_id_plain(1)
      unfolding record_canonical_path_eq record_ok_def by metis
    then show "r = s"
      using assms(4) rs by (auto simp: distinct_map inj_on_def)
  qed
  then show ?thesis
    using assms(4) by (simp add: distinct_map)
qed

definition manifest_of :: "ext \<Rightarrow> batch_id \<Rightarrow> actor_id \<Rightarrow> string \<Rightarrow> prepared_record list \<Rightarrow> batch_manifest" where
  "manifest_of X b a key ps =
     \<lparr>bm_batch = b, bm_actor = a, bm_members = map (prepared_ref X) ps,
      bm_key_digest = idempotency_digest X a key,
      bm_request = framed_hash X REQUEST_DIGEST_DOMAIN (map (\<lambda>p. (pr_path p, pr_bytes p)) ps)\<rparr>"

lemma prepare_batch_Inr:
  "prepare_batch X rs key R = Inr pb \<longleftrightarrow>
   (\<exists>b a. rs \<noteq> [] \<and> preparable X R b a rs \<and> pb_records pb = bt_values (prepared_map X R rs) \<and>
      pb_manifest pb = manifest_of X b a key (pb_records pb) \<and>
      encode_manifest X (pb_manifest pb) = Inr (pb_manifest_bytes pb) \<and>
      pb_manifest_path pb = manifest_canonical_path X (pb_manifest pb))"
proof (cases rs)
  case Nil
  then show ?thesis by (simp add: prepare_batch_def)
next
  case (Cons r rs')
  have hd: "b = r_batch r \<and> a = r_actor r" if "preparable X R b a rs" for b a
    using that Cons by (auto simp: preparable_def)
  have fold: "try_fold (prepare_step X R (r_batch r) (r_actor r)) ([], []) rs = Inr st \<longleftrightarrow>
      preparable X R (r_batch r) (r_actor r) rs \<and>
      st = (fold bs_insert (map r_id rs) [], prepared_map X R rs)" for st
    using prepare_fold_Inr[of X R "r_batch r" "r_actor r" "[]" "[]" rs "fst st" "snd st"]
    by (cases st) (auto simp: prepared_map_def bt_of_list_fold)
  obtain m p bs ps where pb: "pb = \<lparr>pb_manifest = m, pb_manifest_path = p, pb_manifest_bytes = bs, pb_records = ps\<rparr>"
    by (cases pb)
  have "prepare_batch X rs key R = Inr pb \<longleftrightarrow>
      preparable X R (r_batch r) (r_actor r) rs \<and> ps = bt_values (prepared_map X R rs) \<and>
      m = manifest_of X (r_batch r) (r_actor r) key ps \<and> encode_manifest X m = Inr bs \<and>
      p = manifest_canonical_path X m"
    using fold unfolding prepare_batch_def Cons
    by (auto simp: result_simps Let_def manifest_of_def pb)
  then show ?thesis
    using hd pb Cons by auto
qed

lemma prepared_map_spec:
  assumes "batch_laws X" "\<forall>r\<in>set rs. record_ok X r" "preparable X R b a rs"
  shows "bt_wf (prepared_map X R rs)"
    and "set (bt_values (prepared_map X R rs)) = prepared X R ` set rs"
    and "length (bt_values (prepared_map X R rs)) = length rs"
    and "strictly_ordered (map pr_path (bt_values (prepared_map X R rs)))"
    and "distinct (map (\<lambda>p. r_id (pr_record p)) (bt_values (prepared_map X R rs)))"
proof -
  have d: "distinct (map fst (map (\<lambda>r. (record_canonical_path X r, prepared X R r)) rs))"
    using paths_distinct[of X rs] assms by (simp add: batch_laws_def preparable_def comp_def)
  show wf: "bt_wf (prepared_map X R rs)"
    by (simp add: prepared_map_def bt_wf_of_list)
  have st: "set (prepared_map X R rs) = (\<lambda>r. (record_canonical_path X r, prepared X R r)) ` set rs"
    using set_bt_of_list[OF d] by (simp add: prepared_map_def)
  then show vals: "set (bt_values (prepared_map X R rs)) = prepared X R ` set rs"
    by (auto simp: bt_values_def image_iff)
  show len: "length (bt_values (prepared_map X R rs)) = length rs"
    using length_bt_of_list[OF d] by (simp add: prepared_map_def bt_values_def)
  have "map pr_path (bt_values (prepared_map X R rs)) = bt_keys (prepared_map X R rs)"
    using st by (auto simp: bt_values_def bt_keys_def prepared_def)
  then show "strictly_ordered (map pr_path (bt_values (prepared_map X R rs)))"
    using wf by (simp add: bt_wf_def bt_keys_def strictly_ordered_iff)
  have "(\<lambda>p. r_id (pr_record p)) ` set (bt_values (prepared_map X R rs)) = r_id ` set rs"
    unfolding vals by (auto simp: prepared_def image_iff)
  then have "card (set (map (\<lambda>p. r_id (pr_record p)) (bt_values (prepared_map X R rs)))) = length rs"
    using assms(3) by (simp add: preparable_def) (metis distinct_card length_map set_map)
  then show "distinct (map (\<lambda>p. r_id (pr_record p)) (bt_values (prepared_map X R rs)))"
    using len by (metis card_distinct length_map)
qed

lemma prepared_map_perm:
  assumes "batch_laws X" "\<forall>r\<in>set rs. record_ok X r" "preparable X R b a rs" "mset rs = mset rs'"
  shows "prepared_map X R rs = prepared_map X R rs'"
proof -
  have "distinct (map fst (map (\<lambda>r. (record_canonical_path X r, prepared X R r)) rs))"
    using paths_distinct[of X rs] assms by (simp add: batch_laws_def preparable_def comp_def)
  then show ?thesis
    unfolding prepared_map_def using assms(4) by (intro bt_of_list_perm) simp_all
qed

section \<open>Properties\<close>

lemma idempotency_digest_length: "blake3_length X \<Longrightarrow> length (idempotency_digest X a k) = 32"
  by (simp add: idempotency_digest_def framed_hash_def blake3_length_def)

lemma prepared_manifest_readable:
  assumes "batch_laws X" "registry_wf R" "\<forall>r\<in>set rs. record_ok X r" "preparable X R b a rs" "rs \<noteq> []"
  shows "manifest_readable X (manifest_of X b a key (bt_values (prepared_map X R rs)))"
proof -
  let ?ps = "bt_values (prepared_map X R rs)"
  note sp = prepared_map_spec[OF assms(1,3,4)]
  have "ref_ok X (prepared_ref X p)" if p: "p \<in> set ?ps" for p
  proof -
    obtain r where r: "r \<in> set rs" "p = prepared X R r" using p sp(2) by auto
    then obtain bs where "encode_record X r R = Inr bs"
      using assms(4) by (auto simp: preparable_def is_ok_iff)
    with r show ?thesis using prepared_ref_ok assms by blast
  qed
  moreover have "?ps \<noteq> []"
    using sp(3) assms(5) by auto
  moreover obtain r where "r \<in> set rs" "r_batch r = b" "r_actor r = a"
    using assms(4,5) by (cases rs) (auto simp: preparable_def)
  then have "v7_ok X b" "actor_id_parse a = Inr a"
    using assms(3) by (auto simp: record_ok_def)
  ultimately have "manifest_ok X (manifest_of X b a key ?ps)"
    using sp(4,5)
    by (simp add: manifest_ok_def manifest_of_def list_all_iff comp_def prepared_ref_def)
  then show ?thesis
    using assms(1) idempotency_digest_length
    by (simp add: manifest_readable_def batch_laws_def manifest_digests_def manifest_of_def list_all_iff
        prepared_ref_def framed_hash_def content_digest_def hash_bytes_def blake3_length_def)
qed

lemma prepared_members_validate:
  assumes "batch_laws X" "\<forall>r\<in>set rs. record_readable X r" "preparable X R b a rs"
  shows "validate_batch_members X (manifest_of X b a key (bt_values (prepared_map X R rs)))
    (map (\<lambda>p. \<lparr>sm_path = pr_path p, sm_bytes = pr_bytes p\<rparr>) (bt_values (prepared_map X R rs))) R =
    Inr (map pr_record (bt_values (prepared_map X R rs)))"
proof -
  let ?ps = "bt_values (prepared_map X R rs)" and ?m = "manifest_of X b a key (bt_values (prepared_map X R rs))"
  let ?ms = "map (\<lambda>p. \<lparr>sm_path = pr_path p, sm_bytes = pr_bytes p\<rparr>) ?ps"
  let ?kv = "map (\<lambda>p. (pr_path p, pr_bytes p)) ?ps"
  have ok: "\<forall>r\<in>set rs. record_ok X r"
    using assms(2) by (simp add: record_readable_def)
  note sp = prepared_map_spec[OF assms(1) ok assms(3)]
  have d: "distinct (map pr_path ?ps)"
    using sp(4) by (rule strictly_ordered_distinct)
  have col: "collect_stored [] ?ms = Inr (bt_of_list ?kv)"
    using d by (simp add: collect_stored_iff comp_def)
  have dk: "distinct (map fst ?kv)"
    using d by (simp add: comp_def)
  have mem: "check_member X R ?m (prepared_ref X p) (pr_bytes p) = Inr (pr_record p)" if p: "p \<in> set ?ps" for p
  proof -
    obtain r where r: "r \<in> set rs" "p = prepared X R r" using p sp(2) by auto
    then obtain bs where e: "encode_record X r R = Inr bs"
      using assms(3) by (auto simp: preparable_def is_ok_iff)
    then have "decode_record X bs R = Inr r"
      using assms(2) r encode_record_readable by blast
    then show ?thesis
      using r e assms(3)
      by (auto simp: check_member_Inr prepared_ref_def prepared_def manifest_of_def preparable_def)
  qed
  have "\<exists>rest. check_members X R ?m (bt_of_list ?kv) (bm_members ?m) =
      Inr (rest, map pr_record ?ps, zip (map ref_path (bm_members ?m)) (map pr_bytes ?ps)) \<and>
      set rest = {(k, v) \<in> set (bt_of_list ?kv). k \<notin> ref_path ` set (bm_members ?m)}"
  proof (rule check_members_total[OF bt_wf_of_list])
    show "distinct (map ref_path (bm_members ?m))"
      using d by (simp add: manifest_of_def comp_def prepared_ref_def)
    show "bt_get (bt_of_list ?kv) (ref_path (bm_members ?m ! i)) = Some (map pr_bytes ?ps ! i) \<and>
        check_member X R ?m (bm_members ?m ! i) (map pr_bytes ?ps ! i) = Inr (map pr_record ?ps ! i)"
      if "i < length (bm_members ?m)" for i
      using that mem[of "?ps ! i"] map_of_eq_Some_iff[OF dk]
      by (auto simp: manifest_of_def bt_get_of_list[OF dk] prepared_ref_def)
  qed (simp_all add: manifest_of_def)
  moreover have "{(k, v) \<in> set (bt_of_list ?kv). k \<notin> ref_path ` set (bm_members ?m)} = {}"
    using set_bt_of_list[OF dk] by (auto simp: manifest_of_def prepared_ref_def image_iff)
  ultimately have "check_members X R ?m (bt_of_list ?kv) (bm_members ?m) =
      Inr ([], map pr_record ?ps, zip (map ref_path (bm_members ?m)) (map pr_bytes ?ps))"
    by auto
  moreover have "zip (map ref_path (bm_members ?m)) (map pr_bytes ?ps) = ?kv"
    by (simp add: manifest_of_def comp_def prepared_ref_def zip_map_map zip_same_conv_map)
  ultimately show ?thesis
    using col by (simp add: validate_batch_members_def) (simp add: manifest_of_def)
qed

text \<open>
  C5: a prepared batch is accepted by the store that reads it back. Its manifest bytes decode to
  the manifest itself, its path and every member path are canonical, and validating the manifest
  against the prepared member files returns exactly the records that were prepared.
\<close>

theorem prepared_batch_accepted:
  assumes "prepare_batch X rs key R = Inr pb" and "batch_laws X" and "registry_wf R"
    and "\<forall>r\<in>set rs. record_readable X r"
  shows "decode_batch_manifest X (pb_manifest_bytes pb) = Inr (pb_manifest pb) \<and>
    classify_path X (pb_manifest_path pb) = JournalBatch \<and>
    (\<forall>p\<in>set (pb_records pb). classify_path X (pr_path p) = JournalRecord) \<and>
    validate_batch_members X (pb_manifest pb)
      (map (\<lambda>p. \<lparr>sm_path = pr_path p, sm_bytes = pr_bytes p\<rparr>) (pb_records pb)) R =
      Inr (map pr_record (pb_records pb)) \<and>
    mset (map pr_record (pb_records pb)) = mset rs"
proof -
  obtain b a where p: "rs \<noteq> []" "preparable X R b a rs" "pb_records pb = bt_values (prepared_map X R rs)"
      "pb_manifest pb = manifest_of X b a key (pb_records pb)"
      "encode_manifest X (pb_manifest pb) = Inr (pb_manifest_bytes pb)"
      "pb_manifest_path pb = manifest_canonical_path X (pb_manifest pb)"
    using assms(1) by (auto simp: prepare_batch_Inr)
  have ok: "\<forall>r\<in>set rs. record_ok X r"
    using assms(4) by (simp add: record_readable_def)
  note sp = prepared_map_spec[OF assms(2) ok p(2)]
  note rd = prepared_manifest_readable[OF assms(2,3) ok p(2,1), of key]
  have laws: "uuid_roundtrip X" "uuid_plain X"
    using assms(2) by (simp_all add: batch_laws_def)
  have "decode_batch_manifest X (pb_manifest_bytes pb) = Inr (pb_manifest pb)"
    using encode_manifest_readable rd p by simp
  moreover have "classify_path X (pb_manifest_path pb) = JournalBatch"
    using classify_batch_path[OF laws] rd p
    by (simp add: manifest_canonical_path_def batch_path_def manifest_readable_def manifest_ok_def)
  moreover have "\<forall>q\<in>set (pb_records pb). classify_path X (pr_path q) = JournalRecord"
    using sp(2) p(3) ok classify_record_canonical_path[OF laws] by (auto simp: prepared_def)
  moreover have "mset (map pr_record (pb_records pb)) = mset rs"
  proof -
    have "set (map pr_record (pb_records pb)) = set rs"
      using sp(2) p(3) by (auto simp: prepared_def image_iff)
    moreover have "distinct rs"
      using p(2) by (auto simp: preparable_def distinct_map)
    moreover have "distinct (map pr_record (pb_records pb))"
    proof -
      have "distinct (map r_id (map pr_record (pb_records pb)))"
        using sp(5) p(3) by (simp add: comp_def)
      then show ?thesis using distinct_map by blast
    qed
    ultimately show ?thesis
      using set_eq_iff_mset_eq_distinct by blast
  qed
  ultimately show ?thesis
    using prepared_members_validate[OF assms(2,4) p(2)] p by simp
qed

text \<open>
  Preparation does not depend on the order in which the records are handed over: the same
  manifest bytes, digests and member order result from every permutation.
\<close>

theorem prepare_batch_permutation:
  assumes "prepare_batch X rs key R = Inr pb" and "mset rs' = mset rs"
    and "batch_laws X" and "\<forall>r\<in>set rs. record_ok X r"
  shows "prepare_batch X rs' key R = Inr pb"
proof -
  obtain b a where p: "rs \<noteq> []" "preparable X R b a rs" "pb_records pb = bt_values (prepared_map X R rs)"
      "pb_manifest pb = manifest_of X b a key (pb_records pb)"
      "encode_manifest X (pb_manifest pb) = Inr (pb_manifest_bytes pb)"
      "pb_manifest_path pb = manifest_canonical_path X (pb_manifest pb)"
    using assms(1) by (auto simp: prepare_batch_Inr)
  have e: "set rs' = set rs" "distinct (map r_id rs') = distinct (map r_id rs)"
    using mset_eq_setD[OF assms(2)] mset_eq_imp_distinct_iff[of "map r_id rs'" "map r_id rs"]
    by (simp_all only: mset_map assms(2))
  then have "preparable X R b a rs'"
    using p(2) by (simp add: preparable_def)
  moreover have "prepared_map X R rs = prepared_map X R rs'"
    by (rule prepared_map_perm[OF assms(3,4) p(2) assms(2)[symmetric]])
  ultimately show ?thesis
    using p e(1) unfolding prepare_batch_Inr by (intro exI[of _ b] exI[of _ a]) auto
qed

lemma member_matches_ref:
  assumes "validate_batch_members X m ms R = Inr rs" "ref \<in> set (bm_members m)"
  shows "\<exists>s\<in>set ms. sm_path s = ref_path ref \<and> content_digest X (sm_bytes s) = ref_digest ref"
proof -
  obtain hs where "set hs = (\<lambda>s. (sm_path s, sm_bytes s)) ` set ms"
      "list_all2 (\<lambda>ref r. \<exists>bs. (ref_path ref, bs) \<in> set hs \<and> check_member X R m ref bs = Inr r)
        (bm_members m) rs"
    by (rule validate_batch_members_Inr[OF assms(1)]) (rule that)
  moreover obtain i where "i < length (bm_members m)" "bm_members m ! i = ref"
    using assms(2) by (auto simp: in_set_conv_nth)
  ultimately show ?thesis
    by (auto simp: check_member_Inr dest!: list_all2_nthD)
qed

text \<open>Two files at one path whose framed contents collide.\<close>

definition member_collision :: "ext \<Rightarrow> stored_member list \<Rightarrow> stored_member list \<Rightarrow> bool" where
  "member_collision X ms ms' \<longleftrightarrow>
     (\<exists>s\<in>set ms. \<exists>s'\<in>set ms'. sm_path s = sm_path s' \<and>
       blake3_collision X (CONTENT_DIGEST_DOMAIN @ sm_bytes s) (CONTENT_DIGEST_DOMAIN @ sm_bytes s'))"

lemma member_collision_sym: "member_collision X ms ms' \<Longrightarrow> member_collision X ms' ms"
  unfolding member_collision_def blake3_collision_def by metis

lemma members_subset:
  assumes v: "validate_batch_members X m ms R = Inr rs" "validate_batch_members X m ms' R' = Inr rs'"
    and nc: "\<not> member_collision X ms ms'"
  shows "(\<lambda>s. (sm_path s, sm_bytes s)) ` set ms \<subseteq> (\<lambda>s. (sm_path s, sm_bytes s)) ` set ms'"
proof
  fix e assume "e \<in> (\<lambda>s. (sm_path s, sm_bytes s)) ` set ms"
  then obtain s where s: "s \<in> set ms" "e = (sm_path s, sm_bytes s)" by auto
  obtain hs where hs: "distinct (map sm_path ms)" "set hs = (\<lambda>s. (sm_path s, sm_bytes s)) ` set ms"
      "map fst hs = map ref_path (bm_members m)"
    by (rule validate_batch_members_Inr[OF v(1)]) (rule that)
  have "sm_path s \<in> set (map fst hs)"
    using hs(2) s by force
  then obtain ref where ref: "ref \<in> set (bm_members m)" "ref_path ref = sm_path s"
    unfolding hs(3) by auto
  obtain t where t: "t \<in> set ms" "sm_path t = sm_path s" "content_digest X (sm_bytes t) = ref_digest ref"
    using member_matches_ref[OF v(1) ref(1)] ref(2) by auto
  then have "t = s"
    using hs(1) s(1) by (auto simp: distinct_map inj_on_def)
  moreover obtain s' where s': "s' \<in> set ms'" "sm_path s' = sm_path s"
      "content_digest X (sm_bytes s') = ref_digest ref"
    using member_matches_ref[OF v(2) ref(1)] ref(2) by auto
  ultimately have "sm_bytes s = sm_bytes s'"
    using nc s(1) t(3)
    unfolding member_collision_def blake3_collision_def content_digest_def hash_bytes_def by fastforce
  then show "e \<in> (\<lambda>s. (sm_path s, sm_bytes s)) ` set ms'"
    using s s' by (intro image_eqI[of _ _ s']) simp_all
qed

text \<open>
  C38: a manifest determines its members. Two sets of member files that validate against the same
  manifest are equal as sets of path and bytes, unless two files at one path are a BLAKE3
  collision under the content digest domain.
\<close>

theorem manifest_binds_members:
  assumes "validate_batch_members X m ms R = Inr rs" and "validate_batch_members X m ms' R' = Inr rs'"
  shows "(\<lambda>s. (sm_path s, sm_bytes s)) ` set ms = (\<lambda>s. (sm_path s, sm_bytes s)) ` set ms' \<or>
    member_collision X ms ms'"
  using members_subset[OF assms] members_subset[OF assms(2,1)] member_collision_sym by blast

section \<open>Ownership characterised\<close>

definition owners :: "(bytes, nat) btree \<Rightarrow> bytes \<Rightarrow> nat" where
  "owners own k = (case bt_get own k of None \<Rightarrow> 0 | Some n \<Rightarrow> n)"

lemma owners_bump: "owners (bump p own) k = (if k = p then Suc (owners own k) else owners own k)"
  by (simp add: owners_def bump_def bt_get_insert)

lemma owners_fold_bump: "owners (fold (\<lambda>ref. bump (ref_path ref)) refs own) k =
    owners own k + count_list (map ref_path refs) k"
  by (induction refs arbitrary: own) (simp_all add: owners_bump)

lemma bt_keys_bump: "set (bt_keys (bump p own)) = insert p (set (bt_keys own))"
  by (simp add: bump_def bt_keys_def keys_bt_insert)

lemma bt_keys_fold_bump: "set (bt_keys (fold (\<lambda>ref. bump (ref_path ref)) refs own)) =
    set (bt_keys own) \<union> ref_path ` set refs"
  by (induction refs arbitrary: own) (auto simp: bt_keys_bump)

lemma count_list_distinct: "distinct xs \<Longrightarrow> count_list xs x = (if x \<in> set xs then 1 else 0)"
  by (induction xs) auto

lemma check_stored_records_Inr:
  "check_stored_records X R ps ms = Inr qs \<longleftrightarrow>
   distinct (map sm_path ms) \<and> (\<forall>s\<in>set ms. sm_path s \<notin> set ps \<and> is_ok (decode_record X (sm_bytes s) R)) \<and>
   qs = fold bs_insert (map sm_path ms) ps"
proof (induction ms arbitrary: ps)
  case (Cons s ms)
  have "check_stored_records X R ps (s # ms) = Inr qs \<longleftrightarrow>
      sm_path s \<notin> set ps \<and> is_ok (decode_record X (sm_bytes s) R) \<and>
      check_stored_records X R (bs_insert (sm_path s) ps) ms = Inr qs"
    by (auto simp: result_simps is_ok_iff)
  then show ?case
    unfolding Cons.IH[of "bs_insert (sm_path s) ps"] by (auto simp: image_iff)
qed auto

text \<open>A manifest together with its own files, taken from the complete record set.\<close>

definition manifest_stored ::
  "ext \<Rightarrow> domain_registry \<Rightarrow> stored_member list \<Rightarrow> batch_manifest \<Rightarrow> bool" where
  "manifest_stored X R records m \<longleftrightarrow>
     (\<exists>ms. set ms \<subseteq> set records \<and> map sm_path ms = map ref_path (bm_members m) \<and>
        is_ok (validate_batch_members X m ms R))"

lemma manifest_stored_distinct:
  assumes "manifest_stored X R records m"
  shows "distinct (map ref_path (bm_members m))" and "ref_path ` set (bm_members m) \<subseteq> sm_path ` set records"
proof -
  obtain ms rs where ms: "set ms \<subseteq> set records" "map sm_path ms = map ref_path (bm_members m)"
      "validate_batch_members X m ms R = Inr rs"
    using assms by (auto simp: manifest_stored_def is_ok_iff)
  show "distinct (map ref_path (bm_members m))"
    by (rule validate_batch_members_Inr[OF ms(3)])
  have "ref_path ` set (bm_members m) = sm_path ` set ms"
    using ms(2) by (metis set_map)
  then show "ref_path ` set (bm_members m) \<subseteq> sm_path ` set records"
    using ms(1) by auto
qed

lemma select_members:
  fixes records :: "stored_member list"
  assumes d: "distinct (map sm_path records)"
  shows "try_map (\<lambda>ref. case bt_get (bt_of_list (map (\<lambda>m. (sm_path m, sm_bytes m)) records)) (ref_path ref) of
          None \<Rightarrow> Inl (OwnershipMissingMember (ref_path ref))
        | Some bs \<Rightarrow> Inr \<lparr>sm_path = ref_path ref, sm_bytes = bs\<rparr>) refs = Inr ms \<longleftrightarrow>
    set ms \<subseteq> set records \<and> map sm_path ms = map ref_path refs"
proof -
  have dk: "distinct (map fst (map (\<lambda>m. (sm_path m, sm_bytes m)) records))"
    using d by (simp add: comp_def)
  have "(case bt_get (bt_of_list (map (\<lambda>m. (sm_path m, sm_bytes m)) records)) p of
          None \<Rightarrow> Inl (OwnershipMissingMember p)
        | Some bs \<Rightarrow> Inr \<lparr>sm_path = p, sm_bytes = bs\<rparr>) = Inr s \<longleftrightarrow> s \<in> set records \<and> sm_path s = p"
    for p and s :: stored_member
  proof -
    have "map_of (map (\<lambda>m. (sm_path m, sm_bytes m)) records) p = Some bs \<longleftrightarrow>
        \<lparr>sm_path = p, sm_bytes = bs\<rparr> \<in> set records" for bs
    proof
      assume "map_of (map (\<lambda>m. (sm_path m, sm_bytes m)) records) p = Some bs"
      then obtain x where x: "x \<in> set records" "sm_path x = p" "sm_bytes x = bs"
        by (auto simp: map_of_eq_Some_iff[OF dk])
      have "x = \<lparr>sm_path = p, sm_bytes = bs\<rparr>" using x(2,3) by (cases x) simp
      with x show "\<lparr>sm_path = p, sm_bytes = bs\<rparr> \<in> set records" by simp
    qed (force simp: map_of_eq_Some_iff[OF dk])
    moreover have "x = y" if "x \<in> set records" "y \<in> set records" "sm_path x = sm_path y" for x y
      using that d by (auto simp: distinct_map inj_on_def)
    ultimately show ?thesis
      by (cases s) (fastforce simp: bt_get_of_list[OF dk] split: option.splits)
  qed
  then show ?thesis
    unfolding try_map_Inr_iff
    by (induction refs arbitrary: ms) (auto simp: list_all2_Cons1 Cons_eq_map_conv)
qed

lemma claim_manifest_Inr:
  assumes "distinct (map sm_path records)"
  shows "claim_manifest X R (bt_of_list (map (\<lambda>m. (sm_path m, sm_bytes m)) records)) own m = Inr own' \<longleftrightarrow>
    manifest_stored X R records m \<and> own' = fold (\<lambda>ref. bump (ref_path ref)) (bm_members m) own"
  unfolding claim_manifest_def rbind_Inr_iff select_members[OF assms]
  by (auto simp: manifest_stored_def is_ok_iff)

lemma claim_manifests_Inr:
  assumes "distinct (map sm_path records)"
  shows "try_fold (claim_manifest X R (bt_of_list (map (\<lambda>m. (sm_path m, sm_bytes m)) records))) own manifests =
      Inr own' \<longleftrightarrow>
    (\<forall>m\<in>set manifests. manifest_stored X R records m) \<and>
    own' = fold (\<lambda>m. fold (\<lambda>ref. bump (ref_path ref)) (bm_members m)) manifests own"
  by (induction manifests arbitrary: own) (auto simp: result_simps claim_manifest_Inr[OF assms])

lemma owners_manifests:
  assumes "\<forall>m\<in>set manifests. manifest_stored X R records m"
  shows "owners (fold (\<lambda>m. fold (\<lambda>ref. bump (ref_path ref)) (bm_members m)) manifests own) k =
      owners own k + length (filter (\<lambda>m. k \<in> ref_path ` set (bm_members m)) manifests)"
    and "set (bt_keys (fold (\<lambda>m. fold (\<lambda>ref. bump (ref_path ref)) (bm_members m)) manifests own))
      \<subseteq> set (bt_keys own) \<union> sm_path ` set records"
proof -
  show "owners (fold (\<lambda>m. fold (\<lambda>ref. bump (ref_path ref)) (bm_members m)) manifests own) k =
      owners own k + length (filter (\<lambda>m. k \<in> ref_path ` set (bm_members m)) manifests)"
    using assms
  proof (induction manifests arbitrary: own)
    case (Cons m manifests)
    then have "count_list (map ref_path (bm_members m)) k = (if k \<in> ref_path ` set (bm_members m) then 1 else 0)"
      using manifest_stored_distinct(1)[of X R records m] by (simp add: count_list_distinct)
    with Cons show ?case by (simp add: owners_fold_bump)
  qed simp
  show "set (bt_keys (fold (\<lambda>m. fold (\<lambda>ref. bump (ref_path ref)) (bm_members m)) manifests own))
      \<subseteq> set (bt_keys own) \<union> sm_path ` set records"
    using assms
  proof (induction manifests arbitrary: own)
    case (Cons m manifests)
    let ?o = "fold (\<lambda>ref. bump (ref_path ref)) (bm_members m) own"
    have "set (bt_keys ?o) \<union> sm_path ` set records \<subseteq> set (bt_keys own) \<union> sm_path ` set records"
      using manifest_stored_distinct(2)[of X R records m] Cons.prems by (auto simp: bt_keys_fold_bump)
    moreover have "set (bt_keys (fold (\<lambda>m. fold (\<lambda>ref. bump (ref_path ref)) (bm_members m)) manifests ?o))
        \<subseteq> set (bt_keys ?o) \<union> sm_path ` set records"
      using Cons by simp
    ultimately show ?case unfolding fold_simps(2) by (rule order_trans[rotated])
  qed simp
qed

lemma check_owner_Inr: "check_owner own p = Inr () \<longleftrightarrow> owners own p = 1"
  by (auto simp: check_owner_def owners_def split: option.splits nat.splits)

lemma batch_ownership_Inr:
  "validate_batch_ownership X records manifests R = Inr () \<longleftrightarrow>
   distinct (map sm_path records) \<and>
   (\<forall>s\<in>set records. is_ok (decode_record X (sm_bytes s) R)) \<and>
   (\<forall>m\<in>set manifests. manifest_stored X R records m) \<and>
   (\<forall>s\<in>set records. length (filter (\<lambda>m. sm_path s \<in> ref_path ` set (bm_members m)) manifests) = 1)"
proof (cases "distinct (map sm_path records) \<and> (\<forall>s\<in>set records. is_ok (decode_record X (sm_bytes s) R)) \<and>
    (\<forall>m\<in>set manifests. manifest_stored X R records m)")
  case True
  let ?own = "fold (\<lambda>m. fold (\<lambda>ref. bump (ref_path ref)) (bm_members m)) manifests []"
  let ?paths = "fold bs_insert (map sm_path records) []"
  have paths: "set ?paths = sm_path ` set records"
    using set_bs_of_list[of "map sm_path records"] by (simp add: bs_of_list_def)
  have st: "validate_batch_ownership X records manifests R =
      rbind (try_map (check_owner ?own) ?paths) (\<lambda>_.
        case find (\<lambda>path. path \<notin> set ?paths) (bt_keys ?own) of
          Some path \<Rightarrow> Inl (OwnershipMissingMember path) | None \<Rightarrow> Inr ())"
    using True claim_manifests_Inr[of records X R "[]" manifests ?own]
      check_stored_records_Inr[of X R "[]" records ?paths]
    by (simp add: validate_batch_ownership_def Let_def)
  have "find (\<lambda>path. path \<notin> set ?paths) (bt_keys ?own) = None"
    using owners_manifests(2)[of manifests X R records "[]"] True paths
    by (auto simp: find_None_iff bt_keys_def)
  then have "validate_batch_ownership X records manifests R = Inr () \<longleftrightarrow>
      is_ok (try_map (check_owner ?own) ?paths)"
    unfolding st by (auto simp: is_ok_iff result_simps)
  also have "\<dots> \<longleftrightarrow> (\<forall>p\<in>set ?paths. check_owner ?own p = Inr ())"
  proof -
    have "is_ok (try_map (check_owner ?own) ps) \<longleftrightarrow> (\<forall>p\<in>set ps. check_owner ?own p = Inr ())" for ps
      by (induction ps) (auto simp: is_ok_iff result_simps)
    then show ?thesis .
  qed
  also have "\<dots> \<longleftrightarrow> (\<forall>s\<in>set records. owners ?own (sm_path s) = 1)"
    unfolding paths by (simp add: check_owner_Inr)
  also have "\<dots> \<longleftrightarrow>
      (\<forall>s\<in>set records. length (filter (\<lambda>m. sm_path s \<in> ref_path ` set (bm_members m)) manifests) = 1)"
    using owners_manifests(1)[of manifests X R records "[]"] True by (simp add: owners_def)
  finally show ?thesis using True by simp
next
  case False
  then show ?thesis
    using claim_manifests_Inr[of records X R "[]" manifests] check_stored_records_Inr[of X R "[]" records]
    by (auto simp: validate_batch_ownership_def result_simps Let_def)
qed

text \<open>
  C9: ownership validation is exact. A complete record set and a list of manifests are accepted
  precisely when the record paths are distinct, every record decodes, every manifest validates
  against its own files in the set, and every record belongs to exactly one manifest.
\<close>

theorem ownership_exact:
  "validate_batch_ownership X records manifests R = Inr () \<longleftrightarrow>
   distinct (map sm_path records) \<and>
   (\<forall>s\<in>set records. is_ok (decode_record X (sm_bytes s) R)) \<and>
   (\<forall>m\<in>set manifests. manifest_stored X R records m) \<and>
   (\<forall>s\<in>set records. length (filter (\<lambda>m. sm_path s \<in> ref_path ` set (bm_members m)) manifests) = 1)"
  by (rule batch_ownership_Inr)

text \<open>
  Retry classification is exact: no manifest of the actor under this key is a new request, a
  single one with the same request digest is a replay of that manifest, a single one with another
  digest is a mismatch, and several are reported together in batch order.
\<close>

theorem classify_idempotency_exact:
  defines "owned \<equiv> \<lambda>X ms a k. filter (\<lambda>m. bm_actor m = a \<and> bm_key_digest m = idempotency_digest X a k) ms"
  shows "classify_idempotency X ms a k q =
    (if owned X ms a k = [] then Inr IdemNew
     else if length (owned X ms a k) = 1 then
       (if bm_request (hd (owned X ms a k)) = q then Inr (IdemReplay (hd (owned X ms a k)))
        else Inl (IdempotencyRequestMismatch (bm_batch (hd (owned X ms a k)))))
     else Inl (DuplicateIdempotencyOwnership (sort (map bm_batch (owned X ms a k)))))"
proof -
  have s: "map bm_batch (sort_key bm_batch xs) = sort (map bm_batch xs)" for xs :: "batch_manifest list"
    by (rule properties_for_sort[symmetric]) simp_all
  show ?thesis
  proof (cases "owned X ms a k")
    case Nil
    then show ?thesis by (simp add: classify_idempotency_def owned_def Let_def)
  next
    case (Cons m ms')
    show ?thesis
    proof (cases ms')
      case Nil
      then show ?thesis using Cons by (simp add: classify_idempotency_def owned_def Let_def)
    next
      case (Cons m2 ms2)
      have "length (sort_key bm_batch (owned X ms a k)) = Suc (Suc (length ms2))"
        using \<open>owned X ms a k = m # ms'\<close> Cons by simp
      moreover have "length xs = Suc (Suc n) \<Longrightarrow> \<exists>x y zs. xs = x # y # zs" for n and xs :: "batch_manifest list"
        by (auto simp: length_Suc_conv)
      ultimately obtain x y zs where "sort_key bm_batch (owned X ms a k) = x # y # zs"
        by blast
      then show ?thesis
        using \<open>owned X ms a k = m # ms'\<close> Cons s[of "owned X ms a k"]
        by (simp add: classify_idempotency_def Let_def) (simp add: owned_def)
    qed
  qed
qed

text \<open>
  The manifest codec is exact on readable manifests, and only canonical manifests decode: the
  bytes are the encoding again, the members are strictly ordered by path, their identifiers are
  distinct and each names a record path of its own schema's domain.
\<close>

theorem manifest_codec_exact:
  assumes "decode_batch_manifest X bs = Inr m \<or> manifest_readable X m"
  shows "(decode_batch_manifest X bs = Inr m \<longleftrightarrow> manifest_ok X m \<and> encode_manifest X m = Inr bs) \<and>
    (\<forall>bs'. decode_batch_manifest X bs = Inr m \<longrightarrow> decode_batch_manifest X bs' = Inr m \<longrightarrow> bs' = bs)"
proof
  have "manifest_readable X m \<Longrightarrow> manifest_ok X m"
    by (simp add: manifest_readable_def)
  then show "decode_batch_manifest X bs = Inr m \<longleftrightarrow> manifest_ok X m \<and> encode_manifest X m = Inr bs"
    using assms decode_batch_manifest_Inr manifest_exact.decode_iff[of X m bs] by blast
  show "\<forall>bs'. decode_batch_manifest X bs = Inr m \<longrightarrow> decode_batch_manifest X bs' = Inr m \<longrightarrow> bs' = bs"
    using manifest_codec.decode_unique by blast
qed

end
