(* ===== verification/Wj_Revision.thy ===== *)
theory Wj_Revision
  imports Wj_Record
begin

text \<open>
  \<open>revision.rs\<close>: the store revision digest over the four canonical roots, both as the incremental
  accumulator that streaming replay uses and as the one-shot computation over arbitrary entries.
\<close>

datatype revision_algorithm = WayjournalBlake3FramedV1 | WaytaskBlake3FramedV1

definition REVISION_ALGORITHM_V1 :: string where
  "REVISION_ALGORITHM_V1 = ''wayjournal.store/blake3-framed-v1''"
definition LEGACY_REVISION_ALGORITHM_V1 :: string where
  "LEGACY_REVISION_ALGORITHM_V1 = ''waytask.store/blake3-framed-v1''"
definition STORE_REVISION_DOMAIN :: bytes where
  "STORE_REVISION_DOMAIN = ''wayjournal-store-v1'' @ [CHR 0x00]"

fun algorithm_as_str :: "revision_algorithm \<Rightarrow> string" where
  "algorithm_as_str WayjournalBlake3FramedV1 = REVISION_ALGORITHM_V1"
| "algorithm_as_str WaytaskBlake3FramedV1 = LEGACY_REVISION_ALGORITHM_V1"

datatype revision_algorithm_error = RevisionAlgorithmError string

definition algorithm_from_str :: "string \<Rightarrow> revision_algorithm_error + revision_algorithm" where
  "algorithm_from_str s =
     (if s = REVISION_ALGORITHM_V1 then Inr WayjournalBlake3FramedV1
      else if s = LEGACY_REVISION_ALGORITHM_V1 then Inr WaytaskBlake3FramedV1
      else Inl (RevisionAlgorithmError s))"

record store_revision_ref =
  sr_algorithm :: revision_algorithm
  sr_digest :: digest

datatype store_revision_parse_error =
    SR_Algorithm revision_algorithm_error
  | SR_Digest digest_error

definition store_revision_parse ::
  "ext \<Rightarrow> string \<Rightarrow> string \<Rightarrow> store_revision_parse_error + store_revision_ref" where
  "store_revision_parse X a d =
     rbind (map_err SR_Algorithm (algorithm_from_str a)) (\<lambda>alg.
     rbind (map_err SR_Digest (digest_parse X d)) (\<lambda>dig.
     Inr \<lparr>sr_algorithm = alg, sr_digest = dig\<rparr>))"

record revision_entry =
  re_path :: bytes
  re_bytes :: bytes
  re_regular :: bool

datatype revision_error =
    DuplicatePath bytes
  | InvalidCanonicalPath bytes
  | NonRegularCanonicalPath bytes
  | NonCanonicalOrder bytes

section \<open>The accumulator\<close>

record store_revision_accumulator =
  acc_hasher :: bytes
  acc_previous :: "bytes option"

definition accumulator_new :: store_revision_accumulator where
  "accumulator_new = \<lparr>acc_hasher = STORE_REVISION_DOMAIN, acc_previous = None\<rparr>"

definition accumulator_push ::
  "ext \<Rightarrow> store_revision_accumulator \<Rightarrow> bytes \<Rightarrow> bytes \<Rightarrow> revision_error + store_revision_accumulator" where
  "accumulator_push X a path bs =
     (if \<not> is_canonical (classify_path X path) then Inl (InvalidCanonicalPath path)
      else if acc_previous a = Some path then Inl (DuplicatePath path)
      else if (case acc_previous a of None \<Rightarrow> False | Some p \<Rightarrow> path < p) then Inl (NonCanonicalOrder path)
      else Inr \<lparr>acc_hasher = update_frame (update_frame (acc_hasher a) path) bs,
                acc_previous = Some path\<rparr>)"

definition accumulator_finish :: "ext \<Rightarrow> store_revision_accumulator \<Rightarrow> store_revision_ref" where
  "accumulator_finish X a =
     \<lparr>sr_algorithm = WayjournalBlake3FramedV1, sr_digest = blake3_hash X (acc_hasher a)\<rparr>"

section \<open>The one-shot revision\<close>

fun first_duplicate :: "revision_entry list \<Rightarrow> bytes option" where
  "first_duplicate (a # b # es) =
     (if re_path a = re_path b then Some (re_path a) else first_duplicate (b # es))"
| "first_duplicate _ = None"

definition revision_step ::
  "ext \<Rightarrow> store_revision_accumulator \<Rightarrow> revision_entry \<Rightarrow> revision_error + store_revision_accumulator" where
  "revision_step X a e =
     (case classify_path X (re_path e) of
        InvalidReserved \<Rightarrow> Inl (InvalidCanonicalPath (re_path e))
      | NonCanonical \<Rightarrow> Inr a
      | _ \<Rightarrow>
          if \<not> re_regular e then Inl (NonRegularCanonicalPath (re_path e))
          else accumulator_push X a (re_path e) (re_bytes e))"

definition compute_store_revision :: "ext \<Rightarrow> revision_entry list \<Rightarrow> revision_error + store_revision_ref" where
  "compute_store_revision X entries =
     (let es = sort_key re_path entries in
      case first_duplicate es of
        Some path \<Rightarrow> Inl (DuplicatePath path)
      | None \<Rightarrow>
          rbind (try_fold (revision_step X) accumulator_new es) (\<lambda>a. Inr (accumulator_finish X a)))"

section \<open>Canonical content\<close>

definition entry_ok :: "ext \<Rightarrow> revision_entry \<Rightarrow> bool" where
  "entry_ok X e \<longleftrightarrow>
     classify_path X (re_path e) \<noteq> InvalidReserved \<and>
     (is_canonical (classify_path X (re_path e)) \<longrightarrow> re_regular e)"

definition canonical_entries :: "ext \<Rightarrow> revision_entry list \<Rightarrow> (bytes \<times> bytes) list" where
  "canonical_entries X es =
     map (\<lambda>e. (re_path e, re_bytes e))
       (sort_key re_path (filter (\<lambda>e. is_canonical (classify_path X (re_path e))) es))"

lemma first_duplicate_None: "sorted (map re_path es) \<Longrightarrow> first_duplicate es = None \<longleftrightarrow> distinct (map re_path es)"
  by (induction es rule: first_duplicate.induct) auto

lemma revision_step_cases:
  "revision_step X a e =
     (if classify_path X (re_path e) = InvalidReserved then Inl (InvalidCanonicalPath (re_path e))
      else if \<not> is_canonical (classify_path X (re_path e)) then Inr a
      else if \<not> re_regular e then Inl (NonRegularCanonicalPath (re_path e))
      else accumulator_push X a (re_path e) (re_bytes e))"
  by (cases "classify_path X (re_path e)") (auto simp: revision_step_def is_canonical_def)

text \<open>On strictly ordered entries the accumulator never complains about the order.\<close>

lemma revision_fold:
  assumes "strictly_ordered (map re_path es)"
    and "\<forall>e\<in>set es. case acc_previous a of None \<Rightarrow> True | Some p \<Rightarrow> p < re_path e"
  shows "try_fold (revision_step X) a es = Inr a' \<longleftrightarrow>
    (\<forall>e\<in>set es. entry_ok X e) \<and>
    (let cs = filter (\<lambda>e. is_canonical (classify_path X (re_path e))) es in
     a' = \<lparr>acc_hasher = frame_entries (acc_hasher a) (map (\<lambda>e. (re_path e, re_bytes e)) cs),
           acc_previous = (if cs = [] then acc_previous a else Some (re_path (last cs)))\<rparr>)"
  using assms
proof (induction es arbitrary: a)
  case Nil
  then show ?case by (cases a) auto
next
  case (Cons e es)
  have srt: "strictly_ordered (map re_path es)" "\<forall>x\<in>set es. re_path e < re_path x"
    using Cons.prems(1) by (auto simp: strictly_ordered_iff)
  show ?case
  proof (cases "is_canonical (classify_path X (re_path e)) \<and> re_regular e")
    case True
    let ?a = "\<lparr>acc_hasher = update_frame (update_frame (acc_hasher a) (re_path e)) (re_bytes e),
        acc_previous = Some (re_path e)\<rparr>"
    have "revision_step X a e = Inr ?a"
      using True Cons.prems(2)
      by (auto simp: revision_step_cases accumulator_push_def is_canonical_def split: option.splits)
    moreover have "entry_ok X e"
      using True by (auto simp: entry_ok_def is_canonical_def)
    moreover note Cons.IH[OF srt(1), of ?a]
    ultimately show ?thesis
      using True srt(2) by (simp add: Let_def)
  next
    case False
    then show ?thesis
      using Cons.IH[OF srt(1), of a] Cons.prems(2)
      by (auto simp: revision_step_cases entry_ok_def Let_def)
  qed
qed

lemma sorted_key_distinct:
  "distinct (map re_path es) \<Longrightarrow> strictly_ordered (map re_path (sort_key re_path es))"
  by (simp add: strictly_ordered_iff strict_sorted_iff distinct_map)

lemma distinct_paths_sort: "distinct (map re_path (sort_key re_path es)) \<longleftrightarrow> distinct (map re_path es)"
  by (simp add: distinct_map)

lemma sort_key_filter: "filter P (sort_key f xs) = sort_key f (filter P xs)"
  by (rule filter_sort)

lemma compute_store_revision_Inr:
  "compute_store_revision X es = Inr r \<longleftrightarrow>
   distinct (map re_path es) \<and> (\<forall>e\<in>set es. entry_ok X e) \<and>
   r = \<lparr>sr_algorithm = WayjournalBlake3FramedV1,
        sr_digest = framed_hash X STORE_REVISION_DOMAIN (canonical_entries X es)\<rparr>"
proof (cases "distinct (map re_path es)")
  case True
  have "first_duplicate (sort_key re_path es) = None"
    using True by (subst first_duplicate_None) (simp_all add: distinct_paths_sort)
  then show ?thesis
    using True revision_fold[OF sorted_key_distinct[OF True], of accumulator_new X]
    by (auto simp: compute_store_revision_def result_simps Let_def accumulator_new_def
        accumulator_finish_def framed_hash_def canonical_entries_def sort_key_filter)
next
  case False
  then have "first_duplicate (sort_key re_path es) \<noteq> None"
    using first_duplicate_None[of "sort_key re_path es"] by (simp add: distinct_paths_sort)
  then show ?thesis
    using False by (auto simp: compute_store_revision_def Let_def)
qed

lemma map_sort_key: "map f (sort_key f xs) = sort (map f xs)"
  by (rule properties_for_sort[symmetric]) simp_all

lemma first_duplicate_paths:
  "map re_path es = map re_path es' \<Longrightarrow> first_duplicate es = first_duplicate es'"
proof (induction es arbitrary: es' rule: first_duplicate.induct)
  case (1 a b es)
  then obtain a' b' es2 where e: "es' = a' # b' # es2"
    by (auto simp: Cons_eq_map_conv)
  then show ?case using 1 by auto
qed (auto simp: Cons_eq_map_conv)

lemma sort_key_perm:
  assumes "mset xs = mset ys" "distinct (map f xs)"
  shows "sort_key f xs = sort_key f ys"
  using assms by (intro sort_key_inj_key_eq) (auto simp: distinct_map dest: mset_eq_setD)

section \<open>Properties\<close>

text \<open>
  C36: the revision computation is exact and fails closed. It succeeds precisely when the paths are
  distinct, none is malformed below a reserved root and every canonical path is a regular file;
  the digest is then the framed hash of the canonical entries alone, in path order.
\<close>

theorem revision_exact:
  "compute_store_revision X es = Inr r \<longleftrightarrow>
   distinct (map re_path es) \<and>
   (\<forall>e\<in>set es. classify_path X (re_path e) \<noteq> InvalidReserved) \<and>
   (\<forall>e\<in>set es. \<not> is_canonical (classify_path X (re_path e)) \<or> re_regular e) \<and>
   r = \<lparr>sr_algorithm = WayjournalBlake3FramedV1,
        sr_digest = framed_hash X STORE_REVISION_DOMAIN (canonical_entries X es)\<rparr>"
  by (auto simp: compute_store_revision_Inr entry_ok_def)

text \<open>
  The order of the entries is irrelevant, errors included: every permutation of the input
  gives the same result.
\<close>

theorem revision_order_independent:
  assumes "mset es = mset es'"
  shows "compute_store_revision X es = compute_store_revision X es'"
proof (cases "distinct (map re_path es)")
  case True
  then show ?thesis
    using sort_key_perm[OF assms True] by (simp add: compute_store_revision_def)
next
  case False
  have "sort (map re_path es) = sort (map re_path es')"
    using assms by (intro properties_for_sort) simp_all
  then have "first_duplicate (sort_key re_path es) = first_duplicate (sort_key re_path es')"
    by (intro first_duplicate_paths) (simp add: map_sort_key)
  moreover have "first_duplicate (sort_key re_path es) \<noteq> None"
    using False first_duplicate_None[of "sort_key re_path es"] by (simp add: distinct_paths_sort)
  ultimately show ?thesis
    by (auto simp: compute_store_revision_def Let_def)
qed

text \<open>
  The streaming accumulator and the one-shot computation agree: feeding the accumulator the
  canonical entries of an accepted input in path order never fails and finishes with the same
  revision.
\<close>

theorem accumulator_equivalent:
  assumes "compute_store_revision X es = Inr r"
  shows "\<exists>a. try_fold (\<lambda>a (path, bs). accumulator_push X a path bs) accumulator_new (canonical_entries X es) = Inr a \<and>
    accumulator_finish X a = r"
proof -
  have d: "distinct (map re_path es)" and ok: "\<forall>e\<in>set es. entry_ok X e"
    and r: "r = \<lparr>sr_algorithm = WayjournalBlake3FramedV1,
        sr_digest = framed_hash X STORE_REVISION_DOMAIN (canonical_entries X es)\<rparr>"
    using assms by (auto simp: compute_store_revision_Inr)
  let ?cs = "sort_key re_path (filter (\<lambda>e. is_canonical (classify_path X (re_path e))) es)"
  have "distinct (map re_path (filter (\<lambda>e. is_canonical (classify_path X (re_path e))) es))"
    using d by (simp add: distinct_map_filter)
  then have srt: "strictly_ordered (map re_path ?cs)"
    by (rule sorted_key_distinct)
  have all: "\<forall>e\<in>set ?cs. is_canonical (classify_path X (re_path e)) \<and> re_regular e"
    using ok by (auto simp: entry_ok_def)
  obtain a where a: "try_fold (revision_step X) accumulator_new ?cs = Inr a"
      "acc_hasher a = frame_entries STORE_REVISION_DOMAIN (canonical_entries X es)"
    using revision_fold[OF srt, of accumulator_new X] all
    by (force simp: accumulator_new_def entry_ok_def is_canonical_def Let_def canonical_entries_def)
  have "try_fold (\<lambda>a (path, bs). accumulator_push X a path bs) b (map (\<lambda>e. (re_path e, re_bytes e)) cs) =
      try_fold (revision_step X) b cs"
    if "\<forall>e\<in>set cs. is_canonical (classify_path X (re_path e)) \<and> re_regular e" for b cs
    using that by (induction cs arbitrary: b) (auto simp: revision_step_cases is_canonical_def
        intro!: arg_cong[where f = "rbind _"])
  from this[OF all] show ?thesis
    using a r by (auto simp: canonical_entries_def accumulator_finish_def framed_hash_def)
qed

text \<open>
  C39: a revision determines the canonical content of the store. Two inputs with the same revision
  have the same canonical paths and bytes, or their framed contents are a BLAKE3 collision.
  Path and content lengths are below \<open>2 ^ 64\<close>, the range of the frame header.
\<close>

theorem revision_binds_content:
  assumes "compute_store_revision X es = Inr r" and "compute_store_revision X es' = Inr r"
    and "list_all framable (canonical_entries X es)" and "list_all framable (canonical_entries X es')"
  shows "canonical_entries X es = canonical_entries X es' \<or>
    blake3_collision X (frame_entries STORE_REVISION_DOMAIN (canonical_entries X es))
      (frame_entries STORE_REVISION_DOMAIN (canonical_entries X es'))"
  using assms framed_hash_eq_cases[of X STORE_REVISION_DOMAIN] by (auto simp: compute_store_revision_Inr)

lemma algorithm_from_as_str: "algorithm_from_str (algorithm_as_str a) = Inr a"
  by (cases a) (simp_all add: algorithm_from_str_def REVISION_ALGORITHM_V1_def LEGACY_REVISION_ALGORITHM_V1_def)

lemma algorithm_from_str_Inr: "algorithm_from_str s = Inr a \<longleftrightarrow> s = algorithm_as_str a"
  by (cases a) (auto simp: algorithm_from_str_def REVISION_ALGORITHM_V1_def LEGACY_REVISION_ALGORITHM_V1_def)

end
