(* ===== verification/Wj_Identity.thy ===== *)
theory Wj_Identity
  imports Wj_Batch Wj_Revision
begin

text \<open>
  \<open>identity.rs\<close>: logical store identities, the closed genesis payload, the fingerprint of the
  genesis record, and the two derivations of a store's identity: from the complete manifests
  and members, and from the facts that bounded replay retains.
\<close>

section \<open>Data\<close>

record logical_store_id =
  ls_uuid :: store_uuid
  ls_fingerprint :: digest

record qualified_entity_ref =
  qe_store :: logical_store_id
  qe_domain :: domain_id
  qe_entity :: entity_id

record fork_provenance =
  fp_parent :: logical_store_id
  fp_revision :: store_revision_ref

record store_identity =
  si_logical :: logical_store_id
  si_kind :: kind_id
  si_forked_from :: "fork_provenance option"
  si_genesis :: record_id

datatype identity_relation = Replica | UuidCollision | Distinct

datatype genesis_error =
    MissingGenesis
  | DuplicateGenesis
  | GenesisNotFirst
  | EntityMismatch
  | ForkReusesParentUuid
  | GenesisInvalidRecord
  | GenesisMemberIdentityMismatch
  | GenesisMemberActorMismatch
  | GenesisMemberBatchMismatch
  | DuplicateMember
  | IncompleteMembers

record genesis_payload =
  gp_kind :: kind_id
  gp_uuid :: store_uuid
  gp_forked_from :: "fork_provenance option"

definition IDENTITY_SCHEMA_V1 :: string where "IDENTITY_SCHEMA_V1 = ''wayjournal.identity/v1''"
definition GENESIS_FINGERPRINT_DOMAIN :: bytes where
  "GENESIS_FINGERPRINT_DOMAIN = ''wayjournal-genesis-v1'' @ [CHR 0x00]"

section \<open>Operations\<close>

definition classify_logical_identity :: "logical_store_id \<Rightarrow> logical_store_id \<Rightarrow> identity_relation" where
  "classify_logical_identity left right =
     (if left = right then Replica
      else if ls_uuid left = ls_uuid right then UuidCollision
      else Distinct)"

definition genesis_fingerprint :: "ext \<Rightarrow> bytes \<Rightarrow> bytes \<Rightarrow> digest" where
  "genesis_fingerprint X path bs =
     blake3_hash X (update_frame (update_frame GENESIS_FINGERPRINT_DOMAIN path) bs)"

text \<open>The derived deserializers of the closed structs.\<close>

definition logical_id_from_value :: "ext \<Rightarrow> json \<Rightarrow> logical_store_id option" where
  "logical_id_from_value X v =
     (case serde_fields X [(''store_uuid'', False), (''genesis_fingerprint'', False)] v of
        Some [Some u, Some f] \<Rightarrow>
          (case (de_parse (store_uuid_from_str X) u, de_parse (digest_parse X) f) of
             (Some u, Some f) \<Rightarrow> Some \<lparr>ls_uuid = u, ls_fingerprint = f\<rparr>
           | _ \<Rightarrow> None)
      | _ \<Rightarrow> None)"

definition revision_ref_from_value :: "ext \<Rightarrow> json \<Rightarrow> store_revision_ref option" where
  "revision_ref_from_value X v =
     (case serde_fields X [(''algorithm'', False), (''digest'', False)] v of
        Some [Some a, Some d] \<Rightarrow>
          (case (de_parse algorithm_from_str a, de_parse (digest_parse X) d) of
             (Some a, Some d) \<Rightarrow> Some \<lparr>sr_algorithm = a, sr_digest = d\<rparr>
           | _ \<Rightarrow> None)
      | _ \<Rightarrow> None)"

definition fork_from_value :: "ext \<Rightarrow> json \<Rightarrow> fork_provenance option" where
  "fork_from_value X v =
     (case serde_fields X [(''parent'', False), (''parent_revision'', False)] v of
        Some [Some p, Some r] \<Rightarrow>
          (case (logical_id_from_value X p, revision_ref_from_value X r) of
             (Some p, Some r) \<Rightarrow> Some \<lparr>fp_parent = p, fp_revision = r\<rparr>
           | _ \<Rightarrow> None)
      | _ \<Rightarrow> None)"

text \<open>An \<open>Option\<close> field: absent and \<open>null\<close> are \<open>None\<close>.\<close>

definition de_option :: "(json \<Rightarrow> 'a option) \<Rightarrow> json option \<Rightarrow> 'a option option" where
  "de_option f v =
     (case v of
        None \<Rightarrow> Some None
      | Some JNull \<Rightarrow> Some None
      | Some w \<Rightarrow> map_option Some (f w))"

definition genesis_from_value :: "ext \<Rightarrow> json \<Rightarrow> genesis_payload option" where
  "genesis_from_value X v =
     (case serde_fields X [(''store_kind'', False), (''store_uuid'', False), (''forked_from'', True)] v of
        Some [Some k, Some u, f] \<Rightarrow>
          (case (de_parse kind_id_from_str k, de_parse (store_uuid_from_str X) u,
                 de_option (fork_from_value X) f) of
             (Some k, Some u, Some f) \<Rightarrow> Some \<lparr>gp_kind = k, gp_uuid = u, gp_forked_from = f\<rparr>
           | _ \<Rightarrow> None)
      | _ \<Rightarrow> None)"

definition fork_reuses :: "genesis_payload \<Rightarrow> bool" where
  "fork_reuses p = (case gp_forked_from p of None \<Rightarrow> False | Some f \<Rightarrow> ls_uuid (fp_parent f) = gp_uuid p)"

definition validate_identity_payload :: "ext \<Rightarrow> kind_id \<Rightarrow> json \<Rightarrow> bool" where
  "validate_identity_payload X kind payload \<longleftrightarrow>
     kind = ''store.genesis'' \<and>
     (case genesis_from_value X payload of None \<Rightarrow> False | Some p \<Rightarrow> \<not> fork_reuses p)"

definition map_batch_error :: "batch_error \<Rightarrow> genesis_error" where
  "map_batch_error e = (case e of
      MemberIdentityMismatch _ \<Rightarrow> GenesisMemberIdentityMismatch
    | MemberActorMismatch _ \<Rightarrow> GenesisMemberActorMismatch
    | MemberBatchMismatch _ \<Rightarrow> GenesisMemberBatchMismatch
    | _ \<Rightarrow> GenesisInvalidRecord)"

definition check_identity_manifest ::
  "ext \<Rightarrow> domain_registry \<Rightarrow> (bytes, bytes) btree \<Rightarrow> batch_id list \<Rightarrow> batch_manifest \<Rightarrow> genesis_error + batch_id list" where
  "check_identity_manifest X R by_path ids m =
     (if bm_batch m \<in> set ids then Inl IncompleteMembers
      else rbind (try_map (\<lambda>ref. case bt_get by_path (ref_path ref) of
             None \<Rightarrow> Inl IncompleteMembers
           | Some bs \<Rightarrow> Inr \<lparr>sm_path = ref_path ref, sm_bytes = bs\<rparr>) (bm_members m)) (\<lambda>ms.
           rbind (map_err map_batch_error (validate_batch_members X m ms R)) (\<lambda>_.
           Inr (bs_insert (bm_batch m) ids))))"

definition decode_identity_member ::
  "ext \<Rightarrow> domain_registry \<Rightarrow> stored_member \<Rightarrow> genesis_error + bytes \<times> bytes \<times> wj_record" where
  "decode_identity_member X R s =
     rbind (map_err (\<lambda>_. GenesisInvalidRecord) (decode_record X (sm_bytes s) R)) (\<lambda>r.
     if record_canonical_path X r \<noteq> sm_path s then Inl GenesisInvalidRecord
     else Inr (sm_path s, sm_bytes s, r))"

definition is_genesis :: "bytes \<times> bytes \<times> wj_record \<Rightarrow> bool" where
  "is_genesis = (\<lambda>(_, _, r). r_domain r = ''wayjournal.identity'' \<and> r_schema r = IDENTITY_SCHEMA_V1 \<and>
     r_kind r = ''store.genesis'')"

definition foreign_identity :: "bytes \<times> bytes \<times> wj_record \<Rightarrow> bool" where
  "foreign_identity = (\<lambda>(_, _, r). r_domain r = ''wayjournal.identity'' \<and> r_schema r \<noteq> IDENTITY_SCHEMA_V1)"

text \<open>The last steps, the same statements in both derivations.\<close>

definition identity_of_genesis ::
  "ext \<Rightarrow> bytes \<Rightarrow> bytes \<Rightarrow> wj_record \<Rightarrow> genesis_error + store_identity option" where
  "identity_of_genesis X path bs r =
     rbind (ok_or GenesisInvalidRecord (genesis_from_value X (r_payload r))) (\<lambda>p.
     if r_entity r \<noteq> gp_uuid p then Inl EntityMismatch
     else if fork_reuses p then Inl ForkReusesParentUuid
     else Inr (Some \<lparr>si_logical = \<lparr>ls_uuid = gp_uuid p, ls_fingerprint = genesis_fingerprint X path bs\<rparr>,
                     si_kind = gp_kind p, si_forked_from = gp_forked_from p, si_genesis = r_id r\<rparr>))"

definition validate_store_identity ::
  "ext \<Rightarrow> batch_manifest list \<Rightarrow> stored_member list \<Rightarrow> domain_registry \<Rightarrow>
   genesis_error + store_identity option" where
  "validate_store_identity X manifests members R =
     (if manifests = [] \<and> members = [] then Inr None
      else let by_path = bt_of_list (map (\<lambda>m. (sm_path m, sm_bytes m)) members) in
      if length by_path \<noteq> length members then Inl DuplicateMember
      else let sorted_manifests = sort_key (manifest_canonical_path X) manifests in
      rbind (try_fold (check_identity_manifest X R by_path) [] sorted_manifests) (\<lambda>_.
      if bs_of_list (concat (map (\<lambda>m. map ref_path (bm_members m)) manifests)) \<noteq> bt_keys by_path
      then Inl IncompleteMembers
      else rbind (try_map (decode_identity_member X R) members) (\<lambda>decoded.
      if list_ex foreign_identity decoded then Inl GenesisInvalidRecord
      else (case filter is_genesis decoded of
        [] \<Rightarrow> Inl MissingGenesis
      | [(path, bs, r)] \<Rightarrow>
          (case sorted_manifests of
             [] \<Rightarrow> Inl MissingGenesis
           | first # _ \<Rightarrow>
               if r_batch r \<noteq> bm_batch first then Inl GenesisNotFirst
               else if length (bm_members first) \<noteq> 1 \<or> ref_id (hd (bm_members first)) \<noteq> r_id r
               then Inl GenesisNotFirst
               else identity_of_genesis X path bs r)
      | _ \<Rightarrow> Inl DuplicateGenesis))))"

definition validate_replayed_identity ::
  "ext \<Rightarrow> nat \<Rightarrow> nat \<Rightarrow> (batch_id \<times> nat \<times> record_id option) option \<Rightarrow> bool \<Rightarrow> nat \<Rightarrow>
   (bytes \<times> bytes \<times> wj_record) option \<Rightarrow> genesis_error + store_identity option" where
  "validate_replayed_identity X manifests members first_batch unsupported genesis_count genesis =
     (if manifests = 0 \<and> members = 0 then Inr None
      else if unsupported then Inl GenesisInvalidRecord
      else if genesis_count = 0 then Inl MissingGenesis
      else if genesis_count \<noteq> 1 then Inl DuplicateGenesis
      else rbind (ok_or MissingGenesis genesis) (\<lambda>(path, bs, r).
      case first_batch of
        None \<Rightarrow> Inl MissingGenesis
      | Some (batch, n, first_id) \<Rightarrow>
          if r_batch r \<noteq> batch \<or> n \<noteq> 1 \<or> first_id \<noteq> Some (r_id r) then Inl GenesisNotFirst
          else identity_of_genesis X path bs r))"

section \<open>Identity characterised\<close>

lemma identity_of_genesis_Inr:
  "identity_of_genesis X path bs r = Inr res \<longleftrightarrow>
   (\<exists>p. genesis_from_value X (r_payload r) = Some p \<and> r_entity r = gp_uuid p \<and> \<not> fork_reuses p \<and>
      res = Some \<lparr>si_logical = \<lparr>ls_uuid = gp_uuid p, ls_fingerprint = genesis_fingerprint X path bs\<rparr>,
                  si_kind = gp_kind p, si_forked_from = gp_forked_from p, si_genesis = r_id r\<rparr>)"
  by (auto simp: identity_of_genesis_def result_simps)

text \<open>The part of the validation before the genesis record is looked for.\<close>

definition identity_decoded ::
  "ext \<Rightarrow> domain_registry \<Rightarrow> batch_manifest list \<Rightarrow> stored_member list \<Rightarrow>
   genesis_error + (bytes \<times> bytes \<times> wj_record) list" where
  "identity_decoded X R manifests members =
     (let by_path = bt_of_list (map (\<lambda>m. (sm_path m, sm_bytes m)) members) in
      if length by_path \<noteq> length members then Inl DuplicateMember
      else rbind (try_fold (check_identity_manifest X R by_path) []
             (sort_key (manifest_canonical_path X) manifests)) (\<lambda>_.
      if bs_of_list (concat (map (\<lambda>m. map ref_path (bm_members m)) manifests)) \<noteq> bt_keys by_path
      then Inl IncompleteMembers
      else try_map (decode_identity_member X R) members))"

definition first_batch_fact ::
  "ext \<Rightarrow> batch_manifest list \<Rightarrow> (batch_id \<times> nat \<times> record_id option) option" where
  "first_batch_fact X manifests =
     (case sort_key (manifest_canonical_path X) manifests of
        [] \<Rightarrow> None
      | m # _ \<Rightarrow> Some (bm_batch m, length (bm_members m),
                  (case bm_members m of [] \<Rightarrow> None | ref # _ \<Rightarrow> Some (ref_id ref))))"

lemma decode_identity_member_Inr:
  "decode_identity_member X R s = Inr (p, b, r) \<longleftrightarrow>
   p = sm_path s \<and> b = sm_bytes s \<and> decode_record X (sm_bytes s) R = Inr r \<and>
   record_canonical_path X r = sm_path s"
  by (auto simp: decode_identity_member_def result_simps)

lemma replayed_identity_eq:
  assumes "identity_decoded X R manifests members = Inr decoded"
    and "length (filter is_genesis decoded) = 1 \<longrightarrow> genesis = Some (hd (filter is_genesis decoded))"
  shows "validate_store_identity X manifests members R =
    validate_replayed_identity X (length manifests) (length members) (first_batch_fact X manifests)
      (list_ex foreign_identity decoded) (length (filter is_genesis decoded)) genesis"
proof (cases "manifests = [] \<and> members = []")
  case True
  then show ?thesis by (simp add: validate_store_identity_def validate_replayed_identity_def)
next
  case False
  let ?sorted = "sort_key (manifest_canonical_path X) manifests"
  have v: "validate_store_identity X manifests members R =
      (if list_ex foreign_identity decoded then Inl GenesisInvalidRecord
       else (case filter is_genesis decoded of
        [] \<Rightarrow> Inl MissingGenesis
      | [(path, bs, r)] \<Rightarrow>
          (case ?sorted of
             [] \<Rightarrow> Inl MissingGenesis
           | first # _ \<Rightarrow>
               if r_batch r \<noteq> bm_batch first then Inl GenesisNotFirst
               else if length (bm_members first) \<noteq> 1 \<or> ref_id (hd (bm_members first)) \<noteq> r_id r
               then Inl GenesisNotFirst
               else identity_of_genesis X path bs r)
      | _ \<Rightarrow> Inl DuplicateGenesis))"
    using assms(1) False
    by (auto simp: identity_decoded_def validate_store_identity_def Let_def result_simps split: if_splits)
  consider "filter is_genesis decoded = []" | path bs r where "filter is_genesis decoded = [(path, bs, r)]"
    | g h t where "filter is_genesis decoded = g # h # t"
    by (metis list.exhaust prod_cases3)
  then show ?thesis
  proof cases
    case 2
    show ?thesis
    proof (cases ?sorted)
      case Nil
      then show ?thesis
        using 2 assms(2) False
        by (simp add: v validate_replayed_identity_def first_batch_fact_def)
    next
      case (Cons first rest)
      then show ?thesis
        using 2 assms(2) False
        by (cases "bm_members first") (auto simp: v validate_replayed_identity_def first_batch_fact_def)
    qed
  qed (use False in \<open>auto simp: v validate_replayed_identity_def\<close>)
qed

text \<open>
  C11: the two derivations of a store's identity agree. Whenever the complete derivation gets past
  the validation of manifests and members, it returns exactly what the replay derivation returns
  on the facts replay retains: the counts, the first manifest in path order, whether a foreign
  identity schema occurs, and the genesis member when there is exactly one.
\<close>

theorem replayed_identity_equivalent:
  assumes "identity_decoded X R manifests members = Inr decoded"
    and "length (filter is_genesis decoded) = 1 \<longrightarrow> genesis = Some (hd (filter is_genesis decoded))"
  shows "validate_store_identity X manifests members R =
    validate_replayed_identity X (length manifests) (length members) (first_batch_fact X manifests)
      (list_ex foreign_identity decoded) (length (filter is_genesis decoded)) genesis"
  by (rule replayed_identity_eq[OF assms])

lemma validate_store_identity_Some:
  assumes "validate_store_identity X manifests members R = Inr (Some si)"
  obtains decoded path bs r first ref where
    "identity_decoded X R manifests members = Inr decoded"
    "\<not> list_ex foreign_identity decoded" "filter is_genesis decoded = [(path, bs, r)]"
    "first \<in> set manifests" "\<forall>m\<in>set manifests. manifest_canonical_path X first \<le> manifest_canonical_path X m"
    "r_batch r = bm_batch first" "bm_members first = [ref]" "ref_id ref = r_id r"
    "identity_of_genesis X path bs r = Inr (Some si)"
proof -
  let ?sorted = "sort_key (manifest_canonical_path X) manifests"
  obtain decoded where d: "identity_decoded X R manifests members = Inr decoded"
      "\<not> list_ex foreign_identity decoded"
      "(case filter is_genesis decoded of
        [] \<Rightarrow> Inl MissingGenesis
      | [(path, bs, r)] \<Rightarrow>
          (case ?sorted of
             [] \<Rightarrow> Inl MissingGenesis
           | first # _ \<Rightarrow>
               if r_batch r \<noteq> bm_batch first then Inl GenesisNotFirst
               else if length (bm_members first) \<noteq> 1 \<or> ref_id (hd (bm_members first)) \<noteq> r_id r
               then Inl GenesisNotFirst
               else identity_of_genesis X path bs r)
      | _ \<Rightarrow> Inl DuplicateGenesis) = Inr (Some si)"
    using assms
    by (auto simp: identity_decoded_def validate_store_identity_def Let_def result_simps split: if_splits)
  obtain path bs r where g: "filter is_genesis decoded = [(path, bs, r)]"
    using d(3) by (auto split: list.splits)
  obtain first rest where s: "?sorted = first # rest"
    using d(3) g by (auto split: list.splits)
  have i: "r_batch r = bm_batch first" "length (bm_members first) = 1"
      "ref_id (hd (bm_members first)) = r_id r" "identity_of_genesis X path bs r = Inr (Some si)"
    using d(3) g s by (auto split: if_splits)
  then obtain ref where "bm_members first = [ref]"
    by (auto simp: length_Suc_conv)
  moreover have "set ?sorted = set manifests" "sorted (map (manifest_canonical_path X) ?sorted)"
    by simp_all
  then have "first \<in> set manifests" "\<forall>m\<in>set manifests. manifest_canonical_path X first \<le> manifest_canonical_path X m"
    unfolding s by auto
  ultimately show thesis
    using that d(1,2) g i by auto
qed

text \<open>
  C12: an accepted store has exactly one genesis record. It is the only member of the manifest that
  comes first in path order, its entity is the store UUID of the derived identity, a fork never
  reuses its parent's UUID, and the fingerprint is taken over the genesis file itself.
\<close>

theorem store_identity_sound:
  assumes "validate_store_identity X manifests members R = Inr (Some si)"
  shows "\<exists>s r first ref.
    filter (\<lambda>s. \<exists>r. decode_record X (sm_bytes s) R = Inr r \<and> is_genesis (sm_path s, sm_bytes s, r)) members = [s] \<and>
    decode_record X (sm_bytes s) R = Inr r \<and> record_canonical_path X r = sm_path s \<and>
    first \<in> set manifests \<and>
    (\<forall>m\<in>set manifests. manifest_canonical_path X first \<le> manifest_canonical_path X m) \<and>
    bm_members first = [ref] \<and> ref_id ref = r_id r \<and> r_batch r = bm_batch first \<and>
    si_genesis si = r_id r \<and>
    si_logical si = \<lparr>ls_uuid = r_entity r, ls_fingerprint = genesis_fingerprint X (sm_path s) (sm_bytes s)\<rparr> \<and>
    (case si_forked_from si of None \<Rightarrow> True | Some f \<Rightarrow> ls_uuid (fp_parent f) \<noteq> ls_uuid (si_logical si))"
proof (rule validate_store_identity_Some[OF assms])
  fix decoded path bs r first ref
  assume a: "identity_decoded X R manifests members = Inr decoded"
    "filter is_genesis decoded = [(path, bs, r)]"
    "first \<in> set manifests" "\<forall>m\<in>set manifests. manifest_canonical_path X first \<le> manifest_canonical_path X m"
    "r_batch r = bm_batch first" "bm_members first = [ref]" "ref_id ref = r_id r"
    "identity_of_genesis X path bs r = Inr (Some si)"
  have t: "try_map (decode_identity_member X R) members = Inr decoded"
    using a(1) by (auto simp: identity_decoded_def Let_def result_simps)
  have "\<exists>ss. filter (\<lambda>s. \<exists>r. decode_record X (sm_bytes s) R = Inr r \<and> is_genesis (sm_path s, sm_bytes s, r)) ms = ss \<and>
      list_all2 (\<lambda>s d. decode_identity_member X R s = Inr d) ss (filter is_genesis ds)"
    if "try_map (decode_identity_member X R) ms = Inr ds" for ms ds
    using that unfolding try_map_Inr_iff
    by (induction rule: list_all2_induct) (auto simp: decode_identity_member_Inr)
  from this[OF t] obtain s where s: "decode_identity_member X R s = Inr (path, bs, r)"
      "filter (\<lambda>s. \<exists>r. decode_record X (sm_bytes s) R = Inr r \<and> is_genesis (sm_path s, sm_bytes s, r)) members = [s]"
    unfolding a(2) by (auto simp: list_all2_Cons2)
  have "si_genesis si = r_id r"
    "si_logical si = \<lparr>ls_uuid = r_entity r, ls_fingerprint = genesis_fingerprint X path bs\<rparr>"
    "case si_forked_from si of None \<Rightarrow> True | Some f \<Rightarrow> ls_uuid (fp_parent f) \<noteq> ls_uuid (si_logical si)"
    using a(8) by (auto simp: identity_of_genesis_Inr fork_reuses_def split: option.splits)
  then show ?thesis
    using s a(3-7) by (intro exI[of _ s] exI[of _ r] exI[of _ first] exI[of _ ref])
      (simp add: decode_identity_member_Inr)
qed

text \<open>
  A logical identity binds the genesis file. Two accepted stores that classify as replicas of
  one another have byte-identical genesis members at the same path, or the two framed genesis
  files are a BLAKE3 collision.
\<close>

theorem replica_shares_genesis:
  assumes "validate_store_identity X ms mem R = Inr (Some si)"
    and "validate_store_identity X ms' mem' R' = Inr (Some si')"
    and "classify_logical_identity (si_logical si) (si_logical si') = Replica"
    and "\<forall>s\<in>set mem \<union> set mem'. framable (sm_path s, sm_bytes s)"
  shows "\<exists>s\<in>set mem. \<exists>s'\<in>set mem'. ls_fingerprint (si_logical si) = genesis_fingerprint X (sm_path s) (sm_bytes s) \<and>
    (sm_path s = sm_path s' \<and> sm_bytes s = sm_bytes s' \<or>
     blake3_collision X (frame_entries GENESIS_FINGERPRINT_DOMAIN [(sm_path s, sm_bytes s)])
       (frame_entries GENESIS_FINGERPRINT_DOMAIN [(sm_path s', sm_bytes s')]))"
proof -
  have one: "\<exists>s\<in>set mem. ls_fingerprint (si_logical si) =
      framed_hash X GENESIS_FINGERPRINT_DOMAIN [(sm_path s, sm_bytes s)]"
    if v: "validate_store_identity X ms mem R = Inr (Some si)" for ms mem R si
  proof (rule validate_store_identity_Some[OF v])
    fix decoded path bs r first ref
    assume a: "identity_decoded X R ms mem = Inr decoded" "filter is_genesis decoded = [(path, bs, r)]"
      "identity_of_genesis X path bs r = Inr (Some si)"
    have t: "list_all2 (\<lambda>s d. decode_identity_member X R s = Inr d) mem decoded"
      using a(1) by (auto simp: identity_decoded_def Let_def result_simps try_map_Inr_iff)
    have "(path, bs, r) \<in> set decoded"
      using a(2) by (metis filter_is_subset list.set_intros(1) subsetD)
    then obtain i where "i < length decoded" "decoded ! i = (path, bs, r)"
      by (auto simp: in_set_conv_nth)
    then have "mem ! i \<in> set mem" "decode_identity_member X R (mem ! i) = Inr (path, bs, r)"
      using t by (auto simp: list_all2_conv_all_nth)
    then show ?thesis
      using a(3) by (auto simp: decode_identity_member_Inr identity_of_genesis_Inr genesis_fingerprint_def
          framed_hash_def)
  qed
  obtain s s' where s: "s \<in> set mem" "s' \<in> set mem'"
      "ls_fingerprint (si_logical si) = framed_hash X GENESIS_FINGERPRINT_DOMAIN [(sm_path s, sm_bytes s)]"
      "ls_fingerprint (si_logical si') = framed_hash X GENESIS_FINGERPRINT_DOMAIN [(sm_path s', sm_bytes s')]"
    using one[OF assms(1)] one[OF assms(2)] by auto
  have "si_logical si = si_logical si'"
    using assms(3) by (auto simp: classify_logical_identity_def split: if_splits)
  then show ?thesis
    using s assms(4) framed_hash_eq_cases[of X GENESIS_FINGERPRINT_DOMAIN "[(sm_path s, sm_bytes s)]"
        "[(sm_path s', sm_bytes s')]"]
    by (intro bexI[of _ s] bexI[of _ s']) (auto simp: genesis_fingerprint_def framed_hash_def)
qed

end
