(* ===== verification/Wj_Causal.thy ===== *)
theory Wj_Causal
  imports Wj_Record
begin

text \<open>
  \<open>causal.rs\<close>: the deterministic topological view over a complete causal ancestry and the
  budgeted reachability query on it. A node type is given by the two operations of the
  \<open>CausalNode\<close> trait. The lemmas show that construction succeeds exactly on bounded, closed,
  duplicate-free, acyclic inputs, that the order is a permutation of the input in which parents
  come first and does not depend on the input order, that the degree counters never underflow,
  and that the query decides ancestry within its budget.
\<close>

record 't causal_node =
  node_id :: "'t \<Rightarrow> record_id"
  node_parents :: "'t \<Rightarrow> record_id list"

datatype causal_error =
    TooManyOperations nat nat
  | TooManyEdges nat nat
  | CausalInvalidParents record_id
  | CausalDuplicateRecordId record_id
  | DanglingParent record_id record_id
  | ReachabilityBudget nat
  | CausalCycle
  | CausalPanic

definition MAX_CAUSAL_OPERATIONS :: nat where "MAX_CAUSAL_OPERATIONS = 4096"
definition MAX_CAUSAL_EDGES :: nat where "MAX_CAUSAL_EDGES = 65536"
definition MAX_REACHABILITY_STEPS :: nat where "MAX_REACHABILITY_STEPS = 1000000"
definition USIZE_MAX :: nat where "USIZE_MAX = 2 ^ 64 - 1"

record 't causal_graph =
  cg_ordered :: "'t list"
  cg_by_id :: "(record_id, 't) btree"

section \<open>Construction\<close>

definition checked_add_usize :: "nat \<Rightarrow> nat \<Rightarrow> nat option" where
  "checked_add_usize a b = (if a + b \<le> USIZE_MAX then Some (a + b) else None)"

fun count_edges :: "'t causal_node \<Rightarrow> nat \<Rightarrow> 't list \<Rightarrow> nat option" where
  "count_edges N acc [] = Some acc"
| "count_edges N acc (n # ns) =
     (case checked_add_usize acc (length (node_parents N n)) of
        None \<Rightarrow> None
      | Some acc' \<Rightarrow> count_edges N acc' ns)"

fun collect_nodes ::
  "'t causal_node \<Rightarrow> (record_id, 't) btree \<Rightarrow> 't list \<Rightarrow> causal_error + (record_id, 't) btree" where
  "collect_nodes N by_id [] = Inr by_id"
| "collect_nodes N by_id (n # ns) =
     (if \<not> strictly_ordered (node_parents N n) then Inl (CausalInvalidParents (node_id N n))
      else if bt_get by_id (node_id N n) \<noteq> None then Inl (CausalDuplicateRecordId (node_id N n))
      else collect_nodes N (bt_insert (node_id N n) n by_id) ns)"

definition node_edges :: "'t causal_node \<Rightarrow> 't list \<Rightarrow> (record_id \<times> record_id) list" where
  "node_edges N ns = concat (map (\<lambda>n. map (\<lambda>p. (node_id N n, p)) (node_parents N n)) ns)"

definition check_dangling ::
  "'t causal_node \<Rightarrow> (record_id, 't) btree \<Rightarrow> 't list \<Rightarrow> causal_error + unit" where
  "check_dangling N by_id ns =
     (case find (\<lambda>(_, p). bt_get by_id p = None) (node_edges N ns) of
        None \<Rightarrow> Inr ()
      | Some (i, p) \<Rightarrow> Inl (DanglingParent i p))"

definition initial_indegree :: "'t causal_node \<Rightarrow> (record_id, 't) btree \<Rightarrow> (record_id, nat) btree" where
  "initial_indegree N by_id = map (\<lambda>(i, n). (i, length (node_parents N n))) by_id"

definition push_child ::
  "record_id \<times> record_id \<Rightarrow> (record_id, record_id list) btree \<Rightarrow> (record_id, record_id list) btree" where
  "push_child e cs = (case e of (child, parent) \<Rightarrow>
     bt_insert parent ((case bt_get cs parent of None \<Rightarrow> [] | Some vs \<Rightarrow> vs) @ [child]) cs)"

definition children_map :: "'t causal_node \<Rightarrow> 't list \<Rightarrow> (record_id, record_id list) btree" where
  "children_map N ns = map (\<lambda>(p, vs). (p, sort vs)) (fold push_child (node_edges N ns) [])"

definition initial_ready :: "(record_id, nat) btree \<Rightarrow> record_id list" where
  "initial_ready d = map fst (filter (\<lambda>(_, degree). degree = 0) d)"

text \<open>\<open>get_mut\<close> followed by an assignment: the value of an existing key is replaced.\<close>

fun bt_set :: "'k \<Rightarrow> 'v \<Rightarrow> ('k \<times> 'v) list \<Rightarrow> ('k \<times> 'v) list" where
  "bt_set k v [] = []"
| "bt_set k v ((a, b) # m) = (if k = a then (a, v) # m else (a, b) # bt_set k v m)"

text \<open>The loop over the children of a popped node; \<open>None\<close> is the underflow of a counter.\<close>

fun relax ::
  "(record_id, nat) btree \<Rightarrow> record_id list \<Rightarrow> record_id list \<Rightarrow> ((record_id, nat) btree \<times> record_id list) option" where
  "relax d ready [] = Some (d, ready)"
| "relax d ready (c # cs) =
     (case bt_get d c of
        None \<Rightarrow> relax d ready cs
      | Some 0 \<Rightarrow> None
      | Some (Suc k) \<Rightarrow> relax (bt_set c k d) (if k = 0 then bs_insert c ready else ready) cs)"

definition children_of :: "(record_id, record_id list) btree \<Rightarrow> record_id \<Rightarrow> record_id list" where
  "children_of cs i = (case bt_get cs i of None \<Rightarrow> [] | Some vs \<Rightarrow> vs)"

definition degree_sum :: "(record_id, nat) btree \<Rightarrow> nat" where
  "degree_sum d = sum_list (map snd d)"

lemma degree_sum_set: "bt_get d c = Some (Suc k) \<Longrightarrow> Suc (degree_sum (bt_set c k d)) = degree_sum d"
  by (induction d) (auto simp: degree_sum_def split: if_splits)

lemma length_bs_insert: "length (bs_insert x xs) \<le> Suc (length xs)"
  by (induction xs) auto

lemma relax_measure:
  "relax d ready cs = Some (d', ready') \<Longrightarrow>
   degree_sum d' + length ready' \<le> degree_sum d + length ready"
proof (induction d ready cs rule: relax.induct)
  case (2 d ready c cs)
  show ?case
  proof (cases "bt_get d c")
    case (Some n)
    then obtain k where k: "n = Suc k"
      using 2 by (cases n) auto
    have "degree_sum d' + length ready' \<le>
        degree_sum (bt_set c k d) + length (if k = 0 then bs_insert c ready else ready)"
      using 2 Some k by simp
    also have "\<dots> \<le> degree_sum (bt_set c k d) + Suc (length ready)"
      using length_bs_insert[of c ready] by simp
    finally show ?thesis
      using degree_sum_set Some k by fastforce
  qed (use 2 in simp)
qed simp

function topo_loop ::
  "(record_id, 't) btree \<Rightarrow> (record_id, record_id list) btree \<Rightarrow> (record_id, nat) btree \<Rightarrow>
   record_id list \<Rightarrow> 't list \<Rightarrow> 't list option" where
  "topo_loop by_id cs d [] ordered = Some ordered"
| "topo_loop by_id cs d (i # ready) ordered =
     (case bt_get by_id i of
        None \<Rightarrow> None
      | Some n \<Rightarrow>
          (case relax d ready (children_of cs i) of
             None \<Rightarrow> None
           | Some (d', ready') \<Rightarrow> topo_loop by_id cs d' ready' (ordered @ [n])))"
  by pat_completeness auto
termination
  by (relation "measure (\<lambda>(by_id, cs, d, ready, ordered). degree_sum d + length ready)")
    (auto dest: relax_measure)

definition causal_graph_new :: "'t causal_node \<Rightarrow> 't list \<Rightarrow> causal_error + 't causal_graph" where
  "causal_graph_new N ns =
     (if MAX_CAUSAL_OPERATIONS < length ns
      then Inl (TooManyOperations MAX_CAUSAL_OPERATIONS (length ns))
      else let edges = count_edges N 0 ns in
      if (case edges of None \<Rightarrow> True | Some e \<Rightarrow> MAX_CAUSAL_EDGES < e)
      then Inl (TooManyEdges MAX_CAUSAL_EDGES (case edges of None \<Rightarrow> USIZE_MAX | Some e \<Rightarrow> e))
      else rbind (collect_nodes N [] ns) (\<lambda>by_id.
           rbind (check_dangling N by_id ns) (\<lambda>_.
           let indegree = initial_indegree N by_id in
           case topo_loop by_id (children_map N ns) indegree (initial_ready indegree) [] of
             None \<Rightarrow> Inl CausalPanic
           | Some ordered \<Rightarrow>
               if length ordered \<noteq> length ns then Inl CausalCycle
               else Inr \<lparr>cg_ordered = ordered, cg_by_id = by_id\<rparr>)))"

section \<open>Reachability\<close>

text \<open>
  \<open>pending\<close> is the work stack, its head the element \<open>Vec::pop\<close> returns. The result is the
  answer with the remaining budget and the exceeded flag.
\<close>

fun observes_loop ::
  "'t causal_node \<Rightarrow> (record_id, 't) btree \<Rightarrow> record_id \<Rightarrow> record_id list \<Rightarrow> record_id list \<Rightarrow>
   nat \<Rightarrow> bool \<Rightarrow> bool \<times> nat \<times> bool" where
  "observes_loop N by_id candidate [] visited budget exceeded = (False, budget, exceeded)"
| "observes_loop N by_id candidate (current # pending) visited 0 exceeded = (False, 0, True)"
| "observes_loop N by_id candidate (current # pending) visited (Suc budget) exceeded =
     (if current = candidate then (True, budget, exceeded)
      else if current \<in> set visited
      then observes_loop N by_id candidate pending visited budget exceeded
      else (case bt_get by_id current of
              None \<Rightarrow> observes_loop N by_id candidate pending (bs_insert current visited) budget exceeded
            | Some n \<Rightarrow>
                observes_loop N by_id candidate (rev (node_parents N n) @ pending)
                  (bs_insert current visited) budget exceeded))"

definition observes_bounded ::
  "'t causal_node \<Rightarrow> 't causal_graph \<Rightarrow> record_id \<Rightarrow> record_id \<Rightarrow> nat \<Rightarrow> bool \<Rightarrow> bool \<times> nat \<times> bool" where
  "observes_bounded N g observer candidate budget exceeded =
     observes_loop N (cg_by_id g) candidate
       (case bt_get (cg_by_id g) observer of None \<Rightarrow> [] | Some n \<Rightarrow> rev (node_parents N n))
       [] budget exceeded"

definition observes :: "'t causal_node \<Rightarrow> 't causal_graph \<Rightarrow> record_id \<Rightarrow> record_id \<Rightarrow> bool" where
  "observes N g observer candidate =
     fst (observes_bounded N g observer candidate MAX_REACHABILITY_STEPS False)"


section \<open>Counters\<close>

lemma map_fst_bt_set [simp]: "map fst (bt_set k v m) = map fst m"
  by (induction m) auto

lemma bt_wf_bt_set [simp]: "bt_wf (bt_set k v m) = bt_wf m"
  by (simp add: bt_wf_def)

lemma bt_get_bt_set: "bt_get (bt_set k v m) j = (if j = k \<and> bt_get m k \<noteq> None then Some v else bt_get m j)"
  by (induction m) (auto split: if_splits)

text \<open>
  What one pass over distinct children does: every listed counter drops by one, and a child is
  made ready when its counter reaches zero.
\<close>

definition drop_degree :: "record_id set \<Rightarrow> (record_id, nat) btree \<Rightarrow> (record_id, nat) btree \<Rightarrow> bool" where
  "drop_degree C d d' \<longleftrightarrow>
     map fst d' = map fst d \<and>
     (\<forall>j. bt_get d' j = (if j \<in> C then map_option (\<lambda>k. k - 1) (bt_get d j) else bt_get d j))"

lemma relax_spec:
  assumes "distinct cs"
    and "\<And>c k. c \<in> set cs \<Longrightarrow> bt_get d c = Some k \<Longrightarrow> 0 < k"
    and "strictly_ordered ready"
  obtains d' ready' where
    "relax d ready cs = Some (d', ready')"
    "drop_degree (set cs) d d'"
    "strictly_ordered ready'"
    "set ready' = set ready \<union> {c \<in> set cs. bt_get d c = Some 1}"
proof -
  have "\<exists>d' ready'. relax d ready cs = Some (d', ready') \<and> drop_degree (set cs) d d' \<and>
      strictly_ordered ready' \<and> set ready' = set ready \<union> {c \<in> set cs. bt_get d c = Some 1}"
    using assms
  proof (induction d ready cs rule: relax.induct)
    case (1 d ready)
    then show ?case by (simp add: drop_degree_def)
  next
    case (2 d ready c cs)
    show ?case
    proof (cases "bt_get d c")
      case None
      have "\<exists>d' ready'. relax d ready cs = Some (d', ready') \<and> drop_degree (set cs) d d' \<and>
          strictly_ordered ready' \<and> set ready' = set ready \<union> {c \<in> set cs. bt_get d c = Some 1}"
      proof (rule 2(1)[OF None])
        show "distinct cs" "strictly_ordered ready" using 2 by simp_all
        show "0 < k" if "c' \<in> set cs" "bt_get d c' = Some k" for c' k
          using 2(4)[of c' k] that by simp
      qed
      with None show ?thesis
        by (auto simp: drop_degree_def)
    next
      case (Some n)
      obtain k where k: "n = Suc k"
        using 2(4)[of c n] Some by (cases n) auto
      let ?d = "bt_set c k d" and ?r = "if k = 0 then bs_insert c ready else ready"
      have "\<exists>d' ready'. relax ?d ?r cs = Some (d', ready') \<and> drop_degree (set cs) ?d d' \<and>
          strictly_ordered ready' \<and> set ready' = set ?r \<union> {c \<in> set cs. bt_get ?d c = Some 1}"
      proof (rule 2(2)[OF Some k])
        show "distinct cs" using 2 by simp
        show "0 < m" if "c' \<in> set cs" "bt_get ?d c' = Some m" for c' m
          using that 2(3) 2(4)[of c' m] by (auto simp: bt_get_bt_set split: if_splits)
        show "strictly_ordered ?r" using 2(5) by (simp add: ordered_bs_insert strictly_ordered_iff)
      qed
      then obtain d' ready' where *: "relax ?d ?r cs = Some (d', ready')" "drop_degree (set cs) ?d d'"
          "strictly_ordered ready'" "set ready' = set ?r \<union> {c \<in> set cs. bt_get ?d c = Some 1}"
        by blast
      have nc: "c \<notin> set cs" using 2(3) by simp
      have "drop_degree (set (c # cs)) d d'"
        using *(2) Some k nc by (auto simp: drop_degree_def bt_get_bt_set)
      moreover have "set ready' = set ready \<union> {c' \<in> set (c # cs). bt_get d c' = Some 1}"
      proof -
        have "{c' \<in> set cs. bt_get ?d c' = Some 1} = {c' \<in> set cs. bt_get d c' = Some 1}"
          using nc by (auto simp: bt_get_bt_set split: if_splits)
        moreover have "set ?r = set ready \<union> {c'. c' = c \<and> bt_get d c' = Some 1}"
          using Some k by auto
        ultimately show ?thesis unfolding *(4) by auto
      qed
      moreover have "relax d ready (c # cs) = Some (d', ready')"
        using *(1) Some k by simp
      ultimately show ?thesis
        using *(3) by blast
    qed
  qed
  then show thesis using that by blast
qed

section \<open>The graph\<close>

text \<open>The edges of the graph, from a record to its parents.\<close>

definition parent_rel :: "'t causal_node \<Rightarrow> 't list \<Rightarrow> (record_id \<times> record_id) set" where
  "parent_rel N ns = {(node_id N n, p) | n p. n \<in> set ns \<and> p \<in> set (node_parents N n)}"

lemma set_node_edges: "set (node_edges N ns) = parent_rel N ns"
  by (auto simp: node_edges_def parent_rel_def)

lemma finite_parent_rel: "finite (parent_rel N ns)"
  by (metis List.finite_set set_node_edges)

lemma fold_insert_nodes:
  "distinct (map (node_id N) ns) \<Longrightarrow>
   bt_get (fold (\<lambda>n. bt_insert (node_id N n) n) ns m) i =
     (case find (\<lambda>n. node_id N n = i) ns of Some n \<Rightarrow> Some n | None \<Rightarrow> bt_get m i)"
proof (induction ns arbitrary: m)
  case (Cons n ns)
  have "find (\<lambda>x. node_id N x = node_id N n) ns = None"
    using Cons.prems by (simp add: find_None_iff) (metis imageI)
  with Cons show ?case
    by (auto simp: bt_get_insert split: option.splits)
qed simp

lemma collect_nodes_Inr_iff:
  "collect_nodes N m ns = Inr by_id \<longleftrightarrow>
   (\<forall>n\<in>set ns. strictly_ordered (node_parents N n)) \<and> distinct (map (node_id N) ns) \<and>
   (\<forall>n\<in>set ns. bt_get m (node_id N n) = None) \<and>
   by_id = fold (\<lambda>n. bt_insert (node_id N n) n) ns m"
proof (induction ns arbitrary: m)
  case (Cons n ns)
  have "(\<forall>x\<in>set ns. bt_get (bt_insert (node_id N n) n m) (node_id N x) = None) \<longleftrightarrow>
      (\<forall>x\<in>set ns. node_id N x \<noteq> node_id N n \<and> bt_get m (node_id N x) = None)"
    by (auto simp: bt_get_insert dest: imageI)
  moreover have "collect_nodes N m (n # ns) = Inr by_id \<longleftrightarrow>
      strictly_ordered (node_parents N n) \<and> bt_get m (node_id N n) = None \<and>
      collect_nodes N (bt_insert (node_id N n) n m) ns = Inr by_id"
    by auto
  ultimately show ?case
    unfolding Cons.IH[of "bt_insert (node_id N n) n m"]
    by (simp only: list.set ball_simps distinct.simps list.map set_map image_iff fold_simps ball_conj_distrib
        bex_simps not_False_eq_True) (auto dest: sym)
qed auto

lemma bt_wf_collect: "bt_wf m \<Longrightarrow> bt_wf (fold (\<lambda>n. bt_insert (node_id N n) n) ns m)"
  by (induction ns arbitrary: m) (auto simp: bt_wf_insert)

text \<open>The index of an accepted node list: a lookup finds exactly the listed nodes.\<close>

definition indexes :: "'t causal_node \<Rightarrow> 't list \<Rightarrow> (record_id, 't) btree \<Rightarrow> bool" where
  "indexes N ns by_id \<longleftrightarrow>
     bt_wf by_id \<and> (\<forall>i n. bt_get by_id i = Some n \<longleftrightarrow> n \<in> set ns \<and> node_id N n = i)"

lemma indexes_key: "indexes N ns by_id \<Longrightarrow> bt_get by_id p \<noteq> None \<longleftrightarrow> p \<in> node_id N ` set ns"
  by (auto simp: indexes_def image_iff)

lemma indexes_unique:
  assumes "indexes N ns a" "indexes N ns b"
  shows "a = b"
proof (rule bt_extensional)
  show "bt_get a = bt_get b"
    using assms unfolding indexes_def by (metis (no_types) ext not_None_eq)
qed (use assms in \<open>simp_all add: indexes_def\<close>)

lemma distinct_ids_inj: "distinct (map (node_id N) ns) \<Longrightarrow> inj_on (node_id N) (set ns)"
  by (simp add: distinct_map)

lemma collect_nodes_indexes:
  assumes "collect_nodes N [] ns = Inr by_id"
  shows "indexes N ns by_id"
proof -
  have d: "distinct (map (node_id N) ns)"
    and b: "by_id = fold (\<lambda>n. bt_insert (node_id N n) n) ns []"
    using assms by (auto simp: collect_nodes_Inr_iff)
  have "bt_get by_id i = Some n \<longleftrightarrow> n \<in> set ns \<and> node_id N n = i" for i n
  proof (cases "find (\<lambda>n. node_id N n = i) ns")
    case None
    then show ?thesis using fold_insert_nodes[OF d, of "[]" i] None
      by (simp add: b) (auto simp: find_None_iff)
  next
    case (Some x)
    then have "x \<in> set ns" "node_id N x = i"
      by (auto simp: find_Some_iff)
    then show ?thesis
      using fold_insert_nodes[OF d, of "[]" i] distinct_ids_inj[OF d] Some
      by (auto simp: b inj_on_def)
  qed
  then show ?thesis by (simp add: indexes_def b bt_wf_collect)
qed

lemma check_dangling_Inr_iff:
  "check_dangling N by_id ns = Inr () \<longleftrightarrow>
   (\<forall>n\<in>set ns. \<forall>p\<in>set (node_parents N n). bt_get by_id p \<noteq> None)"
proof -
  have "(\<forall>n\<in>set ns. \<forall>p\<in>set (node_parents N n). bt_get by_id p \<noteq> None) \<longleftrightarrow>
      (\<forall>e\<in>set (node_edges N ns). bt_get by_id (snd e) \<noteq> None)"
    by (auto simp: node_edges_def)
  moreover have "check_dangling N by_id ns = Inr () \<longleftrightarrow>
      find (\<lambda>(_, p). bt_get by_id p = None) (node_edges N ns) = None"
    by (auto simp: check_dangling_def split: option.splits)
  ultimately show ?thesis
    by (auto simp: find_None_iff)
qed

lemma node_edges_distinct:
  assumes "distinct (map (node_id N) ns)" "\<forall>n\<in>set ns. strictly_ordered (node_parents N n)"
  shows "distinct (node_edges N ns)"
  using assms
proof (induction ns)
  case (Cons n ns)
  have "distinct (map (\<lambda>p. (node_id N n, p)) (node_parents N n))"
    using Cons.prems by (auto simp: distinct_map inj_on_def strictly_ordered_iff strict_sorted_iff)
  moreover have "set (map (\<lambda>p. (node_id N n, p)) (node_parents N n)) \<inter> set (node_edges N ns) = {}"
    using Cons.prems by (auto simp: node_edges_def dest: imageI)
  ultimately show ?case
    using Cons by (simp add: node_edges_def)
qed (simp add: node_edges_def)

lemma children_fold:
  "children_of (fold push_child es cs) p = children_of cs p @ map fst (filter (\<lambda>e. snd e = p) es)"
  by (induction es arbitrary: cs)
    (auto simp: push_child_def children_of_def bt_get_insert split: option.splits prod.splits)

lemma bt_get_map_values: "bt_get (map (\<lambda>(k, v). (k, f v)) m) k = map_option f (bt_get m k)"
  by (induction m) auto

lemma children_of_map:
  "children_of (children_map N ns) p = sort (map fst (filter (\<lambda>e. snd e = p) (node_edges N ns)))"
proof -
  have "children_of (children_map N ns) p = sort (children_of (fold push_child (node_edges N ns) []) p)"
    by (auto simp: children_of_def children_map_def bt_get_map_values split: option.splits)
  then show ?thesis by (simp add: children_fold) (simp add: children_of_def)
qed

lemma children_of_spec:
  assumes "distinct (map (node_id N) ns)" "\<forall>n\<in>set ns. strictly_ordered (node_parents N n)"
  shows "distinct (children_of (children_map N ns) p)"
    and "set (children_of (children_map N ns) p) = {node_id N n | n. n \<in> set ns \<and> p \<in> set (node_parents N n)}"
proof -
  have "distinct (filter (\<lambda>e. snd e = p) (node_edges N ns))"
    using node_edges_distinct[OF assms] by simp
  moreover have "inj_on fst (set (filter (\<lambda>e. snd e = p) (node_edges N ns)))"
    by (auto simp: inj_on_def)
  ultimately show "distinct (children_of (children_map N ns) p)"
    by (simp add: children_of_map distinct_map)
  show "set (children_of (children_map N ns) p) = {node_id N n | n. n \<in> set ns \<and> p \<in> set (node_parents N n)}"
    by (auto simp: children_of_map node_edges_def image_iff)
qed

section \<open>The canonical order\<close>

text \<open>
  The identities that may come next once the identities in \<open>D\<close> are placed, and the order that
  always places the smallest of them. It mentions the node list only as a set.
\<close>

definition ready_set :: "'t causal_node \<Rightarrow> 't list \<Rightarrow> record_id set \<Rightarrow> record_id set" where
  "ready_set N ns D =
     {i. \<exists>n\<in>set ns. node_id N n = i \<and> i \<notin> D \<and> set (node_parents N n) \<subseteq> D}"

fun canonical_from :: "'t causal_node \<Rightarrow> 't list \<Rightarrow> record_id set \<Rightarrow> 't list \<Rightarrow> bool" where
  "canonical_from N ns D [] \<longleftrightarrow> True"
| "canonical_from N ns D (n # xs) \<longleftrightarrow>
     n \<in> set ns \<and> node_id N n \<in> ready_set N ns D \<and>
     (\<forall>i\<in>ready_set N ns D. node_id N n \<le> i) \<and>
     canonical_from N ns (insert (node_id N n) D) xs"

lemma canonical_unique:
  assumes "set ns = set ns'" "inj_on (node_id N) (set ns)"
    and "canonical_from N ns D xs" "canonical_from N ns' D ys" "length xs = length ys"
  shows "xs = ys"
  using assms(3-)
proof (induction xs arbitrary: D ys)
  case (Cons x xs)
  then obtain y ys' where y: "ys = y # ys'" by (cases ys) auto
  have "ready_set N ns D = ready_set N ns' D"
    using assms(1) by (simp add: ready_set_def)
  then have "node_id N x = node_id N y"
    using Cons.prems y by (auto intro: antisym)
  then have "x = y"
    using Cons.prems y assms(1,2) by (auto simp: inj_on_def)
  then show ?case using Cons y by auto
qed simp

lemma canonical_distinct:
  "canonical_from N ns D xs \<Longrightarrow>
   distinct (map (node_id N) xs) \<and> set xs \<subseteq> set ns \<and> node_id N ` set xs \<inter> D = {}"
  by (induction N ns D xs rule: canonical_from.induct) (auto simp: ready_set_def)

text \<open>In a canonical order every parent precedes its child.\<close>

lemma canonical_parents_first:
  assumes "inj_on (node_id N) (set ns)" "canonical_from N ns D xs" "k < length xs"
  shows "set (node_parents N (xs ! k)) \<subseteq> D \<union> node_id N ` set (take k xs)"
  using assms(2-)
proof (induction xs arbitrary: D k)
  case (Cons x xs)
  have x: "set (node_parents N x) \<subseteq> D"
    using Cons.prems(1) assms(1) by (auto simp: ready_set_def inj_on_def)
  show ?case
  proof (cases k)
    case (Suc j)
    then show ?thesis
      using Cons.IH[of "insert (node_id N x) D" j] Cons.prems by auto
  qed (use x in simp)
qed simp

section \<open>The loop\<close>

definition topo_inv ::
  "'t causal_node \<Rightarrow> 't list \<Rightarrow> record_id set \<Rightarrow> (record_id, nat) btree \<Rightarrow> record_id list \<Rightarrow> bool" where
  "topo_inv N ns D d ready \<longleftrightarrow>
     (\<forall>n\<in>set ns. bt_get d (node_id N n) = Some (card (set (node_parents N n) - D))) \<and>
     (\<forall>n\<in>set ns. node_id N n \<in> D \<longrightarrow> set (node_parents N n) \<subseteq> D) \<and>
     strictly_ordered ready \<and> set ready = ready_set N ns D"

lemma card_Diff_insert_parent:
  assumes "finite P" "i \<notin> D"
  shows "card (P - insert i D) = (if i \<in> P then card (P - D) - 1 else card (P - D))"
proof -
  have "P - insert i D = (P - D) - {i}" by auto
  then show ?thesis using assms by (auto simp: card_Diff_singleton_if)
qed

lemma ready_set_insert:
  assumes "i \<in> ready_set N ns D"
  shows "ready_set N ns (insert i D) = (ready_set N ns D - {i}) \<union>
    {c. \<exists>n\<in>set ns. node_id N n = c \<and> c \<notin> insert i D \<and> set (node_parents N n) - D = {i}}"
proof -
  have "P \<subseteq> insert i D \<longleftrightarrow> P \<subseteq> D \<or> P - D = {i}" for P
    using assms by (auto simp: ready_set_def)
  then show ?thesis
    using assms by (auto simp: ready_set_def)
qed

lemma topo_step:
  assumes idx: "distinct (map (node_id N) ns)" "\<forall>n\<in>set ns. strictly_ordered (node_parents N n)"
    and inv: "topo_inv N ns D d (i # ready)"
  obtains d' ready' where
    "relax d ready (children_of (children_map N ns) i) = Some (d', ready')"
    "topo_inv N ns (insert i D) d' ready'"
proof -
  let ?C = "children_of (children_map N ns) i"
  note C = children_of_spec[OF idx, of i]
  have i: "i \<in> ready_set N ns D" and iD: "i \<notin> D"
    using inv by (auto simp: topo_inv_def ready_set_def)
  have deg: "\<And>n. n \<in> set ns \<Longrightarrow> bt_get d (node_id N n) = Some (card (set (node_parents N n) - D))"
    using inv by (simp add: topo_inv_def)
  have pos: "0 < k" if c: "c \<in> set ?C" "bt_get d c = Some k" for c k
  proof -
    obtain n where n: "n \<in> set ns" "c = node_id N n" "i \<in> set (node_parents N n)"
      using c(1) C(2) by auto
    then show ?thesis using deg[OF n(1)] c(2) iD by (auto simp: card_gt_0_iff)
  qed
  have srt: "strictly_ordered ready"
    using inv by (simp add: topo_inv_def strictly_ordered_iff)
  obtain d' ready' where r: "relax d ready ?C = Some (d', ready')" "drop_degree (set ?C) d d'"
      "strictly_ordered ready'" "set ready' = set ready \<union> {c \<in> set ?C. bt_get d c = Some 1}"
    by (rule relax_spec[OF C(1) _ srt, of d]) (use pos in auto)
  have mem: "node_id N n \<in> set ?C \<longleftrightarrow> i \<in> set (node_parents N n)" if "n \<in> set ns" for n
    using that C(2) distinct_ids_inj[OF idx(1)] by (auto simp: inj_on_def)
  have "bt_get d' (node_id N n) = Some (card (set (node_parents N n) - insert i D))" if "n \<in> set ns" for n
    using r(2) deg[OF that] mem[OF that] iD by (simp add: drop_degree_def card_Diff_insert_parent)
  moreover have "set ready' = ready_set N ns (insert i D)"
  proof -
    have "set ready = ready_set N ns D - {i}"
      using inv by (auto simp: topo_inv_def strictly_ordered_iff)
    moreover have "{c \<in> set ?C. bt_get d c = Some 1} =
        {c. \<exists>n\<in>set ns. node_id N n = c \<and> c \<notin> insert i D \<and> set (node_parents N n) - D = {i}}"
    proof -
      have one: "i \<in> P \<and> card (P - D) = 1 \<longleftrightarrow> P - D = {i}" for P
      proof
        assume "i \<in> P \<and> card (P - D) = 1"
        then obtain x where "P - D = {x}" by (auto simp: card_1_singleton_iff)
        with \<open>i \<in> P \<and> card (P - D) = 1\<close> iD show "P - D = {i}" by (metis Diff_iff singletonD)
      qed auto
      have fresh: "node_id N n \<notin> insert i D" if n: "n \<in> set ns" "set (node_parents N n) - D = {i}" for n
      proof -
        have "node_id N n \<noteq> i"
          using i n distinct_ids_inj[OF idx(1)] by (auto simp: ready_set_def inj_on_def)
        then show ?thesis
          using inv n by (auto simp: topo_inv_def)
      qed
      have "node_id N n \<in> set ?C \<and> bt_get d (node_id N n) = Some 1 \<longleftrightarrow>
          set (node_parents N n) - D = {i}" if "n \<in> set ns" for n
        using mem[OF that] deg[OF that] one by simp
      moreover have "set ?C \<subseteq> node_id N ` set ns"
        using C(2) by auto
      ultimately show ?thesis
        using fresh by (intro set_eqI) (blast dest: subsetD)
    qed
    ultimately show ?thesis
      using r(4) ready_set_insert[OF i] by simp
  qed
  moreover have "\<forall>n\<in>set ns. node_id N n \<in> insert i D \<longrightarrow> set (node_parents N n) \<subseteq> insert i D"
  proof -
    obtain m where m: "m \<in> set ns" "node_id N m = i" "set (node_parents N m) \<subseteq> D"
      using i by (auto simp: ready_set_def)
    have "n = m" if "n \<in> set ns" "node_id N n = i" for n
      using that m distinct_ids_inj[OF idx(1)] by (auto simp: inj_on_def)
    moreover have "\<forall>n\<in>set ns. node_id N n \<in> D \<longrightarrow> set (node_parents N n) \<subseteq> D"
      using inv by (simp add: topo_inv_def)
    ultimately show ?thesis using m(3) by blast
  qed
  ultimately show thesis
    using that[OF r(1)] r(3) by (simp add: topo_inv_def)
qed

lemma topo_loop_spec:
  assumes idx: "distinct (map (node_id N) ns)" "\<forall>n\<in>set ns. strictly_ordered (node_parents N n)"
    and by_id: "indexes N ns by_id"
    and inv: "topo_inv N ns D d ready"
  shows "\<exists>rest. topo_loop by_id (children_map N ns) d ready ordered = Some (ordered @ rest) \<and>
    canonical_from N ns D rest \<and> ready_set N ns (D \<union> node_id N ` set rest) = {}"
  using by_id inv
proof (induction by_id "children_map N ns" d ready ordered arbitrary: D rule: topo_loop.induct)
  case (1 by_id d ordered)
  then show ?case by (intro exI[of _ "[]"]) (simp add: topo_inv_def)
next
  case (2 by_id d i ready ordered)
  have i: "i \<in> ready_set N ns D"
    using 2(3) by (auto simp: topo_inv_def)
  then obtain n where n: "n \<in> set ns" "node_id N n = i"
    by (auto simp: ready_set_def)
  then have get: "bt_get by_id i = Some n"
    using 2(2) by (simp add: indexes_def)
  have least: "\<forall>j\<in>ready_set N ns D. i \<le> j"
    using 2(3) by (auto simp: topo_inv_def strictly_ordered_iff less_imp_le)
  obtain d' ready' where r: "relax d ready (children_of (children_map N ns) i) = Some (d', ready')"
      "topo_inv N ns (insert i D) d' ready'"
    using topo_step[OF idx 2(3)] .
  obtain rest where
      "topo_loop by_id (children_map N ns) d' ready' (ordered @ [n]) = Some ((ordered @ [n]) @ rest)"
      "canonical_from N ns (insert i D) rest"
      "ready_set N ns (insert i D \<union> node_id N ` set rest) = {}"
    using 2(1)[OF get r(1) refl 2(2) r(2)] by auto
  then show ?case
    using get r i n least by (intro exI[of _ "n # rest"]) (simp add: Un_commute)
qed

lemma bt_get_indegree:
  "bt_get (initial_indegree N by_id) i = map_option (\<lambda>n. length (node_parents N n)) (bt_get by_id i)"
  by (induction by_id) (auto simp: initial_indegree_def)

lemma topo_inv_initial:
  assumes "\<forall>n\<in>set ns. strictly_ordered (node_parents N n)" and idx: "indexes N ns by_id"
  shows "topo_inv N ns {} (initial_indegree N by_id) (initial_ready (initial_indegree N by_id))"
proof -
  let ?d = "initial_indegree N by_id"
  have "bt_get ?d (node_id N n) = Some (card (set (node_parents N n) - {}))" if "n \<in> set ns" for n
    using that assms by (auto simp: bt_get_indegree indexes_def strictly_ordered_iff strict_sorted_iff
        distinct_card)
  moreover have wf: "bt_wf ?d"
    using idx by (simp add: indexes_def bt_wf_def initial_indegree_def comp_def case_prod_beta)
  have "strictly_ordered (initial_ready ?d)"
    using wf by (simp add: bt_wf_def initial_ready_def strictly_ordered_iff sorted_wrt_map
        sorted_wrt_filter)
  moreover have "i \<in> set (initial_ready ?d) \<longleftrightarrow> bt_get ?d i = Some 0" for i
    using bt_get_Some_iff[OF wf] by (force simp: initial_ready_def)
  then have "set (initial_ready ?d) = ready_set N ns {}"
    using idx by (auto simp: bt_get_indegree ready_set_def indexes_def)
  ultimately show ?thesis
    by (simp add: topo_inv_def)
qed

text \<open>In a complete canonical order every ancestor stands before its descendants.\<close>

lemma canonical_ancestors_earlier:
  assumes inj: "inj_on (node_id N) (set ns)" and can: "canonical_from N ns {} xs"
    and all: "set xs = set ns" and k: "k < length xs"
    and path: "(node_id N (xs ! k), b) \<in> (parent_rel N ns)\<^sup>+"
  shows "\<exists>j<k. b = node_id N (xs ! j)"
proof -
  have edge: "\<exists>j<k. b = node_id N (xs ! j)"
    if e: "(node_id N (xs ! k), b) \<in> parent_rel N ns" "k < length xs" for k b
  proof -
    obtain n where "n \<in> set ns" "node_id N (xs ! k) = node_id N n" "b \<in> set (node_parents N n)"
      using e by (auto simp: parent_rel_def)
    then have "b \<in> set (node_parents N (xs ! k))"
      using inj all e(2) by (metis inj_onD nth_mem)
    then have "b \<in> node_id N ` set (take k xs)"
      using canonical_parents_first[OF inj can e(2)] by auto
    then show ?thesis
      using e(2) by (auto simp: in_set_conv_nth) metis
  qed
  show ?thesis
    using path
  proof (induction rule: trancl_induct)
    case (base b)
    then show ?case using edge k by blast
  next
    case (step b c)
    then obtain j where j: "j < k" "b = node_id N (xs ! j)" by blast
    then obtain l where "l < j" "c = node_id N (xs ! l)"
      using edge[of j c] step.hyps(2) k by auto
    then show ?case using j by (intro exI[of _ l]) auto
  qed
qed

lemma stuck_iff_cyclic:
  assumes inj: "inj_on (node_id N) (set ns)"
    and closed: "\<forall>n\<in>set ns. set (node_parents N n) \<subseteq> node_id N ` set ns"
    and can: "canonical_from N ns {} xs" and stuck: "ready_set N ns (node_id N ` set xs) = {}"
  shows "set xs = set ns \<longleftrightarrow> acyclic (parent_rel N ns)"
proof
  assume all: "set xs = set ns"
  show "acyclic (parent_rel N ns)"
  proof (rule acyclicI, rule allI, rule notI)
    fix i assume ii: "(i, i) \<in> (parent_rel N ns)\<^sup>+"
    have dist: "distinct (map (node_id N) xs)"
      using canonical_distinct[OF can] by simp
    obtain k where k: "k < length xs" "i = node_id N (xs ! k)"
    proof -
      obtain y where "(i, y) \<in> parent_rel N ns"
        using ii by (auto dest: tranclD)
      then have "i \<in> node_id N ` set xs"
        using all by (auto simp: parent_rel_def)
      then show thesis using that by (auto simp: in_set_conv_nth)
    qed
    then obtain j where "j < k" "i = node_id N (xs ! j)"
      using canonical_ancestors_earlier[OF inj can all k(1), of i] ii by auto
    then show False
      using k dist by (auto simp: distinct_conv_nth)
  qed
next
  assume ac: "acyclic (parent_rel N ns)"
  have wf: "wf ((parent_rel N ns)\<inverse>)"
    by (rule finite_acyclic_wf_converse[OF finite_parent_rel ac])
  have "i \<in> node_id N ` set xs" if "i \<in> node_id N ` set ns" for i
    using wf that
  proof (induction i rule: wf_induct_rule)
    case (less i)
    then obtain n where n: "n \<in> set ns" "i = node_id N n" by auto
    have "p \<in> node_id N ` set xs" if "p \<in> set (node_parents N n)" for p
      using less.IH[of p] n closed that by (auto simp: parent_rel_def)
    then have "i \<in> node_id N ` set xs \<or> i \<in> ready_set N ns (node_id N ` set xs)"
      using n by (auto simp: ready_set_def)
    then show ?case using stuck by simp
  qed
  then have "set ns \<subseteq> set xs"
    using canonical_distinct[OF can] inj by (auto dest!: inj_onD[OF inj])
  then show "set xs = set ns"
    using canonical_distinct[OF can] by auto
qed

section \<open>Construction characterised\<close>

lemma count_edges_eq:
  "count_edges N acc ns =
   (if acc + sum_list (map (length \<circ> node_parents N) ns) \<le> USIZE_MAX \<or> ns = []
    then Some (acc + sum_list (map (length \<circ> node_parents N) ns)) else None)"
  by (induction ns arbitrary: acc) (auto simp: checked_add_usize_def)

definition edge_total :: "'t causal_node \<Rightarrow> 't list \<Rightarrow> nat" where
  "edge_total N ns = sum_list (map (length \<circ> node_parents N) ns)"

text \<open>The inputs that \<open>CausalGraph::new\<close> takes to the topological loop.\<close>

definition closed_input :: "'t causal_node \<Rightarrow> 't list \<Rightarrow> bool" where
  "closed_input N ns \<longleftrightarrow>
     length ns \<le> MAX_CAUSAL_OPERATIONS \<and> edge_total N ns \<le> MAX_CAUSAL_EDGES \<and>
     (\<forall>n\<in>set ns. strictly_ordered (node_parents N n)) \<and>
     distinct (map (node_id N) ns) \<and>
     (\<forall>n\<in>set ns. set (node_parents N n) \<subseteq> node_id N ` set ns)"

lemma edge_bound_check:
  "(case count_edges N 0 ns of None \<Rightarrow> True | Some e \<Rightarrow> MAX_CAUSAL_EDGES < e) \<longleftrightarrow>
   MAX_CAUSAL_EDGES < edge_total N ns"
  by (auto simp: count_edges_eq edge_total_def MAX_CAUSAL_EDGES_def USIZE_MAX_def)

lemma causal_graph_new_closed:
  assumes cl: "closed_input N ns"
  shows "\<exists>by_id ordered. collect_nodes N [] ns = Inr by_id \<and> indexes N ns by_id \<and>
    canonical_from N ns {} ordered \<and>
    (set ordered = set ns \<longleftrightarrow> acyclic (parent_rel N ns)) \<and>
    causal_graph_new N ns =
      (if acyclic (parent_rel N ns) then Inr \<lparr>cg_ordered = ordered, cg_by_id = by_id\<rparr> else Inl CausalCycle)"
proof -
  have b: "length ns \<le> MAX_CAUSAL_OPERATIONS" "\<not> MAX_CAUSAL_EDGES < edge_total N ns"
    and idx: "distinct (map (node_id N) ns)" "\<forall>n\<in>set ns. strictly_ordered (node_parents N n)"
    and par: "\<forall>n\<in>set ns. set (node_parents N n) \<subseteq> node_id N ` set ns"
    using cl by (auto simp: closed_input_def)
  obtain by_id where c: "collect_nodes N [] ns = Inr by_id"
    using idx by (simp add: collect_nodes_Inr_iff)
  note ix = collect_nodes_indexes[OF c]
  have dang: "check_dangling N by_id ns = Inr ()"
    using par by (auto simp: check_dangling_Inr_iff indexes_key[OF ix] simp del: not_None_eq)
  obtain ordered where t: "topo_loop by_id (children_map N ns) (initial_indegree N by_id)
        (initial_ready (initial_indegree N by_id)) [] = Some ordered"
      and can: "canonical_from N ns {} ordered" and stuck: "ready_set N ns (node_id N ` set ordered) = {}"
    using topo_loop_spec[OF idx ix topo_inv_initial[OF idx(2) ix], of "[]"] by auto
  note cyc = stuck_iff_cyclic[OF distinct_ids_inj[OF idx(1)] par can stuck]
  have "length ordered = length ns \<longleftrightarrow> set ordered = set ns"
    using canonical_distinct[OF can] idx(1)
    by (metis List.finite_set card_subset_eq distinct_card distinct_map)
  then have "causal_graph_new N ns =
      (if acyclic (parent_rel N ns) then Inr \<lparr>cg_ordered = ordered, cg_by_id = by_id\<rparr> else Inl CausalCycle)"
    using b c dang t cyc by (simp add: causal_graph_new_def edge_bound_check Let_def)
  with c ix can cyc show ?thesis by blast
qed

lemma collect_nodes_Inl:
  "collect_nodes N m ns = Inl e \<Longrightarrow>
   (\<exists>n\<in>set ns. e = CausalInvalidParents (node_id N n) \<or> e = CausalDuplicateRecordId (node_id N n))"
  by (induction N m ns rule: collect_nodes.induct) (auto split: if_splits)

lemma check_dangling_Inl:
  "check_dangling N by_id ns = Inl e \<Longrightarrow> \<exists>i p. e = DanglingParent i p"
  by (auto simp: check_dangling_def split: option.splits)

lemma causal_graph_new_past_checks:
  assumes "\<not> closed_input N ns"
  shows "\<exists>e. causal_graph_new N ns = Inl e \<and> e \<noteq> CausalCycle \<and> e \<noteq> CausalPanic"
proof (cases "MAX_CAUSAL_OPERATIONS < length ns \<or> MAX_CAUSAL_EDGES < edge_total N ns")
  case True
  then show ?thesis by (auto simp: causal_graph_new_def Let_def edge_bound_check)
next
  case False
  show ?thesis
  proof (cases "collect_nodes N [] ns")
    case (Inl e)
    then show ?thesis
      using False collect_nodes_Inl[OF Inl] by (auto simp: causal_graph_new_def Let_def edge_bound_check)
  next
    case (Inr by_id)
    note ix = collect_nodes_indexes[OF Inr]
    have "check_dangling N by_id ns \<noteq> Inr ()"
    proof -
      have "(\<forall>n\<in>set ns. strictly_ordered (node_parents N n)) \<and> distinct (map (node_id N) ns)"
        using Inr by (simp add: collect_nodes_Inr_iff)
      then show ?thesis
        using assms False
        by (auto simp: closed_input_def check_dangling_Inr_iff indexes_key[OF ix] simp del: not_None_eq)
    qed
    then obtain e where "check_dangling N by_id ns = Inl e"
      by (cases "check_dangling N by_id ns") auto
    then show ?thesis
      using False Inr check_dangling_Inl
      by (fastforce simp: causal_graph_new_def Let_def edge_bound_check)
  qed
qed

text \<open>The graph that construction returns, for use by its clients.\<close>

lemma causal_graph_new_Inr_iff:
  "causal_graph_new N ns = Inr g \<longleftrightarrow>
   closed_input N ns \<and> acyclic (parent_rel N ns) \<and> indexes N ns (cg_by_id g) \<and>
   set (cg_ordered g) = set ns \<and> canonical_from N ns {} (cg_ordered g)"
proof (cases "closed_input N ns")
  case True
  then obtain by_id ordered where g: "collect_nodes N [] ns = Inr by_id" "indexes N ns by_id"
      "canonical_from N ns {} ordered" "set ordered = set ns \<longleftrightarrow> acyclic (parent_rel N ns)"
      "causal_graph_new N ns =
        (if acyclic (parent_rel N ns) then Inr \<lparr>cg_ordered = ordered, cg_by_id = by_id\<rparr> else Inl CausalCycle)"
    using causal_graph_new_closed by metis
  have inj: "inj_on (node_id N) (set ns)"
    using True by (simp add: closed_input_def distinct_map)
  have "cg_by_id g = by_id" if "indexes N ns (cg_by_id g)"
    by (rule indexes_unique[OF that g(2)])
  moreover have "cg_ordered g = ordered" if "canonical_from N ns {} (cg_ordered g)"
      "set (cg_ordered g) = set ns" "set ordered = set ns"
  proof (rule canonical_unique[OF refl inj that(1) g(3)])
    show "length (cg_ordered g) = length ordered"
      using canonical_distinct[OF that(1)] canonical_distinct[OF g(3)] that(2,3)
      by (metis distinct_card distinct_map)
  qed
  ultimately show ?thesis
    using True g by (cases g) auto
next
  case False
  then show ?thesis using causal_graph_new_past_checks[OF False] by auto
qed

section \<open>Reachability characterised\<close>

lemma indexes_get: "indexes N ns by_id \<Longrightarrow> n \<in> set ns \<Longrightarrow> bt_get by_id (node_id N n) = Some n"
  by (simp add: indexes_def)

lemma indexes_edge:
  "indexes N ns by_id \<Longrightarrow> bt_get by_id i = Some n \<Longrightarrow> (i, p) \<in> parent_rel N ns \<longleftrightarrow> p \<in> set (node_parents N n)"
  by (auto simp: parent_rel_def indexes_get) (auto simp: indexes_def)

lemma indexes_no_edge: "indexes N ns by_id \<Longrightarrow> bt_get by_id i = None \<Longrightarrow> (i, p) \<notin> parent_rel N ns"
  by (auto simp: parent_rel_def indexes_get)

lemma observes_loop_flag:
  "observes_loop N by_id c pending visited budget exceeded = (r, b, e) \<Longrightarrow>
   b \<le> budget \<and> (exceeded \<longrightarrow> e) \<and> (e \<and> \<not> exceeded \<longrightarrow> \<not> r \<and> b = 0)"
  by (induction N by_id c pending visited budget exceeded rule: observes_loop.induct)
    (auto split: if_splits option.splits)

lemma observes_loop_sound:
  assumes "indexes N ns by_id"
  shows "observes_loop N by_id c pending visited budget exceeded = (True, b, e) \<Longrightarrow>
    \<exists>p\<in>set pending. (p, c) \<in> (parent_rel N ns)\<^sup>*"
  using assms
proof (induction N by_id c pending visited budget exceeded rule: observes_loop.induct)
  case (3 N by_id c current pending visited budget exceeded)
  consider "current = c" | "current \<noteq> c" "current \<in> set visited"
    | "current \<noteq> c" "current \<notin> set visited" "bt_get by_id current = None"
    | n where "current \<noteq> c" "current \<notin> set visited" "bt_get by_id current = Some n"
    by fastforce
  then show ?case
  proof cases
    case 4
    then obtain p where p: "p \<in> set (rev (node_parents N n) @ pending)" "(p, c) \<in> (parent_rel N ns)\<^sup>*"
      using 3 by fastforce
    then show ?thesis
      using indexes_edge[OF 3(5) 4(3)] by (auto intro: converse_rtrancl_into_rtrancl)
  qed (use 3 in auto)
qed auto

lemma observes_loop_complete:
  assumes "indexes N ns by_id"
  shows "observes_loop N by_id c pending visited budget False = (False, b, False) \<Longrightarrow>
    c \<notin> set visited \<Longrightarrow>
    \<forall>v\<in>set visited. \<forall>p. (v, p) \<in> parent_rel N ns \<longrightarrow> p \<in> set visited \<union> set pending \<Longrightarrow>
    q \<in> set visited \<union> set pending \<Longrightarrow> (q, c) \<notin> (parent_rel N ns)\<^sup>*"
  using assms
proof (induction N by_id c pending visited budget False arbitrary: q rule: observes_loop.induct)
  case (1 N by_id c visited budget)
  have "x \<in> set visited" if "(q, x) \<in> (parent_rel N ns)\<^sup>*" for x
    using that by (induction rule: rtrancl_induct) (use 1 in auto)
  then show ?case using 1 by auto
next
  case (3 N by_id c current pending visited budget)
  have ne: "current \<noteq> c" using 3(4) by auto
  show ?case
  proof (cases "current \<in> set visited")
    case True
    then show ?thesis using 3(1)[OF ne True] 3(4-) ne by auto
  next
    case new: False
    show ?thesis
    proof (cases "bt_get by_id current")
      case None
      then show ?thesis
        using 3(2)[OF ne new None, of q] 3(4-) ne new indexes_no_edge[OF 3(8) None] by auto
    next
      case (Some n)
      show ?thesis
        using 3(3)[OF ne new Some, of q] 3(4-) ne new Some indexes_edge[OF 3(8) Some] by auto
    qed
  qed
qed auto

text \<open>
  The budget a query needs at most: the pending identities and the edges of the nodes not yet
  visited. Every step uses up one unit.
\<close>

definition unvisited_edges :: "'t causal_node \<Rightarrow> 't list \<Rightarrow> record_id set \<Rightarrow> nat" where
  "unvisited_edges N ns V = edge_total N (filter (\<lambda>n. node_id N n \<notin> V) ns)"

lemma unvisited_edges_insert:
  "distinct (map (node_id N) ns) \<Longrightarrow> n \<in> set ns \<Longrightarrow> node_id N n \<notin> V \<Longrightarrow>
   unvisited_edges N ns V = length (node_parents N n) + unvisited_edges N ns (insert (node_id N n) V)"
proof (induction ns)
  case (Cons m ns)
  show ?case
  proof (cases "m = n")
    case True
    then have "filter (\<lambda>x. node_id N x \<notin> insert (node_id N n) V) ns = filter (\<lambda>x. node_id N x \<notin> V) ns"
      using Cons.prems by (intro filter_cong) (auto simp: image_iff)
    then show ?thesis
      using True Cons.prems by (simp add: unvisited_edges_def edge_total_def)
  next
    case False
    then have "node_id N m \<noteq> node_id N n" using Cons.prems by auto
    then show ?thesis
      using Cons False by (auto simp: unvisited_edges_def edge_total_def)
  qed
qed simp

lemma observes_loop_budget:
  assumes "indexes N ns by_id" "distinct (map (node_id N) ns)"
  shows "length pending + unvisited_edges N ns (set visited) \<le> budget \<Longrightarrow>
    snd (snd (observes_loop N by_id c pending visited budget exceeded)) = exceeded"
  using assms
proof (induction N by_id c pending visited budget exceeded rule: observes_loop.induct)
  case (3 N by_id c current pending visited budget exceeded)
  show ?case
  proof (cases "current = c \<or> current \<in> set visited")
    case True
    then show ?thesis using 3 by auto
  next
    case new: False
    show ?thesis
    proof (cases "bt_get by_id current")
      case None
      then have "filter (\<lambda>n. node_id N n \<notin> insert current (set visited)) ns =
          filter (\<lambda>n. node_id N n \<notin> set visited) ns"
        using indexes_get[OF 3(5)] by (intro filter_cong) auto
      then show ?thesis using 3 new None by (simp add: unvisited_edges_def)
    next
      case (Some n)
      then have "n \<in> set ns" "node_id N n = current"
        using 3(5) by (auto simp: indexes_def)
      then show ?thesis
        using 3 new Some unvisited_edges_insert[OF 3(6), of n "set visited"] by simp
    qed
  qed
qed auto

lemma trancl_parents:
  assumes "indexes N ns by_id"
  shows "(i, c) \<in> (parent_rel N ns)\<^sup>+ \<longleftrightarrow>
    (\<exists>p\<in>set (case bt_get by_id i of None \<Rightarrow> [] | Some n \<Rightarrow> rev (node_parents N n)). (p, c) \<in> (parent_rel N ns)\<^sup>*)"
proof (cases "bt_get by_id i")
  case None
  then show ?thesis using indexes_no_edge[OF assms None] by (auto dest: tranclD)
next
  case (Some n)
  then show ?thesis
    using indexes_edge[OF assms Some] by (fastforce dest: tranclD intro: rtrancl_into_trancl2)
qed

lemma observes_bounded_spec:
  assumes g: "causal_graph_new N ns = Inr g"
    and q: "observes_bounded N g i c budget exceeded = (r, b, e)" and "\<not> e"
  shows "r \<longleftrightarrow> (i, c) \<in> (parent_rel N ns)\<^sup>+"
proof -
  have ix: "indexes N ns (cg_by_id g)"
    using g by (simp add: causal_graph_new_Inr_iff)
  let ?p = "case bt_get (cg_by_id g) i of None \<Rightarrow> [] | Some n \<Rightarrow> rev (node_parents N n)"
  have l: "observes_loop N (cg_by_id g) c ?p [] budget exceeded = (r, b, e)"
    using q by (simp add: observes_bounded_def)
  have "\<not> exceeded" using observes_loop_flag[OF l] assms(3) by simp
  then have l': "observes_loop N (cg_by_id g) c ?p [] budget False = (r, b, False)"
    using l assms(3) by simp
  show ?thesis
  proof (cases r)
    case True
    then show ?thesis
      using observes_loop_sound[OF ix, of c ?p] l' by (auto simp: trancl_parents[OF ix])
  next
    case False
    then have "(p, c) \<notin> (parent_rel N ns)\<^sup>*" if "p \<in> set ?p" for p
      using observes_loop_complete[OF ix, of c ?p "[]" budget b p] l' that by simp
    then show ?thesis using False by (auto simp: trancl_parents[OF ix])
  qed
qed

lemma causal_graph_perm:
  assumes "mset ns = mset ns'"
  shows "causal_graph_new N ns = Inr g \<longleftrightarrow> causal_graph_new N ns' = Inr g"
proof -
  have e: "set ns = set ns'" "length ns = length ns'"
    using assms mset_eq_setD mset_eq_length by blast+
  have "mset (map (length \<circ> node_parents N) ns) = mset (map (length \<circ> node_parents N) ns')"
    using assms by simp
  then have "edge_total N ns = edge_total N ns'"
    unfolding edge_total_def by (metis sum_mset_sum_list)
  moreover have "distinct (map (node_id N) ns) = distinct (map (node_id N) ns')"
    using assms by (intro mset_eq_imp_distinct_iff) simp
  ultimately have "closed_input N ns = closed_input N ns'"
    using e by (simp add: closed_input_def)
  moreover have "canonical_from N ns D xs = canonical_from N ns' D xs" for D xs
    using e by (induction xs arbitrary: D) (simp_all add: ready_set_def)
  ultimately show ?thesis
    using e by (simp add: causal_graph_new_Inr_iff parent_rel_def indexes_def)
qed

text \<open>A graph over other nodes with the same identities and parents.\<close>

definition map_graph :: "('t \<Rightarrow> 'u) \<Rightarrow> 't causal_graph \<Rightarrow> 'u causal_graph" where
  "map_graph f g = \<lparr>cg_ordered = map f (cg_ordered g), cg_by_id = map (\<lambda>(i, n). (i, f n)) (cg_by_id g)\<rparr>"

definition same_nodes :: "'t causal_node \<Rightarrow> 'u causal_node \<Rightarrow> ('t \<Rightarrow> 'u) \<Rightarrow> bool" where
  "same_nodes N M f \<longleftrightarrow> (\<forall>x. node_id M (f x) = node_id N x \<and> node_parents M (f x) = node_parents N x)"

lemma parent_rel_map: "same_nodes N M f \<Longrightarrow> parent_rel M (map f ns) = parent_rel N ns"
  by (simp add: set_node_edges[symmetric] node_edges_def same_nodes_def comp_def)

lemma closed_input_map: "same_nodes N M f \<Longrightarrow> closed_input M (map f ns) = closed_input N ns"
  by (simp add: closed_input_def same_nodes_def edge_total_def comp_def image_image)

lemma causal_graph_new_map:
  assumes f: "same_nodes N M f" and g: "causal_graph_new N ns = Inr g"
  shows "causal_graph_new M (map f ns) = Inr (map_graph f g)"
proof -
  have g': "closed_input N ns" "acyclic (parent_rel N ns)" "indexes N ns (cg_by_id g)"
      "set (cg_ordered g) = set ns" "canonical_from N ns {} (cg_ordered g)"
    using g by (auto simp: causal_graph_new_Inr_iff)
  have id: "node_id M (f x) = node_id N x" "node_parents M (f x) = node_parents N x" for x
    using f by (simp_all add: same_nodes_def)
  have get: "bt_get (map (\<lambda>(i, n). (i, f n)) m) i = map_option f (bt_get m i)" for m i
    by (rule bt_get_map_values)
  have inj: "inj_on (node_id N) (set ns)"
    using g'(1) by (simp add: closed_input_def distinct_map)
  have "indexes M (map f ns) (cg_by_id (map_graph f g))"
    unfolding indexes_def map_graph_def causal_graph.select_convs get
  proof (intro conjI allI)
    show "bt_wf (map (\<lambda>(i, n). (i, f n)) (cg_by_id g))"
      using g'(3) by (simp add: indexes_def bt_wf_def comp_def case_prod_beta)
    fix i n
    show "map_option f (bt_get (cg_by_id g) i) = Some n \<longleftrightarrow> n \<in> set (map f ns) \<and> node_id M n = i"
      using g'(3) by (auto simp: indexes_def id)
  qed
  moreover have "ready_set M (map f ns) D = ready_set N ns D" for D
    by (auto simp: ready_set_def id)
  then have "canonical_from N ns D xs \<Longrightarrow> canonical_from M (map f ns) D (map f xs)" for D xs
    by (induction xs arbitrary: D) (auto simp: id)
  ultimately show ?thesis
    unfolding causal_graph_new_Inr_iff closed_input_map[OF f] parent_rel_map[OF f]
    using g' by (simp add: map_graph_def)
qed

lemma causal_graph_new_map_ok:
  assumes "same_nodes N M f"
  shows "is_ok (causal_graph_new M (map f ns)) \<longleftrightarrow> is_ok (causal_graph_new N ns)"
  using causal_graph_new_closed[of N ns] causal_graph_new_past_checks[of N ns]
    causal_graph_new_closed[of M "map f ns"] causal_graph_new_past_checks[of M "map f ns"]
    closed_input_map[OF assms] parent_rel_map[OF assms]
  by (cases "closed_input N ns") (auto simp: is_ok_iff)

lemma observes_bounded_map:
  assumes f: "same_nodes N M f"
  shows "observes_bounded M (map_graph f g) i c b e = observes_bounded N g i c b e"
proof -
  have get: "bt_get (map (\<lambda>(i, n). (i, f n)) m) i = map_option f (bt_get m i)" for m i
    by (rule bt_get_map_values)
  have "observes_loop M (map (\<lambda>(i, n). (i, f n)) m) c pending visited b e = observes_loop N m c pending visited b e"
    for m pending visited b e
    using f by (induction N m c pending visited b e rule: observes_loop.induct)
      (auto simp: get same_nodes_def split: option.splits)
  then show ?thesis
    using f by (auto simp: observes_bounded_def map_graph_def get same_nodes_def split: option.splits)
qed

section \<open>Properties\<close>

text \<open>
  C6: construction is exact. It returns a graph precisely for inputs within the operation and edge
  bounds whose parent lists are strictly sorted, whose identities are distinct, whose parents
  are all present and whose parent relation is acyclic; it reports a cycle precisely when only
  the last condition fails; and it never underflows a degree counter or misses an index.
\<close>

theorem causal_graph_new_exact:
  "((\<exists>g. causal_graph_new N ns = Inr g) \<longleftrightarrow> closed_input N ns \<and> acyclic (parent_rel N ns)) \<and>
   (causal_graph_new N ns = Inl CausalCycle \<longleftrightarrow> closed_input N ns \<and> \<not> acyclic (parent_rel N ns)) \<and>
   causal_graph_new N ns \<noteq> Inl CausalPanic"
  using causal_graph_new_closed[of N ns] causal_graph_new_past_checks[of N ns]
  by (cases "closed_input N ns") auto

text \<open>
  The order of an accepted graph is a permutation of the input nodes in which every parent of
  a node stands before the node.
\<close>

theorem causal_order_topological:
  assumes "causal_graph_new N ns = Inr g"
  shows "mset (cg_ordered g) = mset ns \<and>
    (\<forall>k<length (cg_ordered g).
       set (node_parents N (cg_ordered g ! k)) \<subseteq> node_id N ` set (take k (cg_ordered g)))"
proof -
  have c: "canonical_from N ns {} (cg_ordered g)" "set (cg_ordered g) = set ns"
    and d: "distinct (map (node_id N) ns)"
    using assms by (auto simp: causal_graph_new_Inr_iff closed_input_def)
  have "mset (cg_ordered g) = mset ns"
    using canonical_distinct[OF c(1)] c(2) d by (simp add: distinct_map set_eq_iff_mset_eq_distinct)
  then show ?thesis
    using canonical_parents_first[OF distinct_ids_inj[OF d] c(1)] by auto
qed

text \<open>
  The whole result is independent of the order in which the nodes are presented: a permuted
  input gives the same graph, order included.
\<close>

lemma causal_graph_permutation:
  assumes "mset ns = mset ns'"
  shows "causal_graph_new N ns = Inr g \<longleftrightarrow> causal_graph_new N ns' = Inr g"
  by (rule causal_graph_perm[OF assms])

text \<open>
  C37: on an accepted graph the ancestry query is exact. The bounded search that answers it ends with the
  flag for an exhausted budget down, so one million steps are enough for every single query, and the answer
  is whether the candidate is a proper ancestor.
\<close>

theorem observes_exact:
  assumes "causal_graph_new N ns = Inr g"
  shows "\<exists>remaining. observes_bounded N g i c MAX_REACHABILITY_STEPS False = (observes N g i c, remaining, False) \<and>
    (observes N g i c \<longleftrightarrow> (i, c) \<in> (parent_rel N ns)\<^sup>+)"
proof -
  have ix: "indexes N ns (cg_by_id g)" and d: "distinct (map (node_id N) ns)"
    and t: "edge_total N ns \<le> MAX_CAUSAL_EDGES"
    using assms by (auto simp: causal_graph_new_Inr_iff closed_input_def)
  let ?p = "case bt_get (cg_by_id g) i of None \<Rightarrow> [] | Some n \<Rightarrow> rev (node_parents N n)"
  have "length ?p \<le> edge_total N ns"
    using ix by (auto simp: indexes_def edge_total_def intro!: member_le_sum_list split: option.splits)
  then have "length ?p + unvisited_edges N ns (set []) \<le> MAX_REACHABILITY_STEPS"
    using t by (simp add: unvisited_edges_def MAX_CAUSAL_EDGES_def MAX_REACHABILITY_STEPS_def)
  from observes_loop_budget[OF ix d this, of c False]
  obtain r b where q: "observes_bounded N g i c MAX_REACHABILITY_STEPS False = (r, b, False)"
    by (cases "observes_bounded N g i c MAX_REACHABILITY_STEPS False") (simp add: observes_bounded_def)
  then have "observes N g i c = r" by (simp add: observes_def)
  with q show ?thesis using observes_bounded_spec[OF assms q] by auto
qed

section \<open>A small graph\<close>

definition pair_node :: "(record_id \<times> record_id list) causal_node" where
  "pair_node = \<lparr>node_id = fst, node_parents = snd\<rparr>"

abbreviation diamond :: "(record_id \<times> record_id list) list" where
  "diamond \<equiv> [(9, [2, 5]), (5, [1]), (2, [1]), (1, [])]"

abbreviation diamond_graph :: "(record_id \<times> record_id list) causal_graph" where
  "diamond_graph \<equiv> \<lparr>cg_ordered = [(1, []), (2, [1]), (5, [1]), (9, [2, 5])],
     cg_by_id = [(1, (1, [])), (2, (2, [1])), (5, (5, [1])), (9, (9, [2, 5]))]\<rparr>"

lemma diamond_new: "causal_graph_new pair_node diamond = Inr diamond_graph"
  by (simp add: causal_graph_new_def pair_node_def MAX_CAUSAL_OPERATIONS_def MAX_CAUSAL_EDGES_def
      USIZE_MAX_def checked_add_usize_def check_dangling_def node_edges_def initial_indegree_def
      children_map_def push_child_def initial_ready_def children_of_def)

theorem causal_order_topological_witness:
  "mset (cg_ordered diamond_graph) = mset diamond \<and>
   set (node_parents pair_node (cg_ordered diamond_graph ! 3))
     \<subseteq> node_id pair_node ` set (take 3 (cg_ordered diamond_graph))"
proof -
  note order = causal_order_topological[OF diamond_new]
  have "3 < length (cg_ordered diamond_graph)" by simp
  then show ?thesis using order by blast
qed

theorem observes_exact_witness:
  "observes pair_node diamond_graph 9 1 \<and> \<not> observes pair_node diamond_graph 2 5 \<and>
   \<not> snd (snd (observes_bounded pair_node diamond_graph 9 1 MAX_REACHABILITY_STEPS False))"
proof -
  have "(2, 5) \<notin> (parent_rel pair_node diamond)\<^sup>+"
  proof
    assume "(2, 5) \<in> (parent_rel pair_node diamond)\<^sup>+"
    then obtain y where "(2, y) \<in> parent_rel pair_node diamond" "(y, 5) \<in> (parent_rel pair_node diamond)\<^sup>*"
      by (auto dest: tranclD)
    then have "(1, 5) \<in> (parent_rel pair_node diamond)\<^sup>*" by (auto simp: parent_rel_def pair_node_def)
    then show False
      by (rule converse_rtranclE) (auto simp: parent_rel_def pair_node_def)
  qed
  moreover have "(9, 2) \<in> parent_rel pair_node diamond" "(2, 1) \<in> parent_rel pair_node diamond"
    by (auto simp: parent_rel_def pair_node_def)
  then have "(9, 1) \<in> (parent_rel pair_node diamond)\<^sup>+" by (meson trancl.simps)
  ultimately show ?thesis
    using observes_exact[OF diamond_new, of 9 1] observes_exact[OF diamond_new, of 2 5] by auto
qed

end
