(* ===== verification/Wj_Domains.thy ===== *)
theory Wj_Domains
  imports Wj_Identity Wj_Causal "HOL-Library.Product_Lexorder"
begin

text \<open>
  The operations of \<open>domains.rs\<close>: the closed payloads of the profile and catalog domains and their
  translation into register and set operations. The derived orders of the Rust types, which key
  their maps and sort their values, are \<open>linorder\<close> instances here.
\<close>

section \<open>Data and derived orders\<close>

datatype scalar_field = DisplayName | Description | Application | EntryName | Enabled | DefaultStore

datatype set_field = F_Remote | F_Relation | F_Capability | F_Alias | F_Policy | F_Group

record remote_locator =
  rl_locator :: string
  rl_validated :: bool

datatype catalog_relation =
    Qualified qualified_entity_ref
  | PrivateTaskRunPair qualified_entity_ref qualified_entity_ref

fun scalar_rank :: "scalar_field \<Rightarrow> nat" where
  "scalar_rank DisplayName = 0"
| "scalar_rank Description = 1"
| "scalar_rank Application = 2"
| "scalar_rank EntryName = 3"
| "scalar_rank Enabled = 4"
| "scalar_rank DefaultStore = 5"

fun set_rank :: "set_field \<Rightarrow> nat" where
  "set_rank F_Remote = 0"
| "set_rank F_Relation = 1"
| "set_rank F_Capability = 2"
| "set_rank F_Alias = 3"
| "set_rank F_Policy = 4"
| "set_rank F_Group = 5"

lemma scalar_rank_inj: "scalar_rank a = scalar_rank b \<Longrightarrow> a = b"
  by (cases a; cases b) simp_all

lemma set_rank_inj: "set_rank a = set_rank b \<Longrightarrow> a = b"
  by (cases a; cases b) simp_all

instantiation scalar_field :: linorder
begin

definition less_eq_scalar_field :: "scalar_field \<Rightarrow> scalar_field \<Rightarrow> bool" where
  "less_eq_scalar_field a b \<longleftrightarrow> scalar_rank a \<le> scalar_rank b"

definition less_scalar_field :: "scalar_field \<Rightarrow> scalar_field \<Rightarrow> bool" where
  "less_scalar_field a b \<longleftrightarrow> scalar_rank a < scalar_rank b"

instance
  by standard (auto simp: less_eq_scalar_field_def less_scalar_field_def intro: scalar_rank_inj)

end

instantiation set_field :: linorder
begin

definition less_eq_set_field :: "set_field \<Rightarrow> set_field \<Rightarrow> bool" where
  "less_eq_set_field a b \<longleftrightarrow> set_rank a \<le> set_rank b"

definition less_set_field :: "set_field \<Rightarrow> set_field \<Rightarrow> bool" where
  "less_set_field a b \<longleftrightarrow> set_rank a < set_rank b"

instance
  by standard (auto simp: less_eq_set_field_def less_set_field_def intro: set_rank_inj)

end

definition logical_key :: "'m logical_store_id_scheme \<Rightarrow> store_uuid \<times> digest \<times> 'm" where
  "logical_key x = (ls_uuid x, ls_fingerprint x, logical_store_id.more x)"

lemma logical_key_inj: "logical_key x = logical_key y \<Longrightarrow> x = y"
  by (simp add: logical_key_def)

instantiation logical_store_id_ext :: (linorder) linorder
begin

definition less_eq_logical_store_id_ext :: "'a logical_store_id_scheme \<Rightarrow> 'a logical_store_id_scheme \<Rightarrow> bool" where
  "less_eq_logical_store_id_ext x y \<longleftrightarrow> logical_key x \<le> logical_key y"

definition less_logical_store_id_ext :: "'a logical_store_id_scheme \<Rightarrow> 'a logical_store_id_scheme \<Rightarrow> bool" where
  "less_logical_store_id_ext x y \<longleftrightarrow> logical_key x < logical_key y"

instance
  by standard (auto simp: less_eq_logical_store_id_ext_def less_logical_store_id_ext_def
      intro: logical_key_inj)

end

definition qualified_key :: "'m qualified_entity_ref_scheme \<Rightarrow> logical_store_id \<times> domain_id \<times> entity_id \<times> 'm" where
  "qualified_key x = (qe_store x, qe_domain x, qe_entity x, qualified_entity_ref.more x)"

lemma qualified_key_inj: "qualified_key x = qualified_key y \<Longrightarrow> x = y"
  by (simp add: qualified_key_def)

instantiation qualified_entity_ref_ext :: (linorder) linorder
begin

definition less_eq_qualified_entity_ref_ext ::
  "'a qualified_entity_ref_scheme \<Rightarrow> 'a qualified_entity_ref_scheme \<Rightarrow> bool" where
  "less_eq_qualified_entity_ref_ext x y \<longleftrightarrow> qualified_key x \<le> qualified_key y"

definition less_qualified_entity_ref_ext ::
  "'a qualified_entity_ref_scheme \<Rightarrow> 'a qualified_entity_ref_scheme \<Rightarrow> bool" where
  "less_qualified_entity_ref_ext x y \<longleftrightarrow> qualified_key x < qualified_key y"

instance
  by standard (auto simp: less_eq_qualified_entity_ref_ext_def less_qualified_entity_ref_ext_def
      intro: qualified_key_inj)

end

definition remote_key :: "'m remote_locator_scheme \<Rightarrow> string \<times> bool \<times> 'm" where
  "remote_key x = (rl_locator x, rl_validated x, remote_locator.more x)"

lemma remote_key_inj: "remote_key x = remote_key y \<Longrightarrow> x = y"
  by (simp add: remote_key_def)

instantiation remote_locator_ext :: (linorder) linorder
begin

definition less_eq_remote_locator_ext :: "'a remote_locator_scheme \<Rightarrow> 'a remote_locator_scheme \<Rightarrow> bool" where
  "less_eq_remote_locator_ext x y \<longleftrightarrow> remote_key x \<le> remote_key y"

definition less_remote_locator_ext :: "'a remote_locator_scheme \<Rightarrow> 'a remote_locator_scheme \<Rightarrow> bool" where
  "less_remote_locator_ext x y \<longleftrightarrow> remote_key x < remote_key y"

instance
  by standard (auto simp: less_eq_remote_locator_ext_def less_remote_locator_ext_def intro: remote_key_inj)

end

fun relation_key :: "catalog_relation \<Rightarrow> nat \<times> qualified_entity_ref list" where
  "relation_key (Qualified r) = (0, [r])"
| "relation_key (PrivateTaskRunPair l r) = (1, [l, r])"

lemma relation_key_inj: "relation_key x = relation_key y \<Longrightarrow> x = y"
  by (cases x; cases y) simp_all

instantiation catalog_relation :: linorder
begin

definition less_eq_catalog_relation :: "catalog_relation \<Rightarrow> catalog_relation \<Rightarrow> bool" where
  "less_eq_catalog_relation x y \<longleftrightarrow> relation_key x \<le> relation_key y"

definition less_catalog_relation :: "catalog_relation \<Rightarrow> catalog_relation \<Rightarrow> bool" where
  "less_catalog_relation x y \<longleftrightarrow> relation_key x < relation_key y"

instance
  by standard (auto simp: less_eq_catalog_relation_def less_catalog_relation_def intro: relation_key_inj)

end

section \<open>Operations\<close>

datatype scalar_value = SV_Text string | SV_Bool bool | SV_Store logical_store_id

datatype set_value =
    TV_Text string
  | TV_Remote remote_locator
  | TV_Qualified qualified_entity_ref
  | TV_Relation catalog_relation

datatype operation_kind =
    ScalarSet scalar_field scalar_value
  | ScalarResolve scalar_field scalar_value "record_id list"
  | AddOp set_field string set_value
  | RemoveOp set_field string "record_id list"

record domain_operation =
  op_id :: record_id
  op_entity :: entity_id
  op_parents :: "record_id list"
  op_domain :: domain_id
  op_target :: "logical_store_id option"
  op_kind :: operation_kind

record domain_operation_header =
  oh_source :: nat
  oh_id :: record_id
  oh_entity :: entity_id
  oh_parents :: "record_id list"
  oh_domain :: domain_id

definition operation_node :: "domain_operation causal_node" where
  "operation_node = \<lparr>node_id = op_id, node_parents = op_parents\<rparr>"

definition header_node :: "domain_operation_header causal_node" where
  "header_node = \<lparr>node_id = oh_id, node_parents = oh_parents\<rparr>"

definition into_header :: "domain_operation \<Rightarrow> nat \<Rightarrow> domain_operation_header" where
  "into_header p source =
     \<lparr>oh_source = source, oh_id = op_id p, oh_entity = op_entity p, oh_parents = op_parents p,
      oh_domain = op_domain p\<rparr>"

datatype operation_error = OpUnsupported | OpInvalidPayload

definition PROFILE_SCHEMA_V1 :: string where "PROFILE_SCHEMA_V1 = ''wayjournal.profile/v1''"
definition CATALOG_SCHEMA_V1 :: string where "CATALOG_SCHEMA_V1 = ''wayjournal.catalog/v1''"
definition MAX_TEXT :: nat where "MAX_TEXT = 4096"
definition MAX_KEY :: nat where "MAX_KEY = 128"
definition MAX_LOCATOR :: nat where "MAX_LOCATOR = 2048"
definition MAX_REFERENCES :: nat where "MAX_REFERENCES = 4096"

definition bounded :: "string \<Rightarrow> nat \<Rightarrow> bool" where
  "bounded value maximum \<longleftrightarrow>
     \<not> (value = [] \<or> maximum < length (chars value) \<or> list_ex is_control (chars value))"

definition remote_validate :: "remote_locator \<Rightarrow> bool" where
  "remote_validate l \<longleftrightarrow> bounded (rl_locator l) MAX_LOCATOR \<and> rl_validated l"

definition validate_ids :: "record_id list \<Rightarrow> operation_error + unit" where
  "validate_ids ids =
     (if ids = [] \<or> MAX_REFERENCES < length ids \<or> \<not> strictly_ordered ids
      then Inl OpInvalidPayload else Inr ())"

definition op_text :: "string \<Rightarrow> operation_error + scalar_value" where
  "op_text value = (if bounded value MAX_TEXT then Inr (SV_Text value) else Inl OpInvalidPayload)"

definition op_text_set :: "string \<Rightarrow> operation_error + set_value" where
  "op_text_set value = (if bounded value MAX_TEXT then Inr (TV_Text value) else Inl OpInvalidPayload)"

definition op_key :: "string \<Rightarrow> operation_error + string" where
  "op_key value = (if bounded value MAX_KEY then Inr value else Inl OpInvalidPayload)"

section \<open>Payloads\<close>

definition de_bool :: "json \<Rightarrow> bool option" where
  "de_bool v = (case v of JBool b \<Rightarrow> Some b | _ \<Rightarrow> None)"

definition de_ids :: "ext \<Rightarrow> json \<Rightarrow> record_id list option" where
  "de_ids X v = (case v of JArray vs \<Rightarrow> option_map (de_parse (record_id_from_str X)) vs | _ \<Rightarrow> None)"

definition qualified_from_value :: "ext \<Rightarrow> json \<Rightarrow> qualified_entity_ref option" where
  "qualified_from_value X v =
     (case serde_fields X [(''store'', False), (''domain'', False), (''entity_id'', False)] v of
        Some [Some s, Some d, Some e] \<Rightarrow>
          (case (logical_id_from_value X s, de_parse domain_id_from_str d, de_parse (entity_id_from_str X) e) of
             (Some s, Some d, Some e) \<Rightarrow> Some \<lparr>qe_store = s, qe_domain = d, qe_entity = e\<rparr>
           | _ \<Rightarrow> None)
      | _ \<Rightarrow> None)"

definition remote_from_value :: "ext \<Rightarrow> json \<Rightarrow> remote_locator option" where
  "remote_from_value X v =
     (case serde_fields X [(''locator'', False), (''requires_identity_validation'', False)] v of
        Some [Some l, Some b] \<Rightarrow>
          (case (de_string l, de_bool b) of
             (Some l, Some b) \<Rightarrow> Some \<lparr>rl_locator = l, rl_validated = b\<rparr>
           | _ \<Rightarrow> None)
      | _ \<Rightarrow> None)"

definition relation_from_value :: "ext \<Rightarrow> json \<Rightarrow> catalog_relation option" where
  "relation_from_value X v =
     (case serde_tagged X ''kind'' v of
        None \<Rightarrow> None
      | Some (tag, rest) \<Rightarrow>
          if tag = ''qualified'' then
            (case serde_fields X [(''reference'', False)] rest of
               Some [Some r] \<Rightarrow> map_option Qualified (qualified_from_value X r)
             | _ \<Rightarrow> None)
          else if tag = ''private.task_run_pair'' then
            (case serde_fields X [(''left'', False), (''right'', False)] rest of
               Some [Some l, Some r] \<Rightarrow>
                 (case (qualified_from_value X l, qualified_from_value X r) of
                    (Some l, Some r) \<Rightarrow> Some (PrivateTaskRunPair l r)
                  | _ \<Rightarrow> None)
             | _ \<Rightarrow> None)
          else None)"

text \<open>The generic payload structs; the decoder of the \<open>value\<close> field is an argument.\<close>

definition scalar_payload :: "ext \<Rightarrow> (json \<Rightarrow> 'a option) \<Rightarrow> json \<Rightarrow> operation_error + 'a" where
  "scalar_payload X dv p =
     (case serde_fields X [(''value'', False)] p of
        Some [Some v] \<Rightarrow> ok_or OpInvalidPayload (dv v)
      | _ \<Rightarrow> Inl OpInvalidPayload)"

definition resolve_payload ::
  "ext \<Rightarrow> (json \<Rightarrow> 'a option) \<Rightarrow> json \<Rightarrow> operation_error + record_id list \<times> 'a" where
  "resolve_payload X dv p =
     (case serde_fields X [(''candidates'', False), (''value'', False)] p of
        Some [Some c, Some v] \<Rightarrow>
          (case (de_ids X c, dv v) of (Some c, Some v) \<Rightarrow> Inr (c, v) | _ \<Rightarrow> Inl OpInvalidPayload)
      | _ \<Rightarrow> Inl OpInvalidPayload)"

definition add_payload :: "ext \<Rightarrow> (json \<Rightarrow> 'a option) \<Rightarrow> json \<Rightarrow> operation_error + string \<times> 'a" where
  "add_payload X dv p =
     (case serde_fields X [(''key'', False), (''value'', False)] p of
        Some [Some k, Some v] \<Rightarrow>
          (case (de_string k, dv v) of (Some k, Some v) \<Rightarrow> Inr (k, v) | _ \<Rightarrow> Inl OpInvalidPayload)
      | _ \<Rightarrow> Inl OpInvalidPayload)"

definition remove_payload :: "ext \<Rightarrow> json \<Rightarrow> operation_error + record_id list \<times> string" where
  "remove_payload X p =
     (case serde_fields X [(''adds'', False), (''key'', False)] p of
        Some [Some a, Some k] \<Rightarrow>
          (case (de_ids X a, de_string k) of (Some a, Some k) \<Rightarrow> Inr (a, k) | _ \<Rightarrow> Inl OpInvalidPayload)
      | _ \<Rightarrow> Inl OpInvalidPayload)"

definition catalog_scalar_payload ::
  "ext \<Rightarrow> (json \<Rightarrow> 'a option) \<Rightarrow> json \<Rightarrow> operation_error + logical_store_id \<times> 'a" where
  "catalog_scalar_payload X dv p =
     (case serde_fields X [(''target'', False), (''value'', False)] p of
        Some [Some t, Some v] \<Rightarrow>
          (case (logical_id_from_value X t, dv v) of (Some t, Some v) \<Rightarrow> Inr (t, v) | _ \<Rightarrow> Inl OpInvalidPayload)
      | _ \<Rightarrow> Inl OpInvalidPayload)"

definition catalog_resolve_payload ::
  "ext \<Rightarrow> (json \<Rightarrow> 'a option) \<Rightarrow> json \<Rightarrow> operation_error + record_id list \<times> logical_store_id \<times> 'a" where
  "catalog_resolve_payload X dv p =
     (case serde_fields X [(''candidates'', False), (''target'', False), (''value'', False)] p of
        Some [Some c, Some t, Some v] \<Rightarrow>
          (case (de_ids X c, logical_id_from_value X t, dv v) of
             (Some c, Some t, Some v) \<Rightarrow> Inr (c, t, v)
           | _ \<Rightarrow> Inl OpInvalidPayload)
      | _ \<Rightarrow> Inl OpInvalidPayload)"

definition catalog_add_payload ::
  "ext \<Rightarrow> (json \<Rightarrow> 'a option) \<Rightarrow> json \<Rightarrow> operation_error + string \<times> logical_store_id \<times> 'a" where
  "catalog_add_payload X dv p =
     (case serde_fields X [(''key'', False), (''target'', False), (''value'', False)] p of
        Some [Some k, Some t, Some v] \<Rightarrow>
          (case (de_string k, logical_id_from_value X t, dv v) of
             (Some k, Some t, Some v) \<Rightarrow> Inr (k, t, v)
           | _ \<Rightarrow> Inl OpInvalidPayload)
      | _ \<Rightarrow> Inl OpInvalidPayload)"

definition catalog_remove_payload ::
  "ext \<Rightarrow> json \<Rightarrow> operation_error + record_id list \<times> string \<times> logical_store_id" where
  "catalog_remove_payload X p =
     (case serde_fields X [(''adds'', False), (''key'', False), (''target'', False)] p of
        Some [Some a, Some k, Some t] \<Rightarrow>
          (case (de_ids X a, de_string k, logical_id_from_value X t) of
             (Some a, Some k, Some t) \<Rightarrow> Inr (a, k, t)
           | _ \<Rightarrow> Inl OpInvalidPayload)
      | _ \<Rightarrow> Inl OpInvalidPayload)"

section \<open>Translation\<close>

definition policy_key :: "set_field \<Rightarrow> string \<Rightarrow> operation_error + string" where
  "policy_key field k =
     (if field = F_Policy then map_err (\<lambda>_. OpInvalidPayload) (domain_id_from_str k) else op_key k)"

definition profile_scalar :: "ext \<Rightarrow> scalar_field \<Rightarrow> json \<Rightarrow> operation_error + operation_kind" where
  "profile_scalar X field p =
     rbind (scalar_payload X de_string p) (\<lambda>v.
     rbind (op_text v) (\<lambda>t. Inr (ScalarSet field t)))"

definition profile_resolve :: "ext \<Rightarrow> scalar_field \<Rightarrow> json \<Rightarrow> operation_error + operation_kind" where
  "profile_resolve X field p =
     rbind (resolve_payload X de_string p) (\<lambda>(candidates, v).
     rbind (validate_ids candidates) (\<lambda>_.
     rbind (op_text v) (\<lambda>t. Inr (ScalarResolve field t candidates))))"

definition profile_add_text :: "ext \<Rightarrow> set_field \<Rightarrow> json \<Rightarrow> operation_error + operation_kind" where
  "profile_add_text X field p =
     rbind (add_payload X de_string p) (\<lambda>(k, v).
     rbind (policy_key field k) (\<lambda>k.
     rbind (op_text_set v) (\<lambda>t. Inr (AddOp field k t))))"

definition profile_remove :: "ext \<Rightarrow> set_field \<Rightarrow> json \<Rightarrow> operation_error + operation_kind" where
  "profile_remove X field p =
     rbind (remove_payload X p) (\<lambda>(adds, k).
     rbind (validate_ids adds) (\<lambda>_.
     rbind (policy_key field k) (\<lambda>k. Inr (RemoveOp field k adds))))"

definition profile_kind :: "ext \<Rightarrow> kind_id \<Rightarrow> json \<Rightarrow> operation_error + operation_kind" where
  "profile_kind X kind p =
     (if kind = ''profile.display_name.set'' then profile_scalar X DisplayName p
      else if kind = ''profile.description.set'' then profile_scalar X Description p
      else if kind = ''profile.application.set'' then profile_scalar X Application p
      else if kind = ''profile.display_name.resolve'' then profile_resolve X DisplayName p
      else if kind = ''profile.description.resolve'' then profile_resolve X Description p
      else if kind = ''profile.application.resolve'' then profile_resolve X Application p
      else if kind = ''profile.remote.add'' then
        rbind (add_payload X (remote_from_value X) p) (\<lambda>(k, v).
        if \<not> remote_validate v then Inl OpInvalidPayload
        else rbind (op_key k) (\<lambda>k. Inr (AddOp F_Remote k (TV_Remote v))))
      else if kind = ''profile.relation.add'' then
        rbind (add_payload X (qualified_from_value X) p) (\<lambda>(k, v).
        rbind (op_key k) (\<lambda>k. Inr (AddOp F_Relation k (TV_Qualified v))))
      else if kind = ''profile.capability.add'' then profile_add_text X F_Capability p
      else if kind = ''profile.alias.add'' then profile_add_text X F_Alias p
      else if kind = ''profile.policy_hint.add'' then profile_add_text X F_Policy p
      else if kind = ''profile.remote.remove'' then profile_remove X F_Remote p
      else if kind = ''profile.relation.remove'' then profile_remove X F_Relation p
      else if kind = ''profile.capability.remove'' then profile_remove X F_Capability p
      else if kind = ''profile.alias.remove'' then profile_remove X F_Alias p
      else if kind = ''profile.policy_hint.remove'' then profile_remove X F_Policy p
      else Inl OpUnsupported)"

definition profile_operation :: "ext \<Rightarrow> wj_record \<Rightarrow> operation_error + domain_operation" where
  "profile_operation X r =
     rbind (profile_kind X (r_kind r) (r_payload r)) (\<lambda>kind.
     Inr \<lparr>op_id = r_id r, op_entity = r_entity r, op_parents = r_parents r, op_domain = r_domain r,
          op_target = None, op_kind = kind\<rparr>)"

definition catalog_set ::
  "ext \<Rightarrow> (json \<Rightarrow> 'a option) \<Rightarrow> ('a \<Rightarrow> operation_error + scalar_value) \<Rightarrow> scalar_field \<Rightarrow> json \<Rightarrow>
   operation_error + logical_store_id \<times> operation_kind" where
  "catalog_set X dv conv field p =
     rbind (catalog_scalar_payload X dv p) (\<lambda>(t, v).
     rbind (conv v) (\<lambda>s. Inr (t, ScalarSet field s)))"

definition catalog_resolve ::
  "ext \<Rightarrow> (json \<Rightarrow> 'a option) \<Rightarrow> ('a \<Rightarrow> operation_error + scalar_value) \<Rightarrow> scalar_field \<Rightarrow> json \<Rightarrow>
   operation_error + logical_store_id \<times> operation_kind" where
  "catalog_resolve X dv conv field p =
     rbind (catalog_resolve_payload X dv p) (\<lambda>(candidates, t, v).
     rbind (validate_ids candidates) (\<lambda>_.
     rbind (conv v) (\<lambda>s. Inr (t, ScalarResolve field s candidates))))"

definition catalog_add_text ::
  "ext \<Rightarrow> set_field \<Rightarrow> json \<Rightarrow> operation_error + logical_store_id \<times> operation_kind" where
  "catalog_add_text X field p =
     rbind (catalog_add_payload X de_string p) (\<lambda>(k, t, v).
     rbind (op_key k) (\<lambda>k.
     rbind (op_text_set v) (\<lambda>s. Inr (t, AddOp field k s))))"

definition catalog_remove ::
  "ext \<Rightarrow> set_field \<Rightarrow> json \<Rightarrow> operation_error + logical_store_id \<times> operation_kind" where
  "catalog_remove X field p =
     rbind (catalog_remove_payload X p) (\<lambda>(adds, k, t).
     rbind (validate_ids adds) (\<lambda>_.
     rbind (op_key k) (\<lambda>k. Inr (t, RemoveOp field k adds))))"

definition catalog_kind ::
  "ext \<Rightarrow> kind_id \<Rightarrow> json \<Rightarrow> operation_error + logical_store_id \<times> operation_kind" where
  "catalog_kind X kind p =
     (if kind = ''catalog.name.set'' then catalog_set X de_string op_text EntryName p
      else if kind = ''catalog.enabled.set'' then catalog_set X de_bool (\<lambda>b. Inr (SV_Bool b)) Enabled p
      else if kind = ''catalog.default_store.set'' then
        catalog_set X (logical_id_from_value X) (\<lambda>s. Inr (SV_Store s)) DefaultStore p
      else if kind = ''catalog.name.resolve'' then catalog_resolve X de_string op_text EntryName p
      else if kind = ''catalog.enabled.resolve'' then catalog_resolve X de_bool (\<lambda>b. Inr (SV_Bool b)) Enabled p
      else if kind = ''catalog.default_store.resolve'' then
        catalog_resolve X (logical_id_from_value X) (\<lambda>s. Inr (SV_Store s)) DefaultStore p
      else if kind = ''catalog.remote.add'' then
        rbind (catalog_add_payload X (remote_from_value X) p) (\<lambda>(k, t, v).
        if \<not> remote_validate v then Inl OpInvalidPayload
        else rbind (op_key k) (\<lambda>k. Inr (t, AddOp F_Remote k (TV_Remote v))))
      else if kind = ''catalog.relation.add'' then
        rbind (catalog_add_payload X (relation_from_value X) p) (\<lambda>(k, t, v).
        rbind (op_key k) (\<lambda>k. Inr (t, AddOp F_Relation k (TV_Relation v))))
      else if kind = ''catalog.alias.add'' then catalog_add_text X F_Alias p
      else if kind = ''catalog.group.add'' then catalog_add_text X F_Group p
      else if kind = ''catalog.remote.remove'' then catalog_remove X F_Remote p
      else if kind = ''catalog.relation.remove'' then catalog_remove X F_Relation p
      else if kind = ''catalog.alias.remove'' then catalog_remove X F_Alias p
      else if kind = ''catalog.group.remove'' then catalog_remove X F_Group p
      else Inl OpUnsupported)"

definition catalog_operation :: "ext \<Rightarrow> wj_record \<Rightarrow> operation_error + domain_operation" where
  "catalog_operation X r =
     rbind (catalog_kind X (r_kind r) (r_payload r)) (\<lambda>(t, kind).
     Inr \<lparr>op_id = r_id r, op_entity = r_entity r, op_parents = r_parents r, op_domain = r_domain r,
          op_target = Some t, op_kind = kind\<rparr>)"

definition operation_try_from :: "ext \<Rightarrow> wj_record \<Rightarrow> operation_error + domain_operation" where
  "operation_try_from X r =
     (if r_domain r = ''wayjournal.profile'' \<and> r_schema r = PROFILE_SCHEMA_V1 then profile_operation X r
      else if r_domain r = ''wayjournal.catalog'' \<and> r_schema r = CATALOG_SCHEMA_V1 then catalog_operation X r
      else Inl OpUnsupported)"

text \<open>The payload validators build a placeholder envelope from constant identifiers.\<close>

definition validate_payload :: "ext \<Rightarrow> string \<Rightarrow> string \<Rightarrow> kind_id \<Rightarrow> json \<Rightarrow> bool" where
  "validate_payload X domain schema kind payload = is_ok (
     rbind (map_err (\<lambda>_. ()) (record_schema_id_from_str schema)) (\<lambda>rs.
     rbind (map_err (\<lambda>_. ()) (domain_id_from_str domain)) (\<lambda>dom.
     rbind (map_err (\<lambda>_. ()) (record_id_from_str X ''01913f1d-8e2a-7c30-8f4a-426614174001'')) (\<lambda>rid.
     rbind (map_err (\<lambda>_. ()) (entity_id_from_str X ''123e4567-e89b-42d3-a456-426614174000'')) (\<lambda>eid.
     rbind (map_err (\<lambda>_. ()) (batch_id_from_str X ''01913f1d-8e2a-7c30-8f4a-426614174002'')) (\<lambda>bid.
     rbind (map_err (\<lambda>_. ()) (actor_id_parse ''system:validator'')) (\<lambda>act.
     rbind (map_err (\<lambda>_. ()) (record_timestamp_from_str X ''2026-01-01T00:00:00Z'')) (\<lambda>occ.
     rbind (map_err (\<lambda>_. ()) (record_timestamp_from_str X ''2026-01-01T00:00:00Z'')) (\<lambda>rec.
     map_err (\<lambda>_. ()) (operation_try_from X
       \<lparr>r_schema = rs, r_domain = dom, r_kind = kind, r_id = rid, r_entity = eid, r_batch = bid,
        r_actor = act, r_occurred_at = occ, r_recorded_at = rec, r_parents = [],
        r_payload = payload\<rparr>))))))))))"

definition validate_profile_payload :: "ext \<Rightarrow> kind_id \<Rightarrow> json \<Rightarrow> bool" where
  "validate_profile_payload X kind payload =
     validate_payload X ''wayjournal.profile'' PROFILE_SCHEMA_V1 kind payload"

definition validate_catalog_payload :: "ext \<Rightarrow> kind_id \<Rightarrow> json \<Rightarrow> bool" where
  "validate_catalog_payload X kind payload =
     validate_payload X ''wayjournal.catalog'' CATALOG_SCHEMA_V1 kind payload"

end
