(* ===== verification/Wj_Folds.thy ===== *)
theory Wj_Folds
  imports Wj_Domains
begin

text \<open>
  The folds of \<open>domains.rs\<close>: register and set operations applied in causal order to an
  accumulator. Two accumulators implement one interface: the fold state with its values, and the
  validation state that keeps identifiers only.
\<close>

section \<open>Accumulators\<close>

datatype fold_error =
    FE_Causal causal_error
  | WrongEntity
  | WrongTarget logical_store_id logical_store_id
  | InvalidResolution record_id
  | InvalidObservedRemove record_id

text \<open>The operations of the \<open>FoldAccumulator\<close> trait with \<open>Default\<close>.\<close>

record 's fold_ops =
  acc_default :: 's
  register_ids :: "'s \<Rightarrow> scalar_field \<Rightarrow> record_id list"
  remove_register :: "'s \<Rightarrow> scalar_field \<Rightarrow> record_id \<Rightarrow> 's"
  insert_register :: "'s \<Rightarrow> scalar_field \<Rightarrow> record_id \<Rightarrow> scalar_value \<Rightarrow> 's"
  add_ids :: "'s \<Rightarrow> set_field \<Rightarrow> string \<Rightarrow> record_id list"
  remove_add :: "'s \<Rightarrow> set_field \<Rightarrow> string \<Rightarrow> record_id \<Rightarrow> 's"
  insert_add :: "'s \<Rightarrow> set_field \<Rightarrow> string \<Rightarrow> record_id \<Rightarrow> set_value \<Rightarrow> 's"

record fold_state =
  fs_registers :: "(scalar_field, (record_id, scalar_value) btree) btree"
  fs_adds :: "(set_field \<times> string, (record_id, set_value) btree) btree"

definition bt_entry :: "('k, 'v list) btree \<Rightarrow> 'k \<Rightarrow> 'v list" where
  "bt_entry m k = (case bt_get m k of None \<Rightarrow> [] | Some v \<Rightarrow> v)"

text \<open>\<open>get_mut\<close> with an update in place, and \<open>entry().or_default()\<close> with one.\<close>

definition bt_modify :: "('k, 'v) btree \<Rightarrow> 'k \<Rightarrow> ('v \<Rightarrow> 'v) \<Rightarrow> ('k, 'v) btree" where
  "bt_modify m k f = (case bt_get m k of None \<Rightarrow> m | Some v \<Rightarrow> bt_set k (f v) m)"

definition bt_upsert :: "('k::linorder, 'v list) btree \<Rightarrow> 'k \<Rightarrow> ('v list \<Rightarrow> 'v list) \<Rightarrow> ('k, 'v list) btree" where
  "bt_upsert m k f = bt_insert k (f (bt_entry m k)) m"

definition fold_state_ops :: "fold_state fold_ops" where
  "fold_state_ops =
     \<lparr>acc_default = \<lparr>fs_registers = [], fs_adds = []\<rparr>,
      register_ids = (\<lambda>s field. bt_keys (bt_entry (fs_registers s) field)),
      remove_register = (\<lambda>s field i. s\<lparr>fs_registers := bt_modify (fs_registers s) field (bt_remove i)\<rparr>),
      insert_register = (\<lambda>s field i v. s\<lparr>fs_registers := bt_upsert (fs_registers s) field (bt_insert i v)\<rparr>),
      add_ids = (\<lambda>s field k. bt_keys (bt_entry (fs_adds s) (field, k))),
      remove_add = (\<lambda>s field k i. s\<lparr>fs_adds := bt_modify (fs_adds s) (field, k) (bt_remove i)\<rparr>),
      insert_add = (\<lambda>s field k i v. s\<lparr>fs_adds := bt_upsert (fs_adds s) (field, k) (bt_insert i v)\<rparr>)\<rparr>"

record validation_fold_state =
  vs_registers :: "(scalar_field, record_id list) btree"
  vs_adds :: "(set_field \<times> string, record_id list) btree"

definition bs_remove :: "'a \<Rightarrow> 'a list \<Rightarrow> 'a list" where
  "bs_remove x xs = filter (\<lambda>y. y \<noteq> x) xs"

definition validation_ops :: "validation_fold_state fold_ops" where
  "validation_ops =
     \<lparr>acc_default = \<lparr>vs_registers = [], vs_adds = []\<rparr>,
      register_ids = (\<lambda>s field. bt_entry (vs_registers s) field),
      remove_register = (\<lambda>s field i. s\<lparr>vs_registers := bt_modify (vs_registers s) field (bs_remove i)\<rparr>),
      insert_register = (\<lambda>s field i _. s\<lparr>vs_registers := bt_upsert (vs_registers s) field (bs_insert i)\<rparr>),
      add_ids = (\<lambda>s field k. bt_entry (vs_adds s) (field, k)),
      remove_add = (\<lambda>s field k i. s\<lparr>vs_adds := bt_modify (vs_adds s) (field, k) (bs_remove i)\<rparr>),
      insert_add = (\<lambda>s field k i _. s\<lparr>vs_adds := bt_upsert (vs_adds s) (field, k) (bs_insert i)\<rparr>)\<rparr>"

section \<open>Applying one operation\<close>

fun filter_observed ::
  "'t causal_node \<Rightarrow> 't causal_graph \<Rightarrow> record_id \<Rightarrow> record_id list \<Rightarrow> nat \<Rightarrow> bool \<Rightarrow>
   record_id list \<times> nat \<times> bool" where
  "filter_observed N g i [] budget exceeded = ([], budget, exceeded)"
| "filter_observed N g i (c # cs) budget exceeded =
     (let (seen, budget', exceeded') = observes_bounded N g i c budget exceeded;
          (rest, budget'', exceeded'') = filter_observed N g i cs budget' exceeded'
      in (if seen then c # rest else rest, budget'', exceeded''))"

definition ensure_reachability_budget :: "bool \<Rightarrow> fold_error + unit" where
  "ensure_reachability_budget exceeded =
     (if exceeded then Inl (FE_Causal (ReachabilityBudget MAX_REACHABILITY_STEPS)) else Inr ())"

definition apply_operation ::
  "'s fold_ops \<Rightarrow> 't causal_node \<Rightarrow> 't causal_graph \<Rightarrow> domain_operation \<Rightarrow> 's \<Rightarrow> nat \<Rightarrow> bool \<Rightarrow>
   fold_error + 's \<times> nat \<times> bool" where
  "apply_operation A N g p st budget exceeded =
     (case op_kind p of
        ScalarSet field value \<Rightarrow>
          (let (observed, budget, exceeded) = filter_observed N g (op_id p) (register_ids A st field) budget exceeded
           in rbind (ensure_reachability_budget exceeded) (\<lambda>_.
              Inr (insert_register A (foldl (\<lambda>s c. remove_register A s field c) st observed) field (op_id p) value,
                   budget, exceeded)))
      | ScalarResolve field value candidates \<Rightarrow>
          (let (observed, budget, exceeded) = filter_observed N g (op_id p) (register_ids A st field) budget exceeded
           in rbind (ensure_reachability_budget exceeded) (\<lambda>_.
              if observed \<noteq> candidates then Inl (InvalidResolution (op_id p))
              else Inr (insert_register A (foldl (\<lambda>s c. remove_register A s field c) st candidates) field (op_id p) value,
                   budget, exceeded)))
      | AddOp field k value \<Rightarrow> Inr (insert_add A st field k (op_id p) value, budget, exceeded)
      | RemoveOp field k adds \<Rightarrow>
          (let (observed, budget, exceeded) = filter_observed N g (op_id p) (add_ids A st field k) budget exceeded
           in rbind (ensure_reachability_budget exceeded) (\<lambda>_.
              if observed \<noteq> adds then Inl (InvalidObservedRemove (op_id p))
              else Inr (foldl (\<lambda>s a. remove_add A s field k a) st adds, budget, exceeded))))"

definition apply_catalog_operation ::
  "'s fold_ops \<Rightarrow> 't causal_node \<Rightarrow> 't causal_graph \<Rightarrow> domain_operation \<Rightarrow>
   (logical_store_id, 's) btree \<Rightarrow> nat \<Rightarrow> bool \<Rightarrow>
   fold_error + (logical_store_id, 's) btree \<times> nat \<times> bool" where
  "apply_catalog_operation A N g p states budget exceeded =
     rbind (ok_or WrongEntity (op_target p)) (\<lambda>target.
     rbind (apply_operation A N g p
       (case bt_get states target of None \<Rightarrow> acc_default A | Some s \<Rightarrow> s) budget exceeded)
       (\<lambda>(s, budget, exceeded). Inr (bt_insert target s states, budget, exceeded)))"

section \<open>Folds\<close>

definition mixed_operations :: "domain_operation list \<Rightarrow> string \<Rightarrow> bool" where
  "mixed_operations ops expected \<longleftrightarrow>
     list_ex (\<lambda>p. op_domain p \<noteq> expected \<or>
       Some (op_entity p) \<noteq> (case ops of [] \<Rightarrow> None | q # _ \<Rightarrow> Some (op_entity q))) ops"

definition fold_operations :: "domain_operation list \<Rightarrow> string \<Rightarrow> fold_error + fold_state" where
  "fold_operations ops expected =
     rbind (map_err FE_Causal (causal_graph_new operation_node ops)) (\<lambda>g.
     if mixed_operations ops expected then Inl WrongEntity
     else rbind (try_fold (\<lambda>(st, budget, exceeded) p.
                   apply_operation fold_state_ops operation_node g p st budget exceeded)
                 (acc_default fold_state_ops, MAX_REACHABILITY_STEPS, False) (cg_ordered g))
          (\<lambda>(st, _, _). Inr st))"

datatype 'e fold_load_error = FL_Fold fold_error | FL_Load 'e

definition validate_loaded_builtin_fold ::
  "domain_operation_header list \<Rightarrow> (nat \<Rightarrow> 'e + domain_operation) \<Rightarrow> 'e fold_load_error + unit" where
  "validate_loaded_builtin_fold hs load =
     (case hs of
        [] \<Rightarrow> Inr ()
      | first # _ \<Rightarrow>
          rbind (map_err (FL_Fold \<circ> FE_Causal) (causal_graph_new header_node hs)) (\<lambda>g.
          if list_ex (\<lambda>h. oh_domain h \<noteq> oh_domain first \<or> oh_entity h \<noteq> oh_entity first) hs
          then Inl (FL_Fold WrongEntity)
          else rbind (try_fold (\<lambda>(profile, catalogs, budget, exceeded) h.
                 rbind (map_err FL_Load (load (oh_source h))) (\<lambda>p.
                 if oh_domain first = ''wayjournal.catalog''
                 then rbind (map_err FL_Fold
                        (apply_catalog_operation validation_ops header_node g p catalogs budget exceeded))
                      (\<lambda>(catalogs, budget, exceeded). Inr (profile, catalogs, budget, exceeded))
                 else rbind (map_err FL_Fold
                        (apply_operation validation_ops header_node g p profile budget exceeded))
                      (\<lambda>(profile, budget, exceeded). Inr (profile, catalogs, budget, exceeded))))
               (acc_default validation_ops, [], MAX_REACHABILITY_STEPS, False) (cg_ordered g))
          (\<lambda>_. Inr ())))"

section \<open>Views\<close>

type_synonym 'a mv_register = "'a list"

definition mv_is_conflicted :: "'a mv_register \<Rightarrow> bool" where
  "mv_is_conflicted m \<longleftrightarrow> 1 < length m"

definition mv_resolved :: "'a mv_register \<Rightarrow> 'a option" where
  "mv_resolved m = (case m of [v] \<Rightarrow> Some v | _ \<Rightarrow> None)"

definition sort_dedup :: "'a::linorder list \<Rightarrow> 'a list" where
  "sort_dedup vs = remdups_adj (sort vs)"

definition mv_register_of ::
  "fold_state \<Rightarrow> scalar_field \<Rightarrow> (scalar_value \<Rightarrow> 'a::linorder option) \<Rightarrow> 'a mv_register" where
  "mv_register_of st field conv =
     sort_dedup (List.map_filter conv (bt_values (bt_entry (fs_registers st) field)))"

definition set_values_of ::
  "fold_state \<Rightarrow> set_field \<Rightarrow> (set_value \<Rightarrow> 'a::linorder option) \<Rightarrow> (string, 'a list) btree" where
  "set_values_of st field conv =
     bt_of_list (List.map_filter (\<lambda>((f, k), adds).
       if f \<noteq> field then None
       else (let vs = sort_dedup (List.map_filter conv (bt_values adds)) in
             if vs = [] then None else Some (k, vs))) (fs_adds st))"

definition as_text :: "scalar_value \<Rightarrow> string option" where
  "as_text v = (case v of SV_Text t \<Rightarrow> Some t | _ \<Rightarrow> None)"
definition as_bool :: "scalar_value \<Rightarrow> bool option" where
  "as_bool v = (case v of SV_Bool b \<Rightarrow> Some b | _ \<Rightarrow> None)"
definition as_store :: "scalar_value \<Rightarrow> logical_store_id option" where
  "as_store v = (case v of SV_Store s \<Rightarrow> Some s | _ \<Rightarrow> None)"
definition set_text :: "set_value \<Rightarrow> string option" where
  "set_text v = (case v of TV_Text t \<Rightarrow> Some t | _ \<Rightarrow> None)"
definition set_remote :: "set_value \<Rightarrow> remote_locator option" where
  "set_remote v = (case v of TV_Remote r \<Rightarrow> Some r | _ \<Rightarrow> None)"
definition set_qualified :: "set_value \<Rightarrow> qualified_entity_ref option" where
  "set_qualified v = (case v of TV_Qualified q \<Rightarrow> Some q | _ \<Rightarrow> None)"
definition set_relation :: "set_value \<Rightarrow> catalog_relation option" where
  "set_relation v = (case v of TV_Relation r \<Rightarrow> Some r | _ \<Rightarrow> None)"

record advisory_profile =
  ap_display_name :: "string mv_register"
  ap_description :: "string mv_register"
  ap_application :: "string mv_register"
  ap_remotes :: "(string, remote_locator list) btree"
  ap_relations :: "(string, qualified_entity_ref list) btree"
  ap_capabilities :: "(string, string list) btree"
  ap_aliases :: "(string, string list) btree"
  ap_policies :: "(string, string list) btree"

record catalog_entry =
  ce_target :: logical_store_id
  ce_name :: "string mv_register"
  ce_enabled :: "bool mv_register"
  ce_default_store :: "logical_store_id mv_register"
  ce_aliases :: "(string, string list) btree"
  ce_remotes :: "(string, remote_locator list) btree"
  ce_groups :: "(string, string list) btree"
  ce_relations :: "(string, catalog_relation list) btree"

definition implicit_destination :: "catalog_entry \<Rightarrow> logical_store_id option" where
  "implicit_destination e = mv_resolved (ce_default_store e)"

definition alias_is_ambiguous :: "catalog_entry \<Rightarrow> string \<Rightarrow> bool" where
  "alias_is_ambiguous e a = (case bt_get (ce_aliases e) a of None \<Rightarrow> False | Some vs \<Rightarrow> 1 < length vs)"

definition fold_profile :: "domain_operation list \<Rightarrow> fold_error + advisory_profile" where
  "fold_profile ops =
     rbind (fold_operations ops ''wayjournal.profile'') (\<lambda>st. Inr
       \<lparr>ap_display_name = mv_register_of st DisplayName as_text,
        ap_description = mv_register_of st Description as_text,
        ap_application = mv_register_of st Application as_text,
        ap_remotes = set_values_of st F_Remote set_remote,
        ap_relations = set_values_of st F_Relation set_qualified,
        ap_capabilities = set_values_of st F_Capability set_text,
        ap_aliases = set_values_of st F_Alias set_text,
        ap_policies = set_values_of st F_Policy set_text\<rparr>)"

definition catalog_entry_of :: "logical_store_id \<Rightarrow> fold_state \<Rightarrow> catalog_entry" where
  "catalog_entry_of target st =
     \<lparr>ce_target = target,
      ce_name = mv_register_of st EntryName as_text,
      ce_enabled = mv_register_of st Enabled as_bool,
      ce_default_store = mv_register_of st DefaultStore as_store,
      ce_aliases = set_values_of st F_Alias set_text,
      ce_remotes = set_values_of st F_Remote set_remote,
      ce_groups = set_values_of st F_Group set_text,
      ce_relations = set_values_of st F_Relation set_relation\<rparr>"

definition fold_catalogs ::
  "domain_operation list \<Rightarrow> fold_error + (logical_store_id, catalog_entry) btree" where
  "fold_catalogs ops =
     rbind (map_err FE_Causal (causal_graph_new operation_node ops)) (\<lambda>g.
     if mixed_operations ops ''wayjournal.catalog'' then Inl WrongEntity
     else rbind (try_fold (\<lambda>(states, budget, exceeded) p.
                   apply_catalog_operation fold_state_ops operation_node g p states budget exceeded)
                 ([], MAX_REACHABILITY_STEPS, False) (cg_ordered g))
          (\<lambda>(states, _, _). Inr (map (\<lambda>(t, st). (t, catalog_entry_of t st)) states)))"

definition fold_catalog :: "domain_operation list \<Rightarrow> fold_error + catalog_entry" where
  "fold_catalog ops =
     rbind (ok_or WrongEntity (case ops of [] \<Rightarrow> None | p # _ \<Rightarrow> op_target p)) (\<lambda>target.
     case find (\<lambda>actual. actual \<noteq> target) (List.map_filter op_target ops) of
       Some actual \<Rightarrow> Inl (WrongTarget target actual)
     | None \<Rightarrow> rbind (fold_catalogs ops) (\<lambda>entries. ok_or WrongEntity (bt_get entries target)))"

section \<open>The accumulator interface\<close>

text \<open>The abstract accumulator: the active identifiers of every register and every set key.\<close>

type_synonym ids_state = "(scalar_field \<Rightarrow> record_id list) \<times> (set_field \<times> string \<Rightarrow> record_id list)"

definition ids_ops :: "ids_state fold_ops" where
  "ids_ops =
     \<lparr>acc_default = (\<lambda>_. [], \<lambda>_. []),
      register_ids = (\<lambda>s field. fst s field),
      remove_register = (\<lambda>s field i. ((fst s)(field := bs_remove i (fst s field)), snd s)),
      insert_register = (\<lambda>s field i _. ((fst s)(field := bs_insert i (fst s field)), snd s)),
      add_ids = (\<lambda>s field k. snd s (field, k)),
      remove_add = (\<lambda>s field k i. (fst s, (snd s)((field, k) := bs_remove i (snd s (field, k))))),
      insert_add = (\<lambda>s field k i _. (fst s, (snd s)((field, k) := bs_insert i (snd s (field, k)))))\<rparr>"

definition ids_of :: "'s fold_ops \<Rightarrow> 's \<Rightarrow> ids_state" where
  "ids_of A s = (register_ids A s, \<lambda>(field, k). add_ids A s field k)"

definition map_state :: "('s \<Rightarrow> 'u) \<Rightarrow> 'e + 's \<times> 'b \<Rightarrow> 'e + 'u \<times> 'b" where
  "map_state f r = rbind r (\<lambda>(s, b). Inr (f s, b))"

locale fold_accumulator =
  fixes A :: "'s fold_ops" and inv :: "'s \<Rightarrow> bool"
  assumes inv_default: "inv (acc_default A)"
    and inv_remove_register: "inv s \<Longrightarrow> inv (remove_register A s field i)"
    and inv_insert_register: "inv s \<Longrightarrow> inv (insert_register A s field i v)"
    and inv_remove_add: "inv s \<Longrightarrow> inv (remove_add A s sf k i)"
    and inv_insert_add: "inv s \<Longrightarrow> inv (insert_add A s sf k i w)"
    and abs_default: "ids_of A (acc_default A) = acc_default ids_ops"
    and abs_remove_register:
      "inv s \<Longrightarrow> ids_of A (remove_register A s field i) = remove_register ids_ops (ids_of A s) field i"
    and abs_insert_register:
      "inv s \<Longrightarrow> ids_of A (insert_register A s field i v) = insert_register ids_ops (ids_of A s) field i v"
    and abs_remove_add:
      "inv s \<Longrightarrow> ids_of A (remove_add A s sf k i) = remove_add ids_ops (ids_of A s) sf k i"
    and abs_insert_add:
      "inv s \<Longrightarrow> ids_of A (insert_add A s sf k i w) = insert_add ids_ops (ids_of A s) sf k i w"
begin

lemma abs_remove_registers:
  "inv s \<Longrightarrow> inv (foldl (\<lambda>s c. remove_register A s field c) s cs) \<and>
   ids_of A (foldl (\<lambda>s c. remove_register A s field c) s cs) =
     foldl (\<lambda>s c. remove_register ids_ops s field c) (ids_of A s) cs"
  by (induction cs arbitrary: s) (auto simp: inv_remove_register abs_remove_register)

lemma abs_remove_adds:
  "inv s \<Longrightarrow> inv (foldl (\<lambda>s c. remove_add A s sf k c) s cs) \<and>
   ids_of A (foldl (\<lambda>s c. remove_add A s sf k c) s cs) =
     foldl (\<lambda>s c. remove_add ids_ops s sf k c) (ids_of A s) cs"
  by (induction cs arbitrary: s) (auto simp: inv_remove_add abs_remove_add)

lemma register_ids_abs: "register_ids ids_ops (ids_of A s) field = register_ids A s field"
  by (simp add: ids_ops_def ids_of_def)

lemma add_ids_abs: "add_ids ids_ops (ids_of A s) sf k = add_ids A s sf k"
  by (simp add: ids_ops_def ids_of_def)

text \<open>Every accumulator refines the abstract one: same errors, same budget, same identifiers.\<close>

lemma apply_refines:
  assumes "inv s"
  shows "map_state (ids_of A) (apply_operation A N g p s b e) = apply_operation ids_ops N g p (ids_of A s) b e"
    and "apply_operation A N g p s b e = Inr (s', b', e') \<Longrightarrow> inv s'"
proof -
  show "map_state (ids_of A) (apply_operation A N g p s b e) = apply_operation ids_ops N g p (ids_of A s) b e"
    using assms abs_remove_registers abs_remove_adds
    by (cases "op_kind p")
      (auto simp: apply_operation_def register_ids_abs add_ids_abs map_state_def abs_insert_register
        abs_insert_add ensure_reachability_budget_def split: prod.splits)
  show "apply_operation A N g p s b e = Inr (s', b', e') \<Longrightarrow> inv s'"
    using assms abs_remove_registers abs_remove_adds
    by (cases "op_kind p")
      (auto simp: apply_operation_def result_simps inv_insert_register inv_insert_add split: prod.splits)
qed

end

section \<open>The two accumulators\<close>

lemma bt_get_bt_set_same: "bt_get m k = Some w \<Longrightarrow> bt_get (bt_set k v m) j = (if j = k then Some v else bt_get m j)"
  by (simp add: bt_get_bt_set)

lemma bt_entry_modify: "f [] = [] \<Longrightarrow> bt_entry (bt_modify m k f) j = (if j = k then f (bt_entry m k) else bt_entry m j)"
  by (auto simp: bt_entry_def bt_modify_def bt_get_bt_set split: option.splits)

lemma bt_entry_upsert: "bt_entry (bt_upsert m k f) j = (if j = k then f (bt_entry m k) else bt_entry m j)"
  by (simp add: bt_entry_def bt_upsert_def bt_get_insert)

lemma bt_keys_insert: "bt_keys (bt_insert k v m) = bs_insert k (bt_keys m)"
  by (induction k v m rule: bt_insert.induct) (auto simp: bt_keys_def)

lemma bt_keys_remove: "bt_wf m \<Longrightarrow> bt_keys (bt_remove k m) = bs_remove k (bt_keys m)"
proof (induction m)
  case (Cons kv m)
  obtain a v where [simp]: "kv = (a, v)" by (cases kv)
  have wf: "bt_wf m" "\<forall>b\<in>set (bt_keys m). a < b"
    using Cons.prems by (auto simp: bt_wf_def bt_keys_def strictly_ordered_iff)
  then have "bs_remove a (bt_keys m) = bt_keys m"
    by (auto simp: bs_remove_def filter_id_conv)
  then show ?case
    using Cons.IH[OF wf(1)] by (auto simp: bt_keys_def bs_remove_def)
qed (simp add: bt_keys_def bs_remove_def)

lemma bt_wf_modify: "bt_wf m \<Longrightarrow> bt_wf (bt_modify m k f)"
  by (simp add: bt_modify_def split: option.splits)

lemma bt_wf_upsert: "bt_wf m \<Longrightarrow> bt_wf (bt_upsert m k f)"
  by (simp add: bt_upsert_def bt_wf_insert)

definition fold_state_inv :: "fold_state \<Rightarrow> bool" where
  "fold_state_inv s \<longleftrightarrow> bt_wf (fs_adds s) \<and> (\<forall>field. bt_wf (bt_entry (fs_registers s) field)) \<and> (\<forall>k. bt_wf (bt_entry (fs_adds s) k))"

interpretation fold_acc: fold_accumulator fold_state_ops fold_state_inv
  by unfold_locales
    (auto simp: fold_state_ops_def fold_state_inv_def ids_ops_def ids_of_def bt_entry_modify bt_entry_upsert
      bt_wf_remove bt_wf_insert bt_keys_insert bt_keys_remove bt_wf_modify bt_wf_upsert fun_eq_iff,
     auto simp: bt_entry_def bt_keys_def)

interpretation validation_acc: fold_accumulator validation_ops "\<lambda>_. True"
  by unfold_locales
    (auto simp: validation_ops_def ids_ops_def ids_of_def bt_entry_modify bt_entry_upsert fun_eq_iff bs_remove_def,
     auto simp: bt_entry_def)

section \<open>Folds over a causal order\<close>

lemma filter_observed_flag:
  "filter_observed N g i cs b e = (os, b', e') \<Longrightarrow> e \<Longrightarrow> e'"
proof (induction cs arbitrary: b e os)
  case (Cons c cs)
  obtain seen b1 e1 where o: "observes_bounded N g i c b e = (seen, b1, e1)"
    by (cases "observes_bounded N g i c b e") auto
  then have "e1"
    using Cons.prems(2) observes_loop_flag unfolding observes_bounded_def by blast
  then show ?case
    using Cons o by (auto split: prod.splits)
qed simp

lemma filter_observed_spec:
  assumes "causal_graph_new N ns = Inr g"
  shows "filter_observed N g i cs b e = (os, b', e') \<Longrightarrow> \<not> e' \<Longrightarrow>
    os = filter (\<lambda>c. (i, c) \<in> (parent_rel N ns)\<^sup>+) cs"
proof (induction cs arbitrary: b e os)
  case (Cons c cs)
  obtain seen b1 e1 where o: "observes_bounded N g i c b e = (seen, b1, e1)"
    by (cases "observes_bounded N g i c b e") auto
  obtain os' where r: "filter_observed N g i cs b1 e1 = (os', b', e')" "os = (if seen then c # os' else os')"
    using Cons.prems(1) o by (auto split: prod.splits)
  have "\<not> e1"
    using filter_observed_flag[OF r(1)] Cons.prems(2) by blast
  then have "seen \<longleftrightarrow> (i, c) \<in> (parent_rel N ns)\<^sup>+"
    by (rule observes_bounded_spec[OF assms o])
  then show ?case
    using Cons.IH[OF r(1) Cons.prems(2)] r(2) by simp
qed simp

text \<open>Which operations write a register, add to a set key, or remove from it.\<close>

definition writes :: "scalar_field \<Rightarrow> domain_operation \<Rightarrow> bool" where
  "writes field p \<longleftrightarrow> (case op_kind p of ScalarSet f _ \<Rightarrow> f = field | ScalarResolve f _ _ \<Rightarrow> f = field | _ \<Rightarrow> False)"

definition adds_key :: "set_field \<times> string \<Rightarrow> domain_operation \<Rightarrow> bool" where
  "adds_key sk p \<longleftrightarrow> (case op_kind p of AddOp f k _ \<Rightarrow> (f, k) = sk | _ \<Rightarrow> False)"

definition removes_key :: "set_field \<times> string \<Rightarrow> domain_operation \<Rightarrow> bool" where
  "removes_key sk p \<longleftrightarrow> (case op_kind p of RemoveOp f k _ \<Rightarrow> (f, k) = sk | _ \<Rightarrow> False)"

text \<open>
  The specification of the folded state over a set of operations with an ancestry relation: a
  register holds the writes no other write has observed, a set key the adds no remove has
  observed.
\<close>

definition maximal_writes ::
  "(record_id \<times> record_id) set \<Rightarrow> domain_operation set \<Rightarrow> scalar_field \<Rightarrow> record_id set" where
  "maximal_writes Anc ps field =
     {op_id p | p. p \<in> ps \<and> writes field p \<and> \<not> (\<exists>q\<in>ps. writes field q \<and> (op_id q, op_id p) \<in> Anc)}"

definition live_adds ::
  "(record_id \<times> record_id) set \<Rightarrow> domain_operation set \<Rightarrow> set_field \<times> string \<Rightarrow> record_id set" where
  "live_adds Anc ps sk =
     {op_id p | p. p \<in> ps \<and> adds_key sk p \<and> \<not> (\<exists>q\<in>ps. removes_key sk q \<and> (op_id q, op_id p) \<in> Anc)}"

definition ids_spec ::
  "(record_id \<times> record_id) set \<Rightarrow> domain_operation set \<Rightarrow> ids_state \<Rightarrow> bool" where
  "ids_spec Anc ps s \<longleftrightarrow>
     (\<forall>field. strictly_ordered (fst s field) \<and> set (fst s field) = maximal_writes Anc ps field) \<and>
     (\<forall>sk. strictly_ordered (snd s sk) \<and> set (snd s sk) = live_adds Anc ps sk)"

lemma foldl_remove_registers:
  "foldl (\<lambda>s c. remove_register ids_ops s field c) s cs =
   ((fst s)(field := filter (\<lambda>i. i \<notin> set cs) (fst s field)), snd s)"
  by (induction cs arbitrary: s)
    (auto simp: ids_ops_def bs_remove_def fun_eq_iff intro!: filter_cong)

lemma foldl_remove_adds:
  "foldl (\<lambda>s c. remove_add ids_ops s sf k c) s cs =
   (fst s, (snd s)((sf, k) := filter (\<lambda>i. i \<notin> set cs) (snd s (sf, k))))"
  by (induction cs arbitrary: s)
    (auto simp: ids_ops_def bs_remove_def fun_eq_iff intro!: filter_cong)

lemma ids_insert_register:
  "insert_register ids_ops s field i v = ((fst s)(field := bs_insert i (fst s field)), snd s)"
  by (simp add: ids_ops_def)

lemma adds_not_removes: "adds_key sk p \<Longrightarrow> \<not> removes_key sk p"
  by (auto simp: adds_key_def removes_key_def split: operation_kind.splits)

lemma filter_not_in_filter: "filter (\<lambda>i. i \<in> set xs \<longrightarrow> \<not> P i) xs = filter (\<lambda>i. \<not> P i) xs"
  by (rule filter_cong) auto

text \<open>The effect of one accepted operation on the abstract state.\<close>

definition ids_effect :: "(record_id \<times> record_id) set \<Rightarrow> domain_operation \<Rightarrow> ids_state \<Rightarrow> ids_state" where
  "ids_effect Anc p s =
     (\<lambda>field. if writes field p
        then bs_insert (op_id p) (filter (\<lambda>c. (op_id p, c) \<notin> Anc) (fst s field)) else fst s field,
      \<lambda>sk. if adds_key sk p then bs_insert (op_id p) (snd s sk)
        else if removes_key sk p then filter (\<lambda>c. (op_id p, c) \<notin> Anc) (snd s sk) else snd s sk)"

lemma apply_ids_effect:
  assumes g: "causal_graph_new N ns = Inr g"
    and ap: "apply_operation ids_ops N g p s b e = Inr (s', b', e')" and "\<not> e'"
  shows "s' = ids_effect ((parent_rel N ns)\<^sup>+) p s"
proof (cases "op_kind p")
  case (ScalarSet field v)
  obtain os b1 e1 where f: "filter_observed N g (op_id p) (fst s field) b e = (os, b1, e1)"
    by (cases "filter_observed N g (op_id p) (fst s field) b e") auto
  have "e1 = e'" "s' = insert_register ids_ops (foldl (\<lambda>s c. remove_register ids_ops s field c) s os) field (op_id p) v"
    using ap ScalarSet f by (auto simp: apply_operation_def result_simps ids_ops_def)
  moreover have "os = filter (\<lambda>c. (op_id p, c) \<in> (parent_rel N ns)\<^sup>+) (fst s field)"
    using filter_observed_spec[OF g f] calculation(1) assms(3) by simp
  ultimately show ?thesis
    using ScalarSet
    by (auto simp: foldl_remove_registers filter_not_in_filter ids_effect_def writes_def adds_key_def
        removes_key_def ids_insert_register fun_eq_iff)
next
  case (ScalarResolve field v cands)
  obtain os b1 e1 where f: "filter_observed N g (op_id p) (fst s field) b e = (os, b1, e1)"
    by (cases "filter_observed N g (op_id p) (fst s field) b e") auto
  have "e1 = e'" "os = cands"
    "s' = insert_register ids_ops (foldl (\<lambda>s c. remove_register ids_ops s field c) s cands) field (op_id p) v"
    using ap ScalarResolve f by (auto simp: apply_operation_def result_simps ids_ops_def)
  moreover have "os = filter (\<lambda>c. (op_id p, c) \<in> (parent_rel N ns)\<^sup>+) (fst s field)"
    using filter_observed_spec[OF g f] calculation(1) assms(3) by simp
  ultimately show ?thesis
    using ScalarResolve
    by (auto simp: foldl_remove_registers filter_not_in_filter ids_effect_def writes_def adds_key_def
        removes_key_def ids_insert_register fun_eq_iff)
next
  case (AddOp sf k v)
  then show ?thesis
    using ap by (auto simp: apply_operation_def ids_ops_def ids_effect_def writes_def adds_key_def
        removes_key_def fun_eq_iff)
next
  case (RemoveOp sf k adds)
  obtain os b1 e1 where f: "filter_observed N g (op_id p) (snd s (sf, k)) b e = (os, b1, e1)"
    by (cases "filter_observed N g (op_id p) (snd s (sf, k)) b e") auto
  have "e1 = e'" "os = adds" "s' = foldl (\<lambda>s c. remove_add ids_ops s sf k c) s adds"
    using ap RemoveOp f by (auto simp: apply_operation_def result_simps ids_ops_def)
  moreover have "os = filter (\<lambda>c. (op_id p, c) \<in> (parent_rel N ns)\<^sup>+) (snd s (sf, k))"
    using filter_observed_spec[OF g f] calculation(1) assms(3) by simp
  ultimately show ?thesis
    using RemoveOp
    by (auto simp: foldl_remove_adds filter_not_in_filter ids_effect_def writes_def adds_key_def
        removes_key_def fun_eq_iff)
qed

lemma ids_effect_spec:
  assumes s: "ids_spec Anc ps s"
    and old: "\<And>q. q \<in> ps \<Longrightarrow> (op_id q, op_id p) \<notin> Anc" and new: "op_id p \<notin> op_id ` ps"
    and irr: "(op_id p, op_id p) \<notin> Anc"
  shows "ids_spec Anc (insert p ps) (ids_effect Anc p s)"
proof -
  have reg: "set (fst (ids_effect Anc p s) field) = maximal_writes Anc (insert p ps) field" for field
    using s old irr by (auto simp: ids_effect_def ids_spec_def maximal_writes_def)
  have add: "set (snd (ids_effect Anc p s) sk) = live_adds Anc (insert p ps) sk" for sk
  proof -
    have "set (snd s sk) = live_adds Anc ps sk"
      using s unfolding ids_spec_def by blast
    then show ?thesis
      using old irr adds_not_removes[of sk p] by (auto simp: ids_effect_def live_adds_def)
  qed
  have "strictly_ordered (fst (ids_effect Anc p s) field)" "strictly_ordered (snd (ids_effect Anc p s) sk)" for field sk
  proof -
    have "strictly_ordered (fst s field)" "strictly_ordered (snd s sk)"
      using s unfolding ids_spec_def by blast+
    then show "strictly_ordered (fst (ids_effect Anc p s) field)" "strictly_ordered (snd (ids_effect Anc p s) sk)"
      by (auto simp: ids_effect_def strictly_ordered_iff intro!: ordered_bs_insert sorted_wrt_filter)
  qed
  then show ?thesis
    using reg add by (simp add: ids_spec_def)
qed

lemma apply_flag: "apply_operation A N g p s b False = Inr (s', b', e') \<Longrightarrow> \<not> e'"
  by (cases "op_kind p")
    (auto simp: apply_operation_def result_simps ensure_reachability_budget_def split: prod.splits if_splits)

definition fold_step ::
  "'s fold_ops \<Rightarrow> 't causal_node \<Rightarrow> 't causal_graph \<Rightarrow> 's \<times> nat \<times> bool \<Rightarrow> domain_operation \<Rightarrow>
   fold_error + 's \<times> nat \<times> bool" where
  "fold_step A N g = (\<lambda>(st, budget, exceeded) p. apply_operation A N g p st budget exceeded)"

lemma ordered_facts:
  assumes g: "causal_graph_new N ns = Inr g" and split: "cg_ordered g = pre @ p # post"
  shows "\<And>q. q \<in> set pre \<Longrightarrow> (node_id N q, node_id N p) \<notin> (parent_rel N ns)\<^sup>+"
    and "node_id N p \<notin> node_id N ` set pre" and "(node_id N p, node_id N p) \<notin> (parent_rel N ns)\<^sup>+"
proof -
  have can: "canonical_from N ns {} (cg_ordered g)" "set (cg_ordered g) = set ns"
    and inj: "inj_on (node_id N) (set ns)" and ac: "acyclic (parent_rel N ns)"
    using g by (auto simp: causal_graph_new_Inr_iff closed_input_def distinct_map)
  have d: "distinct (map (node_id N) (cg_ordered g))"
    using canonical_distinct[OF can(1)] by simp
  then show new: "node_id N p \<notin> node_id N ` set pre"
    by (auto simp: split)
  show "(node_id N p, node_id N p) \<notin> (parent_rel N ns)\<^sup>+"
    using ac by (simp add: acyclic_def)
  show "(node_id N q, node_id N p) \<notin> (parent_rel N ns)\<^sup>+" if q: "q \<in> set pre" for q
  proof
    assume path: "(node_id N q, node_id N p) \<in> (parent_rel N ns)\<^sup>+"
    obtain k where k: "k < length pre" "pre ! k = q"
      using q by (auto simp: in_set_conv_nth)
    then have "cg_ordered g ! k = q" "k < length (cg_ordered g)"
      by (auto simp: split nth_append)
    then obtain j where "j < k" "node_id N p = node_id N (cg_ordered g ! j)"
      using canonical_ancestors_earlier[OF inj can, of k "node_id N p"] path by auto
    then have "node_id N p \<in> node_id N ` set pre"
      using k by (auto simp: split nth_append)
    then show False using new by simp
  qed
qed

context fold_accumulator
begin

lemma fold_refines:
  assumes "inv s"
  shows "map_state (ids_of A) (try_fold (fold_step A N g) (s, b, e) ps) =
      try_fold (fold_step ids_ops N g) (ids_of A s, b, e) ps"
    and "try_fold (fold_step A N g) (s, b, e) ps = Inr (s', b', e') \<Longrightarrow> inv s'"
proof -
  have both: "map_state (ids_of A) (try_fold (fold_step A N g) (s, b, e) ps) =
      try_fold (fold_step ids_ops N g) (ids_of A s, b, e) ps \<and>
      (\<forall>s' b' e'. try_fold (fold_step A N g) (s, b, e) ps = Inr (s', b', e') \<longrightarrow> inv s')"
    using assms
  proof (induction ps arbitrary: s b e)
    case Nil
    then show ?case by (simp add: map_state_def)
  next
    case (Cons p ps)
    note r = apply_refines[OF Cons.prems, of N g p b e]
    show ?case
    proof (cases "apply_operation A N g p s b e")
      case (Inl err)
      then have "apply_operation ids_ops N g p (ids_of A s) b e = Inl err"
        using r(1) by (simp add: map_state_def)
      then show ?thesis using Inl by (simp add: fold_step_def map_state_def)
    next
      case (Inr st)
      obtain s1 b1 e1 where st: "st = (s1, b1, e1)" by (cases st) auto
      have "apply_operation ids_ops N g p (ids_of A s) b e = Inr (ids_of A s1, b1, e1)"
        using r(1) Inr st by (simp add: map_state_def)
      moreover have "inv s1" using r(2) Inr st by simp
      ultimately show ?thesis
        using Cons.IH[of s1 b1 e1] Inr st by (simp add: fold_step_def)
    qed
  qed
  then show "map_state (ids_of A) (try_fold (fold_step A N g) (s, b, e) ps) =
      try_fold (fold_step ids_ops N g) (ids_of A s, b, e) ps" by blast
  show "try_fold (fold_step A N g) (s, b, e) ps = Inr (s', b', e') \<Longrightarrow> inv s'"
    using both by blast
qed

end

section \<open>Values\<close>

definition write_value :: "scalar_field \<Rightarrow> domain_operation \<Rightarrow> scalar_value option" where
  "write_value field p =
     (case op_kind p of
        ScalarSet f v \<Rightarrow> if f = field then Some v else None
      | ScalarResolve f v _ \<Rightarrow> if f = field then Some v else None
      | _ \<Rightarrow> None)"

definition add_value :: "set_field \<times> string \<Rightarrow> domain_operation \<Rightarrow> set_value option" where
  "add_value sk p = (case op_kind p of AddOp f k v \<Rightarrow> if (f, k) = sk then Some v else None | _ \<Rightarrow> None)"

lemma write_value_writes: "writes field p \<longleftrightarrow> write_value field p \<noteq> None"
  by (auto simp: writes_def write_value_def split: operation_kind.splits)

lemma add_value_adds: "adds_key sk p \<longleftrightarrow> add_value sk p \<noteq> None"
  by (auto simp: adds_key_def add_value_def split: operation_kind.splits)

definition values_from :: "domain_operation set \<Rightarrow> fold_state \<Rightarrow> bool" where
  "values_from ps st \<longleftrightarrow>
     (\<forall>field i v. (i, v) \<in> set (bt_entry (fs_registers st) field) \<longrightarrow>
        (\<exists>p\<in>ps. op_id p = i \<and> write_value field p = Some v)) \<and>
     (\<forall>sk i v. (i, v) \<in> set (bt_entry (fs_adds st) sk) \<longrightarrow>
        (\<exists>p\<in>ps. op_id p = i \<and> add_value sk p = Some v))"

text \<open>A fold state that holds exactly what the operations in \<open>ps\<close> prescribe.\<close>

definition state_spec :: "(record_id \<times> record_id) set \<Rightarrow> domain_operation set \<Rightarrow> fold_state \<Rightarrow> bool" where
  "state_spec Anc ps st \<longleftrightarrow>
     fold_state_inv st \<and> ids_spec Anc ps (ids_of fold_state_ops st) \<and> values_from ps st"

lemma bt_entry_nil [simp]: "bt_entry [] k = []"
  by (simp add: bt_entry_def)

lemma state_spec_default: "state_spec Anc {} (acc_default fold_state_ops)"
  by (simp add: state_spec_def fold_state_inv_def fold_state_ops_def ids_spec_def ids_of_def
      values_from_def maximal_writes_def live_adds_def strictly_ordered_iff bt_keys_def bt_wf_def
      split_paired_all)

lemma values_from_mono: "values_from ps st \<Longrightarrow> ps \<subseteq> qs \<Longrightarrow> values_from qs st"
  unfolding values_from_def by blast

lemma values_from_remove_register:
  "values_from ps st \<Longrightarrow> values_from ps (remove_register fold_state_ops st field i)"
  using set_bt_remove_subset unfolding values_from_def
  by (fastforce simp: fold_state_ops_def bt_entry_modify split: if_splits)

lemma values_from_remove_add:
  "values_from ps st \<Longrightarrow> values_from ps (remove_add fold_state_ops st sf k i)"
  using set_bt_remove_subset unfolding values_from_def
  by (fastforce simp: fold_state_ops_def bt_entry_modify split: if_splits)

lemma values_from_removes:
  "values_from ps st \<Longrightarrow> values_from ps (foldl (\<lambda>s c. remove_register fold_state_ops s field c) st cs)"
  "values_from ps st \<Longrightarrow> values_from ps (foldl (\<lambda>s c. remove_add fold_state_ops s sf k c) st cs)"
  by (induction cs arbitrary: st) (auto simp: values_from_remove_register values_from_remove_add)

lemma values_from_insert_register:
  assumes "values_from ps st" "p \<in> ps" "write_value field p = Some v"
  shows "values_from ps (insert_register fold_state_ops st field (op_id p) v)"
  using assms set_bt_insert_subset[of "op_id p" v] unfolding values_from_def
  by (fastforce simp: fold_state_ops_def bt_entry_upsert split: if_splits)

lemma values_from_insert_add:
  assumes "values_from ps st" "p \<in> ps" "add_value (sf, k) p = Some v"
  shows "values_from ps (insert_add fold_state_ops st sf k (op_id p) v)"
  using assms set_bt_insert_subset[of "op_id p" v] unfolding values_from_def
  by (fastforce simp: fold_state_ops_def bt_entry_upsert split: if_splits)

lemma values_from_apply:
  assumes "values_from ps st" "apply_operation fold_state_ops N g p st b e = Inr (st', b', e')"
  shows "values_from (insert p ps) st'"
proof -
  have m: "values_from (insert p ps) st"
    using assms(1) by (rule values_from_mono) auto
  show ?thesis
    using assms(2) m
    by (cases "op_kind p")
      (auto simp: apply_operation_def result_simps values_from_removes write_value_def add_value_def
        intro!: values_from_insert_register values_from_insert_add split: prod.splits)
qed

text \<open>One accepted operation, applied after everything it can have observed.\<close>

lemma apply_state_spec:
  assumes g: "causal_graph_new N ns = Inr g" and s: "state_spec ((parent_rel N ns)\<^sup>+) ps st"
    and old: "\<And>q. q \<in> ps \<Longrightarrow> (op_id q, op_id p) \<notin> (parent_rel N ns)\<^sup>+" and new: "op_id p \<notin> op_id ` ps"
    and irr: "(op_id p, op_id p) \<notin> (parent_rel N ns)\<^sup>+"
    and ap: "apply_operation fold_state_ops N g p st b False = Inr (st', b', e')"
  shows "state_spec ((parent_rel N ns)\<^sup>+) (insert p ps) st' \<and> \<not> e'"
proof -
  have inv: "fold_state_inv st" using s by (simp add: state_spec_def)
  have e: "\<not> e'" by (rule apply_flag[OF ap])
  have "apply_operation ids_ops N g p (ids_of fold_state_ops st) b False = Inr (ids_of fold_state_ops st', b', e')"
    using fold_acc.apply_refines(1)[OF inv, of N g p b False] ap by (simp add: map_state_def)
  from apply_ids_effect[OF g this e]
  have "ids_spec ((parent_rel N ns)\<^sup>+) (insert p ps) (ids_of fold_state_ops st')"
    using ids_effect_spec[OF _ old new irr] s by (simp add: state_spec_def)
  then show ?thesis
    using e values_from_apply[OF _ ap] fold_acc.apply_refines(2)[OF inv ap] s by (simp add: state_spec_def)
qed

lemma operation_node_simps [simp]: "node_id operation_node = op_id" "node_parents operation_node = op_parents"
  by (simp_all add: operation_node_def)

lemma fold_state_spec:
  assumes g: "causal_graph_new operation_node ops = Inr g"
  shows "cg_ordered g = pre @ post \<Longrightarrow> state_spec ((parent_rel operation_node ops)\<^sup>+) (set pre) s \<Longrightarrow>
    try_fold (fold_step fold_state_ops operation_node g) (s, b, False) post = Inr (s', b', e') \<Longrightarrow>
    state_spec ((parent_rel operation_node ops)\<^sup>+) (set ops) s'"
proof (induction post arbitrary: pre s b)
  case Nil
  then have "set pre = set ops"
    using g by (simp add: causal_graph_new_Inr_iff)
  then show ?case using Nil by simp
next
  case (Cons p post)
  obtain s1 b1 e1 where ap: "apply_operation fold_state_ops operation_node g p s b False = Inr (s1, b1, e1)"
      and rest: "try_fold (fold_step fold_state_ops operation_node g) (s1, b1, e1) post = Inr (s', b', e')"
    using Cons.prems(3) by (auto simp: result_simps fold_step_def)
  have "state_spec ((parent_rel operation_node ops)\<^sup>+) (insert p (set pre)) s1 \<and> \<not> e1"
    using apply_state_spec[OF g Cons.prems(2) _ _ _ ap] ordered_facts[OF g Cons.prems(1)] by simp
  then show ?case
    using Cons.IH[of "pre @ [p]" s1 b1] Cons.prems(1) rest by simp
qed

lemma fold_operations_spec:
  assumes "fold_operations ops expected = Inr st"
  shows "state_spec ((parent_rel operation_node ops)\<^sup>+) (set ops) st"
proof -
  obtain g b e where g: "causal_graph_new operation_node ops = Inr g"
      and f: "try_fold (fold_step fold_state_ops operation_node g)
        (acc_default fold_state_ops, MAX_REACHABILITY_STEPS, False) (cg_ordered g) = Inr (st, b, e)"
    using assms by (auto simp: fold_operations_def result_simps fold_step_def)
  show ?thesis
    using fold_state_spec[OF g _ _ f, of "[]"] state_spec_default by simp
qed

section \<open>Views characterised\<close>

definition register_spec ::
  "(record_id \<times> record_id) set \<Rightarrow> domain_operation set \<Rightarrow> scalar_field \<Rightarrow>
   (scalar_value \<Rightarrow> 'a::linorder option) \<Rightarrow> 'a list \<Rightarrow> bool" where
  "register_spec Anc ps field conv vs \<longleftrightarrow>
     strictly_ordered vs \<and>
     set vs = {x. \<exists>p\<in>ps. \<exists>v. write_value field p = Some v \<and> conv v = Some x \<and>
       \<not> (\<exists>q\<in>ps. writes field q \<and> (op_id q, op_id p) \<in> Anc)}"

definition live_values ::
  "(record_id \<times> record_id) set \<Rightarrow> domain_operation set \<Rightarrow> set_field \<times> string \<Rightarrow>
   (set_value \<Rightarrow> 'a option) \<Rightarrow> 'a set" where
  "live_values Anc ps sk conv =
     {x. \<exists>p\<in>ps. \<exists>v. add_value sk p = Some v \<and> conv v = Some x \<and>
       \<not> (\<exists>q\<in>ps. removes_key sk q \<and> (op_id q, op_id p) \<in> Anc)}"

definition values_spec ::
  "(record_id \<times> record_id) set \<Rightarrow> domain_operation set \<Rightarrow> set_field \<Rightarrow>
   (set_value \<Rightarrow> 'a::linorder option) \<Rightarrow> (string, 'a list) btree \<Rightarrow> bool" where
  "values_spec Anc ps field conv m \<longleftrightarrow>
     bt_wf m \<and>
     (\<forall>k. case bt_get m k of
        None \<Rightarrow> live_values Anc ps (field, k) conv = {}
      | Some vs \<Rightarrow> vs \<noteq> [] \<and> strictly_ordered vs \<and> set vs = live_values Anc ps (field, k) conv)"

lemma strictly_ordered_sort_dedup: "strictly_ordered (sort_dedup vs)"
proof -
  have "sorted xs \<Longrightarrow> sorted_wrt (<) (remdups_adj xs)" for xs :: "'a::linorder list"
    by (induction xs rule: remdups_adj.induct) auto
  then show ?thesis by (simp add: sort_dedup_def strictly_ordered_iff)
qed

lemma set_sort_dedup [simp]: "set (sort_dedup vs) = set vs"
  by (simp add: sort_dedup_def)

lemma sort_dedup_nil [simp]: "sort_dedup vs = [] \<longleftrightarrow> vs = []"
  by (metis set_empty set_sort_dedup)

lemma set_map_filter: "set (List.map_filter f xs) = {y. \<exists>x\<in>set xs. f x = Some y}"
  by (induction xs) (auto simp: List.map_filter_simps split: option.splits)

lemma entry_exact:
  assumes "state_spec Anc ps st" and inj: "inj_on op_id ps"
  shows "(i, v) \<in> set (bt_entry (fs_registers st) field) \<longleftrightarrow>
      (\<exists>p\<in>ps. op_id p = i \<and> write_value field p = Some v \<and>
         \<not> (\<exists>q\<in>ps. writes field q \<and> (op_id q, op_id p) \<in> Anc))"
    and "(i, w) \<in> set (bt_entry (fs_adds st) sk) \<longleftrightarrow>
      (\<exists>p\<in>ps. op_id p = i \<and> add_value sk p = Some w \<and>
         \<not> (\<exists>q\<in>ps. removes_key sk q \<and> (op_id q, op_id p) \<in> Anc))"
proof -
  have inv: "fold_state_inv st" and vals: "values_from ps st"
    and ids: "ids_spec Anc ps (ids_of fold_state_ops st)"
    using assms(1) by (simp_all add: state_spec_def)
  have keys: "fst ` set (bt_entry (fs_registers st) field) = maximal_writes Anc ps field"
      "fst ` set (bt_entry (fs_adds st) sk) = live_adds Anc ps sk"
  proof -
    have "set (fst (ids_of fold_state_ops st) field) = maximal_writes Anc ps field"
        "set (snd (ids_of fold_state_ops st) sk) = live_adds Anc ps sk"
      using ids unfolding ids_spec_def by blast+
    then show "fst ` set (bt_entry (fs_registers st) field) = maximal_writes Anc ps field"
        "fst ` set (bt_entry (fs_adds st) sk) = live_adds Anc ps sk"
      by (simp_all add: ids_of_def fold_state_ops_def bt_keys_def split: prod.splits)
  qed
  have uniq: "p = q" if "p \<in> ps" "q \<in> ps" "op_id p = op_id q" for p q
    using that inj by (auto simp: inj_on_def)
  show "(i, v) \<in> set (bt_entry (fs_registers st) field) \<longleftrightarrow>
      (\<exists>p\<in>ps. op_id p = i \<and> write_value field p = Some v \<and>
         \<not> (\<exists>q\<in>ps. writes field q \<and> (op_id q, op_id p) \<in> Anc))" (is "?L \<longleftrightarrow> ?R")
  proof
    assume ?L
    then obtain p where p: "p \<in> ps" "op_id p = i" "write_value field p = Some v"
      using vals unfolding values_from_def by blast
    have "i \<in> maximal_writes Anc ps field"
      unfolding keys(1)[symmetric] using \<open>?L\<close> by force
    then show ?R
      using p uniq by (auto simp: maximal_writes_def)
  next
    assume ?R
    then obtain p where p: "p \<in> ps" "op_id p = i" "write_value field p = Some v"
        "i \<in> maximal_writes Anc ps field"
      by (auto simp: maximal_writes_def write_value_writes)
    then obtain v' where v': "(i, v') \<in> set (bt_entry (fs_registers st) field)"
      unfolding keys(1)[symmetric] by auto
    then obtain p' where "p' \<in> ps" "op_id p' = i" "write_value field p' = Some v'"
      using vals unfolding values_from_def by blast
    then show ?L using v' p uniq by fastforce
  qed
  show "(i, w) \<in> set (bt_entry (fs_adds st) sk) \<longleftrightarrow>
      (\<exists>p\<in>ps. op_id p = i \<and> add_value sk p = Some w \<and>
         \<not> (\<exists>q\<in>ps. removes_key sk q \<and> (op_id q, op_id p) \<in> Anc))" (is "?L \<longleftrightarrow> ?R")
  proof
    assume ?L
    then obtain p where p: "p \<in> ps" "op_id p = i" "add_value sk p = Some w"
      using vals unfolding values_from_def by blast
    have "i \<in> live_adds Anc ps sk"
      unfolding keys(2)[symmetric] using \<open>?L\<close> by force
    then show ?R
      using p uniq by (auto simp: live_adds_def)
  next
    assume ?R
    then obtain p where p: "p \<in> ps" "op_id p = i" "add_value sk p = Some w" "i \<in> live_adds Anc ps sk"
      by (auto simp: live_adds_def add_value_adds)
    then obtain v' where v': "(i, v') \<in> set (bt_entry (fs_adds st) sk)"
      unfolding keys(2)[symmetric] by auto
    then obtain p' where "p' \<in> ps" "op_id p' = i" "add_value sk p' = Some v'"
      using vals unfolding values_from_def by blast
    then show ?L using v' p uniq by fastforce
  qed
qed

lemma register_view:
  assumes "state_spec Anc ps st" "inj_on op_id ps"
  shows "register_spec Anc ps field conv (mv_register_of st field conv)"
proof -
  have "x \<in> set (mv_register_of st field conv) \<longleftrightarrow>
      (\<exists>i v. (i, v) \<in> set (bt_entry (fs_registers st) field) \<and> conv v = Some x)" for x
    by (force simp: mv_register_of_def set_map_filter bt_values_def)
  then show ?thesis
    unfolding register_spec_def entry_exact(1)[OF assms] set_eq_iff
    by (simp add: mv_register_of_def strictly_ordered_sort_dedup) blast
qed

lemma set_view:
  assumes "state_spec Anc ps st" "inj_on op_id ps"
  shows "values_spec Anc ps field conv (set_values_of st field conv)"
proof -
  let ?live = "\<lambda>adds. sort_dedup (List.map_filter conv (bt_values adds))"
  let ?f = "\<lambda>((f, k), adds). if f \<noteq> field then None
       else (let vs = ?live adds in if vs = [] then None else Some (k, vs))"
  have wf: "bt_wf (fs_adds st)"
    using assms(1) by (simp add: state_spec_def fold_state_inv_def)
  have mem: "(k, vs) \<in> set (List.map_filter ?f (fs_adds st)) \<longleftrightarrow>
      vs \<noteq> [] \<and> (\<exists>adds. bt_get (fs_adds st) (field, k) = Some adds \<and> vs = ?live adds)" for k vs
    unfolding bt_get_Some_iff[OF wf] by (force simp: set_map_filter Let_def split: if_splits)
  have "distinct (map fst (List.map_filter ?f m))" if "distinct (map fst m)" for m
    using that
  proof (induction m)
    case (Cons x m)
    obtain f k adds where [simp]: "x = ((f, k), adds)" by (metis prod.exhaust)
    have "k \<notin> fst ` set (List.map_filter ?f m)" if "f = field"
      using Cons.prems that by (force simp: set_map_filter Let_def split: if_splits)
    then show ?case
      using Cons by (simp add: List.map_filter_simps Let_def)
  qed (simp add: List.map_filter_simps)
  then have d: "distinct (map fst (List.map_filter ?f (fs_adds st)))"
    using strictly_ordered_distinct wf unfolding bt_wf_def by blast
  have get: "bt_get (set_values_of st field conv) k = Some vs \<longleftrightarrow>
      vs \<noteq> [] \<and> vs = ?live (bt_entry (fs_adds st) (field, k))" for k vs
    unfolding set_values_of_def bt_get_of_list[OF d] map_of_eq_Some_iff[OF d] mem
    by (auto simp: bt_entry_def bt_values_def List.map_filter_simps split: option.splits)
  have live: "set (?live (bt_entry (fs_adds st) (field, k))) = live_values Anc ps (field, k) conv" for k
  proof -
    have "x \<in> set (?live (bt_entry (fs_adds st) (field, k))) \<longleftrightarrow>
        (\<exists>i v. (i, v) \<in> set (bt_entry (fs_adds st) (field, k)) \<and> conv v = Some x)" for x
      by (force simp: set_map_filter bt_values_def)
    then show ?thesis
      unfolding live_values_def entry_exact(2)[OF assms] set_eq_iff by blast
  qed
  have "case bt_get (set_values_of st field conv) k of
        None \<Rightarrow> live_values Anc ps (field, k) conv = {}
      | Some vs \<Rightarrow> vs \<noteq> [] \<and> strictly_ordered vs \<and> set vs = live_values Anc ps (field, k) conv" for k
  proof (cases "bt_get (set_values_of st field conv) k")
    case None
    then have "?live (bt_entry (fs_adds st) (field, k)) = []"
      using get[of k "?live (bt_entry (fs_adds st) (field, k))"] by auto
    then have "live_values Anc ps (field, k) conv = {}"
      unfolding live[of k, symmetric] by simp
    then show ?thesis using None by simp
  next
    case (Some vs)
    then have "vs \<noteq> []" "vs = ?live (bt_entry (fs_adds st) (field, k))"
      using get by blast+
    then show ?thesis
      using Some live[of k] strictly_ordered_sort_dedup by (simp del: set_sort_dedup)
  qed
  then show ?thesis
    by (simp add: values_spec_def set_values_of_def bt_wf_of_list)
qed

section \<open>Catalog folds\<close>

definition catalog_step ::
  "'s fold_ops \<Rightarrow> 't causal_node \<Rightarrow> 't causal_graph \<Rightarrow> (logical_store_id, 's) btree \<times> nat \<times> bool \<Rightarrow>
   domain_operation \<Rightarrow> fold_error + (logical_store_id, 's) btree \<times> nat \<times> bool" where
  "catalog_step A N g = (\<lambda>(states, budget, exceeded) p. apply_catalog_operation A N g p states budget exceeded)"

definition addressed :: "domain_operation set \<Rightarrow> logical_store_id \<Rightarrow> domain_operation set" where
  "addressed ps t = {p \<in> ps. op_target p = Some t}"

definition catalogs_spec ::
  "(record_id \<times> record_id) set \<Rightarrow> domain_operation set \<Rightarrow> (logical_store_id, fold_state) btree \<Rightarrow> bool" where
  "catalogs_spec Anc ps states \<longleftrightarrow>
     bt_wf states \<and> (\<forall>p\<in>ps. op_target p \<noteq> None) \<and>
     (\<forall>t. case bt_get states t of
        None \<Rightarrow> addressed ps t = {}
      | Some st \<Rightarrow> addressed ps t \<noteq> {} \<and> state_spec Anc (addressed ps t) st)"

lemma catalog_step_spec:
  assumes g: "causal_graph_new operation_node ops = Inr g" and split: "cg_ordered g = pre @ p # post"
    and s: "catalogs_spec ((parent_rel operation_node ops)\<^sup>+) (set pre) states"
    and ap: "apply_catalog_operation fold_state_ops operation_node g p states b False = Inr (states', b', e')"
  shows "catalogs_spec ((parent_rel operation_node ops)\<^sup>+) (insert p (set pre)) states' \<and> \<not> e'"
proof -
  let ?R = "(parent_rel operation_node ops)\<^sup>+"
  obtain t where t: "op_target p = Some t"
    using ap by (auto simp: apply_catalog_operation_def result_simps)
  let ?st = "case bt_get states t of None \<Rightarrow> acc_default fold_state_ops | Some s \<Rightarrow> s"
  obtain st' where st': "apply_operation fold_state_ops operation_node g p ?st b False = Inr (st', b', e')"
      "states' = bt_insert t st' states"
    using ap t by (auto simp: apply_catalog_operation_def result_simps)
  have sp: "bt_wf states" "\<forall>p\<in>set pre. op_target p \<noteq> None"
      "\<And>t. case bt_get states t of None \<Rightarrow> addressed (set pre) t = {}
        | Some st \<Rightarrow> addressed (set pre) t \<noteq> {} \<and> state_spec ?R (addressed (set pre) t) st"
    using s unfolding catalogs_spec_def by blast+
  have "state_spec ?R (addressed (set pre) t) ?st"
    using sp(3)[of t] state_spec_default[of ?R] by (auto split: option.splits)
  then have "state_spec ?R (insert p (addressed (set pre) t)) st' \<and> \<not> e'"
  proof (rule apply_state_spec[OF g _ _ _ _ st'(1)])
    show "(op_id q, op_id p) \<notin> ?R" if "q \<in> addressed (set pre) t" for q
      using ordered_facts(1)[OF g split] that by (simp add: addressed_def)
    show "op_id p \<notin> op_id ` addressed (set pre) t"
      using ordered_facts(2)[OF g split] by (auto simp: addressed_def)
    show "(op_id p, op_id p) \<notin> ?R"
      using ordered_facts(3)[OF g split] by simp
  qed
  then have new: "state_spec ?R (insert p (addressed (set pre) t)) st'" "\<not> e'" by simp_all
  have "case bt_get states' u of None \<Rightarrow> addressed (insert p (set pre)) u = {}
      | Some st \<Rightarrow> addressed (insert p (set pre)) u \<noteq> {} \<and> state_spec ?R (addressed (insert p (set pre)) u) st" for u
  proof (cases "u = t")
    case True
    then have "addressed (insert p (set pre)) u = insert p (addressed (set pre) t)"
      using t by (auto simp: addressed_def)
    then show ?thesis using True new(1) st'(2) by (simp add: bt_get_insert)
  next
    case False
    then have "addressed (insert p (set pre)) u = addressed (set pre) u"
      using t by (auto simp: addressed_def)
    then show ?thesis using False sp(3)[of u] st'(2) by (simp add: bt_get_insert split: option.splits)
  qed
  then show ?thesis
    using sp(1,2) t st'(2) new(2) unfolding catalogs_spec_def by (simp add: bt_wf_insert)
qed

lemma catalog_fold_spec:
  assumes g: "causal_graph_new operation_node ops = Inr g"
  shows "cg_ordered g = pre @ post \<Longrightarrow> catalogs_spec ((parent_rel operation_node ops)\<^sup>+) (set pre) s \<Longrightarrow>
    try_fold (catalog_step fold_state_ops operation_node g) (s, b, False) post = Inr (s', b', e') \<Longrightarrow>
    catalogs_spec ((parent_rel operation_node ops)\<^sup>+) (set ops) s'"
proof (induction post arbitrary: pre s b)
  case Nil
  then have "set pre = set ops"
    using g by (simp add: causal_graph_new_Inr_iff)
  then show ?case using Nil by simp
next
  case (Cons p post)
  obtain s1 b1 e1 where ap: "apply_catalog_operation fold_state_ops operation_node g p s b False = Inr (s1, b1, e1)"
      and rest: "try_fold (catalog_step fold_state_ops operation_node g) (s1, b1, e1) post = Inr (s', b', e')"
    using Cons.prems(3) by (auto simp: result_simps catalog_step_def)
  then show ?case
    using catalog_step_spec[OF g Cons.prems(1,2) ap] Cons.IH[of "pre @ [p]" s1 b1] Cons.prems(1) by simp
qed

lemma fold_inj: "fold_operations ops d = Inr st \<Longrightarrow> inj_on op_id (set ops)"
  by (auto simp: fold_operations_def result_simps causal_graph_new_Inr_iff closed_input_def distinct_map)

section \<open>Properties\<close>

text \<open>
  C7: the profile fold computes multi-value registers and observed-remove sets. Every register of
  an accepted profile lists, sorted and without duplicates, the values of exactly the writes that
  no other write of the register has observed, and every set lists per key exactly the values of
  the adds that no remove of the key has observed; ancestry is the transitive parent relation.
\<close>

theorem fold_profile_crdt:
  assumes "fold_profile ops = Inr a"
  defines "Anc \<equiv> (parent_rel operation_node ops)\<^sup>+"
  shows "register_spec Anc (set ops) DisplayName as_text (ap_display_name a) \<and>
    register_spec Anc (set ops) Description as_text (ap_description a) \<and>
    register_spec Anc (set ops) Application as_text (ap_application a) \<and>
    values_spec Anc (set ops) F_Remote set_remote (ap_remotes a) \<and>
    values_spec Anc (set ops) F_Relation set_qualified (ap_relations a) \<and>
    values_spec Anc (set ops) F_Capability set_text (ap_capabilities a) \<and>
    values_spec Anc (set ops) F_Alias set_text (ap_aliases a) \<and>
    values_spec Anc (set ops) F_Policy set_text (ap_policies a)"
proof -
  obtain st where st: "fold_operations ops ''wayjournal.profile'' = Inr st"
    using assms(1) by (auto simp: fold_profile_def result_simps)
  show ?thesis
    using assms(1) st
    by (auto simp: fold_profile_def Anc_def register_view[OF fold_operations_spec[OF st] fold_inj[OF st]]
        set_view[OF fold_operations_spec[OF st] fold_inj[OF st]])
qed

text \<open>
  C8: the catalog fold keeps one such entry per target. Exactly the addressed targets have an
  entry, and a target's registers and sets are decided by the operations addressed to it alone,
  with ancestry taken over the whole graph, other targets included.
\<close>

theorem fold_catalogs_crdt:
  assumes "fold_catalogs ops = Inr m"
  defines "Anc \<equiv> (parent_rel operation_node ops)\<^sup>+"
  shows "\<forall>t. case bt_get m t of
      None \<Rightarrow> addressed (set ops) t = {}
    | Some c \<Rightarrow> addressed (set ops) t \<noteq> {} \<and> ce_target c = t \<and>
        register_spec Anc (addressed (set ops) t) EntryName as_text (ce_name c) \<and>
        register_spec Anc (addressed (set ops) t) Enabled as_bool (ce_enabled c) \<and>
        register_spec Anc (addressed (set ops) t) DefaultStore as_store (ce_default_store c) \<and>
        values_spec Anc (addressed (set ops) t) F_Alias set_text (ce_aliases c) \<and>
        values_spec Anc (addressed (set ops) t) F_Remote set_remote (ce_remotes c) \<and>
        values_spec Anc (addressed (set ops) t) F_Group set_text (ce_groups c) \<and>
        values_spec Anc (addressed (set ops) t) F_Relation set_relation (ce_relations c)"
proof
  fix t
  obtain g states b e where g: "causal_graph_new operation_node ops = Inr g"
      and f: "try_fold (catalog_step fold_state_ops operation_node g)
        ([], MAX_REACHABILITY_STEPS, False) (cg_ordered g) = Inr (states, b, e)"
      and m: "m = map (\<lambda>(t, st). (t, catalog_entry_of t st)) states"
    using assms(1) by (auto simp: fold_catalogs_def result_simps catalog_step_def)
  have "catalogs_spec Anc (set []) []"
    by (simp add: catalogs_spec_def addressed_def)
  then have cs: "catalogs_spec Anc (set ops) states"
    using catalog_fold_spec[OF g _ _ f, of "[]"] by (simp add: Anc_def)
  have inj: "inj_on op_id (addressed (set ops) t)"
    using g by (auto simp: causal_graph_new_Inr_iff closed_input_def distinct_map addressed_def
        intro: inj_on_subset)
  have get: "bt_get m t = map_option (catalog_entry_of t) (bt_get states t)"
    unfolding m by (induction states) auto
  have t: "case bt_get states t of None \<Rightarrow> addressed (set ops) t = {}
      | Some st \<Rightarrow> addressed (set ops) t \<noteq> {} \<and> state_spec Anc (addressed (set ops) t) st"
    using cs unfolding catalogs_spec_def by blast
  show "case bt_get m t of
      None \<Rightarrow> addressed (set ops) t = {}
    | Some c \<Rightarrow> addressed (set ops) t \<noteq> {} \<and> ce_target c = t \<and>
        register_spec Anc (addressed (set ops) t) EntryName as_text (ce_name c) \<and>
        register_spec Anc (addressed (set ops) t) Enabled as_bool (ce_enabled c) \<and>
        register_spec Anc (addressed (set ops) t) DefaultStore as_store (ce_default_store c) \<and>
        values_spec Anc (addressed (set ops) t) F_Alias set_text (ce_aliases c) \<and>
        values_spec Anc (addressed (set ops) t) F_Remote set_remote (ce_remotes c) \<and>
        values_spec Anc (addressed (set ops) t) F_Group set_text (ce_groups c) \<and>
        values_spec Anc (addressed (set ops) t) F_Relation set_relation (ce_relations c)"
  proof (cases "bt_get states t")
    case None
    then show ?thesis using t get by simp
  next
    case (Some st)
    then have "state_spec Anc (addressed (set ops) t) st" using t by simp
    note v = register_view[OF this inj] set_view[OF this inj]
    show ?thesis using Some t get by (simp add: catalog_entry_of_def v)
  qed
qed

lemma mixed_operations_perm:
  assumes "mset ops = mset ops'"
  shows "mixed_operations ops d = mixed_operations ops' d"
proof -
  have e: "set ops = set ops'" using assms by (rule mset_eq_setD)
  have iff: "mixed_operations qs d \<longleftrightarrow> \<not> (\<exists>i. \<forall>p\<in>set qs. op_domain p = d \<and> op_entity p = i)" for qs
    by (cases qs) (auto simp: mixed_operations_def list_ex_iff)
  show ?thesis unfolding iff e ..
qed

text \<open>
  Both folds are deterministic in the set of operations: presenting them in another order gives
  the same accepted profile and the same accepted catalog entries.
\<close>

theorem folds_order_independent:
  assumes "mset ops = mset ops'"
  shows "(fold_profile ops = Inr a \<longleftrightarrow> fold_profile ops' = Inr a) \<and>
    (fold_catalogs ops = Inr m \<longleftrightarrow> fold_catalogs ops' = Inr m)"
  using mixed_operations_perm[OF assms] causal_graph_perm[OF assms, of operation_node]
  by (auto simp: fold_profile_def fold_operations_def fold_catalogs_def result_simps)

section \<open>The validation fold\<close>

lemma is_ok_map_state: "is_ok (map_state f r) \<longleftrightarrow> is_ok r"
  by (cases r) (auto simp: map_state_def)

definition map_states :: "('s \<Rightarrow> 'u) \<Rightarrow> ('k \<times> 's) list \<Rightarrow> ('k \<times> 'u) list" where
  "map_states f m = map (\<lambda>(k, s). (k, f s)) m"

lemma map_states_insert: "map_states f (bt_insert k s m) = bt_insert k (f s) (map_states f m)"
  by (induction k s m rule: bt_insert.induct) (auto simp: map_states_def)

lemma bt_get_map_states: "bt_get (map_states f m) k = map_option f (bt_get m k)"
  unfolding map_states_def by (rule bt_get_map_values)

context fold_accumulator
begin

lemma catalog_refines:
  assumes "\<forall>s\<in>snd ` set states. inv s"
  shows "map_state (map_states (ids_of A)) (apply_catalog_operation A N g p states b e) =
      apply_catalog_operation ids_ops N g p (map_states (ids_of A) states) b e"
    and "apply_catalog_operation A N g p states b e = Inr (states', b', e') \<Longrightarrow> \<forall>s\<in>snd ` set states'. inv s"
proof -
  have inv: "inv (case bt_get states t of None \<Rightarrow> acc_default A | Some s \<Rightarrow> s)" for t
    using assms inv_default bt_get_mem[of states t] by (force split: option.splits)
  have abs: "ids_of A (case bt_get states t of None \<Rightarrow> acc_default A | Some s \<Rightarrow> s) =
      (case bt_get (map_states (ids_of A) states) t of None \<Rightarrow> acc_default ids_ops | Some s \<Rightarrow> s)" for t
    by (auto simp: bt_get_map_states abs_default split: option.splits)
  show "map_state (map_states (ids_of A)) (apply_catalog_operation A N g p states b e) =
      apply_catalog_operation ids_ops N g p (map_states (ids_of A) states) b e"
  proof (cases "op_target p")
    case None
    then show ?thesis by (simp add: apply_catalog_operation_def map_state_def)
  next
    case (Some t)
    show ?thesis
      unfolding apply_catalog_operation_def Some ok_or_simps rbind_simps abs[symmetric]
        apply_refines(1)[OF inv, symmetric]
      by (cases "apply_operation A N g p (case bt_get states t of None \<Rightarrow> acc_default A | Some s \<Rightarrow> s) b e")
        (auto simp: map_state_def map_states_insert)
  qed
  show "apply_catalog_operation A N g p states b e = Inr (states', b', e') \<Longrightarrow> \<forall>s\<in>snd ` set states'. inv s"
    using assms apply_refines(2)[OF inv] set_bt_insert_subset
    by (fastforce simp: apply_catalog_operation_def result_simps)
qed

lemma catalog_fold_refines:
  assumes "\<forall>s\<in>snd ` set states. inv s"
  shows "map_state (map_states (ids_of A)) (try_fold (catalog_step A N g) (states, b, e) ps) =
      try_fold (catalog_step ids_ops N g) (map_states (ids_of A) states, b, e) ps"
  using assms
proof (induction ps arbitrary: states b e)
  case Nil
  then show ?case by (simp add: map_state_def)
next
  case (Cons p ps)
  note r = catalog_refines[OF Cons.prems, of N g p b e]
  show ?case
  proof (cases "apply_catalog_operation A N g p states b e")
    case (Inl err)
    then have "apply_catalog_operation ids_ops N g p (map_states (ids_of A) states) b e = Inl err"
      using r(1) by (simp add: map_state_def)
    then show ?thesis using Inl by (simp add: catalog_step_def map_state_def)
  next
    case (Inr st)
    obtain s1 b1 e1 where st: "st = (s1, b1, e1)" by (cases st) auto
    have "apply_catalog_operation ids_ops N g p (map_states (ids_of A) states) b e =
        Inr (map_states (ids_of A) s1, b1, e1)"
      using r(1) Inr st by (simp add: map_state_def)
    moreover have "\<forall>s\<in>snd ` set s1. inv s" using r(2) Inr st by simp
    ultimately show ?thesis
      using Cons.IH[of s1 b1 e1] Inr st by (simp add: catalog_step_def)
  qed
qed

end

text \<open>Over graphs with the same identities and parents an accumulator behaves the same.\<close>

lemma filter_observed_map:
  "same_nodes N M f \<Longrightarrow> filter_observed M (map_graph f g) i cs b e = filter_observed N g i cs b e"
  by (induction cs arbitrary: b e) (auto simp: observes_bounded_map split: prod.splits)

lemma apply_operation_map:
  "same_nodes N M f \<Longrightarrow> apply_operation A M (map_graph f g) p s b e = apply_operation A N g p s b e"
  by (cases "op_kind p") (simp_all add: apply_operation_def filter_observed_map)

lemma apply_catalog_map:
  "same_nodes N M f \<Longrightarrow>
   apply_catalog_operation A M (map_graph f g) p s b e = apply_catalog_operation A N g p s b e"
  by (simp add: apply_catalog_operation_def apply_operation_map)

lemma fold_step_map: "same_nodes N M f \<Longrightarrow> fold_step A M (map_graph f g) = fold_step A N g"
  by (auto simp: fold_step_def fun_eq_iff apply_operation_map)

lemma catalog_step_map: "same_nodes N M f \<Longrightarrow> catalog_step A M (map_graph f g) = catalog_step A N g"
  by (auto simp: catalog_step_def fun_eq_iff apply_catalog_map)

text \<open>The two accumulators accept the same sequences of operations.\<close>

lemma accumulators_agree:
  "is_ok (try_fold (fold_step validation_ops N g) (acc_default validation_ops, b, e) ps) \<longleftrightarrow>
   is_ok (try_fold (fold_step fold_state_ops N g) (acc_default fold_state_ops, b, e) ps)"
proof -
  have "map_state (ids_of validation_ops) (try_fold (fold_step validation_ops N g) (acc_default validation_ops, b, e) ps) =
      try_fold (fold_step ids_ops N g) (ids_of validation_ops (acc_default validation_ops), b, e) ps"
    by (rule validation_acc.fold_refines(1)) simp
  moreover have "map_state (ids_of fold_state_ops) (try_fold (fold_step fold_state_ops N g) (acc_default fold_state_ops, b, e) ps) =
      try_fold (fold_step ids_ops N g) (ids_of fold_state_ops (acc_default fold_state_ops), b, e) ps"
    by (rule fold_acc.fold_refines(1)) (rule fold_acc.inv_default)
  ultimately show ?thesis
    by (metis fold_acc.abs_default validation_acc.abs_default is_ok_map_state)
qed

lemma catalog_accumulators_agree:
  "is_ok (try_fold (catalog_step validation_ops N g) ([], b, e) ps) \<longleftrightarrow>
   is_ok (try_fold (catalog_step fold_state_ops N g) ([], b, e) ps)"
proof -
  have "map_state (map_states (ids_of validation_ops)) (try_fold (catalog_step validation_ops N g) ([], b, e) ps) =
      try_fold (catalog_step ids_ops N g) (map_states (ids_of validation_ops) [], b, e) ps"
    by (rule validation_acc.catalog_fold_refines) simp
  moreover have "map_state (map_states (ids_of fold_state_ops)) (try_fold (catalog_step fold_state_ops N g) ([], b, e) ps) =
      try_fold (catalog_step ids_ops N g) (map_states (ids_of fold_state_ops) [], b, e) ps"
    by (rule fold_acc.catalog_fold_refines) simp
  moreover have "map_states f [] = []" for f :: "'s \<Rightarrow> ids_state"
    by (simp add: map_states_def)
  ultimately show ?thesis
    by (metis (no_types, lifting) is_ok_map_state map_states_def list.simps(8))
qed

text \<open>The headers replay keeps for a list of operations: each with its position as source.\<close>

definition headers_of :: "domain_operation list \<Rightarrow> domain_operation_header list" where
  "headers_of ops = map (\<lambda>(i, p). into_header p i) (enumerate 0 ops)"

definition loaded_step ::
  "(nat \<Rightarrow> 'e + domain_operation) \<Rightarrow> domain_operation_header causal_graph \<Rightarrow> bool \<Rightarrow>
   validation_fold_state \<times> (logical_store_id, validation_fold_state) btree \<times> nat \<times> bool \<Rightarrow>
   domain_operation_header \<Rightarrow>
   'e fold_load_error + validation_fold_state \<times> (logical_store_id, validation_fold_state) btree \<times> nat \<times> bool" where
  "loaded_step load g catalog = (\<lambda>(profile, catalogs, budget, exceeded) h.
     rbind (map_err FL_Load (load (oh_source h))) (\<lambda>p.
     if catalog
     then rbind (map_err FL_Fold
            (apply_catalog_operation validation_ops header_node g p catalogs budget exceeded))
          (\<lambda>(catalogs, budget, exceeded). Inr (profile, catalogs, budget, exceeded))
     else rbind (map_err FL_Fold
            (apply_operation validation_ops header_node g p profile budget exceeded))
          (\<lambda>(profile, budget, exceeded). Inr (profile, catalogs, budget, exceeded))))"

lemma loaded_profile:
  assumes "\<forall>(i, p)\<in>set xs. load i = Inr p"
  shows "is_ok (try_fold (loaded_step load g False) (s, c, b, e) (map (\<lambda>(i, p). into_header p i) xs)) \<longleftrightarrow>
    is_ok (try_fold (fold_step validation_ops header_node g) (s, b, e) (map snd xs))"
  using assms
proof (induction xs arbitrary: s b e)
  case (Cons x xs)
  obtain i p where x: "x = (i, p)" by (cases x)
  show ?case
  proof (cases "apply_operation validation_ops header_node g p s b e")
    case (Inl err)
    then show ?thesis using Cons.prems x by (simp add: loaded_step_def fold_step_def into_header_def)
  next
    case (Inr st)
    then show ?thesis
      using Cons x by (cases st) (simp add: loaded_step_def fold_step_def into_header_def)
  qed
qed simp

lemma loaded_catalog:
  assumes "\<forall>(i, p)\<in>set xs. load i = Inr p"
  shows "is_ok (try_fold (loaded_step load g True) (s, c, b, e) (map (\<lambda>(i, p). into_header p i) xs)) \<longleftrightarrow>
    is_ok (try_fold (catalog_step validation_ops header_node g) (c, b, e) (map snd xs))"
  using assms
proof (induction xs arbitrary: c b e)
  case (Cons x xs)
  obtain i p where x: "x = (i, p)" by (cases x)
  show ?case
  proof (cases "apply_catalog_operation validation_ops header_node g p c b e")
    case (Inl err)
    then show ?thesis using Cons.prems x by (simp add: loaded_step_def catalog_step_def into_header_def)
  next
    case (Inr st)
    then show ?thesis
      using Cons x by (cases st) (simp add: loaded_step_def catalog_step_def into_header_def)
  qed
qed simp

lemma headers_mixed:
  assumes "ops = p # ps"
  shows "list_ex (\<lambda>h. oh_domain h \<noteq> op_domain p \<or> oh_entity h \<noteq> op_entity p) (headers_of ops) \<longleftrightarrow>
    mixed_operations ops (op_domain p)"
proof -
  have "list_ex (\<lambda>h. oh_domain h \<noteq> d \<or> oh_entity h \<noteq> i) (map (\<lambda>(i, p). into_header p i) xs) \<longleftrightarrow>
      list_ex (\<lambda>q. op_domain q \<noteq> d \<or> op_entity q \<noteq> i) (map snd xs)" for xs d i
    by (induction xs) (auto simp: into_header_def)
  moreover have "map snd (enumerate 0 ops) = ops" by simp
  ultimately show ?thesis
    by (simp add: headers_of_def mixed_operations_def assms del: map_snd_enumerate enumerate_simps)
qed

lemma loaded_fold_iff:
  assumes "\<forall>i<length ops. load i = Inr (ops ! i)"
  shows "validate_loaded_builtin_fold (headers_of ops) load = Inr () \<longleftrightarrow>
    (case ops of [] \<Rightarrow> True
     | p # _ \<Rightarrow> if op_domain p = ''wayjournal.catalog'' then is_ok (fold_catalogs ops)
              else is_ok (fold_operations ops (op_domain p)))"
proof (cases ops)
  case Nil
  then show ?thesis by (simp add: validate_loaded_builtin_fold_def headers_of_def)
next
  case (Cons p ps)
  let ?en = "enumerate 0 ops" and ?h = "\<lambda>(i, p). into_header p i"
  define P :: "(nat \<times> domain_operation) causal_node" where
    "P = \<lparr>node_id = \<lambda>x. op_id (snd x), node_parents = \<lambda>x. op_parents (snd x)\<rparr>"
  have same: "same_nodes P operation_node snd" "same_nodes P header_node ?h"
    by (auto simp: same_nodes_def P_def header_node_def into_header_def)
  note mixed = headers_mixed[OF Cons]
  obtain hs where hd: "headers_of ops = into_header p 0 # hs"
    by (simp add: headers_of_def Cons)
  show ?thesis
  proof (cases "causal_graph_new P ?en")
    case (Inl err)
    then have "\<not> is_ok (causal_graph_new operation_node ops)" "\<not> is_ok (causal_graph_new header_node (headers_of ops))"
      using causal_graph_new_map_ok[OF same(1), of ?en] causal_graph_new_map_ok[OF same(2), of ?en]
      by (simp_all add: headers_of_def)
    then have "validate_loaded_builtin_fold (headers_of ops) load \<noteq> Inr ()" "\<not> is_ok (fold_catalogs ops)"
        "\<not> is_ok (fold_operations ops d)" for d
      by (auto simp: validate_loaded_builtin_fold_def fold_catalogs_def fold_operations_def hd is_ok_iff result_simps)
    then show ?thesis using Cons by simp
  next
    case (Inr g)
    have g: "causal_graph_new operation_node ops = Inr (map_graph snd g)"
        "causal_graph_new header_node (headers_of ops) = Inr (map_graph ?h g)"
      using causal_graph_new_map[OF same(1) Inr] causal_graph_new_map[OF same(2) Inr]
      by (simp_all add: headers_of_def)
    have ord: "cg_ordered (map_graph snd g) = map snd (cg_ordered g)"
      by (simp add: map_graph_def)
    have "set (cg_ordered g) = set ?en"
      using Inr by (simp add: causal_graph_new_Inr_iff)
    then have load: "\<forall>(i, p)\<in>set (cg_ordered g). load i = Inr p"
      using assms by (auto simp: in_set_enumerate_eq)
    have "validate_loaded_builtin_fold (headers_of ops) load = Inr () \<longleftrightarrow>
        \<not> mixed_operations ops (op_domain p) \<and>
        is_ok (try_fold (loaded_step load (map_graph ?h g) (op_domain p = ''wayjournal.catalog''))
          (acc_default validation_ops, [], MAX_REACHABILITY_STEPS, False) (map ?h (cg_ordered g)))"
      using g(2) mixed
      by (auto simp: validate_loaded_builtin_fold_def hd loaded_step_def[abs_def] into_header_def
          map_graph_def is_ok_iff result_simps)
    also have "\<dots> \<longleftrightarrow> \<not> mixed_operations ops (op_domain p) \<and>
        (if op_domain p = ''wayjournal.catalog''
         then is_ok (try_fold (catalog_step fold_state_ops P g) ([], MAX_REACHABILITY_STEPS, False) (map snd (cg_ordered g)))
         else is_ok (try_fold (fold_step fold_state_ops P g) (acc_default fold_state_ops, MAX_REACHABILITY_STEPS, False)
           (map snd (cg_ordered g))))"
      using loaded_catalog[OF load] loaded_profile[OF load]
      by (simp add: fold_step_map[OF same(2)] catalog_step_map[OF same(2)] accumulators_agree
          catalog_accumulators_agree)
    also have "\<dots> \<longleftrightarrow> (if op_domain p = ''wayjournal.catalog'' then is_ok (fold_catalogs ops)
        else is_ok (fold_operations ops (op_domain p)))"
      using g(1)
      by (auto simp: fold_catalogs_def fold_operations_def catalog_step_def[symmetric] fold_step_def[symmetric]
          fold_step_map[OF same(1)] catalog_step_map[OF same(1)] ord is_ok_iff result_simps)
    finally show ?thesis using Cons by simp
  qed
qed

text \<open>
  C10: the bounded validation fold is equivalent to the full folds. Validating the retained headers
  while loading one operation at a time succeeds exactly when the corresponding fold over the
  complete operations succeeds: the catalog fold for a catalog, the register and set fold for the
  other domain.
\<close>

theorem validation_fold_equivalent:
  assumes "\<forall>i<length ops. load i = Inr (ops ! i)"
  shows "validate_loaded_builtin_fold (headers_of ops) load = Inr () \<longleftrightarrow>
    (case ops of [] \<Rightarrow> True
     | p # _ \<Rightarrow> if op_domain p = ''wayjournal.catalog'' then is_ok (fold_catalogs ops)
              else is_ok (fold_operations ops (op_domain p)))"
  by (rule loaded_fold_iff[OF assms])

end
