(* ===== verification/Wj_Builtin.thy ===== *)
theory Wj_Builtin
  imports Wj_Folds
begin

text \<open>
  \<open>builtin.rs\<close>: the sealed registry of the identity, profile and catalog domains and its
  composition with additional domains.
\<close>

definition IDENTITY_KINDS :: "string list" where
  "IDENTITY_KINDS = [''store.genesis'']"

definition PROFILE_KINDS :: "string list" where
  "PROFILE_KINDS =
     [''profile.alias.add'', ''profile.alias.remove'', ''profile.application.resolve'',
      ''profile.application.set'', ''profile.capability.add'', ''profile.capability.remove'',
      ''profile.description.resolve'', ''profile.description.set'', ''profile.display_name.resolve'',
      ''profile.display_name.set'', ''profile.policy_hint.add'', ''profile.policy_hint.remove'',
      ''profile.relation.add'', ''profile.relation.remove'', ''profile.remote.add'',
      ''profile.remote.remove'']"

definition CATALOG_KINDS :: "string list" where
  "CATALOG_KINDS =
     [''catalog.alias.add'', ''catalog.alias.remove'', ''catalog.default_store.resolve'',
      ''catalog.default_store.set'', ''catalog.enabled.resolve'', ''catalog.enabled.set'',
      ''catalog.group.add'', ''catalog.group.remove'', ''catalog.name.resolve'', ''catalog.name.set'',
      ''catalog.relation.add'', ''catalog.relation.remove'', ''catalog.remote.add'',
      ''catalog.remote.remove'']"

definition BUILTIN_DOMAINS :: "ext \<Rightarrow> domain_registration list" where
  "BUILTIN_DOMAINS X =
     [\<lparr>reg_domain = ''wayjournal.identity'', reg_schema = IDENTITY_SCHEMA_V1,
       reg_kinds = IDENTITY_KINDS, reg_validator = validate_identity_payload X\<rparr>,
      \<lparr>reg_domain = ''wayjournal.profile'', reg_schema = PROFILE_SCHEMA_V1,
       reg_kinds = PROFILE_KINDS, reg_validator = validate_profile_payload X\<rparr>,
      \<lparr>reg_domain = ''wayjournal.catalog'', reg_schema = CATALOG_SCHEMA_V1,
       reg_kinds = CATALOG_KINDS, reg_validator = validate_catalog_payload X\<rparr>]"

definition wayjournal_domain_registry :: "ext \<Rightarrow> registry_error + domain_registry" where
  "wayjournal_domain_registry X = with_builtins (BUILTIN_DOMAINS X) []"

definition wayjournal_domain_registry_with ::
  "ext \<Rightarrow> domain_registration list \<Rightarrow> registry_error + domain_registry" where
  "wayjournal_domain_registry_with X additional = with_builtins (BUILTIN_DOMAINS X) additional"

section \<open>The built-in declarations are valid\<close>

lemma builtin_kinds:
  "check_kinds [] IDENTITY_KINDS = Inr ()" "check_kinds [] PROFILE_KINDS = Inr ()"
  "check_kinds [] CATALOG_KINDS = Inr ()"
  by code_simp+

lemma builtin_ids:
  "is_ok (domain_id_from_str ''wayjournal.identity'')" "is_ok (domain_id_from_str ''wayjournal.profile'')"
  "is_ok (domain_id_from_str ''wayjournal.catalog'')" "is_ok (record_schema_id_from_str IDENTITY_SCHEMA_V1)"
  "is_ok (record_schema_id_from_str PROFILE_SCHEMA_V1)" "is_ok (record_schema_id_from_str CATALOG_SCHEMA_V1)"
  by code_simp+

lemma builtin_registrations:
  "try_fold check_registration [] (BUILTIN_DOMAINS X) =
   Inr [(''wayjournal.catalog'', CATALOG_SCHEMA_V1), (''wayjournal.profile'', PROFILE_SCHEMA_V1),
        (''wayjournal.identity'', IDENTITY_SCHEMA_V1)]"
  using builtin_kinds builtin_ids
  by (simp add: BUILTIN_DOMAINS_def check_registration_def split_once_append IDENTITY_SCHEMA_V1_def
      PROFILE_SCHEMA_V1_def CATALOG_SCHEMA_V1_def)

lemma builtin_lookup:
  assumes "wayjournal_domain_registry_with X additional = Inr R" and "reserved_domain domain"
    and "registry_validate R domain schema kind payload = Inr ()"
  shows "\<exists>g\<in>set (BUILTIN_DOMAINS X). reg_domain g = domain \<and> reg_schema g = schema \<and>
         kind \<in> set (reg_kinds g) \<and> reg_validator g kind payload"
proof -
  note w = with_builtins_Inr[OF assms(1)[unfolded wayjournal_domain_registry_with_def]]
  obtain g where g: "find (\<lambda>g. reg_domain g = domain \<and> reg_schema g = schema) (registrations R) = Some g"
      "kind \<in> set (reg_kinds g)" "reg_validator g kind payload"
    using assms(3) by (auto simp: registry_validate_def split: option.splits if_splits)
  then have "g \<in> set (registrations R)" "reg_domain g = domain" "reg_schema g = schema"
    by (auto simp: find_Some_iff)
  then show ?thesis
    using w(1,4) assms(2) g by auto
qed

text \<open>
  The built-in registry always composes, and composing it with other domains never lets them
  replace a built-in: in every composed registry a record of a reserved domain is accepted only
  by the built-in schema, kinds and payload validator of that domain.
\<close>

theorem builtin_registry_sealed:
  "(\<exists>R. wayjournal_domain_registry X = Inr R \<and> registrations R = BUILTIN_DOMAINS X \<and> sealed_builtins R) \<and>
   (\<forall>R domain schema kind payload.
      wayjournal_domain_registry_with X additional = Inr R \<longrightarrow> reserved_domain domain \<longrightarrow>
      registry_validate R domain schema kind payload = Inr () \<longrightarrow>
      (\<exists>g\<in>set (BUILTIN_DOMAINS X). reg_domain g = domain \<and> reg_schema g = schema \<and>
         kind \<in> set (reg_kinds g) \<and> reg_validator g kind payload))"
  using builtin_lookup
  by (auto simp: wayjournal_domain_registry_def with_builtins_def validate_and_collect_def builtin_registrations)

section \<open>Accepted records are operations\<close>

text \<open>A conversion looks at the header only through its domain, schema and kind.\<close>

lemma operation_try_from_header:
  assumes "r_domain r = r_domain r'" "r_schema r = r_schema r'" "r_kind r = r_kind r'"
    "r_payload r = r_payload r'"
  shows "is_ok (operation_try_from X r) \<longleftrightarrow> is_ok (operation_try_from X r')"
  using assms
  by (cases "profile_kind X (r_kind r') (r_payload r')"; cases "catalog_kind X (r_kind r') (r_payload r')")
    (auto simp: operation_try_from_def profile_operation_def catalog_operation_def)

lemma validate_payload_converts:
  assumes "validate_payload X (r_domain r) (r_schema r) (r_kind r) (r_payload r)"
  shows "is_ok (operation_try_from X r)"
proof -
  obtain rid eid bid act tm where "is_ok (operation_try_from X
      \<lparr>r_schema = r_schema r, r_domain = r_domain r, r_kind = r_kind r, r_id = rid, r_entity = eid,
       r_batch = bid, r_actor = act, r_occurred_at = tm, r_recorded_at = tm, r_parents = [],
       r_payload = r_payload r\<rparr>)"
    using assms
    by (auto simp: validate_payload_def is_ok_iff result_simps dest!: domain_id_Inr record_schema_same) blast
  then show ?thesis
    by (rule iffD1[OF operation_try_from_header, rotated -1]) simp_all
qed

lemma operation_try_from_keeps:
  "operation_try_from X r = Inr p \<Longrightarrow>
   op_id p = r_id r \<and> op_entity p = r_entity r \<and> op_parents p = r_parents r \<and> op_domain p = r_domain r \<and>
   (op_target p = None \<longleftrightarrow> r_domain r = ''wayjournal.profile'')"
  by (auto simp: operation_try_from_def profile_operation_def catalog_operation_def result_simps
      split: if_splits)

text \<open>
  Every record that a composed registry accepts in the profile or catalog domain converts to a
  domain operation, which keeps the record's identifier, entity, domain and parents and has a
  target store exactly in the catalog domain.
\<close>

theorem accepted_records_convert:
  assumes "wayjournal_domain_registry_with X additional = Inr R" and "decode_record X bs R = Inr r"
    and "r_domain r = ''wayjournal.profile'' \<or> r_domain r = ''wayjournal.catalog''"
  shows "\<exists>p. operation_try_from X r = Inr p \<and> op_id p = r_id r \<and> op_entity p = r_entity r \<and>
    op_parents p = r_parents r \<and> op_domain p = r_domain r \<and>
    (op_target p = None \<longleftrightarrow> r_domain r = ''wayjournal.profile'')"
proof -
  have "registry_validate R (r_domain r) (r_schema r) (r_kind r) (r_payload r) = Inr ()"
    using assms(2) by (rule decode_record_ok)
  then obtain g where "g \<in> set (BUILTIN_DOMAINS X)" "reg_domain g = r_domain r"
      "reg_schema g = r_schema r" "reg_validator g (r_kind r) (r_payload r)"
    using builtin_lookup[OF assms(1), of "r_domain r" "r_schema r" "r_kind r" "r_payload r"] assms(3)
    unfolding reserved_domain_def by blast
  then have "validate_payload X (r_domain r) (r_schema r) (r_kind r) (r_payload r)"
    using assms(3)
    by (auto simp: BUILTIN_DOMAINS_def validate_profile_payload_def validate_catalog_payload_def)
  then obtain p where "operation_try_from X r = Inr p"
    using validate_payload_converts by (auto simp: is_ok_iff)
  then show ?thesis
    using operation_try_from_keeps by blast
qed

end
