(* ===== verification/Wj_Directory.thy ===== *)
theory Wj_Directory
  imports Wj_Builtin Wj_Identity
begin

text \<open>
  The retained directories of \<open>store.rs\<close>. A directory is the ordered map of its entries; a
  handle to a directory is that map, and an operation that changes it returns the map after the
  operation. The model is that of one process that holds the store's exclusive lock: no other
  process changes the tree between two steps, every path is on the store's device, and synchronising
  a file or directory does not change what later reads see. Entries keep the permission bits of
  regular files; symbolic links and other special files are kinds of their own. The host's error of
  a failing call is kept as its kind; diagnostic paths and messages are not modelled.
\<close>

section \<open>Entries and errors\<close>

datatype node =
    FileNode nat bytes
  | DirNode "(string \<times> node) list"
  | SymlinkNode
  | SpecialNode

type_synonym directory = "(string, node) btree"

datatype file_type = RegularFile | DirectoryType | OtherType

datatype io_kind = IoNotFound | IoExists | IoNotDirectory | IoIsDirectory | IoNotEmpty | IoLoop | IoUnexpectedEof

datatype store_corruption =
    NonRegularPath bytes
  | InvalidCanonicalFile bytes
  | InvalidRevisionEntry revision_error
  | InvalidManifestFile bytes batch_error
  | InvalidRecordFile bytes record_codec_error
  | DuplicateGlobalRecordId record_id "bytes list"
  | GenericOwnership batch_error
  | InvalidGenesis genesis_error
  | InvalidDomainFold string string
  | InvalidLegacy string

datatype crash_point =
    StageDirectory
  | StageRecordsDirectory
  | RecordFile
  | StageRecords
  | ManifestFile
  | StageManifest
  | JournalFile
  | StageJournal
  | JournalPublished
  | RecordPublished
  | ManifestPublished
  | JournalRemoved
  | StageRemoved

text \<open>\<open>StorePanic\<close> is a panic of an \<open>expect\<close>, which is not an error value.\<close>

datatype store_error =
    StoreIo io_kind
  | InvalidLayout
  | RevisionMismatch store_revision_ref store_revision_ref
  | RecoveryBaseChanged store_revision_ref store_revision_ref
  | InvalidJournal
  | PublicationConflict
  | InjectedCrash crash_point
  | StoreBatchError batch_error
  | Corrupt store_corruption
  | StorePanic

section \<open>Operations on a directory\<close>

definition validate_component :: "string \<Rightarrow> store_error + unit" where
  "validate_component name =
     (if name = [] \<or> name = ''.'' \<or> name = ''..'' \<or> CHR ''/'' \<in> set name \<or> CHR 0x00 \<in> set name
      then Inl InvalidLayout else Inr ())"

fun node_type :: "node \<Rightarrow> file_type" where
  "node_type (FileNode _ _) = RegularFile"
| "node_type (DirNode _) = DirectoryType"
| "node_type _ = OtherType"

text \<open>\<open>statat\<close> without following links.\<close>

definition dir_kind :: "directory \<Rightarrow> string \<Rightarrow> store_error + file_type" where
  "dir_kind d name =
     rbind (validate_component name) (\<lambda>_.
     case bt_get d name of None \<Rightarrow> Inl (StoreIo IoNotFound) | Some n \<Rightarrow> Inr (node_type n))"

definition open_dir :: "directory \<Rightarrow> string \<Rightarrow> store_error + directory" where
  "open_dir d name =
     rbind (validate_component name) (\<lambda>_.
     case bt_get d name of
       None \<Rightarrow> Inl (StoreIo IoNotFound)
     | Some (DirNode es) \<Rightarrow> Inr es
     | Some _ \<Rightarrow> Inl (StoreIo IoNotDirectory))"

text \<open>\<open>mkdirat\<close>, then the descriptor: the directory after the call, the child, whether it is new.\<close>

definition ensure_dir :: "directory \<Rightarrow> string \<Rightarrow> store_error + directory \<times> directory \<times> bool" where
  "ensure_dir d name =
     rbind (validate_component name) (\<lambda>_.
     case bt_get d name of
       None \<Rightarrow> Inr (bt_insert name (DirNode []) d, [], True)
     | Some (DirNode es) \<Rightarrow> Inr (d, es, False)
     | Some _ \<Rightarrow> Inl InvalidLayout)"

text \<open>An opened regular file: its permission bits and its content.\<close>

definition open_file :: "directory \<Rightarrow> string \<Rightarrow> store_error + nat \<times> bytes" where
  "open_file d name =
     rbind (validate_component name) (\<lambda>_.
     case bt_get d name of
       None \<Rightarrow> Inl (StoreIo IoNotFound)
     | Some (FileNode m bs) \<Rightarrow> Inr (m, bs)
     | Some SymlinkNode \<Rightarrow> Inl (StoreIo IoLoop)
     | Some _ \<Rightarrow> Inl InvalidLayout)"

definition private_mode :: nat where "private_mode = 384"

text \<open>\<open>O_CREAT | O_EXCL\<close> with mode 0600.\<close>

definition create_file :: "directory \<Rightarrow> string \<Rightarrow> store_error + directory" where
  "create_file d name =
     rbind (validate_component name) (\<lambda>_.
     if bt_get d name = None then Inr (bt_insert name (FileNode private_mode []) d)
     else Inl (StoreIo IoExists))"

text \<open>\<open>write_all\<close> on the descriptor of a file just created under \<open>name\<close>.\<close>

definition write_all :: "directory \<Rightarrow> string \<Rightarrow> bytes \<Rightarrow> directory" where
  "write_all d name bs = bt_insert name (FileNode private_mode bs) d"

definition bounded_names :: "directory \<Rightarrow> nat \<Rightarrow> store_error + string list" where
  "bounded_names d limit =
     (if limit < length d then Inl InvalidLayout else Inr (sort (bt_keys d)))"

definition unlink_file :: "directory \<Rightarrow> string \<Rightarrow> store_error + directory" where
  "unlink_file d name =
     (case bt_get d name of
        None \<Rightarrow> Inl (StoreIo IoNotFound)
      | Some (DirNode _) \<Rightarrow> Inl (StoreIo IoIsDirectory)
      | Some _ \<Rightarrow> Inr (bt_remove name d))"

definition unlink_dir :: "directory \<Rightarrow> string \<Rightarrow> store_error + directory" where
  "unlink_dir d name =
     (case bt_get d name of
        None \<Rightarrow> Inl (StoreIo IoNotFound)
      | Some (DirNode []) \<Rightarrow> Inr (bt_remove name d)
      | Some (DirNode _) \<Rightarrow> Inl (StoreIo IoNotEmpty)
      | Some _ \<Rightarrow> Inl (StoreIo IoNotDirectory))"

text \<open>\<open>renameat\<close> of a file within one directory, replacing a file of the new name.\<close>

definition rename_file :: "directory \<Rightarrow> string \<Rightarrow> string \<Rightarrow> store_error + directory" where
  "rename_file d old new =
     rbind (validate_component old) (\<lambda>_.
     rbind (validate_component new) (\<lambda>_.
     case bt_get d old of
       None \<Rightarrow> Inl (StoreIo IoNotFound)
     | Some n \<Rightarrow>
         (case bt_get d new of
            Some (DirNode _) \<Rightarrow> Inl (StoreIo IoIsDirectory)
          | _ \<Rightarrow> Inr (bt_insert new n (bt_remove old d)))))"

definition read_file_bounded :: "bytes \<Rightarrow> nat \<Rightarrow> store_error + bytes" where
  "read_file_bounded content limit =
     (let bs = take (Suc limit) content in if limit < length bs then Inl InvalidLayout else Inr bs)"

section \<open>The store\<close>

text \<open>
  The parts of \<open>Store\<close> a scan and a transaction use. The retained handles of \<open>journal\<close>,
  \<open>journal/records\<close> and \<open>journal/batches\<close> are kept apart: \<open>journal_rest\<close> is what else \<open>journal\<close>
  holds. The frozen legacy validator is the caller's adapter.
\<close>

record store_config =
  sc_registry :: domain_registry
  sc_legacy :: "(bytes \<times> bytes \<times> path_class) list \<Rightarrow> string + unit"
  sc_strict :: bool

record store_dirs =
  events_dir :: directory
  batches_dir :: directory
  journal_rest :: directory
  records_dir :: directory
  journal_batches_dir :: directory
  stages_dir :: directory
  recovery_dir :: directory

definition journal_dir :: "store_dirs \<Rightarrow> directory" where
  "journal_dir s =
     bt_insert ''records'' (DirNode (records_dir s))
       (bt_insert ''batches'' (DirNode (journal_batches_dir s)) (journal_rest s))"

definition has_transaction_residue :: "nat \<Rightarrow> store_dirs \<Rightarrow> store_error + bool" where
  "has_transaction_residue limit s =
     rbind (bounded_names (recovery_dir s) limit) (\<lambda>names.
     if names \<noteq> [] then Inr True
     else rbind (bounded_names (stages_dir s) limit) (\<lambda>names. Inr (names \<noteq> [])))"

section \<open>Laws\<close>

text \<open>
  A directory of the host: names are components in strict order, hereditarily.
\<close>

function (sequential) node_wf :: "node \<Rightarrow> bool" where
  "node_wf (DirNode es) =
     (bt_wf es \<and> list_all (\<lambda>e. validate_component (fst e) = Inr () \<and> node_wf (snd e)) es)"
| "node_wf _ = True"
  by pat_completeness auto
termination
  by (relation "measure size") (auto simp: size_list_estimation' less_Suc_eq_le
      intro!: order.trans[OF _ size_list_estimation'])

abbreviation dir_wf :: "directory \<Rightarrow> bool" where "dir_wf d \<equiv> node_wf (DirNode d)"

end
