(* ===== verification/Wj_Scan.thy ===== *)
theory Wj_Scan
  imports Wj_Directory "HOL-Library.Product_Lexorder"
begin

text \<open>
  \<open>store.rs\<close>, the scan of the visible store: collection of the canonical roots under entry and byte
  budgets, decoding of the collected files, the global checks over manifests and records, and the
  snapshot they produce; also the entry budget that streaming replay keeps over sorted files.
\<close>

section \<open>Limits\<close>

definition MAX_LEGACY_FILE_BYTES :: nat where "MAX_LEGACY_FILE_BYTES = 1024 * 1024"
definition MAX_CANONICAL_ENTRIES :: nat where "MAX_CANONICAL_ENTRIES = 1000000"
definition MAX_TOTAL_CANONICAL_BYTES :: nat where "MAX_TOTAL_CANONICAL_BYTES = 1024 * 1024 * 1024"

record scan_limits =
  sl_entries :: nat
  sl_bytes :: nat

definition DEFAULT_SCAN_LIMITS :: scan_limits where
  "DEFAULT_SCAN_LIMITS = \<lparr>sl_entries = MAX_CANONICAL_ENTRIES, sl_bytes = MAX_TOTAL_CANONICAL_BYTES\<rparr>"

record raw_file =
  rf_path :: bytes
  rf_bytes :: bytes

record scan_budget =
  sb_limits :: scan_limits
  sb_entries :: nat
  sb_bytes :: nat

definition budget_entry :: "scan_budget \<Rightarrow> store_error + scan_budget" where
  "budget_entry b =
     (let b = b\<lparr>sb_entries := Suc (sb_entries b)\<rparr>
      in if sl_entries (sb_limits b) < sb_entries b then Inl InvalidLayout else Inr b)"

definition budget_reserve_bytes :: "scan_budget \<Rightarrow> nat \<Rightarrow> store_error + scan_budget" where
  "budget_reserve_bytes b n =
     (let remaining = sl_bytes (sb_limits b) - sb_bytes b
      in if remaining < n then Inl InvalidLayout else Inr (b\<lparr>sb_bytes := sb_bytes b + n\<rparr>))"

definition canonical_file_limit :: "path_class \<Rightarrow> nat option" where
  "canonical_file_limit c = (case c of
      LegacyEvent \<Rightarrow> Some MAX_LEGACY_FILE_BYTES
    | LegacyBatch \<Rightarrow> Some MAX_LEGACY_FILE_BYTES
    | JournalRecord \<Rightarrow> Some MAX_RECORD_BYTES
    | JournalBatch \<Rightarrow> Some MAX_BATCH_BYTES
    | InvalidReserved \<Rightarrow> None
    | NonCanonical \<Rightarrow> None)"

text \<open>The limit of the collecting scan: nothing may be read at a path that is not canonical.\<close>

definition scan_file_limit :: "path_class \<Rightarrow> nat" where
  "scan_file_limit c = (case c of
      JournalRecord \<Rightarrow> MAX_RECORD_BYTES
    | JournalBatch \<Rightarrow> MAX_BATCH_BYTES
    | LegacyEvent \<Rightarrow> MAX_LEGACY_FILE_BYTES
    | LegacyBatch \<Rightarrow> MAX_LEGACY_FILE_BYTES
    | InvalidReserved \<Rightarrow> 0
    | NonCanonical \<Rightarrow> 0)"

definition valid_canonical_directory :: "ext \<Rightarrow> bytes \<Rightarrow> bool" where
  "valid_canonical_directory X path =
     (is_str path \<and>
      (case split_on CHR ''/'' path of
         [a, b] \<Rightarrow>
           if a = ''events'' then
             (case uuid_parse_str X b of
                None \<Rightarrow> False
              | Some u \<Rightarrow> b = uuid_hyphenated X u \<and> \<not> uuid_is_nil X u \<and> uuid_is_rfc4122 X u \<and>
                  uuid_version_num X u \<in> set [4, 5, 7])
           else a = ''journal'' \<and> (b = ''records'' \<or> b = ''batches'')
       | [a, b, domain] \<Rightarrow> a = ''journal'' \<and> b = ''records'' \<and> is_ok (domain_id_from_str domain)
       | [a, b, domain, entity] \<Rightarrow>
           a = ''journal'' \<and> b = ''records'' \<and> is_ok (domain_id_from_str domain) \<and>
           is_ok (entity_id_from_str X entity)
       | _ \<Rightarrow> False))"

section \<open>Collection\<close>

record collected =
  co_files :: "raw_file list"
  co_nonregular :: "bytes list"
  co_inventory :: "bytes list"
  co_budget :: scan_budget

definition collect_file :: "ext \<Rightarrow> collected \<Rightarrow> bytes \<Rightarrow> bytes \<Rightarrow> store_error + collected" where
  "collect_file X c relative content =
     (let limit = scan_file_limit (classify_path X relative) in
      if limit < length content then Inl InvalidLayout
      else rbind (budget_reserve_bytes (co_budget c) (length content)) (\<lambda>b.
      rbind (read_file_bounded content limit) (\<lambda>bs.
      if length content \<noteq> length bs then Inl InvalidLayout
      else Inr (c\<lparr>co_files := co_files c @ [\<lparr>rf_path = relative, rf_bytes = bs\<rparr>], co_budget := b\<rparr>))))"

text \<open>
  One directory, entry by entry: \<open>limit\<close> and \<open>seen\<close> are those of \<open>for_each_name\<close>, the closure's
  captured vectors, set and budget are the accumulator.
\<close>

function (sequential) collect_directory ::
  "ext \<Rightarrow> bytes \<Rightarrow> nat \<Rightarrow> nat \<Rightarrow> (string \<times> node) list \<Rightarrow> collected \<Rightarrow> store_error + collected" where
  "collect_directory X prefix limit seen [] c = Inr c"
| "collect_directory X prefix limit seen ((name, n) # es) c =
     (if limit < Suc seen then Inl InvalidLayout
      else rbind (budget_entry (co_budget c)) (\<lambda>b.
      let relative = prefix @ ''/'' @ name;
          c = c\<lparr>co_inventory := bs_insert relative (co_inventory c), co_budget := b\<rparr> in
      rbind (validate_component name) (\<lambda>_.
      rbind (case n of
               DirNode children \<Rightarrow>
                 if valid_canonical_directory X relative
                 then collect_directory X relative (sl_entries (sb_limits b) - sb_entries b) 0 children c
                 else Inr (c\<lparr>co_files := co_files c @ [\<lparr>rf_path = relative, rf_bytes = []\<rparr>]\<rparr>)
             | FileNode _ content \<Rightarrow> collect_file X c relative content
             | _ \<Rightarrow> Inr (c\<lparr>co_nonregular := co_nonregular c @ [relative]\<rparr>)) (\<lambda>c.
      collect_directory X prefix limit (Suc seen) es c))))"
  by pat_completeness auto
termination
  by (relation "measure (\<lambda>(X, prefix, limit, seen, es, c). size_list (size_prod (\<lambda>_. 0) size) es)") auto

definition collect_visible_inventory ::
  "ext \<Rightarrow> scan_limits \<Rightarrow> store_dirs \<Rightarrow> store_error + raw_file list \<times> bytes list \<times> bytes list" where
  "collect_visible_inventory X limits s =
     rbind (try_fold (\<lambda>c (d, prefix).
         collect_directory X prefix (sl_entries limits - sb_entries (co_budget c)) 0 d c)
       \<lparr>co_files = [], co_nonregular = [], co_inventory = [],
        co_budget = \<lparr>sb_limits = limits, sb_entries = 0, sb_bytes = 0\<rparr>\<rparr>
       [(batches_dir s, ''batches''), (events_dir s, ''events''), (journal_dir s, ''journal'')]) (\<lambda>c.
     Inr (sort_key rf_path (co_files c), sort (co_nonregular c), co_inventory c))"

definition visible_inventory ::
  "ext \<Rightarrow> store_dirs \<Rightarrow> store_error + raw_file list \<times> bytes list \<times> bytes list" where
  "visible_inventory X s = collect_visible_inventory X DEFAULT_SCAN_LIMITS s"

definition collect_visible :: "ext \<Rightarrow> store_dirs \<Rightarrow> store_error + raw_file list \<times> bytes list" where
  "collect_visible X s =
     rbind (collect_visible_inventory X DEFAULT_SCAN_LIMITS s) (\<lambda>(files, nonregular, _). Inr (files, nonregular))"

section \<open>Entry accounting\<close>

definition canonical_root :: "bytes \<Rightarrow> bool" where
  "canonical_root p \<longleftrightarrow> p = ''events'' \<or> p = ''batches'' \<or> p = ''journal''"

text \<open>\<open>path[..end].iter().rposition(|byte| *byte == b'/')\<close>.\<close>

definition rposition_slash :: "bytes \<Rightarrow> nat option" where
  "rposition_slash p =
     (case dropWhile (\<lambda>c. c \<noteq> CHR ''/'') (rev p) of [] \<Rightarrow> None | _ # q \<Rightarrow> Some (length q))"

lemma rposition_slash_less: "rposition_slash p = Some i \<Longrightarrow> i < length p"
  using length_dropWhile_le[of "\<lambda>c. c \<noteq> CHR ''/''" "rev p"]
  by (auto simp: rposition_slash_def split: list.splits)

function canonical_parents :: "bytes list \<Rightarrow> bytes \<Rightarrow> bytes list" where
  "canonical_parents entries path =
     (case rposition_slash path of
        None \<Rightarrow> entries
      | Some slash \<Rightarrow>
          let parent = take slash path in
          if canonical_root parent then entries
          else canonical_parents (bs_insert parent entries) parent)"
  by pat_completeness auto
termination
  by (relation "measure (\<lambda>(entries, path). length path)") (auto dest: rposition_slash_less)

definition add_entry_and_canonical_parents :: "bytes list \<Rightarrow> bytes \<Rightarrow> bytes list" where
  "add_entry_and_canonical_parents entries path = canonical_parents (bs_insert path entries) path"

definition enforce_limits ::
  "(bytes \<times> nat) list \<Rightarrow> bytes list \<Rightarrow> bytes list \<Rightarrow> store_error + unit" where
  "enforce_limits files nonregular existing =
     (let entries = fold (\<lambda>p es. add_entry_and_canonical_parents es p) nonregular
            (fold (\<lambda>(p, _) es. add_entry_and_canonical_parents es p) files (bs_of_list existing))
      in if sl_entries DEFAULT_SCAN_LIMITS < length entries then Inl InvalidLayout
         else let total = sum_list (map snd files)
              in if 2 ^ 64 \<le> total \<or> sl_bytes DEFAULT_SCAN_LIMITS < total then Inl InvalidLayout
                 else Inr ())"

record canonical_entry_budget =
  ce_entries :: nat
  ce_previous :: "bytes option"

definition entry_budget_new :: canonical_entry_budget where
  "entry_budget_new = \<lparr>ce_entries = 0, ce_previous = None\<rparr>"

definition already_counted :: "bytes option \<Rightarrow> bytes \<Rightarrow> bool" where
  "already_counted previous parent =
     (case previous of
        None \<Rightarrow> False
      | Some p \<Rightarrow> starts_with p parent \<and> length parent < length p \<and> p ! length parent = CHR ''/'')"

definition slash_positions :: "bytes \<Rightarrow> nat list" where
  "slash_positions path = filter (\<lambda>i. path ! i = CHR ''/'') [0..<length path]"

definition push_sorted_file ::
  "canonical_entry_budget \<Rightarrow> bytes \<Rightarrow> nat \<Rightarrow> canonical_entry_budget option" where
  "push_sorted_file b path limit =
     (if (case ce_previous b of None \<Rightarrow> False | Some p \<Rightarrow> path \<le> p) then None
      else let added = fold (\<lambda>stop added.
               let parent = take stop path in
               if canonical_root parent then added
               else if already_counted (ce_previous b) parent then added
               else Suc added) (slash_positions path) 1;
             entries = ce_entries b + added
           in if limit < entries then None
              else Some \<lparr>ce_entries = entries, ce_previous = Some path\<rparr>)"

section \<open>Decoding and global checks\<close>

type_synonym legacy_entry = "bytes \<times> bytes \<times> path_class"

datatype decoded_file =
    DecodedManifest batch_manifest
  | DecodedRecord wj_record
  | DecodedLegacy legacy_entry

definition decode_visible_file :: "ext \<Rightarrow> domain_registry \<Rightarrow> raw_file \<Rightarrow> store_error + decoded_file" where
  "decode_visible_file X R f =
     (case classify_path X (rf_path f) of
        JournalBatch \<Rightarrow>
          rbind (map_err (\<lambda>e. Corrupt (InvalidManifestFile (rf_path f) e))
            (decode_batch_manifest X (rf_bytes f))) (\<lambda>m.
          if manifest_canonical_path X m \<noteq> rf_path f then Inl (Corrupt (InvalidCanonicalFile (rf_path f)))
          else Inr (DecodedManifest m))
      | JournalRecord \<Rightarrow>
          rbind (map_err (\<lambda>e. Corrupt (InvalidRecordFile (rf_path f) e)) (decode_record X (rf_bytes f) R)) (\<lambda>r.
          if record_canonical_path X r \<noteq> rf_path f then Inl (Corrupt (InvalidCanonicalFile (rf_path f)))
          else Inr (DecodedRecord r))
      | LegacyBatch \<Rightarrow> Inr (DecodedLegacy (rf_path f, rf_bytes f, LegacyBatch))
      | LegacyEvent \<Rightarrow> Inr (DecodedLegacy (rf_path f, rf_bytes f, LegacyEvent))
      | _ \<Rightarrow> Inl (Corrupt (InvalidCanonicalFile (rf_path f))))"

text \<open>\<open>map.entry(key).or_default().push(value)\<close>.\<close>

definition entry_push :: "'k::linorder \<Rightarrow> 'v \<Rightarrow> ('k, 'v list) btree \<Rightarrow> ('k, 'v list) btree" where
  "entry_push k v m = bt_insert k ((case bt_get m k of None \<Rightarrow> [] | Some vs \<Rightarrow> vs) @ [v]) m"

definition group_fold ::
  "ext \<Rightarrow> (string \<times> string, domain_operation list) btree \<Rightarrow> wj_record \<Rightarrow>
   store_error + (string \<times> string, domain_operation list) btree" where
  "group_fold X grouped r =
     (if r_domain r \<noteq> ''wayjournal.profile'' \<and> r_domain r \<noteq> ''wayjournal.catalog'' then Inr grouped
      else rbind (map_err (\<lambda>_. Corrupt (InvalidDomainFold (r_domain r) (uuid_to_string X (r_entity r))))
             (operation_try_from X r)) (\<lambda>operation.
           Inr (entry_push (r_domain r, uuid_to_string X (r_entity r)) operation grouped)))"

definition check_group :: "(string \<times> string) \<times> domain_operation list \<Rightarrow> store_error + unit" where
  "check_group = (\<lambda>((domain, entity), ops).
     if (if domain = ''wayjournal.profile'' then is_ok (fold_profile ops) else is_ok (fold_catalogs ops))
     then Inr () else Inl (Corrupt (InvalidDomainFold domain entity)))"

definition validate_builtin_folds :: "ext \<Rightarrow> wj_record list \<Rightarrow> store_error + unit" where
  "validate_builtin_folds X records =
     rbind (try_fold (group_fold X) [] records) (\<lambda>grouped.
     rbind (try_map check_group grouped) (\<lambda>_. Inr ()))"

definition validate_global_idempotency :: "ext \<Rightarrow> batch_manifest list \<Rightarrow> store_error + unit" where
  "validate_global_idempotency X manifests =
     (let owners = fold (\<lambda>m. entry_push (bm_actor m, digest_to_string X (bm_key_digest m)) (bm_batch m))
            manifests []
      in case find (\<lambda>(_, ids). 1 < length ids) owners of
           Some (_, ids) \<Rightarrow> Inl (Corrupt (GenericOwnership (DuplicateIdempotencyOwnership ids)))
         | None \<Rightarrow> Inr ())"

record store_snapshot =
  ss_revision :: store_revision_ref
  ss_manifests :: "batch_manifest list"
  ss_records :: "wj_record list"
  ss_identity :: "store_identity option"
  ss_legacy :: "legacy_entry list"

record scan_state =
  sn_manifests :: "batch_manifest list"
  sn_records :: "(bytes, wj_record \<times> bytes) btree"
  sn_ids :: "(record_id, bytes list) btree"
  sn_legacy :: "legacy_entry list"

definition scan_file :: "ext \<Rightarrow> domain_registry \<Rightarrow> scan_state \<Rightarrow> raw_file \<Rightarrow> store_error + scan_state" where
  "scan_file X R st f =
     rbind (decode_visible_file X R f) (\<lambda>d. Inr (case d of
        DecodedManifest m \<Rightarrow> st\<lparr>sn_manifests := sn_manifests st @ [m]\<rparr>
      | DecodedRecord r \<Rightarrow> st\<lparr>sn_ids := entry_push (r_id r) (rf_path f) (sn_ids st),
          sn_records := bt_insert (rf_path f) (r, rf_bytes f) (sn_records st)\<rparr>
      | DecodedLegacy e \<Rightarrow> st\<lparr>sn_legacy := sn_legacy st @ [e]\<rparr>))"

definition validate_collected_legacy :: "store_config \<Rightarrow> legacy_entry list \<Rightarrow> store_error + unit" where
  "validate_collected_legacy C legacy = map_err (\<lambda>m. Corrupt (InvalidLegacy m)) (sc_legacy C legacy)"

definition resolve_scanned_revision ::
  "ext \<Rightarrow> store_config \<Rightarrow> raw_file list \<Rightarrow> legacy_entry list \<Rightarrow> store_error + store_revision_ref" where
  "resolve_scanned_revision X C files legacy =
     rbind (validate_collected_legacy C legacy) (\<lambda>_.
     map_err (\<lambda>e. Corrupt (InvalidRevisionEntry e))
       (compute_store_revision X
         (map (\<lambda>f. \<lparr>re_path = rf_path f, re_bytes = rf_bytes f, re_regular = True\<rparr>) files)))"

definition builtin_domain :: "string \<Rightarrow> bool" where
  "builtin_domain d \<longleftrightarrow> d = ''wayjournal.identity'' \<or> d = ''wayjournal.profile'' \<or> d = ''wayjournal.catalog''"

definition scan_collected ::
  "ext \<Rightarrow> store_config \<Rightarrow> raw_file list \<Rightarrow> bytes list \<Rightarrow> store_error + store_snapshot" where
  "scan_collected X C files nonregular =
     (case nonregular of
        path # _ \<Rightarrow> Inl (Corrupt (NonRegularPath path))
      | [] \<Rightarrow>
          rbind (try_fold (scan_file X (sc_registry C))
            \<lparr>sn_manifests = [], sn_records = [], sn_ids = [], sn_legacy = []\<rparr> files) (\<lambda>st.
          case find (\<lambda>(_, paths). 1 < length paths) (sn_ids st) of
            Some (rid, paths) \<Rightarrow> Inl (Corrupt (DuplicateGlobalRecordId rid (sort paths)))
          | None \<Rightarrow>
              let manifests = sort_key bm_batch (sn_manifests st);
                  stored = map (\<lambda>(path, (_, bs)). \<lparr>sm_path = path, sm_bytes = bs\<rparr>) (sn_records st);
                  records = map (\<lambda>(_, (r, _)). r) (sn_records st) in
              rbind (validate_global_idempotency X manifests) (\<lambda>_.
              rbind (map_err (\<lambda>e. Corrupt (GenericOwnership e))
                (validate_batch_ownership X stored manifests (sc_registry C))) (\<lambda>_.
              if \<not> sc_strict C \<and> list_ex (\<lambda>r. builtin_domain (r_domain r)) records
              then Inl (Corrupt (InvalidDomainFold ''wayjournal.reserved'' ''legacy-s1-s2''))
              else
                rbind (if sc_strict C then
                    rbind (map_err (\<lambda>e. Corrupt (InvalidGenesis e))
                      (validate_store_identity X manifests stored (sc_registry C))) (\<lambda>identity.
                    rbind (validate_builtin_folds X records) (\<lambda>_. Inr identity))
                  else Inr None) (\<lambda>identity.
                rbind (resolve_scanned_revision X C files (sn_legacy st)) (\<lambda>revision.
                Inr \<lparr>ss_revision = revision, ss_manifests = manifests, ss_records = records,
                      ss_identity = identity, ss_legacy = sn_legacy st\<rparr>))))))"

definition scan_visible :: "ext \<Rightarrow> store_config \<Rightarrow> store_dirs \<Rightarrow> store_error + store_snapshot" where
  "scan_visible X C s =
     rbind (collect_visible X s) (\<lambda>(files, nonregular). scan_collected X C files nonregular)"

section \<open>What a collection visits\<close>

text \<open>
  The entries a traversal meets, in its order: a directory it descends into, a file (a directory it
  must not descend into counts as an empty one), or a special file.
\<close>

datatype visit_item = VDir | VFile bytes | VSpecial

function (sequential) visited :: "ext \<Rightarrow> bytes \<Rightarrow> (string \<times> node) list \<Rightarrow> (bytes \<times> visit_item) list" where
  "visited X p [] = []"
| "visited X p ((name, n) # es) =
     (let relative = p @ ''/'' @ name in
      (case n of
         DirNode children \<Rightarrow>
           if valid_canonical_directory X relative then (relative, VDir) # visited X relative children
           else [(relative, VFile [])]
       | FileNode _ content \<Rightarrow> [(relative, VFile content)]
       | _ \<Rightarrow> [(relative, VSpecial)]) @ visited X p es)"
  by pat_completeness auto
termination
  by (relation "measure (\<lambda>(X, p, es). size_list (size_prod (\<lambda>_. 0) size) es)") auto

definition visible_items :: "ext \<Rightarrow> store_dirs \<Rightarrow> (bytes \<times> visit_item) list" where
  "visible_items X s =
     visited X ''batches'' (batches_dir s) @ visited X ''events'' (events_dir s) @
     visited X ''journal'' (journal_dir s)"

definition visible_wf :: "store_dirs \<Rightarrow> bool" where
  "visible_wf s \<longleftrightarrow> dir_wf (batches_dir s) \<and> dir_wf (events_dir s) \<and> dir_wf (journal_dir s)"

definition item_files :: "(bytes \<times> visit_item) list \<Rightarrow> raw_file list" where
  "item_files vs = concat (map (\<lambda>(p, i). case i of VFile bs \<Rightarrow> [\<lparr>rf_path = p, rf_bytes = bs\<rparr>] | _ \<Rightarrow> []) vs)"

definition item_special :: "(bytes \<times> visit_item) list \<Rightarrow> bytes list" where
  "item_special vs = concat (map (\<lambda>(p, i). case i of VSpecial \<Rightarrow> [p] | _ \<Rightarrow> []) vs)"

definition file_bytes :: "raw_file list \<Rightarrow> nat" where
  "file_bytes fs = sum_list (map (\<lambda>f. length (rf_bytes f)) fs)"

definition items_ok :: "ext \<Rightarrow> scan_limits \<Rightarrow> (bytes \<times> visit_item) list \<Rightarrow> bool" where
  "items_ok X L vs \<longleftrightarrow>
     length vs \<le> sl_entries L \<and> file_bytes (item_files vs) \<le> sl_bytes L \<and>
     (\<forall>f\<in>set (item_files vs). length (rf_bytes f) \<le> scan_file_limit (classify_path X (rf_path f)))"

definition collect_step :: "ext \<Rightarrow> collected \<Rightarrow> bytes \<times> visit_item \<Rightarrow> store_error + collected" where
  "collect_step X c v =
     rbind (budget_entry (co_budget c)) (\<lambda>b.
     let c = c\<lparr>co_inventory := bs_insert (fst v) (co_inventory c), co_budget := b\<rparr> in
     case snd v of
       VDir \<Rightarrow> Inr c
     | VFile bs \<Rightarrow> collect_file X c (fst v) bs
     | VSpecial \<Rightarrow> Inr (c\<lparr>co_nonregular := co_nonregular c @ [fst v]\<rparr>))"

lemma read_file_bounded_iff: "read_file_bounded content limit =
    (if limit < length content then Inl InvalidLayout else Inr content)"
  by (simp add: read_file_bounded_def Let_def)

lemma collect_file_eq:
  "collect_file X c p bs =
     (if scan_file_limit (classify_path X p) < length bs \<or>
         sl_bytes (sb_limits (co_budget c)) - sb_bytes (co_budget c) < length bs then Inl InvalidLayout
      else Inr (c\<lparr>co_files := co_files c @ [\<lparr>rf_path = p, rf_bytes = bs\<rparr>],
                  co_budget := (co_budget c)\<lparr>sb_bytes := sb_bytes (co_budget c) + length bs\<rparr>\<rparr>))"
  by (simp add: collect_file_def Let_def read_file_bounded_iff budget_reserve_bytes_def)

lemma collect_step_simps:
  "collect_step X c (p, VDir) = rbind (budget_entry (co_budget c)) (\<lambda>b.
     Inr (c\<lparr>co_inventory := bs_insert p (co_inventory c), co_budget := b\<rparr>))"
  "collect_step X c (p, VFile bs) = rbind (budget_entry (co_budget c)) (\<lambda>b.
     collect_file X (c\<lparr>co_inventory := bs_insert p (co_inventory c), co_budget := b\<rparr>) p bs)"
  "collect_step X c (p, VSpecial) = rbind (budget_entry (co_budget c)) (\<lambda>b.
     Inr (c\<lparr>co_inventory := bs_insert p (co_inventory c), co_budget := b,
            co_nonregular := co_nonregular c @ [p]\<rparr>))"
  by (simp_all add: collect_step_def Let_def)

lemma collect_step_budget:
  assumes "collect_step X c v = Inr c'"
  shows "sb_limits (co_budget c') = sb_limits (co_budget c)"
    and "sb_entries (co_budget c') = Suc (sb_entries (co_budget c))"
  using assms by (auto simp: collect_step_def budget_entry_def Let_def collect_file_eq result_simps
      split: if_splits visit_item.splits)

lemma collect_steps_budget:
  assumes "try_fold (collect_step X) c vs = Inr c'"
  shows "sb_limits (co_budget c') = sb_limits (co_budget c) \<and>
    sb_entries (co_budget c') = sb_entries (co_budget c) + length vs"
  using assms
proof (induction vs arbitrary: c)
  case (Cons v vs)
  then obtain d where "collect_step X c v = Inr d" "try_fold (collect_step X) d vs = Inr c'"
    by (auto simp: result_simps)
  then show ?case
    using Cons.IH collect_step_budget[of X c v d] by auto
qed simp

lemma collect_directory_eq:
  assumes "list_all (\<lambda>e. validate_component (fst e) = Inr () \<and> node_wf (snd e)) es"
    and "sl_entries (sb_limits (co_budget c)) + seen \<le> limit + sb_entries (co_budget c)"
  shows "collect_directory X p limit seen es c = try_fold (collect_step X) c (visited X p es)"
  using assms
proof (induction X p limit seen es c rule: collect_directory.induct)
  case (1 X p limit seen c)
  then show ?case by simp
next
  case (2 X p limit seen name n es c)
  show ?case
  proof (cases "budget_entry (co_budget c)")
    case (Inl e)
    then show ?thesis
      by (cases n) (auto simp: collect_step_simps budget_entry_def Let_def split: if_splits)
  next
    case (Inr b)
    then have b: "b = (co_budget c)\<lparr>sb_entries := Suc (sb_entries (co_budget c))\<rparr>"
        "\<not> sl_entries (sb_limits (co_budget c)) < Suc (sb_entries (co_budget c))"
      by (auto simp: budget_entry_def Let_def split: if_splits)
    then have lim: "\<not> limit < Suc seen"
      using "2.prems"(2) by linarith
    let ?rel = "p @ ''/'' @ name"
    let ?c = "c\<lparr>co_inventory := bs_insert ?rel (co_inventory c), co_budget := b\<rparr>"
    have vc: "validate_component name = Inr ()"
      using "2.prems"(1) by simp
    have rest: "collect_directory X p limit (Suc seen) es d = try_fold (collect_step X) d (visited X p es)"
      if d: "sb_limits (co_budget d) = sb_limits (co_budget c)"
        "Suc (sb_entries (co_budget c)) \<le> sb_entries (co_budget d)" for d
      using that "2.prems" by (intro "2.IH"(2)[OF lim refl refl]) auto
    note eqs = lim Inr vc collect_step_simps Let_def rbind_assoc
    show ?thesis
    proof (cases n)
      case (DirNode children)
      show ?thesis
      proof (cases "valid_canonical_directory X ?rel")
        case True
        let ?sub = "collect_directory X ?rel (sl_entries (sb_limits b) - sb_entries b) 0 children ?c"
        have sub: "?sub = try_fold (collect_step X) ?c (visited X ?rel children)"
          using "2.prems"(1) b
          by (intro "2.IH"(1)[OF lim refl refl DirNode True]) (auto simp: DirNode)
        have "collect_directory X p limit seen ((name, n) # es) c =
            rbind ?sub (collect_directory X p limit (Suc seen) es)"
          using lim Inr vc DirNode True by (simp add: Let_def)
        also have "\<dots> = rbind ?sub (\<lambda>d. try_fold (collect_step X) d (visited X p es))"
          using b sub by (cases ?sub) (use collect_steps_budget in \<open>fastforce intro!: rest\<close>)+
        also have "\<dots> = try_fold (collect_step X) c (visited X p ((name, n) # es))"
          using Inr DirNode True sub by (simp add: collect_step_simps try_fold_append Let_def)
        finally show ?thesis .
      next
        case False
        then show ?thesis
          using DirNode b Inr by (cases c) (auto simp: eqs collect_file_eq rest)
      qed
    next
      case (FileNode m content)
      then show ?thesis
        using b by (auto simp: eqs collect_file_eq intro!: rest)
    qed (use b in \<open>auto simp: eqs intro!: rest\<close>)
  qed
qed


lemma item_files_simps [simp]:
  "item_files [] = []" "item_files ((p, VFile bs) # vs) = \<lparr>rf_path = p, rf_bytes = bs\<rparr> # item_files vs"
  "item_files ((p, VDir) # vs) = item_files vs" "item_files ((p, VSpecial) # vs) = item_files vs"
  "item_files (us @ vs) = item_files us @ item_files vs"
  by (simp_all add: item_files_def)

lemma item_special_simps [simp]:
  "item_special [] = []" "item_special ((p, VFile bs) # vs) = item_special vs"
  "item_special ((p, VDir) # vs) = item_special vs" "item_special ((p, VSpecial) # vs) = p # item_special vs"
  "item_special (us @ vs) = item_special us @ item_special vs"
  by (simp_all add: item_special_def)

lemma file_bytes_simps [simp]: "file_bytes [] = 0" "file_bytes (f # fs) = length (rf_bytes f) + file_bytes fs"
  "file_bytes (fs @ gs) = file_bytes fs + file_bytes gs"
  by (simp_all add: file_bytes_def)

lemma collect_steps_Inr:
  "try_fold (collect_step X) c vs = Inr c' \<longleftrightarrow>
   (vs \<noteq> [] \<longrightarrow> sb_entries (co_budget c) + length vs \<le> sl_entries (sb_limits (co_budget c))) \<and>
   (item_files vs \<noteq> [] \<longrightarrow> file_bytes (item_files vs) \<le> sl_bytes (sb_limits (co_budget c)) - sb_bytes (co_budget c)) \<and>
   (\<forall>f\<in>set (item_files vs). length (rf_bytes f) \<le> scan_file_limit (classify_path X (rf_path f))) \<and>
   c' = c\<lparr>co_files := co_files c @ item_files vs, co_nonregular := co_nonregular c @ item_special vs,
          co_inventory := fold bs_insert (map fst vs) (co_inventory c),
          co_budget := (co_budget c)\<lparr>sb_entries := sb_entries (co_budget c) + length vs,
            sb_bytes := sb_bytes (co_budget c) + file_bytes (item_files vs)\<rparr>\<rparr>"
proof (induction vs arbitrary: c)
  case (Cons v vs)
  obtain p i where v: "v = (p, i)" by fastforce
  show ?case
    by (cases i) (auto simp: v collect_step_simps budget_entry_def Let_def collect_file_eq Cons.IH
        split: if_splits)
qed auto

lemma collect_visible_inventory_Inr:
  assumes "visible_wf s"
  shows "collect_visible_inventory X L s = Inr (files, nonregular, inventory) \<longleftrightarrow>
    items_ok X L (visible_items X s) \<and> files = sort_key rf_path (item_files (visible_items X s)) \<and>
    nonregular = sort (item_special (visible_items X s)) \<and>
    inventory = bs_of_list (map fst (visible_items X s))"
proof -
  define c0 where "c0 = \<lparr>co_files = [], co_nonregular = [], co_inventory = [],
        co_budget = \<lparr>sb_limits = L, sb_entries = 0, sb_bytes = 0\<rparr>\<rparr>"
  have eq: "collect_directory X p (sl_entries L - sb_entries (co_budget c)) 0 d c =
      try_fold (collect_step X) c (visited X p d)"
    if "dir_wf d" "sb_limits (co_budget c) = L" for p d c
    using that by (intro collect_directory_eq) auto
  have "try_fold (\<lambda>c (d, p). collect_directory X p (sl_entries L - sb_entries (co_budget c)) 0 d c) c ds =
      try_fold (collect_step X) c (concat (map (\<lambda>(d, p). visited X p d) ds))"
    if "\<forall>(d, p)\<in>set ds. dir_wf d" "sb_limits (co_budget c) = L" for c ds
    using that
  proof (induction ds arbitrary: c)
    case (Cons dp ds)
    obtain d p where dp: "dp = (d, p)" by fastforce
    then have "collect_directory X p (sl_entries L - sb_entries (co_budget c)) 0 d c =
        try_fold (collect_step X) c (visited X p d)"
      using Cons.prems by (intro eq) auto
    then show ?case
      using Cons collect_steps_budget[of X c "visited X p d"] unfolding dp
      by (cases "try_fold (collect_step X) c (visited X p d)") (auto simp: try_fold_append)
  qed simp
  from this[of "[(batches_dir s, ''batches''), (events_dir s, ''events''), (journal_dir s, ''journal'')]" c0]
  have "try_fold (\<lambda>c (d, p). collect_directory X p (sl_entries L - sb_entries (co_budget c)) 0 d c) c0
      [(batches_dir s, ''batches''), (events_dir s, ''events''), (journal_dir s, ''journal'')] =
      try_fold (collect_step X) c0 (visible_items X s)"
    using assms by (simp add: visible_wf_def visible_items_def c0_def del: node_wf.simps try_fold.simps)
  then show ?thesis
    by (auto simp: collect_visible_inventory_def c0_def[symmetric] result_simps collect_steps_Inr
        items_ok_def bs_of_list_def simp del: try_fold.simps) (auto simp: c0_def items_ok_def)
qed

section \<open>Paths of visited entries\<close>

definition visit_entry :: "ext \<Rightarrow> bytes \<Rightarrow> string \<Rightarrow> node \<Rightarrow> (bytes \<times> visit_item) list" where
  "visit_entry X p name n = visited X p [(name, n)]"

lemma visited_Cons: "visited X p ((name, n) # es) = visit_entry X p name n @ visited X p es"
  by (simp add: visit_entry_def Let_def)

lemma set_visited: "set (visited X p es) = (\<Union>(name, n)\<in>set es. set (visit_entry X p name n))"
proof (induction es)
  case (Cons e es)
  then show ?case by (cases e) (simp add: visited_Cons del: visited.simps(2))
qed simp

lemma visit_entry_simps:
  "visit_entry X p name (FileNode m bs) = [(p @ ''/'' @ name, VFile bs)]"
  "visit_entry X p name SymlinkNode = [(p @ ''/'' @ name, VSpecial)]"
  "visit_entry X p name SpecialNode = [(p @ ''/'' @ name, VSpecial)]"
  "visit_entry X p name (DirNode es) =
     (if valid_canonical_directory X (p @ ''/'' @ name)
      then (p @ ''/'' @ name, VDir) # visited X (p @ ''/'' @ name) es else [(p @ ''/'' @ name, VFile [])])"
  by (simp_all add: visit_entry_def Let_def)

definition below :: "bytes \<Rightarrow> string \<Rightarrow> bytes \<Rightarrow> bool" where
  "below p name q \<longleftrightarrow> q = p @ ''/'' @ name \<or> (\<exists>t. q = p @ ''/'' @ name @ ''/'' @ t)"

lemma visited_below: "(q, i) \<in> set (visited X p es) \<Longrightarrow> \<exists>name\<in>fst ` set es. below p name q"
proof (induction X p es arbitrary: q i rule: visited.induct)
  case (2 X p name n es)
  show ?case
  proof (cases "(q, i) \<in> set (visited X p es)")
    case True
    then show ?thesis using "2.IH"(2)[OF refl True] by auto
  next
    case False
    then have "(q, i) \<in> set (visit_entry X p name n)"
      using "2.prems" by (simp add: visited_Cons del: visited.simps(2))
    then have "below p name q"
    proof (cases n)
      case (DirNode children)
      show ?thesis
      proof (cases "(q, i) \<in> set (visited X (p @ ''/'' @ name) children)")
        case True
        then show ?thesis
          using \<open>(q, i) \<in> set (visit_entry X p name n)\<close> "2.IH"(1)[OF refl DirNode _ True]
          by (auto simp: visit_entry_simps DirNode below_def split: if_splits)
      next
        case False
        then show ?thesis
          using \<open>(q, i) \<in> set (visit_entry X p name n)\<close>
          by (auto simp: visit_entry_simps DirNode below_def split: if_splits)
      qed
    qed (auto simp: visit_entry_simps below_def)
    then show ?thesis by auto
  qed
qed simp

lemma component_plain: "validate_component name = Inr () \<Longrightarrow> CHR ''/'' \<notin> set name \<and> name \<noteq> []"
  by (auto simp: validate_component_def split: if_splits)

lemma below_unique:
  assumes "below p a q" "below p b q" "CHR ''/'' \<notin> set a" "CHR ''/'' \<notin> set b"
  shows "a = b"
proof -
  have "hd (split_on CHR ''/'' (drop (length p + 1) q)) = a" if "below p a q" "CHR ''/'' \<notin> set a" for a
    using that by (auto simp: below_def split_on_plain split_on_append_sep)
  then show ?thesis using assms by metis
qed

lemma distinct_visited: "dir_wf es \<Longrightarrow> distinct (map fst (visited X p es))"
proof (induction X p es rule: visited.induct)
  case (2 X p name n es)
  have comp: "validate_component name = Inr ()" and nw: "node_wf n"
    and comps: "\<forall>e\<in>set es. validate_component (fst e) = Inr ()" and new: "name \<notin> fst ` set es"
    using "2.prems" by (auto simp: list_all_iff)
  have "distinct (map fst (visit_entry X p name n))"
  proof (cases n)
    case (DirNode children)
    have "p @ ''/'' @ name \<notin> fst ` set (visited X (p @ ''/'' @ name) children)"
      by (auto simp: below_def dest!: visited_below)
    then show ?thesis
      using "2.IH"(1)[OF refl DirNode] nw by (auto simp: visit_entry_simps DirNode simp del: node_wf.simps)
  qed (simp_all add: visit_entry_simps)
  moreover have "distinct (map fst (visited X p es))"
    using "2.prems" by (intro "2.IH"(2)[OF refl]) auto
  moreover have "fst ` set (visit_entry X p name n) \<inter> fst ` set (visited X p es) = {}"
  proof -
    have "below p name (fst v)" if "v \<in> set (visit_entry X p name n)" for v
      using that visited_below[of "fst v" "snd v" X p "[(name, n)]"] by (simp add: visit_entry_def)
    moreover have "\<exists>b\<in>fst ` set es. below p b (fst v)" if "v \<in> set (visited X p es)" for v
      using that visited_below[of "fst v" "snd v" X p es] by simp
    ultimately show ?thesis
      using below_unique comp comps new component_plain by (fastforce simp: image_iff)
  qed
  ultimately show ?case
    by (simp add: visited_Cons del: visited.simps(2))
qed simp

lemma distinct_visible_items:
  assumes "visible_wf s"
  shows "distinct (map fst (visible_items X s))"
proof -
  have "hd q = c" if "q \<in> fst ` set (visited X (c # p) es)" for c q p es
    using that visited_below[of q _ X "c # p" es] by (force simp: below_def)
  then have "fst ` set (visited X (c # p) a) \<inter> fst ` set (visited X (d # r) b) = {}" if "c \<noteq> d" for c d p r a b
    using that by blast
  then have "fst ` set (visited X ''batches'' a) \<inter> fst ` set (visited X ''events'' b) = {}"
      "fst ` set (visited X ''batches'' a) \<inter> fst ` set (visited X ''journal'' c) = {}"
      "fst ` set (visited X ''events'' b) \<inter> fst ` set (visited X ''journal'' c) = {}" for a b c
    by simp_all
  then show ?thesis
    using assms by (simp add: visible_wf_def visible_items_def distinct_visited Int_Un_distrib
        del: node_wf.simps)
qed

section \<open>Entry accounting\<close>

definition parent_dirs :: "bytes \<Rightarrow> bytes set" where
  "parent_dirs path = {p. (\<exists>t. path = p @ ''/'' @ t) \<and> \<not> canonical_root p}"

definition entry_set :: "bytes set \<Rightarrow> bytes set" where
  "entry_set ps = (\<Union>p\<in>ps. insert p (parent_dirs p))"

lemma rposition_slash_None: "rposition_slash p = None \<longleftrightarrow> CHR ''/'' \<notin> set p"
proof -
  have "rposition_slash p = None \<longleftrightarrow> dropWhile (\<lambda>c. c \<noteq> CHR ''/'') (rev p) = []"
    by (cases "dropWhile (\<lambda>c. c \<noteq> CHR ''/'') (rev p)")
      (simp_all add: rposition_slash_def del: dropWhile_eq_Nil_conv)
  then show ?thesis by (auto simp: dropWhile_eq_Nil_conv)
qed

lemma rposition_slash_Some:
  assumes "rposition_slash p = Some i"
  obtains t where "p = take i p @ CHR ''/'' # t" "CHR ''/'' \<notin> set t"
proof -
  obtain c q where q: "dropWhile (\<lambda>c. c \<noteq> CHR ''/'') (rev p) = c # q" "i = length q"
    using assms by (auto simp: rposition_slash_def split: list.splits)
  have "c = CHR ''/''"
    using q(1) hd_dropWhile[of "\<lambda>c. c \<noteq> CHR ''/''" "rev p"] by auto
  moreover have "rev p = takeWhile (\<lambda>c. c \<noteq> CHR ''/'') (rev p) @ c # q"
    using q(1) takeWhile_dropWhile_id[of "\<lambda>c. c \<noteq> CHR ''/''" "rev p"] by simp
  then have "p = rev q @ c # rev (takeWhile (\<lambda>c. c \<noteq> CHR ''/'') (rev p))"
    by (metis append.assoc append_Cons append_Nil rev.simps(2) rev_append rev_rev_ident)
  ultimately have "p = take i p @ CHR ''/'' # rev (takeWhile (\<lambda>c. c \<noteq> CHR ''/'') (rev p))"
    using q(2) by (metis append_eq_conv_conj length_rev)
  then show thesis
    using that[of "rev (takeWhile (\<lambda>c. c \<noteq> CHR ''/'') (rev p))"] by (auto dest: set_takeWhileD)
qed

lemma parent_dirs_last:
  assumes "CHR ''/'' \<notin> set t"
  shows "parent_dirs (q @ CHR ''/'' # t) =
    (if canonical_root q then {} else insert q (parent_dirs q))"
proof -
  have root: "CHR ''/'' \<notin> set q" if "canonical_root q"
    using that by (auto simp: canonical_root_def)
  have "(\<exists>u. q @ CHR ''/'' # t = p @ CHR ''/'' # u) \<longleftrightarrow> p = q \<or> (\<exists>u. q = p @ CHR ''/'' # u)" for p
  proof
    assume "\<exists>u. q @ CHR ''/'' # t = p @ CHR ''/'' # u"
    then show "p = q \<or> (\<exists>u. q = p @ CHR ''/'' # u)"
      using assms by (auto simp: append_eq_append_conv2 Cons_eq_append_conv append_eq_Cons_conv)
  qed auto
  then show ?thesis
    using root by (auto simp: parent_dirs_def)
qed

lemma set_canonical_parents: "set (canonical_parents es path) = set es \<union> parent_dirs path"
proof (induction es path rule: canonical_parents.induct)
  case (1 es path)
  show ?case
  proof (cases "rposition_slash path")
    case None
    then have "parent_dirs path = {}"
      by (auto simp: rposition_slash_None parent_dirs_def)
    then show ?thesis
      using None by (simp add: canonical_parents.simps[of es path])
  next
    case (Some i)
    obtain t where t: "path = take i path @ CHR ''/'' # t" "CHR ''/'' \<notin> set t"
      using rposition_slash_Some[OF Some] .
    have p: "parent_dirs path =
        (if canonical_root (take i path) then {} else insert (take i path) (parent_dirs (take i path)))"
      using parent_dirs_last[OF t(2), of "take i path"] t(1) by simp
    show ?thesis
      using Some 1[OF Some refl] p by (subst canonical_parents.simps) (auto simp: Let_def)
  qed
qed

lemma ordered_canonical_parents: "sorted_wrt (<) es \<Longrightarrow> sorted_wrt (<) (canonical_parents es path)"
proof (induction es path rule: canonical_parents.induct)
  case (1 es path)
  then show ?case
    by (subst canonical_parents.simps) (auto simp: Let_def ordered_bs_insert split: option.splits)
qed

lemma add_entries:
  assumes "sorted_wrt (<) es"
  shows "set (fold (\<lambda>p es. add_entry_and_canonical_parents es p) ps es) = set es \<union> entry_set (set ps)"
    and "sorted_wrt (<) (fold (\<lambda>p es. add_entry_and_canonical_parents es p) ps es)"
  using assms
  by (induction ps arbitrary: es)
    (auto simp: add_entry_and_canonical_parents_def set_canonical_parents entry_set_def
      ordered_canonical_parents ordered_bs_insert simp del: canonical_parents.simps)

lemma card_strictly_ordered: "sorted_wrt (<) (xs :: 'a::linorder list) \<Longrightarrow> card (set xs) = length xs"
  by (simp add: distinct_card strict_sorted_iff)

lemma enforce_limits_Inr:
  "enforce_limits files nonregular existing = Inr () \<longleftrightarrow>
   card (set existing \<union> entry_set (fst ` set files \<union> set nonregular)) \<le> MAX_CANONICAL_ENTRIES \<and>
   sum_list (map snd files) \<le> MAX_TOTAL_CANONICAL_BYTES"
proof -
  let ?es = "fold (\<lambda>(p, _) es. add_entry_and_canonical_parents es p) files (bs_of_list existing)"
  let ?fs = "fold (\<lambda>p es. add_entry_and_canonical_parents es p) nonregular ?es"
  have e: "?es = fold (\<lambda>p es. add_entry_and_canonical_parents es p) (map fst files) (bs_of_list existing)"
    by (simp add: fold_map comp_def case_prod_unfold)
  have "sorted_wrt (<) ?es" "set ?es = set existing \<union> entry_set (fst ` set files)"
    unfolding e using add_entries[OF ordered_bs_of_list, of "map fst files" existing] by simp_all
  then have "sorted_wrt (<) ?fs" "set ?fs = set existing \<union> entry_set (fst ` set files \<union> set nonregular)"
    using add_entries[of ?es nonregular] by (auto simp: entry_set_def)
  then have "length ?fs = card (set existing \<union> entry_set (fst ` set files \<union> set nonregular))"
    using card_strictly_ordered by metis
  then show ?thesis
    by (auto simp: enforce_limits_def Let_def DEFAULT_SCAN_LIMITS_def MAX_TOTAL_CANONICAL_BYTES_def)
qed

section \<open>The streaming entry budget\<close>

definition run_entry_budget :: "nat \<Rightarrow> bytes list \<Rightarrow> canonical_entry_budget option" where
  "run_entry_budget limit paths =
     fold (\<lambda>p b. Option.bind b (\<lambda>b. push_sorted_file b p limit)) paths (Some entry_budget_new)"

lemma lex_interval:
  fixes w :: "'a::linorder list"
  assumes "w @ u \<le> b" and "b \<le> w @ v"
  shows "\<exists>x. b = w @ x"
  using assms
proof (induction w arbitrary: b)
  case (Cons a w)
  obtain c b' where b: "b = c # b'"
    using Cons.prems(1) by (cases b) auto
  have "a = c" "w @ u \<le> b'" "b' \<le> w @ v"
    using Cons.prems by (auto simp: b)
  then show ?case
    using Cons.IH b by auto
qed simp

lemma set_parents_positions:
  "(\<lambda>i. take i path) ` set (slash_positions path) = {p. \<exists>t. path = p @ ''/'' @ t}"
proof -
  have "take i path \<in> {p. \<exists>t. path = p @ ''/'' @ t}" if "i \<in> set (slash_positions path)" for i
    using that id_take_nth_drop[of i path] by (auto simp: slash_positions_def)
  moreover have "p \<in> (\<lambda>i. take i path) ` set (slash_positions path)" if "path = p @ ''/'' @ t" for p t
    using that by (intro image_eqI[of _ _ "length p"]) (auto simp: slash_positions_def)
  ultimately show ?thesis by auto
qed

lemma fold_count: "fold (\<lambda>i n. if P i then n else if Q i then n else Suc n) xs n =
    n + length (filter (\<lambda>i. \<not> P i \<and> \<not> Q i) xs)"
  by (induction xs arbitrary: n) auto

lemma inj_on_take_slash: "inj_on (\<lambda>i. take i path) (set (slash_positions path))"
  by (rule inj_onI) (auto simp: slash_positions_def dest: arg_cong[where f = length])

lemma added_card:
  "length (filter (\<lambda>i. \<not> canonical_root (take i path) \<and> \<not> Q (take i path)) (slash_positions path)) =
   card {p \<in> parent_dirs path. \<not> Q p}"
proof -
  let ?I = "filter (\<lambda>i. \<not> canonical_root (take i path) \<and> \<not> Q (take i path)) (slash_positions path)"
  have "distinct ?I"
    by (simp add: slash_positions_def)
  then have "length ?I = card ((\<lambda>i. take i path) ` set ?I)"
    using card_image[OF inj_on_subset[OF inj_on_take_slash[of path] filter_is_subset]] distinct_card[of ?I]
    by simp
  also have "(\<lambda>i. take i path) ` set ?I = {p \<in> parent_dirs path. \<not> Q p}"
  proof -
    have "(\<lambda>i. take i path) ` {i \<in> A. P (take i path)} = {p \<in> (\<lambda>i. take i path) ` A. P p}" for A P
      by auto
    from this[of "set (slash_positions path)" "\<lambda>p. \<not> canonical_root p \<and> \<not> Q p"] show ?thesis
      unfolding set_parents_positions by (auto simp: parent_dirs_def)
  qed
  finally show ?thesis .
qed

lemma canonical_parts:
  assumes "is_canonical (classify_path X p)"
  defines "ps \<equiv> split_on CHR ''/'' p"
  shows "ps ! 0 = ''events'' \<and> length ps = 3 \<or> ps ! 0 = ''batches'' \<and> length ps = 2 \<or>
    ps ! 0 = ''journal'' \<and> ps ! 1 = ''records'' \<and> length ps = 5 \<or>
    ps ! 0 = ''journal'' \<and> ps ! 1 = ''batches'' \<and> length ps = 3"
proof -
  have "valid_legacy_event X p \<or> valid_legacy_batch X p \<or> validate_journal_record_path X p \<or>
      valid_journal_batch X p"
    using assms(1) unfolding is_canonical_def
    by (elim disjE) (simp_all add: classify_path_def split: if_splits)
  then show ?thesis
    unfolding valid_legacy_event_def valid_legacy_batch_def validate_journal_record_path_def
      valid_journal_batch_def Let_def ps_def by blast
qed

lemma canonical_prefix_free:
  assumes "is_canonical (classify_path X p)" and "is_canonical (classify_path X (p @ ''/'' @ t))"
  shows False
proof -
  have "split_on CHR ''/'' (p @ CHR ''/'' # t) = split_on CHR ''/'' p @ split_on CHR ''/'' t" for p t
    by (induction p) (auto split: list.splits)
  then have "split_on CHR ''/'' (p @ ''/'' @ t) = split_on CHR ''/'' p @ split_on CHR ''/'' t"
    by simp
  moreover have "0 < length (split_on CHR ''/'' t)"
    by simp
  ultimately show ?thesis
    using canonical_parts[OF assms(1)] canonical_parts[OF assms(2)]
    by (auto simp: nth_append)
qed

lemma finite_parent_dirs: "finite (parent_dirs path)"
proof (rule finite_subset)
  show "parent_dirs path \<subseteq> (\<lambda>i. take i path) ` set (slash_positions path)"
    unfolding set_parents_positions by (auto simp: parent_dirs_def)
qed simp

lemma card_insert_Un:
  assumes "finite A" "finite P" "p \<notin> A" "p \<notin> P"
  shows "card (insert p P \<union> A) = card A + Suc (card (P - A))"
proof -
  have "insert p P \<union> A = A \<union> insert p (P - A)"
    by auto
  then show ?thesis
    using assms card_Un_disjoint[of A "insert p (P - A)"] by simp
qed

lemma entry_set_insert: "entry_set (insert p ps) = insert p (parent_dirs p) \<union> entry_set ps"
  by (auto simp: entry_set_def)

lemma finite_entry_set: "finite ps \<Longrightarrow> finite (entry_set ps)"
  by (simp add: entry_set_def finite_parent_dirs)

text \<open>Whether a parent of the next file was counted is decided by the file before it alone.\<close>

lemma already_counted_iff:
  assumes ord: "sorted_wrt (<) (ps @ [p])" and can: "\<forall>q\<in>set (ps @ [p]). is_canonical (classify_path X q)"
    and par: "q \<in> parent_dirs p"
  shows "already_counted (if ps = [] then None else Some (last ps)) q \<longleftrightarrow> q \<in> entry_set (set ps)"
proof (cases "ps = []")
  case True
  then show ?thesis by (simp add: already_counted_def entry_set_def)
next
  case False
  obtain t where t: "p = q @ ''/'' @ t" "\<not> canonical_root q"
    using par by (auto simp: parent_dirs_def)
  have prev: "already_counted (Some r) q \<longleftrightarrow> (\<exists>u. r = q @ ''/'' @ u)" for r
    using id_take_nth_drop[of "length q" r] by (auto simp: already_counted_def starts_with_def)
  have mid: "f \<le> last ps" "last ps < p" if "f \<in> set ps" for f
  proof -
    have ps: "ps = butlast ps @ [last ps]"
      using False by simp
    have "sorted_wrt (<) ps" and less: "\<forall>f\<in>set ps. f < p"
      using ord by (simp_all add: sorted_wrt_append)
    then have "\<forall>f\<in>set (butlast ps). f < last ps"
      by (subst (asm) ps) (simp add: sorted_wrt_append del: append_butlast_last_id)
    moreover have "f \<in> set (butlast ps) \<or> f = last ps"
      using that ps by (metis Un_iff empty_iff list.set(1) set_ConsD set_append)
    ultimately show "f \<le> last ps" "last ps < p"
      using False less by auto
  qed
  show ?thesis
  proof
    assume "already_counted (if ps = [] then None else Some (last ps)) q"
    then have "q \<in> parent_dirs (last ps)"
      using False prev t(2) by (auto simp: parent_dirs_def)
    then show "q \<in> entry_set (set ps)"
      using False by (auto simp: entry_set_def)
  next
    assume "q \<in> entry_set (set ps)"
    then obtain f where f: "f \<in> set ps" "q = f \<or> q \<in> parent_dirs f"
      by (auto simp: entry_set_def)
    have "q \<noteq> f"
      using canonical_prefix_free[of X f t] can f(1) t(1) by auto
    then obtain u where "f = q @ ''/'' @ u"
      using f(2) by (auto simp: parent_dirs_def)
    then have "(q @ ''/'') @ u \<le> last ps" "last ps \<le> (q @ ''/'') @ t"
      using mid[OF f(1)] t(1) by auto
    then obtain x where "last ps = (q @ ''/'') @ x"
      using lex_interval[of "q @ ''/''" u "last ps" t] by blast
    then show "already_counted (if ps = [] then None else Some (last ps)) q"
      using False prev[of "last ps"] by simp
  qed
qed

lemma run_entry_budget_eq:
  assumes "sorted_wrt (<) paths" and "\<forall>p\<in>set paths. is_canonical (classify_path X p)"
  shows "run_entry_budget limit paths =
    (if paths = [] \<or> card (entry_set (set paths)) \<le> limit
     then Some \<lparr>ce_entries = card (entry_set (set paths)),
                ce_previous = (if paths = [] then None else Some (last paths))\<rparr>
     else None)"
  using assms
proof (induction paths rule: rev_induct)
  case Nil
  then show ?case by (simp add: run_entry_budget_def entry_budget_new_def entry_set_def)
next
  case (snoc p ps)
  let ?prev = "if ps = [] then None else Some (last ps)"
  have less: "\<forall>f\<in>set ps. f < p"
    using snoc.prems(1) by (simp add: sorted_wrt_append)
  have "p \<notin> entry_set (set ps)"
    using less canonical_prefix_free[of X p] snoc.prems(2)
    by (fastforce simp: entry_set_def parent_dirs_def)
  moreover have "p \<notin> parent_dirs p"
    by (auto simp: parent_dirs_def)
  moreover have "parent_dirs p - entry_set (set ps) = {q \<in> parent_dirs p. \<not> already_counted ?prev q}"
    using already_counted_iff[OF snoc.prems] by blast
  then have "card (entry_set (set (ps @ [p]))) =
      card (entry_set (set ps)) + Suc (card {q \<in> parent_dirs p. \<not> already_counted ?prev q})"
    using calculation card_insert_Un[of "entry_set (set ps)" "parent_dirs p" p]
    by (simp only: entry_set_insert finite_entry_set finite_parent_dirs finite_set set_append list.set
        Un_insert_right Un_empty_right simp_thms)
  moreover have push: "push_sorted_file \<lparr>ce_entries = n, ce_previous = ?prev\<rparr> p limit =
      (let m = n + Suc (card {q \<in> parent_dirs p. \<not> already_counted ?prev q})
       in if limit < m then None else Some \<lparr>ce_entries = m, ce_previous = Some p\<rparr>)" for n
  proof -
    have "ps \<noteq> [] \<Longrightarrow> \<not> p \<le> last ps"
      using less last_in_set[of ps] by (simp add: not_le del: last_in_set)
    then show ?thesis
      by (auto simp: push_sorted_file_def Let_def fold_count added_card)
  qed
  ultimately show ?case
    using snoc by (auto simp: run_entry_budget_def sorted_wrt_append Let_def)
qed

text \<open>
  The streaming entry budget agrees with the entry set it replaces. Fed the canonical files of
  a store in path order, the counter that remembers only the previous file ends with exactly the
  number of entries of the set of files and parent directories, and refuses exactly when that number
  exceeds the limit.
\<close>

theorem entry_budget_exact:
  assumes "strictly_ordered paths" and "\<forall>p\<in>set paths. is_canonical (classify_path X p)"
  shows "run_entry_budget limit paths =
    (let entries = fold (\<lambda>p es. add_entry_and_canonical_parents es p) paths [] in
     if paths = [] \<or> length entries \<le> limit
     then Some \<lparr>ce_entries = length entries,
                ce_previous = (if paths = [] then None else Some (last paths))\<rparr>
     else None)"
proof -
  have "length (fold (\<lambda>p es. add_entry_and_canonical_parents es p) paths []) = card (entry_set (set paths))"
    using card_strictly_ordered add_entries[of "[]" paths] by fastforce
  then show ?thesis
    using run_entry_budget_eq[of paths X limit] assms by (simp add: order_simps Let_def)
qed

lemma collected_content:
  assumes "visible_wf s"
    and "collect_visible_inventory X L s = Inr (files, nonregular, inventory)"
  shows "strictly_ordered (map rf_path files) \<and>
      (\<forall>p bs. \<lparr>rf_path = p, rf_bytes = bs\<rparr> \<in> set files \<longleftrightarrow> (p, VFile bs) \<in> set (visible_items X s)) \<and>
      set nonregular = {p. (p, VSpecial) \<in> set (visible_items X s)} \<and>
      strictly_ordered inventory \<and> set inventory = fst ` set (visible_items X s) \<and>
      length inventory = length (visible_items X s)"
proof -
  have r: "files = sort_key rf_path (item_files (visible_items X s))"
      "nonregular = sort (item_special (visible_items X s))"
      "inventory = bs_of_list (map fst (visible_items X s))"
    using collect_visible_inventory_Inr[OF assms(1)] assms(2) by auto
  have d: "distinct (map fst (visible_items X s))"
    using assms(1) by (rule distinct_visible_items)
  have f: "map rf_path (item_files vs) = map fst (filter (\<lambda>v. \<exists>bs. snd v = VFile bs) vs)" for vs
    by (induction vs) (auto simp: item_files_def split: visit_item.splits)
  then have "distinct (map rf_path (item_files (visible_items X s)))"
    using d by (simp add: f distinct_map_filter)
  then have "strictly_ordered (map rf_path files)"
    by (simp add: r(1) order_simps strict_sorted_iff distinct_map)
  moreover have "\<lparr>rf_path = p, rf_bytes = bs\<rparr> \<in> set files \<longleftrightarrow> (p, VFile bs) \<in> set (visible_items X s)" for p bs
    by (auto simp: r(1) item_files_def split: visit_item.splits prod.splits)
  moreover have "set nonregular = {p. (p, VSpecial) \<in> set (visible_items X s)}"
    by (auto simp: r(2) item_special_def split: visit_item.splits prod.splits)
  ultimately show ?thesis
    using d length_bs_of_list[of "map fst (visible_items X s)"] ordered_bs_of_list[of "map fst (visible_items X s)"]
    by (simp add: r(3) order_simps)
qed

text \<open>
  C20: the collecting scan is exact. On a well-formed tree it succeeds precisely when the number of
  entries, the total of bytes and every file are within their limits; it then returns each visible
  file once, in path order, with its content, the special files, and an inventory with one entry
  per visited entry.
\<close>

theorem collect_visible_exact:
  assumes "visible_wf s"
  shows "((\<exists>r. collect_visible_inventory X L s = Inr r) \<longleftrightarrow> items_ok X L (visible_items X s)) \<and>
    (\<forall>files nonregular inventory. collect_visible_inventory X L s = Inr (files, nonregular, inventory) \<longrightarrow>
      strictly_ordered (map rf_path files) \<and>
      (\<forall>p bs. \<lparr>rf_path = p, rf_bytes = bs\<rparr> \<in> set files \<longleftrightarrow> (p, VFile bs) \<in> set (visible_items X s)) \<and>
      set nonregular = {p. (p, VSpecial) \<in> set (visible_items X s)} \<and>
      strictly_ordered inventory \<and> set inventory = fst ` set (visible_items X s) \<and>
      length inventory = length (visible_items X s))"
proof -
  have "(\<exists>r. collect_visible_inventory X L s = Inr r) \<longleftrightarrow> items_ok X L (visible_items X s)"
    using collect_visible_inventory_Inr[OF assms, of X L] by auto
  then show ?thesis
    using collected_content[OF assms] by blast
qed

section \<open>Grouping maps\<close>

lemma entry_push_fold:
  assumes "bt_wf m"
  shows "bt_wf (fold (\<lambda>x. entry_push (k x) (v x)) xs m)"
    and "bt_get (fold (\<lambda>x. entry_push (k x) (v x)) xs m) key =
      (let old = bt_get m key; new = map v (filter (\<lambda>x. k x = key) xs) in
       if new = [] then old else Some ((case old of None \<Rightarrow> [] | Some vs \<Rightarrow> vs) @ new))"
  using assms
  by (induction xs arbitrary: m) (auto simp: entry_push_def bt_wf_insert bt_get_insert Let_def
      split: option.splits)

lemma find_duplicate_None:
  "find (\<lambda>(_, vs). 1 < length vs) (fold (\<lambda>x. entry_push (k x) (v x)) xs []) = None \<longleftrightarrow> distinct (map k xs)"
proof -
  let ?m = "fold (\<lambda>x. entry_push (k x) (v x)) xs []"
  have get: "bt_get ?m key = (if \<exists>x\<in>set xs. k x = key then Some (map v (filter (\<lambda>x. k x = key) xs)) else None)" for key
    using entry_push_fold(2)[of "[]" k v xs key] by (auto simp: Let_def filter_empty_conv)
  have mem: "(key, vs) \<in> set ?m \<longleftrightarrow> bt_get ?m key = Some vs" for key vs
    using entry_push_fold(1)[of "[]" k v xs] by (simp add: bt_get_Some_iff)
  have "find (\<lambda>(_, vs). 1 < length vs) ?m = None \<longleftrightarrow>
      (\<forall>x\<in>set xs. length (filter (\<lambda>y. k y = k x) xs) \<le> 1)"
    by (auto simp: find_None_iff mem get split: if_splits)
  also have "\<dots> \<longleftrightarrow> distinct (map k xs)"
  proof -
    have "length (filter (\<lambda>y. k y = k x) xs) = count_list (map k xs) (k x)" for x
      by (induction xs) auto
    moreover have "distinct ys \<longleftrightarrow> (\<forall>y\<in>set ys. count_list ys y \<le> 1)" for ys :: "'a list"
      by (induction ys) (auto simp: count_list_0_iff le_Suc_eq)
    ultimately show ?thesis by simp
  qed
  finally show ?thesis .
qed

section \<open>Accepted snapshots\<close>

definition scanned_manifests :: "ext \<Rightarrow> domain_registry \<Rightarrow> raw_file list \<Rightarrow> batch_manifest list" where
  "scanned_manifests X R files = List.map_filter (\<lambda>f.
     case decode_visible_file X R f of Inr (DecodedManifest m) \<Rightarrow> Some m | _ \<Rightarrow> None) files"

definition scanned_records :: "ext \<Rightarrow> domain_registry \<Rightarrow> raw_file list \<Rightarrow> (bytes \<times> wj_record \<times> bytes) list" where
  "scanned_records X R files = List.map_filter (\<lambda>f.
     case decode_visible_file X R f of Inr (DecodedRecord r) \<Rightarrow> Some (rf_path f, r, rf_bytes f) | _ \<Rightarrow> None) files"

definition scanned_legacy :: "ext \<Rightarrow> domain_registry \<Rightarrow> raw_file list \<Rightarrow> legacy_entry list" where
  "scanned_legacy X R files = List.map_filter (\<lambda>f.
     case decode_visible_file X R f of Inr (DecodedLegacy e) \<Rightarrow> Some e | _ \<Rightarrow> None) files"

lemma scanned_simps:
  "scanned_manifests X R [] = []" "scanned_records X R [] = []" "scanned_legacy X R [] = []"
  "decode_visible_file X R f = Inr (DecodedManifest m) \<Longrightarrow> scanned_manifests X R (f # fs) = m # scanned_manifests X R fs"
  "decode_visible_file X R f = Inr (DecodedManifest m) \<Longrightarrow> scanned_records X R (f # fs) = scanned_records X R fs"
  "decode_visible_file X R f = Inr (DecodedManifest m) \<Longrightarrow> scanned_legacy X R (f # fs) = scanned_legacy X R fs"
  "decode_visible_file X R f = Inr (DecodedRecord r) \<Longrightarrow> scanned_manifests X R (f # fs) = scanned_manifests X R fs"
  "decode_visible_file X R f = Inr (DecodedRecord r) \<Longrightarrow>
     scanned_records X R (f # fs) = (rf_path f, r, rf_bytes f) # scanned_records X R fs"
  "decode_visible_file X R f = Inr (DecodedRecord r) \<Longrightarrow> scanned_legacy X R (f # fs) = scanned_legacy X R fs"
  "decode_visible_file X R f = Inr (DecodedLegacy e) \<Longrightarrow> scanned_manifests X R (f # fs) = scanned_manifests X R fs"
  "decode_visible_file X R f = Inr (DecodedLegacy e) \<Longrightarrow> scanned_records X R (f # fs) = scanned_records X R fs"
  "decode_visible_file X R f = Inr (DecodedLegacy e) \<Longrightarrow> scanned_legacy X R (f # fs) = e # scanned_legacy X R fs"
  by (simp_all add: scanned_manifests_def scanned_records_def scanned_legacy_def List.map_filter_def)
    (cases e, simp)

lemma scan_files_Inr:
  "try_fold (scan_file X R) st files = Inr st' \<longleftrightarrow>
   (\<forall>f\<in>set files. is_ok (decode_visible_file X R f)) \<and>
   st' = st\<lparr>sn_manifests := sn_manifests st @ scanned_manifests X R files,
     sn_records := fold (\<lambda>(k, v). bt_insert k v) (scanned_records X R files) (sn_records st),
     sn_ids := fold (\<lambda>x. entry_push (r_id (fst (snd x))) (fst x)) (scanned_records X R files) (sn_ids st),
     sn_legacy := sn_legacy st @ scanned_legacy X R files\<rparr>"
proof (induction files arbitrary: st)
  case Nil
  then show ?case by (cases st) (auto simp: scanned_simps)
next
  case (Cons f fs)
  show ?case
  proof (cases "decode_visible_file X R f")
    case (Inl e)
    then show ?thesis by (simp add: scan_file_def)
  next
    case (Inr d)
    show ?thesis
    proof (cases d)
      case (DecodedManifest m)
      then have "scan_file X R st f = Inr (st\<lparr>sn_manifests := sn_manifests st @ [m]\<rparr>)"
        using Inr by (simp add: scan_file_def)
      then show ?thesis
        using Inr DecodedManifest by (cases st) (auto simp: scanned_simps Cons.IH)
    next
      case (DecodedRecord r)
      then have "scan_file X R st f = Inr (st\<lparr>sn_ids := entry_push (r_id r) (rf_path f) (sn_ids st),
          sn_records := bt_insert (rf_path f) (r, rf_bytes f) (sn_records st)\<rparr>)"
        using Inr by (simp add: scan_file_def)
      then show ?thesis
        using Inr DecodedRecord by (cases st) (auto simp: scanned_simps Cons.IH)
    next
      case (DecodedLegacy e)
      then have "scan_file X R st f = Inr (st\<lparr>sn_legacy := sn_legacy st @ [e]\<rparr>)"
        using Inr by (simp add: scan_file_def)
      then show ?thesis
        using Inr DecodedLegacy by (cases st) (auto simp: scanned_simps Cons.IH)
    qed
  qed
qed

lemma scanned_records_paths:
  "set (map fst (scanned_records X R files)) \<subseteq> set (map rf_path files)"
  "distinct (map rf_path files) \<Longrightarrow> distinct (map fst (scanned_records X R files))"
proof -
  show sub: "set (map fst (scanned_records X R files)) \<subseteq> set (map rf_path files)" for files
    by (auto simp: scanned_records_def List.map_filter_def split: sum.splits decoded_file.splits)
  show "distinct (map rf_path files) \<Longrightarrow> distinct (map fst (scanned_records X R files))"
  proof (induction files)
    case (Cons f fs)
    then show ?case
      using sub[of fs] by (auto simp: scanned_records_def List.map_filter_def split: sum.splits decoded_file.splits)
  qed (simp add: scanned_simps)
qed

lemma sorted_files_records:
  assumes "strictly_ordered (map rf_path files)"
  shows "bt_of_list (scanned_records X R files) = scanned_records X R files"
proof -
  have "sorted_wrt (<) (map fst (scanned_records X R files))"
    using assms
  proof (induction files)
    case (Cons f fs)
    then have "\<forall>x\<in>fst ` set (scanned_records X R fs). rf_path f < x"
      using scanned_records_paths(1)[of X R fs] by (fastforce simp: order_simps)
    then show ?case
      using Cons by (auto simp: order_simps scanned_records_def List.map_filter_def
          split: sum.splits decoded_file.splits)
  qed (simp add: scanned_simps)
  then have "bt_wf (scanned_records X R files)" "distinct (map fst (scanned_records X R files))"
    by (simp_all add: bt_wf_def order_simps strict_sorted_iff)
  then show ?thesis
    using bt_get_of_list[of "scanned_records X R files"]
    by (intro bt_extensional bt_wf_of_list) (simp_all add: bt_get_map_of)
qed

definition member_files :: "ext \<Rightarrow> domain_registry \<Rightarrow> raw_file list \<Rightarrow> stored_member list" where
  "member_files X R files = map (\<lambda>(p, _, bs). \<lparr>sm_path = p, sm_bytes = bs\<rparr>) (scanned_records X R files)"

definition file_records :: "ext \<Rightarrow> domain_registry \<Rightarrow> raw_file list \<Rightarrow> wj_record list" where
  "file_records X R files = map (\<lambda>(_, r, _). r) (scanned_records X R files)"

definition file_manifests :: "ext \<Rightarrow> domain_registry \<Rightarrow> raw_file list \<Rightarrow> batch_manifest list" where
  "file_manifests X R files = sort_key bm_batch (scanned_manifests X R files)"

definition folds_ok :: "ext \<Rightarrow> wj_record list \<Rightarrow> bool" where
  "folds_ok X records \<longleftrightarrow>
     (\<forall>r\<in>set records. r_domain r = ''wayjournal.profile'' \<or> r_domain r = ''wayjournal.catalog'' \<longrightarrow>
        (\<exists>ops. try_map (operation_try_from X) (filter (\<lambda>q. r_domain q = r_domain r \<and>
             uuid_to_string X (r_entity q) = uuid_to_string X (r_entity r)) records) = Inr ops \<and>
           (if r_domain r = ''wayjournal.profile'' then is_ok (fold_profile ops) else is_ok (fold_catalogs ops))))"

lemma validate_global_idempotency_Inr:
  "validate_global_idempotency X ms = Inr () \<longleftrightarrow>
   distinct (map (\<lambda>m. (bm_actor m, digest_to_string X (bm_key_digest m))) ms)"
  using find_duplicate_None[of "\<lambda>m. (bm_actor m, digest_to_string X (bm_key_digest m))" bm_batch ms]
  by (auto simp: validate_global_idempotency_def Let_def split: option.splits)

definition snapshot_of :: "ext \<Rightarrow> store_config \<Rightarrow> raw_file list \<Rightarrow> store_revision_ref \<Rightarrow> store_identity option \<Rightarrow> store_snapshot" where
  "snapshot_of X C files revision identity =
     \<lparr>ss_revision = revision, ss_manifests = file_manifests X (sc_registry C) files,
      ss_records = file_records X (sc_registry C) files, ss_identity = identity,
      ss_legacy = scanned_legacy X (sc_registry C) files\<rparr>"

definition file_entries :: "raw_file list \<Rightarrow> revision_entry list" where
  "file_entries files = map (\<lambda>f. \<lparr>re_path = rf_path f, re_bytes = rf_bytes f, re_regular = True\<rparr>) files"

lemma scan_collected_Inr:
  fixes C :: store_config
  assumes "strictly_ordered (map rf_path files)"
  defines "R \<equiv> sc_registry C"
  shows "scan_collected X C files nonregular = Inr snap \<longleftrightarrow>
    nonregular = [] \<and> (\<forall>f\<in>set files. is_ok (decode_visible_file X R f)) \<and>
    distinct (map r_id (file_records X R files)) \<and>
    distinct (map (\<lambda>m. (bm_actor m, digest_to_string X (bm_key_digest m))) (file_manifests X R files)) \<and>
    validate_batch_ownership X (member_files X R files) (file_manifests X R files) R = Inr () \<and>
    (if sc_strict C then
       validate_store_identity X (file_manifests X R files) (member_files X R files) R = Inr (ss_identity snap) \<and>
       validate_builtin_folds X (file_records X R files) = Inr ()
     else ss_identity snap = None \<and> \<not> list_ex (\<lambda>r. builtin_domain (r_domain r)) (file_records X R files)) \<and>
    sc_legacy C (scanned_legacy X R files) = Inr () \<and>
    compute_store_revision X (file_entries files) = Inr (ss_revision snap) \<and>
    snap = snapshot_of X C files (ss_revision snap) (ss_identity snap)"
proof (cases "nonregular = [] \<and> (\<forall>f\<in>set files. is_ok (decode_visible_file X R f))")
  case False
  then show ?thesis
    by (cases nonregular) (auto simp: scan_collected_def R_def result_simps scan_files_Inr)
next
  case True
  let ?recs = "scanned_records X R files"
  define st where "st = \<lparr>sn_manifests = scanned_manifests X R files, sn_records = ?recs,
     sn_ids = fold (\<lambda>x. entry_push (r_id (fst (snd x))) (fst x)) ?recs [],
     sn_legacy = scanned_legacy X R files\<rparr>"
  have fold: "try_fold (scan_file X R) \<lparr>sn_manifests = [], sn_records = [], sn_ids = [], sn_legacy = []\<rparr> files = Inr st"
    using True sorted_files_records[OF assms(1), of X R]
    by (subst scan_files_Inr) (simp add: st_def bt_of_list_def)
  have stored: "map (\<lambda>(path, (_, bs)). \<lparr>sm_path = path, sm_bytes = bs\<rparr>) (sn_records st) = member_files X R files"
      "map (\<lambda>(_, (r, _)). r) (sn_records st) = file_records X R files"
      "sort_key bm_batch (sn_manifests st) = file_manifests X R files"
      "sn_legacy st = scanned_legacy X R files"
    by (simp_all add: st_def member_files_def file_records_def file_manifests_def)
  have ids: "find (\<lambda>(_, paths). 1 < length paths) (sn_ids st) = None \<longleftrightarrow> distinct (map r_id (file_records X R files))"
    using find_duplicate_None[of "\<lambda>x. r_id (fst (snd x))" fst ?recs]
    by (simp add: st_def file_records_def comp_def case_prod_unfold)
  have R: "sc_registry C = R" by (simp add: R_def)
  show ?thesis
  proof (cases "find (\<lambda>(_, paths). 1 < length paths) (sn_ids st)")
    case None
    then show ?thesis
      using True ids fold unfolding scan_collected_def Let_def stored R
      by (cases snap) (auto simp: result_simps validate_global_idempotency_Inr resolve_scanned_revision_def
          validate_collected_legacy_def file_entries_def snapshot_of_def R stored)
  next
    case (Some x)
    then show ?thesis
      using True ids fold by (cases x) (auto simp: scan_collected_def R)
  qed
qed

definition folded :: "wj_record \<Rightarrow> bool" where
  "folded r \<longleftrightarrow> r_domain r = ''wayjournal.profile'' \<or> r_domain r = ''wayjournal.catalog''"

definition fold_key :: "ext \<Rightarrow> wj_record \<Rightarrow> string \<times> string" where
  "fold_key X r = (r_domain r, uuid_to_string X (r_entity r))"

definition converted :: "ext \<Rightarrow> wj_record \<Rightarrow> domain_operation" where
  "converted X r = projr (operation_try_from X r)"

lemma group_folds_Inr:
  "try_fold (group_fold X) g records = Inr g' \<longleftrightarrow>
   (\<forall>r\<in>set (filter folded records). is_ok (operation_try_from X r)) \<and>
   g' = fold (\<lambda>r. entry_push (fold_key X r) (converted X r)) (filter folded records) g"
proof (induction records arbitrary: g)
  case (Cons r rs)
  have "group_fold X g r = (if folded r then
      rbind (map_err (\<lambda>_. Corrupt (InvalidDomainFold (r_domain r) (uuid_to_string X (r_entity r))))
        (operation_try_from X r)) (\<lambda>op. Inr (entry_push (fold_key X r) op g)) else Inr g)"
    by (auto simp: group_fold_def folded_def fold_key_def)
  then show ?case
    by (cases "operation_try_from X r") (auto simp: Cons.IH converted_def)
qed auto

lemma try_map_converted:
  "(\<forall>r\<in>set rs. is_ok (operation_try_from X r)) \<Longrightarrow> try_map (operation_try_from X) rs = Inr (map (converted X) rs)"
  by (rule try_map_total) (auto simp: converted_def is_ok_iff)

lemma try_map_ok: "try_map f xs = Inr ys \<Longrightarrow> x \<in> set xs \<Longrightarrow> is_ok (f x)"
  by (induction xs arbitrary: ys) (auto simp: result_simps)

lemma try_map_unit: "(\<exists>us. try_map f xs = Inr us) \<longleftrightarrow> (\<forall>x\<in>set xs. is_ok (f x))"
  by (induction xs) (auto simp: result_simps is_ok_iff)

lemma validate_builtin_folds_Inr: "validate_builtin_folds X records = Inr () \<longleftrightarrow> folds_ok X records"
proof -
  let ?sel = "filter folded records"
  let ?g = "fold (\<lambda>r. entry_push (fold_key X r) (converted X r)) ?sel []"
  let ?group = "\<lambda>r. filter (\<lambda>q. r_domain q = r_domain r \<and>
      uuid_to_string X (r_entity q) = uuid_to_string X (r_entity r)) records"
  let ?good = "\<lambda>r ops. if r_domain r = ''wayjournal.profile'' then is_ok (fold_profile ops) else is_ok (fold_catalogs ops)"
  have grp: "filter (\<lambda>q. fold_key X q = fold_key X r) ?sel = ?group r" if "folded r" for r
    using that by (auto simp: fold_key_def folded_def intro!: filter_cong)
  have mem: "(key, ops) \<in> set ?g \<longleftrightarrow> (\<exists>r\<in>set ?sel. key = fold_key X r \<and> ops = map (converted X) (?group r))" for key ops
    using entry_push_fold[of "[]" "fold_key X" "converted X" ?sel] grp
    by (auto simp: bt_get_Some_iff[symmetric] Let_def filter_empty_conv split: if_splits)
  have "validate_builtin_folds X records = Inr () \<longleftrightarrow>
      (\<forall>r\<in>set ?sel. is_ok (operation_try_from X r)) \<and> (\<forall>e\<in>set ?g. is_ok (check_group e))"
    using try_map_unit[of check_group ?g]
    by (auto simp: validate_builtin_folds_def result_simps group_folds_Inr)
  also have "(\<forall>e\<in>set ?g. is_ok (check_group e)) \<longleftrightarrow> (\<forall>r\<in>set ?sel. ?good r (map (converted X) (?group r)))"
  proof -
    have "is_ok (check_group (fold_key X r, ops)) \<longleftrightarrow> ?good r ops" for r ops
      by (simp add: check_group_def fold_key_def)
    moreover have "set ?g = (\<lambda>r. (fold_key X r, map (converted X) (?group r))) ` set ?sel"
      using mem by (intro equalityI subsetI) (auto simp only: image_iff split_paired_all)
    ultimately show ?thesis
      by (simp only: ball_simps)
  qed
  also have "(\<forall>r\<in>set ?sel. is_ok (operation_try_from X r)) \<and> (\<forall>r\<in>set ?sel. ?good r (map (converted X) (?group r)))
      \<longleftrightarrow> folds_ok X records"
  proof
    assume a: "(\<forall>r\<in>set ?sel. is_ok (operation_try_from X r)) \<and> (\<forall>r\<in>set ?sel. ?good r (map (converted X) (?group r)))"
    have "try_map (operation_try_from X) (?group r) = Inr (map (converted X) (?group r))" if "folded r" for r
      using that a by (intro try_map_converted) (auto simp: folded_def)
    then show "folds_ok X records"
      using a by (auto simp: folds_ok_def folded_def)
  next
    assume f: "folds_ok X records"
    have "is_ok (operation_try_from X r) \<and> ?good r (map (converted X) (?group r))" if r: "r \<in> set ?sel" for r
    proof -
      obtain ops where ops: "try_map (operation_try_from X) (?group r) = Inr ops" "?good r ops"
        using f r by (auto simp: folds_ok_def folded_def)
      have ok: "\<forall>q\<in>set (?group r). is_ok (operation_try_from X q)"
        using try_map_ok[OF ops(1)] by blast
      then have "ops = map (converted X) (?group r)"
        using try_map_converted[OF ok] ops(1) by simp
      then show ?thesis
        using ok ops(2) r by auto
    qed
    then show "(\<forall>r\<in>set ?sel. is_ok (operation_try_from X r)) \<and> (\<forall>r\<in>set ?sel. ?good r (map (converted X) (?group r)))"
      by blast
  qed
  finally show ?thesis .
qed

text \<open>
  C19: the scan accepts exactly the valid stores. Over files in path order it produces a snapshot
  precisely when there is no special file, every file decodes at its own canonical path, record
  identifiers and retry keys are unique, every record is owned by exactly one manifest that
  validates, the legacy adapter agrees, and, in a strict store, the identity is derived and every
  profile and catalog folds; a store in legacy mode holds no built-in domain. The snapshot's revision
  is the store revision of exactly the scanned files.
\<close>

theorem scan_collected_exact:
  fixes C :: store_config
  assumes "strictly_ordered (map rf_path files)"
  shows "scan_collected X C files nonregular = Inr snap \<longleftrightarrow>
    (let R = sc_registry C; records = file_records X R files; manifests = file_manifests X R files;
         members = member_files X R files in
     nonregular = [] \<and> (\<forall>f\<in>set files. is_ok (decode_visible_file X R f)) \<and>
     distinct (map r_id records) \<and>
     distinct (map (\<lambda>m. (bm_actor m, digest_to_string X (bm_key_digest m))) manifests) \<and>
     validate_batch_ownership X members manifests R = Inr () \<and>
     (if sc_strict C
      then validate_store_identity X manifests members R = Inr (ss_identity snap) \<and> folds_ok X records
      else ss_identity snap = None \<and> \<not> list_ex (\<lambda>r. builtin_domain (r_domain r)) records) \<and>
     sc_legacy C (scanned_legacy X R files) = Inr () \<and>
     compute_store_revision X (file_entries files) = Inr (ss_revision snap) \<and>
     snap = snapshot_of X C files (ss_revision snap) (ss_identity snap))"
  unfolding Let_def scan_collected_Inr[OF assms] validate_builtin_folds_Inr by (rule refl)

end
