(* ===== verification/Wj_Additions.thy ===== *)
theory Wj_Additions
  imports Wj_Scan
begin

text \<open>
  The binary metadata of staged additions (\<open>federation/pending.rs\<close>): chunks that list the paths, lengths and
  digests of additions, and the index that lists the chunks. The reasons of invalid documents are texts
  and not modelled.
\<close>

section \<open>Bounds\<close>

text \<open>\<open>PendingPanic\<close> is a panic of an \<open>expect\<close>, \<open>PendingExit\<close> the end of the process at a fault point.\<close>

datatype pending_error =
    PendingStore store_error
  | PendingInvalid
  | PendingOversized
  | PendingPanic
  | PendingExit string

definition MAX_BULK_ADDITIONS :: nat where "MAX_BULK_ADDITIONS = MAX_CANONICAL_ENTRIES"
definition MAX_BULK_ADDITION_BYTES :: nat where "MAX_BULK_ADDITION_BYTES = MAX_TOTAL_CANONICAL_BYTES"
definition ADDITIONS_PER_CHUNK :: nat where "ADDITIONS_PER_CHUNK = 4096"
definition MAX_ADDITION_CHUNKS :: nat where "MAX_ADDITION_CHUNKS = 245"
definition MAX_CANONICAL_PATH_BYTES :: nat where "MAX_CANONICAL_PATH_BYTES = 223"
definition MAX_ENCODED_ADDITION_BYTES :: nat where "MAX_ENCODED_ADDITION_BYTES = 265"
definition MAX_ADDITION_INDEX_BYTES :: nat where "MAX_ADDITION_INDEX_BYTES = 16 * 1024"

definition chunk_count :: "nat \<Rightarrow> pending_error + nat" where
  "chunk_count n =
     (let chunks = (n + (ADDITIONS_PER_CHUNK - 1)) div ADDITIONS_PER_CHUNK in
      if MAX_ADDITION_CHUNKS < chunks then Inl PendingInvalid else Inr chunks)"

definition validate_addition_totals :: "nat \<Rightarrow> nat \<Rightarrow> pending_error + unit" where
  "validate_addition_totals n total_bytes =
     (if MAX_BULK_ADDITIONS < n then Inl PendingInvalid
      else if MAX_BULK_ADDITION_BYTES < total_bytes then Inl PendingInvalid
      else rbind (chunk_count n) (\<lambda>_. Inr ()))"

definition ADDITION_MAGIC :: bytes where "ADDITION_MAGIC = ''wayjournal.sync-additions/v1'' @ [CHR 0x00]"
definition ADDITION_HEADER_BYTES :: nat where "ADDITION_HEADER_BYTES = 64"
definition MAX_CHUNK_BYTES :: nat where
  "MAX_CHUNK_BYTES = ADDITION_HEADER_BYTES + ADDITIONS_PER_CHUNK * MAX_ENCODED_ADDITION_BYTES"

text \<open>\<open>Vec::resize\<close> with zero bytes.\<close>

definition resize :: "bytes \<Rightarrow> nat \<Rightarrow> bytes" where
  "resize bs n = take n bs @ replicate (n - length bs) (CHR 0x00)"

section \<open>Chunks\<close>

record addition_entry =
  ae_path :: bytes
  ae_length :: nat
  ae_digest :: digest

fun encode_additions :: "ext \<Rightarrow> bytes option \<Rightarrow> addition_entry list \<Rightarrow> pending_error + bytes" where
  "encode_additions X previous [] = Inr []"
| "encode_additions X previous (e # es) =
     (if ae_path e = [] \<or> MAX_CANONICAL_PATH_BYTES < length (ae_path e) \<or> \<not> is_ascii (ae_path e) \<or>
         \<not> is_canonical (classify_path X (ae_path e)) \<or>
         (case previous of None \<Rightarrow> False | Some p \<Rightarrow> ae_path e \<le> p)
      then Inl PendingInvalid
      else if 2 ^ 16 \<le> length (ae_path e) then Inl PendingInvalid
      else rbind (encode_additions X (Some (ae_path e)) es) (\<lambda>rest.
      Inr (be_bytes 2 (length (ae_path e)) @ ae_path e @ be_bytes 8 (ae_length e) @ ae_digest e @ rest)))"

definition encode_chunk :: "ext \<Rightarrow> nat \<Rightarrow> addition_entry list \<Rightarrow> pending_error + bytes" where
  "encode_chunk X chunk_number entries =
     (if MAX_ADDITION_CHUNKS \<le> chunk_number \<or> entries = [] \<or> ADDITIONS_PER_CHUNK < length entries then Inl PendingInvalid
      else if 2 ^ 32 \<le> length entries then Inl PendingInvalid
      else rbind (encode_additions X None entries) (\<lambda>body.
      let bs = resize (ADDITION_MAGIC @ be_bytes 4 chunk_number @ be_bytes 4 (length entries)) ADDITION_HEADER_BYTES @ body in
      if MAX_CHUNK_BYTES < length bs then Inl PendingInvalid else Inr bs))"

definition take_bytes :: "bytes \<Rightarrow> nat \<Rightarrow> nat \<Rightarrow> pending_error + bytes \<times> nat" where
  "take_bytes bs cursor n =
     (if 2 ^ 64 \<le> cursor + n then Inl PendingInvalid
      else if length bs < cursor + n then Inl PendingInvalid
      else Inr (take n (drop cursor bs), cursor + n))"

definition take_u16 :: "bytes \<Rightarrow> nat \<Rightarrow> pending_error + nat \<times> nat" where
  "take_u16 bs cursor = rbind (take_bytes bs cursor 2) (\<lambda>(v, cursor). Inr (from_be_bytes v, cursor))"

fun decode_additions :: "bytes \<Rightarrow> nat \<Rightarrow> nat \<Rightarrow> pending_error + addition_entry list \<times> nat" where
  "decode_additions bs 0 cursor = Inr ([], cursor)"
| "decode_additions bs (Suc n) cursor =
     rbind (take_u16 bs cursor) (\<lambda>(path_length, cursor).
     if path_length = 0 \<or> MAX_CANONICAL_PATH_BYTES < path_length then Inl PendingInvalid
     else rbind (take_bytes bs cursor path_length) (\<lambda>(path, cursor).
     rbind (take_bytes bs cursor 8) (\<lambda>(len, cursor).
     rbind (take_bytes bs cursor 32) (\<lambda>(digest, cursor).
     rbind (decode_additions bs n cursor) (\<lambda>(es, cursor).
     Inr (\<lparr>ae_path = path, ae_length = from_be_bytes len, ae_digest = digest\<rparr> # es, cursor))))))"

definition decode_chunk :: "ext \<Rightarrow> bytes \<Rightarrow> pending_error + nat \<times> addition_entry list" where
  "decode_chunk X bs =
     (if length bs < ADDITION_HEADER_BYTES \<or> MAX_CHUNK_BYTES < length bs then Inl PendingInvalid
      else let m = length ADDITION_MAGIC in
      if take m bs \<noteq> ADDITION_MAGIC \<or>
         list_ex (\<lambda>b. b \<noteq> CHR 0x00) (take (ADDITION_HEADER_BYTES - (m + 8)) (drop (m + 8) bs))
      then Inl PendingInvalid
      else let chunk_number = from_be_bytes (take 4 (drop m bs)); n = from_be_bytes (take 4 (drop (m + 4) bs)) in
      if MAX_ADDITION_CHUNKS \<le> chunk_number \<or> n = 0 \<or> ADDITIONS_PER_CHUNK < n then Inl PendingInvalid
      else rbind (decode_additions bs n ADDITION_HEADER_BYTES) (\<lambda>(entries, cursor).
      if cursor \<noteq> length bs then Inl PendingInvalid
      else rbind (encode_chunk X chunk_number entries) (\<lambda>canonical.
      if canonical \<noteq> bs then Inl PendingInvalid else Inr (chunk_number, entries))))"

section \<open>The index\<close>

definition INDEX_MAGIC :: bytes where "INDEX_MAGIC = ''wayjournal.sync-additions-index/v1'' @ [CHR 0x00]"
definition INDEX_HEADER_BYTES :: nat where "INDEX_HEADER_BYTES = 64"
definition INDEX_ENTRY_BYTES :: nat where "INDEX_ENTRY_BYTES = 48"

record index_entry =
  ie_number :: nat
  ie_count :: nat
  ie_length :: nat
  ie_digest :: digest

definition index_entry_bytes :: "index_entry \<Rightarrow> bytes" where
  "index_entry_bytes e = be_bytes 4 (ie_number e) @ be_bytes 4 (ie_count e) @ be_bytes 8 (ie_length e) @ ie_digest e"

definition encode_index :: "nat \<Rightarrow> nat \<Rightarrow> index_entry list \<Rightarrow> pending_error + bytes" where
  "encode_index n total_bytes chunks =
     (if MAX_ADDITION_CHUNKS < length chunks then Inl PendingInvalid
      else if 2 ^ 32 \<le> length chunks then Inl PendingInvalid
      else let bs = resize (INDEX_MAGIC @ be_bytes 8 n @ be_bytes 8 total_bytes @ be_bytes 4 (length chunks)) INDEX_HEADER_BYTES @
                    concat (map index_entry_bytes chunks) in
      if MAX_ADDITION_INDEX_BYTES < length bs then Inl PendingInvalid else Inr bs)"

fun decode_index_entries :: "bytes \<Rightarrow> nat \<Rightarrow> nat \<Rightarrow> nat \<Rightarrow> pending_error + index_entry list" where
  "decode_index_entries bs expected 0 cursor = Inr []"
| "decode_index_entries bs expected (Suc n) cursor =
     rbind (take_bytes bs cursor 4) (\<lambda>(number, cursor).
     rbind (take_bytes bs cursor 4) (\<lambda>(chunk_count, cursor).
     rbind (take_bytes bs cursor 8) (\<lambda>(encoded_length, cursor).
     rbind (take_bytes bs cursor 32) (\<lambda>(digest, cursor).
     if from_be_bytes number \<noteq> expected \<or> from_be_bytes chunk_count = 0 \<or> ADDITIONS_PER_CHUNK < from_be_bytes chunk_count
     then Inl PendingInvalid
     else rbind (decode_index_entries bs (Suc expected) n cursor) (\<lambda>es.
     Inr (\<lparr>ie_number = from_be_bytes number, ie_count = from_be_bytes chunk_count, ie_length = from_be_bytes encoded_length,
           ie_digest = digest\<rparr> # es))))))"

definition decode_index :: "bytes \<Rightarrow> pending_error + nat \<times> nat \<times> index_entry list" where
  "decode_index bs =
     (if length bs < INDEX_HEADER_BYTES \<or> MAX_ADDITION_INDEX_BYTES < length bs then Inl PendingInvalid
      else if take (length INDEX_MAGIC) bs \<noteq> INDEX_MAGIC then Inl PendingInvalid
      else rbind (take_bytes bs (length INDEX_MAGIC) 8) (\<lambda>(n, cursor).
      rbind (take_bytes bs cursor 8) (\<lambda>(total_bytes, cursor).
      rbind (take_bytes bs cursor 4) (\<lambda>(k, cursor).
      let n = from_be_bytes n; total_bytes = from_be_bytes total_bytes; chunks = from_be_bytes k in
      if list_ex (\<lambda>b. b \<noteq> CHR 0x00) (take (INDEX_HEADER_BYTES - cursor) (drop cursor bs)) \<or> MAX_ADDITION_CHUNKS < chunks \<or>
         length bs \<noteq> INDEX_HEADER_BYTES + chunks * INDEX_ENTRY_BYTES
      then Inl PendingInvalid
      else rbind (decode_index_entries bs 0 chunks INDEX_HEADER_BYTES) (\<lambda>entries.
      rbind (encode_index n total_bytes entries) (\<lambda>canonical.
      if canonical \<noteq> bs then Inl PendingInvalid else Inr (n, total_bytes, entries)))))))"

section \<open>Reading\<close>

lemma take_bytes_at: "length a + length v < 2 ^ 64 \<Longrightarrow> take_bytes (a @ v @ r) (length a) (length v) = Inr (v, length a + length v)"
  by (simp add: take_bytes_def)

lemma take_bytes_Inr:
  "take_bytes bs c n = Inr (v, c') \<longleftrightarrow> c + n < 2 ^ 64 \<and> c + n \<le> length bs \<and> v = take n (drop c bs) \<and> c' = c + n"
  by (auto simp: take_bytes_def)

lemma from_be_bytes_small: "n < 256 ^ k \<Longrightarrow> from_be_bytes (be_bytes k n) = n"
  by (simp add: from_be_bytes_be_bytes)

lemma from_be_bytes_bound: "from_be_bytes bs < 256 ^ length bs"
proof (induction bs rule: rev_induct)
  case (snoc b bs)
  have "from_be_bytes (bs @ [b]) = from_be_bytes bs * 256 + of_char b" by (simp add: from_be_bytes_def)
  moreover have "(of_char b :: nat) < 256" by simp
  moreover have "256 ^ length (bs @ [b]) = 256 * (256 :: nat) ^ length bs" by simp
  ultimately show ?case using snoc by linarith
qed (simp add: from_be_bytes_def)

definition addition_bytes :: "addition_entry \<Rightarrow> bytes" where
  "addition_bytes e = be_bytes 2 (length (ae_path e)) @ ae_path e @ be_bytes 8 (ae_length e) @ ae_digest e"

text \<open>The ranges of the source's types: a \<open>u64\<close> length and a digest of 32 bytes.\<close>

definition addition_typed :: "addition_entry \<Rightarrow> bool" where
  "addition_typed e \<longleftrightarrow> ae_length e < 2 ^ 64 \<and> length (ae_digest e) = 32"

definition addition_path_ok :: "ext \<Rightarrow> bytes \<Rightarrow> bool" where
  "addition_path_ok X p \<longleftrightarrow>
     p \<noteq> [] \<and> length p \<le> MAX_CANONICAL_PATH_BYTES \<and> is_ascii p \<and> is_canonical (classify_path X p)"

lemma encode_additions_Inr:
  "encode_additions X prev es = Inr bs \<longleftrightarrow>
   list_all (\<lambda>e. addition_path_ok X (ae_path e)) es \<and>
   strictly_ordered ((case prev of None \<Rightarrow> [] | Some p \<Rightarrow> [p]) @ map ae_path es) \<and> bs = concat (map addition_bytes es)"
proof (induction es arbitrary: prev bs)
  case Nil
  show ?case by (cases prev) auto
next
  case (Cons e es)
  show ?case
    by (cases prev) (auto simp: rbind_Inr_iff Cons.IH addition_path_ok_def addition_bytes_def MAX_CANONICAL_PATH_BYTES_def order_simps)
qed

lemma decode_additions_encoded:
  assumes "list_all addition_typed es" "list_all (\<lambda>e. addition_path_ok X (ae_path e)) es"
    and "length (a @ concat (map addition_bytes es)) < 2 ^ 64"
  shows "decode_additions (a @ concat (map addition_bytes es) @ r) (length es) (length a) =
    Inr (es, length a + length (concat (map addition_bytes es)))"
  using assms
proof (induction es arbitrary: a)
  case (Cons e es)
  let ?n = "be_bytes 2 (length (ae_path e))" and ?l = "be_bytes 8 (ae_length e)"
  let ?rest = "concat (map addition_bytes es) @ r"
  have p: "length (ae_path e) \<noteq> 0" "length (ae_path e) \<le> 223" using Cons.prems(2) by (simp_all add: addition_path_ok_def MAX_CANONICAL_PATH_BYTES_def)
  have d: "length (ae_digest e) = 32" "ae_length e < 2 ^ 64" using Cons.prems(1) by (simp_all add: addition_typed_def)
  have v: "from_be_bytes ?n = length (ae_path e)" "from_be_bytes ?l = ae_length e"
    using p(2) d(2) by (simp_all add: from_be_bytes_be_bytes)
  have bs: "a @ concat (map addition_bytes (e # es)) @ r = a @ ?n @ ae_path e @ ?l @ ae_digest e @ ?rest"
    by (simp add: addition_bytes_def)
  have small: "length a + 2 + length (ae_path e) + 8 + 32 < 2 ^ 64" using Cons.prems(3) d(1) by (simp add: addition_bytes_def)
  let ?bs = "a @ ?n @ ae_path e @ ?l @ ae_digest e @ ?rest"
  define c1 c2 c3 c4 where c: "c1 = length a + 2" "c2 = c1 + length (ae_path e)" "c3 = c2 + 8" "c4 = c3 + 32"
  have t: "take_bytes ?bs (length a) 2 = Inr (?n, c1)" "take_bytes ?bs c1 (length (ae_path e)) = Inr (ae_path e, c2)"
      "take_bytes ?bs c2 8 = Inr (?l, c3)" "take_bytes ?bs c3 32 = Inr (ae_digest e, c4)"
    using small d(1) by (simp_all add: take_bytes_Inr c)
  have len: "c4 = length (a @ addition_bytes e)" by (simp add: addition_bytes_def d(1) c)
  have "decode_additions ((a @ addition_bytes e) @ ?rest) (length es) (length (a @ addition_bytes e)) =
      Inr (es, length (a @ addition_bytes e) + length (concat (map addition_bytes es)))"
    using Cons.prems by (intro Cons.IH) simp_all
  then have IH: "decode_additions ?bs (length es) c4 = Inr (es, length a + length (concat (map addition_bytes (e # es))))"
    unfolding len by (simp add: addition_bytes_def)
  show ?case
    unfolding bs list.size(4) add_0 using p by (simp add: take_u16_def t v IH[unfolded list.map] MAX_CANONICAL_PATH_BYTES_def del: list.map concat.simps)
      (simp add: addition_bytes_def)
qed simp

lemma decode_additions_typed:
  "decode_additions bs n c = Inr (es, c') \<Longrightarrow> length es = n \<and> list_all addition_typed es"
proof (induction n arbitrary: es c)
  case (Suc n)
  from Suc.prems obtain l c1 path c2 len c3 d c4 es' where s:
      "take_u16 bs c = Inr (l, c1)" "take_bytes bs c1 l = Inr (path, c2)" "take_bytes bs c2 8 = Inr (len, c3)"
      "take_bytes bs c3 32 = Inr (d, c4)" "decode_additions bs n c4 = Inr (es', c')"
      "es = \<lparr>ae_path = path, ae_length = from_be_bytes len, ae_digest = d\<rparr> # es'"
    by (simp add: if_Inr_iff split_beta rbind_Inr_iff) (metis prod.collapse)
  have "length len = 8" "length d = 32" using s(3,4) by (auto simp: take_bytes_Inr)
  then have "addition_typed \<lparr>ae_path = path, ae_length = from_be_bytes len, ae_digest = d\<rparr>"
    using from_be_bytes_bound[of len] by (simp add: addition_typed_def)
  then show ?case using Suc.IH[OF s(5)] s(6) by simp
qed simp

section \<open>The codecs are exact\<close>

lemma magic_lengths [simp]: "length ADDITION_MAGIC = 29" "length INDEX_MAGIC = 35"
  by (simp_all add: ADDITION_MAGIC_def INDEX_MAGIC_def)

definition chunk_header :: "nat \<Rightarrow> nat \<Rightarrow> bytes" where
  "chunk_header number n = ADDITION_MAGIC @ be_bytes 4 number @ be_bytes 4 n @ replicate 27 (CHR 0x00)"

lemma length_chunk_header [simp]: "length (chunk_header number n) = 64"
  by (simp add: chunk_header_def)

lemma addition_bytes_length:
  "addition_typed e \<Longrightarrow> addition_path_ok X (ae_path e) \<Longrightarrow> length (addition_bytes e) \<le> MAX_ENCODED_ADDITION_BYTES"
  by (simp add: addition_typed_def addition_path_ok_def addition_bytes_def MAX_ENCODED_ADDITION_BYTES_def MAX_CANONICAL_PATH_BYTES_def)

lemma additions_bytes_length:
  assumes "list_all addition_typed es" "list_all (\<lambda>e. addition_path_ok X (ae_path e)) es"
  shows "length (concat (map addition_bytes es)) \<le> length es * MAX_ENCODED_ADDITION_BYTES"
  using assms
proof (induction es)
  case (Cons e es)
  then show ?case using addition_bytes_length[of e X] by simp
qed simp

lemma encode_chunk_Inr:
  assumes "list_all addition_typed es"
  shows "encode_chunk X n es = Inr bs \<longleftrightarrow>
    n < MAX_ADDITION_CHUNKS \<and> es \<noteq> [] \<and> length es \<le> ADDITIONS_PER_CHUNK \<and>
    list_all (\<lambda>e. addition_path_ok X (ae_path e)) es \<and> strictly_ordered (map ae_path es) \<and>
    bs = chunk_header n (length es) @ concat (map addition_bytes es)"
proof -
  have h: "resize (ADDITION_MAGIC @ be_bytes 4 n @ be_bytes 4 (length es)) ADDITION_HEADER_BYTES = chunk_header n (length es)"
    by (simp add: resize_def chunk_header_def ADDITION_HEADER_BYTES_def)
  have fit: "length (chunk_header n (length es) @ concat (map addition_bytes es)) \<le> MAX_CHUNK_BYTES"
    if "length es \<le> ADDITIONS_PER_CHUNK" "list_all (\<lambda>e. addition_path_ok X (ae_path e)) es"
    using additions_bytes_length[OF assms that(2)] that(1)
    by (simp add: MAX_CHUNK_BYTES_def ADDITION_HEADER_BYTES_def MAX_ENCODED_ADDITION_BYTES_def ADDITIONS_PER_CHUNK_def)
  show ?thesis
    unfolding encode_chunk_def h Let_def using fit
    by (auto simp: rbind_Inr_iff encode_additions_Inr ADDITIONS_PER_CHUNK_def not_less not_le simp del: length_append)
qed

lemma chunk_header_reads:
  assumes "number < MAX_ADDITION_CHUNKS" "n \<le> ADDITIONS_PER_CHUNK"
  shows "take 29 (chunk_header number n @ r) = ADDITION_MAGIC"
    "from_be_bytes (take 4 (drop 29 (chunk_header number n @ r))) = number"
    "from_be_bytes (take 4 (drop 33 (chunk_header number n @ r))) = n"
    "take 27 (drop 37 (chunk_header number n @ r)) = replicate 27 (CHR 0x00)"
  using assms by (simp_all add: chunk_header_def from_be_bytes_be_bytes MAX_ADDITION_CHUNKS_def ADDITIONS_PER_CHUNK_def)

lemma chunk_codec:
  assumes "list_all addition_typed es"
  shows "decode_chunk X bs = Inr (n, es) \<longleftrightarrow> encode_chunk X n es = Inr bs"
proof
  assume "encode_chunk X n es = Inr bs"
  note enc = this and e = this[unfolded encode_chunk_Inr[OF assms]]
  let ?body = "concat (map addition_bytes es)"
  have bs: "bs = chunk_header n (length es) @ ?body" using e by blast
  have lens: "n < MAX_ADDITION_CHUNKS" "length es \<le> ADDITIONS_PER_CHUNK" "length es \<noteq> 0" using e by auto
  have ok: "list_all (\<lambda>e. addition_path_ok X (ae_path e)) es" using e by blast
  have fit: "64 \<le> length bs" "length bs \<le> MAX_CHUNK_BYTES"
    using additions_bytes_length[OF assms ok] lens(2)
    by (simp_all add: bs MAX_CHUNK_BYTES_def ADDITION_HEADER_BYTES_def MAX_ENCODED_ADDITION_BYTES_def ADDITIONS_PER_CHUNK_def)
  then have "length (chunk_header n (length es) @ ?body) < 2 ^ 64"
    unfolding bs[symmetric] by (simp add: MAX_CHUNK_BYTES_def ADDITION_HEADER_BYTES_def MAX_ENCODED_ADDITION_BYTES_def ADDITIONS_PER_CHUNK_def)
  from decode_additions_encoded[OF assms ok this, of "[]"]
  have dec: "decode_additions bs (length es) 64 = Inr (es, length bs)" by (simp add: bs)
  note r = chunk_header_reads[OF lens(1,2), of ?body, folded bs]
  have z: "\<not> list_ex (\<lambda>b. b \<noteq> CHR 0x00) (replicate 27 (CHR 0x00))" by (simp add: list_ex_iff)
  show "decode_chunk X bs = Inr (n, es)"
    using fit lens dec enc r z
    by (simp add: decode_chunk_def Let_def ADDITION_HEADER_BYTES_def)
next
  assume "decode_chunk X bs = Inr (n, es)"
  then show "encode_chunk X n es = Inr bs"
    by (auto simp: decode_chunk_def Let_def if_Inr_iff rbind_Inr_iff split: prod.splits)
qed

lemma decode_chunk_typed: "decode_chunk X bs = Inr (n, es) \<Longrightarrow> list_all addition_typed es"
  by (auto simp: decode_chunk_def Let_def if_Inr_iff rbind_Inr_iff dest!: decode_additions_typed split: prod.splits)

text \<open>The index lists the chunks in order; a chunk holds at least one addition.\<close>

definition index_entry_ok :: "nat \<Rightarrow> index_entry \<Rightarrow> bool" where
  "index_entry_ok k e \<longleftrightarrow> ie_number e = k \<and> 0 < ie_count e \<and> ie_count e \<le> ADDITIONS_PER_CHUNK \<and>
     ie_length e < 2 ^ 64 \<and> length (ie_digest e) = 32"

fun index_entries_ok :: "nat \<Rightarrow> index_entry list \<Rightarrow> bool" where
  "index_entries_ok k [] = True"
| "index_entries_ok k (e # es) = (index_entry_ok k e \<and> index_entries_ok (Suc k) es)"

lemma index_entry_bytes_length: "index_entry_ok k e \<Longrightarrow> length (index_entry_bytes e) = 48"
  by (simp add: index_entry_ok_def index_entry_bytes_def)

lemma index_bytes_length:
  "index_entries_ok k es \<Longrightarrow> length (concat (map index_entry_bytes es)) = length es * 48"
  by (induction es arbitrary: k) (auto simp: index_entry_bytes_length)

lemma decode_index_entries_encoded:
  assumes "index_entries_ok k es" "k + length es \<le> MAX_ADDITION_CHUNKS"
    and "length (a @ concat (map index_entry_bytes es)) < 2 ^ 64"
  shows "decode_index_entries (a @ concat (map index_entry_bytes es) @ r) k (length es) (length a) = Inr es"
  using assms
proof (induction es arbitrary: k a)
  case (Cons e es)
  let ?n = "be_bytes 4 (ie_number e)" and ?c = "be_bytes 4 (ie_count e)" and ?l = "be_bytes 8 (ie_length e)"
  let ?rest = "concat (map index_entry_bytes es) @ r"
  let ?bs = "a @ ?n @ ?c @ ?l @ ie_digest e @ ?rest"
  have ok: "index_entry_ok k e" "k < MAX_ADDITION_CHUNKS" using Cons.prems by simp_all
  have d: "length (ie_digest e) = 32" using ok by (simp add: index_entry_ok_def)
  have v: "from_be_bytes ?n = k" "from_be_bytes ?c = ie_count e" "from_be_bytes ?l = ie_length e" "ie_number e = k"
    using ok by (simp_all add: index_entry_ok_def from_be_bytes_be_bytes ADDITIONS_PER_CHUNK_def MAX_ADDITION_CHUNKS_def)
  have bs: "a @ concat (map index_entry_bytes (e # es)) @ r = ?bs" by (simp add: index_entry_bytes_def)
  have small: "length a + 48 < 2 ^ 64" using Cons.prems(3) d by (simp add: index_entry_bytes_def)
  define c1 c2 c3 c4 where c: "c1 = length a + 4" "c2 = c1 + 4" "c3 = c2 + 8" "c4 = c3 + 32"
  have t: "take_bytes ?bs (length a) 4 = Inr (?n, c1)" "take_bytes ?bs c1 4 = Inr (?c, c2)"
      "take_bytes ?bs c2 8 = Inr (?l, c3)" "take_bytes ?bs c3 32 = Inr (ie_digest e, c4)"
    using small d by (simp_all add: take_bytes_Inr c)
  have len: "c4 = length (a @ index_entry_bytes e)" by (simp add: index_entry_bytes_def d c)
  have "decode_index_entries ((a @ index_entry_bytes e) @ ?rest) (Suc k) (length es) (length (a @ index_entry_bytes e)) = Inr es"
    using Cons.prems by (intro Cons.IH) simp_all
  then have IH: "decode_index_entries ?bs (Suc k) (length es) c4 = Inr es"
    unfolding len by (simp add: index_entry_bytes_def)
  have cnt: "ie_count e \<noteq> 0" "\<not> ADDITIONS_PER_CHUNK < ie_count e" using ok(1) by (simp_all add: index_entry_ok_def)
  have e: "\<lparr>ie_number = k, ie_count = ie_count e, ie_length = ie_length e, ie_digest = ie_digest e\<rparr> = e" using v(4) by simp
  show ?case
    unfolding bs list.size(4) add_0 using cnt by (simp add: t v(1-3) IH e)
qed simp

lemma decode_index_entries_ok: "decode_index_entries bs k n c = Inr es \<Longrightarrow> length es = n \<and> index_entries_ok k es"
proof (induction n arbitrary: k c es)
  case (Suc n)
  from Suc.prems obtain number c1 m c2 len c3 d c4 es' where s:
      "take_bytes bs c 4 = Inr (number, c1)" "take_bytes bs c1 4 = Inr (m, c2)" "take_bytes bs c2 8 = Inr (len, c3)"
      "take_bytes bs c3 32 = Inr (d, c4)" "decode_index_entries bs (Suc k) n c4 = Inr es'"
      "from_be_bytes number = k" "from_be_bytes m \<noteq> 0" "from_be_bytes m \<le> ADDITIONS_PER_CHUNK"
      "es = \<lparr>ie_number = from_be_bytes number, ie_count = from_be_bytes m, ie_length = from_be_bytes len, ie_digest = d\<rparr> # es'"
    by (simp add: if_Inr_iff split_beta rbind_Inr_iff not_less) (metis prod.collapse)
  have "length len = 8" "length d = 32" using s(3,4) by (auto simp: take_bytes_Inr)
  then show ?case
    using Suc.IH[OF s(5)] s(6-9) from_be_bytes_bound[of len] by (simp add: index_entry_ok_def)
qed simp

definition index_header :: "nat \<Rightarrow> nat \<Rightarrow> nat \<Rightarrow> bytes" where
  "index_header n t k = INDEX_MAGIC @ be_bytes 8 n @ be_bytes 8 t @ be_bytes 4 k @ replicate 9 (CHR 0x00)"

lemma length_index_header [simp]: "length (index_header n t k) = 64"
  by (simp add: index_header_def)

lemma encode_index_Inr:
  assumes "index_entries_ok 0 es"
  shows "encode_index n t es = Inr bs \<longleftrightarrow>
    length es \<le> MAX_ADDITION_CHUNKS \<and> bs = index_header n t (length es) @ concat (map index_entry_bytes es)"
proof -
  have h: "resize (INDEX_MAGIC @ be_bytes 8 n @ be_bytes 8 t @ be_bytes 4 (length es)) INDEX_HEADER_BYTES = index_header n t (length es)"
    by (simp add: resize_def index_header_def INDEX_HEADER_BYTES_def)
  show ?thesis
    unfolding encode_index_def h Let_def
    by (auto simp: index_bytes_length[OF assms] MAX_ADDITION_CHUNKS_def MAX_ADDITION_INDEX_BYTES_def)
qed

lemma index_codec:
  assumes "n < 2 ^ 64" "t < 2 ^ 64"
  shows "decode_index bs = Inr (n, t, es) \<longleftrightarrow> encode_index n t es = Inr bs \<and> index_entries_ok 0 es"
proof
  assume a: "encode_index n t es = Inr bs \<and> index_entries_ok 0 es"
  then have ok: "index_entries_ok 0 es" and enc: "encode_index n t es = Inr bs" by blast+
  note e = enc[unfolded encode_index_Inr[OF ok]]
  let ?body = "concat (map index_entry_bytes es)"
  have bs: "bs = index_header n t (length es) @ ?body" and k: "length es \<le> 245" using e by (simp_all add: MAX_ADDITION_CHUNKS_def)
  have len: "length bs = 64 + length es * 48" by (simp add: bs index_bytes_length[OF ok])
  have dec: "decode_index_entries bs 0 (length es) 64 = Inr es"
    using decode_index_entries_encoded[OF ok, of "index_header n t (length es)" "[]"] k len
    by (simp add: bs MAX_ADDITION_CHUNKS_def)
  have r: "take 35 bs = INDEX_MAGIC" "take_bytes bs 35 8 = Inr (be_bytes 8 n, 43)" "take_bytes bs 43 8 = Inr (be_bytes 8 t, 51)"
      "take_bytes bs 51 4 = Inr (be_bytes 4 (length es), 55)" "take 9 (drop 55 bs) = replicate 9 (CHR 0x00)"
    by (simp_all add: bs index_header_def take_bytes_Inr)
  have v: "from_be_bytes (be_bytes 8 n) = n" "from_be_bytes (be_bytes 8 t) = t" "from_be_bytes (be_bytes 4 (length es)) = length es"
    using assms k by (simp_all add: from_be_bytes_be_bytes)
  have z: "\<not> list_ex (\<lambda>b. b \<noteq> CHR 0x00) (replicate 9 (CHR 0x00))" by (simp add: list_ex_iff)
  show "decode_index bs = Inr (n, t, es)"
    using dec enc r v z len k
    by (simp add: decode_index_def Let_def INDEX_HEADER_BYTES_def INDEX_ENTRY_BYTES_def MAX_ADDITION_INDEX_BYTES_def MAX_ADDITION_CHUNKS_def)
next
  assume "decode_index bs = Inr (n, t, es)"
  then show "encode_index n t es = Inr bs \<and> index_entries_ok 0 es"
    by (auto simp: decode_index_def Let_def if_Inr_iff rbind_Inr_iff dest!: decode_index_entries_ok split: prod.splits)
qed

lemma decode_index_bounds: "decode_index bs = Inr (n, t, es) \<Longrightarrow> n < 2 ^ 64 \<and> t < 2 ^ 64"
proof -
  assume "decode_index bs = Inr (n, t, es)"
  then obtain u v c c' where "take_bytes bs 35 8 = Inr (u, c)" "take_bytes bs c 8 = Inr (v, c')" "n = from_be_bytes u" "t = from_be_bytes v"
    by (auto simp: decode_index_def Let_def if_Inr_iff rbind_Inr_iff split: prod.splits)
  moreover from this have "length u = 8" "length v = 8" by (auto simp: take_bytes_Inr)
  ultimately show ?thesis using from_be_bytes_bound[of u] from_be_bytes_bound[of v] by simp
qed

text \<open>
  C30: The metadata of staged additions has one form. Chunks of additions whose lengths are 64-bit numbers
  and whose digests have 32 bytes decode from some bytes precisely when they encode to them, and only
  such additions decode; an index decodes from some bytes precisely when it encodes to them and lists
  the chunks in order, each with at least one and at most 4096 additions.
\<close>

theorem addition_codec_exact:
  "(decode_chunk X bs = Inr (k, es) \<longleftrightarrow> list_all addition_typed es \<and> encode_chunk X k es = Inr bs) \<and>
   (decode_index bs = Inr (n, t, chunks) \<longleftrightarrow>
      n < 2 ^ 64 \<and> t < 2 ^ 64 \<and> index_entries_ok 0 chunks \<and> encode_index n t chunks = Inr bs)"
  using chunk_codec[of es X bs k] decode_chunk_typed[of X bs k es] index_codec[of n t bs chunks] decode_index_bounds[of bs n t chunks]
  by blast

end
