(* ===== verification/Wj_Federation.thy ===== *)
theory Wj_Federation
  imports Wj_Identity
begin

text \<open>
  The closed values of \<open>federation.rs\<close> that synchronisation is decided on: git object names, the local
  trust binding, the approved remote and the admission checkpoint. The \<open>url\<close> crate is a parameter:
  its parser returns the parts of a URL that the code inspects.
\<close>

section \<open>Git object names\<close>

datatype git_object_format = Sha1 | Sha256

fun git_format_as_str :: "git_object_format \<Rightarrow> string" where
  "git_format_as_str Sha1 = ''sha1''"
| "git_format_as_str Sha256 = ''sha256''"

fun git_hex_len :: "git_object_format \<Rightarrow> nat" where
  "git_hex_len Sha1 = 40"
| "git_hex_len Sha256 = 64"

datatype git_oid_error =
    UnsupportedFormat string
  | OidNonCanonical string string

definition git_format_from_str :: "string \<Rightarrow> git_oid_error + git_object_format" where
  "git_format_from_str s =
     (if s = ''sha1'' then Inr Sha1 else if s = ''sha256'' then Inr Sha256 else Inl (UnsupportedFormat s))"

record git_oid =
  go_format :: git_object_format
  go_hex :: string

definition git_oid_parse :: "git_object_format \<Rightarrow> string \<Rightarrow> git_oid_error + git_oid" where
  "git_oid_parse format hex =
     (if length hex \<noteq> git_hex_len format \<or> \<not> list_all is_lower_hex hex
      then Inl (OidNonCanonical (git_format_as_str format) hex)
      else Inr \<lparr>go_format = format, go_hex = hex\<rparr>)"

section \<open>Approved remotes\<close>

type_synonym local_trust_binding = digest

definition local_trust_parse :: "ext \<Rightarrow> string \<Rightarrow> digest_error + local_trust_binding" where
  "local_trust_parse X hex = digest_parse X hex"

datatype approval_error =
    InvalidLocator
  | CredentialBearingLocator
  | UnsupportedTransport
  | InvalidRef
  | InvalidGitExecutable

record url =
  url_username :: string
  url_password :: "string option"
  url_query :: "string option"
  url_fragment :: "string option"
  url_scheme :: string
  url_host :: "string option"
  url_port :: "nat option"
  url_path :: string
  url_text :: string

definition approved_locator_parse :: "(string \<Rightarrow> url option) \<Rightarrow> string \<Rightarrow> approval_error + string" where
  "approved_locator_parse U value =
     (if CHR ''%'' \<in> set value then Inl InvalidLocator
      else case U value of
        None \<Rightarrow> Inl InvalidLocator
      | Some u \<Rightarrow>
          if url_username u \<noteq> [] \<or> url_password u \<noteq> None then Inl CredentialBearingLocator
          else if url_query u \<noteq> None \<or> url_fragment u \<noteq> None then Inl InvalidLocator
          else
            rbind (if url_scheme u = ''https'' then
                if url_host u = None \<or> url_port u \<noteq> None then Inl InvalidLocator else Inr ()
              else if url_scheme u = ''file'' then
                if (case url_host u of None \<Rightarrow> False | Some h \<Rightarrow> h \<noteq> [] \<and> h \<noteq> ''localhost'') \<or>
                   \<not> starts_with (url_path u) ''/''
                then Inl InvalidLocator else Inr ()
              else Inl UnsupportedTransport) (\<lambda>_.
            if url_text u \<noteq> value then Inl InvalidLocator else Inr value))"

fun contains :: "string \<Rightarrow> string \<Rightarrow> bool" where
  "contains [] p \<longleftrightarrow> p = []"
| "contains (c # s) p \<longleftrightarrow> starts_with (c # s) p \<or> contains s p"

definition to_ascii_lowercase :: "char \<Rightarrow> char" where
  "to_ascii_lowercase c = (if CHR ''A'' \<le> c \<and> c \<le> CHR ''Z'' then char_of (of_char c + 32 :: nat) else c)"

definition eq_ignore_ascii_case :: "string \<Rightarrow> string \<Rightarrow> bool" where
  "eq_ignore_ascii_case s t \<longleftrightarrow> map to_ascii_lowercase s = map to_ascii_lowercase t"

definition forbidden_ref_byte :: "char \<Rightarrow> bool" where
  "forbidden_ref_byte b \<longleftrightarrow>
     b \<le> CHR '' '' \<or> b = CHR 0x7F \<or> b = CHR ''~'' \<or> b = CHR 0x5E \<or> b = CHR '':'' \<or> b = CHR ''?'' \<or>
     b = CHR ''*'' \<or> b = CHR ''['' \<or> b = CHR 0x5C"

text \<open>
  The last five bytes are a slice of a string; where they would split a character the slice does not
  exist, and then they are not \<open>.lock\<close> either.
\<close>

definition forbidden_ref_part :: "string \<Rightarrow> bool" where
  "forbidden_ref_part part \<longleftrightarrow>
     part = [] \<or> starts_with part ''.'' \<or> eq_ignore_ascii_case (drop (length part - 5) part) ''.lock''"

definition approved_ref_parse :: "string \<Rightarrow> approval_error + string" where
  "approved_ref_parse value =
     (if \<not> starts_with value ''refs/heads/'' then Inl InvalidRef
      else let name = drop 11 value in
        if name = [] \<or> starts_with name ''/'' \<or> ends_with name ''/'' \<or> ends_with name ''.'' \<or>
           contains name ''..'' \<or> contains name [CHR 0x40, CHR 0x7B] \<or> list_ex forbidden_ref_byte name \<or>
           list_ex forbidden_ref_part (split_on CHR ''/'' name)
        then Inl InvalidRef else Inr value)"

record approved_remote =
  ar_locator :: string
  ar_reference :: string

record admission_checkpoint =
  ac_store :: logical_store_id
  ac_trust :: local_trust_binding
  ac_remote :: approved_remote
  ac_commit :: git_oid
  ac_revision :: store_revision_ref

section \<open>What the parsers accept\<close>

lemma git_oid_Inr:
  "git_oid_parse f h = Inr oid \<longleftrightarrow>
   oid = \<lparr>go_format = f, go_hex = h\<rparr> \<and> length h = git_hex_len f \<and> list_all is_lower_hex h"
  by (auto simp: git_oid_parse_def)

lemma git_format_roundtrip: "git_format_from_str (git_format_as_str f) = Inr f"
  by (cases f) (simp_all add: git_format_from_str_def)

lemma approved_locator_same: "approved_locator_parse U v = Inr w \<Longrightarrow> w = v"
  by (auto simp: approved_locator_parse_def result_simps split: option.splits if_splits)

lemma approved_ref_same: "approved_ref_parse v = Inr w \<Longrightarrow> w = v"
  by (auto simp: approved_ref_parse_def Let_def split: if_splits)

end
