(* ===== verification/Wj_Transaction.thy ===== *)
theory Wj_Transaction
  imports Wj_Scan
begin

text \<open>
  \<open>store/transaction.rs\<close>: the crash-safe publication of a prepared batch. A batch is first written
  to a private stage directory, then a journal naming it is linked into the recovery directory, and
  only then its files are linked into the visible store; recovery completes every journaled batch and
  discards every other stage. The code is a sequence of steps over the store's directories; between
  the steps it calls a barrier that may stop it, as a crash would.
\<close>

section \<open>Steps and crashes\<close>

text \<open>
  A barrier is a stateful callback: it sees the crash points reached so far, the current one last,
  and decides whether the run stops there. A step returns its result and the state it leaves behind,
  also when it fails.
\<close>

type_synonym barrier = "crash_point list \<Rightarrow> bool"

record tx_state =
  tx_dirs :: store_dirs
  tx_trace :: "crash_point list"

type_synonym 'a tx = "tx_state \<Rightarrow> (store_error + 'a) \<times> tx_state"

definition tx_return :: "'a \<Rightarrow> 'a tx" where "tx_return x = (\<lambda>s. (Inr x, s))"

definition tx_fail :: "store_error \<Rightarrow> 'a tx" where "tx_fail e = (\<lambda>s. (Inl e, s))"

definition tx_bind :: "'a tx \<Rightarrow> ('a \<Rightarrow> 'b tx) \<Rightarrow> 'b tx" where
  "tx_bind m f = (\<lambda>s. case m s of (Inl e, s') \<Rightarrow> (Inl e, s') | (Inr x, s') \<Rightarrow> f x s')"

definition tx_then :: "unit tx \<Rightarrow> 'b tx \<Rightarrow> 'b tx" where "tx_then m n = tx_bind m (\<lambda>_. n)"

text \<open>A computation that only reads the store.\<close>

definition tx_read :: "(store_dirs \<Rightarrow> store_error + 'a) \<Rightarrow> 'a tx" where
  "tx_read f = (\<lambda>s. (f (tx_dirs s), s))"

fun tx_mapM :: "('a \<Rightarrow> unit tx) \<Rightarrow> 'a list \<Rightarrow> unit tx" where
  "tx_mapM f [] = tx_return ()"
| "tx_mapM f (x # xs) = tx_then (f x) (tx_mapM f xs)"

definition hit :: "barrier \<Rightarrow> crash_point \<Rightarrow> unit tx" where
  "hit bar point = (\<lambda>s.
     let trace = tx_trace s @ [point]; s = s\<lparr>tx_trace := trace\<rparr>
     in if bar trace then (Inl (InjectedCrash point), s) else (Inr (), s))"

text \<open>An operation on one retained directory of the store.\<close>

definition on_dir ::
  "(store_dirs \<Rightarrow> directory) \<Rightarrow> ((directory \<Rightarrow> directory) \<Rightarrow> store_dirs \<Rightarrow> store_dirs) \<Rightarrow>
   (directory \<Rightarrow> store_error + directory) \<Rightarrow> unit tx" where
  "on_dir get upd f = (\<lambda>s.
     case f (get (tx_dirs s)) of
       Inl e \<Rightarrow> (Inl e, s)
     | Inr d \<Rightarrow> (Inr (), s\<lparr>tx_dirs := upd (\<lambda>_. d) (tx_dirs s)\<rparr>))"

definition on_stages :: "(directory \<Rightarrow> store_error + directory) \<Rightarrow> unit tx" where
  "on_stages = on_dir stages_dir stages_dir_update"

definition on_recovery :: "(directory \<Rightarrow> store_error + directory) \<Rightarrow> unit tx" where
  "on_recovery = on_dir recovery_dir recovery_dir_update"

definition on_records :: "(directory \<Rightarrow> store_error + directory) \<Rightarrow> unit tx" where
  "on_records = on_dir records_dir records_dir_update"

definition on_journal_batches :: "(directory \<Rightarrow> store_error + directory) \<Rightarrow> unit tx" where
  "on_journal_batches = on_dir journal_batches_dir journal_batches_dir_update"

text \<open>An operation on a child directory through its handle.\<close>

definition in_dir ::
  "string \<Rightarrow> (directory \<Rightarrow> store_error + directory) \<Rightarrow> directory \<Rightarrow> store_error + directory" where
  "in_dir name f d =
     rbind (open_dir d name) (\<lambda>es. rbind (f es) (\<lambda>es. Inr (bt_insert name (DirNode es) d)))"

definition make_dir :: "string \<Rightarrow> directory \<Rightarrow> store_error + directory" where
  "make_dir name d =
     rbind (ensure_dir d name) (\<lambda>(d, _, created). if created then Inr d else Inl InvalidJournal)"

definition ensure_synced :: "string \<Rightarrow> directory \<Rightarrow> store_error + directory" where
  "ensure_synced name d = rbind (ensure_dir d name) (\<lambda>(d, _, _). Inr d)"

section \<open>Journals\<close>

definition JOURNAL_SCHEMA_V1 :: string where "JOURNAL_SCHEMA_V1 = ''wayjournal.transaction/v1''"
definition MAX_JOURNAL_BYTES :: nat where "MAX_JOURNAL_BYTES = 4096"
definition MAX_JOURNAL_MEMBERS :: nat where "MAX_JOURNAL_MEMBERS = 16384"
definition MAX_LOCAL_ENTRIES :: nat where "MAX_LOCAL_ENTRIES = MAX_JOURNAL_MEMBERS + 8"
definition MAX_LOCAL_DEPTH :: nat where "MAX_LOCAL_DEPTH = 256"

record raw_journal =
  rj_base_algorithm :: string
  rj_base_digest :: string
  rj_batch_id :: string
  rj_manifest_hash :: string
  rj_member_count :: nat
  rj_schema :: string

record journal =
  jn_base :: store_revision_ref
  jn_batch_id :: batch_id
  jn_manifest_hash :: string
  jn_member_count :: nat

text \<open>The derived compact serializer of \<open>RawJournal\<close>, \<open>serde_json::to_vec\<close> and \<open>from_slice\<close>.\<close>

record journal_ext =
  journal_to_vec :: "raw_journal \<Rightarrow> bytes option"
  journal_from_slice :: "bytes \<Rightarrow> raw_journal option"

definition journal_roundtrip :: "journal_ext \<Rightarrow> bool" where
  "journal_roundtrip J \<longleftrightarrow> (\<forall>r bs. journal_to_vec J r = Some bs \<longrightarrow> journal_from_slice J bs = Some r)"

definition encode_journal :: "journal_ext \<Rightarrow> raw_journal \<Rightarrow> store_error + bytes" where
  "encode_journal J raw =
     rbind (ok_or InvalidJournal (journal_to_vec J raw)) (\<lambda>bs.
     if MAX_JOURNAL_BYTES < length bs then Inl InvalidJournal else Inr bs)"

definition decode_journal :: "ext \<Rightarrow> journal_ext \<Rightarrow> bytes \<Rightarrow> store_error + journal" where
  "decode_journal X J bs =
     (if MAX_JOURNAL_BYTES < length bs then Inl InvalidJournal
      else rbind (ok_or InvalidJournal (journal_from_slice J bs)) (\<lambda>raw.
      rbind (if rj_schema raw \<noteq> JOURNAL_SCHEMA_V1 then Inl InvalidJournal
             else rbind (encode_journal J raw) (\<lambda>again. if again \<noteq> bs then Inl InvalidJournal else Inr ())) (\<lambda>_.
      if rj_member_count raw = 0 \<or> MAX_JOURNAL_MEMBERS < rj_member_count raw then Inl InvalidJournal
      else rbind (map_err (\<lambda>_. InvalidJournal)
             (store_revision_parse X (rj_base_algorithm raw) (rj_base_digest raw))) (\<lambda>base.
           rbind (map_err (\<lambda>_. InvalidJournal) (batch_id_from_str X (rj_batch_id raw))) (\<lambda>batch.
           Inr \<lparr>jn_base = base, jn_batch_id = batch, jn_manifest_hash = rj_manifest_hash raw,
                 jn_member_count = rj_member_count raw\<rparr>)))))"

definition manifest_hash :: "ext \<Rightarrow> bytes \<Rightarrow> string" where
  "manifest_hash X bs = blake3_to_hex X (blake3_hash X bs)"

definition journal_name :: "ext \<Rightarrow> batch_id \<Rightarrow> string" where
  "journal_name X b = uuid_to_string X b @ ''.json''"

text \<open>\<open>format!("{index:08}.json")\<close>.\<close>

fun decimal :: "nat \<Rightarrow> string" where
  "decimal n = (if n < 10 then [char_of (48 + n)] else decimal (n div 10) @ [char_of (48 + n mod 10)])"

definition ordinal_name :: "nat \<Rightarrow> string" where
  "ordinal_name n = replicate (8 - length (decimal n)) CHR ''0'' @ decimal n @ ''.json''"

section \<open>Files\<close>

definition write_new_synced :: "string \<Rightarrow> bytes \<Rightarrow> directory \<Rightarrow> store_error + directory" where
  "write_new_synced name bs d = rbind (create_file d name) (\<lambda>d. Inr (write_all d name bs))"

definition bounded_regular :: "directory \<Rightarrow> string \<Rightarrow> nat \<Rightarrow> store_error + nat \<times> bytes" where
  "bounded_regular d name limit =
     rbind (open_file d name) (\<lambda>(mode, content).
     if limit < length content then Inl InvalidJournal
     else rbind (map_err (\<lambda>e. if e = InvalidLayout then InvalidJournal else e)
            (read_file_bounded content limit)) (\<lambda>bs. Inr (mode, bs)))"

text \<open>
  Linking an open file under a name that must be new: the file's permission bits and content become
  visible there at once. A name that is taken is accepted if it holds the same content.
  The name is checked first; the source checks it when it opens what it linked, which is the same for the
  canonical names that are linked.
\<close>

definition link_fd_no_clobber :: "nat \<times> bytes \<Rightarrow> string \<Rightarrow> bytes \<Rightarrow> directory \<Rightarrow> store_error + directory" where
  "link_fd_no_clobber source name expected d =
     rbind (validate_component name) (\<lambda>_.
     if bt_get d name = None then Inr (bt_insert name (FileNode (fst source) (snd source)) d)
     else (case open_file d name of
             Inl _ \<Rightarrow> Inl PublicationConflict
           | Inr (_, content) \<Rightarrow>
               (case read_file_bounded content (length expected) of
                  Inr actual \<Rightarrow> if actual = expected then Inr d else Inl PublicationConflict
                | Inl InvalidLayout \<Rightarrow> Inl PublicationConflict
                | Inl e \<Rightarrow> Inl e)))"

section \<open>Removal of a stage\<close>

text \<open>
  The explicit stack of \<open>remove_tree\<close> is the recursion here: \<open>depth\<close> is its height, \<open>consumed\<close> the
  entries counted so far. What an error leaves of the directory is part of the result.
\<close>

function (sequential) remove_children ::
  "nat \<Rightarrow> nat \<Rightarrow> (string \<times> node) list \<Rightarrow> store_error option \<times> (string \<times> node) list \<times> nat" where
  "remove_children depth consumed [] = (None, [], consumed)"
| "remove_children depth consumed ((name, DirNode es) # rest) =
     (if MAX_LOCAL_DEPTH \<le> depth then (Some InvalidJournal, (name, DirNode es) # rest, consumed)
      else if MAX_LOCAL_ENTRIES - consumed < length es
      then (Some InvalidLayout, (name, DirNode es) # rest, consumed)
      else (case remove_children (Suc depth) (consumed + length es) es of
              (Some e, left, consumed) \<Rightarrow> (Some e, (name, DirNode left) # rest, consumed)
            | (None, _, consumed) \<Rightarrow> remove_children depth consumed rest))"
| "remove_children depth consumed ((name, n) # rest) = remove_children depth consumed rest"
  by pat_completeness auto
termination
  by (relation "measure (\<lambda>(depth, consumed, es). size_list (size_prod (\<lambda>_. 0) size) es)") auto

definition remove_tree :: "directory \<Rightarrow> string \<Rightarrow> nat \<Rightarrow> (store_error + nat) \<times> directory" where
  "remove_tree d name consumed =
     (case dir_kind d name of
        Inl e \<Rightarrow> (Inl e, d)
      | Inr DirectoryType \<Rightarrow>
          (case open_dir d name of
             Inl e \<Rightarrow> (Inl e, d)
           | Inr es \<Rightarrow>
               if MAX_LOCAL_ENTRIES - consumed < length es then (Inl InvalidLayout, d)
               else (case remove_children 1 (consumed + length es) es of
                       (None, _, consumed) \<Rightarrow> (Inr consumed, bt_remove name d)
                     | (Some e, left, _) \<Rightarrow> (Inl e, bt_insert name (DirNode left) d)))
      | Inr _ \<Rightarrow>
          (case unlink_file d name of Inl e \<Rightarrow> (Inl e, d) | Inr d \<Rightarrow> (Inr consumed, d)))"

definition tx_remove_tree :: "string \<Rightarrow> nat \<Rightarrow> nat tx" where
  "tx_remove_tree name consumed = (\<lambda>s.
     case remove_tree (stages_dir (tx_dirs s)) name consumed of
       (r, d) \<Rightarrow> (r, s\<lparr>tx_dirs := (tx_dirs s)\<lparr>stages_dir := d\<rparr>\<rparr>))"

fun clean_stages :: "string list \<Rightarrow> nat \<Rightarrow> unit tx" where
  "clean_stages [] consumed = tx_return ()"
| "clean_stages (name # names) consumed =
     tx_bind (tx_remove_tree name consumed) (\<lambda>consumed. clean_stages names consumed)"

definition clean_unprepared_stages :: "unit tx" where
  "clean_unprepared_stages =
     tx_bind (tx_read (\<lambda>s. bounded_names (stages_dir s) MAX_LOCAL_ENTRIES)) (\<lambda>names.
     clean_stages names (length names))"

section \<open>Preview\<close>

definition classify_prepared ::
  "batch_manifest list \<Rightarrow> prepared_batch \<Rightarrow> store_error + batch_id option" where
  "classify_prepared manifests p =
     (let target = pb_manifest p;
          matches = sort_key bm_batch (filter (\<lambda>m. bm_actor m = bm_actor target \<and>
            bm_key_digest m = bm_key_digest target) manifests)
      in case matches of
           [] \<Rightarrow> Inr None
         | [m] \<Rightarrow>
             if bm_request m = bm_request target then Inr (Some (bm_batch m))
             else Inl (StoreBatchError (IdempotencyRequestMismatch (bm_batch m)))
         | _ \<Rightarrow> Inl (StoreBatchError (DuplicateIdempotencyOwnership (map bm_batch matches))))"

definition prepared_files :: "prepared_batch \<Rightarrow> raw_file list" where
  "prepared_files p =
     map (\<lambda>r. \<lparr>rf_path = pr_path r, rf_bytes = pr_bytes r\<rparr>) (pb_records p) @
     [\<lparr>rf_path = pb_manifest_path p, rf_bytes = pb_manifest_bytes p\<rparr>]"

fun add_new_files :: "raw_file list \<Rightarrow> raw_file list \<Rightarrow> store_error + raw_file list" where
  "add_new_files files [] = Inr files"
| "add_new_files files (f # fs) =
     (if list_ex (\<lambda>g. rf_path g = rf_path f) files then Inl PublicationConflict
      else add_new_files (files @ [f]) fs)"

definition file_lengths :: "raw_file list \<Rightarrow> (bytes \<times> nat) list" where
  "file_lengths fs = map (\<lambda>f. (rf_path f, length (rf_bytes f))) fs"

definition validate_candidate ::
  "ext \<Rightarrow> store_config \<Rightarrow> store_dirs \<Rightarrow> prepared_batch \<Rightarrow> store_error + store_snapshot" where
  "validate_candidate X C s p =
     rbind (visible_inventory X s) (\<lambda>(files, nonregular, inventory).
     rbind (enforce_limits (file_lengths files @ file_lengths (prepared_files p)) nonregular inventory) (\<lambda>_.
     rbind (add_new_files files (prepared_files p)) (\<lambda>candidate.
     scan_collected X C (sort_key rf_path candidate) nonregular)))"

datatype append_preview =
    PreviewPublish store_revision_ref
  | PreviewReplay batch_id store_revision_ref

definition preview_from_snapshot ::
  "ext \<Rightarrow> store_config \<Rightarrow> store_dirs \<Rightarrow> store_snapshot \<Rightarrow> prepared_batch \<Rightarrow> store_revision_ref \<Rightarrow>
   store_error + append_preview" where
  "preview_from_snapshot X C s snapshot p expected =
     (if ss_revision snapshot \<noteq> expected then Inl (RevisionMismatch expected (ss_revision snapshot))
      else rbind (classify_prepared (ss_manifests snapshot) p) (\<lambda>c.
      case c of
        Some b \<Rightarrow> Inr (PreviewReplay b (ss_revision snapshot))
      | None \<Rightarrow>
          rbind (validate_candidate X C s p) (\<lambda>candidate. Inr (PreviewPublish (ss_revision candidate)))))"

section \<open>Staging\<close>

definition stage_journal :: "ext \<Rightarrow> prepared_batch \<Rightarrow> store_revision_ref \<Rightarrow> raw_journal" where
  "stage_journal X p base =
     \<lparr>rj_base_algorithm = algorithm_as_str (sr_algorithm base),
      rj_base_digest = digest_to_string X (sr_digest base),
      rj_batch_id = uuid_to_string X (bm_batch (pb_manifest p)),
      rj_manifest_hash = manifest_hash X (pb_manifest_bytes p),
      rj_member_count = length (pb_records p),
      rj_schema = JOURNAL_SCHEMA_V1\<rparr>"

definition stage_batch ::
  "ext \<Rightarrow> journal_ext \<Rightarrow> barrier \<Rightarrow> prepared_batch \<Rightarrow> store_revision_ref \<Rightarrow> unit tx" where
  "stage_batch X J bar p base =
     (let stage = uuid_to_string X (bm_batch (pb_manifest p)) in
      tx_then (on_stages (make_dir stage)) (
      tx_then (hit bar StageDirectory) (
      tx_then (on_stages (in_dir stage (make_dir ''records''))) (
      tx_then (hit bar StageRecordsDirectory) (
      tx_then (tx_mapM (\<lambda>(index, r).
          tx_then (on_stages (in_dir stage (in_dir ''records'' (write_new_synced (ordinal_name index) (pr_bytes r)))))
            (hit bar RecordFile)) (enumerate 0 (pb_records p))) (
      tx_then (hit bar StageRecords) (
      tx_then (on_stages (in_dir stage (write_new_synced ''manifest.json'' (pb_manifest_bytes p)))) (
      tx_then (hit bar ManifestFile) (
      tx_then (hit bar StageManifest) (
      tx_bind (tx_read (\<lambda>_. encode_journal J (stage_journal X p base))) (\<lambda>bs.
      tx_then (on_stages (in_dir stage (write_new_synced ''journal.tmp'' bs))) (
      tx_then (hit bar JournalFile) (
      tx_then (hit bar StageJournal) (
      tx_then (on_recovery (link_fd_no_clobber (private_mode, bs)
          (journal_name X (bm_batch (pb_manifest p))) bs)) (
      hit bar JournalPublished)))))))))))))))"

section \<open>Recovery\<close>

record staged_record =
  sg_mode :: nat
  sg_target :: string
  sg_bytes :: bytes

record staged_batch =
  st_journal :: journal
  st_manifest :: batch_manifest
  st_manifest_mode :: nat
  st_manifest_bytes :: bytes
  st_records :: "staged_record list"

definition validate_stage_root :: "directory \<Rightarrow> store_error + unit" where
  "validate_stage_root stage =
     rbind (bounded_names stage MAX_LOCAL_ENTRIES) (\<lambda>names.
     if bs_of_list names \<noteq> bs_of_list [''journal.tmp'', ''manifest.json'', ''records''] then Inl InvalidJournal
     else rbind (dir_kind stage ''records'') (\<lambda>k.
          if k \<noteq> DirectoryType then Inl InvalidJournal else Inr ()))"

definition validate_ordinals :: "directory \<Rightarrow> nat \<Rightarrow> store_error + unit" where
  "validate_ordinals d n =
     rbind (bounded_names d MAX_LOCAL_ENTRIES) (\<lambda>names.
     if bs_of_list names \<noteq> bs_of_list (map ordinal_name [0..<n]) then Inl InvalidJournal else Inr ())"

definition load_record :: "ext \<Rightarrow> domain_registry \<Rightarrow> directory \<Rightarrow> nat \<Rightarrow> store_error + staged_record" where
  "load_record X R d index =
     rbind (bounded_regular d (ordinal_name index) MAX_RECORD_BYTES) (\<lambda>(mode, bs).
     rbind (map_err (\<lambda>_. InvalidJournal) (decode_record X bs R)) (\<lambda>r.
     Inr \<lparr>sg_mode = mode, sg_target = record_canonical_path X r, sg_bytes = bs\<rparr>))"

fun equal_neighbours :: "staged_record list \<Rightarrow> bool" where
  "equal_neighbours (a # b # xs) = (sg_target a = sg_target b \<or> equal_neighbours (b # xs))"
| "equal_neighbours _ = False"

text \<open>The part of \<open>recover_one\<close> that reads the journal and the stage and validates them.\<close>

definition load_staged ::
  "ext \<Rightarrow> journal_ext \<Rightarrow> domain_registry \<Rightarrow> store_dirs \<Rightarrow> batch_id \<Rightarrow> store_error + staged_batch" where
  "load_staged X J R s batch_id =
     rbind (bounded_regular (recovery_dir s) (journal_name X batch_id) MAX_JOURNAL_BYTES) (\<lambda>(_, journal_bytes).
     rbind (decode_journal X J journal_bytes) (\<lambda>journal.
     if jn_batch_id journal \<noteq> batch_id then Inl InvalidJournal
     else rbind (open_dir (stages_dir s) (uuid_to_string X batch_id)) (\<lambda>stage.
     rbind (validate_stage_root stage) (\<lambda>_.
     rbind (bounded_regular stage ''journal.tmp'' MAX_JOURNAL_BYTES) (\<lambda>(_, staged_journal).
     if staged_journal \<noteq> journal_bytes then Inl InvalidJournal
     else rbind (bounded_regular stage ''manifest.json'' MAX_BATCH_BYTES) (\<lambda>(manifest_mode, manifest_bytes).
     if manifest_hash X manifest_bytes \<noteq> jn_manifest_hash journal then Inl InvalidJournal
     else rbind (map_err (\<lambda>_. InvalidJournal) (decode_batch_manifest X manifest_bytes)) (\<lambda>manifest.
     if bm_batch manifest \<noteq> batch_id \<or> length (bm_members manifest) \<noteq> jn_member_count journal
     then Inl InvalidJournal
     else rbind (open_dir stage ''records'') (\<lambda>records.
     rbind (validate_ordinals records (jn_member_count journal)) (\<lambda>_.
     rbind (try_map (load_record X R records) [0..<jn_member_count journal]) (\<lambda>loaded.
     let staged = sort_key sg_target loaded in
     if equal_neighbours staged then Inl InvalidJournal
     else rbind (map_err (\<lambda>_. InvalidJournal) (validate_batch_members X manifest
            (map (\<lambda>r. \<lparr>sm_path = sg_target r, sm_bytes = sg_bytes r\<rparr>) staged) R)) (\<lambda>_.
     Inr \<lparr>st_journal = journal, st_manifest = manifest, st_manifest_mode = manifest_mode,
           st_manifest_bytes = manifest_bytes, st_records = staged\<rparr>)))))))))))"

definition staged_files :: "ext \<Rightarrow> staged_batch \<Rightarrow> raw_file list" where
  "staged_files X b =
     map (\<lambda>r. \<lparr>rf_path = sg_target r, rf_bytes = sg_bytes r\<rparr>) (st_records b) @
     [\<lparr>rf_path = manifest_canonical_path X (st_manifest b), rf_bytes = st_manifest_bytes b\<rparr>]"

fun split_base ::
  "(bytes, bytes) btree \<Rightarrow> raw_file list \<Rightarrow> store_error + raw_file list \<times> bytes list" where
  "split_base targets [] = Inr ([], [])"
| "split_base targets (f # fs) =
     (case bt_get targets (rf_path f) of
        Some expected \<Rightarrow>
          if rf_bytes f \<noteq> expected then Inl PublicationConflict
          else rbind (split_base targets fs) (\<lambda>(base, present). Inr (base, bs_insert (rf_path f) present))
      | None \<Rightarrow> rbind (split_base targets fs) (\<lambda>(base, present). Inr (f # base, present)))"

definition validate_recovery_base ::
  "ext \<Rightarrow> store_config \<Rightarrow> store_dirs \<Rightarrow> staged_batch \<Rightarrow> store_error + unit" where
  "validate_recovery_base X C s b =
     (let targets = bt_of_list (map (\<lambda>f. (rf_path f, rf_bytes f)) (staged_files X b)) in
      rbind (visible_inventory X s) (\<lambda>(files, nonregular, inventory).
      rbind (split_base targets files) (\<lambda>(base, present).
      if length present = length targets then rbind (scan_visible X C s) (\<lambda>_. Inr ())
      else
        rbind (enforce_limits (file_lengths base @ file_lengths (staged_files X b)) nonregular inventory) (\<lambda>_.
        rbind (scan_collected X C base nonregular) (\<lambda>snapshot.
        if ss_revision snapshot \<noteq> jn_base (st_journal b)
        then Inl (RecoveryBaseChanged (jn_base (st_journal b)) (ss_revision snapshot))
        else rbind (scan_collected X C (sort_key rf_path (base @ staged_files X b)) []) (\<lambda>_. Inr ()))))))"

text \<open>\<open>record_target_parent\<close> with \<open>create\<close>, then the link: parents stay when a later step fails.\<close>

definition publish_record :: "staged_record \<Rightarrow> unit tx" where
  "publish_record r =
     (case split_on CHR ''/'' (sg_target r) of
        [a, b, domain, entity, file] \<Rightarrow>
          if a = ''journal'' \<and> b = ''records'' then
            tx_then (on_records (ensure_synced domain)) (
            tx_then (on_records (in_dir domain (ensure_synced entity))) (
            on_records (in_dir domain (in_dir entity
              (link_fd_no_clobber (sg_mode r, sg_bytes r) file (sg_bytes r))))))
          else tx_fail InvalidJournal
      | _ \<Rightarrow> tx_fail InvalidJournal)"

definition drop_stage :: "ext \<Rightarrow> batch_id \<Rightarrow> unit tx" where
  "drop_stage X batch_id = tx_bind (tx_remove_tree (uuid_to_string X batch_id) 1) (\<lambda>_. tx_return ())"

definition is_domain_fold :: "store_error \<Rightarrow> bool" where
  "is_domain_fold e = (case e of Corrupt (InvalidDomainFold _ _) \<Rightarrow> True | _ \<Rightarrow> False)"

text \<open>The part of \<open>recover_one\<close> that publishes a validated batch and drops its journal and stage.\<close>

definition publish_staged :: "ext \<Rightarrow> barrier \<Rightarrow> batch_id \<Rightarrow> staged_batch \<Rightarrow> unit tx" where
  "publish_staged X bar batch_id b =
     tx_then (tx_mapM (\<lambda>r. tx_then (publish_record r) (hit bar RecordPublished)) (st_records b)) (
     tx_then (on_journal_batches (link_fd_no_clobber (st_manifest_mode b, st_manifest_bytes b)
       (journal_name X (bm_batch (st_manifest b))) (st_manifest_bytes b))) (
     tx_then (hit bar ManifestPublished) (
     tx_then (on_recovery (\<lambda>d. unlink_file d (journal_name X batch_id))) (
     tx_then (hit bar JournalRemoved) (
     tx_then (drop_stage X batch_id) (
     hit bar StageRemoved))))))"

definition recover_one ::
  "ext \<Rightarrow> journal_ext \<Rightarrow> store_config \<Rightarrow> barrier \<Rightarrow> batch_id \<Rightarrow> unit tx" where
  "recover_one X J C bar batch_id =
     tx_bind (tx_read (\<lambda>s. load_staged X J (sc_registry C) s batch_id)) (\<lambda>b.
     tx_bind (tx_read (\<lambda>s. Inr (validate_recovery_base X C s b))) (\<lambda>v.
     case v of
       Inl e \<Rightarrow>
         if is_domain_fold e then
           tx_then (on_recovery (\<lambda>d. unlink_file d (journal_name X batch_id))) (
           tx_then (drop_stage X batch_id) (tx_fail e))
         else tx_fail e
     | Inr _ \<Rightarrow> publish_staged X bar batch_id b))"

definition list_ids ::
  "ext \<Rightarrow> file_type \<Rightarrow> (string \<Rightarrow> store_error + string) \<Rightarrow> directory \<Rightarrow> store_error + batch_id list" where
  "list_ids X kind stem d =
     rbind (bounded_names d MAX_LOCAL_ENTRIES) (\<lambda>names.
     rbind (try_map (\<lambda>name.
         if \<not> is_str name then Inl InvalidJournal
         else rbind (dir_kind d name) (\<lambda>k.
         if k \<noteq> kind then Inl InvalidJournal
         else rbind (stem name) (\<lambda>t. map_err (\<lambda>_. InvalidJournal) (batch_id_from_str X t)))) names) (\<lambda>ids.
     let ids = sort ids in if distinct_adj ids then Inr ids else Inl InvalidJournal))"

definition listed_journals :: "ext \<Rightarrow> store_dirs \<Rightarrow> store_error + batch_id list" where
  "listed_journals X s =
     list_ids X RegularFile (\<lambda>name. ok_or InvalidJournal (strip_suffix name ''.json'')) (recovery_dir s)"

definition listed_stages :: "ext \<Rightarrow> store_dirs \<Rightarrow> store_error + batch_id list" where
  "listed_stages X s = list_ids X DirectoryType Inr (stages_dir s)"

definition recover_locked :: "ext \<Rightarrow> journal_ext \<Rightarrow> store_config \<Rightarrow> barrier \<Rightarrow> unit tx" where
  "recover_locked X J C bar =
     tx_bind (tx_read (listed_journals X)) (\<lambda>ids.
     tx_then (tx_mapM (recover_one X J C bar) ids) clean_unprepared_stages)"

record observed_recovery =
  ob_journals :: "batch_id list"
  ob_stages :: "batch_id list"
  ob_union :: "batch_id list"

definition observe_transaction_recovery :: "ext \<Rightarrow> store_dirs \<Rightarrow> store_error + observed_recovery" where
  "observe_transaction_recovery X s =
     rbind (listed_journals X s) (\<lambda>journals.
     rbind (listed_stages X s) (\<lambda>stages.
     if list_ex (\<lambda>b. b \<notin> set stages) journals then Inl InvalidJournal
     else Inr \<lparr>ob_journals = journals, ob_stages = stages, ob_union = remdups_adj (sort (stages @ journals))\<rparr>))"

text \<open>The publishing branch of \<open>append_locked\<close>: stage, recover the one batch, scan.\<close>

definition publish_batch ::
  "ext \<Rightarrow> journal_ext \<Rightarrow> store_config \<Rightarrow> barrier \<Rightarrow> prepared_batch \<Rightarrow> store_revision_ref \<Rightarrow> store_snapshot tx" where
  "publish_batch X J C bar p expected =
     tx_then (stage_batch X J bar p expected) (
     tx_then (recover_one X J C bar (bm_batch (pb_manifest p))) (
     tx_read (scan_visible X C)))"

section \<open>Running steps\<close>

text \<open>
  \<open>runs P m Q E\<close>: from every state whose directories satisfy \<open>P\<close>, the step either succeeds with
  directories in \<open>Q\<close> or fails with directories in \<open>E\<close>.
\<close>

definition runs ::
  "(store_dirs \<Rightarrow> bool) \<Rightarrow> 'a tx \<Rightarrow> ('a \<Rightarrow> store_dirs \<Rightarrow> bool) \<Rightarrow> (store_error \<Rightarrow> store_dirs \<Rightarrow> bool) \<Rightarrow> bool" where
  "runs P m Q E \<longleftrightarrow>
     (\<forall>s. P (tx_dirs s) \<longrightarrow>
        (case m s of (Inr x, s') \<Rightarrow> Q x (tx_dirs s') | (Inl e, s') \<Rightarrow> E e (tx_dirs s')))"

lemma runs_bind:
  assumes "runs P m Q E" and "\<And>x. runs (Q x) (f x) S E"
  shows "runs P (tx_bind m f) S E"
  unfolding runs_def
proof (intro allI impI)
  fix s :: tx_state
  assume "P (tx_dirs s)"
  then have m: "case m s of (Inr x, s') \<Rightarrow> Q x (tx_dirs s') | (Inl e, s') \<Rightarrow> E e (tx_dirs s')"
    using assms(1) by (simp add: runs_def)
  obtain r s' where r: "m s = (r, s')" by fastforce
  show "case tx_bind m f s of (Inr x, s') \<Rightarrow> S x (tx_dirs s') | (Inl e, s') \<Rightarrow> E e (tx_dirs s')"
    using m assms(2) by (cases r) (auto simp: tx_bind_def r runs_def)
qed

lemma runs_then: "runs P m (\<lambda>_. Q) E \<Longrightarrow> runs Q n S E \<Longrightarrow> runs P (tx_then m n) S E"
  unfolding tx_then_def by (rule runs_bind)

lemma runs_return: "(\<And>d. P d \<Longrightarrow> Q x d) \<Longrightarrow> runs P (tx_return x) Q E"
  by (simp add: runs_def tx_return_def)

lemma runs_fail: "(\<And>d. P d \<Longrightarrow> E e d) \<Longrightarrow> runs P (tx_fail e) Q E"
  by (simp add: runs_def tx_fail_def)

lemma runs_read: "(\<And>d. P d \<Longrightarrow> case f d of Inr x \<Rightarrow> Q x d | Inl e \<Rightarrow> E e d) \<Longrightarrow> runs P (tx_read f) Q E"
  by (auto simp: runs_def tx_read_def split: sum.splits)

text \<open>A crash happens only where the barrier asks for one.\<close>

definition injected :: "barrier \<Rightarrow> store_error \<Rightarrow> bool" where
  "injected bar e \<longleftrightarrow> (\<exists>point. e = InjectedCrash point) \<and> (\<exists>trace. bar trace)"

lemma runs_hit:
  "(\<And>d. P d \<Longrightarrow> injected bar (InjectedCrash point) \<Longrightarrow> E (InjectedCrash point) d) \<Longrightarrow>
   runs P (hit bar point) (\<lambda>_. P) E"
  by (auto simp: runs_def hit_def Let_def injected_def)

lemma runs_on_dir:
  assumes "\<And>d. P d \<Longrightarrow> \<exists>e. f (get d) = Inr e \<and> Q (upd (\<lambda>_. e) d)"
  shows "runs P (on_dir get upd f) (\<lambda>_. Q) E"
  unfolding runs_def on_dir_def using assms by fastforce

lemma runs_mapM:
  assumes "\<And>i. i < length xs \<Longrightarrow> runs (I i) (f (xs ! i)) (\<lambda>_. I (Suc i)) E"
  shows "runs (I 0) (tx_mapM f xs) (\<lambda>_. I (length xs)) E"
  using assms
proof (induction xs arbitrary: I)
  case Nil
  then show ?case by (simp add: runs_return)
next
  case (Cons x xs)
  have "runs (I 0) (f x) (\<lambda>_. I (Suc 0)) E"
    using Cons.prems[of 0] by simp
  moreover have "runs (I (Suc 0)) (tx_mapM f xs) (\<lambda>_. I (Suc (length xs))) E"
    using Cons.IH[of "\<lambda>i. I (Suc i)"] Cons.prems by fastforce
  ultimately show ?case
    by (auto intro: runs_then)
qed

lemma runs_weaken:
  "runs P m Q E \<Longrightarrow> (\<And>d. P' d \<Longrightarrow> P d) \<Longrightarrow> (\<And>x d. Q x d \<Longrightarrow> Q' x d) \<Longrightarrow> (\<And>e d. E e d \<Longrightarrow> E' e d) \<Longrightarrow> runs P' m Q' E'"
  unfolding runs_def by (fastforce split: prod.splits sum.splits)

lemma runsD: "runs P m Q E \<Longrightarrow> P (tx_dirs s) \<Longrightarrow>
    (case m s of (Inr x, s') \<Rightarrow> Q x (tx_dirs s') | (Inl e, s') \<Rightarrow> E e (tx_dirs s'))"
  by (simp add: runs_def)

section \<open>Directory steps\<close>

lemma bt_insert_twice: "bt_insert k v (bt_insert k u m) = bt_insert k v m"
  by (induction m) auto

lemma write_new_synced_fresh:
  "validate_component name = Inr () \<Longrightarrow> bt_get d name = None \<Longrightarrow>
   write_new_synced name bs d = Inr (bt_insert name (FileNode private_mode bs) d)"
  by (simp add: write_new_synced_def create_file_def write_all_def bt_insert_twice)

lemma make_dir_fresh:
  "validate_component name = Inr () \<Longrightarrow> bt_get d name = None \<Longrightarrow> make_dir name d = Inr (bt_insert name (DirNode []) d)"
  by (simp add: make_dir_def ensure_dir_def)

lemma in_dir_eq:
  "validate_component name = Inr () \<Longrightarrow> bt_get d name = Some (DirNode es) \<Longrightarrow> f es = Inr es' \<Longrightarrow>
   in_dir name f d = Inr (bt_insert name (DirNode es') d)"
  by (simp add: in_dir_def open_dir_def)

lemma bounded_regular_file:
  "validate_component name = Inr () \<Longrightarrow> bt_get d name = Some (FileNode m bs) \<Longrightarrow> length bs \<le> limit \<Longrightarrow>
   bounded_regular d name limit = Inr (m, bs)"
  by (simp add: bounded_regular_def open_file_def read_file_bounded_iff)

lemma plain_components:
  "validate_component ''records'' = Inr ()" "validate_component ''manifest.json'' = Inr ()"
  "validate_component ''journal.tmp'' = Inr ()" "validate_component ''batches'' = Inr ()"
  by (simp_all add: validate_component_def)

section \<open>Ordinals\<close>

declare decimal.simps [simp del]

fun decimal_value :: "nat \<Rightarrow> string \<Rightarrow> nat" where
  "decimal_value acc [] = acc"
| "decimal_value acc (c # cs) = decimal_value (acc * 10 + (of_char c - 48)) cs"

lemma decimal_value_append: "decimal_value acc (s @ t) = decimal_value (decimal_value acc s) t"
  by (induction s arbitrary: acc) auto

lemma digit_value: "d < 10 \<Longrightarrow> of_char (char_of (48 + d :: nat) :: char) = (48 + d :: nat)"
  by simp

lemma decimal_value_decimal: "decimal_value 0 (decimal n) = n"
proof (induction n rule: decimal.induct)
  case (1 n)
  show ?case
  proof (cases "n < 10")
    case True
    then show ?thesis by (simp add: decimal.simps[of n])
  next
    case False
    then show ?thesis
      using 1 digit_value[of "n mod 10"]
      by (subst decimal.simps) (simp add: decimal_value_append del: of_char_of)
  qed
qed

lemma ordinal_name_inj: "ordinal_name m = ordinal_name n \<longleftrightarrow> m = n"
proof
  assume "ordinal_name m = ordinal_name n"
  then have "replicate (8 - length (decimal m)) CHR ''0'' @ decimal m =
      replicate (8 - length (decimal n)) CHR ''0'' @ decimal n"
    unfolding ordinal_name_def using append_same_eq by (metis append.assoc)
  moreover have "decimal_value 0 (replicate k CHR ''0'' @ decimal n) = n" for k n
    by (induction k) (simp_all add: decimal_value_decimal)
  ultimately show "m = n" by metis
qed simp

lemma decimal_plain: "CHR ''/'' \<notin> set (decimal n) \<and> CHR 0x00 \<notin> set (decimal n) \<and> decimal n \<noteq> []"
proof (induction n rule: decimal.induct)
  case (1 n)
  have digit: "(char_of (48 + d :: nat) :: char) \<noteq> CHR ''/'' \<and> (char_of (48 + d :: nat) :: char) \<noteq> CHR 0x00"
    if "d < 10" for d
  proof -
    have "of_char (char_of (48 + d :: nat) :: char) \<noteq> (of_char CHR ''/'' :: nat)"
        "of_char (char_of (48 + d :: nat) :: char) \<noteq> (of_char CHR 0x00 :: nat)"
      using digit_value[OF that] by (simp_all del: of_char_of)
    then show ?thesis by metis
  qed
  show ?case
    using 1 digit[of n] digit[of "n mod 10"] by (subst (1 2 3) decimal.simps) auto
qed

lemma ordinal_component: "validate_component (ordinal_name n) = Inr ()"
proof -
  have "length (ordinal_name n) \<ge> 6"
    using decimal_plain[of n] by (cases "decimal n") (auto simp: ordinal_name_def)
  then have "ordinal_name n \<noteq> ''.''" "ordinal_name n \<noteq> ''..''" "ordinal_name n \<noteq> []"
    by auto
  then show ?thesis
    using decimal_plain[of n] by (auto simp: validate_component_def ordinal_name_def)
qed

section \<open>Removal removes everything within its bounds\<close>

function (sequential) node_entries :: "node \<Rightarrow> nat" where
  "node_entries (DirNode es) = length es + sum_list (map (\<lambda>e. node_entries (snd e)) es)"
| "node_entries _ = 0"
  by pat_completeness auto
termination
  by (relation "measure size") (auto simp: less_Suc_eq_le intro!: order.trans[OF _ size_list_estimation'])

function (sequential) node_height :: "node \<Rightarrow> nat" where
  "node_height (DirNode es) = Suc (fold max (map (\<lambda>e. node_height (snd e)) es) 0)"
| "node_height _ = 0"
  by pat_completeness auto
termination
  by (relation "measure size") (auto simp: less_Suc_eq_le intro!: order.trans[OF _ size_list_estimation'])

lemma fold_max_init: "n \<le> fold max xs (n :: nat)"
  by (induction xs arbitrary: n) (auto intro: order.trans[OF max.cobounded2])

lemma fold_max_ge: "x \<in> set xs \<Longrightarrow> x \<le> fold max xs (n :: nat)"
  by (induction xs arbitrary: n) (auto intro: order.trans[OF max.cobounded1 fold_max_init])

lemma remove_children_total:
  assumes "consumed + sum_list (map (\<lambda>e. node_entries (snd e)) es) \<le> MAX_LOCAL_ENTRIES"
    and "\<forall>e\<in>set es. depth + node_height (snd e) \<le> MAX_LOCAL_DEPTH"
  shows "remove_children depth consumed es =
    (None, [], consumed + sum_list (map (\<lambda>e. node_entries (snd e)) es))"
  using assms
proof (induction depth consumed es rule: remove_children.induct)
  case (2 depth consumed name es rest)
  have h: "\<forall>e\<in>set es. Suc depth + node_height (snd e) \<le> MAX_LOCAL_DEPTH"
  proof
    fix e assume "e \<in> set es"
    then have "node_height (snd e) \<le> fold max (map (\<lambda>e. node_height (snd e)) es) 0"
      by (intro fold_max_ge) auto
    then show "Suc depth + node_height (snd e) \<le> MAX_LOCAL_DEPTH"
      using "2.prems"(2) by simp
  qed
  have d: "\<not> MAX_LOCAL_DEPTH \<le> depth" "\<not> MAX_LOCAL_ENTRIES - consumed < length es"
    using "2.prems" by auto
  then have c: "remove_children (Suc depth) (consumed + length es) es =
      (None, [], consumed + length es + sum_list (map (\<lambda>e. node_entries (snd e)) es))"
    using "2.prems" h by (intro "2.IH"(1)) auto
  then show ?case
    using d "2.IH"(2)[OF d c[symmetric] refl refl] "2.prems" by (simp add: add.assoc)
qed auto

text \<open>A stage within the bounds of the cleanup, counting the names of the stages directory itself.\<close>

definition small_stage :: "directory \<Rightarrow> bool" where
  "small_stage es \<longleftrightarrow> Suc (node_entries (DirNode es)) \<le> MAX_LOCAL_ENTRIES \<and> node_height (DirNode es) < MAX_LOCAL_DEPTH"

lemma remove_stage:
  assumes "small_stage es" and "validate_component name = Inr ()"
  shows "\<exists>n. remove_tree [(name, DirNode es)] name 1 = (Inr n, [])"
proof -
  have h: "\<forall>e\<in>set es. 1 + node_height (snd e) \<le> MAX_LOCAL_DEPTH"
  proof
    fix e assume "e \<in> set es"
    then have "node_height (snd e) \<le> fold max (map (\<lambda>e. node_height (snd e)) es) 0"
      by (intro fold_max_ge) auto
    then show "1 + node_height (snd e) \<le> MAX_LOCAL_DEPTH"
      using assms(1) by (simp add: small_stage_def)
  qed
  have "remove_children 1 (1 + length es) es =
      (None, [], 1 + length es + sum_list (map (\<lambda>e. node_entries (snd e)) es))"
    using assms(1) h by (intro remove_children_total) (auto simp: small_stage_def)
  then show ?thesis
    using assms by (auto simp: remove_tree_def dir_kind_def open_dir_def small_stage_def)
qed

text \<open>The stages directory holds at most one small stage.\<close>

definition small_stages :: "string \<Rightarrow> directory \<Rightarrow> bool" where
  "small_stages name d \<longleftrightarrow> d = [] \<or> (\<exists>es. d = [(name, DirNode es)] \<and> small_stage es)"

lemma tx_remove_stage:
  assumes "small_stage es" "validate_component name = Inr ()"
  shows "runs (\<lambda>d. d = D\<lparr>stages_dir := [(name, DirNode es)]\<rparr>) (tx_remove_tree name 1)
    (\<lambda>_ d. d = D\<lparr>stages_dir := []\<rparr>) E"
  using remove_stage[OF assms] by (auto simp: runs_def tx_remove_tree_def)

lemma clean_unprepared_stages_small:
  assumes "small_stages name (stages_dir D)" "validate_component name = Inr ()"
  shows "runs (\<lambda>d. d = D) clean_unprepared_stages (\<lambda>_ d. d = D\<lparr>stages_dir := []\<rparr>) E"
proof (cases "stages_dir D = []")
  case True
  then show ?thesis
    by (cases D) (auto simp: runs_def clean_unprepared_stages_def tx_bind_def tx_read_def bounded_names_def
        bt_keys_def tx_return_def)
next
  case False
  then obtain es where es: "stages_dir D = [(name, DirNode es)]" "small_stage es"
    using assms(1) by (auto simp: small_stages_def)
  obtain n where n: "remove_tree [(name, DirNode es)] name 1 = (Inr n, [])"
    using remove_stage[OF es(2) assms(2)] by blast
  have "\<not> MAX_LOCAL_ENTRIES < Suc 0"
    by (simp add: MAX_LOCAL_ENTRIES_def)
  then show ?thesis
    using es(1) n by (auto simp: runs_def clean_unprepared_stages_def tx_bind_def tx_read_def bounded_names_def
        bt_keys_def tx_return_def tx_remove_tree_def)
qed

section \<open>What staging leaves\<close>

definition staged_records_dir :: "prepared_batch \<Rightarrow> nat \<Rightarrow> directory" where
  "staged_records_dir p i =
     bt_of_list (map (\<lambda>k. (ordinal_name k, FileNode private_mode (pr_bytes (pb_records p ! k)))) [0..<i])"

definition staged_dir :: "prepared_batch \<Rightarrow> bytes \<Rightarrow> directory" where
  "staged_dir p jb =
     [(''journal.tmp'', FileNode private_mode jb),
      (''manifest.json'', FileNode private_mode (pb_manifest_bytes p)),
      (''records'', DirNode (staged_records_dir p (length (pb_records p))))]"

definition batch_name :: "ext \<Rightarrow> prepared_batch \<Rightarrow> string" where
  "batch_name X p = uuid_to_string X (bm_batch (pb_manifest p))"

definition unjournaled :: "ext \<Rightarrow> prepared_batch \<Rightarrow> store_dirs \<Rightarrow> store_dirs \<Rightarrow> bool" where
  "unjournaled X p D d \<longleftrightarrow> (\<exists>es. d = D\<lparr>stages_dir := es\<rparr> \<and> small_stages (batch_name X p) es)"

definition journaled_dirs :: "ext \<Rightarrow> prepared_batch \<Rightarrow> bytes \<Rightarrow> store_dirs \<Rightarrow> store_dirs" where
  "journaled_dirs X p jb D =
     D\<lparr>stages_dir := [(batch_name X p, DirNode (staged_dir p jb))],
       recovery_dir := [(journal_name X (bm_batch (pb_manifest p)), FileNode private_mode jb)]\<rparr>"

lemma staged_records_dir_Suc:
  "staged_records_dir p (Suc i) =
     bt_insert (ordinal_name i) (FileNode private_mode (pr_bytes (pb_records p ! i))) (staged_records_dir p i)"
  by (simp add: staged_records_dir_def bt_of_list_def)

lemma staged_records_dir_props:
  shows "bt_get (staged_records_dir p n) (ordinal_name i) =
      (if i < n then Some (FileNode private_mode (pr_bytes (pb_records p ! i))) else None)"
    and "set (bt_keys (staged_records_dir p n)) = ordinal_name ` {0..<n}"
    and "length (staged_records_dir p n) = n"
    and "bt_wf (staged_records_dir p n)"
    and "\<forall>e\<in>set (staged_records_dir p n). \<exists>bs. snd e = FileNode private_mode bs"
proof -
  let ?kvs = "map (\<lambda>k. (ordinal_name k, FileNode private_mode (pr_bytes (pb_records p ! k)))) [0..<n]"
  have d: "distinct (map fst ?kvs)"
    by (simp add: comp_def distinct_map inj_on_def ordinal_name_inj)
  show "set (bt_keys (staged_records_dir p n)) = ordinal_name ` {0..<n}"
    using set_bt_of_list[OF d] by (simp add: staged_records_dir_def bt_keys_def image_image)
  show "length (staged_records_dir p n) = n"
    using length_bt_of_list[OF d] by (simp add: staged_records_dir_def)
  show "bt_wf (staged_records_dir p n)"
    by (simp add: staged_records_dir_def bt_wf_of_list)
  show "\<forall>e\<in>set (staged_records_dir p n). \<exists>bs. snd e = FileNode private_mode bs"
    using set_bt_of_list[OF d] by (auto simp: staged_records_dir_def)
  show "bt_get (staged_records_dir p n) (ordinal_name i) =
      (if i < n then Some (FileNode private_mode (pr_bytes (pb_records p ! i))) else None)"
    using bt_get_of_list[OF d] d
    by (auto simp: staged_records_dir_def map_of_eq_None_iff map_of_eq_Some_iff ordinal_name_inj)
qed

lemma small_stage_records:
  assumes "i \<le> length (pb_records p)" "length (pb_records p) \<le> MAX_JOURNAL_MEMBERS"
    and "length fs \<le> 2" "\<forall>e\<in>set fs. \<exists>bs. snd e = FileNode private_mode bs"
  shows "small_stage (fs @ [(''records'', DirNode (staged_records_dir p i))])"
proof -
  have flat: "sum_list (map (\<lambda>e. node_entries (snd e)) es) = 0 \<and> fold max (map (\<lambda>e. node_height (snd e)) es) n = n"
    if "\<forall>e\<in>set es. \<exists>bs. snd e = FileNode private_mode bs" for es :: directory and n
    using that by (induction es arbitrary: n) (auto simp: max_def)
  show ?thesis
    using assms flat[OF assms(4)] flat[OF staged_records_dir_props(5)[of p i]]
    by (simp add: small_stage_def staged_records_dir_props(3) MAX_LOCAL_ENTRIES_def MAX_JOURNAL_MEMBERS_def
        MAX_LOCAL_DEPTH_def del: sum_list_eq_0_iff)
qed

lemma small_stage_Nil: "small_stage []"
  by (simp add: small_stage_def MAX_LOCAL_ENTRIES_def MAX_LOCAL_DEPTH_def MAX_JOURNAL_MEMBERS_def)

lemma small_staged_dir:
  "length (pb_records p) \<le> MAX_JOURNAL_MEMBERS \<Longrightarrow> small_stage (staged_dir p jb)"
  using small_stage_records[of "length (pb_records p)" p "[(''journal.tmp'', FileNode private_mode jb),
      (''manifest.json'', FileNode private_mode (pb_manifest_bytes p))]"]
  by (simp add: staged_dir_def)

lemma on_stage:
  assumes "validate_component name = Inr ()" and "f es = Inr es'"
  shows "runs (\<lambda>d. d = D\<lparr>stages_dir := [(name, DirNode es)]\<rparr>) (on_stages (in_dir name f))
    (\<lambda>_ d. d = D\<lparr>stages_dir := [(name, DirNode es')]\<rparr>) E"
  unfolding on_stages_def using assms
  by (intro runs_on_dir) (simp add: in_dir_eq)

lemma stage_batch_runs:
  assumes comp: "validate_component (batch_name X p) = Inr ()"
    "validate_component (journal_name X (bm_batch (pb_manifest p))) = Inr ()"
    and D: "stages_dir D = []" "recovery_dir D = []"
    and jb: "encode_journal J (stage_journal X p base) = Inr jb"
    and n: "length (pb_records p) \<le> MAX_JOURNAL_MEMBERS"
  shows "runs (\<lambda>d. d = D) (stage_batch X J bar p base) (\<lambda>_ d. d = journaled_dirs X p jb D)
    (\<lambda>e d. injected bar e \<and> (unjournaled X p D d \<or> d = journaled_dirs X p jb D))"
proof -
  let ?E = "\<lambda>e d. injected bar e \<and> (unjournaled X p D d \<or> d = journaled_dirs X p jb D)"
  let ?S = "\<lambda>es d. d = D\<lparr>stages_dir := [(batch_name X p, DirNode es)]\<rparr>"
  let ?n = "length (pb_records p)"
  let ?rec = "\<lambda>i. [(''records'', DirNode (staged_records_dir p i))]"
  let ?man = "(''manifest.json'', FileNode private_mode (pb_manifest_bytes p))"
  have hit: "runs (?S es) (hit bar pt) (\<lambda>_. ?S es) ?E" if "small_stage es" for es pt
    using that by (intro runs_hit) (auto simp: unjournaled_def small_stages_def)
  have small: "small_stage (?rec i)" if "i \<le> ?n" for i
    using small_stage_records[OF that n, of "[]"] by simp
  have small2: "small_stage (?man # ?rec ?n)"
    using small_stage_records[of ?n p "[?man]"] n by simp
  note step = on_stage[OF comp(1)]
  have mk: "runs (\<lambda>d. d = D) (on_stages (make_dir (batch_name X p))) (\<lambda>_. ?S []) ?E"
    unfolding on_stages_def using D comp by (intro runs_on_dir) (simp add: make_dir_fresh)
  have recs: "runs (?S []) (on_stages (in_dir (batch_name X p) (make_dir ''records''))) (\<lambda>_. ?S (?rec 0)) ?E"
    by (rule step) (simp add: make_dir_fresh plain_components staged_records_dir_def bt_of_list_def)
  let ?put = "\<lambda>(index, r). tx_then (on_stages (in_dir (batch_name X p) (in_dir ''records''
      (write_new_synced (ordinal_name index) (pr_bytes r))))) (hit bar RecordFile)"
  have loop: "runs (?S (?rec 0)) (tx_mapM ?put (enumerate 0 (pb_records p))) (\<lambda>_. ?S (?rec ?n)) ?E"
  proof -
    have "runs (?S (?rec i)) (?put (enumerate 0 (pb_records p) ! i)) (\<lambda>_. ?S (?rec (Suc i))) ?E"
      if i: "i < ?n" for i
    proof -
      have "in_dir ''records'' (write_new_synced (ordinal_name i) (pr_bytes (pb_records p ! i))) (?rec i) =
          Inr (?rec (Suc i))"
        by (subst in_dir_eq[where es = "staged_records_dir p i"])
          (auto simp: plain_components write_new_synced_fresh ordinal_component staged_records_dir_props
            staged_records_dir_Suc)
      then show ?thesis
        using i by (auto simp: nth_enumerate_eq intro!: runs_then[OF step] hit small)
    qed
    from runs_mapM[of "enumerate 0 (pb_records p)" "\<lambda>i. ?S (?rec i)" ?put ?E] this show ?thesis
      by simp
  qed
  have man: "runs (?S (?rec ?n)) (on_stages (in_dir (batch_name X p)
      (write_new_synced ''manifest.json'' (pb_manifest_bytes p)))) (\<lambda>_. ?S (?man # ?rec ?n)) ?E"
    by (rule step) (simp add: write_new_synced_fresh plain_components)
  have jrn: "runs (?S (?man # ?rec ?n)) (on_stages (in_dir (batch_name X p)
      (write_new_synced ''journal.tmp'' jb))) (\<lambda>_. ?S (staged_dir p jb)) ?E"
    by (rule step) (simp add: write_new_synced_fresh plain_components staged_dir_def)
  have lnk: "runs (?S (staged_dir p jb)) (on_recovery (link_fd_no_clobber (private_mode, jb)
      (journal_name X (bm_batch (pb_manifest p))) jb)) (\<lambda>_ d. d = journaled_dirs X p jb D) ?E"
    unfolding on_recovery_def using comp D
    by (intro runs_on_dir) (simp add: link_fd_no_clobber_def journaled_dirs_def)
  have enc: "runs (?S (?man # ?rec ?n)) (tx_read (\<lambda>_. encode_journal J (stage_journal X p base)))
      (\<lambda>bs d. bs = jb \<and> ?S (?man # ?rec ?n) d) ?E"
    using jb by (intro runs_read) simp
  have last: "runs (\<lambda>d. d = journaled_dirs X p jb D) (hit bar JournalPublished)
      (\<lambda>_ d. d = journaled_dirs X p jb D) ?E"
    by (rule runs_hit) simp
  have tail: "runs (\<lambda>d. bs = jb \<and> ?S (?man # ?rec ?n) d)
      (tx_then (on_stages (in_dir (batch_name X p) (write_new_synced ''journal.tmp'' bs))) (
       tx_then (hit bar JournalFile) (tx_then (hit bar StageJournal) (
       tx_then (on_recovery (link_fd_no_clobber (private_mode, bs)
          (journal_name X (bm_batch (pb_manifest p))) bs)) (hit bar JournalPublished)))))
      (\<lambda>_ d. d = journaled_dirs X p jb D) ?E" for bs
  proof (cases "bs = jb")
    case True
    then show ?thesis
      using small_staged_dir[OF n, of jb] jrn lnk last by (auto intro!: runs_then hit)
  qed (simp add: runs_def)
  show ?thesis
    unfolding stage_batch_def Let_def batch_name_def[symmetric]
    by (intro runs_then[OF mk] runs_then[OF hit[OF small_stage_Nil]] runs_then[OF recs]
        runs_then[OF hit[OF small[OF le0]]] runs_then[OF loop] runs_then[OF hit[OF small[OF order_refl]]]
        runs_then[OF man] runs_then[OF hit[OF small2]] runs_bind[OF enc] tail)
qed

section \<open>Ready batches\<close>

text \<open>The hyphenated text of a UUID is a file name.\<close>

definition uuid_component :: "ext \<Rightarrow> bool" where
  "uuid_component X \<longleftrightarrow> (\<forall>u. validate_component (uuid_hyphenated X u) = Inr ())"

definition tx_laws :: "ext \<Rightarrow> journal_ext \<Rightarrow> bool" where
  "tx_laws X J \<longleftrightarrow> batch_laws X \<and> uuid_component X \<and> journal_roundtrip J"

lemma component_json: "validate_component s = Inr () \<Longrightarrow> validate_component (s @ ''.json'') = Inr ()"
  by (auto simp: validate_component_def split: if_splits)

lemma tx_components:
  assumes "uuid_component X"
  shows "validate_component (uuid_to_string X u) = Inr ()" "validate_component (journal_name X u) = Inr ()"
  using assms by (simp_all add: uuid_component_def uuid_to_string_def journal_name_def component_json)

text \<open>What the transaction relies on in a prepared batch.\<close>

definition batch_ready :: "ext \<Rightarrow> domain_registry \<Rightarrow> prepared_batch \<Rightarrow> bool" where
  "batch_ready X R p \<longleftrightarrow>
     pb_records p \<noteq> [] \<and> strictly_ordered (map pr_path (pb_records p)) \<and>
     (\<forall>r\<in>set (pb_records p). decode_record X (pr_bytes r) R = Inr (pr_record r) \<and>
        record_canonical_path X (pr_record r) = pr_path r) \<and>
     decode_batch_manifest X (pb_manifest_bytes p) = Inr (pb_manifest p) \<and>
     pb_manifest_path p = manifest_canonical_path X (pb_manifest p) \<and> v7_ok X (bm_batch (pb_manifest p)) \<and>
     length (bm_members (pb_manifest p)) = length (pb_records p) \<and>
     validate_batch_members X (pb_manifest p)
       (map (\<lambda>r. \<lparr>sm_path = pr_path r, sm_bytes = pr_bytes r\<rparr>) (pb_records p)) R =
       Inr (map pr_record (pb_records p))"

lemma prepare_batch_ready:
  assumes "prepare_batch X rs key R = Inr p" and "batch_laws X" and "registry_wf R"
    and "\<forall>r\<in>set rs. record_readable X r"
  shows "batch_ready X R p"
proof -
  obtain b a where p: "rs \<noteq> []" "preparable X R b a rs" "pb_records p = bt_values (prepared_map X R rs)"
      "pb_manifest p = manifest_of X b a key (pb_records p)"
      "encode_manifest X (pb_manifest p) = Inr (pb_manifest_bytes p)"
      "pb_manifest_path p = manifest_canonical_path X (pb_manifest p)"
    using assms(1) by (auto simp: prepare_batch_Inr)
  have ok: "\<forall>r\<in>set rs. record_ok X r"
    using assms(4) by (simp add: record_readable_def)
  note sp = prepared_map_spec[OF assms(2) ok p(2)]
  note rd = prepared_manifest_readable[OF assms(2,3) ok p(2,1), of key]
  have "decode_record X (pr_bytes q) R = Inr (pr_record q) \<and> record_canonical_path X (pr_record q) = pr_path q"
    if q: "q \<in> set (pb_records p)" for q
  proof -
    obtain r where r: "r \<in> set rs" "q = prepared X R r" using q sp(2) p(3) by auto
    then obtain bs where e: "encode_record X r R = Inr bs"
      using p(2) by (auto simp: preparable_def is_ok_iff)
    then have "decode_record X bs R = Inr r"
      using assms(4) r encode_record_readable by blast
    then show ?thesis
      using r e by (simp add: prepared_def)
  qed
  moreover have "decode_batch_manifest X (pb_manifest_bytes p) = Inr (pb_manifest p)"
    using encode_manifest_readable rd p by simp
  moreover have "v7_ok X (bm_batch (pb_manifest p))"
    using rd p by (simp add: manifest_readable_def manifest_ok_def)
  moreover have "pb_records p \<noteq> []"
    using sp(3) p(1,3) by auto
  ultimately show ?thesis
    using prepared_members_validate[OF assms(2,4) p(2), of key] sp(4) p
    by (simp add: batch_ready_def manifest_of_def)
qed

definition loaded_batch :: "ext \<Rightarrow> prepared_batch \<Rightarrow> store_revision_ref \<Rightarrow> staged_batch" where
  "loaded_batch X p base =
     \<lparr>st_journal = \<lparr>jn_base = base, jn_batch_id = bm_batch (pb_manifest p),
        jn_manifest_hash = manifest_hash X (pb_manifest_bytes p), jn_member_count = length (pb_records p)\<rparr>,
      st_manifest = pb_manifest p, st_manifest_mode = private_mode, st_manifest_bytes = pb_manifest_bytes p,
      st_records = map (\<lambda>r. \<lparr>sg_mode = private_mode, sg_target = pr_path r, sg_bytes = pr_bytes r\<rparr>) (pb_records p)\<rparr>"

lemma staged_files_loaded: "batch_ready X R p \<Longrightarrow> staged_files X (loaded_batch X p base) = prepared_files p"
  by (simp add: staged_files_def loaded_batch_def prepared_files_def batch_ready_def)

lemma algorithm_roundtrip: "algorithm_from_str (algorithm_as_str a) = Inr a"
  by (cases a) (simp_all add: algorithm_from_str_def REVISION_ALGORITHM_V1_def LEGACY_REVISION_ALGORITHM_V1_def)

lemma decode_staged_journal:
  assumes "tx_laws X J" and "batch_ready X R p" and "length (sr_digest base) = 32"
    and "encode_journal J (stage_journal X p base) = Inr jb"
    and "length (pb_records p) \<le> MAX_JOURNAL_MEMBERS"
  shows "decode_journal X J jb = Inr (st_journal (loaded_batch X p base))" and "length jb \<le> MAX_JOURNAL_BYTES"
proof -
  have enc: "journal_to_vec J (stage_journal X p base) = Some jb" "length jb \<le> MAX_JOURNAL_BYTES"
    using assms(4) by (auto simp: encode_journal_def result_simps)
  then show "length jb \<le> MAX_JOURNAL_BYTES" by simp
  have "journal_from_slice J jb = Some (stage_journal X p base)"
    using assms(1) enc by (simp add: tx_laws_def journal_roundtrip_def)
  moreover have "store_revision_parse X (algorithm_as_str (sr_algorithm base)) (digest_to_string X (sr_digest base)) = Inr base"
    using assms(1,3) digest_parse_to_string[of X "sr_digest base"]
    by (simp add: store_revision_parse_def algorithm_roundtrip tx_laws_def batch_laws_def)
  moreover have "batch_id_from_str X (uuid_to_string X (bm_batch (pb_manifest p))) = Inr (bm_batch (pb_manifest p))"
    using assms(1,2) by (simp add: batch_id_from_str_def parse_uuid_to_string tx_laws_def batch_laws_def batch_ready_def)
  moreover have "pb_records p \<noteq> []"
    using assms(2) by (simp add: batch_ready_def)
  ultimately show "decode_journal X J jb = Inr (st_journal (loaded_batch X p base))"
    using enc assms(4,5) by (simp add: decode_journal_def stage_journal_def loaded_batch_def)
qed

lemma no_equal_neighbours: "strictly_ordered (map sg_target rs) \<Longrightarrow> \<not> equal_neighbours rs"
  by (induction rs rule: equal_neighbours.induct) auto

lemma decode_manifest_bounded: "decode_batch_manifest X bs = Inr m \<Longrightarrow> length bs \<le> MAX_BATCH_BYTES"
  by (auto simp: decode_batch_manifest_def split: if_splits)

lemma decode_record_bounded: "decode_record X bs R = Inr r \<Longrightarrow> length bs \<le> MAX_RECORD_BYTES"
  by (simp add: decode_record_Inr encode_record_Inr)

lemma load_staged_journaled:
  assumes laws: "tx_laws X J" and ready: "batch_ready X R p" and base: "length (sr_digest base) = 32"
    and jb: "encode_journal J (stage_journal X p base) = Inr jb"
    and n: "length (pb_records p) \<le> MAX_JOURNAL_MEMBERS"
    and d: "stages_dir d = stages_dir (journaled_dirs X p jb D)" "recovery_dir d = recovery_dir (journaled_dirs X p jb D)"
  shows "load_staged X J R d (bm_batch (pb_manifest p)) = Inr (loaded_batch X p base)"
proof -
  let ?n = "length (pb_records p)" and ?rd = "staged_records_dir p (length (pb_records p))"
  have comp: "validate_component (batch_name X p) = Inr ()"
      "validate_component (journal_name X (bm_batch (pb_manifest p))) = Inr ()"
    using laws tx_components by (simp_all add: tx_laws_def batch_name_def)
  note dj = decode_staged_journal[OF laws ready base jb n]
  have r: "decode_batch_manifest X (pb_manifest_bytes p) = Inr (pb_manifest p)"
      "length (bm_members (pb_manifest p)) = ?n" "strictly_ordered (map pr_path (pb_records p))"
      "validate_batch_members X (pb_manifest p)
       (map (\<lambda>r. \<lparr>sm_path = pr_path r, sm_bytes = pr_bytes r\<rparr>) (pb_records p)) R =
       Inr (map pr_record (pb_records p))"
    using ready by (simp_all add: batch_ready_def)
  have root: "validate_stage_root (staged_dir p jb) = Inr ()"
    by (simp add: validate_stage_root_def bounded_names_def staged_dir_def bt_keys_def MAX_LOCAL_ENTRIES_def
        dir_kind_def plain_components bs_of_list_def)
  have ords: "validate_ordinals ?rd ?n = Inr ()"
  proof -
    have "bs_of_list (sort (bt_keys ?rd)) = bs_of_list (map ordinal_name [0..<?n])"
      using strictly_ordered_unique[of "bs_of_list (sort (bt_keys ?rd))" "bs_of_list (map ordinal_name [0..<?n])"]
        staged_records_dir_props(2)[of p ?n] by (simp add: order_simps ordered_bs_of_list)
    then show ?thesis
      using n staged_records_dir_props(3)[of p ?n]
      by (simp add: validate_ordinals_def bounded_names_def MAX_LOCAL_ENTRIES_def)
  qed
  have "load_record X R ?rd i = Inr \<lparr>sg_mode = private_mode, sg_target = pr_path (pb_records p ! i),
      sg_bytes = pr_bytes (pb_records p ! i)\<rparr>" if "i < ?n" for i
  proof -
    have "decode_record X (pr_bytes (pb_records p ! i)) R = Inr (pr_record (pb_records p ! i))"
        "record_canonical_path X (pr_record (pb_records p ! i)) = pr_path (pb_records p ! i)"
      using ready that by (auto simp: batch_ready_def)
    then show ?thesis
      using that bounded_regular_file[OF ordinal_component staged_records_dir_props(1)[of p ?n i, simplified that if_True]
          decode_record_bounded]
      by (simp add: load_record_def)
  qed
  then have "try_map (load_record X R ?rd) [0..<?n] = Inr (map (\<lambda>i. \<lparr>sg_mode = private_mode,
      sg_target = pr_path (pb_records p ! i), sg_bytes = pr_bytes (pb_records p ! i)\<rparr>) [0..<?n])"
    by (intro try_map_total) simp
  moreover have "map (\<lambda>i. \<lparr>sg_mode = private_mode, sg_target = pr_path (pb_records p ! i),
      sg_bytes = pr_bytes (pb_records p ! i)\<rparr>) [0..<?n] = st_records (loaded_batch X p base)"
    by (rule nth_equalityI) (simp_all add: loaded_batch_def)
  ultimately have loads: "try_map (load_record X R ?rd) [0..<?n] = Inr (st_records (loaded_batch X p base))"
    by simp
  have sorted: "sort_key sg_target (st_records (loaded_batch X p base)) = st_records (loaded_batch X p base)"
      "\<not> equal_neighbours (st_records (loaded_batch X p base))"
    using r(3) by (auto simp: loaded_batch_def comp_def order_simps strict_sorted_iff
        intro!: sort_key_id_if_sorted no_equal_neighbours)
  have files: "bounded_regular (staged_dir p jb) ''journal.tmp'' MAX_JOURNAL_BYTES = Inr (private_mode, jb)"
      "bounded_regular (staged_dir p jb) ''manifest.json'' MAX_BATCH_BYTES = Inr (private_mode, pb_manifest_bytes p)"
      "open_dir (staged_dir p jb) ''records'' = Inr ?rd"
    using dj(2) decode_manifest_bounded[OF r(1)]
    by (auto intro!: bounded_regular_file simp: plain_components staged_dir_def open_dir_def)
  have jfile: "bounded_regular (recovery_dir d) (journal_name X (bm_batch (pb_manifest p))) MAX_JOURNAL_BYTES =
      Inr (private_mode, jb)"
    using d(2) dj(2) comp(2) by (intro bounded_regular_file) (simp_all add: journaled_dirs_def)
  have stage: "open_dir (stages_dir d) (uuid_to_string X (bm_batch (pb_manifest p))) = Inr (staged_dir p jb)"
    using d(1) comp(1) by (simp add: open_dir_def journaled_dirs_def batch_name_def)
  have j: "jn_batch_id (st_journal (loaded_batch X p base)) = bm_batch (pb_manifest p)"
      "jn_manifest_hash (st_journal (loaded_batch X p base)) = manifest_hash X (pb_manifest_bytes p)"
      "jn_member_count (st_journal (loaded_batch X p base)) = ?n"
    by (simp_all add: loaded_batch_def)
  show ?thesis
    using jfile dj(1) j stage root files r(1,2,4) ords loads sorted
    by (simp add: load_staged_def Let_def) (simp add: loaded_batch_def comp_def)
qed

end
