(* ===== verification/Wj_Checkpoint.thy ===== *)
theory Wj_Checkpoint
  imports Wj_Federation Wj_Transaction
begin

text \<open>
  \<open>federation/checkpoint.rs\<close>: the admission checkpoint of a store, its wire document, and the file
  that holds it. The file is replaced by writing a temporary file and renaming it; a temporary file
  left by a crash is removed by the next reader. The operations act on the checkpoints directory.
\<close>

section \<open>The wire document\<close>

definition ADMISSION_CHECKPOINT_FILENAME :: string where "ADMISSION_CHECKPOINT_FILENAME = ''admission-v1.json''"
definition MAX_ADMISSION_CHECKPOINT_BYTES :: nat where "MAX_ADMISSION_CHECKPOINT_BYTES = 8 * 1024"
definition CHECKPOINT_SCHEMA :: string where "CHECKPOINT_SCHEMA = ''wayjournal.admission-checkpoint/v1''"

text \<open>\<open>CkExit\<close> is the termination of the process at a fault point, which is not an error value.\<close>

datatype checkpoint_error =
    CkStore store_error
  | CkOversized
  | CkInvalid
  | ExpectedOldMismatch
  | ReplacementMismatch
  | CkInjectedCrash nat
  | CkExit string

record raw_checkpoint =
  rc_commit :: string
  rc_format :: git_object_format
  rc_algorithm :: string
  rc_revision :: string
  rc_fingerprint :: string
  rc_trust :: string
  rc_locator :: string
  rc_ref :: string
  rc_schema :: string
  rc_uuid :: string

definition raw_of_checkpoint :: "ext \<Rightarrow> admission_checkpoint \<Rightarrow> raw_checkpoint" where
  "raw_of_checkpoint X c =
     \<lparr>rc_commit = go_hex (ac_commit c), rc_format = go_format (ac_commit c),
      rc_algorithm = algorithm_as_str (sr_algorithm (ac_revision c)),
      rc_revision = digest_to_string X (sr_digest (ac_revision c)),
      rc_fingerprint = digest_to_string X (ls_fingerprint (ac_store c)),
      rc_trust = digest_to_string X (ac_trust c),
      rc_locator = ar_locator (ac_remote c), rc_ref = ar_reference (ac_remote c),
      rc_schema = CHECKPOINT_SCHEMA, rc_uuid = uuid_to_string X (ls_uuid (ac_store c))\<rparr>"

definition raw_checkpoint_values :: "raw_checkpoint \<Rightarrow> json list" where
  "raw_checkpoint_values r =
     [JString (rc_commit r), JString (git_format_as_str (rc_format r)), JString (rc_algorithm r),
      JString (rc_revision r), JString (rc_fingerprint r), JString (rc_trust r), JString (rc_locator r),
      JString (rc_ref r), JString (rc_schema r), JString (rc_uuid r)]"

definition checkpoint_fields :: "string list" where
  "checkpoint_fields =
     [''accepted_commit'', ''accepted_git_object_format'', ''accepted_revision_algorithm'',
      ''accepted_revision_digest'', ''genesis_fingerprint'', ''local_trust_binding'', ''remote_locator'',
      ''remote_ref'', ''schema'', ''store_uuid'']"

definition raw_checkpoint_to_value :: "raw_checkpoint \<Rightarrow> json" where
  "raw_checkpoint_to_value r = JObject (bt_of_list (zip checkpoint_fields (raw_checkpoint_values r)))"

definition raw_checkpoint_from_value :: "ext \<Rightarrow> json \<Rightarrow> raw_checkpoint option" where
  "raw_checkpoint_from_value X v =
     (case serde_fields X (map (\<lambda>f. (f, False)) checkpoint_fields) v of
        Some [Some c, Some f, Some a, Some d, Some g, Some t, Some l, Some r, Some s, Some u] \<Rightarrow>
          (case (de_string c, de_parse git_format_from_str f, de_string a, de_string d, de_string g,
                 de_string t, de_string l, de_string r, de_string s, de_string u) of
             (Some c, Some f, Some a, Some d, Some g, Some t, Some l, Some r, Some s, Some u) \<Rightarrow>
               Some \<lparr>rc_commit = c, rc_format = f, rc_algorithm = a, rc_revision = d, rc_fingerprint = g,
                     rc_trust = t, rc_locator = l, rc_ref = r, rc_schema = s, rc_uuid = u\<rparr>
           | _ \<Rightarrow> None)
      | _ \<Rightarrow> None)"

definition encode_exact :: "ext \<Rightarrow> admission_checkpoint \<Rightarrow> checkpoint_error + bytes" where
  "encode_exact X c =
     map_err (\<lambda>_. CkInvalid) (encode_pretty X (raw_checkpoint_to_value (raw_of_checkpoint X c)))"

definition encode_admission_checkpoint :: "ext \<Rightarrow> admission_checkpoint \<Rightarrow> checkpoint_error + bytes" where
  "encode_admission_checkpoint X c =
     rbind (encode_exact X c) (\<lambda>bs.
     if MAX_ADMISSION_CHECKPOINT_BYTES < length bs then Inl CkOversized else Inr bs)"

definition decode_exact :: "ext \<Rightarrow> (string \<Rightarrow> url option) \<Rightarrow> bytes \<Rightarrow> checkpoint_error + admission_checkpoint" where
  "decode_exact X U bs =
     rbind (map_err (\<lambda>_. CkInvalid) (decode_strict X bs)) (\<lambda>v.
     rbind (ok_or CkInvalid (raw_checkpoint_from_value X v)) (\<lambda>raw.
     if rc_schema raw \<noteq> CHECKPOINT_SCHEMA then Inl CkInvalid
     else rbind (map_err (\<lambda>_. CkInvalid) (encode_pretty X v)) (\<lambda>canonical.
     if canonical \<noteq> bs then Inl CkInvalid
     else
       rbind (map_err (\<lambda>_. CkInvalid) (store_uuid_from_str X (rc_uuid raw))) (\<lambda>u.
       rbind (map_err (\<lambda>_. CkInvalid) (digest_parse X (rc_fingerprint raw))) (\<lambda>g.
       rbind (map_err (\<lambda>_. CkInvalid) (git_oid_parse (rc_format raw) (rc_commit raw))) (\<lambda>commit.
       rbind (map_err (\<lambda>_. CkInvalid) (store_revision_parse X (rc_algorithm raw) (rc_revision raw))) (\<lambda>revision.
       rbind (map_err (\<lambda>_. CkInvalid) (local_trust_parse X (rc_trust raw))) (\<lambda>trust.
       rbind (map_err (\<lambda>_. CkInvalid) (approved_locator_parse U (rc_locator raw))) (\<lambda>locator.
       rbind (map_err (\<lambda>_. CkInvalid) (approved_ref_parse (rc_ref raw))) (\<lambda>reference.
       Inr \<lparr>ac_store = \<lparr>ls_uuid = u, ls_fingerprint = g\<rparr>, ac_trust = trust,
             ac_remote = \<lparr>ar_locator = locator, ar_reference = reference\<rparr>,
             ac_commit = commit, ac_revision = revision\<rparr>))))))))))"

definition decode_admission_checkpoint ::
  "ext \<Rightarrow> (string \<Rightarrow> url option) \<Rightarrow> bytes \<Rightarrow> checkpoint_error + admission_checkpoint" where
  "decode_admission_checkpoint X U bs =
     (if MAX_ADMISSION_CHECKPOINT_BYTES < length bs then Inl CkOversized else decode_exact X U bs)"

section \<open>The checkpoint file\<close>

text \<open>An operation returns its result and the directory it leaves, also when it fails.\<close>

type_synonym 'a ck = "directory \<Rightarrow> (checkpoint_error + 'a) \<times> directory"

definition ck_bind :: "'a ck \<Rightarrow> ('a \<Rightarrow> 'b ck) \<Rightarrow> 'b ck" where
  "ck_bind m f = (\<lambda>d. case m d of (Inl e, d) \<Rightarrow> (Inl e, d) | (Inr x, d) \<Rightarrow> f x d)"

definition ck_return :: "'a \<Rightarrow> 'a ck" where "ck_return x = (\<lambda>d. (Inr x, d))"

definition ck_fail :: "checkpoint_error \<Rightarrow> 'a ck" where "ck_fail e = (\<lambda>d. (Inl e, d))"

definition ck_read :: "(directory \<Rightarrow> checkpoint_error + 'a) \<Rightarrow> 'a ck" where
  "ck_read f = (\<lambda>d. (f d, d))"

definition ck_step :: "(directory \<Rightarrow> store_error + directory) \<Rightarrow> unit ck" where
  "ck_step f = (\<lambda>d. case f d of Inl e \<Rightarrow> (Inl (CkStore e), d) | Inr d \<Rightarrow> (Inr (), d))"

definition require_private_mode :: "nat \<Rightarrow> checkpoint_error + unit" where
  "require_private_mode mode = (if mode mod 512 \<noteq> private_mode then Inl CkInvalid else Inr ())"

definition temporary_prefix :: string where
  "temporary_prefix = ''.'' @ ADMISSION_CHECKPOINT_FILENAME @ ''.tmp-''"

fun find_temporary ::
  "ext \<Rightarrow> directory \<Rightarrow> string option \<Rightarrow> string list \<Rightarrow> checkpoint_error + string option" where
  "find_temporary X d temporary [] = Inr temporary"
| "find_temporary X d temporary (name # names) =
     (if name = ADMISSION_CHECKPOINT_FILENAME then
        rbind (map_err CkStore (dir_kind d name)) (\<lambda>k.
        if k \<noteq> RegularFile then Inl CkInvalid else find_temporary X d temporary names)
      else if \<not> is_str name then Inl CkInvalid
      else if \<not> starts_with name temporary_prefix then Inl CkInvalid
      else case uuid_parse_str X (drop (length temporary_prefix) name) of
        None \<Rightarrow> Inl CkInvalid
      | Some u \<Rightarrow>
          if uuid_version_num X u \<noteq> 7 \<or> \<not> uuid_is_rfc4122 X u \<or> temporary \<noteq> None then Inl CkInvalid
          else rbind (map_err CkStore (dir_kind d name)) (\<lambda>k.
          if k \<noteq> RegularFile then Inl CkInvalid
          else rbind (map_err CkStore (open_file d name)) (\<lambda>(mode, content).
          rbind (require_private_mode mode) (\<lambda>_.
          if MAX_ADMISSION_CHECKPOINT_BYTES < length content then Inl CkOversized
          else find_temporary X d (Some name) names))))"

definition recover_residue :: "ext \<Rightarrow> unit ck" where
  "recover_residue X =
     ck_bind (ck_read (\<lambda>d. rbind (map_err CkStore (bounded_names d 4)) (find_temporary X d None))) (\<lambda>temporary.
     case temporary of
       None \<Rightarrow> ck_return ()
     | Some name \<Rightarrow> ck_step (\<lambda>d. unlink_file d name))"

text \<open>The checks on an open checkpoint file and its bounded read.\<close>

definition checkpoint_bytes :: "nat \<times> bytes \<Rightarrow> checkpoint_error + bytes" where
  "checkpoint_bytes = (\<lambda>(mode, content).
     rbind (require_private_mode mode) (\<lambda>_.
     if MAX_ADMISSION_CHECKPOINT_BYTES < length content then Inl CkOversized
     else let bs = take (MAX_ADMISSION_CHECKPOINT_BYTES + 1) content in
       if MAX_ADMISSION_CHECKPOINT_BYTES < length bs then Inl CkOversized else Inr bs))"

definition read_checkpoint :: "ext \<Rightarrow> (string \<Rightarrow> url option) \<Rightarrow> admission_checkpoint option ck" where
  "read_checkpoint X U =
     ck_bind (recover_residue X) (\<lambda>_. ck_read (\<lambda>d.
     case open_file d ADMISSION_CHECKPOINT_FILENAME of
       Inl (StoreIo IoNotFound) \<Rightarrow> Inr None
     | Inl e \<Rightarrow> Inl (CkStore e)
     | Inr f \<Rightarrow>
         rbind (checkpoint_bytes f) (\<lambda>bs.
         rbind (decode_admission_checkpoint X U bs) (\<lambda>c. Inr (Some c)))))"

definition read_current_bytes :: "directory \<Rightarrow> checkpoint_error + bytes" where
  "read_current_bytes d =
     rbind (map_err CkStore (open_file d ADMISSION_CHECKPOINT_FILENAME)) checkpoint_bytes"

text \<open>\<open>now_v7\<close> is a fresh UUID of the \<open>uuid\<close> crate, an argument here.\<close>

definition temporary_name :: "ext \<Rightarrow> uuid \<Rightarrow> string" where
  "temporary_name X now_v7 = temporary_prefix @ uuid_to_string X now_v7"

definition ck_barrier :: "(nat \<Rightarrow> bool) \<Rightarrow> nat \<Rightarrow> unit ck" where
  "ck_barrier bar n = (if bar n then ck_fail (CkInjectedCrash n) else ck_return ())"

definition write_impl ::
  "ext \<Rightarrow> uuid \<Rightarrow> (nat \<Rightarrow> bool) \<Rightarrow> admission_checkpoint \<Rightarrow> unit ck" where
  "write_impl X now_v7 bar c =
     (let name = temporary_name X now_v7 in
      ck_bind (ck_read (\<lambda>_. encode_admission_checkpoint X c)) (\<lambda>bs.
      ck_bind (ck_step (\<lambda>d. create_file d name)) (\<lambda>_.
      ck_bind (ck_step (\<lambda>d. Inr (write_all d name bs))) (\<lambda>_.
      ck_bind (ck_barrier bar 0) (\<lambda>_.
      ck_bind (ck_barrier bar 1) (\<lambda>_.
      ck_bind (ck_step (\<lambda>d. rename_file d name ADMISSION_CHECKPOINT_FILENAME)) (\<lambda>_.
      ck_bind (ck_barrier bar 2) (\<lambda>_.
      ck_barrier bar 3))))))))"

definition fault_hit :: "(string \<Rightarrow> bool) \<Rightarrow> string \<Rightarrow> unit ck" where
  "fault_hit fault point = (if fault point then ck_fail (CkExit point) else ck_return ())"

definition replace_expected ::
  "ext \<Rightarrow> (string \<Rightarrow> url option) \<Rightarrow> uuid \<Rightarrow> (string \<Rightarrow> bool) \<Rightarrow>
   admission_checkpoint \<Rightarrow> admission_checkpoint \<Rightarrow> unit ck" where
  "replace_expected X U now_v7 fault expected candidate =
     ck_bind (ck_read (\<lambda>_. encode_admission_checkpoint X expected)) (\<lambda>expected_bytes.
     ck_bind (ck_read (\<lambda>_. encode_admission_checkpoint X candidate)) (\<lambda>candidate_bytes.
     ck_bind (ck_read read_current_bytes) (\<lambda>current.
     if current = candidate_bytes then
       ck_bind (ck_read (\<lambda>_. decode_admission_checkpoint X U current)) (\<lambda>_. ck_return ())
     else if current \<noteq> expected_bytes then ck_fail ExpectedOldMismatch
     else
       let name = temporary_name X now_v7 in
       ck_bind (ck_step (\<lambda>d. create_file d name)) (\<lambda>_.
       ck_bind (ck_step (\<lambda>d. Inr (write_all d name candidate_bytes))) (\<lambda>_.
       ck_bind (fault_hit fault ''checkpoint-temporary-durable'') (\<lambda>_.
       ck_bind (ck_read read_current_bytes) (\<lambda>again.
       if again \<noteq> expected_bytes then
         ck_bind (ck_step (\<lambda>d. unlink_file d name)) (\<lambda>_. ck_fail ExpectedOldMismatch)
       else
         ck_bind (ck_step (\<lambda>d. rename_file d name ADMISSION_CHECKPOINT_FILENAME)) (\<lambda>_.
         ck_bind (fault_hit fault ''checkpoint-renamed'') (\<lambda>_.
         ck_bind (fault_hit fault ''checkpoint-parent-durable'') (\<lambda>_.
         ck_bind (ck_read read_current_bytes) (\<lambda>published.
         if published \<noteq> candidate_bytes then ck_fail ReplacementMismatch
         else ck_bind (ck_read (\<lambda>_. decode_admission_checkpoint X U published)) (\<lambda>c.
           if c \<noteq> candidate then ck_fail ReplacementMismatch else ck_return ()))))))))))))"

section \<open>The codec\<close>

definition checkpoint_ok :: "ext \<Rightarrow> (string \<Rightarrow> url option) \<Rightarrow> admission_checkpoint \<Rightarrow> bool" where
  "checkpoint_ok X U c \<longleftrightarrow>
     v7_ok X (ls_uuid (ac_store c)) \<and> length (ls_fingerprint (ac_store c)) = 32 \<and> length (ac_trust c) = 32 \<and>
     length (sr_digest (ac_revision c)) = 32 \<and>
     git_oid_parse (go_format (ac_commit c)) (go_hex (ac_commit c)) = Inr (ac_commit c) \<and>
     approved_locator_parse U (ar_locator (ac_remote c)) = Inr (ar_locator (ac_remote c)) \<and>
     approved_ref_parse (ar_reference (ac_remote c)) = Inr (ar_reference (ac_remote c))"

definition checkpoint_laws :: "ext \<Rightarrow> bool" where
  "checkpoint_laws X \<longleftrightarrow> uuid_roundtrip X \<and> hex_roundtrip X \<and> json_roundtrip X \<and> serde_object_law X"

lemma raw_value_eq: "raw_checkpoint_to_value r = JObject (zip checkpoint_fields (raw_checkpoint_values r))"
  by (simp add: raw_checkpoint_to_value_def checkpoint_fields_def raw_checkpoint_values_def bt_of_list_def less_char_def)

lemma good_raw_value: "good_json (raw_checkpoint_to_value r)"
  by (simp add: raw_value_eq checkpoint_fields_def raw_checkpoint_values_def less_char_def)

lemma raw_value_depth: "json_depth (raw_checkpoint_to_value r) \<le> json_limit"
  by (simp add: raw_value_eq checkpoint_fields_def raw_checkpoint_values_def json_limit_def)

lemma de_format: "de_parse git_format_from_str (JString (git_format_as_str f)) = Some f"
  by (simp add: de_parse_def de_string_def git_format_roundtrip)

lemma raw_from_object:
  assumes "serde_object_law X"
  shows "raw_checkpoint_from_value X (raw_checkpoint_to_value r) = Some r"
proof -
  have wf: "json_wf (JObject (zip checkpoint_fields (raw_checkpoint_values r)))"
    using good_raw_value[of r] by (simp add: good_json_def raw_value_eq)
  have "distinct (map fst (map (\<lambda>f. (f, False)) checkpoint_fields))"
    by (simp add: checkpoint_fields_def)
  then have "serde_fields X (map (\<lambda>f. (f, False)) checkpoint_fields) (raw_checkpoint_to_value r) =
      Some (map Some (raw_checkpoint_values r))"
    using assms wf unfolding serde_object_law_def raw_value_eq
    by (simp add: struct_of_object_def) (simp add: checkpoint_fields_def raw_checkpoint_values_def)
  then show ?thesis
    by (simp add: raw_checkpoint_from_value_def raw_checkpoint_values_def de_string_def de_format)
qed

lemma raw_from_array:
  assumes "serde_array_law X"
  shows "raw_checkpoint_from_value X (JArray (raw_checkpoint_values r)) = Some r"
proof -
  have "distinct (map fst (map (\<lambda>f. (f, False)) checkpoint_fields))"
    by (simp add: checkpoint_fields_def)
  then have "serde_fields X (map (\<lambda>f. (f, False)) checkpoint_fields) (JArray (raw_checkpoint_values r)) =
      Some (map Some (raw_checkpoint_values r))"
    using assms unfolding serde_array_law_def
    by (simp add: struct_of_array_def) (simp add: checkpoint_fields_def raw_checkpoint_values_def)
  then show ?thesis
    by (simp add: raw_checkpoint_from_value_def raw_checkpoint_values_def de_string_def de_format)
qed

lemma encode_checkpoint_Inr:
  "encode_admission_checkpoint X c = Inr bs \<longleftrightarrow>
   encode_pretty X (raw_checkpoint_to_value (raw_of_checkpoint X c)) = Inr bs \<and> length bs \<le> MAX_ADMISSION_CHECKPOINT_BYTES"
  by (auto simp: encode_admission_checkpoint_def encode_exact_def result_simps)

text \<open>Decoding of any document whose value has the fields of a well-formed checkpoint.\<close>

lemma decode_checkpoint_value:
  assumes "checkpoint_ok X U c" "uuid_roundtrip X" "hex_roundtrip X"
    and "decode_strict X bs = Inr v" "encode_pretty X v = Inr bs" "length bs \<le> MAX_ADMISSION_CHECKPOINT_BYTES"
    and "raw_checkpoint_from_value X v = Some (raw_of_checkpoint X c)"
  shows "decode_admission_checkpoint X U bs = Inr c"
proof -
  obtain u g t r oid rev where c: "c = \<lparr>ac_store = \<lparr>ls_uuid = u, ls_fingerprint = g\<rparr>, ac_trust = t,
      ac_remote = r, ac_commit = oid, ac_revision = rev\<rparr>"
    by (metis admission_checkpoint.surjective logical_store_id.surjective old.unit.exhaust)
  have "store_revision_parse X (algorithm_as_str (sr_algorithm rev)) (digest_to_string X (sr_digest rev)) = Inr rev"
    using assms(1,3) digest_parse_to_string[of X "sr_digest rev"]
    by (simp add: c checkpoint_ok_def store_revision_parse_def algorithm_roundtrip)
  then show ?thesis
    using assms
    by (simp add: decode_admission_checkpoint_def decode_exact_def raw_of_checkpoint_def c checkpoint_ok_def
        store_uuid_from_str_def parse_uuid_to_string digest_parse_to_string local_trust_parse_def)
qed

lemma checkpoint_readback:
  assumes "checkpoint_laws X" "checkpoint_ok X U c" "encode_admission_checkpoint X c = Inr bs"
  shows "decode_admission_checkpoint X U bs = Inr c"
proof -
  have e: "encode_pretty X (raw_checkpoint_to_value (raw_of_checkpoint X c)) = Inr bs"
      "length bs \<le> MAX_ADMISSION_CHECKPOINT_BYTES"
    using assms(3) by (simp_all add: encode_checkpoint_Inr)
  have "decode_strict X bs = Inr (raw_checkpoint_to_value (raw_of_checkpoint X c))"
    using e(1) assms(1) good_raw_value raw_value_depth by (intro decode_encode_pretty) (auto simp: checkpoint_laws_def)
  then show ?thesis
    using assms(1,2) e raw_from_object[of X "raw_of_checkpoint X c"]
    by (intro decode_checkpoint_value) (simp_all add: checkpoint_laws_def)
qed

text \<open>What decoding establishes: a well-formed checkpoint, and for an object document its encoding.\<close>

lemma de_parse_format: "de_parse git_format_from_str v = Some f \<longleftrightarrow> v = JString (git_format_as_str f)"
  by (cases f; cases v) (auto simp: de_parse_def de_string_def git_format_from_str_def)

lemma de_string_Some: "de_string v = Some s \<longleftrightarrow> v = JString s"
  by (cases v) (auto simp: de_string_def)

lemma raw_from_value_Some:
  "raw_checkpoint_from_value X v = Some r \<longleftrightarrow>
   serde_fields X (map (\<lambda>f. (f, False)) checkpoint_fields) v = Some (map Some (raw_checkpoint_values r))"
proof
  assume "raw_checkpoint_from_value X v = Some r"
  then show "serde_fields X (map (\<lambda>f. (f, False)) checkpoint_fields) v = Some (map Some (raw_checkpoint_values r))"
    by (auto simp: raw_checkpoint_from_value_def raw_checkpoint_values_def de_parse_format de_string_Some
        split: option.splits list.splits)
qed (simp add: raw_checkpoint_from_value_def raw_checkpoint_values_def de_string_def de_format)

lemma object_values:
  assumes "serde_object_law X" "good_json (JObject kvs)" "raw_checkpoint_from_value X (JObject kvs) = Some r"
  shows "JObject kvs = raw_checkpoint_to_value r"
proof -
  have dist: "distinct (map fst (map (\<lambda>f. (f, False)) checkpoint_fields))"
    by (simp add: checkpoint_fields_def)
  have "serde_fields X (map (\<lambda>f. (f, False)) checkpoint_fields) (JObject kvs) =
      struct_of_object (map (\<lambda>f. (f, False)) checkpoint_fields) kvs"
    using assms(1,2) dist by (simp add: serde_object_law_def good_json_def)
  then have s: "struct_of_object (map (\<lambda>f. (f, False)) checkpoint_fields) kvs = Some (map Some (raw_checkpoint_values r))"
    using assms(3) by (simp add: raw_from_value_Some)
  have keys: "set (map fst kvs) = set checkpoint_fields"
    using s by (force simp: struct_of_object_def list_all_iff map_of_eq_None_iff split: if_splits)
  have vals: "map (map_of kvs) checkpoint_fields = map Some (raw_checkpoint_values r)"
    using s by (simp add: struct_of_object_def comp_def split: if_splits)
  have wf: "bt_wf kvs" using assms(2) by simp
  have "strictly_ordered checkpoint_fields"
    by (simp add: checkpoint_fields_def less_char_def)
  then have "map fst kvs = checkpoint_fields"
    using keys wf by (intro strictly_ordered_unique) (auto simp: bt_wf_def bt_keys_def order_simps)
  moreover have "map snd kvs = raw_checkpoint_values r"
  proof -
    have "map (map_of kvs) (map fst kvs) = map Some (map snd kvs)"
      using wf by (auto simp: bt_wf_distinct[unfolded bt_keys_def])
    then show ?thesis
      using vals calculation by (metis list.inj_map_strong option.inject)
  qed
  ultimately show ?thesis
    by (metis raw_value_eq zip_map_fst_snd)
qed

lemma algorithm_canonical: "algorithm_from_str s = Inr a \<Longrightarrow> algorithm_as_str a = s"
  by (auto simp: algorithm_from_str_def REVISION_ALGORITHM_V1_def LEGACY_REVISION_ALGORITHM_V1_def split: if_splits)

lemma decode_checkpoint_Inr:
  assumes "decode_admission_checkpoint X U bs = Inr c" "hex_canonical X"
  obtains v where "decode_strict X bs = Inr v" "encode_pretty X v = Inr bs" "length bs \<le> MAX_ADMISSION_CHECKPOINT_BYTES"
    and "raw_checkpoint_from_value X v = Some (raw_of_checkpoint X c)" "checkpoint_ok X U c"
proof -
  obtain v raw u g oid rev t l r where d: "decode_strict X bs = Inr v" "raw_checkpoint_from_value X v = Some raw"
      "rc_schema raw = CHECKPOINT_SCHEMA" "encode_pretty X v = Inr bs" "length bs \<le> MAX_ADMISSION_CHECKPOINT_BYTES"
      "store_uuid_from_str X (rc_uuid raw) = Inr u" "digest_parse X (rc_fingerprint raw) = Inr g"
      "git_oid_parse (rc_format raw) (rc_commit raw) = Inr oid"
      "store_revision_parse X (rc_algorithm raw) (rc_revision raw) = Inr rev"
      "local_trust_parse X (rc_trust raw) = Inr t" "approved_locator_parse U (rc_locator raw) = Inr l"
      "approved_ref_parse (rc_ref raw) = Inr r"
      "c = \<lparr>ac_store = \<lparr>ls_uuid = u, ls_fingerprint = g\<rparr>, ac_trust = t,
        ac_remote = \<lparr>ar_locator = l, ar_reference = r\<rparr>, ac_commit = oid, ac_revision = rev\<rparr>"
    using assms(1)
    by (auto simp: decode_admission_checkpoint_def decode_exact_def result_simps split: if_splits)
  have u: "rc_uuid raw = uuid_to_string X u" "v7_ok X u"
    using d(6) by (auto simp: store_uuid_from_str_def parse_uuid_Inr_iff)
  have g: "rc_fingerprint raw = digest_to_string X g" "length g = 32"
      "rc_trust raw = digest_to_string X t" "length t = 32"
    using digest_parse_canonical[OF assms(2)] d(7,10) by (auto simp: local_trust_parse_def)
  have rev: "rc_algorithm raw = algorithm_as_str (sr_algorithm rev)" "rc_revision raw = digest_to_string X (sr_digest rev)"
      "length (sr_digest rev) = 32"
    using d(9) digest_parse_canonical[OF assms(2)] algorithm_canonical
    by (auto simp: store_revision_parse_def result_simps)
  have oid: "rc_format raw = go_format oid" "rc_commit raw = go_hex oid" "git_oid_parse (go_format oid) (go_hex oid) = Inr oid"
    using d(8) by (auto simp: git_oid_Inr)
  have lr: "rc_locator raw = l" "rc_ref raw = r" "approved_locator_parse U l = Inr l" "approved_ref_parse r = Inr r"
    using d(11,12) approved_locator_same[OF d(11)] approved_ref_same[OF d(12)] by simp_all
  have "raw = raw_of_checkpoint X c"
    using u(1) g(1,3) rev(1,2) oid(1,2) lr(1,2) d(3,13) by (cases raw) (simp add: raw_of_checkpoint_def)
  moreover have "checkpoint_ok X U c"
    using u(2) g(2,4) rev(3) oid(3) lr(3,4) d(13) by (simp add: checkpoint_ok_def)
  ultimately show thesis
    using that d(1,2,4,5) by blast
qed

text \<open>
  C28: the checkpoint codec. A well-formed checkpoint that encodes decodes again to itself; whatever
  decodes is a well-formed checkpoint within the size limit, and a decoded document that is an object
  is the encoding of the checkpoint it denotes.
\<close>

theorem checkpoint_codec:
  assumes "checkpoint_laws X" "hex_canonical X"
  shows "(checkpoint_ok X U c \<longrightarrow> encode_admission_checkpoint X c = Inr bs \<longrightarrow> decode_admission_checkpoint X U bs = Inr c) \<and>
    (decode_admission_checkpoint X U bs = Inr c \<longrightarrow>
       checkpoint_ok X U c \<and> length bs \<le> MAX_ADMISSION_CHECKPOINT_BYTES \<and>
       (\<forall>kvs. decode_strict X bs = Inr (JObject kvs) \<longrightarrow> encode_admission_checkpoint X c = Inr bs))"
proof (intro conjI impI)
  assume "checkpoint_ok X U c" "encode_admission_checkpoint X c = Inr bs"
  then show "decode_admission_checkpoint X U bs = Inr c"
    using checkpoint_readback[OF assms(1)] by blast
next
  assume "decode_admission_checkpoint X U bs = Inr c"
  then obtain v where v: "decode_strict X bs = Inr v" "encode_pretty X v = Inr bs" "length bs \<le> MAX_ADMISSION_CHECKPOINT_BYTES"
      "raw_checkpoint_from_value X v = Some (raw_of_checkpoint X c)" "checkpoint_ok X U c"
    using assms(2) by (rule decode_checkpoint_Inr)
  then show "checkpoint_ok X U c" "length bs \<le> MAX_ADMISSION_CHECKPOINT_BYTES" by simp_all
  show "\<forall>kvs. decode_strict X bs = Inr (JObject kvs) \<longrightarrow> encode_admission_checkpoint X c = Inr bs"
  proof (intro allI impI)
    fix kvs assume "decode_strict X bs = Inr (JObject kvs)"
    then have "v = raw_checkpoint_to_value (raw_of_checkpoint X c)"
      using v(1,4) object_values[of X kvs "raw_of_checkpoint X c"] decode_strict_good[of X bs "JObject kvs"] assms(1)
      by (simp add: checkpoint_laws_def)
    then show "encode_admission_checkpoint X c = Inr bs"
      using v(2,3) by (simp add: encode_checkpoint_Inr)
  qed
qed

text \<open>
  The documents that decode are not only the encodings: the array of the field values in declaration
  order is a second wire form of the same checkpoint.
\<close>

lemma checkpoint_second_wire_form:
  assumes "checkpoint_laws X" "serde_array_law X" "checkpoint_ok X U c"
    and "encode_pretty X (JArray (raw_checkpoint_values (raw_of_checkpoint X c))) = Inr bs"
    and "length bs \<le> MAX_ADMISSION_CHECKPOINT_BYTES"
  shows "decode_admission_checkpoint X U bs = Inr c"
proof -
  let ?v = "JArray (raw_checkpoint_values (raw_of_checkpoint X c))"
  have "good_json ?v" "json_depth ?v \<le> json_limit"
    by (simp_all add: raw_checkpoint_values_def json_limit_def)
  then have "decode_strict X bs = Inr ?v"
    using assms(1,4) by (intro decode_encode_pretty) (auto simp: checkpoint_laws_def)
  then show ?thesis
    using assms raw_from_array[OF assms(2)] by (intro decode_checkpoint_value) (simp_all add: checkpoint_laws_def)
qed

section \<open>Replacing the file\<close>

lemmas ck_simps = ck_bind_def ck_return_def ck_fail_def ck_read_def ck_step_def ck_barrier_def fault_hit_def

text \<open>The directory holds the checkpoint file, if any, and perhaps one temporary file.\<close>

definition checkpoint_dir :: "bytes option \<Rightarrow> directory" where
  "checkpoint_dir old =
     (case old of None \<Rightarrow> [] | Some bs \<Rightarrow> [(ADMISSION_CHECKPOINT_FILENAME, FileNode private_mode bs)])"

definition with_temporary :: "ext \<Rightarrow> uuid \<Rightarrow> bytes \<Rightarrow> directory \<Rightarrow> directory" where
  "with_temporary X u bs d = bt_insert (temporary_name X u) (FileNode private_mode bs) d"

lemma checkpoint_names:
  "validate_component ADMISSION_CHECKPOINT_FILENAME = Inr ()"
  "temporary_name X u < ADMISSION_CHECKPOINT_FILENAME" "temporary_name X u \<noteq> ADMISSION_CHECKPOINT_FILENAME"
  "ADMISSION_CHECKPOINT_FILENAME \<noteq> temporary_name X u"
  by (simp_all add: ADMISSION_CHECKPOINT_FILENAME_def validate_component_def temporary_name_def temporary_prefix_def less_char_def)

lemma temporary_component: "uuid_component X \<Longrightarrow> validate_component (temporary_name X u) = Inr ()"
  using tx_components(1)[of X u]
  by (auto simp: validate_component_def temporary_name_def temporary_prefix_def ADMISSION_CHECKPOINT_FILENAME_def split: if_splits)

lemma with_temporary_eq:
  "with_temporary X u bs (checkpoint_dir old) = (temporary_name X u, FileNode private_mode bs) # checkpoint_dir old"
  using checkpoint_names(2)[of X u] by (cases old) (auto simp: with_temporary_def checkpoint_dir_def)

text \<open>A reader removes the temporary file and returns the checkpoint.\<close>

definition temp_ok :: "ext \<Rightarrow> uuid \<Rightarrow> bool" where
  "temp_ok X u \<longleftrightarrow> uuid_roundtrip X \<and> uuid_plain X \<and> uuid_component X \<and> v7_ok X u"

lemma find_temporary_file:
  "dir_kind d ADMISSION_CHECKPOINT_FILENAME = Inr RegularFile \<Longrightarrow>
   find_temporary X d t [ADMISSION_CHECKPOINT_FILENAME] = Inr t"
  by simp

lemma recover_residue_temporary:
  assumes "temp_ok X u" "length bs \<le> MAX_ADMISSION_CHECKPOINT_BYTES"
  shows "recover_residue X (with_temporary X u bs (checkpoint_dir old)) = (Inr (), checkpoint_dir old)"
proof -
  let ?t = "temporary_name X u" and ?d = "with_temporary X u bs (checkpoint_dir old)"
  have comp: "validate_component ?t = Inr ()" using assms(1) by (simp add: temp_ok_def temporary_component)
  have names: "bounded_names ?d 4 = Inr (?t # map fst (checkpoint_dir old))"
    unfolding with_temporary_eq using checkpoint_names(2)[of X u]
    by (cases old) (auto simp: bounded_names_def bt_keys_def checkpoint_dir_def)
  have str: "is_str ?t"
    using uuid_ascii[of X u] assms(1)
    by (auto intro!: is_str_ascii simp: temp_ok_def temporary_name_def temporary_prefix_def ADMISSION_CHECKPOINT_FILENAME_def is_ascii_Cons)
  have parse: "uuid_parse_str X (drop (length temporary_prefix) ?t) = Some u" "uuid_version_num X u = 7" "uuid_is_rfc4122 X u"
    using assms(1) by (auto simp: temp_ok_def temporary_name_def uuid_roundtrip_def uuid_ok_def uuid_to_string_def)
  have pre: "starts_with ?t temporary_prefix" by (simp add: temporary_name_def starts_with_def)
  have reg: "dir_kind ?d ?t = Inr RegularFile" "open_file ?d ?t = Inr (private_mode, bs)"
    using comp by (simp_all add: with_temporary_eq dir_kind_def open_file_def)
  have "find_temporary X ?d None (?t # map fst (checkpoint_dir old)) = Inr (Some ?t)"
  proof (cases old)
    case None
    then show ?thesis
      using checkpoint_names(3)[of X u] str parse pre reg assms(2)
      by (simp add: checkpoint_dir_def require_private_mode_def private_mode_def)
  next
    case (Some ob)
    then have "dir_kind ?d ADMISSION_CHECKPOINT_FILENAME = Inr RegularFile"
      unfolding with_temporary_eq using checkpoint_names by (simp add: checkpoint_dir_def dir_kind_def)
    with Some show ?thesis
      using checkpoint_names(3)[of X u] str parse pre reg assms(2)
      by (simp add: checkpoint_dir_def require_private_mode_def private_mode_def)
  qed
  moreover have "unlink_file ?d ?t = Inr (checkpoint_dir old)"
    unfolding with_temporary_eq by (simp add: unlink_file_def)
  ultimately show ?thesis
    using names by (simp add: recover_residue_def ck_simps)
qed

lemma recover_residue_clean: "recover_residue X (checkpoint_dir old) = (Inr (), checkpoint_dir old)"
  using checkpoint_names(1)
  by (cases old) (simp_all add: recover_residue_def ck_simps bounded_names_def bt_keys_def checkpoint_dir_def dir_kind_def)

definition readable_file :: "ext \<Rightarrow> (string \<Rightarrow> url option) \<Rightarrow> (bytes \<times> admission_checkpoint) option \<Rightarrow> bool" where
  "readable_file X U old = (case old of None \<Rightarrow> True | Some (bs, c) \<Rightarrow> decode_admission_checkpoint X U bs = Inr c)"

lemma read_checkpoint_clean:
  assumes "recover_residue X d = (Inr (), checkpoint_dir (map_option fst old))" "readable_file X U old"
  shows "read_checkpoint X U d = (Inr (map_option snd old), checkpoint_dir (map_option fst old))"
proof (cases old)
  case None
  then show ?thesis
    using assms(1) checkpoint_names(1) by (simp add: read_checkpoint_def ck_simps checkpoint_dir_def open_file_def)
next
  case (Some x)
  obtain bs c where x: "x = (bs, c)" by fastforce
  have "length bs \<le> MAX_ADMISSION_CHECKPOINT_BYTES"
    using assms(2) Some x by (auto simp: readable_file_def decode_admission_checkpoint_def split: if_splits)
  then show ?thesis
    using assms Some x checkpoint_names(1)
    by (simp add: read_checkpoint_def ck_simps checkpoint_dir_def open_file_def checkpoint_bytes_def
        require_private_mode_def private_mode_def readable_file_def Let_def)
qed

lemma create_temporary:
  assumes "uuid_component X"
  shows "create_file (checkpoint_dir old) (temporary_name X u) = Inr (with_temporary X u [] (checkpoint_dir old))"
    and "write_all (with_temporary X u [] (checkpoint_dir old)) (temporary_name X u) bs = with_temporary X u bs (checkpoint_dir old)"
    and "rename_file (with_temporary X u bs (checkpoint_dir old)) (temporary_name X u) ADMISSION_CHECKPOINT_FILENAME =
      Inr (checkpoint_dir (Some bs))"
  using temporary_component[OF assms, of u] checkpoint_names(1) checkpoint_names(2-)[of X u]
  by (cases old; simp add: create_file_def with_temporary_def checkpoint_dir_def write_all_def bt_insert_twice rename_file_def bt_get_insert)+

text \<open>
  C26: writing a checkpoint is atomic. Stopped before the rename, the writer leaves a store whose next
  reader finds exactly the old checkpoint; from the rename on, exactly the new one. The reader also
  removes the temporary file, and the writer succeeds exactly if it is not stopped.
\<close>

theorem checkpoint_write_atomic:
  assumes "checkpoint_laws X" "temp_ok X u" "checkpoint_ok X U new" "encode_admission_checkpoint X new = Inr bytes"
    and "readable_file X U old"
  shows "case write_impl X u bar new (checkpoint_dir (map_option fst old)) of (r, d) \<Rightarrow>
    (r = Inr () \<longleftrightarrow> \<not> bar 0 \<and> \<not> bar 1 \<and> \<not> bar 2 \<and> \<not> bar 3) \<and>
    read_checkpoint X U d =
      (if bar 0 \<or> bar 1 then (Inr (map_option snd old), checkpoint_dir (map_option fst old))
       else (Inr (Some new), checkpoint_dir (Some bytes)))"
proof -
  have len: "length bytes \<le> MAX_ADMISSION_CHECKPOINT_BYTES" using assms(4) by (simp add: encode_checkpoint_Inr)
  have comp: "uuid_component X" using assms(2) by (simp add: temp_ok_def)
  have "readable_file X U (Some (bytes, new))"
    using checkpoint_readback[OF assms(1,3,4)] by (simp add: readable_file_def)
  then have new: "read_checkpoint X U (checkpoint_dir (Some bytes)) = (Inr (Some new), checkpoint_dir (Some bytes))"
    using read_checkpoint_clean[of X _ "Some (bytes, new)"] recover_residue_clean by simp
  have old: "read_checkpoint X U (with_temporary X u bytes (checkpoint_dir (map_option fst old))) =
      (Inr (map_option snd old), checkpoint_dir (map_option fst old))"
    by (rule read_checkpoint_clean[OF recover_residue_temporary[OF assms(2) len] assms(5)])
  show ?thesis
    using assms(4) create_temporary[OF comp] new old
    by (simp add: write_impl_def ck_simps Let_def)
qed

text \<open>
  C25: replacing a checkpoint is a compare-and-swap. Undisturbed, it succeeds without change if the
  file already holds the candidate, refuses without change if it holds anything but the expected
  checkpoint, and otherwise installs the candidate. If the process ends at any of its fault points,
  the next reader finds the checkpoint the file held before or the candidate.
\<close>

theorem checkpoint_replace_cas:
  assumes "checkpoint_laws X" "temp_ok X u" "checkpoint_ok X U candidate"
    and "encode_admission_checkpoint X expected = Inr eb" "encode_admission_checkpoint X candidate = Inr cb"
    and "decode_admission_checkpoint X U cur = Inr current"
  shows "replace_expected X U u (\<lambda>_. False) expected candidate (checkpoint_dir (Some cur)) =
      (if cur = cb then (Inr (), checkpoint_dir (Some cur))
       else if cur = eb then (Inr (), checkpoint_dir (Some cb))
       else (Inl ExpectedOldMismatch, checkpoint_dir (Some cur))) \<and>
    fst (read_checkpoint X U (snd (replace_expected X U u fault expected candidate (checkpoint_dir (Some cur)))))
      \<in> {Inr (Some current), Inr (Some candidate)}"
proof -
  have len: "length cb \<le> MAX_ADMISSION_CHECKPOINT_BYTES" using assms(5) by (simp add: encode_checkpoint_Inr)
  have lcur: "length cur \<le> MAX_ADMISSION_CHECKPOINT_BYTES"
    using assms(6) by (auto simp: decode_admission_checkpoint_def split: if_splits)
  have comp: "uuid_component X" using assms(2) by (simp add: temp_ok_def)
  have dec: "decode_admission_checkpoint X U cb = Inr candidate"
    by (rule checkpoint_readback[OF assms(1,3,5)])
  have cur: "read_current_bytes (checkpoint_dir (Some bs)) = Inr bs"
    "read_current_bytes (with_temporary X u cs (checkpoint_dir (Some bs))) = Inr bs"
    if "length bs \<le> MAX_ADMISSION_CHECKPOINT_BYTES" for bs cs
    unfolding with_temporary_eq using that checkpoint_names
    by (simp_all add: read_current_bytes_def checkpoint_dir_def open_file_def checkpoint_bytes_def
        require_private_mode_def private_mode_def Let_def)
  have rd: "read_checkpoint X U (checkpoint_dir (Some cur)) = (Inr (Some current), checkpoint_dir (Some cur))"
    "read_checkpoint X U (checkpoint_dir (Some cb)) = (Inr (Some candidate), checkpoint_dir (Some cb))"
    "read_checkpoint X U (with_temporary X u cb (checkpoint_dir (Some cur))) = (Inr (Some current), checkpoint_dir (Some cur))"
    using read_checkpoint_clean[of X _ "Some (cur, current)"] read_checkpoint_clean[of X _ "Some (cb, candidate)"]
      recover_residue_clean recover_residue_temporary[OF assms(2) len] dec assms(6)
    by (simp_all add: readable_file_def)
  note steps = replace_expected_def ck_simps Let_def create_temporary[OF comp] cur[OF lcur] cur[OF len] assms(4-6) dec rd
  show ?thesis
    by (cases "cb = cur"; cases "eb = cur"; cases "fault ''checkpoint-temporary-durable''"; cases "fault ''checkpoint-renamed''")
      (simp_all add: steps)
qed

end
