(* ===== verification/Wj_Staging.thy ===== *)
theory Wj_Staging
  imports Wj_Additions Wj_Checkpoint
begin

text \<open>
  Staging the additions of a pending synchronisation and reading them back (\<open>federation/pending.rs\<close>), and the
  pending document that binds them. A failing operation returns its error only: what it leaves below its
  operation directory has no root document and is disposable.
\<close>

section \<open>The pending document\<close>

datatype git_sync_pending_phase =
    Prepared
  | FilesPublished
  | LocalRefPublished
  | CheckpointPublished
  | RemoteCasStale
  | RemoteCasConfirmed

type_synonym git_sync_operation_id = string

definition operation_id_from_str :: "ext \<Rightarrow> string \<Rightarrow> git_sync_operation_id option" where
  "operation_id_from_str X s =
     (case uuid_parse_str X s of
        None \<Rightarrow> None
      | Some u \<Rightarrow>
          if uuid_version_num X u \<noteq> 7 \<or> \<not> uuid_is_rfc4122 X u \<or> uuid_hyphenated X u \<noteq> s then None else Some s)"

definition PENDING_SCHEMA :: string where "PENDING_SCHEMA = ''wayjournal.sync-pending/v1''"

record pending_document =
  pd_schema :: string
  pd_operation :: git_sync_operation_id
  pd_phase :: git_sync_pending_phase
  pd_store :: logical_store_id
  pd_trust :: local_trust_binding
  pd_remote :: approved_remote
  pd_format :: git_object_format
  pd_original_commit :: git_oid
  pd_original_revision :: store_revision_ref
  pd_advance_commit :: git_oid
  pd_advance_revision :: store_revision_ref
  pd_local_tip :: git_oid
  pd_remote_tip :: git_oid
  pd_candidate_commit :: git_oid
  pd_candidate_revision :: store_revision_ref
  pd_candidate_parents :: "git_oid list"
  pd_additions_count :: nat
  pd_additions_bytes :: nat
  pd_index_digest :: digest
  pd_predecessor :: "git_sync_operation_id option"
  pd_stale_remote :: "git_oid option"

text \<open>The derived order of object names: the format first, then the digits.\<close>

definition oid_key :: "git_oid \<Rightarrow> string" where
  "oid_key o' = (case go_format o' of Sha1 \<Rightarrow> CHR 0x00 | Sha256 \<Rightarrow> CHR 0x01) # go_hex o'"

definition pending_document_validate :: "pending_document \<Rightarrow> pending_error + unit" where
  "pending_document_validate d =
     (if pd_schema d \<noteq> PENDING_SCHEMA then Inl PendingInvalid
      else rbind (validate_addition_totals (pd_additions_count d) (pd_additions_bytes d)) (\<lambda>_.
      if list_ex (\<lambda>oid. go_format oid \<noteq> pd_format d)
           ([pd_original_commit d, pd_advance_commit d, pd_local_tip d, pd_remote_tip d, pd_candidate_commit d] @
            pd_candidate_parents d @ (case pd_stale_remote d of None \<Rightarrow> [] | Some oid \<Rightarrow> [oid]))
      then Inl PendingInvalid
      else if pd_candidate_parents d = [] \<or> \<not> strictly_ordered (map oid_key (pd_candidate_parents d)) then Inl PendingInvalid
      else if pd_phase d = RemoteCasStale \<and> pd_stale_remote d = None then Inl PendingInvalid
      else if pd_phase d = RemoteCasConfirmed \<and> pd_stale_remote d \<noteq> None then Inl PendingInvalid
      else Inr ()))"

section \<open>Names\<close>

text \<open>\<open>{:06}\<close> and \<open>{:08}\<close>: decimal digits, padded with zeros.\<close>

definition padded :: "nat \<Rightarrow> nat \<Rightarrow> string" where
  "padded w n = replicate (w - length (decimal n)) (CHR ''0'') @ decimal n"

definition chunk_name :: "nat \<Rightarrow> string" where "chunk_name k = padded 6 k"
definition chunk_file_name :: "nat \<Rightarrow> string" where "chunk_file_name k = padded 6 k @ ''.bin''"
definition blob_name :: "nat \<Rightarrow> string" where "blob_name n = padded 8 n @ ''.blob''"

section \<open>Staging\<close>

definition write_new :: "directory \<Rightarrow> string \<Rightarrow> bytes \<Rightarrow> pending_error + directory" where
  "write_new d name bs = rbind (map_err PendingStore (create_file d name)) (\<lambda>d. Inr (write_all d name bs))"

record stage_state =
  ag_rest :: "(bytes \<times> bytes) list"
  ag_count :: nat
  ag_bytes :: nat
  ag_previous :: "bytes option"

definition not_after :: "bytes option \<Rightarrow> bytes \<Rightarrow> bool" where
  "not_after previous path = (case previous of None \<Rightarrow> False | Some p \<Rightarrow> path \<le> p)"

fun stage_blobs ::
  "ext \<Rightarrow> nat \<Rightarrow> nat \<Rightarrow> nat \<Rightarrow> stage_state \<Rightarrow> directory \<Rightarrow> addition_entry list \<Rightarrow>
   pending_error + stage_state \<times> directory \<times> addition_entry list" where
  "stage_blobs X k position 0 st d metadata = Inr (st, d, metadata)"
| "stage_blobs X k position (Suc n) st d metadata =
     (case ag_rest st of
        [] \<Rightarrow> Inl PendingInvalid
      | (path, bs) # rest \<Rightarrow>
          if not_after (ag_previous st) path then Inl PendingInvalid
          else if 2 ^ 64 \<le> ag_bytes st + length bs then Inl PendingInvalid
          else rbind (write_new d (blob_name (k * ADDITIONS_PER_CHUNK + position)) bs) (\<lambda>d.
            stage_blobs X k (Suc position) n
              \<lparr>ag_rest = rest, ag_count = Suc (ag_count st), ag_bytes = ag_bytes st + length bs, ag_previous = Some path\<rparr> d
              (metadata @ [\<lparr>ae_path = path, ae_length = length bs, ae_digest = blake3_hash X bs\<rparr>])))"

definition stage_chunk ::
  "ext \<Rightarrow> nat \<Rightarrow> stage_state \<times> directory \<times> directory \<times> index_entry list \<Rightarrow> nat \<Rightarrow>
   pending_error + stage_state \<times> directory \<times> directory \<times> index_entry list" where
  "stage_chunk X addition_count = (\<lambda>(st, chunks_dir, blobs_dir, index) k.
     rbind (map_err PendingStore (ensure_dir blobs_dir (chunk_name k))) (\<lambda>(blobs_dir, blob_chunk, created).
     if \<not> created then Inl PendingInvalid
     else rbind (stage_blobs X k 0 (min (addition_count - ag_count st) ADDITIONS_PER_CHUNK) st blob_chunk [])
       (\<lambda>(st, blob_chunk, metadata).
     rbind (encode_chunk X k metadata) (\<lambda>encoded.
     rbind (write_new chunks_dir (chunk_file_name k) encoded) (\<lambda>chunks_dir.
     Inr (st, chunks_dir, bt_insert (chunk_name k) (DirNode blob_chunk) blobs_dir,
          index @ [\<lparr>ie_number = k, ie_count = length metadata, ie_length = length encoded, ie_digest = blake3_hash X encoded\<rparr>]))))))"

definition stage_known_additions ::
  "ext \<Rightarrow> directory \<Rightarrow> pending_document \<Rightarrow> nat \<Rightarrow> nat \<Rightarrow> (bytes \<times> bytes) list \<Rightarrow> pending_error + directory \<times> pending_document" where
  "stage_known_additions X operation doc addition_count total_bytes additions =
     rbind (validate_addition_totals addition_count total_bytes) (\<lambda>_.
     rbind (map_err PendingStore (ensure_dir operation ''additions'')) (\<lambda>(operation, additions_dir, created).
     if \<not> created then Inl PendingInvalid
     else rbind (map_err PendingStore (ensure_dir additions_dir ''chunks'')) (\<lambda>(additions_dir, chunks_dir, _).
     rbind (map_err PendingStore (ensure_dir additions_dir ''blobs'')) (\<lambda>(additions_dir, blobs_dir, _).
     rbind (chunk_count addition_count) (\<lambda>chunks.
     rbind (try_fold (stage_chunk X addition_count)
         (\<lparr>ag_rest = additions, ag_count = 0, ag_bytes = 0, ag_previous = None\<rparr>, chunks_dir, blobs_dir, []) [0..<chunks])
       (\<lambda>(st, chunks_dir, blobs_dir, index_entries).
     if ag_rest st \<noteq> [] \<or> ag_count st \<noteq> addition_count \<or> ag_bytes st \<noteq> total_bytes then Inl PendingInvalid
     else rbind (encode_index addition_count total_bytes index_entries) (\<lambda>index.
     let additions_dir = bt_insert ''blobs'' (DirNode blobs_dir) (bt_insert ''chunks'' (DirNode chunks_dir) additions_dir) in
     rbind (write_new additions_dir ''index.bin'' index) (\<lambda>additions_dir.
     Inr (bt_insert ''additions'' (DirNode additions_dir) operation,
          doc\<lparr>pd_additions_count := addition_count, pd_additions_bytes := total_bytes,
              pd_index_digest := blake3_hash X index\<rparr>)))))))))"

section \<open>Reading back\<close>

record staged_addition =
  sa_path :: bytes
  sa_bytes :: bytes
  sa_file :: "nat \<times> bytes"

definition require_exact_owned_names :: "directory \<Rightarrow> string list \<Rightarrow> pending_error + unit" where
  "require_exact_owned_names d expected =
     (let expected = sort expected in
      rbind (map_err PendingStore (bounded_names d (Suc (length expected)))) (\<lambda>names.
      if names \<noteq> expected then Inl PendingInvalid else Inr ()))"

definition visit_blob ::
  "ext \<Rightarrow> ('s \<Rightarrow> staged_addition \<Rightarrow> pending_error + 's) \<Rightarrow> directory \<Rightarrow> nat \<Rightarrow>
   nat \<times> nat \<times> bytes option \<times> 's \<Rightarrow> nat \<times> addition_entry \<Rightarrow> pending_error + nat \<times> nat \<times> bytes option \<times> 's" where
  "visit_blob X visit blob_chunk number = (\<lambda>(observed_count, observed_bytes, previous, s) (position, m).
     rbind (map_err PendingStore (open_file blob_chunk (blob_name (number * ADDITIONS_PER_CHUNK + position)))) (\<lambda>f.
     rbind (map_err PendingStore (read_file_bounded (snd f) (ae_length m))) (\<lambda>bs.
     if length bs \<noteq> ae_length m \<or> blake3_hash X bs \<noteq> ae_digest m then Inl PendingInvalid
     else if 2 ^ 64 \<le> Suc observed_count then Inl PendingInvalid
     else if 2 ^ 64 \<le> observed_bytes + ae_length m then Inl PendingInvalid
     else if not_after previous (ae_path m) then Inl PendingInvalid
     else rbind (visit s \<lparr>sa_path = ae_path m, sa_bytes = bs, sa_file = f\<rparr>) (\<lambda>s.
     Inr (Suc observed_count, observed_bytes + ae_length m, Some (ae_path m), s)))))"

definition visit_chunk ::
  "ext \<Rightarrow> ('s \<Rightarrow> staged_addition \<Rightarrow> pending_error + 's) \<Rightarrow> directory \<Rightarrow> directory \<Rightarrow>
   nat \<times> nat \<times> bytes option \<times> 's \<Rightarrow> index_entry \<Rightarrow> pending_error + nat \<times> nat \<times> bytes option \<times> 's" where
  "visit_chunk X visit chunks blobs z e =
     rbind (map_err PendingStore (open_file chunks (chunk_file_name (ie_number e)))) (\<lambda>f.
     rbind (map_err PendingStore (read_file_bounded (snd f) MAX_CHUNK_BYTES)) (\<lambda>encoded.
     if length encoded \<noteq> ie_length e \<or> blake3_hash X encoded \<noteq> ie_digest e then Inl PendingInvalid
     else rbind (decode_chunk X encoded) (\<lambda>(_, metadata).
     if length metadata \<noteq> ie_count e then Inl PendingInvalid
     else rbind (map_err PendingStore (open_dir blobs (chunk_name (ie_number e)))) (\<lambda>blob_chunk.
     rbind (require_exact_owned_names blob_chunk
         (map (\<lambda>position. blob_name (ie_number e * ADDITIONS_PER_CHUNK + position)) [0..<length metadata])) (\<lambda>_.
     try_fold (visit_blob X visit blob_chunk (ie_number e)) z (enumerate 0 metadata))))))"

definition for_each_addition ::
  "ext \<Rightarrow> ('s \<Rightarrow> staged_addition \<Rightarrow> pending_error + 's) \<Rightarrow> directory \<Rightarrow> pending_document \<Rightarrow> 's \<Rightarrow> pending_error + 's" where
  "for_each_addition X visit operation doc s =
     rbind (map_err PendingStore (open_dir operation ''additions'')) (\<lambda>additions.
     rbind (map_err PendingStore (open_file additions ''index.bin'')) (\<lambda>f.
     rbind (map_err PendingStore (read_file_bounded (snd f) MAX_ADDITION_INDEX_BYTES)) (\<lambda>index.
     if blake3_hash X index \<noteq> pd_index_digest doc then Inl PendingInvalid
     else rbind (decode_index index) (\<lambda>(n, total_bytes, entries).
     if n \<noteq> pd_additions_count doc \<or> total_bytes \<noteq> pd_additions_bytes doc then Inl PendingInvalid
     else rbind (map_err PendingStore (open_dir additions ''chunks'')) (\<lambda>chunks.
     rbind (map_err PendingStore (open_dir additions ''blobs'')) (\<lambda>blobs.
     rbind (require_exact_owned_names additions [''blobs'', ''chunks'', ''index.bin'']) (\<lambda>_.
     rbind (require_exact_owned_names chunks (map (\<lambda>e. chunk_file_name (ie_number e)) entries)) (\<lambda>_.
     rbind (require_exact_owned_names blobs (map (\<lambda>e. chunk_name (ie_number e)) entries)) (\<lambda>_.
     rbind (try_fold (visit_chunk X visit chunks blobs) (0, 0, None, s) entries) (\<lambda>(observed_count, observed_bytes, _, s).
     if observed_count \<noteq> n \<or> observed_bytes \<noteq> total_bytes then Inl PendingInvalid else Inr s))))))))))"

section \<open>Names are distinct components\<close>

lemma padded_value: "decimal_value 0 (padded w n) = n"
proof -
  have "decimal_value 0 (replicate k CHR ''0'' @ decimal n) = n" for k
    by (induction k) (simp_all add: decimal_value_decimal)
  then show ?thesis by (simp add: padded_def)
qed

lemma padded_component:
  assumes "3 \<le> w" "CHR ''/'' \<notin> set s" "CHR 0x00 \<notin> set s"
  shows "validate_component (padded w n @ s) = Inr ()"
proof -
  have "3 \<le> length (padded w n @ s)" using assms(1) by (simp add: padded_def)
  then have "padded w n @ s \<noteq> ''.''" "padded w n @ s \<noteq> ''..''" "padded w n @ s \<noteq> []" by (auto simp del: length_append)
  then show ?thesis using assms(2,3) decimal_plain[of n] by (auto simp: validate_component_def padded_def)
qed

lemma names_component [simp]:
  "validate_component (chunk_name k) = Inr ()" "validate_component (chunk_file_name k) = Inr ()" "validate_component (blob_name n) = Inr ()"
  using padded_component[of 6 "[]" k] padded_component[of 6 "''.bin''" k] padded_component[of 8 "''.blob''" n]
  by (simp_all add: chunk_name_def chunk_file_name_def blob_name_def)

lemma padded_inj: "padded w n = padded w m \<longleftrightarrow> n = m"
  by (metis padded_value)

lemma names_inj [simp]:
  "chunk_name k = chunk_name j \<longleftrightarrow> k = j" "chunk_file_name k = chunk_file_name j \<longleftrightarrow> k = j" "blob_name n = blob_name m \<longleftrightarrow> n = m"
  by (simp_all add: chunk_name_def chunk_file_name_def blob_name_def padded_inj)

end
