(* ===== verification/Wj_Staging_Laws.thy ===== *)
theory Wj_Staging_Laws
  imports Wj_Staging
begin

text \<open>What staging leaves on disk, and that reading it back visits the staged additions.\<close>

section \<open>Directories built entry by entry\<close>

lemma bt_of_list_snoc: "bt_insert k v (bt_of_list l) = bt_of_list (l @ [(k, v)])"
  by (simp add: bt_of_list_def)

lemma write_new_fresh:
  "validate_component name = Inr () \<Longrightarrow> bt_get d name = None \<Longrightarrow> write_new d name bs = Inr (bt_insert name (FileNode private_mode bs) d)"
  by (simp add: write_new_def create_file_def write_all_def bt_insert_twice)

lemma exact_names_of_list:
  assumes "distinct (map fst kvs)"
  shows "require_exact_owned_names (bt_of_list kvs) (map fst kvs) = Inr ()"
proof -
  have "set (bt_keys (bt_of_list kvs)) = set (map fst kvs)"
    by (simp add: bt_keys_def set_bt_of_list[OF assms])
  then have "mset (bt_keys (bt_of_list kvs)) = mset (map fst kvs)"
    using assms bt_wf_distinct[OF bt_wf_of_list] by (metis set_eq_iff_mset_eq_distinct)
  then have "sort (bt_keys (bt_of_list kvs)) = sort (map fst kvs)"
    by (metis mset_sort properties_for_sort sorted_sort)
  then show ?thesis
    by (simp add: require_exact_owned_names_def bounded_names_def length_bt_of_list[OF assms])
qed

section \<open>The staged form\<close>

type_synonym addition = "bytes \<times> bytes"

definition metadata_of :: "ext \<Rightarrow> addition \<Rightarrow> addition_entry" where
  "metadata_of X a = \<lparr>ae_path = fst a, ae_length = length (snd a), ae_digest = blake3_hash X (snd a)\<rparr>"

definition content_bytes :: "addition list \<Rightarrow> nat" where
  "content_bytes as = sum_list (map (\<lambda>a. length (snd a)) as)"

definition blob_entries :: "nat \<Rightarrow> addition list \<Rightarrow> (string \<times> node) list" where
  "blob_entries k as = map (\<lambda>(i, a). (blob_name (k * ADDITIONS_PER_CHUNK + i), FileNode private_mode (snd a))) (enumerate 0 as)"

definition chunk_bytes :: "ext \<Rightarrow> nat \<Rightarrow> addition list \<Rightarrow> bytes" where
  "chunk_bytes X k as = chunk_header k (length as) @ concat (map (\<lambda>a. addition_bytes (metadata_of X a)) as)"

definition index_of :: "ext \<Rightarrow> nat \<Rightarrow> addition list \<Rightarrow> index_entry" where
  "index_of X k as =
     \<lparr>ie_number = k, ie_count = length as, ie_length = length (chunk_bytes X k as), ie_digest = blake3_hash X (chunk_bytes X k as)\<rparr>"

definition nth_group :: "addition list \<Rightarrow> nat \<Rightarrow> addition list" where
  "nth_group as k = take ADDITIONS_PER_CHUNK (drop (k * ADDITIONS_PER_CHUNK) as)"

definition previous_of :: "bytes option \<Rightarrow> addition list \<Rightarrow> bytes option" where
  "previous_of p as = (if as = [] then p else Some (fst (last as)))"

definition stageable :: "ext \<Rightarrow> addition list \<Rightarrow> bool" where
  "stageable X as \<longleftrightarrow>
     list_all (\<lambda>a. addition_path_ok X (fst a)) as \<and> strictly_ordered (map fst as) \<and>
     length as \<le> MAX_BULK_ADDITIONS \<and> content_bytes as \<le> MAX_BULK_ADDITION_BYTES"

lemma content_bytes_simps [simp]:
  "content_bytes [] = 0" "content_bytes (a # as) = length (snd a) + content_bytes as" "content_bytes (as @ bs) = content_bytes as + content_bytes bs"
  by (simp_all add: content_bytes_def)

lemma blob_entries_names: "map fst (blob_entries k as) = map (\<lambda>i. blob_name (k * ADDITIONS_PER_CHUNK + i)) [0..<length as]"
  by (rule nth_equalityI) (simp_all add: blob_entries_def nth_enumerate_eq split_beta)

lemma blob_entries_distinct: "distinct (map fst (blob_entries k as))"
  by (simp add: blob_entries_names distinct_map inj_on_def)

lemma blob_entries_snoc:
  "blob_entries k (as @ [a]) = blob_entries k as @ [(blob_name (k * ADDITIONS_PER_CHUNK + length as), FileNode private_mode (snd a))]"
  by (simp add: blob_entries_def enumerate_append_eq)

lemma stage_blobs_group:
  assumes "ag_rest st = as @ rest" "strictly_ordered ((case ag_previous st of None \<Rightarrow> [] | Some p \<Rightarrow> [p]) @ map fst as)"
    and "ag_bytes st + content_bytes as < 2 ^ 64"
  shows "stage_blobs X k (length dn) (length as) st (bt_of_list (blob_entries k dn)) metadata =
    Inr (\<lparr>ag_rest = rest, ag_count = ag_count st + length as, ag_bytes = ag_bytes st + content_bytes as,
          ag_previous = previous_of (ag_previous st) as\<rparr>,
         bt_of_list (blob_entries k (dn @ as)), metadata @ map (metadata_of X) as)"
  using assms
proof (induction as arbitrary: st dn metadata)
  case Nil
  then show ?case by (cases st) (simp add: previous_of_def)
next
  case (Cons a as)
  obtain p bs where a: "a = (p, bs)" by fastforce
  have na: "\<not> not_after (ag_previous st) p" using Cons.prems(2) by (cases "ag_previous st") (auto simp: not_after_def a order_simps)
  have "bt_get (bt_of_list (blob_entries k dn)) (blob_name (k * ADDITIONS_PER_CHUNK + length dn)) = None"
    unfolding bt_get_of_list[OF blob_entries_distinct] map_of_eq_None_iff set_map[symmetric] blob_entries_names by auto
  then have wr: "write_new (bt_of_list (blob_entries k dn)) (blob_name (k * ADDITIONS_PER_CHUNK + length dn)) bs =
      Inr (bt_of_list (blob_entries k (dn @ [a])))"
    by (simp add: write_new_fresh bt_of_list_snoc blob_entries_snoc a)
  let ?st = "\<lparr>ag_rest = as @ rest, ag_count = Suc (ag_count st), ag_bytes = ag_bytes st + length bs, ag_previous = Some p\<rparr>"
  have "strictly_ordered (p # map fst as)" using Cons.prems(2) by (cases "ag_previous st") (auto simp: a order_simps)
  then have IH: "stage_blobs X k (length (dn @ [a])) (length as) ?st (bt_of_list (blob_entries k (dn @ [a]))) (metadata @ [metadata_of X a]) =
      Inr (\<lparr>ag_rest = rest, ag_count = ag_count ?st + length as, ag_bytes = ag_bytes ?st + content_bytes as,
          ag_previous = previous_of (ag_previous ?st) as\<rparr>,
         bt_of_list (blob_entries k ((dn @ [a]) @ as)), (metadata @ [metadata_of X a]) @ map (metadata_of X) as)"
    using Cons.prems(3) by (intro Cons.IH) (simp_all add: a)
  show ?case
    using Cons.prems(1,3) na wr IH by (simp add: a metadata_of_def previous_of_def)
qed

section \<open>Groups\<close>

definition chunks_of :: "addition list \<Rightarrow> nat" where
  "chunks_of as = (length as + 4095) div 4096"

lemma group_before: "k < chunks_of as \<Longrightarrow> k * 4096 < length as"
  by (simp add: chunks_of_def div_less_iff_less_mult less_eq_div_iff_mult_less_eq Suc_le_eq[symmetric])

lemma take_groups: "take (Suc k * 4096) as = take (k * 4096) as @ nth_group as k"
proof -
  have "Suc k * 4096 = k * 4096 + 4096" by simp
  then show ?thesis by (simp only: take_add nth_group_def ADDITIONS_PER_CHUNK_def)
qed

lemma drop_groups: "drop (k * 4096) as = nth_group as k @ drop (Suc k * 4096) as"
  by (simp add: nth_group_def ADDITIONS_PER_CHUNK_def add.commute flip: drop_drop)

lemma length_group: "length (nth_group as k) = min (length as - k * 4096) 4096"
  by (simp add: nth_group_def ADDITIONS_PER_CHUNK_def min.commute)

lemma concat_groups: "concat (map (nth_group as) [0..<n]) = take (n * 4096) as"
proof (induction n)
  case (Suc n)
  then show ?case using take_groups[of n as] by simp
qed simp

lemma all_groups: "concat (map (nth_group as) [0..<chunks_of as]) = as"
proof -
  have "length as \<le> chunks_of as * 4096" unfolding chunks_of_def by linarith
  then show ?thesis by (simp add: concat_groups)
qed

lemma set_group: "set (nth_group as k) \<subseteq> set as"
  unfolding nth_group_def by (meson set_drop_subset set_take_subset subset_trans)

lemma chunks_of_bound: "length as \<le> MAX_BULK_ADDITIONS \<Longrightarrow> chunks_of as \<le> MAX_ADDITION_CHUNKS \<and> chunk_count (length as) = Inr (chunks_of as)"
proof -
  assume "length as \<le> MAX_BULK_ADDITIONS"
  then have "chunks_of as \<le> 245" unfolding chunks_of_def MAX_BULK_ADDITIONS_def MAX_CANONICAL_ENTRIES_def by linarith
  then show ?thesis by (simp add: chunk_count_def chunks_of_def ADDITIONS_PER_CHUNK_def MAX_ADDITION_CHUNKS_def Let_def)
qed

lemma group_metadata:
  assumes "stageable X as" "blake3_length X"
  shows "list_all addition_typed (map (metadata_of X) (nth_group as k))"
    "list_all (\<lambda>e. addition_path_ok X (ae_path e)) (map (metadata_of X) (nth_group as k))"
    "strictly_ordered (map ae_path (map (metadata_of X) (nth_group as k)))"
proof -
  have "length (snd a) < 2 ^ 64" if "a \<in> set as" for a
  proof -
    have "length (snd a) \<le> content_bytes as"
      unfolding content_bytes_def using that by (intro member_le_sum_list) auto
    then show ?thesis using assms(1) by (simp add: stageable_def MAX_BULK_ADDITION_BYTES_def MAX_TOTAL_CANONICAL_BYTES_def)
  qed
  then show "list_all addition_typed (map (metadata_of X) (nth_group as k))"
    using assms(2) set_group[of as k] by (auto simp: list_all_iff addition_typed_def metadata_of_def blake3_length_def)
  show "list_all (\<lambda>e. addition_path_ok X (ae_path e)) (map (metadata_of X) (nth_group as k))"
    using assms(1) set_group[of as k] by (auto simp: list_all_iff stageable_def metadata_of_def)
  have "sorted_wrt (<) (map fst (take m (drop n as)))" for m n
    using assms(1) by (simp add: stageable_def order_simps sorted_wrt_take sorted_wrt_drop flip: take_map drop_map)
  then show "strictly_ordered (map ae_path (map (metadata_of X) (nth_group as k)))"
    by (simp add: order_simps nth_group_def metadata_of_def comp_def)
qed

lemma encode_group:
  assumes "stageable X as" "blake3_length X" "k < chunks_of as"
  shows "encode_chunk X k (map (metadata_of X) (nth_group as k)) = Inr (chunk_bytes X k (nth_group as k))"
proof -
  have "nth_group as k \<noteq> []" using group_before[OF assms(3)] length_group[of as k] by auto
  moreover have "k < MAX_ADDITION_CHUNKS" using assms(1,3) chunks_of_bound[of as] by (simp add: stageable_def)
  moreover have "length (nth_group as k) \<le> ADDITIONS_PER_CHUNK" by (simp add: nth_group_def)
  ultimately show ?thesis
    unfolding encode_chunk_Inr[OF group_metadata(1)[OF assms(1,2)]]
    using group_metadata(2,3)[OF assms(1,2), of k] by (simp add: chunk_bytes_def comp_def)
qed

section \<open>Staging\<close>

definition chunk_files :: "ext \<Rightarrow> addition list \<Rightarrow> nat \<Rightarrow> (string \<times> node) list" where
  "chunk_files X as n = map (\<lambda>k. (chunk_file_name k, FileNode private_mode (chunk_bytes X k (nth_group as k)))) [0..<n]"

definition blob_dirs :: "addition list \<Rightarrow> nat \<Rightarrow> (string \<times> node) list" where
  "blob_dirs as n = map (\<lambda>k. (chunk_name k, DirNode (bt_of_list (blob_entries k (nth_group as k))))) [0..<n]"

definition index_entries :: "ext \<Rightarrow> addition list \<Rightarrow> nat \<Rightarrow> index_entry list" where
  "index_entries X as n = map (\<lambda>k. index_of X k (nth_group as k)) [0..<n]"

lemma chunk_names:
  "map fst (chunk_files X as n) = map chunk_file_name [0..<n]" "map fst (blob_dirs as n) = map chunk_name [0..<n]"
  "distinct (map fst (chunk_files X as n))" "distinct (map fst (blob_dirs as n))"
  by (simp_all add: chunk_files_def blob_dirs_def comp_def distinct_map inj_on_def)

definition stage_after :: "addition list \<Rightarrow> nat \<Rightarrow> stage_state" where
  "stage_after as n =
     \<lparr>ag_rest = drop (n * 4096) as, ag_count = length (take (n * 4096) as), ag_bytes = content_bytes (take (n * 4096) as),
      ag_previous = previous_of None (take (n * 4096) as)\<rparr>"

lemma stage_chunk_step:
  assumes "stageable X as" "blake3_length X" "k < chunks_of as"
  shows "stage_chunk X (length as) (stage_after as k, bt_of_list (chunk_files X as k), bt_of_list (blob_dirs as k), index_entries X as k) k =
    Inr (stage_after as (Suc k), bt_of_list (chunk_files X as (Suc k)), bt_of_list (blob_dirs as (Suc k)), index_entries X as (Suc k))"
proof -
  let ?g = "nth_group as k" and ?done = "take (k * 4096) as"
  have fresh: "bt_get (bt_of_list (blob_dirs as k)) (chunk_name k) = None" "bt_get (bt_of_list (chunk_files X as k)) (chunk_file_name k) = None"
    unfolding bt_get_of_list[OF chunk_names(4)] bt_get_of_list[OF chunk_names(3)] map_of_eq_None_iff set_map[symmetric] chunk_names by auto
  have ens: "ensure_dir (bt_of_list (blob_dirs as k)) (chunk_name k) = Inr (bt_insert (chunk_name k) (DirNode []) (bt_of_list (blob_dirs as k)), [], True)"
    using fresh(1) by (simp add: ensure_dir_def)
  have n: "min (length as - ag_count (stage_after as k)) ADDITIONS_PER_CHUNK = length ?g"
    using group_before[OF assms(3)] by (simp add: stage_after_def length_group ADDITIONS_PER_CHUNK_def)
  have ord: "strictly_ordered ((case ag_previous (stage_after as k) of None \<Rightarrow> [] | Some p \<Rightarrow> [p]) @ map fst ?g)"
  proof (cases "?done = []")
    case True
    then show ?thesis using group_metadata(3)[OF assms(1,2), of k] by (simp add: stage_after_def previous_of_def metadata_of_def comp_def)
  next
    case False
    then have d: "?done = butlast ?done @ [last ?done]" by simp
    have "sorted_wrt (<) (map fst (take (Suc k * 4096) as))"
      using assms(1) by (simp add: stageable_def order_simps sorted_wrt_take flip: take_map)
    then have "sorted_wrt (<) (map fst (butlast ?done @ [last ?done] @ ?g))"
      unfolding take_groups using d by (metis append.assoc)
    then show ?thesis using False by (simp add: stage_after_def previous_of_def order_simps sorted_wrt_append)
  qed
  have bytes: "ag_bytes (stage_after as k) + content_bytes ?g < 2 ^ 64"
  proof -
    have "content_bytes (take (Suc k * 4096) as) \<le> content_bytes as"
      by (metis append_take_drop_id content_bytes_simps(3) le_add1)
    then show ?thesis
      using assms(1) unfolding take_groups by (simp add: stage_after_def stageable_def MAX_BULK_ADDITION_BYTES_def MAX_TOTAL_CANONICAL_BYTES_def)
  qed
  have rest: "ag_rest (stage_after as k) = ?g @ drop (Suc k * 4096) as" by (simp only: stage_after_def stage_state.simps drop_groups[of k as])
  have prev: "previous_of (previous_of None ?done) ?g = previous_of None (take (Suc k * 4096) as)"
    unfolding take_groups by (simp add: previous_of_def)
  have st: "stage_blobs X k 0 (length ?g) (stage_after as k) [] [] =
      Inr (stage_after as (Suc k), bt_of_list (blob_entries k ?g), map (metadata_of X) ?g)"
    using stage_blobs_group[OF rest ord bytes, of X k "[]" "[]"] prev unfolding stage_after_def take_groups
    by (simp add: blob_entries_def bt_of_list_def)
  have "write_new (bt_of_list (chunk_files X as k)) (chunk_file_name k) (chunk_bytes X k ?g) =
      Inr (bt_of_list (chunk_files X as (Suc k)))"
    by (simp add: write_new_fresh[OF _ fresh(2)] bt_of_list_snoc) (simp add: chunk_files_def)
  then show ?thesis
    using encode_group[OF assms]
    by (simp add: stage_chunk_def ens n st bt_insert_twice)
      (simp add: bt_of_list_snoc blob_dirs_def index_entries_def index_of_def)
qed

lemma stage_chunks:
  assumes "stageable X as" "blake3_length X" "n \<le> chunks_of as"
  shows "try_fold (stage_chunk X (length as)) (\<lparr>ag_rest = as, ag_count = 0, ag_bytes = 0, ag_previous = None\<rparr>, [], [], []) [0..<n] =
    Inr (stage_after as n, bt_of_list (chunk_files X as n), bt_of_list (blob_dirs as n), index_entries X as n)"
  using assms(3)
proof (induction n)
  case 0
  then show ?case by (simp add: stage_after_def chunk_files_def blob_dirs_def index_entries_def bt_of_list_def previous_of_def)
next
  case (Suc n)
  then show ?case using stage_chunk_step[OF assms(1,2), of n] by (simp add: try_fold_append)
qed

definition index_bytes :: "ext \<Rightarrow> addition list \<Rightarrow> bytes" where
  "index_bytes X as = index_header (length as) (content_bytes as) (chunks_of as) @
     concat (map index_entry_bytes (index_entries X as (chunks_of as)))"

definition additions_tree :: "ext \<Rightarrow> addition list \<Rightarrow> directory" where
  "additions_tree X as =
     [(''blobs'', DirNode (bt_of_list (blob_dirs as (chunks_of as)))), (''chunks'', DirNode (bt_of_list (chunk_files X as (chunks_of as)))),
      (''index.bin'', FileNode private_mode (index_bytes X as))]"

definition staged_document :: "ext \<Rightarrow> addition list \<Rightarrow> pending_document \<Rightarrow> pending_document" where
  "staged_document X as doc = doc\<lparr>pd_additions_count := length as, pd_additions_bytes := content_bytes as,
     pd_index_digest := blake3_hash X (index_bytes X as)\<rparr>"

lemma chunk_bytes_length:
  assumes "stageable X as" "blake3_length X"
  shows "length (chunk_bytes X k (nth_group as k)) \<le> MAX_CHUNK_BYTES"
proof -
  have "length (concat (map addition_bytes (map (metadata_of X) (nth_group as k)))) \<le> length (nth_group as k) * MAX_ENCODED_ADDITION_BYTES"
    using additions_bytes_length[OF group_metadata(1,2)[OF assms], of k] by simp
  moreover have "length (nth_group as k) \<le> 4096" by (simp add: length_group)
  ultimately show ?thesis
    by (simp add: chunk_bytes_def comp_def MAX_CHUNK_BYTES_def ADDITION_HEADER_BYTES_def ADDITIONS_PER_CHUNK_def MAX_ENCODED_ADDITION_BYTES_def)
qed

lemma index_entries_wf:
  assumes "stageable X as" "blake3_length X"
  shows "index_entries_ok 0 (index_entries X as (chunks_of as))"
proof -
  have one: "index_entry_ok k (index_of X k (nth_group as k))" if "k < chunks_of as" for k
    using chunk_bytes_length[OF assms, of k] group_before[OF that] length_group[of as k] assms(2)
    by (simp add: index_entry_ok_def index_of_def ADDITIONS_PER_CHUNK_def blake3_length_def MAX_CHUNK_BYTES_def ADDITION_HEADER_BYTES_def
        MAX_ENCODED_ADDITION_BYTES_def)
  have "index_entries_ok k (map (\<lambda>k. index_of X k (nth_group as k)) [k..<chunks_of as])" if "k \<le> chunks_of as" for k
    using that
  proof (induction "chunks_of as - k" arbitrary: k)
    case (Suc m)
    then show ?case using one[of k] by (simp add: upt_conv_Cons)
  qed simp
  then show ?thesis by (simp add: index_entries_def)
qed

lemma encode_staged_index:
  assumes "stageable X as" "blake3_length X"
  shows "encode_index (length as) (content_bytes as) (index_entries X as (chunks_of as)) = Inr (index_bytes X as)"
proof -
  have "length (index_entries X as (chunks_of as)) = chunks_of as" by (simp add: index_entries_def)
  then show ?thesis
    unfolding encode_index_Inr[OF index_entries_wf[OF assms]] using chunks_of_bound[of as] assms(1) by (simp add: stageable_def index_bytes_def)
qed

lemma stage_additions:
  assumes "stageable X as" "blake3_length X" "bt_get operation ''additions'' = None"
  shows "stage_known_additions X operation doc (length as) (content_bytes as) as =
    Inr (bt_insert ''additions'' (DirNode (additions_tree X as)) operation, staged_document X as doc)"
proof -
  have cc: "chunk_count (length as) = Inr (chunks_of as)" using chunks_of_bound[of as] assms(1) by (simp add: stageable_def)
  have v: "validate_addition_totals (length as) (content_bytes as) = Inr ()"
    using assms(1) cc by (simp add: stageable_def validate_addition_totals_def)
  have comp: "validate_component ''additions'' = Inr ()" "validate_component ''chunks'' = Inr ()" "validate_component ''blobs'' = Inr ()"
      "validate_component ''index.bin'' = Inr ()" by (simp_all add: validate_component_def)
  have fin: "ag_rest (stage_after as (chunks_of as)) = []" "ag_count (stage_after as (chunks_of as)) = length as"
      "ag_bytes (stage_after as (chunks_of as)) = content_bytes as"
  proof -
    have "length as \<le> chunks_of as * 4096" unfolding chunks_of_def by linarith
    then show "ag_rest (stage_after as (chunks_of as)) = []" "ag_count (stage_after as (chunks_of as)) = length as"
      "ag_bytes (stage_after as (chunks_of as)) = content_bytes as" by (simp_all add: stage_after_def)
  qed
  have wr: "write_new (bt_insert ''blobs'' (DirNode b) (bt_insert ''chunks'' (DirNode c) (bt_insert ''blobs'' (DirNode []) (bt_insert ''chunks'' (DirNode []) [])))) ''index.bin'' i =
      Inr [(''blobs'', DirNode b), (''chunks'', DirNode c), (''index.bin'', FileNode private_mode i)]" for b c i
    by (simp add: write_new_def create_file_def comp write_all_def less_char_def)
  show ?thesis
    using assms(3) cc v fin stage_chunks[OF assms(1,2) order_refl] encode_staged_index[OF assms(1,2)] wr
    by (simp add: stage_known_additions_def ensure_dir_def comp bt_insert_twice additions_tree_def staged_document_def Let_def bt_get_insert del: bt_insert.simps)
qed

section \<open>Reading back\<close>

lemma try_fold_concat: "try_fold f s (concat xss) = try_fold (try_fold f) s xss"
  by (induction xss arbitrary: s) (simp_all add: try_fold_append)

lemma try_fold_eq: "(\<And>s x. x \<in> set xs \<Longrightarrow> f s x = g s x) \<Longrightarrow> try_fold f s xs = try_fold g s xs"
  by (induction xs arbitrary: s) auto

definition staged :: "addition \<Rightarrow> staged_addition" where
  "staged a = \<lparr>sa_path = fst a, sa_bytes = snd a, sa_file = (private_mode, snd a)\<rparr>"

definition visit_addition ::
  "('s \<Rightarrow> staged_addition \<Rightarrow> pending_error + 's) \<Rightarrow> nat \<times> nat \<times> bytes option \<times> 's \<Rightarrow> addition \<Rightarrow>
   pending_error + nat \<times> nat \<times> bytes option \<times> 's" where
  "visit_addition visit = (\<lambda>(observed_count, observed_bytes, previous, s) a.
     if 2 ^ 64 \<le> Suc observed_count then Inl PendingInvalid
     else if 2 ^ 64 \<le> observed_bytes + length (snd a) then Inl PendingInvalid
     else if not_after previous (fst a) then Inl PendingInvalid
     else rbind (visit s (staged a)) (\<lambda>s. Inr (Suc observed_count, observed_bytes + length (snd a), Some (fst a), s)))"

lemma visit_staged_blobs:
  assumes "\<And>i. i < length as \<Longrightarrow> bt_get d (blob_name (k * ADDITIONS_PER_CHUNK + i)) = Some (FileNode private_mode (snd (as ! i)))"
  shows "try_fold (visit_blob X visit d k) z (enumerate 0 (map (metadata_of X) as)) = try_fold (visit_addition visit) z as"
proof -
  have "visit_blob X visit d k z (i, metadata_of X (as ! i)) = visit_addition visit z (as ! i)" if "i < length as" for i z
    using assms[OF that]
    by (simp add: visit_blob_def visit_addition_def split_beta open_file_def read_file_bounded_iff metadata_of_def staged_def)
  then have "try_fold (\<lambda>z i. visit_blob X visit d k z (i, metadata_of X (as ! i))) z [0..<length as] =
      try_fold (\<lambda>z i. visit_addition visit z (as ! i)) z [0..<length as]"
    by (intro try_fold_eq) simp
  moreover have "enumerate 0 (map (metadata_of X) as) = map (\<lambda>i. (i, metadata_of X (as ! i))) [0..<length as]"
    by (rule nth_equalityI) (simp_all add: nth_enumerate_eq)
  moreover have "try_fold (visit_addition visit) z as = try_fold (\<lambda>z i. visit_addition visit z (as ! i)) z [0..<length as]"
    by (subst map_nth[of as, symmetric]) (simp only: try_fold_map)
  ultimately show ?thesis by (simp add: try_fold_map)
qed

lemma visit_staged_chunk:
  assumes "stageable X as" "blake3_length X" "k < chunks_of as"
  shows "visit_chunk X visit (bt_of_list (chunk_files X as (chunks_of as))) (bt_of_list (blob_dirs as (chunks_of as))) z (index_of X k (nth_group as k)) =
    try_fold (visit_addition visit) z (nth_group as k)"
proof -
  let ?g = "nth_group as k"
  let ?b = "bt_of_list (blob_entries k ?g)"
  have fl: "bt_get (bt_of_list (chunk_files X as (chunks_of as))) (chunk_file_name k) = Some (FileNode private_mode (chunk_bytes X k ?g))"
    unfolding bt_get_of_list[OF chunk_names(3)] using assms(3)
    by (intro map_of_is_SomeI[OF chunk_names(3)]) (auto simp: chunk_files_def)
  have dir: "bt_get (bt_of_list (blob_dirs as (chunks_of as))) (chunk_name k) = Some (DirNode ?b)"
    unfolding bt_get_of_list[OF chunk_names(4)] using assms(3)
    by (intro map_of_is_SomeI[OF chunk_names(4)]) (auto simp: blob_dirs_def)
  have dec: "decode_chunk X (chunk_bytes X k ?g) = Inr (k, map (metadata_of X) ?g)"
    unfolding chunk_codec[OF group_metadata(1)[OF assms(1,2)]] by (rule encode_group[OF assms])
  have names: "require_exact_owned_names ?b (map (\<lambda>i. blob_name (k * ADDITIONS_PER_CHUNK + i)) [0..<length ?g]) = Inr ()"
    unfolding blob_entries_names[symmetric] by (rule exact_names_of_list[OF blob_entries_distinct])
  have get: "bt_get ?b (blob_name (k * ADDITIONS_PER_CHUNK + i)) = Some (FileNode private_mode (snd (?g ! i)))" if "i < length ?g" for i
    unfolding bt_get_of_list[OF blob_entries_distinct]
  proof (rule map_of_is_SomeI[OF blob_entries_distinct])
    have "blob_entries k ?g ! i = (blob_name (k * ADDITIONS_PER_CHUNK + i), FileNode private_mode (snd (?g ! i)))" "i < length (blob_entries k ?g)"
      using that by (simp_all add: blob_entries_def nth_enumerate_eq)
    then show "(blob_name (k * ADDITIONS_PER_CHUNK + i), FileNode private_mode (snd (?g ! i))) \<in> set (blob_entries k ?g)"
      by (metis nth_mem)
  qed
  show ?thesis
    using fl dir dec names visit_staged_blobs[OF get, of X visit z] chunk_bytes_length[OF assms(1,2), of k]
    by (simp add: visit_chunk_def index_of_def open_file_def open_dir_def read_file_bounded_iff)
qed

lemma visit_ordered:
  assumes "strictly_ordered ((case p of None \<Rightarrow> [] | Some q \<Rightarrow> [q]) @ map fst as)" "c + length as < 2 ^ 64" "b + content_bytes as < 2 ^ 64"
  shows "try_fold (visit_addition visit) (c, b, p, s) as =
    rbind (try_fold visit s (map staged as)) (\<lambda>s. Inr (c + length as, b + content_bytes as, previous_of p as, s))"
  using assms
proof (induction as arbitrary: c b p s)
  case Nil
  then show ?case by (simp add: previous_of_def)
next
  case (Cons a as)
  have na: "\<not> not_after p (fst a)" using Cons.prems(1) by (cases p) (auto simp: not_after_def order_simps)
  have so: "strictly_ordered ((case Some (fst a) of None \<Rightarrow> [] | Some q \<Rightarrow> [q]) @ map fst as)"
    using Cons.prems(1) by (cases p) (auto simp: order_simps)
  have IH: "try_fold (visit_addition visit) (Suc c, b + length (snd a), Some (fst a), s) as =
      rbind (try_fold visit s (map staged as)) (\<lambda>s. Inr (Suc c + length as, b + length (snd a) + content_bytes as, previous_of (Some (fst a)) as, s))" for s
    using Cons.prems(2,3) by (intro Cons.IH[OF so]) simp_all
  have "previous_of (Some (fst a)) as = previous_of p (a # as)" by (simp add: previous_of_def)
  then show ?case
    using na Cons.prems(2,3) by (simp add: visit_addition_def[of visit, THEN fun_cong, THEN fun_cong, of "(c, b, p, s)" a] IH rbind_assoc add.assoc)
qed

lemma read_staged:
  assumes "stageable X as" "blake3_length X" "bt_get operation ''additions'' = Some (DirNode (additions_tree X as))"
  shows "for_each_addition X visit operation (staged_document X as doc) s = try_fold visit s (map staged as)"
proof -
  let ?n = "chunks_of as"
  let ?chunks = "bt_of_list (chunk_files X as ?n)" and ?blobs = "bt_of_list (blob_dirs as ?n)"
  have comp: "validate_component ''additions'' = Inr ()" "validate_component ''chunks'' = Inr ()" "validate_component ''blobs'' = Inr ()"
      "validate_component ''index.bin'' = Inr ()" by (simp_all add: validate_component_def)
  have lens: "length as < 2 ^ 64" "content_bytes as < 2 ^ 64" "?n \<le> 245" "strictly_ordered (map fst as)"
    using assms(1) chunks_of_bound[of as]
    by (simp_all add: stageable_def MAX_BULK_ADDITIONS_def MAX_CANONICAL_ENTRIES_def MAX_BULK_ADDITION_BYTES_def MAX_TOTAL_CANONICAL_BYTES_def MAX_ADDITION_CHUNKS_def)
  have dec: "decode_index (index_bytes X as) = Inr (length as, content_bytes as, index_entries X as ?n)"
    unfolding index_codec[OF lens(1,2)] using encode_staged_index[OF assms(1,2)] index_entries_wf[OF assms(1,2)] by simp
  have size: "length (index_bytes X as) \<le> MAX_ADDITION_INDEX_BYTES"
    using index_bytes_length[OF index_entries_wf[OF assms(1,2)]] lens(3) by (simp add: index_bytes_def index_entries_def MAX_ADDITION_INDEX_BYTES_def)
  have names: "require_exact_owned_names (additions_tree X as) [''blobs'', ''chunks'', ''index.bin''] = Inr ()"
    by (simp add: require_exact_owned_names_def bounded_names_def additions_tree_def bt_keys_def less_char_def)
  have cn: "require_exact_owned_names ?chunks (map (\<lambda>e. chunk_file_name (ie_number e)) (index_entries X as ?n)) = Inr ()"
      "require_exact_owned_names ?blobs (map (\<lambda>e. chunk_name (ie_number e)) (index_entries X as ?n)) = Inr ()"
    using exact_names_of_list[OF chunk_names(3), of X as ?n] exact_names_of_list[OF chunk_names(4), of as ?n]
    by (simp_all add: chunk_names(1,2) index_entries_def index_of_def comp_def)
  have "try_fold (visit_chunk X visit ?chunks ?blobs) (0, 0, None, s) (index_entries X as ?n) =
      try_fold (\<lambda>z k. try_fold (visit_addition visit) z (nth_group as k)) (0, 0, None, s) [0..<?n]"
    unfolding index_entries_def try_fold_map by (rule try_fold_eq) (simp add: visit_staged_chunk[OF assms(1,2)])
  also have "\<dots> = try_fold (visit_addition visit) (0, 0, None, s) as"
    by (subst (2) all_groups[symmetric]) (simp add: try_fold_concat try_fold_map)
  also have "\<dots> = rbind (try_fold visit s (map staged as)) (\<lambda>s. Inr (length as, content_bytes as, previous_of None as, s))"
    using visit_ordered[of None as 0 0 visit s] lens by simp
  finally have visits: "try_fold (visit_chunk X visit ?chunks ?blobs) (0, 0, None, s) (index_entries X as ?n) =
      rbind (try_fold visit s (map staged as)) (\<lambda>s. Inr (length as, content_bytes as, previous_of None as, s))" .
  have get: "bt_get (additions_tree X as) ''index.bin'' = Some (FileNode private_mode (index_bytes X as))"
      "bt_get (additions_tree X as) ''chunks'' = Some (DirNode ?chunks)" "bt_get (additions_tree X as) ''blobs'' = Some (DirNode ?blobs)"
    by (simp_all add: additions_tree_def)
  have ret: "rbind m (\<lambda>s. Inr s) = m" for m :: "pending_error + 's" by (cases m) simp_all
  show ?thesis
    using assms(3) comp get dec size names cn visits
    by (simp add: for_each_addition_def open_dir_def open_file_def read_file_bounded_iff staged_document_def rbind_assoc ret)
qed

text \<open>
  C21: Staged additions are read back. Additions in strict path order, at canonical paths and within the
  bounds of a store are staged into an operation directory that has none; walking the staged files under
  the document that staging returns then visits exactly these additions in their order, with their bytes,
  and the document declares their number and total size.
\<close>

theorem staged_additions_read_back:
  assumes "stageable X as" "blake3_length X" "bt_get operation ''additions'' = None"
  shows "\<exists>operation' doc'.
    stage_known_additions X operation doc (length as) (content_bytes as) as = Inr (operation', doc') \<and>
    pd_additions_count doc' = length as \<and> pd_additions_bytes doc' = content_bytes as \<and>
    for_each_addition X visit operation' doc' s = try_fold visit s (map staged as)"
  using stage_additions[OF assms, of doc] read_staged[OF assms(1,2), of "bt_insert ''additions'' (DirNode (additions_tree X as)) operation" visit doc s]
  by (auto simp: bt_get_insert staged_document_def)

end
