(* ===== verification/Wj_Staging_Binding.thy ===== *)
theory Wj_Staging_Binding
  imports Wj_Staging_Laws
begin

text \<open>The digest of the addition index binds the staged additions up to hash collisions.\<close>

section \<open>Files of a tree\<close>

function (sequential) files_of :: "node \<Rightarrow> bytes list" where
  "files_of (DirNode es) = concat (map (\<lambda>e. files_of (snd e)) es)"
| "files_of (FileNode _ bs) = [bs]"
| "files_of _ = []"
  by pat_completeness auto
termination
  by (relation "measure size") (auto simp: size_list_estimation' less_Suc_eq_le intro!: order.trans[OF _ size_list_estimation'])

lemma files_of_get: "bt_get d name = Some n \<Longrightarrow> b \<in> set (files_of n) \<Longrightarrow> b \<in> set (files_of (DirNode d))"
  using map_of_SomeD[of d name n] by (force simp: bt_get_map_of)

section \<open>What a successful walk has read\<close>

definition collect_addition :: "addition list \<Rightarrow> staged_addition \<Rightarrow> pending_error + addition list" where
  "collect_addition as a = Inr (as @ [(sa_path a, sa_bytes a)])"

definition blob_read :: "ext \<Rightarrow> directory \<Rightarrow> addition_entry \<Rightarrow> addition \<Rightarrow> bool" where
  "blob_read X d m a \<longleftrightarrow>
     fst a = ae_path m \<and> blake3_hash X (snd a) = ae_digest m \<and> snd a \<in> set (files_of (DirNode d))"

definition group_read :: "ext \<Rightarrow> directory \<Rightarrow> index_entry \<Rightarrow> addition list \<Rightarrow> bool" where
  "group_read X d e as \<longleftrightarrow>
     (\<exists>encoded n metadata. encoded \<in> set (files_of (DirNode d)) \<and> blake3_hash X encoded = ie_digest e \<and>
        decode_chunk X encoded = Inr (n, metadata) \<and> list_all2 (blob_read X d) metadata as)"

lemma open_file_read:
  "open_file d name = Inr f \<Longrightarrow> read_file_bounded (snd f) limit = Inr bs \<Longrightarrow> bs \<in> set (files_of (DirNode d))"
  using files_of_get[of d name "FileNode (fst f) bs" bs]
  by (auto simp: open_file_def read_file_bounded_iff rbind_Inr_iff split: option.splits node.splits if_splits)

lemma open_dir_files: "open_dir d name = Inr es \<Longrightarrow> set (files_of (DirNode es)) \<subseteq> set (files_of (DirNode d))"
  using files_of_get[of d name "DirNode es"] by (auto simp: open_dir_def rbind_Inr_iff simp del: files_of.simps split: option.splits node.splits)

lemma visit_blob_read:
  assumes "visit_blob X collect_addition d k (c, b, p, as) (i, m) = Inr z"
  shows "\<exists>bs c' b' p'. blob_read X d m (ae_path m, bs) \<and> z = (c', b', p', as @ [(ae_path m, bs)])"
proof -
  from assms obtain f bs where s: "open_file d (blob_name (k * ADDITIONS_PER_CHUNK + i)) = Inr f" "read_file_bounded (snd f) (ae_length m) = Inr bs"
      "blake3_hash X bs = ae_digest m" "z = (Suc c, b + ae_length m, Some (ae_path m), as @ [(ae_path m, bs)])"
    unfolding visit_blob_def prod.case rbind_Inr_iff map_err_Inr_iff if_Inr_iff collect_addition_def by auto
  then show ?thesis using open_file_read[OF s(1,2)] by (auto simp: blob_read_def simp del: files_of.simps)
qed

lemma visit_blobs_read:
  assumes "try_fold (visit_blob X collect_addition d k) (c, b, p, as) ms = Inr (c', b', p', as')"
  shows "\<exists>bs. as' = as @ bs \<and> list_all2 (blob_read X d) (map snd ms) bs"
  using assms
proof (induction ms arbitrary: c b p as)
  case (Cons im ms)
  obtain i m where im: "im = (i, m)" by fastforce
  from Cons.prems obtain z where z: "visit_blob X collect_addition d k (c, b, p, as) (i, m) = Inr z"
      "try_fold (visit_blob X collect_addition d k) z ms = Inr (c', b', p', as')"
    by (auto simp: im rbind_Inr_iff)
  obtain bs c1 b1 p1 where r: "blob_read X d m (ae_path m, bs)" "z = (c1, b1, p1, as @ [(ae_path m, bs)])"
    using visit_blob_read[OF z(1)] by blast
  show ?case using Cons.IH[OF z(2)[unfolded r(2)]] r(1) by (auto simp: im)
qed simp

lemma visit_chunk_read:
  assumes "visit_chunk X collect_addition chunks blobs (c, b, p, as) e = Inr z"
    and "set (files_of (DirNode chunks)) \<subseteq> set (files_of (DirNode d))" "set (files_of (DirNode blobs)) \<subseteq> set (files_of (DirNode d))"
  shows "\<exists>bs c' b' p'. group_read X d e bs \<and> z = (c', b', p', as @ bs)"
proof -
  obtain c1 b1 p1 as1 where z: "z = (c1, b1, p1, as1)" by (metis prod.collapse)
  from assms(1) obtain f encoded nm blob_chunk where s:
      "open_file chunks (chunk_file_name (ie_number e)) = Inr f" "read_file_bounded (snd f) MAX_CHUNK_BYTES = Inr encoded"
      "blake3_hash X encoded = ie_digest e" "decode_chunk X encoded = Inr nm"
      "open_dir blobs (chunk_name (ie_number e)) = Inr blob_chunk"
      "try_fold (visit_blob X collect_addition blob_chunk (ie_number e)) (c, b, p, as) (enumerate 0 (snd nm)) = Inr z"
    unfolding visit_chunk_def split_beta rbind_Inr_iff map_err_Inr_iff if_Inr_iff by blast
  obtain bs where bs: "as1 = as @ bs" "list_all2 (blob_read X blob_chunk) (snd nm) bs"
    using visit_blobs_read[OF s(6)[unfolded z]] by auto
  have "list_all2 (blob_read X d) (snd nm) bs"
    using bs(2) by (rule list_all2_mono) (use open_dir_files[OF s(5)] assms(3) in \<open>auto simp: blob_read_def simp del: files_of.simps\<close>)
  moreover have "encoded \<in> set (files_of (DirNode d))" using open_file_read[OF s(1,2)] assms(2) by blast
  ultimately have "group_read X d e bs" using s(3,4) unfolding group_read_def by (metis prod.collapse)
  then show ?thesis using z bs(1) by blast
qed

lemma visit_chunks_read:
  assumes "try_fold (visit_chunk X collect_addition chunks blobs) (c, b, p, as) es = Inr (c', b', p', as')"
    and sub: "set (files_of (DirNode chunks)) \<subseteq> set (files_of (DirNode d))" "set (files_of (DirNode blobs)) \<subseteq> set (files_of (DirNode d))"
  shows "\<exists>gs. as' = as @ concat gs \<and> list_all2 (group_read X d) es gs"
  using assms(1)
proof (induction es arbitrary: c b p as)
  case (Cons e es)
  from Cons.prems obtain z where z: "visit_chunk X collect_addition chunks blobs (c, b, p, as) e = Inr z"
      "try_fold (visit_chunk X collect_addition chunks blobs) z es = Inr (c', b', p', as')"
    by (auto simp: rbind_Inr_iff)
  obtain bs c1 b1 p1 where r: "group_read X d e bs" "z = (c1, b1, p1, as @ bs)" using visit_chunk_read[OF z(1) sub] by blast
  obtain gs where "as' = (as @ bs) @ concat gs" "list_all2 (group_read X d) es gs" using Cons.IH[OF z(2)[unfolded r(2)]] by blast
  then show ?case using r(1) by (intro exI[of _ "bs # gs"]) simp
qed auto

lemma walk_read:
  assumes "for_each_addition X collect_addition operation doc [] = Inr as"
  shows "\<exists>index n t es gs. index \<in> set (files_of (DirNode operation)) \<and> blake3_hash X index = pd_index_digest doc \<and>
    decode_index index = Inr (n, t, es) \<and> as = concat gs \<and> list_all2 (group_read X operation) es gs"
proof -
  from assms obtain additions f index nte chunks blobs z where s:
      "open_dir operation ''additions'' = Inr additions" "open_file additions ''index.bin'' = Inr f"
      "read_file_bounded (snd f) MAX_ADDITION_INDEX_BYTES = Inr index" "blake3_hash X index = pd_index_digest doc"
      "decode_index index = Inr nte" "open_dir additions ''chunks'' = Inr chunks" "open_dir additions ''blobs'' = Inr blobs"
      "try_fold (visit_chunk X collect_addition chunks blobs) (0, 0, None, []) (snd (snd nte)) = Inr z" "snd (snd (snd z)) = as"
    unfolding for_each_addition_def split_beta rbind_Inr_iff map_err_Inr_iff if_Inr_iff sum.inject by blast
  obtain n t es where nte: "nte = (n, t, es)" by (metis prod.collapse)
  obtain c b p where z: "z = (c, b, p, as)" using s(9) by (metis prod.collapse)
  note up = open_dir_files[OF s(1)]
  have "set (files_of (DirNode chunks)) \<subseteq> set (files_of (DirNode operation))" "set (files_of (DirNode blobs)) \<subseteq> set (files_of (DirNode operation))"
    using open_dir_files[OF s(6)] open_dir_files[OF s(7)] up by blast+
  from visit_chunks_read[OF _ this, of X 0 0 None "[]" es c b p as] s(8)
  obtain gs where "as = concat gs" "list_all2 (group_read X operation) es gs" by (auto simp: nte z)
  moreover have "index \<in> set (files_of (DirNode operation))" using up open_file_read[OF s(2,3)] by blast
  ultimately show ?thesis using s(4,5) nte by blast
qed

section \<open>Binding\<close>

text \<open>Two files of the trees that differ and have one hash.\<close>

definition staged_collision :: "ext \<Rightarrow> directory \<Rightarrow> directory \<Rightarrow> bool" where
  "staged_collision X d d' \<longleftrightarrow>
     (\<exists>a\<in>set (files_of (DirNode d)). \<exists>b\<in>set (files_of (DirNode d')). a \<noteq> b \<and> blake3_hash X a = blake3_hash X b)"

lemma no_collision:
  "\<not> staged_collision X d d' \<Longrightarrow> a \<in> set (files_of (DirNode d)) \<Longrightarrow> b \<in> set (files_of (DirNode d')) \<Longrightarrow>
   blake3_hash X a = blake3_hash X b \<Longrightarrow> a = b"
  by (auto simp: staged_collision_def simp del: files_of.simps)

lemma blobs_unique:
  assumes "\<not> staged_collision X d d'" "list_all2 (blob_read X d) ms as" "list_all2 (blob_read X d') ms bs"
  shows "as = bs"
  using assms(2,3)
proof (induction ms arbitrary: as bs)
  case (Cons m ms)
  then obtain a as' b bs' where l: "as = a # as'" "bs = b # bs'" "blob_read X d m a" "blob_read X d' m b"
      "list_all2 (blob_read X d) ms as'" "list_all2 (blob_read X d') ms bs'"
    by (auto simp: list_all2_Cons1)
  have "snd a = snd b" using no_collision[OF assms(1), of "snd a" "snd b"] l(3,4) by (simp add: blob_read_def del: files_of.simps)
  then have "a = b" using l(3,4) by (simp add: blob_read_def prod_eq_iff)
  then show ?case using Cons.IH l by simp
qed simp

lemma groups_unique:
  assumes "\<not> staged_collision X d d'" "list_all2 (group_read X d) es gs" "list_all2 (group_read X d') es hs"
  shows "gs = hs"
  using assms(2,3)
proof (induction es arbitrary: gs hs)
  case (Cons e es)
  then obtain g gs' h hs' where l: "gs = g # gs'" "hs = h # hs'" "group_read X d e g" "group_read X d' e h"
      "list_all2 (group_read X d) es gs'" "list_all2 (group_read X d') es hs'"
    by (auto simp: list_all2_Cons1)
  obtain enc n ms where e: "enc \<in> set (files_of (DirNode d))" "blake3_hash X enc = ie_digest e" "decode_chunk X enc = Inr (n, ms)"
      "list_all2 (blob_read X d) ms g" using l(3) unfolding group_read_def by blast
  obtain enc' n' ms' where e': "enc' \<in> set (files_of (DirNode d'))" "blake3_hash X enc' = ie_digest e" "decode_chunk X enc' = Inr (n', ms')"
      "list_all2 (blob_read X d') ms' h" using l(4) unfolding group_read_def by blast
  have "enc = enc'" using no_collision[OF assms(1) e(1) e'(1)] e(2) e'(2) by simp
  then have "ms = ms'" using e(3) e'(3) by simp
  then have "g = h" using blobs_unique[OF assms(1) e(4)] e'(4) by simp
  then show ?case using Cons.IH l by simp
qed simp

text \<open>
  C22: The digest of the index binds the additions. When the additions staged in two operation directories
  are walked under documents with the same index digest, the same paths and bytes are visited in the same
  order, or two different files of the directories have the same BLAKE3 hash.
\<close>

theorem index_digest_binds:
  assumes "for_each_addition X collect_addition operation doc [] = Inr as"
    and "for_each_addition X collect_addition operation' doc' [] = Inr as'"
    and "pd_index_digest doc = pd_index_digest doc'"
  shows "as = as' \<or> staged_collision X operation operation'"
proof (cases "staged_collision X operation operation'")
  case False
  obtain index n t es gs where r: "index \<in> set (files_of (DirNode operation))" "blake3_hash X index = pd_index_digest doc"
      "decode_index index = Inr (n, t, es)" "as = concat gs" "list_all2 (group_read X operation) es gs"
    using walk_read[OF assms(1)] by blast
  obtain index' n' t' es' gs' where r': "index' \<in> set (files_of (DirNode operation'))" "blake3_hash X index' = pd_index_digest doc'"
      "decode_index index' = Inr (n', t', es')" "as' = concat gs'" "list_all2 (group_read X operation') es' gs'"
    using walk_read[OF assms(2)] by blast
  have "index = index'" using no_collision[OF False r(1) r'(1)] r(2) r'(2) assms(3) by simp
  then have "es = es'" using r(3) r'(3) by simp
  then show ?thesis using groups_unique[OF False r(5)] r'(4,5) r(4) by simp
qed simp

end
