(* ===== verification/Wj_View.thy ===== *)
theory Wj_View
  imports Wj_Transaction
begin

text \<open>
  The visible store as a set of entries. Publishing a file of a batch extends that set by the file and
  its parent directories; collecting and scanning a store depend on it only. The theory ends with the
  facts that a successful preview of a batch gives about the store and the batch.
\<close>

section \<open>The visible entries\<close>

definition view :: "ext \<Rightarrow> store_dirs \<Rightarrow> (bytes \<times> visit_item) set" where
  "view X s = set (visible_items X s)"

lemma set_bt_insert: "bt_wf m \<Longrightarrow> set (bt_insert k v m) = insert (k, v) {e \<in> set m. fst e \<noteq> k}"
proof -
  assume wf: "bt_wf m"
  have "(a, b) \<in> set (bt_insert k v m) \<longleftrightarrow> (a, b) \<in> insert (k, v) {e \<in> set m. fst e \<noteq> k}" for a b
    using bt_get_Some_iff[OF bt_wf_insert[OF wf], of k v a b] bt_get_Some_iff[OF wf, of a b]
    by (auto simp: bt_get_insert split: if_splits)
  then show ?thesis by auto
qed

lemma visited_insert:
  assumes "bt_wf es"
    and "\<And>m. bt_get es k = Some m \<Longrightarrow> set (visit_entry X p k m) \<subseteq> set (visit_entry X p k n)"
  shows "set (visited X p (bt_insert k n es)) = set (visited X p es) \<union> set (visit_entry X p k n)"
proof -
  have "set (visit_entry X p a b) \<subseteq> set (visit_entry X p k n)" if "(a, b) \<in> set es" "a = k" for a b
    using that assms bt_get_Some_iff by metis
  then show ?thesis
    unfolding set_visited set_bt_insert[OF assms(1)] by fastforce
qed

lemma entry_visited: "bt_wf es \<Longrightarrow> bt_get es k = Some n \<Longrightarrow> set (visit_entry X p k n) \<subseteq> set (visited X p es)"
  by (auto simp: set_visited bt_get_Some_iff)

lemma dir_wf_insert:
  assumes "dir_wf es" "validate_component k = Inr ()" "node_wf n"
  shows "dir_wf (bt_insert k n es)"
proof -
  have "bt_wf es" using assms(1) by simp
  then show ?thesis
    using assms by (auto simp: bt_wf_insert list_all_iff set_bt_insert)
qed

lemma canonical_journal_dirs:
  "valid_canonical_directory X ''journal/records''" "valid_canonical_directory X ''journal/batches''"
  by (simp_all add: valid_canonical_directory_def is_str_def from_utf8_def)

text \<open>The entries outside the two directories that transactions write to.\<close>

definition outer_view :: "ext \<Rightarrow> store_dirs \<Rightarrow> (bytes \<times> visit_item) set" where
  "outer_view X s =
     set (visited X ''batches'' (batches_dir s)) \<union> set (visited X ''events'' (events_dir s)) \<union>
     set (visited X ''journal'' (filter (\<lambda>e. fst e \<noteq> ''records'' \<and> fst e \<noteq> ''batches'') (journal_rest s))) \<union>
     {(''journal/records'', VDir), (''journal/batches'', VDir)}"

lemma view_eq:
  assumes "bt_wf (journal_rest s)"
  shows "view X s = outer_view X s \<union> set (visited X ''journal/records'' (records_dir s)) \<union>
    set (visited X ''journal/batches'' (journal_batches_dir s))"
proof -
  have j: "set (journal_dir s) = {(''records'', DirNode (records_dir s)), (''batches'', DirNode (journal_batches_dir s))} \<union>
      {e \<in> set (journal_rest s). fst e \<noteq> ''records'' \<and> fst e \<noteq> ''batches''}"
    using assms by (auto simp: journal_dir_def set_bt_insert bt_wf_insert)
  have "set (visited X ''journal'' (journal_dir s)) =
      set (visited X ''journal'' (filter (\<lambda>e. fst e \<noteq> ''records'' \<and> fst e \<noteq> ''batches'') (journal_rest s))) \<union>
      set (visit_entry X ''journal'' ''records'' (DirNode (records_dir s))) \<union>
      set (visit_entry X ''journal'' ''batches'' (DirNode (journal_batches_dir s)))"
    unfolding set_visited j by auto
  then show ?thesis
    using canonical_journal_dirs[of X]
    by (auto simp: view_def visible_items_def outer_view_def visit_entry_simps)
qed

section \<open>Entries of a scanned store\<close>

text \<open>A store that scans has only directories and canonical files below its roots.\<close>

definition clean_view :: "ext \<Rightarrow> (bytes \<times> visit_item) set \<Rightarrow> bool" where
  "clean_view X V \<longleftrightarrow> (\<forall>(p, i)\<in>V. case i of VDir \<Rightarrow> True | VFile _ \<Rightarrow> is_canonical (classify_path X p) | VSpecial \<Rightarrow> False)"

lemma clean_viewD:
  "clean_view X V \<Longrightarrow> (p, VFile bs) \<in> V \<Longrightarrow> is_canonical (classify_path X p)"
  "clean_view X V \<Longrightarrow> (p, VSpecial) \<notin> V"
  by (auto simp: clean_view_def)

text \<open>In such a store the node at the path of a canonical directory is absent or a directory.\<close>

lemma directory_node:
  assumes clean: "clean_view X (set (visited X p es))" and wf: "bt_wf es"
    and valid: "valid_canonical_directory X (p @ ''/'' @ k)"
    and ncan: "\<not> is_canonical (classify_path X (p @ ''/'' @ k))"
    and get: "bt_get es k = Some n"
  obtains cs where "n = DirNode cs"
proof -
  have sub: "set (visit_entry X p k n) \<subseteq> set (visited X p es)"
    using wf get by (rule entry_visited)
  show thesis
  proof (cases n)
    case (FileNode m bs)
    then have "(p @ ''/'' @ k, VFile bs) \<in> set (visited X p es)"
      using sub by (auto simp: visit_entry_simps)
    then show thesis using clean_viewD(1)[OF clean] ncan by blast
  next
    case SymlinkNode
    then have "(p @ ''/'' @ k, VSpecial) \<in> set (visited X p es)"
      using sub by (auto simp: visit_entry_simps)
    then show thesis using clean_viewD(2)[OF clean] by blast
  next
    case SpecialNode
    then have "(p @ ''/'' @ k, VSpecial) \<in> set (visited X p es)"
      using sub by (auto simp: visit_entry_simps)
    then show thesis using clean_viewD(2)[OF clean] by blast
  qed (rule that)
qed

lemma ensure_synced_view:
  assumes wf: "dir_wf es" and clean: "clean_view X (set (visited X p es))"
    and comp: "validate_component k = Inr ()"
    and valid: "valid_canonical_directory X (p @ ''/'' @ k)"
    and ncan: "\<not> is_canonical (classify_path X (p @ ''/'' @ k))"
  shows "\<exists>es' cs. ensure_synced k es = Inr es' \<and> bt_get es' k = Some (DirNode cs) \<and> dir_wf es' \<and>
    set (visited X p es') = insert (p @ ''/'' @ k, VDir) (set (visited X p es))"
proof (cases "bt_get es k")
  case None
  have "set (visited X p (bt_insert k (DirNode []) es)) = insert (p @ ''/'' @ k, VDir) (set (visited X p es))"
    using wf None valid by (subst visited_insert) (auto simp: visit_entry_simps)
  moreover have "dir_wf (bt_insert k (DirNode []) es)"
    using wf comp by (rule dir_wf_insert) simp
  ultimately show ?thesis
    using None comp by (auto simp: ensure_synced_def ensure_dir_def bt_get_insert simp del: node_wf.simps)
next
  case (Some n)
  have "bt_wf es" using wf by simp
  then obtain cs where n: "n = DirNode cs"
    using directory_node[OF clean _ valid ncan Some] by blast
  have "(p @ ''/'' @ k, VDir) \<in> set (visit_entry X p k n)"
    using n valid by (simp add: visit_entry_simps)
  then have "(p @ ''/'' @ k, VDir) \<in> set (visited X p es)"
    using entry_visited[OF \<open>bt_wf es\<close> Some] by blast
  then show ?thesis
    using Some n comp wf by (auto simp: ensure_synced_def ensure_dir_def insert_absorb simp del: node_wf.simps)
qed

lemma sub_visited:
  assumes "bt_wf es" "bt_get es k = Some (DirNode cs)" "valid_canonical_directory X (p @ ''/'' @ k)"
  shows "set (visited X (p @ ''/'' @ k) cs) \<subseteq> set (visited X p es)"
  using entry_visited[OF assms(1,2), of X p] assms(3) by (simp add: visit_entry_simps)

lemma dir_wf_child: "dir_wf es \<Longrightarrow> bt_get es k = Some (DirNode cs) \<Longrightarrow> dir_wf cs"
proof -
  assume "dir_wf es" "bt_get es k = Some (DirNode cs)"
  then have "(k, DirNode cs) \<in> set es"
    using bt_get_Some_iff[of es k "DirNode cs"] by simp
  then show ?thesis
    using \<open>dir_wf es\<close> by (fastforce simp: list_all_iff)
qed

lemma in_dir_view:
  assumes wf: "dir_wf es" and comp: "validate_component k = Inr ()"
    and get: "bt_get es k = Some (DirNode cs)" and f: "f cs = Inr cs'" "dir_wf cs'"
    and valid: "valid_canonical_directory X (p @ ''/'' @ k)"
    and grow: "set (visited X (p @ ''/'' @ k) cs') = set (visited X (p @ ''/'' @ k) cs) \<union> N"
  shows "\<exists>es'. in_dir k f es = Inr es' \<and> bt_get es' k = Some (DirNode cs') \<and> dir_wf es' \<and>
    set (visited X p es') = set (visited X p es) \<union> N"
proof -
  have bwf: "bt_wf es" using wf by simp
  have "set (visited X p (bt_insert k (DirNode cs') es)) =
      set (visited X p es) \<union> set (visit_entry X p k (DirNode cs'))"
    using bwf get valid grow by (intro visited_insert) (auto simp: visit_entry_simps)
  moreover have "(p @ ''/'' @ k, VDir) \<in> set (visited X p es)"
    using entry_visited[OF bwf get, of X p] valid by (simp add: visit_entry_simps)
  ultimately have "set (visited X p (bt_insert k (DirNode cs') es)) = set (visited X p es) \<union> N"
    using valid grow sub_visited[OF bwf get valid] by (auto simp: visit_entry_simps)
  moreover have "dir_wf (bt_insert k (DirNode cs') es)"
    using wf comp f(2) by (rule dir_wf_insert)
  ultimately show ?thesis
    using in_dir_eq[of k es cs f cs'] comp get f(1) by (simp add: bt_get_insert del: node_wf.simps)
qed

lemma link_view:
  assumes wf: "dir_wf es" and comp: "validate_component k = Inr ()"
    and can: "\<not> valid_canonical_directory X (p @ ''/'' @ k)"
    and same: "\<And>i. (p @ ''/'' @ k, i) \<in> set (visited X p es) \<Longrightarrow> i = VFile bs"
    and bs: "bs \<noteq> []"
  shows "\<exists>es'. link_fd_no_clobber (m, bs) k bs es = Inr es' \<and> dir_wf es' \<and>
    set (visited X p es') = insert (p @ ''/'' @ k, VFile bs) (set (visited X p es))"
proof (cases "bt_get es k")
  case None
  have "set (visited X p (bt_insert k (FileNode m bs) es)) = insert (p @ ''/'' @ k, VFile bs) (set (visited X p es))"
    using wf None by (subst visited_insert) (auto simp: visit_entry_simps)
  moreover have "dir_wf (bt_insert k (FileNode m bs) es)"
    using wf comp by (rule dir_wf_insert) simp
  ultimately show ?thesis
    using None comp by (simp add: link_fd_no_clobber_def del: node_wf.simps)
next
  case (Some n)
  have "bt_wf es" using wf by simp
  then have sub: "set (visit_entry X p k n) \<subseteq> set (visited X p es)"
    using Some by (intro entry_visited)
  obtain m' bs' where n: "n = FileNode m' bs'"
    using bs can same sub by (cases n) (auto simp: visit_entry_simps)
  then have "bs' = bs" and mem: "(p @ ''/'' @ k, VFile bs) \<in> set (visited X p es)"
    using sub same[of "VFile bs'"] by (auto simp: visit_entry_simps)
  then show ?thesis
    using Some n comp wf
    by (auto simp: link_fd_no_clobber_def open_file_def read_file_bounded_iff insert_absorb simp del: node_wf.simps)
qed

section \<open>Publishing one record\<close>

lemma domain_component:
  assumes "domain_id_from_str d = Inr d"
  shows "validate_component d = Inr ()"
proof -
  have tok: "parse_namespaced_token d CHR ''.'' ''domain id'' = Inr d"
    using assms by (simp add: domain_id_from_str_def)
  have "CHR 0x00 \<notin> set d"
    using token_bytes[OF tok, of "CHR 0x00"] by (auto simp: segment_tail_byte_def lower_byte_def less_eq_char_def)
  moreover have "d \<noteq> ''.''" "d \<noteq> ''..''"
    using tok by (auto simp: token_Inr_iff valid_segment_def)
  ultimately show ?thesis
    using domain_id_plain[OF assms] by (simp add: validate_component_def)
qed

lemma record_dirs:
  assumes "uuid_roundtrip X" "uuid_plain X" "domain_id_from_str d = Inr d" "entity_ok X e"
  defines "domd \<equiv> ''journal/records'' @ ''/'' @ d"
  defines "entd \<equiv> domd @ ''/'' @ uuid_to_string X e"
  shows "valid_canonical_directory X domd" "\<not> is_canonical (classify_path X domd)"
    and "valid_canonical_directory X entd" "\<not> is_canonical (classify_path X entd)"
    and "\<not> valid_canonical_directory X (entd @ ''/'' @ uuid_to_string X r @ ''.json'')"
    and "record_path X d e r = entd @ ''/'' @ uuid_to_string X r @ ''.json''"
proof -
  have plain: "CHR ''/'' \<notin> set d" "CHR ''/'' \<notin> set (uuid_to_string X e)" "CHR ''/'' \<notin> set (uuid_to_string X r)" for r
    using domain_id_plain(1)[OF assms(3)] uuid_no_slash[OF assms(2)] by auto
  have split: "split_on CHR ''/'' domd = [''journal'', ''records'', d]"
      "split_on CHR ''/'' entd = [''journal'', ''records'', d, uuid_to_string X e]"
      "split_on CHR ''/'' (entd @ ''/'' @ uuid_to_string X r @ ''.json'') =
        [''journal'', ''records'', d, uuid_to_string X e, uuid_to_string X r @ ''.json'']"
    using plain by (simp_all add: domd_def entd_def split_on_plain split_on_append_sep)
  have str: "is_str domd" "is_str entd"
    using domain_id_plain(2)[OF assms(3)] uuid_ascii[OF assms(2)]
    by (auto intro!: is_str_ascii simp: domd_def entd_def is_ascii_Cons)
  have "is_ok (entity_id_from_str X (uuid_to_string X e))"
    using assms(1,4) by (auto simp: entity_id_is_ok uuid_string_parse)
  then show "valid_canonical_directory X domd" "valid_canonical_directory X entd"
    "\<not> valid_canonical_directory X (entd @ ''/'' @ uuid_to_string X r @ ''.json'')"
    using split str assms(3) by (simp_all add: valid_canonical_directory_def)
  show "\<not> is_canonical (classify_path X domd)" "\<not> is_canonical (classify_path X entd)"
    using canonical_parts[of X domd] canonical_parts[of X entd] split by auto
  show "record_path X d e r = entd @ ''/'' @ uuid_to_string X r @ ''.json''"
    by (simp add: record_path_def domd_def entd_def)
qed

definition record_parents :: "string \<Rightarrow> (bytes \<times> visit_item) set" where
  "record_parents path = (\<lambda>q. (q, VDir)) ` {q \<in> parent_dirs path. q \<noteq> ''journal/records''}"

lemma record_parents_eq:
  assumes "uuid_plain X" "domain_id_from_str d = Inr d"
  defines "domd \<equiv> ''journal/records'' @ ''/'' @ d"
  shows "record_parents (record_path X d e r) = {(domd, VDir), (domd @ ''/'' @ uuid_to_string X e, VDir)}"
proof -
  have plain: "CHR ''/'' \<notin> set d" "CHR ''/'' \<notin> set (uuid_to_string X e)" "CHR ''/'' \<notin> set (uuid_to_string X r @ ''.json'')"
    using domain_id_plain(1)[OF assms(2)] uuid_no_slash[OF assms(1)] by auto
  let ?u = "uuid_to_string X e" and ?f = "uuid_to_string X r @ ''.json''"
  have "parent_dirs (''journal'' @ CHR ''/'' # ''records'') = {}"
    by (subst parent_dirs_last) (simp_all add: canonical_root_def)
  then have "parent_dirs ((''journal'' @ CHR ''/'' # ''records'') @ CHR ''/'' # d) = {''journal/records''}"
    by (subst parent_dirs_last[OF plain(1)]) (simp_all add: canonical_root_def)
  then have "parent_dirs (((''journal'' @ CHR ''/'' # ''records'') @ CHR ''/'' # d) @ CHR ''/'' # ?u) =
      {domd, ''journal/records''}"
    by (subst parent_dirs_last[OF plain(2)]) (simp_all add: canonical_root_def domd_def)
  then have "parent_dirs ((((''journal'' @ CHR ''/'' # ''records'') @ CHR ''/'' # d) @ CHR ''/'' # ?u) @ CHR ''/'' # ?f) =
      {domd @ ''/'' @ ?u, domd, ''journal/records''}"
    by (subst parent_dirs_last[OF plain(3)]) (simp_all add: canonical_root_def domd_def)
  then have "parent_dirs (record_path X d e r) = {domd @ ''/'' @ ?u, domd, ''journal/records''}"
    by (simp add: record_path_def)
  moreover have "domd \<noteq> ''journal/records''" "domd @ ''/'' @ uuid_to_string X e \<noteq> ''journal/records''"
    by (simp_all add: domd_def)
  ultimately show ?thesis
    by (auto simp: record_parents_def)
qed

lemma publish_record_view:
  fixes r :: staged_record
  assumes laws: "uuid_roundtrip X" "uuid_plain X" "uuid_component X"
    and ok: "domain_id_from_str d = Inr d" "entity_ok X e"
    and r: "sg_target r = record_path X d e rid" "sg_bytes r \<noteq> []"
    and wf: "dir_wf (records_dir D)"
    and clean: "clean_view X (set (visited X ''journal/records'' (records_dir D)))"
    and same: "\<And>i. (sg_target r, i) \<in> set (visited X ''journal/records'' (records_dir D)) \<Longrightarrow> i = VFile (sg_bytes r)"
  shows "\<exists>rd. dir_wf rd \<and> set (visited X ''journal/records'' rd) =
      set (visited X ''journal/records'' (records_dir D)) \<union> record_parents (sg_target r) \<union> {(sg_target r, VFile (sg_bytes r))} \<and>
    (\<forall>s. tx_dirs s = D \<longrightarrow> publish_record r s = (Inr (), s\<lparr>tx_dirs := D\<lparr>records_dir := rd\<rparr>\<rparr>))"
proof -
  let ?J = "''journal/records''"
  let ?dom = "?J @ ''/'' @ d" and ?u = "uuid_to_string X e" and ?f = "uuid_to_string X rid @ ''.json''"
  let ?ent = "?dom @ ''/'' @ ?u"
  note dirs = record_dirs[OF laws(1,2) ok]
  have comp: "validate_component d = Inr ()" "validate_component ?u = Inr ()" "validate_component ?f = Inr ()"
    using domain_component[OF ok(1)] tx_components[OF laws(3)] by (simp_all add: component_json)
  obtain r1 c1 where s1: "ensure_synced d (records_dir D) = Inr r1" "bt_get r1 d = Some (DirNode c1)" "dir_wf r1"
      "set (visited X ?J r1) = insert (?dom, VDir) (set (visited X ?J (records_dir D)))"
    using ensure_synced_view[OF wf clean comp(1) dirs(1,2)] by blast
  have b1: "bt_wf r1" using s1(3) by simp
  have cl1: "clean_view X (set (visited X ?dom c1))"
    using clean sub_visited[OF b1 s1(2) dirs(1)] s1(4) by (fastforce simp: clean_view_def)
  obtain c2 e2 where s2: "ensure_synced ?u c1 = Inr c2" "bt_get c2 ?u = Some (DirNode e2)" "dir_wf c2"
      "set (visited X ?dom c2) = insert (?ent, VDir) (set (visited X ?dom c1))"
    using ensure_synced_view[OF dir_wf_child[OF s1(3,2)] cl1 comp(2) dirs(3,4)] by blast
  obtain r2 where s3: "in_dir d (ensure_synced ?u) r1 = Inr r2" "bt_get r2 d = Some (DirNode c2)" "dir_wf r2"
      "set (visited X ?J r2) = set (visited X ?J r1) \<union> {(?ent, VDir)}"
    using in_dir_view[where f = "ensure_synced ?u" and N = "{(?ent, VDir)}", OF s1(3) comp(1) s1(2) s2(1,3) dirs(1)] s2(4) by auto
  have b2: "bt_wf c2" "bt_wf r2" using s2(3) s3(3) by simp_all
  have target: "sg_target r = ?ent @ ''/'' @ ?f"
    using r(1) dirs(6) by simp
  have len: "sg_target r \<noteq> ?ent" "sg_target r \<noteq> ?dom"
    using target by simp_all
  have same2: "i = VFile (sg_bytes r)" if "(?ent @ ''/'' @ ?f, i) \<in> set (visited X ?ent e2)" for i
    using that sub_visited[OF b2(1) s2(2) dirs(3)] sub_visited[OF b2(2) s3(2) dirs(1)] s3(4) s1(4) len same target
    by auto
  obtain e3 where s4: "link_fd_no_clobber (sg_mode r, sg_bytes r) ?f (sg_bytes r) e2 = Inr e3" "dir_wf e3"
      "set (visited X ?ent e3) = insert (?ent @ ''/'' @ ?f, VFile (sg_bytes r)) (set (visited X ?ent e2))"
    using link_view[OF dir_wf_child[OF s2(3,2)] comp(3) dirs(5) same2 r(2)] by blast
  let ?link = "link_fd_no_clobber (sg_mode r, sg_bytes r) ?f (sg_bytes r)"
  obtain c3 where s5: "in_dir ?u ?link c2 = Inr c3" "dir_wf c3"
      "set (visited X ?dom c3) = set (visited X ?dom c2) \<union> {(sg_target r, VFile (sg_bytes r))}"
    using in_dir_view[where f = ?link and N = "{(sg_target r, VFile (sg_bytes r))}", OF s2(3) comp(2) s2(2) s4(1,2) dirs(3)] s4(3) target
    by auto
  obtain r3 where s6: "in_dir d (in_dir ?u ?link) r2 = Inr r3" "dir_wf r3"
      "set (visited X ?J r3) = set (visited X ?J r2) \<union> {(sg_target r, VFile (sg_bytes r))}"
    using in_dir_view[where f = "in_dir ?u ?link" and N = "{(sg_target r, VFile (sg_bytes r))}", OF s3(3) comp(1) s3(2) s5(1,2) dirs(1)] s5(3)
    by auto
  have "split_on CHR ''/'' (sg_target r) = [''journal'', ''records'', d, ?u, ?f]"
    using split_record_path[OF laws(2) domain_id_plain(1)[OF ok(1)]] r(1) by simp
  then have "publish_record r s = (Inr (), s\<lparr>tx_dirs := D\<lparr>records_dir := r3\<rparr>\<rparr>)" if "tx_dirs s = D" for s
    using that s1(1) s3(1) s6(1)
    by (simp add: publish_record_def tx_then_def tx_bind_def on_records_def on_dir_def)
  then show ?thesis
    using s6 s3(4) s1(4) record_parents_eq[OF laws(2) ok(1), of e rid] r(1)
    by (intro exI[of _ r3]) (auto simp del: node_wf.simps)
qed

section \<open>The files of a view\<close>

lemma files_unique:
  fixes fs gs :: "raw_file list"
  assumes "strictly_ordered (map rf_path fs)" "strictly_ordered (map rf_path gs)" "set fs = set gs"
  shows "fs = gs"
proof -
  have "map rf_path fs = map rf_path gs"
    using assms by (intro strictly_ordered_unique) simp_all
  moreover have "inj_on rf_path (set fs)"
    using assms(1) by (simp add: order_simps strict_sorted_iff distinct_map)
  ultimately show ?thesis
    using assms(3) by (intro map_inj_on[of rf_path]) simp_all
qed

definition view_files :: "(bytes \<times> visit_item) set \<Rightarrow> raw_file set" where
  "view_files V = {f. (rf_path f, VFile (rf_bytes f)) \<in> V}"

definition store_wf :: "store_dirs \<Rightarrow> bool" where
  "store_wf s \<longleftrightarrow> dir_wf (events_dir s) \<and> dir_wf (batches_dir s) \<and> dir_wf (journal_rest s) \<and>
     dir_wf (records_dir s) \<and> dir_wf (journal_batches_dir s)"

lemma store_wf_visible: "store_wf s \<Longrightarrow> visible_wf s"
  unfolding store_wf_def visible_wf_def journal_dir_def
  by (auto simp: plain_components simp del: node_wf.simps intro!: dir_wf_insert)

lemma distinct_item_files: "distinct (map fst vs) \<Longrightarrow> distinct (item_files vs)"
proof (induction vs)
  case (Cons v vs)
  have "rf_path f \<in> fst ` set vs" if "f \<in> set (item_files vs)" for f
    using that by (force simp: item_files_def split: visit_item.splits)
  then show ?case
    using Cons by (cases v; cases "snd v") (force simp: item_files_def)+
qed (simp add: item_files_def)

text \<open>The inventory of a well-formed store, from its view.\<close>

lemma visible_inventory_view:
  assumes wf: "store_wf s" and clean: "clean_view X (view X s)"
    and limits: "card (fst ` view X s) \<le> MAX_CANONICAL_ENTRIES" 
      "(\<Sum>f\<in>view_files (view X s). length (rf_bytes f)) \<le> MAX_TOTAL_CANONICAL_BYTES"
      "\<forall>f\<in>view_files (view X s). length (rf_bytes f) \<le> scan_file_limit (classify_path X (rf_path f))"
  shows "\<exists>files inventory. visible_inventory X s = Inr (files, [], inventory) \<and>
    strictly_ordered (map rf_path files) \<and> set files = view_files (view X s) \<and> set inventory = fst ` view X s"
proof -
  have vwf: "visible_wf s" using wf by (rule store_wf_visible)
  have d: "distinct (map fst (visible_items X s))" using vwf by (rule distinct_visible_items)
  have files: "set (item_files (visible_items X s)) = view_files (view X s)"
    by (auto simp: item_files_def view_files_def view_def split: visit_item.splits prod.splits)
  have spec: "item_special (visible_items X s) = []"
    using clean_viewD(2)[OF clean] by (force simp: item_special_def view_def split: visit_item.splits prod.splits)
  have len: "length (visible_items X s) = card (fst ` view X s)"
    using distinct_card[OF d] by (simp add: view_def)
  have "distinct (item_files (visible_items X s))"
    using d by (rule distinct_item_files)
  then have "file_bytes (item_files (visible_items X s)) = (\<Sum>f\<in>view_files (view X s). length (rf_bytes f))"
    by (simp add: file_bytes_def sum_list_distinct_conv_sum_set files)
  then have ok: "items_ok X DEFAULT_SCAN_LIMITS (visible_items X s)"
    using limits len files by (simp add: items_ok_def DEFAULT_SCAN_LIMITS_def)
  let ?files = "sort_key rf_path (item_files (visible_items X s))"
  have "visible_inventory X s = Inr (?files, [], bs_of_list (map fst (visible_items X s)))"
    using collect_visible_inventory_Inr[OF vwf, of X DEFAULT_SCAN_LIMITS ?files] ok spec
    by (simp add: visible_inventory_def)
  then show ?thesis
    using collected_content[OF vwf, of X DEFAULT_SCAN_LIMITS ?files] files
    by (auto simp: visible_inventory_def view_def)
qed

lemma visible_inventory_facts:
  assumes wf: "store_wf s" and inv: "visible_inventory X s = Inr (files, [], inventory)"
  shows "strictly_ordered (map rf_path files)" "set files = view_files (view X s)"
    and "set inventory = fst ` view X s" and "(p, VSpecial) \<notin> view X s"
    and "\<forall>f\<in>set files. length (rf_bytes f) \<le> scan_file_limit (classify_path X (rf_path f))"
proof -
  have vwf: "visible_wf s" using wf by (rule store_wf_visible)
  have c: "collect_visible_inventory X DEFAULT_SCAN_LIMITS s = Inr (files, [], inventory)"
    using inv by (simp add: visible_inventory_def)
  note content = collected_content[OF vwf c]
  show "strictly_ordered (map rf_path files)" "set inventory = fst ` view X s" "(p, VSpecial) \<notin> view X s"
    using content by (auto simp: view_def)
  have "f \<in> set files \<longleftrightarrow> (rf_path f, VFile (rf_bytes f)) \<in> set (visible_items X s)" for f
    using content by (cases f) simp
  then show "set files = view_files (view X s)"
    by (auto simp: view_files_def view_def)
  show "\<forall>f\<in>set files. length (rf_bytes f) \<le> scan_file_limit (classify_path X (rf_path f))"
    using c collect_visible_inventory_Inr[OF vwf] by (auto simp: items_ok_def)
qed

lemma decoded_canonical: "is_ok (decode_visible_file X R f) \<Longrightarrow> is_canonical (classify_path X (rf_path f))"
  by (auto simp: decode_visible_file_def is_canonical_def split: path_class.splits)

lemma scanned_clean:
  assumes "store_wf s" "visible_inventory X s = Inr (files, [], inventory)" "scan_collected X C files [] = Inr snap"
  shows "clean_view X (view X s)"
proof -
  note facts = visible_inventory_facts[OF assms(1,2)]
  have "is_canonical (classify_path X (rf_path f))" if "f \<in> set files" for f
    using iffD1[OF scan_collected_Inr[OF facts(1)] assms(3), THEN conjunct2, THEN conjunct1] that
    by (auto intro: decoded_canonical)
  moreover have "\<lparr>rf_path = q, rf_bytes = bs\<rparr> \<in> set files" if "(q, VFile bs) \<in> view X s" for q bs
    using that facts(2) by (simp add: view_files_def)
  ultimately have "is_canonical (classify_path X q)" if "(q, VFile bs) \<in> view X s" for q bs
    using that by fastforce
  then show ?thesis
    using facts(4) by (auto simp: clean_view_def split: visit_item.splits)
qed

section \<open>The entries of a batch\<close>

definition batch_items :: "prepared_batch \<Rightarrow> (bytes \<times> visit_item) set" where
  "batch_items p =
     (\<Union>r\<in>set (pb_records p). insert (pr_path r, VFile (pr_bytes r)) (record_parents (pr_path r))) \<union>
     {(pb_manifest_path p, VFile (pb_manifest_bytes p))}"

lemma batch_items_files: "view_files (V \<union> batch_items p) = view_files V \<union> set (prepared_files p)"
proof -
  have "f \<in> view_files (batch_items p) \<longleftrightarrow> f \<in> set (prepared_files p)" for f :: raw_file
    by (cases f) (auto simp: view_files_def batch_items_def prepared_files_def record_parents_def image_iff)
  then show ?thesis
    by (auto simp: view_files_def)
qed

lemma ready_record:
  assumes "batch_ready X R p" "r \<in> set (pb_records p)"
  obtains d e i where "pr_path r = record_path X d e i" "domain_id_from_str d = Inr d" "entity_ok X e" "v7_ok X i"
proof -
  have "decode_record X (pr_bytes r) R = Inr (pr_record r)" "record_canonical_path X (pr_record r) = pr_path r"
    using assms by (simp_all add: batch_ready_def)
  then show thesis
    using decode_record_ok(1)[of X "pr_bytes r" R "pr_record r"]
    by (intro that[of "r_domain (pr_record r)" "r_entity (pr_record r)" "r_id (pr_record r)"])
      (simp_all add: record_ok_def record_canonical_path_eq)
qed

lemma encode_pretty_nonempty: "encode_pretty X v = Inr bs \<Longrightarrow> bs \<noteq> []"
  by (auto simp: encode_pretty_def result_simps split: option.splits)

lemma ready_bytes:
  assumes "batch_ready X R p"
  shows "r \<in> set (pb_records p) \<Longrightarrow> pr_bytes r \<noteq> []" and "pb_manifest_bytes p \<noteq> []"
proof -
  show "r \<in> set (pb_records p) \<Longrightarrow> pr_bytes r \<noteq> []"
    using assms encode_pretty_nonempty by (auto simp: batch_ready_def decode_record_Inr encode_record_Inr)
  have "encode_manifest X (pb_manifest p) = Inr (pb_manifest_bytes p)"
    using assms by (simp add: batch_ready_def decode_batch_manifest_Inr)
  then show "pb_manifest_bytes p \<noteq> []"
    using encode_pretty_nonempty by (auto simp: encode_manifest_Inr)
qed

lemma prepared_class:
  assumes "batch_laws X" "batch_ready X R p" "f \<in> set (prepared_files p)"
  shows "is_canonical (classify_path X (rf_path f))"
    and "length (rf_bytes f) \<le> scan_file_limit (classify_path X (rf_path f))"
    and "\<not> valid_canonical_directory X (rf_path f)"
proof -
  have laws: "uuid_roundtrip X" "uuid_plain X" using assms(1) by (simp_all add: batch_laws_def)
  consider (rec) r where "r \<in> set (pb_records p)" "f = \<lparr>rf_path = pr_path r, rf_bytes = pr_bytes r\<rparr>"
    | (man) "f = \<lparr>rf_path = pb_manifest_path p, rf_bytes = pb_manifest_bytes p\<rparr>"
    using assms(3) by (auto simp: prepared_files_def)
  then have "is_canonical (classify_path X (rf_path f)) \<and> length (rf_bytes f) \<le> scan_file_limit (classify_path X (rf_path f)) \<and>
      \<not> valid_canonical_directory X (rf_path f)"
  proof cases
    case rec
    obtain d e i where path: "pr_path r = record_path X d e i" "domain_id_from_str d = Inr d" "entity_ok X e" "v7_ok X i"
      using ready_record[OF assms(2) rec(1)] by blast
    have "decode_record X (pr_bytes r) R = Inr (pr_record r)"
      using assms(2) rec(1) by (simp add: batch_ready_def)
    then have "length (pr_bytes r) \<le> MAX_RECORD_BYTES" by (rule decode_record_bounded)
    then show ?thesis
      using rec(2) path classify_record_path[OF laws path(2,3,4)] record_dirs(5,6)[OF laws path(2,3)]
      by (simp add: is_canonical_def scan_file_limit_def canonical_file_limit_def)
  next
    case man
    have m: "pb_manifest_path p = batch_path X (bm_batch (pb_manifest p))" "v7_ok X (bm_batch (pb_manifest p))"
        "length (pb_manifest_bytes p) \<le> MAX_BATCH_BYTES"
      using assms(2) decode_manifest_bounded
      by (auto simp: batch_ready_def manifest_canonical_path_def batch_path_def)
    have "split_on CHR ''/'' (pb_manifest_path p) = [''journal'', ''batches'', uuid_to_string X (bm_batch (pb_manifest p)) @ ''.json'']"
      using uuid_no_slash[OF laws(2)] by (simp add: m(1) batch_path_def split_on_plain split_on_append_sep)
    then show ?thesis
      using m classify_batch_path[OF laws m(2)] man
      by (simp add: is_canonical_def scan_file_limit_def canonical_file_limit_def valid_canonical_directory_def)
  qed
  then show "is_canonical (classify_path X (rf_path f))"
    "length (rf_bytes f) \<le> scan_file_limit (classify_path X (rf_path f))"
    "\<not> valid_canonical_directory X (rf_path f)"
    by simp_all
qed


section \<open>A store that can take the batch\<close>

definition appendable ::
  "ext \<Rightarrow> journal_ext \<Rightarrow> store_config \<Rightarrow> store_dirs \<Rightarrow> prepared_batch \<Rightarrow> store_snapshot \<Rightarrow> bytes \<Rightarrow> store_snapshot \<Rightarrow> bool" where
  "appendable X J C D p snap jb cand \<longleftrightarrow>
     tx_laws X J \<and> batch_ready X (sc_registry C) p \<and> length (pb_records p) \<le> MAX_JOURNAL_MEMBERS \<and>
     store_wf D \<and> stages_dir D = [] \<and> recovery_dir D = [] \<and>
     scan_visible X C D = Inr snap \<and> length (sr_digest (ss_revision snap)) = 32 \<and>
     validate_candidate X C D p = Inr cand \<and>
     encode_journal J (stage_journal X p (ss_revision snap)) = Inr jb"

lemma add_new_files_Inr:
  "add_new_files files fs = Inr gs \<longleftrightarrow>
   gs = files @ fs \<and> distinct (map rf_path fs) \<and> rf_path ` set files \<inter> rf_path ` set fs = {}"
  by (induction fs arbitrary: files) (force simp: list_ex_iff image_iff)+

lemma appendable_files:
  assumes "appendable X J C D p snap jb cand"
  obtains files inventory where "visible_inventory X D = Inr (files, [], inventory)"
    and "scan_collected X C files [] = Inr snap"
    and "enforce_limits (file_lengths files @ file_lengths (prepared_files p)) [] inventory = Inr ()"
    and "distinct (map rf_path (prepared_files p))" "rf_path ` set files \<inter> rf_path ` set (prepared_files p) = {}"
    and "scan_collected X C (sort_key rf_path (files @ prepared_files p)) [] = Inr cand"
proof -
  obtain files nonregular inventory where c: "visible_inventory X D = Inr (files, nonregular, inventory)"
      "enforce_limits (file_lengths files @ file_lengths (prepared_files p)) nonregular inventory = Inr ()"
      "distinct (map rf_path (prepared_files p))" "rf_path ` set files \<inter> rf_path ` set (prepared_files p) = {}"
      "scan_collected X C (sort_key rf_path (files @ prepared_files p)) nonregular = Inr cand"
    using assms by (auto simp: appendable_def validate_candidate_def result_simps add_new_files_Inr)
  have s: "scan_collected X C files nonregular = Inr snap"
    using assms c(1) by (simp add: appendable_def scan_visible_def collect_visible_def visible_inventory_def)
  moreover have "nonregular = []"
    using s by (cases nonregular) (simp_all add: scan_collected_def)
  ultimately show thesis
    using that c by simp
qed

lemma appendable_clean:
  assumes "appendable X J C D p snap jb cand"
  shows "clean_view X (view X D)" "clean_view X (view X D \<union> batch_items p)"
proof -
  obtain files inventory where f: "visible_inventory X D = Inr (files, [], inventory)"
      "scan_collected X C files [] = Inr snap"
      "enforce_limits (file_lengths files @ file_lengths (prepared_files p)) [] inventory = Inr ()"
      "distinct (map rf_path (prepared_files p))" "rf_path ` set files \<inter> rf_path ` set (prepared_files p) = {}"
      "scan_collected X C (sort_key rf_path (files @ prepared_files p)) [] = Inr cand"
    by (rule appendable_files[OF assms])
  have laws: "batch_laws X" "batch_ready X (sc_registry C) p" "store_wf D"
    using assms by (simp_all add: appendable_def tx_laws_def)
  show clean: "clean_view X (view X D)"
    using laws(3) f(1,2) by (rule scanned_clean)
  have "is_canonical (classify_path X q)" if "(q, VFile bs) \<in> batch_items p" for q bs
    using that prepared_class(1)[OF laws(1,2), of "\<lparr>rf_path = q, rf_bytes = bs\<rparr>"]
    by (auto simp: batch_items_def prepared_files_def record_parents_def)
  moreover have "(q, VSpecial) \<notin> batch_items p" for q
    by (auto simp: batch_items_def record_parents_def)
  ultimately show "clean_view X (view X D \<union> batch_items p)"
    using clean by (auto simp: clean_view_def split: visit_item.splits)
qed

text \<open>No entry of the base stands at a path of the batch.\<close>

lemma visited_dirs_valid: "(q, VDir) \<in> set (visited X p es) \<Longrightarrow> valid_canonical_directory X q"
  by (induction X p es rule: visited.induct) (auto simp: Let_def split: node.splits if_splits)

lemma appendable_fresh:
  assumes "appendable X J C D p snap jb cand" "f \<in> set (prepared_files p)"
  shows "(rf_path f, i) \<notin> view X D"
proof
  assume i: "(rf_path f, i) \<in> view X D"
  obtain files inventory where f: "visible_inventory X D = Inr (files, [], inventory)"
      "scan_collected X C files [] = Inr snap"
      "enforce_limits (file_lengths files @ file_lengths (prepared_files p)) [] inventory = Inr ()"
      "distinct (map rf_path (prepared_files p))" "rf_path ` set files \<inter> rf_path ` set (prepared_files p) = {}"
      "scan_collected X C (sort_key rf_path (files @ prepared_files p)) [] = Inr cand"
    by (rule appendable_files[OF assms(1)])
  have laws: "batch_laws X" "batch_ready X (sc_registry C) p" "store_wf D"
    using assms(1) by (simp_all add: appendable_def tx_laws_def)
  note facts = visible_inventory_facts[OF laws(3) f(1)]
  show False
  proof (cases i)
    case VDir
    then show False
      using i visited_dirs_valid prepared_class(3)[OF laws(1,2) assms(2)]
      by (auto simp: view_def visible_items_def)
  next
    case (VFile bs)
    then have "\<lparr>rf_path = rf_path f, rf_bytes = bs\<rparr> \<in> set files"
      using i facts(2) by (simp add: view_files_def)
    then show False
      using f(5) assms(2) by force
  next
    case VSpecial
    then show False using i facts(4) by simp
  qed
qed

end
