(* ===== verification/Wj_Recovery.thy ===== *)
theory Wj_Recovery
  imports Wj_View
begin

text \<open>
  Correctness of the transactions of \<open>store/transaction.rs\<close>: a journaled batch is always completed,
  an unjournaled one always discarded, wherever a run stops and however often recovery itself is
  stopped; and a publication that is not stopped succeeds.
\<close>

section \<open>A partly published batch\<close>

definition between :: "ext \<Rightarrow> store_dirs \<Rightarrow> prepared_batch \<Rightarrow> store_dirs \<Rightarrow> bool" where
  "between X D p d \<longleftrightarrow>
     events_dir d = events_dir D \<and> batches_dir d = batches_dir D \<and> journal_rest d = journal_rest D \<and>
     dir_wf (records_dir d) \<and> dir_wf (journal_batches_dir d) \<and>
     view X D \<subseteq> view X d \<and> view X d \<subseteq> view X D \<union> batch_items p"

lemma between_wf: "between X D p d \<Longrightarrow> store_wf D \<Longrightarrow> store_wf d"
  by (simp add: between_def store_wf_def del: node_wf.simps)

lemma finite_view: "finite (view X s)"
  by (simp add: view_def)

lemma batch_entries: "fst ` batch_items p \<subseteq> entry_set (rf_path ` set (prepared_files p))"
  by (auto simp: batch_items_def entry_set_def prepared_files_def record_parents_def)

lemma sum_set_le_sum_list: "(\<Sum>x\<in>set xs. f x) \<le> (sum_list (map f xs) :: nat)"
  by (induction xs) (auto simp: sum.insert_if)

lemma between_inventory:
  assumes app: "appendable X J C D p snap jb cand" and d: "between X D p d"
    and inv: "visible_inventory X D = Inr (files, [], inventory)"
    and lim: "enforce_limits (file_lengths files @ file_lengths (prepared_files p)) [] inventory = Inr ()"
  shows "\<exists>files' inventory'. visible_inventory X d = Inr (files', [], inventory') \<and>
    strictly_ordered (map rf_path files') \<and> set files' = view_files (view X d) \<and> set inventory' = fst ` view X d \<and>
    enforce_limits (file_lengths files @ file_lengths (prepared_files p)) [] inventory' = Inr ()"
proof -
  have laws: "batch_laws X" "batch_ready X (sc_registry C) p" "store_wf D"
    using app by (simp_all add: appendable_def tx_laws_def)
  note facts = visible_inventory_facts[OF laws(3) inv]
  let ?fs = "files @ prepared_files p" and ?V = "view X D \<union> batch_items p"
  let ?es = "entry_set (rf_path ` set ?fs)"
  have paths: "fst ` set (file_lengths files @ file_lengths (prepared_files p)) = rf_path ` set ?fs"
    by (simp add: file_lengths_def image_image image_Un)
  have cd: "card (fst ` view X D \<union> ?es) \<le> MAX_CANONICAL_ENTRIES"
    and by_: "sum_list (map (\<lambda>f. length (rf_bytes f)) ?fs) \<le> MAX_TOTAL_CANONICAL_BYTES"
    using lim paths facts(3) by (simp_all add: enforce_limits_Inr) (simp_all add: file_lengths_def comp_def)
  have sub: "fst ` view X d \<subseteq> fst ` view X D \<union> ?es"
  proof -
    have "fst ` view X d \<subseteq> fst ` view X D \<union> fst ` batch_items p"
      using d unfolding between_def by (metis image_Un image_mono)
    moreover have "fst ` batch_items p \<subseteq> ?es"
      using batch_entries[of p] unfolding entry_set_def by auto
    ultimately show ?thesis by blast
  qed
  have fin: "finite (fst ` view X D \<union> ?es)"
    by (simp add: finite_view finite_entry_set)
  have files: "view_files (view X d) \<subseteq> set ?fs"
    using d facts(2) batch_items_files[of "view X D" p] by (fastforce simp: between_def view_files_def)
  have "(\<Sum>f\<in>view_files (view X d). length (rf_bytes f)) \<le> (\<Sum>f\<in>set ?fs. length (rf_bytes f))"
    using files by (intro sum_mono2) auto
  also have "\<dots> \<le> sum_list (map (\<lambda>f. length (rf_bytes f)) ?fs)"
    by (rule sum_set_le_sum_list)
  finally have bytes: "(\<Sum>f\<in>view_files (view X d). length (rf_bytes f)) \<le> MAX_TOTAL_CANONICAL_BYTES"
    using by_ by simp
  have lens: "\<forall>f\<in>view_files (view X d). length (rf_bytes f) \<le> scan_file_limit (classify_path X (rf_path f))"
    using files facts(5) prepared_class(2)[OF laws(1,2)] by auto
  have clean: "clean_view X (view X d)"
    using appendable_clean(2)[OF app] d by (force simp: clean_view_def between_def)
  obtain files' inventory' where r: "visible_inventory X d = Inr (files', [], inventory')"
      "strictly_ordered (map rf_path files')" "set files' = view_files (view X d)" "set inventory' = fst ` view X d"
    using visible_inventory_view[OF between_wf[OF d laws(3)] clean _ bytes lens] card_mono[OF fin sub] cd by fastforce
  have "fst ` view X d \<union> ?es = fst ` view X D \<union> ?es"
    using sub d by (auto simp: between_def)
  then have "enforce_limits (file_lengths files @ file_lengths (prepared_files p)) [] inventory' = Inr ()"
    using lim paths facts(3) r(4) by (simp add: enforce_limits_Inr)
  then show ?thesis using r by blast
qed

lemma split_base_total:
  assumes "\<forall>f\<in>set files. \<forall>bs. bt_get targets (rf_path f) = Some bs \<longrightarrow> bs = rf_bytes f"
  shows "\<exists>present. split_base targets files = Inr (filter (\<lambda>f. bt_get targets (rf_path f) = None) files, present) \<and>
    sorted_wrt (<) present \<and> set present = {q \<in> rf_path ` set files. bt_get targets q \<noteq> None}"
  using assms
proof (induction files)
  case (Cons f fs)
  then obtain present where present: "split_base targets fs = Inr (filter (\<lambda>f. bt_get targets (rf_path f) = None) fs, present)"
      "sorted_wrt (<) present" "set present = {q \<in> rf_path ` set fs. bt_get targets q \<noteq> None}"
    by auto
  show ?case
  proof (cases "bt_get targets (rf_path f)")
    case (Some bs)
    then show ?thesis
      using present Cons.prems by (auto simp: ordered_bs_insert)
  qed (use present in auto)
qed simp

lemma sorted_union_files:
  assumes "distinct (map rf_path gs)" "strictly_ordered (map rf_path fs)" "rf_path ` set fs \<inter> rf_path ` set gs = {}"
  shows "strictly_ordered (map rf_path (sort_key rf_path (fs @ gs)))"
proof -
  have "distinct (map rf_path (fs @ gs))"
    using assms by (simp add: order_simps strict_sorted_iff)
  then have "distinct (map rf_path (sort_key rf_path (fs @ gs)))"
    by (metis mset_eq_imp_distinct_iff mset_map mset_sort)
  then show ?thesis
    by (simp add: order_simps strict_sorted_iff)
qed

lemma between_recovery_base:
  assumes app: "appendable X J C D p snap jb cand" and d: "between X D p d"
  shows "validate_recovery_base X C d (loaded_batch X p (ss_revision snap)) = Inr ()"
    and "set (prepared_files p) \<subseteq> view_files (view X d) \<Longrightarrow> scan_visible X C d = Inr cand"
proof -
  obtain files inventory where f: "visible_inventory X D = Inr (files, [], inventory)"
      "scan_collected X C files [] = Inr snap"
      "enforce_limits (file_lengths files @ file_lengths (prepared_files p)) [] inventory = Inr ()"
      "distinct (map rf_path (prepared_files p))" "rf_path ` set files \<inter> rf_path ` set (prepared_files p) = {}"
      "scan_collected X C (sort_key rf_path (files @ prepared_files p)) [] = Inr cand"
    by (rule appendable_files[OF app])
  have laws: "batch_ready X (sc_registry C) p" "store_wf D"
    using app by (simp_all add: appendable_def)
  note facts = visible_inventory_facts[OF laws(2) f(1)]
  obtain files' inventory' where v: "visible_inventory X d = Inr (files', [], inventory')"
      "strictly_ordered (map rf_path files')" "set files' = view_files (view X d)" "set inventory' = fst ` view X d"
      "enforce_limits (file_lengths files @ file_lengths (prepared_files p)) [] inventory' = Inr ()"
    using between_inventory[OF app d f(1,3)] by blast
  have sub: "set files \<subseteq> set files'" "set files' \<subseteq> set files \<union> set (prepared_files p)"
    using d facts(2) v(3) batch_items_files[of "view X D" p] by (auto simp: between_def view_files_def)
  let ?kvs = "map (\<lambda>f. (rf_path f, rf_bytes f)) (prepared_files p)"
  have kd: "distinct (map fst ?kvs)" using f(4) by (simp add: comp_def)
  have get: "bt_get (bt_of_list ?kvs) q = map_of ?kvs q" for q
    using bt_get_of_list[OF kd] by simp
  have in_t: "bt_get (bt_of_list ?kvs) (rf_path g) = Some (rf_bytes g)" if "g \<in> set (prepared_files p)" for g
    using that kd by (simp add: get map_of_eq_Some_iff)
  have out_t: "bt_get (bt_of_list ?kvs) q = None \<longleftrightarrow> q \<notin> rf_path ` set (prepared_files p)" for q
    by (simp add: get map_of_eq_None_iff image_image)
  have same: "\<forall>g\<in>set files'. \<forall>bs. bt_get (bt_of_list ?kvs) (rf_path g) = Some bs \<longrightarrow> bs = rf_bytes g"
  proof (intro ballI allI impI)
    fix g bs assume g: "g \<in> set files'" "bt_get (bt_of_list ?kvs) (rf_path g) = Some bs"
    then have "rf_path g \<in> rf_path ` set (prepared_files p)"
      using out_t[of "rf_path g"] by simp
    then have "g \<in> set (prepared_files p)"
      using sub(2) g(1) f(5) by blast
    then show "bs = rf_bytes g" using in_t g(2) by simp
  qed
  have "set (filter (\<lambda>f. bt_get (bt_of_list ?kvs) (rf_path f) = None) files') = set files"
  proof -
    have "rf_path g \<notin> rf_path ` set (prepared_files p)" if "g \<in> set files" for g
      using f(5) that by blast
    moreover have "rf_path g \<in> rf_path ` set (prepared_files p)" if "g \<in> set (prepared_files p)" for g
      using that by blast
    ultimately show ?thesis
      unfolding out_t set_filter using sub by blast
  qed
  moreover have "strictly_ordered (map rf_path (filter (\<lambda>f. bt_get (bt_of_list ?kvs) (rf_path f) = None) files'))"
    using v(2) unfolding order_simps sorted_wrt_map by (rule sorted_wrt_filter)
  ultimately have "filter (\<lambda>f. bt_get (bt_of_list ?kvs) (rf_path f) = None) files' = files"
    using facts(1) by (intro files_unique)
  then obtain present where pr: "split_base (bt_of_list ?kvs) files' = Inr (files, present)" "sorted_wrt (<) present"
      "set present = {q \<in> rf_path ` set files'. bt_get (bt_of_list ?kvs) q \<noteq> None}"
    using split_base_total[OF same] by auto
  have scan: "scan_visible X C d = scan_collected X C files' []"
    using v(1) by (simp add: scan_visible_def collect_visible_def visible_inventory_def)
  show full: "scan_visible X C d = Inr cand" if "set (prepared_files p) \<subseteq> view_files (view X d)"
  proof -
    have "files' = sort_key rf_path (files @ prepared_files p)"
      using v(2) sorted_union_files[OF f(4) facts(1) f(5)] that sub v(3) by (intro files_unique) auto
    then show ?thesis using scan f(6) by simp
  qed
  have present_all: "set (prepared_files p) \<subseteq> view_files (view X d)" if "length present = length (bt_of_list ?kvs)"
  proof -
    have "card (set present) = card (rf_path ` set (prepared_files p))"
      using that pr(2) card_strictly_ordered length_bt_of_list[OF kd] f(4)
      by (metis distinct_card length_map set_map)
    moreover have "set present \<subseteq> rf_path ` set (prepared_files p)"
      using pr(3) out_t by auto
    ultimately have "set present = rf_path ` set (prepared_files p)"
      by (intro card_subset_eq) auto
    then have all: "rf_path ` set (prepared_files p) \<subseteq> rf_path ` set files'"
      using pr(3) by auto
    have "g \<in> set files'" if g: "g \<in> set (prepared_files p)" for g
    proof -
      obtain h where h: "h \<in> set files'" "rf_path h = rf_path g"
        using all g by (metis imageE image_eqI subsetD)
      then have "h \<in> set (prepared_files p)"
        using sub(2) f(5) g by (metis IntI UnE empty_iff image_eqI subsetD)
      then have "h = g"
        using f(4) g h(2) by (simp add: distinct_map inj_on_def)
      then show ?thesis using h(1) by simp
    qed
    then show ?thesis using v(3) by blast
  qed
  have sf: "staged_files X (loaded_batch X p (ss_revision snap)) = prepared_files p"
    using laws(1) by (rule staged_files_loaded)
  have jn: "jn_base (st_journal (loaded_batch X p (ss_revision snap))) = ss_revision snap"
    by (simp add: loaded_batch_def)
  show "validate_recovery_base X C d (loaded_batch X p (ss_revision snap)) = Inr ()"
    using v(1,5) pr(1) full present_all f(2,6)
    by (simp add: validate_recovery_base_def Let_def sf jn)
qed

section \<open>Recovery of one batch\<close>

definition recovering :: "ext \<Rightarrow> prepared_batch \<Rightarrow> bytes \<Rightarrow> store_dirs \<Rightarrow> store_dirs \<Rightarrow> bool" where
  "recovering X p jb D d \<longleftrightarrow>
     between X D p d \<and> stages_dir d = [(batch_name X p, DirNode (staged_dir p jb))] \<and>
     recovery_dir d = [(journal_name X (bm_batch (pb_manifest p)), FileNode private_mode jb)]"

definition published :: "ext \<Rightarrow> prepared_batch \<Rightarrow> store_dirs \<Rightarrow> store_dirs \<Rightarrow> bool" where
  "published X p D d \<longleftrightarrow>
     between X D p d \<and> batch_items p \<subseteq> view X d \<and> recovery_dir d = [] \<and> small_stages (batch_name X p) (stages_dir d)"

definition record_items :: "prepared_record \<Rightarrow> (bytes \<times> visit_item) set" where
  "record_items r = insert (pr_path r, VFile (pr_bytes r)) (record_parents (pr_path r))"

lemma batch_items_eq:
  "batch_items p = (\<Union>r\<in>set (pb_records p). record_items r) \<union> {(pb_manifest_path p, VFile (pb_manifest_bytes p))}"
  by (simp add: batch_items_def record_items_def)

lemma outer_view_cong:
  "events_dir d = events_dir D \<Longrightarrow> batches_dir d = batches_dir D \<Longrightarrow> journal_rest d = journal_rest D \<Longrightarrow>
   outer_view X d = outer_view X D"
  by (simp add: outer_view_def)

lemma batch_path_item:
  assumes app: "appendable X J C D p snap jb cand" and d: "between X D p d"
    and f: "f \<in> set (prepared_files p)" and i: "(rf_path f, i) \<in> view X d"
  shows "i = VFile (rf_bytes f)"
proof -
  have laws: "batch_laws X" "batch_ready X (sc_registry C) p" "uuid_roundtrip X" "uuid_plain X"
    using app by (simp_all add: appendable_def tx_laws_def batch_laws_def)
  have "(rf_path f, i) \<in> batch_items p"
    using i d appendable_fresh[OF app f] by (auto simp: between_def)
  moreover have "i \<noteq> VDir"
  proof
    assume "i = VDir"
    then obtain r where r: "r \<in> set (pb_records p)" "(rf_path f, VDir) \<in> record_parents (pr_path r)"
      using \<open>(rf_path f, i) \<in> batch_items p\<close> by (auto simp: batch_items_def)
    obtain dd e k where path: "pr_path r = record_path X dd e k" "domain_id_from_str dd = Inr dd" "entity_ok X e"
      using ready_record[OF laws(2) r(1)] by blast
    have "valid_canonical_directory X (rf_path f)"
      using r(2) record_dirs(1,3)[OF laws(3,4) path(2,3)] record_parents_eq[OF laws(4) path(2)] path(1) by auto
    then show False
      using prepared_class(3)[OF laws(1,2) f] by simp
  qed
  ultimately obtain bs where bs: "i = VFile bs" "\<lparr>rf_path = rf_path f, rf_bytes = bs\<rparr> \<in> set (prepared_files p)"
    by (auto simp: batch_items_def prepared_files_def record_parents_def)
  obtain files inventory where "visible_inventory X D = Inr (files, [], inventory)"
      "scan_collected X C files [] = Inr snap"
      "enforce_limits (file_lengths files @ file_lengths (prepared_files p)) [] inventory = Inr ()"
      and dist: "distinct (map rf_path (prepared_files p))" and "rf_path ` set files \<inter> rf_path ` set (prepared_files p) = {}"
      "scan_collected X C (sort_key rf_path (files @ prepared_files p)) [] = Inr cand"
    by (rule appendable_files[OF app])
  have "\<lparr>rf_path = rf_path f, rf_bytes = bs\<rparr> = f"
    using dist bs(2) f by (intro inj_onD[of rf_path "set (prepared_files p)"]) (simp_all add: distinct_map)
  then show ?thesis using bs(1) by (cases f) simp
qed

lemma publish_record_step:
  assumes app: "appendable X J C D p snap jb cand" and r: "r \<in> set (pb_records p)"
  shows "runs (\<lambda>d. recovering X p jb D d \<and> S \<subseteq> view X d)
    (publish_record \<lparr>sg_mode = private_mode, sg_target = pr_path r, sg_bytes = pr_bytes r\<rparr>)
    (\<lambda>_ d. recovering X p jb D d \<and> S \<union> record_items r \<subseteq> view X d) E"
  unfolding runs_def
proof (intro allI impI)
  fix s :: tx_state
  let ?d = "tx_dirs s" and ?r = "\<lparr>sg_mode = private_mode, sg_target = pr_path r, sg_bytes = pr_bytes r\<rparr>"
  let ?recs = "\<lambda>d. set (visited X ''journal/records'' (records_dir d))"
  assume "recovering X p jb D ?d \<and> S \<subseteq> view X ?d"
  then have d: "recovering X p jb D ?d" "S \<subseteq> view X ?d" "between X D p ?d" by (simp_all add: recovering_def)
  have laws: "uuid_roundtrip X" "uuid_plain X" "uuid_component X" "batch_ready X (sc_registry C) p" "store_wf D"
    using app by (simp_all add: appendable_def tx_laws_def batch_laws_def)
  obtain dd e k where path: "pr_path r = record_path X dd e k" "domain_id_from_str dd = Inr dd" "entity_ok X e"
    using ready_record[OF laws(4) r] by blast
  have rest: "bt_wf (journal_rest ?d)"
    using d(3) laws(5) by (simp add: between_def store_wf_def)
  have part: "?recs ?d \<subseteq> view X ?d"
    unfolding view_eq[OF rest] by blast
  have clean: "clean_view X (?recs ?d)"
    using appendable_clean(2)[OF app] d(3) part unfolding clean_view_def between_def by blast
  have mem: "\<lparr>rf_path = pr_path r, rf_bytes = pr_bytes r\<rparr> \<in> set (prepared_files p)"
    using r by (simp add: prepared_files_def)
  have same: "i = VFile (sg_bytes ?r)" if "(sg_target ?r, i) \<in> ?recs ?d" for i
    using batch_path_item[OF app d(3) mem, of i] that part by auto
  obtain rd where rd: "dir_wf rd" "set (visited X ''journal/records'' rd) =
      ?recs ?d \<union> record_parents (pr_path r) \<union> {(pr_path r, VFile (pr_bytes r))}"
      "publish_record ?r s = (Inr (), s\<lparr>tx_dirs := ?d\<lparr>records_dir := rd\<rparr>\<rparr>)"
    using publish_record_view[OF laws(1-3) path(2,3), of ?r k ?d] path(1) ready_bytes(1)[OF laws(4) r] d(3) clean same
    by (auto simp: between_def simp del: node_wf.simps)
  let ?d' = "?d\<lparr>records_dir := rd\<rparr>"
  have "view X ?d' = view X ?d \<union> record_items r"
    using rest view_eq[of ?d X] view_eq[of ?d' X] rd(2) outer_view_cong[of ?d' ?d X]
    by (auto simp: record_items_def)
  moreover have "record_items r \<subseteq> batch_items p"
    using r by (auto simp: batch_items_eq)
  ultimately have "recovering X p jb D ?d' \<and> S \<union> record_items r \<subseteq> view X ?d'"
    using d rd(1) by (auto simp: recovering_def between_def simp del: node_wf.simps)
  then show "case publish_record ?r s of
      (Inl e, s') \<Rightarrow> E e (tx_dirs s')
    | (Inr x, s') \<Rightarrow> recovering X p jb D (tx_dirs s') \<and> S \<union> record_items r \<subseteq> view X (tx_dirs s')"
    using rd(3) by simp
qed

lemma publish_manifest_step:
  assumes app: "appendable X J C D p snap jb cand"
  shows "runs (\<lambda>d. recovering X p jb D d \<and> S \<subseteq> view X d)
    (on_journal_batches (link_fd_no_clobber (private_mode, pb_manifest_bytes p)
       (journal_name X (bm_batch (pb_manifest p))) (pb_manifest_bytes p)))
    (\<lambda>_ d. recovering X p jb D d \<and> insert (pb_manifest_path p, VFile (pb_manifest_bytes p)) S \<subseteq> view X d) E"
  unfolding on_journal_batches_def
proof (rule runs_on_dir)
  fix d
  let ?j = "journal_name X (bm_batch (pb_manifest p))" and ?B = "''journal/batches''"
  let ?bats = "\<lambda>d. set (visited X ''journal/batches'' (journal_batches_dir d))"
  assume "recovering X p jb D d \<and> S \<subseteq> view X d"
  then have d: "recovering X p jb D d" "S \<subseteq> view X d" "between X D p d" by (simp_all add: recovering_def)
  have laws: "uuid_component X" "batch_laws X" "batch_ready X (sc_registry C) p" "store_wf D"
    using app by (simp_all add: appendable_def tx_laws_def)
  have path: "?B @ ''/'' @ ?j = pb_manifest_path p"
    using laws(3) by (simp add: batch_ready_def manifest_canonical_path_def journal_name_def)
  have mem: "\<lparr>rf_path = pb_manifest_path p, rf_bytes = pb_manifest_bytes p\<rparr> \<in> set (prepared_files p)"
    by (simp add: prepared_files_def)
  have rest: "bt_wf (journal_rest d)"
    using d(3) laws(4) by (simp add: between_def store_wf_def)
  have part: "?bats d \<subseteq> view X d"
    unfolding view_eq[OF rest] by blast
  have same: "i = VFile (pb_manifest_bytes p)" if "(?B @ ''/'' @ ?j, i) \<in> ?bats d" for i
    using batch_path_item[OF app d(3) mem, of i] that part path by auto
  have bwf: "dir_wf (journal_batches_dir d)"
    using d(3) by (simp add: between_def del: node_wf.simps)
  have nv: "\<not> valid_canonical_directory X (?B @ ''/'' @ ?j)"
    using prepared_class(3)[OF laws(2,3) mem] path by simp
  obtain es where es: "link_fd_no_clobber (private_mode, pb_manifest_bytes p) ?j (pb_manifest_bytes p) (journal_batches_dir d) = Inr es"
      "dir_wf es" "set (visited X ?B es) = insert (pb_manifest_path p, VFile (pb_manifest_bytes p)) (?bats d)"
    using link_view[OF bwf tx_components(2)[OF laws(1)] nv same ready_bytes(2)[OF laws(3)]] path by auto
  let ?d' = "journal_batches_dir_update (\<lambda>_. es) d"
  have "view X ?d' = insert (pb_manifest_path p, VFile (pb_manifest_bytes p)) (view X d)"
    using rest view_eq[of d X] view_eq[of ?d' X] es(3) outer_view_cong[of ?d' d X] by auto
  then have "recovering X p jb D ?d' \<and> insert (pb_manifest_path p, VFile (pb_manifest_bytes p)) S \<subseteq> view X ?d'"
    using d es(2) by (auto simp: recovering_def between_def batch_items_eq simp del: node_wf.simps)
  then show "\<exists>e. link_fd_no_clobber (private_mode, pb_manifest_bytes p) ?j (pb_manifest_bytes p) (journal_batches_dir d) = Inr e \<and>
      recovering X p jb D (journal_batches_dir_update (\<lambda>_. e) d) \<and>
      insert (pb_manifest_path p, VFile (pb_manifest_bytes p)) S \<subseteq> view X (journal_batches_dir_update (\<lambda>_. e) d)"
    using es(1) by blast
qed

lemma staged_item:
  "st_records (loaded_batch X p base) = map (\<lambda>r. \<lparr>sg_mode = private_mode, sg_target = pr_path r, sg_bytes = pr_bytes r\<rparr>) (pb_records p)"
  "st_manifest_mode (loaded_batch X p base) = private_mode" "st_manifest_bytes (loaded_batch X p base) = pb_manifest_bytes p"
  "st_manifest (loaded_batch X p base) = pb_manifest p"
  by (simp_all add: loaded_batch_def)

lemma drop_stage_runs:
  assumes "length (pb_records p) \<le> MAX_JOURNAL_MEMBERS" "uuid_component X"
  shows "runs (\<lambda>d. Q (d\<lparr>stages_dir := []\<rparr>) \<and> stages_dir d = [(batch_name X p, DirNode (staged_dir p jb))])
    (drop_stage X (bm_batch (pb_manifest p))) (\<lambda>_. Q) E"
proof -
  obtain n where "remove_tree [(batch_name X p, DirNode (staged_dir p jb))] (batch_name X p) 1 = (Inr n, [])"
    using remove_stage[OF small_staged_dir[OF assms(1), of jb] tx_components(1)[OF assms(2), of "bm_batch (pb_manifest p)"]]
    by (auto simp: batch_name_def)
  then show ?thesis
    by (auto simp: runs_def drop_stage_def tx_bind_def tx_remove_tree_def tx_return_def batch_name_def)
qed

lemma publish_staged_runs:
  assumes app: "appendable X J C D p snap jb cand"
  shows "runs (recovering X p jb D) (publish_staged X bar (bm_batch (pb_manifest p)) (loaded_batch X p base))
    (\<lambda>_ d. published X p D d \<and> stages_dir d = [])
    (\<lambda>e d. injected bar e \<and> (recovering X p jb D d \<or> published X p D d))"
proof -
  let ?E = "\<lambda>e d. injected bar e \<and> (recovering X p jb D d \<or> published X p D d)"
  let ?b = "loaded_batch X p base" and ?R = "\<lambda>S d. recovering X p jb D d \<and> S \<subseteq> view X d"
  let ?rs = "\<lambda>i. \<Union>r\<in>set (take i (pb_records p)). record_items r"
  have facts: "length (pb_records p) \<le> MAX_JOURNAL_MEMBERS" "uuid_component X"
    using app by (simp_all add: appendable_def tx_laws_def)
  have hit: "runs (?R S) (hit bar pt) (\<lambda>_. ?R S) ?E" for S pt
    by (rule runs_hit) simp
  have loop: "runs (?R (?rs 0)) (tx_mapM (\<lambda>r. tx_then (publish_record r) (hit bar RecordPublished)) (st_records ?b))
      (\<lambda>_. ?R (?rs (length (st_records ?b)))) ?E"
  proof (rule runs_mapM)
    fix i assume i: "i < length (st_records ?b)"
    then have r: "pb_records p ! i \<in> set (pb_records p)" "i < length (pb_records p)" by (simp_all add: staged_item)
    have "?rs i \<union> record_items (pb_records p ! i) = ?rs (Suc i)"
      using r(2) by (auto simp: take_Suc_conv_app_nth)
    then show "runs (?R (?rs i)) (tx_then (publish_record (st_records ?b ! i)) (hit bar RecordPublished))
        (\<lambda>_. ?R (?rs (Suc i))) ?E"
      using publish_record_step[OF app r(1), of "?rs i" ?E] hit r(2)
      by (auto simp: staged_item intro: runs_then)
  qed
  let ?all = "insert (pb_manifest_path p, VFile (pb_manifest_bytes p)) (?rs (length (pb_records p)))"
  let ?P = "\<lambda>d. published X p D d \<and> stages_dir d = [(batch_name X p, DirNode (staged_dir p jb))]"
  let ?Q = "\<lambda>d. published X p D d \<and> stages_dir d = []"
  have unlink: "runs (?R ?all) (on_recovery (\<lambda>d. unlink_file d (journal_name X (bm_batch (pb_manifest p))))) (\<lambda>_. ?P) ?E"
  proof -
    have "?all = batch_items p" by (auto simp: batch_items_eq)
    then show ?thesis
      unfolding on_recovery_def using small_staged_dir[OF facts(1), of jb]
      by (intro runs_on_dir) (auto simp: recovering_def published_def unlink_file_def between_def view_def
          visible_items_def journal_dir_def small_stages_def simp del: node_wf.simps)
  qed
  have h: "runs ?P (hit bar JournalRemoved) (\<lambda>_. ?P) ?E" "runs ?Q (hit bar StageRemoved) (\<lambda>_. ?Q) ?E"
    by (rule runs_hit, simp)+
  have drop: "runs ?P (drop_stage X (bm_batch (pb_manifest p))) (\<lambda>_. ?Q) ?E"
    by (rule runs_weaken[OF drop_stage_runs[OF facts, where Q = ?Q and jb = jb]])
      (auto simp: published_def between_def view_def visible_items_def journal_dir_def small_stages_def simp del: node_wf.simps)
  note man = publish_manifest_step[OF app, of "?rs (length (pb_records p))" ?E]
  note tail = runs_then[OF hit runs_then[OF unlink runs_then[OF h(1) runs_then[OF drop h(2)]]]]
  show ?thesis
    unfolding publish_staged_def
    using runs_then[OF loop[unfolded staged_item length_map] runs_then[OF man tail]] by (simp add: staged_item)
qed

lemma recover_one_runs:
  assumes app: "appendable X J C D p snap jb cand"
  shows "runs (recovering X p jb D) (recover_one X J C bar (bm_batch (pb_manifest p)))
    (\<lambda>_ d. published X p D d \<and> stages_dir d = [])
    (\<lambda>e d. injected bar e \<and> (recovering X p jb D d \<or> published X p D d))"
proof -
  let ?E = "\<lambda>e d. injected bar e \<and> (recovering X p jb D d \<or> published X p D d)"
  let ?b = "loaded_batch X p (ss_revision snap)"
  have load: "load_staged X J (sc_registry C) d (bm_batch (pb_manifest p)) = Inr ?b" if "recovering X p jb D d" for d
    using that app by (intro load_staged_journaled) (auto simp: recovering_def journaled_dirs_def appendable_def)
  have base: "validate_recovery_base X C d ?b = Inr ()" if "recovering X p jb D d" for d
    using between_recovery_base(1)[OF app] that by (simp add: recovering_def)
  have "recover_one X J C bar (bm_batch (pb_manifest p)) s =
      publish_staged X bar (bm_batch (pb_manifest p)) ?b s" if "recovering X p jb D (tx_dirs s)" for s
    using load[OF that] base[OF that] by (simp add: recover_one_def tx_bind_def tx_read_def)
  then show ?thesis
    using publish_staged_runs[OF app, of bar "ss_revision snap"] by (simp add: runs_def)
qed

section \<open>Recovery of the store\<close>

lemma listed_journals_none: "recovery_dir d = [] \<Longrightarrow> listed_journals X d = Inr []"
  by (simp add: listed_journals_def list_ids_def bounded_names_def bt_keys_def Let_def)

lemma listed_journals_one:
  assumes "batch_laws X" "uuid_component X" "v7_ok X b"
    and "recovery_dir d = [(journal_name X b, FileNode m bs)]"
  shows "listed_journals X d = Inr [b]"
proof -
  have laws: "uuid_roundtrip X" "uuid_plain X" using assms(1) by (simp_all add: batch_laws_def)
  have "is_str (journal_name X b)"
    using uuid_ascii[OF laws(2)] by (auto intro!: is_str_ascii simp: journal_name_def is_ascii_Cons)
  moreover have "strip_suffix (journal_name X b) ''.json'' = Some (uuid_to_string X b)"
    by (simp add: journal_name_def strip_suffix_append)
  moreover have "batch_id_from_str X (uuid_to_string X b) = Inr b"
    using assms(3) laws by (simp add: batch_id_from_str_def parse_uuid_to_string)
  moreover have "dir_kind (recovery_dir d) (journal_name X b) = Inr RegularFile"
    using assms(4) tx_components(2)[OF assms(2)] by (simp add: dir_kind_def)
  moreover have "bounded_names (recovery_dir d) MAX_LOCAL_ENTRIES = Inr [journal_name X b]"
    using assms(4) by (simp add: bounded_names_def bt_keys_def MAX_LOCAL_ENTRIES_def)
  ultimately show ?thesis
    by (simp add: listed_journals_def list_ids_def Let_def)
qed

lemma clean_stages_runs:
  assumes "uuid_component X"
  shows "runs (\<lambda>d. Q (d\<lparr>stages_dir := []\<rparr>) \<and> small_stages (batch_name X p) (stages_dir d))
    clean_unprepared_stages (\<lambda>_. Q) E"
  unfolding runs_def
proof (intro allI impI)
  fix s :: tx_state
  assume s: "Q ((tx_dirs s)\<lparr>stages_dir := []\<rparr>) \<and> small_stages (batch_name X p) (stages_dir (tx_dirs s))"
  have "validate_component (batch_name X p) = Inr ()"
    using tx_components(1)[OF assms] by (simp add: batch_name_def)
  from runsD[OF clean_unprepared_stages_small[OF conjunct2[OF s] this, of "\<lambda>_ _. False"] refl] s
  show "case clean_unprepared_stages s of (Inl e, s') \<Rightarrow> E e (tx_dirs s') | (Inr x, s') \<Rightarrow> Q (tx_dirs s')"
    by (auto split: prod.splits sum.splits)
qed

text \<open>The states an interrupted publication can leave behind, and recovery from each of them.\<close>

definition intermediate :: "ext \<Rightarrow> prepared_batch \<Rightarrow> bytes \<Rightarrow> store_dirs \<Rightarrow> store_dirs \<Rightarrow> bool" where
  "intermediate X p jb D d \<longleftrightarrow> unjournaled X p D d \<or> recovering X p jb D d \<or> published X p D d"

lemma view_local [simp]: "view X (d\<lparr>stages_dir := es\<rparr>) = view X d" "view X (d\<lparr>recovery_dir := es\<rparr>) = view X d"
  by (simp_all add: view_def visible_items_def journal_dir_def)

lemma published_stages: "published X p D d \<Longrightarrow> published X p D (d\<lparr>stages_dir := []\<rparr>)"
  by (simp add: published_def between_def small_stages_def del: node_wf.simps)

lemma published_small: "published X p D d \<Longrightarrow> small_stages (batch_name X p) (stages_dir d)"
  by (simp add: published_def)

lemma recover_locked_runs:
  assumes app: "appendable X J C D p snap jb cand"
  shows "runs (intermediate X p jb D) (recover_locked X J C bar)
    (\<lambda>_ d. d = D \<or> published X p D d \<and> stages_dir d = [])
    (\<lambda>e d. injected bar e \<and> intermediate X p jb D d)"
proof -
  let ?Q = "\<lambda>d. d = D \<or> published X p D d \<and> stages_dir d = []"
  let ?E = "\<lambda>e d. injected bar e \<and> intermediate X p jb D d"
  have facts: "batch_laws X" "uuid_component X" "v7_ok X (bm_batch (pb_manifest p))"
      "stages_dir D = []" "recovery_dir D = []"
    using app by (simp_all add: appendable_def tx_laws_def batch_ready_def)
  have clean: "runs (\<lambda>d. ?Q (d\<lparr>stages_dir := []\<rparr>) \<and> small_stages (batch_name X p) (stages_dir d))
      clean_unprepared_stages (\<lambda>_. ?Q) ?E"
    by (rule clean_stages_runs[OF facts(2)])
  have idle: "runs (\<lambda>d. unjournaled X p D d \<or> published X p D d) (recover_locked X J C bar) (\<lambda>_. ?Q) ?E"
  proof -
    have "recover_locked X J C bar s = clean_unprepared_stages s" if "recovery_dir (tx_dirs s) = []" for s
      using listed_journals_none[OF that]
      by (simp add: recover_locked_def tx_bind_def tx_read_def tx_then_def tx_return_def)
    moreover have "recovery_dir d = [] \<and> ?Q (d\<lparr>stages_dir := []\<rparr>) \<and> small_stages (batch_name X p) (stages_dir d)"
      if "unjournaled X p D d \<or> published X p D d" for d
      using that facts(4,5) published_stages[of X p D d] by (cases D) (auto simp: unjournaled_def published_def)
    ultimately show ?thesis
      using clean by (simp add: runs_def)
  qed
  have busy: "runs (recovering X p jb D) (recover_locked X J C bar) (\<lambda>_. ?Q) ?E"
  proof -
    let ?id = "bm_batch (pb_manifest p)"
    have list: "runs (recovering X p jb D) (tx_read (listed_journals X)) (\<lambda>ids d. ids = [?id] \<and> recovering X p jb D d) ?E"
      using listed_journals_one[OF facts(1-3)] by (intro runs_read) (simp add: recovering_def)
    have one: "runs (recovering X p jb D) (recover_one X J C bar ?id) (\<lambda>_ d. published X p D d \<and> stages_dir d = []) ?E"
      by (rule runs_weaken[OF recover_one_runs[OF app]]) (auto simp: intermediate_def)
    have last: "runs (\<lambda>d. published X p D d \<and> stages_dir d = []) clean_unprepared_stages (\<lambda>_. ?Q) ?E"
      by (rule runs_weaken[OF clean]) (auto simp: published_stages dest: published_small)
    have "runs (recovering X p jb D) (tx_then (tx_mapM (recover_one X J C bar) [?id]) clean_unprepared_stages) (\<lambda>_. ?Q) ?E"
      unfolding tx_mapM.simps by (rule runs_then[OF runs_then[OF one runs_return] last]) simp
    then have "runs (\<lambda>d. ids = [?id] \<and> recovering X p jb D d)
        (tx_then (tx_mapM (recover_one X J C bar) ids) clean_unprepared_stages) (\<lambda>_. ?Q) ?E" for ids
      by (cases "ids = [?id]") (simp_all add: runs_def)
    with list show ?thesis
      unfolding recover_locked_def by (rule runs_bind)
  qed
  from idle busy show ?thesis
    by (auto simp: runs_def intermediate_def)
qed

lemma published_scan:
  assumes "appendable X J C D p snap jb cand" "published X p D d"
  shows "scan_visible X C d = Inr cand"
proof -
  have "set (prepared_files p) \<subseteq> view_files (batch_items p)"
    using batch_items_files[of "{}" p] by auto
  also have "\<dots> \<subseteq> view_files (view X d)"
    using assms(2) by (auto simp: published_def view_files_def)
  finally show ?thesis
    using between_recovery_base(2)[OF assms(1)] assms(2) by (simp add: published_def)
qed

lemma publish_batch_runs:
  assumes app: "appendable X J C D p snap jb cand"
  shows "runs (\<lambda>d. d = D) (publish_batch X J C bar p (ss_revision snap))
    (\<lambda>c d. c = cand \<and> published X p D d \<and> stages_dir d = [])
    (\<lambda>e d. injected bar e \<and> intermediate X p jb D d)"
proof -
  let ?E = "\<lambda>e d. injected bar e \<and> intermediate X p jb D d"
  have facts: "uuid_component X" "stages_dir D = []" "recovery_dir D = []" "length (pb_records p) \<le> MAX_JOURNAL_MEMBERS"
      "encode_journal J (stage_journal X p (ss_revision snap)) = Inr jb"
    using app by (simp_all add: appendable_def tx_laws_def)
  have "between X D p (journaled_dirs X p jb D)"
    using app by (simp add: between_def journaled_dirs_def view_def visible_items_def journal_dir_def appendable_def
        store_wf_def del: node_wf.simps)
  then have rec: "recovering X p jb D (journaled_dirs X p jb D)"
    by (simp add: recovering_def journaled_dirs_def)
  note stage = stage_batch_runs[of X p D J "ss_revision snap" jb bar]
  have 1: "runs (\<lambda>d. d = D) (stage_batch X J bar p (ss_revision snap)) (\<lambda>_. recovering X p jb D) ?E"
    using facts tx_components[OF facts(1)] rec
    by (intro runs_weaken[OF stage]) (auto simp: batch_name_def intermediate_def)
  have 2: "runs (recovering X p jb D) (recover_one X J C bar (bm_batch (pb_manifest p)))
      (\<lambda>_ d. published X p D d \<and> stages_dir d = []) ?E"
    by (rule runs_weaken[OF recover_one_runs[OF app]]) (auto simp: intermediate_def)
  have 3: "runs (\<lambda>d. published X p D d \<and> stages_dir d = []) (tx_read (scan_visible X C))
      (\<lambda>c d. c = cand \<and> published X p D d \<and> stages_dir d = []) ?E"
    using published_scan[OF app] by (intro runs_read) auto
  show ?thesis
    unfolding publish_batch_def using 1 2 3 by (intro runs_then)
qed

section \<open>Interrupted publications\<close>

text \<open>
  What the directories of a store can be after one attempt to publish a batch and any number of
  recoveries, each of them stopped at an arbitrary crash point or run to its end.
\<close>

definition start :: "store_dirs \<Rightarrow> tx_state" where
  "start d = \<lparr>tx_dirs = d, tx_trace = []\<rparr>"

inductive interrupted ::
  "ext \<Rightarrow> journal_ext \<Rightarrow> store_config \<Rightarrow> prepared_batch \<Rightarrow> store_revision_ref \<Rightarrow> store_dirs \<Rightarrow> store_dirs \<Rightarrow> bool"
  for X J C p expected D where
  attempt: "publish_batch X J C bar p expected (start D) = (r, s) \<Longrightarrow> interrupted X J C p expected D (tx_dirs s)"
| recovery: "interrupted X J C p expected D d \<Longrightarrow> recover_locked X J C bar (start d) = (r, s) \<Longrightarrow>
    interrupted X J C p expected D (tx_dirs s)"

lemma base_intermediate: "stages_dir D = [] \<Longrightarrow> intermediate X p jb D D"
  by (cases D) (auto simp: intermediate_def unjournaled_def small_stages_def)

lemma interrupted_intermediate:
  assumes app: "appendable X J C D p snap jb cand" and "interrupted X J C p (ss_revision snap) D d"
  shows "intermediate X p jb D d"
  using assms(2)
proof induction
  case (attempt bar r s)
  then show ?case
    using runsD[OF publish_batch_runs[OF app, of bar], of "start D"]
    by (auto simp: start_def intermediate_def split: sum.splits)
next
  case (recovery d bar r s)
  have "stages_dir D = []" using app by (simp add: appendable_def)
  then show ?case
    using runsD[OF recover_locked_runs[OF app, of bar], of "start d"] recovery base_intermediate[of D]
    by (auto simp: start_def intermediate_def split: sum.splits)
qed

lemma scan_revision_length:
  assumes "blake3_length X" "store_wf D" "scan_visible X C D = Inr snap"
  shows "length (sr_digest (ss_revision snap)) = 32"
proof -
  obtain files nonregular inventory where c: "collect_visible_inventory X DEFAULT_SCAN_LIMITS D = Inr (files, nonregular, inventory)"
      "scan_collected X C files nonregular = Inr snap"
    using assms(3) by (auto simp: scan_visible_def collect_visible_def result_simps)
  have "strictly_ordered (map rf_path files)"
    using collected_content[OF store_wf_visible[OF assms(2)] c(1)] by simp
  then have "compute_store_revision X (file_entries files) = Inr (ss_revision snap)"
    using c(2) by (simp only: scan_collected_Inr)
  then show ?thesis
    using assms(1) by (auto simp: compute_store_revision_Inr framed_hash_def blake3_length_def)
qed

lemma preview_appendable:
  assumes "tx_laws X J" "registry_wf (sc_registry C)" "prepare_batch X rs key (sc_registry C) = Inr p"
    and "\<forall>r\<in>set rs. record_readable X r" "length (pb_records p) \<le> MAX_JOURNAL_MEMBERS"
    and "store_wf D" "stages_dir D = []" "recovery_dir D = []" "scan_visible X C D = Inr snap"
    and "preview_from_snapshot X C D snap p expected = Inr (PreviewPublish revision)"
    and "encode_journal J (stage_journal X p expected) = Inr jb"
  obtains cand where "appendable X J C D p snap jb cand" "ss_revision cand = revision" "expected = ss_revision snap"
proof -
  have e: "expected = ss_revision snap"
    using assms(10) by (auto simp: preview_from_snapshot_def split: if_splits)
  then obtain cand where cand: "validate_candidate X C D p = Inr cand" "ss_revision cand = revision"
    using assms(10) by (auto simp: preview_from_snapshot_def result_simps split: option.splits)
  have "batch_ready X (sc_registry C) p"
    using assms(1-4) by (intro prepare_batch_ready) (simp_all add: tx_laws_def)
  moreover have "length (sr_digest (ss_revision snap)) = 32"
    using scan_revision_length[OF _ assms(6,9)] assms(1) by (simp add: tx_laws_def batch_laws_def)
  ultimately have "appendable X J C D p snap jb cand"
    using assms e cand(1) by (simp add: appendable_def)
  then show thesis using that cand(2) e by blast
qed

text \<open>
  C1: appending is atomic under crashes. Take a store without residue, a prepared batch and a
  preview that would publish it. Wherever the publication is stopped, however often recovery is
  started and stopped afterwards, a recovery that is not stopped succeeds, leaves no stage and no
  journal behind, and the store then scans as exactly the snapshot before the append or a snapshot
  with the previewed revision.
\<close>

theorem append_crash_atomic:
  assumes "tx_laws X J" "registry_wf (sc_registry C)" "prepare_batch X rs key (sc_registry C) = Inr p"
    and "\<forall>r\<in>set rs. record_readable X r" "length (pb_records p) \<le> MAX_JOURNAL_MEMBERS"
    and "store_wf D" "stages_dir D = []" "recovery_dir D = []" "scan_visible X C D = Inr snap"
    and "preview_from_snapshot X C D snap p expected = Inr (PreviewPublish revision)"
    and "encode_journal J (stage_journal X p expected) = Inr jb"
    and "interrupted X J C p expected D d"
  shows "\<exists>s. recover_locked X J C (\<lambda>_. False) (start d) = (Inr (), s) \<and>
    stages_dir (tx_dirs s) = [] \<and> recovery_dir (tx_dirs s) = [] \<and>
    (scan_visible X C (tx_dirs s) = Inr snap \<or>
     (\<exists>cand. scan_visible X C (tx_dirs s) = Inr cand \<and> ss_revision cand = revision))"
proof -
  obtain cand where app: "appendable X J C D p snap jb cand" "ss_revision cand = revision" "expected = ss_revision snap"
    using assms(1-11) by (rule preview_appendable)
  have "intermediate X p jb D d"
    using interrupted_intermediate[OF app(1)] assms(12) app(3) by simp
  then have "case recover_locked X J C (\<lambda>_. False) (start d) of
      (Inl e, s) \<Rightarrow> False
    | (Inr x, s) \<Rightarrow> tx_dirs s = D \<or> published X p D (tx_dirs s) \<and> stages_dir (tx_dirs s) = []"
    using runsD[OF recover_locked_runs[OF app(1), of "\<lambda>_. False"], of "start d"]
    by (auto simp: start_def injected_def split: prod.splits sum.splits)
  then obtain s where s: "recover_locked X J C (\<lambda>_. False) (start d) = (Inr (), s)"
      "tx_dirs s = D \<or> published X p D (tx_dirs s) \<and> stages_dir (tx_dirs s) = []"
    by (auto split: prod.splits sum.splits)
  then show ?thesis
    using assms(7-9) app(2) published_scan[OF app(1)] by (auto simp: published_def)
qed

text \<open>
  C2: appending publishes. Under the same hypotheses a publication that is not stopped succeeds; and
  every publication that reports success has the previewed revision, leaves no residue, and is final:
  the store scans as the returned snapshot and every later recovery leaves the directories as they are.
\<close>

theorem append_publishes:
  assumes "tx_laws X J" "registry_wf (sc_registry C)" "prepare_batch X rs key (sc_registry C) = Inr p"
    and "\<forall>r\<in>set rs. record_readable X r" "length (pb_records p) \<le> MAX_JOURNAL_MEMBERS"
    and "store_wf D" "stages_dir D = []" "recovery_dir D = []" "scan_visible X C D = Inr snap"
    and "preview_from_snapshot X C D snap p expected = Inr (PreviewPublish revision)"
    and "encode_journal J (stage_journal X p expected) = Inr jb"
  shows "(\<exists>committed s. publish_batch X J C (\<lambda>_. False) p expected (start D) = (Inr committed, s)) \<and>
    (\<forall>bar committed s. publish_batch X J C bar p expected (start D) = (Inr committed, s) \<longrightarrow>
       ss_revision committed = revision \<and> stages_dir (tx_dirs s) = [] \<and> recovery_dir (tx_dirs s) = [] \<and>
       scan_visible X C (tx_dirs s) = Inr committed \<and>
       (\<forall>again. recover_locked X J C again (start (tx_dirs s)) = (Inr (), start (tx_dirs s))))"
proof -
  obtain cand where app: "appendable X J C D p snap jb cand" "ss_revision cand = revision" "expected = ss_revision snap"
    using assms by (rule preview_appendable)
  note run = runsD[OF publish_batch_runs[OF app(1)], of "start D"]
  have "\<exists>committed s. publish_batch X J C (\<lambda>_. False) p expected (start D) = (Inr committed, s)"
    using run[of "\<lambda>_. False"] app(3) by (auto simp: start_def injected_def split: prod.splits sum.splits)
  moreover have "ss_revision committed = revision \<and> stages_dir (tx_dirs s) = [] \<and> recovery_dir (tx_dirs s) = [] \<and>
       scan_visible X C (tx_dirs s) = Inr committed \<and>
       recover_locked X J C again (start (tx_dirs s)) = (Inr (), start (tx_dirs s))"
    if "publish_batch X J C bar p expected (start D) = (Inr committed, s)" for bar committed s again
  proof -
    have s: "committed = cand" "published X p D (tx_dirs s)" "stages_dir (tx_dirs s) = []" "recovery_dir (tx_dirs s) = []"
      using run[of bar] that app(3) by (auto simp: start_def published_def)
    have "recover_locked X J C again (start (tx_dirs s)) = (Inr (), start (tx_dirs s))"
      using s(3) listed_journals_none[OF s(4)]
      by (simp add: recover_locked_def tx_bind_def tx_read_def tx_then_def tx_return_def start_def
          clean_unprepared_stages_def bounded_names_def bt_keys_def)
    then show ?thesis
      using s app(2) published_scan[OF app(1) s(2)] by simp
  qed
  ultimately show ?thesis by blast
qed

end
