(* ===== verification/Wj_Demo.thy ===== *)
theory Wj_Demo
  imports Wj_Builtin
begin

text \<open>
  A concrete instance of the external functions and a small store over it. The instance has a
  table of UUIDs, a hexadecimal codec, a 32-byte digest, a table of JSON documents and the derived
  struct visitors; every documented law holds of it, so the theorems that rely on those laws apply
  to the store: a genesis record, a profile record, the batch and identity derived from them.
\<close>

section \<open>External functions\<close>

definition demo_uuids :: "(uuid \<times> string) list" where
  "demo_uuids =
     [(1, ''01913f1d-8e2a-7c30-8f4a-426614174001''), (2, ''01913f1d-8e2a-7c30-8f4a-426614174002''),
      (3, ''01913f1d-8e2a-7c30-8f4a-426614174003''), (4, ''01913f1d-8e2a-7c30-8f4a-426614174004''),
      (5, ''01913f1d-8e2a-7c30-8f4a-426614174005''), (6, ''01913f1d-8e2a-7c30-8f4a-426614174006''),
      (9, ''123e4567-e89b-42d3-a456-426614174000'')]"

definition demo_uuid_text :: "uuid \<Rightarrow> string" where
  "demo_uuid_text u = (case map_of demo_uuids u of Some s \<Rightarrow> s | None \<Rightarrow> ''------------------------------------'')"

definition hex_digit :: "nat \<Rightarrow> char" where
  "hex_digit n = (if n < 10 then char_of (48 + n) else char_of (87 + n))"

definition hex_value :: "char \<Rightarrow> nat option" where
  "hex_value c =
     (let n = of_char c in
      if 48 \<le> n \<and> n \<le> 57 then Some (n - 48) else if 97 \<le> n \<and> n \<le> 102 then Some (n - 87) else None)"

fun hex_of :: "bytes \<Rightarrow> string" where
  "hex_of [] = []"
| "hex_of (b # bs) = hex_digit (of_char b div 16) # hex_digit (of_char b mod 16) # hex_of bs"

fun hex_to :: "string \<Rightarrow> bytes option" where
  "hex_to [] = Some []"
| "hex_to [c] = None"
| "hex_to (c # d # s) =
     (case (hex_value c, hex_value d, hex_to s) of
        (Some h, Some l, Some bs) \<Rightarrow> Some (char_of (16 * h + l) # bs)
      | _ \<Rightarrow> None)"

definition demo_hash :: "bytes \<Rightarrow> digest" where
  "demo_hash bs = rev (take 32 (rev bs @ replicate 32 CHR 0x00))"

definition demo_time_text :: "timestamp \<Rightarrow> string" where
  "demo_time_text t =
     (if t = 0 then ''2026-01-01T00:00:00Z''
      else if 0 < t then replicate (nat t) CHR ''p'' @ ''Z''
      else replicate (nat (- t)) CHR ''n'' @ ''Z'')"

definition demo_time_parse :: "string \<Rightarrow> timestamp option" where
  "demo_time_parse s =
     (if s = ''2026-01-01T00:00:00Z'' then Some 0
      else if s \<noteq> [] \<and> hd s = CHR ''p'' then Some (int (length s) - 1)
      else if s \<noteq> [] \<and> hd s = CHR ''n'' then Some (1 - int (length s)) else None)"

definition demo_fields :: "(string \<times> bool) list \<Rightarrow> json \<Rightarrow> json option list option" where
  "demo_fields fs v =
     (case v of
        JObject kvs \<Rightarrow> struct_of_object fs kvs
      | JArray vs \<Rightarrow> struct_of_array fs vs
      | _ \<Rightarrow> None)"

definition demo_tagged :: "string \<Rightarrow> json \<Rightarrow> (string \<times> json) option" where
  "demo_tagged t v =
     (case v of
        JObject kvs \<Rightarrow>
          (case map_of kvs t of
             Some (JString s) \<Rightarrow> Some (s, JObject (filter (\<lambda>kv. fst kv \<noteq> t) kvs))
           | _ \<Rightarrow> None)
      | _ \<Rightarrow> None)"

text \<open>A document is printed as its position in a table.\<close>

definition table_pretty :: "json list \<Rightarrow> json \<Rightarrow> bytes option" where
  "table_pretty docs v =
     (if v \<in> set docs then Some [char_of (length (takeWhile (\<lambda>w. w \<noteq> v) docs))] else None)"

definition table_read :: "json list \<Rightarrow> bytes \<Rightarrow> raw_json \<times> string option" where
  "table_read docs bs =
     (case bs of
        [] \<Rightarrow> (RFail ''eof'', None)
      | c # _ \<Rightarrow>
          if of_char c < length docs then (raw_of (docs ! of_char c), None)
          else (RFail ''unknown'', None))"

definition table_ext :: "json list \<Rightarrow> ext" where
  "table_ext docs =
     \<lparr>uuid_parse_str = map_of (map (\<lambda>(u, s). (s, u)) demo_uuids),
      uuid_hyphenated = demo_uuid_text,
      uuid_is_nil = (\<lambda>u. u = 0),
      uuid_is_rfc4122 = (\<lambda>u. u \<in> set (map fst demo_uuids)),
      uuid_version_num = (\<lambda>u. if u = 9 then 4 else 7),
      timestamp_parse = demo_time_parse,
      timestamp_to_string = demo_time_text,
      blake3_hash = demo_hash,
      blake3_from_hex = hex_to,
      blake3_to_hex = hex_of,
      json_read = table_read docs,
      json_pretty = table_pretty docs,
      serde_fields = demo_fields,
      serde_tagged = demo_tagged\<rparr>"

section \<open>The laws hold\<close>

lemma table_uuid_roundtrip: "uuid_roundtrip (table_ext docs)"
  by (auto simp: uuid_roundtrip_def table_ext_def demo_uuid_text_def demo_uuids_def)

lemma table_uuid_text_form: "uuid_text_form (table_ext docs)"
  by (simp add: uuid_text_form_def table_ext_def demo_uuid_text_def demo_uuids_def is_lower_hex_def less_eq_char_def)

lemma table_uuid_plain: "uuid_plain (table_ext docs)"
  by (simp add: uuid_plain_def table_ext_def demo_uuid_text_def demo_uuids_def is_ascii_Cons)

lemma table_timestamp_roundtrip: "timestamp_roundtrip (table_ext docs)"
proof -
  have "demo_time_parse (demo_time_text t) = Some t \<and> ends_with (demo_time_text t) ''Z''" for t
    by (cases "nat t"; cases "nat (- t)")
      (auto simp: demo_time_parse_def demo_time_text_def ends_with_iff)
  then show ?thesis
    by (simp add: timestamp_roundtrip_def table_ext_def)
qed

lemma hex_digit_lower: "n < 16 \<Longrightarrow> is_lower_hex (hex_digit n)"
  by (auto simp: is_lower_hex_def hex_digit_def less_eq_char_def)

lemma hex_value_digit: "n < 16 \<Longrightarrow> hex_value (hex_digit n) = Some n"
  by (auto simp: hex_value_def hex_digit_def)

lemma hex_digit_value: "hex_value c = Some n \<Longrightarrow> hex_digit n = c \<and> n < 16"
  by (auto simp: hex_value_def hex_digit_def Let_def split: if_splits)

lemma hex_of_spec:
  "length (hex_of bs) = 2 * length bs \<and> list_all is_lower_hex (hex_of bs) \<and> hex_to (hex_of bs) = Some bs"
proof (induction bs)
  case (Cons b bs)
  have "(of_char b :: nat) < 256" by (rule nat_of_char_less_256)
  then have "(of_char b :: nat) div 16 < 16" "(of_char b :: nat) mod 16 < 16"
    by (simp_all add: div_less_iff_less_mult)
  then show ?case
    using Cons by (simp add: hex_digit_lower hex_value_digit)
qed simp

lemma hex_to_canonical: "hex_to s = Some bs \<Longrightarrow> hex_of bs = s \<and> length s = 2 * length bs"
proof (induction s arbitrary: bs rule: hex_to.induct)
  case (3 c d s)
  then obtain h l ds where hl: "hex_value c = Some h" "hex_value d = Some l" "hex_to s = Some ds"
      "bs = char_of (16 * h + l) # ds"
    by (auto split: option.splits)
  then have "h < 16" "l < 16"
    using hex_digit_value by blast+
  then have "(16 * h + l) mod 256 = 16 * h + l" by simp
  then show ?case
    using 3(1) hl hex_digit_value[OF hl(1)] hex_digit_value[OF hl(2)] by simp
qed auto

lemma table_hex: "hex_roundtrip (table_ext docs)" "hex_canonical (table_ext docs)"
  using hex_of_spec hex_to_canonical
  by (auto simp: hex_roundtrip_def hex_canonical_def table_ext_def)

lemma table_blake3_length: "blake3_length (table_ext docs)"
  by (auto simp: blake3_length_def table_ext_def demo_hash_def min_def)

lemma takeWhile_neq_nth:
  "v \<in> set docs \<Longrightarrow> length (takeWhile (\<lambda>w. w \<noteq> v) docs) < length docs \<and>
     docs ! length (takeWhile (\<lambda>w. w \<noteq> v) docs) = v"
  by (induction docs) auto

lemma table_json_roundtrip: "length docs \<le> 256 \<Longrightarrow> json_roundtrip (table_ext docs)"
  using takeWhile_neq_nth[of _ docs]
  by (fastforce simp: json_roundtrip_def table_ext_def table_pretty_def table_read_def split: if_splits)

lemma table_serde: "serde_object_law (table_ext docs)" "serde_array_law (table_ext docs)"
  "serde_tagged_law (table_ext docs)"
  by (simp_all add: serde_object_law_def serde_array_law_def serde_tagged_law_def table_ext_def
      demo_fields_def demo_tagged_def)

lemmas table_laws = table_uuid_roundtrip table_uuid_plain table_uuid_text_form table_timestamp_roundtrip table_hex
  table_blake3_length table_serde

section \<open>A small store\<close>

definition demo_genesis :: wj_record where
  "demo_genesis =
     \<lparr>r_schema = ''wayjournal.identity/v1'', r_domain = ''wayjournal.identity'',
      r_kind = ''store.genesis'', r_id = 1, r_entity = 2, r_batch = 3, r_actor = ''system:demo'',
      r_occurred_at = 0, r_recorded_at = 0, r_parents = [],
      r_payload = JObject
        [(''store_kind'', JString ''demo.store''),
         (''store_uuid'', JString ''01913f1d-8e2a-7c30-8f4a-426614174002'')]\<rparr>"

definition demo_name :: "record_id \<Rightarrow> record_id list \<Rightarrow> string \<Rightarrow> wj_record" where
  "demo_name i ps name =
     \<lparr>r_schema = ''wayjournal.profile/v1'', r_domain = ''wayjournal.profile'',
      r_kind = ''profile.display_name.set'', r_id = i, r_entity = 2, r_batch = 5,
      r_actor = ''system:demo'', r_occurred_at = 0, r_recorded_at = 0, r_parents = ps,
      r_payload = JObject [(''value'', JString name)]\<rparr>"

definition demo_profile :: wj_record where
  "demo_profile = demo_name 4 [] ''Demo''"

definition demo_rename :: wj_record where
  "demo_rename = demo_name 6 [4] ''Store''"

definition demo_path :: string where
  "demo_path = record_canonical_path (table_ext []) demo_genesis"

definition demo_bytes :: bytes where
  "demo_bytes = [CHR 0x00, CHR 0x0A]"

definition demo_manifest :: batch_manifest where
  "demo_manifest =
     \<lparr>bm_batch = 3, bm_actor = ''system:demo'',
      bm_members = [\<lparr>ref_path = demo_path, ref_id = 1, ref_schema = ''wayjournal.identity/v1'',
        ref_digest = content_digest (table_ext []) demo_bytes\<rparr>],
      bm_key_digest = idempotency_digest (table_ext []) ''system:demo'' ''key'',
      bm_request = framed_hash (table_ext []) REQUEST_DIGEST_DOMAIN [(demo_path, demo_bytes)]\<rparr>"

definition profile_bytes :: bytes where
  "profile_bytes = [CHR 0x02, CHR 0x0A]"

definition rename_bytes :: bytes where
  "rename_bytes = [CHR 0x03, CHR 0x0A]"

definition demo_update :: batch_manifest where
  "demo_update =
     \<lparr>bm_batch = 5, bm_actor = ''system:demo'',
      bm_members =
        [\<lparr>ref_path = record_canonical_path (table_ext []) demo_profile, ref_id = 4,
          ref_schema = ''wayjournal.profile/v1'', ref_digest = content_digest (table_ext []) profile_bytes\<rparr>,
         \<lparr>ref_path = record_canonical_path (table_ext []) demo_rename, ref_id = 6,
          ref_schema = ''wayjournal.profile/v1'', ref_digest = content_digest (table_ext []) rename_bytes\<rparr>],
      bm_key_digest = idempotency_digest (table_ext []) ''system:demo'' ''update'',
      bm_request = framed_hash (table_ext []) REQUEST_DIGEST_DOMAIN
        [(record_canonical_path (table_ext []) demo_profile, profile_bytes),
         (record_canonical_path (table_ext []) demo_rename, rename_bytes)]\<rparr>"

text \<open>Documents about the genesis store: its checkpoint, revision vector, presence proof and cache entry.\<close>

definition demo_digest_text :: string where "demo_digest_text = hex_of (demo_hash (frame demo_path @ frame demo_bytes))"

definition demo_trust_text :: string where "demo_trust_text = hex_of (replicate 32 CHR ''t'')"

definition demo_proof_text :: string where
  "demo_proof_text = hex_of (demo_hash (frame demo_trust_text @ frame (demo_time_text 0)))"

definition demo_store_value :: json where
  "demo_store_value = JObject
     [(''genesis_fingerprint'', JString demo_digest_text), (''store_uuid'', JString ''01913f1d-8e2a-7c30-8f4a-426614174002'')]"

definition demo_revision_value :: json where
  "demo_revision_value = JObject
     [(''algorithm'', JString ''wayjournal.store/blake3-framed-v1''), (''digest'', JString demo_digest_text)]"

definition demo_checkpoint_doc :: json where
  "demo_checkpoint_doc = JObject
     [(''accepted_commit'', JString (replicate 40 CHR ''1'')),
      (''accepted_git_object_format'', JString ''sha1''),
      (''accepted_revision_algorithm'', JString ''wayjournal.store/blake3-framed-v1''),
      (''accepted_revision_digest'', JString demo_digest_text), (''genesis_fingerprint'', JString demo_digest_text),
      (''local_trust_binding'', JString demo_trust_text), (''remote_locator'', JString ''file:///srv/git/store.git''),
      (''remote_ref'', JString ''refs/heads/main''), (''schema'', JString ''wayjournal.admission-checkpoint/v1''),
      (''store_uuid'', JString ''01913f1d-8e2a-7c30-8f4a-426614174002'')]"

definition demo_vector_doc :: json where
  "demo_vector_doc = JObject
     [(''entries'', JArray [JObject [(''revision'', demo_revision_value), (''store'', demo_store_value)]]),
      (''schema'', JString ''wayjournal.revision-vector/v1'')]"

definition demo_proof_doc :: json where
  "demo_proof_doc = JObject
     [(''local_trust_binding'', JString demo_trust_text), (''observed_at'', JString ''2026-01-01T00:00:00Z''),
      (''proof_id'', JString demo_proof_text),
      (''record_id'', JString ''01913f1d-8e2a-7c30-8f4a-426614174001''),
      (''schema'', JString ''wayjournal.verified-proof/v1''), (''source_revision'', demo_revision_value),
      (''subject'', JObject [(''domain'', JString ''wayjournal.identity''),
        (''entity_id'', JString ''01913f1d-8e2a-7c30-8f4a-426614174002''), (''store'', demo_store_value)])]"

definition demo_entry_doc :: json where
  "demo_entry_doc = JObject
     [(''dependencies'', demo_vector_doc), (''proof'', demo_proof_doc), (''schema'', JString ''wayjournal.projection-cache-entry/v1'')]"

definition demo_docs :: "json list" where
  "demo_docs =
     [record_to_value (table_ext []) demo_genesis, manifest_to_value (table_ext []) demo_manifest,
      record_to_value (table_ext []) demo_profile, record_to_value (table_ext []) demo_rename,
      manifest_to_value (table_ext []) demo_update, demo_checkpoint_doc, demo_vector_doc, demo_proof_doc, demo_entry_doc]"

definition demo_ext :: ext where
  "demo_ext = table_ext demo_docs"

definition demo_registry :: domain_registry where
  "demo_registry = \<lparr>registrations = BUILTIN_DOMAINS demo_ext, sealed_builtins = True\<rparr>"

definition demo_batch :: prepared_batch where
  "demo_batch =
     \<lparr>pb_manifest = demo_manifest,
      pb_manifest_path = ''journal/batches/01913f1d-8e2a-7c30-8f4a-426614174003.json'',
      pb_manifest_bytes = [CHR 0x01, CHR 0x0A],
      pb_records = [\<lparr>pr_record = demo_genesis, pr_path = demo_path, pr_bytes = demo_bytes\<rparr>]\<rparr>"

definition update_batch :: prepared_batch where
  "update_batch =
     \<lparr>pb_manifest = demo_update,
      pb_manifest_path = ''journal/batches/01913f1d-8e2a-7c30-8f4a-426614174005.json'',
      pb_manifest_bytes = [CHR 0x04, CHR 0x0A],
      pb_records =
        [\<lparr>pr_record = demo_profile, pr_path = record_canonical_path demo_ext demo_profile,
          pr_bytes = profile_bytes\<rparr>,
         \<lparr>pr_record = demo_rename, pr_path = record_canonical_path demo_ext demo_rename,
          pr_bytes = rename_bytes\<rparr>]\<rparr>"

lemma table_functions:
  "uuid_to_string (table_ext d) = demo_uuid_text" "timestamp_to_string (table_ext d) = demo_time_text"
  "digest_to_string (table_ext d) = hex_of" "blake3_hash (table_ext d) = demo_hash"
  "uuid_parse_str (table_ext d) = map_of (map (\<lambda>(u, s). (s, u)) demo_uuids)"
  "uuid_hyphenated (table_ext d) = demo_uuid_text" "uuid_is_nil (table_ext d) u \<longleftrightarrow> u = 0"
  "uuid_is_rfc4122 (table_ext d) u \<longleftrightarrow> u \<in> set (map fst demo_uuids)"
  "uuid_version_num (table_ext d) u = (if u = 9 then 4 else 7)"
  "serde_fields (table_ext d) = demo_fields" "json_pretty (table_ext d) = table_pretty d"
  "timestamp_parse (table_ext d) = demo_time_parse"
  by (auto simp: table_ext_def uuid_to_string_def digest_to_string_def fun_eq_iff)

lemma table_values:
  "record_to_value (table_ext d) = record_to_value (table_ext [])"
  "manifest_to_value (table_ext d) = manifest_to_value (table_ext [])"
  "record_canonical_path (table_ext d) = record_canonical_path (table_ext [])"
  "content_digest (table_ext d) = content_digest (table_ext [])"
  "idempotency_digest (table_ext d) = idempotency_digest (table_ext [])"
  "framed_hash (table_ext d) = framed_hash (table_ext [])"
proof -
  show "record_to_value (table_ext d) = record_to_value (table_ext [])"
    by (simp add: fun_eq_iff record_to_value_def table_functions)
  have "ref_to_value (table_ext d) = ref_to_value (table_ext [])"
    by (simp add: fun_eq_iff ref_to_value_def table_functions)
  then show "manifest_to_value (table_ext d) = manifest_to_value (table_ext [])"
    by (intro ext) (simp add: manifest_to_value_def table_functions)
  show "record_canonical_path (table_ext d) = record_canonical_path (table_ext [])"
    "content_digest (table_ext d) = content_digest (table_ext [])"
    "idempotency_digest (table_ext d) = idempotency_digest (table_ext [])"
    "framed_hash (table_ext d) = framed_hash (table_ext [])"
    by (simp_all add: fun_eq_iff record_canonical_path_def content_digest_def hash_bytes_def
        idempotency_digest_def framed_hash_def table_functions)
qed

lemma demo_laws:
  "uuid_roundtrip demo_ext" "uuid_plain demo_ext" "timestamp_roundtrip demo_ext"
  "hex_roundtrip demo_ext" "hex_canonical demo_ext" "blake3_length demo_ext"
  "json_roundtrip demo_ext" "serde_object_law demo_ext" "serde_array_law demo_ext"
  "serde_tagged_law demo_ext" "batch_laws demo_ext" "uuid_text_form demo_ext"
  by (simp_all add: demo_ext_def table_laws table_json_roundtrip demo_docs_def batch_laws_def)

lemmas demo_values = table_values[of demo_docs, folded demo_ext_def]
lemmas demo_functions = table_functions[of demo_docs, folded demo_ext_def]

lemma demo_uuid_ok:
  "uuid_ok demo_ext vs 1 \<longleftrightarrow> 7 \<in> set vs" "uuid_ok demo_ext vs 2 \<longleftrightarrow> 7 \<in> set vs"
  "uuid_ok demo_ext vs 3 \<longleftrightarrow> 7 \<in> set vs" "uuid_ok demo_ext vs 4 \<longleftrightarrow> 7 \<in> set vs"
  "uuid_ok demo_ext vs 5 \<longleftrightarrow> 7 \<in> set vs" "uuid_ok demo_ext vs 6 \<longleftrightarrow> 7 \<in> set vs"
  "uuid_ok demo_ext vs 9 \<longleftrightarrow> 4 \<in> set vs"
  by (simp_all add: uuid_ok_def demo_functions demo_uuids_def)

lemma demo_tokens:
  "domain_id_from_str ''wayjournal.identity'' = Inr ''wayjournal.identity''"
  "domain_id_from_str ''wayjournal.profile'' = Inr ''wayjournal.profile''"
  "record_schema_id_from_str ''wayjournal.identity/v1'' = Inr ''wayjournal.identity/v1''"
  "record_schema_id_from_str ''wayjournal.profile/v1'' = Inr ''wayjournal.profile/v1''"
  "kind_id_from_str ''store.genesis'' = Inr ''store.genesis''"
  "kind_id_from_str ''demo.store'' = Inr ''demo.store''"
  "kind_id_from_str ''profile.display_name.set'' = Inr ''profile.display_name.set''"
  by code_simp+

lemma demo_actors:
  "actor_id_parse ''system:demo'' = Inr ''system:demo''"
  "actor_id_parse ''system:validator'' = Inr ''system:validator''"
  by (simp_all add: actor_id_parse_def valid_segment_iff chars_def from_utf8_def is_control_def
      is_whitespace_def lower_byte_def segment_tail_byte_def less_eq_char_def)

lemma demo_readable: "record_readable demo_ext demo_genesis"
  "record_readable demo_ext demo_profile" "record_readable demo_ext demo_rename"
  by (simp_all add: record_readable_def demo_laws record_ok_def demo_genesis_def demo_profile_def
      demo_rename_def demo_name_def demo_tokens demo_actors demo_uuid_ok json_limit_def less_char_def)

lemma demo_registry: "wayjournal_domain_registry_with demo_ext [] = Inr demo_registry" "registry_wf demo_registry"
proof -
  show r: "wayjournal_domain_registry_with demo_ext [] = Inr demo_registry"
    by (simp add: wayjournal_domain_registry_with_def with_builtins_def validate_and_collect_def
        builtin_registrations demo_registry_def)
  show "registry_wf demo_registry"
    using r unfolding wayjournal_domain_registry_with_def by (rule registry_wf_builtins)
qed

lemma demo_docs_distinct: "distinct demo_docs"
  by (simp add: demo_docs_def record_object_eq manifest_to_value_eq demo_genesis_def demo_profile_def
      demo_rename_def demo_name_def demo_manifest_def demo_update_def table_functions demo_uuid_text_def
      demo_uuids_def demo_checkpoint_doc_def demo_vector_doc_def demo_proof_doc_def demo_entry_doc_def)

lemma takeWhile_distinct: "distinct docs \<Longrightarrow> i < length docs \<Longrightarrow>
    length (takeWhile (\<lambda>w. w \<noteq> docs ! i) docs) = i"
  using takeWhile_neq_nth[of "docs ! i" docs]
    nth_eq_iff_index_eq[of docs "length (takeWhile (\<lambda>w. w \<noteq> docs ! i) docs)" i] by simp

lemma demo_pretty_nth: "i < 9 \<Longrightarrow> json_pretty demo_ext (demo_docs ! i) = Some [char_of i]"
  using takeWhile_distinct[OF demo_docs_distinct, of i] nth_mem[of i demo_docs]
  by (simp add: demo_functions table_pretty_def demo_docs_def)

lemma demo_pretty:
  "json_pretty demo_ext (record_to_value demo_ext demo_genesis) = Some [CHR 0x00]"
  "json_pretty demo_ext (manifest_to_value demo_ext demo_manifest) = Some [CHR 0x01]"
  "json_pretty demo_ext (record_to_value demo_ext demo_profile) = Some [CHR 0x02]"
  "json_pretty demo_ext (record_to_value demo_ext demo_rename) = Some [CHR 0x03]"
  "json_pretty demo_ext (manifest_to_value demo_ext demo_update) = Some [CHR 0x04]"
proof -
  note pretty = demo_pretty_nth
  have "char_of (0 :: nat) = CHR 0x00" "char_of (1 :: nat) = CHR 0x01" "char_of (2 :: nat) = CHR 0x02"
    "char_of (3 :: nat) = CHR 0x03" "char_of (4 :: nat) = CHR 0x04"
    by code_simp+
  then show "json_pretty demo_ext (record_to_value demo_ext demo_genesis) = Some [CHR 0x00]"
    "json_pretty demo_ext (manifest_to_value demo_ext demo_manifest) = Some [CHR 0x01]"
    "json_pretty demo_ext (record_to_value demo_ext demo_profile) = Some [CHR 0x02]"
    "json_pretty demo_ext (record_to_value demo_ext demo_rename) = Some [CHR 0x03]"
    "json_pretty demo_ext (manifest_to_value demo_ext demo_update) = Some [CHR 0x04]"
    using pretty[of 0] pretty[of 1] pretty[of 2] pretty[of 3] pretty[of 4]
    by (simp_all add: demo_values demo_docs_def)
qed

lemma demo_parse:
  "7 \<in> set vs \<Longrightarrow> parse_uuid demo_ext ''01913f1d-8e2a-7c30-8f4a-426614174001'' k vs = Inr 1"
  "7 \<in> set vs \<Longrightarrow> parse_uuid demo_ext ''01913f1d-8e2a-7c30-8f4a-426614174002'' k vs = Inr 2"
  "4 \<in> set vs \<Longrightarrow> parse_uuid demo_ext ''123e4567-e89b-42d3-a456-426614174000'' k vs = Inr 9"
  by (simp_all add: parse_uuid_def demo_functions demo_uuids_def demo_uuid_text_def)

lemma demo_time: "record_timestamp_from_str demo_ext ''2026-01-01T00:00:00Z'' = Inr 0"
  using record_timestamp_to_string[OF demo_laws(3), of 0] by (simp add: demo_functions demo_time_text_def)

lemma demo_genesis_payload:
  "genesis_from_value demo_ext (r_payload demo_genesis) =
     Some \<lparr>gp_kind = ''demo.store'', gp_uuid = 2, gp_forked_from = None\<rparr>"
  by (simp add: genesis_from_value_def demo_functions demo_fields_def demo_genesis_def
      struct_of_object_def de_option_def demo_tokens store_uuid_from_str_def demo_parse)

lemma demo_validate_genesis: "validate_record demo_genesis demo_registry = Inr ()"
proof -
  have "validate_identity_payload demo_ext ''store.genesis'' (r_payload demo_genesis)"
    by (simp add: validate_identity_payload_def demo_genesis_payload fork_reuses_def)
  then show ?thesis
    by (simp add: validate_record_def registry_validate_def demo_registry_def BUILTIN_DOMAINS_def
        IDENTITY_SCHEMA_V1_def IDENTITY_KINDS_def demo_genesis_def)
qed

lemma demo_name_operation:
  assumes "r_payload r = JObject [(''value'', JString name)]" "r_domain r = ''wayjournal.profile''"
    "r_schema r = ''wayjournal.profile/v1''" "r_kind r = ''profile.display_name.set''"
    "bounded name MAX_TEXT"
  shows "operation_try_from demo_ext r = Inr \<lparr>op_id = r_id r, op_entity = r_entity r,
    op_parents = r_parents r, op_domain = ''wayjournal.profile'', op_target = None,
    op_kind = ScalarSet DisplayName (SV_Text name)\<rparr>"
  using assms
  by (simp add: operation_try_from_def PROFILE_SCHEMA_V1_def profile_operation_def
      profile_kind_def profile_scalar_def scalar_payload_def demo_functions demo_fields_def
      struct_of_object_def de_string_def op_text_def)

lemma demo_names_bounded: "bounded ''Demo'' MAX_TEXT" "bounded ''Store'' MAX_TEXT"
  by (simp_all add: bounded_def MAX_TEXT_def chars_def from_utf8_def is_control_def)

lemma demo_validate_name:
  assumes "bounded name MAX_TEXT" "strictly_ordered ps" "i \<notin> set ps"
  shows "validate_record (demo_name i ps name) demo_registry = Inr ()"
proof -
  have "validate_profile_payload demo_ext ''profile.display_name.set''
      (JObject [(''value'', JString name)])"
    using assms(1)
    by (simp add: validate_profile_payload_def validate_payload_def PROFILE_SCHEMA_V1_def demo_tokens
        demo_actors id_from_str_defs demo_parse demo_time demo_name_operation)
  then show ?thesis
    using assms(2,3)
    by (simp add: validate_record_def registry_validate_def demo_registry_def BUILTIN_DOMAINS_def
        IDENTITY_SCHEMA_V1_def PROFILE_SCHEMA_V1_def PROFILE_KINDS_def demo_name_def)
qed

lemma encode_record_table:
  assumes "validate_record r demo_registry = Inr ()" "float_free (r_payload r)"
    "json_pretty demo_ext (record_to_value demo_ext r) = Some [c]"
  shows "encode_record demo_ext r demo_registry = Inr [c, CHR 0x0A]"
  using assms
  by (simp add: encode_record_Inr encode_pretty_def iffD2[OF reject_floats_iff]
      float_free_record_value MAX_RECORD_BYTES_def)

lemma encode_manifest_table:
  assumes "json_pretty demo_ext (manifest_to_value demo_ext m) = Some [c]"
  shows "encode_manifest demo_ext m = Inr [c, CHR 0x0A]"
  using assms good_manifest_value[of demo_ext m]
  by (simp add: encode_manifest_Inr encode_pretty_def iffD2[OF reject_floats_iff] good_json_def
      MAX_BATCH_BYTES_def)

lemma demo_encode:
  "encode_record demo_ext demo_genesis demo_registry = Inr demo_bytes"
  "encode_record demo_ext demo_profile demo_registry = Inr profile_bytes"
  "encode_record demo_ext demo_rename demo_registry = Inr rename_bytes"
proof -
  have "validate_record demo_profile demo_registry = Inr ()" "validate_record demo_rename demo_registry = Inr ()"
    by (simp_all add: demo_profile_def demo_rename_def demo_validate_name demo_names_bounded)
  moreover have "float_free (r_payload demo_genesis)" "float_free (r_payload demo_profile)"
    "float_free (r_payload demo_rename)"
    by (simp_all add: demo_genesis_def demo_profile_def demo_rename_def demo_name_def)
  ultimately show "encode_record demo_ext demo_genesis demo_registry = Inr demo_bytes"
    "encode_record demo_ext demo_profile demo_registry = Inr profile_bytes"
    "encode_record demo_ext demo_rename demo_registry = Inr rename_bytes"
    unfolding demo_bytes_def profile_bytes_def rename_bytes_def
    by (auto intro!: encode_record_table simp: demo_validate_genesis demo_pretty)
qed

lemmas demo_encode_manifest =
  encode_manifest_table[OF demo_pretty(2)] encode_manifest_table[OF demo_pretty(5)]

lemma demo_decode:
  "decode_record demo_ext demo_bytes demo_registry = Inr demo_genesis"
  "decode_record demo_ext profile_bytes demo_registry = Inr demo_profile"
  "decode_record demo_ext rename_bytes demo_registry = Inr demo_rename"
  using demo_readable demo_encode encode_record_readable by blast+

lemma demo_headers:
  "r_batch demo_genesis = 3" "r_actor demo_genesis = ''system:demo''" "r_id demo_genesis = 1"
  "r_schema demo_genesis = ''wayjournal.identity/v1''"
  "r_batch demo_profile = 5" "r_actor demo_profile = ''system:demo''" "r_id demo_profile = 4"
  "r_schema demo_profile = ''wayjournal.profile/v1''" "r_domain demo_profile = ''wayjournal.profile''"
  "r_batch demo_rename = 5" "r_actor demo_rename = ''system:demo''" "r_id demo_rename = 6"
  "r_schema demo_rename = ''wayjournal.profile/v1''" "r_domain demo_rename = ''wayjournal.profile''"
  by (simp_all add: demo_genesis_def demo_profile_def demo_rename_def demo_name_def)

lemma demo_manifest_paths:
  "manifest_canonical_path demo_ext demo_manifest = ''journal/batches/01913f1d-8e2a-7c30-8f4a-426614174003.json''"
  "manifest_canonical_path demo_ext demo_update = ''journal/batches/01913f1d-8e2a-7c30-8f4a-426614174005.json''"
  by (simp_all add: manifest_canonical_path_def demo_manifest_def demo_update_def demo_functions
      demo_uuid_text_def demo_uuids_def)

lemma demo_path_genesis: "record_canonical_path demo_ext demo_genesis = demo_path"
  by (simp add: demo_path_def demo_values)

lemma demo_path_order:
  "record_canonical_path (table_ext []) demo_profile < record_canonical_path (table_ext []) demo_rename"
  by (simp add: record_canonical_path_def demo_profile_def demo_rename_def demo_name_def table_functions
      demo_uuid_text_def demo_uuids_def less_char_def)

lemma demo_prepare: "prepare_batch demo_ext [demo_genesis] ''key'' demo_registry = Inr demo_batch"
proof -
  have "manifest_of demo_ext 3 ''system:demo'' ''key'' (pb_records demo_batch) = demo_manifest"
    by (simp add: manifest_of_def demo_batch_def prepared_ref_def demo_headers demo_manifest_def demo_values)
  then show ?thesis
    by (simp add: prepare_batch_def prepare_step_def demo_encode(1) demo_path_genesis demo_headers
        manifest_of_def demo_batch_def bt_values_def Let_def demo_encode_manifest demo_manifest_paths)
qed

lemma demo_prepare_update:
  "prepare_batch demo_ext [demo_rename, demo_profile] ''update'' demo_registry = Inr update_batch"
proof -
  have "manifest_of demo_ext 5 ''system:demo'' ''update'' (pb_records update_batch) = demo_update"
    by (simp add: manifest_of_def update_batch_def prepared_ref_def demo_headers demo_update_def demo_values)
  then show ?thesis
    using demo_path_order
    by (simp add: prepare_batch_def prepare_step_def demo_encode demo_headers demo_values
        manifest_of_def update_batch_def bt_values_def Let_def demo_encode_manifest demo_manifest_paths)
qed

end
