(* ===== verification/Wj_Examples.thy ===== *)
theory Wj_Examples
  imports Wj_Demo
begin

text \<open>
  The properties of the development at concrete inputs: each lemma here applies one property to the
  small store of \<open>Wj_Demo\<close>, or to a small list of operations, and discharges its hypotheses there.
\<close>

section \<open>Text and bytes\<close>

theorem identifier_text_exact_witness:
  "record_id_from_str demo_ext ''01913f1d-8e2a-7c30-8f4a-426614174001'' = Inr 1 \<and>
   batch_id_from_str demo_ext ''123e4567-e89b-42d3-a456-426614174000'' \<noteq> Inr 9"
  using identifier_text_exact[OF demo_laws(1,3,4,5), of "''01913f1d-8e2a-7c30-8f4a-426614174001''" 1]
    identifier_text_exact[OF demo_laws(1,3,4,5), of "''123e4567-e89b-42d3-a456-426614174000''" 9]
  by (simp add: demo_functions demo_uuid_text_def demo_uuids_def demo_uuid_ok)

theorem canonical_classes_exact_witness:
  "classify_path demo_ext demo_path = JournalRecord"
proof -
  have "demo_path = record_path demo_ext ''wayjournal.identity'' 2 1"
    by (simp add: demo_path_genesis[symmetric] record_canonical_path_eq demo_genesis_def)
  then show ?thesis
    using canonical_classes_exact[OF demo_laws(1,2), of demo_path] demo_tokens(1)
      demo_uuid_ok(1)[of "[7]"] demo_uuid_ok(2)[of "[1, 3, 4, 5, 6, 7, 8]"]
    unfolding list.set insert_iff by blast
qed

section \<open>Records\<close>

theorem decode_record_canonical_witness:
  "encode_record demo_ext demo_rename demo_registry = Inr rename_bytes \<and> record_ok demo_ext demo_rename \<and>
   strictly_ordered (r_parents demo_rename) \<and> r_id demo_rename \<notin> set (r_parents demo_rename)"
  using decode_record_canonical[OF demo_decode(3)] by simp

theorem record_codec_exact_witness:
  "decode_record demo_ext demo_bytes demo_registry = Inr demo_genesis \<and>
   decode_record demo_ext profile_bytes demo_registry \<noteq> Inr demo_genesis"
  using record_codec_exact[OF demo_readable(1), of demo_bytes demo_registry]
    record_codec_exact[OF demo_readable(1), of profile_bytes demo_registry] demo_encode(1)
  by (simp add: demo_bytes_def profile_bytes_def)

section \<open>Batches\<close>

definition demo_members :: "stored_member list" where
  "demo_members = [\<lparr>sm_path = demo_path, sm_bytes = demo_bytes\<rparr>]"

definition update_members :: "stored_member list" where
  "update_members =
     [\<lparr>sm_path = record_canonical_path demo_ext demo_profile, sm_bytes = profile_bytes\<rparr>,
      \<lparr>sm_path = record_canonical_path demo_ext demo_rename, sm_bytes = rename_bytes\<rparr>]"

lemma demo_members_valid:
  "validate_batch_members demo_ext demo_manifest demo_members demo_registry = Inr [demo_genesis]"
  by (simp add: validate_batch_members_def demo_members_def demo_manifest_def check_member_def
      demo_values demo_decode demo_headers demo_path_def)

lemma update_members_valid:
  "validate_batch_members demo_ext demo_update update_members demo_registry = Inr [demo_profile, demo_rename]"
  "validate_batch_members demo_ext demo_update (rev update_members) demo_registry = Inr [demo_profile, demo_rename]"
  using demo_path_order
  by (simp_all add: validate_batch_members_def update_members_def demo_update_def check_member_def
      demo_values demo_decode demo_headers)

theorem prepared_batch_accepted_witness:
  "decode_batch_manifest demo_ext [CHR 0x04, CHR 0x0A] = Inr demo_update \<and>
   validate_batch_members demo_ext demo_update update_members demo_registry = Inr [demo_profile, demo_rename]"
  using prepared_batch_accepted[OF demo_prepare_update demo_laws(11) demo_registry(2)] demo_readable
  by (simp add: update_batch_def update_members_def)

theorem prepare_batch_permutation_witness:
  "prepare_batch demo_ext [demo_profile, demo_rename] ''update'' demo_registry = Inr update_batch"
  using prepare_batch_permutation[OF demo_prepare_update, of "[demo_profile, demo_rename]"]
    demo_laws(11) demo_readable
  by (simp add: record_readable_def)

theorem manifest_binds_members_witness:
  "(\<lambda>s. (sm_path s, sm_bytes s)) ` set update_members =
     (\<lambda>s. (sm_path s, sm_bytes s)) ` set (rev update_members) \<or>
   member_collision demo_ext update_members (rev update_members)"
  by (rule manifest_binds_members[OF update_members_valid])

theorem ownership_exact_witness:
  "validate_batch_ownership demo_ext demo_members [demo_manifest] demo_registry = Inr () \<and>
   validate_batch_ownership demo_ext demo_members [demo_manifest, demo_manifest] demo_registry \<noteq> Inr ()"
proof -
  have "manifest_stored demo_ext demo_registry demo_members demo_manifest"
    unfolding manifest_stored_def
    by (intro exI[of _ demo_members] conjI)
      (simp_all add: demo_members_valid, simp_all add: demo_manifest_def demo_members_def)
  then show ?thesis
    using ownership_exact[of demo_ext demo_members "[demo_manifest]" demo_registry]
      ownership_exact[of demo_ext demo_members "[demo_manifest, demo_manifest]" demo_registry]
    by (simp add: demo_members_def demo_decode demo_manifest_def)
qed

theorem manifest_codec_exact_witness:
  "decode_batch_manifest demo_ext [CHR 0x01, CHR 0x0A] = Inr demo_manifest"
proof -
  obtain b a where p: "preparable demo_ext demo_registry b a [demo_genesis]"
      "demo_manifest = manifest_of demo_ext b a ''key'' (bt_values (prepared_map demo_ext demo_registry [demo_genesis]))"
    using demo_prepare by (auto simp: prepare_batch_Inr demo_batch_def)
  have "manifest_readable demo_ext demo_manifest"
    unfolding p(2) using p(1) demo_readable(1) demo_laws(11) demo_registry(2)
    by (intro prepared_manifest_readable) (simp_all add: record_readable_def)
  then show ?thesis
    using manifest_codec_exact[of demo_ext "[CHR 0x01, CHR 0x0A]" demo_manifest] demo_encode_manifest(1)
    by (simp add: manifest_readable_def)
qed

section \<open>Revisions\<close>

definition demo_entries :: "revision_entry list" where
  "demo_entries =
     [\<lparr>re_path = demo_path, re_bytes = demo_bytes, re_regular = True\<rparr>,
      \<lparr>re_path = ''README.md'', re_bytes = ''demo'', re_regular = False\<rparr>]"

definition demo_revision :: store_revision_ref where
  "demo_revision =
     \<lparr>sr_algorithm = WayjournalBlake3FramedV1,
      sr_digest = framed_hash demo_ext STORE_REVISION_DOMAIN [(demo_path, demo_bytes)]\<rparr>"

lemma demo_path_record: "classify_path demo_ext demo_path = JournalRecord"
  using classify_record_canonical_path[OF demo_laws(1,2)] demo_readable(1)
  by (simp add: record_readable_def flip: demo_path_genesis)

lemma readme_foreign: "classify_path demo_ext ''README.md'' = NonCanonical"
  by (simp add: classify_path_def starts_with_def reserved_prefix_bytes_def)

lemma demo_canonical_entries: "canonical_entries demo_ext demo_entries = [(demo_path, demo_bytes)]"
  by (simp add: canonical_entries_def demo_entries_def demo_path_record readme_foreign is_canonical_def)

lemma demo_path_not_readme: "demo_path \<noteq> ''README.md''"
  using demo_path_record readme_foreign by auto

lemma demo_revision_computed: "compute_store_revision demo_ext demo_entries = Inr demo_revision"
  by (simp add: compute_store_revision_Inr entry_ok_def demo_canonical_entries demo_revision_def)
    (simp add: demo_entries_def demo_path_record readme_foreign is_canonical_def demo_path_not_readme)

theorem revision_exact_witness:
  "compute_store_revision demo_ext demo_entries = Inr demo_revision"
  unfolding revision_exact demo_canonical_entries demo_revision_def
  by (simp add: demo_entries_def demo_path_record readme_foreign is_canonical_def demo_path_not_readme)

theorem revision_order_independent_witness:
  "compute_store_revision demo_ext (rev demo_entries) = Inr demo_revision"
  using revision_order_independent[of demo_entries "rev demo_entries" demo_ext] demo_revision_computed by simp

theorem accumulator_equivalent_witness:
  "\<exists>a. try_fold (\<lambda>a (path, bs). accumulator_push demo_ext a path bs) accumulator_new [(demo_path, demo_bytes)] = Inr a \<and>
    accumulator_finish demo_ext a = demo_revision"
  using accumulator_equivalent[OF demo_revision_computed] by (simp add: demo_canonical_entries)

theorem revision_binds_content_witness:
  "canonical_entries demo_ext demo_entries = canonical_entries demo_ext (tl (rev demo_entries)) \<or>
   blake3_collision demo_ext (frame_entries STORE_REVISION_DOMAIN (canonical_entries demo_ext demo_entries))
     (frame_entries STORE_REVISION_DOMAIN (canonical_entries demo_ext (tl (rev demo_entries))))"
proof -
  have tl: "canonical_entries demo_ext (tl (rev demo_entries)) = [(demo_path, demo_bytes)]"
    by (simp add: canonical_entries_def demo_entries_def demo_path_record is_canonical_def)
  have "compute_store_revision demo_ext (tl (rev demo_entries)) = Inr demo_revision"
    by (simp add: compute_store_revision_Inr entry_ok_def tl demo_revision_def)
      (simp add: demo_entries_def demo_path_record)
  moreover have "framable (demo_path, demo_bytes)"
    by (simp add: framable_def demo_bytes_def flip: demo_path_genesis)
      (simp add: record_canonical_path_def demo_genesis_def demo_functions demo_uuid_text_def demo_uuids_def)
  ultimately show ?thesis
    using demo_revision_computed tl demo_canonical_entries
    by (intro revision_binds_content[of _ _ demo_revision]) simp_all
qed

section \<open>Identity\<close>

definition demo_identity :: store_identity where
  "demo_identity =
     \<lparr>si_logical = \<lparr>ls_uuid = 2, ls_fingerprint = genesis_fingerprint demo_ext demo_path demo_bytes\<rparr>,
      si_kind = ''demo.store'', si_forked_from = None, si_genesis = 1\<rparr>"

lemma demo_manifest_fields:
  "bm_batch demo_manifest = 3" "map ref_path (bm_members demo_manifest) = [demo_path]"
  "length (bm_members demo_manifest) = 1" "ref_id (hd (bm_members demo_manifest)) = 1"
  by (simp_all add: demo_manifest_def)

lemma demo_identity_manifest:
  "check_identity_manifest demo_ext demo_registry [(demo_path, demo_bytes)] [] demo_manifest = Inr [3]"
  using demo_members_valid by (simp add: check_identity_manifest_def demo_members_def)
    (simp add: demo_manifest_def)

lemma demo_identity_decoded:
  "identity_decoded demo_ext demo_registry [demo_manifest] demo_members = Inr [(demo_path, demo_bytes, demo_genesis)]"
  by (simp add: identity_decoded_def demo_members_def bt_of_list_def decode_identity_member_def
      demo_decode demo_path_genesis bt_keys_def bs_of_list_def demo_identity_manifest demo_manifest_fields)

lemma demo_identity_derived:
  "validate_store_identity demo_ext [demo_manifest] demo_members demo_registry = Inr (Some demo_identity)"
proof -
  have g: "is_genesis (demo_path, demo_bytes, demo_genesis)" "\<not> foreign_identity (demo_path, demo_bytes, demo_genesis)"
    by (simp_all add: is_genesis_def foreign_identity_def demo_genesis_def IDENTITY_SCHEMA_V1_def)
  have "identity_of_genesis demo_ext demo_path demo_bytes demo_genesis = Inr (Some demo_identity)"
    by (simp add: identity_of_genesis_Inr demo_genesis_payload fork_reuses_def demo_identity_def)
      (simp add: demo_genesis_def)
  with g show ?thesis
    by (simp add: validate_store_identity_def demo_members_def bt_of_list_def decode_identity_member_def
        demo_decode demo_path_genesis bt_keys_def bs_of_list_def demo_identity_manifest demo_manifest_fields
        demo_headers)
qed

theorem store_identity_sound_witness:
  "\<exists>s r ref. demo_members = [s] \<and> decode_record demo_ext (sm_bytes s) demo_registry = Inr r \<and>
     bm_members demo_manifest = [ref] \<and> ref_id ref = r_id r \<and> si_genesis demo_identity = r_id r"
proof -
  have "filter P demo_members = [s] \<longrightarrow> demo_members = [s]" for P s
    by (simp add: demo_members_def)
  then show ?thesis
    using store_identity_sound[OF demo_identity_derived] by (simp only: list.set singleton_iff) blast
qed

theorem replayed_identity_equivalent_witness:
  "validate_replayed_identity demo_ext 1 1 (first_batch_fact demo_ext [demo_manifest]) False 1
     (Some (demo_path, demo_bytes, demo_genesis)) = Inr (Some demo_identity)"
  using replayed_identity_equivalent[OF demo_identity_decoded, of "Some (demo_path, demo_bytes, demo_genesis)"]
    demo_identity_derived
  by (simp add: is_genesis_def foreign_identity_def demo_genesis_def IDENTITY_SCHEMA_V1_def demo_members_def)

theorem replica_shares_genesis_witness:
  "\<exists>s\<in>set demo_members. ls_fingerprint (si_logical demo_identity) =
     genesis_fingerprint demo_ext (sm_path s) (sm_bytes s)"
proof -
  have "framable (demo_path, demo_bytes)"
    by (simp add: framable_def demo_bytes_def flip: demo_path_genesis)
      (simp add: record_canonical_path_def demo_genesis_def demo_functions demo_uuid_text_def demo_uuids_def)
  then have "\<forall>s\<in>set demo_members \<union> set demo_members. framable (sm_path s, sm_bytes s)"
    by (simp add: demo_members_def)
  then show ?thesis
    using replica_shares_genesis[OF demo_identity_derived demo_identity_derived]
    by (auto simp: classify_logical_identity_def)
qed

section \<open>The built-in registry\<close>

theorem builtin_registry_sealed_witness:
  "wayjournal_domain_registry_with demo_ext [] = Inr demo_registry \<and>
   (\<exists>g\<in>set (BUILTIN_DOMAINS demo_ext). reg_domain g = r_domain demo_profile \<and>
      reg_schema g = r_schema demo_profile \<and> r_kind demo_profile \<in> set (reg_kinds g) \<and>
      reg_validator g (r_kind demo_profile) (r_payload demo_profile))"
  using builtin_registry_sealed[of demo_ext "[]"] demo_registry(1) decode_record_ok(4)[OF demo_decode(2)]
  by (auto simp: reserved_domain_def demo_headers)

theorem accepted_records_convert_witness:
  "\<exists>p. operation_try_from demo_ext demo_rename = Inr p \<and> op_id p = 6 \<and> op_parents p = [4] \<and>
     op_target p = None"
  using accepted_records_convert[OF demo_registry(1) demo_decode(3)]
  by (simp add: demo_headers) (auto simp: demo_rename_def demo_name_def)

section \<open>Folds\<close>

text \<open>
  Two concurrent names, their resolution, and an alias that is added and removed; and two catalog
  entries, where a write to the second store observes the write to the first.
\<close>

definition profile_op :: "record_id \<Rightarrow> record_id list \<Rightarrow> operation_kind \<Rightarrow> domain_operation" where
  "profile_op i ps k =
     \<lparr>op_id = i, op_entity = 2, op_parents = ps, op_domain = ''wayjournal.profile'',
      op_target = None, op_kind = k\<rparr>"

definition demo_ops :: "domain_operation list" where
  "demo_ops =
     [profile_op 1 [] (ScalarSet DisplayName (SV_Text ''a'')),
      profile_op 2 [] (ScalarSet DisplayName (SV_Text ''b'')),
      profile_op 3 [1, 2] (ScalarResolve DisplayName (SV_Text ''c'') [1, 2]),
      profile_op 4 [] (AddOp F_Alias ''k'' (TV_Text ''x'')),
      profile_op 5 [4] (RemoveOp F_Alias ''k'' [4])]"

definition catalog_op :: "record_id \<Rightarrow> record_id list \<Rightarrow> store_uuid \<Rightarrow> string \<Rightarrow> domain_operation" where
  "catalog_op i ps u name =
     \<lparr>op_id = i, op_entity = 2, op_parents = ps, op_domain = ''wayjournal.catalog'',
      op_target = Some \<lparr>ls_uuid = u, ls_fingerprint = []\<rparr>,
      op_kind = ScalarSet EntryName (SV_Text name)\<rparr>"

definition demo_catalog_ops :: "domain_operation list" where
  "demo_catalog_ops = [catalog_op 1 [] 3 ''a'', catalog_op 2 [1] 4 ''b'']"

lemma observes_loop_numeral:
  "observes_loop N by_id candidate (current # pending) visited (numeral k) exceeded =
     (if current = candidate then (True, pred_numeral k, exceeded)
      else if current \<in> set visited
      then observes_loop N by_id candidate pending visited (pred_numeral k) exceeded
      else (case bt_get by_id current of
              None \<Rightarrow> observes_loop N by_id candidate pending (bs_insert current visited) (pred_numeral k) exceeded
            | Some n \<Rightarrow>
                observes_loop N by_id candidate (rev (node_parents N n) @ pending)
                  (bs_insert current visited) (pred_numeral k) exceeded))"
  by (simp add: numeral_eq_Suc)

lemmas graph_eval = causal_graph_new_def MAX_CAUSAL_OPERATIONS_def MAX_CAUSAL_EDGES_def
  USIZE_MAX_def checked_add_usize_def check_dangling_def node_edges_def initial_indegree_def
  children_map_def push_child_def initial_ready_def children_of_def

lemmas fold_eval = apply_operation_def apply_catalog_operation_def fold_state_ops_def bt_entry_def bt_keys_def
  bt_upsert_def bt_modify_def observes_bounded_def observes_loop_numeral MAX_REACHABILITY_STEPS_def
  ensure_reachability_budget_def mixed_operations_def

lemma demo_graph:
  "causal_graph_new operation_node demo_ops = Inr
     \<lparr>cg_ordered = demo_ops, cg_by_id = map (\<lambda>p. (op_id p, p)) demo_ops\<rparr>"
  by (simp add: graph_eval operation_node_def demo_ops_def profile_op_def)

definition demo_state :: fold_state where
  "demo_state =
     \<lparr>fs_registers = [(DisplayName, [(3, SV_Text ''c'')])], fs_adds = [((F_Alias, ''k''), [])]\<rparr>"

lemma demo_fold_operations: "fold_operations demo_ops ''wayjournal.profile'' = Inr demo_state"
  by (simp add: fold_operations_def demo_graph)
    (simp add: demo_ops_def profile_op_def operation_node_def fold_eval demo_state_def)

definition demo_advisory :: advisory_profile where
  "demo_advisory =
     \<lparr>ap_display_name = [''c''], ap_description = [], ap_application = [], ap_remotes = [],
      ap_relations = [], ap_capabilities = [], ap_aliases = [], ap_policies = []\<rparr>"

lemma demo_fold_profile: "fold_profile demo_ops = Inr demo_advisory"
  by (simp add: fold_profile_def demo_fold_operations demo_state_def demo_advisory_def mv_register_of_def
      set_values_of_def sort_dedup_def bt_entry_def bt_values_def as_text_def List.map_filter_def
      bt_of_list_def)

theorem fold_profile_crdt_witness:
  "register_spec ((parent_rel operation_node demo_ops)\<^sup>+) (set demo_ops) DisplayName as_text [''c''] \<and>
   values_spec ((parent_rel operation_node demo_ops)\<^sup>+) (set demo_ops) F_Alias set_text []"
  using fold_profile_crdt[OF demo_fold_profile] by (simp add: demo_advisory_def)

definition demo_entry :: "store_uuid \<Rightarrow> string \<Rightarrow> catalog_entry" where
  "demo_entry u name =
     \<lparr>ce_target = \<lparr>ls_uuid = u, ls_fingerprint = []\<rparr>, ce_name = [name], ce_enabled = [],
      ce_default_store = [], ce_aliases = [], ce_remotes = [], ce_groups = [], ce_relations = []\<rparr>"

lemma demo_fold_catalogs:
  "fold_catalogs demo_catalog_ops = Inr
     [(\<lparr>ls_uuid = 3, ls_fingerprint = []\<rparr>, demo_entry 3 ''a''),
      (\<lparr>ls_uuid = 4, ls_fingerprint = []\<rparr>, demo_entry 4 ''b'')]"
  by (simp add: fold_catalogs_def graph_eval operation_node_def demo_catalog_ops_def catalog_op_def fold_eval
      catalog_entry_of_def demo_entry_def mv_register_of_def set_values_of_def sort_dedup_def bt_values_def
      as_text_def List.map_filter_def bt_of_list_def less_logical_store_id_ext_def logical_key_def)

theorem fold_catalogs_crdt_witness:
  "register_spec ((parent_rel operation_node demo_catalog_ops)\<^sup>+)
     (addressed (set demo_catalog_ops) \<lparr>ls_uuid = 4, ls_fingerprint = []\<rparr>) EntryName as_text [''b'']"
  using spec[OF fold_catalogs_crdt[OF demo_fold_catalogs], of "\<lparr>ls_uuid = 4, ls_fingerprint = []\<rparr>"]
  by (simp add: demo_entry_def)

theorem folds_order_independent_witness:
  "fold_profile (rev demo_ops) = Inr demo_advisory"
  using folds_order_independent[of demo_ops "rev demo_ops" demo_advisory] demo_fold_profile by simp

theorem validation_fold_equivalent_witness:
  "validate_loaded_builtin_fold (headers_of demo_ops) (\<lambda>i. Inr (demo_ops ! i) :: unit + domain_operation) = Inr ()"
proof -
  have "case demo_ops of [] \<Rightarrow> True
     | p # _ \<Rightarrow> if op_domain p = ''wayjournal.catalog'' then is_ok (fold_catalogs demo_ops)
              else is_ok (fold_operations demo_ops (op_domain p))"
    using demo_fold_operations unfolding demo_ops_def profile_op_def by simp
  then show ?thesis
    using validation_fold_equivalent[of demo_ops "\<lambda>i. Inr (demo_ops ! i) :: unit + domain_operation"] by simp
qed

end
