(* ===== verification/Wj_Store_Examples.thy ===== *)
theory Wj_Store_Examples
  imports Wj_Recovery Wj_Examples
begin

text \<open>
  The store properties at concrete directories: the empty store, the same store with the genesis
  batch of \<open>Wj_Demo\<close> published, and the transaction between them.
\<close>

section \<open>The store of the genesis batch\<close>

definition demo_config :: store_config where
  "demo_config = \<lparr>sc_registry = demo_registry, sc_legacy = (\<lambda>_. Inr ()), sc_strict = True\<rparr>"

definition demo_manifest_path :: string where
  "demo_manifest_path = ''journal/batches/01913f1d-8e2a-7c30-8f4a-426614174003.json''"

definition demo_files :: "raw_file list" where
  "demo_files =
     [\<lparr>rf_path = demo_manifest_path, rf_bytes = [CHR 0x01, CHR 0x0A]\<rparr>,
      \<lparr>rf_path = demo_path, rf_bytes = demo_bytes\<rparr>]"

lemma demo_path_text:
  "demo_path = ''journal/records/wayjournal.identity/01913f1d-8e2a-7c30-8f4a-426614174002/01913f1d-8e2a-7c30-8f4a-426614174001.json''"
  by (simp add: demo_path_genesis[symmetric] record_canonical_path_def demo_genesis_def demo_functions
      demo_uuid_text_def demo_uuids_def)

lemma demo_files_ordered: "strictly_ordered (map rf_path demo_files)"
  by (simp add: demo_files_def demo_manifest_path_def demo_path_text less_char_def)

lemma demo_manifest_readable: "manifest_readable demo_ext demo_manifest"
proof -
  obtain b a where p: "preparable demo_ext demo_registry b a [demo_genesis]"
      "demo_manifest = manifest_of demo_ext b a ''key'' (bt_values (prepared_map demo_ext demo_registry [demo_genesis]))"
    using demo_prepare by (auto simp: prepare_batch_Inr demo_batch_def)
  then show ?thesis
    unfolding p(2) using demo_readable(1) demo_laws(11) demo_registry(2)
    by (intro prepared_manifest_readable) (simp_all add: record_readable_def)
qed

lemma demo_manifest_decode: "decode_batch_manifest demo_ext [CHR 0x01, CHR 0x0A] = Inr demo_manifest"
  using demo_manifest_readable demo_encode_manifest(1) encode_manifest_readable by simp

lemma demo_manifest_class: "classify_path demo_ext demo_manifest_path = JournalBatch"
proof -
  have "demo_manifest_path = batch_path demo_ext 3"
    by (simp add: demo_manifest_path_def batch_path_def demo_functions demo_uuid_text_def demo_uuids_def)
  then show ?thesis
    using classify_batch_path[OF demo_laws(1,2), of 3] demo_uuid_ok(3)[of "[7]"] by simp
qed

lemma demo_files_decode:
  "decode_visible_file demo_ext demo_registry \<lparr>rf_path = demo_manifest_path, rf_bytes = [CHR 0x01, CHR 0x0A]\<rparr> =
     Inr (DecodedManifest demo_manifest)"
  "decode_visible_file demo_ext demo_registry \<lparr>rf_path = demo_path, rf_bytes = demo_bytes\<rparr> =
     Inr (DecodedRecord demo_genesis)"
  using demo_manifest_paths(1)
  by (simp_all add: decode_visible_file_def demo_manifest_class demo_path_record demo_manifest_decode
      demo_decode demo_path_genesis demo_manifest_path_def[symmetric])

lemma demo_scanned:
  "file_records demo_ext demo_registry demo_files = [demo_genesis]"
  "file_manifests demo_ext demo_registry demo_files = [demo_manifest]"
  "member_files demo_ext demo_registry demo_files = demo_members"
  "scanned_legacy demo_ext demo_registry demo_files = []"
  by (simp_all add: demo_files_def file_records_def file_manifests_def member_files_def demo_members_def
      scanned_simps demo_files_decode)

lemma demo_ownership: "validate_batch_ownership demo_ext demo_members [demo_manifest] demo_registry = Inr ()"
proof -
  have "claim_manifest demo_ext demo_registry [(demo_path, demo_bytes)] [] demo_manifest = Inr [(demo_path, 1)]"
    using demo_members_valid by (simp add: claim_manifest_def demo_members_def) (simp add: demo_manifest_def bump_def)
  then show ?thesis
    by (simp add: validate_batch_ownership_def demo_members_def bt_of_list_def demo_decode check_owner_def bt_keys_def)
qed

definition demo_store_revision :: store_revision_ref where
  "demo_store_revision =
     \<lparr>sr_algorithm = WayjournalBlake3FramedV1,
      sr_digest = framed_hash demo_ext STORE_REVISION_DOMAIN
        [(demo_manifest_path, [CHR 0x01, CHR 0x0A]), (demo_path, demo_bytes)]\<rparr>"

lemma demo_files_revision: "compute_store_revision demo_ext (file_entries demo_files) = Inr demo_store_revision"
proof -
  have ne: "demo_manifest_path < demo_path" "demo_manifest_path \<noteq> demo_path"
    using demo_files_ordered by (auto simp: demo_files_def)
  have "canonical_entries demo_ext (file_entries demo_files) =
      [(demo_manifest_path, [CHR 0x01, CHR 0x0A]), (demo_path, demo_bytes)]"
    using ne by (simp add: canonical_entries_def file_entries_def demo_files_def demo_manifest_class demo_path_record is_canonical_def)
  then show ?thesis
    using ne by (simp add: compute_store_revision_Inr entry_ok_def demo_store_revision_def)
      (simp add: file_entries_def demo_files_def demo_manifest_class demo_path_record)
qed

definition demo_snapshot :: store_snapshot where
  "demo_snapshot =
     \<lparr>ss_revision = demo_store_revision, ss_manifests = [demo_manifest], ss_records = [demo_genesis],
      ss_identity = Some demo_identity, ss_legacy = []\<rparr>"

theorem scan_collected_exact_witness: "scan_collected demo_ext demo_config demo_files [] = Inr demo_snapshot"
  unfolding scan_collected_exact[OF demo_files_ordered] Let_def
  using demo_scanned demo_ownership demo_files_revision demo_identity_derived
  by (simp add: demo_config_def demo_snapshot_def snapshot_of_def)
    (simp add: folds_ok_def demo_files_def demo_files_decode demo_genesis_def)

lemma demo_entries_counted: "length (add_entry_and_canonical_parents [] demo_path) = 4"
  unfolding demo_path_text by code_simp

theorem entry_budget_exact_witness:
  "run_entry_budget 4 [demo_path] = Some \<lparr>ce_entries = 4, ce_previous = Some demo_path\<rparr> \<and>
   run_entry_budget 3 [demo_path] = None"
  using entry_budget_exact[of "[demo_path]" demo_ext 4] entry_budget_exact[of "[demo_path]" demo_ext 3]
  by (simp add: demo_path_record is_canonical_def demo_entries_counted)

section \<open>Its directories\<close>

definition empty_store :: store_dirs where
  "empty_store =
     \<lparr>events_dir = [], batches_dir = [], journal_rest = [], records_dir = [], journal_batches_dir = [],
      stages_dir = [], recovery_dir = []\<rparr>"

definition genesis_store :: store_dirs where
  "genesis_store = empty_store
     \<lparr>journal_batches_dir := [(''01913f1d-8e2a-7c30-8f4a-426614174003.json'', FileNode private_mode [CHR 0x01, CHR 0x0A])],
      records_dir := [(''wayjournal.identity'', DirNode [(''01913f1d-8e2a-7c30-8f4a-426614174002'',
        DirNode [(''01913f1d-8e2a-7c30-8f4a-426614174001.json'', FileNode private_mode demo_bytes)])])]\<rparr>"

lemma genesis_store_wf: "visible_wf genesis_store"
  by (simp add: visible_wf_def genesis_store_def empty_store_def journal_dir_def validate_component_def)

lemma genesis_dirs:
  "valid_canonical_directory demo_ext ''journal/records/wayjournal.identity''"
  "valid_canonical_directory demo_ext ''journal/records/wayjournal.identity/01913f1d-8e2a-7c30-8f4a-426614174002''"
  using record_dirs(1,3)[OF demo_laws(1,2) demo_tokens(1), of 2] demo_uuid_ok(2)[of "[1, 3, 4, 5, 6, 7, 8]"]
  by (simp_all add: demo_functions demo_uuid_text_def demo_uuids_def)

lemma genesis_items:
  "visible_items demo_ext genesis_store =
     [(''journal/batches'', VDir), (demo_manifest_path, VFile [CHR 0x01, CHR 0x0A]), (''journal/records'', VDir),
      (''journal/records/wayjournal.identity'', VDir),
      (''journal/records/wayjournal.identity/01913f1d-8e2a-7c30-8f4a-426614174002'', VDir),
      (demo_path, VFile demo_bytes)]"
  by (simp add: visible_items_def genesis_store_def empty_store_def journal_dir_def Let_def
      canonical_journal_dirs genesis_dirs demo_manifest_path_def demo_path_text)

theorem collect_visible_exact_witness:
  "\<exists>r. collect_visible_inventory demo_ext DEFAULT_SCAN_LIMITS genesis_store = Inr r"
  using collect_visible_exact[OF genesis_store_wf, of demo_ext DEFAULT_SCAN_LIMITS]
  by (simp add: items_ok_def genesis_items item_files_def file_bytes_def demo_bytes_def demo_manifest_class
     demo_path_record scan_file_limit_def canonical_file_limit_def DEFAULT_SCAN_LIMITS_def
     MAX_CANONICAL_ENTRIES_def MAX_TOTAL_CANONICAL_BYTES_def MAX_RECORD_BYTES_def MAX_BATCH_BYTES_def)

section \<open>Publishing the genesis batch\<close>

lemma demo_scan: "scan_collected demo_ext demo_config demo_files [] = Inr demo_snapshot"
  unfolding scan_collected_Inr[OF demo_files_ordered] validate_builtin_folds_Inr
  using demo_scanned demo_ownership demo_files_revision demo_identity_derived
  by (simp add: demo_config_def demo_snapshot_def snapshot_of_def)
    (simp add: folds_ok_def demo_files_def demo_files_decode demo_genesis_def)

definition empty_snapshot :: store_snapshot where
  "empty_snapshot =
     \<lparr>ss_revision = \<lparr>sr_algorithm = WayjournalBlake3FramedV1, sr_digest = framed_hash demo_ext STORE_REVISION_DOMAIN []\<rparr>,
      ss_manifests = [], ss_records = [], ss_identity = None, ss_legacy = []\<rparr>"

lemma empty_store_wf: "store_wf empty_store"
  by (simp add: store_wf_def empty_store_def)

lemma empty_inventory:
  "visible_inventory demo_ext empty_store = Inr ([], [], [''journal/batches'', ''journal/records''])"
proof -
  have items: "visible_items demo_ext empty_store = [(''journal/batches'', VDir), (''journal/records'', VDir)]"
    by (simp add: visible_items_def empty_store_def journal_dir_def Let_def canonical_journal_dirs)
  have "bs_of_list [''journal/batches'', ''journal/records''] = [''journal/batches'', ''journal/records'']"
    by code_simp
  then show ?thesis
    using collect_visible_inventory_Inr[OF store_wf_visible[OF empty_store_wf], of demo_ext DEFAULT_SCAN_LIMITS]
    by (simp add: visible_inventory_def items item_files_def item_special_def items_ok_def file_bytes_def
        DEFAULT_SCAN_LIMITS_def MAX_CANONICAL_ENTRIES_def)
qed

lemma empty_scan: "scan_visible demo_ext demo_config empty_store = Inr empty_snapshot"
proof -
  have "scan_collected demo_ext demo_config [] [] = Inr empty_snapshot"
    by (subst scan_collected_Inr) (simp_all add: demo_config_def empty_snapshot_def snapshot_of_def file_records_def
      file_manifests_def member_files_def scanned_simps file_entries_def compute_store_revision_Inr canonical_entries_def
      validate_batch_ownership_def validate_store_identity_def validate_builtin_folds_def bt_of_list_def bt_keys_def)
  then show ?thesis
    using empty_inventory by (simp add: scan_visible_def collect_visible_def visible_inventory_def)
qed

lemma demo_candidate: "validate_candidate demo_ext demo_config empty_store demo_batch = Inr demo_snapshot"
proof -
  have files: "prepared_files demo_batch = rev demo_files"
    by (simp add: prepared_files_def demo_batch_def demo_files_def demo_manifest_path_def)
  have "length (fold (\<lambda>(p, _) es. add_entry_and_canonical_parents es p) (file_lengths (rev demo_files))
      (bs_of_list [''journal/batches'', ''journal/records''])) = 6"
    unfolding demo_files_def demo_path_text demo_manifest_path_def demo_bytes_def by code_simp
  moreover have "sum_list (map snd (file_lengths (rev demo_files))) = 4"
    unfolding demo_files_def demo_bytes_def by (simp add: file_lengths_def)
  ultimately have "enforce_limits (file_lengths (rev demo_files)) [] [''journal/batches'', ''journal/records''] = Inr ()"
    by (simp add: enforce_limits_def DEFAULT_SCAN_LIMITS_def MAX_CANONICAL_ENTRIES_def MAX_TOTAL_CANONICAL_BYTES_def)
  moreover have "add_new_files [] (rev demo_files) = Inr (rev demo_files)"
    using demo_files_ordered by (auto simp: add_new_files_Inr demo_files_def)
  moreover have "sort_key rf_path (rev demo_files) = demo_files"
    using demo_files_ordered by (auto simp: demo_files_def)
  ultimately show ?thesis
    using demo_scan by (simp add: validate_candidate_def empty_inventory files file_lengths_def)
qed

lemma demo_preview:
  "preview_from_snapshot demo_ext demo_config empty_store empty_snapshot demo_batch (ss_revision empty_snapshot) =
     Inr (PreviewPublish demo_store_revision)"
  using demo_candidate
  by (simp add: preview_from_snapshot_def classify_prepared_def empty_snapshot_def demo_snapshot_def)

text \<open>A serializer that knows one journal.\<close>

definition demo_journal :: journal_ext where
  "demo_journal =
     \<lparr>journal_to_vec = (\<lambda>r. if r = stage_journal demo_ext demo_batch (ss_revision empty_snapshot) then Some ''journal'' else None),
      journal_from_slice = (\<lambda>bs. if bs = ''journal''
        then Some (stage_journal demo_ext demo_batch (ss_revision empty_snapshot)) else None)\<rparr>"

lemma demo_tx_laws: "tx_laws demo_ext demo_journal"
  by (simp add: tx_laws_def demo_laws uuid_component_def demo_functions demo_uuid_text_def demo_uuids_def
      validate_component_def journal_roundtrip_def demo_journal_def)

lemma demo_encode_journal:
  "encode_journal demo_journal (stage_journal demo_ext demo_batch (ss_revision empty_snapshot)) = Inr ''journal''"
  by (simp add: encode_journal_def demo_journal_def MAX_JOURNAL_BYTES_def)

lemma demo_append:
  "registry_wf (sc_registry demo_config)" "prepare_batch demo_ext [demo_genesis] ''key'' (sc_registry demo_config) = Inr demo_batch"
  "\<forall>r\<in>set [demo_genesis]. record_readable demo_ext r" "length (pb_records demo_batch) \<le> MAX_JOURNAL_MEMBERS"
  "stages_dir empty_store = []" "recovery_dir empty_store = []"
  using demo_registry demo_prepare demo_readable
  by (simp_all add: demo_config_def empty_store_def demo_batch_def MAX_JOURNAL_MEMBERS_def)

lemmas demo_append_ready = demo_tx_laws demo_append(1-4) empty_store_wf demo_append(5,6) empty_scan
  demo_preview demo_encode_journal

text \<open>The publication is stopped right after its journal is linked.\<close>

definition stopped_store :: store_dirs where
  "stopped_store = tx_dirs (snd (publish_batch demo_ext demo_journal demo_config
     (\<lambda>trace. JournalPublished \<in> set trace) demo_batch (ss_revision empty_snapshot) (start empty_store)))"

theorem append_crash_atomic_witness:
  "\<exists>s. recover_locked demo_ext demo_journal demo_config (\<lambda>_. False) (start stopped_store) = (Inr (), s) \<and>
     stages_dir (tx_dirs s) = [] \<and> recovery_dir (tx_dirs s) = [] \<and>
     (scan_visible demo_ext demo_config (tx_dirs s) = Inr empty_snapshot \<or>
      (\<exists>cand. scan_visible demo_ext demo_config (tx_dirs s) = Inr cand \<and> ss_revision cand = demo_store_revision))"
  unfolding stopped_store_def
  by (rule append_crash_atomic[OF demo_append_ready interrupted.attempt[OF prod.collapse[symmetric]]])

theorem append_publishes_witness:
  "\<exists>committed s. publish_batch demo_ext demo_journal demo_config (\<lambda>_. False) demo_batch
     (ss_revision empty_snapshot) (start empty_store) = (Inr committed, s) \<and> ss_revision committed = demo_store_revision"
  using append_publishes[OF demo_append_ready] by blast

end
