(* ===== verification/Wj_Capability.thy ===== *)
theory Wj_Capability
  imports Wj_Checkpoint
begin

text \<open>
  \<open>capability.rs\<close>: capability identifiers, the canonical capability offer, and the negotiation of a
  handshake against the durable admission checkpoint.
\<close>

section \<open>Identifiers and sets\<close>

definition CAPABILITY_OFFER_SCHEMA_V1 :: string where "CAPABILITY_OFFER_SCHEMA_V1 = ''wayjournal.capability-offer/v1''"
definition MAX_CAPABILITY_SET_ENTRIES :: nat where "MAX_CAPABILITY_SET_ENTRIES = 64"
definition MAX_CAPABILITY_OFFER_BYTES :: nat where "MAX_CAPABILITY_OFFER_BYTES = 64 * 1024"
definition REVISION_VECTOR_PROJECTION_ID :: string where
  "REVISION_VECTOR_PROJECTION_ID = ''wayjournal.projection/revision-vector-v1''"
definition VERIFIED_PROOF_PROJECTION_ID :: string where
  "VERIFIED_PROOF_PROJECTION_ID = ''wayjournal.projection/verified-proof-v1''"
definition PROOF_VECTOR_PROJECTION_ID :: string where
  "PROOF_VECTOR_PROJECTION_ID = ''wayjournal.projection/proof-vector-v1''"
definition GIT_UNION_CAS_CAPABILITY :: string where
  "GIT_UNION_CAS_CAPABILITY = ''wayjournal.sync/git-union-cas-v1''"

definition S5_CAPABILITIES :: "string list" where
  "S5_CAPABILITIES =
     [''wayjournal.json/v1'', ''wayjournal.record/v1'', ''wayjournal.batch/v1'', ''wayjournal.layout/v1'',
      ''wayjournal.store/blake3-framed-v1'', ''wayjournal.identity/v1'', ''wayjournal.profile/v1'',
      ''wayjournal.catalog/v1'', ''wayjournal.admission-checkpoint/v1'', GIT_UNION_CAS_CAPABILITY,
      ''wayjournal.verified-proof/v1'', ''wayjournal.revision-vector/v1'', ''wayjournal.proof-vector/v1'',
      ''wayjournal.projection-cache/v1'', ''waytask.layout/v1'', ''waytask.store/blake3-framed-v1'']"

definition S5_PROJECTIONS :: "string list" where
  "S5_PROJECTIONS = [PROOF_VECTOR_PROJECTION_ID, REVISION_VECTOR_PROJECTION_ID, VERIFIED_PROOF_PROJECTION_ID]"

definition version_byte :: "nat \<Rightarrow> char \<Rightarrow> bool" where
  "version_byte index byte =
     (if (CHR ''a'' \<le> byte \<and> byte \<le> CHR ''z'') \<or> (CHR ''0'' \<le> byte \<and> byte \<le> CHR ''9'') then True
      else if byte = CHR ''.'' \<or> byte = CHR ''_'' \<or> byte = CHR ''-'' then 0 < index else False)"

definition valid_namespace_segment :: "string \<Rightarrow> bool" where
  "valid_namespace_segment segment \<longleftrightarrow>
     segment \<noteq> [] \<and> length segment \<le> 63 \<and>
     list_all (\<lambda>(index, byte). segment_byte index byte) (enumerate 0 segment)"

definition valid_identifier :: "string \<Rightarrow> bool" where
  "valid_identifier value \<longleftrightarrow>
     \<not> (value = [] \<or> 128 < length value \<or> \<not> is_ascii value) \<and>
     (case split_once CHR ''/'' value of
        None \<Rightarrow> False
      | Some (namespace, version) \<Rightarrow>
          \<not> (CHR ''/'' \<in> set version \<or> version = [] \<or> 64 < length version \<or>
             \<not> list_all (\<lambda>(index, byte). version_byte index byte) (enumerate 0 version)) \<and>
          list_all valid_namespace_segment (split_on CHR ''.'' namespace) \<and>
          2 \<le> length (split_on CHR ''.'' namespace))"

type_synonym capability_id = string
type_synonym projection_id = string

datatype capability_offer_error =
    CapIdentifier string string
  | TooManyEntries string
  | InvalidSetOrder string
  | OfferTooLarge
  | OfferInvalidJson string
  | OfferDuplicateKey string
  | OfferFloatNotAllowed
  | OfferInvalidDocument
  | OfferUnsupportedSchema
  | OfferNonCanonical
  | UnknownLocalCapability capability_id
  | UnknownLocalProjection projection_id

fun offer_error_from_json :: "strict_json_error \<Rightarrow> capability_offer_error" where
  "offer_error_from_json (SJ_Invalid m) = OfferInvalidJson m"
| "offer_error_from_json (SJ_DuplicateKey k) = OfferDuplicateKey k"
| "offer_error_from_json SJ_FloatNotAllowed = OfferFloatNotAllowed"

definition capability_id_parse :: "string \<Rightarrow> capability_offer_error + capability_id" where
  "capability_id_parse value = (if valid_identifier value then Inr value else Inl (CapIdentifier ''capability id'' value))"

definition projection_id_parse :: "string \<Rightarrow> capability_offer_error + projection_id" where
  "projection_id_parse value = (if valid_identifier value then Inr value else Inl (CapIdentifier ''projection id'' value))"

datatype projection_kind = RevisionVectorKind | VerifiedProofKind | ProofVectorKind

fun projection_kind_as_str :: "projection_kind \<Rightarrow> string" where
  "projection_kind_as_str RevisionVectorKind = REVISION_VECTOR_PROJECTION_ID"
| "projection_kind_as_str VerifiedProofKind = VERIFIED_PROOF_PROJECTION_ID"
| "projection_kind_as_str ProofVectorKind = PROOF_VECTOR_PROJECTION_ID"

definition validate_set :: "string list \<Rightarrow> string \<Rightarrow> capability_offer_error + unit" where
  "validate_set values set_name =
     (if MAX_CAPABILITY_SET_ENTRIES < length values then Inl (TooManyEntries set_name)
      else if \<not> strictly_ordered values then Inl (InvalidSetOrder set_name)
      else Inr ())"

definition validate_offer_sets ::
  "string list \<Rightarrow> string list \<Rightarrow> string list \<Rightarrow> string list \<Rightarrow> capability_offer_error + unit" where
  "validate_offer_sets rc rp sc sp =
     rbind (validate_set rc ''required_capabilities'') (\<lambda>_.
     rbind (validate_set rp ''required_projections'') (\<lambda>_.
     rbind (validate_set sc ''supported_capabilities'') (\<lambda>_.
     validate_set sp ''supported_projections'')))"

section \<open>Searching and intersecting\<close>

text \<open>The loop of \<open>slice::binary_search\<close>: \<open>base\<close> and \<open>sz\<close> bound the part that can hold the key.\<close>

function binary_search_loop :: "'a::linorder list \<Rightarrow> 'a \<Rightarrow> nat \<Rightarrow> nat \<Rightarrow> nat" where
  "binary_search_loop xs x base sz =
     (if 1 < sz then
        (let half = sz div 2; mid = base + half in
         binary_search_loop xs x (if x < xs ! mid then base else mid) (sz - half))
      else base)"
  by pat_completeness auto
termination
  by (relation "measure (\<lambda>(xs, x, base, sz). sz)") auto

definition binary_search :: "'a::linorder list \<Rightarrow> 'a \<Rightarrow> nat option" where
  "binary_search xs x =
     (if xs = [] then None
      else let i = binary_search_loop xs x 0 (length xs) in if xs ! i = x then Some i else None)"

function intersection_loop :: "'a::linorder list \<Rightarrow> 'a list \<Rightarrow> nat \<Rightarrow> nat \<Rightarrow> 'a list \<Rightarrow> 'a list" where
  "intersection_loop left right i j result =
     (if i < length left \<and> j < length right then
        (if left ! i < right ! j then intersection_loop left right (Suc i) j result
         else if right ! j < left ! i then intersection_loop left right i (Suc j) result
         else intersection_loop left right (Suc i) (Suc j) (result @ [left ! i]))
      else result)"
  by pat_completeness auto
termination
  by (relation "measure (\<lambda>(left, right, i, j, result). (length left - i) + (length right - j))") auto

definition intersection :: "'a::linorder list \<Rightarrow> 'a list \<Rightarrow> 'a list" where
  "intersection left right = intersection_loop left right 0 0 []"

declare binary_search_loop.simps [simp del] intersection_loop.simps [simp del]

definition known_capability :: "capability_id \<Rightarrow> bool" where
  "known_capability c \<longleftrightarrow> c \<in> set S5_CAPABILITIES"

definition known_projection :: "projection_id \<Rightarrow> bool" where
  "known_projection p \<longleftrightarrow> binary_search S5_PROJECTIONS p \<noteq> None"

section \<open>Offers\<close>

record capability_offer =
  co_store :: logical_store_id
  co_required_capabilities :: "capability_id list"
  co_required_projections :: "projection_id list"
  co_supported_capabilities :: "capability_id list"
  co_supported_projections :: "projection_id list"

record handshake_requirements =
  hr_required_capabilities :: "capability_id list"
  hr_required_projections :: "projection_id list"
  hr_supported_capabilities :: "capability_id list"
  hr_supported_projections :: "projection_id list"

definition capability_offer_new ::
  "logical_store_id \<Rightarrow> string list \<Rightarrow> string list \<Rightarrow> string list \<Rightarrow> string list \<Rightarrow> capability_offer_error + capability_offer" where
  "capability_offer_new s rc rp sc sp =
     rbind (validate_offer_sets rc rp sc sp) (\<lambda>_.
     Inr \<lparr>co_store = s, co_required_capabilities = rc, co_required_projections = rp,
           co_supported_capabilities = sc, co_supported_projections = sp\<rparr>)"

definition handshake_requirements_new ::
  "string list \<Rightarrow> string list \<Rightarrow> string list \<Rightarrow> string list \<Rightarrow> capability_offer_error + handshake_requirements" where
  "handshake_requirements_new rc rp sc sp =
     rbind (validate_offer_sets rc rp sc sp) (\<lambda>_.
     case find (\<lambda>c. \<not> known_capability c) (rc @ sc) of
       Some c \<Rightarrow> Inl (UnknownLocalCapability c)
     | None \<Rightarrow>
         (case find (\<lambda>p. \<not> known_projection p) (rp @ sp) of
            Some p \<Rightarrow> Inl (UnknownLocalProjection p)
          | None \<Rightarrow> Inr \<lparr>hr_required_capabilities = rc, hr_required_projections = rp,
                       hr_supported_capabilities = sc, hr_supported_projections = sp\<rparr>))"

definition logical_id_to_value :: "ext \<Rightarrow> logical_store_id \<Rightarrow> json" where
  "logical_id_to_value X s =
     JObject (bt_of_list [(''store_uuid'', JString (uuid_to_string X (ls_uuid s))),
       (''genesis_fingerprint'', JString (digest_to_string X (ls_fingerprint s)))])"

definition offer_to_value :: "ext \<Rightarrow> capability_offer \<Rightarrow> json" where
  "offer_to_value X offer =
     JObject (bt_of_list
       [(''logical_store_id'', logical_id_to_value X (co_store offer)),
        (''required_capabilities'', JArray (map JString (co_required_capabilities offer))),
        (''required_projections'', JArray (map JString (co_required_projections offer))),
        (''schema'', JString CAPABILITY_OFFER_SCHEMA_V1),
        (''supported_capabilities'', JArray (map JString (co_supported_capabilities offer))),
        (''supported_projections'', JArray (map JString (co_supported_projections offer)))])"

definition encode_capability_offer :: "ext \<Rightarrow> capability_offer \<Rightarrow> capability_offer_error + bytes" where
  "encode_capability_offer X offer =
     rbind (validate_offer_sets (co_required_capabilities offer) (co_required_projections offer)
       (co_supported_capabilities offer) (co_supported_projections offer)) (\<lambda>_.
     rbind (map_err offer_error_from_json (encode_pretty X (offer_to_value X offer))) (\<lambda>bs.
     if MAX_CAPABILITY_OFFER_BYTES < length bs then Inl OfferTooLarge else Inr bs))"

definition de_strings :: "(string \<Rightarrow> capability_offer_error + string) \<Rightarrow> json \<Rightarrow> string list option" where
  "de_strings parse v = (case v of JArray vs \<Rightarrow> option_map (de_parse parse) vs | _ \<Rightarrow> None)"

record raw_capability_offer =
  ro_store :: logical_store_id
  ro_required_capabilities :: "capability_id list"
  ro_required_projections :: "projection_id list"
  ro_schema :: string
  ro_supported_capabilities :: "capability_id list"
  ro_supported_projections :: "projection_id list"

definition offer_fields :: "(string \<times> bool) list" where
  "offer_fields =
     [(''logical_store_id'', False), (''required_capabilities'', False), (''required_projections'', False),
      (''schema'', False), (''supported_capabilities'', False), (''supported_projections'', False)]"

definition raw_offer_from_value :: "ext \<Rightarrow> json \<Rightarrow> raw_capability_offer option" where
  "raw_offer_from_value X v =
     (case serde_fields X offer_fields v of
        Some [Some s, Some rc, Some rp, Some c, Some sc, Some sp] \<Rightarrow>
          (case (logical_id_from_value X s, de_strings capability_id_parse rc, de_strings projection_id_parse rp,
                 de_string c, de_strings capability_id_parse sc, de_strings projection_id_parse sp) of
             (Some s, Some rc, Some rp, Some c, Some sc, Some sp) \<Rightarrow>
               Some \<lparr>ro_store = s, ro_required_capabilities = rc, ro_required_projections = rp, ro_schema = c,
                     ro_supported_capabilities = sc, ro_supported_projections = sp\<rparr>
           | _ \<Rightarrow> None)
      | _ \<Rightarrow> None)"

definition decode_capability_offer :: "ext \<Rightarrow> bytes \<Rightarrow> capability_offer_error + capability_offer" where
  "decode_capability_offer X bs =
     (if MAX_CAPABILITY_OFFER_BYTES < length bs then Inl OfferTooLarge
      else rbind (map_err offer_error_from_json (decode_strict X bs)) (\<lambda>v.
      rbind (ok_or OfferInvalidDocument (raw_offer_from_value X v)) (\<lambda>raw.
      if ro_schema raw \<noteq> CAPABILITY_OFFER_SCHEMA_V1 then Inl OfferUnsupportedSchema
      else rbind (capability_offer_new (ro_store raw) (ro_required_capabilities raw) (ro_required_projections raw)
             (ro_supported_capabilities raw) (ro_supported_projections raw)) (\<lambda>offer.
      rbind (encode_capability_offer X offer) (\<lambda>again.
      if again \<noteq> bs then Inl OfferNonCanonical else Inr offer)))))"

section \<open>Negotiation\<close>

datatype negotiation_error =
    CheckpointAuthority checkpoint_error
  | MissingCheckpoint
  | ExpectedStoreMismatch
  | RemoteStoreMismatch
  | TrustMismatch
  | UnknownRequiredCapability capability_id
  | UnknownRequiredProjection projection_id
  | LocalCapabilityRequirement capability_id
  | RemoteCapabilityRequirement capability_id
  | LocalProjectionRequirement projection_id
  | RemoteProjectionRequirement projection_id

record negotiated_handshake =
  nh_checkpoint :: admission_checkpoint
  nh_capabilities :: "capability_id list"
  nh_projections :: "projection_id list"

definition supports_capability :: "negotiated_handshake \<Rightarrow> capability_id \<Rightarrow> bool" where
  "supports_capability h c \<longleftrightarrow> binary_search (nh_capabilities h) c \<noteq> None"

definition supports_projection :: "negotiated_handshake \<Rightarrow> projection_id \<Rightarrow> bool" where
  "supports_projection h p \<longleftrightarrow> binary_search (nh_projections h) p \<noteq> None"

definition supports_git_union_cas :: "negotiated_handshake \<Rightarrow> bool" where
  "supports_git_union_cas h \<longleftrightarrow> binary_search (nh_capabilities h) GIT_UNION_CAS_CAPABILITY \<noteq> None"

definition require_subset ::
  "string list \<Rightarrow> string list \<Rightarrow> (string \<Rightarrow> negotiation_error) \<Rightarrow> negotiation_error + unit" where
  "require_subset required supported err =
     (case find (\<lambda>i. binary_search supported i = None) required of Some i \<Rightarrow> Inl (err i) | None \<Rightarrow> Inr ())"

text \<open>\<open>authority\<close> is what reading the durable checkpoint of the store returned.\<close>

definition negotiate_handshake ::
  "checkpoint_error + admission_checkpoint option \<Rightarrow> logical_store_id \<Rightarrow> local_trust_binding \<Rightarrow>
   handshake_requirements \<Rightarrow> capability_offer \<Rightarrow> negotiation_error + negotiated_handshake" where
  "negotiate_handshake authority expected_store expected_trust local remote =
     rbind (map_err CheckpointAuthority authority) (\<lambda>c.
     rbind (ok_or MissingCheckpoint c) (\<lambda>checkpoint.
     if ac_store checkpoint \<noteq> expected_store then Inl ExpectedStoreMismatch
     else if co_store remote \<noteq> expected_store then Inl RemoteStoreMismatch
     else if ac_trust checkpoint \<noteq> expected_trust then Inl TrustMismatch
     else case find (\<lambda>c. \<not> known_capability c) (co_required_capabilities remote) of
       Some c \<Rightarrow> Inl (UnknownRequiredCapability c)
     | None \<Rightarrow>
         (case find (\<lambda>p. \<not> known_projection p) (co_required_projections remote) of
            Some p \<Rightarrow> Inl (UnknownRequiredProjection p)
          | None \<Rightarrow>
              rbind (require_subset (hr_required_capabilities local) (co_supported_capabilities remote)
                LocalCapabilityRequirement) (\<lambda>_.
              rbind (require_subset (co_required_capabilities remote) (hr_supported_capabilities local)
                RemoteCapabilityRequirement) (\<lambda>_.
              rbind (require_subset (hr_required_projections local) (co_supported_projections remote)
                LocalProjectionRequirement) (\<lambda>_.
              rbind (require_subset (co_required_projections remote) (hr_supported_projections local)
                RemoteProjectionRequirement) (\<lambda>_.
              Inr \<lparr>nh_checkpoint = checkpoint,
                    nh_capabilities = intersection (hr_supported_capabilities local) (co_supported_capabilities remote),
                    nh_projections = intersection (hr_supported_projections local) (co_supported_projections remote)\<rparr>)))))))"

section \<open>Correctness of search and intersection\<close>

lemma binary_search_loop_spec:
  assumes "sorted_wrt (<) xs" "base + sz \<le> length xs" "0 < sz" "i < length xs" "xs ! i = x"
    and "base \<le> i" "i < base + sz"
  shows "binary_search_loop xs x base sz = i"
  using assms
proof (induction xs x base sz rule: binary_search_loop.induct)
  case (1 xs x base sz)
  show ?case
  proof (cases "1 < sz")
    case True
    let ?mid = "base + sz div 2"
    have mid: "?mid < length xs" using 1 True by auto
    have "x < xs ! ?mid \<longleftrightarrow> i < ?mid"
      using "1.prems" mid by (metis linorder_neqE_nat not_less_iff_gr_or_eq sorted_wrt_nth_less)
    then show ?thesis
      using 1 True by (subst binary_search_loop.simps) (auto simp: Let_def)
  next
    case False
    then show ?thesis
      using "1.prems" by (subst binary_search_loop.simps) auto
  qed
qed

lemma binary_search_loop_range: "0 < sz \<Longrightarrow> base \<le> binary_search_loop xs x base sz \<and> binary_search_loop xs x base sz < base + sz"
proof (induction xs x base sz rule: binary_search_loop.induct)
  case (1 xs x base sz)
  then show ?case
    by (subst (1 2) binary_search_loop.simps) (fastforce simp: Let_def)
qed

lemma binary_search_exact:
  assumes "strictly_ordered xs"
  shows "binary_search xs x = Some i \<longleftrightarrow> i < length xs \<and> xs ! i = x"
proof (cases "xs = []")
  case False
  have range: "binary_search_loop xs x 0 (length xs) < length xs"
    using binary_search_loop_range[of "length xs" 0] False by simp
  show ?thesis
    using binary_search_loop_spec[of xs 0 "length xs" i x] assms range False
    by (auto simp: binary_search_def Let_def order_simps)
qed (simp add: binary_search_def)

lemma binary_search_None: "strictly_ordered xs \<Longrightarrow> binary_search xs x = None \<longleftrightarrow> x \<notin> set xs"
  using binary_search_exact[of xs x] by (cases "binary_search xs x") (auto simp: in_set_conv_nth)

lemma intersection_loop_filter:
  assumes "sorted_wrt (<) left" "sorted_wrt (<) right"
  shows "intersection_loop left right i j result = result @ filter (\<lambda>x. x \<in> set (drop j right)) (drop i left)"
  using assms
proof (induction left right i j result rule: intersection_loop.induct)
  case (1 left right i j result)
  show ?case
  proof (cases "i < length left \<and> j < length right")
    case True
    have l: "drop i left = left ! i # drop (Suc i) left" and r: "drop j right = right ! j # drop (Suc j) right"
      using True by (simp_all add: Cons_nth_drop_Suc)
    have "sorted_wrt (<) (drop i left)" "sorted_wrt (<) (drop j right)"
      using "1.prems" by (simp_all add: sorted_wrt_drop)
    then have above: "\<forall>x\<in>set (drop (Suc i) left). left ! i < x" "\<forall>y\<in>set (drop (Suc j) right). right ! j < y"
      unfolding l r by simp_all
    have tail: "filter (\<lambda>x. x \<in> set (right ! j # drop (Suc j) right)) xs = filter (\<lambda>x. x \<in> set (drop (Suc j) right)) xs"
      if "\<forall>x\<in>set xs. right ! j < x" for xs
      using that by (intro filter_cong) auto
    consider "left ! i < right ! j" | "right ! j < left ! i" | "left ! i = right ! j"
      by fastforce
    then show ?thesis
    proof cases
      case 1
      then have "left ! i \<notin> set (drop j right)"
        unfolding r using above(2) by auto
      then show ?thesis
        using 1 True "1.IH"(1) "1.prems" by (subst intersection_loop.simps) (simp add: l)
    next
      case 2
      then have "filter (\<lambda>x. x \<in> set (drop j right)) (drop i left) = filter (\<lambda>x. x \<in> set (drop (Suc j) right)) (drop i left)"
        unfolding r using above(1) by (intro tail) (auto simp: l)
      then show ?thesis
        using 2 True "1.IH"(2) "1.prems" less_asym by (subst intersection_loop.simps) auto
    next
      case 3
      then have "filter (\<lambda>x. x \<in> set (drop j right)) (drop i left) =
          left ! i # filter (\<lambda>x. x \<in> set (drop (Suc j) right)) (drop (Suc i) left)"
        using tail[of "drop (Suc i) left"] above(1) by (simp add: l r)
      then show ?thesis
        using 3 True "1.IH"(3) "1.prems" by (subst intersection_loop.simps) simp
    qed
  next
    case False
    then show ?thesis by (subst intersection_loop.simps) auto
  qed
qed

lemma intersection_eq:
  "strictly_ordered left \<Longrightarrow> strictly_ordered right \<Longrightarrow> intersection left right = filter (\<lambda>x. x \<in> set right) left"
  using intersection_loop_filter[of left right 0 0 "[]"] by (simp add: intersection_def order_simps)

lemma validate_offer_sets_Inr:
  "validate_offer_sets rc rp sc sp = Inr () \<longleftrightarrow>
   (\<forall>xs\<in>{rc, rp, sc, sp}. length xs \<le> MAX_CAPABILITY_SET_ENTRIES \<and> strictly_ordered xs)"
  by (auto simp: validate_offer_sets_def validate_set_def result_simps split: if_splits)

lemma known_projection_iff: "known_projection p \<longleftrightarrow> p \<in> set S5_PROJECTIONS"
proof -
  have "strictly_ordered S5_PROJECTIONS"
    by (simp add: S5_PROJECTIONS_def PROOF_VECTOR_PROJECTION_ID_def REVISION_VECTOR_PROJECTION_ID_def
        VERIFIED_PROOF_PROJECTION_ID_def less_char_def)
  then show ?thesis
    by (simp add: known_projection_def binary_search_None)
qed

lemma require_subset_Inr:
  assumes "strictly_ordered supported"
  shows "require_subset required supported err = Inr () \<longleftrightarrow> set required \<subseteq> set supported"
proof -
  have "require_subset required supported err = Inr () \<longleftrightarrow> find (\<lambda>i. i \<notin> set supported) required = None"
    using assms by (simp add: require_subset_def binary_search_None split: option.split)
  then show ?thesis
    by (auto simp: find_None_iff)
qed

text \<open>
  C27: negotiation is exact. With validated local requirements and a validated offer it succeeds
  precisely when the durable checkpoint is present, both identities and the trust binding agree, and
  each side supports what the other requires; the result then carries that checkpoint and, in order,
  exactly the capabilities and projections both sides support, all of them known.
\<close>

theorem negotiation_exact:
  assumes "handshake_requirements_new rc rp sc sp = Inr local" "capability_offer_new s rc' rp' sc' sp' = Inr remote"
  shows "(negotiate_handshake authority expected_store expected_trust local remote = Inr h \<longleftrightarrow>
      authority = Inr (Some (nh_checkpoint h)) \<and> ac_store (nh_checkpoint h) = expected_store \<and> s = expected_store \<and>
      ac_trust (nh_checkpoint h) = expected_trust \<and>
      set rc \<subseteq> set sc' \<and> set rc' \<subseteq> set sc \<and> set rp \<subseteq> set sp' \<and> set rp' \<subseteq> set sp \<and>
      nh_capabilities h = filter (\<lambda>c. c \<in> set sc') sc \<and> nh_projections h = filter (\<lambda>p. p \<in> set sp') sp) \<and>
    (negotiate_handshake authority expected_store expected_trust local remote = Inr h \<longrightarrow>
      (\<forall>c. supports_capability h c \<longleftrightarrow> c \<in> set sc \<and> c \<in> set sc' \<and> known_capability c) \<and>
      (\<forall>p. supports_projection h p \<longleftrightarrow> p \<in> set sp \<and> p \<in> set sp' \<and> known_projection p))"
proof -
  have l: "local = \<lparr>hr_required_capabilities = rc, hr_required_projections = rp, hr_supported_capabilities = sc, hr_supported_projections = sp\<rparr>"
      "strictly_ordered sc" "strictly_ordered sp" "\<forall>c\<in>set (rc @ sc). known_capability c" "\<forall>p\<in>set (rp @ sp). known_projection p"
    using assms(1) by (auto simp: handshake_requirements_new_def result_simps validate_offer_sets_Inr find_None_iff
        split: option.splits)
  have r: "remote = \<lparr>co_store = s, co_required_capabilities = rc', co_required_projections = rp',
      co_supported_capabilities = sc', co_supported_projections = sp'\<rparr>" "strictly_ordered sc'" "strictly_ordered sp'"
    using assms(2) by (auto simp: capability_offer_new_def result_simps validate_offer_sets_Inr)
  have known: "set rc' \<subseteq> set sc \<Longrightarrow> find (\<lambda>c. \<not> known_capability c) rc' = None"
      "set rp' \<subseteq> set sp \<Longrightarrow> find (\<lambda>p. \<not> known_projection p) rp' = None"
    using l(4,5) by (auto simp: find_None_iff)
  have iff: "negotiate_handshake authority expected_store expected_trust local remote = Inr h \<longleftrightarrow>
      authority = Inr (Some (nh_checkpoint h)) \<and> ac_store (nh_checkpoint h) = expected_store \<and> s = expected_store \<and>
      ac_trust (nh_checkpoint h) = expected_trust \<and>
      set rc \<subseteq> set sc' \<and> set rc' \<subseteq> set sc \<and> set rp \<subseteq> set sp' \<and> set rp' \<subseteq> set sp \<and>
      nh_capabilities h = filter (\<lambda>c. c \<in> set sc') sc \<and> nh_projections h = filter (\<lambda>p. p \<in> set sp') sp"
    using l(2,3) r(2,3) known
    by (cases h) (auto simp: negotiate_handshake_def l(1) r(1) result_simps require_subset_Inr intersection_eq
        split: option.splits if_splits)
  have "strictly_ordered (filter P sc)" "strictly_ordered (filter P sp)" for P
    using l(2,3) by (simp_all add: order_simps sorted_wrt_filter)
  then show ?thesis
    using iff l(4,5) by (auto simp: supports_capability_def supports_projection_def binary_search_None)
qed

section \<open>The offer codec\<close>

definition offer_ok :: "ext \<Rightarrow> capability_offer \<Rightarrow> bool" where
  "offer_ok X offer \<longleftrightarrow>
     v7_ok X (ls_uuid (co_store offer)) \<and> length (ls_fingerprint (co_store offer)) = 32 \<and>
     (\<forall>xs\<in>{co_required_capabilities offer, co_required_projections offer, co_supported_capabilities offer,
        co_supported_projections offer}. list_all valid_identifier xs)"

lemma offer_to_value_eq:
  "offer_to_value X offer = JObject
     [(''logical_store_id'', JObject
         [(''genesis_fingerprint'', JString (digest_to_string X (ls_fingerprint (co_store offer)))),
          (''store_uuid'', JString (uuid_to_string X (ls_uuid (co_store offer))))]),
      (''required_capabilities'', JArray (map JString (co_required_capabilities offer))),
      (''required_projections'', JArray (map JString (co_required_projections offer))),
      (''schema'', JString CAPABILITY_OFFER_SCHEMA_V1),
      (''supported_capabilities'', JArray (map JString (co_supported_capabilities offer))),
      (''supported_projections'', JArray (map JString (co_supported_projections offer)))]"
  by (simp add: offer_to_value_def logical_id_to_value_def bt_of_list_def less_char_def)

lemma good_offer_value: "good_json (offer_to_value X offer)"
  by (simp add: offer_to_value_eq less_char_def list_all_iff)

lemma string_array_depth: "fold max (map (json_depth \<circ> JString) xs) 0 = 0"
  by (induction xs) simp_all

lemma offer_value_depth: "json_depth (offer_to_value X offer) \<le> json_limit"
  by (simp add: offer_to_value_eq json_limit_def string_array_depth)

lemma de_strings_map:
  "list_all valid_identifier xs \<Longrightarrow> de_strings capability_id_parse (JArray (map JString xs)) = Some xs"
  "list_all valid_identifier xs \<Longrightarrow> de_strings projection_id_parse (JArray (map JString xs)) = Some xs"
  by (induction xs) (auto simp: de_strings_def de_parse_def de_string_def capability_id_parse_def projection_id_parse_def)

lemma raw_offer_of_value:
  assumes "serde_object_law X" "uuid_roundtrip X" "hex_roundtrip X" "offer_ok X offer"
  shows "raw_offer_from_value X (offer_to_value X offer) = Some
    \<lparr>ro_store = co_store offer, ro_required_capabilities = co_required_capabilities offer,
     ro_required_projections = co_required_projections offer, ro_schema = CAPABILITY_OFFER_SCHEMA_V1,
     ro_supported_capabilities = co_supported_capabilities offer, ro_supported_projections = co_supported_projections offer\<rparr>"
proof -
  let ?id = "JObject [(''genesis_fingerprint'', JString (digest_to_string X (ls_fingerprint (co_store offer)))),
      (''store_uuid'', JString (uuid_to_string X (ls_uuid (co_store offer))))]"
  have wf: "json_wf (offer_to_value X offer)" "json_wf ?id"
    using good_offer_value by (simp_all add: good_json_def less_char_def)
  have "serde_fields X [(''store_uuid'', False), (''genesis_fingerprint'', False)] ?id =
      Some [Some (JString (uuid_to_string X (ls_uuid (co_store offer)))),
        Some (JString (digest_to_string X (ls_fingerprint (co_store offer))))]"
    using assms(1) wf(2) unfolding serde_object_law_def by (simp add: struct_of_object_def)
  then have id: "logical_id_from_value X ?id = Some (co_store offer)"
    using assms(2-4) by (simp add: logical_id_from_value_def de_parse_def de_string_def offer_ok_def
        store_uuid_from_str_def parse_uuid_to_string digest_parse_to_string)
  have "serde_fields X offer_fields (offer_to_value X offer) =
      Some [Some ?id, Some (JArray (map JString (co_required_capabilities offer))),
        Some (JArray (map JString (co_required_projections offer))), Some (JString CAPABILITY_OFFER_SCHEMA_V1),
        Some (JArray (map JString (co_supported_capabilities offer))),
        Some (JArray (map JString (co_supported_projections offer)))]"
    using assms(1) wf(1) unfolding serde_object_law_def
    by (simp add: offer_fields_def offer_to_value_eq struct_of_object_def)
  then show ?thesis
    using id assms(4) by (simp add: raw_offer_from_value_def de_strings_map de_string_def offer_ok_def)
qed

lemma encode_offer_Inr:
  "encode_capability_offer X offer = Inr bs \<longleftrightarrow>
   validate_offer_sets (co_required_capabilities offer) (co_required_projections offer)
     (co_supported_capabilities offer) (co_supported_projections offer) = Inr () \<and>
   encode_pretty X (offer_to_value X offer) = Inr bs \<and> length bs \<le> MAX_CAPABILITY_OFFER_BYTES"
  by (auto simp: encode_capability_offer_def result_simps)

lemma decode_offer_canonical: "decode_capability_offer X bs = Inr offer \<Longrightarrow> encode_capability_offer X offer = Inr bs"
  by (auto simp: decode_capability_offer_def result_simps split: if_splits)

definition offer_readable :: "ext \<Rightarrow> capability_offer \<Rightarrow> bool" where
  "offer_readable X offer \<longleftrightarrow> checkpoint_laws X \<and> offer_ok X offer"

lemma encode_offer_readable:
  assumes "offer_readable X offer" "encode_capability_offer X offer = Inr bs"
  shows "decode_capability_offer X bs = Inr offer"
proof -
  have laws: "uuid_roundtrip X" "hex_roundtrip X" "json_roundtrip X" "serde_object_law X" "offer_ok X offer"
    using assms(1) by (simp_all add: offer_readable_def checkpoint_laws_def)
  have e: "encode_pretty X (offer_to_value X offer) = Inr bs" "length bs \<le> MAX_CAPABILITY_OFFER_BYTES"
    "validate_offer_sets (co_required_capabilities offer) (co_required_projections offer)
     (co_supported_capabilities offer) (co_supported_projections offer) = Inr ()"
    using assms(2) by (simp_all add: encode_offer_Inr)
  have "decode_strict X bs = Inr (offer_to_value X offer)"
    using e(1) laws(3) good_offer_value offer_value_depth by (intro decode_encode_pretty)
  then show ?thesis
    using e raw_offer_of_value[OF laws(4,1,2,5)] assms(2)
    by (cases offer) (simp add: decode_capability_offer_def capability_offer_new_def)
qed

interpretation offer_codec: exact_codec
  "encode_capability_offer X" "decode_capability_offer X" MAX_CAPABILITY_OFFER_BYTES "offer_readable X"
  for X
proof (unfold_locales, goal_cases)
  case (1 bs offer)
  then show ?case by (rule decode_offer_canonical)
next
  case (2 offer bs)
  then show ?case by (simp add: encode_offer_Inr)
next
  case (3 offer bs)
  then show ?case by (rule encode_offer_readable)
qed

text \<open>
  C29: the offer codec is exact. On readable offers decoding some bytes gives the offer precisely when
  encoding the offer gives the bytes; every offer that decodes has bounded, strictly ordered sets,
  and no two documents decode to one offer.
\<close>

theorem offer_codec_exact:
  assumes "offer_readable X offer"
  shows "(decode_capability_offer X bs = Inr offer \<longleftrightarrow> encode_capability_offer X offer = Inr bs) \<and>
    (\<forall>bs' offer'. decode_capability_offer X bs' = Inr offer' \<longrightarrow>
       (\<forall>xs\<in>{co_required_capabilities offer', co_required_projections offer', co_supported_capabilities offer',
          co_supported_projections offer'}. length xs \<le> MAX_CAPABILITY_SET_ENTRIES \<and> strictly_ordered xs) \<and>
       (\<forall>bs''. decode_capability_offer X bs'' = Inr offer' \<longrightarrow> bs'' = bs'))"
proof (intro conjI allI impI)
  fix bs' bs'' and offer' :: capability_offer
  assume d: "decode_capability_offer X bs' = Inr offer'"
  show "\<forall>xs\<in>{co_required_capabilities offer', co_required_projections offer', co_supported_capabilities offer',
          co_supported_projections offer'}. length xs \<le> MAX_CAPABILITY_SET_ENTRIES \<and> strictly_ordered xs"
    using decode_offer_canonical[OF d] by (simp add: encode_offer_Inr validate_offer_sets_Inr)
  assume "decode_capability_offer X bs'' = Inr offer'"
  then show "bs'' = bs'"
    using d by (rule offer_codec.decode_unique)
qed (rule offer_codec.decode_iff[OF assms])

end
