(* ===== verification/Wj_Projection.thy ===== *)
theory Wj_Projection
  imports Wj_Capability
begin

text \<open>
  \<open>projection.rs\<close>: revision vectors, verified proofs and proof vectors, the identifier that binds a
  proof to its fields, and the three canonical wire codecs.
\<close>

section \<open>Values\<close>

definition REVISION_VECTOR_SCHEMA_V1 :: string where "REVISION_VECTOR_SCHEMA_V1 = ''wayjournal.revision-vector/v1''"
definition VERIFIED_PROOF_SCHEMA_V1 :: string where "VERIFIED_PROOF_SCHEMA_V1 = ''wayjournal.verified-proof/v1''"
definition PROOF_VECTOR_SCHEMA_V1 :: string where "PROOF_VECTOR_SCHEMA_V1 = ''wayjournal.proof-vector/v1''"
definition MAX_VECTOR_STORES :: nat where "MAX_VECTOR_STORES = 256"
definition MAX_PROOFS :: nat where "MAX_PROOFS = 4096"
definition MAX_PROJECTION_BYTES :: nat where "MAX_PROJECTION_BYTES = 8 * 1024 * 1024"
definition PROOF_ID_DOMAIN :: bytes where "PROOF_ID_DOMAIN = ''wayjournal-proof-v1'' @ [CHR 0x00]"

record revision_vector_entry =
  rve_store :: logical_store_id
  rve_revision :: store_revision_ref

record revision_vector =
  rv_entries :: "revision_vector_entry list"

type_synonym proof_id = digest

record verified_proof =
  vp_id :: proof_id
  vp_subject :: qualified_entity_ref
  vp_record :: record_id
  vp_revision :: store_revision_ref
  vp_trust :: local_trust_binding
  vp_observed :: timestamp

record proof_vector =
  pv_proofs :: "verified_proof list"

record contradiction_ref =
  ct_proof :: proof_id
  ct_source_store :: logical_store_id
  ct_source_revision :: store_revision_ref

datatype projection_error =
    PjTooLarge
  | TooManyStores
  | TooManyProofs
  | PjInvalidJson string
  | PjDuplicateKey string
  | PjFloatNotAllowed
  | PjInvalidDocument
  | PjUnsupportedSchema
  | InvalidRevisionOrder
  | InvalidProofOrder
  | ProofIdMismatch
  | PjNonCanonical

fun projection_error_from_json :: "strict_json_error \<Rightarrow> projection_error" where
  "projection_error_from_json (SJ_Invalid m) = PjInvalidJson m"
| "projection_error_from_json (SJ_DuplicateKey k) = PjDuplicateKey k"
| "projection_error_from_json SJ_FloatNotAllowed = PjFloatNotAllowed"

definition proof_id_parse :: "ext \<Rightarrow> string \<Rightarrow> digest_error + proof_id" where
  "proof_id_parse X input = digest_parse X input"

section \<open>The proof identifier\<close>

definition proof_id_fields ::
  "ext \<Rightarrow> qualified_entity_ref \<Rightarrow> record_id \<Rightarrow> store_revision_ref \<Rightarrow> local_trust_binding \<Rightarrow> timestamp \<Rightarrow> bytes list" where
  "proof_id_fields X subject rid revision trust observed =
     [VERIFIED_PROOF_SCHEMA_V1, uuid_to_string X (ls_uuid (qe_store subject)),
      digest_to_string X (ls_fingerprint (qe_store subject)), qe_domain subject, uuid_to_string X (qe_entity subject),
      uuid_to_string X rid, algorithm_as_str (sr_algorithm revision), digest_to_string X (sr_digest revision),
      digest_to_string X trust, timestamp_to_string X observed]"

definition compute_proof_id ::
  "ext \<Rightarrow> qualified_entity_ref \<Rightarrow> record_id \<Rightarrow> store_revision_ref \<Rightarrow> local_trust_binding \<Rightarrow> timestamp \<Rightarrow> proof_id" where
  "compute_proof_id X subject rid revision trust observed =
     blake3_hash X (fold (\<lambda>field hasher. update_frame hasher field)
       (proof_id_fields X subject rid revision trust observed) PROOF_ID_DOMAIN)"

definition from_checkpoint ::
  "ext \<Rightarrow> qualified_entity_ref \<Rightarrow> record_id \<Rightarrow> store_revision_ref \<Rightarrow> local_trust_binding \<Rightarrow> timestamp \<Rightarrow> verified_proof" where
  "from_checkpoint X subject rid revision trust observed =
     \<lparr>vp_id = compute_proof_id X subject rid revision trust observed, vp_subject = subject, vp_record = rid,
      vp_revision = revision, vp_trust = trust, vp_observed = observed\<rparr>"

definition recomputed_proof_id :: "ext \<Rightarrow> verified_proof \<Rightarrow> proof_id" where
  "recomputed_proof_id X p = compute_proof_id X (vp_subject p) (vp_record p) (vp_revision p) (vp_trust p) (vp_observed p)"

section \<open>Validation\<close>

definition validate_revision_entries :: "revision_vector_entry list \<Rightarrow> projection_error + unit" where
  "validate_revision_entries entries =
     (if MAX_VECTOR_STORES < length entries then Inl TooManyStores
      else if \<not> strictly_ordered (map rve_store entries) then Inl InvalidRevisionOrder
      else Inr ())"

definition validate_proofs :: "ext \<Rightarrow> verified_proof list \<Rightarrow> projection_error + unit" where
  "validate_proofs X proofs =
     (if MAX_PROOFS < length proofs then Inl TooManyProofs
      else if \<not> strictly_ordered (map vp_id proofs) then Inl InvalidProofOrder
      else if list_ex (\<lambda>p. vp_id p \<noteq> recomputed_proof_id X p) proofs then Inl ProofIdMismatch
      else Inr ())"

definition revision_vector_new :: "revision_vector_entry list \<Rightarrow> projection_error + revision_vector" where
  "revision_vector_new entries = rbind (validate_revision_entries entries) (\<lambda>_. Inr \<lparr>rv_entries = entries\<rparr>)"

definition proof_vector_new :: "ext \<Rightarrow> verified_proof list \<Rightarrow> projection_error + proof_vector" where
  "proof_vector_new X proofs = rbind (validate_proofs X proofs) (\<lambda>_. Inr \<lparr>pv_proofs = proofs\<rparr>)"

section \<open>Wire documents\<close>

record raw_revision_vector =
  rrv_entries :: "revision_vector_entry list"
  rrv_schema :: string

record raw_verified_proof =
  rvp_trust :: local_trust_binding
  rvp_observed :: timestamp
  rvp_id :: proof_id
  rvp_record :: record_id
  rvp_schema :: string
  rvp_revision :: store_revision_ref
  rvp_subject :: qualified_entity_ref

record raw_proof_vector =
  rpv_proofs :: "raw_verified_proof list"
  rpv_schema :: string

definition raw_of_proof :: "verified_proof \<Rightarrow> raw_verified_proof" where
  "raw_of_proof p =
     \<lparr>rvp_trust = vp_trust p, rvp_observed = vp_observed p, rvp_id = vp_id p, rvp_record = vp_record p,
      rvp_schema = VERIFIED_PROOF_SCHEMA_V1, rvp_revision = vp_revision p, rvp_subject = vp_subject p\<rparr>"

definition proof_try_from :: "ext \<Rightarrow> raw_verified_proof \<Rightarrow> projection_error + verified_proof" where
  "proof_try_from X raw =
     (if rvp_schema raw \<noteq> VERIFIED_PROOF_SCHEMA_V1 then Inl PjUnsupportedSchema
      else let p = \<lparr>vp_id = rvp_id raw, vp_subject = rvp_subject raw, vp_record = rvp_record raw,
             vp_revision = rvp_revision raw, vp_trust = rvp_trust raw, vp_observed = rvp_observed raw\<rparr> in
        if vp_id p \<noteq> recomputed_proof_id X p then Inl ProofIdMismatch else Inr p)"

definition revision_ref_to_value :: "ext \<Rightarrow> store_revision_ref \<Rightarrow> json" where
  "revision_ref_to_value X r =
     JObject (bt_of_list [(''algorithm'', JString (algorithm_as_str (sr_algorithm r))),
       (''digest'', JString (digest_to_string X (sr_digest r)))])"

definition qualified_to_value :: "ext \<Rightarrow> qualified_entity_ref \<Rightarrow> json" where
  "qualified_to_value X q =
     JObject (bt_of_list [(''store'', logical_id_to_value X (qe_store q)), (''domain'', JString (qe_domain q)),
       (''entity_id'', JString (uuid_to_string X (qe_entity q)))])"

definition entry_to_value :: "ext \<Rightarrow> revision_vector_entry \<Rightarrow> json" where
  "entry_to_value X e =
     JObject (bt_of_list [(''revision'', revision_ref_to_value X (rve_revision e)),
       (''store'', logical_id_to_value X (rve_store e))])"

definition raw_proof_to_value :: "ext \<Rightarrow> raw_verified_proof \<Rightarrow> json" where
  "raw_proof_to_value X r =
     JObject (bt_of_list
       [(''local_trust_binding'', JString (digest_to_string X (rvp_trust r))),
        (''observed_at'', JString (timestamp_to_string X (rvp_observed r))),
        (''proof_id'', JString (digest_to_string X (rvp_id r))),
        (''record_id'', JString (uuid_to_string X (rvp_record r))),
        (''schema'', JString (rvp_schema r)),
        (''source_revision'', revision_ref_to_value X (rvp_revision r)),
        (''subject'', qualified_to_value X (rvp_subject r))])"

definition raw_revision_vector_to_value :: "ext \<Rightarrow> raw_revision_vector \<Rightarrow> json" where
  "raw_revision_vector_to_value X r =
     JObject (bt_of_list [(''entries'', JArray (map (entry_to_value X) (rrv_entries r))), (''schema'', JString (rrv_schema r))])"

definition raw_proof_vector_to_value :: "ext \<Rightarrow> raw_proof_vector \<Rightarrow> json" where
  "raw_proof_vector_to_value X r =
     JObject (bt_of_list [(''proofs'', JArray (map (raw_proof_to_value X) (rpv_proofs r))), (''schema'', JString (rpv_schema r))])"

definition de_list :: "(json \<Rightarrow> 'a option) \<Rightarrow> json \<Rightarrow> 'a list option" where
  "de_list f v = (case v of JArray vs \<Rightarrow> option_map f vs | _ \<Rightarrow> None)"

definition entry_from_value :: "ext \<Rightarrow> json \<Rightarrow> revision_vector_entry option" where
  "entry_from_value X v =
     (case serde_fields X [(''revision'', False), (''store'', False)] v of
        Some [Some r, Some s] \<Rightarrow>
          (case (revision_ref_from_value X r, logical_id_from_value X s) of
             (Some r, Some s) \<Rightarrow> Some \<lparr>rve_store = s, rve_revision = r\<rparr>
           | _ \<Rightarrow> None)
      | _ \<Rightarrow> None)"

definition raw_revision_vector_from_value :: "ext \<Rightarrow> json \<Rightarrow> raw_revision_vector option" where
  "raw_revision_vector_from_value X v =
     (case serde_fields X [(''entries'', False), (''schema'', False)] v of
        Some [Some es, Some s] \<Rightarrow>
          (case (de_list (entry_from_value X) es, de_string s) of
             (Some es, Some s) \<Rightarrow> Some \<lparr>rrv_entries = es, rrv_schema = s\<rparr>
           | _ \<Rightarrow> None)
      | _ \<Rightarrow> None)"

definition proof_fields :: "(string \<times> bool) list" where
  "proof_fields =
     [(''local_trust_binding'', False), (''observed_at'', False), (''proof_id'', False), (''record_id'', False),
      (''schema'', False), (''source_revision'', False), (''subject'', False)]"

definition raw_proof_from_value :: "ext \<Rightarrow> json \<Rightarrow> raw_verified_proof option" where
  "raw_proof_from_value X v =
     (case serde_fields X proof_fields v of
        Some [Some t, Some w, Some p, Some r, Some c, Some s, Some q] \<Rightarrow>
          (case (de_parse (digest_parse X) t, de_parse (record_timestamp_from_str X) w, de_parse (proof_id_parse X) p,
                 de_parse (record_id_from_str X) r, de_string c, revision_ref_from_value X s, qualified_from_value X q) of
             (Some t, Some w, Some p, Some r, Some c, Some s, Some q) \<Rightarrow>
               Some \<lparr>rvp_trust = t, rvp_observed = w, rvp_id = p, rvp_record = r, rvp_schema = c, rvp_revision = s,
                     rvp_subject = q\<rparr>
           | _ \<Rightarrow> None)
      | _ \<Rightarrow> None)"

definition raw_proof_vector_from_value :: "ext \<Rightarrow> json \<Rightarrow> raw_proof_vector option" where
  "raw_proof_vector_from_value X v =
     (case serde_fields X [(''proofs'', False), (''schema'', False)] v of
        Some [Some ps, Some s] \<Rightarrow>
          (case (de_list (raw_proof_from_value X) ps, de_string s) of
             (Some ps, Some s) \<Rightarrow> Some \<lparr>rpv_proofs = ps, rpv_schema = s\<rparr>
           | _ \<Rightarrow> None)
      | _ \<Rightarrow> None)"

section \<open>Codecs\<close>

definition require_size :: "bytes \<Rightarrow> projection_error + unit" where
  "require_size bs = (if MAX_PROJECTION_BYTES < length bs then Inl PjTooLarge else Inr ())"

definition encode_raw :: "ext \<Rightarrow> json \<Rightarrow> projection_error + bytes" where
  "encode_raw X v =
     rbind (map_err projection_error_from_json (encode_pretty X v)) (\<lambda>bs.
     rbind (require_size bs) (\<lambda>_. Inr bs))"

definition encode_revision_vector :: "ext \<Rightarrow> revision_vector \<Rightarrow> projection_error + bytes" where
  "encode_revision_vector X vector =
     rbind (validate_revision_entries (rv_entries vector)) (\<lambda>_.
     encode_raw X (raw_revision_vector_to_value X \<lparr>rrv_entries = rv_entries vector, rrv_schema = REVISION_VECTOR_SCHEMA_V1\<rparr>))"

definition decode_revision_vector :: "ext \<Rightarrow> bytes \<Rightarrow> projection_error + revision_vector" where
  "decode_revision_vector X bs =
     rbind (require_size bs) (\<lambda>_.
     rbind (map_err projection_error_from_json (decode_strict X bs)) (\<lambda>v.
     rbind (ok_or PjInvalidDocument (raw_revision_vector_from_value X v)) (\<lambda>raw.
     if rrv_schema raw \<noteq> REVISION_VECTOR_SCHEMA_V1 then Inl PjUnsupportedSchema
     else if MAX_VECTOR_STORES < length (rrv_entries raw) then Inl TooManyStores
     else rbind (revision_vector_new (rrv_entries raw)) (\<lambda>vector.
     rbind (encode_revision_vector X vector) (\<lambda>again.
     if again \<noteq> bs then Inl PjNonCanonical else Inr vector)))))"

definition encode_verified_proof :: "ext \<Rightarrow> verified_proof \<Rightarrow> projection_error + bytes" where
  "encode_verified_proof X p =
     (if vp_id p \<noteq> recomputed_proof_id X p then Inl ProofIdMismatch
      else encode_raw X (raw_proof_to_value X (raw_of_proof p)))"

definition decode_verified_proof :: "ext \<Rightarrow> bytes \<Rightarrow> projection_error + verified_proof" where
  "decode_verified_proof X bs =
     rbind (require_size bs) (\<lambda>_.
     rbind (map_err projection_error_from_json (decode_strict X bs)) (\<lambda>v.
     rbind (ok_or PjInvalidDocument (raw_proof_from_value X v)) (\<lambda>raw.
     rbind (proof_try_from X raw) (\<lambda>p.
     rbind (encode_verified_proof X p) (\<lambda>again.
     if again \<noteq> bs then Inl PjNonCanonical else Inr p)))))"

definition encode_proof_vector :: "ext \<Rightarrow> proof_vector \<Rightarrow> projection_error + bytes" where
  "encode_proof_vector X vector =
     rbind (validate_proofs X (pv_proofs vector)) (\<lambda>_.
     encode_raw X (raw_proof_vector_to_value X
       \<lparr>rpv_proofs = map raw_of_proof (pv_proofs vector), rpv_schema = PROOF_VECTOR_SCHEMA_V1\<rparr>))"

definition decode_proof_vector :: "ext \<Rightarrow> bytes \<Rightarrow> projection_error + proof_vector" where
  "decode_proof_vector X bs =
     rbind (require_size bs) (\<lambda>_.
     rbind (map_err projection_error_from_json (decode_strict X bs)) (\<lambda>v.
     rbind (ok_or PjInvalidDocument (raw_proof_vector_from_value X v)) (\<lambda>raw.
     if rpv_schema raw \<noteq> PROOF_VECTOR_SCHEMA_V1 then Inl PjUnsupportedSchema
     else if MAX_PROOFS < length (rpv_proofs raw) then Inl TooManyProofs
     else rbind (try_map (proof_try_from X) (rpv_proofs raw)) (\<lambda>proofs.
     rbind (proof_vector_new X proofs) (\<lambda>vector.
     rbind (encode_proof_vector X vector) (\<lambda>again.
     if again \<noteq> bs then Inl PjNonCanonical else Inr vector))))))"

section \<open>Documents read back\<close>

text \<open>What every value of these types satisfies.\<close>

definition logical_ok :: "ext \<Rightarrow> logical_store_id \<Rightarrow> bool" where
  "logical_ok X s \<longleftrightarrow> v7_ok X (ls_uuid s) \<and> length (ls_fingerprint s) = 32"

definition entry_ok_vector :: "ext \<Rightarrow> revision_vector_entry \<Rightarrow> bool" where
  "entry_ok_vector X e \<longleftrightarrow> logical_ok X (rve_store e) \<and> length (sr_digest (rve_revision e)) = 32"

definition proof_ok :: "ext \<Rightarrow> verified_proof \<Rightarrow> bool" where
  "proof_ok X p \<longleftrightarrow>
     logical_ok X (qe_store (vp_subject p)) \<and> domain_id_from_str (qe_domain (vp_subject p)) = Inr (qe_domain (vp_subject p)) \<and>
     entity_ok X (qe_entity (vp_subject p)) \<and> v7_ok X (vp_record p) \<and> length (sr_digest (vp_revision p)) = 32 \<and>
     length (vp_trust p) = 32 \<and> length (vp_id p) = 32"

definition projection_laws :: "ext \<Rightarrow> bool" where
  "projection_laws X \<longleftrightarrow> checkpoint_laws X \<and> timestamp_roundtrip X"

lemma projection_lawsD:
  assumes "projection_laws X"
  shows "uuid_roundtrip X" "hex_roundtrip X" "json_roundtrip X" "serde_object_law X" "timestamp_roundtrip X"
  using assms by (simp_all add: projection_laws_def checkpoint_laws_def)

lemma document_eqs:
  "logical_id_to_value X s = JObject
     [(''genesis_fingerprint'', JString (digest_to_string X (ls_fingerprint s))), (''store_uuid'', JString (uuid_to_string X (ls_uuid s)))]"
  "revision_ref_to_value X r = JObject
     [(''algorithm'', JString (algorithm_as_str (sr_algorithm r))), (''digest'', JString (digest_to_string X (sr_digest r)))]"
  "qualified_to_value X q = JObject
     [(''domain'', JString (qe_domain q)), (''entity_id'', JString (uuid_to_string X (qe_entity q))), (''store'', logical_id_to_value X (qe_store q))]"
  "entry_to_value X e = JObject [(''revision'', revision_ref_to_value X (rve_revision e)), (''store'', logical_id_to_value X (rve_store e))]"
  "raw_proof_to_value X p = JObject
     [(''local_trust_binding'', JString (digest_to_string X (rvp_trust p))), (''observed_at'', JString (timestamp_to_string X (rvp_observed p))),
      (''proof_id'', JString (digest_to_string X (rvp_id p))), (''record_id'', JString (uuid_to_string X (rvp_record p))),
      (''schema'', JString (rvp_schema p)), (''source_revision'', revision_ref_to_value X (rvp_revision p)),
      (''subject'', qualified_to_value X (rvp_subject p))]"
  "raw_revision_vector_to_value X v = JObject [(''entries'', JArray (map (entry_to_value X) (rrv_entries v))), (''schema'', JString (rrv_schema v))]"
  "raw_proof_vector_to_value X w = JObject [(''proofs'', JArray (map (raw_proof_to_value X) (rpv_proofs w))), (''schema'', JString (rpv_schema w))]"
  by (simp_all add: logical_id_to_value_def revision_ref_to_value_def qualified_to_value_def entry_to_value_def raw_proof_to_value_def
      raw_revision_vector_to_value_def raw_proof_vector_to_value_def bt_of_list_def less_char_def)

lemma good_documents:
  "good_json (logical_id_to_value X s)" "good_json (revision_ref_to_value X r)" "good_json (qualified_to_value X q)"
  "good_json (entry_to_value X e)" "good_json (raw_proof_to_value X p)" "good_json (raw_revision_vector_to_value X v)"
  "good_json (raw_proof_vector_to_value X w)"
  by (simp_all add: document_eqs less_char_def list_all_iff)

lemma fold_max_map_le: "(\<And>x. x \<in> set xs \<Longrightarrow> f x \<le> n) \<Longrightarrow> m \<le> n \<Longrightarrow> fold max (map f xs) m \<le> (n :: nat)"
  by (induction xs arbitrary: m) simp_all

lemma document_depths:
  "json_depth (raw_proof_to_value X p) = 3" "json_depth (raw_revision_vector_to_value X v) \<le> json_limit"
  "json_depth (raw_proof_vector_to_value X w) \<le> json_limit"
proof -
  show p: "json_depth (raw_proof_to_value X p) = 3" for p by (simp add: document_eqs)
  have "json_depth (entry_to_value X e) = 2" for e by (simp add: document_eqs)
  then have "fold max (map json_depth (map (entry_to_value X) (rrv_entries v))) 0 \<le> 2"
    unfolding map_map by (intro fold_max_map_le) simp_all
  then show "json_depth (raw_revision_vector_to_value X v) \<le> json_limit" by (simp add: document_eqs json_limit_def)
  have "fold max (map json_depth (map (raw_proof_to_value X) (rpv_proofs w))) 0 \<le> 3"
    unfolding map_map by (intro fold_max_map_le) (simp_all add: p)
  then show "json_depth (raw_proof_vector_to_value X w) \<le> json_limit" unfolding document_eqs(7) by (simp add: json_limit_def)
qed

lemma serde_object:
  assumes "serde_object_law X" "good_json (JObject kvs)" "distinct (map fst fs)"
  shows "serde_fields X fs (JObject kvs) = struct_of_object fs kvs"
  using assms by (simp add: serde_object_law_def good_json_def)

lemma parse_texts:
  assumes "projection_laws X"
  shows "v7_ok X u \<Longrightarrow> store_uuid_from_str X (uuid_to_string X u) = Inr u"
    "v7_ok X u \<Longrightarrow> record_id_from_str X (uuid_to_string X u) = Inr u"
    "entity_ok X u \<Longrightarrow> entity_id_from_str X (uuid_to_string X u) = Inr u"
    "length d = 32 \<Longrightarrow> digest_parse X (digest_to_string X d) = Inr d"
    "record_timestamp_from_str X (timestamp_to_string X t) = Inr t"
  using projection_lawsD[OF assms]
  by (simp_all add: store_uuid_from_str_def record_id_from_str_def entity_id_from_str_def parse_uuid_to_string digest_parse_to_string
      record_timestamp_to_string)

lemma documents_read:
  assumes "projection_laws X"
  shows "logical_ok X s \<Longrightarrow> logical_id_from_value X (logical_id_to_value X s) = Some s"
    and "length (sr_digest r) = 32 \<Longrightarrow> revision_ref_from_value X (revision_ref_to_value X r) = Some r"
proof -
  note law = projection_lawsD(4)[OF assms] and texts = parse_texts[OF assms]
  note obj = serde_object[OF law good_documents(1)[of X, unfolded document_eqs]] serde_object[OF law good_documents(2)[of X, unfolded document_eqs]]
  show "logical_ok X s \<Longrightarrow> logical_id_from_value X (logical_id_to_value X s) = Some s"
    by (simp add: document_eqs logical_id_from_value_def obj struct_of_object_def texts logical_ok_def)
  show "length (sr_digest r) = 32 \<Longrightarrow> revision_ref_from_value X (revision_ref_to_value X r) = Some r"
    by (simp add: document_eqs revision_ref_from_value_def obj struct_of_object_def texts algorithm_from_as_str)
qed

lemma values_read:
  assumes "projection_laws X"
  shows "entry_ok_vector X e \<Longrightarrow> entry_from_value X (entry_to_value X e) = Some e"
    and "proof_ok X p \<Longrightarrow> raw_proof_from_value X (raw_proof_to_value X (raw_of_proof p)) = Some (raw_of_proof p)"
proof -
  note law = projection_lawsD(4)[OF assms] and texts = parse_texts[OF assms] and read = documents_read[OF assms]
  note good = good_documents(3)[of X, unfolded document_eqs(3)] good_documents(4)[of X, unfolded document_eqs(4)]
    good_documents(5)[of X, unfolded document_eqs(5)]
  show "entry_ok_vector X e \<Longrightarrow> entry_from_value X (entry_to_value X e) = Some e"
    unfolding document_eqs(4) entry_from_value_def by (subst serde_object[OF law good(2)]) (simp_all add: struct_of_object_def read entry_ok_vector_def)
  assume p: "proof_ok X p"
  have q: "qualified_from_value X (qualified_to_value X (vp_subject p)) = Some (vp_subject p)"
    using p unfolding document_eqs(3) qualified_from_value_def
    by (subst serde_object[OF law good(1)]) (simp_all add: struct_of_object_def read texts proof_ok_def)
  show "raw_proof_from_value X (raw_proof_to_value X (raw_of_proof p)) = Some (raw_of_proof p)"
    using p q unfolding document_eqs(5) raw_proof_from_value_def
    by (subst serde_object[OF law good(3)])
      (simp_all add: proof_fields_def struct_of_object_def read texts proof_ok_def raw_of_proof_def proof_id_parse_def de_string_def)
qed

lemma de_list_map: "(\<And>x. x \<in> set xs \<Longrightarrow> f (g x) = Some x) \<Longrightarrow> de_list f (JArray (map g xs)) = Some xs"
  by (induction xs) (simp_all add: de_list_def)

lemma vectors_read:
  assumes "projection_laws X"
  shows "list_all (entry_ok_vector X) es \<Longrightarrow>
      raw_revision_vector_from_value X (raw_revision_vector_to_value X \<lparr>rrv_entries = es, rrv_schema = s\<rparr>) = Some \<lparr>rrv_entries = es, rrv_schema = s\<rparr>"
    and "list_all (proof_ok X) ps \<Longrightarrow>
      raw_proof_vector_from_value X (raw_proof_vector_to_value X \<lparr>rpv_proofs = map raw_of_proof ps, rpv_schema = s\<rparr>) =
        Some \<lparr>rpv_proofs = map raw_of_proof ps, rpv_schema = s\<rparr>"
proof -
  note law = projection_lawsD(4)[OF assms] and good = good_documents(6,7)[of X, unfolded document_eqs(6,7)]
  show "list_all (entry_ok_vector X) es \<Longrightarrow>
      raw_revision_vector_from_value X (raw_revision_vector_to_value X \<lparr>rrv_entries = es, rrv_schema = s\<rparr>) = Some \<lparr>rrv_entries = es, rrv_schema = s\<rparr>"
    unfolding document_eqs(6) raw_revision_vector_from_value_def
    by (subst serde_object[OF law good(1)]) (simp_all add: struct_of_object_def de_list_map values_read[OF assms] list_all_iff de_string_def)
  assume "list_all (proof_ok X) ps"
  then have "de_list (raw_proof_from_value X) (JArray (map (raw_proof_to_value X) (map raw_of_proof ps))) = Some (map raw_of_proof ps)"
    by (intro de_list_map) (auto simp: values_read(2)[OF assms] list_all_iff)
  then show "raw_proof_vector_from_value X (raw_proof_vector_to_value X \<lparr>rpv_proofs = map raw_of_proof ps, rpv_schema = s\<rparr>) =
        Some \<lparr>rpv_proofs = map raw_of_proof ps, rpv_schema = s\<rparr>"
    unfolding document_eqs(7) raw_proof_vector_from_value_def
    by (subst serde_object[OF law good(2)]) (simp_all add: struct_of_object_def de_string_def)
qed

section \<open>The codecs are exact\<close>

lemma encode_raw_Inr: "encode_raw X v = Inr bs \<longleftrightarrow> encode_pretty X v = Inr bs \<and> length bs \<le> MAX_PROJECTION_BYTES"
  by (auto simp: encode_raw_def require_size_def result_simps)

lemma encode_raw_read:
  assumes "projection_laws X" "good_json v" "json_depth v \<le> json_limit" "encode_raw X v = Inr bs"
  shows "decode_strict X bs = Inr v" "require_size bs = Inr ()"
  using decode_encode_pretty[OF projection_lawsD(3)[OF assms(1)] assms(2,3)] assms(4)
  by (auto simp: encode_raw_Inr require_size_def)

lemma validate_entries_Inr:
  "validate_revision_entries es = Inr () \<longleftrightarrow> length es \<le> MAX_VECTOR_STORES \<and> strictly_ordered (map rve_store es)"
  by (auto simp: validate_revision_entries_def)

lemma validate_proofs_Inr:
  "validate_proofs X ps = Inr () \<longleftrightarrow>
   length ps \<le> MAX_PROOFS \<and> strictly_ordered (map vp_id ps) \<and> (\<forall>p\<in>set ps. vp_id p = recomputed_proof_id X p)"
  by (auto simp: validate_proofs_def list_ex_iff)

lemma decode_revision_vector_canonical: "decode_revision_vector X bs = Inr v \<Longrightarrow> encode_revision_vector X v = Inr bs"
  by (auto simp: decode_revision_vector_def result_simps split: if_splits)

lemma decode_verified_proof_canonical: "decode_verified_proof X bs = Inr p \<Longrightarrow> encode_verified_proof X p = Inr bs"
  by (auto simp: decode_verified_proof_def result_simps split: if_splits)

lemma decode_proof_vector_canonical: "decode_proof_vector X bs = Inr v \<Longrightarrow> encode_proof_vector X v = Inr bs"
  by (auto simp: decode_proof_vector_def result_simps split: if_splits)

definition revision_vector_readable :: "ext \<Rightarrow> revision_vector \<Rightarrow> bool" where
  "revision_vector_readable X v \<longleftrightarrow> projection_laws X \<and> list_all (entry_ok_vector X) (rv_entries v)"

definition proof_readable :: "ext \<Rightarrow> verified_proof \<Rightarrow> bool" where
  "proof_readable X p \<longleftrightarrow> projection_laws X \<and> proof_ok X p"

definition proof_vector_readable :: "ext \<Rightarrow> proof_vector \<Rightarrow> bool" where
  "proof_vector_readable X v \<longleftrightarrow> projection_laws X \<and> list_all (proof_ok X) (pv_proofs v)"

lemma proof_try_from_raw: "vp_id p = recomputed_proof_id X p \<Longrightarrow> proof_try_from X (raw_of_proof p) = Inr p"
  by (cases p) (simp add: proof_try_from_def raw_of_proof_def)

lemma encode_revision_vector_readable:
  assumes "revision_vector_readable X v" "encode_revision_vector X v = Inr bs"
  shows "decode_revision_vector X bs = Inr v"
proof -
  let ?v = "raw_revision_vector_to_value X \<lparr>rrv_entries = rv_entries v, rrv_schema = REVISION_VECTOR_SCHEMA_V1\<rparr>"
  have laws: "projection_laws X" "list_all (entry_ok_vector X) (rv_entries v)"
    using assms(1) by (simp_all add: revision_vector_readable_def)
  have e: "validate_revision_entries (rv_entries v) = Inr ()" "encode_raw X ?v = Inr bs"
    using assms(2) by (auto simp: encode_revision_vector_def result_simps)
  note read = encode_raw_read[OF laws(1) good_documents(6) document_depths(2) e(2)] vectors_read(1)[OF laws]
  show ?thesis
    using read e(1) e(1)[unfolded validate_entries_Inr] assms(2)
    by (cases v) (simp add: decode_revision_vector_def revision_vector_new_def)
qed

lemma encode_verified_proof_readable:
  assumes "proof_readable X p" "encode_verified_proof X p = Inr bs"
  shows "decode_verified_proof X bs = Inr p"
proof -
  let ?v = "raw_proof_to_value X (raw_of_proof p)"
  have laws: "projection_laws X" "proof_ok X p" using assms(1) by (simp_all add: proof_readable_def)
  have e: "vp_id p = recomputed_proof_id X p" "encode_raw X ?v = Inr bs"
    using assms(2) by (auto simp: encode_verified_proof_def split: if_splits)
  have "json_depth ?v \<le> json_limit" by (simp add: document_depths json_limit_def)
  note read = encode_raw_read[OF laws(1) good_documents(5) this e(2)] values_read(2)[OF laws]
  show ?thesis
    using read proof_try_from_raw[OF e(1)] assms(2) by (simp add: decode_verified_proof_def)
qed

lemma encode_proof_vector_readable:
  assumes "proof_vector_readable X v" "encode_proof_vector X v = Inr bs"
  shows "decode_proof_vector X bs = Inr v"
proof -
  let ?v = "raw_proof_vector_to_value X \<lparr>rpv_proofs = map raw_of_proof (pv_proofs v), rpv_schema = PROOF_VECTOR_SCHEMA_V1\<rparr>"
  have laws: "projection_laws X" "list_all (proof_ok X) (pv_proofs v)"
    using assms(1) by (simp_all add: proof_vector_readable_def)
  have e: "validate_proofs X (pv_proofs v) = Inr ()" "encode_raw X ?v = Inr bs"
    using assms(2) by (auto simp: encode_proof_vector_def result_simps)
  note read = encode_raw_read[OF laws(1) good_documents(7) document_depths(3) e(2)] vectors_read(2)[OF laws]
  have "try_map (\<lambda>p. proof_try_from X (raw_of_proof p)) (pv_proofs v) = Inr (map id (pv_proofs v))"
    using e(1) by (intro try_map_total) (simp add: proof_try_from_raw validate_proofs_Inr)
  then show ?thesis
    using read e(1) e(1)[unfolded validate_proofs_Inr] assms(2)
    by (cases v) (simp add: decode_proof_vector_def proof_vector_new_def try_map_map)
qed

interpretation revision_vector_codec: exact_codec
  "encode_revision_vector X" "decode_revision_vector X" MAX_PROJECTION_BYTES "revision_vector_readable X" for X
proof (unfold_locales, goal_cases)
  case (1 bs v)
  then show ?case by (rule decode_revision_vector_canonical)
next
  case (2 v bs)
  then show ?case by (auto simp: encode_revision_vector_def result_simps encode_raw_Inr)
next
  case (3 v bs)
  then show ?case by (rule encode_revision_vector_readable)
qed

interpretation proof_codec: exact_codec
  "encode_verified_proof X" "decode_verified_proof X" MAX_PROJECTION_BYTES "proof_readable X" for X
proof (unfold_locales, goal_cases)
  case (1 bs p)
  then show ?case by (rule decode_verified_proof_canonical)
next
  case (2 p bs)
  then show ?case by (auto simp: encode_verified_proof_def encode_raw_Inr split: if_splits)
next
  case (3 p bs)
  then show ?case by (rule encode_verified_proof_readable)
qed

interpretation proof_vector_codec: exact_codec
  "encode_proof_vector X" "decode_proof_vector X" MAX_PROJECTION_BYTES "proof_vector_readable X" for X
proof (unfold_locales, goal_cases)
  case (1 bs v)
  then show ?case by (rule decode_proof_vector_canonical)
next
  case (2 v bs)
  then show ?case by (auto simp: encode_proof_vector_def result_simps encode_raw_Inr)
next
  case (3 v bs)
  then show ?case by (rule encode_proof_vector_readable)
qed

text \<open>
  C32: The projection codecs are exact. For values built from accepted identifiers and digests, decoding
  some bytes gives the value precisely when encoding the value gives the bytes, for revision vectors,
  proofs and proof vectors alike. Whatever decodes is within its bounds: a vector has at most 256 stores
  in strictly increasing order, a proof vector at most 4096 proofs in strictly increasing order of their
  identifiers, and every proof carries the identifier recomputed from its other fields.
\<close>

theorem projection_codec_exact:
  assumes "revision_vector_readable X v" "proof_readable X p" "proof_vector_readable X w"
  shows "(decode_revision_vector X bs = Inr v \<longleftrightarrow> encode_revision_vector X v = Inr bs) \<and>
    (decode_verified_proof X bs = Inr p \<longleftrightarrow> encode_verified_proof X p = Inr bs) \<and>
    (decode_proof_vector X bs = Inr w \<longleftrightarrow> encode_proof_vector X w = Inr bs) \<and>
    (\<forall>v'. decode_revision_vector X bs = Inr v' \<longrightarrow>
       length (rv_entries v') \<le> MAX_VECTOR_STORES \<and> strictly_ordered (map rve_store (rv_entries v'))) \<and>
    (\<forall>p'. decode_verified_proof X bs = Inr p' \<longrightarrow> vp_id p' = recomputed_proof_id X p') \<and>
    (\<forall>w'. decode_proof_vector X bs = Inr w' \<longrightarrow>
       length (pv_proofs w') \<le> MAX_PROOFS \<and> strictly_ordered (map vp_id (pv_proofs w')) \<and>
       (\<forall>q\<in>set (pv_proofs w'). vp_id q = recomputed_proof_id X q))"
proof (intro conjI allI impI)
  show "decode_revision_vector X bs = Inr v \<longleftrightarrow> encode_revision_vector X v = Inr bs"
    by (rule revision_vector_codec.decode_iff[OF assms(1)])
  show "decode_verified_proof X bs = Inr p \<longleftrightarrow> encode_verified_proof X p = Inr bs"
    by (rule proof_codec.decode_iff[OF assms(2)])
  show "decode_proof_vector X bs = Inr w \<longleftrightarrow> encode_proof_vector X w = Inr bs"
    by (rule proof_vector_codec.decode_iff[OF assms(3)])
  show "vp_id p' = recomputed_proof_id X p'" if "decode_verified_proof X bs = Inr p'" for p'
    using decode_verified_proof_canonical[OF that] by (auto simp: encode_verified_proof_def split: if_splits)
qed (auto dest!: decode_revision_vector_canonical decode_proof_vector_canonical
    simp: encode_revision_vector_def encode_proof_vector_def result_simps validate_entries_Inr validate_proofs_Inr)

section \<open>The identifier binds the proof\<close>

definition proof_texts :: "ext \<Rightarrow> verified_proof \<Rightarrow> bytes list" where
  "proof_texts X p = proof_id_fields X (vp_subject p) (vp_record p) (vp_revision p) (vp_trust p) (vp_observed p)"

definition proof_preimage :: "ext \<Rightarrow> verified_proof \<Rightarrow> bytes" where
  "proof_preimage X p = fold (\<lambda>field hasher. update_frame hasher field) (proof_texts X p) PROOF_ID_DOMAIN"

lemma fold_frames: "fold (\<lambda>field hasher. update_frame hasher field) fs h = h @ concat (map frame fs)"
  by (induction fs arbitrary: h) (simp_all add: update_frame_eq)

lemma frames_inj:
  "concat (map frame fs) = concat (map frame gs) \<Longrightarrow> length fs = length gs \<Longrightarrow>
   list_all (\<lambda>f. length f < 2 ^ 64) (fs @ gs) \<Longrightarrow> fs = gs"
proof (induction fs arbitrary: gs)
  case (Cons f fs)
  then obtain g gs' where gs: "gs = g # gs'" by (cases gs) auto
  have "f = g \<and> concat (map frame fs) = concat (map frame gs')"
    using Cons.prems gs by (intro frame_prefix_free) simp_all
  then show ?case using Cons.IH[of gs'] Cons.prems gs by simp
qed simp

lemma proof_texts_inj:
  assumes "projection_laws X" "proof_ok X p" "proof_ok X q" "proof_texts X p = proof_texts X q" "vp_id p = vp_id q"
  shows "p = q"
proof -
  note texts = parse_texts[OF assms(1)]
  have u: "v7_ok X a \<Longrightarrow> v7_ok X b \<Longrightarrow> uuid_to_string X a = uuid_to_string X b \<Longrightarrow> a = b" for a b
    using texts(1) by (metis sum.inject(2))
  have e: "entity_ok X a \<Longrightarrow> entity_ok X b \<Longrightarrow> uuid_to_string X a = uuid_to_string X b \<Longrightarrow> a = b" for a b
    using texts(3) by (metis sum.inject(2))
  have d: "length a = 32 \<Longrightarrow> length b = 32 \<Longrightarrow> digest_to_string X a = digest_to_string X b \<Longrightarrow> a = b" for a b
    using texts(4) by (metis sum.inject(2))
  have t: "timestamp_to_string X a = timestamp_to_string X b \<Longrightarrow> a = b" for a b
    using texts(5) by (metis sum.inject(2))
  have al: "algorithm_as_str a = algorithm_as_str b \<Longrightarrow> a = b" for a b
    using algorithm_from_as_str by (metis sum.inject(2))
  have "ls_uuid (qe_store (vp_subject p)) = ls_uuid (qe_store (vp_subject q))"
      "ls_fingerprint (qe_store (vp_subject p)) = ls_fingerprint (qe_store (vp_subject q))"
      "qe_domain (vp_subject p) = qe_domain (vp_subject q)" "qe_entity (vp_subject p) = qe_entity (vp_subject q)"
      "vp_record p = vp_record q" "sr_algorithm (vp_revision p) = sr_algorithm (vp_revision q)"
      "sr_digest (vp_revision p) = sr_digest (vp_revision q)" "vp_trust p = vp_trust q" "vp_observed p = vp_observed q"
    using assms(2-4) u e d t al by (auto simp: proof_texts_def proof_id_fields_def proof_ok_def logical_ok_def)
  then show ?thesis using assms(5)
    by (intro verified_proof.equality qualified_entity_ref.equality logical_store_id.equality store_revision_ref.equality) simp_all
qed

text \<open>
  C33: A proof identifier binds every field of the proof. Two proofs whose identifiers are those
  recomputed from their fields and are equal are the same proof, or their framed preimages are a BLAKE3
  collision.
\<close>

theorem proof_id_binds:
  assumes "projection_laws X" "proof_ok X p" "proof_ok X q" "vp_id p = recomputed_proof_id X p" "vp_id q = recomputed_proof_id X q"
    and "list_all (\<lambda>t. length t < 2 ^ 64) (proof_texts X p @ proof_texts X q)" "vp_id p = vp_id q"
  shows "p = q \<or> blake3_collision X (proof_preimage X p) (proof_preimage X q)"
proof (cases "proof_preimage X p = proof_preimage X q")
  case True
  have "length (proof_texts X p) = length (proof_texts X q)" by (simp add: proof_texts_def proof_id_fields_def)
  then have "proof_texts X p = proof_texts X q"
    using True assms(6) by (intro frames_inj) (simp_all add: proof_preimage_def fold_frames)
  then show ?thesis using proof_texts_inj[OF assms(1-3) _ assms(7)] by blast
next
  case False
  then show ?thesis
    using assms(4,5,7) by (simp add: blake3_collision_def recomputed_proof_id_def compute_proof_id_def proof_preimage_def proof_texts_def)
qed

end
