(* ===== verification/Wj_Federation_Examples.thy ===== *)
theory Wj_Federation_Examples
  imports Wj_Capability Wj_Demo
begin

text \<open>
  The checkpoint and capability properties at concrete values: two checkpoints of one store, the
  array form of the first, and a capability offer, over the external functions of \<open>Wj_Demo\<close> with a
  table of their documents.
\<close>

section \<open>Values\<close>

definition fed_locator :: string where "fed_locator = ''file:///srv/git/store.git''"

definition fed_url :: "string \<Rightarrow> url option" where
  "fed_url s =
     (if s = fed_locator
      then Some \<lparr>url_username = [], url_password = None, url_query = None, url_fragment = None,
        url_scheme = ''file'', url_host = None, url_port = None, url_path = ''/srv/git/store.git'', url_text = s\<rparr>
      else None)"

definition fed_store :: logical_store_id where
  "fed_store = \<lparr>ls_uuid = 1, ls_fingerprint = replicate 32 CHR ''a''\<rparr>"

definition fed_trust :: local_trust_binding where "fed_trust = replicate 32 CHR ''t''"

definition fed_checkpoint :: "char \<Rightarrow> admission_checkpoint" where
  "fed_checkpoint digit =
     \<lparr>ac_store = fed_store, ac_trust = fed_trust,
      ac_remote = \<lparr>ar_locator = fed_locator, ar_reference = ''refs/heads/main''\<rparr>,
      ac_commit = \<lparr>go_format = Sha1, go_hex = replicate 40 digit\<rparr>,
      ac_revision = \<lparr>sr_algorithm = WayjournalBlake3FramedV1, sr_digest = replicate 32 digit\<rparr>\<rparr>"

abbreviation (input) first_checkpoint :: admission_checkpoint where "first_checkpoint \<equiv> fed_checkpoint CHR ''1''"
abbreviation (input) second_checkpoint :: admission_checkpoint where "second_checkpoint \<equiv> fed_checkpoint CHR ''2''"

definition fed_offer :: capability_offer where
  "fed_offer =
     \<lparr>co_store = fed_store, co_required_capabilities = [''wayjournal.json/v1''],
      co_required_projections = [],
      co_supported_capabilities = [''wayjournal.json/v1'', ''wayjournal.record/v1''],
      co_supported_projections = [PROOF_VECTOR_PROJECTION_ID]\<rparr>"

definition fed_local :: handshake_requirements where
  "fed_local =
     \<lparr>hr_required_capabilities = [''wayjournal.record/v1''], hr_required_projections = [PROOF_VECTOR_PROJECTION_ID],
      hr_supported_capabilities = [''wayjournal.batch/v1'', ''wayjournal.json/v1'', ''wayjournal.record/v1''],
      hr_supported_projections = [PROOF_VECTOR_PROJECTION_ID, REVISION_VECTOR_PROJECTION_ID]\<rparr>"

definition fed_docs :: "json list" where
  "fed_docs =
     [raw_checkpoint_to_value (raw_of_checkpoint (table_ext []) first_checkpoint),
      raw_checkpoint_to_value (raw_of_checkpoint (table_ext []) second_checkpoint),
      JArray (raw_checkpoint_values (raw_of_checkpoint (table_ext []) first_checkpoint)),
      offer_to_value (table_ext []) fed_offer]"

definition fed_ext :: ext where "fed_ext = table_ext fed_docs"

lemma fed_laws:
  "checkpoint_laws fed_ext" "hex_canonical fed_ext" "serde_array_law fed_ext" "temp_ok fed_ext 2"
  by (simp_all add: fed_ext_def checkpoint_laws_def temp_ok_def table_laws table_json_roundtrip fed_docs_def uuid_ok_def
      uuid_component_def table_functions demo_uuid_text_def demo_uuids_def validate_component_def)

lemma fed_remote:
  "approved_locator_parse fed_url fed_locator = Inr fed_locator" "approved_ref_parse ''refs/heads/main'' = Inr ''refs/heads/main''"
  by code_simp+

lemma fed_checkpoint_ok:
  "checkpoint_ok fed_ext fed_url first_checkpoint" "checkpoint_ok fed_ext fed_url second_checkpoint"
  by (simp_all add: checkpoint_ok_def fed_checkpoint_def fed_store_def fed_trust_def fed_ext_def uuid_ok_def
      table_functions demo_uuids_def git_oid_Inr is_lower_hex_def less_eq_char_def list_all_iff fed_remote)

lemma fed_values:
  "raw_of_checkpoint fed_ext = raw_of_checkpoint (table_ext [])" "offer_to_value fed_ext = offer_to_value (table_ext [])"
  by (simp_all add: fun_eq_iff raw_of_checkpoint_def offer_to_value_def logical_id_to_value_def fed_ext_def table_functions)

lemma fed_docs_distinct: "distinct fed_docs"
  by (simp add: fed_docs_def raw_value_eq offer_to_value_eq checkpoint_fields_def raw_checkpoint_values_def
      raw_of_checkpoint_def fed_checkpoint_def)

lemma fed_pretty:
  assumes "i < 4" "good_json (fed_docs ! i)" "json_depth (fed_docs ! i) \<le> json_limit"
  shows "encode_pretty fed_ext (fed_docs ! i) = Inr [char_of i, CHR 0x0A]"
proof -
  have "json_pretty fed_ext (fed_docs ! i) = Some [char_of i]"
    using assms(1) takeWhile_distinct[OF fed_docs_distinct, of i] nth_mem[of i fed_docs]
    by (simp add: fed_ext_def table_functions table_pretty_def fed_docs_def)
  then show ?thesis
    using assms by (simp add: encode_pretty_def iffD2[OF reject_floats_iff] good_json_def)
qed

lemma fed_encode:
  "encode_admission_checkpoint fed_ext first_checkpoint = Inr [CHR 0x00, CHR 0x0A]"
  "encode_admission_checkpoint fed_ext second_checkpoint = Inr [CHR 0x01, CHR 0x0A]"
  "encode_pretty fed_ext (JArray (raw_checkpoint_values (raw_of_checkpoint fed_ext first_checkpoint))) = Inr [CHR 0x02, CHR 0x0A]"
  "encode_capability_offer fed_ext fed_offer = Inr [CHR 0x03, CHR 0x0A]"
proof -
  have chars: "char_of (0 :: nat) = CHR 0x00" "char_of (1 :: nat) = CHR 0x01" "char_of (2 :: nat) = CHR 0x02" "char_of (3 :: nat) = CHR 0x03"
    by code_simp+
  show "encode_admission_checkpoint fed_ext first_checkpoint = Inr [CHR 0x00, CHR 0x0A]"
    "encode_admission_checkpoint fed_ext second_checkpoint = Inr [CHR 0x01, CHR 0x0A]"
    "encode_pretty fed_ext (JArray (raw_checkpoint_values (raw_of_checkpoint fed_ext first_checkpoint))) = Inr [CHR 0x02, CHR 0x0A]"
    using fed_pretty[of 0] fed_pretty[of 1] fed_pretty[of 2] chars
    by (simp_all add: encode_checkpoint_Inr MAX_ADMISSION_CHECKPOINT_BYTES_def fed_values fed_docs_def good_raw_value raw_value_depth)
      (simp_all add: raw_checkpoint_values_def json_limit_def)
  have "validate_offer_sets [''wayjournal.json/v1''] [] [''wayjournal.json/v1'', ''wayjournal.record/v1''] [PROOF_VECTOR_PROJECTION_ID] = Inr ()"
    by (simp add: validate_offer_sets_Inr MAX_CAPABILITY_SET_ENTRIES_def less_char_def)
  then show "encode_capability_offer fed_ext fed_offer = Inr [CHR 0x03, CHR 0x0A]"
    using fed_pretty[of 3] chars
    by (simp add: encode_offer_Inr MAX_CAPABILITY_OFFER_BYTES_def fed_values fed_docs_def good_offer_value offer_value_depth)
      (simp add: fed_offer_def)
qed

section \<open>Checkpoints\<close>

theorem checkpoint_codec_witness:
  "decode_admission_checkpoint fed_ext fed_url [CHR 0x00, CHR 0x0A] = Inr first_checkpoint"
  using checkpoint_codec[OF fed_laws(1,2)] fed_checkpoint_ok(1) fed_encode(1) by blast

theorem checkpoint_write_atomic_witness:
  "case write_impl fed_ext 2 (\<lambda>n. n = 1) second_checkpoint (checkpoint_dir (Some [CHR 0x00, CHR 0x0A])) of (r, d) \<Rightarrow>
     r \<noteq> Inr () \<and> read_checkpoint fed_ext fed_url d = (Inr (Some first_checkpoint), checkpoint_dir (Some [CHR 0x00, CHR 0x0A]))"
proof -
  have "readable_file fed_ext fed_url (Some ([CHR 0x00, CHR 0x0A], first_checkpoint))"
    using checkpoint_readback[OF fed_laws(1) fed_checkpoint_ok(1) fed_encode(1)] by (simp add: readable_file_def)
  from checkpoint_write_atomic[OF fed_laws(1,4) fed_checkpoint_ok(2) fed_encode(2) this, of "\<lambda>n. n = 1"]
  show ?thesis by (auto split: prod.splits)
qed

theorem checkpoint_replace_cas_witness:
  "replace_expected fed_ext fed_url 2 (\<lambda>_. False) first_checkpoint second_checkpoint (checkpoint_dir (Some [CHR 0x00, CHR 0x0A])) =
     (Inr (), checkpoint_dir (Some [CHR 0x01, CHR 0x0A])) \<and>
   replace_expected fed_ext fed_url 2 (\<lambda>_. False) first_checkpoint second_checkpoint (checkpoint_dir (Some [CHR 0x02, CHR 0x0A])) =
     (Inl ExpectedOldMismatch, checkpoint_dir (Some [CHR 0x02, CHR 0x0A]))"
proof -
  have first: "decode_admission_checkpoint fed_ext fed_url [CHR 0x00, CHR 0x0A] = Inr first_checkpoint"
    by (rule checkpoint_readback[OF fed_laws(1) fed_checkpoint_ok(1) fed_encode(1)])
  have array: "decode_admission_checkpoint fed_ext fed_url [CHR 0x02, CHR 0x0A] = Inr first_checkpoint"
    using checkpoint_second_wire_form[OF fed_laws(1,3) fed_checkpoint_ok(1) fed_encode(3)] by (simp add: MAX_ADMISSION_CHECKPOINT_BYTES_def)
  show ?thesis
    using checkpoint_replace_cas[OF fed_laws(1,4) fed_checkpoint_ok(2) fed_encode(1,2) first]
      checkpoint_replace_cas[OF fed_laws(1,4) fed_checkpoint_ok(2) fed_encode(1,2) array]
    by simp
qed

section \<open>Capabilities\<close>

lemma fed_identifiers:
  "valid_identifier ''wayjournal.json/v1''" "valid_identifier ''wayjournal.record/v1''" "valid_identifier PROOF_VECTOR_PROJECTION_ID"
  by code_simp+

theorem offer_codec_exact_witness: "decode_capability_offer fed_ext [CHR 0x03, CHR 0x0A] = Inr fed_offer"
proof -
  have "offer_readable fed_ext fed_offer"
    using fed_identifiers fed_laws(1)
    by (simp add: offer_readable_def offer_ok_def fed_offer_def fed_store_def fed_ext_def uuid_ok_def table_functions demo_uuids_def)
  then show ?thesis
    using offer_codec_exact fed_encode(4) by blast
qed

lemma fed_validated:
  "handshake_requirements_new [''wayjournal.record/v1''] [PROOF_VECTOR_PROJECTION_ID]
     [''wayjournal.batch/v1'', ''wayjournal.json/v1'', ''wayjournal.record/v1'']
     [PROOF_VECTOR_PROJECTION_ID, REVISION_VECTOR_PROJECTION_ID] = Inr fed_local"
  "capability_offer_new fed_store [''wayjournal.json/v1''] [] [''wayjournal.json/v1'', ''wayjournal.record/v1'']
     [PROOF_VECTOR_PROJECTION_ID] = Inr fed_offer"
  by code_simp+

theorem negotiation_exact_witness:
  "negotiate_handshake (Inr (Some first_checkpoint)) fed_store fed_trust fed_local fed_offer =
     Inr \<lparr>nh_checkpoint = first_checkpoint, nh_capabilities = [''wayjournal.json/v1'', ''wayjournal.record/v1''],
       nh_projections = [PROOF_VECTOR_PROJECTION_ID]\<rparr>"
  using negotiation_exact[OF fed_validated, of "Inr (Some first_checkpoint)" fed_store fed_trust
    "\<lparr>nh_checkpoint = first_checkpoint, nh_capabilities = [''wayjournal.json/v1'', ''wayjournal.record/v1''],
       nh_projections = [PROOF_VECTOR_PROJECTION_ID]\<rparr>"]
  by (simp add: PROOF_VECTOR_PROJECTION_ID_def REVISION_VECTOR_PROJECTION_ID_def) (simp add: fed_checkpoint_def)

end
