(* ===== verification/Wj_Projection_Examples.thy ===== *)
theory Wj_Projection_Examples
  imports Wj_Projection Wj_Federation_Examples
begin

text \<open>The projection properties at a vector of one store, a proof and a vector of that proof.\<close>

definition pj_subject :: qualified_entity_ref where
  "pj_subject = \<lparr>qe_store = fed_store, qe_domain = ''wayjournal.profile'', qe_entity = 2\<rparr>"

definition pj_revision :: store_revision_ref where
  "pj_revision = \<lparr>sr_algorithm = WayjournalBlake3FramedV1, sr_digest = replicate 32 CHR ''r''\<rparr>"

definition pj_proof :: "record_id \<Rightarrow> verified_proof" where
  "pj_proof rid = from_checkpoint (table_ext []) pj_subject rid pj_revision fed_trust 0"

definition pj_vector :: revision_vector where
  "pj_vector = \<lparr>rv_entries = [\<lparr>rve_store = fed_store, rve_revision = pj_revision\<rparr>]\<rparr>"

definition pj_proofs :: proof_vector where "pj_proofs = \<lparr>pv_proofs = [pj_proof 1]\<rparr>"

definition pj_docs :: "json list" where
  "pj_docs =
     [raw_revision_vector_to_value (table_ext []) \<lparr>rrv_entries = rv_entries pj_vector, rrv_schema = REVISION_VECTOR_SCHEMA_V1\<rparr>,
      raw_proof_to_value (table_ext []) (raw_of_proof (pj_proof 1)),
      raw_proof_vector_to_value (table_ext []) \<lparr>rpv_proofs = [raw_of_proof (pj_proof 1)], rpv_schema = PROOF_VECTOR_SCHEMA_V1\<rparr>]"

definition pj_ext :: ext where "pj_ext = table_ext pj_docs"

lemma table_encode:
  assumes "distinct docs" "i < length docs" "length docs \<le> 256" "good_json (docs ! i)" "json_depth (docs ! i) \<le> json_limit"
  shows "encode_pretty (table_ext docs) (docs ! i) = Inr [char_of i, CHR 0x0A]"
proof -
  have "json_pretty (table_ext docs) (docs ! i) = Some [char_of i]"
    using takeWhile_distinct[OF assms(1,2)] assms(2,3) nth_mem[OF assms(2)] by (simp add: table_functions table_pretty_def)
  then show ?thesis using assms(4,5) by (simp add: encode_pretty_def iffD2[OF reject_floats_iff] good_json_def)
qed

lemma pj_laws: "projection_laws pj_ext"
  by (simp add: pj_ext_def projection_laws_def checkpoint_laws_def table_laws table_json_roundtrip pj_docs_def)

lemma pj_id: "compute_proof_id (table_ext d) = compute_proof_id (table_ext [])"
  by (simp add: fun_eq_iff compute_proof_id_def proof_id_fields_def table_functions)

lemma pj_values:
  "raw_revision_vector_to_value (table_ext d) = raw_revision_vector_to_value (table_ext [])"
  "raw_proof_to_value (table_ext d) = raw_proof_to_value (table_ext [])"
  "raw_proof_vector_to_value (table_ext d) = raw_proof_vector_to_value (table_ext [])"
proof -
  show p: "raw_proof_to_value (table_ext d) = raw_proof_to_value (table_ext [])"
    by (simp add: fun_eq_iff raw_proof_to_value_def revision_ref_to_value_def qualified_to_value_def logical_id_to_value_def table_functions)
  have "entry_to_value (table_ext d) = entry_to_value (table_ext [])"
    by (simp add: fun_eq_iff entry_to_value_def revision_ref_to_value_def logical_id_to_value_def table_functions)
  with p show "raw_revision_vector_to_value (table_ext d) = raw_revision_vector_to_value (table_ext [])"
    "raw_proof_vector_to_value (table_ext d) = raw_proof_vector_to_value (table_ext [])"
    by (intro ext, simp only: raw_revision_vector_to_value_def raw_proof_vector_to_value_def)+
qed

lemma pj_recomputed: "recomputed_proof_id (table_ext d) (pj_proof r) = vp_id (pj_proof r)"
  by (simp add: recomputed_proof_id_def pj_proof_def from_checkpoint_def pj_id[of d])

lemma pj_proof_ok: "proof_ok pj_ext (pj_proof 1)" "proof_ok pj_ext (pj_proof 3)"
proof -
  have "domain_id_from_str ''wayjournal.profile'' = Inr ''wayjournal.profile''" by code_simp
  moreover have "length (compute_proof_id (table_ext []) s r v b t) = 32" for s r v b t
    using table_blake3_length[of "[]"] by (simp add: compute_proof_id_def blake3_length_def)
  ultimately show "proof_ok pj_ext (pj_proof 1)" "proof_ok pj_ext (pj_proof 3)"
    by (simp_all add: proof_ok_def logical_ok_def pj_proof_def from_checkpoint_def pj_subject_def pj_revision_def fed_store_def fed_trust_def
        pj_ext_def uuid_ok_def table_functions demo_uuids_def)
qed

lemma pj_encode:
  "encode_revision_vector pj_ext pj_vector = Inr [CHR 0x00, CHR 0x0A]"
  "encode_verified_proof pj_ext (pj_proof 1) = Inr [CHR 0x01, CHR 0x0A]"
  "encode_proof_vector pj_ext pj_proofs = Inr [CHR 0x02, CHR 0x0A]"
proof -
  have chars: "char_of (0 :: nat) = CHR 0x00" "char_of (1 :: nat) = CHR 0x01" "char_of (2 :: nat) = CHR 0x02" by code_simp+
  have d: "distinct pj_docs" by (simp add: pj_docs_def document_eqs)
  have p: "json_depth (raw_proof_to_value (table_ext []) (raw_of_proof (pj_proof 1))) \<le> json_limit"
    by (simp add: document_depths json_limit_def)
  note enc = table_encode[OF d, of 0] table_encode[OF d, of 1] table_encode[OF d, of 2]
  have e: "encode_pretty pj_ext (pj_docs ! 0) = Inr [CHR 0x00, CHR 0x0A]" "encode_pretty pj_ext (pj_docs ! 1) = Inr [CHR 0x01, CHR 0x0A]"
      "encode_pretty pj_ext (pj_docs ! 2) = Inr [CHR 0x02, CHR 0x0A]"
    unfolding pj_ext_def using enc chars p by (simp_all add: pj_docs_def good_documents document_depths)
  have n: "pj_docs ! 0 = raw_revision_vector_to_value pj_ext \<lparr>rrv_entries = rv_entries pj_vector, rrv_schema = REVISION_VECTOR_SCHEMA_V1\<rparr>"
      "pj_docs ! 1 = raw_proof_to_value pj_ext (raw_of_proof (pj_proof 1))"
      "pj_docs ! 2 = raw_proof_vector_to_value pj_ext \<lparr>rpv_proofs = [raw_of_proof (pj_proof 1)], rpv_schema = PROOF_VECTOR_SCHEMA_V1\<rparr>"
    unfolding pj_ext_def pj_values[of pj_docs] by (simp_all add: pj_docs_def)
  note e = e[unfolded n] and id = pj_recomputed[of pj_docs, folded pj_ext_def]
  show "encode_revision_vector pj_ext pj_vector = Inr [CHR 0x00, CHR 0x0A]"
    using e(1) by (simp add: encode_revision_vector_def validate_revision_entries_def MAX_VECTOR_STORES_def encode_raw_Inr MAX_PROJECTION_BYTES_def pj_vector_def)
  show "encode_verified_proof pj_ext (pj_proof 1) = Inr [CHR 0x01, CHR 0x0A]"
    using e(2) by (simp add: encode_verified_proof_def encode_raw_Inr MAX_PROJECTION_BYTES_def id)
  show "encode_proof_vector pj_ext pj_proofs = Inr [CHR 0x02, CHR 0x0A]"
    using e(3) by (simp add: encode_proof_vector_def pj_proofs_def validate_proofs_def MAX_PROOFS_def encode_raw_Inr MAX_PROJECTION_BYTES_def id)
qed

theorem projection_codec_exact_witness:
  "decode_revision_vector pj_ext [CHR 0x00, CHR 0x0A] = Inr pj_vector \<and>
   decode_verified_proof pj_ext [CHR 0x01, CHR 0x0A] = Inr (pj_proof 1) \<and>
   decode_proof_vector pj_ext [CHR 0x02, CHR 0x0A] = Inr pj_proofs"
proof -
  have "entry_ok_vector pj_ext \<lparr>rve_store = fed_store, rve_revision = pj_revision\<rparr>"
    by (simp add: entry_ok_vector_def logical_ok_def fed_store_def pj_revision_def pj_ext_def uuid_ok_def table_functions demo_uuids_def)
  then have r: "revision_vector_readable pj_ext pj_vector" "proof_readable pj_ext (pj_proof 1)" "proof_vector_readable pj_ext pj_proofs"
    using pj_laws pj_proof_ok by (simp_all add: revision_vector_readable_def proof_readable_def proof_vector_readable_def pj_vector_def pj_proofs_def)
  show ?thesis using projection_codec_exact[OF r] pj_encode by blast
qed

text \<open>The demonstration hash keeps the last 32 bytes only, so it collides on proofs of two records.\<close>

lemma demo_hash_suffix: "32 \<le> length s \<Longrightarrow> demo_hash (a @ s) = demo_hash (b @ s)"
  by (simp add: demo_hash_def)

theorem proof_id_binds_witness:
  "vp_id (pj_proof 1) = vp_id (pj_proof 3) \<and> blake3_collision pj_ext (proof_preimage pj_ext (pj_proof 1)) (proof_preimage pj_ext (pj_proof 3))"
proof -
  have hex: "length (hex_of (replicate 32 c)) = 64" for c using hex_of_spec[of "replicate 32 c"] by simp
  have "vp_id (pj_proof r) = demo_hash (frame (hex_of fed_trust) @ frame (demo_time_text 0))" for r
  proof -
    let ?s = "frame (hex_of fed_trust) @ frame (demo_time_text 0)" and ?fs = "proof_id_fields (table_ext []) pj_subject r pj_revision fed_trust 0"
    have "PROOF_ID_DOMAIN @ concat (map frame ?fs) = (PROOF_ID_DOMAIN @ concat (map frame (take 8 ?fs))) @ ?s"
      by (simp add: proof_id_fields_def table_functions)
    moreover have "32 \<le> length ?s" by (simp add: frame_def fed_trust_def hex)
    ultimately show ?thesis
      using demo_hash_suffix[of ?s "PROOF_ID_DOMAIN @ concat (map frame (take 8 ?fs))" "[]"]
      by (simp add: pj_proof_def from_checkpoint_def compute_proof_id_def fold_frames table_functions)
  qed
  then have same: "vp_id (pj_proof 1) = vp_id (pj_proof 3)" by simp
  have small: "list_all (\<lambda>t. length t < 2 ^ 64) (proof_texts pj_ext (pj_proof 1) @ proof_texts pj_ext (pj_proof 3))"
    by (simp add: proof_texts_def proof_id_fields_def pj_proof_def from_checkpoint_def pj_ext_def table_functions pj_subject_def pj_revision_def
        fed_store_def fed_trust_def hex VERIFIED_PROOF_SCHEMA_V1_def demo_uuid_text_def demo_uuids_def demo_time_text_def REVISION_ALGORITHM_V1_def)
  have ne: "pj_proof 1 \<noteq> pj_proof 3" by (simp add: pj_proof_def from_checkpoint_def)
  note id = pj_recomputed[of pj_docs, folded pj_ext_def, symmetric]
  show ?thesis by (rule conjI[OF same]) (use proof_id_binds[OF pj_laws pj_proof_ok id id small same] ne in blast)
qed

end
