(* ===== verification/Wj_Staging_Examples.thy ===== *)
theory Wj_Staging_Examples
  imports Wj_Staging_Binding Wj_Store_Examples Wj_Projection_Examples
begin

text \<open>The staging properties at the two files of the genesis batch.\<close>

definition demo_additions :: "addition list" where
  "demo_additions = [(demo_manifest_path, [CHR 0x01, CHR 0x0A]), (demo_path, demo_bytes)]"

definition demo_oid :: git_oid where "demo_oid = \<lparr>go_format = Sha1, go_hex = replicate 40 CHR ''a''\<rparr>"

definition demo_document :: pending_document where
  "demo_document =
     \<lparr>pd_schema = PENDING_SCHEMA, pd_operation = demo_uuid_text 1, pd_phase = Prepared,
      pd_store = si_logical demo_identity, pd_trust = replicate 32 CHR ''t'',
      pd_remote = \<lparr>ar_locator = ''https://example.org/journal'', ar_reference = ''refs/heads/main''\<rparr>, pd_format = Sha1,
      pd_original_commit = demo_oid, pd_original_revision = demo_store_revision,
      pd_advance_commit = demo_oid, pd_advance_revision = demo_store_revision, pd_local_tip = demo_oid, pd_remote_tip = demo_oid,
      pd_candidate_commit = demo_oid, pd_candidate_revision = demo_store_revision, pd_candidate_parents = [demo_oid],
      pd_additions_count = 0, pd_additions_bytes = 0, pd_index_digest = blake3_hash demo_ext [], pd_predecessor = None, pd_stale_remote = None\<rparr>"

lemma demo_stageable: "stageable demo_ext demo_additions"
proof -
  have "is_ascii demo_manifest_path" "is_ascii demo_path"
    by (simp_all add: demo_manifest_path_def demo_path_text is_ascii_def)
  moreover have "length demo_path = 114" "length demo_manifest_path = 57" "demo_path \<noteq> []" "demo_manifest_path \<noteq> []"
    by (simp_all add: demo_path_text demo_manifest_path_def)
  moreover have "strictly_ordered (map fst demo_additions)"
    using demo_files_ordered by (simp add: demo_files_def demo_additions_def)
  ultimately show ?thesis
    by (simp add: stageable_def)
      (simp add: demo_additions_def addition_path_ok_def demo_manifest_class demo_path_record is_canonical_def MAX_CANONICAL_PATH_BYTES_def
        MAX_BULK_ADDITIONS_def MAX_CANONICAL_ENTRIES_def MAX_BULK_ADDITION_BYTES_def MAX_TOTAL_CANONICAL_BYTES_def demo_bytes_def)
qed

lemma demo_hash_length: "blake3_length demo_ext" using demo_laws by simp

lemma collect_staged: "try_fold collect_addition acc (map staged as) = Inr (acc @ as)"
  by (induction as arbitrary: acc) (simp_all add: collect_addition_def staged_def)

theorem staged_additions_read_back_witness:
  "\<exists>operation doc. stage_known_additions demo_ext [] demo_document 2 4 demo_additions = Inr (operation, doc) \<and>
     for_each_addition demo_ext collect_addition operation doc [] = Inr demo_additions"
proof -
  have n: "length demo_additions = 2" "content_bytes demo_additions = 4" by (simp_all add: demo_additions_def demo_bytes_def)
  have "bt_get ([] :: directory) ''additions'' = None" by simp
  from staged_additions_read_back[OF demo_stageable demo_hash_length this, of demo_document collect_addition "[]"]
  show ?thesis by (auto simp: n collect_staged)
qed

text \<open>The demonstration hash keeps the last 32 bytes only: two contents that it does not tell apart.\<close>

definition twin_additions :: "char \<Rightarrow> addition list" where
  "twin_additions c = [(demo_path, c # replicate 32 CHR ''x'')]"

definition twin_operation :: "char \<Rightarrow> directory" where
  "twin_operation c = [(''additions'', DirNode (additions_tree demo_ext (twin_additions c)))]"

lemma twin_stageable: "stageable demo_ext (twin_additions c)"
  using demo_stageable by (simp add: stageable_def)
    (simp add: demo_additions_def twin_additions_def MAX_BULK_ADDITIONS_def MAX_CANONICAL_ENTRIES_def MAX_BULK_ADDITION_BYTES_def
      MAX_TOTAL_CANONICAL_BYTES_def)

lemma twin_document: "staged_document demo_ext (twin_additions c) doc = staged_document demo_ext (twin_additions b) doc"
proof -
  have h: "blake3_hash demo_ext (c # replicate 32 CHR ''x'') = blake3_hash demo_ext (b # replicate 32 CHR ''x'')"
    using demo_hash_suffix[of "replicate 32 CHR ''x''" "[c]" "[b]"] by (simp add: demo_functions)
  have "chunks_of (twin_additions a) = 1" "nth_group (twin_additions a) 0 = twin_additions a" for a
    by (simp_all add: chunks_of_def nth_group_def twin_additions_def ADDITIONS_PER_CHUNK_def)
  moreover have "chunk_bytes demo_ext 0 (twin_additions c) = chunk_bytes demo_ext 0 (twin_additions b)"
    using h by (simp add: chunk_bytes_def twin_additions_def metadata_of_def)
  ultimately have "index_bytes demo_ext (twin_additions c) = index_bytes demo_ext (twin_additions b)"
    by (simp add: index_bytes_def index_entries_def index_of_def) (simp add: twin_additions_def)
  then show ?thesis by (simp add: staged_document_def) (simp add: twin_additions_def)
qed

theorem index_digest_binds_witness:
  "for_each_addition demo_ext collect_addition (twin_operation CHR ''a'')
      (staged_document demo_ext (twin_additions CHR ''a'') demo_document) [] = Inr (twin_additions CHR ''a'') \<and>
   for_each_addition demo_ext collect_addition (twin_operation CHR ''b'')
      (staged_document demo_ext (twin_additions CHR ''a'') demo_document) [] = Inr (twin_additions CHR ''b'') \<and>
   staged_collision demo_ext (twin_operation CHR ''a'') (twin_operation CHR ''b'')"
proof -
  have w: "for_each_addition demo_ext collect_addition (twin_operation c) (staged_document demo_ext (twin_additions CHR ''a'') demo_document) [] =
      Inr (twin_additions c)" for c
    using read_staged[OF twin_stageable demo_hash_length, of "twin_operation c" c collect_addition demo_document "[]"]
      collect_staged[of "[]" "twin_additions c"] by (simp add: twin_operation_def twin_document[of "CHR ''a''" demo_document c])
  have "twin_additions CHR ''a'' \<noteq> twin_additions CHR ''b''" by (simp add: twin_additions_def)
  then show ?thesis using w index_digest_binds[OF w w refl] by blast
qed

end
