(* ===== verification/Wj_Residue.thy ===== *)
theory Wj_Residue
  imports Wj_Recovery
begin

text \<open>
  What a recovery leaves of the stages and journals of a store, whatever they were: after a recovery that
  succeeds there are none (\<open>store/transaction.rs\<close>).
\<close>

section \<open>Steps\<close>

definition residue :: "directory \<Rightarrow> directory \<Rightarrow> store_dirs \<Rightarrow> bool" where
  "residue journals stages d \<longleftrightarrow> recovery_dir d = journals \<and> stages_dir d = stages"

definition residue_wf :: "store_dirs \<Rightarrow> bool" where
  "residue_wf d \<longleftrightarrow> bt_wf (recovery_dir d) \<and> bt_wf (stages_dir d)"

lemma runs_on_dir_cases:
  assumes "\<And>d. P d \<Longrightarrow> case f (get d) of Inr e \<Rightarrow> Q (upd (\<lambda>_. e) d) | Inl err \<Rightarrow> E err d"
  shows "runs P (on_dir get upd f) (\<lambda>_. Q) E"
  unfolding runs_def on_dir_def using assms by (fastforce split: sum.splits)

lemma runs_mapM_const: "(\<And>x. x \<in> set xs \<Longrightarrow> runs P (f x) (\<lambda>_. P) E) \<Longrightarrow> runs P (tx_mapM f xs) (\<lambda>_. P) E"
  using runs_mapM[of xs "\<lambda>_. P" f E] by simp

lemma runs_hit_const: "(\<And>e d. P d \<Longrightarrow> E e d) \<Longrightarrow> runs P (hit bar point) (\<lambda>_. P) E"
  by (rule runs_hit) simp

lemma publish_record_residue:
  assumes "\<And>d e. residue j s d \<Longrightarrow> E e d"
  shows "runs (residue j s) (publish_record r) (\<lambda>_. residue j s) E"
proof -
  have on: "runs (residue j s) (on_records f) (\<lambda>_. residue j s) E" for f
    unfolding on_records_def by (rule runs_on_dir_cases) (auto simp: residue_def assms split: sum.splits)
  show ?thesis
    unfolding publish_record_def
    by (auto intro!: runs_then[OF on] on runs_fail assms split: list.splits if_splits)
qed

lemma drop_stage_residue:
  assumes "bt_wf s" "\<And>d e. residue_wf d \<Longrightarrow> E e d" "bt_wf j"
  shows "runs (residue j s) (drop_stage X b) (\<lambda>_. residue j (bt_remove (uuid_to_string X b) s)) E"
proof -
  let ?name = "uuid_to_string X b"
  have E: "E e d" if "recovery_dir d = j" "stages_dir d = t" "bt_wf t" for e d t
    using that assms by (simp add: residue_wf_def)
  have tree: "case remove_tree s ?name 1 of (Inr x, t) \<Rightarrow> t = bt_remove ?name s | (Inl e, t) \<Rightarrow> bt_wf t"
    using assms(1) by (auto simp: remove_tree_def unlink_file_def bt_wf_insert split: sum.splits file_type.splits option.splits node.splits prod.splits)
  have "runs (residue j s) (tx_remove_tree ?name 1) (\<lambda>_. residue j (bt_remove ?name s)) E"
    unfolding runs_def tx_remove_tree_def using tree E
    by (auto simp: residue_def split: prod.splits sum.splits)
  then show ?thesis unfolding drop_stage_def by (rule runs_bind) (simp add: runs_return)
qed

lemma unlink_journal_residue:
  assumes "\<And>d e. residue j s d \<Longrightarrow> E e d"
  shows "runs (residue j s) (on_recovery (\<lambda>d. unlink_file d name)) (\<lambda>_. residue (bt_remove name j) s) E"
  unfolding on_recovery_def
  by (rule runs_on_dir_cases) (auto simp: residue_def unlink_file_def assms split: sum.splits option.splits node.splits)

lemma recover_one_residue:
  assumes "bt_wf j" "bt_wf s" "\<And>d e. residue_wf d \<Longrightarrow> E e d"
  shows "runs (residue j s) (recover_one X J C bar b)
    (\<lambda>_. residue (bt_remove (journal_name X b) j) (bt_remove (uuid_to_string X b) s)) E"
proof -
  let ?j = "bt_remove (journal_name X b) j" and ?s = "bt_remove (uuid_to_string X b) s"
  have E: "E e d" if "residue k t d" "bt_wf k" "bt_wf t" for k t e d using that assms(3) by (simp add: residue_def residue_wf_def)
  have wf: "bt_wf ?j" "bt_wf ?s" using assms by (simp_all add: bt_wf_remove)
  note unlink = unlink_journal_residue[where j = j and s = s and E = E and name = "journal_name X b", OF E[OF _ assms(1,2)]]
  note drop = drop_stage_residue[where j = ?j and s = s and E = E and X = X and b = b, OF assms(2) assms(3) wf(1)]
  have hits: "runs (residue j s) (hit bar p) (\<lambda>_. residue j s) E" "runs (residue ?j s) (hit bar p) (\<lambda>_. residue ?j s) E"
      "runs (residue ?j ?s) (hit bar p) (\<lambda>_. residue ?j ?s) E" for p
    using E[OF _ assms(1,2)] E[OF _ wf(1) assms(2)] E[OF _ wf] by (blast intro: runs_hit_const)+
  note tail = runs_then[OF unlink runs_then[OF hits(2)[of JournalRemoved] runs_then[OF drop hits(3)[of StageRemoved]]]]
  have batches: "runs (residue j s) (on_journal_batches f) (\<lambda>_. residue j s) E" for f
    unfolding on_journal_batches_def using E[OF _ assms(1,2)] by (intro runs_on_dir_cases) (auto simp: residue_def split: sum.splits)
  have recs: "runs (residue j s) (tx_mapM (\<lambda>r. tx_then (publish_record r) (hit bar RecordPublished)) rs) (\<lambda>_. residue j s) E" for rs
    using E[OF _ assms(1,2)] by (intro runs_mapM_const runs_then[OF publish_record_residue] runs_hit_const) auto
  have publish: "runs (residue j s) (publish_staged X bar b t) (\<lambda>_. residue ?j ?s) E" for t
    unfolding publish_staged_def
    by (rule runs_then[OF recs], rule runs_then[OF batches], rule runs_then[OF hits(1)], rule tail)
  have "runs (residue j s) (tx_then (on_recovery (\<lambda>d. unlink_file d (journal_name X b))) (tx_then (drop_stage X b) (tx_fail e))) Q E" for e Q
    using E[OF _ wf] by (intro runs_then[OF unlink] runs_then[OF drop] runs_fail) auto
  then show ?thesis
    unfolding recover_one_def using E[OF _ assms(1,2)] publish
    by (intro runs_bind[where Q = "\<lambda>_. residue j s"] runs_read) (auto intro: runs_fail split: sum.splits)
qed

section \<open>Recovery\<close>

lemma recover_all_residue:
  assumes "bt_wf j" "bt_wf s" "\<And>d e. residue_wf d \<Longrightarrow> E e d"
  shows "runs (residue j s) (tx_mapM (recover_one X J C bar) bs)
    (\<lambda>_. residue (fold (\<lambda>b. bt_remove (journal_name X b)) bs j) (fold (\<lambda>b. bt_remove (uuid_to_string X b)) bs s)) E"
  using assms(1,2)
proof (induction bs arbitrary: j s)
  case (Cons b bs)
  show ?case
    using Cons.IH[of "bt_remove (journal_name X b) j" "bt_remove (uuid_to_string X b) s"] Cons.prems
    by (simp add: bt_wf_remove runs_then[OF recover_one_residue[OF Cons.prems assms(3)]])
qed (simp add: runs_return)

lemma clean_stages_residue:
  assumes "bt_wf s" "bt_wf j" "\<And>d e. residue_wf d \<Longrightarrow> E e d"
  shows "runs (residue j s) (clean_stages names consumed) (\<lambda>_. residue j (fold bt_remove names s)) E"
  using assms(1)
proof (induction names arbitrary: s consumed)
  case (Cons name names)
  have tree: "case remove_tree s name consumed of (Inr x, t) \<Rightarrow> t = bt_remove name s | (Inl e, t) \<Rightarrow> bt_wf t"
    using Cons.prems by (auto simp: remove_tree_def unlink_file_def bt_wf_insert split: sum.splits file_type.splits option.splits node.splits prod.splits)
  have "runs (residue j s) (tx_remove_tree name consumed) (\<lambda>_. residue j (bt_remove name s)) E"
    unfolding runs_def tx_remove_tree_def using tree assms(2,3)
    by (auto simp: residue_def residue_wf_def split: prod.splits sum.splits)
  then show ?case using Cons by (simp add: bt_wf_remove runs_bind)
qed (simp add: runs_return)

lemma bt_remove_all: "bt_wf m \<Longrightarrow> set (bt_keys m) \<subseteq> set names \<Longrightarrow> fold bt_remove names m = []"
proof -
  assume a: "bt_wf m" "set (bt_keys m) \<subseteq> set names"
  have "bt_wf (fold bt_remove names m) \<and> (\<forall>k\<in>set names. bt_get (fold bt_remove names m) k = None) \<and>
      (\<forall>k. bt_get m k = None \<longrightarrow> bt_get (fold bt_remove names m) k = None)"
    using a(1) by (induction names arbitrary: m) (auto simp: bt_wf_remove bt_get_remove)
  then have "bt_get (fold bt_remove names m) k = None" for k
    using a(2) by (metis bt_get_None_iff subsetD)
  then show ?thesis
    unfolding bt_get_None_iff by (simp add: bt_keys_def) (metis list.set_intros(1) neq_Nil_conv image_eqI)
qed

lemma listed_journals_names:
  assumes "listed_journals X d = Inr ids"
  shows "set (bt_keys (recovery_dir d)) \<subseteq> journal_name X ` set ids"
proof
  fix name assume n: "name \<in> set (bt_keys (recovery_dir d))"
  from assms obtain raw where r: "try_map (\<lambda>name.
         if \<not> is_str name then Inl InvalidJournal
         else rbind (dir_kind (recovery_dir d) name) (\<lambda>k.
         if k \<noteq> RegularFile then Inl InvalidJournal
         else rbind (ok_or InvalidJournal (strip_suffix name ''.json'')) (\<lambda>t. map_err (\<lambda>_. InvalidJournal) (batch_id_from_str X t))))
       (sort (bt_keys (recovery_dir d))) = Inr raw" "set ids = set raw"
    by (auto simp: listed_journals_def list_ids_def bounded_names_def rbind_Inr_iff Let_def split: if_splits)
  have "\<exists>b\<in>set raw. name = journal_name X b"
  proof -
    have "name \<in> set (sort (bt_keys (recovery_dir d)))" using n by simp
    then obtain i where i: "i < length (sort (bt_keys (recovery_dir d)))" "sort (bt_keys (recovery_dir d)) ! i = name"
      unfolding in_set_conv_nth by blast
    then have "strip_suffix name ''.json'' = Some t \<and> batch_id_from_str X t = Inr (raw ! i)" if "strip_suffix name ''.json'' = Some t" for t
      using list_all2_nthD[OF r(1)[unfolded try_map_Inr_iff] i(1)] that by (auto simp: rbind_Inr_iff map_err_Inr_iff ok_or_Inr_iff split: if_splits)
    moreover have "strip_suffix name ''.json'' \<noteq> None"
      using list_all2_nthD[OF r(1)[unfolded try_map_Inr_iff] i(1)] i(2) by (auto simp: rbind_Inr_iff map_err_Inr_iff ok_or_Inr_iff split: if_splits)
    ultimately obtain t where "strip_suffix name ''.json'' = Some t" "batch_id_from_str X t = Inr (raw ! i)" by blast
    then have "name = journal_name X (raw ! i)"
      by (auto simp: journal_name_def batch_id_from_str_def parse_uuid_def uuid_to_string_def strip_suffix_Some split: option.splits if_splits)
    moreover have "i < length raw" using i(1) try_map_length[OF r(1)] by simp
    ultimately show ?thesis by (metis nth_mem)
  qed
  then show "name \<in> journal_name X ` set ids" using r(2) by blast
qed

text \<open>A recovery that succeeds leaves no journal and no stage; one that fails leaves well-formed directories.\<close>

lemma recover_locked_residue:
  assumes "residue_wf (tx_dirs s)" "recover_locked X J C bar s = (r, t)"
  shows "residue_wf (tx_dirs t)" "r = Inr () \<Longrightarrow> residue [] [] (tx_dirs t)"
proof -
  let ?j = "recovery_dir (tx_dirs s)" and ?s = "stages_dir (tx_dirs s)" and ?E = "\<lambda>e d. residue_wf d"
  have wf: "bt_wf ?j" "bt_wf ?s" using assms(1) by (simp_all add: residue_wf_def)
  have names: "runs (residue j u) (tx_bind (tx_read (\<lambda>s. bounded_names (stages_dir s) MAX_LOCAL_ENTRIES)) (\<lambda>names. clean_stages names (length names)))
      (\<lambda>_. residue j []) ?E" if "bt_wf j" "bt_wf u" for j u
  proof (rule runs_bind)
    show "runs (residue j u) (tx_read (\<lambda>s. bounded_names (stages_dir s) MAX_LOCAL_ENTRIES))
        (\<lambda>names d. residue j u d \<and> names = sort (bt_keys u)) ?E"
      using that by (intro runs_read) (auto simp: bounded_names_def residue_def residue_wf_def)
    show "runs (\<lambda>d. residue j u d \<and> names = sort (bt_keys u)) (clean_stages names (length names)) (\<lambda>_. residue j []) ?E" for names
    proof (cases "names = sort (bt_keys u)")
      case True
      then have "fold bt_remove names u = []" using that by (intro bt_remove_all) simp_all
      then show ?thesis using clean_stages_residue[OF that(2,1), of ?E names "length names"] True by simp
    qed (simp add: runs_def)
  qed
  have "runs (residue ?j ?s) (recover_locked X J C bar) (\<lambda>_. residue [] []) ?E"
    unfolding recover_locked_def
  proof (rule runs_bind)
    show "runs (residue ?j ?s) (tx_read (listed_journals X)) (\<lambda>ids d. residue ?j ?s d \<and> fold (\<lambda>b. bt_remove (journal_name X b)) ids ?j = []) ?E"
    proof (rule runs_read)
      fix d assume d: "residue ?j ?s d"
      have "fold (\<lambda>b. bt_remove (journal_name X b)) ids ?j = []" if "listed_journals X d = Inr ids" for ids
        using bt_remove_all[OF wf(1), of "map (journal_name X) ids"] listed_journals_names[OF that] d
        by (simp add: residue_def fold_map comp_def)
      then show "case listed_journals X d of Inr ids \<Rightarrow> residue ?j ?s d \<and> fold (\<lambda>b. bt_remove (journal_name X b)) ids ?j = []
          | Inl e \<Rightarrow> residue_wf d"
        using d wf by (auto simp: residue_def residue_wf_def split: sum.splits)
    qed
    show "runs (\<lambda>d. residue ?j ?s d \<and> fold (\<lambda>b. bt_remove (journal_name X b)) ids ?j = [])
        (tx_then (tx_mapM (recover_one X J C bar) ids) clean_unprepared_stages) (\<lambda>_. residue [] []) ?E" for ids
    proof (cases "fold (\<lambda>b. bt_remove (journal_name X b)) ids ?j = []")
      case True
      have u: "bt_wf (fold (\<lambda>b. bt_remove (uuid_to_string X b)) ids u)" if "bt_wf u" for u :: directory
        using that by (induction ids arbitrary: u) (simp_all add: bt_wf_remove)
      have "runs (residue ?j ?s) (tx_then (tx_mapM (recover_one X J C bar) ids) clean_unprepared_stages) (\<lambda>_. residue [] []) ?E"
        unfolding clean_unprepared_stages_def
        using recover_all_residue[OF wf, of ?E X J C bar ids] True names[OF _ u[OF wf(2)], of "[]"] by (auto intro: runs_then)
      then show ?thesis by (rule runs_weaken) simp_all
    qed (simp add: runs_def)
  qed
  from runsD[OF this, of s] assms(2) have "case r of Inr _ \<Rightarrow> residue [] [] (tx_dirs t) | Inl _ \<Rightarrow> residue_wf (tx_dirs t)"
    by (auto simp: residue_def split: sum.splits)
  then show "residue_wf (tx_dirs t)" "r = Inr () \<Longrightarrow> residue [] [] (tx_dirs t)"
    by (auto simp: residue_def residue_wf_def split: sum.splits)
qed

end
