(* ===== verification/Wj_Pending.thy ===== *)
theory Wj_Pending
  imports Wj_Staging Wj_Projection
begin

text \<open>
  The root document of a pending synchronisation and the slots of the pending directory
  (\<open>federation/pending.rs\<close>): the document codec, its publication and replacement, discovery of the slots,
  the gate and the cleanup of disposable slots.
\<close>

section \<open>The document codec\<close>

definition MAX_PENDING_ROOT_BYTES :: nat where "MAX_PENDING_ROOT_BYTES = 64 * 1024"

fun phase_as_str :: "git_sync_pending_phase \<Rightarrow> string" where
  "phase_as_str Prepared = ''prepared''"
| "phase_as_str FilesPublished = ''files_published''"
| "phase_as_str LocalRefPublished = ''local_ref_published''"
| "phase_as_str CheckpointPublished = ''checkpoint_published''"
| "phase_as_str RemoteCasStale = ''remote_cas_stale''"
| "phase_as_str RemoteCasConfirmed = ''remote_cas_confirmed''"

definition phases :: "git_sync_pending_phase list" where
  "phases = [Prepared, FilesPublished, LocalRefPublished, CheckpointPublished, RemoteCasStale, RemoteCasConfirmed]"

definition phase_from_value :: "json \<Rightarrow> git_sync_pending_phase option" where
  "phase_from_value v = (case v of JString s \<Rightarrow> find (\<lambda>p. phase_as_str p = s) phases | _ \<Rightarrow> None)"

definition oid_to_value :: "git_oid \<Rightarrow> json" where
  "oid_to_value oid =
     JObject (bt_of_list [(''format'', JString (git_format_as_str (go_format oid))), (''hex'', JString (go_hex oid))])"

definition oid_from_value :: "ext \<Rightarrow> json \<Rightarrow> git_oid option" where
  "oid_from_value X v =
     (case serde_fields X [(''format'', False), (''hex'', False)] v of
        Some [Some f, Some h] \<Rightarrow>
          (case (de_parse git_format_from_str f, de_string h) of
             (Some f, Some h) \<Rightarrow> (case git_oid_parse f h of Inr oid \<Rightarrow> Some oid | Inl _ \<Rightarrow> None)
           | _ \<Rightarrow> None)
      | _ \<Rightarrow> None)"

definition approved_remote_to_value :: "approved_remote \<Rightarrow> json" where
  "approved_remote_to_value r =
     JObject (bt_of_list [(''locator'', JString (ar_locator r)), (''reference'', JString (ar_reference r))])"

definition approved_remote_from_value :: "ext \<Rightarrow> (string \<Rightarrow> url option) \<Rightarrow> json \<Rightarrow> approved_remote option" where
  "approved_remote_from_value X U v =
     (case serde_fields X [(''locator'', False), (''reference'', False)] v of
        Some [Some l, Some r] \<Rightarrow>
          (case (de_parse (approved_locator_parse U) l, de_parse approved_ref_parse r) of
             (Some l, Some r) \<Rightarrow> Some \<lparr>ar_locator = l, ar_reference = r\<rparr>
           | _ \<Rightarrow> None)
      | _ \<Rightarrow> None)"

definition operation_id_from_value :: "ext \<Rightarrow> json \<Rightarrow> git_sync_operation_id option" where
  "operation_id_from_value X v = Option.bind (de_string v) (operation_id_from_str X)"

definition option_to_value :: "('a \<Rightarrow> json) \<Rightarrow> 'a option \<Rightarrow> json" where
  "option_to_value f x = (case x of None \<Rightarrow> JNull | Some y \<Rightarrow> f y)"

definition de_u64 :: "json \<Rightarrow> nat option" where
  "de_u64 v = (case v of JNumber (PosInt n) \<Rightarrow> Some n | _ \<Rightarrow> None)"

text \<open>The fields in declaration order; the derived visitor reads a missing \<open>Option\<close> field of an object as \<open>None\<close>.\<close>

definition pending_fields :: "(string \<times> bool) list" where
  "pending_fields =
     [(''schema'', False), (''operation_id'', False), (''phase'', False), (''logical_store_id'', False),
      (''local_trust_binding'', False), (''approved_remote'', False), (''object_format'', False),
      (''original_base_commit'', False), (''original_base_revision'', False), (''advance_from_commit'', False),
      (''advance_from_revision'', False), (''observed_local_tip'', False), (''expected_remote_tip'', False),
      (''candidate_commit'', False), (''candidate_revision'', False), (''candidate_parents'', False),
      (''additions_count'', False), (''additions_total_bytes'', False), (''additions_index_digest'', False),
      (''predecessor_operation_id'', True), (''stale_remote_oid'', True)]"

definition pending_values :: "ext \<Rightarrow> pending_document \<Rightarrow> json list" where
  "pending_values X d =
     [JString (pd_schema d), JString (pd_operation d), JString (phase_as_str (pd_phase d)), logical_id_to_value X (pd_store d),
      JString (digest_to_string X (pd_trust d)), approved_remote_to_value (pd_remote d), JString (git_format_as_str (pd_format d)),
      oid_to_value (pd_original_commit d), revision_ref_to_value X (pd_original_revision d), oid_to_value (pd_advance_commit d),
      revision_ref_to_value X (pd_advance_revision d), oid_to_value (pd_local_tip d), oid_to_value (pd_remote_tip d),
      oid_to_value (pd_candidate_commit d), revision_ref_to_value X (pd_candidate_revision d),
      JArray (map oid_to_value (pd_candidate_parents d)), JNumber (PosInt (pd_additions_count d)), JNumber (PosInt (pd_additions_bytes d)),
      JString (digest_to_string X (pd_index_digest d)), option_to_value JString (pd_predecessor d),
      option_to_value oid_to_value (pd_stale_remote d)]"

definition pending_to_value :: "ext \<Rightarrow> pending_document \<Rightarrow> json" where
  "pending_to_value X d = JObject (bt_of_list (zip (map fst pending_fields) (pending_values X d)))"

definition pending_from_fields :: "ext \<Rightarrow> (string \<Rightarrow> url option) \<Rightarrow> json option list \<Rightarrow> pending_document option" where
  "pending_from_fields X U fs =
     (let req = (\<lambda>i. fs ! i) in
      Option.bind (Option.bind (req 0) de_string) (\<lambda>schema.
      Option.bind (Option.bind (req 1) (operation_id_from_value X)) (\<lambda>operation.
      Option.bind (Option.bind (req 2) phase_from_value) (\<lambda>phase.
      Option.bind (Option.bind (req 3) (logical_id_from_value X)) (\<lambda>store.
      Option.bind (Option.bind (req 4) (de_parse (local_trust_parse X))) (\<lambda>trust.
      Option.bind (Option.bind (req 5) (approved_remote_from_value X U)) (\<lambda>remote.
      Option.bind (Option.bind (req 6) (de_parse git_format_from_str)) (\<lambda>format.
      Option.bind (Option.bind (req 7) (oid_from_value X)) (\<lambda>original_commit.
      Option.bind (Option.bind (req 8) (revision_ref_from_value X)) (\<lambda>original_revision.
      Option.bind (Option.bind (req 9) (oid_from_value X)) (\<lambda>advance_commit.
      Option.bind (Option.bind (req 10) (revision_ref_from_value X)) (\<lambda>advance_revision.
      Option.bind (Option.bind (req 11) (oid_from_value X)) (\<lambda>local_tip.
      Option.bind (Option.bind (req 12) (oid_from_value X)) (\<lambda>remote_tip.
      Option.bind (Option.bind (req 13) (oid_from_value X)) (\<lambda>candidate_commit.
      Option.bind (Option.bind (req 14) (revision_ref_from_value X)) (\<lambda>candidate_revision.
      Option.bind (Option.bind (req 15) (de_list (oid_from_value X))) (\<lambda>candidate_parents.
      Option.bind (Option.bind (req 16) de_u64) (\<lambda>additions_count.
      Option.bind (Option.bind (req 17) de_u64) (\<lambda>additions_bytes.
      Option.bind (Option.bind (req 18) (de_parse (digest_parse X))) (\<lambda>index_digest.
      Option.bind (de_option (operation_id_from_value X) (req 19)) (\<lambda>predecessor.
      Option.bind (de_option (oid_from_value X) (req 20)) (\<lambda>stale_remote.
      Some \<lparr>pd_schema = schema, pd_operation = operation, pd_phase = phase, pd_store = store, pd_trust = trust, pd_remote = remote,
            pd_format = format, pd_original_commit = original_commit, pd_original_revision = original_revision,
            pd_advance_commit = advance_commit, pd_advance_revision = advance_revision, pd_local_tip = local_tip,
            pd_remote_tip = remote_tip, pd_candidate_commit = candidate_commit, pd_candidate_revision = candidate_revision,
            pd_candidate_parents = candidate_parents, pd_additions_count = additions_count, pd_additions_bytes = additions_bytes,
            pd_index_digest = index_digest, pd_predecessor = predecessor, pd_stale_remote = stale_remote\<rparr>))))))))))))))))))))))"

text \<open>A positional form must have every field.\<close>

definition pending_from_value :: "ext \<Rightarrow> (string \<Rightarrow> url option) \<Rightarrow> json \<Rightarrow> pending_document option" where
  "pending_from_value X U v =
     (case serde_fields X pending_fields v of
        None \<Rightarrow> None
      | Some fs \<Rightarrow>
          if (case v of JArray vs \<Rightarrow> length vs \<noteq> length pending_fields | _ \<Rightarrow> False) \<or> length fs \<noteq> length pending_fields then None
          else pending_from_fields X U fs)"

definition encode_document :: "ext \<Rightarrow> pending_document \<Rightarrow> pending_error + bytes" where
  "encode_document X d =
     rbind (pending_document_validate d) (\<lambda>_.
     rbind (map_err (\<lambda>_. PendingInvalid) (encode_pretty X (pending_to_value X d))) (\<lambda>bs.
     if MAX_PENDING_ROOT_BYTES < length bs then Inl PendingOversized else Inr bs))"

definition decode_document :: "ext \<Rightarrow> (string \<Rightarrow> url option) \<Rightarrow> bytes \<Rightarrow> pending_error + pending_document" where
  "decode_document X U bs =
     (if MAX_PENDING_ROOT_BYTES < length bs then Inl PendingOversized
      else rbind (map_err (\<lambda>_. PendingInvalid) (decode_strict X bs)) (\<lambda>v.
      rbind (ok_or PendingInvalid (pending_from_value X U v)) (\<lambda>d.
      rbind (pending_document_validate d) (\<lambda>_.
      rbind (map_err (\<lambda>_. PendingInvalid) (encode_pretty X v)) (\<lambda>canonical.
      if canonical \<noteq> bs then Inl PendingInvalid else Inr d)))))"

section \<open>Reading a document back\<close>

definition oid_ok :: "git_oid \<Rightarrow> bool" where
  "oid_ok oid \<longleftrightarrow> git_oid_parse (go_format oid) (go_hex oid) = Inr oid"

definition document_ok :: "ext \<Rightarrow> (string \<Rightarrow> url option) \<Rightarrow> pending_document \<Rightarrow> bool" where
  "document_ok X U d \<longleftrightarrow>
     operation_id_from_str X (pd_operation d) = Some (pd_operation d) \<and> logical_ok X (pd_store d) \<and> length (pd_trust d) = 32 \<and>
     approved_locator_parse U (ar_locator (pd_remote d)) = Inr (ar_locator (pd_remote d)) \<and>
     approved_ref_parse (ar_reference (pd_remote d)) = Inr (ar_reference (pd_remote d)) \<and>
     list_all oid_ok ([pd_original_commit d, pd_advance_commit d, pd_local_tip d, pd_remote_tip d, pd_candidate_commit d] @
       pd_candidate_parents d) \<and>
     list_all (\<lambda>r. length (sr_digest r) = 32) [pd_original_revision d, pd_advance_revision d, pd_candidate_revision d] \<and>
     length (pd_index_digest d) = 32 \<and>
     (case pd_predecessor d of None \<Rightarrow> True | Some p \<Rightarrow> operation_id_from_str X p = Some p) \<and>
     (case pd_stale_remote d of None \<Rightarrow> True | Some oid \<Rightarrow> oid_ok oid)"

lemma phase_read: "phase_from_value (JString (phase_as_str p)) = Some p"
  by (cases p) (simp_all add: phase_from_value_def phases_def)

lemma pending_values_eqs:
  "oid_to_value oid = JObject [(''format'', JString (git_format_as_str (go_format oid))), (''hex'', JString (go_hex oid))]"
  "approved_remote_to_value r = JObject [(''locator'', JString (ar_locator r)), (''reference'', JString (ar_reference r))]"
  by (simp_all add: oid_to_value_def approved_remote_to_value_def bt_of_list_def less_char_def)

lemma pending_values_good:
  "good_json (oid_to_value oid)" "good_json (approved_remote_to_value r)"
  by (simp_all add: pending_values_eqs less_char_def)

lemma pending_parts_read:
  assumes "projection_laws X"
  shows "oid_ok oid \<Longrightarrow> oid_from_value X (oid_to_value oid) = Some oid"
    and "approved_locator_parse U (ar_locator r) = Inr (ar_locator r) \<Longrightarrow> approved_ref_parse (ar_reference r) = Inr (ar_reference r) \<Longrightarrow>
      approved_remote_from_value X U (approved_remote_to_value r) = Some r"
proof -
  note law = projection_lawsD(4)[OF assms]
  note obj = serde_object[OF law pending_values_good(1)[unfolded pending_values_eqs]] serde_object[OF law pending_values_good(2)[unfolded pending_values_eqs]]
  show "oid_ok oid \<Longrightarrow> oid_from_value X (oid_to_value oid) = Some oid"
    by (simp add: pending_values_eqs oid_from_value_def obj struct_of_object_def de_format de_string_def oid_ok_def)
  show "approved_locator_parse U (ar_locator r) = Inr (ar_locator r) \<Longrightarrow> approved_ref_parse (ar_reference r) = Inr (ar_reference r) \<Longrightarrow>
      approved_remote_from_value X U (approved_remote_to_value r) = Some r"
    by (simp add: pending_values_eqs approved_remote_from_value_def obj struct_of_object_def de_parse_def de_string_def)
qed

lemma pending_names: "distinct (map fst pending_fields)" "length pending_fields = 21" "length (pending_values X d) = 21"
  by (simp_all add: pending_fields_def pending_values_def)

lemma object_of_list_good:
  assumes "distinct (map fst kvs)" "\<forall>v\<in>snd ` set kvs. good_json v \<and> json_depth v \<le> n"
  shows "good_json (JObject (bt_of_list kvs))" "json_depth (JObject (bt_of_list kvs)) \<le> Suc n"
proof -
  have s: "set (bt_of_list kvs) = set kvs" by (rule set_bt_of_list[OF assms(1)])
  show "good_json (JObject (bt_of_list kvs))" using assms(2) by (auto simp: bt_wf_of_list list_all_iff s)
  have "fold max (map (\<lambda>kv. json_depth (snd kv)) (bt_of_list kvs)) 0 \<le> n"
    using assms(2) by (intro fold_max_map_le) (auto simp: s)
  then show "json_depth (JObject (bt_of_list kvs)) \<le> Suc n" by simp
qed

lemma pending_value_good: "good_json (pending_to_value X d)" "json_depth (pending_to_value X d) \<le> json_limit"
proof -
  have num: "good_json (JNumber (PosInt n))" for n by (simp add: good_json_def)
  have oid: "json_depth (oid_to_value oid) = 1" for oid by (simp add: pending_values_eqs)
  have parents: "fold max (map json_depth (map oid_to_value oids)) 0 \<le> 1" for oids
    unfolding map_map by (intro fold_max_map_le) (simp_all add: oid)
  have opt: "good_json (option_to_value f x)" "json_depth (option_to_value f x) \<le> 1"
    if "\<And>y. good_json (f y) \<and> json_depth (f y) \<le> 1" for f and x :: "'x option"
    using that by (cases x; simp add: option_to_value_def)+
  have "\<forall>v\<in>set (pending_values X d). good_json v \<and> json_depth v \<le> 3"
    using parents[of "pd_candidate_parents d"] opt[of JString "pd_predecessor d"] opt[of oid_to_value "pd_stale_remote d"]
    by (simp add: pending_values_def good_documents pending_values_good num oid list_all_iff) (simp add: document_eqs pending_values_eqs)
  then have "\<forall>v\<in>snd ` set (zip (map fst pending_fields) (pending_values X d)). good_json v \<and> json_depth v \<le> 3"
    by (auto dest: set_zip_rightD)
  moreover have "distinct (map fst (zip (map fst pending_fields) (pending_values X d)))"
    using pending_names by (simp add: map_fst_zip)
  ultimately have "good_json (JObject (bt_of_list (zip (map fst pending_fields) (pending_values X d))))"
      "json_depth (JObject (bt_of_list (zip (map fst pending_fields) (pending_values X d)))) \<le> Suc 3"
    by (rule object_of_list_good[rotated])+
  then show "good_json (pending_to_value X d)" "json_depth (pending_to_value X d) \<le> json_limit"
    unfolding pending_to_value_def json_limit_def by linarith+
qed

lemma map_of_zip_values: "distinct ks \<Longrightarrow> length ks = length vs \<Longrightarrow> map (map_of (zip ks vs)) ks = map Some vs"
  by (rule nth_equalityI) (simp_all add: map_of_zip_nth)

lemma pending_fields_read:
  assumes "serde_object_law X"
  shows "serde_fields X pending_fields (pending_to_value X d) = Some (map Some (pending_values X d))"
proof -
  let ?z = "zip (map fst pending_fields) (pending_values X d)"
  have d: "distinct (map fst ?z)" and len: "length (map fst pending_fields) = length (pending_values X d)"
    using pending_names by (simp_all add: map_fst_zip)
  have get: "map_of (bt_of_list ?z) = map_of ?z" using bt_get_of_list[OF d] by (simp add: bt_get_map_of)
  have keys: "fst ` set (bt_of_list ?z) = fst ` set pending_fields"
    unfolding set_bt_of_list[OF d] set_map[symmetric] using len by (simp only: map_fst_zip)
  have vals: "map (map_of ?z) (map fst pending_fields) = map Some (pending_values X d)"
    using pending_names(1) len by (rule map_of_zip_values)
  have dom: "map_of ?z f \<noteq> None" if "(f, b) \<in> set pending_fields" for f b
  proof -
    have "f \<in> dom (map_of ?z)" using that unfolding dom_map_of_zip[OF len] by force
    then show ?thesis by (simp add: domIff)
  qed
  have "list_all (\<lambda>(f, dflt). dflt \<or> map_of ?z f \<noteq> None) pending_fields"
    unfolding list_all_iff using dom by blast
  moreover have "list_all (\<lambda>kv. fst kv \<in> set (map fst pending_fields)) (bt_of_list ?z)"
    unfolding list_all_iff using keys by auto
  moreover have "map (\<lambda>(f, _). map_of ?z f) pending_fields = map Some (pending_values X d)"
    using vals by (simp add: comp_def case_prod_beta')
  ultimately show ?thesis
    using serde_object[OF assms pending_value_good(1)[of X d, unfolded pending_to_value_def] pending_names(1)]
    unfolding pending_to_value_def struct_of_object_def get by simp
qed

lemma pending_read:
  assumes "projection_laws X" "document_ok X U d"
  shows "pending_from_value X U (pending_to_value X d) = Some d"
proof -
  note parts = pending_parts_read[OF assms(1)] and docs = documents_read[OF assms(1)] and texts = parse_texts[OF assms(1)]
  have ok: "operation_id_from_str X (pd_operation d) = Some (pd_operation d)" "logical_ok X (pd_store d)" "length (pd_trust d) = 32"
      "approved_locator_parse U (ar_locator (pd_remote d)) = Inr (ar_locator (pd_remote d))"
      "approved_ref_parse (ar_reference (pd_remote d)) = Inr (ar_reference (pd_remote d))"
      "oid_ok (pd_original_commit d)" "oid_ok (pd_advance_commit d)" "oid_ok (pd_local_tip d)" "oid_ok (pd_remote_tip d)"
      "oid_ok (pd_candidate_commit d)" "list_all oid_ok (pd_candidate_parents d)"
      "length (sr_digest (pd_original_revision d)) = 32" "length (sr_digest (pd_advance_revision d)) = 32"
      "length (sr_digest (pd_candidate_revision d)) = 32" "length (pd_index_digest d) = 32"
    using assms(2) by (simp_all add: document_ok_def)
  have par: "de_list (oid_from_value X) (JArray (map oid_to_value (pd_candidate_parents d))) = Some (pd_candidate_parents d)"
    using ok(11) parts(1) by (intro de_list_map) (simp add: list_all_iff)
  have pre: "de_option (operation_id_from_value X) (Some (option_to_value JString (pd_predecessor d))) = Some (pd_predecessor d)"
    using assms(2) by (cases "pd_predecessor d") (simp_all add: document_ok_def de_option_def option_to_value_def operation_id_from_value_def de_string_def)
  have stale: "de_option (oid_from_value X) (Some (option_to_value oid_to_value (pd_stale_remote d))) = Some (pd_stale_remote d)"
    using assms(2) parts(1)
    by (cases "pd_stale_remote d") (simp_all add: document_ok_def de_option_def option_to_value_def pending_values_eqs)
  have "pending_from_fields X U (map Some (pending_values X d)) = Some d"
    using ok par pre stale
    by (simp add: pending_from_fields_def pending_values_def operation_id_from_value_def de_string_def phase_read docs parts texts
        local_trust_parse_def de_format de_u64_def de_parse_def git_format_roundtrip)
  then show ?thesis
    using pending_fields_read[OF projection_lawsD(4)[OF assms(1)], of d] pending_names
    by (simp add: pending_from_value_def pending_to_value_def)
qed

lemma pending_validate_Inr:
  "pending_document_validate d = Inr () \<longleftrightarrow>
   pd_schema d = PENDING_SCHEMA \<and> pd_additions_count d \<le> MAX_BULK_ADDITIONS \<and> pd_additions_bytes d \<le> MAX_BULK_ADDITION_BYTES \<and>
   is_ok (chunk_count (pd_additions_count d)) \<and>
   list_all (\<lambda>oid. go_format oid = pd_format d)
     ([pd_original_commit d, pd_advance_commit d, pd_local_tip d, pd_remote_tip d, pd_candidate_commit d] @
      pd_candidate_parents d @ (case pd_stale_remote d of None \<Rightarrow> [] | Some oid \<Rightarrow> [oid])) \<and>
   pd_candidate_parents d \<noteq> [] \<and> strictly_ordered (map oid_key (pd_candidate_parents d)) \<and>
   (pd_phase d = RemoteCasStale \<longrightarrow> pd_stale_remote d \<noteq> None) \<and> (pd_phase d = RemoteCasConfirmed \<longrightarrow> pd_stale_remote d = None)"
  unfolding pending_document_validate_def validate_addition_totals_def if_Inr_iff rbind_Inr_iff is_ok_iff list_ex_iff list_all_iff not_less
  by (simp only: sum.inject simp_thms ex_simps bex_simps de_Morgan_disj de_Morgan_conj not_not conj_assoc imp_conv_disj)

text \<open>The constructor: it sorts the parents and removes duplicates; the totals are those of no additions.\<close>

definition pending_document_new ::
  "ext \<Rightarrow> git_sync_operation_id \<Rightarrow> git_sync_pending_phase \<Rightarrow> logical_store_id \<Rightarrow> local_trust_binding \<Rightarrow> approved_remote \<Rightarrow>
   git_object_format \<Rightarrow> git_oid \<times> store_revision_ref \<Rightarrow> git_oid \<times> store_revision_ref \<Rightarrow> git_oid \<Rightarrow> git_oid \<Rightarrow>
   git_oid \<times> store_revision_ref \<Rightarrow> git_oid list \<Rightarrow> git_sync_operation_id option \<Rightarrow> pending_document" where
  "pending_document_new X operation phase store trust remote format original advance local_tip remote_tip candidate parents predecessor =
     \<lparr>pd_schema = PENDING_SCHEMA, pd_operation = operation, pd_phase = phase, pd_store = store, pd_trust = trust, pd_remote = remote,
      pd_format = format, pd_original_commit = fst original, pd_original_revision = snd original,
      pd_advance_commit = fst advance, pd_advance_revision = snd advance, pd_local_tip = local_tip, pd_remote_tip = remote_tip,
      pd_candidate_commit = fst candidate, pd_candidate_revision = snd candidate,
      pd_candidate_parents = remdups_adj (sort_key oid_key parents), pd_additions_count = 0, pd_additions_bytes = 0,
      pd_index_digest = blake3_hash X [], pd_predecessor = predecessor, pd_stale_remote = None\<rparr>"

lemma oid_key_inj: "oid_key a = oid_key b \<longleftrightarrow> a = b"
  by (cases a; cases b) (auto simp: oid_key_def split: git_object_format.splits)

lemma remdups_adj_ordered: "sorted (map oid_key oids) \<Longrightarrow> sorted_wrt (<) (map oid_key (remdups_adj oids))"
proof (induction oids rule: remdups_adj.induct)
  case (3 x y oids)
  have "oid_key x < oid_key z" if "x \<noteq> y" "z \<in> set (y # oids)" for z
    using that "3.prems" oid_key_inj[of x y] by auto
  then show ?case using 3 by auto
qed auto

text \<open>A new document is valid exactly when its object names have its format, there is a parent and it is not stale.\<close>

lemma pending_document_new_valid:
  "pending_document_validate (pending_document_new X operation phase store trust remote format original advance local_tip remote_tip
     candidate parents predecessor) = Inr () \<longleftrightarrow>
   list_all (\<lambda>oid. go_format oid = format) ([fst original, fst advance, local_tip, remote_tip, fst candidate] @ parents) \<and>
   parents \<noteq> [] \<and> phase \<noteq> RemoteCasStale"
proof -
  have "remdups_adj (sort_key oid_key parents) = [] \<longleftrightarrow> parents = []"
    by (metis list.set(1) remdups_adj_set set_empty set_sort)
  moreover have "sorted_wrt (<) (map oid_key (remdups_adj (sort_key oid_key parents)))" by (rule remdups_adj_ordered) simp
  moreover have "is_ok (chunk_count 0)" by (simp add: is_ok_def chunk_count_def ADDITIONS_PER_CHUNK_def)
  ultimately show ?thesis
    unfolding pending_validate_Inr by (auto simp: pending_document_new_def strictly_ordered_iff list_all_iff)
qed

text \<open>
  C31: The pending document. A well-formed document that encodes decodes to itself; whatever decodes is within
  the size limit, all its object names (base, advance, local and remote tip, candidate, its parents and the
  stale remote) have the object format of the document, it has ordered parents and additions within the bounds of a
  store, and carries the stale remote exactly as its phase demands.
\<close>

theorem pending_document_codec:
  assumes "projection_laws X"
  shows "(document_ok X U d \<and> encode_document X d = Inr bs \<longrightarrow> decode_document X U bs = Inr d) \<and>
    (decode_document X U bs = Inr d \<longrightarrow>
       length bs \<le> MAX_PENDING_ROOT_BYTES \<and> pd_schema d = PENDING_SCHEMA \<and>
       pd_additions_count d \<le> MAX_BULK_ADDITIONS \<and> pd_additions_bytes d \<le> MAX_BULK_ADDITION_BYTES \<and>
       list_all (\<lambda>oid. go_format oid = pd_format d)
         ([pd_original_commit d, pd_advance_commit d, pd_local_tip d, pd_remote_tip d, pd_candidate_commit d] @
          pd_candidate_parents d @ (case pd_stale_remote d of None \<Rightarrow> [] | Some oid \<Rightarrow> [oid])) \<and>
       pd_candidate_parents d \<noteq> [] \<and> strictly_ordered (map oid_key (pd_candidate_parents d)) \<and>
       (pd_phase d = RemoteCasStale \<longrightarrow> pd_stale_remote d \<noteq> None) \<and> (pd_phase d = RemoteCasConfirmed \<longrightarrow> pd_stale_remote d = None))"
proof (intro conjI[of "_ \<longrightarrow> _"] impI; (elim conjE)?)
  assume "document_ok X U d" and e: "encode_document X d = Inr bs"
  have enc: "pending_document_validate d = Inr ()" "encode_pretty X (pending_to_value X d) = Inr bs" "length bs \<le> MAX_PENDING_ROOT_BYTES"
    using e by (auto simp: encode_document_def rbind_Inr_iff map_err_Inr_iff split: if_splits)
  have "decode_strict X bs = Inr (pending_to_value X d)"
    using projection_lawsD(3)[OF assms] pending_value_good enc(2) by (rule decode_encode_pretty)
  then show "decode_document X U bs = Inr d"
    using enc pending_read[OF assms \<open>document_ok X U d\<close>] by (simp add: decode_document_def)
next
  assume "decode_document X U bs = Inr d"
  then have "length bs \<le> MAX_PENDING_ROOT_BYTES" "pending_document_validate d = Inr ()"
    by (auto simp: decode_document_def rbind_Inr_iff split: if_splits)
  then show "length bs \<le> MAX_PENDING_ROOT_BYTES \<and> pd_schema d = PENDING_SCHEMA \<and>
       pd_additions_count d \<le> MAX_BULK_ADDITIONS \<and> pd_additions_bytes d \<le> MAX_BULK_ADDITION_BYTES \<and>
       list_all (\<lambda>oid. go_format oid = pd_format d)
         ([pd_original_commit d, pd_advance_commit d, pd_local_tip d, pd_remote_tip d, pd_candidate_commit d] @
          pd_candidate_parents d @ (case pd_stale_remote d of None \<Rightarrow> [] | Some oid \<Rightarrow> [oid])) \<and>
       pd_candidate_parents d \<noteq> [] \<and> strictly_ordered (map oid_key (pd_candidate_parents d)) \<and>
       (pd_phase d = RemoteCasStale \<longrightarrow> pd_stale_remote d \<noteq> None) \<and> (pd_phase d = RemoteCasConfirmed \<longrightarrow> pd_stale_remote d = None)"
    unfolding pending_validate_Inr by blast
qed

end
