(* ===== verification/Wj_Gate.thy ===== *)
theory Wj_Gate
  imports Wj_Pending
begin

text \<open>
  The pending directory (\<open>federation/pending.rs\<close>): its slots, the gate that keeps other operations out
  while a synchronisation is pending, and the removal of disposable slots. An operation returns its result
  and the directory it leaves, also when it fails; the fault points of the source may end the process.
\<close>

section \<open>Operations\<close>

type_synonym 'a pd = "directory \<Rightarrow> (pending_error + 'a) \<times> directory"

definition pd_bind :: "'a pd \<Rightarrow> ('a \<Rightarrow> 'b pd) \<Rightarrow> 'b pd" where
  "pd_bind m f = (\<lambda>d. case m d of (Inl e, d) \<Rightarrow> (Inl e, d) | (Inr x, d) \<Rightarrow> f x d)"

definition pd_return :: "'a \<Rightarrow> 'a pd" where "pd_return x = (\<lambda>d. (Inr x, d))"

definition pd_fail :: "pending_error \<Rightarrow> 'a pd" where "pd_fail e = (\<lambda>d. (Inl e, d))"

definition pd_read :: "(directory \<Rightarrow> pending_error + 'a) \<Rightarrow> 'a pd" where "pd_read f = (\<lambda>d. (f d, d))"

definition pd_step :: "(directory \<Rightarrow> pending_error + directory) \<Rightarrow> unit pd" where
  "pd_step f = (\<lambda>d. case f d of Inl e \<Rightarrow> (Inl e, d) | Inr d \<Rightarrow> (Inr (), d))"

definition pd_store_step :: "(directory \<Rightarrow> store_error + directory) \<Rightarrow> unit pd" where
  "pd_store_step f = pd_step (\<lambda>d. map_err PendingStore (f d))"

definition pd_hit :: "(string \<Rightarrow> bool) \<Rightarrow> string \<Rightarrow> unit pd" where
  "pd_hit fault point = (if fault point then pd_fail (PendingExit point) else pd_return ())"

section \<open>The root document of a slot\<close>

definition create_operation :: "git_sync_operation_id \<Rightarrow> unit pd" where
  "create_operation oid =
     pd_bind (pd_read (\<lambda>d. map_err PendingStore (ensure_dir d oid))) (\<lambda>(d, _, created).
     if \<not> created then pd_fail PendingInvalid else pd_step (\<lambda>_. Inr d))"

definition publish_document :: "ext \<Rightarrow> (string \<Rightarrow> bool) \<Rightarrow> pending_document \<Rightarrow> unit pd" where
  "publish_document X fault doc =
     pd_bind (pd_read (\<lambda>_. encode_document X doc)) (\<lambda>bs.
     pd_bind (pd_step (\<lambda>d. write_new d ''pending.json'' bs)) (\<lambda>_.
     pd_hit fault ''pending-root-file-durable''))"

text \<open>\<open>now_v7\<close> is a fresh UUID of the \<open>uuid\<close> crate, an argument here.\<close>

definition pending_temporary :: "ext \<Rightarrow> uuid \<Rightarrow> string" where
  "pending_temporary X now_v7 = ''.pending.tmp-'' @ uuid_to_string X now_v7"

definition replace_document :: "ext \<Rightarrow> (string \<Rightarrow> bool) \<Rightarrow> uuid \<Rightarrow> pending_document \<Rightarrow> pending_document pd" where
  "replace_document X fault now_v7 doc =
     pd_bind (pd_read (\<lambda>_. encode_document X doc)) (\<lambda>bs.
     pd_bind (pd_step (\<lambda>d. write_new d (pending_temporary X now_v7) bs)) (\<lambda>_.
     pd_bind (pd_hit fault ''phase-temporary-durable'') (\<lambda>_.
     pd_bind (pd_store_step (\<lambda>d. rename_file d (pending_temporary X now_v7) ''pending.json'')) (\<lambda>_.
     pd_bind (pd_hit fault ''phase-renamed'') (\<lambda>_.
     pd_bind (pd_hit fault ''phase-parent-durable'') (\<lambda>_.
     pd_bind (pd_read (\<lambda>d. rbind (map_err PendingStore (open_file d ''pending.json'')) (\<lambda>f.
       map_err PendingStore (read_file_bounded (snd f) MAX_PENDING_ROOT_BYTES)))) (\<lambda>current.
     if current \<noteq> bs then pd_fail PendingInvalid else pd_return doc)))))))"

section \<open>The closed layout of a slot\<close>

fun clean_layout :: "ext \<Rightarrow> string list \<Rightarrow> unit pd" where
  "clean_layout X [] = pd_return ()"
| "clean_layout X (name # names) =
     (if name \<in> {''additions'', ''pending.json'', ''repo.git''} then clean_layout X names
      else if \<not> is_str name then pd_fail PendingInvalid
      else case strip_prefix name ''.pending.tmp-'' of
        None \<Rightarrow> pd_fail PendingInvalid
      | Some suffix \<Rightarrow>
          (case uuid_parse_str X suffix of
             None \<Rightarrow> pd_fail PendingInvalid
           | Some u \<Rightarrow>
               pd_bind (if uuid_version_num X u \<noteq> 7 \<or> \<not> uuid_is_rfc4122 X u then pd_fail PendingInvalid
                        else pd_read (\<lambda>d. map_err PendingStore (dir_kind d name))) (\<lambda>k.
               if k \<noteq> RegularFile then pd_fail PendingInvalid
               else pd_bind (pd_store_step (\<lambda>d. unlink_file d name)) (\<lambda>_. clean_layout X names))))"

definition require_directory :: "string \<Rightarrow> unit pd" where
  "require_directory name =
     pd_bind (pd_read (\<lambda>d. map_err PendingStore (dir_kind d name))) (\<lambda>k.
     if k \<noteq> DirectoryType then pd_fail PendingInvalid else pd_return ())"

definition validate_closed_layout :: "ext \<Rightarrow> unit pd" where
  "validate_closed_layout X =
     pd_bind (pd_read (\<lambda>d. map_err PendingStore (bounded_names d 4))) (\<lambda>names.
     pd_bind (clean_layout X names) (\<lambda>_.
     pd_bind (pd_read (\<lambda>d. require_exact_owned_names d [''additions'', ''pending.json'', ''repo.git''])) (\<lambda>_.
     pd_bind (require_directory ''additions'') (\<lambda>_.
     require_directory ''repo.git''))))"

section \<open>Discovery\<close>

record durable_pending =
  dp_name :: git_sync_operation_id
  dp_directory :: directory
  dp_document :: pending_document

record pending_discovery =
  pv_active :: "durable_pending option"
  pv_disposable :: "(git_sync_operation_id \<times> directory) list"
  pv_predecessor :: "durable_pending option"

text \<open>One slot: \<open>Inl\<close> a disposable one, which has no root document, \<open>Inr\<close> a durable one.\<close>

definition read_slot ::
  "ext \<Rightarrow> (string \<Rightarrow> url option) \<Rightarrow> directory \<Rightarrow> string \<Rightarrow>
   pending_error + (git_sync_operation_id \<times> directory) + durable_pending" where
  "read_slot X U d raw_name =
     (if \<not> is_str raw_name then Inl PendingInvalid
      else rbind (ok_or PendingInvalid (operation_id_from_str X raw_name)) (\<lambda>name.
      rbind (map_err PendingStore (dir_kind d raw_name)) (\<lambda>k.
      if k \<noteq> DirectoryType then Inl PendingInvalid
      else rbind (map_err PendingStore (open_dir d raw_name)) (\<lambda>slot.
      case open_file slot ''pending.json'' of
        Inl (StoreIo IoNotFound) \<Rightarrow> Inr (Inl (name, slot))
      | Inl e \<Rightarrow> Inl (PendingStore e)
      | Inr f \<Rightarrow>
          if MAX_PENDING_ROOT_BYTES < length (snd f) then Inl PendingOversized
          else if fst f mod 512 \<noteq> private_mode then Inl PendingInvalid
          else rbind (decode_document X U (take (MAX_PENDING_ROOT_BYTES + 1) (snd f))) (\<lambda>doc.
          if pd_operation doc \<noteq> name then Inl PendingInvalid
          else Inr (Inr \<lparr>dp_name = name, dp_directory = slot, dp_document = doc\<rparr>))))))"

fun read_slots ::
  "ext \<Rightarrow> (string \<Rightarrow> url option) \<Rightarrow> directory \<Rightarrow> string list \<Rightarrow>
   pending_error + durable_pending list \<times> (git_sync_operation_id \<times> directory) list" where
  "read_slots X U d [] = Inr ([], [])"
| "read_slots X U d (name # names) =
     rbind (read_slot X U d name) (\<lambda>slot.
     rbind (read_slots X U d names) (\<lambda>(durable, disposable).
     Inr (case slot of Inl s \<Rightarrow> (durable, s # disposable) | Inr p \<Rightarrow> (p # durable, disposable))))"

definition succession_broken :: "pending_document \<Rightarrow> pending_document \<Rightarrow> pending_error + bool" where
  "succession_broken successor predecessor =
     (if pd_phase predecessor \<noteq> RemoteCasStale \<or> pd_original_commit successor \<noteq> pd_original_commit predecessor \<or>
         pd_original_revision successor \<noteq> pd_original_revision predecessor \<or> pd_store successor \<noteq> pd_store predecessor \<or>
         pd_trust successor \<noteq> pd_trust predecessor \<or> pd_remote successor \<noteq> pd_remote predecessor \<or>
         pd_format successor \<noteq> pd_format predecessor \<or> pd_advance_commit successor \<noteq> pd_candidate_commit predecessor \<or>
         pd_advance_revision successor \<noteq> pd_candidate_revision predecessor \<or>
         pd_local_tip successor \<noteq> pd_candidate_commit predecessor
      then Inr True
      else case pd_stale_remote predecessor of None \<Rightarrow> Inl PendingPanic | Some oid \<Rightarrow> Inr (pd_remote_tip successor \<noteq> oid))"

definition discover :: "ext \<Rightarrow> (string \<Rightarrow> url option) \<Rightarrow> directory \<Rightarrow> pending_error + pending_discovery" where
  "discover X U d =
     rbind (map_err PendingStore (bounded_names d 2)) (\<lambda>names.
     rbind (read_slots X U d names) (\<lambda>(durable, disposable).
     if 2 < length durable \<or> 2 < length durable + length disposable then Inl PendingInvalid
     else case durable of
       [] \<Rightarrow> Inr \<lparr>pv_active = None, pv_disposable = disposable, pv_predecessor = None\<rparr>
     | [p] \<Rightarrow> Inr \<lparr>pv_active = Some p, pv_disposable = disposable, pv_predecessor = None\<rparr>
     | [left, right] \<Rightarrow>
         rbind (if pd_predecessor (dp_document left) = Some (dp_name right) then Inr (left, right)
                else if pd_predecessor (dp_document right) = Some (dp_name left) then Inr (right, left)
                else Inl PendingInvalid) (\<lambda>(successor, predecessor).
         rbind (succession_broken (dp_document successor) (dp_document predecessor)) (\<lambda>broken.
         if broken then Inl PendingInvalid
         else Inr \<lparr>pv_active = Some successor, pv_disposable = disposable, pv_predecessor = Some predecessor\<rparr>))
     | _ \<Rightarrow> Inl PendingPanic))"

section \<open>The gate\<close>

datatype gate_action = Allow | CleanDisposable

text \<open>The store errors of the gate.\<close>

datatype gate_error =
    GateStore store_error
  | InvalidGitSyncState
  | GitSyncPending git_sync_operation_id git_sync_pending_phase
  | ConflictingRecoveryState

definition map_pending_error :: "pending_error \<Rightarrow> gate_error" where
  "map_pending_error e = (case e of PendingStore e \<Rightarrow> GateStore e | _ \<Rightarrow> InvalidGitSyncState)"

definition gate_without_git :: "ext \<Rightarrow> (string \<Rightarrow> url option) \<Rightarrow> store_dirs \<Rightarrow> directory \<Rightarrow> gate_error + gate_action" where
  "gate_without_git X U s d =
     rbind (map_err map_pending_error (discover X U d)) (\<lambda>found.
     case pv_active found of
       Some active \<Rightarrow>
         rbind (map_err GateStore (has_transaction_residue MAX_CANONICAL_ENTRIES s)) (\<lambda>residue.
         if residue then Inl ConflictingRecoveryState
         else Inl (GitSyncPending (dp_name active) (pd_phase (dp_document active))))
     | None \<Rightarrow>
         if pv_predecessor found \<noteq> None then Inl InvalidGitSyncState
         else Inr (if pv_disposable found = [] then Allow else CleanDisposable))"

section \<open>Cleanup\<close>

definition CLEANUP_BATCH :: nat where "CLEANUP_BATCH = 4096"
definition MAX_PENDING_REPO_FS_ENTRIES :: nat where "MAX_PENDING_REPO_FS_ENTRIES = 7100000"

definition maximum_cleanup_entries :: nat where
  "maximum_cleanup_entries = MAX_PENDING_REPO_FS_ENTRIES + MAX_BULK_ADDITIONS + MAX_ADDITION_CHUNKS * 3 + 64"

text \<open>
  \<open>remove_contents depth budget batch es\<close> removes the entries \<open>es\<close> of a directory: \<open>batch\<close> names of the
  current listing are still to be removed; at 0 the next listing is taken, or the directory is
  empty. It returns the error, if any, the entries that are left and the budget that is left.
\<close>

function (sequential) remove_contents ::
  "nat \<Rightarrow> nat \<Rightarrow> nat \<Rightarrow> (string \<times> node) list \<Rightarrow> gate_error option \<times> (string \<times> node) list \<times> nat" where
  "remove_contents depth budget batch [] = (if budget = 0 then (Some InvalidGitSyncState, [], 0) else (None, [], budget))"
| "remove_contents depth budget 0 (e # es) =
     (if budget = 0 then (Some InvalidGitSyncState, e # es, 0)
      else remove_contents depth budget (min (min budget CLEANUP_BATCH) (Suc (length es))) (e # es))"
| "remove_contents depth budget (Suc batch) ((name, DirNode cs) # es) =
     (if budget = 0 then (Some InvalidGitSyncState, (name, DirNode cs) # es, 0)
      else if 64 < Suc depth then (Some InvalidGitSyncState, (name, DirNode cs) # es, budget - 1)
      else case remove_contents (Suc depth) (budget - 1) 0 cs of
        (Some err, cs, budget) \<Rightarrow> (Some err, (name, DirNode cs) # es, budget)
      | (None, _, budget) \<Rightarrow> remove_contents depth budget batch es)"
| "remove_contents depth budget (Suc batch) (e # es) =
     (if budget = 0 then (Some InvalidGitSyncState, e # es, 0) else remove_contents depth (budget - 1) batch es)"
  by pat_completeness auto
termination
  by (relation "measures [\<lambda>(_, _, _, es). size_list (size_prod (\<lambda>_. 0) size) es, \<lambda>(_, _, batch, _). if batch = 0 then 1 else 0]")
    (auto simp: CLEANUP_BATCH_def)

fun clean_slots :: "(git_sync_operation_id \<times> directory) list \<Rightarrow> directory \<Rightarrow> (gate_error + unit) \<times> directory" where
  "clean_slots [] d = (Inr (), d)"
| "clean_slots ((name, slot) # slots) d =
     (case remove_contents 0 maximum_cleanup_entries 0 slot of
        (Some err, slot, _) \<Rightarrow> (Inl err, bt_insert name (DirNode slot) d)
      | (None, _, _) \<Rightarrow>
          (case unlink_dir (bt_insert name (DirNode []) d) name of
             Inl e \<Rightarrow> (Inl (GateStore e), bt_insert name (DirNode []) d)
           | Inr d \<Rightarrow> clean_slots slots d))"

definition clean_disposable_locked :: "ext \<Rightarrow> (string \<Rightarrow> url option) \<Rightarrow> directory \<Rightarrow> (gate_error + unit) \<times> directory" where
  "clean_disposable_locked X U d =
     (case discover X U d of
        Inl e \<Rightarrow> (Inl (map_pending_error e), d)
      | Inr found \<Rightarrow>
          (case pv_active found of
             Some active \<Rightarrow> (Inl (GitSyncPending (dp_name active) (pd_phase (dp_document active))), d)
           | None \<Rightarrow> clean_slots (pv_disposable found) d))"

text \<open>
  Retirement of a slot after its synchronisation, and of the disposable slots beside an active one. The
  binding checks compare descriptors with the entries they were opened from; nothing in the model replaces
  an entry in between, so they hold.
\<close>

datatype retire_error = RetireStore gate_error | RetireInvalid | RetireExit string

definition retire_operation ::
  "(string \<Rightarrow> bool) \<Rightarrow> durable_pending \<Rightarrow> directory \<Rightarrow> (retire_error + unit) \<times> directory" where
  "retire_operation fault pending d =
     (case clean_slots [(dp_name pending, dp_directory pending)] d of
        (Inl e, d) \<Rightarrow> (Inl (RetireStore e), d)
      | (Inr _, d) \<Rightarrow>
          (if fault ''pending-directory-unlinked'' then Inl (RetireExit ''pending-directory-unlinked'') else Inr (), d))"

fun retire_named_disposable ::
  "(git_sync_operation_id \<times> directory) list \<Rightarrow> git_sync_operation_id option \<Rightarrow> directory \<Rightarrow> (retire_error + unit) \<times> directory" where
  "retire_named_disposable [] expected d = (Inr (), d)"
| "retire_named_disposable (slot # slots) expected d =
     (if expected \<noteq> None \<and> Some (fst slot) \<noteq> expected then (Inl RetireInvalid, d)
      else case clean_slots [slot] d of
        (Inl e, d) \<Rightarrow> (Inl (RetireStore e), d)
      | (Inr _, d) \<Rightarrow> retire_named_disposable slots expected d)"

section \<open>Removal\<close>

text \<open>A tree whose entries and depth are within the bounds of the cleanup.\<close>

definition removable :: "directory \<Rightarrow> bool" where
  "removable d \<longleftrightarrow> node_entries (DirNode d) < maximum_cleanup_entries \<and> list_all (\<lambda>e. node_height (snd e) \<le> 64) d"

lemma remove_contents_total:
  assumes "node_entries (DirNode es) < budget" "\<forall>e\<in>set es. depth + node_height (snd e) \<le> 64"
  shows "remove_contents depth budget batch es = (None, [], budget - node_entries (DirNode es))"
  using assms
proof (induction depth budget batch es rule: remove_contents.induct)
  case (3 depth budget batch name cs es)
  have h: "\<forall>e\<in>set cs. Suc depth + node_height (snd e) \<le> 64"
  proof
    fix e assume "e \<in> set cs"
    then have "node_height (snd e) \<le> fold max (map (\<lambda>e. node_height (snd e)) cs) 0" by (intro fold_max_ge) auto
    then show "Suc depth + node_height (snd e) \<le> 64" using "3.prems"(2) by simp
  qed
  have d: "budget \<noteq> 0" "\<not> 64 < Suc depth" using "3.prems" by auto
  have inner: "remove_contents (Suc depth) (budget - 1) 0 cs = (None, [], budget - 1 - node_entries (DirNode cs))"
    using "3.prems" h by (intro "3.IH"(1)[OF d]) auto
  have "remove_contents depth (budget - 1 - node_entries (DirNode cs)) batch es =
      (None, [], budget - 1 - node_entries (DirNode cs) - node_entries (DirNode es))"
    using "3.prems" by (intro "3.IH"(2)[OF d inner[symmetric] refl refl]) auto
  then show ?case using d inner by simp
qed auto

lemma clean_slots_success:
  assumes "bt_wf d" "distinct (map fst slots)" "list_all (\<lambda>(name, slot). bt_get d name = Some (DirNode slot)) slots"
    and "fst (clean_slots slots d) = Inr ()"
  shows "set (snd (clean_slots slots d)) = {e \<in> set d. fst e \<notin> set (map fst slots)}"
  using assms
proof (induction slots arbitrary: d)
  case (Cons ns slots)
  obtain name slot where ns: "ns = (name, slot)" by fastforce
  obtain err rest b where rc: "remove_contents 0 maximum_cleanup_entries 0 slot = (err, rest, b)" by (metis prod.collapse)
  have e: "err = None" using Cons.prems(4) by (cases err) (simp_all add: ns rc)
  have ul: "unlink_dir (bt_insert name (DirNode []) d) name = Inr (bt_remove name (bt_insert name (DirNode []) d))"
    by (simp add: unlink_dir_def bt_get_insert)
  let ?d = "bt_remove name (bt_insert name (DirNode []) d)"
  have wf: "bt_wf ?d" using Cons.prems(1) by (simp add: bt_wf_insert bt_wf_remove)
  have get: "bt_get ?d = (bt_get d)(name := None)" using Cons.prems(1) by (simp add: bt_get_remove bt_wf_insert bt_get_insert)
  have setd: "set ?d = {e \<in> set d. fst e \<noteq> name}"
  proof -
    have "(a, b) \<in> set ?d \<longleftrightarrow> a \<noteq> name \<and> (a, b) \<in> set d" for a b
      unfolding bt_get_Some_iff[OF wf, symmetric] bt_get_Some_iff[OF Cons.prems(1), symmetric] by (simp add: get)
    then show ?thesis by auto
  qed
  have "list_all (\<lambda>(n, s). bt_get ?d n = Some (DirNode s)) slots"
    unfolding list_all_iff
  proof safe
    fix n s assume in_slots: "(n, s) \<in> set slots"
    then have "n \<noteq> name" using Cons.prems(2) by (force simp: ns)
    then show "bt_get ?d n = Some (DirNode s)" using Cons.prems(3) in_slots by (simp add: list_all_iff get ns) fastforce
  qed
  then have "set (snd (clean_slots slots ?d)) = {e \<in> set ?d. fst e \<notin> set (map fst slots)}"
    using Cons.prems(2,4) by (intro Cons.IH[OF wf]) (simp_all add: ns rc e ul)
  then show ?case by (auto simp: ns rc e ul setd)
qed simp

lemma clean_slots_removable:
  "list_all (\<lambda>(_, slot). removable slot) slots \<Longrightarrow> fst (clean_slots slots d) = Inr ()"
proof (induction slots arbitrary: d)
  case (Cons ns slots)
  obtain name slot where ns: "ns = (name, slot)" by fastforce
  have "remove_contents 0 maximum_cleanup_entries 0 slot = (None, [], maximum_cleanup_entries - node_entries (DirNode slot))"
    using Cons.prems by (intro remove_contents_total) (auto simp: ns removable_def list_all_iff)
  then show ?case using Cons by (simp add: ns unlink_dir_def bt_get_insert)
qed simp

section \<open>Slots\<close>

lemma read_slot_Inr:
  "read_slot X U d name = Inr (Inl s) \<Longrightarrow> s = (name, snd s) \<and> bt_get d name = Some (DirNode (snd s))"
  "read_slot X U d name = Inr (Inr p) \<Longrightarrow>
     dp_name p = name \<and> pd_operation (dp_document p) = name \<and> pending_document_validate (dp_document p) = Inr ()"
  by (auto simp: read_slot_def rbind_Inr_iff map_err_Inr_iff ok_or_Inr_iff open_dir_def operation_id_from_str_def decode_document_def
      split: if_splits option.splits sum.splits store_error.splits io_kind.splits node.splits)

lemma read_slots_Inr:
  "read_slots X U d names = Inr (durable, disposable) \<Longrightarrow>
   mset names = mset (map dp_name durable) + mset (map fst disposable) \<and>
   list_all (\<lambda>(name, slot). bt_get d name = Some (DirNode slot)) disposable \<and>
   list_all (\<lambda>p. pending_document_validate (dp_document p) = Inr ()) durable"
proof (induction names arbitrary: durable disposable)
  case (Cons name names)
  from Cons.prems obtain slot du di where s: "read_slot X U d name = Inr slot" "read_slots X U d names = Inr (du, di)"
      "(durable, disposable) = (case slot of Inl s \<Rightarrow> (du, s # di) | Inr p \<Rightarrow> (p # du, di))"
    by (auto simp: rbind_Inr_iff)
  show ?case
    using Cons.IH[OF s(2)] s(1,3) read_slot_Inr(1)[of X U d name] read_slot_Inr(2)[of X U d name]
    by (cases slot) (auto split: prod.splits)
qed simp

lemma discover_Inr:
  assumes "bt_wf d" "discover X U d = Inr found" "pv_active found = None"
  shows "distinct (map fst (pv_disposable found))" "set (map fst (pv_disposable found)) = fst ` set d"
    "list_all (\<lambda>(name, slot). bt_get d name = Some (DirNode slot)) (pv_disposable found)" "pv_predecessor found = None"
proof -
  from assms(2) obtain durable disposable where s: "read_slots X U d (sort (bt_keys d)) = Inr (durable, disposable)"
      "durable = [] \<and> found = \<lparr>pv_active = None, pv_disposable = disposable, pv_predecessor = None\<rparr>"
    using assms(3) unfolding discover_def bounded_names_def
    by (auto simp: rbind_Inr_iff map_err_Inr_iff split: if_splits list.splits prod.splits)
  have r: "mset (sort (bt_keys d)) = mset (map fst disposable)" "list_all (\<lambda>(name, slot). bt_get d name = Some (DirNode slot)) disposable"
    using read_slots_Inr[OF s(1)] s(2) by auto
  have m: "mset (bt_keys d) = mset (map fst disposable)" using r(1) by simp
  show "distinct (map fst (pv_disposable found))" using m bt_wf_distinct[OF assms(1)] s(2) by (metis mset_eq_imp_distinct_iff pending_discovery.select_convs(2))
  show "set (map fst (pv_disposable found)) = fst ` set d"
    using mset_eq_setD[OF m] s(2) by (simp add: bt_keys_def)
  show "list_all (\<lambda>(name, slot). bt_get d name = Some (DirNode slot)) (pv_disposable found)" "pv_predecessor found = None"
    using r(2) s(2) by simp_all
qed

lemma discover_no_panic: "discover X U d \<noteq> Inl PendingPanic"
proof
  assume a: "discover X U d = Inl PendingPanic"
  have one: "read_slot X U d name \<noteq> Inl PendingPanic" for name
    by (auto simp: read_slot_def rbind_Inl_iff decode_document_def pending_document_validate_def validate_addition_totals_def chunk_count_def Let_def
        map_err_def ok_or_def split: if_splits option.splits sum.splits store_error.splits io_kind.splits)
  have slots: "read_slots X U d names \<noteq> Inl PendingPanic" for names
    by (induction names) (auto simp: rbind_Inl_iff one)
  have "\<not> (map_err PendingStore (bounded_names d 2) = Inl PendingPanic)" by (simp add: map_err_def split: sum.splits)
  then obtain durable disposable where s: "read_slots X U d (sort (bt_keys d)) = Inr (durable, disposable)" "length durable \<le> 2"
      and rest: "(case durable of [] \<Rightarrow> Inr \<lparr>pv_active = None, pv_disposable = disposable, pv_predecessor = None\<rparr>
     | [p] \<Rightarrow> Inr \<lparr>pv_active = Some p, pv_disposable = disposable, pv_predecessor = None\<rparr>
     | [left, right] \<Rightarrow>
         rbind (if pd_predecessor (dp_document left) = Some (dp_name right) then Inr (left, right)
                else if pd_predecessor (dp_document right) = Some (dp_name left) then Inr (right, left)
                else Inl PendingInvalid) (\<lambda>(successor, predecessor).
         rbind (succession_broken (dp_document successor) (dp_document predecessor)) (\<lambda>broken.
         if broken then Inl PendingInvalid
         else Inr \<lparr>pv_active = Some successor, pv_disposable = disposable, pv_predecessor = Some predecessor\<rparr>))
     | _ \<Rightarrow> Inl PendingPanic) = Inl PendingPanic"
    using a slots unfolding discover_def bounded_names_def
    by (auto simp: rbind_Inl_iff split: if_splits)
  have v: "list_all (\<lambda>p. pending_document_validate (dp_document p) = Inr ()) durable" using read_slots_Inr[OF s(1)] by blast
  have nb: "succession_broken a b \<noteq> Inl PendingPanic" if "pending_document_validate b = Inr ()" for a b
    using that unfolding pending_validate_Inr by (auto simp: succession_broken_def split: option.splits)
  consider "durable = []" | p where "durable = [p]" | l r where "durable = [l, r]"
    using s(2) by (cases durable; cases "tl durable"; cases "tl (tl durable)") auto
  then show False
  proof cases
    case (3 l r)
    then have "pending_document_validate (dp_document l) = Inr ()" "pending_document_validate (dp_document r) = Inr ()" using v by simp_all
    then show False using rest nb 3 by (auto simp: rbind_Inl_iff split: if_splits)
  qed (use rest in simp_all)
qed

lemma clean_disposable_empties:
  assumes wf: "bt_wf d" and ok: "fst (clean_disposable_locked X U d) = Inr ()"
  shows "snd (clean_disposable_locked X U d) = []"
proof -
  obtain f where f: "discover X U d = Inr f" "pv_active f = None" "clean_disposable_locked X U d = clean_slots (pv_disposable f) d"
    using ok by (auto simp: clean_disposable_locked_def split: sum.splits option.splits)
  have "set (snd (clean_slots (pv_disposable f) d)) = {e \<in> set d. fst e \<notin> set (map fst (pv_disposable f))}"
    using discover_Inr(1,3)[OF wf f(1,2)] ok f(3) by (intro clean_slots_success[OF wf]) simp_all
  then have "set (snd (clean_slots (pv_disposable f) d)) = {}" using discover_Inr(2)[OF wf f(1,2)] by auto
  then show ?thesis using f(3) by simp
qed

lemma gate_allow_iff:
  assumes "bt_wf d"
  shows "gate_without_git X U s d = Inr Allow \<longleftrightarrow> d = []"
proof
  assume "gate_without_git X U s d = Inr Allow"
  then obtain f where f: "discover X U d = Inr f" "pv_active f = None" "pv_disposable f = []"
    by (auto simp: gate_without_git_def rbind_Inr_iff map_err_Inr_iff split: option.splits if_splits)
  show "d = []" using discover_Inr(2)[OF assms f(1,2)] f(3) by simp
qed (simp add: gate_without_git_def discover_def bounded_names_def bt_keys_def)

text \<open>Some slot has an entry for its root document, readable or not.\<close>

definition has_root_document :: "directory \<Rightarrow> bool" where
  "has_root_document d \<longleftrightarrow> list_ex (\<lambda>(_, n). case n of DirNode slot \<Rightarrow> bt_get slot ''pending.json'' \<noteq> None | _ \<Rightarrow> False) d"

text \<open>A slot that was abandoned before its root document was published, within the cleanup bounds.\<close>

definition disposable_slot :: "ext \<Rightarrow> string \<times> node \<Rightarrow> bool" where
  "disposable_slot X e \<longleftrightarrow> is_str (fst e) \<and> operation_id_from_str X (fst e) = Some (fst e) \<and> validate_component (fst e) = Inr () \<and>
     (case snd e of DirNode slot \<Rightarrow> bt_get slot ''pending.json'' = None \<and> removable slot | _ \<Rightarrow> False)"

lemma root_name: "validate_component ''pending.json'' = Inr ()"
  by (simp add: validate_component_def)

lemma read_slot_root:
  assumes "bt_get d name = Some (DirNode slot)" "bt_get slot ''pending.json'' \<noteq> None"
  shows "read_slot X U d name \<noteq> Inr (Inl s)"
proof -
  have "open_file slot ''pending.json'' \<noteq> Inl (StoreIo IoNotFound)"
    using assms(2) root_name by (auto simp: open_file_def split: node.splits)
  then show ?thesis
    using assms(1)
    by (auto simp: read_slot_def rbind_Inr_iff map_err_Inr_iff open_dir_def split: if_splits option.splits sum.splits store_error.splits io_kind.splits node.splits)
qed

lemma read_slots_disposable:
  "read_slots X U d names = Inr ([], disposable) \<Longrightarrow> name \<in> set names \<Longrightarrow> \<exists>s. read_slot X U d name = Inr (Inl s)"
proof (induction names arbitrary: disposable)
  case (Cons n names)
  from Cons.prems(1) obtain slot du di where s: "read_slot X U d n = Inr slot" "read_slots X U d names = Inr (du, di)"
      "([], disposable) = (case slot of Inl s \<Rightarrow> (du, s # di) | Inr p \<Rightarrow> (p # du, di))"
    by (auto simp: rbind_Inr_iff)
  then obtain t where "slot = Inl t" "du = []" by (cases slot) auto
  with s Cons show ?case by (cases "name = n") auto
qed simp

lemma discover_root:
  assumes "bt_wf d" "has_root_document d" "discover X U d = Inr found"
  shows "pv_active found \<noteq> None"
proof
  assume none: "pv_active found = None"
  obtain name slot where s: "(name, DirNode slot) \<in> set d" "bt_get slot ''pending.json'' \<noteq> None"
    using assms(2) by (auto simp: has_root_document_def list_ex_iff split: node.splits)
  have at: "bt_get d name = Some (DirNode slot)" using s(1) bt_get_Some_iff[OF assms(1)] by simp
  obtain disposable where r: "read_slots X U d (sort (bt_keys d)) = Inr ([], disposable)"
    using assms(3) none unfolding discover_def bounded_names_def
    by (auto simp: rbind_Inr_iff map_err_Inr_iff split: if_splits list.splits prod.splits)
  have "name \<in> set (sort (bt_keys d))" using s(1) by (force simp: bt_keys_def)
  from read_slots_disposable[OF r this] show False using read_slot_root[OF at s(2)] by blast
qed

lemma root_document_kept:
  assumes "bt_wf d" "has_root_document d"
  shows "\<exists>e. clean_disposable_locked X U d = (Inl e, d)" "\<exists>e. gate_without_git X U s d = Inl e"
proof -
  show "\<exists>e. clean_disposable_locked X U d = (Inl e, d)"
    using discover_root[OF assms, of X U] by (fastforce simp: clean_disposable_locked_def split: sum.splits option.splits)
  have "gate_without_git X U s d \<noteq> Inr a" for a
    using discover_root[OF assms, of X U]
    by (auto simp: gate_without_git_def rbind_Inr_iff map_err_Inr_iff split: option.splits if_splits)
  then show "\<exists>e. gate_without_git X U s d = Inl e" by (cases "gate_without_git X U s d") auto
qed

lemma read_disposable_slot:
  assumes "disposable_slot X (name, n)" "bt_get d name = Some n"
  shows "\<exists>slot. n = DirNode slot \<and> removable slot \<and> read_slot X U d name = Inr (Inl (name, slot))"
  using assms root_name
  by (auto simp: disposable_slot_def read_slot_def dir_kind_def open_dir_def open_file_def split: node.splits)

lemma read_disposable_slots:
  assumes "list_all (\<lambda>name. \<exists>n. bt_get d name = Some n \<and> disposable_slot X (name, n)) names"
  shows "\<exists>slots. read_slots X U d names = Inr ([], slots) \<and> length slots = length names \<and> list_all (\<lambda>(_, slot). removable slot) slots"
  using assms
proof (induction names)
  case (Cons name names)
  then obtain n slots where n: "bt_get d name = Some n" "disposable_slot X (name, n)"
    and IH: "read_slots X U d names = Inr ([], slots)" "length slots = length names" "list_all (\<lambda>(_, slot). removable slot) slots" by auto
  obtain slot where "removable slot" "read_slot X U d name = Inr (Inl (name, slot))" using read_disposable_slot[OF n(2,1), of U] by blast
  with IH show ?case by simp
qed simp

lemma discover_disposable:
  assumes "bt_wf d" "length d \<le> 2" "list_all (disposable_slot X) d"
  shows "\<exists>found. discover X U d = Inr found \<and> pv_active found = None \<and> list_all (\<lambda>(_, slot). removable slot) (pv_disposable found)"
proof -
  have "list_all (\<lambda>name. \<exists>n. bt_get d name = Some n \<and> disposable_slot X (name, n)) (sort (bt_keys d))"
    using assms(3) bt_get_Some_iff[OF assms(1)] by (fastforce simp: list_all_iff bt_keys_def)
  from read_disposable_slots[OF this] obtain slots where
    "read_slots X U d (sort (bt_keys d)) = Inr ([], slots)" "length slots = length d" "list_all (\<lambda>(_, slot). removable slot) slots"
    by (auto simp: bt_keys_def)
  then show ?thesis using assms(2) by (simp add: discover_def bounded_names_def)
qed

text \<open>
  C24: The pending gate. It allows an operation exactly when the pending directory is empty. Cleanup that
  succeeds empties the directory. While some slot has an entry for its root document, readable or not, cleanup
  fails and changes nothing and the gate stays closed; when discovery finds an active slot, that slot is
  reported. Cleanup removes everything when the directory holds at most two slots that are named by operation
  identifiers, have no entry for a root document and are within the cleanup bounds, or when discovery finds
  no active slot and the slots it finds are within these bounds.
  Discovery never panics.
\<close>

theorem pending_gate:
  assumes "dir_wf d"
  shows "(gate_without_git X U s d = Inr Allow \<longleftrightarrow> d = []) \<and>
    (fst (clean_disposable_locked X U d) = Inr () \<longrightarrow> snd (clean_disposable_locked X U d) = []) \<and>
    (has_root_document d \<longrightarrow> (\<exists>e. clean_disposable_locked X U d = (Inl e, d)) \<and> (\<exists>e. gate_without_git X U s d = Inl e)) \<and>
    (discover X U d = Inr found \<and> pv_active found = Some active \<longrightarrow>
       clean_disposable_locked X U d = (Inl (GitSyncPending (dp_name active) (pd_phase (dp_document active))), d)) \<and>
    (discover X U d = Inr found \<and> pv_active found = None \<and> list_all (\<lambda>(_, slot). removable slot) (pv_disposable found) \<longrightarrow>
       clean_disposable_locked X U d = (Inr (), [])) \<and>
    (length d \<le> 2 \<and> list_all (disposable_slot X) d \<longrightarrow> clean_disposable_locked X U d = (Inr (), [])) \<and>
    discover X U d \<noteq> Inl PendingPanic"
proof -
  have wf: "bt_wf d" using assms by simp
  note gate = gate_allow_iff[OF wf, of X U s] and kept = root_document_kept[OF wf]
  note done_clean = clean_disposable_empties[OF wf]
  have active: "clean_disposable_locked X U d = (Inl (GitSyncPending (dp_name active) (pd_phase (dp_document active))), d)"
    if "discover X U d = Inr found" "pv_active found = Some active"
    using that by (simp add: clean_disposable_locked_def)
  have total: "clean_disposable_locked X U d = (Inr (), [])"
    if "discover X U d = Inr found" "pv_active found = None" "list_all (\<lambda>(_, slot). removable slot) (pv_disposable found)" for found
  proof -
    have "fst (clean_disposable_locked X U d) = Inr ()"
      using that clean_slots_removable[OF that(3)] by (simp add: clean_disposable_locked_def)
    then show ?thesis using done_clean by (metis prod.collapse)
  qed
  have slots: "clean_disposable_locked X U d = (Inr (), [])" if "length d \<le> 2" "list_all (disposable_slot X) d"
    using discover_disposable[OF wf that, of U] total by blast
  show ?thesis using gate kept done_clean active total slots discover_no_panic[of X U d] by blast
qed

end
