(* ===== verification/Wj_Sorter.thy ===== *)
theory Wj_Sorter
  imports Wj_Scan
begin

text \<open>
  \<open>store/streaming.rs\<close>, the external sorter of bounded replay: length-framed facts in unnamed
  temporary files, sorted runs of bounded size, a merge of the runs, and the budget of temporary
  bytes all sorters of a replay share. A temporary file is its content.
\<close>

declare rbind_cong [fundef_cong]

section \<open>Budget and records\<close>

definition SORT_RUN_BYTES :: nat where "SORT_RUN_BYTES = 8 * 1024 * 1024"
definition MAX_FACT_BYTES :: nat where "MAX_FACT_BYTES = 2 * 1024"
definition MAX_REPLAY_TEMPORARY_BYTES :: nat where "MAX_REPLAY_TEMPORARY_BYTES = 32 * MAX_TOTAL_CANONICAL_BYTES"

type_synonym fact = "bytes \<times> bytes"

record replay_temp_budget =
  tb_used :: nat
  tb_maximum :: nat

definition temp_budget_new :: "nat \<Rightarrow> replay_temp_budget" where
  "temp_budget_new maximum = \<lparr>tb_used = 0, tb_maximum = maximum\<rparr>"

definition temp_reserve :: "replay_temp_budget \<Rightarrow> nat \<Rightarrow> store_error + replay_temp_budget" where
  "temp_reserve b n =
     (let used = tb_used b + n in
      if 2 ^ 64 \<le> used then Inl InvalidLayout
      else if tb_maximum b < used then Inl InvalidLayout
      else Inr (b\<lparr>tb_used := used\<rparr>))"

definition write_record ::
  "bytes \<Rightarrow> fact \<Rightarrow> replay_temp_budget \<Rightarrow> store_error + bytes \<times> replay_temp_budget" where
  "write_record f = (\<lambda>(key, value) b.
     if 2 ^ 32 \<le> length key then Inl InvalidLayout
     else if 2 ^ 32 \<le> length value then Inl InvalidLayout
     else rbind (temp_reserve b (length key + length value + 8)) (\<lambda>b.
       Inr (f @ be_bytes 4 (length key) @ be_bytes 4 (length value) @ key @ value, b)))"

text \<open>One record off the front of what is left of a file; \<open>None\<close> at its end.\<close>

definition read_record :: "bytes \<Rightarrow> store_error + fact option \<times> bytes" where
  "read_record bs =
     (if bs = [] then Inr (None, [])
      else if length bs < 8 then Inl InvalidLayout
      else let key_len = from_be_bytes (take 4 bs); value_len = from_be_bytes (take 4 (drop 4 bs));
               rest = drop 8 bs in
        if MAX_FACT_BYTES < key_len + value_len + 8 then Inl InvalidLayout
        else if length rest < key_len + value_len then Inl (StoreIo IoUnexpectedEof)
        else Inr (Some (take key_len rest, take value_len (drop key_len rest)), drop (key_len + value_len) rest))"

section \<open>Readers\<close>

record fact_reader =
  fr_rest :: bytes
  fr_current :: "fact option"

definition reader_advance :: "fact_reader \<Rightarrow> store_error + fact_reader" where
  "reader_advance r =
     rbind (read_record (fr_rest r)) (\<lambda>(current, rest). Inr \<lparr>fr_rest = rest, fr_current = current\<rparr>)"

definition reader_new :: "bytes \<Rightarrow> store_error + fact_reader" where
  "reader_new f = reader_advance \<lparr>fr_rest = f, fr_current = None\<rparr>"

definition reader_take :: "fact_reader \<Rightarrow> store_error + fact option \<times> fact_reader" where
  "reader_take r =
     (case fr_current r of
        None \<Rightarrow> Inr (None, r)
      | Some f \<Rightarrow> rbind (reader_advance r) (\<lambda>r. Inr (Some f, r)))"

definition reader_weight :: "fact_reader \<Rightarrow> nat" where
  "reader_weight r = length (fr_rest r) + (if fr_current r = None then 0 else 1)"

lemma reader_advance_weight:
  assumes "reader_advance r = Inr r'" "fr_current r \<noteq> None"
  shows "reader_weight r' < reader_weight r"
  using assms
  by (auto simp: reader_advance_def read_record_def reader_weight_def Let_def result_simps split: if_splits)

lemma reader_take_weight: "reader_take r = Inr (Some f, r') \<Longrightarrow> reader_weight r' < reader_weight r"
  using reader_advance_weight by (auto simp: reader_take_def result_simps split: option.splits)

section \<open>The sorter\<close>

record external_sorter =
  es_run_bytes :: nat
  es_buffered :: "fact list"
  es_buffered_bytes :: nat
  es_runs :: "bytes list"

definition sorter_with_run_bytes :: "nat \<Rightarrow> external_sorter" where
  "sorter_with_run_bytes run_bytes =
     \<lparr>es_run_bytes = run_bytes, es_buffered = [], es_buffered_bytes = 0, es_runs = []\<rparr>"

definition sorter_new :: external_sorter where
  "sorter_new = sorter_with_run_bytes SORT_RUN_BYTES"

definition flush_run ::
  "external_sorter \<Rightarrow> replay_temp_budget \<Rightarrow> store_error + external_sorter \<times> replay_temp_budget" where
  "flush_run s b =
     rbind (try_fold (\<lambda>(f, b) r. write_record f r b) ([], b) (sort (es_buffered s))) (\<lambda>(run, b).
     Inr (s\<lparr>es_buffered := [], es_buffered_bytes := 0, es_runs := es_runs s @ [run]\<rparr>, b))"

definition sorter_push ::
  "external_sorter \<Rightarrow> replay_temp_budget \<Rightarrow> bytes \<Rightarrow> bytes \<Rightarrow>
   store_error + external_sorter \<times> replay_temp_budget" where
  "sorter_push s b key value =
     (let n = length key + length value + 8 in
      if 2 ^ 64 \<le> n then Inl InvalidLayout
      else if MAX_FACT_BYTES < n then Inl InvalidLayout
      else rbind (if es_run_bytes s < es_buffered_bytes s + n \<and> es_buffered s \<noteq> [] then flush_run s b else Inr (s, b))
        (\<lambda>(s, b). Inr (s\<lparr>es_buffered_bytes := es_buffered_bytes s + n, es_buffered := es_buffered s @ [(key, value)]\<rparr>, b)))"

text \<open>\<open>min_by\<close> over the readers that have a current record: the first minimal one.\<close>

definition current_records :: "fact_reader list \<Rightarrow> (nat \<times> fact) list" where
  "current_records readers =
     List.map_filter (\<lambda>(index, r). map_option (\<lambda>f. (index, f)) (fr_current r)) (enumerate 0 readers)"

definition select_reader :: "fact_reader list \<Rightarrow> (nat \<times> fact) option" where
  "select_reader readers =
     (case current_records readers of
        [] \<Rightarrow> None
      | x # xs \<Rightarrow> Some (fold (\<lambda>y x. if snd y < snd x then y else x) xs x))"

lemma current_records_iff:
  "(i, f) \<in> set (current_records readers) \<longleftrightarrow> i < length readers \<and> fr_current (readers ! i) = Some f"
proof -
  have "(i, f) \<in> set (current_records readers) \<longleftrightarrow> (\<exists>r. (i, r) \<in> set (enumerate 0 readers) \<and> fr_current r = Some f)"
    by (auto simp: current_records_def List.map_filter_def intro!: rev_image_eqI[where x = "(i, _)"])
  also have "\<dots> \<longleftrightarrow> i < length readers \<and> fr_current (readers ! i) = Some f"
    by (auto simp: in_set_enumerate_eq)
  finally show ?thesis .
qed

lemma fold_min_by:
  fixes x :: "nat \<times> fact"
  shows "fold (\<lambda>y x. if snd y < snd x then y else x) xs x \<in> set (x # xs) \<and>
    (\<forall>y\<in>set (x # xs). snd (fold (\<lambda>y x. if snd y < snd x then y else x) xs x) \<le> snd y)"
proof (induction xs arbitrary: x)
  case (Cons a xs)
  let ?x = "if snd a < snd x then a else x"
  have "snd ?x \<le> snd a" "snd ?x \<le> snd x" by auto
  then show ?case using Cons[of ?x] by (auto intro: order_trans)
qed simp

lemma select_reader_Some:
  assumes "select_reader readers = Some (i, f)"
  shows "i < length readers" "fr_current (readers ! i) = Some f"
    "\<And>j g. j < length readers \<Longrightarrow> fr_current (readers ! j) = Some g \<Longrightarrow> f \<le> g"
proof -
  obtain x xs where xs: "current_records readers = x # xs"
      "(i, f) = fold (\<lambda>y x. if snd y < snd x then y else x) xs x"
    using assms by (auto simp: select_reader_def split: list.splits)
  note m = fold_min_by[of xs x, folded xs(2)]
  have "(i, f) \<in> set (current_records readers)" using m unfolding xs(1) by blast
  then show "i < length readers" "fr_current (readers ! i) = Some f" by (simp_all add: current_records_iff)
  show "f \<le> g" if "j < length readers" "fr_current (readers ! j) = Some g" for j g
  proof -
    have "(j, g) \<in> set (x # xs)" using that unfolding xs(1)[symmetric] by (simp add: current_records_iff)
    then show ?thesis using m by force
  qed
qed

lemma select_reader_None: "select_reader readers = None \<longleftrightarrow> (\<forall>r\<in>set readers. fr_current r = None)"
proof -
  have "select_reader readers = None \<longleftrightarrow> current_records readers = []"
    by (simp add: select_reader_def split: list.splits)
  also have "\<dots> \<longleftrightarrow> (\<forall>i f. (i, f) \<notin> set (current_records readers))"
    by (metis length_pos_if_in_set list.size(3) not_gr_zero list.set_intros(1) neq_Nil_conv surj_pair)
  also have "\<dots> \<longleftrightarrow> (\<forall>i<length readers. fr_current (readers ! i) = None)"
    unfolding current_records_iff by (metis not_None_eq)
  finally show ?thesis by (simp add: all_set_conv_all_nth)
qed

function merge_runs ::
  "fact_reader list \<Rightarrow> bytes \<Rightarrow> replay_temp_budget \<Rightarrow> store_error + bytes \<times> replay_temp_budget" where
  "merge_runs readers merged b =
     (case select_reader readers of
        None \<Rightarrow> Inr (merged, b)
      | Some (index, record) \<Rightarrow>
          rbind (write_record merged record b) (\<lambda>(merged, b).
          rbind (reader_advance (readers ! index)) (\<lambda>r.
          merge_runs (readers[index := r]) merged b)))"
  by pat_completeness auto
termination
proof (relation "measure (\<lambda>(readers, merged, b). sum_list (map reader_weight readers))", simp)
  fix readers :: "fact_reader list" and merged :: bytes and b b' :: replay_temp_budget and sel index item x merged' r
  assume sel: "select_reader readers = Some sel" "(index, item) = sel" and r: "reader_advance (readers ! index) = Inr r"
  have i: "index < length readers" "fr_current (readers ! index) = Some item"
    using sel select_reader_Some[of readers index item] by auto
  then have "reader_weight r < reader_weight (readers ! index)" using reader_advance_weight[OF r] by simp
  moreover have "sum_list (map reader_weight (readers[index := r])) + reader_weight (readers ! index) =
      sum_list (map reader_weight readers) + reader_weight r"
    using i(1) by (induction readers arbitrary: index) (auto split: nat.splits)
  ultimately show "((readers[index := r], merged', b'), readers, merged, b) \<in>
      measure (\<lambda>(readers, merged, b). sum_list (map reader_weight readers))"
    by simp
qed

declare merge_runs.simps [simp del]

definition sorter_finish ::
  "external_sorter \<Rightarrow> replay_temp_budget \<Rightarrow> store_error + bytes \<times> replay_temp_budget" where
  "sorter_finish s b =
     rbind (if es_buffered s \<noteq> [] \<or> es_runs s = [] then flush_run s b else Inr (s, b)) (\<lambda>(s, b).
     case es_runs s of
       [run] \<Rightarrow> Inr (run, b)
     | runs \<Rightarrow> rbind (try_map reader_new runs) (\<lambda>readers. merge_runs readers [] b))"

text \<open>\<open>while let Some(fact) = reader.take()? { body }\<close>.\<close>

function while_facts :: "('s \<Rightarrow> fact \<Rightarrow> store_error + 's) \<Rightarrow> 's \<Rightarrow> fact_reader \<Rightarrow> store_error + 's" where
  "while_facts body s r =
     rbind (reader_take r) (\<lambda>(c, r).
     case c of
       None \<Rightarrow> Inr s
     | Some f \<Rightarrow> rbind (body s f) (\<lambda>s. while_facts body s r))"
  by pat_completeness auto
termination
  by (relation "measure (\<lambda>(body, s, r). reader_weight r)") (auto dest: reader_take_weight)

declare while_facts.simps [simp del]

section \<open>Files of facts\<close>

definition enc_fact :: "fact \<Rightarrow> bytes" where
  "enc_fact = (\<lambda>(key, value). be_bytes 4 (length key) @ be_bytes 4 (length value) @ key @ value)"

definition enc_facts :: "fact list \<Rightarrow> bytes" where
  "enc_facts fs = concat (map enc_fact fs)"

definition fact_bytes :: "fact \<Rightarrow> nat" where
  "fact_bytes = (\<lambda>(key, value). length key + length value + 8)"

definition total_bytes :: "fact list \<Rightarrow> nat" where
  "total_bytes fs = sum_list (map fact_bytes fs)"

abbreviation fits :: "fact \<Rightarrow> bool" where
  "fits f \<equiv> fact_bytes f \<le> MAX_FACT_BYTES"

definition reader_of :: "fact list \<Rightarrow> fact_reader" where
  "reader_of fs =
     (case fs of [] \<Rightarrow> \<lparr>fr_rest = [], fr_current = None\<rparr> | f # fs \<Rightarrow> \<lparr>fr_rest = enc_facts fs, fr_current = Some f\<rparr>)"

lemma enc_facts_simps [simp]: "enc_facts [] = []" "enc_facts (f # fs) = enc_fact f @ enc_facts fs"
  by (simp_all add: enc_facts_def)

lemma total_bytes_simps [simp]:
  "total_bytes [] = 0" "total_bytes (f # fs) = fact_bytes f + total_bytes fs"
  "total_bytes (fs @ gs) = total_bytes fs + total_bytes gs"
  by (simp_all add: total_bytes_def)

lemma total_bytes_mset: "mset fs = mset gs \<Longrightarrow> total_bytes fs = total_bytes gs"
  unfolding total_bytes_def by (metis mset_map sum_mset_sum_list)

lemma read_record_fact:
  assumes "fits f"
  shows "read_record (enc_fact f @ rest) = Inr (Some f, rest)"
proof -
  obtain k v where f: "f = (k, v)" by (cases f)
  have small: "length k < 256 ^ 4" "length v < 256 ^ 4"
    using assms by (simp_all add: f fact_bytes_def MAX_FACT_BYTES_def)
  have "from_be_bytes (be_bytes 4 (length k)) = length k" "from_be_bytes (be_bytes 4 (length v)) = length v"
    using small by (simp_all add: from_be_bytes_be_bytes)
  moreover have "enc_fact f \<noteq> []" "8 \<le> length (enc_fact f)" by (auto simp: enc_fact_def f) (metis length_be_bytes list.size(3) zero_neq_numeral)
  ultimately show ?thesis
    using assms by (simp add: read_record_def) (simp add: enc_fact_def f Let_def fact_bytes_def)
qed

lemma reader_advance_of:
  "\<forall>f\<in>set fs. fits f \<Longrightarrow> fr_rest r = enc_facts fs \<Longrightarrow> reader_advance r = Inr (reader_of fs)"
  by (cases fs) (simp_all add: reader_advance_def read_record_fact reader_of_def, simp add: read_record_def)

lemma reader_new_of: "\<forall>f\<in>set fs. fits f \<Longrightarrow> reader_new (enc_facts fs) = Inr (reader_of fs)"
  by (simp add: reader_new_def reader_advance_of)

lemma reader_of_simps [simp]:
  "fr_current (reader_of []) = None" "fr_current (reader_of (f # fs)) = Some f"
  by (simp_all add: reader_of_def)

lemma reader_take_of:
  "reader_take (reader_of []) = Inr (None, reader_of [])"
  "\<forall>f\<in>set fs. fits f \<Longrightarrow> reader_take (reader_of (f # fs)) = Inr (Some f, reader_of fs)"
  by (simp_all add: reader_take_def reader_advance_of reader_of_def)

lemma while_facts_of:
  "\<forall>f\<in>set fs. fits f \<Longrightarrow> while_facts body s (reader_of fs) = try_fold body s fs"
proof (induction fs arbitrary: s)
  case (Cons f fs)
  then show ?case
    by (cases "body s f") (simp_all add: while_facts.simps[of _ _ "reader_of (f # fs)"] reader_take_of)
qed (simp add: while_facts.simps reader_take_of)

section \<open>Budgets\<close>

definition room :: "replay_temp_budget \<Rightarrow> nat \<Rightarrow> bool" where
  "room b n \<longleftrightarrow> tb_used b + n < 2 ^ 64 \<and> tb_used b + n \<le> tb_maximum b"

definition spend :: "replay_temp_budget \<Rightarrow> nat \<Rightarrow> replay_temp_budget" where
  "spend b n = b\<lparr>tb_used := tb_used b + n\<rparr>"

lemma spend_simps [simp]:
  "tb_used (spend b n) = tb_used b + n" "tb_maximum (spend b n) = tb_maximum b" "spend b 0 = b"
  "spend (spend b n) m = spend b (n + m)"
  by (simp_all add: spend_def add.assoc)

lemma room_spend [simp]: "room (spend b n) m \<longleftrightarrow> room b (n + m)"
  by (simp add: room_def add.assoc)

lemma room_mono: "room b m \<Longrightarrow> n \<le> m \<Longrightarrow> room b n"
  by (simp add: room_def)

lemma temp_reserve_eq: "temp_reserve b n = (if room b n then Inr (spend b n) else Inl InvalidLayout)"
  by (auto simp: temp_reserve_def room_def spend_def Let_def)

lemma write_record_eq:
  "fits f \<Longrightarrow> write_record out f b = (if room b (fact_bytes f) then Inr (out @ enc_fact f, spend b (fact_bytes f)) else Inl InvalidLayout)"
  by (cases f) (simp add: write_record_def fact_bytes_def temp_reserve_eq enc_fact_def MAX_FACT_BYTES_def)

lemma write_facts_eq:
  "\<forall>f\<in>set fs. fits f \<Longrightarrow> room b 0 \<Longrightarrow>
   try_fold (\<lambda>(f, b) r. write_record f r b) (out, b) fs =
     (if room b (total_bytes fs) then Inr (out @ enc_facts fs, spend b (total_bytes fs)) else Inl InvalidLayout)"
proof (induction fs arbitrary: out b)
  case (Cons f fs)
  then show ?case
    by (cases "room b (fact_bytes f)") (auto simp: write_record_eq room_def)
qed simp

section \<open>Merging\<close>

lemma sort_min: "mset xs = add_mset x (mset ys) \<Longrightarrow> (\<And>y. y \<in> set ys \<Longrightarrow> x \<le> y) \<Longrightarrow> sort xs = x # sort ys"
  by (rule properties_for_sort) auto

lemma mset_concat_update:
  "i < length fss \<Longrightarrow> fss ! i = f # gs \<Longrightarrow> mset (concat fss) = add_mset f (mset (concat (fss[i := gs])))"
  by (induction fss arbitrary: i) (auto split: nat.splits simp: nth_Cons')

lemma merge_runs_eq:
  assumes "\<forall>fs\<in>set fss. sorted fs \<and> (\<forall>f\<in>set fs. fits f)" "room b 0"
  shows "merge_runs (map reader_of fss) out b =
    (if room b (total_bytes (concat fss))
     then Inr (out @ enc_facts (sort (concat fss)), spend b (total_bytes (concat fss))) else Inl InvalidLayout)"
  using assms
proof (induction "length (concat fss)" arbitrary: fss out b rule: less_induct)
  case less
  show ?case
  proof (cases "select_reader (map reader_of fss)")
    case None
    then have "\<forall>fs\<in>set fss. fr_current (reader_of fs) = None" by (simp add: select_reader_None)
    then have "\<forall>fs\<in>set fss. fs = []" by (metis list.exhaust option.distinct(1) reader_of_simps(2))
    then have c: "concat fss = []" by simp
    show ?thesis using None less.prems(2) by (simp add: merge_runs.simps[of "map reader_of fss"] c)
  next
    case (Some sel)
    obtain i f where sel: "sel = (i, f)" by (cases sel)
    note s = select_reader_Some[OF Some[unfolded sel]]
    have i: "i < length fss" using s(1) by simp
    obtain gs where gs: "fss ! i = f # gs"
      using s(2) i by (cases "fss ! i") auto
    let ?fss = "fss[i := gs]"
    have m: "mset (concat fss) = add_mset f (mset (concat ?fss))" by (rule mset_concat_update[OF i gs])
    have srt: "\<forall>fs\<in>set fss. sorted fs \<and> (\<forall>f\<in>set fs. fits f)" by (rule less.prems(1))
    have fi: "fits f" "\<forall>g\<in>set gs. fits g" "sorted gs" "\<forall>g\<in>set gs. f \<le> g"
      using srt nth_mem[OF i] gs by force+
    have srt': "\<forall>fs\<in>set ?fss. sorted fs \<and> (\<forall>f\<in>set fs. fits f)"
      using srt fi(2,3) set_update_subset_insert[of fss i gs] by blast
    have min: "f \<le> g" if "g \<in> set (concat ?fss)" for g
    proof -
      have "g \<in> set (concat fss)" using that m by (metis set_mset_mset insertCI set_mset_add_mset_insert)
      then obtain j where j: "j < length fss" "g \<in> set (fss ! j)" by (metis (no_types, lifting) UN_E in_set_conv_nth set_concat)
      then obtain h hs where h: "fss ! j = h # hs" by (cases "fss ! j") auto
      have "f \<le> h" using s(3)[of j h] j(1) h by simp
      moreover have "h \<le> g" using srt j h nth_mem[OF j(1)] by fastforce
      ultimately show ?thesis by (rule order_trans)
    qed
    have tot: "total_bytes (concat fss) = fact_bytes f + total_bytes (concat ?fss)"
      using total_bytes_mset[of "concat fss" "f # concat ?fss"] m by simp
    have srtd: "sort (concat fss) = f # sort (concat ?fss)" by (rule sort_min[OF m min])
    have adv: "reader_advance (map reader_of fss ! i) = Inr (reader_of gs)"
      using i gs fi(2) by (simp add: reader_advance_of reader_of_def)
    have upd: "(map reader_of fss)[i := reader_of gs] = map reader_of ?fss" by (simp add: map_update)
    have len: "length (concat ?fss) < length (concat fss)"
      using m by (metis lessI size_add_mset size_mset)
    show ?thesis
    proof (cases "room b (fact_bytes f)")
      case True
      have "merge_runs (map reader_of fss) out b = merge_runs (map reader_of ?fss) (out @ enc_fact f) (spend b (fact_bytes f))"
        using Some sel True fi(1) adv upd by (simp add: merge_runs.simps[of "map reader_of fss"] write_record_eq)
      then show ?thesis
        using less.hyps[OF len srt', of "spend b (fact_bytes f)" "out @ enc_fact f"] True tot srtd by (simp add: add.commute)
    next
      case False
      then show ?thesis
        using Some sel fi(1) tot room_mono[of b "total_bytes (concat fss)" "fact_bytes f"]
        by (auto simp: merge_runs.simps[of "map reader_of fss"] write_record_eq)
    qed
  qed
qed

section \<open>Sorters\<close>

text \<open>
  The sorter \<open>s\<close> has been given the facts \<open>fs\<close> and has written \<open>w\<close> bytes of runs.
\<close>

definition sorter_holds :: "external_sorter \<Rightarrow> fact list \<Rightarrow> nat \<Rightarrow> bool" where
  "sorter_holds s fs w \<longleftrightarrow>
     (\<exists>fss. es_runs s = map enc_facts fss \<and> (\<forall>gs\<in>set fss. sorted gs) \<and>
        mset fs = mset (concat fss) + mset (es_buffered s) \<and> w = total_bytes (concat fss)) \<and>
     (\<forall>f\<in>set fs. fits f)"

lemma sorter_holds_new: "sorter_holds (sorter_with_run_bytes rb) [] 0" "sorter_holds sorter_new [] 0"
  by (auto simp: sorter_holds_def sorter_with_run_bytes_def sorter_new_def)

lemma sorter_holds_fits: "sorter_holds s fs w \<Longrightarrow> f \<in> set fs \<Longrightarrow> fits f"
  by (simp add: sorter_holds_def)

lemma sorter_written: "sorter_holds s fs w \<Longrightarrow> w + total_bytes (es_buffered s) = total_bytes fs"
proof -
  assume "sorter_holds s fs w"
  then obtain fss where "mset fs = mset (concat fss @ es_buffered s)" "w = total_bytes (concat fss)"
    unfolding sorter_holds_def mset_append by blast
  then show ?thesis using total_bytes_mset[of fs "concat fss @ es_buffered s"] by simp
qed

lemma flush_run_eq:
  assumes "sorter_holds s fs w" "room b 0"
  shows "\<exists>s'. sorter_holds s' fs (total_bytes fs) \<and> es_buffered s' = [] \<and> es_runs s' \<noteq> [] \<and>
    flush_run s b = (if room b (total_bytes fs - w) then Inr (s', spend b (total_bytes fs - w)) else Inl InvalidLayout)"
proof -
  obtain fss where r: "es_runs s = map enc_facts fss" "\<forall>gs\<in>set fss. sorted gs"
      "mset fs = mset (concat fss) + mset (es_buffered s)" "w = total_bytes (concat fss)" "\<forall>f\<in>set fs. fits f"
    using assms(1) by (auto simp: sorter_holds_def)
  have b: "set (es_buffered s) \<subseteq> set fs" using r(3) by (metis set_mset_mset set_mset_union sup.cobounded2)
  have t: "total_bytes (sort (es_buffered s)) = total_bytes fs - w"
    using sorter_written[OF assms(1)] total_bytes_mset[of "sort (es_buffered s)" "es_buffered s"] by simp
  let ?s = "s\<lparr>es_buffered := [], es_buffered_bytes := 0, es_runs := es_runs s @ [enc_facts (sort (es_buffered s))]\<rparr>"
  have "sorter_holds ?s fs (total_bytes fs)"
    using r total_bytes_mset[of fs "concat (fss @ [sort (es_buffered s)])"]
    unfolding sorter_holds_def by (intro conjI exI[of _ "fss @ [sort (es_buffered s)]"]) auto
  moreover have "flush_run s b = (if room b (total_bytes fs - w) then Inr (?s, spend b (total_bytes fs - w)) else Inl InvalidLayout)"
  proof -
    have "\<forall>f\<in>set (sort (es_buffered s)). fits f" using b r(5) by auto
    note write_facts_eq[OF this assms(2), of "[]"]
    then show ?thesis by (simp add: flush_run_def t)
  qed
  ultimately show ?thesis by (intro exI[of _ ?s]) simp
qed

lemma sorter_push_eq:
  assumes "sorter_holds s fs w" "room b 0"
  shows "\<exists>s' w'. w \<le> w' \<and> w' \<le> total_bytes fs \<and> (fits (key, value) \<longrightarrow> sorter_holds s' (fs @ [(key, value)]) w') \<and>
    sorter_push s b key value =
      (if fits (key, value) \<and> room b (w' - w) then Inr (s', spend b (w' - w)) else Inl InvalidLayout)"
proof -
  let ?n = "length key + length value + 8"
  have n: "fact_bytes (key, value) = ?n" by (simp add: fact_bytes_def)
  have big: "2 ^ 64 \<le> ?n \<Longrightarrow> MAX_FACT_BYTES < ?n" by (simp add: MAX_FACT_BYTES_def)
  have grow: "sorter_holds s' fs w' \<Longrightarrow> fits (key, value) \<Longrightarrow>
      sorter_holds (s'\<lparr>es_buffered_bytes := m, es_buffered := es_buffered s' @ [(key, value)]\<rparr>) (fs @ [(key, value)]) w'" for s' w' m
    by (auto simp: sorter_holds_def)
  have w: "w \<le> total_bytes fs" using sorter_written[OF assms(1)] by simp
  show ?thesis
  proof (cases "es_run_bytes s < es_buffered_bytes s + ?n \<and> es_buffered s \<noteq> []")
    case True
    obtain s' where s': "sorter_holds s' fs (total_bytes fs)"
        "flush_run s b = (if room b (total_bytes fs - w) then Inr (s', spend b (total_bytes fs - w)) else Inl InvalidLayout)"
      using flush_run_eq[OF assms] by blast
    show ?thesis
      using True grow[OF s'(1), of "es_buffered_bytes s' + ?n"] s'(2) w big
      by (intro exI[of _ "s'\<lparr>es_buffered_bytes := es_buffered_bytes s' + ?n, es_buffered := es_buffered s' @ [(key, value)]\<rparr>"]
          exI[of _ "total_bytes fs"]) (auto simp: sorter_push_def Let_def n)
  next
    case False
    then show ?thesis
      using grow[OF assms(1), of "es_buffered_bytes s + ?n"] assms(2) w big
      by (intro exI[of _ "s\<lparr>es_buffered_bytes := es_buffered_bytes s + ?n, es_buffered := es_buffered s @ [(key, value)]\<rparr>"]
          exI[of _ w]) (auto simp: sorter_push_def Let_def n)
  qed
qed

lemma sorter_finish_eq:
  assumes "sorter_holds s fs w" "room b 0"
  shows "\<exists>c. total_bytes fs - w \<le> c \<and> c \<le> 2 * total_bytes fs - w \<and>
    sorter_finish s b = (if room b c then Inr (enc_facts (sort fs), spend b c) else Inl InvalidLayout)"
proof -
  have w: "w \<le> total_bytes fs" using sorter_written[OF assms(1)] by simp
  obtain s1 where s1: "sorter_holds s1 fs (total_bytes fs)" "es_buffered s1 = []" "es_runs s1 \<noteq> []"
      "(if es_buffered s \<noteq> [] \<or> es_runs s = [] then flush_run s b else Inr (s, b)) =
         (if room b (total_bytes fs - w) then Inr (s1, spend b (total_bytes fs - w)) else Inl InvalidLayout)"
  proof (cases "es_buffered s \<noteq> [] \<or> es_runs s = []")
    case True
    then show ?thesis using that flush_run_eq[OF assms] by auto
  next
    case False
    then have "total_bytes fs = w" using sorter_written[OF assms(1)] by simp
    then show ?thesis using False assms by (intro that[of s]) simp_all
  qed
  obtain fss where r: "es_runs s1 = map enc_facts fss" "\<forall>gs\<in>set fss. sorted gs" "mset fs = mset (concat fss)"
      "\<forall>f\<in>set fs. fits f"
    using s1(1,2) by (auto simp: sorter_holds_def)
  have srt: "sort (concat fss) = sort fs" by (rule properties_for_sort) (simp_all add: r(3))
  have tot: "total_bytes (concat fss) = total_bytes fs" by (rule total_bytes_mset) (simp add: r(3))
  have fit: "\<forall>gs\<in>set fss. \<forall>f\<in>set gs. fits f"
    using r(3,4) by (metis UN_I set_concat set_mset_mset)
  show ?thesis
  proof (cases "\<exists>gs. fss = [gs]")
    case True
    then obtain gs where gs: "fss = [gs]" by blast
    have "sort fs = gs" using srt r(2) by (simp add: gs sorted_sort_id)
    then show ?thesis
      using s1(4) r(1) gs w unfolding sorter_finish_def by (intro exI[of _ "total_bytes fs - w"]) auto
  next
    case False
    then obtain f g hs where fss: "fss = f # g # hs" using s1(3) r(1) by (cases fss; cases "tl fss") auto
    have rd: "try_map reader_new (map enc_facts fss) = Inr (map reader_of fss)"
      unfolding try_map_map by (rule try_map_total) (use fit reader_new_of in blast)
    have "case_list x (\<lambda>run a. case a of [] \<Rightarrow> y run | _ \<Rightarrow> z) (map enc_facts fss) = z" for x y z
      by (simp add: fss)
    then have "sorter_finish s b = (if room b (total_bytes fs - w)
        then merge_runs (map reader_of fss) [] (spend b (total_bytes fs - w)) else Inl InvalidLayout)"
      using s1(4) rd unfolding sorter_finish_def by (auto simp: r(1) fss)
    also have "\<dots> = (if room b (2 * total_bytes fs - w)
        then Inr (enc_facts (sort fs), spend b (2 * total_bytes fs - w)) else Inl InvalidLayout)"
    proof (cases "room b (total_bytes fs - w)")
      case True
      have "total_bytes fs - w + total_bytes fs = 2 * total_bytes fs - w" using w by simp
      then show ?thesis
        using True merge_runs_eq[of fss "spend b (total_bytes fs - w)" "[]"] r(2) fit srt tot by simp
    next
      case False
      then have "\<not> room b (2 * total_bytes fs - w)" by (auto simp: room_def)
      then show ?thesis using False by simp
    qed
    finally show ?thesis by (intro exI[of _ "2 * total_bytes fs - w"]) simp
  qed
qed

section \<open>Sorting\<close>

text \<open>A sorter fed a list of facts and finished, and the facts a finished file reads back as.\<close>

definition sort_facts :: "nat \<Rightarrow> replay_temp_budget \<Rightarrow> fact list \<Rightarrow> store_error + bytes \<times> replay_temp_budget" where
  "sort_facts run_bytes b fs =
     rbind (try_fold (\<lambda>(s, b) (key, value). sorter_push s b key value) (sorter_with_run_bytes run_bytes, b) fs)
       (\<lambda>(s, b). sorter_finish s b)"

definition read_facts :: "bytes \<Rightarrow> store_error + fact list" where
  "read_facts f = rbind (reader_new f) (while_facts (\<lambda>s x. Inr (s @ [x])) [])"

lemma try_fold_collect: "try_fold (\<lambda>s x. Inr (s @ [x])) s xs = Inr (s @ xs)"
  by (induction xs arbitrary: s) simp_all

lemma read_facts_enc: "\<forall>f\<in>set fs. fits f \<Longrightarrow> read_facts (enc_facts fs) = Inr fs"
  by (simp add: read_facts_def reader_new_of while_facts_of try_fold_collect)

lemma sorter_pushes:
  assumes "sorter_holds s gs w" "room b 0"
  shows "(\<exists>s' w'. try_fold (\<lambda>(s, b) (key, value). sorter_push s b key value) (s, b) fs = Inr (s', spend b (w' - w)) \<and>
        w \<le> w' \<and> room b (w' - w) \<and> sorter_holds s' (gs @ fs) w') \<or>
    (\<exists>e. try_fold (\<lambda>(s, b) (key, value). sorter_push s b key value) (s, b) fs = Inl e \<and>
        (\<not> (\<forall>f\<in>set fs. fits f) \<or> \<not> room b (total_bytes (gs @ fs) - w)))"
  using assms
proof (induction fs arbitrary: s gs w b)
  case Nil
  then show ?case by (intro disjI1 exI[of _ s] exI[of _ w]) simp
next
  case (Cons f fs)
  obtain k v where f: "f = (k, v)" by (cases f)
  obtain s1 w1 where w1: "w \<le> w1" "w1 \<le> total_bytes gs" "fits f \<Longrightarrow> sorter_holds s1 (gs @ [f]) w1"
      "sorter_push s b k v = (if fits f \<and> room b (w1 - w) then Inr (s1, spend b (w1 - w)) else Inl InvalidLayout)"
    using sorter_push_eq[OF Cons.prems, of k v] f by blast
  have le: "w1 - w \<le> total_bytes (gs @ f # fs) - w" using w1(2) by simp
  show ?case
  proof (cases "fits f \<and> room b (w1 - w)")
    case False
    then show ?thesis using w1(4) f room_mono[OF _ le] by auto
  next
    case True
    have step: "try_fold (\<lambda>(s, b) (key, value). sorter_push s b key value) (s, b) (f # fs) =
        try_fold (\<lambda>(s, b) (key, value). sorter_push s b key value) (s1, spend b (w1 - w)) fs"
      using True w1(4) f by simp
    have "room (spend b (w1 - w)) 0" using True by simp
    from Cons.IH[OF w1(3) this] True
    consider (sorted) s' w' where "try_fold (\<lambda>(s, b) (key, value). sorter_push s b key value) (s1, spend b (w1 - w)) fs =
          Inr (s', spend (spend b (w1 - w)) (w' - w1))" "w1 \<le> w'" "room (spend b (w1 - w)) (w' - w1)"
        "sorter_holds s' ((gs @ [f]) @ fs) w'"
      | (failed) e where "try_fold (\<lambda>(s, b) (key, value). sorter_push s b key value) (s1, spend b (w1 - w)) fs = Inl e"
        "\<not> (\<forall>f\<in>set fs. fits f) \<or> \<not> room (spend b (w1 - w)) (total_bytes ((gs @ [f]) @ fs) - w1)"
      by blast
    then show ?thesis
    proof cases
      case h: sorted
      have "w1 - w + (w' - w1) = w' - w" using w1(1) h(2) by simp
      then show ?thesis using h w1(1) step by (intro disjI1 exI[of _ s'] exI[of _ w']) simp
    next
      case h: failed
      have "w1 - w + (total_bytes ((gs @ [f]) @ fs) - w1) = total_bytes (gs @ f # fs) - w" using w1(1,2) by simp
      then show ?thesis using h step by auto
    qed
  qed
qed

text \<open>
  C18: the external sorter sorts. Whatever the run size, a finished sorter's file reads back as the
  sorted list of exactly the facts it was given, and it has used at most two bytes of the temporary
  budget for each byte of the facts; it succeeds whenever every fact is within the fact size and that
  much budget is left.
\<close>

theorem external_sort_exact:
  assumes "room b 0"
  shows "(sort_facts run_bytes b fs = Inr (f, b') \<longrightarrow>
      read_facts f = Inr (sort fs) \<and> (\<forall>x\<in>set fs. fits x) \<and> tb_maximum b' = tb_maximum b \<and>
      tb_used b' \<le> tb_maximum b' \<and> tb_used b' \<le> tb_used b + 2 * total_bytes fs) \<and>
    ((\<forall>x\<in>set fs. fits x) \<and> room b (2 * total_bytes fs) \<longrightarrow> is_ok (sort_facts run_bytes b fs))"
proof -
  consider (sorted) s w where "try_fold (\<lambda>(s, b) (key, value). sorter_push s b key value) (sorter_with_run_bytes run_bytes, b) fs =
      Inr (s, spend b (w - 0))" "room b (w - 0)" "sorter_holds s ([] @ fs) w"
    | (failed) e where "try_fold (\<lambda>(s, b) (key, value). sorter_push s b key value) (sorter_with_run_bytes run_bytes, b) fs = Inl e"
      "\<not> (\<forall>f\<in>set fs. fits f) \<or> \<not> room b (total_bytes ([] @ fs) - 0)"
    using sorter_pushes[OF sorter_holds_new(1) assms, of run_bytes fs] by blast
  then show ?thesis
  proof cases
  case h: sorted
  have w: "w \<le> total_bytes fs" using sorter_written[OF h(3)] by simp
  obtain c where c: "c \<le> 2 * total_bytes fs - w"
      "sorter_finish s (spend b w) = (if room (spend b w) c then Inr (enc_facts (sort fs), spend (spend b w) c) else Inl InvalidLayout)"
    using sorter_finish_eq[OF h(3), of "spend b w"] h(2) by auto
  have e: "sort_facts run_bytes b fs = (if room b (w + c) then Inr (enc_facts (sort fs), spend b (w + c)) else Inl InvalidLayout)"
    using h(1) c(2) by (simp add: sort_facts_def)
  have fit: "\<forall>x\<in>set fs. fits x" using sorter_holds_fits[OF h(3)] by simp
  moreover have "read_facts (enc_facts (sort fs)) = Inr (sort fs)" by (rule read_facts_enc) (simp add: fit)
  moreover have "w + c \<le> 2 * total_bytes fs" using c(1) w by simp
  ultimately show ?thesis using e by (auto simp: room_def)
next
  case failed
  then show ?thesis by (auto simp: sort_facts_def room_def)
  qed
qed

end
