(* ===== verification/Wj_Replay.thy ===== *)
theory Wj_Replay
  imports Wj_Sorter
begin

text \<open>
  \<open>store/streaming.rs\<close>, bounded replay: the canonical files are spooled into one payload file and
  a sorted index, the facts that global validation needs are extracted in one pass into external
  sorters, and identity, ownership and the built-in folds are validated by merging the sorted facts,
  without holding the store in memory.
\<close>

section \<open>The replay file\<close>

record canonical_replay_builder =
  rb_payloads :: bytes
  rb_entries :: external_sorter
  rb_budget :: replay_temp_budget
  rb_offset :: nat
  rb_total :: nat

record canonical_replay =
  cr_payloads :: bytes
  cr_entries :: bytes
  cr_budget :: replay_temp_budget

definition reserve_streamed_visible_bytes :: "nat \<Rightarrow> nat \<Rightarrow> store_error + nat" where
  "reserve_streamed_visible_bytes t n =
     (if 2 ^ 64 \<le> t + n then Inl InvalidLayout
      else if MAX_TOTAL_CANONICAL_BYTES < t + n then Inl InvalidLayout else Inr (t + n))"

definition replay_builder :: canonical_replay_builder where
  "replay_builder =
     \<lparr>rb_payloads = [], rb_entries = sorter_new, rb_budget = temp_budget_new MAX_REPLAY_TEMPORARY_BYTES,
      rb_offset = 0, rb_total = 0\<rparr>"

definition location_bytes :: "nat \<Rightarrow> nat \<Rightarrow> bytes" where
  "location_bytes offset n = be_bytes 8 offset @ be_bytes 4 n"

definition builder_push ::
  "ext \<Rightarrow> canonical_replay_builder \<Rightarrow> raw_file \<Rightarrow> store_error + canonical_replay_builder" where
  "builder_push X B f =
     (case canonical_file_limit (classify_path X (rf_path f)) of
        None \<Rightarrow> Inl (Corrupt (InvalidCanonicalFile (rf_path f)))
      | Some limit \<Rightarrow>
          if limit < length (rf_bytes f) then Inl InvalidLayout
          else rbind (reserve_streamed_visible_bytes (rb_total B) (length (rf_bytes f))) (\<lambda>t.
          rbind (temp_reserve (rb_budget B) (length (rf_bytes f))) (\<lambda>b.
          if 2 ^ 32 \<le> length (rf_bytes f) then Inl InvalidLayout
          else rbind (sorter_push (rb_entries B) b (rf_path f) (location_bytes (rb_offset B) (length (rf_bytes f)))) (\<lambda>(s, b).
          if 2 ^ 64 \<le> rb_offset B + length (rf_bytes f) then Inl InvalidLayout
          else Inr \<lparr>rb_payloads = rb_payloads B @ rf_bytes f, rb_entries = s, rb_budget = b,
                rb_offset = rb_offset B + length (rf_bytes f), rb_total = t\<rparr>))))"

definition builder_finish :: "canonical_replay_builder \<Rightarrow> store_error + canonical_replay" where
  "builder_finish B =
     rbind (sorter_finish (rb_entries B) (rb_budget B)) (\<lambda>(entries, b).
     rbind (reader_new entries) (\<lambda>reader.
     rbind (while_facts (\<lambda>budget (path, _). ok_or InvalidLayout (push_sorted_file budget path (sl_entries DEFAULT_SCAN_LIMITS)))
       entry_budget_new reader) (\<lambda>_.
     Inr \<lparr>cr_payloads = rb_payloads B, cr_entries = entries, cr_budget = b\<rparr>)))"

definition decode_location :: "bytes \<Rightarrow> store_error + nat \<times> nat" where
  "decode_location v =
     (if length v \<noteq> 12 then Inl InvalidLayout else Inr (from_be_bytes (take 8 v), from_be_bytes (drop 8 v)))"

definition read_at :: "bytes \<Rightarrow> nat \<Rightarrow> nat \<Rightarrow> bytes \<Rightarrow> store_error + raw_file" where
  "read_at payloads offset n path =
     (if 0 < n \<and> length payloads < offset + n then Inl (StoreIo IoUnexpectedEof)
      else Inr \<lparr>rf_path = path, rf_bytes = take n (drop offset payloads)\<rparr>)"

definition load_file :: "bytes \<Rightarrow> fact \<Rightarrow> store_error + raw_file \<times> nat" where
  "load_file payloads = (\<lambda>(path, location).
     rbind (decode_location location) (\<lambda>(offset, n).
     rbind (read_at payloads offset n path) (\<lambda>f. Inr (f, offset))))"

text \<open>\<open>while let Some((file, offset)) = cursor.next_file()? { body }\<close> over a fresh cursor.\<close>

definition while_files ::
  "('s \<Rightarrow> raw_file \<Rightarrow> nat \<Rightarrow> store_error + 's) \<Rightarrow> 's \<Rightarrow> canonical_replay \<Rightarrow> store_error + 's" where
  "while_files body s rep =
     rbind (reader_new (cr_entries rep)) (\<lambda>r.
     while_facts (\<lambda>s f. rbind (load_file (cr_payloads rep) f) (\<lambda>(file, offset). body s file offset)) s r)"

section \<open>Legacy entries\<close>

datatype legacy_streaming_error =
    UnsupportedFullDomain
  | LegacySource string
  | LegacyInvalid string

fun legacy_error_text :: "legacy_streaming_error \<Rightarrow> string" where
  "legacy_error_text UnsupportedFullDomain = ''the legacy adapter does not support bounded full-domain streaming''"
| "legacy_error_text (LegacySource m) = ''the legacy entry source failed: '' @ m"
| "legacy_error_text (LegacyInvalid m) = ''legacy validation failed: '' @ m"

text \<open>
  A call of an adapter's \<open>validate_stream\<close>: it pulls entries from the source it is handed, each
  answer deciding how it goes on, and returns. The tree is well-founded: an adapter that reads until
  its source is exhausted is a tree deep enough for the entries a store can hold.
\<close>

datatype legacy_consumer =
    Return "legacy_streaming_error + unit"
  | Pull "string + legacy_entry option \<Rightarrow> legacy_consumer"

record replay_legacy_source =
  ls_reader :: fact_reader
  ls_error :: "store_error option"
  ls_done :: bool

definition next_entry ::
  "ext \<Rightarrow> bytes \<Rightarrow> replay_legacy_source \<Rightarrow> (string + legacy_entry option) \<times> replay_legacy_source" where
  "next_entry X payloads src =
     (if ls_done src then (Inr None, src)
      else case reader_take (ls_reader src) of
        Inl e \<Rightarrow> (Inl ''canonical replay source failed'',
          src\<lparr>ls_reader := (ls_reader src)\<lparr>fr_current := None\<rparr>, ls_error := Some e\<rparr>)
      | Inr (None, r) \<Rightarrow> (Inr None, src\<lparr>ls_reader := r, ls_done := True\<rparr>)
      | Inr (Some f, r) \<Rightarrow>
          (let src = src\<lparr>ls_reader := r\<rparr> in
           case load_file payloads f of
             Inl e \<Rightarrow> (Inl ''canonical replay source failed'', src\<lparr>ls_error := Some e\<rparr>)
           | Inr (file, _) \<Rightarrow>
               let class = classify_path X (rf_path file) in
               if class = LegacyEvent \<or> class = LegacyBatch
               then (Inr (Some (rf_path file, rf_bytes file, class)), src)
               else if class = JournalRecord \<or> class = JournalBatch
               then (Inr None, src\<lparr>ls_done := True\<rparr>)
               else (Inl ''canonical replay path classification failed'',
                 src\<lparr>ls_error := Some (Corrupt (InvalidCanonicalFile (rf_path file)))\<rparr>)))"

primrec run_consumer ::
  "ext \<Rightarrow> bytes \<Rightarrow> legacy_consumer \<Rightarrow> replay_legacy_source \<Rightarrow>
   (legacy_streaming_error + unit) \<times> replay_legacy_source" where
  "run_consumer X payloads (Return r) = (\<lambda>src. (r, src))"
| "run_consumer X payloads (Pull k) =
     (\<lambda>src. case next_entry X payloads src of (a, src) \<Rightarrow> run_consumer X payloads (k a) src)"

lemma next_entry_weight:
  "next_entry X payloads src = (Inr (Some e), src') \<Longrightarrow> reader_weight (ls_reader src') < reader_weight (ls_reader src)"
  using reader_take_weight[of "ls_reader src"]
  by (auto simp: next_entry_def Let_def split: if_splits sum.splits option.splits prod.splits)

function drain_source ::
  "ext \<Rightarrow> bytes \<Rightarrow> replay_legacy_source \<Rightarrow> bool \<Rightarrow> store_error + bool" where
  "drain_source X payloads src unconsumed =
     (case next_entry X payloads src of
        (Inr (Some _), src) \<Rightarrow> drain_source X payloads src True
      | (Inr None, src) \<Rightarrow> Inr unconsumed
      | (Inl _, src) \<Rightarrow>
          Inl (case ls_error src of
                 Some e \<Rightarrow> e
               | None \<Rightarrow> Corrupt (InvalidLegacy ''bounded replay legacy source failed while checking exhaustion'')))"
  by pat_completeness auto
termination
  by (relation "measure (\<lambda>(X, payloads, src, unconsumed). reader_weight (ls_reader src))")
    (auto dest: next_entry_weight[OF sym])

declare drain_source.simps [simp del]

definition validate_legacy :: "ext \<Rightarrow> legacy_consumer \<Rightarrow> canonical_replay \<Rightarrow> store_error + unit" where
  "validate_legacy X V rep =
     rbind (reader_new (cr_entries rep)) (\<lambda>r.
     case run_consumer X (cr_payloads rep) V \<lparr>ls_reader = r, ls_error = None, ls_done = False\<rparr> of
       (validation, src) \<Rightarrow>
         (case ls_error src of
            Some e \<Rightarrow> Inl e
          | None \<Rightarrow>
              rbind (drain_source X (cr_payloads rep) src False) (\<lambda>unconsumed.
              if is_ok validation \<and> unconsumed
              then Inl (Corrupt (InvalidLegacy ''bounded legacy adapter did not consume every legacy entry''))
              else map_err (\<lambda>e. Corrupt (InvalidLegacy (legacy_error_text e))) validation)))"

section \<open>Fields\<close>

text \<open>\<open>u16::try_from(..).expect(..)\<close> panics on a longer field.\<close>

definition encode_fields :: "bytes list \<Rightarrow> store_error + bytes" where
  "encode_fields values =
     rbind (try_map (\<lambda>v. if 2 ^ 16 \<le> length v then Inl StorePanic else Inr (be_bytes 2 (length v) @ v)) values)
       (\<lambda>parts. Inr (concat parts))"

text \<open>The field loop of both parsers: the fields and what is left behind the cursor.\<close>

fun take_fields :: "nat \<Rightarrow> bytes \<Rightarrow> (bytes list \<times> bytes) option" where
  "take_fields 0 bs = Some ([], bs)"
| "take_fields (Suc n) bs =
     (if length bs < 2 then None
      else let len = from_be_bytes (take 2 bs); rest = drop 2 bs in
        if length rest < len then None
        else map_option (\<lambda>(fs, tail). (take len rest # fs, tail)) (take_fields n (drop len rest)))"

definition parse_fields :: "bytes \<Rightarrow> nat \<Rightarrow> store_error + bytes list" where
  "parse_fields v expected =
     (case take_fields expected v of
        Some (fs, tail) \<Rightarrow> if tail = [] then Inr fs else Inl InvalidLayout
      | None \<Rightarrow> Inl InvalidLayout)"

text \<open>\<open>usize::to_string\<close> and \<open>str::parse::<usize>\<close>.\<close>

fun usize_to_string :: "nat \<Rightarrow> string" where
  "usize_to_string n =
     (if n < 10 then [char_of (48 + n)] else usize_to_string (n div 10) @ [char_of (48 + n mod 10)])"

declare usize_to_string.simps [simp del]

definition decimal_digit :: "char \<Rightarrow> nat option" where
  "decimal_digit c = (if CHR ''0'' \<le> c \<and> c \<le> CHR ''9'' then Some (of_char c - 48) else None)"

definition usize_from_str :: "string \<Rightarrow> nat option" where
  "usize_from_str s =
     (let digits = (if s \<noteq> [] \<and> hd s = CHR ''+'' then tl s else s) in
      if digits = [] then None
      else case option_map decimal_digit digits of
        None \<Rightarrow> None
      | Some ds \<Rightarrow> let n = foldl (\<lambda>a d. a * 10 + d) 0 ds in if n < 2 ^ 64 then Some n else None)"

definition parse_batch :: "ext \<Rightarrow> bytes \<Rightarrow> store_error + batch_id" where
  "parse_batch X bs = (if is_str bs then map_err (\<lambda>_. InvalidLayout) (batch_id_from_str X bs) else Inl InvalidLayout)"

definition parse_digest :: "ext \<Rightarrow> bytes \<Rightarrow> store_error + digest" where
  "parse_digest X bs = (if is_str bs then map_err (\<lambda>_. InvalidLayout) (digest_parse X bs) else Inl InvalidLayout)"

definition parse_usize :: "bytes \<Rightarrow> store_error + nat" where
  "parse_usize bs = (if is_str bs then ok_or InvalidLayout (usize_from_str bs) else Inl InvalidLayout)"

section \<open>Collecting the facts\<close>

record validated_record_subject =
  vr_domain :: domain_id
  vr_entity :: entity_id

record fact_state =
  fs_record_ids :: external_sorter
  fs_records :: external_sorter
  fs_idempotency :: external_sorter
  fs_claims :: external_sorter
  fs_headers :: external_sorter
  fs_budget :: replay_temp_budget
  fs_revision :: store_revision_accumulator
  fs_manifest_count :: nat
  fs_record_count :: nat
  fs_first_batch :: "(batch_id \<times> nat \<times> record_id option) option"
  fs_unsupported :: bool
  fs_genesis_count :: nat
  fs_genesis :: "(bytes \<times> nat \<times> nat) option"
  fs_reserved :: bool
  fs_subject :: "validated_record_subject option"

definition push_record_id :: "bytes \<Rightarrow> bytes \<Rightarrow> fact_state \<Rightarrow> store_error + fact_state" where
  "push_record_id key v st =
     rbind (sorter_push (fs_record_ids st) (fs_budget st) key v) (\<lambda>(s, b). Inr (st\<lparr>fs_record_ids := s, fs_budget := b\<rparr>))"

definition push_record :: "bytes \<Rightarrow> bytes \<Rightarrow> fact_state \<Rightarrow> store_error + fact_state" where
  "push_record key v st =
     rbind (sorter_push (fs_records st) (fs_budget st) key v) (\<lambda>(s, b). Inr (st\<lparr>fs_records := s, fs_budget := b\<rparr>))"

definition push_idempotency :: "bytes \<Rightarrow> bytes \<Rightarrow> fact_state \<Rightarrow> store_error + fact_state" where
  "push_idempotency key v st =
     rbind (sorter_push (fs_idempotency st) (fs_budget st) key v) (\<lambda>(s, b). Inr (st\<lparr>fs_idempotency := s, fs_budget := b\<rparr>))"

definition push_claim :: "bytes \<Rightarrow> bytes \<Rightarrow> fact_state \<Rightarrow> store_error + fact_state" where
  "push_claim key v st =
     rbind (sorter_push (fs_claims st) (fs_budget st) key v) (\<lambda>(s, b). Inr (st\<lparr>fs_claims := s, fs_budget := b\<rparr>))"

definition push_header :: "bytes \<Rightarrow> bytes \<Rightarrow> fact_state \<Rightarrow> store_error + fact_state" where
  "push_header key v st =
     rbind (sorter_push (fs_headers st) (fs_budget st) key v) (\<lambda>(s, b). Inr (st\<lparr>fs_headers := s, fs_budget := b\<rparr>))"

definition idempotency_fact_key :: "batch_manifest \<Rightarrow> bytes" where
  "idempotency_fact_key m = bm_actor m @ [CHR 0x00] @ bm_key_digest m"

definition header_fields :: "ext \<Rightarrow> batch_manifest \<Rightarrow> bytes list" where
  "header_fields X m = [bm_actor m, digest_to_string X (bm_request m), usize_to_string (length (bm_members m))]"

definition claim_fields :: "ext \<Rightarrow> batch_manifest \<Rightarrow> record_ref \<Rightarrow> bytes list" where
  "claim_fields X m ref =
     [uuid_to_string X (bm_batch m), bm_actor m, digest_to_string X (bm_request m), uuid_to_string X (ref_id ref),
      ref_schema ref, digest_to_string X (ref_digest ref)]"

definition collect_manifest :: "ext \<Rightarrow> batch_manifest \<Rightarrow> fact_state \<Rightarrow> store_error + fact_state" where
  "collect_manifest X m st =
     (let batch = uuid_to_string X (bm_batch m);
          st = st\<lparr>fs_manifest_count := Suc (fs_manifest_count st),
            fs_first_batch := (case fs_first_batch st of
                None \<Rightarrow> Some (bm_batch m, length (bm_members m),
                  (case bm_members m of [] \<Rightarrow> None | ref # _ \<Rightarrow> Some (ref_id ref)))
              | Some x \<Rightarrow> Some x)\<rparr> in
      rbind (push_idempotency (idempotency_fact_key m) batch st) (\<lambda>st.
      rbind (encode_fields (header_fields X m)) (\<lambda>header.
      rbind (push_header batch header st) (\<lambda>st.
      try_fold (\<lambda>st ref. rbind (encode_fields (claim_fields X m ref)) (\<lambda>claim. push_claim (ref_path ref) claim st))
        st (bm_members m)))))"

definition collect_record ::
  "ext \<Rightarrow> record_id option \<Rightarrow> wj_record \<Rightarrow> raw_file \<Rightarrow> nat \<Rightarrow> fact_state \<Rightarrow> store_error + fact_state" where
  "collect_record X query r f offset st =
     (let st = st\<lparr>fs_record_count := Suc (fs_record_count st)\<rparr> in
      rbind (push_record_id (uuid_to_string X (r_id r)) (rf_path f) st) (\<lambda>st.
      let st = (if query = Some (r_id r)
            then st\<lparr>fs_subject := Some \<lparr>vr_domain = r_domain r, vr_entity = r_entity r\<rparr>\<rparr> else st) in
      if 2 ^ 32 \<le> length (rf_bytes f) then Inl StorePanic
      else rbind (push_record (rf_path f) (location_bytes offset (length (rf_bytes f))) st) (\<lambda>st.
      let st = (if builtin_domain (r_domain r) then st\<lparr>fs_reserved := True\<rparr> else st);
          st = (if r_domain r = ''wayjournal.identity'' \<and> r_schema r \<noteq> IDENTITY_SCHEMA_V1
                then st\<lparr>fs_unsupported := True\<rparr> else st) in
      if r_domain r = ''wayjournal.identity'' \<and> r_schema r = IDENTITY_SCHEMA_V1 \<and> r_kind r = ''store.genesis''
      then Inr (st\<lparr>fs_genesis_count := Suc (fs_genesis_count st),
             fs_genesis := (case fs_genesis st of None \<Rightarrow> Some (rf_path f, offset, length (rf_bytes f)) | Some g \<Rightarrow> Some g)\<rparr>)
      else Inr st)))"

definition collect_fact ::
  "ext \<Rightarrow> domain_registry \<Rightarrow> record_id option \<Rightarrow> fact_state \<Rightarrow> raw_file \<Rightarrow> nat \<Rightarrow> store_error + fact_state" where
  "collect_fact X R query st f offset =
     rbind (map_err (\<lambda>e. Corrupt (InvalidRevisionEntry e))
       (accumulator_push X (fs_revision st) (rf_path f) (rf_bytes f))) (\<lambda>revision.
     let st = st\<lparr>fs_revision := revision\<rparr> in
     case classify_path X (rf_path f) of
       LegacyEvent \<Rightarrow> Inr st
     | LegacyBatch \<Rightarrow> Inr st
     | JournalBatch \<Rightarrow>
         rbind (map_err (\<lambda>e. Corrupt (InvalidManifestFile (rf_path f) e))
           (decode_batch_manifest X (rf_bytes f))) (\<lambda>m.
         if manifest_canonical_path X m \<noteq> rf_path f then Inl (Corrupt (InvalidCanonicalFile (rf_path f)))
         else collect_manifest X m st)
     | JournalRecord \<Rightarrow>
         rbind (map_err (\<lambda>e. Corrupt (InvalidRecordFile (rf_path f) e)) (decode_record X (rf_bytes f) R)) (\<lambda>r.
         if record_canonical_path X r \<noteq> rf_path f then Inl (Corrupt (InvalidCanonicalFile (rf_path f)))
         else collect_record X query r f offset st)
     | _ \<Rightarrow> Inl (Corrupt (InvalidCanonicalFile (rf_path f))))"

definition fact_state_new :: "replay_temp_budget \<Rightarrow> fact_state" where
  "fact_state_new b =
     \<lparr>fs_record_ids = sorter_new, fs_records = sorter_new, fs_idempotency = sorter_new, fs_claims = sorter_new,
      fs_headers = sorter_new, fs_budget = b, fs_revision = accumulator_new, fs_manifest_count = 0,
      fs_record_count = 0, fs_first_batch = None, fs_unsupported = False, fs_genesis_count = 0, fs_genesis = None,
      fs_reserved = False, fs_subject = None\<rparr>"

record replay_facts =
  rp_revision :: store_revision_ref
  rp_record_ids :: bytes
  rp_records :: bytes
  rp_idempotency :: bytes
  rp_claims :: bytes
  rp_headers :: bytes
  rp_manifest_count :: nat
  rp_record_count :: nat
  rp_first_batch :: "(batch_id \<times> nat \<times> record_id option) option"
  rp_unsupported :: bool
  rp_genesis_count :: nat
  rp_genesis :: "(bytes \<times> nat \<times> nat) option"
  rp_reserved :: bool
  rp_subject :: "validated_record_subject option"

definition collect_facts ::
  "ext \<Rightarrow> domain_registry \<Rightarrow> canonical_replay \<Rightarrow> record_id option \<Rightarrow> store_error + replay_facts \<times> replay_temp_budget" where
  "collect_facts X R rep query =
     rbind (while_files (collect_fact X R query) (fact_state_new (cr_budget rep)) rep) (\<lambda>st.
     rbind (sorter_finish (fs_record_ids st) (fs_budget st)) (\<lambda>(record_ids, b).
     rbind (sorter_finish (fs_records st) b) (\<lambda>(records, b).
     rbind (sorter_finish (fs_idempotency st) b) (\<lambda>(idempotency, b).
     rbind (sorter_finish (fs_claims st) b) (\<lambda>(claims, b).
     rbind (sorter_finish (fs_headers st) b) (\<lambda>(headers, b).
     Inr (\<lparr>rp_revision = accumulator_finish X (fs_revision st), rp_record_ids = record_ids, rp_records = records,
           rp_idempotency = idempotency, rp_claims = claims, rp_headers = headers,
           rp_manifest_count = fs_manifest_count st, rp_record_count = fs_record_count st,
           rp_first_batch = fs_first_batch st, rp_unsupported = fs_unsupported st,
           rp_genesis_count = fs_genesis_count st, rp_genesis = fs_genesis st, rp_reserved = fs_reserved st,
           rp_subject = fs_subject st\<rparr>, b)))))))"

section \<open>Duplicates\<close>

text \<open>
  The inner loop that takes the following facts of the same key, and the loop over the keys. \<open>read\<close>
  turns a value into what is collected, \<open>check\<close> judges one key.
\<close>

lemma reader_take_current:
  "reader_take r = Inr (c, r') \<Longrightarrow> fr_current r \<noteq> None \<Longrightarrow> reader_weight r' < reader_weight r"
  using reader_advance_weight[of r r'] by (cases "fr_current r") (auto simp: reader_take_def result_simps)

lemma reader_take_less:
  "reader_take r = Inr (c, r') \<Longrightarrow> fr_current r = Some f \<Longrightarrow> reader_weight r' < reader_weight r"
  using reader_take_current[of r c r'] by simp

function take_same ::
  "(bytes \<Rightarrow> store_error + 'a) \<Rightarrow> bytes \<Rightarrow> 'a list \<Rightarrow> fact_reader \<Rightarrow> store_error + 'a list \<times> fact_reader" where
  "take_same read key xs r =
     (case fr_current r of
        Some (k, v) \<Rightarrow>
          if k = key then
            rbind (reader_take r) (\<lambda>(_, r). rbind (read v) (\<lambda>x. take_same read key (xs @ [x]) r))
          else Inr (xs, r)
      | None \<Rightarrow> Inr (xs, r))"
  by pat_completeness auto
termination
  by (relation "measure (\<lambda>(read, key, xs, r). reader_weight r)") (auto dest: reader_take_current)

declare take_same.simps [simp del]

lemma take_same_weight: "take_same read key xs r = Inr (ys, r') \<Longrightarrow> reader_weight r' \<le> reader_weight r"
proof (induction read key xs r rule: take_same.induct)
  case (1 read key xs r)
  show ?case
  proof (cases "\<exists>v. fr_current r = Some (key, v)")
    case True
    then obtain v c r1 x where h: "fr_current r = Some (key, v)" "reader_take r = Inr (c, r1)" "read v = Inr x"
        "take_same read key (xs @ [x]) r1 = Inr (ys, r')"
      using 1(2) by (auto simp: take_same.simps[of _ _ _ r] result_simps)
    have "reader_weight r' \<le> reader_weight r1" using 1(1)[OF h(1) refl refl h(2) refl h(3) h(4)] .
    then show ?thesis using reader_take_current[OF h(2)] h(1) by simp
  next
    case False
    then show ?thesis
      using 1(2) by (auto simp: take_same.simps[of _ _ _ r] split: option.splits if_splits)
  qed
qed

function each_key ::
  "(bytes \<Rightarrow> store_error + 'a) \<Rightarrow> (bytes \<Rightarrow> 'a list \<Rightarrow> store_error + unit) \<Rightarrow> fact_reader \<Rightarrow> store_error + unit" where
  "each_key read check r =
     rbind (reader_take r) (\<lambda>(c, r).
     case c of
       None \<Rightarrow> Inr ()
     | Some (key, v) \<Rightarrow>
         rbind (read v) (\<lambda>x.
         rbind (take_same read key [x] r) (\<lambda>(xs, r).
         rbind (check key xs) (\<lambda>_. each_key read check r))))"
  by pat_completeness auto
termination
  by (relation "measure (\<lambda>(read, check, r). reader_weight r)")
    (auto dest!: reader_take_weight take_same_weight)

declare each_key.simps [simp del]

definition duplicate_record_id :: "ext \<Rightarrow> bytes \<Rightarrow> bytes list \<Rightarrow> store_error + unit" where
  "duplicate_record_id X key paths =
     (if 1 < length paths then
        (if is_str key then
           (case record_id_from_str X key of
              Inr rid \<Rightarrow> Inl (Corrupt (DuplicateGlobalRecordId rid (sort paths)))
            | Inl _ \<Rightarrow> Inl InvalidLayout)
         else Inl InvalidLayout)
      else Inr ())"

definition validate_duplicate_record_ids :: "ext \<Rightarrow> bytes \<Rightarrow> store_error + unit" where
  "validate_duplicate_record_ids X facts =
     rbind (reader_new facts) (each_key Inr (duplicate_record_id X))"

definition validate_duplicate_idempotency :: "ext \<Rightarrow> bytes \<Rightarrow> store_error + unit" where
  "validate_duplicate_idempotency X facts =
     rbind (reader_new facts) (each_key (parse_batch X) (\<lambda>_ batch_ids.
       if 1 < length batch_ids then Inl (Corrupt (GenericOwnership (DuplicateIdempotencyOwnership batch_ids)))
       else Inr ()))"

section \<open>Ownership\<close>

definition push_enriched ::
  "external_sorter \<Rightarrow> replay_temp_budget \<Rightarrow> bytes \<Rightarrow> bytes \<Rightarrow> (nat \<times> nat) option \<Rightarrow>
   store_error + external_sorter \<times> replay_temp_budget" where
  "push_enriched s b path claim location =
     rbind (parse_fields claim 6) (\<lambda>fs.
     rbind (encode_fields (path # tl fs)) (\<lambda>v.
     rbind (case location of
         Some (offset, n) \<Rightarrow> if 2 ^ 32 \<le> n then Inl StorePanic else Inr (v @ [CHR 0x01] @ location_bytes offset n)
       | None \<Rightarrow> Inr (v @ [CHR 0x00])) (\<lambda>v.
     sorter_push s b (hd fs @ [CHR 0x00] @ path) v)))"

text \<open>All claims on one record; the count of its owners.\<close>

function claim_owners ::
  "bytes \<Rightarrow> nat \<times> nat \<Rightarrow> fact_reader \<Rightarrow> external_sorter \<Rightarrow> replay_temp_budget \<Rightarrow> nat \<Rightarrow>
   store_error + fact_reader \<times> external_sorter \<times> replay_temp_budget \<times> nat" where
  "claim_owners path location claims s b n =
     (case fr_current claims of
        Some (candidate, v) \<Rightarrow>
          if candidate = path then
            rbind (reader_take claims) (\<lambda>(_, claims).
            rbind (push_enriched s b path v (Some location)) (\<lambda>(s, b).
            claim_owners path location claims s b (Suc n)))
          else Inr (claims, s, b, n)
      | None \<Rightarrow> Inr (claims, s, b, n))"
  by pat_completeness auto
termination
  by (relation "measure (\<lambda>(path, location, claims, s, b, n). reader_weight claims)")
    (auto dest: reader_take_current)

declare claim_owners.simps [simp del]

lemma claim_owners_weight:
  "claim_owners path location claims s b n = Inr (claims', x) \<Longrightarrow> reader_weight claims' \<le> reader_weight claims"
proof (induction path location claims s b n rule: claim_owners.induct)
  case (1 path location claims s b n)
  show ?case
  proof (cases "\<exists>v. fr_current claims = Some (path, v)")
    case True
    then obtain v c r1 s1 b1 where h: "fr_current claims = Some (path, v)" "reader_take claims = Inr (c, r1)"
        "push_enriched s b path v (Some location) = Inr (s1, b1)"
        "claim_owners path location r1 s1 b1 (Suc n) = Inr (claims', x)"
      using 1(2) by (auto simp: claim_owners.simps[of _ _ claims] result_simps)
    have "reader_weight claims' \<le> reader_weight r1" using 1(1)[OF h(1) refl refl h(2) refl h(3) refl h(4)] .
    then show ?thesis using reader_take_current[OF h(2)] h(1) by simp
  next
    case False
    then show ?thesis
      using 1(2) by (auto simp: claim_owners.simps[of _ _ claims] split: option.splits if_splits)
  qed
qed

lemma owners_step_less:
  assumes "reader_take records = Inr (c, records')" "Some f = fr_current records"
    "claim_owners path location claims s b n = Inr (claims', x)"
  shows "reader_weight claims' + reader_weight records' < reader_weight claims + reader_weight records"
  using reader_take_less[OF assms(1) assms(2)[symmetric]] claim_owners_weight[OF assms(3)] by simp

definition first_issue :: "batch_error option \<Rightarrow> batch_error \<Rightarrow> batch_error option" where
  "first_issue issue e = (case issue of None \<Rightarrow> Some e | Some e \<Rightarrow> Some e)"

function merge_claims ::
  "fact_reader \<Rightarrow> fact_reader \<Rightarrow> external_sorter \<Rightarrow> replay_temp_budget \<Rightarrow> batch_error option \<Rightarrow>
   store_error + external_sorter \<times> replay_temp_budget \<times> batch_error option" where
  "merge_claims claims records s b issue =
     (case (fr_current claims, fr_current records) of
        (None, None) \<Rightarrow> Inr (s, b, issue)
      | (Some (cp, v), Some (rp, location)) \<Rightarrow>
          if cp < rp then
            rbind (reader_take claims) (\<lambda>(_, claims).
            rbind (push_enriched s b cp v None) (\<lambda>(s, b).
            merge_claims claims records s b issue))
          else if rp < cp then
            rbind (reader_take records) (\<lambda>(_, records).
            merge_claims claims records s b (first_issue issue (UnownedRecord rp)))
          else
            rbind (reader_take records) (\<lambda>(_, records).
            rbind (decode_location location) (\<lambda>location.
            rbind (claim_owners cp location claims s b 0) (\<lambda>(claims, s, b, n).
            merge_claims claims records s b
              (if 1 < n then first_issue issue (MultiplyOwnedRecord cp) else issue))))
      | (Some (cp, v), None) \<Rightarrow>
          rbind (reader_take claims) (\<lambda>(_, claims).
          rbind (push_enriched s b cp v None) (\<lambda>(s, b).
          merge_claims claims records s b issue))
      | (None, Some (rp, _)) \<Rightarrow>
          rbind (reader_take records) (\<lambda>(_, records).
          merge_claims claims records s b (first_issue issue (UnownedRecord rp))))"
  by pat_completeness auto
termination
proof (relation "measure (\<lambda>(claims, records, s, b, issue). reader_weight claims + reader_weight records)", goal_cases)
  case (2 claims records s b issue)
  then show ?case by (auto dest: reader_take_less[OF _ sym] owners_step_less)
next
  case (3 claims records s b issue)
  then show ?case by (auto dest: reader_take_less[OF _ sym] owners_step_less)
next
  case (4 claims records s b issue)
  then show ?case by (auto dest: reader_take_less[OF _ sym] owners_step_less)
next
  case (5 claims records s b issue)
  then show ?case by (auto dest: reader_take_less[OF _ sym] owners_step_less)
next
  case (6 claims records s b issue)
  then show ?case by (auto dest: reader_take_less[OF _ sym] owners_step_less)
qed simp

declare merge_claims.simps [simp del]

section \<open>Batches\<close>

record member_status =
  ms_path :: bytes
  ms_record_id :: record_id
  ms_schema :: string
  ms_digest :: digest
  ms_location :: "(nat \<times> nat) option"

definition parse_enriched_status :: "bytes \<Rightarrow> store_error + bytes list \<times> (nat \<times> nat) option" where
  "parse_enriched_status v =
     (case take_fields 6 v of
        None \<Rightarrow> Inl InvalidLayout
      | Some (fs, tail) \<Rightarrow>
          if tail = [CHR 0x00] then Inr (fs, None)
          else if tail \<noteq> [] \<and> hd tail = CHR 0x01 \<and> length (tl tail) = 12
          then Inr (fs, Some (from_be_bytes (take 8 (tl tail)), from_be_bytes (drop 8 (tl tail))))
          else Inl InvalidLayout)"

definition parse_status :: "ext \<Rightarrow> bytes \<Rightarrow> store_error + member_status" where
  "parse_status X v =
     rbind (parse_enriched_status v) (\<lambda>(fs, location).
     rbind (if is_str (fs ! 3) then map_err (\<lambda>_. InvalidLayout) (record_id_from_str X (fs ! 3)) else Inl InvalidLayout) (\<lambda>rid.
     if \<not> is_str (fs ! 4) then Inl InvalidLayout
     else rbind (parse_digest X (fs ! 5)) (\<lambda>digest.
     Inr \<lparr>ms_path = fs ! 0, ms_record_id = rid, ms_schema = fs ! 4, ms_digest = digest, ms_location = location\<rparr>)))"

definition key_of_batch :: "bytes \<Rightarrow> bytes \<Rightarrow> bool" where
  "key_of_batch key batch \<longleftrightarrow> starts_with key batch \<and> length batch < length key \<and> key ! length batch = CHR 0x00"

function take_statuses ::
  "ext \<Rightarrow> bytes \<Rightarrow> member_status list \<Rightarrow> fact_reader \<Rightarrow> store_error + member_status list \<times> fact_reader" where
  "take_statuses X batch xs r =
     (case fr_current r of
        Some (key, v) \<Rightarrow>
          if key_of_batch key batch then
            rbind (reader_take r) (\<lambda>(_, r). rbind (parse_status X v) (\<lambda>x. take_statuses X batch (xs @ [x]) r))
          else Inr (xs, r)
      | None \<Rightarrow> Inr (xs, r))"
  by pat_completeness auto
termination
  by (relation "measure (\<lambda>(X, batch, xs, r). reader_weight r)") (auto dest: reader_take_current)

declare take_statuses.simps [simp del]

definition check_status ::
  "ext \<Rightarrow> domain_registry \<Rightarrow> bytes \<Rightarrow> string \<Rightarrow> batch_id \<Rightarrow> bytes \<Rightarrow> member_status \<Rightarrow> store_error + bytes" where
  "check_status X R payloads actor batch request st =
     (case ms_location st of
        None \<Rightarrow> Inl StorePanic
      | Some (offset, n) \<Rightarrow>
          rbind (read_at payloads offset n (ms_path st)) (\<lambda>f.
          if content_digest X (rf_bytes f) \<noteq> ms_digest st
          then Inl (Corrupt (GenericOwnership (MemberDigestMismatch (ms_path st))))
          else rbind (map_err (\<lambda>e. Corrupt (GenericOwnership (InvalidStoredRecord (ms_path st) e)))
            (decode_record X (rf_bytes f) R)) (\<lambda>r.
          if record_canonical_path X r \<noteq> ms_path st \<or> r_id r \<noteq> ms_record_id st \<or> r_schema r \<noteq> ms_schema st
          then Inl (Corrupt (GenericOwnership (MemberIdentityMismatch (ms_path st))))
          else if r_batch r \<noteq> batch then Inl (Corrupt (GenericOwnership (MemberBatchMismatch (ms_path st))))
          else if r_actor r \<noteq> actor then Inl (Corrupt (GenericOwnership (MemberActorMismatch (ms_path st))))
          else Inr (request_acc_push request (ms_path st) (rf_bytes f)))))"

definition check_header ::
  "ext \<Rightarrow> domain_registry \<Rightarrow> bytes \<Rightarrow> bytes \<Rightarrow> bytes \<Rightarrow> fact_reader \<Rightarrow> store_error + fact_reader" where
  "check_header X R payloads batch_key header statuses =
     rbind (parse_fields header 3) (\<lambda>fs.
     if \<not> is_str (fs ! 0) then Inl InvalidLayout
     else rbind (parse_digest X (fs ! 1)) (\<lambda>expected.
     rbind (parse_usize (fs ! 2)) (\<lambda>count.
     rbind (take_statuses X batch_key [] statuses) (\<lambda>(batch_statuses, statuses).
     if length batch_statuses \<noteq> count then Inl InvalidLayout
     else case find (\<lambda>st. ms_location st = None) batch_statuses of
       Some st \<Rightarrow> Inl (Corrupt (GenericOwnership (OwnershipMissingMember (ms_path st))))
     | None \<Rightarrow>
         rbind (parse_batch X batch_key) (\<lambda>batch.
         rbind (try_fold (check_status X R payloads (fs ! 0) batch) request_acc_new batch_statuses) (\<lambda>request.
         if request_acc_finish X request \<noteq> expected then Inl (Corrupt (GenericOwnership RequestDigestMismatch))
         else Inr statuses))))))"

definition validate_batches ::
  "ext \<Rightarrow> domain_registry \<Rightarrow> bytes \<Rightarrow> bytes \<Rightarrow> bytes \<Rightarrow> store_error + unit" where
  "validate_batches X R payloads headers enriched =
     rbind (reader_new headers) (\<lambda>headers.
     rbind (reader_new enriched) (\<lambda>statuses.
     rbind (while_facts (\<lambda>statuses (batch_key, header). check_header X R payloads batch_key header statuses) statuses headers)
       (\<lambda>statuses. if fr_current statuses \<noteq> None then Inl InvalidLayout else Inr ())))"

definition validate_ownership_and_batches ::
  "ext \<Rightarrow> domain_registry \<Rightarrow> bytes \<Rightarrow> replay_facts \<Rightarrow> replay_temp_budget \<Rightarrow> store_error + replay_temp_budget" where
  "validate_ownership_and_batches X R payloads facts b =
     rbind (reader_new (rp_claims facts)) (\<lambda>claims.
     rbind (reader_new (rp_records facts)) (\<lambda>records.
     rbind (merge_claims claims records sorter_new b None) (\<lambda>(s, b, issue).
     rbind (sorter_finish s b) (\<lambda>(enriched, b).
     rbind (validate_batches X R payloads (rp_headers facts) enriched) (\<lambda>_.
     case issue of Some e \<Rightarrow> Inl (Corrupt (GenericOwnership e)) | None \<Rightarrow> Inr b)))))"

section \<open>Folds\<close>

record fold_progress =
  fp_group :: "(string \<times> string) option"
  fp_operations :: "domain_operation_header list"
  fp_sources :: "(bytes \<times> nat \<times> nat) list"
  fp_count :: nat
  fp_edges :: nat

definition saturating_add :: "nat \<Rightarrow> nat \<Rightarrow> nat" where
  "saturating_add a b = min (a + b) (2 ^ 64 - 1)"

definition decode_builtin_record :: "ext \<Rightarrow> domain_registry \<Rightarrow> raw_file \<Rightarrow> store_error + wj_record" where
  "decode_builtin_record X R f =
     map_err (\<lambda>e. Corrupt (InvalidRecordFile (rf_path f) e)) (decode_record X (rf_bytes f) R)"

definition operation_from_record :: "ext \<Rightarrow> wj_record \<Rightarrow> string \<times> string \<Rightarrow> store_error + domain_operation" where
  "operation_from_record X r key =
     map_err (\<lambda>_. Corrupt (InvalidDomainFold (fst key) (snd key))) (operation_try_from X r)"

definition fold_domain :: "wj_record \<Rightarrow> bool" where
  "fold_domain r \<longleftrightarrow> r_domain r = ''wayjournal.profile'' \<or> r_domain r = ''wayjournal.catalog''"

definition validate_builtin_operation_payloads ::
  "ext \<Rightarrow> domain_registry \<Rightarrow> canonical_replay \<Rightarrow> store_error + unit" where
  "validate_builtin_operation_payloads X R rep =
     while_files (\<lambda>_ f _.
       if classify_path X (rf_path f) \<noteq> JournalRecord then Inr ()
       else rbind (decode_builtin_record X R f) (\<lambda>r.
       if \<not> fold_domain r then Inr ()
       else rbind (operation_from_record X r (r_domain r, uuid_to_string X (r_entity r))) (\<lambda>_. Inr ()))) () rep"

definition load_operation ::
  "ext \<Rightarrow> domain_registry \<Rightarrow> bytes \<Rightarrow> string \<times> string \<Rightarrow> (bytes \<times> nat \<times> nat) list \<Rightarrow> nat \<Rightarrow> store_error + domain_operation" where
  "load_operation X R payloads key sources i =
     (if i < length sources then
        (case sources ! i of (path, offset, n) \<Rightarrow>
           rbind (read_at payloads offset n path) (\<lambda>f.
           rbind (decode_builtin_record X R f) (\<lambda>r. operation_from_record X r key)))
      else Inl StorePanic)"

definition finish_fold ::
  "ext \<Rightarrow> domain_registry \<Rightarrow> bytes \<Rightarrow> string \<times> string \<Rightarrow> fold_progress \<Rightarrow> store_error + unit" where
  "finish_fold X R payloads key p =
     (if MAX_CAUSAL_OPERATIONS < fp_count p \<or> MAX_CAUSAL_EDGES < fp_edges p
      then Inl (Corrupt (InvalidDomainFold (fst key) (snd key)))
      else case validate_loaded_builtin_fold (fp_operations p) (load_operation X R payloads key (fp_sources p)) of
        Inr _ \<Rightarrow> Inr ()
      | Inl (FL_Load e) \<Rightarrow> Inl e
      | Inl (FL_Fold _) \<Rightarrow> Inl (Corrupt (InvalidDomainFold (fst key) (snd key))))"

definition fold_progress_new :: fold_progress where
  "fold_progress_new = \<lparr>fp_group = None, fp_operations = [], fp_sources = [], fp_count = 0, fp_edges = 0\<rparr>"

definition observe_operation :: "domain_operation \<Rightarrow> fold_progress \<Rightarrow> fold_progress" where
  "observe_operation operation p =
     p\<lparr>fp_count := saturating_add (fp_count p) 1, fp_edges := saturating_add (fp_edges p) (length (op_parents operation))\<rparr>"

definition within_causal_limits :: "fold_progress \<Rightarrow> bool" where
  "within_causal_limits p \<longleftrightarrow> fp_count p \<le> MAX_CAUSAL_OPERATIONS \<and> fp_edges p \<le> MAX_CAUSAL_EDGES"

definition fold_file ::
  "ext \<Rightarrow> domain_registry \<Rightarrow> bytes \<Rightarrow> fold_progress \<Rightarrow> raw_file \<Rightarrow> nat \<Rightarrow> store_error + fold_progress" where
  "fold_file X R payloads p f offset =
     (if classify_path X (rf_path f) \<noteq> JournalRecord then Inr p
      else rbind (decode_builtin_record X R f) (\<lambda>r.
      if \<not> fold_domain r then Inr p
      else let key = (r_domain r, uuid_to_string X (r_entity r)) in
      rbind (case fp_group p of
          Some current \<Rightarrow>
            if current \<noteq> key then rbind (finish_fold X R payloads current p) (\<lambda>_. Inr fold_progress_new) else Inr p
        | None \<Rightarrow> Inr p) (\<lambda>p.
      rbind (operation_from_record X r key) (\<lambda>operation.
      let p = observe_operation operation (p\<lparr>fp_group := Some key\<rparr>) in
      Inr (if within_causal_limits p
           then p\<lparr>fp_operations := fp_operations p @ [into_header operation (length (fp_sources p))],
                  fp_sources := fp_sources p @ [(rf_path f, offset, length (rf_bytes f))]\<rparr>
           else p)))))"

definition validate_builtin_folds_bounded ::
  "ext \<Rightarrow> domain_registry \<Rightarrow> canonical_replay \<Rightarrow> store_error + unit" where
  "validate_builtin_folds_bounded X R rep =
     rbind (validate_builtin_operation_payloads X R rep) (\<lambda>_.
     rbind (while_files (fold_file X R (cr_payloads rep)) fold_progress_new rep) (\<lambda>p.
     case fp_group p of None \<Rightarrow> Inr () | Some key \<Rightarrow> finish_fold X R (cr_payloads rep) key p))"

section \<open>Validation\<close>

record validated_store_state =
  vs_revision :: store_revision_ref
  vs_identity :: "store_identity option"

definition replay_genesis ::
  "ext \<Rightarrow> domain_registry \<Rightarrow> bytes \<Rightarrow> (bytes \<times> nat \<times> nat) option \<Rightarrow> store_error + (bytes \<times> bytes \<times> wj_record) option" where
  "replay_genesis X R payloads genesis =
     (case genesis of
        None \<Rightarrow> Inr None
      | Some (path, offset, n) \<Rightarrow>
          rbind (read_at payloads offset n path) (\<lambda>f.
          rbind (map_err (\<lambda>_. Corrupt (InvalidGenesis GenesisInvalidRecord)) (decode_record X (rf_bytes f) R)) (\<lambda>r.
          Inr (Some (rf_path f, rf_bytes f, r)))))"

definition validate_bounded_replay_inner ::
  "ext \<Rightarrow> store_config \<Rightarrow> legacy_consumer \<Rightarrow> canonical_replay \<Rightarrow> record_id option \<Rightarrow>
   store_error + validated_store_state \<times> validated_record_subject option" where
  "validate_bounded_replay_inner X C V rep query =
     (let R = sc_registry C in
      rbind (validate_legacy X V rep) (\<lambda>_.
      rbind (collect_facts X R rep query) (\<lambda>(facts, b).
      rbind (validate_duplicate_record_ids X (rp_record_ids facts)) (\<lambda>_.
      rbind (validate_duplicate_idempotency X (rp_idempotency facts)) (\<lambda>_.
      rbind (validate_ownership_and_batches X R (cr_payloads rep) facts b) (\<lambda>_.
      if \<not> sc_strict C \<and> rp_reserved facts
      then Inl (Corrupt (InvalidDomainFold ''wayjournal.reserved'' ''legacy-s1-s2''))
      else rbind (if sc_strict C then
          rbind (replay_genesis X R (cr_payloads rep) (rp_genesis facts)) (\<lambda>genesis.
          rbind (map_err (\<lambda>e. Corrupt (InvalidGenesis e))
            (validate_replayed_identity X (rp_manifest_count facts) (rp_record_count facts) (rp_first_batch facts)
              (rp_unsupported facts) (rp_genesis_count facts) genesis)) (\<lambda>identity.
          rbind (validate_builtin_folds_bounded X R rep) (\<lambda>_. Inr identity)))
        else Inr None) (\<lambda>identity.
      Inr (\<lparr>vs_revision = rp_revision facts, vs_identity = identity\<rparr>, rp_subject facts))))))))"

definition validate_bounded_replay ::
  "ext \<Rightarrow> store_config \<Rightarrow> legacy_consumer \<Rightarrow> canonical_replay \<Rightarrow> store_error + validated_store_state" where
  "validate_bounded_replay X C V rep =
     rbind (validate_bounded_replay_inner X C V rep None) (\<lambda>(state, _). Inr state)"

definition validate_bounded_replay_for_record ::
  "ext \<Rightarrow> store_config \<Rightarrow> legacy_consumer \<Rightarrow> canonical_replay \<Rightarrow> record_id \<Rightarrow>
   store_error + validated_store_state \<times> validated_record_subject option" where
  "validate_bounded_replay_for_record X C V rep rid = validate_bounded_replay_inner X C V rep (Some rid)"

end
