(* ===== verification/Wj_Replay_Files.thy ===== *)
theory Wj_Replay_Files
  imports Wj_Replay
begin

text \<open>
  What a finished replay holds: the files it was given in path order, each with the offset of its
  payload. A loop over a cursor is a loop over that list, and the legacy source hands out exactly the
  legacy files.
\<close>

section \<open>Located files\<close>

definition loc_fact :: "raw_file \<times> nat \<Rightarrow> fact" where
  "loc_fact = (\<lambda>(f, offset). (rf_path f, location_bytes offset (length (rf_bytes f))))"

definition stored_in :: "bytes \<Rightarrow> raw_file \<times> nat \<Rightarrow> bool" where
  "stored_in payloads = (\<lambda>(f, offset). offset < 2 ^ 64 \<and> length (rf_bytes f) < 2 ^ 32 \<and>
     offset + length (rf_bytes f) \<le> length payloads \<and>
     take (length (rf_bytes f)) (drop offset payloads) = rf_bytes f \<and> fits (loc_fact (f, offset)))"

definition replay_holds :: "canonical_replay \<Rightarrow> (raw_file \<times> nat) list \<Rightarrow> bool" where
  "replay_holds rep lfs \<longleftrightarrow>
     cr_entries rep = enc_facts (map loc_fact lfs) \<and> (\<forall>x\<in>set lfs. stored_in (cr_payloads rep) x)"

lemma decode_location_bytes:
  "offset < 2 ^ 64 \<Longrightarrow> n < 2 ^ 32 \<Longrightarrow> decode_location (location_bytes offset n) = Inr (offset, n)"
  by (simp add: decode_location_def location_bytes_def from_be_bytes_be_bytes)

lemma read_at_stored:
  "stored_in payloads (f, offset) \<Longrightarrow> read_at payloads offset (length (rf_bytes f)) (rf_path f) = Inr f"
  by (auto simp: read_at_def stored_in_def)

lemma load_file_stored: "stored_in payloads x \<Longrightarrow> load_file payloads (loc_fact x) = Inr x"
  using read_at_stored[of payloads "fst x" "snd x"]
  by (cases x) (simp add: load_file_def loc_fact_def decode_location_bytes stored_in_def)

lemma stored_fits: "stored_in payloads x \<Longrightarrow> fits (loc_fact x)"
  by (cases x) (simp add: stored_in_def)

lemma replay_fits: "replay_holds rep lfs \<Longrightarrow> \<forall>f\<in>set (map loc_fact lfs). fits f"
  unfolding replay_holds_def set_map using stored_fits by blast

lemma replay_reader:
  "replay_holds rep lfs \<Longrightarrow> reader_new (cr_entries rep) = Inr (reader_of (map loc_fact lfs))"
  using reader_new_of[OF replay_fits] by (simp add: replay_holds_def)

lemma try_fold_cong:
  "(\<And>s x. x \<in> set xs \<Longrightarrow> f s x = g s x) \<Longrightarrow> try_fold f s xs = try_fold g s xs"
  by (induction xs arbitrary: s) (auto intro: rbind_cong)

lemma while_files_eq:
  assumes "replay_holds rep lfs"
  shows "while_files body s rep = try_fold (\<lambda>s (f, offset). body s f offset) s lfs"
proof -
  note fit = replay_fits[OF assms]
  have "while_files body s rep = try_fold (\<lambda>s x. rbind (load_file (cr_payloads rep) (loc_fact x))
      (\<lambda>(file, offset). body s file offset)) s lfs"
    using replay_reader[OF assms] by (simp add: while_files_def while_facts_of[OF fit] try_fold_map)
  also have "\<dots> = try_fold (\<lambda>s (f, offset). body s f offset) s lfs"
    using assms by (intro try_fold_cong) (simp add: replay_holds_def load_file_stored)
  finally show ?thesis .
qed

section \<open>The builder\<close>

fun located :: "nat \<Rightarrow> raw_file list \<Rightarrow> (raw_file \<times> nat) list" where
  "located offset [] = []"
| "located offset (f # fs) = (f, offset) # located (offset + length (rf_bytes f)) fs"

definition spoolable :: "ext \<Rightarrow> raw_file \<Rightarrow> bool" where
  "spoolable X f \<longleftrightarrow>
     (case canonical_file_limit (classify_path X (rf_path f)) of
        None \<Rightarrow> False | Some limit \<Rightarrow> length (rf_bytes f) \<le> limit)"

definition builder_holds :: "ext \<Rightarrow> canonical_replay_builder \<Rightarrow> raw_file list \<Rightarrow> bool" where
  "builder_holds X B fs \<longleftrightarrow>
     rb_payloads B = concat (map rf_bytes fs) \<and> rb_offset B = file_bytes fs \<and> rb_total B = file_bytes fs \<and>
     file_bytes fs \<le> MAX_TOTAL_CANONICAL_BYTES \<and> (\<forall>f\<in>set fs. spoolable X f) \<and>
     tb_maximum (rb_budget B) = MAX_REPLAY_TEMPORARY_BYTES \<and> room (rb_budget B) 0 \<and>
     (\<exists>w. sorter_holds (rb_entries B) (map loc_fact (located 0 fs)) w \<and> tb_used (rb_budget B) = file_bytes fs + w)"

lemma located_append: "located n (fs @ gs) = located n fs @ located (n + file_bytes fs) gs"
  by (induction fs arbitrary: n) (simp_all add: add.assoc)

lemma map_fst_located [simp]: "map fst (located n fs) = fs"
  by (induction fs arbitrary: n) simp_all

lemma file_bytes_append [simp]: "file_bytes (fs @ gs) = file_bytes fs + file_bytes gs"
  by (induction fs) simp_all

lemma length_payloads: "length (concat (map rf_bytes fs)) = file_bytes fs"
  by (induction fs) simp_all

lemma located_payload:
  assumes "(f, n) \<in> set (located (length pre) fs)"
  shows "length pre \<le> n" "n + length (rf_bytes f) \<le> length pre + file_bytes fs"
    "take (length (rf_bytes f)) (drop n (pre @ concat (map rf_bytes fs))) = rf_bytes f"
proof -
  have "length pre \<le> n \<and> n + length (rf_bytes f) \<le> length pre + file_bytes fs \<and>
      take (length (rf_bytes f)) (drop n (pre @ concat (map rf_bytes fs))) = rf_bytes f"
    using assms
  proof (induction fs arbitrary: pre)
    case (Cons g fs)
    show ?case
    proof (cases "(f, n) = (g, length pre)")
      case True
      then show ?thesis by simp
    next
      case False
      then have "(f, n) \<in> set (located (length (pre @ rf_bytes g)) fs)" using Cons.prems by auto
      from Cons.IH[OF this] show ?thesis by (simp del: drop_append take_append)
    qed
  qed simp
  then show "length pre \<le> n" "n + length (rf_bytes f) \<le> length pre + file_bytes fs"
    "take (length (rf_bytes f)) (drop n (pre @ concat (map rf_bytes fs))) = rf_bytes f" by blast+
qed

lemma spoolable_limit: "spoolable X f \<Longrightarrow> length (rf_bytes f) \<le> 1024 * 1024"
  by (cases "classify_path X (rf_path f)")
    (auto simp: spoolable_def canonical_file_limit_def MAX_LEGACY_FILE_BYTES_def MAX_RECORD_BYTES_def MAX_BATCH_BYTES_def)

lemma sorter_push_Inr:
  assumes "sorter_holds s fs w" "room b 0" "sorter_push s b key v = Inr (s', b')"
  obtains w' where "w \<le> w'" "fits (key, v)" "sorter_holds s' (fs @ [(key, v)]) w'" "b' = spend b (w' - w)" "room b' 0"
proof -
  obtain s1 w1 where h: "w \<le> w1" "fits (key, v) \<longrightarrow> sorter_holds s1 (fs @ [(key, v)]) w1"
      "sorter_push s b key v = (if fits (key, v) \<and> room b (w1 - w) then Inr (s1, spend b (w1 - w)) else Inl InvalidLayout)"
    using sorter_push_eq[OF assms(1,2), of key v] by blast
  have "fits (key, v) \<and> room b (w1 - w)" using h(3) assms(3) by (auto split: if_splits)
  then show thesis using h assms(3) by (intro that[of w1]) auto
qed

lemma sorter_push_ok:
  assumes "sorter_holds s fs w" "room b 0" "fits (key, v)" "room b (total_bytes fs - w)"
  shows "\<exists>s' b'. sorter_push s b key v = Inr (s', b')"
proof -
  obtain s1 w1 where h: "w \<le> w1" "w1 \<le> total_bytes fs"
      "sorter_push s b key v = (if fits (key, v) \<and> room b (w1 - w) then Inr (s1, spend b (w1 - w)) else Inl InvalidLayout)"
    using sorter_push_eq[OF assms(1,2), of key v] by blast
  have "room b (w1 - w)" using room_mono[OF assms(4)] h(2) by simp
  then show ?thesis using h(3) assms(3) by simp
qed

lemma builder_push_Inr:
  assumes "builder_holds X B fs" "builder_push X B f = Inr B'"
  shows "builder_holds X B' (fs @ [f])"
proof -
  let ?n = "length (rf_bytes f)"
  obtain w where h: "rb_payloads B = concat (map rf_bytes fs)" "rb_offset B = file_bytes fs" "rb_total B = file_bytes fs"
      "\<forall>f\<in>set fs. spoolable X f" "tb_maximum (rb_budget B) = MAX_REPLAY_TEMPORARY_BYTES"
      "sorter_holds (rb_entries B) (map loc_fact (located 0 fs)) w" "tb_used (rb_budget B) = file_bytes fs + w"
    using assms(1) by (auto simp: builder_holds_def)
  obtain s b where p: "spoolable X f" "file_bytes fs + ?n \<le> MAX_TOTAL_CANONICAL_BYTES" "room (rb_budget B) ?n"
      "sorter_push (rb_entries B) (spend (rb_budget B) ?n) (rf_path f) (location_bytes (file_bytes fs) ?n) = Inr (s, b)"
      "B' = \<lparr>rb_payloads = rb_payloads B @ rf_bytes f, rb_entries = s, rb_budget = b,
                rb_offset = file_bytes fs + ?n, rb_total = file_bytes fs + ?n\<rparr>"
    using assms(2) h(2,3)
    by (auto simp: builder_push_def spoolable_def result_simps reserve_streamed_visible_bytes_def temp_reserve_eq
        split: option.splits if_splits)
  have rm: "room (spend (rb_budget B) ?n) 0" using p(3) by simp
  obtain w' where w': "w \<le> w'" "sorter_holds s (map loc_fact (located 0 fs) @ [(rf_path f, location_bytes (file_bytes fs) ?n)]) w'"
      "b = spend (spend (rb_budget B) ?n) (w' - w)" "room b 0"
    by (rule sorter_push_Inr[OF h(6) rm p(4)])
  have lf: "map loc_fact (located 0 (fs @ [f])) = map loc_fact (located 0 fs) @ [(rf_path f, location_bytes (file_bytes fs) ?n)]"
    by (simp add: located_append loc_fact_def)
  show ?thesis
    unfolding builder_holds_def lf using h p w' by (auto intro!: exI[of _ w'])
qed

lemma builder_pushes_Inr:
  "builder_holds X B fs \<Longrightarrow> try_fold (builder_push X) B gs = Inr B' \<Longrightarrow> builder_holds X B' (fs @ gs)"
proof (induction gs arbitrary: B fs)
  case (Cons g gs)
  then obtain B1 where "builder_push X B g = Inr B1" "try_fold (builder_push X) B1 gs = Inr B'"
    by (auto simp: result_simps)
  then show ?case using Cons.IH[of B1 "fs @ [g]"] builder_push_Inr[OF Cons.prems(1)] by simp
qed simp

lemma builder_holds_new: "builder_holds X replay_builder []"
  using sorter_holds_new(2)
  by (auto simp: builder_holds_def replay_builder_def temp_budget_new_def room_def MAX_REPLAY_TEMPORARY_BYTES_def
      MAX_TOTAL_CANONICAL_BYTES_def)

text \<open>Finishing checks the order of the entries and their number.\<close>

lemma try_entry_budget:
  "try_fold (\<lambda>budget (path, _). ok_or InvalidLayout (push_sorted_file budget path limit)) b fs = Inr b' \<longleftrightarrow>
   fold (\<lambda>path b. Option.bind b (\<lambda>b. push_sorted_file b path limit)) (map fst fs) (Some b) = Some b'"
proof (induction fs arbitrary: b)
  case (Cons f fs)
  have none: "fold (\<lambda>path b. Option.bind b (\<lambda>b. push_sorted_file b path limit)) ps None = None" for ps
    by (induction ps) simp_all
  show ?case
    by (cases f; cases "push_sorted_file b (fst f) limit") (simp_all add: Cons.IH none)
qed auto

lemma push_sorted_files_ordered:
  assumes "try_fold (\<lambda>budget (path, _). ok_or InvalidLayout (push_sorted_file budget path limit)) b fs = Inr b'"
  shows "sorted_wrt (<) (map fst fs) \<and> (\<forall>p\<in>set (map fst fs). case ce_previous b of None \<Rightarrow> True | Some q \<Rightarrow> q < p)"
  using assms
proof (induction fs arbitrary: b)
  case (Cons f fs)
  obtain p v where f: "f = (p, v)" by (cases f)
  obtain b1 where b1: "push_sorted_file b p limit = Some b1"
      "try_fold (\<lambda>budget (path, _). ok_or InvalidLayout (push_sorted_file budget path limit)) b1 fs = Inr b'"
    using Cons.prems f by (auto simp: result_simps)
  have "ce_previous b1 = Some p" "case ce_previous b of None \<Rightarrow> True | Some q \<Rightarrow> q < p"
    using b1(1) by (auto simp: push_sorted_file_def Let_def split: if_splits option.splits)
  then show ?case using Cons.IH[OF b1(2)] f by (auto split: option.splits)
qed auto

lemma sort_key_unique:
  "mset xs = mset ys \<Longrightarrow> sorted_wrt (<) (map f xs) \<Longrightarrow> sort_key f ys = xs"
proof -
  assume a: "mset xs = mset ys" "sorted_wrt (<) (map f xs)"
  then have "distinct (map f xs)" "sorted (map f xs)" by (simp_all add: strict_sorted_iff)
  then show ?thesis using sort_key_perm[OF a(1), of f] sort_key_id_if_sorted[of f xs] by simp
qed

lemma builder_finish_Inr:
  assumes "builder_holds X B fs" "builder_finish B = Inr rep"
  obtains lfs where "replay_holds rep lfs" "map fst lfs = sort_key rf_path fs" "mset lfs = mset (located 0 fs)"
    "strictly_ordered (map rf_path (sort_key rf_path fs))" "\<forall>f\<in>set fs. spoolable X f"
    "room (cr_budget rep) 0" "tb_maximum (cr_budget rep) = MAX_REPLAY_TEMPORARY_BYTES"
    "tb_used (cr_budget rep) \<le> file_bytes fs + 2 * total_bytes (map loc_fact (located 0 fs))"
    "run_entry_budget MAX_CANONICAL_ENTRIES (map rf_path (sort_key rf_path fs)) \<noteq> None"
proof -
  let ?fs = "map loc_fact (located 0 fs)"
  obtain w where h: "rb_payloads B = concat (map rf_bytes fs)" "\<forall>f\<in>set fs. spoolable X f"
      "tb_maximum (rb_budget B) = MAX_REPLAY_TEMPORARY_BYTES" "room (rb_budget B) 0" "file_bytes fs \<le> MAX_TOTAL_CANONICAL_BYTES"
      "sorter_holds (rb_entries B) ?fs w" "tb_used (rb_budget B) = file_bytes fs + w"
    using assms(1) by (auto simp: builder_holds_def)
  obtain c where c: "c \<le> 2 * total_bytes ?fs - w"
      "sorter_finish (rb_entries B) (rb_budget B) =
        (if room (rb_budget B) c then Inr (enc_facts (sort ?fs), spend (rb_budget B) c) else Inl InvalidLayout)"
    using sorter_finish_eq[OF h(6,4)] by blast
  have w: "w \<le> total_bytes ?fs" using sorter_written[OF h(6)] by simp
  have fit: "\<forall>f\<in>set (sort ?fs). fits f" using sorter_holds_fits[OF h(6)] by simp
  obtain b' where b: "room (rb_budget B) c"
      "rep = \<lparr>cr_payloads = concat (map rf_bytes fs), cr_entries = enc_facts (sort ?fs), cr_budget = spend (rb_budget B) c\<rparr>"
      "try_fold (\<lambda>budget (path, _). ok_or InvalidLayout (push_sorted_file budget path (sl_entries DEFAULT_SCAN_LIMITS)))
        entry_budget_new (sort ?fs) = Inr b'"
    using assms(2) c(2) h(1) reader_new_of[OF fit]
    by (auto simp: builder_finish_def result_simps while_facts_of[OF fit] split: if_splits)
  define lfs where "lfs = sort_key loc_fact (located 0 fs)"
  have lf: "map loc_fact lfs = sort ?fs" by (simp add: lfs_def map_sort_key)
  have paths: "map fst (sort ?fs) = map rf_path (map fst lfs)"
    unfolding lf[symmetric] by (simp add: loc_fact_def case_prod_unfold)
  have perm: "mset (map fst lfs) = mset fs" using mset_sort[of loc_fact "located 0 fs"] unfolding lfs_def[symmetric] by (metis mset_map map_fst_located)
  have srt: "sort_key rf_path fs = map fst lfs"
    by (rule sort_key_unique[OF perm]) (use push_sorted_files_ordered[OF b(3)] paths in simp)
  show thesis
  proof (rule that)
    show "replay_holds rep lfs"
      unfolding replay_holds_def
    proof (intro conjI ballI)
      show "cr_entries rep = enc_facts (map loc_fact lfs)" by (simp add: b(2) lf)
      fix x assume x: "x \<in> set lfs"
      obtain f n where fn: "x = (f, n)" by fastforce
      then have x: "x = (f, n)" "(f, n) \<in> set (located (length []) fs)" using x by (simp_all add: lfs_def)
      have "f \<in> set fs" using x(2) map_fst_located[of 0 fs] by (metis fst_conv image_eqI list.set_map list.size(3))
      then have "length (rf_bytes f) \<le> 1024 * 1024" using h(2) spoolable_limit by blast
      moreover have "n < 2 ^ 64" using located_payload(2)[OF x(2)] h(5) by (simp add: MAX_TOTAL_CANONICAL_BYTES_def)
      moreover have "fits (loc_fact (f, n))" using sorter_holds_fits[OF h(6), of "loc_fact (f, n)"] x(2) by simp
      ultimately show "stored_in (cr_payloads rep) x"
        using located_payload[OF x(2)] by (simp add: x(1) stored_in_def b(2) length_payloads)
    qed
    show "strictly_ordered (map rf_path (sort_key rf_path fs))"
      using push_sorted_files_ordered[OF b(3)] paths srt by (simp add: order_simps)
    show "room (cr_budget rep) 0" "tb_maximum (cr_budget rep) = MAX_REPLAY_TEMPORARY_BYTES"
      using b(1) h(3) by (simp_all add: b(2))
    show "tb_used (cr_budget rep) \<le> file_bytes fs + 2 * total_bytes ?fs" using c(1) w h(7) by (simp add: b(2))
    show "run_entry_budget MAX_CANONICAL_ENTRIES (map rf_path (sort_key rf_path fs)) \<noteq> None"
      using b(3) paths srt by (simp add: try_entry_budget run_entry_budget_def DEFAULT_SCAN_LIMITS_def)
  qed (simp_all add: srt h(2) lfs_def)
qed

text \<open>A list of files spooled and finished, and when that succeeds.\<close>

definition spool_files :: "ext \<Rightarrow> raw_file list \<Rightarrow> store_error + canonical_replay" where
  "spool_files X fs = rbind (try_fold (builder_push X) replay_builder fs) builder_finish"

lemma builder_push_ok:
  assumes "builder_holds X B fs" "spoolable X f" "fits (loc_fact (f, file_bytes fs))"
    and "file_bytes (fs @ [f]) \<le> MAX_TOTAL_CANONICAL_BYTES"
    and "file_bytes (fs @ [f]) + total_bytes (map loc_fact (located 0 fs)) \<le> MAX_REPLAY_TEMPORARY_BYTES"
  shows "\<exists>B'. builder_push X B f = Inr B'"
proof -
  let ?n = "length (rf_bytes f)" and ?fs = "map loc_fact (located 0 fs)"
  obtain w where h: "rb_offset B = file_bytes fs" "rb_total B = file_bytes fs" "tb_maximum (rb_budget B) = MAX_REPLAY_TEMPORARY_BYTES"
      "sorter_holds (rb_entries B) ?fs w" "tb_used (rb_budget B) = file_bytes fs + w"
    using assms(1) by (auto simp: builder_holds_def)
  have w: "w \<le> total_bytes ?fs" using sorter_written[OF h(4)] by simp
  have small: "MAX_REPLAY_TEMPORARY_BYTES < 2 ^ 64" "MAX_TOTAL_CANONICAL_BYTES < 2 ^ 64"
    by (simp_all add: MAX_REPLAY_TEMPORARY_BYTES_def MAX_TOTAL_CANONICAL_BYTES_def)
  have rm: "room (rb_budget B) ?n" "room (spend (rb_budget B) ?n) 0" "room (spend (rb_budget B) ?n) (total_bytes ?fs - w)"
    using assms(5) h(3,5) w small(1) by (simp_all add: room_def)
  obtain s b where p: "sorter_push (rb_entries B) (spend (rb_budget B) ?n) (rf_path f) (location_bytes (file_bytes fs) ?n) = Inr (s, b)"
    using sorter_push_ok[OF h(4) rm(2) _ rm(3), of "rf_path f" "location_bytes (file_bytes fs) ?n"] assms(3)
    by (auto simp: loc_fact_def)
  show ?thesis
    using assms(2,4) spoolable_limit[OF assms(2)] rm(1) p small(2) h(1,2)
    by (auto simp: builder_push_def spoolable_def reserve_streamed_visible_bytes_def temp_reserve_eq split: option.splits)
qed

lemma builder_pushes_ok:
  assumes "builder_holds X B fs" "\<forall>f\<in>set gs. spoolable X f" "\<forall>x\<in>set (located (file_bytes fs) gs). fits (loc_fact x)"
    and "file_bytes (fs @ gs) \<le> MAX_TOTAL_CANONICAL_BYTES"
    and "file_bytes (fs @ gs) + total_bytes (map loc_fact (located 0 (fs @ gs))) \<le> MAX_REPLAY_TEMPORARY_BYTES"
  shows "\<exists>B'. try_fold (builder_push X) B gs = Inr B'"
  using assms
proof (induction gs arbitrary: B fs)
  case (Cons g gs)
  obtain B1 where B1: "builder_push X B g = Inr B1"
    using builder_push_ok[OF Cons.prems(1), of g] Cons.prems(2-) by (auto simp: located_append)
  have "\<exists>B'. try_fold (builder_push X) B1 gs = Inr B'"
    using Cons.prems(2-) by (intro Cons.IH[OF builder_push_Inr[OF Cons.prems(1) B1]]) simp_all
  then show ?case using B1 by simp
qed simp

lemma spool_files_ok:
  assumes "\<forall>f\<in>set fs. spoolable X f" "\<forall>x\<in>set (located 0 fs). fits (loc_fact x)"
    and "file_bytes fs \<le> MAX_TOTAL_CANONICAL_BYTES"
    and "file_bytes fs + 2 * total_bytes (map loc_fact (located 0 fs)) \<le> MAX_REPLAY_TEMPORARY_BYTES"
    and "strictly_ordered (map rf_path (sort_key rf_path fs))"
    and "run_entry_budget MAX_CANONICAL_ENTRIES (map rf_path (sort_key rf_path fs)) \<noteq> None"
  shows "\<exists>rep. spool_files X fs = Inr rep"
proof -
  let ?fs = "map loc_fact (located 0 fs)"
  obtain B where B: "try_fold (builder_push X) replay_builder fs = Inr B"
    using builder_pushes_ok[OF builder_holds_new[of X], of fs] assms(1-4) by auto
  have hB: "builder_holds X B fs" using builder_pushes_Inr[OF builder_holds_new B] by simp
  obtain w where h: "tb_maximum (rb_budget B) = MAX_REPLAY_TEMPORARY_BYTES" "room (rb_budget B) 0"
      "sorter_holds (rb_entries B) ?fs w" "tb_used (rb_budget B) = file_bytes fs + w"
    using hB by (auto simp: builder_holds_def)
  obtain c where c: "c \<le> 2 * total_bytes ?fs - w"
      "sorter_finish (rb_entries B) (rb_budget B) =
        (if room (rb_budget B) c then Inr (enc_facts (sort ?fs), spend (rb_budget B) c) else Inl InvalidLayout)"
    using sorter_finish_eq[OF h(3,2)] by blast
  have w: "w \<le> total_bytes ?fs" using sorter_written[OF h(3)] by simp
  have rm: "room (rb_budget B) c"
    using c(1) w h(1,4) assms(4) by (auto simp: room_def MAX_REPLAY_TEMPORARY_BYTES_def MAX_TOTAL_CANONICAL_BYTES_def)
  have fit: "\<forall>f\<in>set (sort ?fs). fits f" using sorter_holds_fits[OF h(3)] by simp
  define lfs where "lfs = sort_key loc_fact (located 0 fs)"
  have lf: "map loc_fact lfs = sort ?fs" by (simp add: lfs_def map_sort_key)
  have paths: "map fst (sort ?fs) = map rf_path (map fst lfs)"
    unfolding lf[symmetric] by (simp add: loc_fact_def case_prod_unfold)
  have perm: "mset (map fst lfs) = mset fs"
    using mset_sort[of loc_fact "located 0 fs"] unfolding lfs_def[symmetric] by (metis mset_map map_fst_located)
  have "sorted (map fst (sort ?fs))"
    unfolding sorted_map by (rule sorted_wrt_mono_rel[OF _ sorted_sort]) (auto simp: less_eq_prod_def)
  moreover have "map fst (sort ?fs) = sort (map rf_path fs)"
    using calculation perm by (intro properties_for_sort[symmetric]) (simp_all only: paths mset_map)
  ultimately have "map fst (sort ?fs) = map rf_path (sort_key rf_path fs)" by (simp add: map_sort_key)
  then have "\<exists>b'. try_fold (\<lambda>budget (path, _). ok_or InvalidLayout (push_sorted_file budget path (sl_entries DEFAULT_SCAN_LIMITS)))
        entry_budget_new (sort ?fs) = Inr b'"
    using assms(6) by (auto simp: try_entry_budget run_entry_budget_def DEFAULT_SCAN_LIMITS_def)
  then show ?thesis
    using B c(2) rm reader_new_of[OF fit] by (auto simp: spool_files_def builder_finish_def while_facts_of[OF fit])
qed

section \<open>Legacy entries\<close>

primrec consume :: "legacy_consumer \<Rightarrow> legacy_entry list \<Rightarrow> (legacy_streaming_error + unit) \<times> legacy_entry list" where
  "consume (Return r) = (\<lambda>es. (r, es))"
| "consume (Pull k) = (\<lambda>es. case es of [] \<Rightarrow> consume (k (Inr None)) [] | e # es \<Rightarrow> consume (k (Inr (Some e))) es)"

definition legacy_file :: "ext \<Rightarrow> raw_file \<Rightarrow> bool" where
  "legacy_file X f \<longleftrightarrow> classify_path X (rf_path f) = LegacyEvent \<or> classify_path X (rf_path f) = LegacyBatch"

definition file_legacy_entry :: "ext \<Rightarrow> raw_file \<Rightarrow> legacy_entry" where
  "file_legacy_entry X f = (rf_path f, rf_bytes f, classify_path X (rf_path f))"

definition legacy_prefix :: "ext \<Rightarrow> (raw_file \<times> nat) list \<Rightarrow> legacy_entry list" where
  "legacy_prefix X lfs = map (file_legacy_entry X) (takeWhile (legacy_file X) (map fst lfs))"

definition source_holds :: "ext \<Rightarrow> bytes \<Rightarrow> replay_legacy_source \<Rightarrow> legacy_entry list \<Rightarrow> bool" where
  "source_holds X payloads src es \<longleftrightarrow>
     ls_error src = None \<and>
     (if ls_done src then es = []
      else \<exists>lfs. ls_reader src = reader_of (map loc_fact lfs) \<and> es = legacy_prefix X lfs \<and>
        (\<forall>x\<in>set lfs. stored_in payloads x \<and> is_canonical (classify_path X (rf_path (fst x)))))"

lemma next_entry_eq:
  assumes "source_holds X payloads src es"
  obtains src' where "next_entry X payloads src = (Inr (case es of [] \<Rightarrow> None | e # _ \<Rightarrow> Some e), src')"
    "source_holds X payloads src' (tl es)"
proof (cases "ls_done src")
  case True
  then show ?thesis using assms that[of src] by (simp add: next_entry_def source_holds_def)
next
  case False
  obtain lfs where l: "ls_error src = None" "ls_reader src = reader_of (map loc_fact lfs)" "es = legacy_prefix X lfs"
      "\<forall>x\<in>set lfs. stored_in payloads x \<and> is_canonical (classify_path X (rf_path (fst x)))"
    using assms False by (auto simp: source_holds_def)
  show ?thesis
  proof (cases lfs)
    case Nil
    then show ?thesis
      using l False by (intro that[of "src\<lparr>ls_done := True\<rparr>"])
        (simp_all add: next_entry_def reader_take_of legacy_prefix_def source_holds_def)
  next
    case (Cons x xs)
    obtain f n where x: "x = (f, n)" by fastforce
    have fit: "\<forall>f\<in>set (map loc_fact xs). fits f" using l(4) Cons stored_fits unfolding set_map by fastforce
    have tk: "reader_take (ls_reader src) = Inr (Some (loc_fact x), reader_of (map loc_fact xs))"
      using l(2) Cons reader_take_of(2)[OF fit] by simp
    have ld: "load_file payloads (loc_fact x) = Inr (f, n)" using l(4) Cons x load_file_stored by auto
    have cls: "is_canonical (classify_path X (rf_path f))" using l(4) Cons x by simp
    show ?thesis
    proof (cases "legacy_file X f")
      case True
      then show ?thesis
        using l Cons x tk ld False
        by (intro that[of "src\<lparr>ls_reader := reader_of (map loc_fact xs)\<rparr>"])
          (auto simp: next_entry_def Let_def legacy_file_def legacy_prefix_def file_legacy_entry_def source_holds_def)
    next
      case nl: False
      then show ?thesis
        using l Cons x tk ld cls False
        by (intro that[of "src\<lparr>ls_reader := reader_of (map loc_fact xs), ls_done := True\<rparr>"])
          (auto simp: next_entry_def Let_def legacy_file_def legacy_prefix_def source_holds_def is_canonical_def)
    qed
  qed
qed

lemma run_consumer_eq:
  "source_holds X payloads src es \<Longrightarrow>
   \<exists>src'. run_consumer X payloads V src = (fst (consume V es), src') \<and> source_holds X payloads src' (snd (consume V es))"
proof (induction V arbitrary: src es)
  case (Pull k)
  obtain src' where s: "next_entry X payloads src = (Inr (case es of [] \<Rightarrow> None | e # _ \<Rightarrow> Some e), src')"
      "source_holds X payloads src' (tl es)"
    by (rule next_entry_eq[OF Pull.prems])
  show ?case
  proof (cases es)
    case Nil
    then show ?thesis using s Pull.IH[of "k (Inr None)" src' "[]"] by auto
  next
    case (Cons e es')
    then show ?thesis using s Pull.IH[of "k (Inr (Some e))" src' es'] by auto
  qed
qed simp

lemma drain_source_eq: "source_holds X payloads src es \<Longrightarrow> drain_source X payloads src u = Inr (u \<or> es \<noteq> [])"
proof (induction es arbitrary: src u)
  case Nil
  obtain src' where "next_entry X payloads src = (Inr None, src')"
    using next_entry_eq[OF Nil] by auto
  then show ?case by (simp add: drain_source.simps)
next
  case (Cons e es)
  obtain src' where "next_entry X payloads src = (Inr (Some e), src')" "source_holds X payloads src' es"
    using next_entry_eq[OF Cons.prems] by auto
  then show ?case using Cons.IH by (simp add: drain_source.simps[of _ _ src])
qed

lemma validate_legacy_Inr:
  assumes "replay_holds rep lfs" "\<forall>x\<in>set lfs. is_canonical (classify_path X (rf_path (fst x)))"
  shows "validate_legacy X V rep = Inr () \<longleftrightarrow> consume V (legacy_prefix X lfs) = (Inr (), [])"
proof -
  let ?src = "\<lparr>ls_reader = reader_of (map loc_fact lfs), ls_error = None, ls_done = False\<rparr>"
  have src: "source_holds X (cr_payloads rep) ?src (legacy_prefix X lfs)"
    using assms by (auto simp: source_holds_def replay_holds_def)
  obtain src' where s: "run_consumer X (cr_payloads rep) V ?src = (fst (consume V (legacy_prefix X lfs)), src')"
      "source_holds X (cr_payloads rep) src' (snd (consume V (legacy_prefix X lfs)))"
    using run_consumer_eq[OF src] by blast
  have "ls_error src' = None" using s(2) by (simp add: source_holds_def)
  then show ?thesis
    using s(1) replay_reader[OF assms(1)] drain_source_eq[OF s(2), of False]
    by (cases "consume V (legacy_prefix X lfs)"; cases "fst (consume V (legacy_prefix X lfs))")
      (auto simp: validate_legacy_def)
qed

text \<open>In path order the legacy files come first.\<close>

lemma legacy_before_journal:
  assumes "legacy_file X f" "is_canonical (classify_path X q)" "\<not> (classify_path X q = LegacyEvent \<or> classify_path X q = LegacyBatch)"
  shows "rf_path f < q"
proof -
  obtain u where "q = ''journal/'' @ u"
    using assms(2,3) by (auto simp: is_canonical_def classify_path_def starts_with_iff split: if_splits)
  moreover have "(\<exists>t. rf_path f = ''events/'' @ t) \<or> (\<exists>t. rf_path f = ''batches/'' @ t)"
    using assms(1) by (auto simp: legacy_file_def classify_path_def starts_with_iff split: if_splits)
  ultimately show ?thesis by (auto simp: less_char_def)
qed

lemma takeWhile_filter:
  "(\<And>xs x ys y. zs = xs @ x # ys \<Longrightarrow> y \<in> set ys \<Longrightarrow> P y \<Longrightarrow> P x) \<Longrightarrow> takeWhile P zs = filter P zs"
proof (induction zs)
  case (Cons z zs)
  have "takeWhile P zs = filter P zs" if "P z"
    using Cons.prems[of "z # _"] by (intro Cons.IH) (metis append_Cons)
  moreover have "filter P zs = []" if "\<not> P z"
    using Cons.prems[of "[]" z zs] that by (auto simp: filter_empty_conv)
  ultimately show ?case by simp
qed simp

lemma legacy_prefix_filter:
  assumes "strictly_ordered (map rf_path (map fst lfs))" "\<forall>x\<in>set lfs. is_canonical (classify_path X (rf_path (fst x)))"
  shows "legacy_prefix X lfs = map (file_legacy_entry X) (filter (legacy_file X) (map fst lfs))"
proof -
  have "legacy_file X f" if h: "map fst lfs = xs @ f # ys" "g \<in> set ys" "legacy_file X g" for xs f ys g
  proof (rule ccontr)
    assume n: "\<not> legacy_file X f"
    have "f \<in> fst ` set lfs" using h(1) by (metis in_set_conv_decomp set_map)
    then have "is_canonical (classify_path X (rf_path f))" using assms(2) by auto
    then have "rf_path g < rf_path f" using legacy_before_journal[OF h(3)] n by (auto simp: legacy_file_def)
    moreover have "rf_path f < rf_path g" using assms(1) h(1,2) by (auto simp: order_simps sorted_wrt_append)
    ultimately show False by simp
  qed
  then show ?thesis unfolding legacy_prefix_def by (subst takeWhile_filter) auto
qed

end
