(* ===== verification/Wj_Replay_Facts.thy ===== *)
theory Wj_Replay_Facts
  imports Wj_Replay_Files
begin

text \<open>
  What the collecting pass leaves in the five external sorters and in the counters beside them, as
  plain functions of the decoded files, and the two duplicate checks over the sorted facts.
\<close>

section \<open>Fields\<close>

definition enc_fields :: "bytes list \<Rightarrow> bytes" where
  "enc_fields vs = concat (map (\<lambda>v. be_bytes 2 (length v) @ v) vs)"

lemma encode_fields_eq:
  "encode_fields vs = (if \<forall>v\<in>set vs. length v < 2 ^ 16 then Inr (enc_fields vs) else Inl StorePanic)"
proof -
  let ?f = "\<lambda>v :: bytes. if 2 ^ 16 \<le> length v then Inl StorePanic else Inr (be_bytes 2 (length v) @ v)"
  have "try_map ?f vs = (if \<forall>v\<in>set vs. length v < 2 ^ 16 then Inr (map (\<lambda>v. be_bytes 2 (length v) @ v) vs) else Inl StorePanic)"
    by (induction vs) auto
  then show ?thesis by (simp add: encode_fields_def enc_fields_def)
qed

lemma enc_fields_simps [simp]: "enc_fields [] = []" "enc_fields (v # vs) = be_bytes 2 (length v) @ v @ enc_fields vs"
  by (simp_all add: enc_fields_def)

lemma length_enc_fields: "v \<in> set vs \<Longrightarrow> length v < length (enc_fields vs)"
  by (induction vs) auto

lemma fits_encodable:
  assumes "fits (k, enc_fields vs @ t)" shows "\<forall>v\<in>set vs. length v < 2 ^ 16"
  using assms length_enc_fields[of _ vs] by (fastforce simp: fact_bytes_def MAX_FACT_BYTES_def)

lemma take_fields_enc:
  "\<forall>v\<in>set vs. length v < 2 ^ 16 \<Longrightarrow> take_fields (length vs) (enc_fields vs @ t) = Some (vs, t)"
  by (induction vs) (simp_all add: from_be_bytes_be_bytes Let_def)

lemma parse_fields_enc:
  "\<forall>v\<in>set vs. length v < 2 ^ 16 \<Longrightarrow> parse_fields (enc_fields vs) (length vs) = Inr vs"
  using take_fields_enc[of vs "[]"] by (simp add: parse_fields_def)

section \<open>Collected facts\<close>

datatype fact_kind = RecordIdFact | RecordFact | IdempotencyFact | ClaimFact | HeaderFact

primrec sorter_of :: "fact_kind \<Rightarrow> fact_state \<Rightarrow> external_sorter" where
  "sorter_of RecordIdFact st = fs_record_ids st"
| "sorter_of RecordFact st = fs_records st"
| "sorter_of IdempotencyFact st = fs_idempotency st"
| "sorter_of ClaimFact st = fs_claims st"
| "sorter_of HeaderFact st = fs_headers st"

primrec push_kind :: "fact_kind \<Rightarrow> bytes \<Rightarrow> bytes \<Rightarrow> fact_state \<Rightarrow> store_error + fact_state" where
  "push_kind RecordIdFact = push_record_id"
| "push_kind RecordFact = push_record"
| "push_kind IdempotencyFact = push_idempotency"
| "push_kind ClaimFact = push_claim"
| "push_kind HeaderFact = push_header"

lemmas push_kind_defs = push_record_id_def push_record_def push_idempotency_def push_claim_def push_header_def

definition of_kind :: "fact_kind \<Rightarrow> (fact_kind \<times> fact) list \<Rightarrow> fact list" where
  "of_kind k L = map snd (filter (\<lambda>x. fst x = k) L)"

definition sum_kinds :: "(fact_kind \<Rightarrow> nat) \<Rightarrow> nat" where
  "sum_kinds w = w RecordIdFact + w RecordFact + w IdempotencyFact + w ClaimFact + w HeaderFact"

definition facts_hold :: "replay_temp_budget \<Rightarrow> fact_state \<Rightarrow> (fact_kind \<times> fact) list \<Rightarrow> bool" where
  "facts_hold b0 st L \<longleftrightarrow>
     (\<exists>w. (\<forall>k. sorter_holds (sorter_of k st) (of_kind k L) (w k)) \<and> fs_budget st = spend b0 (sum_kinds w) \<and>
        room b0 (sum_kinds w))"

text \<open>The part of the state beside the sorters.\<close>

definition plain :: "fact_state \<Rightarrow> fact_state" where
  "plain st = st\<lparr>fs_record_ids := sorter_new, fs_records := sorter_new, fs_idempotency := sorter_new,
     fs_claims := sorter_new, fs_headers := sorter_new, fs_budget := temp_budget_new 0, fs_revision := accumulator_new\<rparr>"

lemma of_kind_simps [simp]:
  "of_kind k [] = []" "of_kind k (x # L) = (if fst x = k then snd x # of_kind k L else of_kind k L)"
  "of_kind k (L @ M) = of_kind k L @ of_kind k M"
  by (simp_all add: of_kind_def)

lemma all_kinds: "(\<forall>k. P k) \<longleftrightarrow> P RecordIdFact \<and> P RecordFact \<and> P IdempotencyFact \<and> P ClaimFact \<and> P HeaderFact"
  by (metis fact_kind.exhaust)

lemma push_kind_sorter:
  assumes "push_kind k key v st = Inr st'"
  shows "\<exists>s b. sorter_push (sorter_of k st) (fs_budget st) key v = Inr (s, b) \<and>
    (\<forall>j. sorter_of j st' = (if j = k then s else sorter_of j st)) \<and> fs_budget st' = b \<and> plain st' = plain st"
  using assms unfolding all_kinds by (cases k) (auto simp: push_kind_defs result_simps plain_def)

lemma push_kind_Inr:
  assumes "facts_hold b0 st L" "push_kind k key v st = Inr st'"
  shows "fits (key, v)" "facts_hold b0 st' (L @ [(k, key, v)])" "plain st' = plain st"
proof -
  obtain w where w: "\<And>k. sorter_holds (sorter_of k st) (of_kind k L) (w k)" "fs_budget st = spend b0 (sum_kinds w)"
      "room b0 (sum_kinds w)"
    using assms(1) by (auto simp: facts_hold_def)
  have rm: "room (fs_budget st) 0" using w(2,3) by simp
  obtain s b where p: "sorter_push (sorter_of k st) (fs_budget st) key v = Inr (s, b)"
      "\<And>j. sorter_of j st' = (if j = k then s else sorter_of j st)" "fs_budget st' = b" "plain st' = plain st"
    using push_kind_sorter[OF assms(2)] by blast
  show "plain st' = plain st" by (rule p(4))
  obtain w1 where w1: "w k \<le> w1" "fits (key, v)" "sorter_holds s (of_kind k L @ [(key, v)]) w1" "b = spend (fs_budget st) (w1 - w k)" "room b 0"
    by (rule sorter_push_Inr[OF w(1) rm p(1)])
  show "fits (key, v)" by fact
  have sum: "sum_kinds (w(k := w1)) = sum_kinds w + (w1 - w k)" using w1(1) by (cases k) (simp_all add: sum_kinds_def)
  show "facts_hold b0 st' (L @ [(k, key, v)])"
    unfolding facts_hold_def using w w1 p sum by (intro exI[of _ "w(k := w1)"]) auto
qed

lemma sum_written:
  assumes "\<And>k. sorter_holds (sorter_of k st) (of_kind k L) (w k)"
  shows "w k \<le> total_bytes (of_kind k L)" "sum_kinds w \<le> total_bytes (map snd L)"
    "sum_kinds w + (total_bytes (of_kind k L) - w k) \<le> total_bytes (map snd L)"
proof -
  have le: "w j \<le> total_bytes (of_kind j L)" for j using sorter_written[OF assms[of j]] by simp
  show "w k \<le> total_bytes (of_kind k L)" by (rule le)
  have t: "total_bytes (map snd L) = sum_kinds (\<lambda>j. total_bytes (of_kind j L))"
  proof (induction L)
    case (Cons x L)
    then show ?case by (cases x; cases "fst x") (simp_all add: sum_kinds_def)
  qed (simp add: sum_kinds_def)
  show "sum_kinds w \<le> total_bytes (map snd L)"
    unfolding t sum_kinds_def by (intro add_mono le)
  show "sum_kinds w + (total_bytes (of_kind k L) - w k) \<le> total_bytes (map snd L)"
    unfolding t sum_kinds_def using le[of RecordIdFact] le[of RecordFact] le[of IdempotencyFact] le[of ClaimFact] le[of HeaderFact]
    by (cases k) simp_all
qed

lemma push_kind_ok:
  assumes "facts_hold b0 st L" "fits (key, v)" "room b0 (total_bytes (map snd L))"
  shows "\<exists>st'. push_kind k key v st = Inr st'"
proof -
  obtain w where w: "\<And>k. sorter_holds (sorter_of k st) (of_kind k L) (w k)" "fs_budget st = spend b0 (sum_kinds w)"
      "room b0 (sum_kinds w)"
    using assms(1) by (auto simp: facts_hold_def)
  have "room (fs_budget st) (total_bytes (of_kind k L) - w k)"
    using room_mono[OF assms(3) sum_written(3)[OF w(1)]] w(2) by simp
  moreover have "room (fs_budget st) 0" using w(2,3) by simp
  ultimately have "\<exists>s b. sorter_push (sorter_of k st) (fs_budget st) key v = Inr (s, b)"
    using sorter_push_ok[OF w(1)[of k]] assms(2) by blast
  then show ?thesis by (cases k) (auto simp: push_kind_defs)
qed


definition push_all :: "fact_state \<Rightarrow> (fact_kind \<times> fact) list \<Rightarrow> store_error + fact_state" where
  "push_all st M = try_fold (\<lambda>st (k, key, v). push_kind k key v st) st M"

lemma push_all_simps [simp]:
  "push_all st [] = Inr st" "push_all st ((k, key, v) # M) = rbind (push_kind k key v st) (\<lambda>st. push_all st M)"
  by (simp_all add: push_all_def)

lemma push_all_Inr:
  "facts_hold b0 st L \<Longrightarrow> push_all st M = Inr st' \<Longrightarrow>
   (\<forall>x\<in>set M. fits (snd x)) \<and> facts_hold b0 st' (L @ M) \<and> plain st' = plain st \<and> fs_revision st' = fs_revision st"
proof (induction M arbitrary: st L)
  case (Cons x M)
  obtain k key v where x: "x = (k, key, v)" by (cases x)
  obtain st1 where st1: "push_kind k key v st = Inr st1" "push_all st1 M = Inr st'"
    using Cons.prems(2) x by (auto simp: result_simps)
  have "fs_revision st1 = fs_revision st" using st1(1) by (cases k) (auto simp: push_kind_defs result_simps)
  then show ?case
    using Cons.IH[OF push_kind_Inr(2)[OF Cons.prems(1) st1(1)] st1(2)] push_kind_Inr(1,3)[OF Cons.prems(1) st1(1)] x by simp
qed simp

lemma push_all_ok:
  "facts_hold b0 st L \<Longrightarrow> \<forall>x\<in>set M. fits (snd x) \<Longrightarrow> room b0 (total_bytes (map snd (L @ M))) \<Longrightarrow>
   \<exists>st'. push_all st M = Inr st'"
proof (induction M arbitrary: st L)
  case (Cons x M)
  obtain k key v where x: "x = (k, key, v)" by (cases x)
  have "room b0 (total_bytes (map snd L))" using Cons.prems(3) by (rule room_mono) simp
  then obtain st1 where st1: "push_kind k key v st = Inr st1"
    using push_kind_ok[OF Cons.prems(1)] Cons.prems(2) x by fastforce
  show ?case
    using Cons.IH[OF push_kind_Inr(2)[OF Cons.prems(1) st1]] Cons.prems(2,3) x st1 by simp
qed simp

section \<open>The collecting pass\<close>

definition manifest_facts :: "ext \<Rightarrow> batch_manifest \<Rightarrow> (fact_kind \<times> fact) list" where
  "manifest_facts X m =
     (IdempotencyFact, idempotency_fact_key m, uuid_to_string X (bm_batch m)) #
     (HeaderFact, uuid_to_string X (bm_batch m), enc_fields (header_fields X m)) #
     map (\<lambda>ref. (ClaimFact, ref_path ref, enc_fields (claim_fields X m ref))) (bm_members m)"

definition manifest_step :: "batch_manifest \<Rightarrow> fact_state \<Rightarrow> fact_state" where
  "manifest_step m st = st\<lparr>fs_manifest_count := Suc (fs_manifest_count st),
     fs_first_batch := (case fs_first_batch st of
         None \<Rightarrow> Some (bm_batch m, length (bm_members m),
           (case bm_members m of [] \<Rightarrow> None | ref # _ \<Rightarrow> Some (ref_id ref)))
       | Some x \<Rightarrow> Some x)\<rparr>"

definition record_facts :: "ext \<Rightarrow> wj_record \<Rightarrow> raw_file \<Rightarrow> nat \<Rightarrow> (fact_kind \<times> fact) list" where
  "record_facts X r f n = [(RecordIdFact, uuid_to_string X (r_id r), rf_path f), (RecordFact, loc_fact (f, n))]"

definition genesis_record :: "wj_record \<Rightarrow> bool" where
  "genesis_record r \<longleftrightarrow> r_domain r = ''wayjournal.identity'' \<and> r_schema r = IDENTITY_SCHEMA_V1 \<and> r_kind r = ''store.genesis''"

definition foreign_record :: "wj_record \<Rightarrow> bool" where
  "foreign_record r \<longleftrightarrow> r_domain r = ''wayjournal.identity'' \<and> r_schema r \<noteq> IDENTITY_SCHEMA_V1"

definition record_step :: "record_id option \<Rightarrow> wj_record \<Rightarrow> raw_file \<Rightarrow> nat \<Rightarrow> fact_state \<Rightarrow> fact_state" where
  "record_step query r f n st = st\<lparr>fs_record_count := Suc (fs_record_count st),
     fs_subject := (if query = Some (r_id r) then Some \<lparr>vr_domain = r_domain r, vr_entity = r_entity r\<rparr> else fs_subject st),
     fs_reserved := (fs_reserved st \<or> builtin_domain (r_domain r)),
     fs_unsupported := (fs_unsupported st \<or> foreign_record r),
     fs_genesis_count := (if genesis_record r then Suc (fs_genesis_count st) else fs_genesis_count st),
     fs_genesis := (if genesis_record r then
         (case fs_genesis st of None \<Rightarrow> Some (rf_path f, n, length (rf_bytes f)) | Some g \<Rightarrow> Some g) else fs_genesis st)\<rparr>"

lemma facts_hold_upd [simp]:
  "facts_hold b0 (st\<lparr>fs_revision := a\<rparr>) L = facts_hold b0 st L"
  "facts_hold b0 (st\<lparr>fs_manifest_count := n\<rparr>) L = facts_hold b0 st L"
  "facts_hold b0 (st\<lparr>fs_record_count := n\<rparr>) L = facts_hold b0 st L"
  "facts_hold b0 (st\<lparr>fs_first_batch := fb\<rparr>) L = facts_hold b0 st L"
  "facts_hold b0 (st\<lparr>fs_unsupported := u\<rparr>) L = facts_hold b0 st L"
  "facts_hold b0 (st\<lparr>fs_genesis_count := n\<rparr>) L = facts_hold b0 st L"
  "facts_hold b0 (st\<lparr>fs_genesis := g\<rparr>) L = facts_hold b0 st L"
  "facts_hold b0 (st\<lparr>fs_reserved := u\<rparr>) L = facts_hold b0 st L"
  "facts_hold b0 (st\<lparr>fs_subject := s\<rparr>) L = facts_hold b0 st L"
  by (simp_all add: facts_hold_def all_kinds)

lemma collect_claims_eq:
  assumes "\<forall>x\<in>set (map (\<lambda>ref. (ClaimFact, ref_path ref, enc_fields (claim_fields X m ref))) refs). fits (snd x)"
  shows "try_fold (\<lambda>st ref. rbind (encode_fields (claim_fields X m ref)) (\<lambda>claim. push_claim (ref_path ref) claim st)) st refs =
    push_all st (map (\<lambda>ref. (ClaimFact, ref_path ref, enc_fields (claim_fields X m ref))) refs)"
  using assms
proof (induction refs arbitrary: st)
  case (Cons ref refs)
  have "encode_fields (claim_fields X m ref) = Inr (enc_fields (claim_fields X m ref))"
    using fits_encodable[of "ref_path ref" "claim_fields X m ref" "[]"] Cons.prems by (simp add: encode_fields_eq)
  then show ?case using Cons.IH Cons.prems by (auto intro: rbind_cong)
qed simp

lemma collect_manifest_eq:
  assumes "\<forall>x\<in>set (manifest_facts X m). fits (snd x)"
  shows "collect_manifest X m st = push_all (manifest_step m st) (manifest_facts X m)"
proof -
  have "encode_fields (header_fields X m) = Inr (enc_fields (header_fields X m))"
    using fits_encodable[of "uuid_to_string X (bm_batch m)" "header_fields X m" "[]"] assms
    by (simp add: encode_fields_eq manifest_facts_def)
  moreover have "\<forall>x\<in>set (map (\<lambda>ref. (ClaimFact, ref_path ref, enc_fields (claim_fields X m ref))) (bm_members m)). fits (snd x)"
    using assms by (simp add: manifest_facts_def)
  ultimately show ?thesis
    by (auto simp: collect_manifest_def Let_def manifest_step_def manifest_facts_def collect_claims_eq intro!: rbind_cong)
qed

lemma collect_claims_fits:
  "facts_hold b0 st L \<Longrightarrow>
   try_fold (\<lambda>st ref. rbind (encode_fields (claim_fields X m ref)) (\<lambda>claim. push_claim (ref_path ref) claim st)) st refs = Inr st' \<Longrightarrow>
   \<forall>x\<in>set (map (\<lambda>ref. (ClaimFact, ref_path ref, enc_fields (claim_fields X m ref))) refs). fits (snd x)"
proof (induction refs arbitrary: st L)
  case (Cons ref refs)
  obtain st1 where st1: "push_kind ClaimFact (ref_path ref) (enc_fields (claim_fields X m ref)) st = Inr st1"
      "try_fold (\<lambda>st ref. rbind (encode_fields (claim_fields X m ref)) (\<lambda>claim. push_claim (ref_path ref) claim st)) st1 refs = Inr st'"
    using Cons.prems(2) by (auto simp: result_simps encode_fields_eq split: if_splits)
  show ?case
    using push_kind_Inr(1)[OF Cons.prems(1) st1(1)] Cons.IH[OF push_kind_Inr(2)[OF Cons.prems(1) st1(1)] st1(2)] by simp
qed simp

lemma collect_manifest_fits:
  assumes "facts_hold b0 st L" "collect_manifest X m st = Inr st'"
  shows "\<forall>x\<in>set (manifest_facts X m). fits (snd x)"
proof -
  have h: "facts_hold b0 (manifest_step m st) L" using assms(1) by (simp add: manifest_step_def)
  obtain st1 st2 where p: "push_kind IdempotencyFact (idempotency_fact_key m) (uuid_to_string X (bm_batch m)) (manifest_step m st) = Inr st1"
      "push_kind HeaderFact (uuid_to_string X (bm_batch m)) (enc_fields (header_fields X m)) st1 = Inr st2"
      "try_fold (\<lambda>st ref. rbind (encode_fields (claim_fields X m ref)) (\<lambda>claim. push_claim (ref_path ref) claim st)) st2 (bm_members m) = Inr st'"
    using assms(2) by (auto simp: collect_manifest_def Let_def manifest_step_def result_simps encode_fields_eq split: if_splits)
  note p1 = push_kind_Inr[OF h p(1)]
  note p2 = push_kind_Inr[OF p1(2) p(2)]
  show ?thesis
    using p1(1) p2(1) collect_claims_fits[OF p2(2) p(3)] by (simp add: manifest_facts_def)
qed

lemma collect_manifest_Inr:
  assumes "facts_hold b0 st L" "collect_manifest X m st = Inr st'"
  shows "\<forall>x\<in>set (manifest_facts X m). fits (snd x)" "facts_hold b0 st' (L @ manifest_facts X m)"
    "plain st' = manifest_step m (plain st)" "fs_revision st' = fs_revision st"
proof -
  show fit: "\<forall>x\<in>set (manifest_facts X m). fits (snd x)" by (rule collect_manifest_fits[OF assms])
  have h: "facts_hold b0 (manifest_step m st) L" using assms(1) by (simp add: manifest_step_def)
  have "push_all (manifest_step m st) (manifest_facts X m) = Inr st'" using assms(2) collect_manifest_eq[OF fit] by simp
  note p = push_all_Inr[OF h this]
  then show "facts_hold b0 st' (L @ manifest_facts X m)" "plain st' = manifest_step m (plain st)" "fs_revision st' = fs_revision st"
    by (simp_all add: manifest_step_def plain_def)
qed

text \<open>The updates of the counters commute with the pushes.\<close>

lemma collect_record_eq:
  "collect_record X query r f n st =
     rbind (push_kind RecordIdFact (uuid_to_string X (r_id r)) (rf_path f) st) (\<lambda>st.
     if 2 ^ 32 \<le> length (rf_bytes f) then Inl StorePanic
     else rbind (push_kind RecordFact (rf_path f) (location_bytes n (length (rf_bytes f))) st) (\<lambda>st.
     Inr (record_step query r f n st)))"
proof (cases "sorter_push (fs_record_ids st) (fs_budget st) (uuid_to_string X (r_id r)) (rf_path f)")
  case (Inr sb)
  obtain s b where sb: "sb = (s, b)" by fastforce
  show ?thesis
  proof (cases "sorter_push (fs_records st) b (rf_path f) (location_bytes n (length (rf_bytes f)))")
    case (Inl e)
    then show ?thesis using Inr sb by (simp add: collect_record_def push_kind_defs Let_def)
  next
    case (Inr tb)
    show ?thesis
      using Inr \<open>sorter_push (fs_record_ids st) (fs_budget st) _ _ = _\<close> sb
      by (cases st; cases tb; cases "query = Some (r_id r)"; cases "builtin_domain (r_domain r)";
          cases "r_domain r = ''wayjournal.identity''"; cases "r_schema r = IDENTITY_SCHEMA_V1"; cases "r_kind r = ''store.genesis''")
        (simp_all add: collect_record_def push_kind_defs Let_def record_step_def genesis_record_def foreign_record_def)
  qed
qed (simp add: collect_record_def push_kind_defs Let_def)

lemma plain_record_step: "plain (record_step query r f n st) = record_step query r f n (plain st)"
  by (cases st) (simp add: record_step_def plain_def)

lemma collect_record_Inr:
  assumes "facts_hold b0 st L" "collect_record X query r f n st = Inr st'"
  shows "\<forall>x\<in>set (record_facts X r f n). fits (snd x)" "facts_hold b0 st' (L @ record_facts X r f n)"
    "plain st' = record_step query r f n (plain st)" "fs_revision st' = fs_revision st"
proof -
  obtain st1 where p: "push_all st (record_facts X r f n) = Inr st1" "st' = record_step query r f n st1"
    using assms(2) by (auto simp: collect_record_eq record_facts_def loc_fact_def result_simps split: if_splits)
  note h = push_all_Inr[OF assms(1) p(1)]
  show "\<forall>x\<in>set (record_facts X r f n). fits (snd x)" "facts_hold b0 st' (L @ record_facts X r f n)"
    using h p(2) by (simp_all add: record_step_def)
  show "plain st' = record_step query r f n (plain st)" using h p(2) plain_record_step by simp
  show "fs_revision st' = fs_revision st" using h p(2) by (simp add: record_step_def)
qed

lemma collect_record_ok:
  assumes "facts_hold b0 st L" "\<forall>x\<in>set (record_facts X r f n). fits (snd x)" "length (rf_bytes f) < 2 ^ 32"
    and "room b0 (total_bytes (map snd (L @ record_facts X r f n)))"
  shows "\<exists>st'. collect_record X query r f n st = Inr st'"
  using push_all_ok[OF assms(1,2,4)] assms(3) by (auto simp: collect_record_eq record_facts_def loc_fact_def result_simps)

definition file_facts :: "ext \<Rightarrow> domain_registry \<Rightarrow> raw_file \<times> nat \<Rightarrow> (fact_kind \<times> fact) list" where
  "file_facts X R = (\<lambda>(f, n). case decode_visible_file X R f of
       Inr (DecodedManifest m) \<Rightarrow> manifest_facts X m
     | Inr (DecodedRecord r) \<Rightarrow> record_facts X r f n
     | _ \<Rightarrow> [])"

definition file_step :: "ext \<Rightarrow> domain_registry \<Rightarrow> record_id option \<Rightarrow> raw_file \<times> nat \<Rightarrow> fact_state \<Rightarrow> fact_state" where
  "file_step X R query = (\<lambda>(f, n) st. case decode_visible_file X R f of
       Inr (DecodedManifest m) \<Rightarrow> manifest_step m st
     | Inr (DecodedRecord r) \<Rightarrow> record_step query r f n st
     | _ \<Rightarrow> st)"

text \<open>The pass decodes a file as the scan does.\<close>

lemma collect_fact_eq:
  "collect_fact X R query st f n =
     rbind (map_err (\<lambda>e. Corrupt (InvalidRevisionEntry e)) (accumulator_push X (fs_revision st) (rf_path f) (rf_bytes f))) (\<lambda>a.
     rbind (decode_visible_file X R f) (\<lambda>d. case d of
         DecodedManifest m \<Rightarrow> collect_manifest X m (st\<lparr>fs_revision := a\<rparr>)
       | DecodedRecord r \<Rightarrow> collect_record X query r f n (st\<lparr>fs_revision := a\<rparr>)
       | DecodedLegacy _ \<Rightarrow> Inr (st\<lparr>fs_revision := a\<rparr>)))"
  by (cases "classify_path X (rf_path f)")
    (auto simp: collect_fact_def decode_visible_file_def Let_def rbind_assoc intro!: rbind_cong)

lemma collect_fact_Inr:
  assumes "facts_hold b0 st L" "collect_fact X R query st f n = Inr st'"
  shows "is_ok (decode_visible_file X R f)" "\<forall>x\<in>set (file_facts X R (f, n)). fits (snd x)"
    "facts_hold b0 st' (L @ file_facts X R (f, n))" "plain st' = file_step X R query (f, n) (plain st)"
    "accumulator_push X (fs_revision st) (rf_path f) (rf_bytes f) = Inr (fs_revision st')"
proof -
  obtain a d where d: "accumulator_push X (fs_revision st) (rf_path f) (rf_bytes f) = Inr a" "decode_visible_file X R f = Inr d"
    using assms(2) by (auto simp: collect_fact_eq result_simps)
  have h: "facts_hold b0 (st\<lparr>fs_revision := a\<rparr>) L" "plain (st\<lparr>fs_revision := a\<rparr>) = plain st"
    using assms(1) by (simp_all add: plain_def)
  show "is_ok (decode_visible_file X R f)" by (simp add: d)
  have "(\<forall>x\<in>set (file_facts X R (f, n)). fits (snd x)) \<and> facts_hold b0 st' (L @ file_facts X R (f, n)) \<and>
      plain st' = file_step X R query (f, n) (plain st) \<and> fs_revision st' = a"
  proof (cases d)
    case (DecodedManifest m)
    then have c: "collect_manifest X m (st\<lparr>fs_revision := a\<rparr>) = Inr st'" using assms(2) d by (simp add: collect_fact_eq)
    show ?thesis using collect_manifest_Inr[OF h(1) c] d(2) DecodedManifest h(2) by (simp add: file_facts_def file_step_def)
  next
    case (DecodedRecord r)
    then have c: "collect_record X query r f n (st\<lparr>fs_revision := a\<rparr>) = Inr st'" using assms(2) d by (simp add: collect_fact_eq)
    show ?thesis using collect_record_Inr[OF h(1) c] d(2) DecodedRecord h(2) by (simp add: file_facts_def file_step_def)
  next
    case (DecodedLegacy e)
    then show ?thesis using assms(2) d h by (auto simp: collect_fact_eq file_facts_def file_step_def)
  qed
  then show "\<forall>x\<in>set (file_facts X R (f, n)). fits (snd x)"
    "facts_hold b0 st' (L @ file_facts X R (f, n))" "plain st' = file_step X R query (f, n) (plain st)"
    "accumulator_push X (fs_revision st) (rf_path f) (rf_bytes f) = Inr (fs_revision st')" using d(1) by blast+
qed

lemma collect_fact_ok:
  assumes "facts_hold b0 st L" "is_ok (decode_visible_file X R f)" "\<forall>x\<in>set (file_facts X R (f, n)). fits (snd x)"
    and "length (rf_bytes f) < 2 ^ 32" "room b0 (total_bytes (map snd (L @ file_facts X R (f, n))))"
    and "accumulator_push X (fs_revision st) (rf_path f) (rf_bytes f) = Inr a"
  shows "\<exists>st'. collect_fact X R query st f n = Inr st'"
proof -
  obtain d where d: "decode_visible_file X R f = Inr d" using assms(2) by (auto simp: is_ok_iff)
  have h: "facts_hold b0 (st\<lparr>fs_revision := a\<rparr>) L" "facts_hold b0 (manifest_step m (st\<lparr>fs_revision := a\<rparr>)) L" for m
    using assms(1) by (simp_all add: manifest_step_def)
  show ?thesis
  proof (cases d)
    case (DecodedManifest m)
    then show ?thesis
      using assms(3,5,6) d push_all_ok[OF h(2), of "manifest_facts X m"]
      by (simp add: collect_fact_eq file_facts_def collect_manifest_eq)
  next
    case (DecodedRecord r)
    then show ?thesis
      using assms(3,4,5,6) d collect_record_ok[OF h(1), of X r f n query] by (simp add: collect_fact_eq file_facts_def)
  next
    case (DecodedLegacy e)
    then show ?thesis using assms(6) d by (simp add: collect_fact_eq)
  qed
qed

definition all_facts :: "ext \<Rightarrow> domain_registry \<Rightarrow> (raw_file \<times> nat) list \<Rightarrow> (fact_kind \<times> fact) list" where
  "all_facts X R lfs = concat (map (file_facts X R) lfs)"

lemma all_facts_simps [simp]:
  "all_facts X R [] = []" "all_facts X R (x # lfs) = file_facts X R x @ all_facts X R lfs"
  by (simp_all add: all_facts_def)

lemma collect_files_Inr:
  "facts_hold b0 st L \<Longrightarrow> try_fold (\<lambda>st (f, n). collect_fact X R query st f n) st lfs = Inr st' \<Longrightarrow>
   (\<forall>x\<in>set lfs. is_ok (decode_visible_file X R (fst x))) \<and> (\<forall>x\<in>set (all_facts X R lfs). fits (snd x)) \<and>
   facts_hold b0 st' (L @ all_facts X R lfs) \<and> plain st' = fold (file_step X R query) lfs (plain st) \<and>
   try_fold (\<lambda>a f. accumulator_push X a (rf_path f) (rf_bytes f)) (fs_revision st) (map fst lfs) = Inr (fs_revision st')"
proof (induction lfs arbitrary: st L)
  case (Cons x lfs)
  obtain f n where x: "x = (f, n)" by fastforce
  obtain st1 where st1: "collect_fact X R query st f n = Inr st1"
      "try_fold (\<lambda>st (f, n). collect_fact X R query st f n) st1 lfs = Inr st'"
    using Cons.prems(2) x by (auto simp: result_simps)
  note h = collect_fact_Inr[OF Cons.prems(1) st1(1)]
  show ?case using Cons.IH[OF h(3) st1(2)] h x by auto
qed simp

lemma collect_files_ok:
  "facts_hold b0 st L \<Longrightarrow> \<forall>x\<in>set lfs. is_ok (decode_visible_file X R (fst x)) \<and> length (rf_bytes (fst x)) < 2 ^ 32 \<Longrightarrow>
   \<forall>x\<in>set (all_facts X R lfs). fits (snd x) \<Longrightarrow> room b0 (total_bytes (map snd (L @ all_facts X R lfs))) \<Longrightarrow>
   try_fold (\<lambda>a f. accumulator_push X a (rf_path f) (rf_bytes f)) (fs_revision st) (map fst lfs) = Inr a \<Longrightarrow>
   \<exists>st'. try_fold (\<lambda>st (f, n). collect_fact X R query st f n) st lfs = Inr st'"
proof (induction lfs arbitrary: st L)
  case (Cons x lfs)
  obtain f n where x: "x = (f, n)" by fastforce
  obtain a1 where a1: "accumulator_push X (fs_revision st) (rf_path f) (rf_bytes f) = Inr a1"
      "try_fold (\<lambda>a f. accumulator_push X a (rf_path f) (rf_bytes f)) a1 (map fst lfs) = Inr a"
    using Cons.prems(5) x by (auto simp: result_simps)
  have "room b0 (total_bytes (map snd (L @ file_facts X R (f, n))))" using Cons.prems(4) by (rule room_mono) (simp add: x)
  then obtain st1 where st1: "collect_fact X R query st f n = Inr st1"
    using collect_fact_ok[OF Cons.prems(1), of X R f n a1 query] Cons.prems(2,3) a1(1) x by auto
  note h = collect_fact_Inr[OF Cons.prems(1) st1]
  have "\<exists>st'. try_fold (\<lambda>st (f, n). collect_fact X R query st f n) st1 lfs = Inr st'"
    using Cons.prems(2,3,4) a1 h(5) x by (intro Cons.IH[OF h(3)]) simp_all
  then show ?case using st1 x by simp
qed simp

text \<open>Over canonical files in path order the accumulator never fails and yields the store revision.\<close>

lemma accumulate_files:
  assumes "strictly_ordered (map rf_path files)" "\<forall>f\<in>set files. is_canonical (classify_path X (rf_path f))"
  obtains a where "try_fold (\<lambda>a f. accumulator_push X a (rf_path f) (rf_bytes f)) accumulator_new files = Inr a"
    "compute_store_revision X (file_entries files) = Inr (accumulator_finish X a)"
proof -
  let ?es = "file_entries files"
  have p: "map re_path ?es = map rf_path files" by (simp add: file_entries_def comp_def)
  have es: "sort_key re_path ?es = ?es"
    using assms(1) p by (intro sort_key_id_if_sorted) (simp add: order_simps strict_sorted_iff)
  have dup: "first_duplicate ?es = None"
    using assms(1) p by (subst first_duplicate_None) (simp_all add: order_simps strict_sorted_iff)
  have step: "try_fold (revision_step X) b (file_entries fs) = try_fold (\<lambda>a f. accumulator_push X a (rf_path f) (rf_bytes f)) b fs"
    if "set fs \<subseteq> set files" for b fs
    using that assms(2)
    by (induction fs arbitrary: b) (auto simp: file_entries_def revision_step_cases is_canonical_def intro!: rbind_cong)
  have ok: "\<forall>e\<in>set ?es. is_canonical (classify_path X (re_path e)) \<and> re_regular e"
    using assms(2) by (auto simp: file_entries_def)
  have "strictly_ordered (map re_path ?es)" using assms(1) p by simp
  from revision_fold[OF this, of accumulator_new X] ok
  obtain a where "try_fold (revision_step X) accumulator_new ?es = Inr a"
    by (force simp: accumulator_new_def entry_ok_def is_canonical_def Let_def)
  then show thesis
    using that[of a] step[of files] es dup by (simp add: compute_store_revision_def)
qed

section \<open>The facts of a store\<close>

definition located_records :: "ext \<Rightarrow> domain_registry \<Rightarrow> (raw_file \<times> nat) list \<Rightarrow> (raw_file \<times> nat \<times> wj_record) list" where
  "located_records X R lfs = List.map_filter (\<lambda>(f, n).
     case decode_visible_file X R f of Inr (DecodedRecord r) \<Rightarrow> Some (f, n, r) | _ \<Rightarrow> None) lfs"

definition claim_fact :: "ext \<Rightarrow> batch_manifest \<times> record_ref \<Rightarrow> fact" where
  "claim_fact X = (\<lambda>(m, ref). (ref_path ref, enc_fields (claim_fields X m ref)))"

definition header_fact :: "ext \<Rightarrow> batch_manifest \<Rightarrow> fact" where
  "header_fact X m = (uuid_to_string X (bm_batch m), enc_fields (header_fields X m))"

definition manifest_claims :: "batch_manifest list \<Rightarrow> (batch_manifest \<times> record_ref) list" where
  "manifest_claims ms = concat (map (\<lambda>m. map (Pair m) (bm_members m)) ms)"

lemma of_kind_map:
  "of_kind k (map (\<lambda>x. (j, f x)) xs) = (if j = k then map f xs else [])"
  by (induction xs) auto

lemma scanned_manifests_Cons:
  "scanned_manifests X R (f # fs) =
     (case decode_visible_file X R f of Inr (DecodedManifest m) \<Rightarrow> [m] | _ \<Rightarrow> []) @ scanned_manifests X R fs"
  by (auto simp: scanned_manifests_def List.map_filter_simps split: sum.splits decoded_file.splits)

lemma located_records_Cons:
  "located_records X R (x # lfs) =
     (case decode_visible_file X R (fst x) of Inr (DecodedRecord r) \<Rightarrow> [(fst x, snd x, r)] | _ \<Rightarrow> []) @ located_records X R lfs"
  by (cases x) (auto simp: located_records_def List.map_filter_simps split: sum.splits decoded_file.splits)

lemma located_records_Nil [simp]: "located_records X R [] = []"
  by (simp add: located_records_def List.map_filter_simps)

lemma manifest_claims_simps [simp]:
  "manifest_claims [] = []" "manifest_claims (m # ms) = map (Pair m) (bm_members m) @ manifest_claims ms"
  "manifest_claims (ms @ ns) = manifest_claims ms @ manifest_claims ns"
  by (simp_all add: manifest_claims_def)

lemma of_kind_all_facts:
  "of_kind RecordIdFact (all_facts X R lfs) = map (\<lambda>(f, n, r). (uuid_to_string X (r_id r), rf_path f)) (located_records X R lfs)"
  "of_kind RecordFact (all_facts X R lfs) = map (\<lambda>(f, n, r). loc_fact (f, n)) (located_records X R lfs)"
  "of_kind IdempotencyFact (all_facts X R lfs) =
     map (\<lambda>m. (idempotency_fact_key m, uuid_to_string X (bm_batch m))) (scanned_manifests X R (map fst lfs))"
  "of_kind HeaderFact (all_facts X R lfs) = map (header_fact X) (scanned_manifests X R (map fst lfs))"
  "of_kind ClaimFact (all_facts X R lfs) = map (claim_fact X) (manifest_claims (scanned_manifests X R (map fst lfs)))"
  by (induction lfs)
    (auto simp: scanned_simps scanned_manifests_Cons located_records_Cons file_facts_def manifest_facts_def record_facts_def of_kind_map
      header_fact_def claim_fact_def comp_def split: sum.splits decoded_file.splits prod.splits)

definition first_fact :: "batch_manifest list \<Rightarrow> (batch_id \<times> nat \<times> record_id option) option" where
  "first_fact ms = (case ms of [] \<Rightarrow> None
     | m # _ \<Rightarrow> Some (bm_batch m, length (bm_members m), (case bm_members m of [] \<Rightarrow> None | ref # _ \<Rightarrow> Some (ref_id ref))))"

definition genesis_fact :: "(raw_file \<times> nat \<times> wj_record) list \<Rightarrow> (bytes \<times> nat \<times> nat) option" where
  "genesis_fact rs = (case filter (\<lambda>(f, n, r). genesis_record r) rs of [] \<Rightarrow> None
     | (f, n, _) # _ \<Rightarrow> Some (rf_path f, n, length (rf_bytes f)))"

definition subject_fact :: "record_id option \<Rightarrow> wj_record list \<Rightarrow> validated_record_subject option" where
  "subject_fact query rs = (case rev (filter (\<lambda>r. query = Some (r_id r)) rs) of [] \<Rightarrow> None
     | r # _ \<Rightarrow> Some \<lparr>vr_domain = r_domain r, vr_entity = r_entity r\<rparr>)"

lemma file_steps:
  fixes X R query lfs b
  defines "st \<equiv> fold (file_step X R query) lfs (plain (fact_state_new b))"
  defines "ms \<equiv> scanned_manifests X R (map fst lfs)" and "rs \<equiv> located_records X R lfs"
  shows "fs_manifest_count st = length ms" "fs_record_count st = length rs" "fs_first_batch st = first_fact ms"
    "fs_unsupported st \<longleftrightarrow> (\<exists>(f, n, r)\<in>set rs. foreign_record r)"
    "fs_genesis_count st = length (filter (\<lambda>(f, n, r). genesis_record r) rs)"
    "fs_genesis st = genesis_fact rs" "fs_reserved st \<longleftrightarrow> (\<exists>(f, n, r)\<in>set rs. builtin_domain (r_domain r))"
    "fs_subject st = subject_fact query (map (\<lambda>(f, n, r). r) rs)"
proof -
  have app: "scanned_manifests X R (fs @ gs) = scanned_manifests X R fs @ scanned_manifests X R gs" for fs gs
    by (simp add: scanned_manifests_def List.map_filter_def)
  have lapp: "located_records X R (ls @ ks) = located_records X R ls @ located_records X R ks" for ls ks
    by (simp add: located_records_def List.map_filter_def)
  have "fs_manifest_count st = length ms \<and> fs_record_count st = length rs \<and> fs_first_batch st = first_fact ms \<and>
    (fs_unsupported st \<longleftrightarrow> (\<exists>(f, n, r)\<in>set rs. foreign_record r)) \<and>
    fs_genesis_count st = length (filter (\<lambda>(f, n, r). genesis_record r) rs) \<and>
    fs_genesis st = genesis_fact rs \<and> (fs_reserved st \<longleftrightarrow> (\<exists>(f, n, r)\<in>set rs. builtin_domain (r_domain r))) \<and>
    fs_subject st = subject_fact query (map (\<lambda>(f, n, r). r) rs)"
    unfolding st_def ms_def rs_def
  proof (induction lfs rule: rev_induct)
    case Nil
    show ?case
      by (simp add: plain_def fact_state_new_def scanned_simps first_fact_def genesis_fact_def subject_fact_def)
  next
    case (snoc x lfs)
    obtain f n where x: "x = (f, n)" by fastforce
    consider m where "decode_visible_file X R f = Inr (DecodedManifest m)" | r where "decode_visible_file X R f = Inr (DecodedRecord r)"
      | "\<forall>m r. decode_visible_file X R f \<noteq> Inr (DecodedManifest m) \<and> decode_visible_file X R f \<noteq> Inr (DecodedRecord r)"
      by blast
    then show ?case
    proof cases
      case 1
      then show ?thesis
        using snoc by (auto simp: x app lapp scanned_manifests_Cons located_records_Cons scanned_simps(1) file_step_def manifest_step_def first_fact_def split: list.splits)
    next
      case 2
      then show ?thesis
        using snoc by (auto simp: x app lapp scanned_manifests_Cons located_records_Cons scanned_simps(1) file_step_def record_step_def genesis_fact_def subject_fact_def split: list.splits)
    next
      case 3
      then show ?thesis
        using snoc by (auto simp: x app lapp scanned_manifests_Cons located_records_Cons scanned_simps(1) file_step_def split: sum.splits decoded_file.splits)
    qed
  qed
  then show "fs_manifest_count st = length ms" "fs_record_count st = length rs" "fs_first_batch st = first_fact ms"
    "fs_unsupported st \<longleftrightarrow> (\<exists>(f, n, r)\<in>set rs. foreign_record r)"
    "fs_genesis_count st = length (filter (\<lambda>(f, n, r). genesis_record r) rs)"
    "fs_genesis st = genesis_fact rs" "fs_reserved st \<longleftrightarrow> (\<exists>(f, n, r)\<in>set rs. builtin_domain (r_domain r))"
    "fs_subject st = subject_fact query (map (\<lambda>(f, n, r). r) rs)" by blast+
qed

text \<open>Finishing the five sorters one after the other.\<close>

lemma finish_kinds:
  assumes "facts_hold b0 st L"
  obtains c where "c \<le> 2 * total_bytes (map snd L)"
    "\<And>g. rbind (sorter_finish (fs_record_ids st) (fs_budget st)) (\<lambda>(record_ids, b).
      rbind (sorter_finish (fs_records st) b) (\<lambda>(records, b).
      rbind (sorter_finish (fs_idempotency st) b) (\<lambda>(idempotency, b).
      rbind (sorter_finish (fs_claims st) b) (\<lambda>(claims, b).
      rbind (sorter_finish (fs_headers st) b) (\<lambda>(headers, b). g record_ids records idempotency claims headers b))))) =
     (if room b0 c then g (enc_facts (sort (of_kind RecordIdFact L))) (enc_facts (sort (of_kind RecordFact L)))
        (enc_facts (sort (of_kind IdempotencyFact L))) (enc_facts (sort (of_kind ClaimFact L)))
        (enc_facts (sort (of_kind HeaderFact L))) (spend b0 c) else Inl InvalidLayout)"
proof -
  obtain w where w: "\<And>k. sorter_holds (sorter_of k st) (of_kind k L) (w k)" "fs_budget st = spend b0 (sum_kinds w)"
      "room b0 (sum_kinds w)"
    using assms by (auto simp: facts_hold_def)
  define P where "P k m c \<longleftrightarrow> (room b0 m \<longrightarrow> sorter_finish (sorter_of k st) (spend b0 m) =
      (if room b0 (m + c) then Inr (enc_facts (sort (of_kind k L)), spend b0 (m + c)) else Inl InvalidLayout)) \<and>
      c \<le> 2 * total_bytes (of_kind k L) - w k" for k m c
  have "\<exists>c. P k m c" for k m
    using sorter_finish_eq[OF w(1)[of k], of "spend b0 m"] unfolding P_def by (cases "room b0 m") auto
  then obtain d' where "\<And>k m. P k m (d' k m)" by metis
  then obtain d where d: "\<And>k m. room b0 m \<Longrightarrow> sorter_finish (sorter_of k st) (spend b0 m) =
      (if room b0 (m + d k m) then Inr (enc_facts (sort (of_kind k L)), spend b0 (m + d k m)) else Inl InvalidLayout)"
      "\<And>k m. d k m \<le> 2 * total_bytes (of_kind k L) - w k"
    unfolding P_def by blast
  define m1 where "m1 = sum_kinds w + d RecordIdFact (sum_kinds w)"
  define m2 where "m2 = m1 + d RecordFact m1"
  define m3 where "m3 = m2 + d IdempotencyFact m2"
  define m4 where "m4 = m3 + d ClaimFact m3"
  define m5 where "m5 = m4 + d HeaderFact m4"
  note ms = m1_def m2_def m3_def m4_def m5_def
  have mono: "room b0 m5 \<Longrightarrow> room b0 m4" "room b0 m4 \<Longrightarrow> room b0 m3" "room b0 m3 \<Longrightarrow> room b0 m2" "room b0 m2 \<Longrightarrow> room b0 m1"
    by (auto simp: ms elim!: room_mono)
  have t: "total_bytes (map snd L) = sum_kinds (\<lambda>j. total_bytes (of_kind j L))"
  proof (induction L)
    case (Cons x L)
    then show ?case by (cases x; cases "fst x") (simp_all add: sum_kinds_def)
  qed (simp add: sum_kinds_def)
  have "m5 \<le> 2 * total_bytes (map snd L)"
    unfolding t ms sum_kinds_def
    using d(2)[of RecordIdFact "sum_kinds w"] d(2)[of RecordFact m1] d(2)[of IdempotencyFact m2] d(2)[of ClaimFact m3] d(2)[of HeaderFact m4]
      sum_written(1)[of st L w, OF w(1), of RecordIdFact] sum_written(1)[of st L w, OF w(1), of RecordFact]
      sum_written(1)[of st L w, OF w(1), of IdempotencyFact] sum_written(1)[of st L w, OF w(1), of ClaimFact]
      sum_written(1)[of st L w, OF w(1), of HeaderFact]
    by (simp add: ms sum_kinds_def)
  moreover have "sorter_finish (fs_record_ids st) (fs_budget st) = (if room b0 m1 then Inr (enc_facts (sort (of_kind RecordIdFact L)), spend b0 m1) else Inl InvalidLayout)"
      "room b0 m1 \<Longrightarrow> sorter_finish (fs_records st) (spend b0 m1) = (if room b0 m2 then Inr (enc_facts (sort (of_kind RecordFact L)), spend b0 m2) else Inl InvalidLayout)"
      "room b0 m2 \<Longrightarrow> sorter_finish (fs_idempotency st) (spend b0 m2) = (if room b0 m3 then Inr (enc_facts (sort (of_kind IdempotencyFact L)), spend b0 m3) else Inl InvalidLayout)"
      "room b0 m3 \<Longrightarrow> sorter_finish (fs_claims st) (spend b0 m3) = (if room b0 m4 then Inr (enc_facts (sort (of_kind ClaimFact L)), spend b0 m4) else Inl InvalidLayout)"
      "room b0 m4 \<Longrightarrow> sorter_finish (fs_headers st) (spend b0 m4) = (if room b0 m5 then Inr (enc_facts (sort (of_kind HeaderFact L)), spend b0 m5) else Inl InvalidLayout)"
    using d(1)[OF w(3), of RecordIdFact] d(1)[of m1 RecordFact] d(1)[of m2 IdempotencyFact] d(1)[of m3 ClaimFact] d(1)[of m4 HeaderFact] w(2)
    by (simp_all add: ms)
  ultimately show thesis by (intro that[of m5]) (use mono in auto)
qed

lemma facts_hold_new: "room b 0 \<Longrightarrow> facts_hold b (fact_state_new b) []"
  using sorter_holds_new(2)
  by (auto simp: facts_hold_def fact_state_new_def all_kinds sum_kinds_def intro!: exI[of _ "\<lambda>_. 0"])

text \<open>What collecting yields, and when it succeeds.\<close>

definition facts_of :: "ext \<Rightarrow> domain_registry \<Rightarrow> record_id option \<Rightarrow> (raw_file \<times> nat) list \<Rightarrow> store_revision_ref \<Rightarrow> replay_facts" where
  "facts_of X R query lfs revision =
     (let ms = scanned_manifests X R (map fst lfs); rs = located_records X R lfs; L = all_facts X R lfs in
      \<lparr>rp_revision = revision, rp_record_ids = enc_facts (sort (of_kind RecordIdFact L)),
       rp_records = enc_facts (sort (of_kind RecordFact L)), rp_idempotency = enc_facts (sort (of_kind IdempotencyFact L)),
       rp_claims = enc_facts (sort (of_kind ClaimFact L)), rp_headers = enc_facts (sort (of_kind HeaderFact L)),
       rp_manifest_count = length ms, rp_record_count = length rs, rp_first_batch = first_fact ms,
       rp_unsupported = (\<exists>(f, n, r)\<in>set rs. foreign_record r),
       rp_genesis_count = length (filter (\<lambda>(f, n, r). genesis_record r) rs), rp_genesis = genesis_fact rs,
       rp_reserved = (\<exists>(f, n, r)\<in>set rs. builtin_domain (r_domain r)),
       rp_subject = subject_fact query (map (\<lambda>(f, n, r). r) rs)\<rparr>)"

lemma collect_facts_eq:
  assumes "replay_holds rep lfs" "room (cr_budget rep) 0" "strictly_ordered (map rf_path (map fst lfs))"
    and "\<forall>x\<in>set lfs. is_canonical (classify_path X (rf_path (fst x)))"
    and "compute_store_revision X (file_entries (map fst lfs)) = Inr revision"
  shows "\<exists>c. c \<le> 2 * total_bytes (map snd (all_facts X R lfs)) \<and>
    (\<forall>facts b. collect_facts X R rep query = Inr (facts, b) \<longrightarrow>
       facts = facts_of X R query lfs revision \<and> b = spend (cr_budget rep) c \<and> room (cr_budget rep) c \<and>
       (\<forall>x\<in>set lfs. is_ok (decode_visible_file X R (fst x))) \<and> (\<forall>x\<in>set (all_facts X R lfs). fits (snd x))) \<and>
    ((\<forall>x\<in>set lfs. is_ok (decode_visible_file X R (fst x))) \<and> (\<forall>x\<in>set (all_facts X R lfs). fits (snd x)) \<and>
     room (cr_budget rep) (2 * total_bytes (map snd (all_facts X R lfs))) \<longrightarrow>
     collect_facts X R rep query = Inr (facts_of X R query lfs revision, spend (cr_budget rep) c))"
proof -
  let ?L = "all_facts X R lfs" and ?b = "cr_budget rep"
  let ?fold = "try_fold (\<lambda>st (f, n). collect_fact X R query st f n) (fact_state_new ?b) lfs"
  have new: "facts_hold ?b (fact_state_new ?b) []" by (rule facts_hold_new[OF assms(2)])
  obtain a where a: "try_fold (\<lambda>a f. accumulator_push X a (rf_path f) (rf_bytes f)) accumulator_new (map fst lfs) = Inr a"
      "revision = accumulator_finish X a"
    using accumulate_files[OF assms(3), of X] assms(4,5) by auto
  have acc: "fs_revision (fact_state_new ?b) = accumulator_new" by (simp add: fact_state_new_def)
  note eq = while_files_eq[OF assms(1), of "collect_fact X R query" "fact_state_new ?b"]
  show ?thesis
  proof (cases ?fold)
    case (Inl e)
    have "\<not> ((\<forall>x\<in>set lfs. is_ok (decode_visible_file X R (fst x))) \<and> (\<forall>x\<in>set ?L. fits (snd x)) \<and> room ?b (2 * total_bytes (map snd ?L)))"
    proof
      assume h: "(\<forall>x\<in>set lfs. is_ok (decode_visible_file X R (fst x))) \<and> (\<forall>x\<in>set ?L. fits (snd x)) \<and> room ?b (2 * total_bytes (map snd ?L))"
      have "room ?b (total_bytes (map snd ([] @ ?L)))" using h by (auto elim!: room_mono)
      moreover have "\<forall>x\<in>set lfs. length (rf_bytes (fst x)) < 2 ^ 32"
        using assms(1) by (auto simp: replay_holds_def stored_in_def)
      ultimately have "\<exists>st'. ?fold = Inr st'"
        using h a(1) by (intro collect_files_ok[OF new]) (simp_all add: acc)
      then show False using Inl by simp
    qed
    then show ?thesis using Inl eq by (intro exI[of _ 0]) (auto simp: collect_facts_def)
  next
    case (Inr st)
    have h: "\<forall>x\<in>set lfs. is_ok (decode_visible_file X R (fst x))" "\<forall>x\<in>set ?L. fits (snd x)" "facts_hold ?b st ?L"
        "plain st = fold (file_step X R query) lfs (plain (fact_state_new ?b))" "fs_revision st = a"
      using collect_files_Inr[OF new Inr] a(1) by (simp_all add: acc)
    have pl: "fs_manifest_count (plain s) = fs_manifest_count s" "fs_record_count (plain s) = fs_record_count s"
        "fs_first_batch (plain s) = fs_first_batch s" "fs_unsupported (plain s) = fs_unsupported s"
        "fs_genesis_count (plain s) = fs_genesis_count s" "fs_genesis (plain s) = fs_genesis s"
        "fs_reserved (plain s) = fs_reserved s" "fs_subject (plain s) = fs_subject s" for s
      by (simp_all add: plain_def)
    note st = file_steps[of X R query lfs ?b, folded h(4), unfolded pl]
    obtain c where c: "c \<le> 2 * total_bytes (map snd ?L)"
      "\<And>g. rbind (sorter_finish (fs_record_ids st) (fs_budget st)) (\<lambda>(record_ids, b).
      rbind (sorter_finish (fs_records st) b) (\<lambda>(records, b).
      rbind (sorter_finish (fs_idempotency st) b) (\<lambda>(idempotency, b).
      rbind (sorter_finish (fs_claims st) b) (\<lambda>(claims, b).
      rbind (sorter_finish (fs_headers st) b) (\<lambda>(headers, b). g record_ids records idempotency claims headers b))))) =
     (if room ?b c then g (enc_facts (sort (of_kind RecordIdFact ?L))) (enc_facts (sort (of_kind RecordFact ?L)))
        (enc_facts (sort (of_kind IdempotencyFact ?L))) (enc_facts (sort (of_kind ClaimFact ?L)))
        (enc_facts (sort (of_kind HeaderFact ?L))) (spend ?b c) else (Inl InvalidLayout :: store_error + replay_facts \<times> replay_temp_budget))"
      using finish_kinds[OF h(3)] by metis
    have "collect_facts X R rep query = (if room ?b c then Inr (facts_of X R query lfs revision, spend ?b c) else Inl InvalidLayout)"
      using Inr eq unfolding collect_facts_def
      by (simp add: c(2) facts_of_def Let_def st h(5) a(2))
    then show ?thesis using c(1) h(1,2) room_mono[OF _ c(1)] by (intro exI[of _ c]) (auto split: if_splits)
  qed
qed

section \<open>Duplicates\<close>

lemma take_same_of:
  assumes "\<forall>f\<in>set fs. fits f" "\<forall>f\<in>set fs. read (snd f) = Inr (rd (snd f))"
  shows "take_same read key xs (reader_of fs) =
    Inr (xs @ map (rd \<circ> snd) (takeWhile (\<lambda>f. fst f = key) fs), reader_of (dropWhile (\<lambda>f. fst f = key) fs))"
  using assms
proof (induction fs arbitrary: xs)
  case (Cons f fs)
  obtain k v where f: "f = (k, v)" by fastforce
  have "reader_take (reader_of (f # fs)) = Inr (Some f, reader_of fs)" using reader_take_of(2) Cons.prems(1) by simp
  then show ?case using Cons f by (cases "k = key") (simp_all add: take_same.simps[of _ _ _ "reader_of ((_, v) # fs)"])
qed (simp add: take_same.simps)

lemma each_key_of:
  assumes "\<forall>f\<in>set fs. fits f" "\<forall>f\<in>set fs. read (snd f) = Inr (rd (snd f))" "sorted (map fst fs)"
    and "\<And>key xs. check key xs = Inr () \<longleftrightarrow> length xs \<le> 1"
  shows "each_key read check (reader_of fs) = Inr () \<longleftrightarrow> distinct (map fst fs)"
  using assms(1-3)
proof (induction fs)
  case Nil
  then show ?case by (simp add: each_key.simps reader_take_of(1))
next
  case (Cons f fs)
  obtain k v where f: "f = (k, v)" by fastforce
  have tk: "reader_take (reader_of (f # fs)) = Inr (Some f, reader_of fs)" using reader_take_of(2) Cons.prems(1) by simp
  have same: "take_same read k [rd v] (reader_of fs) =
      Inr ([rd v] @ map (rd \<circ> snd) (takeWhile (\<lambda>f. fst f = k) fs), reader_of (dropWhile (\<lambda>f. fst f = k) fs))"
    using Cons.prems by (intro take_same_of) simp_all
  show ?case
  proof (cases "takeWhile (\<lambda>f. fst f = k) fs")
    case Nil
    then have nk: "k \<notin> set (map fst fs)"
      using Cons.prems(3) f by (cases fs) (auto simp: order.antisym split: if_splits)
    have dw: "dropWhile (\<lambda>f. fst f = k) fs = fs" using Nil by (metis append_Nil takeWhile_dropWhile_id)
    have "each_key read check (reader_of (f # fs)) = rbind (check k [rd v]) (\<lambda>_. each_key read check (reader_of fs))"
      using tk same Nil dw f Cons.prems(2) by (simp add: each_key.simps[of _ _ "reader_of ((k, v) # fs)"])
    moreover have "check k [rd v] = Inr ()" using assms(4) by simp
    ultimately show ?thesis using Cons f nk by simp
  next
    case more: (Cons g gs)
    have "g \<in> set fs \<and> fst g = k" using set_takeWhileD[of g "\<lambda>f. fst f = k" fs] more by simp
    then have "k \<in> fst ` set fs" by blast
    moreover have "check k (rd v # map (rd \<circ> snd) (takeWhile (\<lambda>f. fst f = k) fs)) \<noteq> Inr ()"
      using assms(4) more by simp
    ultimately show ?thesis
      using tk same f Cons.prems(2) by (simp add: each_key.simps[of _ _ "reader_of ((k, v) # fs)"] rbind_Inr_iff)
  qed
qed

lemma sorted_fst_sort: "sorted (map fst (sort (fs :: ('a::linorder \<times> 'b::linorder) list)))"
  unfolding sorted_map by (rule sorted_wrt_mono_rel[OF _ sorted_sort]) (auto simp: less_eq_prod_def)

lemma distinct_fst_sort: "distinct (map fst (sort fs)) \<longleftrightarrow> distinct (map fst fs)"
  by (metis mset_map mset_sort mset_eq_imp_distinct_iff)

lemma each_key_sorted:
  assumes "\<forall>f\<in>set fs. fits f" "\<forall>f\<in>set fs. read (snd f) = Inr (rd (snd f))"
    and "\<And>key xs. check key xs = Inr () \<longleftrightarrow> length xs \<le> 1"
  shows "rbind (reader_new (enc_facts (sort fs))) (each_key read check) = Inr () \<longleftrightarrow> distinct (map fst fs)"
  using assms each_key_of[of "sort fs" read rd check] reader_new_of[of "sort fs"]
  by (simp add: sorted_fst_sort distinct_fst_sort)

lemma batch_text_read:
  assumes "uuid_roundtrip X" "uuid_plain X" "v7_ok X u"
  shows "parse_batch X (uuid_to_string X u) = Inr u" "is_str (uuid_to_string X u)"
proof -
  show s: "is_str (uuid_to_string X u)" using assms(2) by (intro is_str_ascii) (simp add: uuid_plain_def uuid_to_string_def)
  show "parse_batch X (uuid_to_string X u) = Inr u"
    using parse_uuid_to_string[OF assms(1,3)] s by (simp add: parse_batch_def batch_id_from_str_def)
qed

lemma duplicate_record_ids_iff:
  assumes "uuid_roundtrip X" "uuid_plain X" "\<forall>x\<in>set (all_facts X R lfs). fits (snd x)"
    and "\<forall>(f, n, r)\<in>set (located_records X R lfs). v7_ok X (r_id r)"
  shows "validate_duplicate_record_ids X (enc_facts (sort (of_kind RecordIdFact (all_facts X R lfs)))) = Inr () \<longleftrightarrow>
    distinct (map (\<lambda>(f, n, r). r_id r) (located_records X R lfs))"
proof -
  let ?fs = "of_kind RecordIdFact (all_facts X R lfs)" and ?rs = "located_records X R lfs"
  have fit: "\<forall>f\<in>set ?fs. fits f" using assms(3) by (auto simp: of_kind_def)
  have "validate_duplicate_record_ids X (enc_facts (sort ?fs)) = Inr () \<longleftrightarrow> distinct (map fst ?fs)"
    unfolding validate_duplicate_record_ids_def
    by (rule each_key_sorted[OF fit, where rd = id]) (auto simp: duplicate_record_id_def split: sum.splits)
  also have "map fst ?fs = map (uuid_to_string X) (map (\<lambda>(f, n, r). r_id r) ?rs)"
    by (simp add: of_kind_all_facts case_prod_unfold)
  also have "distinct \<dots> \<longleftrightarrow> distinct (map (\<lambda>(f, n, r). r_id r) ?rs)"
  proof -
    have "inj_on (uuid_to_string X) (set (map (\<lambda>(f, n, r). r_id r) ?rs))"
    proof (rule inj_onI)
      fix u v assume "u \<in> set (map (\<lambda>(f, n, r). r_id r) ?rs)" "v \<in> set (map (\<lambda>(f, n, r). r_id r) ?rs)"
        and e: "uuid_to_string X u = uuid_to_string X v"
      then have "v7_ok X u" "v7_ok X v" using assms(4) by auto
      then show "u = v" using uuid_to_string_inj[OF assms(1) _ _ e] by blast
    qed
    then show ?thesis using distinct_map[of "uuid_to_string X"] by blast
  qed
  finally show ?thesis .
qed

lemma suffix_append_inj: "length ds = length es \<Longrightarrow> xs @ [c] @ ds = ys @ [c] @ es \<longleftrightarrow> xs = ys \<and> ds = es"
  by auto

lemma duplicate_idempotency_iff:
  fixes lfs
  assumes "uuid_roundtrip X" "uuid_plain X" "hex_roundtrip X" "\<forall>x\<in>set (all_facts X R lfs). fits (snd x)"
  defines "ms \<equiv> scanned_manifests X R (map fst lfs)"
  assumes "\<forall>m\<in>set ms. v7_ok X (bm_batch m) \<and> length (bm_key_digest m) = 32"
  shows "validate_duplicate_idempotency X (enc_facts (sort (of_kind IdempotencyFact (all_facts X R lfs)))) = Inr () \<longleftrightarrow>
    distinct (map (\<lambda>m. (bm_actor m, digest_to_string X (bm_key_digest m))) ms)"
proof -
  let ?fs = "of_kind IdempotencyFact (all_facts X R lfs)"
  have fit: "\<forall>f\<in>set ?fs. fits f" using assms(4) by (auto simp: of_kind_def)
  have rd: "\<forall>f\<in>set ?fs. parse_batch X (snd f) = Inr (projr (parse_batch X (snd f)))"
    using batch_text_read[OF assms(1,2)] assms(6) by (auto simp: of_kind_all_facts ms_def)
  have "validate_duplicate_idempotency X (enc_facts (sort ?fs)) = Inr () \<longleftrightarrow> distinct (map fst ?fs)"
    unfolding validate_duplicate_idempotency_def
    by (rule each_key_sorted[OF fit rd]) (auto split: if_splits)
  also have "map fst ?fs = map idempotency_fact_key ms"
    by (simp add: of_kind_all_facts ms_def comp_def)
  also have "distinct \<dots> \<longleftrightarrow> distinct (map (\<lambda>m. (bm_actor m, digest_to_string X (bm_key_digest m))) ms)"
  proof -
    have "idempotency_fact_key m = idempotency_fact_key n \<longleftrightarrow>
        (bm_actor m, digest_to_string X (bm_key_digest m)) = (bm_actor n, digest_to_string X (bm_key_digest n))"
      if "m \<in> set ms" "n \<in> set ms" for m n
    proof -
      have l: "length (bm_key_digest m) = 32" "length (bm_key_digest n) = 32" using assms(6) that by auto
      have "digest_to_string X (bm_key_digest m) = digest_to_string X (bm_key_digest n) \<Longrightarrow> bm_key_digest m = bm_key_digest n"
        using digest_parse_to_string[OF assms(3) l(1)] digest_parse_to_string[OF assms(3) l(2)] by (metis sum.inject(2))
      then show ?thesis using l unfolding idempotency_fact_key_def by (subst suffix_append_inj) auto
    qed
    then have "inj_on idempotency_fact_key (set ms) \<longleftrightarrow> inj_on (\<lambda>m. (bm_actor m, digest_to_string X (bm_key_digest m))) (set ms)"
      by (auto simp: inj_on_def)
    then show ?thesis
      using distinct_map[of idempotency_fact_key ms] distinct_map[of "\<lambda>m. (bm_actor m, digest_to_string X (bm_key_digest m))" ms]
      by blast
  qed
  finally show ?thesis .
qed

end
