(* ===== verification/Wj_Replay_Owners.thy ===== *)
theory Wj_Replay_Owners
  imports Wj_Replay_Facts
begin

text \<open>
  The merge of the sorted claims with the sorted records, the enriched statuses it yields, and the
  validation of every batch from them: together they decide exactly what ownership validation over
  the collected store decides.
\<close>

section \<open>The merge\<close>

definition push_status ::
  "(bytes \<Rightarrow> (nat \<times> nat) option) \<Rightarrow> external_sorter \<times> replay_temp_budget \<Rightarrow> fact \<Rightarrow>
   store_error + external_sorter \<times> replay_temp_budget" where
  "push_status loc = (\<lambda>(s, b) (p, v). push_enriched s b p v (loc p))"

lemma claim_owners_eq:
  assumes "\<forall>c\<in>set cs. fits c" "loc path = Some l"
  shows "claim_owners path l (reader_of cs) s b n =
    rbind (try_fold (push_status loc) (s, b) (takeWhile (\<lambda>c. fst c = path) cs)) (\<lambda>(s, b).
      Inr (reader_of (dropWhile (\<lambda>c. fst c = path) cs), s, b, n + length (takeWhile (\<lambda>c. fst c = path) cs)))"
  using assms(1)
proof (induction cs arbitrary: s b n)
  case (Cons c cs)
  obtain p v where c: "c = (p, v)" by fastforce
  have tk: "reader_take (reader_of ((p, v) # cs)) = Inr (Some (p, v), reader_of cs)" using reader_take_of(2) Cons.prems by simp
  show ?case
  proof (cases "p = path")
    case True
    show ?thesis
      using Cons.IH Cons.prems tk True assms(2)
      by (cases "push_enriched s b path v (Some l)")
        (auto simp: c claim_owners.simps[of _ _ "reader_of ((path, v) # cs)"] push_status_def)
  qed (simp add: c claim_owners.simps)
qed (simp add: claim_owners.simps)

definition owner_count :: "fact list \<Rightarrow> bytes \<Rightarrow> nat" where
  "owner_count cs p = length (filter (\<lambda>c. fst c = p) cs)"

definition owner_issue :: "fact list \<Rightarrow> fact list \<Rightarrow> batch_error option" where
  "owner_issue cs rs = (case find (\<lambda>r. owner_count cs (fst r) \<noteq> 1) rs of
       None \<Rightarrow> None
     | Some (p, _) \<Rightarrow> Some (if owner_count cs p = 0 then UnownedRecord p else MultiplyOwnedRecord p))"

definition or_issue :: "batch_error option \<Rightarrow> batch_error option \<Rightarrow> batch_error option" where
  "or_issue issue e = (case issue of None \<Rightarrow> e | Some _ \<Rightarrow> issue)"

lemma find_cong: "(\<And>x. x \<in> set xs \<Longrightarrow> P x = Q x) \<Longrightarrow> find P xs = find Q xs"
  by (induction xs) auto

lemma owner_issue_drop:
  assumes "\<And>c r. c \<in> set cs \<Longrightarrow> r \<in> set rs \<Longrightarrow> fst c \<noteq> fst r"
  shows "owner_issue (cs @ ds) rs = owner_issue ds rs"
proof -
  have "owner_count (cs @ ds) (fst r) = owner_count ds (fst r)" if "r \<in> set rs" for r
    using assms that by (auto simp: owner_count_def filter_empty_conv)
  then have e: "find (\<lambda>r. owner_count (cs @ ds) (fst r) \<noteq> 1) rs = find (\<lambda>r. owner_count ds (fst r) \<noteq> 1) rs"
      "\<And>r. r \<in> set rs \<Longrightarrow> owner_count (cs @ ds) (fst r) = owner_count ds (fst r)"
    by (auto intro: find_cong)
  show ?thesis
  proof (cases "find (\<lambda>r. owner_count ds (fst r) \<noteq> 1) rs")
    case (Some r)
    then obtain i where "i < length rs" "r = rs ! i" by (auto simp: find_Some_iff)
    then have "owner_count (cs @ ds) (fst r) = owner_count ds (fst r)" using e(2) by simp
    then show ?thesis unfolding owner_issue_def e(1) Some by (simp add: case_prod_unfold)
  next
    case None
    show ?thesis unfolding owner_issue_def e(1) None by simp
  qed
qed

lemma owner_issue_Cons:
  "owner_issue cs ((p, l) # rs) =
     (if owner_count cs p = 1 then owner_issue cs rs
      else Some (if owner_count cs p = 0 then UnownedRecord p else MultiplyOwnedRecord p))"
  by (simp add: owner_issue_def)

lemma sorted_takeWhile_filter:
  "sorted (map fst cs) \<Longrightarrow> \<forall>c\<in>set cs. p \<le> fst c \<Longrightarrow> filter (\<lambda>c. fst c = p) cs = takeWhile (\<lambda>c. fst c = p) cs"
proof (induction cs)
  case (Cons c cs)
  show ?case
  proof (cases "fst c = p")
    case False
    then have "\<forall>x\<in>set (c # cs). fst x \<noteq> p" using Cons.prems by fastforce
    then have "filter (\<lambda>c. fst c = p) (c # cs) = []" by (simp only: filter_empty_conv)
    then show ?thesis using False by simp
  qed (use Cons in simp)
qed simp

lemma after_dropWhile:
  "sorted (map fst cs) \<Longrightarrow> \<forall>c\<in>set cs. p \<le> fst c \<Longrightarrow> p \<notin> set (map fst (dropWhile (\<lambda>c. fst c = p) cs))"
proof (induction cs)
  case (Cons c cs)
  show ?case
  proof (cases "fst c = p")
    case False
    then have "\<forall>x\<in>set (c # cs). fst x \<noteq> p" using Cons.prems by fastforce
    then show ?thesis using False by auto
  next
    case True
    then have "dropWhile (\<lambda>c. fst c = p) (c # cs) = dropWhile (\<lambda>c. fst c = p) cs" by simp
    then show ?thesis using Cons.IH Cons.prems by (metis list.simps(9) list.set_intros(2) sorted_simps(2))
  qed
qed simp

lemma merge_claims_eq:
  assumes "\<forall>c\<in>set cs. fits c" "\<forall>r\<in>set rs. fits r" "sorted (map fst cs)" "sorted_wrt (<) (map fst rs)"
    and "\<forall>r\<in>set rs. \<exists>l. decode_location (snd r) = Inr l \<and> loc (fst r) = Some l"
    and "\<forall>c\<in>set cs. fst c \<notin> set (map fst rs) \<longrightarrow> loc (fst c) = None"
  shows "merge_claims (reader_of cs) (reader_of rs) s b issue =
    rbind (try_fold (push_status loc) (s, b) cs) (\<lambda>(s, b). Inr (s, b, or_issue issue (owner_issue cs rs)))"
  using assms
proof (induction "length cs + length rs" arbitrary: cs rs s b issue rule: less_induct)
  case less
  note prems = less.prems
  note unfold = merge_claims.simps[of "reader_of cs" "reader_of rs"]
  show ?case
  proof (cases cs; cases rs)
    assume "cs = []" "rs = []"
    then show ?thesis by (simp add: merge_claims.simps owner_issue_def or_issue_def split: option.splits)
  next
    fix c cs' assume cs: "cs = c # cs'" and rs: "rs = []"
    obtain p v where c: "c = (p, v)" by fastforce
    have tk: "reader_take (reader_of ((p, v) # cs')) = Inr (Some (p, v), reader_of cs')"
      using reader_take_of(2) prems(1) cs by simp
    have "loc p = None" using prems(6) by (simp add: cs rs c)
    then show ?thesis
      using less.hyps[of cs' rs] prems tk
      by (cases "push_enriched s b p v None")
        (auto simp: cs rs c merge_claims.simps[of "reader_of ((p, v) # cs')"] push_status_def owner_issue_def)
  next
    fix r rs' assume cs: "cs = []" and rs: "rs = r # rs'"
    obtain p l where r: "r = (p, l)" by fastforce
    have tk: "reader_take (reader_of ((p, l) # rs')) = Inr (Some (p, l), reader_of rs')"
      using reader_take_of(2) prems(2) rs by simp
    have "merge_claims (reader_of []) (reader_of rs') s b (first_issue issue (UnownedRecord p)) =
        Inr (s, b, or_issue (first_issue issue (UnownedRecord p)) (owner_issue [] rs'))"
      using less.hyps[of "[]" rs' s b "first_issue issue (UnownedRecord p)"] prems by (auto simp: cs rs)
    then show ?thesis
      using tk by (auto simp: cs rs r merge_claims.simps[of "reader_of []" "reader_of ((p, l) # rs')"] owner_issue_Cons
          owner_count_def or_issue_def first_issue_def split: option.splits)
  next
    fix c cs' r rs' assume cs: "cs = c # cs'" and rs: "rs = r # rs'"
    obtain p v where c: "c = (p, v)" by fastforce
    obtain q l where r: "r = (q, l)" by fastforce
    have tk: "reader_take (reader_of ((p, v) # cs')) = Inr (Some (p, v), reader_of cs')"
        "reader_take (reader_of ((q, l) # rs')) = Inr (Some (q, l), reader_of rs')"
      using reader_take_of(2) prems(1,2) cs rs by simp_all
    consider "p < q" | "q < p" | "p = q" by fastforce
    then show ?thesis
    proof cases
      case 1
      have n: "p \<notin> set (map fst rs)" using 1 prems(4) by (auto simp: rs r)
      then have "loc p = None" using prems(6) by (simp add: cs c)
      moreover have "owner_issue cs rs = owner_issue cs' rs"
        using owner_issue_drop[of "[c]" rs cs'] n by (auto simp: cs c)
      ultimately show ?thesis
        using less.hyps[of cs' rs] prems tk 1
        by (cases "push_enriched s b p v None")
          (auto simp: cs rs c r merge_claims.simps[of "reader_of ((p, v) # cs')"] push_status_def)
    next
      case 2
      have z: "owner_count cs q = 0" using 2 prems(3) by (auto simp: cs c owner_count_def filter_empty_conv)
      have "merge_claims (reader_of cs) (reader_of rs') s b (first_issue issue (UnownedRecord q)) =
          rbind (try_fold (push_status loc) (s, b) cs) (\<lambda>(s, b). Inr (s, b, or_issue (first_issue issue (UnownedRecord q)) (owner_issue cs rs')))"
      proof (rule less.hyps)
        show "\<forall>c\<in>set cs. fst c \<notin> set (map fst rs') \<longrightarrow> loc (fst c) = None"
        proof -
          have "\<forall>c\<in>set cs. fst c \<noteq> q" using prems(3) 2 by (auto simp: cs c)
          then show ?thesis using prems(6) by (auto simp only: rs r list.map fst_conv set_simps)
        qed
      qed (use prems in \<open>auto simp: rs\<close>)
      moreover have "or_issue (first_issue issue (UnownedRecord q)) (owner_issue cs rs') = or_issue issue (owner_issue cs rs)"
        using z by (auto simp: rs r owner_issue_Cons or_issue_def first_issue_def split: option.splits)
      ultimately show ?thesis
        using 2 tk less_not_sym[OF 2]
        by (simp add: cs c rs r merge_claims.simps[of "reader_of ((p, v) # cs')" "reader_of ((q, l) # rs')"])
    next
      case 3
      let ?t = "takeWhile (\<lambda>c. fst c = q) cs" and ?d = "dropWhile (\<lambda>c. fst c = q) cs"
      obtain l' where l': "decode_location l = Inr l'" "loc q = Some l'" using prems(5) by (auto simp: rs r)
      have ge: "\<forall>c\<in>set cs. q \<le> fst c" using prems(3) 3 by (auto simp: cs c)
      have n: "owner_count cs q = length ?t" "0 < length ?t"
        using sorted_takeWhile_filter[OF prems(3) ge] 3 by (simp_all add: owner_count_def cs c)
      have gt: "q \<notin> set (map fst ?d)" by (rule after_dropWhile[OF prems(3) ge])
      have drop: "owner_issue cs rs' = owner_issue ?d rs'"
      proof -
        have "owner_issue (?t @ ?d) rs' = owner_issue ?d rs'"
          using prems(4) by (intro owner_issue_drop) (auto simp: rs r dest!: set_takeWhileD)
        then show ?thesis by simp
      qed
      have "sorted (map fst (?t @ ?d))" using prems(3) by (simp only: takeWhile_dropWhile_id)
      then have sd: "sorted (map fst ?d)" by (simp only: map_append sorted_append)
      have IH: "merge_claims (reader_of ?d) (reader_of rs') s b i =
          rbind (try_fold (push_status loc) (s, b) ?d) (\<lambda>(s, b). Inr (s, b, or_issue i (owner_issue ?d rs')))" for s b i
      proof (rule less.hyps)
        show "length ?d + length rs' < length cs + length rs" using length_dropWhile_le[of "\<lambda>c. fst c = q" cs] by (simp add: rs)
        show "\<forall>c\<in>set ?d. fst c \<notin> set (map fst rs') \<longrightarrow> loc (fst c) = None"
        proof (intro ballI impI)
          fix c assume a: "c \<in> set ?d" "fst c \<notin> set (map fst rs')"
          have "fst c \<noteq> q" using a(1) gt by auto
          then show "loc (fst c) = None" using a(2) prems(6) set_dropWhileD[OF a(1)] by (simp add: rs r)
        qed
        show "sorted (map fst ?d)" by (rule sd)
      qed (use prems in \<open>auto simp: rs dest: set_dropWhileD\<close>)
      have split: "try_fold (push_status loc) (s, b) cs = rbind (try_fold (push_status loc) (s, b) ?t) (\<lambda>sb. try_fold (push_status loc) sb ?d)"
        using try_fold_append[of "push_status loc" "(s, b)" ?t ?d] by simp
      have "merge_claims (reader_of cs) (reader_of rs) s b issue =
          rbind (claim_owners q l' (reader_of cs) s b 0) (\<lambda>(claims, s, b, n).
            merge_claims claims (reader_of rs') s b (if 1 < n then first_issue issue (MultiplyOwnedRecord q) else issue))"
        using tk 3 l'(1) by (simp add: cs c rs r merge_claims.simps[of "reader_of ((q, v) # cs')"])
      moreover have "or_issue (if 1 < length ?t then first_issue issue (MultiplyOwnedRecord q) else issue) (owner_issue ?d rs') =
          or_issue issue (owner_issue cs rs)"
      proof (cases "length ?t = 1")
        case False
        then have "1 < length ?t" using n(2) by linarith
        then show ?thesis using n by (simp add: rs r owner_issue_Cons or_issue_def first_issue_def split: option.splits)
      qed (use n drop in \<open>simp add: rs r owner_issue_Cons\<close>)
      ultimately show ?thesis
        using claim_owners_eq[of cs loc q l' s b 0] prems(1) l'(2)
        by (simp add: IH split rbind_assoc case_prod_unfold)
    qed
  qed
qed

section \<open>Statuses\<close>

definition loc_tail :: "(nat \<times> nat) option \<Rightarrow> bytes" where
  "loc_tail location = (case location of None \<Rightarrow> [CHR 0x00] | Some (offset, n) \<Rightarrow> [CHR 0x01] @ location_bytes offset n)"

definition status_fields :: "ext \<Rightarrow> batch_manifest \<Rightarrow> record_ref \<Rightarrow> bytes list" where
  "status_fields X m ref = ref_path ref # tl (claim_fields X m ref)"

definition status_fact :: "ext \<Rightarrow> (bytes \<Rightarrow> (nat \<times> nat) option) \<Rightarrow> batch_manifest \<times> record_ref \<Rightarrow> fact" where
  "status_fact X loc = (\<lambda>(m, ref). (uuid_to_string X (bm_batch m) @ [CHR 0x00] @ ref_path ref,
     enc_fields (status_fields X m ref) @ loc_tail (loc (ref_path ref))))"

lemma push_status_eq:
  assumes "fits (claim_fact X (m, ref))" "\<And>l. loc (ref_path ref) = Some l \<Longrightarrow> snd l < 2 ^ 32"
  shows "push_status loc (s, b) (claim_fact X (m, ref)) =
    sorter_push s b (fst (status_fact X loc (m, ref))) (snd (status_fact X loc (m, ref)))"
proof -
  have e: "\<forall>v\<in>set (claim_fields X m ref). length v < 2 ^ 16"
    using fits_encodable[of "ref_path ref" "claim_fields X m ref" "[]"] assms(1) by (simp add: claim_fact_def)
  have six: "length (claim_fields X m ref) = 6" by (simp add: claim_fields_def)
  have "parse_fields (enc_fields (claim_fields X m ref)) 6 = Inr (claim_fields X m ref)"
    using parse_fields_enc[OF e] six by simp
  moreover have "encode_fields (status_fields X m ref) = Inr (enc_fields (status_fields X m ref))"
    using e assms(1) by (simp add: encode_fields_eq status_fields_def claim_fields_def claim_fact_def fact_bytes_def MAX_FACT_BYTES_def)
  moreover have "hd (claim_fields X m ref) = uuid_to_string X (bm_batch m)" by (simp add: claim_fields_def)
  ultimately show ?thesis
    using assms(2)
    by (auto simp: push_status_def claim_fact_def push_enriched_def status_fact_def status_fields_def loc_tail_def split: option.splits)
qed

lemma push_statuses_eq:
  assumes "\<forall>c\<in>set cs. fits (claim_fact X c)" "\<And>p l. loc p = Some l \<Longrightarrow> snd l < 2 ^ 32"
  shows "try_fold (push_status loc) (s, b) (map (claim_fact X) cs) =
    try_fold (\<lambda>(s, b) (key, v). sorter_push s b key v) (s, b) (map (status_fact X loc) cs)"
proof -
  have "push_status loc sb (claim_fact X c) =
      (case sb of (s, b) \<Rightarrow> case status_fact X loc c of (key, v) \<Rightarrow> sorter_push s b key v)" if "c \<in> set cs" for sb c
  proof -
    obtain s b m ref where c: "sb = (s, b)" "c = (m, ref)" by fastforce
    show ?thesis
      using push_status_eq[of X m ref loc s b] assms that unfolding c by (simp add: case_prod_unfold)
  qed
  then show ?thesis unfolding try_fold_map by (intro try_fold_cong) (simp add: case_prod_unfold)
qed

text \<open>The merge and the sorter behind it, as one step.\<close>

definition owned_statuses :: "fact_reader \<Rightarrow> fact_reader \<Rightarrow> replay_temp_budget \<Rightarrow> store_error + bytes \<times> replay_temp_budget \<times> batch_error option" where
  "owned_statuses claims records b =
     rbind (merge_claims claims records sorter_new b None) (\<lambda>(s, b, issue).
     rbind (sorter_finish s b) (\<lambda>(enriched, b). Inr (enriched, b, issue)))"

lemma sort_status_perm: "sort (map f (sort_key g xs)) = sort (map f xs)"
  by (rule properties_for_sort) simp_all

lemma owned_statuses_eq:
  assumes "\<forall>c\<in>set cs. fits (claim_fact X c)" "\<forall>r\<in>set rs. fits r" "sorted_wrt (<) (map fst rs)" "room b 0"
    and "\<forall>r\<in>set rs. \<exists>l. decode_location (snd r) = Inr l \<and> loc (fst r) = Some l"
    and "\<And>p. p \<notin> set (map fst rs) \<Longrightarrow> loc p = None" "\<And>p l. loc p = Some l \<Longrightarrow> snd l < 2 ^ 32"
  defines "ss \<equiv> map (status_fact X loc) cs"
  shows "\<exists>c. owned_statuses (reader_of (sort (map (claim_fact X) cs))) (reader_of rs) b =
      Inr (enc_facts (sort ss), spend b c, owner_issue (sort (map (claim_fact X) cs)) rs) \<and> (\<forall>f\<in>set ss. fits f) \<or>
    (\<exists>e. owned_statuses (reader_of (sort (map (claim_fact X) cs))) (reader_of rs) b = Inl e) \<and>
      \<not> ((\<forall>f\<in>set ss. fits f) \<and> room b (2 * total_bytes ss))"
proof -
  let ?cs = "sort_key (claim_fact X) cs"
  let ?ss = "map (status_fact X loc) ?cs"
  have srt: "sort (map (claim_fact X) cs) = map (claim_fact X) ?cs" by (simp add: map_sort_key)
  have merge: "merge_claims (reader_of (map (claim_fact X) ?cs)) (reader_of rs) sorter_new b None =
      rbind (try_fold (push_status loc) (sorter_new, b) (map (claim_fact X) ?cs)) (\<lambda>(s, b).
        Inr (s, b, or_issue None (owner_issue (map (claim_fact X) ?cs) rs)))"
  proof (rule merge_claims_eq)
    show "sorted (map fst (map (claim_fact X) ?cs))" unfolding srt[symmetric] by (rule sorted_fst_sort)
  qed (use assms in auto)
  have tot: "total_bytes ?ss = total_bytes ss" by (rule total_bytes_mset) (simp add: ss_def)
  have sset: "set ?ss = set ss" by (simp add: ss_def)
  note pushes = push_statuses_eq[of ?cs X loc sorter_new b, OF _ assms(7)]
  consider (sorted) s w where "try_fold (\<lambda>(s, b) (key, v). sorter_push s b key v) (sorter_new, b) ?ss = Inr (s, spend b (w - 0))"
      "room b (w - 0)" "sorter_holds s ([] @ ?ss) w"
    | (failed) e where "try_fold (\<lambda>(s, b) (key, v). sorter_push s b key v) (sorter_new, b) ?ss = Inl e"
      "\<not> (\<forall>f\<in>set ?ss. fits f) \<or> \<not> room b (total_bytes ([] @ ?ss) - 0)"
    using sorter_pushes[OF sorter_holds_new(2) assms(4), of ?ss] by blast
  then show ?thesis
  proof cases
    case h: sorted
    have w: "w \<le> total_bytes ss" using sorter_written[OF h(3)] tot by simp
    have rm: "room (spend b w) 0" using h(2) by simp
    obtain c where c: "c \<le> 2 * total_bytes ss - w"
        "sorter_finish s (spend b w) = (if room (spend b w) c then Inr (enc_facts (sort ?ss), spend (spend b w) c) else Inl InvalidLayout)"
      using sorter_finish_eq[OF h(3) rm] tot by auto
    have fit: "\<forall>f\<in>set ss. fits f" using sorter_holds_fits[OF h(3)] sset by simp
    have e: "owned_statuses (reader_of (sort (map (claim_fact X) cs))) (reader_of rs) b =
        (if room b (w + c) then Inr (enc_facts (sort ss), spend b (w + c), owner_issue (sort (map (claim_fact X) cs)) rs) else Inl InvalidLayout)"
      using merge pushes assms(1) h(1) c(2) unfolding srt
      by (simp add: owned_statuses_def or_issue_def sort_status_perm ss_def)
    show ?thesis
    proof (cases "room b (w + c)")
      case False
      have "w + c \<le> 2 * total_bytes ss" using c(1) w by simp
      then have "\<not> room b (2 * total_bytes ss)" using False room_mono by blast
      then show ?thesis using e False by simp
    qed (use e fit in auto)
  next
    case h: failed
    have "\<not> ((\<forall>f\<in>set ss. fits f) \<and> room b (2 * total_bytes ss))"
      using h(2) tot sset room_mono[of b "2 * total_bytes ss" "total_bytes ss"] by auto
    moreover have "owned_statuses (reader_of (sort (map (claim_fact X) cs))) (reader_of rs) b = Inl e"
      using merge pushes assms(1) h(1) unfolding srt by (simp add: owned_statuses_def)
    ultimately show ?thesis by blast
  qed
qed

section \<open>A manifest and its files\<close>

text \<open>The files of a store by path; a manifest checked member by member against them.\<close>

definition bytes_at :: "stored_member list \<Rightarrow> bytes \<Rightarrow> bytes option" where
  "bytes_at records = map_of (map (\<lambda>s. (sm_path s, sm_bytes s)) records)"

definition manifest_matches ::
  "ext \<Rightarrow> domain_registry \<Rightarrow> (bytes \<Rightarrow> bytes option) \<Rightarrow> batch_manifest \<Rightarrow> bool" where
  "manifest_matches X R at m \<longleftrightarrow>
     (\<forall>ref\<in>set (bm_members m). \<exists>bs. at (ref_path ref) = Some bs \<and> is_ok (check_member X R m ref bs)) \<and>
     framed_hash X REQUEST_DIGEST_DOMAIN (map (\<lambda>ref. (ref_path ref, the (at (ref_path ref)))) (bm_members m)) = bm_request m"

lemma bytes_at_Some:
  assumes "distinct (map sm_path records)"
  shows "bytes_at records p = Some bs \<longleftrightarrow> \<lparr>sm_path = p, sm_bytes = bs\<rparr> \<in> set records"
proof -
  have "bytes_at records p = Some bs \<longleftrightarrow> (p, bs) \<in> (\<lambda>s. (sm_path s, sm_bytes s)) ` set records"
    using assms by (subst bytes_at_def, subst map_of_eq_Some_iff) (simp_all add: comp_def)
  also have "\<dots> \<longleftrightarrow> \<lparr>sm_path = p, sm_bytes = bs\<rparr> \<in> set records"
  proof
    assume "(p, bs) \<in> (\<lambda>s. (sm_path s, sm_bytes s)) ` set records"
    then obtain s where s: "s \<in> set records" "sm_path s = p" "sm_bytes s = bs" by auto
    have "s = \<lparr>sm_path = p, sm_bytes = bs\<rparr>" using s(2,3) by (cases s) simp
    then show "\<lparr>sm_path = p, sm_bytes = bs\<rparr> \<in> set records" using s(1) by simp
  qed force
  finally show ?thesis .
qed

lemma manifest_stored_matches:
  assumes "distinct (map sm_path records)" "manifest_stored X R records m"
  shows "manifest_matches X R (bytes_at records) m"
proof -
  obtain ms rs where ms: "set ms \<subseteq> set records" "validate_batch_members X m ms R = Inr rs"
    using assms(2) by (auto simp: manifest_stored_def is_ok_iff)
  obtain hs where hs: "set hs = (\<lambda>s. (sm_path s, sm_bytes s)) ` set ms" "map fst hs = map ref_path (bm_members m)"
    "list_all2 (\<lambda>ref r. \<exists>bs. (ref_path ref, bs) \<in> set hs \<and> check_member X R m ref bs = Inr r) (bm_members m) rs"
    "framed_hash X REQUEST_DIGEST_DOMAIN hs = bm_request m"
    by (rule validate_batch_members_Inr[OF ms(2)]) (rule that)
  have at: "bytes_at records p = Some bs" if "(p, bs) \<in> set hs" for p bs
  proof -
    have "(p, bs) \<in> (\<lambda>s. (sm_path s, sm_bytes s)) ` set ms" using that unfolding hs(1) .
    then obtain s :: stored_member where s: "s \<in> set records" "p = sm_path s" "bs = sm_bytes s" using ms(1) by blast
    have "s = \<lparr>sm_path = p, sm_bytes = bs\<rparr>" using s(2,3) by (cases s) simp
    then show ?thesis using s(1) bytes_at_Some[OF assms(1)] by simp
  qed
  have "hs = map (\<lambda>p. (p, the (bytes_at records p))) (map fst hs)"
    unfolding map_map by (rule map_idI[symmetric]) (use at in force)
  then have "map (\<lambda>ref. (ref_path ref, the (bytes_at records (ref_path ref)))) (bm_members m) = hs"
    unfolding hs(2) by (simp add: comp_def)
  moreover have "\<exists>bs. bytes_at records (ref_path ref) = Some bs \<and> is_ok (check_member X R m ref bs)"
    if "ref \<in> set (bm_members m)" for ref
    using that hs(3) at by (auto simp: in_set_conv_nth list_all2_conv_all_nth is_ok_iff) metis
  ultimately show ?thesis using hs(4) by (simp add: manifest_matches_def)
qed

lemma manifest_matches_stored:
  assumes "distinct (map sm_path records)" "distinct (map ref_path (bm_members m))"
    and "manifest_matches X R (bytes_at records) m"
  shows "manifest_stored X R records m"
proof -
  let ?bs = "\<lambda>ref. the (bytes_at records (ref_path ref))"
  let ?ms = "map (\<lambda>ref. \<lparr>sm_path = ref_path ref, sm_bytes = ?bs ref\<rparr>) (bm_members m)"
  let ?kv = "map (\<lambda>ref. (ref_path ref, ?bs ref)) (bm_members m)"
  let ?rs = "map (\<lambda>ref. projr (check_member X R m ref (?bs ref))) (bm_members m)"
  have at: "bytes_at records (ref_path ref) = Some (?bs ref)" "check_member X R m ref (?bs ref) = Inr (projr (check_member X R m ref (?bs ref)))"
    if "ref \<in> set (bm_members m)" for ref
    using assms(3) that by (force simp: manifest_matches_def is_ok_iff)+
  have sub: "set ?ms \<subseteq> set records" using at(1) by (auto simp: bytes_at_Some[OF assms(1)])
  have d: "distinct (map fst ?kv)" using assms(2) by (simp add: comp_def)
  have kv: "map (\<lambda>s. (sm_path s, sm_bytes s)) ?ms = ?kv" by simp
  have col: "collect_stored [] ?ms = Inr (bt_of_list ?kv)"
    using assms(2) unfolding kv[symmetric] by (subst collect_stored_iff) (simp add: comp_def)
  have get: "bt_get (bt_of_list ?kv) (ref_path ref) = Some (?bs ref)" if "ref \<in> set (bm_members m)" for ref
    unfolding bt_get_of_list[OF d] using that by (subst map_of_eq_Some_iff[OF d]) auto
  have zip: "zip (map ref_path (bm_members m)) (map ?bs (bm_members m)) = ?kv" by (simp add: zip_map_map zip_same_conv_map)
  obtain rest where rest: "check_members X R m (bt_of_list ?kv) (bm_members m) = Inr (rest, ?rs, ?kv)"
      "set rest = {(k, v) \<in> set (bt_of_list ?kv). k \<notin> ref_path ` set (bm_members m)}"
    using check_members_total[of "bt_of_list ?kv" "bm_members m" ?rs "map ?bs (bm_members m)" X R m] assms(2) get at(2)
    unfolding zip by (auto simp: bt_wf_of_list)
  have "k \<in> ref_path ` set (bm_members m)" if "(k, v) \<in> set (bt_of_list ?kv)" for k v
  proof -
    have "bt_get (bt_of_list ?kv) k = Some v" using that by (simp add: bt_get_Some_iff[OF bt_wf_of_list])
    then show ?thesis unfolding bt_get_of_list[OF d] by (auto dest!: map_of_SomeD)
  qed
  then have "rest = []" using rest(2) by (cases rest) auto
  then have "validate_batch_members X m ?ms R = Inr ?rs"
    using col rest(1) assms(3) by (simp add: validate_batch_members_def manifest_matches_def)
  then show ?thesis
    using sub unfolding manifest_stored_def by (intro exI[of _ ?ms]) (simp add: comp_def)
qed

end
