(* ===== verification/Wj_Replay_Batches.thy ===== *)
theory Wj_Replay_Batches
  imports Wj_Replay_Owners
begin

text \<open>
  The validation of every batch from the sorted headers and statuses: one pass over both files that
  checks each manifest against its own files.
\<close>

section \<open>Decimal counts\<close>

lemma option_map_append: "option_map f (xs @ ys) =
    (case option_map f xs of None \<Rightarrow> None | Some us \<Rightarrow> (case option_map f ys of None \<Rightarrow> None | Some vs \<Rightarrow> Some (us @ vs)))"
  by (induction xs) (auto split: option.splits)

lemma decimal_digit_char: "n < 10 \<Longrightarrow> decimal_digit (char_of (48 + n)) = Some n"
  by (simp add: decimal_digit_def less_eq_char_def)

lemma usize_digits:
  "\<exists>ds. option_map decimal_digit (usize_to_string n) = Some ds \<and> foldl (\<lambda>a d. a * 10 + d) 0 ds = n"
proof (induction n rule: usize_to_string.induct)
  case (1 n)
  show ?case
  proof (cases "n < 10")
    case True
    then show ?thesis by (simp add: usize_to_string.simps[of n] decimal_digit_char)
  next
    case False
    then obtain ds where "option_map decimal_digit (usize_to_string (n div 10)) = Some ds" "foldl (\<lambda>a d. a * 10 + d) 0 ds = n div 10"
      using 1 by blast
    then show ?thesis
      using False by (simp add: usize_to_string.simps[of n] option_map_append decimal_digit_char)
  qed
qed

lemma usize_text:
  "usize_to_string n \<noteq> []" "is_ascii (usize_to_string n)" "hd (usize_to_string n) \<noteq> CHR ''+''"
proof -
  have "usize_to_string n \<noteq> [] \<and> is_ascii (usize_to_string n) \<and> hd (usize_to_string n) \<noteq> CHR ''+''"
  proof (induction n rule: usize_to_string.induct)
    case (1 n)
    have plus: "char_of (48 + k) \<noteq> CHR ''+''" if "k < 10" for k :: nat
    proof
      assume "char_of (48 + k) = CHR ''+''"
      then have "(of_char (char_of (48 + k) :: char) :: nat) = of_char CHR ''+''" by simp
      then show False using that by simp
    qed
    show ?case
      using 1 plus by (cases "n < 10") (simp_all add: usize_to_string.simps[of n] is_ascii_Cons)
  qed
  then show "usize_to_string n \<noteq> []" "is_ascii (usize_to_string n)" "hd (usize_to_string n) \<noteq> CHR ''+''" by blast+
qed

lemma parse_usize_text: "n < 2 ^ 64 \<Longrightarrow> parse_usize (usize_to_string n) = Inr n"
  using usize_digits[of n] usize_text[of n] is_str_ascii[of "usize_to_string n"]
  by (auto simp: parse_usize_def usize_from_str_def Let_def)

section \<open>Order of the statuses\<close>

definition no_nul :: "string \<Rightarrow> bool" where
  "no_nul s \<longleftrightarrow> CHR 0x00 \<notin> set s"

lemma nul_less: "c \<noteq> CHR 0x00 \<Longrightarrow> CHR 0x00 < c"
  by (cases "CHR 0x00" c rule: linorder_cases) (auto simp: less_char_def)

lemma nul_key_less: "no_nul a \<Longrightarrow> no_nul b \<Longrightarrow> a < b \<Longrightarrow> a @ CHR 0x00 # x < b @ CHR 0x00 # y"
proof (induction a arbitrary: b)
  case Nil
  then obtain c b' where "b = c # b'" by (cases b) auto
  then show ?case using Nil nul_less[of c] by (auto simp: no_nul_def)
next
  case (Cons c a)
  obtain d b' where b: "b = d # b'" using Cons.prems(3) by (cases b) auto
  show ?case
    using Cons.IH[of b'] Cons.prems by (auto simp: b no_nul_def)
qed

lemma nul_key_inj: "no_nul a \<Longrightarrow> no_nul b \<Longrightarrow> a @ CHR 0x00 # x = b @ CHR 0x00 # y \<Longrightarrow> a = b \<and> x = y"
proof (induction a arbitrary: b)
  case Nil
  then show ?case by (cases b) (auto simp: no_nul_def)
next
  case (Cons c a)
  then show ?case by (cases b) (auto simp: no_nul_def)
qed

lemma key_of_batch_iff:
  assumes "no_nul a" "no_nul b"
  shows "key_of_batch (a @ [CHR 0x00] @ x) b \<longleftrightarrow> a = b"
proof
  assume "key_of_batch (a @ [CHR 0x00] @ x) b"
  then have k: "starts_with (a @ CHR 0x00 # x) b" "length b < length (a @ CHR 0x00 # x)" "(a @ CHR 0x00 # x) ! length b = CHR 0x00"
    by (simp_all add: key_of_batch_def)
  obtain t where e: "a @ CHR 0x00 # x = b @ t" using k(1) by (auto simp: starts_with_iff)
  have t: "a @ CHR 0x00 # x = b @ t" "t \<noteq> []" "hd t = CHR 0x00"
    using k(2,3) unfolding e by (auto simp: hd_conv_nth nth_append)
  then have "a @ CHR 0x00 # x = b @ CHR 0x00 # tl t" by (cases t) simp_all
  then show "a = b" using nul_key_inj[OF assms] by blast
qed (simp add: key_of_batch_def)

lemma append_less_iff: "p @ x < p @ y \<longleftrightarrow> x < y" for p :: string
  by (induction p) auto

definition batch_text :: "ext \<Rightarrow> batch_manifest \<Rightarrow> string" where
  "batch_text X m = uuid_to_string X (bm_batch m)"

definition by_batch :: "ext \<Rightarrow> batch_manifest list \<Rightarrow> batch_manifest list" where
  "by_batch X ms = sort_key (batch_text X) ms"

lemma mset_manifest_claims: "mset ms = mset ns \<Longrightarrow> mset (manifest_claims ms) = mset (manifest_claims ns)"
proof -
  have "mset (manifest_claims ms) = (\<Sum>m\<in>#mset ms. mset (map (Pair m) (bm_members m)))" for ms
    by (induction ms) simp_all
  then show "mset ms = mset ns \<Longrightarrow> ?thesis" by simp
qed

lemma sorted_claims:
  assumes "\<forall>m\<in>set ms. no_nul (batch_text X m) \<and> strictly_ordered (map ref_path (bm_members m))"
    and "sorted_wrt (<) (map (batch_text X) ms)"
  shows "sorted_wrt (<) (map (fst \<circ> status_fact X loc) (manifest_claims ms))"
  using assms
proof (induction ms)
  case (Cons m ms)
  have "sorted_wrt (<) (map (fst \<circ> status_fact X loc) (map (Pair m) (bm_members m)))"
    using Cons.prems(1) by (simp add: order_simps sorted_wrt_map status_fact_def append_less_iff)
  moreover have "\<forall>c\<in>set (manifest_claims ms). \<forall>ref\<in>set (bm_members m). fst (status_fact X loc (m, ref)) < fst (status_fact X loc c)"
  proof (intro ballI)
    fix c ref assume "c \<in> set (manifest_claims ms)"
    then obtain n ref' where c: "c = (n, ref')" "n \<in> set ms" by (auto simp: manifest_claims_def)
    have "batch_text X m < batch_text X n" using Cons.prems(2) c(2) by simp
    then show "fst (status_fact X loc (m, ref)) < fst (status_fact X loc c)"
      using nul_key_less[of "batch_text X m" "batch_text X n"] Cons.prems(1) c by (simp add: status_fact_def batch_text_def)
  qed
  ultimately show ?case using Cons by (auto simp: sorted_wrt_append comp_def)
qed simp

lemma sorted_fst_strict: "sorted_wrt (<) (map fst fs) \<Longrightarrow> sort fs = fs" for fs :: "fact list"
proof -
  assume "sorted_wrt (<) (map fst fs)"
  then have "sorted fs"
    unfolding sorted_wrt_map by (rule sorted_wrt_mono_rel[rotated]) (auto simp: less_eq_prod_def)
  then show ?thesis by (simp add: sorted_sort_id)
qed

lemma sort_perm_id: "mset xs = mset ys \<Longrightarrow> sort ys = ys \<Longrightarrow> sort xs = ys"
  by (metis sorted_sort properties_for_sort)

lemma sorted_statuses:
  assumes "\<forall>m\<in>set ms. no_nul (batch_text X m) \<and> strictly_ordered (map ref_path (bm_members m))"
    and "distinct (map (batch_text X) ms)"
  shows "sort (map (status_fact X loc) (manifest_claims ms)) = map (status_fact X loc) (manifest_claims (by_batch X ms))"
    and "sort (map (header_fact X) ms) = map (header_fact X) (by_batch X ms)"
    and "sorted_wrt (<) (map (batch_text X) (by_batch X ms))"
proof -
  show b: "sorted_wrt (<) (map (batch_text X) (by_batch X ms))"
    using assms(2) by (simp add: by_batch_def map_sort_key strict_sorted_iff)
  have mem: "set (by_batch X ms) = set ms" "mset (by_batch X ms) = mset ms" by (simp_all add: by_batch_def)
  show "sort (map (header_fact X) ms) = map (header_fact X) (by_batch X ms)"
  proof (rule sort_perm_id)
    show "sort (map (header_fact X) (by_batch X ms)) = map (header_fact X) (by_batch X ms)"
      by (rule sorted_fst_strict) (use b in \<open>simp add: comp_def header_fact_def batch_text_def[abs_def]\<close>)
  qed (simp add: mem)
  show "sort (map (status_fact X loc) (manifest_claims ms)) = map (status_fact X loc) (manifest_claims (by_batch X ms))"
  proof (rule sort_perm_id)
    show "sort (map (status_fact X loc) (manifest_claims (by_batch X ms))) = map (status_fact X loc) (manifest_claims (by_batch X ms))"
      by (rule sorted_fst_strict) (use sorted_claims[OF _ b, of loc] assms(1) mem in simp)
    show "mset (map (status_fact X loc) (manifest_claims ms)) = mset (map (status_fact X loc) (manifest_claims (by_batch X ms)))"
      using mset_manifest_claims[OF mem(2)] by simp
  qed
qed

section \<open>Reading statuses\<close>

definition status_of :: "(bytes \<Rightarrow> (nat \<times> nat) option) \<Rightarrow> record_ref \<Rightarrow> member_status" where
  "status_of loc ref = \<lparr>ms_path = ref_path ref, ms_record_id = ref_id ref, ms_schema = ref_schema ref,
     ms_digest = ref_digest ref, ms_location = loc (ref_path ref)\<rparr>"

text \<open>What the parsers rely on of a reference: its texts read back.\<close>

definition ref_parses :: "ext \<Rightarrow> record_ref \<Rightarrow> bool" where
  "ref_parses X ref \<longleftrightarrow> v7_ok X (ref_id ref) \<and> is_str (ref_schema ref) \<and> length (ref_digest ref) = 32"

definition loc_small :: "(bytes \<Rightarrow> (nat \<times> nat) option) \<Rightarrow> bool" where
  "loc_small loc \<longleftrightarrow> (\<forall>p offset n. loc p = Some (offset, n) \<longrightarrow> offset < 2 ^ 64 \<and> n < 2 ^ 32)"

lemma digest_text_read:
  assumes "hex_roundtrip X" "length d = 32"
  shows "parse_digest X (digest_to_string X d) = Inr d"
proof -
  have "list_all is_lower_hex (digest_to_string X d)" using assms by (simp add: hex_roundtrip_def digest_to_string_def)
  then have "is_ascii (digest_to_string X d)"
    unfolding is_ascii_def by (rule list.pred_mono_strong) (auto simp: is_lower_hex_def less_eq_char_def)
  then show ?thesis using digest_parse_to_string[OF assms] is_str_ascii by (simp add: parse_digest_def)
qed

lemma parse_enriched_status_eq:
  assumes "\<forall>v\<in>set (status_fields X m ref). length v < 2 ^ 16" "loc_small loc"
  shows "parse_enriched_status (enc_fields (status_fields X m ref) @ loc_tail (loc (ref_path ref))) =
    Inr (status_fields X m ref, loc (ref_path ref))"
proof -
  have "length (status_fields X m ref) = 6" by (simp add: status_fields_def claim_fields_def)
  then have t: "take_fields 6 (enc_fields (status_fields X m ref) @ loc_tail (loc (ref_path ref))) =
      Some (status_fields X m ref, loc_tail (loc (ref_path ref)))"
    using take_fields_enc[OF assms(1)] by simp
  show ?thesis
  proof (cases "loc (ref_path ref)")
    case None
    then show ?thesis using t by (simp add: parse_enriched_status_def loc_tail_def)
  next
    case (Some l)
    obtain offset n where l: "l = (offset, n)" by fastforce
    then have "offset < 2 ^ 64" "n < 2 ^ 32" using assms(2) Some by (auto simp: loc_small_def)
    then show ?thesis
      using t Some l by (simp add: parse_enriched_status_def loc_tail_def location_bytes_def from_be_bytes_be_bytes)
  qed
qed

lemma parse_status_eq:
  assumes "uuid_roundtrip X" "uuid_plain X" "hex_roundtrip X" "ref_parses X ref" "loc_small loc"
    and "fits (status_fact X loc (m, ref))"
  shows "parse_status X (snd (status_fact X loc (m, ref))) = Inr (status_of loc ref)"
proof -
  have e: "\<forall>v\<in>set (status_fields X m ref). length v < 2 ^ 16"
    using fits_encodable assms(6) by (simp add: status_fact_def)
  have id: "is_str (uuid_to_string X (ref_id ref))" "record_id_from_str X (uuid_to_string X (ref_id ref)) = Inr (ref_id ref)"
    using batch_text_read(2)[OF assms(1,2)] parse_uuid_to_string[OF assms(1)] assms(4)
    by (simp_all add: ref_parses_def record_id_from_str_def)
  show ?thesis
    using parse_enriched_status_eq[OF e assms(5)] id digest_text_read[OF assms(3)] assms(4)
    by (simp add: parse_status_def status_fact_def status_of_def ref_parses_def)
      (simp add: status_fields_def claim_fields_def)
qed

lemma take_statuses_of:
  assumes "\<forall>f\<in>set (block @ rest). fits f" "\<forall>f\<in>set block. key_of_batch (fst f) batch \<and> parse_status X (snd f) = Inr (st f)"
    and "\<forall>f\<in>set rest. \<not> key_of_batch (fst f) batch"
  shows "take_statuses X batch xs (reader_of (block @ rest)) = Inr (xs @ map st block, reader_of rest)"
  using assms
proof (induction block arbitrary: xs)
  case Nil
  then show ?case by (cases rest) (auto simp: take_statuses.simps split: prod.splits)
next
  case (Cons f block)
  obtain k v where f: "f = (k, v)" by fastforce
  have "reader_take (reader_of ((k, v) # block @ rest)) = Inr (Some (k, v), reader_of (block @ rest))"
    using reader_take_of(2)[of "block @ rest"] Cons.prems(1) by simp
  then show ?case
    using Cons f by (simp add: take_statuses.simps[of _ _ _ "reader_of ((k, v) # block @ rest)"])
qed

section \<open>Checking a batch\<close>

definition file_at :: "(raw_file \<times> nat) list \<Rightarrow> bytes \<Rightarrow> (raw_file \<times> nat) option" where
  "file_at lfs p = find (\<lambda>x. rf_path (fst x) = p) lfs"

definition loc_of :: "(bytes \<Rightarrow> (raw_file \<times> nat) option) \<Rightarrow> bytes \<Rightarrow> (nat \<times> nat) option" where
  "loc_of at p = map_option (\<lambda>(f, n). (n, length (rf_bytes f))) (at p)"

definition content_of :: "(bytes \<Rightarrow> (raw_file \<times> nat) option) \<Rightarrow> bytes \<Rightarrow> bytes option" where
  "content_of at p = map_option (rf_bytes \<circ> fst) (at p)"

definition at_stored :: "bytes \<Rightarrow> (bytes \<Rightarrow> (raw_file \<times> nat) option) \<Rightarrow> bool" where
  "at_stored payloads at \<longleftrightarrow> (\<forall>p x. at p = Some x \<longrightarrow> stored_in payloads x \<and> rf_path (fst x) = p)"

lemma check_status_eq:
  assumes "at_stored payloads at"
  shows "check_status X R payloads (bm_actor m) (bm_batch m) h (status_of (loc_of at) ref) = Inr h' \<longleftrightarrow>
    (\<exists>bs. content_of at (ref_path ref) = Some bs \<and> is_ok (check_member X R m ref bs) \<and> h' = request_acc_push h (ref_path ref) bs)"
proof (cases "at (ref_path ref)")
  case None
  then show ?thesis by (simp add: check_status_def status_of_def loc_of_def content_of_def)
next
  case (Some x)
  obtain f n where x: "x = (f, n)" by fastforce
  have st: "stored_in payloads (f, n)" "rf_path f = ref_path ref" using assms Some x by (auto simp: at_stored_def)
  have rd: "read_at payloads n (length (rf_bytes f)) (ref_path ref) = Inr f" using read_at_stored[OF st(1)] st(2) by simp
  show ?thesis
    using rd Some x
    by (auto simp: check_status_def status_of_def loc_of_def content_of_def check_member_def result_simps is_ok_iff)
qed

lemma check_statuses_eq:
  assumes "at_stored payloads at"
  shows "try_fold (check_status X R payloads (bm_actor m) (bm_batch m)) h (map (status_of (loc_of at)) refs) = Inr h' \<longleftrightarrow>
    (\<forall>ref\<in>set refs. \<exists>bs. content_of at (ref_path ref) = Some bs \<and> is_ok (check_member X R m ref bs)) \<and>
    h' = frame_entries h (map (\<lambda>ref. (ref_path ref, the (content_of at (ref_path ref)))) refs)"
  by (induction refs arbitrary: h) (auto simp: result_simps check_status_eq[OF assms] request_acc_push_def)

text \<open>What validation relies on of a decoded manifest.\<close>

definition manifest_parses :: "ext \<Rightarrow> batch_manifest \<Rightarrow> bool" where
  "manifest_parses X m \<longleftrightarrow> v7_ok X (bm_batch m) \<and> no_nul (batch_text X m) \<and> is_str (bm_actor m) \<and> length (bm_request m) = 32 \<and>
     length (bm_members m) < 2 ^ 64 \<and> strictly_ordered (map ref_path (bm_members m)) \<and> (\<forall>ref\<in>set (bm_members m). ref_parses X ref)"

lemma at_loc_small: "at_stored payloads at \<Longrightarrow> loc_small (loc_of at)"
  by (fastforce simp: at_stored_def loc_small_def loc_of_def stored_in_def)

lemma check_header_eq:
  assumes laws: "uuid_roundtrip X" "uuid_plain X" "hex_roundtrip X" and m: "manifest_parses X m" and at: "at_stored payloads at"
  defines "block \<equiv> map (\<lambda>ref. status_fact X (loc_of at) (m, ref)) (bm_members m)"
  assumes fit: "\<forall>f\<in>set (block @ rest). fits f" "fits (header_fact X m)"
    and rest: "\<forall>f\<in>set rest. \<not> key_of_batch (fst f) (batch_text X m)"
  shows "check_header X R payloads (batch_text X m) (snd (header_fact X m)) (reader_of (block @ rest)) = Inr r' \<longleftrightarrow>
    manifest_matches X R (content_of at) m \<and> r' = reader_of rest"
proof -
  let ?loc = "loc_of at" and ?sts = "map (status_of (loc_of at)) (bm_members m)"
  have e: "\<forall>v\<in>set (header_fields X m). length v < 2 ^ 16"
    using fits_encodable[of "batch_text X m" "header_fields X m" "[]"] fit(2) by (simp add: header_fact_def batch_text_def)
  have "length (header_fields X m) = 3" by (simp add: header_fields_def)
  then have pf: "parse_fields (snd (header_fact X m)) 3 = Inr (header_fields X m)"
    using parse_fields_enc[OF e] by (simp add: header_fact_def)
  have pre: "is_str (bm_actor m)" "parse_digest X (digest_to_string X (bm_request m)) = Inr (bm_request m)"
      "parse_usize (usize_to_string (length (bm_members m))) = Inr (length (bm_members m))"
      "parse_batch X (batch_text X m) = Inr (bm_batch m)"
    using m digest_text_read[OF laws(3)] parse_usize_text batch_text_read(1)[OF laws(1,2)]
    by (simp_all add: manifest_parses_def batch_text_def)
  have key: "key_of_batch (fst (status_fact X ?loc (m, ref))) (batch_text X m)" for ref
    using key_of_batch_iff[of "batch_text X m" "batch_text X m" "ref_path ref"] m by (simp add: manifest_parses_def status_fact_def batch_text_def)
  have small: "loc_small ?loc" by (rule at_loc_small[OF at])
  have par: "parse_status X (snd (status_fact X ?loc (m, ref))) = Inr (status_of ?loc ref)" if "ref \<in> set (bm_members m)" for ref
    using parse_status_eq[OF laws _ small, of ref m] m fit(1) that by (auto simp: manifest_parses_def block_def)
  define st where "st f = projr (parse_status X (snd f))" for f :: fact
  have tk: "take_statuses X (batch_text X m) [] (reader_of (block @ rest)) = Inr ([] @ map st block, reader_of rest)"
    using key par by (intro take_statuses_of fit(1) rest) (auto simp: block_def st_def)
  have sts: "map st block = ?sts" using par by (simp add: block_def st_def)
  have nf: "find (\<lambda>st. ms_location st = None) ?sts = None \<longleftrightarrow> (\<forall>ref\<in>set (bm_members m). ?loc (ref_path ref) \<noteq> None)"
    by (auto simp: find_None_iff status_of_def)
  have loc: "?loc p \<noteq> None \<longleftrightarrow> content_of at p \<noteq> None" for p by (simp add: loc_of_def content_of_def)
  have hd: "header_fields X m ! 0 = bm_actor m" "header_fields X m ! 1 = digest_to_string X (bm_request m)"
      "header_fields X m ! 2 = usize_to_string (length (bm_members m))" by (simp_all add: header_fields_def)
  have unf: "check_header X R payloads (batch_text X m) (snd (header_fact X m)) (reader_of (block @ rest)) =
      (case find (\<lambda>st. ms_location st = None) ?sts of
         Some st \<Rightarrow> Inl (Corrupt (GenericOwnership (OwnershipMissingMember (ms_path st))))
       | None \<Rightarrow> rbind (try_fold (check_status X R payloads (bm_actor m) (bm_batch m)) request_acc_new ?sts) (\<lambda>request.
           if request_acc_finish X request \<noteq> bm_request m then Inl (Corrupt (GenericOwnership RequestDigestMismatch)) else Inr (reader_of rest)))"
    unfolding check_header_def by (simp add: pf pre tk sts hd[unfolded One_nat_def] split: option.split)
  show ?thesis
  proof (cases "\<forall>ref\<in>set (bm_members m). ?loc (ref_path ref) \<noteq> None")
    case True
    then show ?thesis
      unfolding unf using nf check_statuses_eq[OF at, of X R m request_acc_new "bm_members m"]
      by (auto simp: result_simps manifest_matches_def framed_hash_def request_acc_new_def request_acc_finish_def)
  next
    case False
    then have "\<not> manifest_matches X R (content_of at) m" using loc by (fastforce simp: manifest_matches_def)
    moreover have "find (\<lambda>st. ms_location st = None) ?sts \<noteq> None" using nf False by blast
    ultimately show ?thesis unfolding unf by auto
  qed
qed

lemma check_headers_eq:
  assumes laws: "uuid_roundtrip X" "uuid_plain X" "hex_roundtrip X" and at: "at_stored payloads at"
    and "\<forall>m\<in>set ms. manifest_parses X m \<and> fits (header_fact X m)" "distinct (map (batch_text X) ms)"
    and "\<forall>c\<in>set (manifest_claims ms). fits (status_fact X (loc_of at) c)"
  shows "try_fold (\<lambda>statuses (key, header). check_header X R payloads key header statuses)
      (reader_of (map (status_fact X (loc_of at)) (manifest_claims ms))) (map (header_fact X) ms) = Inr r' \<longleftrightarrow>
    (\<forall>m\<in>set ms. manifest_matches X R (content_of at) m) \<and> r' = reader_of []"
  using assms(5-7)
proof (induction ms)
  case (Cons m ms)
  let ?block = "map (\<lambda>ref. status_fact X (loc_of at) (m, ref)) (bm_members m)"
  let ?rest = "map (status_fact X (loc_of at)) (manifest_claims ms)"
  have app: "map (status_fact X (loc_of at)) (manifest_claims (m # ms)) = ?block @ ?rest" by simp
  have key: "fst (header_fact X m) = batch_text X m" by (simp add: header_fact_def batch_text_def)
  have rest: "\<forall>f\<in>set ?rest. \<not> key_of_batch (fst f) (batch_text X m)"
  proof
    fix f assume "f \<in> set ?rest"
    then obtain n ref where n: "n \<in> set ms" "f = status_fact X (loc_of at) (n, ref)"
      by (auto simp: manifest_claims_def)
    have "batch_text X n \<noteq> batch_text X m" using Cons.prems(2) n(1) by (metis distinct.simps(2) image_eqI list.set_map list.simps(9))
    then show "\<not> key_of_batch (fst f) (batch_text X m)"
      using key_of_batch_iff[of "batch_text X n" "batch_text X m" "ref_path ref"] Cons.prems(1) n
      by (auto simp: manifest_parses_def status_fact_def batch_text_def)
  qed
  have mp: "manifest_parses X m" "fits (header_fact X m)" using Cons.prems(1) by simp_all
  have fit: "\<forall>f\<in>set (?block @ ?rest). fits f" using Cons.prems(3) by (auto simp: ball_Un)
  note h = check_header_eq[OF laws mp(1) at fit mp(2) rest, of R]
  have IH: "try_fold (\<lambda>statuses (key, header). check_header X R payloads key header statuses) (reader_of ?rest) (map (header_fact X) ms) = Inr r' \<longleftrightarrow>
      (\<forall>m\<in>set ms. manifest_matches X R (content_of at) m) \<and> r' = reader_of []"
    using Cons by (simp add: ball_Un)
  show ?case
    unfolding app list.map(2) try_fold.simps rbind_Inr_iff using h IH key by (auto simp: case_prod_unfold)
qed auto

lemma validate_batches_eq:
  assumes laws: "uuid_roundtrip X" "uuid_plain X" "hex_roundtrip X" and at: "at_stored payloads at"
    and "\<forall>m\<in>set ms. manifest_parses X m \<and> fits (header_fact X m)" "distinct (map (batch_text X) ms)"
    and "\<forall>c\<in>set (manifest_claims ms). fits (status_fact X (loc_of at) c)"
  shows "validate_batches X R payloads (enc_facts (sort (map (header_fact X) ms)))
      (enc_facts (sort (map (status_fact X (loc_of at)) (manifest_claims ms)))) = Inr () \<longleftrightarrow>
    (\<forall>m\<in>set ms. manifest_matches X R (content_of at) m)"
proof -
  let ?ms = "by_batch X ms"
  have p: "\<forall>m\<in>set ms. no_nul (batch_text X m) \<and> strictly_ordered (map ref_path (bm_members m))"
    using assms(5) by (simp add: manifest_parses_def)
  note s = sorted_statuses[OF p assms(6)]
  have mem: "set ?ms = set ms" by (simp add: by_batch_def)
  have cl: "set (manifest_claims ?ms) = set (manifest_claims ms)" by (auto simp: manifest_claims_def mem)
  have fit: "\<forall>f\<in>set (map (header_fact X) ?ms). fits f" "\<forall>f\<in>set (map (status_fact X (loc_of at)) (manifest_claims ?ms)). fits f"
    using assms(5,7) by (simp_all add: mem cl)
  have d: "distinct (map (batch_text X) ?ms)" using s(3) by (simp add: strict_sorted_iff)
  have "validate_batches X R payloads (enc_facts (sort (map (header_fact X) ms)))
      (enc_facts (sort (map (status_fact X (loc_of at)) (manifest_claims ms)))) = Inr () \<longleftrightarrow>
    (\<exists>r. try_fold (\<lambda>statuses (key, header). check_header X R payloads key header statuses)
      (reader_of (map (status_fact X (loc_of at)) (manifest_claims ?ms))) (map (header_fact X) ?ms) = Inr r \<and> fr_current r = None)"
    unfolding validate_batches_def s(1,2) reader_new_of[OF fit(1)] reader_new_of[OF fit(2)] rbind_simps while_facts_of[OF fit(1)]
    by (auto simp: rbind_Inr_iff if_Inr_iff simp del: not_None_eq)
  also have "\<dots> \<longleftrightarrow> (\<forall>m\<in>set ?ms. manifest_matches X R (content_of at) m)"
    using check_headers_eq[OF laws at, of ?ms R] assms(5,7) d by (auto simp: mem cl)
  finally show ?thesis by (simp add: mem)
qed

end
