(* ===== verification/Wj_Replay_Folds.thy ===== *)
theory Wj_Replay_Folds
  imports Wj_Replay_Facts
begin

text \<open>
  The bounded folds: in path order the records of one entity follow each other, so that one group at
  a time is folded from its retained headers, and the outcome is that of the folds over the collected
  records.
\<close>

section \<open>Groups\<close>

text \<open>Elements of one key stand together.\<close>

fun contiguous :: "('a \<Rightarrow> 'k) \<Rightarrow> 'a list \<Rightarrow> bool" where
  "contiguous key [] \<longleftrightarrow> True"
| "contiguous key (x # xs) \<longleftrightarrow> contiguous key xs \<and> (key x \<in> key ` set xs \<longrightarrow> key (hd xs) = key x)"

fun groups_good :: "('a \<Rightarrow> 'k) \<Rightarrow> ('k \<Rightarrow> 'a list \<Rightarrow> bool) \<Rightarrow> 'k \<Rightarrow> 'a list \<Rightarrow> 'a list \<Rightarrow> bool" where
  "groups_good key good k g [] \<longleftrightarrow> good k g"
| "groups_good key good k g (x # xs) \<longleftrightarrow>
     (if key x = k then groups_good key good k (g @ [x]) xs else good k g \<and> groups_good key good (key x) [x] xs)"

lemma groups_good_iff:
  "contiguous key xs \<Longrightarrow> (k \<in> key ` set xs \<Longrightarrow> key (hd xs) = k) \<Longrightarrow>
   groups_good key good k g xs \<longleftrightarrow>
   good k (g @ filter (\<lambda>x. key x = k) xs) \<and> (\<forall>y\<in>set xs. key y \<noteq> k \<longrightarrow> good (key y) (filter (\<lambda>x. key x = key y) xs))"
proof (induction xs arbitrary: k g)
  case (Cons x xs)
  let ?f = "\<lambda>y. filter (\<lambda>z. key z = key y)"
  have c: "contiguous key xs" "key x \<in> key ` set xs \<Longrightarrow> key (hd xs) = key x" using Cons.prems(1) by simp_all
  show ?case
  proof (cases "key x = k")
    case True
    have "(\<forall>y\<in>set (x # xs). key y \<noteq> k \<longrightarrow> good (key y) (?f y (x # xs))) \<longleftrightarrow> (\<forall>y\<in>set xs. key y \<noteq> k \<longrightarrow> good (key y) (?f y xs))"
      unfolding list.set ball_simps using True by (intro iffI conjI ballI impI) simp_all
    moreover have "groups_good key good k (g @ [x]) xs \<longleftrightarrow>
        good k ((g @ [x]) @ filter (\<lambda>x. key x = k) xs) \<and> (\<forall>y\<in>set xs. key y \<noteq> k \<longrightarrow> good (key y) (?f y xs))"
      using c True by (intro Cons.IH) simp_all
    ultimately show ?thesis using True by (simp only: groups_good.simps simp_thms if_True filter.simps append_assoc append_Cons append_Nil)
  next
    case False
    then have k: "k \<notin> key ` set (x # xs)" using Cons.prems(2) by auto
    then have "filter (\<lambda>x. key x = k) (x # xs) = []" by (auto simp: filter_empty_conv)
    moreover have "groups_good key good k g (x # xs) \<longleftrightarrow> good k g \<and> groups_good key good (key x) [x] xs"
      using False by (simp only: groups_good.simps if_False)
    moreover note Cons.IH[OF c, of "[x]"]
    moreover have "(\<forall>y\<in>set (x # xs). key y \<noteq> k \<longrightarrow> good (key y) (?f y (x # xs))) \<longleftrightarrow>
        good (key x) ([x] @ filter (\<lambda>z. key z = key x) xs) \<and>
        (\<forall>y\<in>set xs. key y \<noteq> key x \<longrightarrow> good (key y) (?f y xs))" (is "?l \<longleftrightarrow> ?r")
    proof
      assume l: ?l
      have "key y \<noteq> k" if "y \<in> set (x # xs)" for y using k that by (metis imageI)
      then have good: "good (key y) (?f y (x # xs))" if "y \<in> set (x # xs)" for y using l that by blast
      have "good (key y) (?f y xs)" if "y \<in> set xs" "key y \<noteq> key x" for y
        using good[of y] that by (simp split: if_splits)
      then show ?r using good[of x] by simp
    next
      assume r: ?r
      show ?l
      proof (intro ballI impI)
        fix y assume y: "y \<in> set (x # xs)"
        show "good (key y) (?f y (x # xs))"
        proof (cases "key y = key x")
          case True
          then show ?thesis using r by simp
        next
          case ne: False
          then have "y \<in> set xs" "key x \<noteq> key y" using y by auto
          then show ?thesis using r ne by simp
        qed
      qed
    qed
    ultimately show ?thesis by (simp only: append_Nil2)
  qed
qed simp

lemma groups_good_all:
  assumes "contiguous key (x # xs)"
  shows "groups_good key good (key x) [] (x # xs) \<longleftrightarrow> (\<forall>y\<in>set (x # xs). good (key y) (filter (\<lambda>z. key z = key y) (x # xs)))"
proof -
  let ?P = "\<lambda>y. good (key y) (filter (\<lambda>z. key z = key y) (x # xs))"
  have "key (hd (x # xs)) = key x" by simp
  note iff = groups_good_iff[OF assms this, of good "[]", unfolded append_Nil]
  have "?P y" if "?P x" "key y \<noteq> key x \<longrightarrow> ?P y" for y
    using that by (cases "key y = key x") (simp_all only: simp_thms)
  moreover have "x \<in> set (x # xs)" by simp
  ultimately show ?thesis unfolding iff by blast
qed

section \<open>The records of a replay\<close>

type_synonym located_record = "raw_file \<times> nat \<times> wj_record"

definition lr_record :: "located_record \<Rightarrow> wj_record" where
  "lr_record = (\<lambda>(f, n, r). r)"

definition lr_key :: "ext \<Rightarrow> located_record \<Rightarrow> string \<times> string" where
  "lr_key X x = fold_key X (lr_record x)"

definition lr_folded :: "located_record \<Rightarrow> bool" where
  "lr_folded x \<longleftrightarrow> folded (lr_record x)"

lemma lr_simps [simp]: "lr_record (f, n, r) = r" "lr_folded (f, n, r) = folded r"
  by (simp_all add: lr_record_def lr_folded_def)

lemma located_records_mem:
  "(f, n, r) \<in> set (located_records X R lfs) \<longleftrightarrow> (f, n) \<in> set lfs \<and> decode_visible_file X R f = Inr (DecodedRecord r)"
  by (induction lfs) (auto simp: located_records_Cons split: sum.splits decoded_file.splits)

text \<open>Of a located record: its file decodes to it, its path is its own, its payload is in the replay.\<close>

definition record_located :: "ext \<Rightarrow> domain_registry \<Rightarrow> bytes \<Rightarrow> located_record \<Rightarrow> bool" where
  "record_located X R payloads = (\<lambda>(f, n, r).
     classify_path X (rf_path f) = JournalRecord \<and> decode_record X (rf_bytes f) R = Inr r \<and>
     record_canonical_path X r = rf_path f \<and> stored_in payloads (f, n))"

lemma decode_visible_record:
  "decode_visible_file X R f = Inr (DecodedRecord r) \<longleftrightarrow>
   classify_path X (rf_path f) = JournalRecord \<and> decode_record X (rf_bytes f) R = Inr r \<and> record_canonical_path X r = rf_path f"
  by (cases "classify_path X (rf_path f)") (auto simp: decode_visible_file_def result_simps)

lemma decode_visible_manifest:
  "decode_visible_file X R f = Inr (DecodedManifest m) \<longleftrightarrow>
   classify_path X (rf_path f) = JournalBatch \<and> decode_batch_manifest X (rf_bytes f) = Inr m \<and> manifest_canonical_path X m = rf_path f"
  by (cases "classify_path X (rf_path f)") (auto simp: decode_visible_file_def result_simps)

lemma located_records_located:
  assumes "\<forall>x\<in>set lfs. stored_in payloads x"
  shows "\<forall>x\<in>set (located_records X R lfs). record_located X R payloads x"
  using assms by (auto simp: located_records_mem record_located_def decode_visible_record)

lemma located_records_paths: "map (\<lambda>(f, n, r). rf_path f) (located_records X R lfs) = map rf_path (filter (\<lambda>f. \<exists>r. decode_visible_file X R f = Inr (DecodedRecord r)) (map fst lfs))"
  by (induction lfs) (auto simp: located_records_Cons split: sum.splits decoded_file.splits)

text \<open>In path order equal keys stand together.\<close>

lemma same_key_between:
  assumes "uuid_plain X" "record_canonical_path X a < record_canonical_path X b" "record_canonical_path X b < record_canonical_path X c"
    and "CHR ''/'' \<notin> set (r_domain a)" "CHR ''/'' \<notin> set (r_domain b)" "fold_key X a = fold_key X c"
  shows "fold_key X b = fold_key X a"
proof -
  let ?u = "\<lambda>r. uuid_to_string X (r_entity r)"
  let ?w = "\<lambda>r. ''journal/records/'' @ r_domain r @ ''/'' @ ?u r @ ''/''"
  have p: "record_canonical_path X r = ?w r @ uuid_to_string X (r_id r) @ ''.json''" for r by (simp add: record_canonical_path_def)
  have e: "?w c = ?w a" using assms(6) by (simp add: fold_key_def)
  obtain t where t: "record_canonical_path X b = ?w a @ t"
    using lex_interval[of "?w a" "uuid_to_string X (r_id a) @ ''.json''" "record_canonical_path X b" "uuid_to_string X (r_id c) @ ''.json''"]
      assms(2,3) unfolding p[of a] p[of c] e by (metis less_imp_le)
  have ns: "CHR ''/'' \<notin> set (?u r)" for r using assms(1) by (simp add: uuid_plain_def uuid_to_string_def)
  have "r_domain b @ CHR ''/'' # ?u b @ CHR ''/'' # uuid_to_string X (r_id b) @ ''.json'' = r_domain a @ CHR ''/'' # ?u a @ CHR ''/'' # t"
    using t by (simp add: p)
  then have "split_once CHR ''/'' (r_domain b @ CHR ''/'' # ?u b @ CHR ''/'' # uuid_to_string X (r_id b) @ ''.json'') =
      split_once CHR ''/'' (r_domain a @ CHR ''/'' # ?u a @ CHR ''/'' # t)" by simp
  then have d: "r_domain b = r_domain a" "?u b @ CHR ''/'' # uuid_to_string X (r_id b) @ ''.json'' = ?u a @ CHR ''/'' # t"
    using assms(4,5) by (simp_all add: split_once_append)
  have "split_once CHR ''/'' (?u b @ CHR ''/'' # uuid_to_string X (r_id b) @ ''.json'') = split_once CHR ''/'' (?u a @ CHR ''/'' # t)"
    using d(2) by simp
  then show ?thesis using d(1) by (simp add: split_once_append[OF ns] fold_key_def)
qed

lemma contiguous_records:
  assumes "uuid_plain X" "\<forall>x\<in>set xs. CHR ''/'' \<notin> set (r_domain (lr_record x))"
    and "sorted_wrt (<) (map (record_canonical_path X \<circ> lr_record) xs)"
  shows "contiguous (lr_key X) xs"
  using assms(2,3)
proof (induction xs)
  case (Cons x xs)
  have "lr_key X (hd xs) = lr_key X x" if k: "lr_key X x \<in> lr_key X ` set xs"
  proof -
    obtain y ys where xs: "xs = y # ys" using k by (cases xs) auto
    obtain z where z: "z \<in> set xs" "lr_key X z = lr_key X x" using k by (metis imageE)
    show ?thesis
    proof (cases "z = y")
      case False
      then have "z \<in> set ys" using z(1) xs by simp
      then have o: "record_canonical_path X (lr_record x) < record_canonical_path X (lr_record y)"
          "record_canonical_path X (lr_record y) < record_canonical_path X (lr_record z)"
        using Cons.prems(2) xs by auto
      show ?thesis
        using same_key_between[OF assms(1) o] Cons.prems(1) z(2) xs by (simp add: lr_key_def)
    qed (use z xs in simp)
  qed
  then show ?case using Cons by simp
qed simp

section \<open>One group\<close>

definition lr_source :: "located_record \<Rightarrow> bytes \<times> nat \<times> nat" where
  "lr_source = (\<lambda>(f, n, r). (rf_path f, n, length (rf_bytes f)))"

definition lr_operation :: "ext \<Rightarrow> located_record \<Rightarrow> domain_operation" where
  "lr_operation X x = converted X (lr_record x)"

definition convertible :: "ext \<Rightarrow> located_record \<Rightarrow> bool" where
  "convertible X x \<longleftrightarrow> is_ok (operation_try_from X (lr_record x))"

definition parent_total :: "ext \<Rightarrow> located_record list \<Rightarrow> nat" where
  "parent_total X g = sum_list (map (length \<circ> op_parents \<circ> lr_operation X) g)"

text \<open>The state after the records \<open>g\<close> of the group \<open>k\<close>.\<close>

definition progress_holds :: "ext \<Rightarrow> fold_progress \<Rightarrow> string \<times> string \<Rightarrow> located_record list \<Rightarrow> bool" where
  "progress_holds X p k g \<longleftrightarrow>
     fp_group p = Some k \<and> fp_count p = min (length g) (2 ^ 64 - 1) \<and> fp_edges p = min (parent_total X g) (2 ^ 64 - 1) \<and>
     (within_causal_limits p \<longrightarrow>
        fp_operations p = headers_of (map (lr_operation X) g) \<and> fp_sources p = map lr_source g)"

definition absorb :: "ext \<Rightarrow> fold_progress \<Rightarrow> located_record \<Rightarrow> fold_progress" where
  "absorb X p x =
     (let p = observe_operation (lr_operation X x) (p\<lparr>fp_group := Some (lr_key X x)\<rparr>) in
      if within_causal_limits p
      then p\<lparr>fp_operations := fp_operations p @ [into_header (lr_operation X x) (length (fp_sources p))],
             fp_sources := fp_sources p @ [lr_source x]\<rparr>
      else p)"

lemma headers_of_snoc: "headers_of (ops @ [p]) = headers_of ops @ [into_header p (length ops)]"
  by (simp add: headers_of_def enumerate_append_eq)

lemma absorb_holds:
  assumes "progress_holds X p k g" "lr_key X x = k"
  shows "progress_holds X (absorb X p x) k (g @ [x])"
proof -
  let ?q = "observe_operation (lr_operation X x) (p\<lparr>fp_group := Some (lr_key X x)\<rparr>)"
  have mono: "within_causal_limits ?q \<Longrightarrow> within_causal_limits p"
    by (auto simp: within_causal_limits_def observe_operation_def saturating_add_def MAX_CAUSAL_OPERATIONS_def MAX_CAUSAL_EDGES_def)
  have "fp_count ?q = min (length (g @ [x])) (2 ^ 64 - 1)" "fp_edges ?q = min (parent_total X (g @ [x])) (2 ^ 64 - 1)"
    using assms(1) by (simp_all add: progress_holds_def observe_operation_def saturating_add_def parent_total_def)
  then show ?thesis
    using assms mono
    by (auto simp: progress_holds_def absorb_def Let_def headers_of_snoc observe_operation_def within_causal_limits_def)
qed

lemma absorb_first: "progress_holds X (absorb X fold_progress_new x) (lr_key X x) [x]"
  by (auto simp: progress_holds_def absorb_def Let_def observe_operation_def fold_progress_new_def saturating_add_def
      headers_of_def parent_total_def within_causal_limits_def)

definition group_good :: "ext \<Rightarrow> string \<times> string \<Rightarrow> located_record list \<Rightarrow> bool" where
  "group_good X k g \<longleftrightarrow>
     (if fst k = ''wayjournal.profile'' then is_ok (fold_profile (map (lr_operation X) g))
      else is_ok (fold_catalogs (map (lr_operation X) g)))"

lemma op_domain_converted: "is_ok (operation_try_from X r) \<Longrightarrow> op_domain (converted X r) = r_domain r"
  by (auto simp: converted_def is_ok_iff operation_try_from_def profile_operation_def catalog_operation_def result_simps split: if_splits)

lemma load_operation_located:
  assumes "\<forall>x\<in>set g. record_located X R payloads x \<and> convertible X x" "i < length g"
  shows "load_operation X R payloads k (map lr_source g) i = Inr (map (lr_operation X) g ! i)"
proof -
  obtain f n r where x: "g ! i = (f, n, r)" by (metis prod_cases3)
  have h: "record_located X R payloads (f, n, r)" "convertible X (f, n, r)" using assms x by (metis nth_mem)+
  have "read_at payloads n (length (rf_bytes f)) (rf_path f) = Inr f" "decode_record X (rf_bytes f) R = Inr r"
    using h(1) read_at_stored[of payloads f n] by (simp_all add: record_located_def)
  then show ?thesis
    using assms(2) x h(2)
    by (auto simp: load_operation_def lr_source_def lr_operation_def lr_record_def decode_builtin_record_def operation_from_record_def
        converted_def convertible_def is_ok_iff)
qed

lemma fold_ok_limits:
  assumes "is_ok (causal_graph_new operation_node ops)"
  shows "length ops \<le> MAX_CAUSAL_OPERATIONS" "sum_list (map (length \<circ> op_parents) ops) \<le> MAX_CAUSAL_EDGES"
proof -
  have "closed_input operation_node ops"
    by (rule ccontr) (use assms causal_graph_new_past_checks[of operation_node ops] in \<open>auto simp: is_ok_iff\<close>)
  then show "length ops \<le> MAX_CAUSAL_OPERATIONS" "sum_list (map (length \<circ> op_parents) ops) \<le> MAX_CAUSAL_EDGES"
    by (simp_all add: closed_input_def edge_total_def comp_def)
qed

lemma finish_fold_iff:
  assumes "progress_holds X p k g" "g \<noteq> []" "\<forall>x\<in>set g. record_located X R payloads x \<and> convertible X x \<and> lr_key X x = k"
    and "fst k = ''wayjournal.profile'' \<or> fst k = ''wayjournal.catalog''"
  shows "finish_fold X R payloads k p = Inr () \<longleftrightarrow> group_good X k g"
proof -
  let ?ops = "map (lr_operation X) g"
  have dom: "op_domain q = fst k" if "q \<in> set ?ops" for q
    using assms(3) that op_domain_converted by (fastforce simp: lr_operation_def convertible_def lr_key_def fold_key_def)
  obtain q qs where q: "?ops = q # qs" using assms(2) by (cases ?ops) auto
  have qd: "op_domain q = fst k" using dom[of q] q by simp
  have ok: "is_ok (fold_profile ?ops) \<longleftrightarrow> is_ok (fold_operations ?ops ''wayjournal.profile'')"
    by (cases "fold_operations ?ops ''wayjournal.profile''") (simp_all add: fold_profile_def)
  have lim: "group_good X k g \<Longrightarrow> length g \<le> MAX_CAUSAL_OPERATIONS \<and> parent_total X g \<le> MAX_CAUSAL_EDGES"
  proof -
    assume "group_good X k g"
    then have "is_ok (causal_graph_new operation_node ?ops)"
      using ok by (auto simp: group_good_def fold_operations_def fold_catalogs_def is_ok_iff result_simps split: if_splits)
    from fold_ok_limits[OF this] show ?thesis by (simp add: parent_total_def comp_assoc)
  qed
  have within: "within_causal_limits p \<longleftrightarrow> length g \<le> MAX_CAUSAL_OPERATIONS \<and> parent_total X g \<le> MAX_CAUSAL_EDGES"
    using assms(1) by (auto simp: progress_holds_def within_causal_limits_def MAX_CAUSAL_OPERATIONS_def MAX_CAUSAL_EDGES_def)
  show ?thesis
  proof (cases "within_causal_limits p")
    case False
    then show ?thesis using within lim by (auto simp: finish_fold_def within_causal_limits_def)
  next
    case True
    let ?load = "load_operation X R payloads k (map lr_source g)"
    have load: "\<forall>i<length ?ops. ?load i = Inr (?ops ! i)"
      using load_operation_located[of g X R payloads] assms(3) by simp
    have st: "fp_operations p = headers_of ?ops" "fp_sources p = map lr_source g"
      using assms(1) True by (simp_all add: progress_holds_def)
    have "finish_fold X R payloads k p = Inr () \<longleftrightarrow> validate_loaded_builtin_fold (headers_of ?ops) ?load = Inr ()"
      using True by (auto simp: finish_fold_def within_causal_limits_def st split: sum.splits fold_load_error.splits)
    also have "\<dots> \<longleftrightarrow> group_good X k g"
      unfolding loaded_fold_iff[OF load] unfolding q list.case group_good_def using ok q qd assms(4) by auto
    finally show ?thesis .
  qed
qed

section \<open>The pass over the groups\<close>

definition fold_record :: "ext \<Rightarrow> domain_registry \<Rightarrow> bytes \<Rightarrow> fold_progress \<Rightarrow> located_record \<Rightarrow> store_error + fold_progress" where
  "fold_record X R payloads p x =
     rbind (case fp_group p of
         Some current \<Rightarrow>
           if current \<noteq> lr_key X x then rbind (finish_fold X R payloads current p) (\<lambda>_. Inr fold_progress_new) else Inr p
       | None \<Rightarrow> Inr p) (\<lambda>p. Inr (absorb X p x))"

lemma fold_file_record:
  assumes "record_located X R payloads (f, n, r)" "folded r" "convertible X (f, n, r)"
  shows "fold_file X R payloads p f n = fold_record X R payloads p (f, n, r)"
proof -
  obtain q where q: "operation_try_from X r = Inr q" using assms(3) by (auto simp: convertible_def lr_record_def is_ok_iff)
  have op: "operation_from_record X r k = Inr (lr_operation X (f, n, r))" for k
    using q by (simp add: operation_from_record_def lr_operation_def lr_record_def converted_def)
  have fd: "fold_domain r" using assms(2) by (simp add: fold_domain_def folded_def)
  show ?thesis
    using assms(1) fd op
    by (auto simp: fold_file_def fold_record_def record_located_def decode_builtin_record_def lr_key_def lr_record_def fold_key_def
        absorb_def Let_def lr_source_def intro!: rbind_cong split: option.splits)
qed

lemma fold_file_other:
  assumes "decode_visible_file X R f = Inr d" "\<And>r. d = DecodedRecord r \<Longrightarrow> \<not> folded r"
  shows "fold_file X R payloads p f n = Inr p"
  using assms by (cases "classify_path X (rf_path f)")
    (auto simp: fold_file_def decode_visible_file_def decode_builtin_record_def result_simps fold_domain_def folded_def)

lemma fold_files_eq:
  assumes "\<forall>x\<in>set lfs. stored_in payloads x \<and> is_ok (decode_visible_file X R (fst x))"
    and "\<forall>x\<in>set (filter lr_folded (located_records X R lfs)). convertible X x"
  shows "try_fold (\<lambda>p (f, n). fold_file X R payloads p f n) p lfs =
    try_fold (fold_record X R payloads) p (filter lr_folded (located_records X R lfs))"
  using assms
proof (induction lfs arbitrary: p)
  case (Cons x lfs)
  obtain f n where x: "x = (f, n)" by fastforce
  obtain d where d: "decode_visible_file X R f = Inr d" using Cons.prems(1) x by (auto simp: is_ok_iff)
  have IH: "try_fold (\<lambda>p (f, n). fold_file X R payloads p f n) p lfs =
      try_fold (fold_record X R payloads) p (filter lr_folded (located_records X R lfs))" for p
    using Cons by (auto simp: located_records_Cons)
  show ?case
  proof (cases "\<exists>r. d = DecodedRecord r \<and> folded r")
    case True
    then obtain r where r: "d = DecodedRecord r" "folded r" by blast
    have "record_located X R payloads (f, n, r)"
      using d r(1) Cons.prems(1) x by (simp add: record_located_def decode_visible_record)
    moreover have "convertible X (f, n, r)"
      using Cons.prems(2) d r x by (simp add: located_records_Cons)
    ultimately have e: "fold_file X R payloads p f n = fold_record X R payloads p (f, n, r)" using fold_file_record r(2) by blast
    show ?thesis using d r x e IH by (simp add: located_records_Cons)
  next
    case False
    then have "fold_file X R payloads p f n = Inr p" using fold_file_other[OF d] by blast
    moreover have "filter lr_folded (located_records X R (x # lfs)) = filter lr_folded (located_records X R lfs)"
      using d x False by (cases d) (auto simp: located_records_Cons)
    ultimately show ?thesis using x IH by simp
  qed
qed simp

lemma try_fold_unit: "try_fold (\<lambda>_ x. B x) () xs = Inr () \<longleftrightarrow> (\<forall>x\<in>set xs. B x = Inr ())"
  by (induction xs) (auto simp: rbind_Inr_iff)

lemma payloads_iff:
  assumes "replay_holds rep lfs" "\<forall>x\<in>set lfs. is_ok (decode_visible_file X R (fst x))"
  shows "validate_builtin_operation_payloads X R rep = Inr () \<longleftrightarrow>
    (\<forall>x\<in>set (filter lr_folded (located_records X R lfs)). convertible X x)"
proof -
  let ?body = "\<lambda>f. if classify_path X (rf_path f) \<noteq> JournalRecord then Inr ()
       else rbind (decode_builtin_record X R f) (\<lambda>r.
       if \<not> fold_domain r then Inr ()
       else rbind (operation_from_record X r (r_domain r, uuid_to_string X (r_entity r))) (\<lambda>_. Inr ()))"
  have one: "?body f = Inr () \<longleftrightarrow> (\<forall>r. decode_visible_file X R f = Inr (DecodedRecord r) \<and> folded r \<longrightarrow> is_ok (operation_try_from X r))"
    if ok: "is_ok (decode_visible_file X R f)" for f
    using ok by (cases "classify_path X (rf_path f)")
      (auto simp: decode_visible_file_def decode_builtin_record_def operation_from_record_def fold_domain_def folded_def result_simps is_ok_iff)
  have "validate_builtin_operation_payloads X R rep = Inr () \<longleftrightarrow> try_fold (\<lambda>_ (f, n :: nat). ?body f) () lfs = Inr ()"
    unfolding validate_builtin_operation_payloads_def while_files_eq[OF assms(1)] ..
  also have "\<dots> \<longleftrightarrow> (\<forall>x\<in>set lfs. ?body (fst x) = Inr ())"
    using try_fold_unit[of "\<lambda>(f, n :: nat). ?body f" lfs] by (simp only: case_prod_unfold)
  also have "\<dots> \<longleftrightarrow> (\<forall>x\<in>set (filter lr_folded (located_records X R lfs)). convertible X x)"
    using one assms(2) by (auto simp: located_records_mem convertible_def) 
  finally show ?thesis .
qed

lemma fold_records_iff:
  assumes "progress_holds X p k g" "g \<noteq> []"
    and "\<forall>x\<in>set (g @ xs). record_located X R payloads x \<and> convertible X x \<and> folded (lr_record x)" "\<forall>x\<in>set g. lr_key X x = k"
  shows "(\<exists>p' k'. try_fold (fold_record X R payloads) p xs = Inr p' \<and> fp_group p' = Some k' \<and> finish_fold X R payloads k' p' = Inr ()) \<longleftrightarrow>
    groups_good (lr_key X) (group_good X) k g xs"
  using assms
proof (induction xs arbitrary: p k g)
  case Nil
  have "fst k = ''wayjournal.profile'' \<or> fst k = ''wayjournal.catalog''"
    using Nil by (cases g) (auto simp: lr_key_def fold_key_def folded_def)
  then have "finish_fold X R payloads k p = Inr () \<longleftrightarrow> group_good X k g" using Nil by (intro finish_fold_iff) auto
  then show ?case using Nil(1) by (auto simp: progress_holds_def simp del: split_paired_Ex)
next
  case (Cons x xs)
  have grp: "fp_group p = Some k" using Cons.prems(1) by (simp add: progress_holds_def)
  show ?case
  proof (cases "lr_key X x = k")
    case True
    then have "fold_record X R payloads p x = Inr (absorb X p x)" using grp by (simp add: fold_record_def)
    moreover have "(\<exists>p' k'. try_fold (fold_record X R payloads) (absorb X p x) xs = Inr p' \<and> fp_group p' = Some k' \<and> finish_fold X R payloads k' p' = Inr ()) \<longleftrightarrow>
        groups_good (lr_key X) (group_good X) k (g @ [x]) xs"
      using Cons.prems True by (intro Cons.IH absorb_holds) auto
    ultimately show ?thesis using True by simp
  next
    case False
    have "fst k = ''wayjournal.profile'' \<or> fst k = ''wayjournal.catalog''"
      using Cons.prems by (cases g) (auto simp: lr_key_def fold_key_def folded_def)
    then have fin: "finish_fold X R payloads k p = Inr () \<longleftrightarrow> group_good X k g" using Cons.prems by (intro finish_fold_iff) auto
    have st: "fold_record X R payloads p x = rbind (finish_fold X R payloads k p) (\<lambda>_. Inr (absorb X fold_progress_new x))"
      using grp False by (simp add: fold_record_def rbind_assoc)
    have IH: "(\<exists>p' k'. try_fold (fold_record X R payloads) (absorb X fold_progress_new x) xs = Inr p' \<and> fp_group p' = Some k' \<and> finish_fold X R payloads k' p' = Inr ()) \<longleftrightarrow>
        groups_good (lr_key X) (group_good X) (lr_key X x) [x] xs"
      using Cons.prems by (intro Cons.IH absorb_first) auto
    show ?thesis
      using fin IH False by (cases "finish_fold X R payloads k p") (auto simp: st)
  qed
qed

lemma bounded_folds_iff:
  assumes "replay_holds rep lfs" "\<forall>x\<in>set lfs. is_ok (decode_visible_file X R (fst x))" "uuid_plain X"
    and "strictly_ordered (map rf_path (map fst lfs))"
    and "\<forall>x\<in>set (located_records X R lfs). CHR ''/'' \<notin> set (r_domain (lr_record x))"
  shows "validate_builtin_folds_bounded X R rep = Inr () \<longleftrightarrow>
    (\<forall>x\<in>set (filter lr_folded (located_records X R lfs)). convertible X x \<and>
       group_good X (lr_key X x) (filter (\<lambda>y. lr_key X y = lr_key X x) (filter lr_folded (located_records X R lfs))))"
proof -
  let ?xs = "filter lr_folded (located_records X R lfs)" and ?P = "cr_payloads rep"
  have st: "\<forall>x\<in>set lfs. stored_in ?P x" using assms(1) by (simp add: replay_holds_def)
  have loc: "\<forall>x\<in>set ?xs. record_located X R ?P x \<and> folded (lr_record x)" using located_records_located[OF st, of X R] by (auto simp: lr_folded_def)
  have path: "record_canonical_path X (lr_record x) = (case x of (f, n, r) \<Rightarrow> rf_path f)" if "x \<in> set ?xs" for x
    using loc that by (cases x) (auto simp: record_located_def lr_record_def)
  have "sorted_wrt (<) (map (\<lambda>(f, n, r). rf_path f) (located_records X R lfs))"
    using assms(4) unfolding located_records_paths by (simp add: order_simps sorted_wrt_map sorted_wrt_filter)
  then have "sorted_wrt (<) (map (\<lambda>(f, n, r). rf_path f) ?xs)" by (simp add: sorted_wrt_map sorted_wrt_filter)
  moreover have "map (record_canonical_path X \<circ> lr_record) ?xs = map (\<lambda>(f, n, r). rf_path f) ?xs"
    using path by (intro map_cong) auto
  ultimately have srt: "sorted_wrt (<) (map (record_canonical_path X \<circ> lr_record) ?xs)" by argo
  have cont: "contiguous (lr_key X) ?xs" using assms(5) by (intro contiguous_records[OF assms(3) _ srt]) auto
  show ?thesis
  proof (cases "\<forall>x\<in>set ?xs. convertible X x")
    case False
    then show ?thesis using payloads_iff[OF assms(1,2)] by (auto simp: validate_builtin_folds_bounded_def rbind_Inr_iff)
  next
    case True
    have fold: "while_files (fold_file X R ?P) fold_progress_new rep = try_fold (fold_record X R ?P) fold_progress_new ?xs"
      using fold_files_eq[of lfs ?P X R] st assms(2) True by (simp add: while_files_eq[OF assms(1)])
    show ?thesis
    proof (cases ?xs)
      case Nil
      then show ?thesis
        using payloads_iff[OF assms(1,2)] fold by (simp add: validate_builtin_folds_bounded_def fold_progress_new_def)
    next
      case (Cons x xs)
      let ?p = "absorb X fold_progress_new x"
      have first: "fold_record X R ?P fold_progress_new x = Inr ?p" by (simp add: fold_record_def fold_progress_new_def)
      have all: "\<forall>y\<in>set ([x] @ xs). record_located X R ?P y \<and> convertible X y \<and> folded (lr_record y)"
        using loc True unfolding Cons by auto
      have grp: "\<exists>k. fp_group p' = Some k" if "try_fold (fold_record X R ?P) p ys = Inr p'" "fp_group p \<noteq> None" for p p' ys
        using that
      proof (induction ys arbitrary: p)
        case (Cons y ys)
        obtain q where q: "fold_record X R ?P p y = Inr q" "try_fold (fold_record X R ?P) q ys = Inr p'"
          using Cons.prems(1) by (auto simp: rbind_Inr_iff)
        have "fp_group (absorb X r y) \<noteq> None" for r by (simp add: absorb_def Let_def observe_operation_def)
        then have "fp_group q \<noteq> None" using q(1) by (auto simp: fold_record_def rbind_Inr_iff)
        then show ?case using Cons.IH q(2) by blast
      qed auto
      have gp: "fp_group ?p \<noteq> None" by (simp add: absorb_def Let_def observe_operation_def)
      have "validate_builtin_folds_bounded X R rep = Inr () \<longleftrightarrow>
          (\<exists>p' k'. try_fold (fold_record X R ?P) ?p xs = Inr p' \<and> fp_group p' = Some k' \<and> finish_fold X R ?P k' p' = Inr ())"
        using payloads_iff[OF assms(1,2)] True fold first grp[OF _ gp]
        unfolding validate_builtin_folds_bounded_def Cons by (fastforce simp: rbind_Inr_iff)
      also have "\<dots> \<longleftrightarrow> groups_good (lr_key X) (group_good X) (lr_key X x) [x] xs"
        by (rule fold_records_iff[OF absorb_first _ all]) simp_all
      also have "\<dots> \<longleftrightarrow> groups_good (lr_key X) (group_good X) (lr_key X x) [] ?xs" unfolding Cons by simp
      also have "\<dots> \<longleftrightarrow> (\<forall>y\<in>set ?xs. group_good X (lr_key X y) (filter (\<lambda>z. lr_key X z = lr_key X y) ?xs))"
        unfolding Cons by (rule groups_good_all) (use cont Cons in simp)
      finally show ?thesis using True by blast
    qed
  qed
qed

end
