(* ===== verification/Wj_Parity.thy ===== *)
theory Wj_Parity
  imports Wj_Replay_Batches Wj_Replay_Folds
begin

text \<open>
  Bounded replay and the collecting scan accept the same stores, with the same revision and the same
  identity.
\<close>

section \<open>Sizes\<close>

definition replay_laws :: "ext \<Rightarrow> bool" where
  "replay_laws X \<longleftrightarrow> uuid_roundtrip X \<and> uuid_plain X \<and> uuid_text_form X \<and> hex_roundtrip X \<and> hex_canonical X"

lemma uuid_text_size: "uuid_text_form X \<Longrightarrow> length (uuid_to_string X u) = 36 \<and> no_nul (uuid_to_string X u)"
proof -
  assume f: "uuid_text_form X"
  have "is_lower_hex c \<or> c = CHR ''-'' \<Longrightarrow> c \<noteq> CHR 0x00" for c by (auto simp: is_lower_hex_def less_eq_char_def)
  then show ?thesis using f by (auto simp: uuid_text_form_def uuid_to_string_def no_nul_def list_all_iff)
qed

lemma digest_text_size: "hex_roundtrip X \<Longrightarrow> length d = 32 \<Longrightarrow> length (digest_to_string X d) = 64"
  by (simp add: hex_roundtrip_def digest_to_string_def)

lemma utf8_decode_size: "utf8_decode bs = Some cs \<Longrightarrow> length bs \<le> 4 * length cs"
proof (induction bs arbitrary: cs rule: utf8_decode.induct)
  case (2 b bs)
  show ?case
    using 2(5) 2(1) 2(2) 2(3) 2(4)
    by (auto split: if_splits list.splits) fastforce+
qed simp

lemma actor_size:
  assumes "actor_id_parse a = Inr b" "is_str a"
  shows "length a \<le> 516"
proof -
  obtain cs where cs: "utf8_decode (map of_char a) = Some cs" using assms(2) by (auto simp: is_str_def from_utf8_def)
  have "length cs \<le> 129" using assms(1) cs by (auto simp: actor_id_parse_def chars_def from_utf8_def Let_def split: option.splits if_splits)
  then show ?thesis using utf8_decode_size[OF cs] by simp
qed

lemma domain_size: "domain_id_from_str d = Inr e \<Longrightarrow> length d \<le> 128"
  by (auto simp: domain_id_from_str_def parse_namespaced_token_def split: if_splits)

lemma schema_size: "record_schema_id_from_str s = Inr t \<Longrightarrow> length s \<le> 128"
  by (auto simp: record_schema_id_from_str_def split: if_splits)

lemma record_path_size:
  assumes "uuid_text_form X" "record_ok X r"
  shows "length (record_canonical_path X r) \<le> 223"
  using assms domain_size[of "r_domain r"] uuid_text_size[OF assms(1)] by (simp add: record_canonical_path_def record_ok_def)

lemma ref_path_size:
  assumes "uuid_text_form X" "validate_journal_record_path X p"
  shows "length p \<le> 223"
proof -
  obtain a b c d e where p: "split_on CHR ''/'' p = [a, b, c, d, e]"
    using assms(2) by (auto simp: validate_journal_record_path_def Let_def length_Suc_conv numeral_eq_Suc)
  have h: "a = ''journal''" "b = ''records''" "is_ok (domain_id_from_str c)" "is_ok (entity_id_from_str X d)"
      "strip_json e (\<lambda>i. is_ok (record_id_from_str X i))"
    using assms(2) unfolding validate_journal_record_path_def Let_def p by simp_all
  have "length c \<le> 128" "length d = 36"
    using h(3,4) domain_size uuid_text_size[OF assms(1)] by (auto simp: is_ok_iff entity_id_from_str_def parse_uuid_Inr_iff)
  moreover have "length e = 41"
    using h(5) uuid_text_size[OF assms(1)]
    by (auto simp: strip_json_def is_ok_iff record_id_from_str_def parse_uuid_Inr_iff strip_suffix_Some split: option.splits)
  moreover have "p = join_with CHR ''/'' [a, b, c, d, e]" using p by (metis join_split_on)
  ultimately show ?thesis using h(1,2) by simp
qed

section \<open>Decoded manifests\<close>

text \<open>The Rust types of a manifest: its actor is a \<open>String\<close>, its members a \<open>Vec\<close>.\<close>

definition manifest_typed :: "batch_manifest \<Rightarrow> bool" where
  "manifest_typed m \<longleftrightarrow> is_str (bm_actor m) \<and> length (bm_members m) < 2 ^ 64"

lemma decode_digests:
  assumes "hex_canonical X" "decode_batch_manifest X bs = Inr m"
  shows "length (bm_key_digest m) = 32" "length (bm_request m) = 32" "\<forall>ref\<in>set (bm_members m). length (ref_digest ref) = 32"
proof -
  obtain v where v: "decode_strict X bs = Inr v"
    using assms(2) by (auto simp: decode_batch_manifest_def result_simps split: if_splits)
  then obtain obj where obj: "v = JObject obj"
    using assms(2) by (cases v) (auto simp: decode_batch_manifest_def result_simps split: if_splits)
  obtain raw :: raw_manifest where raw: "try_map (decode_ref X) (raw_members raw) = Inr (bm_members m)"
      "digest_parse X (raw_key_digest raw) = Inr (bm_key_digest m)" "digest_parse X (raw_request raw) = Inr (bm_request m)"
    using assms(2) v obj by (auto simp: decode_batch_manifest_def result_simps Let_def split: if_splits)
  show "length (bm_key_digest m) = 32" "length (bm_request m) = 32"
    using raw(2,3) digest_parse_canonical[OF assms(1)] by blast+
  have "list_all (\<lambda>ref. length (ref_digest ref) = 32) (bm_members m)"
    using raw(1) by (rule try_map_list_all) (auto simp: decode_ref_def result_simps dest: digest_parse_canonical[OF assms(1)])
  then show "\<forall>ref\<in>set (bm_members m). length (ref_digest ref) = 32" by (simp add: list_all_iff)
qed

lemma schema_str: "record_schema_id_from_str s = Inr t \<Longrightarrow> is_str s"
  using domain_id_plain(2) valid_segment_ascii by (auto simp: record_schema_id_Inr is_ascii_Cons intro!: is_str_ascii)

lemma decoded_manifest:
  assumes "replay_laws X" "decode_batch_manifest X bs = Inr m" "manifest_typed m"
  shows "manifest_parses X m" "length (bm_key_digest m) = 32" "length (bm_actor m) \<le> 516"
    "\<forall>ref\<in>set (bm_members m). length (ref_path ref) \<le> 223 \<and> length (ref_schema ref) \<le> 128"
proof -
  have laws: "uuid_roundtrip X" "uuid_plain X" "uuid_text_form X" "hex_roundtrip X" "hex_canonical X"
    using assms(1) by (simp_all add: replay_laws_def)
  note ok = decode_batch_manifest_Inr(2)[OF assms(2)] and dig = decode_digests[OF laws(5) assms(2)]
  have refs: "ref_ok X ref" if "ref \<in> set (bm_members m)" for ref
    using ok that by (simp add: manifest_ok_def list_all_iff)
  show "length (bm_key_digest m) = 32" by (rule dig(1))
  show "length (bm_actor m) \<le> 516" using actor_size ok assms(3) by (auto simp: manifest_ok_def manifest_typed_def)
  show "\<forall>ref\<in>set (bm_members m). length (ref_path ref) \<le> 223 \<and> length (ref_schema ref) \<le> 128"
    using refs ref_path_size[OF laws(3)] schema_size by (auto simp: ref_ok_def)
  show "manifest_parses X m"
    using ok refs dig(2,3) assms(3) uuid_text_size[OF laws(3)] schema_str
    by (auto simp: manifest_parses_def manifest_ok_def manifest_typed_def ref_parses_def ref_ok_def batch_text_def)
qed

section \<open>The store behind a replay\<close>

text \<open>The files of a replay all decode, to values of their Rust types.\<close>

definition decodes :: "ext \<Rightarrow> domain_registry \<Rightarrow> (raw_file \<times> nat) list \<Rightarrow> bool" where
  "decodes X R lfs \<longleftrightarrow>
     (\<forall>x\<in>set lfs. is_ok (decode_visible_file X R (fst x))) \<and> (\<forall>m\<in>set (scanned_manifests X R (map fst lfs)). manifest_typed m)"

lemma scanned_manifests_mem:
  "m \<in> set (scanned_manifests X R fs) \<longleftrightarrow> (\<exists>f\<in>set fs. decode_visible_file X R f = Inr (DecodedManifest m))"
  by (induction fs) (auto simp: scanned_simps scanned_manifests_Cons split: sum.splits decoded_file.splits)

lemma scanned_manifest:
  assumes "m \<in> set (scanned_manifests X R fs)"
  obtains f where "f \<in> set fs" "decode_batch_manifest X (rf_bytes f) = Inr m" "manifest_canonical_path X m = rf_path f"
  using assms by (auto simp: scanned_manifests_mem decode_visible_manifest)

lemma scanned_manifests_paths:
  "map (manifest_canonical_path X) (scanned_manifests X R fs) =
   map rf_path (filter (\<lambda>f. \<exists>m. decode_visible_file X R f = Inr (DecodedManifest m)) fs)"
proof (induction fs)
  case (Cons f fs)
  show ?case
  proof (cases "\<exists>m. decode_visible_file X R f = Inr (DecodedManifest m)")
    case True
    then obtain m where m: "decode_visible_file X R f = Inr (DecodedManifest m)" by blast
    then have "manifest_canonical_path X m = rf_path f" by (simp add: decode_visible_manifest)
    then show ?thesis using Cons m by (simp add: scanned_manifests_Cons)
  next
    case False
    then show ?thesis using Cons by (auto simp: scanned_manifests_Cons split: sum.splits decoded_file.splits)
  qed
qed (simp add: scanned_simps)

lemma typed_manifest:
  assumes "replay_laws X" "decodes X R lfs" "m \<in> set (scanned_manifests X R (map fst lfs))"
  shows "manifest_parses X m" "length (bm_key_digest m) = 32" "length (bm_actor m) \<le> 516"
    "\<forall>ref\<in>set (bm_members m). length (ref_path ref) \<le> 223 \<and> length (ref_schema ref) \<le> 128"
proof -
  have t: "manifest_typed m" using assms(2,3) by (simp add: decodes_def)
  obtain f where f: "f \<in> set (map fst lfs)" "decode_batch_manifest X (rf_bytes f) = Inr m" "manifest_canonical_path X m = rf_path f"
    by (rule scanned_manifest[OF assms(3)])
  note d = decoded_manifest[OF assms(1) f(2) t]
  show "manifest_parses X m" "length (bm_key_digest m) = 32" "length (bm_actor m) \<le> 516"
    "\<forall>ref\<in>set (bm_members m). length (ref_path ref) \<le> 223 \<and> length (ref_schema ref) \<le> 128"
    by (fact d)+
qed

lemma located_record_ok:
  assumes "(f, n, r) \<in> set (located_records X R lfs)"
  shows "record_ok X r" "record_canonical_path X r = rf_path f" "decode_record X (rf_bytes f) R = Inr r" "(f, n) \<in> set lfs"
    "classify_path X (rf_path f) = JournalRecord"
  using assms decode_record_ok(1) by (auto simp: located_records_mem decode_visible_record)

lemma usize_text_size: "n < 10 ^ Suc k \<Longrightarrow> length (usize_to_string n) \<le> Suc k"
proof (induction k arbitrary: n)
  case (Suc k)
  have "n div 10 < 10 ^ Suc k" using Suc.prems by (simp add: div_less_iff_less_mult mult.commute)
  then show ?case using Suc.IH[of "n div 10"] by (simp add: usize_to_string.simps[of n])
qed (simp add: usize_to_string.simps)

lemma facts_fit:
  assumes "replay_laws X" "decodes X R lfs"
  shows "\<forall>x\<in>set (all_facts X R lfs). fits (snd x)"
proof -
  have laws: "uuid_text_form X" "hex_roundtrip X" using assms(1) by (simp_all add: replay_laws_def)
  note u = uuid_text_size[OF laws(1)] and h = digest_text_size[OF laws(2)]
  have man: "\<forall>x\<in>set (manifest_facts X m). fits (snd x)" if m: "m \<in> set (scanned_manifests X R (map fst lfs))" for m
  proof -
    note t = typed_manifest[OF assms m]
    have "length (usize_to_string (length (bm_members m))) \<le> 20"
      using t(1) usize_text_size[of "length (bm_members m)" 19] by (simp add: manifest_parses_def)
    then show ?thesis
      using t u h by (auto simp: manifest_facts_def manifest_parses_def ref_parses_def fact_bytes_def MAX_FACT_BYTES_def idempotency_fact_key_def
          header_fields_def claim_fields_def)
  qed
  have rec: "\<forall>x\<in>set (record_facts X r f n). fits (snd x)" if r: "(f, n, r) \<in> set (located_records X R lfs)" for f n r
    using located_record_ok(1,2)[OF r] record_path_size[OF laws(1), of r] u
    by (auto simp: record_facts_def loc_fact_def fact_bytes_def MAX_FACT_BYTES_def location_bytes_def)
  show ?thesis
  proof
    fix x assume "x \<in> set (all_facts X R lfs)"
    then obtain f n where fn: "(f, n) \<in> set lfs" "x \<in> set (file_facts X R (f, n))" by (auto simp: all_facts_def)
    show "fits (snd x)"
    proof (cases "decode_visible_file X R f")
      case (Inr d)
      show ?thesis
      proof (cases d)
        case (DecodedManifest m)
        have "m \<in> set (scanned_manifests X R (map fst lfs))"
          using fn(1) Inr DecodedManifest by (force simp: scanned_manifests_def List.map_filter_def image_iff)
        then show ?thesis using man fn(2) Inr DecodedManifest by (simp add: file_facts_def)
      next
        case (DecodedRecord r)
        then show ?thesis using rec[of f n r] fn Inr by (simp add: file_facts_def located_records_mem)
      qed (use fn(2) Inr in \<open>simp add: file_facts_def\<close>)
    qed (use fn(2) in \<open>simp add: file_facts_def\<close>)
  qed
qed

definition record_at :: "ext \<Rightarrow> domain_registry \<Rightarrow> (raw_file \<times> nat) list \<Rightarrow> bytes \<Rightarrow> (raw_file \<times> nat) option" where
  "record_at X R lfs = map_of (map (\<lambda>(f, n, r). (rf_path f, f, n)) (located_records X R lfs))"

definition statuses :: "ext \<Rightarrow> domain_registry \<Rightarrow> (raw_file \<times> nat) list \<Rightarrow> fact list" where
  "statuses X R lfs = map (status_fact X (loc_of (record_at X R lfs))) (manifest_claims (scanned_manifests X R (map fst lfs)))"

lemma statuses_fit:
  assumes "replay_laws X" "decodes X R lfs"
  shows "\<forall>x\<in>set (statuses X R lfs). fits x"
proof
  fix x assume "x \<in> set (statuses X R lfs)"
  then obtain m ref where m: "m \<in> set (scanned_manifests X R (map fst lfs))" "ref \<in> set (bm_members m)"
      "x = status_fact X (loc_of (record_at X R lfs)) (m, ref)"
    by (auto simp: statuses_def manifest_claims_def)
  have laws: "uuid_text_form X" "hex_roundtrip X" using assms(1) by (simp_all add: replay_laws_def)
  have "length (loc_tail l) \<le> 13" for l by (auto simp: loc_tail_def location_bytes_def split: option.splits prod.splits)
  then have "length (loc_tail (loc_of (record_at X R lfs) (ref_path ref))) \<le> 13" .
  then show "fits x"
    using typed_manifest[OF assms m(1)] m(2,3) uuid_text_size[OF laws(1)] digest_text_size[OF laws(2)]
    by (auto simp: status_fact_def status_fields_def claim_fields_def fact_bytes_def MAX_FACT_BYTES_def manifest_parses_def ref_parses_def)
qed

lemma scanned_records_located:
  "scanned_records X R (map fst lfs) = map (\<lambda>(f, n, r). (rf_path f, r, rf_bytes f)) (located_records X R lfs)"
proof (induction lfs)
  case (Cons x lfs)
  then show ?case
    by (cases x) (auto simp: scanned_records_def List.map_filter_def located_records_Cons split: sum.splits decoded_file.splits)
qed (simp add: scanned_simps)

lemma member_files_located:
  "member_files X R (map fst lfs) = map (\<lambda>(f, n, r). \<lparr>sm_path = rf_path f, sm_bytes = rf_bytes f\<rparr>) (located_records X R lfs)"
  by (simp add: member_files_def scanned_records_located case_prod_unfold)

lemma file_records_located: "file_records X R (map fst lfs) = map lr_record (located_records X R lfs)"
  by (simp add: file_records_def scanned_records_located case_prod_unfold lr_record_def)

lemma located_paths_ordered:
  assumes "strictly_ordered (map rf_path (map fst lfs))"
  shows "sorted_wrt (<) (map (\<lambda>(f, n, r). rf_path f) (located_records X R lfs))"
  using assms unfolding located_records_paths by (simp add: order_simps sorted_wrt_map sorted_wrt_filter)

lemma record_at_Some:
  assumes "strictly_ordered (map rf_path (map fst lfs))"
  shows "record_at X R lfs p = Some (f, n) \<longleftrightarrow> (\<exists>r. (f, n, r) \<in> set (located_records X R lfs)) \<and> rf_path f = p"
proof -
  have "distinct (map fst (map (\<lambda>(f, n, r). (rf_path f, f, n)) (located_records X R lfs)))"
    using located_paths_ordered[OF assms, of X R] by (simp add: strict_sorted_iff comp_def case_prod_unfold)
  then show ?thesis unfolding record_at_def by (subst map_of_eq_Some_iff) (auto simp: image_iff split: prod.splits)
qed

lemma record_at_stored:
  assumes "replay_holds rep lfs" "strictly_ordered (map rf_path (map fst lfs))"
  shows "at_stored (cr_payloads rep) (record_at X R lfs)"
  using assms(1) by (auto simp: at_stored_def record_at_Some[OF assms(2)] located_records_mem replay_holds_def)

lemma content_of_record_at: "content_of (record_at X R lfs) = bytes_at (member_files X R (map fst lfs))"
proof
  have "map_option (rf_bytes \<circ> fst) (map_of (map (\<lambda>(f, n, r). (rf_path f, f, n)) rs) p) =
      map_of (map (\<lambda>s. (sm_path s, sm_bytes s)) (map (\<lambda>(f, n, r). \<lparr>sm_path = rf_path f, sm_bytes = rf_bytes f\<rparr>) rs)) p"
    for p and rs :: "located_record list"
    by (induction rs) auto
  then show "content_of (record_at X R lfs) p = bytes_at (member_files X R (map fst lfs)) p" for p
    unfolding content_of_def record_at_def bytes_at_def member_files_located .
qed

lemma claims_of_path:
  assumes "\<forall>m\<in>set ms. distinct (map ref_path (bm_members m))"
  shows "length (filter (\<lambda>c. ref_path (snd c) = p) (manifest_claims ms)) = length (filter (\<lambda>m. p \<in> ref_path ` set (bm_members m)) ms)"
  using assms
proof (induction ms)
  case (Cons m ms)
  have e: "length (filter (\<lambda>c. ref_path (snd c) = p) (map (Pair m) refs)) = count_list (map ref_path refs) p" for refs
    by (induction refs) auto
  have "length (filter (\<lambda>c. ref_path (snd c) = p) (map (Pair m) (bm_members m))) =
      (if p \<in> ref_path ` set (bm_members m) then 1 else 0)"
    unfolding e using Cons.prems count_list_distinct[of "map ref_path (bm_members m)" p] by simp
  then show ?case using Cons by (simp only: manifest_claims_simps filter_append length_append) simp
qed simp

lemma owner_issue_None:
  fixes lfs
  assumes "\<forall>m\<in>set ms. distinct (map ref_path (bm_members m))"
  shows "owner_issue (sort (map (claim_fact X) (manifest_claims ms))) (map (\<lambda>(f, n, r). loc_fact (f, n)) (located_records X R lfs)) = None \<longleftrightarrow>
    (\<forall>s\<in>set (member_files X R (map fst lfs)). length (filter (\<lambda>m. sm_path s \<in> ref_path ` set (bm_members m)) ms) = 1)"
proof -
  have c: "owner_count (sort (map (claim_fact X) (manifest_claims ms))) p = length (filter (\<lambda>m. p \<in> ref_path ` set (bm_members m)) ms)" for p
  proof -
    have "length (filter P (sort xs)) = length (filter P xs)" for P and xs :: "fact list"
      by (metis mset_filter mset_sort size_mset)
    then show ?thesis
      unfolding claims_of_path[OF assms, symmetric] by (simp add: owner_count_def filter_map comp_def claim_fact_def case_prod_unfold)
  qed
  have "owner_issue cs rs = None \<longleftrightarrow> (\<forall>r\<in>set rs. owner_count cs (fst r) = 1)" for cs rs
    using find_None_iff[of "\<lambda>r. owner_count cs (fst r) \<noteq> 1" rs] unfolding owner_issue_def
    by (cases "find (\<lambda>r. owner_count cs (fst r) \<noteq> 1) rs") (auto simp only: option.case prod.case)
  then show ?thesis by (simp add: c member_files_located loc_fact_def case_prod_unfold)
qed

section \<open>Ownership\<close>

lemma batch_texts_distinct:
  assumes "strictly_ordered (map rf_path fs)"
  shows "distinct (map (batch_text X) (scanned_manifests X R fs))"
proof -
  have "distinct (map (manifest_canonical_path X) (scanned_manifests X R fs))"
    unfolding scanned_manifests_paths using assms by (simp add: order_simps strict_sorted_iff distinct_map_filter)
  moreover have "manifest_canonical_path X = (\<lambda>t. ''journal/batches/'' @ t @ ''.json'') \<circ> batch_text X"
    by (rule ext) (simp add: manifest_canonical_path_def batch_text_def)
  ultimately have "distinct (map (\<lambda>t. ''journal/batches/'' @ t @ ''.json'') (map (batch_text X) (scanned_manifests X R fs)))"
    by (simp only: map_map)
  then show ?thesis by (rule distinct_map[THEN iffD1, THEN conjunct1])
qed

lemma ownership_collected:
  assumes "replay_laws X" "decodes X R lfs" "strictly_ordered (map rf_path (map fst lfs))"
  shows "validate_batch_ownership X (member_files X R (map fst lfs)) (file_manifests X R (map fst lfs)) R = Inr () \<longleftrightarrow>
    (\<forall>m\<in>set (scanned_manifests X R (map fst lfs)). manifest_matches X R (content_of (record_at X R lfs)) m) \<and>
    owner_issue (sort (map (claim_fact X) (manifest_claims (scanned_manifests X R (map fst lfs)))))
      (map (\<lambda>(f, n, r). loc_fact (f, n)) (located_records X R lfs)) = None"
proof -
  let ?M = "member_files X R (map fst lfs)" and ?ms = "scanned_manifests X R (map fst lfs)"
  have dm: "\<forall>m\<in>set ?ms. distinct (map ref_path (bm_members m))"
    using typed_manifest(1)[OF assms(1,2)] strictly_ordered_distinct by (auto simp: manifest_parses_def)
  have dp: "distinct (map sm_path ?M)"
    using located_paths_ordered[OF assms(3), of X R] by (simp add: member_files_located strict_sorted_iff comp_def case_prod_unfold)
  have dec: "\<forall>s\<in>set ?M. is_ok (decode_record X (sm_bytes s) R)"
    using located_record_ok(3) by (fastforce simp: member_files_located)
  have st: "manifest_stored X R ?M m \<longleftrightarrow> manifest_matches X R (content_of (record_at X R lfs)) m" if "m \<in> set ?ms" for m
    using manifest_stored_matches[OF dp] manifest_matches_stored[OF dp] dm that by (auto simp: content_of_record_at)
  have len: "length (filter P (file_manifests X R (map fst lfs))) = length (filter P ?ms)" for P
    unfolding file_manifests_def by (metis mset_filter mset_sort size_mset)
  have "set (file_manifests X R (map fst lfs)) = set ?ms" by (simp add: file_manifests_def)
  then show ?thesis
    unfolding batch_ownership_Inr owner_issue_None[OF dm] len using dp dec st by auto
qed

lemma ownership_replayed:
  fixes query revision
  assumes "replay_laws X" "decodes X R lfs" "replay_holds rep lfs" "strictly_ordered (map rf_path (map fst lfs))" "room b 0"
  defines "facts \<equiv> facts_of X R query lfs revision"
  shows "(validate_ownership_and_batches X R (cr_payloads rep) facts b = Inr b' \<longrightarrow>
      validate_batch_ownership X (member_files X R (map fst lfs)) (file_manifests X R (map fst lfs)) R = Inr ()) \<and>
    (validate_batch_ownership X (member_files X R (map fst lfs)) (file_manifests X R (map fst lfs)) R = Inr () \<and>
     room b (2 * total_bytes (statuses X R lfs)) \<longrightarrow> is_ok (validate_ownership_and_batches X R (cr_payloads rep) facts b))"
proof -
  let ?ms = "scanned_manifests X R (map fst lfs)" and ?rs = "map (\<lambda>(f, n, r). loc_fact (f, n)) (located_records X R lfs)"
  let ?at = "record_at X R lfs" and ?L = "all_facts X R lfs"
  have laws: "uuid_roundtrip X" "uuid_plain X" "hex_roundtrip X" using assms(1) by (simp_all add: replay_laws_def)
  note fit = facts_fit[OF assms(1,2)] and sfit = statuses_fit[OF assms(1,2)] and at = record_at_stored[OF assms(3,4), of X R]
  have kfit: "\<forall>f\<in>set (of_kind k ?L). fits f" for k using fit by (auto simp: of_kind_def)
  have claims: "\<forall>c\<in>set (manifest_claims ?ms). fits (claim_fact X c)" using kfit[of ClaimFact] by (simp add: of_kind_all_facts)
  have headers: "\<forall>m\<in>set ?ms. manifest_parses X m \<and> fits (header_fact X m)"
    using kfit[of HeaderFact] typed_manifest(1)[OF assms(1,2)] by (simp add: of_kind_all_facts)
  have recs: "\<forall>f\<in>set ?rs. fits f" using kfit[of RecordFact] by (simp add: of_kind_all_facts)
  have ord: "sorted_wrt (<) (map fst ?rs)"
    using located_paths_ordered[OF assms(4), of X R] by (simp add: loc_fact_def comp_def case_prod_unfold)
  have srt: "sort ?rs = ?rs" by (rule sorted_fst_strict[OF ord])
  have loc: "\<forall>r\<in>set ?rs. \<exists>l. decode_location (snd r) = Inr l \<and> loc_of ?at (fst r) = Some l"
  proof
    fix x assume "x \<in> set ?rs"
    then obtain f n r where x: "x = loc_fact (f, n)" "(f, n, r) \<in> set (located_records X R lfs)" by auto
    have "?at (rf_path f) = Some (f, n)" using x(2) record_at_Some[OF assms(4)] by blast
    moreover have "stored_in (cr_payloads rep) (f, n)" using located_record_ok(4)[OF x(2)] assms(3) by (auto simp: replay_holds_def)
    ultimately show "\<exists>l. decode_location (snd x) = Inr l \<and> loc_of ?at (fst x) = Some l"
      using x(1) by (simp add: loc_fact_def loc_of_def decode_location_bytes stored_in_def)
  qed
  have none: "loc_of ?at p = None" if "p \<notin> set (map fst ?rs)" for p
  proof (cases "?at p")
    case (Some x)
    then show ?thesis using that record_at_Some[OF assms(4), of X R p "fst x" "snd x"] by (force simp: loc_fact_def)
  qed (simp add: loc_of_def)
  have small: "loc_of ?at p = Some l \<Longrightarrow> snd l < 2 ^ 32" for p l
    using at_loc_small[OF at] by (cases l) (auto simp: loc_small_def)
  have split: "validate_ownership_and_batches X R (cr_payloads rep) facts b =
      rbind (owned_statuses (reader_of (sort (map (claim_fact X) (manifest_claims ?ms)))) (reader_of ?rs) b) (\<lambda>(enriched, b, issue).
      rbind (validate_batches X R (cr_payloads rep) (enc_facts (sort (map (header_fact X) ?ms))) enriched) (\<lambda>_.
      case issue of Some e \<Rightarrow> Inl (Corrupt (GenericOwnership e)) | None \<Rightarrow> Inr b))"
  proof -
    have "reader_new (rp_claims facts) = Inr (reader_of (sort (map (claim_fact X) (manifest_claims ?ms))))"
        "reader_new (rp_records facts) = Inr (reader_of ?rs)"
      using reader_new_of[of "sort (of_kind ClaimFact ?L)"] reader_new_of[of "sort (of_kind RecordFact ?L)"] claims recs srt
      by (simp_all add: facts_def facts_of_def Let_def of_kind_all_facts)
    moreover have "rp_headers facts = enc_facts (sort (map (header_fact X) ?ms))"
      by (simp add: facts_def facts_of_def Let_def of_kind_all_facts)
    ultimately show ?thesis
      by (auto simp: validate_ownership_and_batches_def owned_statuses_def rbind_assoc intro!: rbind_cong)
  qed
  have vb: "validate_batches X R (cr_payloads rep) (enc_facts (sort (map (header_fact X) ?ms))) (enc_facts (sort (statuses X R lfs))) = Inr () \<longleftrightarrow>
      (\<forall>m\<in>set ?ms. manifest_matches X R (content_of ?at) m)"
    unfolding statuses_def using sfit
    by (intro validate_batches_eq[OF laws at headers batch_texts_distinct[OF assms(4)]]) (simp add: statuses_def)
  note coll = ownership_collected[OF assms(1,2,4)]
  have own: "\<exists>c. owned_statuses (reader_of (sort (map (claim_fact X) (manifest_claims ?ms)))) (reader_of ?rs) b =
        Inr (enc_facts (sort (statuses X R lfs)), spend b c, owner_issue (sort (map (claim_fact X) (manifest_claims ?ms))) ?rs) \<and>
        (\<forall>f\<in>set (statuses X R lfs). fits f) \<or>
      (\<exists>e. owned_statuses (reader_of (sort (map (claim_fact X) (manifest_claims ?ms)))) (reader_of ?rs) b = Inl e) \<and>
        \<not> ((\<forall>f\<in>set (statuses X R lfs). fits f) \<and> room b (2 * total_bytes (statuses X R lfs)))"
    unfolding statuses_def by (rule owned_statuses_eq[OF claims recs ord assms(5) loc]) (fact none small)+
  consider c where "owned_statuses (reader_of (sort (map (claim_fact X) (manifest_claims ?ms)))) (reader_of ?rs) b =
        Inr (enc_facts (sort (statuses X R lfs)), spend b c, owner_issue (sort (map (claim_fact X) (manifest_claims ?ms))) ?rs)"
    | e where "owned_statuses (reader_of (sort (map (claim_fact X) (manifest_claims ?ms)))) (reader_of ?rs) b = Inl e"
      "\<not> room b (2 * total_bytes (statuses X R lfs))"
    using own sfit by blast
  then show ?thesis
  proof cases
    case 1
    then show ?thesis
      unfolding split coll using vb
      by (cases "validate_batches X R (cr_payloads rep) (enc_facts (sort (map (header_fact X) ?ms))) (enc_facts (sort (statuses X R lfs)))";
          cases "owner_issue (sort (map (claim_fact X) (manifest_claims ?ms))) ?rs") auto
  next
    case 2
    then show ?thesis unfolding split by simp
  qed
qed

section \<open>Identity\<close>

lemma check_identity_manifest_ok:
  assumes "distinct (map sm_path records)" "manifest_stored X R records m" "bm_batch m \<notin> set ids"
  shows "check_identity_manifest X R (bt_of_list (map (\<lambda>s. (sm_path s, sm_bytes s)) records)) ids m = Inr (bs_insert (bm_batch m) ids)"
proof -
  let ?kv = "map (\<lambda>s. (sm_path s, sm_bytes s)) records"
  obtain ms rs where ms: "set ms \<subseteq> set records" "map sm_path ms = map ref_path (bm_members m)" "validate_batch_members X m ms R = Inr rs"
    using assms(2) by (auto simp: manifest_stored_def is_ok_iff)
  have d: "distinct (map fst ?kv)" using assms(1) by (simp add: comp_def)
  have get: "bt_get (bt_of_list ?kv) (sm_path s) = Some (sm_bytes s)" if "s \<in> set records" for s
    unfolding bt_get_of_list[OF d] using that by (subst map_of_eq_Some_iff[OF d]) auto
  have "list_all2 (\<lambda>ref s. (case bt_get (bt_of_list ?kv) (ref_path ref) of
        None \<Rightarrow> Inl IncompleteMembers | Some bs \<Rightarrow> Inr \<lparr>sm_path = ref_path ref, sm_bytes = bs\<rparr>) = Inr s) (bm_members m) ms"
    unfolding list_all2_conv_all_nth
  proof (intro conjI allI impI)
    show len: "length (bm_members m) = length ms" using ms(2) by (metis length_map)
    fix i assume i: "i < length (bm_members m)"
    then have p: "sm_path (ms ! i) = ref_path (bm_members m ! i)" using ms(2) len by (metis nth_map)
    moreover have "ms ! i \<in> set records" using i len ms(1) by auto
    ultimately show "(case bt_get (bt_of_list ?kv) (ref_path (bm_members m ! i)) of
        None \<Rightarrow> Inl IncompleteMembers | Some bs \<Rightarrow> Inr \<lparr>sm_path = ref_path (bm_members m ! i), sm_bytes = bs\<rparr>) = Inr (ms ! i)"
      using get[of "ms ! i"] by (cases "ms ! i") simp
  qed
  then show ?thesis using assms(3) ms(3) by (simp add: check_identity_manifest_def try_map_Inr_iff[symmetric])
qed

lemma check_identity_manifests_ok:
  assumes "distinct (map sm_path records)"
  shows "\<forall>m\<in>set ms. manifest_stored X R records m \<Longrightarrow> distinct (map bm_batch ms) \<Longrightarrow> set ids \<inter> bm_batch ` set ms = {} \<Longrightarrow>
    \<exists>ids'. try_fold (check_identity_manifest X R (bt_of_list (map (\<lambda>s. (sm_path s, sm_bytes s)) records))) ids ms = Inr ids'"
proof (induction ms arbitrary: ids)
  case (Cons m ms)
  have "\<exists>ids'. try_fold (check_identity_manifest X R (bt_of_list (map (\<lambda>s. (sm_path s, sm_bytes s)) records)))
      (bs_insert (bm_batch m) ids) ms = Inr ids'"
    using Cons.prems by (intro Cons.IH) auto
  then show ?case using check_identity_manifest_ok[OF assms, of X R m ids] Cons.prems by auto
qed simp

lemma identity_decoded_ok:
  assumes "distinct (map sm_path members)" "\<forall>m\<in>set manifests. manifest_stored X R members m" "distinct (map bm_batch manifests)"
    and "\<forall>s\<in>set members. \<exists>m\<in>set manifests. sm_path s \<in> ref_path ` set (bm_members m)"
    and "\<forall>s\<in>set members. decode_identity_member X R s = Inr (g s)"
  shows "identity_decoded X R manifests members = Inr (map g members)"
proof -
  let ?kv = "map (\<lambda>s. (sm_path s, sm_bytes s)) members"
  let ?sorted = "sort_key (manifest_canonical_path X) manifests"
  have d: "distinct (map fst ?kv)" using assms(1) by (simp add: comp_def)
  have "distinct (map bm_batch ?sorted)" using assms(3) by (metis mset_map mset_sort mset_eq_imp_distinct_iff)
  then obtain ids where ids: "try_fold (check_identity_manifest X R (bt_of_list ?kv)) [] ?sorted = Inr ids"
    using check_identity_manifests_ok[OF assms(1), of ?sorted X R "[]"] assms(2) by auto
  have "bs_of_list (concat (map (\<lambda>m. map ref_path (bm_members m)) manifests)) = bt_keys (bt_of_list ?kv)"
  proof (rule strictly_ordered_unique)
    show "strictly_ordered (bt_keys (bt_of_list ?kv))"
      using bt_wf_of_list[of ?kv] by (simp add: bt_wf_def bt_keys_def order_simps)
    have "set (bt_keys (bt_of_list ?kv)) = sm_path ` set members" by (simp add: bt_keys_def set_bt_of_list[OF d] image_image)
    moreover have "(\<Union>m\<in>set manifests. ref_path ` set (bm_members m)) = sm_path ` set members"
      using manifest_stored_distinct(2) assms(2,4) by fast
    ultimately show "set (bs_of_list (concat (map (\<lambda>m. map ref_path (bm_members m)) manifests))) = set (bt_keys (bt_of_list ?kv))" by simp
  qed (simp add: order_simps ordered_bs_of_list)
  then show ?thesis
    using ids length_bt_of_list[OF d] try_map_total[of members "decode_identity_member X R" g] assms(5)
    by (simp add: identity_decoded_def Let_def)
qed

lemma replay_genesis_eq:
  fixes X R
  assumes "replay_holds rep lfs"
  defines "rs \<equiv> located_records X R lfs"
  shows "replay_genesis X R (cr_payloads rep) (genesis_fact rs) =
    Inr (case filter (\<lambda>(f, n, r). genesis_record r) rs of [] \<Rightarrow> None | (f, n, r) # _ \<Rightarrow> Some (rf_path f, rf_bytes f, r))"
proof (cases "filter (\<lambda>(f, n, r). genesis_record r) rs")
  case Nil
  then show ?thesis by (simp add: genesis_fact_def replay_genesis_def)
next
  case (Cons x xs)
  obtain f n r where x: "x = (f, n, r)" by (metis prod_cases3)
  have "x \<in> set (filter (\<lambda>(f, n, r). genesis_record r) rs)" unfolding Cons by simp
  then have "x \<in> set rs" by simp
  note l = located_record_ok[OF this[unfolded x rs_def]]
  have "read_at (cr_payloads rep) n (length (rf_bytes f)) (rf_path f) = Inr f"
    using l(4) assms(1) read_at_stored by (auto simp: replay_holds_def)
  then show ?thesis using Cons x l(3) by (simp add: genesis_fact_def replay_genesis_def)
qed

lemma identity_parity:
  assumes "replay_laws X" "decodes X R lfs" "replay_holds rep lfs" "strictly_ordered (map rf_path (map fst lfs))"
    and own: "validate_batch_ownership X (member_files X R (map fst lfs)) (file_manifests X R (map fst lfs)) R = Inr ()"
  defines "ms \<equiv> scanned_manifests X R (map fst lfs)" and "rs \<equiv> located_records X R lfs"
  shows "rbind (replay_genesis X R (cr_payloads rep) (genesis_fact rs)) (\<lambda>genesis.
      map_err e (validate_replayed_identity X (length ms) (length rs) (first_fact ms) (\<exists>(f, n, r)\<in>set rs. foreign_record r)
        (length (filter (\<lambda>(f, n, r). genesis_record r) rs)) genesis)) =
    map_err e (validate_store_identity X (file_manifests X R (map fst lfs)) (member_files X R (map fst lfs)) R)"
proof -
  let ?M = "member_files X R (map fst lfs)" and ?ms = "file_manifests X R (map fst lfs)"
  let ?g = "\<lambda>s. (sm_path s, sm_bytes s, projr (decode_record X (sm_bytes s) R))"
  have o: "distinct (map sm_path ?M)" "\<forall>m\<in>set ?ms. manifest_stored X R ?M m"
      "\<forall>s\<in>set ?M. length (filter (\<lambda>m. sm_path s \<in> ref_path ` set (bm_members m)) ?ms) = 1"
    using own by (auto simp: batch_ownership_Inr)
  have "distinct (map (batch_text X) ms)" unfolding ms_def by (rule batch_texts_distinct[OF assms(4)])
  then have "distinct (map bm_batch ms)" by (auto simp: distinct_map batch_text_def inj_on_def)
  then have db: "distinct (map bm_batch ?ms)"
    unfolding file_manifests_def ms_def by (metis mset_map mset_sort mset_eq_imp_distinct_iff)
  have ex: "\<forall>s\<in>set ?M. \<exists>m\<in>set ?ms. sm_path s \<in> ref_path ` set (bm_members m)"
    using o(3) by (metis (no_types, lifting) filter_False length_0_conv zero_neq_one)
  have dec: "\<forall>s\<in>set ?M. decode_identity_member X R s = Inr (?g s)"
    unfolding member_files_located using located_record_ok(2,3) by (fastforce simp: decode_identity_member_Inr)
  have decoded: "identity_decoded X R ?ms ?M = Inr (map ?g ?M)" by (rule identity_decoded_ok[OF o(1,2) db ex dec])
  have gm: "map ?g ?M = map (\<lambda>(f, n, r). (rf_path f, rf_bytes f, r)) rs"
    unfolding member_files_located rs_def using located_record_ok(3) by (fastforce simp: case_prod_unfold)
  have gen: "filter is_genesis (map ?g ?M) = map (\<lambda>(f, n, r). (rf_path f, rf_bytes f, r)) (filter (\<lambda>(f, n, r). genesis_record r) rs)"
    unfolding gm filter_map by (auto simp: is_genesis_def genesis_record_def case_prod_unfold intro!: arg_cong[where f = "map _"] filter_cong)
  have foreign: "list_ex foreign_identity (map ?g ?M) \<longleftrightarrow> (\<exists>(f, n, r)\<in>set rs. foreign_record r)"
    unfolding gm by (auto simp: list_ex_iff foreign_identity_def foreign_record_def case_prod_unfold)
  have srt: "sort_key (manifest_canonical_path X) ?ms = ms"
  proof (rule sort_key_unique)
    show "mset ms = mset ?ms" by (simp add: ms_def file_manifests_def)
    show "sorted_wrt (<) (map (manifest_canonical_path X) ms)"
      unfolding ms_def scanned_manifests_paths using assms(4) by (simp add: order_simps sorted_wrt_map sorted_wrt_filter)
  qed
  have first: "first_batch_fact X ?ms = first_fact ms" by (simp add: first_batch_fact_def first_fact_def srt)
  have lens: "length ?ms = length ms" "length ?M = length rs"
    by (simp_all add: ms_def file_manifests_def rs_def member_files_located)
  let ?genesis = "case filter (\<lambda>(f, n, r). genesis_record r) rs of [] \<Rightarrow> None | (f, n, r) # _ \<Rightarrow> Some (rf_path f, rf_bytes f, r)"
  have "length (filter is_genesis (map ?g ?M)) = 1 \<longrightarrow> ?genesis = Some (hd (filter is_genesis (map ?g ?M)))"
    unfolding gen by (auto split: list.splits)
  note eq = replayed_identity_eq[OF decoded this]
  show ?thesis
    unfolding replay_genesis_eq[OF assms(3), of X R, folded rs_def] rbind_simps eq lens first foreign unfolding gen by simp
qed

section \<open>Folds and legacy entries\<close>

lemma folds_parity:
  assumes "replay_laws X" "decodes X R lfs" "replay_holds rep lfs" "strictly_ordered (map rf_path (map fst lfs))"
  shows "validate_builtin_folds_bounded X R rep = Inr () \<longleftrightarrow> folds_ok X (file_records X R (map fst lfs))"
proof -
  let ?rs = "located_records X R lfs" and ?xs = "filter lr_folded (located_records X R lfs)"
  let ?grp = "\<lambda>x. filter (\<lambda>y. lr_key X y = lr_key X x) ?xs"
  let ?good = "\<lambda>r ops. if r_domain r = ''wayjournal.profile'' then is_ok (fold_profile ops) else is_ok (fold_catalogs ops)"
  have plain: "uuid_plain X" using assms(1) by (simp add: replay_laws_def)
  have dom: "\<forall>x\<in>set ?rs. CHR ''/'' \<notin> set (r_domain (lr_record x))"
    using located_record_ok(1) domain_id_plain(1) by (fastforce simp: record_ok_def)
  have ok: "\<forall>x\<in>set lfs. is_ok (decode_visible_file X R (fst x))" using assms(2) by (simp add: decodes_def)
  have grp: "filter (\<lambda>q. r_domain q = r_domain (lr_record x) \<and> uuid_to_string X (r_entity q) = uuid_to_string X (r_entity (lr_record x)))
      (map lr_record ?rs) = map lr_record (?grp x)" if "lr_folded x" for x
    unfolding filter_map filter_filter
    using that by (intro arg_cong[where f = "map lr_record"] filter_cong) (auto simp: lr_key_def fold_key_def lr_folded_def folded_def)
  have conv: "try_map (operation_try_from X) (map lr_record g) = Inr (map (lr_operation X) g)" if "\<forall>y\<in>set g. convertible X y" for g
    unfolding try_map_map by (rule try_map_total) (use that in \<open>auto simp: convertible_def lr_operation_def converted_def is_ok_iff\<close>)
  have one: "(\<exists>ops. try_map (operation_try_from X) (map lr_record (?grp x)) = Inr ops \<and> ?good (lr_record x) ops) \<longleftrightarrow>
      (\<forall>y\<in>set (?grp x). convertible X y) \<and> group_good X (lr_key X x) (?grp x)" for x
  proof -
    have gg: "group_good X (lr_key X x) (?grp x) \<longleftrightarrow> ?good (lr_record x) (map (lr_operation X) (?grp x))"
      by (simp add: group_good_def lr_key_def fold_key_def)
    have cv: "\<forall>y\<in>set (?grp x). convertible X y" if "try_map (operation_try_from X) (map lr_record (?grp x)) = Inr ops" for ops
    proof
      fix y assume "y \<in> set (?grp x)"
      then have "lr_record y \<in> set (map lr_record (?grp x))" unfolding list.set_map by (rule imageI)
      from try_map_ok[OF that this] show "convertible X y" by (simp only: convertible_def)
    qed
    show ?thesis
    proof
      assume "\<exists>ops. try_map (operation_try_from X) (map lr_record (?grp x)) = Inr ops \<and> ?good (lr_record x) ops"
      then obtain ops where o: "try_map (operation_try_from X) (map lr_record (?grp x)) = Inr ops" "?good (lr_record x) ops" by (elim exE conjE)
      have "ops = map (lr_operation X) (?grp x)" using o(1) unfolding conv[OF cv[OF o(1)]] by (simp only: sum.inject)
      with o(2) show "(\<forall>y\<in>set (?grp x). convertible X y) \<and> group_good X (lr_key X x) (?grp x)"
        unfolding gg using cv[OF o(1)] by (simp only: simp_thms)
    next
      assume a: "(\<forall>y\<in>set (?grp x). convertible X y) \<and> group_good X (lr_key X x) (?grp x)"
      show "\<exists>ops. try_map (operation_try_from X) (map lr_record (?grp x)) = Inr ops \<and> ?good (lr_record x) ops"
      proof (intro exI conjI)
        show "try_map (operation_try_from X) (map lr_record (?grp x)) = Inr (map (lr_operation X) (?grp x))"
          by (rule conv) (rule conjunct1[OF a])
        show "?good (lr_record x) (map (lr_operation X) (?grp x))" by (rule iffD1[OF gg conjunct2[OF a]])
      qed
    qed
  qed
  let ?F = "\<lambda>x. filter (\<lambda>q. r_domain q = r_domain (lr_record x) \<and> uuid_to_string X (r_entity q) = uuid_to_string X (r_entity (lr_record x)))
      (map lr_record ?rs)"
  have "folds_ok X (file_records X R (map fst lfs)) \<longleftrightarrow>
      (\<forall>x\<in>set ?rs. lr_folded x \<longrightarrow> (\<exists>ops. try_map (operation_try_from X) (?F x) = Inr ops \<and> ?good (lr_record x) ops))"
    by (simp only: folds_ok_def file_records_located list.set_map ball_simps lr_folded_def folded_def)
  also have "\<dots> \<longleftrightarrow> (\<forall>x\<in>set ?rs. lr_folded x \<longrightarrow> (\<forall>y\<in>set (?grp x). convertible X y) \<and> group_good X (lr_key X x) (?grp x))"
  proof (intro ball_cong refl imp_cong)
    fix x assume "lr_folded x"
    show "(\<exists>ops. try_map (operation_try_from X) (?F x) = Inr ops \<and> ?good (lr_record x) ops) \<longleftrightarrow>
        (\<forall>y\<in>set (?grp x). convertible X y) \<and> group_good X (lr_key X x) (?grp x)"
      unfolding grp[OF \<open>lr_folded x\<close>] by (rule one)
  qed
  also have "\<dots> \<longleftrightarrow> (\<forall>x\<in>set ?xs. (\<forall>y\<in>set (?grp x). convertible X y) \<and> group_good X (lr_key X x) (?grp x))"
    by (simp only: set_filter ball_simps mem_Collect_eq) blast
  also have "\<dots> \<longleftrightarrow> (\<forall>x\<in>set ?xs. convertible X x \<and> group_good X (lr_key X x) (?grp x))" by auto
  finally show ?thesis unfolding bounded_folds_iff[OF assms(3) ok plain assms(4) dom] by simp
qed

lemma scanned_legacy_filter:
  "scanned_legacy X R fs = map (file_legacy_entry X) (filter (legacy_file X) fs)"
proof -
  have "(case decode_visible_file X R f of Inr (DecodedLegacy e) \<Rightarrow> Some e | _ \<Rightarrow> None) =
      (if legacy_file X f then Some (file_legacy_entry X f) else None)" for f
    by (cases "classify_path X (rf_path f)")
      (auto simp: decode_visible_file_def legacy_file_def file_legacy_entry_def rbind_def map_err_def split: sum.splits if_splits)
  then show ?thesis unfolding scanned_legacy_def by (induction fs) (simp_all add: List.map_filter_simps)
qed


section \<open>Replay and scan\<close>

text \<open>What the collecting scan asks of the decoded files, apart from their legacy entries.\<close>

definition store_accepted :: "ext \<Rightarrow> store_config \<Rightarrow> raw_file list \<Rightarrow> store_identity option \<Rightarrow> bool" where
  "store_accepted X C files identity \<longleftrightarrow>
     (let R = sc_registry C in
      distinct (map r_id (file_records X R files)) \<and>
      distinct (map (\<lambda>m. (bm_actor m, digest_to_string X (bm_key_digest m))) (scanned_manifests X R files)) \<and>
      validate_batch_ownership X (member_files X R files) (file_manifests X R files) R = Inr () \<and>
      (if sc_strict C then
         validate_store_identity X (file_manifests X R files) (member_files X R files) R = Inr identity \<and>
         folds_ok X (file_records X R files)
       else identity = None \<and> \<not> list_ex (\<lambda>r. builtin_domain (r_domain r)) (file_records X R files)))"

definition manifests_typed :: "ext \<Rightarrow> domain_registry \<Rightarrow> raw_file list \<Rightarrow> bool" where
  "manifests_typed X R files \<longleftrightarrow> (\<forall>m\<in>set (scanned_manifests X R files). manifest_typed m)"

definition replays :: "ext \<Rightarrow> domain_registry \<Rightarrow> canonical_replay \<Rightarrow> (raw_file \<times> nat) list \<Rightarrow> bool" where
  "replays X R rep lfs \<longleftrightarrow>
     replay_laws X \<and> replay_holds rep lfs \<and> room (cr_budget rep) 0 \<and> strictly_ordered (map rf_path (map fst lfs)) \<and>
     (\<forall>x\<in>set lfs. is_canonical (classify_path X (rf_path (fst x)))) \<and> manifests_typed X R (map fst lfs)"

lemma manifests_typed_decodes:
  assumes "manifests_typed X R (map fst lfs)" "\<forall>x\<in>set lfs. is_ok (decode_visible_file X R (fst x))"
  shows "decodes X R lfs"
  using assms by (simp add: decodes_def manifests_typed_def)

lemma store_accepted_scan:
  assumes "strictly_ordered (map rf_path files)" "compute_store_revision X (file_entries files) = Inr revision"
  shows "(\<exists>snap. scan_collected X C files [] = Inr snap \<and> ss_revision snap = rv \<and> ss_identity snap = identity) \<longleftrightarrow>
    (\<forall>f\<in>set files. is_ok (decode_visible_file X (sc_registry C) f)) \<and> store_accepted X C files identity \<and>
    sc_legacy C (scanned_legacy X (sc_registry C) files) = Inr () \<and> rv = revision"
proof -
  let ?R = "sc_registry C"
  have m: "mset (map g (file_manifests X ?R files)) = mset (map g (scanned_manifests X ?R files))" for g :: "batch_manifest \<Rightarrow> string \<times> string"
    by (simp add: file_manifests_def)
  note idem = mset_eq_imp_distinct_iff[OF m]
  have s: "ss_revision (snapshot_of X C files a b) = a" "ss_identity (snapshot_of X C files a b) = b" for a b
    by (simp_all add: snapshot_of_def)
  show ?thesis
    unfolding scan_collected_Inr[OF assms(1)] validate_builtin_folds_Inr store_accepted_def Let_def idem assms(2)
    by (rule iffI; elim exE conjE; (intro exI[of _ "snapshot_of X C files revision identity"])?) (auto simp: s)
qed

lemma replayed_distinct:
  assumes "replay_laws X" "decodes X R lfs"
  shows "validate_duplicate_record_ids X (rp_record_ids (facts_of X R query lfs revision)) = Inr () \<longleftrightarrow>
      distinct (map r_id (file_records X R (map fst lfs)))"
    and "validate_duplicate_idempotency X (rp_idempotency (facts_of X R query lfs revision)) = Inr () \<longleftrightarrow>
      distinct (map (\<lambda>m. (bm_actor m, digest_to_string X (bm_key_digest m))) (scanned_manifests X R (map fst lfs)))"
proof -
  have laws: "uuid_roundtrip X" "uuid_plain X" "hex_roundtrip X" using assms(1) by (simp_all add: replay_laws_def)
  note fit = facts_fit[OF assms]
  have v: "\<forall>(f, n, r)\<in>set (located_records X R lfs). v7_ok X (r_id r)"
    using located_record_ok(1) by (fastforce simp: record_ok_def)
  have e: "map (\<lambda>(f, n, r). r_id r) (located_records X R lfs) = map r_id (file_records X R (map fst lfs))"
    by (simp add: file_records_located lr_record_def case_prod_unfold)
  show "validate_duplicate_record_ids X (rp_record_ids (facts_of X R query lfs revision)) = Inr () \<longleftrightarrow>
      distinct (map r_id (file_records X R (map fst lfs)))"
    using duplicate_record_ids_iff[OF laws(1,2) fit v] by (simp add: facts_of_def Let_def e)
  have "\<forall>m\<in>set (scanned_manifests X R (map fst lfs)). v7_ok X (bm_batch m) \<and> length (bm_key_digest m) = 32"
    using typed_manifest[OF assms] by (auto simp: manifest_parses_def)
  from duplicate_idempotency_iff[OF laws fit this]
  show "validate_duplicate_idempotency X (rp_idempotency (facts_of X R query lfs revision)) = Inr () \<longleftrightarrow>
      distinct (map (\<lambda>m. (bm_actor m, digest_to_string X (bm_key_digest m))) (scanned_manifests X R (map fst lfs)))"
    by (simp add: facts_of_def Let_def)
qed

lemma replayed_identity_stage:
  fixes query revision C
  assumes "replay_laws X" "decodes X (sc_registry C) lfs" "replay_holds rep lfs" "strictly_ordered (map rf_path (map fst lfs))"
  defines "R \<equiv> sc_registry C" and "fs \<equiv> map fst lfs"
  assumes own: "validate_batch_ownership X (member_files X R fs) (file_manifests X R fs) R = Inr ()"
  defines "facts \<equiv> facts_of X R query lfs revision"
  shows "(if \<not> sc_strict C \<and> rp_reserved facts then Inl E
      else rbind (if sc_strict C then
          rbind (replay_genesis X R (cr_payloads rep) (rp_genesis facts)) (\<lambda>genesis.
          rbind (map_err (\<lambda>e. Corrupt (InvalidGenesis e))
            (validate_replayed_identity X (rp_manifest_count facts) (rp_record_count facts) (rp_first_batch facts)
              (rp_unsupported facts) (rp_genesis_count facts) genesis)) (\<lambda>identity.
          rbind (validate_builtin_folds_bounded X R rep) (\<lambda>_. Inr identity)))
        else Inr None) (\<lambda>identity. Inr (g identity))) = Inr z \<longleftrightarrow>
    (\<exists>identity. z = g identity \<and>
      (if sc_strict C then
         validate_store_identity X (file_manifests X R fs) (member_files X R fs) R = Inr identity \<and> folds_ok X (file_records X R fs)
       else identity = None \<and> \<not> list_ex (\<lambda>r. builtin_domain (r_domain r)) (file_records X R fs)))"
proof -
  note dec = assms(2)[folded R_def]
  note id = identity_parity[OF assms(1) dec assms(3,4) own[unfolded fs_def], of "\<lambda>e. Corrupt (InvalidGenesis e)"]
  note folds = folds_parity[OF assms(1) dec assms(3,4)]
  have f: "rp_genesis facts = genesis_fact (located_records X R lfs)" "rp_manifest_count facts = length (scanned_manifests X R (map fst lfs))"
      "rp_record_count facts = length (located_records X R lfs)" "rp_first_batch facts = first_fact (scanned_manifests X R (map fst lfs))"
      "rp_unsupported facts = (\<exists>(f, n, r)\<in>set (located_records X R lfs). foreign_record r)"
      "rp_genesis_count facts = length (filter (\<lambda>(f, n, r). genesis_record r) (located_records X R lfs))"
      "rp_reserved facts = list_ex (\<lambda>r. builtin_domain (r_domain r)) (file_records X R fs)"
    by (auto simp: facts_def facts_of_def Let_def file_records_located fs_def list_ex_iff lr_record_def case_prod_unfold)
  have s: "rbind (replay_genesis X R (cr_payloads rep) (rp_genesis facts)) (\<lambda>genesis.
          rbind (map_err (\<lambda>e. Corrupt (InvalidGenesis e))
            (validate_replayed_identity X (rp_manifest_count facts) (rp_record_count facts) (rp_first_batch facts)
              (rp_unsupported facts) (rp_genesis_count facts) genesis)) h) =
      rbind (map_err (\<lambda>e. Corrupt (InvalidGenesis e)) (validate_store_identity X (file_manifests X R fs) (member_files X R fs) R)) h"
    for h :: "store_identity option \<Rightarrow> store_error + store_identity option"
    unfolding f(1-6) fs_def id[symmetric] rbind_assoc ..
  show ?thesis
    unfolding s f(7) using folds unfolding fs_def[symmetric] by (auto simp: result_simps split: if_splits)
qed

lemma replayed_Inr:
  fixes C query
  assumes rp: "replays X (sc_registry C) rep lfs" and rev: "compute_store_revision X (file_entries (map fst lfs)) = Inr revision"
  defines "R \<equiv> sc_registry C" and "fs \<equiv> map fst lfs"
  shows "validate_bounded_replay_inner X C V rep query = Inr (st, sub) \<Longrightarrow>
      validate_legacy X V rep = Inr () \<and> (\<forall>x\<in>set fs. is_ok (decode_visible_file X R x)) \<and> store_accepted X C fs (vs_identity st) \<and>
      st = \<lparr>vs_revision = revision, vs_identity = vs_identity st\<rparr> \<and> sub = subject_fact query (file_records X R fs)"
    and "validate_legacy X V rep = Inr () \<Longrightarrow> \<forall>x\<in>set fs. is_ok (decode_visible_file X R x) \<Longrightarrow> store_accepted X C fs identity \<Longrightarrow>
      room (cr_budget rep) (2 * total_bytes (map snd (all_facts X R lfs)) + 2 * total_bytes (statuses X R lfs)) \<Longrightarrow>
      validate_bounded_replay_inner X C V rep query =
        Inr (\<lparr>vs_revision = revision, vs_identity = identity\<rparr>, subject_fact query (file_records X R fs))"
proof -
  have h: "replay_laws X" "replay_holds rep lfs" "room (cr_budget rep) 0" "strictly_ordered (map rf_path (map fst lfs))"
      "\<forall>x\<in>set lfs. is_canonical (classify_path X (rf_path (fst x)))" "manifests_typed X R (map fst lfs)"
    using rp by (simp_all add: replays_def R_def)
  let ?facts = "facts_of X R query lfs revision"
  obtain c where c: "c \<le> 2 * total_bytes (map snd (all_facts X R lfs))"
      "\<And>facts b. collect_facts X R rep query = Inr (facts, b) \<Longrightarrow> facts = ?facts \<and> b = spend (cr_budget rep) c \<and>
        room (cr_budget rep) c \<and> (\<forall>x\<in>set lfs. is_ok (decode_visible_file X R (fst x))) \<and> (\<forall>x\<in>set (all_facts X R lfs). fits (snd x))"
      "(\<forall>x\<in>set lfs. is_ok (decode_visible_file X R (fst x))) \<and> (\<forall>x\<in>set (all_facts X R lfs). fits (snd x)) \<and>
        room (cr_budget rep) (2 * total_bytes (map snd (all_facts X R lfs))) \<Longrightarrow>
        collect_facts X R rep query = Inr (?facts, spend (cr_budget rep) c)"
    using collect_facts_eq[OF h(2-5) rev, of R query] by metis
  have sub: "rp_subject ?facts = subject_fact query (file_records X R fs)" and rv: "rp_revision ?facts = revision"
    by (simp_all add: facts_of_def Let_def file_records_located fs_def lr_record_def case_prod_unfold)
  have fs: "(\<forall>x\<in>set fs. is_ok (decode_visible_file X R x)) \<longleftrightarrow> (\<forall>x\<in>set lfs. is_ok (decode_visible_file X R (fst x)))"
    by (simp add: fs_def)
  show "validate_legacy X V rep = Inr () \<and> (\<forall>x\<in>set fs. is_ok (decode_visible_file X R x)) \<and> store_accepted X C fs (vs_identity st) \<and>
      st = \<lparr>vs_revision = revision, vs_identity = vs_identity st\<rparr> \<and> sub = subject_fact query (file_records X R fs)"
    if r: "validate_bounded_replay_inner X C V rep query = Inr (st, sub)"
  proof -
    obtain facts b where cf: "collect_facts X R rep query = Inr (facts, b)"
      using r by (auto simp: validate_bounded_replay_inner_def Let_def result_simps R_def)
    note cc = c(2)[OF cf]
    have dec: "decodes X R lfs" using manifests_typed_decodes[OF h(6)] cc by blast
    have b0: "room b 0" using cc by simp
    obtain b' where v: "validate_legacy X V rep = Inr ()" "validate_duplicate_record_ids X (rp_record_ids ?facts) = Inr ()"
        "validate_duplicate_idempotency X (rp_idempotency ?facts) = Inr ()"
        "validate_ownership_and_batches X R (cr_payloads rep) ?facts b = Inr b'"
      using r cf cc by (auto simp: validate_bounded_replay_inner_def Let_def result_simps R_def)
    have own: "validate_batch_ownership X (member_files X R fs) (file_manifests X R fs) R = Inr ()"
      using ownership_replayed[OF h(1) dec h(2,4) b0, of query revision b'] v(4) by (simp add: fs_def)
    have cf': "collect_facts X R rep query = Inr (?facts, b)" using cf cc by simp
    note stage = replayed_identity_stage[OF h(1) dec[unfolded R_def] h(2,4) own[unfolded R_def fs_def], of query revision, folded R_def fs_def]
    note r' = r[unfolded validate_bounded_replay_inner_def Let_def, folded R_def, unfolded v(1) cf' rbind_simps prod.case v(2-4) rv]
    have "\<exists>identity. (st, sub) = (\<lparr>vs_revision = revision, vs_identity = identity\<rparr>, rp_subject ?facts) \<and>
      (if sc_strict C then
         validate_store_identity X (file_manifests X R fs) (member_files X R fs) R = Inr identity \<and> folds_ok X (file_records X R fs)
       else identity = None \<and> \<not> list_ex (\<lambda>r. builtin_domain (r_domain r)) (file_records X R fs))"
      by (rule iffD1[OF stage r'])
    then show ?thesis
      using v(1) own replayed_distinct[OF h(1) dec, of query revision] v(2,3) cc fs sub
      by (auto simp: store_accepted_def Let_def R_def[symmetric] fs_def[symmetric] split: if_splits)
  qed
  show "validate_bounded_replay_inner X C V rep query =
        Inr (\<lparr>vs_revision = revision, vs_identity = identity\<rparr>, subject_fact query (file_records X R fs))"
    if a: "validate_legacy X V rep = Inr ()" "\<forall>x\<in>set fs. is_ok (decode_visible_file X R x)" "store_accepted X C fs identity"
      "room (cr_budget rep) (2 * total_bytes (map snd (all_facts X R lfs)) + 2 * total_bytes (statuses X R lfs))"
  proof -
    have dec: "decodes X R lfs" using manifests_typed_decodes[OF h(6)] a(2) fs by blast
    have rm: "room (cr_budget rep) (2 * total_bytes (map snd (all_facts X R lfs)))" by (rule room_mono[OF a(4)]) simp
    have cf: "collect_facts X R rep query = Inr (?facts, spend (cr_budget rep) c)"
      using c(3) a(2) fs facts_fit[OF h(1) dec] rm by blast
    have b0: "room (spend (cr_budget rep) c) 0" and b1: "room (spend (cr_budget rep) c) (2 * total_bytes (statuses X R lfs))"
      using room_mono[OF a(4)] c(1) by simp_all
    have own: "validate_batch_ownership X (member_files X R fs) (file_manifests X R fs) R = Inr ()"
      using a(3) by (simp add: store_accepted_def Let_def R_def)
    obtain b' where b': "validate_ownership_and_batches X R (cr_payloads rep) ?facts (spend (cr_budget rep) c) = Inr b'"
      using ownership_replayed[OF h(1) dec h(2,4) b0, of query revision] own b1 by (auto simp: fs_def is_ok_iff)
    have v: "validate_duplicate_record_ids X (rp_record_ids ?facts) = Inr ()" "validate_duplicate_idempotency X (rp_idempotency ?facts) = Inr ()"
      using replayed_distinct[OF h(1) dec, of query revision] a(3) by (simp_all add: store_accepted_def Let_def R_def fs_def)
    note stage = replayed_identity_stage[OF h(1) dec[unfolded R_def] h(2,4) own[unfolded R_def fs_def], of query revision, folded R_def fs_def]
    have acc: "if sc_strict C then
         validate_store_identity X (file_manifests X R fs) (member_files X R fs) R = Inr identity \<and> folds_ok X (file_records X R fs)
       else identity = None \<and> \<not> list_ex (\<lambda>r. builtin_domain (r_domain r)) (file_records X R fs)"
      using a(3) by (simp add: store_accepted_def Let_def R_def)
    show ?thesis
      unfolding validate_bounded_replay_inner_def Let_def R_def[symmetric] a(1) cf rbind_simps prod.case v b' rv
      by (rule iffD2[OF stage], rule exI[of _ identity], rule conjI[OF _ acc]) (simp only: sub)
  qed
qed

text \<open>
  The files of a finished replay with their offsets, and the bytes a replay may spend: the payloads,
  and each sorted fact twice, once in a run and once merged.
\<close>

definition replay_files :: "raw_file list \<Rightarrow> (raw_file \<times> nat) list" where
  "replay_files files = sort_key (rf_path \<circ> fst) (located 0 files)"

definition replay_bytes :: "ext \<Rightarrow> domain_registry \<Rightarrow> raw_file list \<Rightarrow> nat" where
  "replay_bytes X R files =
     file_bytes files + 2 * total_bytes (map loc_fact (located 0 files)) +
     (2 * total_bytes (map snd (all_facts X R (replay_files files))) + 2 * total_bytes (statuses X R (replay_files files)))"

definition legacy_conforms :: "store_config \<Rightarrow> legacy_consumer \<Rightarrow> legacy_entry list \<Rightarrow> bool" where
  "legacy_conforms C V es \<longleftrightarrow> (consume V es = (Inr (), []) \<longleftrightarrow> sc_legacy C es = Inr ())"

lemma spool_files_Inr:
  assumes "replay_laws X" "manifests_typed X R files" "spool_files X files = Inr rep"
  shows "replays X R rep (replay_files files)" "map fst (replay_files files) = sort_key rf_path files"
    "tb_maximum (cr_budget rep) = MAX_REPLAY_TEMPORARY_BYTES"
    "tb_used (cr_budget rep) \<le> file_bytes files + 2 * total_bytes (map loc_fact (located 0 files))"
proof -
  obtain B where B: "try_fold (builder_push X) replay_builder files = Inr B" "builder_finish B = Inr rep"
    using assms(3) by (auto simp: spool_files_def result_simps)
  have "builder_holds X B files" using builder_pushes_Inr[OF builder_holds_new B(1)] by simp
  then obtain lfs where lfs: "replay_holds rep lfs" "map fst lfs = sort_key rf_path files" "mset lfs = mset (located 0 files)"
      "strictly_ordered (map rf_path (sort_key rf_path files))" "\<forall>f\<in>set files. spoolable X f"
      "room (cr_budget rep) 0" "tb_maximum (cr_budget rep) = MAX_REPLAY_TEMPORARY_BYTES"
      "tb_used (cr_budget rep) \<le> file_bytes files + 2 * total_bytes (map loc_fact (located 0 files))"
    by (rule builder_finish_Inr[OF _ B(2)])
  have e: "replay_files files = lfs"
    unfolding replay_files_def
  proof (rule sort_key_unique[OF lfs(3)])
    have "map (rf_path \<circ> fst) lfs = map rf_path (sort_key rf_path files)" unfolding lfs(2)[symmetric] by simp
    then show "sorted_wrt (<) (map (rf_path \<circ> fst) lfs)" using lfs(4) by (simp add: order_simps)
  qed
  have c: "spoolable X f \<Longrightarrow> is_canonical (classify_path X (rf_path f))" for f
    by (cases "classify_path X (rf_path f)") (auto simp: spoolable_def canonical_file_limit_def is_canonical_def)
  have "set files = fst ` set lfs" using lfs(2) by (metis list.set_map set_sort)
  then have "\<forall>x\<in>set lfs. is_canonical (classify_path X (rf_path (fst x)))" using lfs(5) c by blast
  then show "replays X R rep (replay_files files)"
    using assms(1,2) lfs(1,2,4,6) unfolding replays_def e by (auto simp: manifests_typed_def scanned_manifests_mem)
  show "map fst (replay_files files) = sort_key rf_path files" by (simp only: e lfs(2))
  show "tb_maximum (cr_budget rep) = MAX_REPLAY_TEMPORARY_BYTES"
    "tb_used (cr_budget rep) \<le> file_bytes files + 2 * total_bytes (map loc_fact (located 0 files))"
    by (fact lfs(7), fact lfs(8))
qed

lemma legacy_parity:
  assumes "replays X R rep lfs" "legacy_conforms C V (scanned_legacy X R (map fst lfs))"
  shows "validate_legacy X V rep = Inr () \<longleftrightarrow> sc_legacy C (scanned_legacy X R (map fst lfs)) = Inr ()"
proof -
  have h: "replay_holds rep lfs" "strictly_ordered (map rf_path (map fst lfs))"
      "\<forall>x\<in>set lfs. is_canonical (classify_path X (rf_path (fst x)))"
    using assms(1) by (simp_all add: replays_def)
  show ?thesis
    unfolding validate_legacy_Inr[OF h(1,3)] legacy_prefix_filter[OF h(2,3)] scanned_legacy_filter
    using assms(2)[unfolded scanned_legacy_filter] by (simp add: legacy_conforms_def)
qed

lemma replay_parity:
  assumes "replay_laws X" "manifests_typed X (sc_registry C) files" "spool_files X files = Inr rep"
    and "legacy_conforms C V (scanned_legacy X (sc_registry C) (sort_key rf_path files))"
  shows "validate_bounded_replay_inner X C V rep query = Inr (st, sub) \<Longrightarrow>
      \<exists>snap. scan_collected X C (sort_key rf_path files) [] = Inr snap \<and>
        st = \<lparr>vs_revision = ss_revision snap, vs_identity = ss_identity snap\<rparr> \<and> sub = subject_fact query (ss_records snap)"
    and "scan_collected X C (sort_key rf_path files) [] = Inr snap \<Longrightarrow>
      replay_bytes X (sc_registry C) files \<le> MAX_REPLAY_TEMPORARY_BYTES \<Longrightarrow>
      validate_bounded_replay_inner X C V rep query =
        Inr (\<lparr>vs_revision = ss_revision snap, vs_identity = ss_identity snap\<rparr>, subject_fact query (ss_records snap))"
proof -
  let ?fs = "sort_key rf_path files" and ?R = "sc_registry C"
  note sp = spool_files_Inr[OF assms(1-3)]
  note lg = legacy_parity[OF sp(1), unfolded sp(2), OF assms(4)]
  have ord: "strictly_ordered (map rf_path ?fs)" and can: "\<forall>f\<in>set ?fs. is_canonical (classify_path X (rf_path f))"
    using sp(1) unfolding replays_def sp(2)[symmetric] by simp_all
  obtain revision where rev: "compute_store_revision X (file_entries ?fs) = Inr revision"
    using accumulate_files[OF ord can] by metis
  note scan = store_accepted_scan[OF ord rev, of C] and rp = replayed_Inr[OF sp(1) rev[folded sp(2)], where V = V, unfolded sp(2)]
  have recs: "scan_collected X C ?fs [] = Inr snap \<Longrightarrow> ss_records snap = file_records X ?R ?fs" for snap
    by (metis scan_collected_Inr[OF ord] snapshot_of_def store_snapshot.select_convs(3))
  show "\<exists>snap. scan_collected X C ?fs [] = Inr snap \<and> st = \<lparr>vs_revision = ss_revision snap, vs_identity = ss_identity snap\<rparr> \<and>
      sub = subject_fact query (ss_records snap)"
    if "validate_bounded_replay_inner X C V rep query = Inr (st, sub)"
  proof -
    note r = rp(1)[OF that]
    obtain snap where "scan_collected X C ?fs [] = Inr snap" "ss_revision snap = revision" "ss_identity snap = vs_identity st"
      using scan[of revision "vs_identity st"] r lg by blast
    then show ?thesis using r recs by metis
  qed
  show "validate_bounded_replay_inner X C V rep query =
        Inr (\<lparr>vs_revision = ss_revision snap, vs_identity = ss_identity snap\<rparr>, subject_fact query (ss_records snap))"
    if a: "scan_collected X C ?fs [] = Inr snap" "replay_bytes X ?R files \<le> MAX_REPLAY_TEMPORARY_BYTES"
  proof -
    have "\<forall>f\<in>set ?fs. is_ok (decode_visible_file X ?R f)" "store_accepted X C ?fs (ss_identity snap)"
        "validate_legacy X V rep = Inr ()" "ss_revision snap = revision"
      using scan[of "ss_revision snap" "ss_identity snap"] a(1) lg by blast+
    moreover have "room (cr_budget rep) (2 * total_bytes (map snd (all_facts X ?R (replay_files files))) + 2 * total_bytes (statuses X ?R (replay_files files)))"
      using a(2) sp(3,4) by (simp add: room_def replay_bytes_def MAX_REPLAY_TEMPORARY_BYTES_def MAX_TOTAL_CANONICAL_BYTES_def)
    ultimately show ?thesis using rp(2)[where identity = "ss_identity snap" and query = query] recs[OF a(1)] by simp
  qed
qed

text \<open>
  C13: Bounded replay against the collecting scan. A replay spooled from the files of a store, in
  whatever order they came, validates only if the scan of those files accepts the store, and then with
  the scan's revision and identity; the subject it reports for a record identifier is that of the
  scan's records. Conversely every store the scan accepts validates, with the scan's revision and
  identity, when its temporary files stay within the budget. The bounded form of the legacy adapter is
  assumed to agree with its collected form on the legacy entries of the store.
\<close>

theorem bounded_replay_exact:
  assumes "replay_laws X" "manifests_typed X (sc_registry C) files" "spool_files X files = Inr rep"
    and "legacy_conforms C V (scanned_legacy X (sc_registry C) (sort_key rf_path files))"
  shows "(validate_bounded_replay X C V rep = Inr st \<longrightarrow>
      (\<exists>snap. scan_collected X C (sort_key rf_path files) [] = Inr snap \<and>
        st = \<lparr>vs_revision = ss_revision snap, vs_identity = ss_identity snap\<rparr>)) \<and>
    (validate_bounded_replay_for_record X C V rep rid = Inr (st, subject) \<longrightarrow>
      (\<exists>snap. scan_collected X C (sort_key rf_path files) [] = Inr snap \<and>
        st = \<lparr>vs_revision = ss_revision snap, vs_identity = ss_identity snap\<rparr> \<and>
        subject = subject_fact (Some rid) (ss_records snap))) \<and>
    (scan_collected X C (sort_key rf_path files) [] = Inr snap \<and>
     replay_bytes X (sc_registry C) files \<le> MAX_REPLAY_TEMPORARY_BYTES \<longrightarrow>
      validate_bounded_replay X C V rep = Inr \<lparr>vs_revision = ss_revision snap, vs_identity = ss_identity snap\<rparr> \<and>
      validate_bounded_replay_for_record X C V rep rid =
        Inr (\<lparr>vs_revision = ss_revision snap, vs_identity = ss_identity snap\<rparr>, subject_fact (Some rid) (ss_records snap)))"
  using replay_parity[OF assms]
  by (fastforce simp: validate_bounded_replay_def validate_bounded_replay_for_record_def rbind_Inr_iff)

end
