(* ===== verification/Wj_Visible.thy ===== *)
theory Wj_Visible
  imports Wj_Parity Wj_Projection
begin

text \<open>
  \<open>store.rs\<close>, the bounded validation of the visible store: the canonical directories are spooled into a
  replay under the scan budgets and validated there; and the presence proof that rests on it.
\<close>

section \<open>Spooling\<close>

definition spool_file ::
  "ext \<Rightarrow> canonical_replay_builder \<times> scan_budget \<Rightarrow> bytes \<Rightarrow> bytes \<Rightarrow> store_error + canonical_replay_builder \<times> scan_budget" where
  "spool_file X = (\<lambda>(B, b) relative content.
     case canonical_file_limit (classify_path X relative) of
       None \<Rightarrow> Inl (Corrupt (InvalidCanonicalFile relative))
     | Some limit \<Rightarrow>
         if limit < length content then Inl InvalidLayout
         else rbind (budget_reserve_bytes b (length content)) (\<lambda>b.
         rbind (read_file_bounded content limit) (\<lambda>bs.
         if length content \<noteq> length bs then Inl InvalidLayout
         else rbind (builder_push X B \<lparr>rf_path = relative, rf_bytes = bs\<rparr>) (\<lambda>B. Inr (B, b)))))"

declare rbind_cong [fundef_cong del]

function (sequential) spool_visible_replay_directory ::
  "ext \<Rightarrow> bytes \<Rightarrow> nat \<Rightarrow> nat \<Rightarrow> (string \<times> node) list \<Rightarrow> canonical_replay_builder \<times> scan_budget \<Rightarrow>
   store_error + canonical_replay_builder \<times> scan_budget" where
  "spool_visible_replay_directory X prefix limit seen [] z = Inr z"
| "spool_visible_replay_directory X prefix limit seen ((name, n) # es) z =
     (if limit < Suc seen then Inl InvalidLayout
      else rbind (budget_entry (snd z)) (\<lambda>b.
      let relative = prefix @ ''/'' @ name in
      rbind (validate_component name) (\<lambda>_.
      rbind (case n of
               DirNode children \<Rightarrow>
                 if valid_canonical_directory X relative
                 then spool_visible_replay_directory X relative (sl_entries (sb_limits b) - sb_entries b) 0 children (fst z, b)
                 else Inl (Corrupt (InvalidCanonicalFile relative))
             | FileNode _ content \<Rightarrow> spool_file X (fst z, b) relative content
             | _ \<Rightarrow> Inl (Corrupt (NonRegularPath relative))) (\<lambda>z.
      spool_visible_replay_directory X prefix limit (Suc seen) es z))))"
  by pat_completeness auto
termination
  by (relation "measure (\<lambda>(X, prefix, limit, seen, es, z). size_list (size_prod (\<lambda>_. 0) size) es)") auto

definition visible_s4b_replay :: "ext \<Rightarrow> store_dirs \<Rightarrow> store_error + canonical_replay" where
  "visible_s4b_replay X s =
     rbind (try_fold (\<lambda>z (d, prefix).
         spool_visible_replay_directory X prefix (sl_entries DEFAULT_SCAN_LIMITS - sb_entries (snd z)) 0 d z)
       (replay_builder, \<lparr>sb_limits = DEFAULT_SCAN_LIMITS, sb_entries = 0, sb_bytes = 0\<rparr>)
       [(batches_dir s, ''batches''), (events_dir s, ''events''), (journal_dir s, ''journal'')]) (\<lambda>z.
     builder_finish (fst z))"

definition validate_visible_s4b ::
  "ext \<Rightarrow> store_config \<Rightarrow> legacy_consumer \<Rightarrow> store_dirs \<Rightarrow> store_error + validated_store_state" where
  "validate_visible_s4b X C V s = rbind (visible_s4b_replay X s) (validate_bounded_replay X C V)"

definition validate_visible_s4b_for_record ::
  "ext \<Rightarrow> store_config \<Rightarrow> legacy_consumer \<Rightarrow> store_dirs \<Rightarrow> record_id \<Rightarrow>
   store_error + validated_store_state \<times> validated_record_subject option" where
  "validate_visible_s4b_for_record X C V s rid =
     rbind (visible_s4b_replay X s) (\<lambda>rep. validate_bounded_replay_for_record X C V rep rid)"

section \<open>The presence proof\<close>

datatype proof_error =
    PfStore store_error
  | PfCheckpoint checkpoint_error
  | PfMissingCheckpoint
  | MissingIdentity
  | IdentityMismatch
  | RevisionMismatch
  | RecordNotFound
  | SubjectMismatch

text \<open>
  What follows the recovery of the transactions, under the exclusive lock. \<open>checkpoint\<close> is the result of
  reading the durable admission checkpoint.
\<close>

definition verified_proof_locked ::
  "ext \<Rightarrow> store_config \<Rightarrow> legacy_consumer \<Rightarrow> store_dirs \<Rightarrow> checkpoint_error + admission_checkpoint option \<Rightarrow>
   qualified_entity_ref \<Rightarrow> record_id \<Rightarrow> timestamp \<Rightarrow> proof_error + verified_proof" where
  "verified_proof_locked X C V s checkpoint subject rid observed =
     rbind (map_err PfCheckpoint checkpoint) (\<lambda>c.
     rbind (ok_or PfMissingCheckpoint c) (\<lambda>c.
     rbind (map_err PfStore (validate_visible_s4b_for_record X C V s rid)) (\<lambda>(snapshot, record_subject).
     rbind (ok_or MissingIdentity (vs_identity snapshot)) (\<lambda>identity.
     if ac_store c \<noteq> si_logical identity \<or> ac_store c \<noteq> qe_store subject then Inl IdentityMismatch
     else if ac_revision c \<noteq> vs_revision snapshot then Inl RevisionMismatch
     else rbind (ok_or RecordNotFound record_subject) (\<lambda>rs.
     if vr_domain rs \<noteq> qe_domain subject \<or> vr_entity rs \<noteq> qe_entity subject then Inl SubjectMismatch
     else Inr (from_checkpoint X subject rid (ac_revision c) (ac_trust c) observed))))))"

section \<open>What spooling visits\<close>

text \<open>No directory is at a path the traversal must not descend into.\<close>

function (sequential) directories_canonical :: "ext \<Rightarrow> bytes \<Rightarrow> (string \<times> node) list \<Rightarrow> bool" where
  "directories_canonical X p [] = True"
| "directories_canonical X p ((name, n) # es) =
     ((case n of
         DirNode children \<Rightarrow>
           valid_canonical_directory X (p @ ''/'' @ name) \<and> directories_canonical X (p @ ''/'' @ name) children
       | _ \<Rightarrow> True) \<and> directories_canonical X p es)"
  by pat_completeness auto
termination
  by (relation "measure (\<lambda>(X, p, es). size_list (size_prod (\<lambda>_. 0) size) es)") auto

definition visible_directories_canonical :: "ext \<Rightarrow> store_dirs \<Rightarrow> bool" where
  "visible_directories_canonical X s \<longleftrightarrow>
     directories_canonical X ''batches'' (batches_dir s) \<and> directories_canonical X ''events'' (events_dir s) \<and>
     directories_canonical X ''journal'' (journal_dir s)"

definition spool_step ::
  "ext \<Rightarrow> canonical_replay_builder \<times> scan_budget \<Rightarrow> bytes \<times> visit_item \<Rightarrow> store_error + canonical_replay_builder \<times> scan_budget" where
  "spool_step X z v =
     rbind (budget_entry (snd z)) (\<lambda>b.
     case snd v of
       VDir \<Rightarrow> Inr (fst z, b)
     | VFile bs \<Rightarrow> spool_file X (fst z, b) (fst v) bs
     | VSpecial \<Rightarrow> Inl (Corrupt (NonRegularPath (fst v))))"

lemma spool_step_simps:
  "spool_step X z (p, VDir) = rbind (budget_entry (snd z)) (\<lambda>b. Inr (fst z, b))"
  "spool_step X z (p, VFile bs) = rbind (budget_entry (snd z)) (\<lambda>b. spool_file X (fst z, b) p bs)"
  "spool_step X z (p, VSpecial) = rbind (budget_entry (snd z)) (\<lambda>b. Inl (Corrupt (NonRegularPath p)))"
  by (simp_all add: spool_step_def)

lemma spool_file_Inr:
  "spool_file X (B, b) p bs = Inr z \<longleftrightarrow>
   length bs \<le> sl_bytes (sb_limits b) - sb_bytes b \<and>
   (\<exists>B'. builder_push X B \<lparr>rf_path = p, rf_bytes = bs\<rparr> = Inr B' \<and> z = (B', b\<lparr>sb_bytes := sb_bytes b + length bs\<rparr>))"
  by (auto simp: spool_file_def builder_push_def read_file_bounded_iff budget_reserve_bytes_def Let_def result_simps
      split: option.splits if_splits)

lemma spool_step_budget:
  "spool_step X z v = Inr z' \<Longrightarrow> sb_limits (snd z') = sb_limits (snd z) \<and> sb_entries (snd z') = Suc (sb_entries (snd z))"
  by (auto simp: spool_step_def budget_entry_def Let_def result_simps spool_file_Inr split: if_splits visit_item.splits)

lemma spool_steps_budget:
  "try_fold (spool_step X) z vs = Inr z' \<Longrightarrow>
   sb_limits (snd z') = sb_limits (snd z) \<and> sb_entries (snd z') = sb_entries (snd z) + length vs"
proof (induction vs arbitrary: z)
  case (Cons v vs)
  then obtain y where "spool_step X z v = Inr y" "try_fold (spool_step X) y vs = Inr z'" by (auto simp: result_simps)
  then show ?case using Cons.IH spool_step_budget[of X z v y] by auto
qed simp

lemma spool_directory_Inr:
  assumes "list_all (\<lambda>e. validate_component (fst e) = Inr () \<and> node_wf (snd e)) es"
    and "sl_entries (sb_limits (snd z)) + seen \<le> limit + sb_entries (snd z)"
  shows "spool_visible_replay_directory X p limit seen es z = Inr z' \<longleftrightarrow>
    directories_canonical X p es \<and> try_fold (spool_step X) z (visited X p es) = Inr z'"
  using assms
proof (induction X p limit seen es z arbitrary: z' rule: spool_visible_replay_directory.induct)
  case (2 X p limit seen name n es z)
  show ?case
  proof (cases "budget_entry (snd z)")
    case (Inl e)
    then show ?thesis by (cases n) (auto simp: spool_step_simps Let_def)
  next
    case (Inr b)
    then have b: "b = (snd z)\<lparr>sb_entries := Suc (sb_entries (snd z))\<rparr>" "\<not> sl_entries (sb_limits (snd z)) < Suc (sb_entries (snd z))"
      by (auto simp: budget_entry_def Let_def split: if_splits)
    then have lim: "\<not> limit < Suc seen" using "2.prems"(2) by linarith
    have vc: "validate_component name = Inr ()" using "2.prems"(1) by simp
    let ?rel = "p @ ''/'' @ name"
    have rest: "spool_visible_replay_directory X p limit (Suc seen) es y = Inr z' \<longleftrightarrow>
        directories_canonical X p es \<and> try_fold (spool_step X) y (visited X p es) = Inr z'"
      if "sb_limits (snd y) = sb_limits (snd z)" "Suc (sb_entries (snd z)) \<le> sb_entries (snd y)" for y
      using that "2.prems" by (intro "2.IH"(2)[OF lim refl]) auto
    show ?thesis
    proof (cases n)
      case (DirNode children)
      show ?thesis
      proof (cases "valid_canonical_directory X ?rel")
        case True
        have sub: "spool_visible_replay_directory X ?rel (sl_entries (sb_limits b) - sb_entries b) 0 children (fst z, b) = Inr y \<longleftrightarrow>
            directories_canonical X ?rel children \<and> try_fold (spool_step X) (fst z, b) (visited X ?rel children) = Inr y" for y
          using "2.prems"(1) b by (intro "2.IH"(1)[OF lim refl DirNode True]) (auto simp: DirNode)
        have r: "spool_visible_replay_directory X p limit (Suc seen) es y = Inr z' \<longleftrightarrow>
            directories_canonical X p es \<and> try_fold (spool_step X) y (visited X p es) = Inr z'"
          if "try_fold (spool_step X) (fst z, b) (visited X ?rel children) = Inr y" for y
          using spool_steps_budget[OF that] b by (intro rest) auto
        have "spool_visible_replay_directory X p limit seen ((name, n) # es) z = Inr z' \<longleftrightarrow>
            (\<exists>y. spool_visible_replay_directory X ?rel (sl_entries (sb_limits b) - sb_entries b) 0 children (fst z, b) = Inr y \<and>
              spool_visible_replay_directory X p limit (Suc seen) es y = Inr z')"
          using lim Inr vc DirNode True by (simp add: Let_def result_simps)
        also have "\<dots> \<longleftrightarrow> (\<exists>y. directories_canonical X ?rel children \<and> try_fold (spool_step X) (fst z, b) (visited X ?rel children) = Inr y \<and>
              directories_canonical X p es \<and> try_fold (spool_step X) y (visited X p es) = Inr z')"
          unfolding sub using r by blast
        finally show ?thesis
          using Inr DirNode True by (auto simp: spool_step_simps try_fold_append result_simps Let_def)
      next
        case False
        then show ?thesis using DirNode lim Inr vc by (simp add: Let_def)
      qed
    next
      case (FileNode m content)
      have "sb_limits (snd y) = sb_limits (snd z) \<and> Suc (sb_entries (snd z)) \<le> sb_entries (snd y)"
        if "spool_file X (fst z, b) ?rel content = Inr y" for y
        using that b by (auto simp: spool_file_Inr)
      then show ?thesis
        using FileNode lim Inr vc rest by (auto simp: Let_def spool_step_simps result_simps)
    qed (use lim Inr vc in \<open>auto simp: Let_def spool_step_simps\<close>)
  qed
qed simp

lemma spool_steps_Inr:
  "try_fold (spool_step X) (B, b) vs = Inr z \<longleftrightarrow>
   item_special vs = [] \<and> (vs \<noteq> [] \<longrightarrow> sb_entries b + length vs \<le> sl_entries (sb_limits b)) \<and>
   (item_files vs \<noteq> [] \<longrightarrow> file_bytes (item_files vs) \<le> sl_bytes (sb_limits b) - sb_bytes b) \<and>
   (\<exists>B'. try_fold (builder_push X) B (item_files vs) = Inr B' \<and>
     z = (B', b\<lparr>sb_entries := sb_entries b + length vs, sb_bytes := sb_bytes b + file_bytes (item_files vs)\<rparr>))"
proof (induction vs arbitrary: B b)
  case (Cons v vs)
  obtain p i where v: "v = (p, i)" by fastforce
  show ?case
    by (cases i) (auto simp: v spool_step_simps budget_entry_def Let_def result_simps spool_file_Inr Cons.IH split: if_splits)
qed auto

lemma visible_replay_Inr:
  assumes "visible_wf s"
  shows "visible_s4b_replay X s = Inr rep \<longleftrightarrow>
    visible_directories_canonical X s \<and> item_special (visible_items X s) = [] \<and>
    length (visible_items X s) \<le> MAX_CANONICAL_ENTRIES \<and>
    file_bytes (item_files (visible_items X s)) \<le> MAX_TOTAL_CANONICAL_BYTES \<and>
    spool_files X (item_files (visible_items X s)) = Inr rep"
proof -
  let ?L = DEFAULT_SCAN_LIMITS
  let ?z = "(replay_builder, \<lparr>sb_limits = ?L, sb_entries = 0, sb_bytes = 0\<rparr>) :: canonical_replay_builder \<times> scan_budget"
  have eq: "spool_visible_replay_directory X p (sl_entries ?L - sb_entries (snd z)) 0 d z = Inr z' \<longleftrightarrow>
      directories_canonical X p d \<and> try_fold (spool_step X) z (visited X p d) = Inr z'"
    if "dir_wf d" "sb_limits (snd z) = ?L" for p d z z'
    using that by (intro spool_directory_Inr) auto
  have "try_fold (\<lambda>z (d, p). spool_visible_replay_directory X p (sl_entries ?L - sb_entries (snd z)) 0 d z) z ds = Inr z' \<longleftrightarrow>
      (\<forall>(d, p)\<in>set ds. directories_canonical X p d) \<and> try_fold (spool_step X) z (concat (map (\<lambda>(d, p). visited X p d) ds)) = Inr z'"
    if "\<forall>(d, p)\<in>set ds. dir_wf d" "sb_limits (snd z) = ?L" for z z' ds
    using that
  proof (induction ds arbitrary: z)
    case (Cons dp ds)
    obtain d p where dp: "dp = (d, p)" by fastforce
    have "dir_wf d" using Cons.prems(1) dp by simp
    note one = eq[OF this Cons.prems(2), of p]
    have "try_fold (\<lambda>z (d, p). spool_visible_replay_directory X p (sl_entries ?L - sb_entries (snd z)) 0 d z) z (dp # ds) = Inr z' \<longleftrightarrow>
        (\<exists>y. (directories_canonical X p d \<and> try_fold (spool_step X) z (visited X p d) = Inr y) \<and>
          try_fold (\<lambda>z (d, p). spool_visible_replay_directory X p (sl_entries ?L - sb_entries (snd z)) 0 d z) y ds = Inr z')"
      by (simp add: dp rbind_Inr_iff one)
    also have "\<dots> \<longleftrightarrow> (\<exists>y. (directories_canonical X p d \<and> try_fold (spool_step X) z (visited X p d) = Inr y) \<and>
          (\<forall>(d, p)\<in>set ds. directories_canonical X p d) \<and>
          try_fold (spool_step X) y (concat (map (\<lambda>(d, p). visited X p d) ds)) = Inr z')"
    proof (intro ex_cong1 conj_cong refl)
      fix y assume "directories_canonical X p d \<and> try_fold (spool_step X) z (visited X p d) = Inr y"
      then have lim: "sb_limits (snd y) = ?L" using spool_steps_budget[of X z "visited X p d" y] Cons.prems(2) by simp
      have wf: "\<forall>(d, p)\<in>set ds. dir_wf d" using Cons.prems(1) unfolding list.set ball_simps by (rule conjunct2)
      show "try_fold (\<lambda>z (d, p). spool_visible_replay_directory X p (sl_entries ?L - sb_entries (snd z)) 0 d z) y ds = Inr z' \<longleftrightarrow>
        (\<forall>(d, p)\<in>set ds. directories_canonical X p d) \<and> try_fold (spool_step X) y (concat (map (\<lambda>(d, p). visited X p d) ds)) = Inr z'"
        by (rule Cons.IH[OF wf lim])
    qed
    finally show ?case by (auto simp: dp try_fold_append rbind_Inr_iff)
  qed simp
  note roots = this[of "[(batches_dir s, ''batches''), (events_dir s, ''events''), (journal_dir s, ''journal'')]" ?z]
  have wf: "\<forall>(d, p)\<in>set [(batches_dir s, ''batches''), (events_dir s, ''events''), (journal_dir s, ''journal'')]. dir_wf d"
    using assms by (simp add: visible_wf_def del: node_wf.simps)
  have items: "concat (map (\<lambda>(d, p). visited X p d) [(batches_dir s, ''batches''), (events_dir s, ''events''), (journal_dir s, ''journal'')]) =
      visible_items X s"
    by (simp add: visible_items_def)
  have dirs: "(\<forall>(d, p)\<in>set [(batches_dir s, ''batches''), (events_dir s, ''events''), (journal_dir s, ''journal'')]. directories_canonical X p d) \<longleftrightarrow>
      visible_directories_canonical X s"
    by (simp add: visible_directories_canonical_def)
  have eqv: "try_fold (\<lambda>z (d, p). spool_visible_replay_directory X p (sl_entries ?L - sb_entries (snd z)) 0 d z) ?z
      [(batches_dir s, ''batches''), (events_dir s, ''events''), (journal_dir s, ''journal'')] = Inr z' \<longleftrightarrow>
      visible_directories_canonical X s \<and> try_fold (spool_step X) ?z (visible_items X s) = Inr z'" for z'
    using roots[OF wf] unfolding items dirs by simp
  have steps: "try_fold (spool_step X) ?z (visible_items X s) = Inr z' \<longleftrightarrow>
      item_special (visible_items X s) = [] \<and> length (visible_items X s) \<le> MAX_CANONICAL_ENTRIES \<and>
      file_bytes (item_files (visible_items X s)) \<le> MAX_TOTAL_CANONICAL_BYTES \<and>
      (\<exists>B'. try_fold (builder_push X) replay_builder (item_files (visible_items X s)) = Inr B' \<and>
        z' = (B', \<lparr>sb_limits = ?L, sb_entries = length (visible_items X s), sb_bytes = file_bytes (item_files (visible_items X s))\<rparr>))" for z'
    unfolding spool_steps_Inr by (auto simp: DEFAULT_SCAN_LIMITS_def)
  show ?thesis
    unfolding visible_s4b_replay_def rbind_Inr_iff eqv steps spool_files_def by auto
qed

section \<open>Sizes of visible paths\<close>

lemma canonical_path_size:
  assumes "uuid_text_form X" "is_canonical (classify_path X p)"
  shows "length p \<le> 223"
proof -
  note u = uuid_text_size[OF assms(1)]
  consider "classify_path X p = LegacyEvent" | "classify_path X p = LegacyBatch" | "classify_path X p = JournalRecord"
    | "classify_path X p = JournalBatch"
    using assms(2) by (auto simp: is_canonical_def)
  then show ?thesis
  proof cases
    case 1
    then have "valid_legacy_event X p" by (simp add: classify_path_def split: if_splits)
    then show ?thesis using legacy_event_shape u by (fastforce simp: legacy_event_path_def)
  next
    case 2
    then have "valid_legacy_batch X p" by (simp add: classify_path_def split: if_splits)
    then show ?thesis using legacy_batch_shape u by (fastforce simp: legacy_batch_path_def)
  next
    case 3
    then show ?thesis using classify_JournalRecord_shape domain_size u by (fastforce simp: record_path_def)
  next
    case 4
    then show ?thesis using classify_JournalBatch_shape u by (fastforce simp: batch_path_def)
  qed
qed

lemma slash_after:
  assumes "q = p @ ''/'' @ name @ rest" "q = r @ ''/'' @ t" "length p < length r" "CHR ''/'' \<notin> set name"
  shows "length p + 1 + length name \<le> length r"
proof (rule ccontr)
  assume "\<not> ?thesis"
  then have i: "length r - length p - 1 < length name" using assms(3) by linarith
  have "q ! length r = CHR ''/''" using assms(2) by simp
  moreover have "q ! length r = name ! (length r - length p - 1)"
    using assms(1,3) i by (simp add: nth_append nth_Cons')
  ultimately show False using nth_mem[OF i] assms(4) by simp
qed

lemma visited_parents:
  "dir_wf es \<Longrightarrow> (q, i) \<in> set (visited X p es) \<Longrightarrow> q = r @ ''/'' @ t \<Longrightarrow> length p < length r \<Longrightarrow>
   r \<in> fst ` set (visited X p es)"
proof (induction X p es arbitrary: q i rule: visited.induct)
  case (2 X p name n es)
  have wf: "validate_component name = Inr ()" "node_wf n" "dir_wf es" using "2.prems"(1) by (auto simp: list_all_iff)
  then have plain: "CHR ''/'' \<notin> set name" using component_plain by blast
  let ?rel = "p @ ''/'' @ name"
  have direct: False if "q = ?rel"
    using slash_after[of q p name "[]" r t] arg_cong[OF "2.prems"(3), of length] that "2.prems"(3,4) plain by simp
  show ?case
  proof (cases "(q, i) \<in> set (visited X p es)")
    case True
    then show ?thesis using "2.IH"(2)[OF refl wf(3) True "2.prems"(3,4)] by (auto simp: visited_Cons simp del: visited.simps(2))
  next
    case False
    then have v: "(q, i) \<in> set (visit_entry X p name n)"
      using "2.prems"(2) by (simp add: visited_Cons del: visited.simps(2))
    then obtain children where n: "n = DirNode children" "valid_canonical_directory X ?rel" "(q, i) \<in> set (visited X ?rel children)"
      using direct by (cases n) (auto simp: visit_entry_simps split: if_splits)
    have sub: "?rel \<in> fst ` set (visit_entry X p name n)" "fst ` set (visited X ?rel children) \<subseteq> fst ` set (visit_entry X p name n)"
      using n by (auto simp: visit_entry_simps)
    have "r \<in> fst ` set (visit_entry X p name n)"
    proof (cases "length ?rel < length r")
      case True
      have "dir_wf children" using wf(2) n(1) by simp
      then show ?thesis using "2.IH"(1)[OF refl n(1,2) _ n(3) "2.prems"(3) True] sub(2) by blast
    next
      case False
      obtain m where "m \<in> fst ` set children" "below ?rel m q" using visited_below[OF n(3)] by blast
      then obtain u where u: "q = p @ ''/'' @ name @ ''/'' @ u" by (auto simp: below_def)
      have "length ?rel = length r" using slash_after[OF u "2.prems"(3,4) plain] False by simp
      then have "r = ?rel" using u "2.prems"(3) by (metis append.assoc append_eq_append_conv)
      then show ?thesis using sub(1) by simp
    qed
    then show ?thesis by (auto simp: visited_Cons simp del: visited.simps(2))
  qed
qed simp

lemma visible_entry_set:
  assumes "visible_wf s"
  shows "entry_set (rf_path ` set (item_files (visible_items X s))) \<subseteq> fst ` set (visible_items X s)"
proof -
  have fp: "rf_path f \<in> fst ` set vs" if "f \<in> set (item_files vs)" for f vs
    using that by (force simp: item_files_def split: visit_item.splits prod.splits)
  have "r \<in> fst ` set (visible_items X s)" if q: "q \<in> fst ` set (visible_items X s)" and r: "r \<in> parent_dirs q" for q r
  proof -
    obtain t where t: "q = r @ ''/'' @ t" "\<not> canonical_root r" using r by (auto simp: parent_dirs_def)
    have root: "r \<in> fst ` set (visited X p es)"
      if h: "q \<in> fst ` set (visited X p es)" "dir_wf es" "CHR ''/'' \<notin> set p" "canonical_root p" for p es
    proof -
      obtain i where i: "(q, i) \<in> set (visited X p es)" using h(1) by force
      obtain m where "below p m q" using visited_below[OF i] by blast
      then obtain u where u: "q = p @ ''/'' @ u" by (auto simp: below_def)
      have "length p < length r"
      proof (rule ccontr)
        assume "\<not> length p < length r"
        then consider "length r < length p" | "length r = length p" by linarith
        then show False
        proof cases
          case 1
          have "q ! length r = CHR ''/''" using t(1) by simp
          moreover have "q ! length r = p ! length r" using u 1 by (simp add: nth_append)
          ultimately show False using nth_mem[OF 1] h(3) by simp
        next
          case 2
          then have "r = p" using u t(1) by simp
          then show False using t(2) h(4) by simp
        qed
      qed
      then show ?thesis by (rule visited_parents[OF h(2) i t(1)])
    qed
    have c: "canonical_root ''batches''" "canonical_root ''events''" "canonical_root ''journal''" by (simp_all add: canonical_root_def)
    have wf: "dir_wf (batches_dir s)" "dir_wf (events_dir s)" "dir_wf (journal_dir s)"
      using assms by (simp_all add: visible_wf_def del: node_wf.simps)
    show ?thesis
      using q root[OF _ wf(1) _ c(1)] root[OF _ wf(2) _ c(2)] root[OF _ wf(3) _ c(3)]
      unfolding visible_items_def set_append image_Un Un_iff by auto
  qed
  then show ?thesis using fp unfolding entry_set_def by blast
qed

section \<open>Bounded and collecting validation\<close>

lemma scan_limits_agree: "spoolable X f \<longleftrightarrow>
    is_canonical (classify_path X (rf_path f)) \<and> length (rf_bytes f) \<le> scan_file_limit (classify_path X (rf_path f))"
  by (cases "classify_path X (rf_path f)")
    (simp_all add: spoolable_def canonical_file_limit_def scan_file_limit_def is_canonical_def)

lemma collect_visible_Inr:
  assumes "visible_wf s"
  shows "collect_visible X s = Inr (files, nonregular) \<longleftrightarrow>
    items_ok X DEFAULT_SCAN_LIMITS (visible_items X s) \<and> files = sort_key rf_path (item_files (visible_items X s)) \<and>
    nonregular = sort (item_special (visible_items X s))"
  using collect_visible_inventory_Inr[OF assms, of X DEFAULT_SCAN_LIMITS] by (auto simp: collect_visible_def rbind_Inr_iff)

lemma spooled_spoolable: "spool_files X fs = Inr rep \<Longrightarrow> \<forall>f\<in>set fs. spoolable X f"
  using builder_pushes_Inr[OF builder_holds_new, of X fs] by (auto simp: spool_files_def rbind_Inr_iff builder_holds_def)

lemma replay_collects:
  assumes "visible_wf s" "visible_s4b_replay X s = Inr rep"
  shows "spool_files X (item_files (visible_items X s)) = Inr rep"
    "scan_visible X C s = scan_collected X C (sort_key rf_path (item_files (visible_items X s))) []"
proof -
  let ?vs = "visible_items X s"
  have r: "item_special ?vs = []" "length ?vs \<le> MAX_CANONICAL_ENTRIES" "file_bytes (item_files ?vs) \<le> MAX_TOTAL_CANONICAL_BYTES"
      "spool_files X (item_files ?vs) = Inr rep"
    using assms(2) unfolding visible_replay_Inr[OF assms(1)] by blast+
  show "spool_files X (item_files ?vs) = Inr rep" by (fact r(4))
  have "items_ok X DEFAULT_SCAN_LIMITS ?vs"
    using r(1-3) spooled_spoolable[OF r(4)] by (auto simp: items_ok_def DEFAULT_SCAN_LIMITS_def scan_limits_agree)
  then have "collect_visible X s = Inr (sort_key rf_path (item_files ?vs), [])"
    unfolding collect_visible_Inr[OF assms(1)] using r(1) by simp
  then show "scan_visible X C s = scan_collected X C (sort_key rf_path (item_files ?vs)) []" by (simp add: scan_visible_def)
qed

lemma location_fact_size:
  assumes "uuid_text_form X" "is_canonical (classify_path X (rf_path f))"
  shows "fact_bytes (loc_fact (f, n)) \<le> 243"
  using canonical_path_size[OF assms] by (simp add: loc_fact_def fact_bytes_def location_bytes_def)

lemma scanned_replay:
  assumes "visible_wf s" "uuid_text_form X" "visible_directories_canonical X s" "scan_visible X C s = Inr snap"
    and "replay_bytes X (sc_registry C) (item_files (visible_items X s)) \<le> MAX_REPLAY_TEMPORARY_BYTES"
  shows "\<exists>rep. visible_s4b_replay X s = Inr rep"
proof -
  let ?vs = "visible_items X s" and ?R = "sc_registry C"
  let ?fs = "item_files ?vs"
  obtain files nonregular where c: "collect_visible X s = Inr (files, nonregular)" "scan_collected X C files nonregular = Inr snap"
    using assms(4) by (auto simp: scan_visible_def rbind_Inr_iff)
  have ok: "items_ok X DEFAULT_SCAN_LIMITS ?vs" and files: "files = sort_key rf_path ?fs" "nonregular = sort (item_special ?vs)"
    using c(1) unfolding collect_visible_Inr[OF assms(1)] by blast+
  have inv: "collect_visible_inventory X DEFAULT_SCAN_LIMITS s = Inr (files, nonregular, bs_of_list (map fst ?vs))"
    unfolding collect_visible_inventory_Inr[OF assms(1)] using ok files by simp
  have ord: "strictly_ordered (map rf_path (sort_key rf_path ?fs))"
    using collected_content[OF assms(1) inv] files(1) by blast
  have sc: "nonregular = []" "\<forall>f\<in>set files. is_ok (decode_visible_file X ?R f)"
    using c(2) unfolding scan_collected_Inr[OF ord[folded files(1)]] by blast+
  have can: "\<forall>f\<in>set ?fs. is_canonical (classify_path X (rf_path f))"
  proof
    fix f assume "f \<in> set ?fs"
    then have "is_ok (decode_visible_file X ?R f)" using sc(2) files(1) by simp
    then show "is_canonical (classify_path X (rf_path f))"
      by (cases "classify_path X (rf_path f)") (auto simp: decode_visible_file_def is_canonical_def)
  qed
  have lim: "length ?vs \<le> MAX_CANONICAL_ENTRIES" "file_bytes ?fs \<le> MAX_TOTAL_CANONICAL_BYTES" "\<forall>f\<in>set ?fs. spoolable X f"
    using ok can by (auto simp: items_ok_def DEFAULT_SCAN_LIMITS_def scan_limits_agree)
  have fit: "\<forall>x\<in>set (located 0 ?fs). fits (loc_fact x)"
  proof
    fix x assume x: "x \<in> set (located 0 ?fs)"
    then have "fst x \<in> set ?fs" using map_fst_located[of 0 ?fs] by (metis imageI list.set_map)
    then show "fits (loc_fact x)"
      using can location_fact_size[OF assms(2), of "fst x" "snd x"] by (fastforce simp: MAX_FACT_BYTES_def)
  qed
  have entries: "run_entry_budget MAX_CANONICAL_ENTRIES (map rf_path (sort_key rf_path ?fs)) \<noteq> None"
  proof -
    have "card (entry_set (rf_path ` set ?fs)) \<le> card (fst ` set ?vs)"
      using visible_entry_set[OF assms(1)] by (intro card_mono) simp_all
    also have "\<dots> \<le> length ?vs" by (metis card_length length_map list.set_map)
    finally show ?thesis
      using run_entry_budget_eq[of "map rf_path (sort_key rf_path ?fs)" X MAX_CANONICAL_ENTRIES] ord can lim(1)
      by (auto simp: order_simps)
  qed
  have "file_bytes ?fs + 2 * total_bytes (map loc_fact (located 0 ?fs)) \<le> MAX_REPLAY_TEMPORARY_BYTES"
    using assms(5) by (simp add: replay_bytes_def)
  from spool_files_ok[OF lim(3) fit lim(2) this ord entries] obtain rep where "spool_files X ?fs = Inr rep" by blast
  moreover have "item_special ?vs = []" using sc(1) files(2) by (metis length_0_conv length_sort)
  ultimately show ?thesis unfolding visible_replay_Inr[OF assms(1)] using assms(3) lim(1,2) by blast
qed

definition visible_conforms :: "ext \<Rightarrow> store_config \<Rightarrow> legacy_consumer \<Rightarrow> store_dirs \<Rightarrow> bool" where
  "visible_conforms X C V s \<longleftrightarrow>
     (let files = item_files (visible_items X s) in
      visible_wf s \<and> replay_laws X \<and> manifests_typed X (sc_registry C) files \<and>
      legacy_conforms C V (scanned_legacy X (sc_registry C) (sort_key rf_path files)))"

definition visible_replay_bytes :: "ext \<Rightarrow> store_config \<Rightarrow> store_dirs \<Rightarrow> nat" where
  "visible_replay_bytes X C s = replay_bytes X (sc_registry C) (item_files (visible_items X s))"

lemma visible_parity:
  assumes "visible_conforms X C V s"
  shows "visible_s4b_replay X s = Inr rep \<Longrightarrow> validate_bounded_replay_inner X C V rep query = Inr (st, sub) \<Longrightarrow>
      \<exists>snap. scan_visible X C s = Inr snap \<and>
        st = \<lparr>vs_revision = ss_revision snap, vs_identity = ss_identity snap\<rparr> \<and> sub = subject_fact query (ss_records snap)"
    and "scan_visible X C s = Inr snap \<Longrightarrow> visible_directories_canonical X s \<Longrightarrow>
      visible_replay_bytes X C s \<le> MAX_REPLAY_TEMPORARY_BYTES \<Longrightarrow>
      \<exists>rep. visible_s4b_replay X s = Inr rep \<and> validate_bounded_replay_inner X C V rep query =
        Inr (\<lparr>vs_revision = ss_revision snap, vs_identity = ss_identity snap\<rparr>, subject_fact query (ss_records snap))"
proof -
  let ?fs = "item_files (visible_items X s)"
  have h: "visible_wf s" "replay_laws X" "manifests_typed X (sc_registry C) ?fs"
      "legacy_conforms C V (scanned_legacy X (sc_registry C) (sort_key rf_path ?fs))"
    using assms by (simp_all add: visible_conforms_def Let_def)
  show "\<exists>snap. scan_visible X C s = Inr snap \<and>
        st = \<lparr>vs_revision = ss_revision snap, vs_identity = ss_identity snap\<rparr> \<and> sub = subject_fact query (ss_records snap)"
    if a: "visible_s4b_replay X s = Inr rep" "validate_bounded_replay_inner X C V rep query = Inr (st, sub)"
    using replay_parity(1)[OF h(2,3) replay_collects(1)[OF h(1) a(1)] h(4) a(2)] unfolding replay_collects(2)[OF h(1) a(1)] .
  show "\<exists>rep. visible_s4b_replay X s = Inr rep \<and> validate_bounded_replay_inner X C V rep query =
        Inr (\<lparr>vs_revision = ss_revision snap, vs_identity = ss_identity snap\<rparr>, subject_fact query (ss_records snap))"
    if a: "scan_visible X C s = Inr snap" "visible_directories_canonical X s" "visible_replay_bytes X C s \<le> MAX_REPLAY_TEMPORARY_BYTES"
  proof -
    have u: "uuid_text_form X" using h(2) by (simp add: replay_laws_def)
    obtain rep where rep: "visible_s4b_replay X s = Inr rep"
      using scanned_replay[OF h(1) u a(2,1)] a(3) by (auto simp: visible_replay_bytes_def)
    show ?thesis
      using replay_parity(2)[OF h(2,3) replay_collects(1)[OF h(1) rep] h(4) a(1)[unfolded replay_collects(2)[OF h(1) rep]]
        a(3)[unfolded visible_replay_bytes_def]] rep by blast
  qed
qed

text \<open>
  C14: The two validations of a store agree on its directories. Whenever the bounded validation accepts the
  visible directories, the collecting scan accepts them with the same revision and identity; whenever
  the scan accepts them, no directory is at a path that may not be descended into and the temporary
  files stay within their budget, the bounded validation accepts them with that revision and identity.
\<close>

theorem visible_validation_exact:
  assumes "visible_conforms X C V s"
  shows "(validate_visible_s4b X C V s = Inr st \<longrightarrow>
      (\<exists>snap. scan_visible X C s = Inr snap \<and> st = \<lparr>vs_revision = ss_revision snap, vs_identity = ss_identity snap\<rparr>)) \<and>
    (scan_visible X C s = Inr snap \<and> visible_directories_canonical X s \<and>
     visible_replay_bytes X C s \<le> MAX_REPLAY_TEMPORARY_BYTES \<longrightarrow>
      validate_visible_s4b X C V s = Inr \<lparr>vs_revision = ss_revision snap, vs_identity = ss_identity snap\<rparr>)"
  using visible_parity[OF assms]
  by (fastforce simp: validate_visible_s4b_def validate_bounded_replay_def rbind_Inr_iff)

lemma filter_unique: "distinct (map f xs) \<Longrightarrow> x \<in> set xs \<Longrightarrow> filter (\<lambda>y. f y = f x) xs = [x]"
proof (induction xs)
  case (Cons a xs)
  show ?case
  proof (cases "a = x")
    case True
    then have "\<forall>y\<in>set xs. f y \<noteq> f x" using Cons.prems(1) by (metis distinct.simps(2) image_eqI list.set_map list.simps(9))
    then show ?thesis using True by (simp add: filter_empty_conv)
  next
    case False
    then have "x \<in> set xs" "f a \<noteq> f x" using Cons.prems by (auto simp: image_iff)
    then show ?thesis using Cons.IH Cons.prems(1) by simp
  qed
qed simp

lemma subject_of_record:
  assumes "distinct (map r_id rs)"
  shows "subject_fact (Some rid) rs = Some \<lparr>vr_domain = d, vr_entity = e\<rparr> \<longleftrightarrow>
    (\<exists>r\<in>set rs. r_id r = rid \<and> r_domain r = d \<and> r_entity r = e)"
proof -
  have sel: "(\<lambda>q. Some rid = Some (r_id q)) = (\<lambda>q. r_id q = rid)" by auto
  show ?thesis
  proof (cases "\<exists>r\<in>set rs. r_id r = rid")
    case True
    then obtain r where r: "r \<in> set rs" "r_id r = rid" by blast
    note one = filter_unique[OF assms r(1), unfolded r(2)]
    have "\<forall>q. q \<in> set rs \<and> r_id q = rid \<longleftrightarrow> q = r"
      using arg_cong[OF one, of set] by auto
    then show ?thesis unfolding subject_fact_def sel one by auto
  next
    case False
    then have "filter (\<lambda>q. r_id q = rid) rs = []" by (simp add: filter_empty_conv)
    then show ?thesis using False unfolding subject_fact_def sel by auto
  qed
qed

lemma scan_visible_ids:
  assumes "visible_wf s" "scan_visible X C s = Inr snap"
  shows "distinct (map r_id (ss_records snap))"
proof -
  obtain files nonregular where c: "collect_visible X s = Inr (files, nonregular)" "scan_collected X C files nonregular = Inr snap"
    using assms(2) by (auto simp: scan_visible_def rbind_Inr_iff)
  have "collect_visible_inventory X DEFAULT_SCAN_LIMITS s = Inr (files, nonregular, bs_of_list (map fst (visible_items X s)))"
    using c(1) unfolding collect_visible_Inr[OF assms(1)] collect_visible_inventory_Inr[OF assms(1)] by simp
  then have ord: "strictly_ordered (map rf_path files)" using collected_content[OF assms(1)] by blast
  show ?thesis using c(2) unfolding scan_collected_Inr[OF ord] by (metis snapshot_of_def store_snapshot.select_convs(3))
qed

text \<open>What a presence proof asserts of the checkpoint, the snapshot and the subject.\<close>

definition proof_present ::
  "ext \<Rightarrow> store_config \<Rightarrow> store_dirs \<Rightarrow> checkpoint_error + admission_checkpoint option \<Rightarrow> qualified_entity_ref \<Rightarrow> record_id \<Rightarrow>
   admission_checkpoint \<Rightarrow> store_snapshot \<Rightarrow> store_identity \<Rightarrow> bool" where
  "proof_present X C s checkpoint subject rid c snap identity \<longleftrightarrow>
     checkpoint = Inr (Some c) \<and> scan_visible X C s = Inr snap \<and> ss_identity snap = Some identity \<and>
     ac_store c = si_logical identity \<and> ac_store c = qe_store subject \<and> ac_revision c = ss_revision snap \<and>
     (\<exists>r\<in>set (ss_records snap). r_id r = rid \<and> r_domain r = qe_domain subject \<and> r_entity r = qe_entity subject)"

text \<open>
  C15: A presence proof says what the store holds. It is made only when a durable checkpoint exists, the
  visible directories scan to a snapshot whose identity and revision are the checkpoint's and whose
  identity is the subject's store, and the snapshot holds a record of that identifier with the domain
  and entity of the subject; the proof then carries that revision, the checkpoint's trust binding and the
  identifier of its fields. It is made under these conditions when, moreover,
  no directory is at a path that may not be descended into and the temporary files of the bounded replay fit
  their budget.
\<close>

theorem verified_proof_exact:
  assumes "visible_conforms X C V s"
  shows "(verified_proof_locked X C V s checkpoint subject rid observed = Inr p \<longrightarrow>
      (\<exists>c snap identity. proof_present X C s checkpoint subject rid c snap identity \<and> p = from_checkpoint X subject rid (ss_revision snap) (ac_trust c) observed) \<and>
      vp_id p = recomputed_proof_id X p) \<and>
    (proof_present X C s checkpoint subject rid c snap identity \<and> visible_directories_canonical X s \<and> visible_replay_bytes X C s \<le> MAX_REPLAY_TEMPORARY_BYTES \<longrightarrow>
      verified_proof_locked X C V s checkpoint subject rid observed =
        Inr (from_checkpoint X subject rid (ss_revision snap) (ac_trust c) observed))"
proof (intro conjI impI; (elim conjE)?)
  have wf: "visible_wf s" using assms(1) by (simp add: visible_conforms_def Let_def)
  note subj = subject_of_record[OF scan_visible_ids[OF wf]]
  assume "verified_proof_locked X C V s checkpoint subject rid observed = Inr p"
  then obtain c st rs identity where v: "checkpoint = Inr (Some c)" "validate_visible_s4b_for_record X C V s rid = Inr (st, Some rs)"
      "vs_identity st = Some identity" "ac_store c = si_logical identity" "ac_store c = qe_store subject" "ac_revision c = vs_revision st"
      "vr_domain rs = qe_domain subject" "vr_entity rs = qe_entity subject"
      "p = from_checkpoint X subject rid (ac_revision c) (ac_trust c) observed"
    by (auto simp: verified_proof_locked_def rbind_Inr_iff map_err_Inr_iff ok_or_Inr_iff split: if_splits)
  obtain snap where snap: "scan_visible X C s = Inr snap" "st = \<lparr>vs_revision = ss_revision snap, vs_identity = ss_identity snap\<rparr>"
      "Some rs = subject_fact (Some rid) (ss_records snap)"
    using v(2) visible_parity(1)[OF assms(1)] by (fastforce simp: validate_visible_s4b_for_record_def validate_bounded_replay_for_record_def rbind_Inr_iff)
  have "rs = \<lparr>vr_domain = qe_domain subject, vr_entity = qe_entity subject\<rparr>" using v(7,8) by (cases rs) simp
  then have "\<exists>r\<in>set (ss_records snap). r_id r = rid \<and> r_domain r = qe_domain subject \<and> r_entity r = qe_entity subject"
    using snap(3) unfolding subj[OF snap(1), symmetric] by simp
  then have "proof_present X C s checkpoint subject rid c snap identity"
    using v snap by (simp add: proof_present_def)
  then show "\<exists>c snap identity. proof_present X C s checkpoint subject rid c snap identity \<and> p = from_checkpoint X subject rid (ss_revision snap) (ac_trust c) observed"
    using v(6,9) snap(2) by auto
  show "vp_id p = recomputed_proof_id X p" using v(9) by (simp add: from_checkpoint_def recomputed_proof_id_def)
next
  have wf: "visible_wf s" using assms(1) by (simp add: visible_conforms_def Let_def)
  assume a: "proof_present X C s checkpoint subject rid c snap identity" "visible_directories_canonical X s" "visible_replay_bytes X C s \<le> MAX_REPLAY_TEMPORARY_BYTES"
  have scan: "scan_visible X C s = Inr snap" using a(1) by (simp add: proof_present_def)
  obtain rep where rep: "visible_s4b_replay X s = Inr rep" "validate_bounded_replay_inner X C V rep (Some rid) =
        Inr (\<lparr>vs_revision = ss_revision snap, vs_identity = ss_identity snap\<rparr>, subject_fact (Some rid) (ss_records snap))"
    using visible_parity(2)[OF assms(1) scan a(2,3), of "Some rid"] by blast
  have "subject_fact (Some rid) (ss_records snap) = Some \<lparr>vr_domain = qe_domain subject, vr_entity = qe_entity subject\<rparr>"
    using a(1) unfolding subject_of_record[OF scan_visible_ids[OF wf scan]] by (simp add: proof_present_def)
  then show "verified_proof_locked X C V s checkpoint subject rid observed =
        Inr (from_checkpoint X subject rid (ss_revision snap) (ac_trust c) observed)"
    using a(1) rep by (auto simp: verified_proof_locked_def validate_visible_s4b_for_record_def validate_bounded_replay_for_record_def proof_present_def)
qed

end
