(* ===== verification/Wj_Exclusive.thy ===== *)
theory Wj_Exclusive
  imports Wj_Residue Wj_Gate Wj_Visible
begin

text \<open>
  The exclusive operation on a store (\<open>store/transaction.rs\<close>, \<open>store.rs\<close>): recovery behind the pending gate,
  observation, the retained snapshot, preview and append, and the entry points that start one. The locks
  make one operation run at a time, so the state of an operation includes the store.
\<close>

section \<open>A live store\<close>

record live_store =
  lv_tx :: tx_state
  lv_pending :: directory
  lv_checkpoints :: directory

abbreviation (input) lv_dirs :: "live_store \<Rightarrow> store_dirs" where "lv_dirs s \<equiv> tx_dirs (lv_tx s)"

text \<open>Cleanup of the pending directory, the gate, then the recovery of transactions.\<close>

definition recover_store ::
  "ext \<Rightarrow> (string \<Rightarrow> url option) \<Rightarrow> journal_ext \<Rightarrow> store_config \<Rightarrow> barrier \<Rightarrow> live_store \<Rightarrow> (gate_error + unit) \<times> live_store" where
  "recover_store X U J C bar s =
     (case clean_disposable_locked X U (lv_pending s) of
        (Inl e, d) \<Rightarrow> (Inl e, s\<lparr>lv_pending := d\<rparr>)
      | (Inr _, d) \<Rightarrow>
          (let s = s\<lparr>lv_pending := d\<rparr> in
           case gate_without_git X U (lv_dirs s) (lv_pending s) of
             Inl e \<Rightarrow> (Inl e, s)
           | Inr action \<Rightarrow>
               if action \<noteq> Allow then (Inl InvalidGitSyncState, s)
               else case recover_locked X J C bar (lv_tx s) of (r, t) \<Rightarrow> (map_err GateStore r, s\<lparr>lv_tx := t\<rparr>)))"

section \<open>The exclusive operation\<close>

datatype exclusive_error =
    RecoveryRequired
  | StateInvalidated
  | PendingCleanupRequired
  | InvalidRecoveryObservation
  | ExclusiveStore gate_error

record exclusive_operation =
  op_store :: live_store
  op_snapshot :: "store_snapshot option"
  op_recovered :: bool
  op_invalidated :: bool

definition begin_exclusive_operation :: "live_store \<Rightarrow> exclusive_operation" where
  "begin_exclusive_operation s = \<lparr>op_store = s, op_snapshot = None, op_recovered = False, op_invalidated = False\<rparr>"

definition operation_error_into_store :: "exclusive_error \<Rightarrow> gate_error" where
  "operation_error_into_store e = (case e of ExclusiveStore e \<Rightarrow> e | _ \<Rightarrow> InvalidGitSyncState)"

definition require_pending_allow ::
  "ext \<Rightarrow> (string \<Rightarrow> url option) \<Rightarrow> live_store \<Rightarrow> exclusive_error + unit" where
  "require_pending_allow X U s =
     rbind (map_err ExclusiveStore (gate_without_git X U (lv_dirs s) (lv_pending s))) (\<lambda>action.
     case action of Allow \<Rightarrow> Inr () | CleanDisposable \<Rightarrow> Inl PendingCleanupRequired)"

definition recover_without_snapshot_locked_with_barrier ::
  "ext \<Rightarrow> (string \<Rightarrow> url option) \<Rightarrow> journal_ext \<Rightarrow> store_config \<Rightarrow> barrier \<Rightarrow> exclusive_operation \<Rightarrow>
   (gate_error + unit) \<times> exclusive_operation" where
  "recover_without_snapshot_locked_with_barrier X U J C bar st =
     (case recover_store X U J C bar (op_store st) of
        (r, s) \<Rightarrow> (r, \<lparr>op_store = s, op_snapshot = None, op_recovered = False, op_invalidated = False\<rparr>))"

definition recover_locked_with_barrier ::
  "ext \<Rightarrow> (string \<Rightarrow> url option) \<Rightarrow> journal_ext \<Rightarrow> store_config \<Rightarrow> barrier \<Rightarrow> exclusive_operation \<Rightarrow>
   (gate_error + unit) \<times> exclusive_operation" where
  "recover_locked_with_barrier X U J C bar st =
     (case recover_without_snapshot_locked_with_barrier X U J C bar st of
        (Inl e, st) \<Rightarrow> (Inl e, st)
      | (Inr _, st) \<Rightarrow>
          (case scan_visible X C (lv_dirs (op_store st)) of
             Inl e \<Rightarrow> (Inl (GateStore e), st)
           | Inr snap \<Rightarrow> (Inr (), st\<lparr>op_snapshot := Some snap, op_recovered := True\<rparr>)))"

definition state_error :: "exclusive_operation \<Rightarrow> exclusive_error" where
  "state_error st = (if op_invalidated st then StateInvalidated else RecoveryRequired)"

definition invalidate :: "exclusive_operation \<Rightarrow> exclusive_operation" where
  "invalidate st = st\<lparr>op_snapshot := None, op_recovered := False, op_invalidated := True\<rparr>"

definition sanitize_recovery_observation_error :: "gate_error \<Rightarrow> exclusive_error" where
  "sanitize_recovery_observation_error e =
     (case e of GitSyncPending _ _ \<Rightarrow> ExclusiveStore e | ConflictingRecoveryState \<Rightarrow> ExclusiveStore e | _ \<Rightarrow> InvalidRecoveryObservation)"

definition observe_recovery_locked ::
  "ext \<Rightarrow> (string \<Rightarrow> url option) \<Rightarrow> exclusive_operation \<Rightarrow> exclusive_error + observed_recovery \<times> bool" where
  "observe_recovery_locked X U st =
     (if op_invalidated st then Inl (state_error st)
      else rbind (map_err sanitize_recovery_observation_error
             (gate_without_git X U (lv_dirs (op_store st)) (lv_pending (op_store st)))) (\<lambda>action.
      rbind (map_err (\<lambda>_. InvalidRecoveryObservation) (observe_transaction_recovery X (lv_dirs (op_store st)))) (\<lambda>observed.
      Inr (observed, action = CleanDisposable))))"

definition snapshot_locked :: "exclusive_operation \<Rightarrow> exclusive_error + store_snapshot" where
  "snapshot_locked st = (if \<not> op_recovered st then Inl (state_error st) else ok_or (state_error st) (op_snapshot st))"

definition preview_append_locked ::
  "ext \<Rightarrow> (string \<Rightarrow> url option) \<Rightarrow> store_config \<Rightarrow> prepared_batch \<Rightarrow> store_revision_ref \<Rightarrow> exclusive_operation \<Rightarrow>
   exclusive_error + append_preview" where
  "preview_append_locked X U C p expected st =
     (if \<not> op_recovered st then Inl (state_error st)
      else rbind (require_pending_allow X U (op_store st)) (\<lambda>_.
      rbind (ok_or (state_error st) (op_snapshot st)) (\<lambda>snap.
      map_err (\<lambda>e. ExclusiveStore (GateStore e)) (preview_from_snapshot X C (lv_dirs (op_store st)) snap p expected))))"

datatype commit_outcome =
    OutcomePublished batch_id store_revision_ref
  | OutcomeReplay batch_id store_revision_ref

definition append_locked_with_barrier ::
  "ext \<Rightarrow> (string \<Rightarrow> url option) \<Rightarrow> journal_ext \<Rightarrow> store_config \<Rightarrow> barrier \<Rightarrow> prepared_batch \<Rightarrow> store_revision_ref \<Rightarrow>
   exclusive_operation \<Rightarrow> (exclusive_error + commit_outcome \<times> store_snapshot) \<times> exclusive_operation" where
  "append_locked_with_barrier X U J C bar p expected st =
     (if \<not> op_recovered st then (Inl (state_error st), st)
      else case preview_append_locked X U C p expected st of
        Inl e \<Rightarrow> (Inl e, invalidate st)
      | Inr (PreviewReplay b revision) \<Rightarrow>
          (rbind (ok_or (state_error st) (op_snapshot st)) (\<lambda>snap. Inr (OutcomeReplay b revision, snap)), st)
      | Inr (PreviewPublish _) \<Rightarrow>
          (case require_pending_allow X U (op_store st) of
             Inl e \<Rightarrow> (Inl e, invalidate st)
           | Inr _ \<Rightarrow>
               (case publish_batch X J C bar p expected (lv_tx (op_store st)) of
                  (r, t) \<Rightarrow>
                    (let st = st\<lparr>op_store := (op_store st)\<lparr>lv_tx := t\<rparr>, op_snapshot := None\<rparr> in
                     case r of
                       Inl e \<Rightarrow> (Inl (ExclusiveStore (GateStore e)), invalidate st)
                     | Inr committed \<Rightarrow>
                         (Inr (OutcomePublished (bm_batch (pb_manifest p)) (ss_revision committed), committed),
                          st\<lparr>op_snapshot := Some committed\<rparr>)))))"

section \<open>Entry points\<close>

definition append_inner ::
  "ext \<Rightarrow> (string \<Rightarrow> url option) \<Rightarrow> journal_ext \<Rightarrow> store_config \<Rightarrow> barrier \<Rightarrow> prepared_batch \<Rightarrow> store_revision_ref \<Rightarrow>
   live_store \<Rightarrow> (gate_error + commit_outcome) \<times> live_store" where
  "append_inner X U J C bar p expected s =
     (case recover_locked_with_barrier X U J C bar (begin_exclusive_operation s) of
        (Inl e, st) \<Rightarrow> (Inl e, op_store st)
      | (Inr _, st) \<Rightarrow>
          (case append_locked_with_barrier X U J C bar p expected st of
             (r, st) \<Rightarrow> (map_err operation_error_into_store (rbind r (\<lambda>(outcome, _). Inr outcome)), op_store st)))"

definition exclusive_snapshot ::
  "ext \<Rightarrow> (string \<Rightarrow> url option) \<Rightarrow> journal_ext \<Rightarrow> store_config \<Rightarrow> live_store \<Rightarrow> (gate_error + unit) \<times> exclusive_operation" where
  "exclusive_snapshot X U J C s = recover_locked_with_barrier X U J C (\<lambda>_. False) (begin_exclusive_operation s)"

definition recover_operation ::
  "ext \<Rightarrow> (string \<Rightarrow> url option) \<Rightarrow> journal_ext \<Rightarrow> store_config \<Rightarrow> live_store \<Rightarrow> (gate_error + unit) \<times> live_store" where
  "recover_operation X U J C s =
     (case recover_without_snapshot_locked_with_barrier X U J C (\<lambda>_. False) (begin_exclusive_operation s) of
        (r, st) \<Rightarrow> (r, op_store st))"

text \<open>\<open>Store::read\<close> repeats until a shared look at the store finds nothing to recover.\<close>

definition needs_exclusive ::
  "ext \<Rightarrow> (string \<Rightarrow> url option) \<Rightarrow> live_store \<Rightarrow> gate_error + bool" where
  "needs_exclusive X U s =
     rbind (gate_without_git X U (lv_dirs s) (lv_pending s)) (\<lambda>action.
     case action of
       Allow \<Rightarrow> map_err GateStore (has_transaction_residue MAX_CANONICAL_ENTRIES (lv_dirs s))
     | CleanDisposable \<Rightarrow> Inr True)"

partial_function (option) store_read ::
  "ext \<Rightarrow> (string \<Rightarrow> url option) \<Rightarrow> journal_ext \<Rightarrow> store_config \<Rightarrow> live_store \<Rightarrow>
   ((gate_error + store_snapshot) \<times> live_store) option" where
  "store_read X U J C s =
     (case needs_exclusive X U s of
        Inl e \<Rightarrow> Some (Inl e, s)
      | Inr needs \<Rightarrow>
          if \<not> needs then Some (map_err GateStore (scan_visible X C (lv_dirs s)), s)
          else case recover_operation X U J C s of
            (Inl e, s) \<Rightarrow> Some (Inl e, s)
          | (Inr _, s) \<Rightarrow> store_read X U J C s)"

text \<open>
  \<open>Store::verified_proof\<close>: recovery behind the gate, the durable checkpoint, then the proof over the
  bounded validation of the store. The errors of the gate and those of the proof are kept apart.
\<close>

definition store_verified_proof ::
  "ext \<Rightarrow> (string \<Rightarrow> url option) \<Rightarrow> journal_ext \<Rightarrow> store_config \<Rightarrow> legacy_consumer \<Rightarrow> live_store \<Rightarrow>
   qualified_entity_ref \<Rightarrow> record_id \<Rightarrow> timestamp \<Rightarrow> ((gate_error + proof_error) + verified_proof) \<times> live_store" where
  "store_verified_proof X U J C V s subject rid observed =
     (case recover_store X U J C (\<lambda>_. False) s of
        (Inl e, s) \<Rightarrow> (Inl (Inl e), s)
      | (Inr _, s) \<Rightarrow>
          (case read_checkpoint X U (lv_checkpoints s) of
             (checkpoint, d) \<Rightarrow>
               (map_err Inr (verified_proof_locked X C V (lv_dirs s) checkpoint subject rid observed), s\<lparr>lv_checkpoints := d\<rparr>)))"

section \<open>What recovery leaves\<close>

definition live_wf :: "live_store \<Rightarrow> bool" where
  "live_wf s \<longleftrightarrow> residue_wf (lv_dirs s) \<and> bt_wf (lv_pending s)"

text \<open>No pending slot, no journal and no stage.\<close>

definition settled :: "live_store \<Rightarrow> bool" where
  "settled s \<longleftrightarrow> lv_pending s = [] \<and> residue [] [] (lv_dirs s)"

lemma gate_empty: "gate_without_git X U s [] = Inr Allow"
  by (simp add: gate_allow_iff)

lemma no_residue: "has_transaction_residue limit d = Inr False \<Longrightarrow> residue [] [] d"
  by (auto simp: has_transaction_residue_def bounded_names_def bt_keys_def residue_def rbind_Inr_iff split: if_splits)
    (metis length_0_conv length_map length_sort)+

lemma needs_exclusive_settled:
  assumes "live_wf s" "needs_exclusive X U s = Inr False"
  shows "settled s"
proof -
  obtain a where a: "gate_without_git X U (lv_dirs s) (lv_pending s) = Inr a" "a = Allow" "has_transaction_residue MAX_CANONICAL_ENTRIES (lv_dirs s) = Inr False"
    using assms(2) unfolding needs_exclusive_def rbind_Inr_iff
    by (elim exE conjE) (rename_tac a, case_tac a; simp add: map_err_Inr_iff)
  have "bt_wf (lv_pending s)" using assms(1) by (simp add: live_wf_def)
  from gate_allow_iff[OF this] have "lv_pending s = []" using a(1,2) by blast
  then show ?thesis using no_residue[OF a(3)] by (simp add: settled_def)
qed

lemma clean_slots_wf: "bt_wf d \<Longrightarrow> bt_wf (snd (clean_slots slots d))"
proof (induction slots d rule: clean_slots.induct)
  case (2 name slot slots d)
  then show ?case
    by (auto simp: bt_wf_insert bt_wf_remove unlink_dir_def bt_get_insert split: prod.splits option.splits)
qed simp

lemma clean_disposable_wf: "bt_wf d \<Longrightarrow> bt_wf (snd (clean_disposable_locked X U d))"
  by (auto simp: clean_disposable_locked_def clean_slots_wf split: sum.splits option.splits)

lemma recover_store_settled:
  assumes "live_wf s" "recover_store X U J C bar s = (r, t)"
  shows "live_wf t" "r = Inr () \<Longrightarrow> settled t"
proof -
  obtain c d where c: "clean_disposable_locked X U (lv_pending s) = (c, d)" by fastforce
  have d: "bt_wf d" using clean_disposable_wf[of "lv_pending s" X U] assms(1) c by (simp add: live_wf_def)
  have "live_wf t \<and> (r = Inr () \<longrightarrow> settled t)"
  proof (cases c)
    case (Inl e)
    then show ?thesis using assms c d by (auto simp: recover_store_def live_wf_def)
  next
    case (Inr u)
    then have "d = []" using clean_disposable_empties[of "lv_pending s" X U] assms(1) c by (simp add: live_wf_def)
    then show ?thesis
      using assms c Inr recover_locked_residue[of "lv_tx s" X J C bar]
      by (auto simp: recover_store_def gate_empty live_wf_def settled_def map_err_def split: prod.splits sum.splits)
  qed
  then show "live_wf t" "r = Inr () \<Longrightarrow> settled t" by simp_all
qed

section \<open>Publication leaves no residue\<close>

lemma runs_ex: "(\<And>x. runs (P x) m Q E) \<Longrightarrow> runs (\<lambda>d. \<exists>x. P x d) m Q E"
  by (simp add: runs_def) metis

lemma stage_batch_residue:
  "runs (residue [] []) (stage_batch X J bar p base)
     (\<lambda>_ d. \<exists>n es. residue [(journal_name X (bm_batch (pb_manifest p)), n)] [(uuid_to_string X (bm_batch (pb_manifest p)), DirNode es)] d)
     (\<lambda>_. residue_wf)"
proof -
  let ?name = "uuid_to_string X (bm_batch (pb_manifest p))" and ?j = "journal_name X (bm_batch (pb_manifest p))"
  define staged where "staged = (\<lambda>d. \<exists>es. residue [] [(?name, DirNode es)] d)"
  have wf: "residue_wf d" if "staged d" for d using that by (auto simp: staged_def residue_def residue_wf_def)
  have make: "runs (residue [] []) (on_stages (make_dir ?name)) (\<lambda>_. staged) (\<lambda>_. residue_wf)"
    unfolding on_stages_def
    by (rule runs_on_dir_cases)
      (auto simp: residue_def residue_wf_def staged_def make_dir_def ensure_dir_def rbind_Inr_iff split: sum.splits if_splits)
  have inside: "runs staged (on_stages (in_dir ?name f)) (\<lambda>_. staged) (\<lambda>_. residue_wf)" for f
    unfolding on_stages_def
    by (rule runs_on_dir_cases)
      (auto simp: residue_def residue_wf_def staged_def in_dir_def open_dir_def rbind_Inr_iff split: sum.splits)
  have hits: "runs staged (hit bar point) (\<lambda>_. staged) (\<lambda>_. residue_wf)" for point by (rule runs_hit_const) (rule wf)
  have recs: "runs staged (tx_mapM (\<lambda>(index, r). tx_then (on_stages (in_dir ?name (f index r))) (hit bar RecordFile)) rs) (\<lambda>_. staged)
      (\<lambda>_. residue_wf)" for f rs
    by (rule runs_mapM_const) (auto intro: runs_then[OF inside hits])
  have rd: "runs staged (tx_read (\<lambda>_. r)) (\<lambda>_. staged) (\<lambda>_. residue_wf)" for r :: "store_error + bytes"
    by (rule runs_read) (auto simp: wf split: sum.splits)
  have link: "runs staged (on_recovery (link_fd_no_clobber source ?j bs))
      (\<lambda>_ d. \<exists>n es. residue [(?j, n)] [(?name, DirNode es)] d) (\<lambda>_. residue_wf)" for source bs
    unfolding on_recovery_def
    by (rule runs_on_dir_cases)
      (auto simp: residue_def residue_wf_def staged_def link_fd_no_clobber_def rbind_Inr_iff split: sum.splits)
  have last: "runs (\<lambda>d. \<exists>n es. residue [(?j, n)] [(?name, DirNode es)] d) (hit bar JournalPublished)
      (\<lambda>_ d. \<exists>n es. residue [(?j, n)] [(?name, DirNode es)] d) (\<lambda>_. residue_wf)"
    by (rule runs_hit_const) (auto simp: residue_def residue_wf_def)
  show ?thesis
    unfolding stage_batch_def Let_def
    by (rule runs_then[OF make] runs_then[OF hits] runs_then[OF inside] runs_then[OF recs] runs_bind[OF rd] runs_then[OF link] last)+
qed

lemma publish_batch_residue:
  assumes "residue [] [] (tx_dirs s)" "publish_batch X J C bar p base s = (r, t)"
  shows "residue_wf (tx_dirs t)" "r = Inr committed \<Longrightarrow> residue [] [] (tx_dirs t) \<and> scan_visible X C (tx_dirs t) = Inr committed"
proof -
  let ?b = "bm_batch (pb_manifest p)"
  have one: "runs (\<lambda>d. \<exists>n es. residue [(journal_name X ?b, n)] [(uuid_to_string X ?b, DirNode es)] d) (recover_one X J C bar ?b)
      (\<lambda>_. residue [] []) (\<lambda>_. residue_wf)"
  proof (intro runs_ex)
    fix n es
    show "runs (residue [(journal_name X ?b, n)] [(uuid_to_string X ?b, DirNode es)]) (recover_one X J C bar ?b) (\<lambda>_. residue [] []) (\<lambda>_. residue_wf)"
      using recover_one_residue[of "[(journal_name X ?b, n)]" "[(uuid_to_string X ?b, DirNode es)]" "\<lambda>_. residue_wf" X J C bar ?b] by simp
  qed
  have rd: "runs (residue [] []) (tx_read (scan_visible X C)) (\<lambda>c d. residue [] [] d \<and> scan_visible X C d = Inr c) (\<lambda>_. residue_wf)"
    by (rule runs_read) (auto simp: residue_def residue_wf_def split: sum.splits)
  have "runs (residue [] []) (publish_batch X J C bar p base) (\<lambda>c d. residue [] [] d \<and> scan_visible X C d = Inr c) (\<lambda>_. residue_wf)"
    unfolding publish_batch_def by (rule runs_then[OF stage_batch_residue runs_then[OF one rd]])
  from runsD[OF this, of s] assms
  show "residue_wf (tx_dirs t)" "r = Inr committed \<Longrightarrow> residue [] [] (tx_dirs t) \<and> scan_visible X C (tx_dirs t) = Inr committed"
    by (auto simp: residue_def residue_wf_def split: sum.splits)
qed

section \<open>Reachable operations\<close>

text \<open>Observation, the snapshot and the preview do not change an operation; recovery and append do.\<close>

inductive op_reachable :: "ext \<Rightarrow> (string \<Rightarrow> url option) \<Rightarrow> journal_ext \<Rightarrow> store_config \<Rightarrow> exclusive_operation \<Rightarrow> bool"
  for X U J C where
  op_begin: "live_wf s \<Longrightarrow> op_reachable X U J C (begin_exclusive_operation s)"
| op_recover: "op_reachable X U J C st \<Longrightarrow> recover_locked_with_barrier X U J C bar st = (r, st') \<Longrightarrow> op_reachable X U J C st'"
| op_append: "op_reachable X U J C st \<Longrightarrow> append_locked_with_barrier X U J C bar p expected st = (r', st') \<Longrightarrow> op_reachable X U J C st'"

definition op_sound :: "ext \<Rightarrow> store_config \<Rightarrow> exclusive_operation \<Rightarrow> bool" where
  "op_sound X C st \<longleftrightarrow> live_wf (op_store st) \<and>
     (if op_recovered st
      then settled (op_store st) \<and> \<not> op_invalidated st \<and>
        (\<exists>snap. op_snapshot st = Some snap \<and> scan_visible X C (lv_dirs (op_store st)) = Inr snap)
      else op_snapshot st = None)"

lemma recover_sound:
  assumes "live_wf (op_store st)" "recover_locked_with_barrier X U J C bar st = (r, st')"
  shows "op_sound X C st'" "r = Inr () \<longleftrightarrow> op_recovered st'"
proof -
  obtain r1 s where r1: "recover_store X U J C bar (op_store st) = (r1, s)" by fastforce
  note s = recover_store_settled[OF assms(1) r1]
  show "op_sound X C st'" "r = Inr () \<longleftrightarrow> op_recovered st'"
    using assms(2) s by (auto simp: recover_locked_with_barrier_def recover_without_snapshot_locked_with_barrier_def r1 op_sound_def
        split: sum.splits)
qed

lemma append_sound:
  assumes "op_sound X C st" "append_locked_with_barrier X U J C bar p expected st = (r, st')"
  shows "op_sound X C st'"
proof (cases "op_recovered st")
  case True
  then obtain snap where st: "settled (op_store st)" "op_snapshot st = Some snap" "scan_visible X C (lv_dirs (op_store st)) = Inr snap"
      "live_wf (op_store st)"
    using assms(1) by (auto simp: op_sound_def)
  obtain pr t where t: "publish_batch X J C bar p expected (lv_tx (op_store st)) = (pr, t)" by fastforce
  note pub = publish_batch_residue[OF _ t]
  have inv: "op_sound X C (invalidate st)" using st(4) by (simp add: op_sound_def invalidate_def)
  have fail: "op_sound X C (invalidate (st\<lparr>op_store := (op_store st)\<lparr>lv_tx := t\<rparr>, op_snapshot := None\<rparr>))"
    using st(1,4) pub(1) by (simp add: op_sound_def invalidate_def live_wf_def settled_def)
  have ok: "op_sound X C (st\<lparr>op_store := (op_store st)\<lparr>lv_tx := t\<rparr>, op_snapshot := Some c\<rparr>)" if "pr = Inr c" for c
    using that st(1) pub(2)[of c] True assms(1) by (auto simp: op_sound_def settled_def live_wf_def residue_def residue_wf_def)
  show ?thesis
    using assms True st(2) inv fail ok
    by (auto simp: append_locked_with_barrier_def t Let_def split: sum.splits append_preview.splits)
qed (use assms in \<open>simp add: append_locked_with_barrier_def\<close>)

lemma reachable_sound: "op_reachable X U J C st \<Longrightarrow> op_sound X C st"
proof (induction rule: op_reachable.induct)
  case (op_begin s)
  then show ?case by (simp add: op_sound_def begin_exclusive_operation_def)
next
  case (op_recover st bar r st')
  then show ?case using recover_sound(1)[of st] by (simp add: op_sound_def)
next
  case (op_append st bar p expected r' st')
  show ?case by (rule append_sound[OF op_append.IH op_append.hyps(2)])
qed

text \<open>
  C3: The snapshot an exclusive operation retains is never stale. In every state reachable by recoveries and
  appends, however they fail or are stopped, a recovered operation has no pending slot, journal or stage
  left and hands out exactly the scan of its store; an operation that is not recovered hands out nothing:
  snapshot, preview and append report why and change nothing.
\<close>

theorem exclusive_state_sound:
  assumes "op_reachable X U J C st"
  shows "(op_recovered st \<longrightarrow> settled (op_store st) \<and>
      (\<exists>snap. snapshot_locked st = Inr snap \<and> scan_visible X C (lv_dirs (op_store st)) = Inr snap)) \<and>
    (\<not> op_recovered st \<longrightarrow> snapshot_locked st = Inl (state_error st) \<and>
      preview_append_locked X U C p expected st = Inl (state_error st) \<and>
      append_locked_with_barrier X U J C bar p expected st = (Inl (state_error st), st))"
  using reachable_sound[OF assms]
  by (auto simp: op_sound_def snapshot_locked_def preview_append_locked_def append_locked_with_barrier_def)

section \<open>Reading\<close>

text \<open>The loop of \<open>Store::read\<close> with at most \<open>n\<close> recoveries; \<open>None\<close> when one more would be needed.\<close>

fun read_within ::
  "nat \<Rightarrow> ext \<Rightarrow> (string \<Rightarrow> url option) \<Rightarrow> journal_ext \<Rightarrow> store_config \<Rightarrow> live_store \<Rightarrow>
   ((gate_error + store_snapshot) \<times> live_store) option" where
  "read_within n X U J C s =
     (case needs_exclusive X U s of
        Inl e \<Rightarrow> Some (Inl e, s)
      | Inr needs \<Rightarrow>
          if \<not> needs then Some (map_err GateStore (scan_visible X C (lv_dirs s)), s)
          else case n of
            0 \<Rightarrow> None
          | Suc m \<Rightarrow>
              (case recover_operation X U J C s of
                 (Inl e, s) \<Rightarrow> Some (Inl e, s)
               | (Inr _, s) \<Rightarrow> read_within m X U J C s))"

declare read_within.simps [simp del]

lemma read_within_read: "read_within n X U J C s = Some x \<Longrightarrow> store_read X U J C s = Some x"
proof (induction n X U J C s rule: read_within.induct)
  case (1 n X U J C s)
  from "1.prems" show ?case
    by (subst (asm) read_within.simps, subst store_read.simps)
      (auto split: sum.splits if_splits nat.splits prod.splits dest: "1.IH")
qed

lemma settled_read:
  assumes "settled s"
  shows "read_within n X U J C s = Some (map_err GateStore (scan_visible X C (lv_dirs s)), s)"
  using assms unfolding settled_def residue_def
  by (subst read_within.simps) (simp add: needs_exclusive_def gate_empty has_transaction_residue_def bounded_names_def bt_keys_def)

lemma recover_operation_settled:
  assumes "live_wf s" "recover_operation X U J C s = (r, t)"
  shows "live_wf t" "r = Inr () \<Longrightarrow> settled t"
  using assms recover_store_settled[OF assms(1)]
  by (auto simp: recover_operation_def recover_without_snapshot_locked_with_barrier_def begin_exclusive_operation_def split: prod.splits)

text \<open>
  C4: Reading a store ends. The loop of \<open>Store::read\<close> returns for every store, and the loop that may
  recover only once returns the same: at most one recovery is made. When it returns a snapshot, no pending slot, journal or stage is left and the snapshot is the scan of the store.
\<close>

theorem store_read_returns:
  assumes "live_wf s"
  shows "\<exists>r t. store_read X U J C s = Some (r, t) \<and> read_within 1 X U J C s = Some (r, t) \<and> live_wf t \<and>
    (\<forall>snap. r = Inr snap \<longrightarrow> settled t \<and> scan_visible X C (lv_dirs t) = Inr snap)"
proof -
  obtain r t where one: "read_within 1 X U J C s = Some (r, t)" "live_wf t" "\<And>snap. r = Inr snap \<Longrightarrow> settled t \<and> scan_visible X C (lv_dirs t) = Inr snap"
  proof (cases "needs_exclusive X U s")
    case (Inl e)
    with assms show ?thesis by (intro that[of "Inl e" s]) (simp_all add: read_within.simps[of "Suc 0"])
  next
    case (Inr needs)
    show ?thesis
    proof (cases needs)
      case False
      then have "settled s" using needs_exclusive_settled[OF assms, of X U] Inr by simp
      then show ?thesis using assms by (intro that[OF settled_read]) (auto simp: map_err_Inr_iff)
    next
      case True
      obtain r t where r: "recover_operation X U J C s = (r, t)" by fastforce
      note t = recover_operation_settled[OF assms r]
      have step: "read_within 1 X U J C s = (case r of Inl e \<Rightarrow> Some (Inl e, t) | Inr _ \<Rightarrow> read_within 0 X U J C t)"
        using Inr True r by (subst read_within.simps) (simp split: sum.splits)
      show ?thesis
      proof (cases r)
        case (Inl e)
        then show ?thesis using step t by (intro that[of "Inl e" t]) simp_all
      next
        case (Inr u)
        then have "settled t" using t by simp
        then show ?thesis using step Inr t by (intro that[of "map_err GateStore (scan_visible X C (lv_dirs t))" t]) (auto simp: settled_read map_err_Inr_iff)
      qed
    qed
  qed
  then show ?thesis using read_within_read[OF one(1)] by auto
qed

end
