(* ===== verification/Wj_Cache.thy ===== *)
theory Wj_Cache
  imports Wj_Exclusive
begin

text \<open>
  The proof cache (\<open>proof_cache.rs\<close>): cache entries and their codec, the entries of a cache root, the
  dependency authorities and the three operations. The cache root is a directory; the checks that the path
  still names the retained root are one flag, constant while an operation runs. Owner, device and link
  count of an entry are metadata of the host: the model checks the mode.
\<close>

section \<open>Entries\<close>

definition PROJECTION_CACHE_ENTRY_SCHEMA_V1 :: string where
  "PROJECTION_CACHE_ENTRY_SCHEMA_V1 = ''wayjournal.projection-cache-entry/v1''"
definition MAX_PROOF_CACHE_ENTRY_BYTES :: nat where "MAX_PROOF_CACHE_ENTRY_BYTES = 64 * 1024"
definition MAX_PROOF_CACHE_ENTRIES :: nat where "MAX_PROOF_CACHE_ENTRIES = 16384"
definition MAX_PROOF_CACHE_TOTAL_BYTES :: nat where "MAX_PROOF_CACHE_TOTAL_BYTES = 256 * 1024 * 1024"
definition FINAL_SUFFIX :: string where "FINAL_SUFFIX = ''.json''"
definition TEMP_PREFIX :: string where "TEMP_PREFIX = ''.wayjournal-cache-tmp-''"

datatype proof_cache_error =
    InvalidPath string
  | PcIo store_error
  | InvalidRoot
  | PcReset
  | TooManyAuthorities
  | InvalidAuthorityOrder
  | AliasedAuthorityRoots
  | CacheAuthorityAlias
  | AuthorityUnavailable
  | InvalidSourceDependency
  | StaleProof
  | PcEntryTooLarge
  | PcInvalidLayout

record cache_entry =
  ce_dependencies :: revision_vector
  ce_proof :: verified_proof

text \<open>\<open>serde_json::from_slice\<close> of a \<open>Value\<close>: floats are kept, a repeated key replaces the earlier one.\<close>

function (sequential) value_visit :: "raw_json \<Rightarrow> visit_error + json"
  and value_map :: "(string, json) btree \<Rightarrow> (string \<times> raw_json) list \<Rightarrow> string option \<Rightarrow> visit_error + json"
where
  "value_visit RNull = Inr JNull"
| "value_visit (RBool b) = Inr (JBool b)"
| "value_visit (RI64 i) = Inr (visit_i64 i)"
| "value_visit (RU64 n) = Inr (JNumber (PosInt n))"
| "value_visit (RF64 s) = Inr (JNumber (FloatNum s))"
| "value_visit (RString s) = Inr (JString s)"
| "value_visit (RArray rs fin) =
     rbind (try_map value_visit rs) (\<lambda>vs. case fin of None \<Rightarrow> Inr (JArray vs) | Some m \<Rightarrow> Inl (VSyntax m))"
| "value_visit (RObject krs fin) = value_map [] krs fin"
| "value_visit (RFail m) = Inl (VSyntax m)"
| "value_map acc [] fin = (case fin of None \<Rightarrow> Inr (JObject acc) | Some m \<Rightarrow> Inl (VSyntax m))"
| "value_map acc ((k, r) # krs) fin = rbind (value_visit r) (\<lambda>v. value_map (bt_insert k v acc) krs fin)"
  by pat_completeness auto
termination
  by (relation "measure (\<lambda>x. case x of Inl r \<Rightarrow> 2 * size r
      | Inr (acc, krs, fin) \<Rightarrow> Suc (2 * size_list (\<lambda>kr. Suc (size (snd kr))) krs))")
    (auto simp: size_prod_simp less_Suc_eq_le dest: raw_size_in_list)

definition from_slice_value :: "ext \<Rightarrow> bytes \<Rightarrow> visit_error + json" where
  "from_slice_value X bs =
     (let (raw, fin) = json_read X bs in
      rbind (value_visit raw) (\<lambda>v. case fin of None \<Rightarrow> Inr v | Some m \<Rightarrow> Inl (VSyntax m)))"

definition validate_source_dependency :: "revision_vector \<Rightarrow> verified_proof \<Rightarrow> proof_cache_error + unit" where
  "validate_source_dependency deps p =
     (case filter (\<lambda>e. rve_store e = qe_store (vp_subject p)) (rv_entries deps) of
        [] \<Rightarrow> Inl InvalidSourceDependency
      | source # rest \<Rightarrow> if rest \<noteq> [] \<or> rve_revision source \<noteq> vp_revision p then Inl InvalidSourceDependency else Inr ())"

definition validate_current_source_dependency :: "revision_vector \<Rightarrow> verified_proof \<Rightarrow> proof_cache_error + unit" where
  "validate_current_source_dependency deps p =
     rbind (ok_or InvalidSourceDependency (find (\<lambda>e. rve_store e = qe_store (vp_subject p)) (rv_entries deps))) (\<lambda>source.
     if rve_revision source \<noteq> vp_revision p then Inl StaleProof else Inr ())"

definition cache_entry_value :: "json \<Rightarrow> json \<Rightarrow> json" where
  "cache_entry_value deps p =
     JObject (bt_of_list [(''dependencies'', deps), (''proof'', p), (''schema'', JString PROJECTION_CACHE_ENTRY_SCHEMA_V1)])"

definition encode_cache_entry :: "ext \<Rightarrow> revision_vector \<Rightarrow> verified_proof \<Rightarrow> proof_cache_error + bytes" where
  "encode_cache_entry X deps p =
     rbind (validate_source_dependency deps p) (\<lambda>_.
     rbind (map_err (\<lambda>_. PcInvalidLayout) (encode_revision_vector X deps)) (\<lambda>db.
     rbind (map_err (\<lambda>_. PcInvalidLayout) (from_slice_value X db)) (\<lambda>dv.
     rbind (map_err (\<lambda>_. PcInvalidLayout) (encode_verified_proof X p)) (\<lambda>pb.
     rbind (map_err (\<lambda>_. PcInvalidLayout) (from_slice_value X pb)) (\<lambda>pv.
     rbind (map_err (\<lambda>_. PcInvalidLayout) (encode_pretty X (cache_entry_value dv pv))) (\<lambda>bs.
     if MAX_PROOF_CACHE_ENTRY_BYTES < length bs then Inl PcEntryTooLarge else Inr bs))))))"

text \<open>The part of \<open>decode_cache_entry\<close> after the shape of the root is checked.\<close>

definition decode_entry_members :: "ext \<Rightarrow> bytes \<Rightarrow> json \<Rightarrow> json \<Rightarrow> proof_cache_error + cache_entry" where
  "decode_entry_members X bs dv pv =
     rbind (map_err (\<lambda>_. PcInvalidLayout) (encode_pretty X dv)) (\<lambda>db.
     rbind (map_err (\<lambda>_. PcInvalidLayout) (encode_pretty X pv)) (\<lambda>pb.
     rbind (map_err (\<lambda>_. PcInvalidLayout) (decode_revision_vector X db)) (\<lambda>deps.
     rbind (map_err (\<lambda>_. PcInvalidLayout) (decode_verified_proof X pb)) (\<lambda>p.
     rbind (validate_source_dependency deps p) (\<lambda>_.
     rbind (encode_cache_entry X deps p) (\<lambda>again.
     if again \<noteq> bs then Inl PcInvalidLayout else Inr \<lparr>ce_dependencies = deps, ce_proof = p\<rparr>))))))"

definition decode_cache_entry :: "ext \<Rightarrow> bytes \<Rightarrow> proof_cache_error + cache_entry" where
  "decode_cache_entry X bs =
     (if MAX_PROOF_CACHE_ENTRY_BYTES < length bs then Inl PcEntryTooLarge
      else rbind (map_err (\<lambda>_. PcInvalidLayout) (decode_strict X bs)) (\<lambda>v.
      case v of
        JObject kvs \<Rightarrow>
          if length kvs \<noteq> 3 then Inl PcInvalidLayout
          else (case (bt_get kvs ''dependencies'', bt_get kvs ''proof'') of
                  (Some dv, Some pv) \<Rightarrow>
                    if bt_get kvs ''schema'' \<noteq> Some (JString PROJECTION_CACHE_ENTRY_SCHEMA_V1) then Inl PcInvalidLayout
                    else decode_entry_members X bs dv pv
                | _ \<Rightarrow> Inl PcInvalidLayout)
      | _ \<Rightarrow> Inl PcInvalidLayout))"

section \<open>The cache root\<close>

definition checked_total_bytes :: "nat \<Rightarrow> nat \<Rightarrow> proof_cache_error + nat" where
  "checked_total_bytes current addition =
     (if 2 ^ 64 \<le> current + addition then Inl PcInvalidLayout
      else if MAX_PROOF_CACHE_TOTAL_BYTES < current + addition then Inl PcInvalidLayout
      else Inr (current + addition))"

definition require_secure_entry :: "nat \<times> bytes \<Rightarrow> proof_cache_error + nat" where
  "require_secure_entry f = (if fst f mod 4096 \<noteq> private_mode then Inl PcInvalidLayout else Inr (length (snd f)))"

definition visit_cache_entry ::
  "ext \<Rightarrow> directory \<Rightarrow> string \<Rightarrow> nat \<Rightarrow> proof_cache_error + (proof_id \<times> bytes \<times> cache_entry) \<times> nat" where
  "visit_cache_entry X root name used =
     (if \<not> is_str name then Inl PcInvalidLayout
      else rbind (ok_or PcInvalidLayout (strip_suffix name FINAL_SUFFIX)) (\<lambda>stem.
      if length stem \<noteq> 64 then Inl PcInvalidLayout
      else rbind (map_err (\<lambda>_. PcInvalidLayout) (proof_id_parse X stem)) (\<lambda>pid.
      rbind (map_err (\<lambda>_. PcInvalidLayout) (open_file root name)) (\<lambda>f.
      rbind (require_secure_entry f) (\<lambda>size.
      if MAX_PROOF_CACHE_ENTRY_BYTES < size then Inl PcEntryTooLarge
      else rbind (checked_total_bytes used size) (\<lambda>used.
      let bs = take (MAX_PROOF_CACHE_ENTRY_BYTES + 1) (snd f) in
      if length bs \<noteq> size then Inl PcInvalidLayout
      else rbind (decode_cache_entry X bs) (\<lambda>entry.
      if vp_id (ce_proof entry) \<noteq> pid then Inl PcInvalidLayout
      else Inr ((pid, bs, entry), used))))))))"

fun visit_names ::
  "ext \<Rightarrow> directory \<Rightarrow> string list \<Rightarrow> nat \<Rightarrow> proof_cache_error + (proof_id \<times> bytes \<times> cache_entry) list \<times> nat" where
  "visit_names X root [] used = Inr ([], used)"
| "visit_names X root (name # names) used =
     rbind (visit_cache_entry X root name used) (\<lambda>(e, used).
     rbind (visit_names X root names used) (\<lambda>(es, used).
     Inr (e # es, used)))"

text \<open>
  \<open>visit_entries\<close> with the entries it hands to the visitor, in order: the visitors of the source only
  collect and never fail.
\<close>

definition visit_entries :: "ext \<Rightarrow> directory \<Rightarrow> proof_cache_error + (proof_id \<times> bytes \<times> cache_entry) list \<times> nat" where
  "visit_entries X root =
     rbind (map_err (\<lambda>_. PcInvalidLayout) (bounded_names root (MAX_PROOF_CACHE_ENTRIES + 1))) (\<lambda>names.
     if MAX_PROOF_CACHE_ENTRIES < length names then Inl PcInvalidLayout
     else visit_names X root names 0)"

text \<open>The last entry with an identifier that a collecting visitor keeps.\<close>

definition requested_entry :: "proof_id \<Rightarrow> (proof_id \<times> bytes \<times> cache_entry) list \<Rightarrow> (bytes \<times> cache_entry) option" where
  "requested_entry pid es = map_option snd (find (\<lambda>e. fst e = pid) (rev es))"

definition is_private_temporary :: "ext \<Rightarrow> string \<Rightarrow> bool" where
  "is_private_temporary X name =
     (case strip_prefix name TEMP_PREFIX of None \<Rightarrow> False | Some suffix \<Rightarrow> is_str suffix \<and> uuid_parse_str X suffix \<noteq> None)"

fun remove_temporaries :: "ext \<Rightarrow> string list \<Rightarrow> directory \<Rightarrow> (proof_cache_error + unit) \<times> directory" where
  "remove_temporaries X [] root = (Inr (), root)"
| "remove_temporaries X (name # names) root =
     (if is_private_temporary X name
      then case unlink_file root name of Inl _ \<Rightarrow> (Inl PcInvalidLayout, root) | Inr root \<Rightarrow> remove_temporaries X names root
      else remove_temporaries X names root)"

definition cleanup_temporaries :: "ext \<Rightarrow> directory \<Rightarrow> (proof_cache_error + unit) \<times> directory" where
  "cleanup_temporaries X root =
     (case bounded_names root (MAX_PROOF_CACHE_ENTRIES + 1) of
        Inl _ \<Rightarrow> (Inl PcInvalidLayout, root)
      | Inr names \<Rightarrow> remove_temporaries X names root)"

definition final_name :: "ext \<Rightarrow> proof_id \<Rightarrow> string" where
  "final_name X pid = digest_to_string X pid @ FINAL_SUFFIX"

section \<open>Authorities\<close>

record dependency_store =
  ds_expected :: logical_store_id
  ds_identity :: "nat \<times> nat"
  ds_config :: store_config
  ds_legacy :: legacy_consumer
  ds_store :: live_store

record proof_cache =
  pc_root :: directory
  pc_identity :: "nat \<times> nat"
  pc_bound :: bool

fun check_physical :: "nat \<times> nat \<Rightarrow> (nat \<times> nat) set \<Rightarrow> dependency_store list \<Rightarrow> proof_cache_error + unit" where
  "check_physical cache physical [] = Inr ()"
| "check_physical cache physical (a # as) =
     (if ds_identity a = cache then Inl CacheAuthorityAlias
      else if ds_identity a \<in> physical then Inl AliasedAuthorityRoots
      else check_physical cache (insert (ds_identity a) physical) as)"

definition validate_authority_inputs :: "proof_cache \<Rightarrow> dependency_store list \<Rightarrow> proof_cache_error + unit" where
  "validate_authority_inputs c as =
     (if MAX_VECTOR_STORES < length as then Inl TooManyAuthorities
      else if \<not> strictly_ordered (map ds_expected as) then Inl InvalidAuthorityOrder
      else check_physical (pc_identity c) {} as)"

text \<open>A fallible step on each store in order; a failure leaves the later ones as they were.\<close>

fun each_store :: "('s \<Rightarrow> ('e + 'a) \<times> 's) \<Rightarrow> 's list \<Rightarrow> ('e + 'a list) \<times> 's list" where
  "each_store f [] = (Inr [], [])"
| "each_store f (s # ss) =
     (case f s of
        (Inl e, s) \<Rightarrow> (Inl e, s # ss)
      | (Inr x, s) \<Rightarrow> (case each_store f ss of (r, ss) \<Rightarrow> (rbind r (\<lambda>xs. Inr (x # xs)), s # ss)))"

definition lock_authority ::
  "ext \<Rightarrow> (string \<Rightarrow> url option) \<Rightarrow> journal_ext \<Rightarrow> dependency_store \<Rightarrow> (proof_cache_error + unit) \<times> dependency_store" where
  "lock_authority X U J a =
     (case recover_store X U J (ds_config a) (\<lambda>_. False) (ds_store a) of
        (r, s) \<Rightarrow> (map_err (\<lambda>_. AuthorityUnavailable) r, a\<lparr>ds_store := s\<rparr>))"

definition authority_entry ::
  "ext \<Rightarrow> dependency_store \<Rightarrow> checkpoint_error + admission_checkpoint option \<Rightarrow> proof_cache_error + revision_vector_entry" where
  "authority_entry X a checkpoint =
     rbind (map_err (\<lambda>_. AuthorityUnavailable) checkpoint) (\<lambda>c.
     rbind (ok_or AuthorityUnavailable c) (\<lambda>c.
     rbind (map_err (\<lambda>_. AuthorityUnavailable) (validate_visible_s4b X (ds_config a) (ds_legacy a) (lv_dirs (ds_store a)))) (\<lambda>snapshot.
     rbind (ok_or AuthorityUnavailable (vs_identity snapshot)) (\<lambda>identity.
     if ac_store c \<noteq> ds_expected a \<or> si_logical identity \<noteq> ds_expected a \<or> ac_store c \<noteq> si_logical identity
     then Inl AuthorityUnavailable
     else if ac_revision c \<noteq> vs_revision snapshot then Inl AuthorityUnavailable
     else Inr \<lparr>rve_store = ds_expected a, rve_revision = ac_revision c\<rparr>))))"

definition resolve_authority ::
  "ext \<Rightarrow> (string \<Rightarrow> url option) \<Rightarrow> dependency_store \<Rightarrow> (proof_cache_error + revision_vector_entry) \<times> dependency_store" where
  "resolve_authority X U a =
     (case read_checkpoint X U (lv_checkpoints (ds_store a)) of
        (checkpoint, d) \<Rightarrow> (authority_entry X a checkpoint, a\<lparr>ds_store := (ds_store a)\<lparr>lv_checkpoints := d\<rparr>\<rparr>))"

definition lock_authorities ::
  "ext \<Rightarrow> (string \<Rightarrow> url option) \<Rightarrow> journal_ext \<Rightarrow> dependency_store list \<Rightarrow> (proof_cache_error + revision_vector) \<times> dependency_store list" where
  "lock_authorities X U J as =
     (case each_store (lock_authority X U J) as of
        (Inl e, as) \<Rightarrow> (Inl e, as)
      | (Inr _, as) \<Rightarrow>
          (case each_store (resolve_authority X U) as of
             (r, as) \<Rightarrow> (rbind r (\<lambda>entries. map_err (\<lambda>_. AuthorityUnavailable) (revision_vector_new entries)), as)))"

definition same_dependency_stores :: "revision_vector \<Rightarrow> revision_vector \<Rightarrow> bool" where
  "same_dependency_stores left right \<longleftrightarrow>
     length (rv_entries left) = length (rv_entries right) \<and>
     list_all (\<lambda>(l, r). rve_store l = rve_store r) (zip (rv_entries left) (rv_entries right))"

section \<open>Operations\<close>

datatype proof_cache_lookup = Hit verified_proof | Miss | Stale | LookupReset | LookupUnavailable
datatype proof_cache_insert = Inserted | AlreadyPresent
datatype proof_cache_disposition = Unchanged | Invalidated | DispositionReset | DispositionUnavailable
datatype operation_start = StartReset | StartUnavailable

definition begin_operation :: "ext \<Rightarrow> proof_cache \<Rightarrow> (operation_start + unit) \<times> proof_cache" where
  "begin_operation X c =
     (if \<not> pc_bound c then (Inl StartReset, c)
      else case cleanup_temporaries X (pc_root c) of
        (r, root) \<Rightarrow> (map_err (\<lambda>_. StartUnavailable) r, c\<lparr>pc_root := root\<rparr>))"

definition decide_lookup :: "proof_id \<Rightarrow> revision_vector \<Rightarrow> (proof_id \<times> bytes \<times> cache_entry) list \<Rightarrow> proof_cache_lookup" where
  "decide_lookup pid fresh es =
     (case requested_entry pid es of
        None \<Rightarrow> Miss
      | Some (_, entry) \<Rightarrow>
          if \<not> same_dependency_stores (ce_dependencies entry) fresh then LookupUnavailable
          else if ce_dependencies entry \<noteq> fresh then Stale
          else Hit (ce_proof entry))"

definition cache_lookup ::
  "ext \<Rightarrow> (string \<Rightarrow> url option) \<Rightarrow> journal_ext \<Rightarrow> proof_id \<Rightarrow> proof_cache \<Rightarrow> dependency_store list \<Rightarrow>
   (proof_cache_error + proof_cache_lookup) \<times> proof_cache \<times> dependency_store list" where
  "cache_lookup X U J pid c as =
     (if \<not> pc_bound c then (Inr LookupReset, c, as)
      else case validate_authority_inputs c as of
        Inl e \<Rightarrow> (Inl e, c, as)
      | Inr _ \<Rightarrow>
          (case lock_authorities X U J as of
             (Inl e, as) \<Rightarrow> (if e = AuthorityUnavailable then Inr LookupUnavailable else Inl e, c, as)
           | (Inr fresh, as) \<Rightarrow>
               (case begin_operation X c of
                  (Inl StartReset, c) \<Rightarrow> (Inr LookupReset, c, as)
                | (Inl StartUnavailable, c) \<Rightarrow> (Inr LookupUnavailable, c, as)
                | (Inr _, c) \<Rightarrow>
                    (case visit_entries X (pc_root c) of
                       Inl _ \<Rightarrow> (Inr LookupUnavailable, c, as)
                     | Inr (es, _) \<Rightarrow> (Inr (decide_lookup pid fresh es), c, as)))))"

definition prepare_insert ::
  "ext \<Rightarrow> (string \<Rightarrow> url option) \<Rightarrow> journal_ext \<Rightarrow> verified_proof \<Rightarrow> proof_cache \<Rightarrow> dependency_store list \<Rightarrow>
   (proof_cache_error + bytes) \<times> dependency_store list" where
  "prepare_insert X U J p c as =
     (if \<not> pc_bound c then (Inl PcReset, as)
      else case validate_authority_inputs c as of
        Inl e \<Rightarrow> (Inl e, as)
      | Inr _ \<Rightarrow>
          (case lock_authorities X U J as of
             (r, as) \<Rightarrow>
               (rbind r (\<lambda>fresh.
                rbind (validate_current_source_dependency fresh p) (\<lambda>_.
                encode_cache_entry X fresh p)), as)))"

text \<open>The publication closure of \<open>insert\<close>, and the removal of the temporary file when it fails.\<close>

definition publish_temporary :: "directory \<Rightarrow> string \<Rightarrow> bytes \<Rightarrow> string \<Rightarrow> (proof_cache_error + unit) \<times> directory" where
  "publish_temporary root temp encoded final =
     (case create_file root temp of
        Inl e \<Rightarrow> (Inl (PcIo e), root)
      | Inr root \<Rightarrow>
          (let root = write_all root temp encoded in
           case rbind (map_err PcIo (open_file root temp)) (\<lambda>f.
                rbind (require_secure_entry f) (\<lambda>_.
                if take (MAX_PROOF_CACHE_ENTRY_BYTES + 1) (snd f) \<noteq> encoded then Inl PcInvalidLayout
                else map_err PcIo (rename_file root temp final))) of
             Inl e \<Rightarrow> (Inl e, root)
           | Inr root \<Rightarrow> (Inr (), root)))"

definition publish_entry :: "directory \<Rightarrow> string \<Rightarrow> bytes \<Rightarrow> string \<Rightarrow> (proof_cache_error + unit) \<times> directory" where
  "publish_entry root temp encoded final =
     (case publish_temporary root temp encoded final of
        (Inl e, root) \<Rightarrow> (Inl e, case unlink_file root temp of Inl _ \<Rightarrow> root | Inr root \<Rightarrow> root)
      | (Inr _, root) \<Rightarrow> (Inr (), root))"

text \<open>\<open>insert\<close> once the cache is locked; \<open>now_v7\<close> is a fresh UUID.\<close>

definition insert_encoded ::
  "ext \<Rightarrow> uuid \<Rightarrow> proof_id \<Rightarrow> bytes \<Rightarrow> directory \<Rightarrow> (proof_cache_error + proof_cache_insert) \<times> directory" where
  "insert_encoded X now_v7 pid encoded root =
     (case visit_entries X root of
        Inl e \<Rightarrow> (Inl e, root)
      | Inr (es, used) \<Rightarrow>
          (let existing = map_option fst (requested_entry pid es) in
           if existing = Some encoded then (Inr AlreadyPresent, root)
           else if existing = None \<and> length es = MAX_PROOF_CACHE_ENTRIES then (Inl PcInvalidLayout, root)
           else let old_size = (case existing of None \<Rightarrow> 0 | Some bs \<Rightarrow> length bs) in
           if used < old_size then (Inl PcInvalidLayout, root)
           else case checked_total_bytes (used - old_size) (length encoded) of
             Inl e \<Rightarrow> (Inl e, root)
           | Inr _ \<Rightarrow>
               (case publish_entry root (TEMP_PREFIX @ uuid_to_string X now_v7) encoded (final_name X pid) of
                  (Inl e, root) \<Rightarrow> (Inl e, root)
                | (Inr _, root) \<Rightarrow>
                    (rbind (visit_entries X root) (\<lambda>(es, _).
                     if map_option fst (requested_entry pid es) \<noteq> Some encoded then Inl PcInvalidLayout else Inr Inserted), root))))"

definition cache_insert ::
  "ext \<Rightarrow> (string \<Rightarrow> url option) \<Rightarrow> journal_ext \<Rightarrow> uuid \<Rightarrow> verified_proof \<Rightarrow> proof_cache \<Rightarrow> dependency_store list \<Rightarrow>
   (proof_cache_error + proof_cache_insert) \<times> proof_cache \<times> dependency_store list" where
  "cache_insert X U J now_v7 p c as =
     (case prepare_insert X U J p c as of
        (Inl e, as) \<Rightarrow> (Inl e, c, as)
      | (Inr encoded, as) \<Rightarrow>
          (case begin_operation X c of
             (Inl StartReset, c) \<Rightarrow> (Inl PcReset, c, as)
           | (Inl StartUnavailable, c) \<Rightarrow> (Inl PcInvalidLayout, c, as)
           | (Inr _, c) \<Rightarrow>
               (case insert_encoded X now_v7 (vp_id p) encoded (pc_root c) of
                  (r, root) \<Rightarrow> (r, c\<lparr>pc_root := root\<rparr>, as))))"

fun unlink_all :: "string list \<Rightarrow> directory \<Rightarrow> bool \<times> directory" where
  "unlink_all [] root = (True, root)"
| "unlink_all (name # names) root =
     (case unlink_file root name of Inl _ \<Rightarrow> (False, root) | Inr root \<Rightarrow> unlink_all names root)"

definition doomed_names ::
  "ext \<Rightarrow> logical_store_id \<Rightarrow> store_revision_ref \<Rightarrow> store_revision_ref \<Rightarrow> (proof_id \<times> bytes \<times> cache_entry) list \<Rightarrow> string list" where
  "doomed_names X store old new es =
     map (\<lambda>(pid, _, _). final_name X pid)
       (filter (\<lambda>(_, _, entry). old \<noteq> new \<and>
          list_ex (\<lambda>d. rve_store d = store \<and> rve_revision d = old) (rv_entries (ce_dependencies entry))) es)"

definition invalidate_store ::
  "ext \<Rightarrow> logical_store_id \<Rightarrow> store_revision_ref \<Rightarrow> store_revision_ref \<Rightarrow> proof_cache \<Rightarrow> proof_cache_disposition \<times> proof_cache" where
  "invalidate_store X store old new c =
     (case begin_operation X c of
        (Inl StartReset, c) \<Rightarrow> (DispositionReset, c)
      | (Inl StartUnavailable, c) \<Rightarrow> (DispositionUnavailable, c)
      | (Inr _, c) \<Rightarrow>
          (case visit_entries X (pc_root c) of
             Inl _ \<Rightarrow> (DispositionUnavailable, c)
           | Inr (es, _) \<Rightarrow>
               (let remove = doomed_names X store old new es in
                case unlink_all remove (pc_root c) of
                  (unlinked, root) \<Rightarrow>
                    (let c = c\<lparr>pc_root := root\<rparr> in
                     if \<not> unlinked then (DispositionUnavailable, c)
                     else case visit_entries X root of
                       Inl _ \<Rightarrow> (DispositionUnavailable, c)
                     | Inr _ \<Rightarrow> (if remove = [] then Unchanged else Invalidated, c)))))"

end
