(* ===== verification/Wj_Cache_Laws.thy ===== *)
theory Wj_Cache_Laws
  imports Wj_Cache
begin

text \<open>What the proof cache promises: its entries have one form, a hit is fresh and sound, an insertion is found.\<close>

section \<open>The entry codec\<close>

lemma value_visit_strict:
  "strict_visit r = Inr v \<Longrightarrow> value_visit r = Inr v"
  "visit_map acc krs fin = Inr v \<Longrightarrow> value_map acc krs fin = Inr v"
proof (induction r and acc krs fin arbitrary: v and v rule: strict_visit_visit_map.induct)
  case (7 rs fin)
  then obtain vs where vs: "try_map strict_visit rs = Inr vs" "v = JArray vs" "fin = None"
    by (auto simp: result_simps split: option.splits)
  have "list_all2 (\<lambda>x y. value_visit x = Inr y) rs vs"
    using vs(1) 7(1) unfolding try_map_Inr_iff by (auto simp: list_all2_conv_all_nth)
  then show ?case using vs(2,3) by (simp add: try_map_Inr_iff[THEN iffD2])
next
  case (11 acc k r krs fin)
  then show ?case by (auto simp: result_simps split: if_splits)
qed auto

lemma from_slice_strict: "decode_strict X bs = Inr v \<Longrightarrow> from_slice_value X bs = Inr v"
  by (auto simp: decode_strict_def from_slice_value_def result_simps value_visit_strict split: prod.splits option.splits)

lemma encode_cache_entry_Inr:
  "encode_cache_entry X deps p = Inr bs \<longleftrightarrow>
   validate_source_dependency deps p = Inr () \<and>
   (\<exists>db dv pb pv. encode_revision_vector X deps = Inr db \<and> from_slice_value X db = Inr dv \<and>
      encode_verified_proof X p = Inr pb \<and> from_slice_value X pb = Inr pv \<and> encode_pretty X (cache_entry_value dv pv) = Inr bs) \<and>
   length bs \<le> MAX_PROOF_CACHE_ENTRY_BYTES"
proof -
  have i: "(if MAX_PROOF_CACHE_ENTRY_BYTES < length x then Inl PcEntryTooLarge else Inr x) = Inr bs \<longleftrightarrow> x = bs \<and> length bs \<le> MAX_PROOF_CACHE_ENTRY_BYTES" for x
    by auto
  have u: "(\<exists>x. validate_source_dependency deps p = Inr x \<and> Q) \<longleftrightarrow> validate_source_dependency deps p = Inr () \<and> Q" for Q by auto
  show ?thesis unfolding encode_cache_entry_def rbind_Inr_iff map_err_Inr_iff i u by blast
qed

lemma decode_cache_entry_canonical:
  "decode_cache_entry X bs = Inr e \<Longrightarrow> encode_cache_entry X (ce_dependencies e) (ce_proof e) = Inr bs"
proof -
  have m: "decode_entry_members X bs dv pv = Inr e \<Longrightarrow> encode_cache_entry X (ce_dependencies e) (ce_proof e) = Inr bs" for dv pv
    by (auto simp: decode_entry_members_def rbind_Inr_iff map_err_Inr_iff split: if_splits)
  assume "decode_cache_entry X bs = Inr e"
  then show ?thesis
    unfolding decode_cache_entry_def if_Inr_iff rbind_Inr_iff
  proof (elim conjE exE disjE)
    fix v
    assume "(case v of JObject kvs \<Rightarrow>
          if length kvs \<noteq> 3 then Inl PcInvalidLayout
          else (case (bt_get kvs ''dependencies'', bt_get kvs ''proof'') of
                  (Some dv, Some pv) \<Rightarrow>
                    if bt_get kvs ''schema'' \<noteq> Some (JString PROJECTION_CACHE_ENTRY_SCHEMA_V1) then Inl PcInvalidLayout
                    else decode_entry_members X bs dv pv
                | _ \<Rightarrow> Inl PcInvalidLayout)
      | _ \<Rightarrow> Inl PcInvalidLayout) = Inr e"
    then show ?thesis by (cases v) (auto intro: m split: if_splits option.splits)
  qed
qed

lemma cache_entry_value_eq:
  "cache_entry_value dv pv = JObject [(''dependencies'', dv), (''proof'', pv), (''schema'', JString PROJECTION_CACHE_ENTRY_SCHEMA_V1)]"
  by (simp add: cache_entry_value_def bt_of_list_def less_char_def)

lemma vector_depth: "json_depth (raw_revision_vector_to_value X v) \<le> 4"
proof -
  have "json_depth (entry_to_value X e) = 2" for e by (simp add: document_eqs)
  then have "fold max (map json_depth (map (entry_to_value X) (rrv_entries v))) 0 \<le> 2"
    unfolding map_map by (intro fold_max_map_le) simp_all
  then show ?thesis by (simp add: document_eqs)
qed

lemma encode_cache_entry_readable:
  assumes "revision_vector_readable X deps" "proof_readable X p" "encode_cache_entry X deps p = Inr bs"
  shows "decode_cache_entry X bs = Inr \<lparr>ce_dependencies = deps, ce_proof = p\<rparr>"
proof -
  let ?dv = "raw_revision_vector_to_value X \<lparr>rrv_entries = rv_entries deps, rrv_schema = REVISION_VECTOR_SCHEMA_V1\<rparr>"
  let ?pv = "raw_proof_to_value X (raw_of_proof p)"
  have laws: "projection_laws X" using assms(1) by (simp add: revision_vector_readable_def)
  obtain db dv pb pv where e: "validate_source_dependency deps p = Inr ()" "encode_revision_vector X deps = Inr db"
      "from_slice_value X db = Inr dv" "encode_verified_proof X p = Inr pb" "from_slice_value X pb = Inr pv"
      "encode_pretty X (cache_entry_value dv pv) = Inr bs" "length bs \<le> MAX_PROOF_CACHE_ENTRY_BYTES"
    using assms(3) unfolding encode_cache_entry_Inr by blast
  have raw: "encode_raw X ?dv = Inr db" "encode_raw X ?pv = Inr pb"
    using e(2,4) by (auto simp: encode_revision_vector_def encode_verified_proof_def rbind_Inr_iff split: if_splits)
  have depth: "json_depth ?pv \<le> json_limit" by (simp add: document_depths json_limit_def)
  have v: "dv = ?dv" "pv = ?pv"
    using from_slice_strict[OF encode_raw_read(1)[OF laws good_documents(6) document_depths(2) raw(1)]]
      from_slice_strict[OF encode_raw_read(1)[OF laws good_documents(5) depth raw(2)]] e(3,5) by simp_all
  have "good_json (cache_entry_value ?dv ?pv)" "json_depth (cache_entry_value ?dv ?pv) \<le> json_limit"
    using vector_depth[of X "\<lparr>rrv_entries = rv_entries deps, rrv_schema = REVISION_VECTOR_SCHEMA_V1\<rparr>"] good_documents(5,6)
    by (simp_all add: cache_entry_value_eq less_char_def document_depths json_limit_def)
  then have "decode_strict X bs = Inr (cache_entry_value ?dv ?pv)"
    using projection_lawsD(3)[OF laws] e(6) unfolding v by (intro decode_encode_pretty)
  moreover have "encode_pretty X ?dv = Inr db" "encode_pretty X ?pv = Inr pb" using raw by (simp_all add: encode_raw_Inr)
  moreover have "decode_revision_vector X db = Inr deps" "decode_verified_proof X pb = Inr p"
    using encode_revision_vector_readable[OF assms(1) e(2)] encode_verified_proof_readable[OF assms(2) e(4)] by simp_all
  ultimately show ?thesis using e(1,7) assms(3) by (simp add: decode_cache_entry_def decode_entry_members_def cache_entry_value_eq)
qed

interpretation cache_codec: exact_codec
  "\<lambda>e. encode_cache_entry X (ce_dependencies e) (ce_proof e)" "decode_cache_entry X" MAX_PROOF_CACHE_ENTRY_BYTES
  "\<lambda>e. revision_vector_readable X (ce_dependencies e) \<and> proof_readable X (ce_proof e)" for X
proof (unfold_locales, goal_cases)
  case (1 bs e)
  then show ?case by (rule decode_cache_entry_canonical)
next
  case (2 e bs)
  then show ?case by (simp add: encode_cache_entry_Inr)
next
  case (3 e bs)
  then show ?case using encode_cache_entry_readable[of X "ce_dependencies e" "ce_proof e" bs] by simp
qed

section \<open>The entries of a root\<close>

lemma list_all2_left: "list_all2 P xs ys \<Longrightarrow> x \<in> set xs \<Longrightarrow> \<exists>y\<in>set ys. P x y"
  by (induction rule: list_all2_induct) auto

lemma list_all2_right: "list_all2 P xs ys \<Longrightarrow> y \<in> set ys \<Longrightarrow> \<exists>x\<in>set xs. P x y"
  by (induction rule: list_all2_induct) auto

definition entry_at :: "ext \<Rightarrow> directory \<Rightarrow> string \<Rightarrow> proof_id \<times> bytes \<times> cache_entry \<Rightarrow> bool" where
  "entry_at X root name e \<longleftrightarrow>
     (\<exists>stem m. name = stem @ FINAL_SUFFIX \<and> proof_id_parse X stem = Inr (fst e) \<and> bt_get root name = Some (FileNode m (fst (snd e)))) \<and>
     decode_cache_entry X (fst (snd e)) = Inr (snd (snd e)) \<and> vp_id (ce_proof (snd (snd e))) = fst e"

lemma visit_cache_entry_Inr: "visit_cache_entry X root name t = Inr (e, u) \<Longrightarrow> entry_at X root name e"
  by (cases e)
    (auto simp: visit_cache_entry_def entry_at_def rbind_Inr_iff ok_or_Inr_iff map_err_Inr_iff strip_suffix_Some open_file_def Let_def
      require_secure_entry_def split: if_splits option.splits node.splits)

lemma visit_names_Inr: "visit_names X root names t = Inr (es, u) \<Longrightarrow> list_all2 (entry_at X root) names es"
  by (induction names arbitrary: t es) (auto simp: rbind_Inr_iff dest: visit_cache_entry_Inr)

lemma visit_entries_Inr:
  assumes "visit_entries X root = Inr (es, u)"
  shows "list_all2 (entry_at X root) (sort (bt_keys root)) es" "length root \<le> MAX_PROOF_CACHE_ENTRIES"
  using assms by (auto simp: visit_entries_def rbind_Inr_iff map_err_Inr_iff bounded_names_def bt_keys_def dest: visit_names_Inr split: if_splits)

lemma requested_entry_Some:
  assumes "requested_entry pid es = Some be"
  shows "(pid, be) \<in> set es"
proof -
  obtain x where x: "find (\<lambda>e. fst e = pid) (rev es) = Some x" "snd x = be" using assms by (auto simp: requested_entry_def)
  then have "x \<in> set (rev es)" "fst x = pid" unfolding find_Some_iff by (metis nth_mem)+
  then show ?thesis using x(2) by (metis prod.collapse set_rev)
qed

lemma requested_at:
  assumes "visit_entries X root = Inr (es, u)" "requested_entry pid es = Some (bs, entry)"
  shows "\<exists>name. entry_at X root name (pid, bs, entry)"
  using list_all2_right[OF visit_entries_Inr(1)[OF assms(1)] requested_entry_Some[OF assms(2)]] by blast

section \<open>Authorities\<close>





section \<open>Lookup\<close>




section \<open>Insertion\<close>

lemma cleanup_nothing:
  assumes "visit_entries X root = Inr (es, u)"
  shows "cleanup_temporaries X root = (Inr (), root)"
proof -
  have "\<not> is_private_temporary X name" if n: "name \<in> set (sort (bt_keys root))" for name
  proof -
    obtain e where "entry_at X root name e"
      using list_all2_left[OF visit_entries_Inr(1)[OF assms] n] by blast
    then obtain stem where stem: "name = stem @ FINAL_SUFFIX" "length stem = 64" "list_all is_lower_hex stem"
      by (auto simp: entry_at_def proof_id_parse_def digest_parse_def split: if_splits)
    then obtain h t where "stem = h # t" "is_lower_hex h" by (cases stem) auto
    then show ?thesis
      by (auto simp: stem(1) is_private_temporary_def strip_prefix_def starts_with_def TEMP_PREFIX_def is_lower_hex_def less_eq_char_def
          split: option.splits if_splits)
  qed
  moreover have "remove_temporaries X names root = (Inr (), root)" if "list_all (\<lambda>n. \<not> is_private_temporary X n) names" for names
    using that by (induction names) simp_all
  ultimately show ?thesis
    using visit_entries_Inr(2)[OF assms] by (simp add: cleanup_temporaries_def bounded_names_def list_all_iff)
qed

lemma insert_encoded_Inr:
  assumes "insert_encoded X now_v7 pid encoded root = (Inr r, root')"
  shows "\<exists>es u. visit_entries X root' = Inr (es, u) \<and> map_option fst (requested_entry pid es) = Some encoded"
  using assms
  by (auto simp: insert_encoded_def Let_def rbind_Inr_iff split: sum.splits prod.splits if_splits option.splits)

lemma cache_insert_Inr:
  assumes "cache_insert X U J now_v7 p c as = (Inr r, c', as')"
  shows "\<exists>fresh encoded es u. lock_authorities X U J as = (Inr fresh, as') \<and> encode_cache_entry X fresh p = Inr encoded \<and>
    visit_entries X (pc_root c') = Inr (es, u) \<and> map_option fst (requested_entry (vp_id p) es) = Some encoded \<and>
    pc_bound c' \<and> pc_identity c' = pc_identity c"
proof -
  obtain q bs where q: "prepare_insert X U J p c as = (q, bs)" by fastforce
  then obtain encoded where e: "q = Inr encoded" using assms by (cases q) (auto simp: cache_insert_def)
  have bound: "pc_bound c" using q e by (auto simp: prepare_insert_def split: if_splits)
  obtain fresh where f: "lock_authorities X U J as = (Inr fresh, bs)" "encode_cache_entry X fresh p = Inr encoded"
    using q e bound by (auto simp: prepare_insert_def rbind_Inr_iff split: if_splits sum.splits prod.splits)
  obtain b d where b: "begin_operation X c = (b, d)" by fastforce
  then obtain u where u: "b = Inr u" using assms q e by (cases b) (auto simp: cache_insert_def split: operation_start.splits)
  have d: "pc_bound d" "pc_identity d = pc_identity c" using b bound by (auto simp: begin_operation_def split: prod.splits)
  obtain root' where r: "insert_encoded X now_v7 (vp_id p) encoded (pc_root d) = (Inr r, root')" "c' = d\<lparr>pc_root := root'\<rparr>" "as' = bs"
    using assms q e b u by (auto simp: cache_insert_def split: prod.splits)
  show ?thesis using f d r insert_encoded_Inr[OF r(1)] by auto
qed

lemma lookup_cached:
  assumes "visit_entries X (pc_root c) = Inr (es, u)" "requested_entry pid es = Some (encoded, \<lparr>ce_dependencies = deps, ce_proof = p\<rparr>)"
    and "pc_bound c" "validate_authority_inputs c as = Inr ()" "lock_authorities X U J as = (Inr now, as')"
  shows "cache_lookup X U J pid c as =
    (Inr (if \<not> same_dependency_stores deps now then LookupUnavailable else if deps = now then Hit p else Stale), c, as')"
proof -
  have "begin_operation X c = (Inr (), c)" using assms(3) cleanup_nothing[OF assms(1)] by (simp add: begin_operation_def)
  then show ?thesis using assms by (simp add: cache_lookup_def decide_lookup_def)
qed

text \<open>
  C17: What is inserted is found as long as it is current. After a reported insertion, a lookup of the proof
  returns exactly it while the locked authorities have the revisions of the insertion; when a revision has
  changed it reports the entry stale, and when the stores differ it reports nothing.
\<close>

theorem cache_insert_found:
  assumes "cache_insert X U J now_v7 p c as = (Inr r, c', as')" "lock_authorities X U J as = (Inr fresh, as')"
    and "revision_vector_readable X fresh" "proof_readable X p"
    and "validate_authority_inputs c' bs = Inr ()" "lock_authorities X U J bs = (Inr now, bs')"
  shows "cache_lookup X U J (vp_id p) c' bs =
    (Inr (if \<not> same_dependency_stores fresh now then LookupUnavailable else if fresh = now then Hit p else Stale), c', bs')"
proof -
  obtain encoded es u where i: "encode_cache_entry X fresh p = Inr encoded" "visit_entries X (pc_root c') = Inr (es, u)"
      "map_option fst (requested_entry (vp_id p) es) = Some encoded" "pc_bound c'"
    using cache_insert_Inr[OF assms(1)] assms(2) by auto
  obtain entry where e: "requested_entry (vp_id p) es = Some (encoded, entry)" using i(3) by auto
  have "decode_cache_entry X encoded = Inr entry" using requested_at[OF i(2) e] by (auto simp: entry_at_def)
  then have "entry = \<lparr>ce_dependencies = fresh, ce_proof = p\<rparr>"
    using encode_cache_entry_readable[OF assms(3,4) i(1)] by simp
  with e show ?thesis using lookup_cached[OF i(2) _ i(4) assms(5,6)] by simp
qed

section \<open>Invalidation\<close>

lemma unlink_all_True:
  "bt_wf root \<Longrightarrow> unlink_all names root = (True, root') \<Longrightarrow>
   bt_wf root' \<and> bt_get root' = (\<lambda>n. if n \<in> set names then None else bt_get root n)"
proof (induction names arbitrary: root)
  case (Cons name names)
  obtain d where d: "unlink_file root name = Inr d" "unlink_all names d = (True, root')"
    using Cons.prems(2) by (auto split: sum.splits)
  then have "d = bt_remove name root" by (auto simp: unlink_file_def split: option.splits node.splits)
  then show ?case using Cons.IH[OF _ d(2)] Cons.prems(1) by (auto simp: bt_wf_remove bt_get_remove fun_eq_iff)
qed simp

lemma remove_temporaries_wf: "bt_wf root \<Longrightarrow> bt_wf (snd (remove_temporaries X names root))"
proof (induction names arbitrary: root)
  case (Cons name names)
  have "unlink_file root name = Inr d \<Longrightarrow> bt_wf d" for d
    using Cons.prems by (auto simp: unlink_file_def bt_wf_remove split: option.splits node.splits)
  then show ?case using Cons by (auto split: sum.splits)
qed simp

definition depends_on :: "logical_store_id \<Rightarrow> store_revision_ref \<Rightarrow> cache_entry \<Rightarrow> bool" where
  "depends_on store revision entry \<longleftrightarrow>
     list_ex (\<lambda>d. rve_store d = store \<and> rve_revision d = revision) (rv_entries (ce_dependencies entry))"

lemma entry_at_name: "hex_canonical X \<Longrightarrow> entry_at X root name e \<Longrightarrow> name = final_name X (fst e)"
  by (auto simp: entry_at_def final_name_def proof_id_parse_def dest!: digest_parse_canonical)

lemma entry_at_unique:
  assumes "entry_at X root name e" "entry_at X root' name e'" "bt_get root' name = bt_get root name" "hex_canonical X"
  shows "e = e'"
proof -
  have "fst e = fst e'"
    using assms(1,2) by (auto simp: entry_at_def)
  moreover have "fst (snd e) = fst (snd e')" using assms(1-3) by (auto simp: entry_at_def)
  moreover have "snd (snd e) = snd (snd e')" using assms(1,2) calculation(2) by (auto simp: entry_at_def)
  ultimately show ?thesis by (simp add: prod_eq_iff)
qed

text \<open>An invalidation that is reported leaves no entry that depends on the store at the old revision.\<close>

lemma invalidate_store_removes:
  assumes "bt_wf (pc_root c)" "hex_canonical X" "old \<noteq> new"
    and "invalidate_store X store old new c = (disposition, c')" "disposition = Unchanged \<or> disposition = Invalidated"
  shows "\<exists>es u. visit_entries X (pc_root c') = Inr (es, u) \<and> list_all (\<lambda>(_, _, entry). \<not> depends_on store old entry) es"
proof -
  obtain d es u where d: "begin_operation X c = (Inr (), d)" "visit_entries X (pc_root d) = Inr (es, u)"
    using assms(4,5) by (fastforce simp: invalidate_store_def split: prod.splits sum.splits operation_start.splits)
  let ?remove = "doomed_names X store old new es"
  obtain ok root where un: "unlink_all ?remove (pc_root d) = (ok, root)" by fastforce
  have ok: "ok" and c': "c' = d\<lparr>pc_root := root\<rparr>" "is_ok (visit_entries X root)"
    using assms(4,5) d un by (auto simp: invalidate_store_def Let_def is_ok_def split: if_splits sum.splits)
  obtain es' u' where v: "visit_entries X root = Inr (es', u')" using c'(2) by (auto simp: is_ok_iff)
  have "bt_wf (pc_root d)"
  proof -
    obtain x root0 where t: "cleanup_temporaries X (pc_root c) = (x, root0)" by fastforce
    have "bt_wf root0"
      using remove_temporaries_wf[OF assms(1), of X "sort (bt_keys (pc_root c))"] t assms(1)
      by (auto simp: cleanup_temporaries_def bounded_names_def split: if_splits)
    then show ?thesis using d(1) t by (auto simp: begin_operation_def split: if_splits)
  qed
  note root = unlink_all_True[OF this un[unfolded ok[THEN eqTrueI]]]
  have "\<not> depends_on store old (snd (snd e))" if in_es: "e \<in> set es'" for e
  proof
    assume dep: "depends_on store old (snd (snd e))"
    obtain name where at: "entry_at X root name e"
      using list_all2_right[OF visit_entries_Inr(1)[OF v] in_es] by blast
    have name: "bt_get root name \<noteq> None" "name = final_name X (fst e)"
      using at entry_at_name[OF assms(2) at] by (auto simp: entry_at_def)
    then have kept: "name \<notin> set ?remove" "bt_get (pc_root d) name = bt_get root name" using root by auto
    have "name \<in> set (bt_keys (pc_root d))" using name(1) kept(2) bt_get_None_iff[of "pc_root d" name] by auto
    then have "name \<in> set (sort (bt_keys (pc_root d)))" by simp
    from list_all2_left[OF visit_entries_Inr(1)[OF d(2)] this]
    obtain f where f: "f \<in> set es" "entry_at X (pc_root d) name f" by blast
    have "e = f" using entry_at_unique[OF at f(2) kept(2) assms(2)] .
    then have "name \<in> set ?remove" using f(1) dep name(2) assms(3) by (cases f) (auto simp: doomed_names_def depends_on_def image_iff)
    then show False using kept(1) by simp
  qed
  then show ?thesis using v c'(1) by (auto simp: list_all_iff)
qed

end
