(* ===== verification/Wj_Replay_Examples.thy ===== *)
theory Wj_Replay_Examples
  imports Wj_Parity Wj_Store_Examples
begin

text \<open>
  The replay properties at concrete inputs: a sorter whose runs hold one fact each, and the store of the
  genesis batch, spooled in the reverse of its path order.
\<close>

section \<open>Sorting\<close>

definition demo_facts :: "fact list" where
  "demo_facts = [(''b'', ''2''), (''c'', []), (''a'', ''1'')]"

lemma demo_facts_sorted: "sort demo_facts = [(''a'', ''1''), (''b'', ''2''), (''c'', [])]"
  by (rule sort_perm_id) (simp_all add: demo_facts_def less_eq_prod_def less_char_def)

theorem external_sort_exact_witness:
  "\<exists>f b. sort_facts 12 (temp_budget_new 100) demo_facts = Inr (f, b) \<and>
     read_facts f = Inr [(''a'', ''1''), (''b'', ''2''), (''c'', [])] \<and> tb_used b \<le> 58"
proof -
  have rm: "room (temp_budget_new 100) 0" by (simp add: room_def temp_budget_new_def)
  have tot: "total_bytes demo_facts = 29" by (simp add: demo_facts_def fact_bytes_def)
  have "is_ok (sort_facts 12 (temp_budget_new 100) demo_facts)"
    using external_sort_exact[OF rm, of 12 demo_facts] tot
    by (simp add: room_def temp_budget_new_def) (simp add: demo_facts_def fact_bytes_def MAX_FACT_BYTES_def)
  then obtain f b where s: "sort_facts 12 (temp_budget_new 100) demo_facts = Inr (f, b)"
    by (cases "sort_facts 12 (temp_budget_new 100) demo_facts") auto
  from external_sort_exact[OF rm, of 12 demo_facts f b] s
  have "read_facts f = Inr (sort demo_facts)" "tb_used b \<le> 2 * total_bytes demo_facts"
    by (simp_all add: temp_budget_new_def)
  then show ?thesis using s tot demo_facts_sorted by simp
qed

section \<open>Replaying the store of the genesis batch\<close>

text \<open>An adapter that reads at most so many entries and accepts them.\<close>

primrec pull_all :: "nat \<Rightarrow> legacy_consumer" where
  "pull_all 0 = Return (Inr ())"
| "pull_all (Suc n) = Pull (\<lambda>a. case a of
     Inl message \<Rightarrow> Return (Inl (LegacySource message)) | Inr None \<Rightarrow> Return (Inr ()) | Inr (Some _) \<Rightarrow> pull_all n)"

lemma consume_pull_all: "length es < n \<Longrightarrow> consume (pull_all n) es = (Inr (), [])"
  by (induction n arbitrary: es) (auto split: list.splits)

lemma total_bytes_fits: "\<forall>f\<in>set fs. fits f \<Longrightarrow> total_bytes fs \<le> length fs * 2048"
  by (induction fs) (auto simp: MAX_FACT_BYTES_def)

lemma demo_replay_laws: "replay_laws demo_ext"
  by (simp add: replay_laws_def demo_laws)

lemma demo_reversed: "sort_key rf_path (rev demo_files) = demo_files"
  by (rule sort_key_unique) (use demo_files_ordered in \<open>simp_all add: order_simps\<close>)

lemma demo_typed: "manifests_typed demo_ext demo_registry (rev demo_files)"
  by (simp add: manifests_typed_def demo_files_def scanned_simps demo_files_decode manifest_typed_def demo_manifest_def)
    (rule is_str_ascii, simp add: is_ascii_Cons)

lemma demo_path_lengths: "length demo_path = 114" "length demo_manifest_path = 57"
  by (simp_all add: demo_path_text demo_manifest_path_def)

lemma demo_located: "located 0 (rev demo_files) =
   [(\<lparr>rf_path = demo_path, rf_bytes = demo_bytes\<rparr>, 0), (\<lparr>rf_path = demo_manifest_path, rf_bytes = [CHR 0x01, CHR 0x0A]\<rparr>, 2)]"
  by (simp add: demo_files_def demo_bytes_def)

lemma demo_locations:
  "total_bytes (map loc_fact (located 0 (rev demo_files))) \<le> 300" "\<forall>x\<in>set (located 0 (rev demo_files)). fits (loc_fact x)"
  by (simp_all add: demo_located loc_fact_def fact_bytes_def location_bytes_def demo_path_lengths MAX_FACT_BYTES_def)

lemma demo_file_bytes: "file_bytes (rev demo_files) = 4"
  by (simp add: demo_files_def demo_bytes_def)

lemma demo_entry_budget: "run_entry_budget MAX_CANONICAL_ENTRIES (map rf_path demo_files) \<noteq> None"
proof -
  let ?ps = "map rf_path demo_files"
  have "length (fold (\<lambda>p es. add_entry_and_canonical_parents es p) ?ps []) = 6"
    unfolding demo_files_def demo_path_text demo_manifest_path_def by code_simp
  moreover have "length (fold (\<lambda>p es. add_entry_and_canonical_parents es p) ?ps []) = card (entry_set (set ?ps))"
    using card_strictly_ordered add_entries[of "[]" ?ps] by fastforce
  moreover have "\<forall>p\<in>set ?ps. is_canonical (classify_path demo_ext p)"
    by (simp add: demo_files_def demo_manifest_class demo_path_record is_canonical_def)
  ultimately show ?thesis
    using run_entry_budget_eq[of ?ps demo_ext] demo_files_ordered by (simp add: order_simps MAX_CANONICAL_ENTRIES_def)
qed

lemma demo_spooled: "\<exists>rep. spool_files demo_ext (rev demo_files) = Inr rep"
proof (rule spool_files_ok[OF _ demo_locations(2)])
  show "\<forall>f\<in>set (rev demo_files). spoolable demo_ext f"
    by (simp add: demo_files_def spoolable_def demo_manifest_class demo_path_record canonical_file_limit_def
        MAX_BATCH_BYTES_def MAX_RECORD_BYTES_def demo_bytes_def)
  show "file_bytes (rev demo_files) \<le> MAX_TOTAL_CANONICAL_BYTES"
    by (simp only: demo_file_bytes) (simp add: MAX_TOTAL_CANONICAL_BYTES_def)
  show "file_bytes (rev demo_files) + 2 * total_bytes (map loc_fact (located 0 (rev demo_files))) \<le> MAX_REPLAY_TEMPORARY_BYTES"
    using demo_locations(1) unfolding demo_file_bytes by (simp only: MAX_REPLAY_TEMPORARY_BYTES_def MAX_TOTAL_CANONICAL_BYTES_def)
  show "strictly_ordered (map rf_path (sort_key rf_path (rev demo_files)))"
    unfolding demo_reversed by (rule demo_files_ordered)
  show "run_entry_budget MAX_CANONICAL_ENTRIES (map rf_path (sort_key rf_path (rev demo_files))) \<noteq> None"
    unfolding demo_reversed by (rule demo_entry_budget)
qed

lemma demo_replay_files: "replay_files (rev demo_files) = rev (located 0 (rev demo_files))"
  unfolding replay_files_def
  by (rule sort_key_unique) (use demo_files_ordered in \<open>simp_all add: demo_located demo_files_def order_simps\<close>)

text \<open>The budget depends on the files in path order and on the size of their locations only.\<close>

lemma demo_bytes_within:
  assumes lfs: "map fst (replay_files fs) = demo_files" and "file_bytes fs = 4"
    and "total_bytes (map loc_fact (located 0 fs)) \<le> 300"
  shows "replay_bytes demo_ext demo_registry fs \<le> MAX_REPLAY_TEMPORARY_BYTES"
proof -
  let ?lfs = "replay_files fs"
  obtain a b where ab: "?lfs = [(\<lparr>rf_path = demo_manifest_path, rf_bytes = [CHR 0x01, CHR 0x0A]\<rparr>, a), (\<lparr>rf_path = demo_path, rf_bytes = demo_bytes\<rparr>, b)]"
    using lfs by (auto simp: demo_files_def)
  have "decodes demo_ext demo_registry ?lfs"
    using demo_typed unfolding decodes_def manifests_typed_def lfs
    by (simp add: scanned_manifests_mem ab demo_files_decode)
  note fit = facts_fit[OF demo_replay_laws this] statuses_fit[OF demo_replay_laws this]
  have len: "length (all_facts demo_ext demo_registry ?lfs) = 5" "length (statuses demo_ext demo_registry ?lfs) = 1"
    by (simp_all add: ab all_facts_def file_facts_def demo_files_decode manifest_facts_def record_facts_def
      statuses_def scanned_simps manifest_claims_def demo_manifest_def)
  have "total_bytes (map snd (all_facts demo_ext demo_registry ?lfs)) \<le> 5 * 2048" "total_bytes (statuses demo_ext demo_registry ?lfs) \<le> 2048"
    using total_bytes_fits[of "map snd (all_facts demo_ext demo_registry ?lfs)"] total_bytes_fits[of "statuses demo_ext demo_registry ?lfs"] fit
    by (simp_all add: len)
  then show ?thesis
    using assms(2,3) unfolding replay_bytes_def MAX_REPLAY_TEMPORARY_BYTES_def MAX_TOTAL_CANONICAL_BYTES_def by simp
qed

lemma demo_replay_bytes: "replay_bytes demo_ext demo_registry (rev demo_files) \<le> MAX_REPLAY_TEMPORARY_BYTES"
proof (rule demo_bytes_within[OF _ demo_file_bytes demo_locations(1)])
  show "map fst (replay_files (rev demo_files)) = demo_files"
    by (simp add: demo_replay_files demo_located) (simp add: demo_files_def)
qed

theorem bounded_replay_exact_witness:
  "\<exists>rep. spool_files demo_ext (rev demo_files) = Inr rep \<and>
     validate_bounded_replay demo_ext demo_config (pull_all 1) rep =
       Inr \<lparr>vs_revision = demo_store_revision, vs_identity = Some demo_identity\<rparr>"
proof -
  obtain rep where rep: "spool_files demo_ext (rev demo_files) = Inr rep" using demo_spooled by blast
  have reg: "sc_registry demo_config = demo_registry" by (simp add: demo_config_def)
  have leg: "legacy_conforms demo_config (pull_all 1)
      (scanned_legacy demo_ext (sc_registry demo_config) (sort_key rf_path (rev demo_files)))"
    using demo_scanned(4) by (simp add: reg demo_reversed legacy_conforms_def demo_config_def)
  note ex = bounded_replay_exact[OF demo_replay_laws demo_typed[folded reg] rep leg, of _ _ _ demo_snapshot]
  show ?thesis
    using rep ex demo_replay_bytes demo_scan by (simp add: reg demo_reversed) (simp add: demo_snapshot_def)
qed

end
