(* ===== verification/Wj_Visible_Examples.thy ===== *)
theory Wj_Visible_Examples
  imports Wj_Visible Wj_Replay_Examples Wj_Projection_Examples
begin

text \<open>The bounded validation and the presence proof at the directories of the genesis store.\<close>

definition demo_adapter :: legacy_consumer where "demo_adapter = pull_all 1"

lemma genesis_files: "item_files (visible_items demo_ext genesis_store) = demo_files"
  by (simp add: genesis_items item_files_def demo_files_def)

lemma genesis_scan: "scan_visible demo_ext demo_config genesis_store = Inr demo_snapshot"
proof -
  have ok: "items_ok demo_ext DEFAULT_SCAN_LIMITS (visible_items demo_ext genesis_store)"
    by (simp add: items_ok_def genesis_items item_files_def file_bytes_def demo_bytes_def demo_manifest_class
     demo_path_record scan_file_limit_def canonical_file_limit_def DEFAULT_SCAN_LIMITS_def
     MAX_CANONICAL_ENTRIES_def MAX_TOTAL_CANONICAL_BYTES_def MAX_RECORD_BYTES_def MAX_BATCH_BYTES_def)
  have srt: "sort_key rf_path demo_files = demo_files"
    by (rule sort_key_unique) (use demo_files_ordered in \<open>simp_all add: order_simps\<close>)
  have "item_special (visible_items demo_ext genesis_store) = []" by (simp add: genesis_items item_special_def)
  then have "collect_visible demo_ext genesis_store = Inr (demo_files, [])"
    unfolding collect_visible_Inr[OF genesis_store_wf] using ok by (simp add: genesis_files srt)
  then show ?thesis using demo_scan by (simp add: scan_visible_def)
qed

lemma genesis_conforms: "visible_conforms demo_ext demo_config demo_adapter genesis_store"
proof -
  have srt: "sort_key rf_path demo_files = demo_files"
    by (rule sort_key_unique) (use demo_files_ordered in \<open>simp_all add: order_simps\<close>)
  have "manifests_typed demo_ext demo_registry demo_files"
    using demo_typed by (simp add: manifests_typed_def demo_files_def scanned_simps demo_files_decode)
  moreover have "legacy_conforms demo_config demo_adapter []" by (simp add: legacy_conforms_def demo_config_def demo_adapter_def)
  ultimately show ?thesis
    using genesis_store_wf demo_replay_laws
    by (simp add: visible_conforms_def genesis_files srt demo_config_def[THEN arg_cong, of sc_registry] demo_scanned(4))
qed

lemma genesis_directories: "visible_directories_canonical demo_ext genesis_store"
  by (simp add: visible_directories_canonical_def genesis_store_def empty_store_def journal_dir_def canonical_journal_dirs genesis_dirs)

lemma genesis_replay_bytes: "visible_replay_bytes demo_ext demo_config genesis_store \<le> MAX_REPLAY_TEMPORARY_BYTES"
proof -
  have loc: "located 0 demo_files =
     [(\<lparr>rf_path = demo_manifest_path, rf_bytes = [CHR 0x01, CHR 0x0A]\<rparr>, 0), (\<lparr>rf_path = demo_path, rf_bytes = demo_bytes\<rparr>, 2)]"
    by (simp add: demo_files_def)
  have "replay_files demo_files = located 0 demo_files"
    unfolding replay_files_def
    by (rule sort_key_unique) (use demo_files_ordered in \<open>simp_all add: loc demo_files_def order_simps\<close>)
  then have "map fst (replay_files demo_files) = demo_files" by (simp add: map_fst_located)
  moreover have "file_bytes demo_files = 4" by (simp add: demo_files_def demo_bytes_def)
  moreover have "total_bytes (map loc_fact (located 0 demo_files)) \<le> 300"
    by (simp add: loc loc_fact_def fact_bytes_def location_bytes_def demo_path_lengths)
  ultimately show ?thesis
    using demo_bytes_within by (simp add: visible_replay_bytes_def genesis_files demo_config_def[THEN arg_cong, of sc_registry])
qed

theorem visible_validation_exact_witness:
  "validate_visible_s4b demo_ext demo_config demo_adapter genesis_store =
     Inr \<lparr>vs_revision = demo_store_revision, vs_identity = Some demo_identity\<rparr>"
proof -
  have "scan_visible demo_ext demo_config genesis_store = Inr demo_snapshot \<and> visible_directories_canonical demo_ext genesis_store \<and>
      visible_replay_bytes demo_ext demo_config genesis_store \<le> MAX_REPLAY_TEMPORARY_BYTES"
    by (intro conjI genesis_scan genesis_directories genesis_replay_bytes)
  from visible_validation_exact[OF genesis_conforms, THEN conjunct2, THEN mp, OF this]
  show ?thesis by (simp add: demo_snapshot_def)
qed

definition genesis_checkpoint :: admission_checkpoint where
  "genesis_checkpoint = (fed_checkpoint CHR ''1'')\<lparr>ac_store := si_logical demo_identity, ac_revision := demo_store_revision\<rparr>"

definition genesis_subject :: qualified_entity_ref where
  "genesis_subject = \<lparr>qe_store = si_logical demo_identity, qe_domain = ''wayjournal.identity'', qe_entity = 2\<rparr>"

theorem verified_proof_exact_witness:
  "verified_proof_locked demo_ext demo_config demo_adapter genesis_store (Inr (Some genesis_checkpoint)) genesis_subject 1 0 =
     Inr (from_checkpoint demo_ext genesis_subject 1 demo_store_revision (ac_trust genesis_checkpoint) 0)"
proof -
  have "proof_present demo_ext demo_config genesis_store (Inr (Some genesis_checkpoint)) genesis_subject 1 genesis_checkpoint
      demo_snapshot demo_identity"
    using genesis_scan by (simp add: proof_present_def genesis_checkpoint_def genesis_subject_def demo_snapshot_def demo_genesis_def)
  from verified_proof_exact[OF genesis_conforms, THEN conjunct2, THEN mp, OF conjI[OF this conjI[OF genesis_directories genesis_replay_bytes]]]
  show ?thesis by (simp add: demo_snapshot_def)
qed

end
