(* ===== verification/Wj_Phase.thy ===== *)
theory Wj_Phase
  imports Wj_Gate
begin

text \<open>
  Retirement and replacement of a pending slot (\<open>federation/pending.rs\<close>): what a retired slot leaves, and
  the atomicity of a phase change.
\<close>

section \<open>Retirement\<close>

lemma clean_slots_one:
  assumes "removable slot" "bt_wf d"
  shows "clean_slots [(name, slot)] d = (Inr (), bt_remove name d)"
proof -
  have "remove_contents 0 maximum_cleanup_entries 0 slot = (None, [], maximum_cleanup_entries - node_entries (DirNode slot))"
    using assms(1) by (intro remove_contents_total) (auto simp: removable_def list_all_iff)
  moreover have "bt_remove name (bt_insert name (DirNode []) d) = bt_remove name d"
    using assms(2) by (intro bt_extensional) (simp_all add: bt_wf_insert bt_wf_remove bt_get_remove bt_get_insert fun_eq_iff)
  ultimately show ?thesis by (simp add: unlink_dir_def bt_get_insert)
qed

lemma retire_operation_removes:
  assumes "removable (dp_directory pending)" "bt_wf d"
  shows "retire_operation fault pending d =
    (if fault ''pending-directory-unlinked'' then Inl (RetireExit ''pending-directory-unlinked'') else Inr (), bt_remove (dp_name pending) d)"
  by (simp only: retire_operation_def clean_slots_one[OF assms] prod.case sum.case)

lemma retire_named_disposable_removes:
  assumes "list_all (\<lambda>(name, slot). removable slot \<and> (expected = None \<or> Some name = expected)) slots" "bt_wf d"
  shows "retire_named_disposable slots expected d = (Inr (), fold (\<lambda>s. bt_remove (fst s)) slots d)"
  using assms
proof (induction slots arbitrary: d)
  case (Cons s slots)
  obtain name slot where s: "s = (name, slot)" by fastforce
  have "clean_slots [s] d = (Inr (), bt_remove name d)" using Cons.prems by (simp add: s clean_slots_one del: clean_slots.simps)
  then show ?case using Cons by (auto simp: s bt_wf_remove simp del: clean_slots.simps)
qed simp

section \<open>Replacing the root document\<close>

lemmas pd_simps = pd_bind_def pd_return_def pd_fail_def pd_read_def pd_step_def pd_store_step_def pd_hit_def

text \<open>The closed layout of a slot.\<close>

definition pending_slot :: "directory \<Rightarrow> nat \<times> bytes \<Rightarrow> directory \<Rightarrow> directory" where
  "pending_slot additions root repo =
     [(''additions'', DirNode additions), (''pending.json'', FileNode (fst root) (snd root)), (''repo.git'', DirNode repo)]"

lemma pending_temporary_order:
  "pending_temporary X u < ''additions''" "pending_temporary X u < ''pending.json''" "pending_temporary X u < ''repo.git''"
  "pending_temporary X u \<notin> {''additions'', ''pending.json'', ''repo.git''}" "''pending.json'' \<noteq> pending_temporary X u"
  by (simp_all add: pending_temporary_def less_char_def)

lemma pending_components:
  "validate_component ''pending.json'' = Inr ()" "validate_component ''additions'' = Inr ()" "validate_component ''repo.git'' = Inr ()"
  by (simp_all add: validate_component_def)

lemma pending_temporary_component: "uuid_component X \<Longrightarrow> validate_component (pending_temporary X u) = Inr ()"
  using tx_components(1)[of X u] by (auto simp: validate_component_def pending_temporary_def split: if_splits)

lemma slot_with_temporary:
  "bt_insert (pending_temporary X u) n (pending_slot a root r) = (pending_temporary X u, n) # pending_slot a root r"
  using pending_temporary_order[of X u] by (simp add: pending_slot_def)

lemma closed_layout_clean: "validate_closed_layout X (pending_slot a root r) = (Inr (), pending_slot a root r)"
  using pending_components
  by (simp add: validate_closed_layout_def pd_simps pending_slot_def bounded_names_def bt_keys_def require_exact_owned_names_def
      require_directory_def dir_kind_def insort_key.simps less_eq_char_def less_char_def Let_def)

lemma closed_layout_temporary:
  assumes "temp_ok X u"
  shows "validate_closed_layout X ((pending_temporary X u, FileNode mode part) # pending_slot a root r) = (Inr (), pending_slot a root r)"
proof -
  let ?t = "pending_temporary X u" and ?d = "(pending_temporary X u, FileNode mode part) # pending_slot a root r"
  have comp: "validate_component ?t = Inr ()" using assms by (simp add: temp_ok_def pending_temporary_component)
  have names: "bounded_names ?d 4 = Inr [?t, ''additions'', ''pending.json'', ''repo.git'']"
    using pending_temporary_order[of X u]
    by (simp add: bounded_names_def bt_keys_def pending_slot_def insort_key.simps less_eq_char_def less_char_def less_imp_le)
  have str: "is_str ?t"
    using uuid_ascii[of X u] assms by (auto intro!: is_str_ascii simp: temp_ok_def pending_temporary_def is_ascii_Cons)
  have parse: "strip_prefix ?t ''.pending.tmp-'' = Some (uuid_to_string X u)" "uuid_parse_str X (uuid_to_string X u) = Some u"
      "uuid_version_num X u = 7" "uuid_is_rfc4122 X u"
    using assms by (auto simp: temp_ok_def pending_temporary_def strip_prefix_def starts_with_def uuid_roundtrip_def uuid_ok_def uuid_to_string_def)
  have rest: "clean_layout X [''additions'', ''pending.json'', ''repo.git''] e = (Inr (), e)" for e by (simp add: pd_simps)
  have reg: "dir_kind ?d ?t = Inr RegularFile" "unlink_file ?d ?t = Inr (pending_slot a root r)"
    using comp by (simp_all add: dir_kind_def unlink_file_def)
  have clean: "clean_layout X [?t, ''additions'', ''pending.json'', ''repo.git''] ?d = (Inr (), pending_slot a root r)"
    unfolding clean_layout.simps(2)[of X ?t] using pending_temporary_order(4)[of X u] str parse reg rest by (simp add: pd_simps del: clean_layout.simps)
  have names3: "bounded_names (pending_slot a root r) 4 = Inr [''additions'', ''pending.json'', ''repo.git'']"
    by (simp add: bounded_names_def bt_keys_def pending_slot_def insort_key.simps less_eq_char_def less_char_def)
  show ?thesis
    using closed_layout_clean[of X a root r] unfolding validate_closed_layout_def
    by (simp only: pd_bind_def pd_read_def names names3 clean rest map_err_def sum.case prod.case)
qed

text \<open>
  C23: Changing the phase of a pending synchronisation is atomic. Stopped before the rename, and even with the
  temporary file partly filled, the next validation of the layout restores the slot with the old root
  document; stopped after it, the slot has exactly the new one. The change is reported exactly when it was not stopped.
\<close>

theorem pending_replace_atomic:
  assumes "temp_ok X u" "encode_document X doc = Inr bs"
    and "replace_document X fault u doc (pending_slot a root r) = (res, d)"
  shows "validate_closed_layout X d =
      (Inr (), pending_slot a (if fault ''phase-temporary-durable'' then root else (private_mode, bs)) r) \<and>
    (res = Inr doc \<longleftrightarrow> \<not> fault ''phase-temporary-durable'' \<and> \<not> fault ''phase-renamed'' \<and> \<not> fault ''phase-parent-durable'') \<and>
    validate_closed_layout X (bt_insert (pending_temporary X u) (FileNode private_mode part) (pending_slot a root r)) =
      (Inr (), pending_slot a root r)"
proof -
  let ?t = "pending_temporary X u" and ?s = "pending_slot a root r"
  have comp: "validate_component ?t = Inr ()" using assms(1) by (simp add: temp_ok_def pending_temporary_component)
  have get: "bt_get ?s ?t = None" using pending_temporary_order(4)[of X u] by (auto simp: pending_slot_def)
  have create: "write_new ?s ?t bs = Inr ((?t, FileNode private_mode bs) # ?s)"
    using comp get by (simp add: write_new_def create_file_def write_all_def bt_insert_twice slot_with_temporary)
  have ren: "rename_file ((?t, FileNode private_mode bs) # ?s) ?t ''pending.json'' = Inr (pending_slot a (private_mode, bs) r)"
    using comp pending_components pending_temporary_order[of X u]
    by (simp add: rename_file_def pending_slot_def less_char_def)
  have len: "length bs \<le> MAX_PENDING_ROOT_BYTES"
    using assms(2) by (auto simp: encode_document_def rbind_Inr_iff map_err_Inr_iff split: if_splits)
  have reread: "rbind (map_err PendingStore (open_file (pending_slot a (private_mode, bs) r) ''pending.json'')) (\<lambda>f.
       map_err PendingStore (read_file_bounded (snd f) MAX_PENDING_ROOT_BYTES)) = Inr bs"
    using len pending_components by (simp add: open_file_def pending_slot_def read_file_bounded_def)
  note clean = closed_layout_clean[of X a "(private_mode, bs)" r] closed_layout_temporary[OF assms(1), of private_mode bs a root r]
    closed_layout_temporary[OF assms(1), of private_mode part a root r]
  show ?thesis
    using assms(2,3) clean reread by (auto simp: replace_document_def pd_simps create ren slot_with_temporary split: if_splits)
qed

end
