(* ===== verification/Wj_Pending_Examples.thy ===== *)
theory Wj_Pending_Examples
  imports Wj_Phase Wj_Projection_Examples Wj_Store_Examples
begin

text \<open>The pending properties at a document of a first synchronisation and at two slots.\<close>

definition fed_oid :: "char \<Rightarrow> git_oid" where "fed_oid digit = \<lparr>go_format = Sha1, go_hex = replicate 40 digit\<rparr>"

definition pending_demo :: "git_sync_pending_phase \<Rightarrow> pending_document" where
  "pending_demo phase =
     \<lparr>pd_schema = PENDING_SCHEMA, pd_operation = demo_uuid_text 1, pd_phase = phase, pd_store = fed_store, pd_trust = fed_trust,
      pd_remote = \<lparr>ar_locator = fed_locator, ar_reference = ''refs/heads/main''\<rparr>, pd_format = Sha1,
      pd_original_commit = fed_oid CHR ''1'', pd_original_revision = pj_revision,
      pd_advance_commit = fed_oid CHR ''1'', pd_advance_revision = pj_revision, pd_local_tip = fed_oid CHR ''1'',
      pd_remote_tip = fed_oid CHR ''2'', pd_candidate_commit = fed_oid CHR ''3'', pd_candidate_revision = pj_revision,
      pd_candidate_parents = [fed_oid CHR ''1'', fed_oid CHR ''2''],
      pd_additions_count = 0, pd_additions_bytes = 0, pd_index_digest = replicate 32 CHR ''i'',
      pd_predecessor = None, pd_stale_remote = None\<rparr>"

definition pending_docs :: "json list" where
  "pending_docs = [pending_to_value (table_ext []) (pending_demo Prepared), pending_to_value (table_ext []) (pending_demo FilesPublished)]"

definition pending_ext :: ext where "pending_ext = table_ext pending_docs"

lemma pending_laws: "projection_laws pending_ext" "temp_ok pending_ext 2"
  by (simp_all add: pending_ext_def projection_laws_def checkpoint_laws_def temp_ok_def table_laws table_json_roundtrip pending_docs_def
      uuid_ok_def uuid_component_def table_functions demo_uuid_text_def demo_uuids_def validate_component_def)

lemma pending_value_ext: "pending_to_value (table_ext d) = pending_to_value (table_ext [])"
  by (simp add: fun_eq_iff pending_to_value_def pending_values_def logical_id_to_value_def revision_ref_to_value_def table_functions)

lemma pending_demo_ok: "document_ok pending_ext fed_url (pending_demo p)"
  by (simp add: document_ok_def pending_demo_def fed_store_def fed_trust_def pj_revision_def fed_remote logical_ok_def uuid_ok_def pending_ext_def
      table_functions demo_uuids_def demo_uuid_text_def operation_id_from_str_def oid_ok_def fed_oid_def git_oid_Inr is_lower_hex_def
      less_eq_char_def list_all_iff)

lemma pending_demo_valid: "p \<noteq> RemoteCasStale \<Longrightarrow> pending_document_validate (pending_demo p) = Inr ()"
proof -
  assume p: "p \<noteq> RemoteCasStale"
  have hex: "replicate 40 CHR ''1'' < replicate 40 CHR ''2''" by code_simp
  show ?thesis
    unfolding pending_validate_Inr
    using p by (simp add: pending_demo_def fed_oid_def oid_key_def chunk_count_def is_ok_def MAX_BULK_ADDITIONS_def MAX_BULK_ADDITION_BYTES_def
      MAX_CANONICAL_ENTRIES_def MAX_TOTAL_CANONICAL_BYTES_def ADDITIONS_PER_CHUNK_def
      MAX_ADDITION_CHUNKS_def hex)
qed

lemma pending_demo_inj: "pending_to_value (table_ext []) (pending_demo p) = pending_to_value (table_ext []) (pending_demo q) \<Longrightarrow> p = q"
proof -
  assume "pending_to_value (table_ext []) (pending_demo p) = pending_to_value (table_ext []) (pending_demo q)"
  then have "pending_to_value pending_ext (pending_demo p) = pending_to_value pending_ext (pending_demo q)"
    unfolding pending_ext_def pending_value_ext[of pending_docs] .
  then have "Some (pending_demo p) = Some (pending_demo q)"
    using pending_read[OF pending_laws(1) pending_demo_ok[of p]] pending_read[OF pending_laws(1) pending_demo_ok[of q]] by (simp only:)
  then show "p = q" by (simp add: pending_demo_def)
qed

lemma pending_demo_encode:
  "encode_document pending_ext (pending_demo Prepared) = Inr [CHR 0x00, CHR 0x0A]"
  "encode_document pending_ext (pending_demo FilesPublished) = Inr [CHR 0x01, CHR 0x0A]"
proof -
  have chars: "char_of (0 :: nat) = CHR 0x00" "char_of (1 :: nat) = CHR 0x01" by code_simp+
  have d: "distinct pending_docs" using pending_demo_inj by (auto simp: pending_docs_def)
  have n: "pending_to_value pending_ext (pending_demo Prepared) = pending_docs ! 0"
      "pending_to_value pending_ext (pending_demo FilesPublished) = pending_docs ! 1"
    by (simp_all add: pending_ext_def pending_value_ext[of pending_docs]) (simp_all add: pending_docs_def)
  have "encode_pretty pending_ext (pending_docs ! 0) = Inr [CHR 0x00, CHR 0x0A]"
      "encode_pretty pending_ext (pending_docs ! 1) = Inr [CHR 0x01, CHR 0x0A]"
    unfolding pending_ext_def using table_encode[OF d, of 0] table_encode[OF d, of 1] chars pending_value_good
    by (simp_all add: pending_docs_def)
  then show "encode_document pending_ext (pending_demo Prepared) = Inr [CHR 0x00, CHR 0x0A]"
      "encode_document pending_ext (pending_demo FilesPublished) = Inr [CHR 0x01, CHR 0x0A]"
    by (simp_all add: encode_document_def pending_demo_valid n MAX_PENDING_ROOT_BYTES_def)
qed

theorem pending_document_codec_witness:
  "decode_document pending_ext fed_url [CHR 0x00, CHR 0x0A] = Inr (pending_demo Prepared) \<and>
   pd_candidate_parents (pending_demo Prepared) \<noteq> []"
  using pending_document_codec[OF pending_laws(1), of fed_url "pending_demo Prepared" "[CHR 0x00, CHR 0x0A]"]
    pending_demo_ok[of Prepared] pending_demo_encode(1) by blast

text \<open>A directory with one slot that was abandoned before its root document was published.\<close>

definition disposable_slots :: directory where
  "disposable_slots = [(demo_uuid_text 1, DirNode [(''additions'', DirNode [(''index'', FileNode private_mode ''x'')])])]"

text \<open>A directory with one slot whose root document does not decode.\<close>

definition broken_slots :: directory where
  "broken_slots = [(demo_uuid_text 1, DirNode [(''pending.json'', FileNode private_mode ''x'')])]"

definition disposable_found :: pending_discovery where
  "disposable_found =
     \<lparr>pv_active = None, pv_disposable = [(demo_uuid_text 1, [(''additions'', DirNode [(''index'', FileNode private_mode ''x'')])])],
      pv_predecessor = None\<rparr>"

lemma disposable_discovered: "discover pending_ext fed_url disposable_slots = Inr disposable_found"
  by (simp add: discover_def disposable_found_def disposable_slots_def bounded_names_def bt_keys_def read_slot_def operation_id_from_str_def pending_ext_def
      table_functions demo_uuids_def demo_uuid_text_def dir_kind_def open_dir_def open_file_def validate_component_def is_str_ascii is_ascii_Cons)

lemma example_slots:
  "dir_wf disposable_slots" "dir_wf broken_slots" "has_root_document broken_slots"
  "removable [(''additions'', DirNode [(''index'', FileNode private_mode ''x'')])]"
  by (simp_all add: disposable_slots_def broken_slots_def validate_component_def demo_uuid_text_def demo_uuids_def has_root_document_def
      removable_def maximum_cleanup_entries_def MAX_PENDING_REPO_FS_ENTRIES_def)

theorem pending_gate_witness:
  "gate_without_git pending_ext fed_url empty_store [] = Inr Allow \<and>
   clean_disposable_locked pending_ext fed_url disposable_slots = (Inr (), []) \<and>
   (\<exists>e. clean_disposable_locked pending_ext fed_url broken_slots = (Inl e, broken_slots))"
proof (intro conjI)
  show "gate_without_git pending_ext fed_url empty_store [] = Inr Allow"
    by (rule pending_gate[THEN conjunct1, THEN iffD2]) simp_all
  show "clean_disposable_locked pending_ext fed_url disposable_slots = (Inr (), [])"
    using pending_gate[OF example_slots(1), of pending_ext fed_url empty_store disposable_found] disposable_discovered example_slots(4)
    by (simp add: disposable_found_def)
  show "\<exists>e. clean_disposable_locked pending_ext fed_url broken_slots = (Inl e, broken_slots)"
    using pending_gate[OF example_slots(2), of pending_ext fed_url empty_store] example_slots(3) by simp
qed

theorem pending_replace_atomic_witness:
  "\<exists>d. replace_document pending_ext (\<lambda>point. point = ''phase-temporary-durable'') 2 (pending_demo FilesPublished)
        (pending_slot [] (private_mode, [CHR 0x00, CHR 0x0A]) []) = (Inl (PendingExit ''phase-temporary-durable''), d) \<and>
      validate_closed_layout pending_ext d = (Inr (), pending_slot [] (private_mode, [CHR 0x00, CHR 0x0A]) [])"
proof -
  let ?fault = "\<lambda>point. point = ''phase-temporary-durable''" and ?s = "pending_slot [] (private_mode, [CHR 0x00, CHR 0x0A]) []"
  obtain res d where r: "replace_document pending_ext ?fault 2 (pending_demo FilesPublished) ?s = (res, d)" by fastforce
  have "res = Inl (PendingExit ''phase-temporary-durable'')"
    using r pending_demo_encode(2) pending_temporary_component[of pending_ext 2] pending_temporary_order(4)[of pending_ext 2] pending_laws(2)
    by (simp add: replace_document_def pd_simps write_new_def create_file_def pending_slot_def temp_ok_def)
  then show ?thesis using r pending_replace_atomic[OF pending_laws(2) pending_demo_encode(2) r] by simp
qed

end
