(* ===== verification/Wj_Exclusive_Examples.thy ===== *)
theory Wj_Exclusive_Examples
  imports Wj_Exclusive Wj_Visible_Examples Wj_Pending_Examples
begin

text \<open>An exclusive operation and a read at the genesis store, with a pending slot that was abandoned.\<close>

definition genesis_live :: "directory \<Rightarrow> live_store" where
  "genesis_live pending = \<lparr>lv_tx = start genesis_store, lv_pending = pending, lv_checkpoints = []\<rparr>"

lemma genesis_residue: "residue [] [] genesis_store"
  by (simp add: residue_def genesis_store_def empty_store_def)

lemma genesis_live_wf: "live_wf (genesis_live [])"
  using genesis_residue by (simp add: live_wf_def genesis_live_def start_def residue_def residue_wf_def)

lemma recover_nothing:
  assumes "residue [] [] (tx_dirs s)"
  shows "recover_locked X J C bar s = (Inr (), s)"
  using assms listed_journals_none[of "tx_dirs s" X]
  by (simp add: residue_def recover_locked_def tx_bind_def tx_read_def tx_then_def tx_return_def
      clean_unprepared_stages_def bounded_names_def bt_keys_def)

lemma clean_nothing: "clean_disposable_locked X U [] = (Inr (), [])"
  by (simp add: clean_disposable_locked_def discover_def bounded_names_def bt_keys_def)

lemma genesis_recovers: "recover_store demo_ext fed_url demo_journal demo_config bar (genesis_live []) = (Inr (), genesis_live [])"
  using recover_nothing[of "start genesis_store"] genesis_residue
  by (simp add: recover_store_def genesis_live_def clean_nothing gate_empty start_def)

definition genesis_operation :: exclusive_operation where
  "genesis_operation = \<lparr>op_store = genesis_live [], op_snapshot = Some demo_snapshot, op_recovered = True, op_invalidated = False\<rparr>"

lemma genesis_operation_reachable: "op_reachable demo_ext fed_url demo_journal demo_config genesis_operation"
proof (rule op_recover[OF op_begin[OF genesis_live_wf]])
  show "recover_locked_with_barrier demo_ext fed_url demo_journal demo_config (\<lambda>_. False) (begin_exclusive_operation (genesis_live [])) =
      (Inr (), genesis_operation)"
    using genesis_scan
    by (simp add: recover_locked_with_barrier_def recover_without_snapshot_locked_with_barrier_def begin_exclusive_operation_def
        genesis_recovers genesis_operation_def) (simp add: genesis_live_def start_def)
qed

theorem exclusive_state_sound_witness:
  "op_recovered genesis_operation \<and> settled (op_store genesis_operation) \<and> snapshot_locked genesis_operation = Inr demo_snapshot"
  using exclusive_state_sound[OF genesis_operation_reachable]
  by (auto simp: genesis_operation_def snapshot_locked_def)

text \<open>A read of the store whose pending directory holds the abandoned slot needs one recovery.\<close>

theorem store_read_returns_witness:
  "read_within 0 pending_ext fed_url demo_journal demo_config (genesis_live disposable_slots) = None \<and>
   (\<exists>r t. read_within 1 pending_ext fed_url demo_journal demo_config (genesis_live disposable_slots) = Some (r, t) \<and>
      store_read pending_ext fed_url demo_journal demo_config (genesis_live disposable_slots) = Some (r, t) \<and> live_wf t)"
proof -
  have "live_wf (genesis_live disposable_slots)"
    using genesis_live_wf by (simp add: live_wf_def genesis_live_def disposable_slots_def)
  moreover have "needs_exclusive pending_ext fed_url (genesis_live disposable_slots) = Inr True"
    by (simp add: needs_exclusive_def gate_without_git_def genesis_live_def disposable_discovered disposable_found_def)
  then have "read_within 0 pending_ext fed_url demo_journal demo_config (genesis_live disposable_slots) = None"
    by (subst read_within.simps) simp
  ultimately show ?thesis
    using store_read_returns[of "genesis_live disposable_slots" pending_ext fed_url demo_journal demo_config] by blast
qed

end
