(* ===== verification/Wj_Cache_Examples.thy ===== *)
theory Wj_Cache_Examples
  imports Wj_Cache_Laws Wj_Exclusive_Examples
begin

text \<open>The proof cache at the presence proof of the genesis record, with the genesis store as its authority.\<close>

section \<open>Documents\<close>

definition genesis_proof :: verified_proof where
  "genesis_proof = from_checkpoint demo_ext genesis_subject 1 demo_store_revision (ac_trust genesis_checkpoint) 0"

definition genesis_vector :: revision_vector where
  "genesis_vector = \<lparr>rv_entries = [\<lparr>rve_store = si_logical demo_identity, rve_revision = demo_store_revision\<rparr>]\<rparr>"

lemma demo_path_length: "length demo_path = 114" by (simp add: demo_path_text)

lemma demo_digests:
  "ls_fingerprint (si_logical demo_identity) = demo_hash (frame demo_path @ frame demo_bytes)"
  "sr_digest demo_store_revision = demo_hash (frame demo_path @ frame demo_bytes)"
proof -
  have s: "32 \<le> length (frame demo_path @ frame demo_bytes)" by (simp add: frame_def demo_path_length)
  show "ls_fingerprint (si_logical demo_identity) = demo_hash (frame demo_path @ frame demo_bytes)"
    using demo_hash_suffix[OF s, of GENESIS_FINGERPRINT_DOMAIN "[]"]
    by (simp add: demo_identity_def genesis_fingerprint_def update_frame_eq demo_functions)
  show "sr_digest demo_store_revision = demo_hash (frame demo_path @ frame demo_bytes)"
    using demo_hash_suffix[OF s, of "STORE_REVISION_DOMAIN @ frame demo_manifest_path @ frame [CHR 0x01, CHR 0x0A]" "[]"]
    by (simp add: demo_store_revision_def framed_hash_def frame_entries_eq demo_functions)
qed

lemma genesis_trust: "ac_trust genesis_checkpoint = replicate 32 CHR ''t''"
  by (simp add: genesis_checkpoint_def fed_checkpoint_def fed_trust_def)

lemma demo_trust_length: "length demo_trust_text = 64"
  using hex_of_spec[of "replicate 32 CHR ''t''"] by (simp add: demo_trust_text_def)

lemma genesis_proof_id: "vp_id genesis_proof = demo_hash (frame demo_trust_text @ frame (demo_time_text 0))"
proof -
  let ?s = "frame demo_trust_text @ frame (demo_time_text 0)"
  let ?fs = "proof_id_fields demo_ext genesis_subject 1 demo_store_revision (ac_trust genesis_checkpoint) 0"
  have "PROOF_ID_DOMAIN @ concat (map frame ?fs) = (PROOF_ID_DOMAIN @ concat (map frame (take 8 ?fs))) @ ?s"
    by (simp add: proof_id_fields_def demo_functions genesis_trust demo_trust_text_def)
  moreover have "32 \<le> length ?s" by (simp add: frame_def demo_trust_length)
  ultimately show ?thesis
    using demo_hash_suffix[of ?s "PROOF_ID_DOMAIN @ concat (map frame (take 8 ?fs))" "[]"]
    by (simp add: genesis_proof_def from_checkpoint_def compute_proof_id_def fold_frames demo_functions)
qed

lemma genesis_documents:
  "raw_checkpoint_to_value (raw_of_checkpoint demo_ext genesis_checkpoint) = demo_docs ! 5"
  "raw_revision_vector_to_value demo_ext \<lparr>rrv_entries = rv_entries genesis_vector, rrv_schema = REVISION_VECTOR_SCHEMA_V1\<rparr> = demo_docs ! 6"
  "raw_proof_to_value demo_ext (raw_of_proof genesis_proof) = demo_docs ! 7"
  "cache_entry_value (demo_docs ! 6) (demo_docs ! 7) = demo_docs ! 8"
proof -
  have texts: "digest_to_string demo_ext (ls_fingerprint (si_logical demo_identity)) = demo_digest_text"
      "digest_to_string demo_ext (sr_digest demo_store_revision) = demo_digest_text"
      "digest_to_string demo_ext (ac_trust genesis_checkpoint) = demo_trust_text"
      "digest_to_string demo_ext (vp_id genesis_proof) = demo_proof_text"
    by (simp_all add: demo_functions demo_digests demo_digest_text_def genesis_trust demo_trust_text_def genesis_proof_id demo_proof_text_def)
  have u: "uuid_to_string demo_ext 2 = ''01913f1d-8e2a-7c30-8f4a-426614174002''" "uuid_to_string demo_ext 1 = ''01913f1d-8e2a-7c30-8f4a-426614174001''"
    by (simp_all add: demo_functions demo_uuid_text_def demo_uuids_def)
  have ids: "ls_uuid (si_logical demo_identity) = 2" "sr_algorithm demo_store_revision = WayjournalBlake3FramedV1"
    by (simp_all add: demo_identity_def demo_store_revision_def)
  have docs: "demo_docs ! 5 = demo_checkpoint_doc" "demo_docs ! 6 = demo_vector_doc" "demo_docs ! 7 = demo_proof_doc" "demo_docs ! 8 = demo_entry_doc"
    by (simp_all add: demo_docs_def)
  have store: "logical_id_to_value demo_ext (si_logical demo_identity) = demo_store_value"
    using texts u ids by (simp add: document_eqs demo_store_value_def)
  have rev: "revision_ref_to_value demo_ext demo_store_revision = demo_revision_value"
    using texts ids by (simp add: document_eqs demo_revision_value_def REVISION_ALGORITHM_V1_def)
  show "raw_revision_vector_to_value demo_ext \<lparr>rrv_entries = rv_entries genesis_vector, rrv_schema = REVISION_VECTOR_SCHEMA_V1\<rparr> = demo_docs ! 6"
    using store rev unfolding docs
    by (simp add: raw_revision_vector_to_value_def entry_to_value_def bt_of_list_def less_char_def genesis_vector_def demo_vector_doc_def
        REVISION_VECTOR_SCHEMA_V1_def)
  show "cache_entry_value (demo_docs ! 6) (demo_docs ! 7) = demo_docs ! 8"
    unfolding docs by (simp add: cache_entry_value_eq demo_entry_doc_def PROJECTION_CACHE_ENTRY_SCHEMA_V1_def)
  show "raw_checkpoint_to_value (raw_of_checkpoint demo_ext genesis_checkpoint) = demo_docs ! 5"
    using texts u ids unfolding docs
    by (simp add: raw_value_eq checkpoint_fields_def raw_checkpoint_values_def raw_of_checkpoint_def demo_checkpoint_doc_def genesis_checkpoint_def
        fed_checkpoint_def fed_locator_def CHECKPOINT_SCHEMA_def REVISION_ALGORITHM_V1_def)
  show "raw_proof_to_value demo_ext (raw_of_proof genesis_proof) = demo_docs ! 7"
    using texts u store rev unfolding docs
    by (simp add: raw_proof_to_value_def raw_of_proof_def qualified_to_value_def bt_of_list_def less_char_def genesis_proof_def
        from_checkpoint_def genesis_subject_def demo_proof_doc_def VERIFIED_PROOF_SCHEMA_V1_def demo_functions demo_time_text_def)
qed


lemma cache_docs_encode:
  "encode_pretty demo_ext (demo_docs ! 5) = Inr [CHR 0x05, CHR 0x0A]" "encode_pretty demo_ext (demo_docs ! 6) = Inr [CHR 0x06, CHR 0x0A]"
  "encode_pretty demo_ext (demo_docs ! 7) = Inr [CHR 0x07, CHR 0x0A]" "encode_pretty demo_ext (demo_docs ! 8) = Inr [CHR 0x08, CHR 0x0A]"
proof -
  have chars: "char_of (5 :: nat) = CHR 0x05" "char_of (6 :: nat) = CHR 0x06" "char_of (7 :: nat) = CHR 0x07" "char_of (8 :: nat) = CHR 0x08"
    by code_simp+
  have docs: "demo_docs ! 5 = demo_checkpoint_doc" "demo_docs ! 6 = demo_vector_doc" "demo_docs ! 7 = demo_proof_doc" "demo_docs ! 8 = demo_entry_doc"
    by (simp_all add: demo_docs_def)
  have "reject_floats demo_checkpoint_doc = Inr ()" "reject_floats demo_vector_doc = Inr ()" "reject_floats demo_proof_doc = Inr ()"
      "reject_floats demo_entry_doc = Inr ()"
    by (simp_all add: demo_checkpoint_doc_def demo_vector_doc_def demo_proof_doc_def demo_entry_doc_def demo_store_value_def demo_revision_value_def)
  then show "encode_pretty demo_ext (demo_docs ! 5) = Inr [CHR 0x05, CHR 0x0A]" "encode_pretty demo_ext (demo_docs ! 6) = Inr [CHR 0x06, CHR 0x0A]"
      "encode_pretty demo_ext (demo_docs ! 7) = Inr [CHR 0x07, CHR 0x0A]" "encode_pretty demo_ext (demo_docs ! 8) = Inr [CHR 0x08, CHR 0x0A]"
    using demo_pretty_nth[of 5] demo_pretty_nth[of 6] demo_pretty_nth[of 7] demo_pretty_nth[of 8] chars docs
    by (simp_all add: encode_pretty_def)
qed

lemma demo_projection_laws: "projection_laws demo_ext"
  using demo_laws by (simp add: projection_laws_def checkpoint_laws_def)

lemma demo_lengths: "length (ls_fingerprint (si_logical demo_identity)) = 32" "length (sr_digest demo_store_revision) = 32" "length (vp_id genesis_proof) = 32"
  using demo_laws(6) by (simp_all add: demo_digests genesis_proof_id blake3_length_def demo_functions)

lemma genesis_identity: "ls_uuid (si_logical demo_identity) = 2" by (simp add: demo_identity_def)

lemma genesis_readable: "revision_vector_readable demo_ext genesis_vector" "proof_readable demo_ext genesis_proof"
  "checkpoint_ok demo_ext fed_url genesis_checkpoint"
proof -
  have "domain_id_from_str ''wayjournal.identity'' = Inr ''wayjournal.identity''" by code_simp
  moreover have store: "logical_ok demo_ext (si_logical demo_identity)" by (simp add: logical_ok_def demo_lengths genesis_identity demo_uuid_ok)
  moreover have fields: "vp_subject genesis_proof = genesis_subject" "vp_record genesis_proof = 1" "vp_revision genesis_proof = demo_store_revision"
      "vp_trust genesis_proof = replicate 32 CHR ''t''"
    by (simp_all add: genesis_proof_def from_checkpoint_def genesis_trust)
  ultimately show "proof_readable demo_ext genesis_proof"
    using demo_lengths by (simp add: proof_readable_def demo_projection_laws proof_ok_def genesis_subject_def demo_uuid_ok)
  show "revision_vector_readable demo_ext genesis_vector"
    using store demo_lengths by (simp add: revision_vector_readable_def demo_projection_laws genesis_vector_def entry_ok_vector_def)
  show "checkpoint_ok demo_ext fed_url genesis_checkpoint"
    using demo_lengths fed_remote
    by (simp add: checkpoint_ok_def genesis_checkpoint_def fed_checkpoint_def fed_trust_def genesis_identity demo_uuid_ok git_oid_Inr is_lower_hex_def
        less_eq_char_def list_all_iff)
qed

lemma genesis_encodings:
  "encode_admission_checkpoint demo_ext genesis_checkpoint = Inr [CHR 0x05, CHR 0x0A]"
  "encode_cache_entry demo_ext genesis_vector genesis_proof = Inr [CHR 0x08, CHR 0x0A]"
proof -
  show "encode_admission_checkpoint demo_ext genesis_checkpoint = Inr [CHR 0x05, CHR 0x0A]"
    by (simp add: encode_checkpoint_Inr genesis_documents cache_docs_encode MAX_ADMISSION_CHECKPOINT_BYTES_def)
  have raw: "encode_raw demo_ext (demo_docs ! 6) = Inr [CHR 0x06, CHR 0x0A]" "encode_raw demo_ext (demo_docs ! 7) = Inr [CHR 0x07, CHR 0x0A]"
    by (simp_all add: encode_raw_Inr cache_docs_encode MAX_PROJECTION_BYTES_def)
  have "recomputed_proof_id demo_ext genesis_proof = vp_id genesis_proof"
    by (simp add: recomputed_proof_id_def genesis_proof_def from_checkpoint_def)
  then have e: "encode_revision_vector demo_ext genesis_vector = Inr [CHR 0x06, CHR 0x0A]"
      "encode_verified_proof demo_ext genesis_proof = Inr [CHR 0x07, CHR 0x0A]"
    using raw genesis_documents(2,3)
    by (simp_all add: encode_revision_vector_def encode_verified_proof_def genesis_vector_def validate_revision_entries_def MAX_VECTOR_STORES_def)
  have read: "from_slice_value demo_ext [CHR 0x06, CHR 0x0A] = Inr (demo_docs ! 6)" "from_slice_value demo_ext [CHR 0x07, CHR 0x0A] = Inr (demo_docs ! 7)"
  proof -
    have "json_depth (demo_docs ! 7) \<le> json_limit" by (simp add: genesis_documents(3)[symmetric] document_depths json_limit_def)
    moreover have "good_json (demo_docs ! 6)" "good_json (demo_docs ! 7)" "json_depth (demo_docs ! 6) \<le> json_limit"
      unfolding genesis_documents(2,3)[symmetric] by (rule good_documents document_depths(2))+
    ultimately show "from_slice_value demo_ext [CHR 0x06, CHR 0x0A] = Inr (demo_docs ! 6)" "from_slice_value demo_ext [CHR 0x07, CHR 0x0A] = Inr (demo_docs ! 7)"
      using raw by (auto intro!: from_slice_strict encode_raw_read(1)[OF demo_projection_laws])
  qed
  have src: "validate_source_dependency genesis_vector genesis_proof = Inr ()"
    by (simp add: validate_source_dependency_def genesis_vector_def genesis_proof_def from_checkpoint_def genesis_subject_def)
  show "encode_cache_entry demo_ext genesis_vector genesis_proof = Inr [CHR 0x08, CHR 0x0A]"
    by (simp add: encode_cache_entry_def src e read genesis_documents(4) cache_docs_encode MAX_PROOF_CACHE_ENTRY_BYTES_def)
qed

section \<open>The genesis store as an authority\<close>

definition genesis_authority :: dependency_store where
  "genesis_authority = \<lparr>ds_expected = si_logical demo_identity, ds_identity = (1, 1), ds_config = demo_config, ds_legacy = demo_adapter,
     ds_store = (genesis_live [])\<lparr>lv_checkpoints := checkpoint_dir (Some [CHR 0x05, CHR 0x0A])\<rparr>\<rparr>"

lemma genesis_visible:
  "validate_visible_s4b demo_ext demo_config demo_adapter genesis_store = Inr \<lparr>vs_revision = demo_store_revision, vs_identity = Some demo_identity\<rparr>"
  using visible_parity(2)[OF genesis_conforms genesis_scan genesis_directories genesis_replay_bytes, of None]
  by (auto simp: validate_visible_s4b_def validate_bounded_replay_def demo_snapshot_def)

lemma genesis_lock: "lock_authorities demo_ext fed_url demo_journal [genesis_authority] = (Inr genesis_vector, [genesis_authority])"
proof -
  let ?s = "ds_store genesis_authority"
  have "decode_admission_checkpoint demo_ext fed_url [CHR 0x05, CHR 0x0A] = Inr genesis_checkpoint"
    using demo_projection_laws by (intro checkpoint_readback[OF _ genesis_readable(3) genesis_encodings(1)]) (simp add: projection_laws_def)
  then have ck: "read_checkpoint demo_ext fed_url (lv_checkpoints ?s) = (Inr (Some genesis_checkpoint), lv_checkpoints ?s)"
    using read_checkpoint_clean[of demo_ext "lv_checkpoints ?s" "Some ([CHR 0x05, CHR 0x0A], genesis_checkpoint)"] recover_residue_clean
    by (simp add: readable_file_def genesis_authority_def)
  have rec: "recover_store demo_ext fed_url demo_journal demo_config (\<lambda>_. False) ?s = (Inr (), ?s)"
    using recover_nothing[of "start genesis_store"] genesis_residue
    by (simp add: recover_store_def genesis_authority_def genesis_live_def clean_nothing gate_empty start_def)
  have dirs: "lv_dirs ?s = genesis_store" by (simp add: genesis_authority_def genesis_live_def start_def)
  have lock: "lock_authority demo_ext fed_url demo_journal genesis_authority = (Inr (), genesis_authority)"
    using rec by (simp add: lock_authority_def) (simp add: genesis_authority_def)
  have "resolve_authority demo_ext fed_url genesis_authority =
      (Inr \<lparr>rve_store = si_logical demo_identity, rve_revision = demo_store_revision\<rparr>, genesis_authority)"
    using ck dirs genesis_visible
    by (simp add: resolve_authority_def authority_entry_def genesis_checkpoint_def) (simp add: genesis_authority_def)
  with lock show ?thesis
    by (simp add: lock_authorities_def revision_vector_new_def validate_revision_entries_def MAX_VECTOR_STORES_def genesis_vector_def)
qed

section \<open>The cache\<close>

definition genesis_cache :: "directory \<Rightarrow> proof_cache" where "genesis_cache root = \<lparr>pc_root = root, pc_identity = (1, 2), pc_bound = True\<rparr>"

definition cached_root :: directory where
  "cached_root = [(final_name demo_ext (vp_id genesis_proof), FileNode private_mode [CHR 0x08, CHR 0x0A])]"

lemma genesis_authority_inputs: "validate_authority_inputs (genesis_cache root) [genesis_authority] = Inr ()"
  by (simp add: validate_authority_inputs_def MAX_VECTOR_STORES_def genesis_cache_def genesis_authority_def)

lemma lower_hex_plain: "list_all is_lower_hex s \<Longrightarrow> is_ascii s" "list_all is_lower_hex s \<Longrightarrow> CHR ''/'' \<notin> set s \<and> CHR 0x00 \<notin> set s"
proof -
  have "is_lower_hex c \<Longrightarrow> (of_char c :: nat) < 128" for c by (auto simp: is_lower_hex_def less_eq_char_def)
  then show "list_all is_lower_hex s \<Longrightarrow> is_ascii s" by (auto simp: is_ascii_def list_all_iff)
  show "list_all is_lower_hex s \<Longrightarrow> CHR ''/'' \<notin> set s \<and> CHR 0x00 \<notin> set s"
    by (auto simp: list_all_iff is_lower_hex_def less_eq_char_def)
qed

lemma lower_hex_component: "list_all is_lower_hex s \<Longrightarrow> s \<noteq> [] \<Longrightarrow> validate_component (s @ FINAL_SUFFIX) = Inr ()"
  using lower_hex_plain(2)[of s] by (auto simp: validate_component_def FINAL_SUFFIX_def append_eq_Cons_conv)

lemma cached_visit:
  "visit_entries demo_ext cached_root =
     Inr ([(vp_id genesis_proof, [CHR 0x08, CHR 0x0A], \<lparr>ce_dependencies = genesis_vector, ce_proof = genesis_proof\<rparr>)], 2)"
proof -
  let ?h = "digest_to_string demo_ext (vp_id genesis_proof)"
  have hex: "length ?h = 64" "list_all is_lower_hex ?h" "blake3_from_hex demo_ext ?h = Some (vp_id genesis_proof)"
    using demo_laws(4) demo_lengths(3) by (simp_all add: hex_roundtrip_def digest_to_string_def)
  have "decode_cache_entry demo_ext [CHR 0x08, CHR 0x0A] = Inr \<lparr>ce_dependencies = genesis_vector, ce_proof = genesis_proof\<rparr>"
    by (rule encode_cache_entry_readable[OF genesis_readable(1,2) genesis_encodings(2)])
  moreover have "is_str (?h @ FINAL_SUFFIX)"
    using lower_hex_plain(1)[OF hex(2)] by (intro is_str_ascii) (simp add: FINAL_SUFFIX_def is_ascii_Cons)
  moreover have "open_file cached_root (?h @ FINAL_SUFFIX) = Inr (private_mode, [CHR 0x08, CHR 0x0A])"
    using lower_hex_component[OF hex(2)] hex(1) by (force simp: open_file_def cached_root_def final_name_def)
  ultimately have "visit_cache_entry demo_ext cached_root (final_name demo_ext (vp_id genesis_proof)) 0 =
      Inr ((vp_id genesis_proof, [CHR 0x08, CHR 0x0A], \<lparr>ce_dependencies = genesis_vector, ce_proof = genesis_proof\<rparr>), 2)"
    using hex
    by (simp add: visit_cache_entry_def final_name_def strip_suffix_append proof_id_parse_def digest_parse_def require_secure_entry_def private_mode_def
        MAX_PROOF_CACHE_ENTRY_BYTES_def checked_total_bytes_def MAX_PROOF_CACHE_TOTAL_BYTES_def)
  then show ?thesis by (simp add: visit_entries_def bounded_names_def bt_keys_def cached_root_def MAX_PROOF_CACHE_ENTRIES_def)
qed

lemma genesis_inserts:
  "cache_insert demo_ext fed_url demo_journal 3 genesis_proof (genesis_cache []) [genesis_authority] =
     (Inr Inserted, genesis_cache cached_root, [genesis_authority])"
proof -
  let ?h = "digest_to_string demo_ext (vp_id genesis_proof)" and ?t = "TEMP_PREFIX @ uuid_to_string demo_ext 3"
  have hex: "length ?h = 64" "list_all is_lower_hex ?h"
    using demo_laws(4) demo_lengths(3) by (simp_all add: hex_roundtrip_def digest_to_string_def)
  have final: "validate_component (final_name demo_ext (vp_id genesis_proof)) = Inr ()"
    using lower_hex_component[OF hex(2)] hex(1) by (force simp: final_name_def)
  have temp: "validate_component ?t = Inr ()" "?t \<noteq> final_name demo_ext (vp_id genesis_proof)"
  proof -
    show "validate_component ?t = Inr ()"
      by (simp add: validate_component_def TEMP_PREFIX_def demo_functions demo_uuid_text_def demo_uuids_def)
    obtain c s where "?h = c # s" "is_lower_hex c" using hex by (cases ?h) auto
    then show "?t \<noteq> final_name demo_ext (vp_id genesis_proof)"
      by (auto simp: final_name_def TEMP_PREFIX_def is_lower_hex_def less_eq_char_def)
  qed
  have "validate_current_source_dependency genesis_vector genesis_proof = Inr ()"
    by (simp add: validate_current_source_dependency_def genesis_vector_def genesis_proof_def from_checkpoint_def genesis_subject_def)
  then have p: "prepare_insert demo_ext fed_url demo_journal genesis_proof (genesis_cache []) [genesis_authority] =
      (Inr [CHR 0x08, CHR 0x0A], [genesis_authority])"
    using genesis_authority_inputs[of "[]"] by (simp add: prepare_insert_def genesis_lock genesis_encodings) (simp add: genesis_cache_def)
  have empty: "visit_entries demo_ext [] = Inr ([], 0)" by (simp add: visit_entries_def bounded_names_def bt_keys_def)
  have "publish_entry [] ?t [CHR 0x08, CHR 0x0A] (final_name demo_ext (vp_id genesis_proof)) = (Inr (), cached_root)"
    using final temp
    by (simp add: publish_entry_def publish_temporary_def create_file_def write_all_def open_file_def rename_file_def require_secure_entry_def
        private_mode_def MAX_PROOF_CACHE_ENTRY_BYTES_def cached_root_def)
  then have "insert_encoded demo_ext 3 (vp_id genesis_proof) [CHR 0x08, CHR 0x0A] [] = (Inr Inserted, cached_root)"
    by (simp add: insert_encoded_def empty cached_visit requested_entry_def MAX_PROOF_CACHE_ENTRIES_def checked_total_bytes_def
        MAX_PROOF_CACHE_TOTAL_BYTES_def)
  moreover have "begin_operation demo_ext (genesis_cache []) = (Inr (), genesis_cache [])"
    using cleanup_nothing[OF empty] by (simp add: begin_operation_def genesis_cache_def)
  ultimately show ?thesis by (simp add: cache_insert_def p) (simp add: genesis_cache_def)
qed

theorem cache_insert_found_witness:
  "cache_insert demo_ext fed_url demo_journal 3 genesis_proof (genesis_cache []) [genesis_authority] =
     (Inr Inserted, genesis_cache cached_root, [genesis_authority]) \<and>
   cache_lookup demo_ext fed_url demo_journal (vp_id genesis_proof) (genesis_cache cached_root) [genesis_authority] =
     (Inr (Hit genesis_proof), genesis_cache cached_root, [genesis_authority])"
  using cache_insert_found[OF genesis_inserts genesis_lock genesis_readable(1,2) genesis_authority_inputs genesis_lock] genesis_inserts
  by (simp add: same_dependency_stores_def genesis_vector_def)


end
