(* ===== verification/Spec2Isabelle.thy ===== *)
theory Spec2Isabelle
  imports Wj_Staging_Examples Wj_Cache_Examples
begin

text \<open>
  \<^bold>\<open>The program.\<close> \<open>wayjournal-core\<close> (\<open>src/crates/wayjournal-core/src\<close>) is an append-only journal
  kept as JSON files below a few reserved directory roots. A client submits \<^emph>\<open>records\<close>; a set of
  records of one actor is published atomically as a \<^emph>\<open>batch\<close> whose \<^emph>\<open>manifest\<close> lists the member
  files with their digests. Every file has one canonical path and one canonical encoding, so that
  the content of a store has a single BLAKE3 \<^emph>\<open>revision\<close>. A store's \<^emph>\<open>identity\<close> is bound to its
  genesis record. Built-in domains (store profile, member and relation catalogs) are folded over the
  causal graph that the records' parent links span. Replicas negotiate capabilities and exchange
  journals through git.

  \<^bold>\<open>The theories\<close>, from the bottom up; each names the source file whose types and functions it
  translates, with the source's names.

  \<^descr> \<open>Wj_Prelude\<close>, \<open>Wj_Btree\<close>: results as sums, byte strings (a HOL character is a byte), UTF-8,
    order checks, big-endian frames, \<open>BTreeMap\<close>/\<open>BTreeSet\<close> as key-ordered lists.
  \<^descr> \<open>Wj_External\<close>: the crates \<open>uuid\<close>, \<open>jiff\<close>, \<open>blake3\<close>, \<open>serde\<close>, \<open>serde_json\<close> as one record \<open>ext\<close>
    of functions, an argument of every definition that calls them; what theorems need of them is
    stated as named predicates (round trips, digest length, the derived struct visitors).
  \<^descr> \<open>Wj_Json\<close> (\<open>json.rs\<close>), \<open>Wj_Ids\<close> (\<open>ids.rs\<close>, \<open>hash.rs\<close>), \<open>Wj_Layout\<close> (\<open>layout.rs\<close>): strict JSON,
    identifiers and digests with their exact languages, classification of paths.
  \<^descr> \<open>Wj_Codec\<close>: the contract of a canonical codec as locales \<open>canonical_codec\<close> and \<open>exact_codec\<close>,
    interpreted by the record, manifest and payload codecs.
  \<^descr> \<open>Wj_Record\<close> (\<open>record.rs\<close>), \<open>Wj_Batch\<close> (\<open>batch.rs\<close>): the domain registry, the record envelope,
    manifests, preparation, validation of members and ownership, retries.
  \<^descr> \<open>Wj_Revision\<close> (\<open>revision.rs\<close>), \<open>Wj_Identity\<close> (\<open>identity.rs\<close>): the store revision one-shot and
    streaming; the two derivations of a store's identity.
  \<^descr> \<open>Wj_Causal\<close> (\<open>causal.rs\<close>): construction of the causal graph by Kahn's algorithm, bounded
    ancestry queries.
  \<^descr> \<open>Wj_Domains\<close>, \<open>Wj_Folds\<close> (\<open>domains.rs\<close>), \<open>Wj_Builtin\<close> (\<open>builtin.rs\<close>): payloads and operations of
    the built-in domains, their folds, the bounded validation fold, the sealed registry.
  \<^descr> \<open>Wj_Directory\<close>, \<open>Wj_Scan\<close> (\<open>store.rs\<close>): directories as trees of nodes with the descriptor-relative
    operations the source uses, collection of the visible files under the entry and byte budgets,
    decoding, the global checks and the snapshot; the entry counter of the streaming scan.
  \<^descr> \<open>Wj_Transaction\<close>, \<open>Wj_View\<close>, \<open>Wj_Recovery\<close> (\<open>store/transaction.rs\<close>): journals, staging, publication
    and recovery as state-passing operations over the directories; a barrier function may end the
    process at any of the source's fault points. \<open>Wj_View\<close> describes what a scan sees of a store
    between two steps, \<open>Wj_Recovery\<close> the recovery from every such state.
  \<^descr> \<open>Wj_Federation\<close> (\<open>federation.rs\<close>), \<open>Wj_Checkpoint\<close> (\<open>federation/checkpoint.rs\<close>), \<open>Wj_Capability\<close>
    (\<open>capability.rs\<close>): object names, trust binding, locators and refs; the admission checkpoint, its
    codec and its file; capability offers and their negotiation.
  \<^descr> \<open>Wj_Sorter\<close>, \<open>Wj_Replay\<close> (\<open>store/streaming.rs\<close>): the external sorter over temporary byte files with
    their budget; the bounded replay with its fact files. \<open>Wj_Replay_Files\<close>, \<open>_Facts\<close>, \<open>_Owners\<close>, \<open>_Batches\<close>
    and \<open>_Folds\<close> say what each pass computes, \<open>Wj_Parity\<close> composes them.
  \<^descr> \<open>Wj_Projection\<close> (\<open>projection.rs\<close>): revision vectors, verified proofs, proof vectors.
  \<^descr> \<open>Wj_Visible\<close> (\<open>store.rs\<close>): the bounded validation of the visible directories and the presence proof.
  \<^descr> \<open>Wj_Additions\<close>, \<open>Wj_Staging\<close>, \<open>Wj_Pending\<close>, \<open>Wj_Gate\<close> (\<open>federation/pending.rs\<close>): the chunk and index codecs
    of staged additions, staging and reading them, the pending document and its codec, the slots of the
    pending directory with discovery, gate, cleanup and retirement. \<open>Wj_Staging_Laws\<close> and \<open>Wj_Staging_Binding\<close>
    say what is read back and what the index digest binds, \<open>Wj_Phase\<close> that a phase change is atomic.
  \<^descr> \<open>Wj_Residue\<close>, \<open>Wj_Exclusive\<close> (\<open>store/transaction.rs\<close>, \<open>store.rs\<close>): what a recovery leaves behind; the exclusive
    operation with its retained snapshot, the read loop and the presence proof behind the pending gate.
  \<^descr> \<open>Wj_Cache\<close>, \<open>Wj_Cache_Laws\<close> (\<open>proof_cache.rs\<close>): cache entries and their codec, the cache root, the locked
    dependency authorities, lookup, insertion and invalidation.
  \<^descr> \<open>Wj_Demo\<close> and the theories named \<open>_Examples\<close>: a concrete instance of \<open>ext\<close> that satisfies every law
    and the theorems evaluated at concrete stores.

  \<^bold>\<open>What is shown.\<close> Codecs: encoding and decoding are inverse and only canonical bytes are accepted.
  Batches: what is prepared is accepted, ownership validation is exact, manifests bind their
  members up to hash collisions. Revisions: exact, order-independent, streaming equals one-shot.
  Identity: one genesis record, bounded replay derives the same identity. Causal graphs: accepted
  exactly when closed and acyclic; the order is topological; ancestry queries stay within their
  budget. Folds: the conflict-free replicated data type they compute (values without a later
  writer, observed-remove catalogs), independent of presentation order. Scan: it accepts exactly the
  valid stores, within exact bounds. Transactions: publication is atomic under a crash at any fault
  point and any number of crashes during recovery, and it ends when it is not stopped. Checkpoint:
  writing is atomic and replacement is a compare-and-swap. Negotiation: exact. Replay: the external
  sorter ends and sorts, and the bounded replay validates exactly what the collecting scan accepts,
  on files spooled in any order and on the directories themselves. Proofs: a presence proof is made
  exactly for records of a store whose snapshot is the checkpoint's, and its identifier binds it.
  Exclusive operations: the retained snapshot is never stale, in every reachable state; reading ends
  after at most one recovery.
  Proof cache: a hit is a proof whose dependencies are the current revisions of their stores; what is
  inserted is found while it is current; invalidation removes every entry at the old revision.
  Pending synchronisation: staged additions are read back and bound by the index digest, a phase change is
  atomic, the gate opens exactly on an empty directory; cleanup empties a directory of abandoned slots within its
  bounds and changes nothing while a slot has a root document, readable or not.

  \<^bold>\<open>Bounds.\<close> \<open>json_limit\<close> (127) is the recursion limit of the JSON reader, a hypothesis of the
  round trips. \<open>MAX_REACHABILITY_STEPS\<close> (one million) is the source's budget of one ancestry query;
  the node limit keeps it from being exhausted. \<open>MAX_REPLAY_TEMPORARY_BYTES\<close> is the source's budget of
  temporary files; the replay theorems count what a store needs of it and take the bound as a
  hypothesis. Loops of the source are structural or have a proved measure; no fuel is introduced by
  the model. A legacy adapter, a client of the store, is a strategy tree that pulls entries, so that
  it may stop early, fail or read everything.

  \<^bold>\<open>Not modelled.\<close> \<open>federation/git.rs\<close> and the synchronisation in \<open>federation.rs\<close>, \<open>multi.rs\<close>, \<open>history.rs\<close> and
  \<open>quarantine.rs\<close> run git processes and act on what they print; \<open>store/bulk.rs\<close> links the files they stage.
  Of \<open>proof_cache.rs\<close>, \<open>open\<close> and the metadata checks that need owner, device or link count are left out.
  Locks, descriptor identity, device numbers and
  file synchronisation are effects of the operating system: the model runs one operation at a time,
  as the exclusive lock ensures, and a crash keeps the steps that were done.
\<close>

end
